(* ===== verification/Lampi_Prelude.thy ===== *)
theory Lampi_Prelude
  imports Main "HOL-Library.Word" "HOL-Library.Monad_Syntax" "HOL-Library.Signed_Division"
begin

section \<open>Shared types, constants and lemmas\<close>

text \<open>
  The conventions of the development and the facts its theories share.

  \<^item> A C function is a HOL function from its arguments and the state it uses to an \<open>option\<close>.
    \<open>None\<close> is the call that has no defined result: a null or dangling pointer is dereferenced,
    an array is accessed out of its bounds, an \<^verbatim>\<open>assert\<close> fails, an integer is divided by zero, or the
    call never returns because it spins on a lock that is already held. \<open>Some\<close> is a normal return,
    with the return code first.
  \<^item> \<^verbatim>\<open>int\<close> values are \<open>int\<close>; \<^verbatim>\<open>/\<close> and \<^verbatim>\<open>%\<close> on them are the truncating \<open>sdiv\<close> and \<open>smod\<close>. Where a sum, difference or product
    can leave the 32 bits of a C \<^verbatim>\<open>int\<close> it goes through \<open>c_int\<close>, and the call is undefined if it does. Loop counters and sums that
    stay below a number that is itself an \<^verbatim>\<open>int\<close> argument or the length of an array are not checked.
    \<^verbatim>\<open>size_t\<close>, \<^verbatim>\<open>ssize_t\<close> and \<^verbatim>\<open>MPI_Aint\<close> values are 64-bit words (the LP64 platforms of
    \<^verbatim>\<open>src/src/os\<close>), so that mixed arithmetic wraps as the C conversions make it wrap.
  \<^item> Return codes and the other named constants of \<^verbatim>\<open>mpi/constants.h\<close> and \<^verbatim>\<open>ulm/errors.h\<close>
    are abbreviations of their numeric values.
\<close>

unbundle bit_operations_syntax

named_theorems lampi_simps \<open>unfolding rules of small helper definitions\<close>

type_synonym size_t = "64 word"

subsection \<open>Constants of \<^verbatim>\<open>mpi/constants.h\<close>\<close>

abbreviation (input) MPI_SUCCESS :: int where "MPI_SUCCESS \<equiv> 0"
abbreviation (input) MPI_ERR_BUFFER :: int where "MPI_ERR_BUFFER \<equiv> 1"
abbreviation (input) MPI_ERR_COUNT :: int where "MPI_ERR_COUNT \<equiv> 2"
abbreviation (input) MPI_ERR_TYPE :: int where "MPI_ERR_TYPE \<equiv> 3"
abbreviation (input) MPI_ERR_COMM :: int where "MPI_ERR_COMM \<equiv> 5"
abbreviation (input) MPI_ERR_RANK :: int where "MPI_ERR_RANK \<equiv> 6"
abbreviation (input) MPI_ERR_REQUEST :: int where "MPI_ERR_REQUEST \<equiv> 7"
abbreviation (input) MPI_ERR_TOPOLOGY :: int where "MPI_ERR_TOPOLOGY \<equiv> 11"
abbreviation (input) MPI_ERR_DIMS :: int where "MPI_ERR_DIMS \<equiv> 12"
abbreviation (input) MPI_ERR_ARG :: int where "MPI_ERR_ARG \<equiv> 13"
abbreviation (input) MPI_ERR_UNKNOWN :: int where "MPI_ERR_UNKNOWN \<equiv> 14"
abbreviation (input) MPI_ERR_TRUNCATE :: int where "MPI_ERR_TRUNCATE \<equiv> 15"
abbreviation (input) MPI_ERR_OTHER :: int where "MPI_ERR_OTHER \<equiv> 16"
abbreviation (input) MPI_ERR_INTERN :: int where "MPI_ERR_INTERN \<equiv> 17"
abbreviation (input) MPI_ERR_PENDING :: int where "MPI_ERR_PENDING \<equiv> 18"
abbreviation (input) MPI_ERR_IN_STATUS :: int where "MPI_ERR_IN_STATUS \<equiv> 19"
abbreviation (input) MPI_ERR_NO_MEM :: int where "MPI_ERR_NO_MEM \<equiv> 40"
abbreviation (input) MPI_ERR_NO_SPACE :: int where "MPI_ERR_NO_SPACE \<equiv> 42"
abbreviation (input) MPI_PROC_NULL :: int where "MPI_PROC_NULL \<equiv> - 2"
abbreviation (input) MPI_UNDEFINED :: int where "MPI_UNDEFINED \<equiv> - 1"
abbreviation (input) MPI_COMM_WORLD :: int where "MPI_COMM_WORLD \<equiv> 1"
abbreviation (input) MPI_CART :: int where "MPI_CART \<equiv> 1"
abbreviation (input) MPI_GRAPH :: int where "MPI_GRAPH \<equiv> 2"
abbreviation (input) ULM_SUCCESS :: int where "ULM_SUCCESS \<equiv> 0"
abbreviation (input) ULM_ERROR :: int where "ULM_ERROR \<equiv> - 1"

subsection \<open>Arithmetic on \<^verbatim>\<open>int\<close>\<close>

definition int_range :: "int \<Rightarrow> bool" where
  "int_range x \<longleftrightarrow> - 2147483648 \<le> x \<and> x \<le> 2147483647"

definition c_int :: "int \<Rightarrow> int option" where
  "c_int x = (if int_range x then Some x else None)"

lemma c_int_Some [simp]: "int_range x \<Longrightarrow> c_int x = Some x"
  by (simp add: c_int_def)

lemma c_int_None [simp]: "\<not> int_range x \<Longrightarrow> c_int x = None"
  by (simp add: c_int_def)

lemma c_int_eq_Some: "c_int x = Some y \<longleftrightarrow> int_range x \<and> y = x"
  by (auto simp: c_int_def)

lemma int_range_between: "int_range a \<Longrightarrow> int_range b \<Longrightarrow> a \<le> x \<Longrightarrow> x \<le> b \<Longrightarrow> int_range x"
  by (simp add: int_range_def)

lemma int_range_nonneg: "0 \<le> x \<Longrightarrow> x \<le> b \<Longrightarrow> int_range b \<Longrightarrow> int_range x"
  by (simp add: int_range_def)

subsection \<open>Array accesses that may be out of bounds\<close>

definition arr_get :: "'a list \<Rightarrow> int \<Rightarrow> 'a option" where
  "arr_get xs i = (if 0 \<le> i \<and> i < int (length xs) then Some (xs ! nat i) else None)"

definition arr_set :: "'a list \<Rightarrow> int \<Rightarrow> 'a \<Rightarrow> 'a list option" where
  "arr_set xs i v = (if 0 \<le> i \<and> i < int (length xs) then Some (xs[nat i := v]) else None)"

lemma arr_get_Some: "arr_get xs i = Some v \<longleftrightarrow> 0 \<le> i \<and> i < int (length xs) \<and> v = xs ! nat i"
  by (auto simp: arr_get_def)

lemma arr_set_Some:
  "arr_set xs i v = Some ys \<longleftrightarrow> 0 \<le> i \<and> i < int (length xs) \<and> ys = xs[nat i := v]"
  by (auto simp: arr_set_def)

lemma arr_get_nat [simp]: "i < length xs \<Longrightarrow> arr_get xs (int i) = Some (xs ! i)"
  by (simp add: arr_get_def)

lemma arr_set_nat [simp]: "i < length xs \<Longrightarrow> arr_set xs (int i) v = Some (xs[i := v])"
  by (simp add: arr_set_def)

subsection \<open>Loops that may fail\<close>

text \<open>A \<^verbatim>\<open>for\<close> loop over the values \<open>xs\<close> whose body may have no defined result.\<close>

fun foldM :: "('s \<Rightarrow> 'a \<Rightarrow> 's option) \<Rightarrow> 's \<Rightarrow> 'a list \<Rightarrow> 's option" where
  "foldM f s [] = Some s"
| "foldM f s (x # xs) = Option.bind (f s x) (\<lambda>s'. foldM f s' xs)"

lemma foldM_append: "foldM f s (xs @ ys) = Option.bind (foldM f s xs) (\<lambda>s'. foldM f s' ys)"
  by (induction xs arbitrary: s) (auto split: bind_splits)

lemma foldM_invariant:
  assumes "foldM f s xs = Some s'" and "P s" and "\<And>s x s'. x \<in> set xs \<Longrightarrow> P s \<Longrightarrow> f s x = Some s' \<Longrightarrow> P s'"
  shows "P s'"
  using assms
proof (induction xs arbitrary: s)
  case (Cons x xs)
  from Cons.prems(1) obtain s1 where s1: "f s x = Some s1" "foldM f s1 xs = Some s'"
    by (auto split: bind_splits)
  have "P s1" using Cons.prems(3) [OF _ Cons.prems(2) s1(1)] by simp
  then show ?case by (rule Cons.IH [OF s1(2)]) (use Cons.prems(3) in auto)
qed simp

lemma foldM_total:
  assumes "P s" and "\<And>s x. x \<in> set xs \<Longrightarrow> P s \<Longrightarrow> \<exists>s'. f s x = Some s' \<and> P s'"
  shows "\<exists>s'. foldM f s xs = Some s' \<and> P s'"
  using assms
proof (induction xs arbitrary: s)
  case (Cons x xs)
  from Cons.prems(2) [of x s] Cons.prems(1) obtain s1 where "f s x = Some s1" "P s1" by auto
  with Cons show ?case by auto
qed simp

lemma those_map_Some [simp]: "those (map Some xs) = Some xs"
  by (induction xs) auto

lemma those_replicate_Some [simp]: "those (replicate n (Some x)) = Some (replicate n x)"
  by (induction n) auto

subsection \<open>C division\<close>

lemma sdiv_pos: "0 \<le> (a::int) \<Longrightarrow> 0 < b \<Longrightarrow> a sdiv b = a div b"
  by (cases "a = 0") (auto simp: signed_divide_int_def)

lemma smod_pos: "0 \<le> (a::int) \<Longrightarrow> 0 < b \<Longrightarrow> a smod b = a mod b"
  by (cases "a = 0") (auto simp: signed_modulo_int_def)

text \<open>\<^verbatim>\<open>c % n\<close>, made non-negative by adding \<^verbatim>\<open>n\<close> when it is negative, is \<open>mod\<close>.\<close>

lemma smod_fix:
  assumes "0 < (n::int)"
  shows "(if c smod n < 0 then c smod n + n else c smod n) = c mod n"
proof (cases "0 \<le> c")
  case True
  with assms show ?thesis by (simp add: smod_pos not_less)
next
  case False
  then have s: "c smod n = - ((- c) mod n)"
    using assms by (simp add: smod_int_alt_def)
  have "(- c) mod n = (if c mod n = 0 then 0 else n - c mod n)" by (simp add: zmod_zminus1_eq_if)
  moreover have "0 \<le> c mod n" "c mod n < n" using assms by simp_all
  ultimately show ?thesis unfolding s by (auto split: if_splits)
qed

end
