(* ===== verification/Ptr_Table.thy ===== *)
theory Ptr_Table
  imports Lampi_Prelude
begin

section \<open>The dynamic pointer table (\<^verbatim>\<open>mpi/internal/mpi_ptr_table.c\<close>)\<close>

text \<open>
  A growing array of pointers; the index of a slot is the Fortran handle of a datatype, request or
  operation, or the handle of an error handler. The record mirrors \<^verbatim>\<open>struct ptr_table_t\<close>, with the
  spin lock as a flag and the array as an optional list (\<open>None\<close> before the first insertion).
  The theory models the three operations, states their contract as the locale \<open>handle_table\<close>,
  proves the client facts there and interprets the locale on the operations.

  The argument \<open>th\<close> is \<^verbatim>\<open>lampiState.usethreads\<close>: the lock is taken only when it is set.
  The argument \<open>ok\<close> of the insertion says whether the one allocation it may need succeeds.
\<close>

subsection \<open>State and operations\<close>

record 'p ptr_table =
  pt_lock :: bool
  pt_lowest_free :: int
  pt_number_free :: int
  pt_size :: int
  pt_addr :: "'p option list option"

definition ptr_table_zero :: "'p ptr_table" where
  "ptr_table_zero = \<lparr>pt_lock = False, pt_lowest_free = 0, pt_number_free = 0, pt_size = 0,
     pt_addr = None\<rparr>"

definition atomic_lock_thread :: "bool \<Rightarrow> 'p ptr_table \<Rightarrow> 'p ptr_table option" where
  "atomic_lock_thread th t =
     (if th then if pt_lock t then None else Some (t\<lparr>pt_lock := True\<rparr>) else Some t)"

definition atomic_unlock_thread :: "bool \<Rightarrow> 'p ptr_table \<Rightarrow> 'p ptr_table" where
  "atomic_unlock_thread th t = (if th then t\<lparr>pt_lock := False\<rparr> else t)"

text \<open>The search for the next free slot; \<open>dflt\<close> is the value \<^verbatim>\<open>lowest_free\<close> keeps when the loop
  runs to its end.\<close>

function next_free :: "'p option list \<Rightarrow> int \<Rightarrow> int \<Rightarrow> int \<Rightarrow> int option" where
  "next_free a i n dflt =
     (if i < n then do {
        p \<leftarrow> arr_get a i;
        (if p = None then Some i else next_free a (i + 1) n dflt)
      } else Some dflt)"
  by pat_completeness auto
termination
  by (relation "measure (\<lambda>(a, i, n, dflt). nat (n - i))") auto

declare next_free.simps [simp del]

text \<open>The second half of \<^verbatim>\<open>_mpi_ptr_table_add\<close>: the asserts, the store and the search.\<close>

definition ptr_table_store :: "bool \<Rightarrow> 'p option \<Rightarrow> 'p ptr_table \<Rightarrow> (int \<times> 'p ptr_table) option" where
  "ptr_table_store th ptr t = do {
     a \<leftarrow> pt_addr t;
     (if pt_size t > 0 \<and> 0 \<le> pt_lowest_free t \<and> pt_lowest_free t < pt_size t
         \<and> pt_number_free t > 0 \<and> pt_number_free t \<le> pt_size t
      then do {
        let index = pt_lowest_free t;
        old \<leftarrow> arr_get a index;
        (if old = None then do {
           a' \<leftarrow> arr_set a index ptr;
           let nf = pt_number_free t - 1;
           lf \<leftarrow> (if nf > 0 then next_free a' (index + 1) (pt_size t) index
                  else Some (pt_size t));
           Some (index, atomic_unlock_thread th
                   (t\<lparr>pt_addr := Some a', pt_number_free := nf, pt_lowest_free := lf\<rparr>))
         } else None)
      } else None)
   }"

definition mpi_ptr_table_add ::
  "bool \<Rightarrow> bool \<Rightarrow> 'p option \<Rightarrow> 'p ptr_table \<Rightarrow> (int \<times> 'p ptr_table) option" where
  "mpi_ptr_table_add th ok ptr t0 = do {
     t \<leftarrow> atomic_lock_thread th t0;
     (case pt_addr t of
        None \<Rightarrow>
          if \<not> ok then Some (- 1, t)
          else ptr_table_store th ptr
                 (t\<lparr>pt_lowest_free := 0, pt_number_free := 1, pt_size := 1, pt_addr := Some [None]\<rparr>)
      | Some a \<Rightarrow>
          if pt_number_free t = 0 then
            if \<not> ok then Some (- 1, atomic_unlock_thread th t)
            else ptr_table_store th ptr
                   (t\<lparr>pt_lowest_free := pt_size t, pt_number_free := (2 - 1) * pt_size t,
                      pt_size := pt_size t * 2,
                      pt_addr := Some (take (nat (pt_size t)) a @ replicate (nat (pt_size t)) None)\<rparr>)
          else ptr_table_store th ptr t)
   }"

definition mpi_ptr_table_free :: "bool \<Rightarrow> int \<Rightarrow> 'p ptr_table \<Rightarrow> (int \<times> 'p ptr_table) option" where
  "mpi_ptr_table_free th index t0 =
     (case pt_addr t0 of
        None \<Rightarrow> None
      | Some a0 \<Rightarrow>
          if 0 \<le> index \<and> index < pt_size t0 then do {
            t \<leftarrow> atomic_lock_thread th t0;
            a \<leftarrow> arr_set a0 index None;
            Some (0, atomic_unlock_thread th
                    (t\<lparr>pt_addr := Some a,
                       pt_lowest_free := (if index < pt_lowest_free t then index else pt_lowest_free t),
                       pt_number_free := pt_number_free t + 1\<rparr>))
          } else None)"

definition mpi_ptr_table_lookup ::
  "bool \<Rightarrow> int \<Rightarrow> 'p ptr_table \<Rightarrow> ('p option \<times> 'p ptr_table) option" where
  "mpi_ptr_table_lookup th index t0 = do {
     t \<leftarrow> atomic_lock_thread th t0;
     a \<leftarrow> pt_addr t;
     (if 0 \<le> index \<and> index < pt_size t then do {
        p \<leftarrow> arr_get a index;
        Some (p, atomic_unlock_thread th t)
      } else None)
   }"

subsection \<open>Well-formed tables and their abstraction\<close>

text \<open>\<open>free_count\<close> counts the free slots; \<open>lowest_at a l\<close> says that \<open>l\<close> is the index of the first
  free slot, or the length of the array when it is full.\<close>

definition free_count :: "'p option list \<Rightarrow> int" where
  "free_count a = int (length (filter (\<lambda>p. p = None) a))"

definition lowest_at :: "'p option list \<Rightarrow> int \<Rightarrow> bool" where
  "lowest_at a l \<longleftrightarrow> 0 \<le> l \<and> l \<le> int (length a) \<and> (\<forall>i < nat l. a ! i \<noteq> None)
     \<and> (l < int (length a) \<longrightarrow> a ! nat l = None)"

definition pt_inv :: "'p ptr_table \<Rightarrow> bool" where
  "pt_inv t \<longleftrightarrow> \<not> pt_lock t \<and>
     (case pt_addr t of
        None \<Rightarrow> pt_lowest_free t = 0 \<and> pt_number_free t = 0 \<and> pt_size t = 0
      | Some a \<Rightarrow> a \<noteq> [] \<and> pt_size t = int (length a) \<and> pt_number_free t = free_count a
          \<and> lowest_at a (pt_lowest_free t))"

definition pt_map :: "'p ptr_table \<Rightarrow> int \<Rightarrow> 'p option" where
  "pt_map t h = (case pt_addr t of None \<Rightarrow> None
     | Some a \<Rightarrow> if 0 \<le> h \<and> h < int (length a) then a ! nat h else None)"

lemma pt_inv_zero: "pt_inv ptr_table_zero"
  by (simp add: pt_inv_def ptr_table_zero_def)

subsection \<open>The free-slot bookkeeping\<close>

lemma free_count_nonneg [simp]: "0 \<le> free_count a"
  by (simp add: free_count_def)

lemma free_count_simps [simp]:
  "free_count [] = 0"
  "free_count (None # a) = free_count a + 1"
  "free_count (Some p # a) = free_count a"
  by (simp_all add: free_count_def)

lemma free_count_replicate [simp]: "free_count (replicate n None) = int n"
  by (simp add: free_count_def)

lemma free_count_append: "free_count (a @ b) = free_count a + free_count b"
  by (simp add: free_count_def)

lemma free_count_le: "free_count a \<le> int (length a)"
  by (simp add: free_count_def)

lemma free_count_update_Some:
  "i < length a \<Longrightarrow> a ! i = None \<Longrightarrow> free_count (a[i := Some p]) = free_count a - 1"
proof (induction a arbitrary: i)
  case (Cons x a)
  then show ?case by (cases i; cases x) auto
qed simp

lemma free_count_update_None:
  "i < length a \<Longrightarrow> a ! i = Some p \<Longrightarrow> free_count (a[i := None]) = free_count a + 1"
proof (induction a arbitrary: i)
  case (Cons x a)
  then show ?case by (cases i; cases x) auto
qed simp

lemma free_count_0_iff: "free_count a = 0 \<longleftrightarrow> (\<forall>i < length a. a ! i \<noteq> None)"
  by (auto simp: free_count_def filter_empty_conv all_set_conv_all_nth)

lemma lowest_at_full: "free_count a = 0 \<Longrightarrow> lowest_at a (int (length a))"
  by (auto simp: lowest_at_def free_count_0_iff)

lemma lowest_at_hit: "lowest_at a l \<Longrightarrow> 0 < free_count a \<Longrightarrow> l < int (length a) \<and> a ! nat l = None"
proof -
  assume l: "lowest_at a l" and pos: "0 < free_count a"
  from pos obtain i where i: "i < length a" "a ! i = None"
    using free_count_0_iff [of a] by fastforce
  with l have "\<not> i < nat l" by (auto simp: lowest_at_def)
  with i have "l < int (length a)" by linarith
  with l show ?thesis by (auto simp: lowest_at_def)
qed

text \<open>The search returns the first free slot at or after \<open>i\<close>; it never leaves the array.\<close>

lemma next_free_finds:
  assumes "0 \<le> i" and "i \<le> k" and "k < n" and "n \<le> int (length a)" and "a ! nat k = None"
  shows "\<exists>j. next_free a i n d = Some j \<and> i \<le> j \<and> j < n \<and> a ! nat j = None
    \<and> (\<forall>m. i \<le> m \<longrightarrow> m < j \<longrightarrow> a ! nat m \<noteq> None)"
  using assms
proof (induction a i n d rule: next_free.induct)
  case (1 a i n d)
  then have i: "i < n" "arr_get a i = Some (a ! nat i)"
    by (auto simp: arr_get_def)
  show ?case
  proof (cases "a ! nat i = None")
    case True
    with i show ?thesis by (auto simp: next_free.simps [of a i])
  next
    case False
    with "1.prems" have "i + 1 \<le> k" by (metis add1_zle_eq order_le_less)
    with "1.IH" [OF i False] "1.prems" obtain j where
      j: "next_free a (i + 1) n d = Some j" "i + 1 \<le> j" "j < n" "a ! nat j = None"
        "\<forall>m. i + 1 \<le> m \<longrightarrow> m < j \<longrightarrow> a ! nat m \<noteq> None"
      by auto
    have "\<forall>m. i \<le> m \<longrightarrow> m < j \<longrightarrow> a ! nat m \<noteq> None"
      using j(5) False by (metis add1_zle_eq order_le_less)
    with j(1-4) i False show ?thesis by (auto simp: next_free.simps [of a i])
  qed
qed

subsection \<open>Correctness of the operations\<close>

definition pt_body :: "'p ptr_table \<Rightarrow> 'p option list \<Rightarrow> bool" where
  "pt_body t a \<longleftrightarrow> pt_addr t = Some a \<and> pt_size t = int (length a)
     \<and> pt_number_free t = free_count a \<and> lowest_at a (pt_lowest_free t)"

lemma pt_inv_body: "pt_inv t \<Longrightarrow> pt_addr t = Some a \<Longrightarrow> pt_body t a \<and> a \<noteq> [] \<and> \<not> pt_lock t"
  by (simp add: pt_inv_def pt_body_def)

lemma pt_body_inv: "pt_body t a \<Longrightarrow> a \<noteq> [] \<Longrightarrow> \<not> pt_lock t \<Longrightarrow> pt_inv t"
  by (simp add: pt_inv_def pt_body_def)

lemma pt_map_body: "pt_body t a \<Longrightarrow> pt_map t h = (if 0 \<le> h \<and> h < int (length a) then a ! nat h else None)"
  by (simp add: pt_map_def pt_body_def)

lemma next_lowest:
  assumes "lowest_at a l" and "0 < free_count a" and a': "a' = a[nat l := Some p]"
    and pos: "0 < free_count a'"
  shows "\<exists>j. next_free a' (l + 1) (int (length a)) l = Some j \<and> lowest_at a' j"
proof -
  from assms have l: "0 \<le> l" "l < int (length a)" "\<And>i. i < nat l \<Longrightarrow> a ! i \<noteq> None"
    using lowest_at_hit [of a l] by (auto simp: lowest_at_def)
  from pos obtain i where i: "i < length a'" "a' ! i = None"
    using free_count_0_iff [of a'] by fastforce
  have "l < int i"
  proof (rule ccontr)
    assume "\<not> l < int i"
    with i l a' show False by (cases "i = nat l") auto
  qed
  with i l a' obtain j where
    j: "next_free a' (l + 1) (int (length a)) l = Some j" "l + 1 \<le> j" "j < int (length a)"
      "a' ! nat j = None" "\<forall>m. l + 1 \<le> m \<longrightarrow> m < j \<longrightarrow> a' ! nat m \<noteq> None"
    using next_free_finds [of "l + 1" "int i" "int (length a)" a' l] by auto
  have "a' ! m \<noteq> None" if "m < nat j" for m
  proof (cases "int m \<le> l")
    case True
    with l(1,3) have "m = nat l \<or> m < nat l" by auto
    with l show ?thesis unfolding a' by (cases "m = nat l") (auto simp: nat_less_iff)
  next
    case False
    with j(5) that have "a' ! nat (int m) \<noteq> None" by (intro j(5) [rule_format]) auto
    then show ?thesis by simp
  qed
  with j a' l have "lowest_at a' j" by (auto simp: lowest_at_def)
  with j(1) show ?thesis by blast
qed

lemma ptr_table_store_ok:
  assumes t: "pt_body t a" and pos: "0 < free_count a"
  shows "\<exists>t'. ptr_table_store th (Some p) t = Some (pt_lowest_free t, t')
    \<and> pt_body t' (a[nat (pt_lowest_free t) := Some p]) \<and> pt_lock t' = (\<not> th \<and> pt_lock t)"
proof -
  define l where "l = pt_lowest_free t"
  define a' where "a' = a[nat l := Some p]"
  have l: "0 \<le> l" "l < int (length a)" "a ! nat l = None"
    using lowest_at_hit [of a l] t pos by (auto simp: l_def pt_body_def lowest_at_def)
  have c: "free_count a' = free_count a - 1"
    using l by (simp add: a'_def free_count_update_Some)
  have "\<exists>lf. (if free_count a - 1 > 0 then next_free a' (l + 1) (int (length a)) l
      else Some (int (length a))) = Some lf \<and> lowest_at a' lf"
  proof (cases "free_count a - 1 > 0")
    case True
    with next_lowest [of a l a' p] t pos c show ?thesis by (simp add: l_def a'_def pt_body_def)
  next
    case False
    with c pos have "free_count a' = 0" by simp
    then show ?thesis using lowest_at_full [of a'] False by (simp add: a'_def)
  qed
  then obtain lf where lf: "(if free_count a - 1 > 0 then next_free a' (l + 1) (int (length a)) l
      else Some (int (length a))) = Some lf" "lowest_at a' lf" by blast
  have g: "arr_get a l = Some None" "arr_set a l (Some p) = Some a'"
    using l by (auto simp: arr_get_def arr_set_def a'_def)
  have s: "ptr_table_store th (Some p) t = Some (l, atomic_unlock_thread th
      (t\<lparr>pt_addr := Some a', pt_number_free := free_count a - 1, pt_lowest_free := lf\<rparr>))"
    using t pos l g lf(1) free_count_le [of a]
    by (auto simp: ptr_table_store_def pt_body_def simp flip: l_def split: if_splits)
  show ?thesis
    using s lf(2) c t unfolding l_def [symmetric] a'_def [symmetric]
    by (auto simp: pt_body_def atomic_unlock_thread_def a'_def)
qed

text \<open>What an insertion does when its allocation succeeds: it takes the first free slot, growing the
  array when it is full.\<close>

lemma mpi_ptr_table_add_ok:
  assumes inv: "pt_inv t"
  shows "\<exists>h t'. mpi_ptr_table_add th True (Some p) t = Some (h, t') \<and> pt_inv t' \<and> 0 \<le> h
    \<and> pt_map t h = None \<and> (\<forall>k. 0 \<le> k \<longrightarrow> k < h \<longrightarrow> pt_map t k \<noteq> None)
    \<and> pt_map t' = (pt_map t)(h \<mapsto> p)"
proof -
  define t1 where "t1 = t\<lparr>pt_lock := th\<rparr>"
  have t1: "atomic_lock_thread th t = Some t1"
    using inv by (simp add: atomic_lock_thread_def pt_inv_def t1_def)
  obtain t2 a where store: "mpi_ptr_table_add th True (Some p) t = ptr_table_store th (Some p) t2"
    and t2: "pt_body t2 a" "pt_lock t2 = th" "0 < free_count a" "a \<noteq> []"
    and same: "\<And>h. pt_map t h = (if 0 \<le> h \<and> h < int (length a) then a ! nat h else None)"
  proof (cases "pt_addr t")
    case None
    with t1 show ?thesis
      by (intro that [of "t1\<lparr>pt_lowest_free := 0, pt_number_free := 1, pt_size := 1,
            pt_addr := Some [None]\<rparr>" "[None]"])
        (auto simp: mpi_ptr_table_add_def t1_def pt_body_def lowest_at_def pt_map_def nth_Cons')
  next
    case (Some b)
    with inv have b: "pt_body t b" "b \<noteq> []" by (auto dest: pt_inv_body)
    show ?thesis
    proof (cases "free_count b = 0")
      case True
      define c where "c = b @ replicate (length b) None"
      have "\<forall>i < length b. b ! i \<noteq> None" using True by (simp add: free_count_0_iff)
      then have "lowest_at c (int (length b))"
        using b(2) by (auto simp: lowest_at_def c_def nth_append)
      then show ?thesis using True t1 b Some
        by (intro that [of "t1\<lparr>pt_lowest_free := pt_size t1, pt_number_free := (2 - 1) * pt_size t1,
              pt_size := pt_size t1 * 2, pt_addr := Some c\<rparr>" c])
          (auto simp: mpi_ptr_table_add_def t1_def pt_body_def c_def free_count_append pt_map_def
             nth_append)
    next
      case False
      then have "0 < free_count b" using free_count_nonneg [of b] by linarith
      with False t1 b Some show ?thesis
        by (intro that [of t1 b]) (auto simp: mpi_ptr_table_add_def t1_def pt_body_def pt_map_def)
    qed
  qed
  define h where "h = pt_lowest_free t2"
  have h: "0 \<le> h" "h < int (length a)" "a ! nat h = None" "\<forall>i < nat h. a ! i \<noteq> None"
    using lowest_at_hit [of a h] t2 by (auto simp: h_def pt_body_def lowest_at_def)
  from ptr_table_store_ok [OF t2(1,3), of th p] t2(2) obtain t' where
    t': "ptr_table_store th (Some p) t2 = Some (h, t')" "pt_body t' (a[nat h := Some p])" "\<not> pt_lock t'"
    by (auto simp: h_def)
  have "pt_map t' = (pt_map t)(h \<mapsto> p)"
    using h by (auto simp: fun_eq_iff pt_map_body [OF t'(2)] same nth_list_update)
  moreover have "pt_inv t'" using t'(3) t2(4) by (intro pt_body_inv [OF t'(2)]) auto
  moreover have "\<forall>k. 0 \<le> k \<longrightarrow> k < h \<longrightarrow> pt_map t k \<noteq> None" using h by (auto simp: same)
  ultimately show ?thesis using store t'(1) h same by auto
qed

lemma mpi_ptr_table_free_ok:
  assumes inv: "pt_inv t" and h: "pt_map t h = Some p"
  shows "\<exists>t'. mpi_ptr_table_free th h t = Some (0, t') \<and> pt_inv t' \<and> pt_map t' = (pt_map t)(h := None)"
proof -
  from h obtain a where a: "pt_addr t = Some a" "0 \<le> h" "h < int (length a)" "a ! nat h = Some p"
    by (auto simp: pt_map_def split: option.splits if_splits)
  with inv have b: "pt_body t a" "a \<noteq> []" "\<not> pt_lock t" by (auto dest: pt_inv_body)
  define a' where "a' = a[nat h := None]"
  define t' where "t' = t\<lparr>pt_addr := Some a',
    pt_lowest_free := (if h < pt_lowest_free t then h else pt_lowest_free t),
    pt_number_free := pt_number_free t + 1\<rparr>"
  have "h \<noteq> pt_lowest_free t"
    using a b(1) by (auto simp: pt_body_def lowest_at_def)
  then have "lowest_at a' (if h < pt_lowest_free t then h else pt_lowest_free t)"
    using a b(1) by (auto simp: pt_body_def lowest_at_def a'_def nth_list_update)
  then have t': "pt_body t' a'" "\<not> pt_lock t'"
    using a b free_count_update_None [of "nat h" a p] by (auto simp: pt_body_def t'_def a'_def)
  have "mpi_ptr_table_free th h t = Some (0, t')"
    using a b by (auto simp: mpi_ptr_table_free_def atomic_lock_thread_def atomic_unlock_thread_def
      arr_set_def pt_body_def t'_def a'_def)
  moreover have "pt_inv t'" using t'(2) b(2) by (intro pt_body_inv [OF t'(1)]) (auto simp: a'_def)
  moreover have "pt_map t' = (pt_map t)(h := None)"
    using a by (auto simp: fun_eq_iff pt_map_body [OF t'(1)] pt_map_body [OF b(1)] a'_def nth_list_update)
  ultimately show ?thesis by blast
qed

lemma mpi_ptr_table_lookup_ok:
  assumes "pt_inv t" and "pt_map t h = Some p"
  shows "mpi_ptr_table_lookup th h t = Some (Some p, t)"
  using assms
  by (auto simp: mpi_ptr_table_lookup_def pt_map_def pt_inv_def atomic_lock_thread_def
    atomic_unlock_thread_def arr_get_def split: option.splits if_splits)

subsection \<open>The contract of a handle table\<close>

datatype 'p ht_op = HAdd 'p | HFree int

text \<open>A run of insertions and removals, with the value each call returns.\<close>

fun ht_run :: "('p \<Rightarrow> 't \<Rightarrow> (int \<times> 't) option) \<Rightarrow> (int \<Rightarrow> 't \<Rightarrow> (int \<times> 't) option) \<Rightarrow>
    'p ht_op list \<Rightarrow> 't \<Rightarrow> (int list \<times> 't) option" where
  "ht_run add free [] t = Some ([], t)"
| "ht_run add free (op # ops) t = do {
     (r, t1) \<leftarrow> (case op of HAdd p \<Rightarrow> add p t | HFree h \<Rightarrow> free h t);
     (rs, t2) \<leftarrow> ht_run add free ops t1;
     Some (r # rs, t2)
   }"

text \<open>A run is legal when it frees live handles only.\<close>

fun ht_legal :: "('p \<Rightarrow> 't \<Rightarrow> (int \<times> 't) option) \<Rightarrow> (int \<Rightarrow> 't \<Rightarrow> (int \<times> 't) option) \<Rightarrow>
    ('t \<Rightarrow> int \<Rightarrow> 'p option) \<Rightarrow> 'p ht_op list \<Rightarrow> 't \<Rightarrow> bool" where
  "ht_legal add free live [] t = True"
| "ht_legal add free live (HAdd p # ops) t =
     (case add p t of None \<Rightarrow> True | Some (h, t1) \<Rightarrow> ht_legal add free live ops t1)"
| "ht_legal add free live (HFree h # ops) t =
     (live t h \<noteq> None \<and> (case free h t of None \<Rightarrow> True | Some (r, t1) \<Rightarrow> ht_legal add free live ops t1))"

locale handle_table =
  fixes add :: "'p \<Rightarrow> 't \<Rightarrow> (int \<times> 't) option"
    and free :: "int \<Rightarrow> 't \<Rightarrow> (int \<times> 't) option"
    and lookup :: "int \<Rightarrow> 't \<Rightarrow> ('p option \<times> 't) option"
    and live :: "'t \<Rightarrow> int \<Rightarrow> 'p option"
    and ok_tab :: "'t \<Rightarrow> bool"
  assumes add_ok: "ok_tab t \<Longrightarrow> \<exists>h t'. add p t = Some (h, t') \<and> ok_tab t' \<and> 0 \<le> h \<and> live t h = None
      \<and> (\<forall>k. 0 \<le> k \<longrightarrow> k < h \<longrightarrow> live t k \<noteq> None) \<and> live t' = (live t)(h \<mapsto> p)"
    and free_ok: "ok_tab t \<Longrightarrow> live t h = Some p \<Longrightarrow>
      \<exists>t'. free h t = Some (0, t') \<and> ok_tab t' \<and> live t' = (live t)(h := None)"
    and lookup_ok: "ok_tab t \<Longrightarrow> live t h = Some p \<Longrightarrow> lookup h t = Some (Some p, t)"
begin

lemma add_fresh: "ok_tab t \<Longrightarrow> add p t = Some (h, t') \<Longrightarrow> live t k = Some q \<Longrightarrow> k \<noteq> h"
  using add_ok [of t p] by auto

lemma add_lookup: "ok_tab t \<Longrightarrow> add p t = Some (h, t') \<Longrightarrow> lookup h t' = Some (Some p, t')"
  using add_ok [of t p] by (auto intro!: lookup_ok)

lemma run_ok:
  assumes "ok_tab t" and "ht_legal add free live ops t"
  shows "\<exists>rs t'. ht_run add free ops t = Some (rs, t') \<and> ok_tab t' \<and> length rs = length ops
    \<and> (\<forall>h p. live t h = Some p \<longrightarrow> HFree h \<notin> set ops \<longrightarrow> live t' h = Some p)"
  using assms
proof (induction ops arbitrary: t)
  case Nil
  then show ?case by simp
next
  case (Cons op ops)
  show ?case
  proof (cases op)
    case (HAdd p)
    from add_ok [OF Cons.prems(1), of p] obtain h t1 where
      t1: "add p t = Some (h, t1)" "ok_tab t1" "live t h = None" "live t1 = (live t)(h \<mapsto> p)" by blast
    with Cons.prems HAdd Cons.IH [of t1] show ?thesis by (fastforce split: if_splits)
  next
    case (HFree k)
    with Cons.prems obtain q where "live t k = Some q" by auto
    from free_ok [OF Cons.prems(1) this] obtain t1 where
      t1: "free k t = Some (0, t1)" "ok_tab t1" "live t1 = (live t)(k := None)" by blast
    with Cons.prems HFree Cons.IH [of t1] show ?thesis by fastforce
  qed
qed

lemma run_lookup:
  assumes "ok_tab t" and "ht_legal add free live ops t"
  shows "\<exists>rs t'. ht_run add free ops t = Some (rs, t') \<and> ok_tab t'
    \<and> (\<forall>h p. live t h = Some p \<longrightarrow> HFree h \<notin> set ops \<longrightarrow> lookup h t' = Some (Some p, t'))"
  using run_ok [OF assms] lookup_ok by blast

end

interpretation pt: handle_table "\<lambda>p. mpi_ptr_table_add th True (Some p)" "mpi_ptr_table_free th"
  "mpi_ptr_table_lookup th" pt_map pt_inv
  for th
  by unfold_locales
    (fact mpi_ptr_table_add_ok mpi_ptr_table_free_ok mpi_ptr_table_lookup_ok)+

subsection \<open>Properties\<close>

text \<open>C5: refinement of a finite map from handles to pointers. On a well-formed table whose allocation
  succeeds, an insertion returns the smallest handle that is not in use, adds exactly that entry and
  keeps the table well-formed; removing a live handle removes exactly that entry; looking a live handle
  up returns its pointer and changes nothing. None of the calls fails an assertion or leaves the array.\<close>

theorem ptr_table_refines_map:
  assumes "pt_inv t"
  shows "(\<exists>h t'. mpi_ptr_table_add th True (Some p) t = Some (h, t') \<and> pt_inv t' \<and> 0 \<le> h
      \<and> pt_map t h = None \<and> (\<forall>k. 0 \<le> k \<longrightarrow> k < h \<longrightarrow> pt_map t k \<noteq> None)
      \<and> pt_map t' = (pt_map t)(h \<mapsto> p))
    \<and> (\<forall>k q. pt_map t k = Some q \<longrightarrow>
         (\<exists>t'. mpi_ptr_table_free th k t = Some (0, t') \<and> pt_inv t' \<and> pt_map t' = (pt_map t)(k := None))
       \<and> mpi_ptr_table_lookup th k t = Some (Some q, t))"
  using pt.add_ok [OF assms] pt.free_ok [OF assms] pt.lookup_ok [OF assms] by blast

theorem ptr_table_refines_map_witness:
  "\<exists>h t'. mpi_ptr_table_add True True (Some (7::nat)) ptr_table_zero = Some (h, t') \<and> pt_inv t'"
  using ptr_table_refines_map [of ptr_table_zero True "7::nat"] pt_inv_zero by blast

text \<open>Handles are stable. Whatever sequence of insertions and of removals of live handles is run on a
  well-formed table, every call returns, and a handle that was live before and was not freed by the
  sequence still yields the same pointer.\<close>

theorem ptr_table_handle_stable:
  assumes "pt_inv t"
    and "ht_legal (\<lambda>p. mpi_ptr_table_add th True (Some p)) (mpi_ptr_table_free th) pt_map ops t"
  shows "\<exists>rs t'. ht_run (\<lambda>p. mpi_ptr_table_add th True (Some p)) (mpi_ptr_table_free th) ops t
      = Some (rs, t') \<and> pt_inv t'
    \<and> (\<forall>h p. pt_map t h = Some p \<longrightarrow> HFree h \<notin> set ops \<longrightarrow>
         mpi_ptr_table_lookup th h t' = Some (Some p, t'))"
  using pt.run_lookup [OF assms] .

theorem ptr_table_handle_stable_witness:
  "\<exists>rs t'. ht_run (\<lambda>p. mpi_ptr_table_add True True (Some p)) (mpi_ptr_table_free True)
      [HAdd (5::nat), HAdd 6, HFree 0, HAdd 8] ptr_table_zero = Some (rs, t') \<and> pt_inv t'"
proof -
  have "ht_legal (\<lambda>p. mpi_ptr_table_add True True (Some p)) (mpi_ptr_table_free True) pt_map
      [HAdd (5::nat), HAdd 6, HFree 0, HAdd 8] ptr_table_zero"
    by code_simp
  from ptr_table_handle_stable [OF pt_inv_zero this] show ?thesis by blast
qed

text \<open>A failed first allocation leaves the lock held. With threads in use, when the very first
  insertion cannot allocate its array it returns \<open>-1\<close> without releasing the lock, and every later
  insertion and every later lookup on that table spins forever.\<close>

theorem ptr_table_add_init_failure_deadlocks:
  assumes "pt_addr t = None" and "\<not> pt_lock t"
  shows "\<exists>t'. mpi_ptr_table_add True False p t = Some (- 1, t')
    \<and> (\<forall>ok q. mpi_ptr_table_add True ok q t' = None) \<and> (\<forall>h. mpi_ptr_table_lookup True h t' = None)"
  using assms
  by (simp add: mpi_ptr_table_add_def mpi_ptr_table_lookup_def atomic_lock_thread_def)

theorem ptr_table_add_init_failure_deadlocks_witness:
  "\<exists>t'. mpi_ptr_table_add True False (Some (1::nat)) ptr_table_zero = Some (- 1, t')
    \<and> (\<forall>ok q. mpi_ptr_table_add True ok q t' = None) \<and> (\<forall>h. mpi_ptr_table_lookup True h t' = None)"
  using ptr_table_add_init_failure_deadlocks [of "ptr_table_zero :: nat ptr_table" "Some 1"]
  by (simp add: ptr_table_zero_def)

end
