(* ===== verification/Dims.thy ===== *)
theory Dims
  imports Lampi_Prelude "HOL-Library.Multiset"
begin

section \<open>Balanced process grids (\<^verbatim>\<open>mpi/c/mpi_dims_create.c\<close>)\<close>

text \<open>
  \<^verbatim>\<open>PMPI_Dims_create\<close> and its helper \<^verbatim>\<open>allocate_prime_factor_array\<close>. The two factorisation passes
  of the helper (one counts the factors, one stores them from the end of the array) are separate
  definitions, as in the source; both are \<open>partial_function\<close>s, so that termination is a theorem.
  The result of \<open>PMPI_Dims_create\<close> is the return code, the final contents of the array \<^verbatim>\<open>dims\<close> and
  the calls of the error handler, as pairs of communicator and code.
\<close>

subsection \<open>The prime factor array\<close>

partial_function (option) strip_count :: "int \<Rightarrow> int \<Rightarrow> int \<Rightarrow> int \<Rightarrow> (int \<times> int \<times> int) option" where
  "strip_count factor remainder prd cnt =
     (let trial_remainder = remainder sdiv factor in
      if remainder = trial_remainder * factor
      then strip_count factor trial_remainder (prd * factor) (cnt + 1)
      else Some (remainder, prd, cnt))"

partial_function (option) count_factors ::
    "int \<Rightarrow> int \<Rightarrow> int \<Rightarrow> int \<Rightarrow> int \<Rightarrow> (int \<times> int) option" where
  "count_factors n remainder prd factor cnt =
     Option.bind (strip_count factor remainder prd cnt) (\<lambda>(remainder', prd', cnt').
       if prd' < n then count_factors n remainder' prd' (factor + 1) cnt'
       else Some (prd', cnt'))"

partial_function (option) strip_fill ::
    "int \<Rightarrow> int \<Rightarrow> int \<Rightarrow> int \<Rightarrow> int list \<Rightarrow> (int \<times> int \<times> int \<times> int list) option" where
  "strip_fill factor remainder prd cnt prime =
     (let trial_remainder = remainder sdiv factor in
      if remainder = trial_remainder * factor
      then Option.bind (arr_set prime (cnt - 1) factor)
             (\<lambda>prime'. strip_fill factor trial_remainder (prd * factor) (cnt - 1) prime')
      else Some (remainder, prd, cnt, prime))"

partial_function (option) fill_factors ::
    "int \<Rightarrow> int \<Rightarrow> int \<Rightarrow> int \<Rightarrow> int \<Rightarrow> int list \<Rightarrow> (int \<times> int list) option" where
  "fill_factors n remainder prd factor cnt prime =
     Option.bind (strip_fill factor remainder prd cnt prime)
       (\<lambda>(remainder', prd', cnt', prime').
          if prd' < n then fill_factors n remainder' prd' (factor + 1) cnt' prime'
          else Some (prd', prime'))"

text \<open>\<open>ok\<close> says whether \<^verbatim>\<open>ulm_malloc\<close> succeeds; the result \<open>Some None\<close> is the null pointer.\<close>

definition allocate_prime_factor_array :: "bool \<Rightarrow> int \<Rightarrow> int list option option" where
  "allocate_prime_factor_array ok n =
     (if \<not> n > 1 then None
      else do {
        (prd, cnt) \<leftarrow> count_factors n n 1 2 0;
        (if prd \<noteq> n \<or> \<not> cnt > 0 then None
         else if \<not> ok then Some None
         else do {
           (prd', prime) \<leftarrow> fill_factors n n 1 2 cnt (replicate (nat cnt) 0);
           (if prd' \<noteq> n then None else Some (Some prime))
         })
      })"

subsection \<open>The grid\<close>

text \<open>The loop over the given dimensions: \<open>None\<close> is the branch to the error handler with
  \<^verbatim>\<open>MPI_ERR_DIMS\<close>.\<close>

fun check_dims :: "int \<Rightarrow> int list \<Rightarrow> int \<Rightarrow> int \<Rightarrow> (int \<times> int) option" where
  "check_dims nnodes [] nfreeprocs nfreedims = Some (nfreeprocs, nfreedims)"
| "check_dims nnodes (d # ds) nfreeprocs nfreedims =
     (if d = 0 then check_dims nnodes ds nfreeprocs (nfreedims + 1)
      else if d < 0 then None
      else if nnodes smod d \<noteq> 0 then None
      else check_dims nnodes ds (nfreeprocs sdiv d) nfreedims)"

text \<open>The index of the first smallest element of \<^verbatim>\<open>freedims\<close>.\<close>

fun smallest_from :: "int list \<Rightarrow> nat \<Rightarrow> nat list \<Rightarrow> nat" where
  "smallest_from freedims smallest [] = smallest"
| "smallest_from freedims smallest (j # js) =
     smallest_from freedims (if freedims ! j < freedims ! smallest then j else smallest) js"

definition smallest_index :: "int list \<Rightarrow> nat" where
  "smallest_index freedims = smallest_from freedims 0 [1..<length freedims]"

fun assign_primes :: "int list \<Rightarrow> int list \<Rightarrow> int list" where
  "assign_primes [] freedims = freedims"
| "assign_primes (p # ps) freedims =
     (let s = smallest_index freedims in assign_primes ps (freedims[s := freedims ! s * p]))"

text \<open>The exchange sort: for every \<open>i\<close>, for every \<open>j > i\<close>.\<close>

fun exchange_inner :: "nat \<Rightarrow> nat list \<Rightarrow> int list \<Rightarrow> int list" where
  "exchange_inner i [] xs = xs"
| "exchange_inner i (j # js) xs =
     exchange_inner i js (if xs ! j > xs ! i then xs[i := xs ! j, j := xs ! i] else xs)"

fun exchange_outer :: "nat list \<Rightarrow> int list \<Rightarrow> int list" where
  "exchange_outer [] xs = xs"
| "exchange_outer (i # is) xs = exchange_outer is (exchange_inner i [i + 1..<length xs] xs)"

definition exchange_sort :: "int list \<Rightarrow> int list" where
  "exchange_sort xs = exchange_outer [0..<length xs] xs"

fun put_freedims :: "int list \<Rightarrow> int list \<Rightarrow> int list option" where
  "put_freedims [] fs = Some []"
| "put_freedims (d # ds) fs =
     (if d = 0 then (case fs of [] \<Rightarrow> None | f # fs' \<Rightarrow> map_option ((#) f) (put_freedims ds fs'))
      else map_option ((#) d) (put_freedims ds fs))"

text \<open>\<open>ok1\<close> and \<open>ok2\<close> say whether the two allocations succeed (the prime array, then \<^verbatim>\<open>freedims\<close>).
  \<open>dims = None\<close> is the null pointer; an array shorter than \<open>ndims\<close> is read out of bounds.\<close>

definition dims_errhandler :: "int \<Rightarrow> int list option \<Rightarrow> int \<times> int list option \<times> (int \<times> int) list" where
  "dims_errhandler rc dims = (rc, dims, [(MPI_COMM_WORLD, rc)])"

definition PMPI_Dims_create :: "bool \<Rightarrow> bool \<Rightarrow> int \<Rightarrow> int \<Rightarrow> int list option \<Rightarrow>
    (int \<times> int list option \<times> (int \<times> int) list) option" where
  "PMPI_Dims_create ok1 ok2 nnodes ndims dims =
     (if nnodes \<le> 0 \<or> ndims < 1 \<or> dims = None then Some (dims_errhandler MPI_ERR_DIMS dims)
      else let ds = the dims in
      if int (length ds) < ndims then None
      else case check_dims nnodes (take (nat ndims) ds) nnodes 0 of
        None \<Rightarrow> Some (dims_errhandler MPI_ERR_DIMS dims)
      | Some (nfreeprocs, nfreedims) \<Rightarrow>
          if nfreedims = 0 then
            if nfreeprocs = 1 then Some (MPI_SUCCESS, dims, [])
            else Some (dims_errhandler MPI_ERR_DIMS dims)
          else if nfreeprocs < 1 then Some (dims_errhandler MPI_ERR_DIMS dims)
          else if nfreeprocs = 1 then
            Some (MPI_SUCCESS,
              Some (map (\<lambda>d. if d = 0 then 1 else d) (take (nat ndims) ds) @ drop (nat ndims) ds), [])
          else do {
            primes \<leftarrow> allocate_prime_factor_array ok1 nfreeprocs;
            (case primes of
               None \<Rightarrow> Some (dims_errhandler MPI_ERR_OTHER dims)
             | Some ps \<Rightarrow>
                 if \<not> ok2 then Some (dims_errhandler MPI_ERR_OTHER dims)
                 else do {
                   let freedims = exchange_sort (assign_primes ps (replicate (nat nfreedims) 1));
                   ds' \<leftarrow> put_freedims (take (nat ndims) ds) freedims;
                   Some (MPI_SUCCESS, Some (ds' @ drop (nat ndims) ds), [])
                 })
          })"

declare strip_count.simps [code] count_factors.simps [code] strip_fill.simps [code]
  fill_factors.simps [code]

subsection \<open>The factorisation loops\<close>

definition is_prime :: "int \<Rightarrow> bool" where
  "is_prime p \<longleftrightarrow> 1 < p \<and> (\<forall>d. 1 < d \<longrightarrow> d < p \<longrightarrow> \<not> d dvd p)"

lemma sdiv_exact: "0 < (r::int) \<Longrightarrow> 1 < f \<Longrightarrow> r = r sdiv f * f \<longleftrightarrow> f dvd r"
  by (metis dvd_div_mult_self dvd_triv_right less_imp_le less_trans sdiv_pos zero_less_one)

lemma strip_step:
  assumes "0 < r" and "1 < f"
  shows "strip_count f r prd cnt =
      (if f dvd r then strip_count f (r div f) (prd * f) (cnt + 1) else Some (r, prd, cnt))"
    and "strip_fill f r prd cnt a =
      (if f dvd r then Option.bind (arr_set a (cnt - 1) f)
         (strip_fill f (r div f) (prd * f) (cnt - 1)) else Some (r, prd, cnt, a))"
  using assms sdiv_exact [OF assms] sdiv_pos [of r f]
  by (simp_all add: strip_count.simps [of f r] strip_fill.simps [of f r] Let_def)

lemma arr_set_snoc: "arr_set (xs @ x # ys) (int (length xs)) v = Some (xs @ v # ys)"
  by (simp add: arr_set_def)

text \<open>Both inner loops divide out the same power of the factor, and the second stores it that often.\<close>

lemma strip_ok:
  assumes "0 < r" and "1 < f"
  shows "\<exists>k r'. r = f ^ k * r' \<and> 0 < r' \<and> \<not> f dvd r'
    \<and> (\<forall>prd cnt. strip_count f r prd cnt = Some (r', prd * f ^ k, cnt + int k))
    \<and> (\<forall>prd xs ys. k \<le> length xs \<longrightarrow> strip_fill f r prd (int (length xs)) (xs @ ys) =
         Some (r', prd * f ^ k, int (length xs - k), take (length xs - k) xs @ replicate k f @ ys))"
  using assms
proof (induction "nat r" arbitrary: r rule: less_induct)
  case less
  show ?case
  proof (cases "f dvd r")
    case False
    with less.prems show ?thesis by (intro exI [of _ 0] exI [of _ r]) (simp add: strip_step)
  next
    case True
    then obtain r1 where r1: "r = f * r1" ..
    with less.prems have pos: "0 < r1" and lt: "r1 < r"
      by (auto simp: zero_less_mult_iff)
    from less.hyps [of r1] pos lt less.prems obtain k r' where
      k: "r1 = f ^ k * r'" "0 < r'" "\<not> f dvd r'"
        "\<And>prd cnt. strip_count f r1 prd cnt = Some (r', prd * f ^ k, cnt + int k)"
        "\<And>prd xs ys. k \<le> length xs \<Longrightarrow> strip_fill f r1 prd (int (length xs)) (xs @ ys) =
           Some (r', prd * f ^ k, int (length xs - k), take (length xs - k) xs @ replicate k f @ ys)"
      by (auto simp: nat_mono_iff)
    have d: "r div f = r1" using r1 less.prems by simp
    have fill: "strip_fill f r prd (int (length xs)) (xs @ ys) =
        Some (r', prd * f ^ Suc k, int (length xs - Suc k),
          take (length xs - Suc k) xs @ replicate (Suc k) f @ ys)"
      if "Suc k \<le> length xs" for prd xs ys
    proof -
      from that obtain zs z where xs: "xs = zs @ [z]" by (metis Zero_not_Suc le_zero_eq list.size(3) rev_exhaust)
      with that k(5) [of zs "prd * f" "f # ys"] True d less.prems arr_set_snoc [of zs z ys f]
      show ?thesis
        by (simp add: strip_step mult.assoc replicate_append_same [symmetric])
    qed
    show ?thesis using k r1 d True fill less.prems
      by (intro exI [of _ "Suc k"] exI [of _ r']) (auto simp: strip_step mult.assoc)
  qed
qed

lemma prod_list_replicate [simp]: "prod_list (replicate k (x::int)) = x ^ k"
  by (induction k) auto

lemma sorted_replicate_append:
  "sorted fs \<Longrightarrow> (\<And>p. p \<in> set fs \<Longrightarrow> f \<le> p) \<Longrightarrow> sorted (replicate k (f::int) @ fs)"
  by (induction k) auto

lemma is_prime_least_divisor:
  assumes "1 < f" and "f dvd r" and "\<And>d. 1 < d \<Longrightarrow> d < f \<Longrightarrow> \<not> d dvd r"
  shows "is_prime f"
  using assms unfolding is_prime_def by (metis dvd_trans)

text \<open>Both outer loops visit the same ascending list of prime factors: the first counts it, the second
  stores it in reverse.\<close>

lemma factors_ok:
  assumes "1 < r" and "1 < f" and "0 < prd" and "r * prd = n"
    and "\<And>d. 1 < d \<Longrightarrow> d < f \<Longrightarrow> \<not> d dvd r"
  shows "\<exists>fs. fs \<noteq> [] \<and> sorted fs \<and> (\<forall>p \<in> set fs. is_prime p \<and> f \<le> p) \<and> prod_list fs = r
    \<and> (\<forall>cnt. count_factors n r prd f cnt = Some (n, cnt + int (length fs)))
    \<and> (\<forall>xs ys. length fs \<le> length xs \<longrightarrow> fill_factors n r prd f (int (length xs)) (xs @ ys) =
         Some (n, take (length xs - length fs) xs @ rev fs @ ys))"
  using assms
proof (induction "nat (r + 1 - f)" arbitrary: r f prd rule: less_induct)
  case less
  have "f \<le> r" using less.prems by (metis dvd_refl not_le)
  from strip_ok [of r f] less.prems obtain k r' where
    k: "r = f ^ k * r'" "0 < r'" "\<not> f dvd r'"
      "\<And>prd cnt. strip_count f r prd cnt = Some (r', prd * f ^ k, cnt + int k)"
      "\<And>prd xs ys. k \<le> length xs \<Longrightarrow> strip_fill f r prd (int (length xs)) (xs @ ys) =
         Some (r', prd * f ^ k, int (length xs - k), take (length xs - k) xs @ replicate k f @ ys)"
    by auto
  have n: "r' * (prd * f ^ k) = n" using k(1) less.prems(4) by (simp add: ac_simps)
  have pp: "0 < prd * f ^ k" using less.prems by simp
  have prime_f: "is_prime f" if "0 < k"
  proof (rule is_prime_least_divisor)
    show "f dvd r" using k(1) that by (simp add: dvd_power)
  qed (use less.prems in auto)
  show ?case
  proof (cases "prd * f ^ k < n")
    case False
    have "r' = 1"
    proof (rule ccontr)
      assume "r' \<noteq> 1"
      with k(2) have "2 \<le> r'" by simp
      with pp have "2 * (prd * f ^ k) \<le> n" unfolding n [symmetric] by (intro mult_right_mono) auto
      with pp False show False by simp
    qed
    then have r: "r = f ^ k" "prd * f ^ k = n" using k(1) n by auto
    then have "0 < k" using less.prems(1) by (cases k) auto
    moreover have "count_factors n r prd f cnt = Some (n, cnt + int k)" for cnt
      using k(4) [of prd cnt] r(2) by (simp add: count_factors.simps [of n r])
    moreover have "fill_factors n r prd f (int (length xs)) (xs @ ys) =
        Some (n, take (length xs - k) xs @ replicate k f @ ys)" if "k \<le> length xs" for xs ys
      using k(5) [OF that, of prd ys] r(2) by (simp add: fill_factors.simps [of n r])
    ultimately show ?thesis
      using r(1) prime_f by (intro exI [of _ "replicate k f"]) auto
  next
    case True
    have "1 < r'" using True pp k(2) unfolding n [symmetric] by (cases "r' = 1") auto
    have "r' \<le> r" using k(1,2) less.prems by (simp add: mult_le_cancel_right1)
    then have m: "nat (r' + 1 - (f + 1)) < nat (r + 1 - f)" using \<open>f \<le> r\<close> by linarith
    have nd: "\<not> d dvd r'" if "1 < d" "d < f + 1" for d
      using that k(1,3) less.prems(5) [of d] by (cases "d = f") auto
    from less.hyps [OF m \<open>1 < r'\<close> _ pp n nd] less.prems(2) obtain fs where
      fs: "fs \<noteq> []" "sorted fs" "\<forall>p \<in> set fs. is_prime p \<and> f + 1 \<le> p" "prod_list fs = r'"
        "\<And>cnt. count_factors n r' (prd * f ^ k) (f + 1) cnt = Some (n, cnt + int (length fs))"
        "\<And>xs ys. length fs \<le> length xs \<Longrightarrow>
           fill_factors n r' (prd * f ^ k) (f + 1) (int (length xs)) (xs @ ys) =
             Some (n, take (length xs - length fs) xs @ rev fs @ ys)"
      by auto
    have fill: "fill_factors n r prd f (int (length xs)) (xs @ ys) =
        Some (n, take (length xs - (k + length fs)) xs @ rev (replicate k f @ fs) @ ys)"
      if "k + length fs \<le> length xs" for xs ys
      using that True k(5) [of xs prd ys] fs(6) [of "take (length xs - k) xs" "replicate k f @ ys"]
      by (simp add: fill_factors.simps [of n r])
    have cnt: "count_factors n r prd f cnt = Some (n, cnt + int (k + length fs))" for cnt
      using k(4) [of prd cnt] fs(5) [of "cnt + int k"] True by (simp add: count_factors.simps [of n r])
    have "sorted (replicate k f @ fs)" using fs(2,3) by (intro sorted_replicate_append) auto
    moreover have "\<forall>p \<in> set (replicate k f @ fs). is_prime p \<and> f \<le> p" using fs(3) prime_f by auto
    moreover have "prod_list (replicate k f @ fs) = r" using fs(4) k(1) by simp
    ultimately show ?thesis
      using fs(1) cnt fill by (intro exI [of _ "replicate k f @ fs"]) simp
  qed
qed

lemma allocate_prime_factor_array_ok:
  assumes "1 < n"
  shows "\<exists>ps. allocate_prime_factor_array ok n = Some (if ok then Some ps else None)
    \<and> sorted (rev ps) \<and> (\<forall>p \<in> set ps. is_prime p) \<and> prod_list ps = n \<and> ps \<noteq> []"
proof -
  from factors_ok [of n 2 1 n] assms obtain fs where
    fs: "fs \<noteq> []" "sorted fs" "\<forall>p \<in> set fs. is_prime p" "prod_list fs = n"
      "count_factors n n 1 2 0 = Some (n, int (length fs))"
      "\<And>xs ys. length fs \<le> length xs \<Longrightarrow> fill_factors n n 1 2 (int (length xs)) (xs @ ys) =
         Some (n, take (length xs - length fs) xs @ rev fs @ ys)"
    by auto
  from fs(6) [of "replicate (length fs) 0" "[]"]
  have "fill_factors n n 1 2 (int (length fs)) (replicate (length fs) 0) = Some (n, rev fs)" by simp
  with fs assms show ?thesis
    by (intro exI [of _ "rev fs"]) (auto simp: allocate_prime_factor_array_def prod_list.rev)
qed

subsection \<open>The loop over the given dimensions\<close>

text \<open>\<open>fixed_prod\<close> is the product of the dimensions the caller fixed, \<open>n_free\<close> the number of free ones.\<close>

definition fixed_prod :: "int list \<Rightarrow> int" where
  "fixed_prod ds = prod_list (filter (\<lambda>d. d \<noteq> 0) ds)"

definition n_free :: "int list \<Rightarrow> nat" where
  "n_free ds = length (filter (\<lambda>d. d = 0) ds)"

lemma fixed_prod_simps [simp]:
  "fixed_prod [] = 1" "fixed_prod (d # ds) = (if d = 0 then fixed_prod ds else d * fixed_prod ds)"
  by (auto simp: fixed_prod_def)

lemma n_free_simps [simp]:
  "n_free [] = 0" "n_free (d # ds) = (if d = 0 then Suc (n_free ds) else n_free ds)"
  by (auto simp: n_free_def)

lemma fixed_prod_pos: "\<forall>d \<in> set ds. 0 \<le> d \<Longrightarrow> 0 < fixed_prod ds"
  by (induction ds) (auto simp: zero_less_mult_iff order_le_less)

lemma check_dims_ok:
  assumes "\<forall>d \<in> set ds. 0 \<le> d" and "fixed_prod ds dvd np" and "0 < np" and "np dvd nnodes" and "0 < nnodes"
  shows "check_dims nnodes ds np nf = Some (np div fixed_prod ds, nf + int (n_free ds))"
  using assms
proof (induction ds arbitrary: np nf)
  case (Cons d ds)
  show ?case
  proof (cases "d = 0")
    case True
    with Cons.prems Cons.IH [of np "nf + 1"] show ?thesis by simp
  next
    case False
    with Cons.prems have d: "0 < d" "d * fixed_prod ds dvd np" by auto
    then obtain q where q: "np = d * (fixed_prod ds * q)" by (auto simp: dvd_def mult.assoc)
    then have "0 < fixed_prod ds * q" using d(1) \<open>0 < np\<close> by (simp add: zero_less_mult_iff)
    moreover have "fixed_prod ds * q dvd nnodes" using q \<open>np dvd nnodes\<close> by (metis dvd_mult_right)
    ultimately have dv: "d dvd np" "fixed_prod ds dvd np div d" "0 < np div d" "np div d dvd nnodes"
      using q d(1) by auto
    have "d dvd nnodes" using dv(1) Cons.prems by (meson dvd_trans)
    with Cons.IH [OF _ dv(2,3,4)] Cons.prems d False show ?thesis
      using zdiv_zmult2_eq [of "fixed_prod ds" np d] fixed_prod_pos [of ds]
      by (simp add: smod_pos sdiv_pos dvd_imp_mod_0)
  qed
qed simp

subsection \<open>Assigning the primes\<close>

lemma smallest_from_ok:
  assumes "s < length xs" and "\<forall>j \<in> set js. j < length xs"
  shows "smallest_from xs s js < length xs \<and> xs ! smallest_from xs s js \<le> xs ! s
    \<and> (\<forall>j \<in> set js. xs ! smallest_from xs s js \<le> xs ! j)"
  using assms
proof (induction js arbitrary: s)
  case (Cons j js)
  let ?s = "if xs ! j < xs ! s then j else s"
  from Cons.IH [of ?s] Cons.prems show ?case by (auto split: if_splits)
qed simp

lemma smallest_index_ok:
  assumes "xs \<noteq> []"
  shows "smallest_index xs < length xs \<and> (\<forall>j < length xs. xs ! smallest_index xs \<le> xs ! j)"
proof -
  have "smallest_index xs < length xs \<and> xs ! smallest_index xs \<le> xs ! 0
      \<and> (\<forall>j \<in> set [1..<length xs]. xs ! smallest_index xs \<le> xs ! j)"
    using smallest_from_ok [of 0 xs "[1..<length xs]"] assms by (auto simp: smallest_index_def)
  moreover have "j = 0 \<or> j \<in> set [1..<length xs]" if "j < length xs" for j using that by auto
  ultimately show ?thesis by blast
qed

lemma prod_list_update: "i < length xs \<Longrightarrow> prod_list (xs[i := xs ! i * (p::int)]) = prod_list xs * p"
  by (induction xs arbitrary: i) (auto simp: nth_Cons split: nat.splits)

text \<open>The elements stay within a factor \<open>M\<close> of each other, \<open>M\<close> a bound on the primes.\<close>

definition balanced :: "int \<Rightarrow> int list \<Rightarrow> bool" where
  "balanced M xs \<longleftrightarrow> (\<forall>a \<in> set xs. 0 < a) \<and> (\<forall>a \<in> set xs. \<forall>b \<in> set xs. a \<le> b * M)"

lemma balanced_update:
  assumes "balanced M xs" and "xs \<noteq> []" and "1 < p" and "p \<le> M"
  shows "balanced M (xs[smallest_index xs := xs ! smallest_index xs * p])"
proof -
  define s where "s = smallest_index xs"
  have s: "s < length xs" "\<And>b. b \<in> set xs \<Longrightarrow> xs ! s \<le> b"
    using smallest_index_ok [OF assms(2)] by (auto simp: s_def in_set_conv_nth)
  have xs: "\<And>a. a \<in> set xs \<Longrightarrow> 0 < a" "\<And>a b. a \<in> set xs \<Longrightarrow> b \<in> set xs \<Longrightarrow> a \<le> b * M"
    and in_s: "xs ! s \<in> set xs"
    using assms(1) s(1) by (auto simp: balanced_def)
  define v where "v = xs ! s * p"
  have v: "0 < v" "xs ! s \<le> v" using xs(1) [OF in_s] assms(3) by (auto simp: v_def)
  have up: "v \<le> b * M" if "b \<in> set xs" for b
    using s(2) [OF that] xs(1) [OF in_s] assms(3,4) by (auto simp: v_def intro!: mult_mono)
  have vM: "v \<le> v * M" using v assms(3,4) by simp
  have dn: "a \<le> v * M" if "a \<in> set xs" for a
    using xs(2) [OF that in_s] v(2) assms(3,4) by (meson mult_right_mono order_trans less_imp_le zero_less_one)
  have "set (xs[s := v]) \<subseteq> insert v (set xs)" by (rule set_update_subset_insert)
  moreover have "\<forall>a \<in> insert v (set xs). \<forall>b \<in> insert v (set xs). 0 < a \<and> a \<le> b * M"
    using v(1) xs up dn vM by blast
  ultimately show ?thesis unfolding balanced_def s_def [symmetric] v_def [symmetric]
    by (meson subsetD)
qed

lemma assign_primes_ok:
  assumes "balanced M xs" and "xs \<noteq> []" and "\<forall>p \<in> set ps. 1 < p \<and> p \<le> M"
  shows "balanced M (assign_primes ps xs) \<and> length (assign_primes ps xs) = length xs
    \<and> prod_list (assign_primes ps xs) = prod_list xs * prod_list ps"
  using assms
proof (induction ps arbitrary: xs)
  case (Cons p ps)
  let ?xs = "xs[smallest_index xs := xs ! smallest_index xs * p]"
  have "balanced M ?xs" using Cons.prems by (intro balanced_update) auto
  with Cons.IH [of ?xs] Cons.prems prod_list_update [of "smallest_index xs" xs p] smallest_index_ok [of xs]
  show ?case by (simp add: Let_def)
qed simp

subsection \<open>The exchange sort\<close>

lemma exchange_inner_ok:
  assumes "i < length xs" and "distinct js" and "\<forall>j \<in> set js. i < j \<and> j < length xs"
  shows "mset (exchange_inner i js xs) = mset xs \<and> xs ! i \<le> exchange_inner i js xs ! i
    \<and> (\<forall>j \<in> set js. exchange_inner i js xs ! j \<le> exchange_inner i js xs ! i)
    \<and> (\<forall>m. m \<noteq> i \<longrightarrow> m \<notin> set js \<longrightarrow> exchange_inner i js xs ! m = xs ! m)"
  using assms
proof (induction js arbitrary: xs)
  case (Cons j js)
  define ys where "ys = (if xs ! j > xs ! i then xs[i := xs ! j, j := xs ! i] else xs)"
  have ys: "mset ys = mset xs" "xs ! i \<le> ys ! i" "ys ! j \<le> ys ! i" "length ys = length xs"
    "\<And>m. m \<noteq> i \<Longrightarrow> m \<noteq> j \<Longrightarrow> ys ! m = xs ! m"
    using Cons.prems by (auto simp: ys_def mset_swap)
  define zs where "zs = exchange_inner i js ys"
  have zs: "mset zs = mset ys" "ys ! i \<le> zs ! i" "\<forall>j \<in> set js. zs ! j \<le> zs ! i"
    "\<And>m. m \<noteq> i \<Longrightarrow> m \<notin> set js \<Longrightarrow> zs ! m = ys ! m"
    using Cons.IH [of ys] Cons.prems ys(4) by (auto simp: zs_def)
  have "zs ! j \<le> zs ! i" using zs(2) zs(4) [of j] ys(3) Cons.prems by auto
  then show ?case using ys zs by (auto simp: ys_def [symmetric] zs_def [symmetric] )
qed simp

lemma exchange_outer_ok:
  assumes "k \<le> length xs" and "\<forall>a b. a < k \<longrightarrow> a < b \<longrightarrow> b < length xs \<longrightarrow> xs ! b \<le> xs ! a"
  shows "mset (exchange_outer [k..<length xs] xs) = mset xs
    \<and> sorted_wrt (\<ge>) (exchange_outer [k..<length xs] xs)"
  using assms
proof (induction "length xs - k" arbitrary: k xs)
  case 0
  then show ?case by (auto simp: sorted_wrt_iff_nth_less)
next
  case (Suc d)
  then have k: "k < length xs" by simp
  define ys where "ys = exchange_inner k [Suc k..<length xs] xs"
  have ys: "mset ys = mset xs" "\<And>j. k < j \<Longrightarrow> j < length xs \<Longrightarrow> ys ! j \<le> ys ! k"
    "\<And>m. m < k \<Longrightarrow> ys ! m = xs ! m"
    using exchange_inner_ok [of k xs "[Suc k..<length xs]"] k by (auto simp: ys_def)
  have len: "length ys = length xs" using ys(1) by (metis size_mset)
  have tk: "take k ys = take k xs" using ys(3) len k by (intro nth_equalityI) auto
  have "mset (take k ys) + mset (drop k ys) = mset (take k xs) + mset (drop k xs)"
    using ys(1) by (metis append_take_drop_id mset_append)
  then have dk: "set (drop k ys) = set (drop k xs)" using tk by (metis add_left_cancel mset_eq_setD)
  have "ys ! b \<le> ys ! a" if "a < Suc k" "a < b" "b < length ys" for a b
  proof (cases "a = k")
    case True
    then show ?thesis using ys(2) that len by simp
  next
    case False
    then have a: "a < k" using that by simp
    show ?thesis
    proof (cases "b < k")
      case True
      then show ?thesis using Suc.prems(2) a that len ys(3) by simp
    next
      case False
      then have "ys ! b \<in> set (drop k ys)" using that by (auto simp: in_set_conv_nth intro!: exI [of _ "b - k"])
      then obtain i where "i < length xs - k" "xs ! (k + i) = ys ! b"
        unfolding dk by (auto simp: in_set_conv_nth)
      then have "k \<le> k + i" "k + i < length xs" "ys ! b = xs ! (k + i)" by auto
      then show ?thesis using Suc.prems(2) a ys(3) by simp
    qed
  qed
  then have "mset (exchange_outer [Suc k..<length ys] ys) = mset ys
      \<and> sorted_wrt (\<ge>) (exchange_outer [Suc k..<length ys] ys)"
    using Suc.hyps len k by (intro Suc.hyps(1)) auto
  then show ?case using k ys(1) len by (simp add: upt_conv_Cons ys_def [symmetric])
qed

lemma exchange_sort_ok: "mset (exchange_sort xs) = mset xs \<and> sorted_wrt (\<ge>) (exchange_sort xs)"
  using exchange_outer_ok [of 0 xs] by (simp add: exchange_sort_def)

subsection \<open>Writing the result\<close>

text \<open>\<open>free_values ds es\<close> are the entries of \<open>es\<close> at the free positions of \<open>ds\<close>, in order.\<close>

definition free_values :: "int list \<Rightarrow> int list \<Rightarrow> int list" where
  "free_values ds es = map snd (filter (\<lambda>(d, e). d = 0) (zip ds es))"

definition keeps_fixed :: "int list \<Rightarrow> int list \<Rightarrow> bool" where
  "keeps_fixed ds es \<longleftrightarrow> list_all2 (\<lambda>d e. d \<noteq> 0 \<longrightarrow> e = d) ds es"

lemma put_freedims_ok:
  "length fs = n_free ds \<Longrightarrow> \<exists>es. put_freedims ds fs = Some es \<and> free_values ds es = fs
     \<and> keeps_fixed ds es \<and> prod_list es = fixed_prod ds * prod_list fs"
proof (induction ds arbitrary: fs)
  case (Cons d ds)
  show ?case
  proof (cases "d = 0")
    case False
    with Cons obtain es where "put_freedims ds fs = Some es" "free_values ds es = fs"
      "keeps_fixed ds es" "prod_list es = fixed_prod ds * prod_list fs" by auto
    with False show ?thesis by (auto simp: free_values_def keeps_fixed_def)
  next
    case True
    with Cons.prems obtain f fs' where fs: "fs = f # fs'" "length fs' = n_free ds" by (cases fs) auto
    with Cons.IH [of fs'] obtain es where "put_freedims ds fs' = Some es" "free_values ds es = fs'"
      "keeps_fixed ds es" "prod_list es = fixed_prod ds * prod_list fs'" by auto
    with True fs show ?thesis by (auto simp: free_values_def keeps_fixed_def)
  qed
qed (simp add: free_values_def keeps_fixed_def)

lemma put_ones:
  "free_values ds (map (\<lambda>d. if d = 0 then 1 else d) ds) = replicate (n_free ds) 1
   \<and> keeps_fixed ds (map (\<lambda>d. if d = 0 then 1 else d) ds)
   \<and> prod_list (map (\<lambda>d. if d = 0 then 1 else d) ds) = fixed_prod ds"
  by (induction ds) (auto simp: free_values_def keeps_fixed_def)

subsection \<open>Properties\<close>

text \<open>C21: the factorisation terminates and is correct. For every \<open>n > 1\<close> both passes end without leaving
  the array, and the array holds the prime factors of \<open>n\<close> in descending order (the null pointer is
  returned exactly when the allocation fails).\<close>

theorem prime_factor_array_correct:
  assumes "1 < n"
  shows "\<exists>ps. allocate_prime_factor_array ok n = Some (if ok then Some ps else None)
    \<and> sorted (rev ps) \<and> (\<forall>p \<in> set ps. is_prime p) \<and> prod_list ps = n"
  using allocate_prime_factor_array_ok [OF assms] by blast

theorem prime_factor_array_correct_witness:
  "allocate_prime_factor_array True 72 = Some (Some [3, 3, 2, 2, 2]) \<and> is_prime 3 \<and> is_prime 2"
proof -
  have v: "allocate_prime_factor_array True 72 = Some (Some [3, 3, 2, 2, 2])" by code_simp
  with prime_factor_array_correct [of 72 True] show ?thesis by auto
qed

text \<open>The state of \<open>PMPI_Dims_create\<close> after the checks, for arguments it accepts.\<close>

lemma dims_create_grid:
  assumes "0 < nnodes" and "0 < ndims" and len: "int (length ds) = ndims" and nonneg: "\<forall>d \<in> set ds. 0 \<le> d"
    and dv: "fixed_prod ds dvd nnodes" and free: "0 < n_free ds"
  shows "\<exists>es. PMPI_Dims_create True True nnodes ndims (Some ds) = Some (MPI_SUCCESS, Some es, [])
    \<and> prod_list es = nnodes \<and> keeps_fixed ds es \<and> sorted_wrt (\<ge>) (free_values ds es)
    \<and> (\<exists>M. balanced M (free_values ds es) \<and> (M = 1 \<or> is_prime M \<and> M dvd nnodes))"
proof -
  define np where "np = nnodes div fixed_prod ds"
  have pos: "0 < fixed_prod ds" using nonneg by (rule fixed_prod_pos)
  have np: "fixed_prod ds * np = nnodes" using dv by (simp add: np_def)
  have np_pos: "0 < np" using np pos assms(1) by (metis zero_less_mult_pos)
  have tk: "take (nat ndims) ds = ds" "drop (nat ndims) ds = []" using len by auto
  have chk: "check_dims nnodes ds nnodes 0 = Some (np, int (n_free ds))"
    using check_dims_ok [OF nonneg dv assms(1) dvd_refl assms(1)] by (simp add: np_def)
  show ?thesis
  proof (cases "np = 1")
    case True
    let ?es = "map (\<lambda>d. if d = 0 then 1 else d) ds"
    have "sorted_wrt (\<ge>) (free_values ds ?es) \<and> balanced 1 (free_values ds ?es)"
      using put_ones [of ds] by (auto simp: balanced_def sorted_wrt_iff_nth_less)
    then show ?thesis using put_ones [of ds] True np chk assms(1,2) len tk free
      by (intro exI [of _ ?es]) (auto simp: PMPI_Dims_create_def)
  next
    case False
    with np_pos have "1 < np" by simp
    from allocate_prime_factor_array_ok [OF this, of True] obtain ps where
      ps: "allocate_prime_factor_array True np = Some (Some ps)" "sorted (rev ps)"
        "\<forall>p \<in> set ps. is_prime p" "prod_list ps = np" "ps \<noteq> []" by auto
    define M where "M = hd ps"
    have M: "is_prime M" "\<forall>p \<in> set ps. 1 < p \<and> p \<le> M" "M dvd np"
      using ps by (cases ps; auto simp: M_def sorted_append is_prime_def)+
    define xs where "xs = assign_primes ps (replicate (n_free ds) 1)"
    have "1 < M" using M(1) by (simp add: is_prime_def)
    then have xs: "balanced M xs" "length xs = n_free ds" "prod_list xs = np"
      using assign_primes_ok [of M "replicate (n_free ds) 1" ps] M(2) ps(4) free
      by (auto simp: xs_def balanced_def)
    define fs where "fs = exchange_sort xs"
    have fs: "mset fs = mset xs" "sorted_wrt (\<ge>) fs" using exchange_sort_ok [of xs] by (auto simp: fs_def)
    have fs': "set fs = set xs" "length fs = n_free ds" "prod_list fs = np"
      using fs(1) xs by (metis mset_eq_setD, metis size_mset, metis prod_mset_prod_list)
    from put_freedims_ok [OF fs'(2)] obtain es where
      es: "put_freedims ds fs = Some es" "free_values ds es = fs" "keeps_fixed ds es"
        "prod_list es = fixed_prod ds * prod_list fs" by blast
    have run: "PMPI_Dims_create True True nnodes ndims (Some ds) = Some (MPI_SUCCESS, Some es, [])"
      using es(1) chk assms(1,2) len tk free False np_pos ps(1)
      by (simp add: PMPI_Dims_create_def Let_def fs_def xs_def)
    have "balanced M (free_values ds es)" using xs(1) fs'(1) es(2) by (simp add: balanced_def)
    moreover have "M dvd nnodes" using M(3) np by (metis dvd_mult)
    ultimately show ?thesis using run es fs(2) fs'(3) np M(1) by (intro exI [of _ es]) auto
  qed
qed

text \<open>C22: a successful grid. When the dimensions the caller fixed are positive, their product divides the
  number of processes and at least one dimension is free, \<^verbatim>\<open>MPI_Dims_create\<close> succeeds: the product of
  the resulting dimensions is exactly the number of processes, fixed dimensions are kept, the free ones
  are filled in descending order, and any two of them differ at most by a prime factor of the number of
  processes.\<close>

theorem dims_create_correct:
  assumes "0 < nnodes" and "0 < ndims" and "int (length ds) = ndims" and "\<forall>d \<in> set ds. 0 \<le> d"
    and "fixed_prod ds dvd nnodes" and "0 < n_free ds"
  shows "\<exists>es. PMPI_Dims_create True True nnodes ndims (Some ds) = Some (MPI_SUCCESS, Some es, [])
    \<and> prod_list es = nnodes \<and> keeps_fixed ds es \<and> sorted_wrt (\<ge>) (free_values ds es)
    \<and> (\<exists>M. balanced M (free_values ds es) \<and> (M = 1 \<or> is_prime M \<and> M dvd nnodes))"
  using dims_create_grid [OF assms] .

theorem dims_create_correct_witness:
  "\<exists>es. PMPI_Dims_create True True 48 3 (Some [0, 2, 0]) = Some (MPI_SUCCESS, Some es, [])
    \<and> prod_list es = 48 \<and> keeps_fixed [0, 2, 0] es"
  using dims_create_correct [of 48 3 "[0, 2, 0]"] by auto

text \<open>Divisibility by each fixed dimension is not enough. \<^verbatim>\<open>MPI_Dims_create\<close> tests every fixed dimension
  against the number of processes, not against what the earlier ones leave: with 12 processes and fixed
  dimensions 4 and 2 it returns success and a 4 x 2 x 1 grid of 8 processes.\<close>

theorem dims_create_wrong_product:
  "PMPI_Dims_create True True 12 3 (Some [4, 2, 0]) = Some (MPI_SUCCESS, Some [4, 2, 1], [])
   \<and> prod_list [4, 2, 1] \<noteq> (12::int)"
  by code_simp

text \<open>The free dimensions are not always as close as possible. For 72 processes in two free dimensions
  the result is 12 x 6, although 9 x 8 is a factorisation with closer sides.\<close>

theorem dims_create_not_closest:
  "PMPI_Dims_create True True 72 2 (Some [0, 0]) = Some (MPI_SUCCESS, Some [12, 6], [])
   \<and> 9 * 8 = (72::int) \<and> \<bar>9 - 8\<bar> < \<bar>12 - (6::int)\<bar>"
  by code_simp

end
