(* ===== verification/Typemap.thy ===== *)
theory Typemap
  imports Lampi_Prelude
begin

section \<open>Building type maps\<close>

text \<open>
  The part of the datatype constructors that turns the type map of the old datatype into that of the
  new one (\<^verbatim>\<open>mpi_type_vector.c\<close>, \<^verbatim>\<open>mpi_type_hvector.c\<close>, \<^verbatim>\<open>mpi_type_struct.c\<close>). Each constructor runs the
  same nest of loops twice: a first pass with the two variables \<^verbatim>\<open>current_size\<close>, \<^verbatim>\<open>current_offset\<close>
  counts the entries, a second pass writes them into the array allocated for that number. The nest of
  loops is modelled by the sequence of values \<^verbatim>\<open>(new_size, new_offset)\<close> it computes (\<open>pair_visits\<close>,
  \<open>block_visits\<close>, \<open>vector_visits\<close>, \<open>struct_visits\<close>); the bodies of the two passes are separate
  definitions, and writing outside the array is \<open>None\<close>.

  The lemmas show that the second pass writes exactly the entries the first pass counted, and that
  merging adjacent entries does not change the sequence of bytes a type map denotes.
\<close>

record tmelt =
  tm_size :: size_t
  tm_offset :: size_t
  tm_seq_offset :: size_t

type_synonym visit = "size_t \<times> size_t"

subsection \<open>The nest of loops\<close>

definition pair_visits :: "tmelt list \<Rightarrow> size_t \<Rightarrow> visit list" where
  "pair_visits tm typemap_off = map (\<lambda>e. (tm_size e, tm_offset e + typemap_off)) tm"

text \<open>The loop over \<^verbatim>\<open>j < blocklen\<close>, with the value \<^verbatim>\<open>typemap_off\<close> has after it.\<close>

fun block_visits :: "tmelt list \<Rightarrow> size_t \<Rightarrow> nat \<Rightarrow> size_t \<Rightarrow> visit list \<times> size_t" where
  "block_visits tm extent 0 typemap_off = ([], typemap_off)"
| "block_visits tm extent (Suc n) typemap_off =
     (let (vs, off') = block_visits tm extent n (typemap_off + extent)
      in (pair_visits tm typemap_off @ vs, off'))"

text \<open>The loop over \<^verbatim>\<open>i < count\<close>; \<open>skip\<close> is what the code adds to \<^verbatim>\<open>typemap_off\<close> after each block.\<close>

fun vector_visits :: "tmelt list \<Rightarrow> size_t \<Rightarrow> nat \<Rightarrow> size_t \<Rightarrow> nat \<Rightarrow> size_t \<Rightarrow> visit list" where
  "vector_visits tm extent blocklen skip 0 typemap_off = []"
| "vector_visits tm extent blocklen skip (Suc n) typemap_off =
     (let (vs, off') = block_visits tm extent blocklen typemap_off
      in vs @ vector_visits tm extent blocklen skip n (off' + skip))"

text \<open>The loops of \<^verbatim>\<open>MPI_Type_struct\<close>, over the blocks \<open>(blocklength, displacement, extent, type map)\<close>.\<close>

fun struct_visits :: "(int \<times> size_t \<times> size_t \<times> tmelt list) list \<Rightarrow> visit list" where
  "struct_visits [] = []"
| "struct_visits ((bl, disp, extent, tm) # bs) =
     (if extent > 0 then fst (block_visits tm extent (nat bl) disp) else []) @ struct_visits bs"

subsection \<open>The two passes of the vector constructors\<close>

fun vec_count_step :: "int \<times> size_t \<times> size_t \<Rightarrow> visit \<Rightarrow> int \<times> size_t \<times> size_t" where
  "vec_count_step (typemap_i, current_size, current_offset) (new_size, new_offset) =
     (if typemap_i \<noteq> 0 \<and> current_size + current_offset = new_offset
      then (typemap_i, current_size + new_size, current_offset)
      else (typemap_i + 1, new_size, new_offset))"

definition vec_count :: "visit list \<Rightarrow> int" where
  "vec_count vs = fst (foldl vec_count_step (0, 0, 0) vs)"

fun vec_fill_step :: "tmelt list \<times> int \<Rightarrow> visit \<Rightarrow> (tmelt list \<times> int) option" where
  "vec_fill_step (type_map, typemap_i) (new_size, new_offset) = do {
     joins \<leftarrow> (if typemap_i \<noteq> 0
                then map_option (\<lambda>e. tm_size e + tm_offset e = new_offset) (arr_get type_map (typemap_i - 1))
                else Some False);
     (if joins then do {
        e \<leftarrow> arr_get type_map (typemap_i - 1);
        tm' \<leftarrow> arr_set type_map (typemap_i - 1) (e\<lparr>tm_size := tm_size e + new_size\<rparr>);
        Some (tm', typemap_i)
      } else do {
        e \<leftarrow> arr_get type_map typemap_i;
        tm' \<leftarrow> arr_set type_map typemap_i (e\<lparr>tm_size := new_size, tm_offset := new_offset\<rparr>);
        Some (tm', typemap_i + 1)
      })
   }"

definition vec_fill :: "visit list \<Rightarrow> tmelt list \<Rightarrow> tmelt list option" where
  "vec_fill vs type_map = map_option fst (foldM vec_fill_step (type_map, 0) vs)"

subsection \<open>The two passes of the struct constructor\<close>

text \<open>\<open>trim\<close> is the compile-time switch \<^verbatim>\<open>_MPI_DTYPE_TRIM\<close> (0 in \<^verbatim>\<open>internal/mpi.h\<close>), \<open>lb\<close> and \<open>ub\<close> the bounds
  of the new type. \<open><s\<close> compares signed, \<open><\<close> unsigned, as the C conversions do.\<close>

definition trim_new :: "bool \<Rightarrow> size_t \<Rightarrow> size_t \<Rightarrow> size_t \<Rightarrow> size_t \<Rightarrow> size_t \<times> size_t" where
  "trim_new trim lb ub new_size new_offset =
     (let (sz, off) = (if trim \<and> new_offset <s lb then (new_size - (lb - new_offset), lb)
                       else (new_size, new_offset))
      in (if trim \<and> off + sz > ub then ub - off else sz, off))"

fun struct_count_step :: "bool \<Rightarrow> size_t \<Rightarrow> size_t \<Rightarrow> int \<times> size_t \<times> size_t \<Rightarrow> visit \<Rightarrow>
    int \<times> size_t \<times> size_t" where
  "struct_count_step trim lb ub (typemap_i, current_size, current_offset) (new_size, new_offset) =
     (if typemap_i \<noteq> 0 \<and> current_size + current_offset = new_offset
      then (typemap_i,
            (if trim \<and> current_size + new_size + current_offset > ub then ub - current_offset
             else current_size + new_size), current_offset)
      else if \<not> trim \<or> (new_offset + new_size > lb \<and> new_offset <s ub) then
        (let (sz, off) = trim_new trim lb ub new_size new_offset
         in if sz > 0 then (typemap_i + 1, sz, off) else (typemap_i, current_size, current_offset))
      else (typemap_i, current_size, current_offset))"

definition struct_count :: "bool \<Rightarrow> size_t \<Rightarrow> size_t \<Rightarrow> visit list \<Rightarrow> int" where
  "struct_count trim lb ub vs = fst (foldl (struct_count_step trim lb ub) (0, 0, 0) vs)"

fun struct_fill_step :: "bool \<Rightarrow> size_t \<Rightarrow> size_t \<Rightarrow> tmelt list \<times> int \<Rightarrow> visit \<Rightarrow>
    (tmelt list \<times> int) option" where
  "struct_fill_step trim lb ub (type_map, typemap_i) (new_size, new_offset) = do {
     joins \<leftarrow> (if typemap_i \<noteq> 0
                then map_option (\<lambda>e. tm_size e + tm_offset e = new_offset) (arr_get type_map (typemap_i - 1))
                else Some False);
     (if joins then do {
        e \<leftarrow> arr_get type_map (typemap_i - 1);
        tm' \<leftarrow> arr_set type_map (typemap_i - 1) (e\<lparr>tm_size :=
                 (if trim \<and> tm_size e + new_size + tm_offset e > ub then ub - tm_offset e
                  else tm_size e + new_size)\<rparr>);
        Some (tm', typemap_i)
      } else if \<not> trim \<or> (new_offset + new_size > lb \<and> new_offset <s ub) then
        (let (sz, off) = trim_new trim lb ub new_size new_offset
         in if sz > 0 then do {
              e \<leftarrow> arr_get type_map typemap_i;
              tm' \<leftarrow> arr_set type_map typemap_i (e\<lparr>tm_size := sz, tm_offset := off\<rparr>);
              Some (tm', typemap_i + 1)
            } else Some (type_map, typemap_i))
      else Some (type_map, typemap_i))
   }"

definition struct_fill :: "bool \<Rightarrow> size_t \<Rightarrow> size_t \<Rightarrow> visit list \<Rightarrow> tmelt list \<Rightarrow> tmelt list option" where
  "struct_fill trim lb ub vs type_map =
     map_option fst (foldM (struct_fill_step trim lb ub) (type_map, 0) vs)"

subsection \<open>The passes as decisions on the last entry\<close>

text \<open>What a pass does with a new pair, given the last entry so far: merge, append or drop.\<close>

datatype act = Join size_t | Emit size_t size_t | Drop

fun vec_decide :: "visit option \<Rightarrow> visit \<Rightarrow> act" where
  "vec_decide None (ns, no) = Emit ns no"
| "vec_decide (Some (s, off)) (ns, no) = (if s + off = no then Join (s + ns) else Emit ns no)"

definition struct_new :: "bool \<Rightarrow> size_t \<Rightarrow> size_t \<Rightarrow> visit \<Rightarrow> act" where
  "struct_new trim lb ub v = (case v of (ns, no) \<Rightarrow>
     if \<not> trim \<or> (no + ns > lb \<and> no <s ub) then
       (let (sz, off) = trim_new trim lb ub ns no in if sz > 0 then Emit sz off else Drop)
     else Drop)"

fun struct_decide :: "bool \<Rightarrow> size_t \<Rightarrow> size_t \<Rightarrow> visit option \<Rightarrow> visit \<Rightarrow> act" where
  "struct_decide trim lb ub None v = struct_new trim lb ub v"
| "struct_decide trim lb ub (Some (s, off)) (ns, no) =
     (if s + off = no then Join (if trim \<and> s + ns + off > ub then ub - off else s + ns)
      else struct_new trim lb ub (ns, no))"

fun perform :: "act \<Rightarrow> visit list \<Rightarrow> visit list" where
  "perform (Join s) acc = (s, snd (hd acc)) # tl acc"
| "perform (Emit s off) acc = (s, off) # acc"
| "perform Drop acc = acc"

fun last_entry :: "visit list \<Rightarrow> visit option" where
  "last_entry [] = None"
| "last_entry (e # es) = Some e"

text \<open>The entries the passes produce, most recent first.\<close>

definition entries :: "(visit option \<Rightarrow> visit \<Rightarrow> act) \<Rightarrow> visit list \<Rightarrow> visit list \<Rightarrow> visit list" where
  "entries decide acc vs = foldl (\<lambda>acc v. perform (decide (last_entry acc) v) acc) acc vs"

text \<open>A decision merges only when there is an entry to merge with.\<close>

definition sane :: "(visit option \<Rightarrow> visit \<Rightarrow> act) \<Rightarrow> bool" where
  "sane decide \<longleftrightarrow> (\<forall>v s. decide None v \<noteq> Join s)"

lemma entries_simps [simp]:
  "entries d acc [] = acc"
  "entries d acc (v # vs) = entries d (perform (d (last_entry acc) v) acc) vs"
  by (simp_all add: entries_def)

lemma sane_vec: "sane vec_decide"
  by (auto simp: sane_def)

lemma sane_struct: "sane (struct_decide trim lb ub)"
  by (auto simp: sane_def struct_new_def split: prod.splits)

lemma length_perform: "sane d \<Longrightarrow> length acc \<le> length (perform (d (last_entry acc) v) acc)"
  by (cases acc; cases "d (last_entry acc) v") (auto simp: sane_def)

lemma length_entries: "sane d \<Longrightarrow> length acc \<le> length (entries d acc vs)"
  by (induction vs arbitrary: acc) (auto intro: order_trans [OF length_perform])

subsection \<open>The passes agree\<close>

definition count_rel :: "visit list \<Rightarrow> int \<times> size_t \<times> size_t \<Rightarrow> bool" where
  "count_rel acc st \<longleftrightarrow> fst st = int (length acc) \<and> (acc \<noteq> [] \<longrightarrow> hd acc = snd st)"

definition entry_pair :: "tmelt \<Rightarrow> visit" where
  "entry_pair e = (tm_size e, tm_offset e)"

definition fill_rel :: "visit list \<Rightarrow> tmelt list \<times> int \<Rightarrow> bool" where
  "fill_rel acc st \<longleftrightarrow> snd st = int (length acc) \<and> length acc \<le> length (fst st)
     \<and> map entry_pair (take (length acc) (fst st)) = rev acc"

lemma count_rel_foldl:
  assumes "\<And>acc st v. count_rel acc st \<Longrightarrow> count_rel (perform (d (last_entry acc) v) acc) (step st v)"
    and "count_rel acc st"
  shows "count_rel (entries d acc vs) (foldl step st vs)"
  using assms(2)
proof (induction vs arbitrary: acc st)
  case (Cons v vs)
  from Cons.IH [OF assms(1) [OF Cons.prems]] show ?case by simp
qed simp

lemma vec_count_step_rel:
  "count_rel acc st \<Longrightarrow> count_rel (perform (vec_decide (last_entry acc) v) acc) (vec_count_step st v)"
  by (cases st; cases v; cases acc) (auto simp: count_rel_def)

lemma struct_count_step_rel:
  "count_rel acc st \<Longrightarrow>
   count_rel (perform (struct_decide trim lb ub (last_entry acc) v) acc) (struct_count_step trim lb ub st v)"
  by (cases st; cases v; cases acc) (auto simp: count_rel_def struct_new_def Let_def split: prod.splits)

lemma vec_count_entries: "vec_count vs = int (length (entries vec_decide [] vs))"
  using count_rel_foldl [where acc = "[]" and st = "(0, 0, 0)" and vs = vs, OF vec_count_step_rel]
  by (simp add: vec_count_def count_rel_def)

lemma struct_count_entries:
  "struct_count trim lb ub vs = int (length (entries (struct_decide trim lb ub) [] vs))"
  using count_rel_foldl [where acc = "[]" and st = "(0, 0, 0)" and vs = vs, OF struct_count_step_rel]
  by (simp add: struct_count_def count_rel_def)

text \<open>Storing into the array: overwriting the last entry, and appending one.\<close>

lemma fill_rel_last:
  assumes "fill_rel (p # acc) (tm, i)"
  shows "arr_get tm (i - 1) = Some (tm ! length acc) \<and> entry_pair (tm ! length acc) = p"
proof -
  have l: "length acc < length tm" "i = int (length acc) + 1"
    and m: "map entry_pair (take (Suc (length acc)) tm) = rev acc @ [p]"
    using assms by (auto simp: fill_rel_def)
  from m l have "map entry_pair (take (length acc) tm) @ [entry_pair (tm ! length acc)] = rev acc @ [p]"
    by (simp add: take_Suc_conv_app_nth)
  with l show ?thesis by (simp add: arr_get_def)
qed

lemma fill_rel_join:
  assumes "fill_rel (p # acc) (tm, i)" and "entry_pair e = q"
  shows "\<exists>tm'. arr_set tm (i - 1) e = Some tm' \<and> fill_rel (q # acc) (tm', i) \<and> length tm' = length tm"
proof -
  have l: "length acc < length tm" "i = int (length acc) + 1"
    and m: "map entry_pair (take (Suc (length acc)) tm) = rev acc @ [p]"
    using assms(1) by (auto simp: fill_rel_def)
  have "map entry_pair (take (length acc) tm) = rev acc"
    using m l by (simp add: take_Suc_conv_app_nth)
  with l assms(2) show ?thesis
    by (intro exI [of _ "tm[length acc := e]"])
      (auto simp: fill_rel_def arr_set_def take_Suc_conv_app_nth)
qed

lemma fill_rel_emit:
  assumes "fill_rel acc (tm, i)" and "length acc < length tm"
  shows "arr_get tm i = Some (tm ! length acc)
    \<and> arr_set tm i e = Some (tm[length acc := e]) \<and> fill_rel (entry_pair e # acc) (tm[length acc := e], i + 1)"
  using assms by (auto simp: fill_rel_def take_Suc_conv_app_nth)

lemma vec_fill_step_rel:
  assumes "fill_rel acc (tm, i)" and "length (perform (vec_decide (last_entry acc) v) acc) \<le> length tm"
  shows "\<exists>tm' i'. vec_fill_step (tm, i) v = Some (tm', i') \<and> length tm' = length tm
    \<and> fill_rel (perform (vec_decide (last_entry acc) v) acc) (tm', i')"
proof -
  obtain ns no where v: "v = (ns, no)" by (cases v)
  let ?new = "(tm ! length acc)\<lparr>tm_size := ns, tm_offset := no\<rparr>"
  show ?thesis
  proof (cases acc)
    case Nil
    have "i = 0" using assms(1) Nil by (simp add: fill_rel_def)
    with Nil assms v fill_rel_emit [of acc tm i ?new] show ?thesis
      by (auto simp: entry_pair_def Suc_le_eq)
  next
    case (Cons p r)
    let ?e = "tm ! length r"
    have e: "arr_get tm (i - 1) = Some ?e" "entry_pair ?e = p" "i \<noteq> 0"
      using assms(1) Cons fill_rel_last [of p r tm i] by (auto simp: fill_rel_def)
    show ?thesis
    proof (cases "fst p + snd p = no")
      case True
      with e Cons v assms(1) fill_rel_join [of p r tm i "?e\<lparr>tm_size := tm_size ?e + ns\<rparr>"] show ?thesis
        by (cases p) (auto simp: entry_pair_def)
    next
      case False
      with e Cons v assms fill_rel_emit [of acc tm i ?new] show ?thesis
        by (cases p) (auto simp: entry_pair_def)
    qed
  qed
qed

lemma struct_fill_step_rel:
  assumes "fill_rel acc (tm, i)"
    and "length (perform (struct_decide trim lb ub (last_entry acc) v) acc) \<le> length tm"
  shows "\<exists>tm' i'. struct_fill_step trim lb ub (tm, i) v = Some (tm', i') \<and> length tm' = length tm
    \<and> fill_rel (perform (struct_decide trim lb ub (last_entry acc) v) acc) (tm', i')"
proof -
  obtain ns no where v: "v = (ns, no)" by (cases v)
  obtain sz off where t: "trim_new trim lb ub ns no = (sz, off)" by (cases "trim_new trim lb ub ns no")
  let ?new = "(tm ! length acc)\<lparr>tm_size := sz, tm_offset := off\<rparr>"
  show ?thesis
  proof (cases acc)
    case Nil
    have "i = 0" using assms(1) Nil by (simp add: fill_rel_def)
    with Nil assms v t fill_rel_emit [of acc tm i ?new] show ?thesis
      by (auto simp: entry_pair_def struct_new_def Suc_le_eq)
  next
    case (Cons p r)
    let ?e = "tm ! length r"
    have e: "arr_get tm (i - 1) = Some ?e" "entry_pair ?e = p" "i \<noteq> 0"
      using assms(1) Cons fill_rel_last [of p r tm i] by (auto simp: fill_rel_def)
    show ?thesis
    proof (cases "fst p + snd p = no")
      case True
      let ?s = "if trim \<and> tm_size ?e + ns + tm_offset ?e > ub then ub - tm_offset ?e else tm_size ?e + ns"
      from True e Cons v assms(1) fill_rel_join [of p r tm i "?e\<lparr>tm_size := ?s\<rparr>"] show ?thesis
        by (cases p) (auto simp: entry_pair_def)
    next
      case False
      with e Cons v t assms fill_rel_emit [of acc tm i ?new] show ?thesis
        by (cases p) (auto simp: entry_pair_def struct_new_def)
    qed
  qed
qed

lemma fill_rel_foldM:
  assumes "sane d"
    and "\<And>acc tm i v. fill_rel acc (tm, i) \<Longrightarrow> length (perform (d (last_entry acc) v) acc) \<le> length tm \<Longrightarrow>
      \<exists>tm' i'. step (tm, i) v = Some (tm', i') \<and> length tm' = length tm
        \<and> fill_rel (perform (d (last_entry acc) v) acc) (tm', i')"
    and "fill_rel acc (tm, i)" and "length (entries d acc vs) \<le> length tm"
  shows "\<exists>tm' i'. foldM step (tm, i) vs = Some (tm', i') \<and> length tm' = length tm
    \<and> fill_rel (entries d acc vs) (tm', i')"
  using assms(3,4)
proof (induction vs arbitrary: acc tm i)
  case Nil
  then show ?case by simp
next
  case (Cons v vs)
  let ?acc = "perform (d (last_entry acc) v) acc"
  have "length ?acc \<le> length tm"
    using length_entries [OF assms(1), of ?acc vs] Cons.prems(2) by simp
  from assms(2) [OF Cons.prems(1) this] obtain tm1 i1 where
    s: "step (tm, i) v = Some (tm1, i1)" "length tm1 = length tm" "fill_rel ?acc (tm1, i1)" by blast
  with Cons.IH [OF s(3)] Cons.prems(2) show ?case by simp
qed

lemma fill_rel_Nil: "fill_rel [] (tm, 0)"
  by (simp add: fill_rel_def)

lemma vec_fill_ok:
  assumes "int (length tm) = vec_count vs"
  shows "\<exists>tm'. vec_fill vs tm = Some tm' \<and> map entry_pair tm' = rev (entries vec_decide [] vs)"
  using fill_rel_foldM [OF sane_vec vec_fill_step_rel fill_rel_Nil [of tm], of vs] assms
  by (auto simp: vec_fill_def vec_count_entries fill_rel_def)

lemma struct_fill_ok:
  assumes "int (length tm) = struct_count trim lb ub vs"
  shows "\<exists>tm'. struct_fill trim lb ub vs tm = Some tm'
    \<and> map entry_pair tm' = rev (entries (struct_decide trim lb ub) [] vs)"
  using fill_rel_foldM [OF sane_struct struct_fill_step_rel fill_rel_Nil [of tm], of trim lb ub vs] assms
  by (auto simp: struct_fill_def struct_count_entries fill_rel_def)

subsection \<open>The bytes a type map denotes\<close>

text \<open>A pair denotes a run of byte offsets; \<open>visit_bytes\<close> is the sequence of all of them, in the order in
  which data is packed.\<close>

fun run_bytes :: "visit \<Rightarrow> size_t list" where
  "run_bytes (s, off) = map (\<lambda>i. off + of_nat i) [0..<unat s]"

definition visit_bytes :: "visit list \<Rightarrow> size_t list" where
  "visit_bytes vs = concat (map run_bytes vs)"

definition tm_bytes :: "tmelt list \<Rightarrow> size_t \<Rightarrow> size_t list" where
  "tm_bytes tm base = visit_bytes (pair_visits tm base)"

definition visit_total :: "visit list \<Rightarrow> nat" where
  "visit_total vs = sum_list (map (\<lambda>v. unat (fst v)) vs)"

lemma visit_bytes_simps [simp]:
  "visit_bytes [] = []" "visit_bytes (v # vs) = run_bytes v @ visit_bytes vs"
  "visit_bytes (us @ vs) = visit_bytes us @ visit_bytes vs"
  by (simp_all add: visit_bytes_def)

lemma visit_total_simps [simp]:
  "visit_total [] = 0" "visit_total (v # vs) = unat (fst v) + visit_total vs"
  "visit_total (us @ vs) = visit_total us + visit_total vs" "visit_total (rev vs) = visit_total vs"
  by (simp_all add: visit_total_def rev_map [symmetric] sum_list_rev)

lemma length_visit_bytes: "length (visit_bytes vs) = visit_total vs"
  by (induction vs) auto

lemma unat_add_small: "unat s + unat t < 2 ^ 64 \<Longrightarrow> unat (s + t :: size_t) = unat s + unat t"
  by (simp add: unat_word_ariths)

lemma run_bytes_join:
  assumes "unat s + unat ns < 2 ^ 64"
  shows "run_bytes (s + ns, off) = run_bytes (s, off) @ run_bytes (ns, s + off)"
proof -
  have "[0..<unat s + unat ns] = [0..<unat s] @ map (\<lambda>i. i + unat s) [0..<unat ns]"
    by (metis add.commute add.left_neutral le0 map_add_upt upt_add_eq_append)
  then have "map f [0..<unat (s + ns)] = map f [0..<unat s] @ map (\<lambda>i. f (i + unat s)) [0..<unat ns]"
    for f :: "nat \<Rightarrow> size_t"
    by (simp only: unat_add_small [OF assms] map_append map_map comp_def)
  then show ?thesis by (simp add: ac_simps)
qed

text \<open>Neither decision changes the bytes, as long as the sizes do not overflow.\<close>

definition keeps_bytes :: "(visit option \<Rightarrow> visit \<Rightarrow> act) \<Rightarrow> bool" where
  "keeps_bytes d \<longleftrightarrow> (\<forall>acc v. visit_total acc + unat (fst v) < 2 ^ 64 \<longrightarrow>
     visit_bytes (rev (perform (d (last_entry acc) v) acc)) = visit_bytes (rev acc) @ run_bytes v
     \<and> visit_total (perform (d (last_entry acc) v) acc) = visit_total acc + unat (fst v))"

lemma keeps_bytes_vec: "keeps_bytes vec_decide"
  unfolding keeps_bytes_def
proof (intro allI impI)
  fix acc :: "visit list" and v :: visit
  assume lt: "visit_total acc + unat (fst v) < 2 ^ 64"
  obtain ns no where v: "v = (ns, no)" by (cases v)
  show "visit_bytes (rev (perform (vec_decide (last_entry acc) v) acc)) = visit_bytes (rev acc) @ run_bytes v
     \<and> visit_total (perform (vec_decide (last_entry acc) v) acc) = visit_total acc + unat (fst v)"
  proof (cases acc)
    case (Cons p r)
    obtain s off where p: "p = (s, off)" by (cases p)
    have "unat s + unat ns < 2 ^ 64" using lt v p Cons by simp
    from run_bytes_join [OF this] unat_add_small [OF this] v p Cons show ?thesis
      by (simp del: run_bytes.simps)
  qed (use v in simp)
qed

lemma trim_new_False [simp]: "trim_new False lb ub ns no = (ns, no)"
  by (simp add: trim_new_def)

lemma keeps_bytes_struct: "keeps_bytes (struct_decide False lb ub)"
  unfolding keeps_bytes_def
proof (intro allI impI)
  fix acc :: "visit list" and v :: visit
  assume lt: "visit_total acc + unat (fst v) < 2 ^ 64"
  obtain ns no where v: "v = (ns, no)" by (cases v)
  have new: "visit_bytes (rev (perform (struct_new False lb ub v) acc)) = visit_bytes (rev acc) @ run_bytes v
     \<and> visit_total (perform (struct_new False lb ub v) acc) = visit_total acc + unat (fst v)"
    using v by (auto simp: struct_new_def word_neq_0_conv [symmetric])
  show "visit_bytes (rev (perform (struct_decide False lb ub (last_entry acc) v) acc))
        = visit_bytes (rev acc) @ run_bytes v
     \<and> visit_total (perform (struct_decide False lb ub (last_entry acc) v) acc)
        = visit_total acc + unat (fst v)"
  proof (cases acc)
    case (Cons p r)
    obtain s off where p: "p = (s, off)" by (cases p)
    have "unat s + unat ns < 2 ^ 64" using lt v p Cons by simp
    from run_bytes_join [OF this] unat_add_small [OF this] v p Cons new show ?thesis
      by (auto simp del: run_bytes.simps)
  qed (use new in simp)
qed

lemma entries_bytes:
  assumes "keeps_bytes d" and "visit_total acc + visit_total vs < 2 ^ 64"
  shows "visit_bytes (rev (entries d acc vs)) = visit_bytes (rev acc) @ visit_bytes vs
    \<and> visit_total (entries d acc vs) = visit_total acc + visit_total vs"
  using assms(2)
proof (induction vs arbitrary: acc)
  case (Cons v vs)
  let ?acc = "perform (d (last_entry acc) v) acc"
  have "visit_total acc + unat (fst v) < 2 ^ 64" using Cons.prems by simp
  then have k: "visit_bytes (rev ?acc) = visit_bytes (rev acc) @ run_bytes v"
    "visit_total ?acc = visit_total acc + unat (fst v)"
    using assms(1) unfolding keeps_bytes_def by blast+
  have "visit_total ?acc + visit_total vs < 2 ^ 64" using k(2) Cons.prems by simp
  from Cons.IH [OF this] k show ?case by simp
qed simp

lemma tm_bytes_entry_pair: "tm_bytes tm 0 = visit_bytes (map entry_pair tm)"
  by (auto simp: tm_bytes_def pair_visits_def entry_pair_def intro!: arg_cong [of _ _ visit_bytes])

subsection \<open>Closed forms of the loops\<close>

lemma block_visits_closed:
  "block_visits tm ext n off =
     (concat (map (\<lambda>j. pair_visits tm (off + of_nat j * ext)) [0..<n]), off + of_nat n * ext)"
proof (induction n arbitrary: off)
  case (Suc n)
  have "[0..<Suc n] = 0 # map Suc [0..<n]" by (simp add: map_Suc_upt upt_conv_Cons del: upt_Suc)
  then show ?case by (simp add: Suc algebra_simps comp_def del: upt_Suc)
qed simp

lemma vector_visits_closed:
  "vector_visits tm ext bl skip n off =
     concat (map (\<lambda>i. fst (block_visits tm ext bl (off + of_nat i * (of_nat bl * ext + skip)))) [0..<n])"
proof (induction n arbitrary: off)
  case (Suc n)
  have "[0..<Suc n] = 0 # map Suc [0..<n]" by (simp add: map_Suc_upt upt_conv_Cons del: upt_Suc)
  then show ?case
    by (simp add: Suc block_visits_closed algebra_simps comp_def del: upt_Suc)
qed simp

lemma visit_bytes_concat: "visit_bytes (concat vss) = concat (map visit_bytes vss)"
  by (induction vss) auto

text \<open>The bytes of \<open>blocklen\<close> consecutive copies of a type, the first at \<open>base\<close>; and of \<open>count\<close> such blocks,
  \<open>step\<close> bytes apart: the typemap of \<^verbatim>\<open>MPI_Type_vector\<close> and \<^verbatim>\<open>MPI_Type_hvector\<close> in the MPI standard.\<close>

definition block_bytes :: "tmelt list \<Rightarrow> size_t \<Rightarrow> nat \<Rightarrow> size_t \<Rightarrow> size_t list" where
  "block_bytes tm ext blocklen base = concat (map (\<lambda>j. tm_bytes tm (base + of_nat j * ext)) [0..<blocklen])"

definition strided_bytes :: "tmelt list \<Rightarrow> size_t \<Rightarrow> nat \<Rightarrow> size_t \<Rightarrow> nat \<Rightarrow> size_t list" where
  "strided_bytes tm ext blocklen step count =
     concat (map (\<lambda>i. block_bytes tm ext blocklen (of_nat i * step)) [0..<count])"

lemma block_visits_bytes: "visit_bytes (fst (block_visits tm ext n off)) = block_bytes tm ext n off"
  by (simp add: block_visits_closed block_bytes_def visit_bytes_concat tm_bytes_def comp_def)

lemma vector_visits_bytes:
  "visit_bytes (vector_visits tm ext bl skip n 0) = strided_bytes tm ext bl (of_nat bl * ext + skip) n"
  by (simp add: vector_visits_closed strided_bytes_def visit_bytes_concat comp_def block_visits_bytes)

definition struct_bytes :: "(int \<times> size_t \<times> size_t \<times> tmelt list) list \<Rightarrow> size_t list" where
  "struct_bytes bs = concat (map (\<lambda>(bl, disp, ext, tm).
     if ext > 0 then block_bytes tm ext (nat bl) disp else []) bs)"

lemma struct_visits_bytes: "visit_bytes (struct_visits bs) = struct_bytes bs"
  by (induction bs rule: struct_visits.induct) (auto simp: struct_bytes_def block_visits_bytes)

end
