(* ===== verification/Datatype.thy ===== *)
theory Datatype
  imports Typemap Ptr_Table
begin

section \<open>Datatypes: the store and the constructors\<close>

text \<open>
  The datatype engine of \<^verbatim>\<open>src/src/mpi/c/mpi_type_*.c\<close>. Datatypes live in a store (\<open>dt_heap\<close>) and
  refer to each other by address through their envelopes, with reference counts, as the C structures do;
  a handle is an address or the null pointer (\<open>None\<close>). The state carries what the C code takes from its
  environment: the outcome of the coming allocations (\<open>dt_allocs\<close>; an exhausted list means success),
  the contents of freshly allocated memory (\<open>dt_junk\<close>, \<open>dt_junk_elt\<close>), the Fortran handle table and
  the calls made to the error handler.

  An output argument \<^verbatim>\<open>MPI_Datatype *newtype\<close> is \<open>None\<close> for a null pointer and \<open>Some h\<close> for a pointer to
  a variable that holds \<open>h\<close>; its final contents are part of the result. Input arrays are lists, a null
  array the empty list, and reading past the end has no defined result.
\<close>

subsection \<open>Data\<close>

datatype layout = CONTIGUOUS | NON_CONTIGUOUS

text \<open>The pointer \<^verbatim>\<open>type_map\<close>: null, an array, or uninitialised.\<close>

datatype tmptr = Null | Arr "tmelt list" | Wild

record envelope =
  env_combiner :: int
  env_nints :: int
  env_naddrs :: int
  env_ndatatypes :: int
  env_iarray :: "int list option"
  env_aarray :: "size_t list option"
  env_darray :: "nat list option"

record ulm_type =
  ut_type_map :: tmptr
  ut_lower_bound :: size_t
  ut_extent :: size_t
  ut_packed_size :: size_t
  ut_num_pairs :: int
  ut_layout :: layout
  ut_isbasic :: int
  ut_num_primitives :: int
  ut_second_primitive_offset :: int
  ut_op_index :: int
  ut_fhandle :: int
  ut_envelope :: envelope
  ut_ref_count :: int
  ut_committed :: int

record dt_state =
  dt_heap :: "nat \<Rightarrow> ulm_type option"
  dt_next :: nat
  dt_junk :: ulm_type
  dt_junk_elt :: tmelt
  dt_allocs :: "bool list"
  dt_fortran :: bool
  dt_threads :: bool
  dt_type_table :: "nat ptr_table"
  dt_errs :: "(int \<times> int) list"

abbreviation (input) MPI_COMBINER_NAMED :: int where "MPI_COMBINER_NAMED \<equiv> 0"
abbreviation (input) MPI_COMBINER_CONTIGUOUS :: int where "MPI_COMBINER_CONTIGUOUS \<equiv> 2"
abbreviation (input) MPI_COMBINER_VECTOR :: int where "MPI_COMBINER_VECTOR \<equiv> 3"
abbreviation (input) MPI_COMBINER_HVECTOR_INTEGER :: int where "MPI_COMBINER_HVECTOR_INTEGER \<equiv> 4"
abbreviation (input) MPI_COMBINER_HVECTOR :: int where "MPI_COMBINER_HVECTOR \<equiv> 5"
abbreviation (input) MPI_COMBINER_INDEXED :: int where "MPI_COMBINER_INDEXED \<equiv> 6"
abbreviation (input) MPI_COMBINER_HINDEXED_INTEGER :: int where "MPI_COMBINER_HINDEXED_INTEGER \<equiv> 7"
abbreviation (input) MPI_COMBINER_HINDEXED :: int where "MPI_COMBINER_HINDEXED \<equiv> 8"
abbreviation (input) MPI_COMBINER_STRUCT_INTEGER :: int where "MPI_COMBINER_STRUCT_INTEGER \<equiv> 10"
abbreviation (input) MPI_COMBINER_STRUCT :: int where "MPI_COMBINER_STRUCT \<equiv> 11"

text \<open>The compile-time switches of \<^verbatim>\<open>internal/mpi.h\<close>.\<close>

definition MPI_MARK_AS_CONTIGUOUS :: bool where "MPI_MARK_AS_CONTIGUOUS = False"
definition MPI_DTYPE_TRIM :: bool where "MPI_DTYPE_TRIM = False"

type_synonym dt_result = "(int \<times> nat option option \<times> dt_state) option"

subsection \<open>Allocation, references, the error handler\<close>

definition ulm_malloc :: "dt_state \<Rightarrow> bool \<times> dt_state" where
  "ulm_malloc s = (case dt_allocs s of [] \<Rightarrow> (True, s) | b # bs \<Rightarrow> (b, s\<lparr>dt_allocs := bs\<rparr>))"

text \<open>An allocation whose result is dereferenced without a check.\<close>

definition malloc_unchecked :: "dt_state \<Rightarrow> dt_state option" where
  "malloc_unchecked s = (case ulm_malloc s of (True, s') \<Rightarrow> Some s' | (False, _) \<Rightarrow> None)"

definition malloc_type :: "dt_state \<Rightarrow> nat option \<times> dt_state" where
  "malloc_type s = (case ulm_malloc s of
     (True, s') \<Rightarrow> (Some (dt_next s'),
        s'\<lparr>dt_heap := (dt_heap s')(dt_next s' \<mapsto> dt_junk s'), dt_next := Suc (dt_next s')\<rparr>)
   | (False, s') \<Rightarrow> (None, s'))"

definition dt_update :: "nat \<Rightarrow> (ulm_type \<Rightarrow> ulm_type) \<Rightarrow> dt_state \<Rightarrow> dt_state option" where
  "dt_update a f s = map_option (\<lambda>t. s\<lparr>dt_heap := (dt_heap s)(a \<mapsto> f t)\<rparr>) (dt_heap s a)"

text \<open>\<^verbatim>\<open>fetchNadd(&(t->ref_count), k)\<close>\<close>

definition add_ref :: "int \<Rightarrow> dt_state \<Rightarrow> nat \<Rightarrow> dt_state option" where
  "add_ref k s a = dt_update a (\<lambda>t. t\<lparr>ut_ref_count := ut_ref_count t + k\<rparr>) s"

definition dt_errhandler :: "int \<Rightarrow> dt_state \<Rightarrow> dt_state" where
  "dt_errhandler rc s = s\<lparr>dt_errs := dt_errs s @ [(MPI_COMM_WORLD, rc)]\<rparr>"

definition dt_fail :: "int \<Rightarrow> nat option option \<Rightarrow> dt_state \<Rightarrow> dt_result" where
  "dt_fail rc newdatatype s = Some (rc, newdatatype, dt_errhandler rc s)"

text \<open>Entering a new type into the Fortran handle table. The table allocates only when it is empty or
  full.\<close>

definition register_fortran :: "nat \<Rightarrow> dt_state \<Rightarrow> dt_state option" where
  "register_fortran a s =
     (if dt_fortran s then
        let tab = dt_type_table s;
            (ok, s1) = (if pt_addr tab = None \<or> pt_number_free tab = 0 then ulm_malloc s else (True, s))
        in do {
          (h, tab') \<leftarrow> mpi_ptr_table_add (dt_threads s) ok (Some a) tab;
          dt_update a (\<lambda>t. t\<lparr>ut_fhandle := h\<rparr>) (s1\<lparr>dt_type_table := tab'\<rparr>)
        }
      else Some s)"

subsection \<open>Envelopes\<close>

definition null_if_empty :: "'a list \<Rightarrow> 'a list option" where
  "null_if_empty xs = (if xs = [] then None else Some xs)"

definition mk_envelope :: "int \<Rightarrow> int list \<Rightarrow> size_t list \<Rightarrow> nat list \<Rightarrow> envelope" where
  "mk_envelope combiner ints addrs dts =
     \<lparr>env_combiner = combiner, env_nints = int (length ints), env_naddrs = int (length addrs),
      env_ndatatypes = int (length dts), env_iarray = null_if_empty ints,
      env_aarray = null_if_empty addrs, env_darray = null_if_empty dts\<rparr>"

definition malloc_array :: "'a list \<Rightarrow> dt_state \<Rightarrow> dt_state option" where
  "malloc_array xs s = (if xs = [] then Some s else malloc_unchecked s)"

text \<open>Saving the envelope: the arrays are allocated without a check and filled.\<close>

definition save_envelope :: "nat \<Rightarrow> int \<Rightarrow> int list \<Rightarrow> size_t list \<Rightarrow> nat list \<Rightarrow> dt_state \<Rightarrow>
    dt_state option" where
  "save_envelope a combiner ints addrs dts s = do {
     s1 \<leftarrow> malloc_array ints s;
     s2 \<leftarrow> malloc_array addrs s1;
     s3 \<leftarrow> malloc_array dts s2;
     dt_update a (\<lambda>t. t\<lparr>ut_envelope := mk_envelope combiner ints addrs dts\<rparr>) s3
   }"

text \<open>Dropping the references an envelope holds, before it is replaced.\<close>

definition drop_envelope_refs :: "nat \<Rightarrow> dt_state \<Rightarrow> dt_state option" where
  "drop_envelope_refs a s = do {
     t \<leftarrow> dt_heap s a;
     let n = nat (env_ndatatypes (ut_envelope t));
     (case env_darray (ut_envelope t) of
        None \<Rightarrow> (if n = 0 then Some s else None)
      | Some ds \<Rightarrow> if n \<le> length ds then foldM (add_ref (- 1)) s (take n ds) else None)
   }"

text \<open>The fields every constructor sets for an empty type (\<^verbatim>\<open>count == 0\<close>), and at the start otherwise.\<close>

definition init_empty :: "ulm_type \<Rightarrow> ulm_type" where
  "init_empty t = t\<lparr>ut_isbasic := 0, ut_layout := CONTIGUOUS, ut_num_pairs := 0, ut_extent := 0,
     ut_lower_bound := 0, ut_type_map := Null, ut_committed := 0, ut_ref_count := 1\<rparr>"

definition init_new :: "ulm_type \<Rightarrow> ulm_type" where
  "init_new t = t\<lparr>ut_isbasic := 0, ut_layout := NON_CONTIGUOUS, ut_committed := 0, ut_ref_count := 1\<rparr>"

text \<open>The empty type of a constructor: allocate, fill, save the envelope, count the reference to the old
  types, register.\<close>

definition make_empty_type :: "int \<Rightarrow> int list \<Rightarrow> size_t list \<Rightarrow> nat option list \<Rightarrow>
    nat option option \<Rightarrow> dt_state \<Rightarrow> dt_result" where
  "make_empty_type combiner ints addrs olds newdatatype s =
     (case malloc_type s of
        (None, s1) \<Rightarrow> dt_fail MPI_ERR_TYPE newdatatype s1
      | (Some a, s1) \<Rightarrow> do {
          s2 \<leftarrow> dt_update a init_empty s1;
          _ \<leftarrow> newdatatype;
          dts \<leftarrow> those olds;
          s3 \<leftarrow> save_envelope a combiner ints addrs dts s2;
          s4 \<leftarrow> foldM (add_ref 1) s3 dts;
          s5 \<leftarrow> register_fortran a s4;
          Some (MPI_SUCCESS, Some (Some a), s5)
        })"

text \<open>The first \<^verbatim>\<open>num_pairs\<close> entries of a type map, as the loops read them.\<close>

definition type_pairs :: "ulm_type \<Rightarrow> tmelt list option" where
  "type_pairs t =
     (if ut_num_pairs t \<le> 0 then Some []
      else case ut_type_map t of
        Arr tm \<Rightarrow> if ut_num_pairs t \<le> int (length tm) then Some (take (nat (ut_num_pairs t)) tm) else None
      | _ \<Rightarrow> None)"

text \<open>The final check whether the type is contiguous (switched off at compile time).\<close>

definition clearly_contiguous :: "ulm_type \<Rightarrow> bool" where
  "clearly_contiguous t \<longleftrightarrow>
     (ut_num_pairs t = 0 \<and> ut_extent t = 0) \<or>
     (ut_num_pairs t = 1 \<and> (case ut_type_map t of Arr (e # _) \<Rightarrow> ut_extent t = tm_size e | _ \<Rightarrow> False))"

definition mark_contiguous :: "ulm_type \<Rightarrow> ulm_type" where
  "mark_contiguous t =
     (if MPI_MARK_AS_CONTIGUOUS \<and> clearly_contiguous t then t\<lparr>ut_layout := CONTIGUOUS\<rparr> else t)"

subsection \<open>\<^verbatim>\<open>MPI_Type_vector\<close> and \<^verbatim>\<open>MPI_Type_contiguous\<close>\<close>

text \<open>The extent of a vector: \<^verbatim>\<open>(|stride| * (count - 1) + blocklen) * extent - lower_bound\<close>. The first factor is computed
  in C \<^verbatim>\<open>int\<close>, the product with the extent in \<^verbatim>\<open>size_t\<close>.\<close>

definition vector_extent :: "int \<Rightarrow> int \<Rightarrow> int \<Rightarrow> ulm_type \<Rightarrow> size_t option" where
  "vector_extent count blocklen stride old = do {
     stride' \<leftarrow> (if stride < 0 then c_int (stride * - 1) else Some stride);
     p \<leftarrow> c_int (stride' * (count - 1));
     n \<leftarrow> c_int (p + blocklen);
     Some (word_of_int n * ut_extent old - ut_lower_bound old)
   }"

text \<open>The type map the loops go through, and the pairs they visit: the innermost loop runs only for a
  positive block length. What is added to the offset after a block is \<^verbatim>\<open>extent * (stride - blocklen)\<close>, with the difference
  in C \<^verbatim>\<open>int\<close> (the constructor checks it).\<close>

definition old_pairs :: "int \<Rightarrow> ulm_type \<Rightarrow> tmelt list option" where
  "old_pairs blocklen t = (if blocklen > 0 then type_pairs t else Some [])"

definition vec_visits :: "int \<Rightarrow> int \<Rightarrow> int \<Rightarrow> ulm_type \<Rightarrow> tmelt list \<Rightarrow> visit list" where
  "vec_visits count blocklen stride old tm =
     vector_visits tm (ut_extent old) (nat blocklen) (ut_extent old * word_of_int (stride - blocklen)) (nat count) 0"

definition PMPI_Type_vector :: "int \<Rightarrow> int \<Rightarrow> int \<Rightarrow> nat option \<Rightarrow> nat option option \<Rightarrow> dt_state \<Rightarrow>
    dt_result" where
  "PMPI_Type_vector count blocklen stride olddatatype newdatatype s =
     (if count < 0 then dt_fail MPI_ERR_INTERN newdatatype s
      else if newdatatype = None then dt_fail MPI_ERR_TYPE newdatatype s
      else case olddatatype of
        None \<Rightarrow> dt_fail MPI_ERR_TYPE newdatatype s
      | Some old \<Rightarrow>
        if count = 0 then
          make_empty_type MPI_COMBINER_VECTOR [count, blocklen, stride] [] [Some old] newdatatype s
        else case malloc_type s of
          (None, s1) \<Rightarrow> dt_fail MPI_ERR_TYPE newdatatype s1
        | (Some a, s1) \<Rightarrow> do {
            s2 \<leftarrow> save_envelope a MPI_COMBINER_VECTOR [count, blocklen, stride] [] [old] s1;
            s3 \<leftarrow> add_ref 1 s2 old;
            s4 \<leftarrow> dt_update a init_new s3;
            oldtype \<leftarrow> dt_heap s4 old;
            tm \<leftarrow> old_pairs blocklen oldtype;
            _ \<leftarrow> c_int (stride - blocklen);
            let vs = vec_visits count blocklen stride oldtype tm;
            num_pairs \<leftarrow> c_int (vec_count vs);
            s5 \<leftarrow> dt_update a (\<lambda>t. t\<lparr>ut_num_pairs := num_pairs\<rparr>) s4;
            let (ok, s6) = (if num_pairs > 0 then ulm_malloc s5 else (True, s5));
            (if \<not> ok then dt_fail MPI_ERR_TYPE newdatatype s6
             else do {
               s7 \<leftarrow> (if num_pairs > 0 then do {
                        type_map \<leftarrow> vec_fill vs (replicate (nat num_pairs) (dt_junk_elt s6));
                        dt_update a (\<lambda>t. t\<lparr>ut_type_map := Arr type_map\<rparr>) s6
                      } else Some s6);
               extent \<leftarrow> vector_extent count blocklen stride oldtype;
               s8 \<leftarrow> dt_update a (\<lambda>t. mark_contiguous
                       (t\<lparr>ut_extent := extent,
                          ut_lower_bound := ut_lower_bound oldtype\<rparr>)) s7;
               s9 \<leftarrow> register_fortran a s8;
               Some (MPI_SUCCESS, Some (Some a), s9)
             })
          })"

text \<open>Replacing the envelope of the type an inner constructor made, as the outer constructors do whatever
  code the inner one returned: \<open>out\<close> is the contents of the output argument.\<close>

definition replace_envelope :: "int \<Rightarrow> int list \<Rightarrow> size_t list \<Rightarrow> nat option \<Rightarrow> int \<times> nat option option \<times> dt_state \<Rightarrow>
    dt_result" where
  "replace_envelope combiner ints addrs olddatatype = (\<lambda>(rc, out, s). do {
     let s1 = (if rc \<noteq> MPI_SUCCESS then dt_errhandler rc s else s);
     h \<leftarrow> out;
     a \<leftarrow> h;
     s2 \<leftarrow> drop_envelope_refs a s1;
     old \<leftarrow> olddatatype;
     s3 \<leftarrow> save_envelope a combiner ints addrs [old] s2;
     s4 \<leftarrow> add_ref 1 s3 old;
     Some (rc, out, s4)
   })"

definition PMPI_Type_contiguous :: "int \<Rightarrow> nat option \<Rightarrow> nat option option \<Rightarrow> dt_state \<Rightarrow> dt_result" where
  "PMPI_Type_contiguous count olddatatype newdatatype s =
     (if count < 0 then dt_fail MPI_ERR_INTERN newdatatype s
      else if newdatatype = None then dt_fail MPI_ERR_INTERN newdatatype s
      else if count = 0 then
        make_empty_type MPI_COMBINER_CONTIGUOUS [count] [] [olddatatype] newdatatype s
      else do {
        r \<leftarrow> PMPI_Type_vector count 1 1 olddatatype newdatatype s;
        replace_envelope MPI_COMBINER_CONTIGUOUS [count] [] olddatatype r
      })"

subsection \<open>\<^verbatim>\<open>MPI_Type_hvector\<close>\<close>

text \<open>Signed 64-bit arithmetic, undefined when it overflows. The stride is an \<^verbatim>\<open>MPI_Aint\<close>, a signed type; what is multiplied
  with or added to an extent is unsigned and wraps.\<close>

definition c_ssize :: "int \<Rightarrow> int option" where
  "c_ssize x = (if - (2 ^ 63) \<le> x \<and> x < 2 ^ 63 then Some x else None)"

definition hvector_extent :: "int \<Rightarrow> int \<Rightarrow> size_t \<Rightarrow> ulm_type \<Rightarrow> size_t option" where
  "hvector_extent count blocklength stride old = do {
     stride' \<leftarrow> (if stride <s 0 then c_ssize (sint stride * - 1) else Some (sint stride));
     p \<leftarrow> c_ssize ((count - 1) * stride');
     Some (word_of_int p + word_of_int blocklength * ut_extent old - ut_lower_bound old)
   }"

definition hvec_visits :: "int \<Rightarrow> int \<Rightarrow> size_t \<Rightarrow> ulm_type \<Rightarrow> tmelt list \<Rightarrow> visit list" where
  "hvec_visits count blocklength stride old tm =
     vector_visits tm (ut_extent old) (nat blocklength) (stride - word_of_int blocklength * ut_extent old)
       (nat count) 0"

definition PMPI_Type_create_hvector :: "int \<Rightarrow> int \<Rightarrow> size_t \<Rightarrow> nat option \<Rightarrow> nat option option \<Rightarrow>
    dt_state \<Rightarrow> dt_result" where
  "PMPI_Type_create_hvector count blocklength stride mtype_old mtype_new s =
     (if mtype_new = None then dt_fail MPI_ERR_INTERN mtype_new s
      else if count < 0 then dt_fail MPI_ERR_INTERN mtype_new s
      else if count = 0 then
        make_empty_type MPI_COMBINER_HVECTOR [count, blocklength] [stride] [mtype_old] mtype_new s
      else case malloc_type s of
        (None, s1) \<Rightarrow> dt_fail MPI_ERR_INTERN mtype_new s1
      | (Some a, s1) \<Rightarrow> do {
          s2 \<leftarrow> dt_update a init_new s1;
          old \<leftarrow> mtype_old;
          oldtype \<leftarrow> dt_heap s2 old;
          tm \<leftarrow> old_pairs blocklength oldtype;
          let vs = hvec_visits count blocklength stride oldtype tm;
          num_pairs \<leftarrow> c_int (vec_count vs);
          s3 \<leftarrow> dt_update a (\<lambda>t. t\<lparr>ut_num_pairs := num_pairs\<rparr>) s2;
          (case ulm_malloc s3 of
             (False, s4) \<Rightarrow> dt_fail MPI_ERR_INTERN mtype_new s4
           | (True, s4) \<Rightarrow> do {
               s5 \<leftarrow> save_envelope a MPI_COMBINER_HVECTOR [count, blocklength] [stride] [old] s4;
               s6 \<leftarrow> add_ref 1 s5 old;
               type_map \<leftarrow> vec_fill vs (replicate (nat num_pairs) (dt_junk_elt s6));
               extent \<leftarrow> hvector_extent count blocklength stride oldtype;
               s7 \<leftarrow> dt_update a (\<lambda>t. mark_contiguous
                       (t\<lparr>ut_type_map := Arr type_map,
                          ut_extent := extent,
                          ut_lower_bound := ut_lower_bound oldtype\<rparr>)) s6;
               s8 \<leftarrow> register_fortran a s7;
               Some (MPI_SUCCESS, Some (Some a), s8)
             })
        })"

definition PMPI_Type_hvector :: "int \<Rightarrow> int \<Rightarrow> size_t \<Rightarrow> nat option \<Rightarrow> nat option option \<Rightarrow> dt_state \<Rightarrow>
    dt_result" where
  "PMPI_Type_hvector = PMPI_Type_create_hvector"

subsection \<open>\<^verbatim>\<open>MPI_Type_struct\<close>\<close>

text \<open>The assignment of a 64-bit value to a C \<^verbatim>\<open>int\<close> keeps its low 32 bits.\<close>

definition to_c_int :: "size_t \<Rightarrow> int" where
  "to_c_int w = sint (ucast w :: 32 word)"

text \<open>The variables of the loop that looks for bound markers and extreme displacements.\<close>

record bounds =
  b_mpi_lb_i :: int
  b_mpi_ub_i :: int
  b_min_lb :: int
  b_max_ub :: int
  b_min_disp :: int
  b_max_disp :: int
  b_min_disp_i :: int
  b_max_disp_i :: int

text \<open>One iteration, for block \<open>i\<close> with displacement \<open>disp\<close> and datatype \<open>t\<close>.\<close>

definition bounds_step :: "bounds \<Rightarrow> nat \<times> size_t \<times> ulm_type \<Rightarrow> bounds" where
  "bounds_step b = (\<lambda>(i, disp, t).
     let b1 = (if ut_extent t = 0 then
                 if ut_op_index t = - 1 then
                   if b_mpi_lb_i b = - 1 \<or> sint disp < b_min_lb b
                   then b\<lparr>b_min_lb := to_c_int disp, b_mpi_lb_i := int i\<rparr> else b
                 else if ut_op_index t = - 2 then
                   if b_mpi_lb_i b = - 1 \<or> sint disp > b_max_ub b
                   then b\<lparr>b_max_ub := to_c_int disp, b_mpi_ub_i := int i\<rparr> else b
                 else b
               else b);
         b2 = (if 0 <s ut_lower_bound t then
                 if b_mpi_lb_i b1 = - 1 \<or> sint (ut_lower_bound t) < b_min_lb b1
                 then b1\<lparr>b_min_lb := to_c_int (ut_lower_bound t), b_mpi_lb_i := int i\<rparr> else b1
               else b1);
         b3 = (if sint disp < b_min_disp b2 then b2\<lparr>b_min_disp := sint disp, b_min_disp_i := int i\<rparr> else b2)
     in if sint disp > b_max_disp b3 then b3\<lparr>b_max_disp := sint disp, b_max_disp_i := int i\<rparr> else b3)"

definition struct_scan :: "size_t list \<Rightarrow> ulm_type list \<Rightarrow> bounds" where
  "struct_scan disps ts =
     foldl bounds_step
       \<lparr>b_mpi_lb_i = - 1, b_mpi_ub_i = - 1, b_min_lb = 0, b_max_ub = 0, b_min_disp = sint (disps ! 0),
        b_max_disp = sint (disps ! 0), b_min_disp_i = 0, b_max_disp_i = 0\<rparr>
       (zip [0..<length ts] (zip disps ts))"

text \<open>The lower and the upper bound of the new type.\<close>

definition struct_lb_ub :: "int list \<Rightarrow> size_t list \<Rightarrow> ulm_type list \<Rightarrow> size_t \<times> size_t" where
  "struct_lb_ub bls disps ts =
     (let b = struct_scan disps ts;
          lb = (if b_mpi_lb_i b \<noteq> - 1 then word_of_int (b_min_lb b) else disps ! nat (b_min_disp_i b));
          m = nat (b_max_disp_i b);
          ub = (if b_mpi_ub_i b \<noteq> - 1 then word_of_int (b_max_ub b)
                else disps ! m + word_of_int (bls ! m) * ut_extent (ts ! m))
      in (lb, if ub <s lb then lb else ub))"

text \<open>The blocks the loops of the two passes read.\<close>

definition struct_block :: "int \<times> size_t \<times> ulm_type \<Rightarrow> (int \<times> size_t \<times> size_t \<times> tmelt list) option" where
  "struct_block = (\<lambda>(bl, disp, t). do {
     tm \<leftarrow> (if ut_extent t > 0 \<and> bl > 0 then type_pairs t else Some []);
     Some (bl, disp, ut_extent t, tm)
   })"

definition PMPI_Type_create_struct :: "int \<Rightarrow> int list \<Rightarrow> size_t list \<Rightarrow> nat option list \<Rightarrow>
    nat option option \<Rightarrow> dt_state \<Rightarrow> dt_result" where
  "PMPI_Type_create_struct count array_of_blocklengths array_of_displacements array_of_types newdatatype s =
     (if newdatatype = None then dt_fail MPI_ERR_TYPE newdatatype s
      else if count < 0 then dt_fail MPI_ERR_INTERN newdatatype s
      else if count = 0 then make_empty_type MPI_COMBINER_STRUCT [count] [] [] newdatatype s
      else case malloc_type s of
        (None, s1) \<Rightarrow> dt_fail MPI_ERR_TYPE newdatatype s1
      | (Some a, s1) \<Rightarrow>
          if length array_of_blocklengths < nat count \<or> length array_of_displacements < nat count
             \<or> length array_of_types < nat count then None
          else do {
            let bls = take (nat count) array_of_blocklengths;
            let disps = take (nat count) array_of_displacements;
            s2 \<leftarrow> dt_update a (\<lambda>t. init_new (t\<lparr>ut_op_index := 0\<rparr>)) s1;
            dts \<leftarrow> those (take (nat count) array_of_types);
            s3 \<leftarrow> save_envelope a MPI_COMBINER_STRUCT (count # bls) disps dts s2;
            s4 \<leftarrow> foldM (add_ref 1) s3 dts;
            ts \<leftarrow> those (map (dt_heap s4) dts);
            let (lb, ub) = struct_lb_ub bls disps ts;
            s5 \<leftarrow> dt_update a (\<lambda>t. t\<lparr>ut_extent := ub - lb, ut_lower_bound := lb\<rparr>) s4;
            blocks \<leftarrow> those (map struct_block (zip bls (zip disps ts)));
            let vs = struct_visits blocks;
            let num_pairs = struct_count MPI_DTYPE_TRIM lb ub vs;
            s6 \<leftarrow> dt_update a (\<lambda>t. t\<lparr>ut_num_pairs := num_pairs\<rparr>) s5;
            let (ok, s7) = (if num_pairs > 0 then ulm_malloc s6 else (True, s6));
            (if \<not> ok then dt_fail MPI_ERR_TYPE newdatatype s7
             else do {
               tmp \<leftarrow> (if num_pairs > 0 then
                         map_option Arr (struct_fill MPI_DTYPE_TRIM lb ub vs
                           (replicate (nat num_pairs) (dt_junk_elt s7)))
                       else Some Null);
               s8 \<leftarrow> dt_update a (\<lambda>t. mark_contiguous (t\<lparr>ut_type_map := tmp\<rparr>)) s7;
               s9 \<leftarrow> register_fortran a s8;
               Some (MPI_SUCCESS, Some (Some a), s9)
             })
          })"

definition PMPI_Type_struct :: "int \<Rightarrow> int list \<Rightarrow> size_t list \<Rightarrow> nat option list \<Rightarrow>
    nat option option \<Rightarrow> dt_state \<Rightarrow> dt_result" where
  "PMPI_Type_struct = PMPI_Type_create_struct"

subsection \<open>\<^verbatim>\<open>MPI_Type_indexed\<close> and \<^verbatim>\<open>MPI_Type_hindexed\<close>\<close>

definition PMPI_Type_indexed :: "int \<Rightarrow> int list \<Rightarrow> int list \<Rightarrow> nat option \<Rightarrow> nat option option \<Rightarrow>
    dt_state \<Rightarrow> dt_result" where
  "PMPI_Type_indexed count blocklength_array disp_array mtype_old mtype_new s =
     (if mtype_new = None then dt_fail MPI_ERR_TYPE mtype_new s
      else if count < 0 then dt_fail MPI_ERR_INTERN mtype_new s
      else if count = 0 then make_empty_type MPI_COMBINER_INDEXED [count] [] [mtype_old] mtype_new s
      else case ulm_malloc s of
        (False, s1) \<Rightarrow> dt_fail MPI_ERR_INTERN mtype_new s1
      | (True, s1) \<Rightarrow> do {
          s2 \<leftarrow> malloc_unchecked s1;
          old \<leftarrow> mtype_old;
          oldtype \<leftarrow> dt_heap s2 old;
          (if length disp_array < nat count then None else do {
             let byte_disps = map (\<lambda>d. word_of_int d * ut_extent oldtype) (take (nat count) disp_array);
             r \<leftarrow> PMPI_Type_struct count blocklength_array byte_disps
                   (replicate (nat count) mtype_old) mtype_new s2;
             replace_envelope MPI_COMBINER_INDEXED
               (count # take (nat count) blocklength_array @ take (nat count) disp_array) [] mtype_old r
           })
        })"

text \<open>The loop of \<^verbatim>\<open>create_from_basic_type\<close>: bounds, running size and type map.\<close>

fun basic_loop :: "size_t \<Rightarrow> (int \<times> size_t) list \<Rightarrow> size_t \<times> size_t \<times> size_t \<Rightarrow>
    (size_t \<times> size_t \<times> size_t) \<times> tmelt list" where
  "basic_loop extent [] (lb, ub, tot) = ((lb, ub, tot), [])"
| "basic_loop extent ((bl, disp) # bs) (lb, ub, tot) =
     (let l0 = disp;
          u0 = disp + word_of_int bl * extent;
          (l, u) = (if u0 <s l0 then (u0, l0) else (l0, u0));
          ub' = (if ub <s u then u else ub);
          lb' = (if l <s lb then l else lb);
          sz = word_of_int bl * extent;
          (st, tm) = basic_loop extent bs (lb', ub', tot + sz)
      in (st, \<lparr>tm_size = sz, tm_offset = disp, tm_seq_offset = tot + sz\<rparr> # tm))"

definition create_from_basic_type :: "int \<Rightarrow> int list \<Rightarrow> size_t list \<Rightarrow> nat \<Rightarrow> nat option option \<Rightarrow>
    dt_state \<Rightarrow> dt_result" where
  "create_from_basic_type count blocklength_array disp_array old mtype_new s =
     (case malloc_type s of
        (None, s1) \<Rightarrow> None
      | (Some a, s1) \<Rightarrow> do {
          s2 \<leftarrow> malloc_unchecked s1;
          oldtype \<leftarrow> dt_heap s2 old;
          (if length blocklength_array < nat count \<or> length disp_array < nat count then None else do {
             let bls = take (nat count) blocklength_array;
             let disps = take (nat count) disp_array;
             let l0 = disps ! 0;
             let u0 = l0 + word_of_int (bls ! 0) * ut_extent oldtype;
             let (lb0, ub0) = (if u0 <s l0 then (u0, l0) else (l0, u0));
             let ((lb, ub, tot), tm) = basic_loop (ut_extent oldtype) (zip bls disps) (lb0, ub0, 0);
             s3 \<leftarrow> dt_update a (\<lambda>t. t\<lparr>ut_type_map := Arr tm, ut_lower_bound := lb, ut_extent := ub - lb,
                     ut_packed_size := 0, ut_num_pairs := count, ut_layout := NON_CONTIGUOUS, ut_isbasic := 0,
                     ut_num_primitives := 0, ut_second_primitive_offset := 0, ut_op_index := 0,
                     ut_fhandle := - 1, ut_ref_count := 1, ut_committed := 0\<rparr>) s2;
             s4 \<leftarrow> register_fortran a s3;
             _ \<leftarrow> mtype_new;
             s5 \<leftarrow> save_envelope a MPI_COMBINER_HINDEXED (count # bls) disps [old] s4;
             Some (ULM_SUCCESS, Some (Some a), s5)
           })
        })"

definition PMPI_Type_create_hindexed :: "int \<Rightarrow> int list \<Rightarrow> size_t list \<Rightarrow> nat option \<Rightarrow>
    nat option option \<Rightarrow> dt_state \<Rightarrow> dt_result" where
  "PMPI_Type_create_hindexed count blocklength_array disp_array mtype_old mtype_new s =
     (if count < 0 then dt_fail MPI_ERR_INTERN mtype_new s
      else if count = 0 then make_empty_type MPI_COMBINER_HINDEXED [count] [] [mtype_old] mtype_new s
      else do {
        old \<leftarrow> mtype_old;
        oldtype \<leftarrow> dt_heap s old;
        (if ut_isbasic oldtype \<noteq> 0 then
           create_from_basic_type count blocklength_array disp_array old mtype_new s
         else case ulm_malloc s of
           (False, s1) \<Rightarrow> dt_fail MPI_ERR_INTERN mtype_new s1
         | (True, s1) \<Rightarrow> do {
             r \<leftarrow> PMPI_Type_struct count blocklength_array disp_array
                   (replicate (nat count) mtype_old) mtype_new s1;
             replace_envelope MPI_COMBINER_HINDEXED (count # take (nat count) blocklength_array)
               (take (nat count) disp_array) mtype_old r
           })
      })"

definition PMPI_Type_hindexed :: "int \<Rightarrow> int list \<Rightarrow> size_t list \<Rightarrow> nat option \<Rightarrow>
    nat option option \<Rightarrow> dt_state \<Rightarrow> dt_result" where
  "PMPI_Type_hindexed = PMPI_Type_create_hindexed"

end
