(* ===== verification/Datatype_Store.thy ===== *)
theory Datatype_Store
  imports Datatype
begin

section \<open>Reasoning about the datatype store\<close>

text \<open>
  How the constructors change the store. Reference counting is the function \<open>bump\<close>; a constructor that
  succeeds adds one type and counts the references its envelope holds (\<open>adds_type\<close>). The invariant
  \<open>wf_dt\<close> says that the type maps have the length the types record, that envelopes refer to live, older
  types only and that the Fortran handle table is well-formed. Fresh memory holds no valid pointer.
\<close>

subsection \<open>Reference counts\<close>

definition bump :: "int \<Rightarrow> nat list \<Rightarrow> (nat \<Rightarrow> ulm_type option) \<Rightarrow> nat \<Rightarrow> ulm_type option" where
  "bump k ds h x =
     map_option (\<lambda>t. t\<lparr>ut_ref_count := ut_ref_count t + k * int (count_list ds x)\<rparr>) (h x)"

lemma bump_Nil [simp]: "bump k [] h = h"
  by (simp add: bump_def fun_eq_iff option.map_ident)

lemma bump_bump: "bump k es (bump k ds h) = bump k (ds @ es) h"
  by (auto simp: bump_def fun_eq_iff option.map_comp comp_def algebra_simps)

lemma bump_cancel [simp]: "bump k ds (bump (- k) ds h) = h" "bump (- k) ds (bump k ds h) = h"
  by (auto simp: bump_def fun_eq_iff option.map_comp comp_def option.map_ident)

lemma bump_None [simp]: "bump k ds h x = None \<longleftrightarrow> h x = None"
  by (simp add: bump_def)

lemma bump_upd: "a \<notin> set ds \<Longrightarrow> bump k ds (h(a \<mapsto> t)) = (bump k ds h)(a \<mapsto> t)"
  by (auto simp: bump_def fun_eq_iff count_notin)

lemma bump_fields:
  assumes "bump k ds h x = Some t'"
  obtains t where "h x = Some t" and "t' = t\<lparr>ut_ref_count := ut_ref_count t + k * int (count_list ds x)\<rparr>"
  using assms by (auto simp: bump_def)

lemma bump_single:
  "h a = Some t \<Longrightarrow> bump k [a] h = h(a \<mapsto> t\<lparr>ut_ref_count := ut_ref_count t + k\<rparr>)"
  by (auto simp: bump_def fun_eq_iff option.map_ident)

lemma add_ref_bump: "dt_heap s a \<noteq> None \<Longrightarrow> add_ref k s a = Some (s\<lparr>dt_heap := bump k [a] (dt_heap s)\<rparr>)"
  by (auto simp: add_ref_def dt_update_def bump_single)

lemma foldM_add_ref:
  "\<forall>d \<in> set ds. dt_heap s d \<noteq> None \<Longrightarrow>
   foldM (add_ref k) s ds = Some (s\<lparr>dt_heap := bump k ds (dt_heap s)\<rparr>)"
proof (induction ds arbitrary: s)
  case (Cons d ds)
  let ?s = "s\<lparr>dt_heap := bump k [d] (dt_heap s)\<rparr>"
  have "\<forall>d \<in> set ds. dt_heap ?s d \<noteq> None"
    using Cons.prems by (simp del: not_None_eq)
  from Cons.IH [OF this] show ?case
    using Cons.prems by (simp add: add_ref_bump bump_bump del: not_None_eq)
qed simp

subsection \<open>Successful allocation and registration\<close>

lemma ulm_malloc_ok [simp]: "dt_allocs s = [] \<Longrightarrow> ulm_malloc s = (True, s)"
  by (simp add: ulm_malloc_def)

lemma malloc_unchecked_ok [simp]: "dt_allocs s = [] \<Longrightarrow> malloc_unchecked s = Some s"
  by (simp add: malloc_unchecked_def)

lemma malloc_array_ok [simp]: "dt_allocs s = [] \<Longrightarrow> malloc_array xs s = Some s"
  by (simp add: malloc_array_def)

lemma malloc_type_ok [simp]:
  "dt_allocs s = [] \<Longrightarrow> malloc_type s = (Some (dt_next s),
     s\<lparr>dt_heap := (dt_heap s)(dt_next s \<mapsto> dt_junk s), dt_next := Suc (dt_next s)\<rparr>)"
  by (simp add: malloc_type_def)

lemma dt_update_ok [simp]:
  "dt_heap s a = Some t \<Longrightarrow> dt_update a f s = Some (s\<lparr>dt_heap := (dt_heap s)(a \<mapsto> f t)\<rparr>)"
  by (simp add: dt_update_def)

lemma save_envelope_ok [simp]:
  "dt_allocs s = [] \<Longrightarrow> dt_heap s a = Some t \<Longrightarrow>
   save_envelope a c ints addrs dts s =
     Some (s\<lparr>dt_heap := (dt_heap s)(a \<mapsto> t\<lparr>ut_envelope := mk_envelope c ints addrs dts\<rparr>)\<rparr>)"
  by (simp add: save_envelope_def)

text \<open>What registering a type in the Fortran table does.\<close>

definition registers :: "dt_state \<Rightarrow> nat \<Rightarrow> int \<Rightarrow> int \<Rightarrow> nat ptr_table \<Rightarrow> bool" where
  "registers s a h0 h tab \<longleftrightarrow> pt_inv tab \<and>
     (if dt_fortran s then 0 \<le> h \<and> pt_map (dt_type_table s) h = None
        \<and> pt_map tab = (pt_map (dt_type_table s))(h \<mapsto> a)
      else h = h0 \<and> tab = dt_type_table s)"

lemma register_fortran_ok:
  assumes "dt_allocs s = []" and "pt_inv (dt_type_table s)" and "dt_heap s a = Some t"
  shows "\<exists>h tab. registers s a (ut_fhandle t) h tab \<and> register_fortran a s =
    Some (s\<lparr>dt_heap := (dt_heap s)(a \<mapsto> t\<lparr>ut_fhandle := h\<rparr>), dt_type_table := tab\<rparr>)"
proof (cases "dt_fortran s")
  case True
  from pt.add_ok [OF assms(2), of "dt_threads s" a] obtain h tab where
    "mpi_ptr_table_add (dt_threads s) True (Some a) (dt_type_table s) = Some (h, tab)"
    "pt_inv tab" "0 \<le> h" "pt_map (dt_type_table s) h = None"
    "pt_map tab = (pt_map (dt_type_table s))(h \<mapsto> a)" by blast
  with True assms show ?thesis
    by (intro exI [of _ h] exI [of _ tab]) (auto simp: registers_def register_fortran_def Let_def)
next
  case False
  then have "register_fortran a s = Some s" by (simp add: register_fortran_def)
  with False assms show ?thesis
    by (intro exI [of _ "ut_fhandle t"] exI [of _ "dt_type_table s"]) (auto simp: registers_def fun_upd_idem)
qed

subsection \<open>The effect of a constructor\<close>

text \<open>\<open>adds_type s a t ds s'\<close>: \<open>s'\<close> is \<open>s\<close> with the new type \<open>t\<close> at the fresh address \<open>a\<close>, one more
  reference for every element of \<open>ds\<close>, and \<open>a\<close> registered in the Fortran table.\<close>

definition adds_type :: "dt_state \<Rightarrow> nat \<Rightarrow> ulm_type \<Rightarrow> nat list \<Rightarrow> dt_state \<Rightarrow> bool" where
  "adds_type s a t ds s' \<longleftrightarrow> a = dt_next s \<and>
     (\<exists>h0 tab. registers s a h0 (ut_fhandle t) tab \<and>
        s' = s\<lparr>dt_heap := (bump 1 ds (dt_heap s))(a \<mapsto> t), dt_next := Suc a, dt_type_table := tab\<rparr>)"

lemma adds_type_new: "adds_type s a t ds s' \<Longrightarrow> dt_heap s' a = Some t"
  by (auto simp: adds_type_def)

lemma adds_typeI:
  assumes "registers s (dt_next s) h0 (ut_fhandle t) tab"
    and "s' = s\<lparr>dt_heap := (bump 1 ds (dt_heap s))(dt_next s \<mapsto> t), dt_next := Suc (dt_next s), dt_type_table := tab\<rparr>"
  shows "adds_type s (dt_next s) t ds s'"
  using assms by (auto simp: adds_type_def)

lemma adds_type_upd:
  assumes "adds_type s a t ds s'" and "ut_fhandle u = ut_fhandle t"
  shows "adds_type s a u ds (s'\<lparr>dt_heap := (dt_heap s')(a \<mapsto> u)\<rparr>)"
proof -
  obtain h0 tab where r: "a = dt_next s" "registers s a h0 (ut_fhandle t) tab"
    and s': "s' = s\<lparr>dt_heap := (bump 1 ds (dt_heap s))(a \<mapsto> t), dt_next := Suc a, dt_type_table := tab\<rparr>"
    using assms(1) by (auto simp: adds_type_def)
  show ?thesis unfolding r(1) by (rule adds_typeI) (use r assms(2) s' in auto)
qed

text \<open>The state in which the constructors register the new type: everything done but the registration.\<close>

definition built :: "dt_state \<Rightarrow> ulm_type \<Rightarrow> nat list \<Rightarrow> dt_state" where
  "built s t ds = s\<lparr>dt_next := Suc (dt_next s), dt_heap := (bump 1 ds (dt_heap s))(dt_next s \<mapsto> t)\<rparr>"

lemma built_sel [simp]:
  "dt_allocs (built s t ds) = dt_allocs s" "dt_type_table (built s t ds) = dt_type_table s"
  "dt_heap (built s t ds) = (bump 1 ds (dt_heap s))(dt_next s \<mapsto> t)" "dt_errs (built s t ds) = dt_errs s"
  "dt_fortran (built s t ds) = dt_fortran s"
  "dt_junk_elt (built s t ds) = dt_junk_elt s"
  by (simp_all add: built_def)

lemma register_built:
  assumes "dt_allocs s = []" and "pt_inv (dt_type_table s)"
  shows "\<exists>h s'. register_fortran (dt_next s) (built s t ds) = Some s'
    \<and> adds_type s (dt_next s) (t\<lparr>ut_fhandle := h\<rparr>) ds s'"
proof -
  from register_fortran_ok [of "built s t ds" "dt_next s" t] assms obtain h tab where
    r: "registers (built s t ds) (dt_next s) (ut_fhandle t) h tab"
      "register_fortran (dt_next s) (built s t ds) = Some ((built s t ds)\<lparr>dt_heap :=
         (dt_heap (built s t ds))(dt_next s \<mapsto> t\<lparr>ut_fhandle := h\<rparr>), dt_type_table := tab\<rparr>)"
    by auto
  have "registers s (dt_next s) (ut_fhandle t) h tab"
    using r(1) by (simp add: registers_def split: if_splits)
  then show ?thesis using r(2)
    by (intro exI [of _ h] exI conjI adds_typeI) (auto simp: built_def)
qed

subsection \<open>Well-formed stores\<close>

definition darray_of :: "ulm_type \<Rightarrow> nat list" where
  "darray_of t = (case env_darray (ut_envelope t) of None \<Rightarrow> [] | Some ds \<Rightarrow> ds)"

definition wf_map :: "ulm_type \<Rightarrow> bool" where
  "wf_map t \<longleftrightarrow> (case ut_type_map t of Arr tm \<Rightarrow> ut_num_pairs t = int (length tm) | _ \<Rightarrow> ut_num_pairs t = 0)"

definition wf_env :: "nat \<Rightarrow> ulm_type \<Rightarrow> bool" where
  "wf_env a t \<longleftrightarrow> env_ndatatypes (ut_envelope t) = int (length (darray_of t)) \<and> (\<forall>d \<in> set (darray_of t). d < a)"

definition wf_dt :: "dt_state \<Rightarrow> bool" where
  "wf_dt s \<longleftrightarrow> pt_inv (dt_type_table s) \<and> ut_type_map (dt_junk s) = Wild \<and>
     (\<forall>a t. dt_heap s a = Some t \<longrightarrow> a < dt_next s \<and> wf_map t \<and> wf_env a t
        \<and> (\<forall>d \<in> set (darray_of t). dt_heap s d \<noteq> None))"

definition type_map_of :: "ulm_type \<Rightarrow> tmelt list" where
  "type_map_of t = (case ut_type_map t of Arr tm \<Rightarrow> tm | _ \<Rightarrow> [])"

lemma wf_dtD:
  assumes "wf_dt s" and "dt_heap s a = Some t"
  shows "a < dt_next s" and "wf_map t" and "wf_env a t" and "pt_inv (dt_type_table s)"
    and "d \<in> set (darray_of t) \<Longrightarrow> dt_heap s d \<noteq> None"
  using assms unfolding wf_dt_def by blast+

lemma wf_dt_fresh: "wf_dt s \<Longrightarrow> dt_heap s (dt_next s) = None"
  unfolding wf_dt_def by (metis less_irrefl option.exhaust)

lemma wf_dt_table: "wf_dt s \<Longrightarrow> pt_inv (dt_type_table s)"
  by (simp add: wf_dt_def)

lemma type_pairs_wf: "wf_map t \<Longrightarrow> type_pairs t = Some (type_map_of t)"
  by (auto simp: wf_map_def type_pairs_def type_map_of_def split: tmptr.splits)

lemma ref_count_irrelevant [simp]:
  "type_pairs (t\<lparr>ut_ref_count := r\<rparr>) = type_pairs t" "type_map_of (t\<lparr>ut_ref_count := r\<rparr>) = type_map_of t"
  "darray_of (t\<lparr>ut_ref_count := r\<rparr>) = darray_of t" "wf_map (t\<lparr>ut_ref_count := r\<rparr>) = wf_map t"
  "wf_env a (t\<lparr>ut_ref_count := r\<rparr>) = wf_env a t" "old_pairs n (t\<lparr>ut_ref_count := r\<rparr>) = old_pairs n t"
  "vec_visits c n k (t\<lparr>ut_ref_count := r\<rparr>) tm = vec_visits c n k t tm"
  "hvec_visits c n d (t\<lparr>ut_ref_count := r\<rparr>) tm = hvec_visits c n d t tm"
  "vector_extent c n k (t\<lparr>ut_ref_count := r\<rparr>) = vector_extent c n k t"
  "hvector_extent c n d (t\<lparr>ut_ref_count := r\<rparr>) = hvector_extent c n d t"
  by (auto simp: type_pairs_def type_map_of_def darray_of_def wf_map_def wf_env_def old_pairs_def
      vec_visits_def hvec_visits_def vector_extent_def hvector_extent_def split: tmptr.splits)

lemma old_pairs_wf: "wf_map t \<Longrightarrow> old_pairs n t = Some (if n > 0 then type_map_of t else [])"
  by (simp add: old_pairs_def type_pairs_wf)

lemma fhandle_irrelevant [simp]:
  "type_map_of (t\<lparr>ut_fhandle := h\<rparr>) = type_map_of t" "darray_of (t\<lparr>ut_fhandle := h\<rparr>) = darray_of t"
  "wf_map (t\<lparr>ut_fhandle := h\<rparr>) = wf_map t" "wf_env a (t\<lparr>ut_fhandle := h\<rparr>) = wf_env a t"
  by (auto simp: type_map_of_def darray_of_def wf_map_def wf_env_def split: tmptr.splits)

lemma wf_dt_adds:
  assumes "wf_dt s" and "adds_type s a t ds s'" and "wf_map t" and "wf_env a t"
    and "\<forall>d \<in> set (darray_of t). dt_heap s d \<noteq> None"
  shows "wf_dt s'"
proof -
  obtain h0 tab where a: "a = dt_next s" and tab: "registers s a h0 (ut_fhandle t) tab"
    and s': "s' = s\<lparr>dt_heap := (bump 1 ds (dt_heap s))(a \<mapsto> t), dt_next := Suc a, dt_type_table := tab\<rparr>"
    using assms(2) by (auto simp: adds_type_def)
  have "b < Suc a \<and> wf_map u \<and> wf_env b u \<and> (\<forall>d \<in> set (darray_of u). dt_heap s' d \<noteq> None)"
    if "dt_heap s' b = Some u" for b u
  proof (cases "b = a")
    case True
    with that s' assms show ?thesis by (auto simp del: not_None_eq)
  next
    case False
    with that s' obtain v where v: "dt_heap s b = Some v"
      "u = v\<lparr>ut_ref_count := ut_ref_count v + 1 * int (count_list ds b)\<rparr>"
      by (auto elim: bump_fields)
    from wf_dtD [OF assms(1) v(1)] v(2) a s' show ?thesis
      by (auto simp del: not_None_eq)
  qed
  then show ?thesis using tab s' assms(1) unfolding wf_dt_def by (auto simp: registers_def)
qed

end
