(* ===== verification/Datatype_Construct.thy ===== *)
theory Datatype_Construct
  imports Datatype_Store
begin

section \<open>What the datatype constructors build\<close>

text \<open>
  When no allocation fails and the old types are live, every constructor returns success and adds exactly
  one type to the store (\<open>adds_type\<close>), whose type map is the sequence of entries the first pass of its
  loops counted. No access is outside an array and no dead type is read: the results are \<open>Some\<close>.
\<close>

subsection \<open>Common parts\<close>

text \<open>The parts of a new type that do not depend on the constructor's loops.\<close>

definition fresh_type :: "ulm_type \<Rightarrow> envelope \<Rightarrow> size_t \<Rightarrow> size_t \<Rightarrow> bool" where
  "fresh_type t env lb ext \<longleftrightarrow> ut_envelope t = env \<and> ut_lower_bound t = lb \<and> ut_extent t = ext
     \<and> ut_ref_count t = 1 \<and> ut_committed t = 0 \<and> ut_isbasic t = 0 \<and> wf_map t"

lemma mark_contiguous_id [simp]: "mark_contiguous t = t"
  by (simp add: mark_contiguous_def MPI_MARK_AS_CONTIGUOUS_def)

lemma constructor_finish:
  assumes "wf_dt s" and "dt_allocs s = []" and "fresh_type t env lb ext"
    and "r = do { s' \<leftarrow> register_fortran (dt_next s) (built s t ds); Some (rc, Some (Some (dt_next s)), s') }"
  shows "\<exists>u s'. r = Some (rc, Some (Some (dt_next s)), s') \<and> adds_type s (dt_next s) u ds s'
    \<and> fresh_type u env lb ext \<and> ut_type_map u = ut_type_map t"
proof -
  from register_built [OF assms(2) wf_dt_table [OF assms(1)], of t ds] obtain h s' where
    "register_fortran (dt_next s) (built s t ds) = Some s'"
    "adds_type s (dt_next s) (t\<lparr>ut_fhandle := h\<rparr>) ds s'" by blast
  with assms(3,4) show ?thesis
    by (intro exI [of _ "t\<lparr>ut_fhandle := h\<rparr>"] exI [of _ s']) (simp add: fresh_type_def)
qed

lemma type_map_of_cong: "ut_type_map u = ut_type_map t \<Longrightarrow> type_map_of u = type_map_of t"
  by (simp add: type_map_of_def)

lemma bump_self: "h a = Some t \<Longrightarrow> bump 1 [a] h a = Some (t\<lparr>ut_ref_count := ut_ref_count t + 1\<rparr>)"
  by (simp add: bump_def)

lemma vec_count_nonneg: "0 \<le> vec_count vs"
  by (simp add: vec_count_entries)

text \<open>The entries of a new type map are at most the entries copied, so that their number bounds the counter \<^verbatim>\<open>typemap_i\<close>.\<close>

lemma entries_le: "length (entries d acc vs) \<le> length acc + length vs"
proof (induction vs arbitrary: acc)
  case (Cons v vs)
  have "length (perform (d (last_entry acc) v) acc) \<le> Suc (length acc)" for acc
    by (cases "d (last_entry acc) v") (auto intro: le_SucI)
  with Cons.IH [of "perform (d (last_entry acc) v) acc"] show ?case by (simp add: le_trans)
qed simp

lemma vec_count_le: "vec_count vs \<le> int (length vs)"
  using entries_le [of vec_decide "[]" vs] by (simp add: vec_count_entries)

lemma length_block_visits: "length (fst (block_visits tm e n off)) = n * length tm"
  by (induction n arbitrary: off) (auto simp: pair_visits_def split_beta)

lemma length_vector_visits: "length (vector_visits tm e b k n off) = n * (b * length tm)"
  by (induction n arbitrary: off) (auto simp: split_beta length_block_visits)

lemma length_vec_visits:
  "length (vec_visits count blocklen stride t tm) = nat count * (nat blocklen * length tm)"
  "length (hvec_visits count blocklen d t tm) = nat count * (nat blocklen * length tm)"
  by (simp_all add: vec_visits_def hvec_visits_def length_vector_visits)

lemma int_range_vec_count:
  assumes "int (nat count * nat blocklen * length tm) \<le> 2147483647"
  shows "int_range (vec_count (vec_visits count blocklen stride t (if blocklen > 0 then tm else [])))"
    "int_range (vec_count (hvec_visits count blocklen d t (if blocklen > 0 then tm else [])))"
proof -
  have "nat count * (nat blocklen * length (if blocklen > 0 then tm else [])) \<le> nat count * nat blocklen * length tm"
    by (simp add: mult.assoc)
  then have l: "int (nat count * (nat blocklen * length (if blocklen > 0 then tm else []))) \<le> 2147483647"
    using assms by linarith
  have "int_range (vec_count vs)" if "int (length vs) \<le> 2147483647" for vs
    using that vec_count_le [of vs] vec_count_nonneg [of vs] by (simp add: int_range_def)
  then show "int_range (vec_count (vec_visits count blocklen stride t (if blocklen > 0 then tm else [])))"
    "int_range (vec_count (hvec_visits count blocklen d t (if blocklen > 0 then tm else [])))"
    using l length_vec_visits by metis+
qed

text \<open>The extent of a vector is defined when the number of old extents it spans fits a C \<^verbatim>\<open>int\<close>.\<close>

lemma vector_extent_if:
  assumes "int_range stride" and "0 < count" and "0 \<le> blocklen"
  shows "vector_extent count blocklen stride t =
    (if int_range \<bar>stride\<bar> \<and> int_range (\<bar>stride\<bar> * (count - 1) + blocklen)
     then Some (word_of_int (\<bar>stride\<bar> * (count - 1) + blocklen) * ut_extent t - ut_lower_bound t) else None)"
proof -
  have "0 \<le> \<bar>stride\<bar> * (count - 1)" using assms(2) by simp
  then have "int_range (\<bar>stride\<bar> * (count - 1))" if "int_range (\<bar>stride\<bar> * (count - 1) + blocklen)"
    using that assms(3) by (intro int_range_nonneg [of "\<bar>stride\<bar> * (count - 1)"]) auto
  then show ?thesis using assms(1)
    by (cases "stride < 0") (auto simp: vector_extent_def c_int_def abs_if)
qed

lemma vector_undefined:
  assumes "wf_dt s" and "dt_allocs s = []" and old: "dt_heap s old = Some oldtype" and "0 < count"
    and "\<not> int_range (stride - blocklen) \<or> vector_extent count blocklen stride oldtype = None"
  shows "PMPI_Type_vector count blocklen stride (Some old) (Some out) s = None"
proof -
  have ne: "dt_next s \<noteq> old" "old \<noteq> dt_next s" using wf_dtD(1) [OF assms(1) old] by auto
  note tp = old_pairs_wf [OF wf_dtD(2) [OF assms(1) old]]
  show ?thesis using assms(2,4,5) ne old
    by (auto simp: PMPI_Type_vector_def add_ref_bump bump_upd bump_self tp Let_def c_int_def split: bind_splits)
qed

subsection \<open>\<^verbatim>\<open>MPI_Type_vector\<close> and \<^verbatim>\<open>MPI_Type_hvector\<close>\<close>

lemma vec_fill_fresh:
  obtains type_map where "vec_fill vs (replicate (nat (vec_count vs)) e) = Some type_map"
    and "map entry_pair type_map = rev (entries vec_decide [] vs)" and "int (length type_map) = vec_count vs"
proof -
  from vec_fill_ok [of "replicate (nat (vec_count vs)) e" vs] vec_count_nonneg [of vs]
  obtain tm where tm: "vec_fill vs (replicate (nat (vec_count vs)) e) = Some tm"
    "map entry_pair tm = rev (entries vec_decide [] vs)" by auto
  moreover have "int (length tm) = vec_count vs"
    using arg_cong [OF tm(2), of length] by (simp add: vec_count_entries)
  ultimately show ?thesis using that by blast
qed

lemma vector_ok:
  assumes "wf_dt s" and "dt_allocs s = []" and old: "dt_heap s old = Some oldtype" and "0 < count"
    and vs: "vs = vec_visits count blocklen stride oldtype (if blocklen > 0 then type_map_of oldtype else [])"
    and ext: "vector_extent count blocklen stride oldtype = Some extent"
    and ints: "int_range (stride - blocklen)" "int_range (vec_count vs)"
  shows "\<exists>t s'. PMPI_Type_vector count blocklen stride (Some old) (Some out) s
      = Some (MPI_SUCCESS, Some (Some (dt_next s)), s') \<and> adds_type s (dt_next s) t [old] s'
    \<and> fresh_type t (mk_envelope MPI_COMBINER_VECTOR [count, blocklen, stride] [] [old])
        (ut_lower_bound oldtype) extent
    \<and> map entry_pair (type_map_of t) = rev (entries vec_decide [] vs)
    \<and> (0 < vec_count vs \<longrightarrow> ut_type_map t \<noteq> Wild)"
proof -
  have ne: "dt_next s \<noteq> old" "old \<noteq> dt_next s" using wf_dtD(1) [OF assms(1) old] by auto
  note tp = old_pairs_wf [OF wf_dtD(2) [OF assms(1) old]]
  obtain type_map where f: "vec_fill vs (replicate (nat (vec_count vs)) (dt_junk_elt s)) = Some type_map"
    and e: "map entry_pair type_map = rev (entries vec_decide [] vs)" "int (length type_map) = vec_count vs"
    by (rule vec_fill_fresh)
  define env where "env = mk_envelope MPI_COMBINER_VECTOR [count, blocklen, stride] [] [old]"
  define t0 where "t0 = (init_new ((dt_junk s)\<lparr>ut_envelope := env\<rparr>))\<lparr>ut_num_pairs := vec_count vs\<rparr>"
  define t where "t = (if vec_count vs > 0 then t0\<lparr>ut_type_map := Arr type_map\<rparr> else t0)
     \<lparr>ut_extent := extent, ut_lower_bound := ut_lower_bound oldtype\<rparr>"
  have run: "PMPI_Type_vector count blocklen stride (Some old) (Some out) s =
    do { s' \<leftarrow> register_fortran (dt_next s) (built s t [old]); Some (MPI_SUCCESS, Some (Some (dt_next s)), s') }"
    using assms(2,4) ne old f ext ints
    by (cases "vec_count vs > 0")
      (simp_all add: PMPI_Type_vector_def add_ref_bump bump_upd bump_self tp env_def [symmetric] vs [symmetric]
        Let_def t_def t0_def built_def)
  have "fresh_type t env (ut_lower_bound oldtype) extent"
    "map entry_pair (type_map_of t) = rev (entries vec_decide [] vs)" "0 < vec_count vs \<longrightarrow> ut_type_map t \<noteq> Wild"
    using e assms(1) vec_count_nonneg [of vs]
    by (auto simp: fresh_type_def t_def t0_def init_new_def wf_map_def wf_dt_def type_map_of_def vec_count_entries)
  with constructor_finish [OF assms(1,2) _ run] show ?thesis unfolding env_def by (metis type_map_of_cong)
qed

lemma hvector_ok:
  assumes "wf_dt s" and "dt_allocs s = []" and old: "dt_heap s old = Some oldtype" and "0 < count"
    and vs: "vs = hvec_visits count blocklen stride oldtype (if blocklen > 0 then type_map_of oldtype else [])"
    and ext: "hvector_extent count blocklen stride oldtype = Some extent" and ints: "int_range (vec_count vs)"
  shows "\<exists>t s'. PMPI_Type_create_hvector count blocklen stride (Some old) (Some out) s
      = Some (MPI_SUCCESS, Some (Some (dt_next s)), s') \<and> adds_type s (dt_next s) t [old] s'
    \<and> fresh_type t (mk_envelope MPI_COMBINER_HVECTOR [count, blocklen] [stride] [old])
        (ut_lower_bound oldtype) extent
    \<and> map entry_pair (type_map_of t) = rev (entries vec_decide [] vs) \<and> ut_type_map t \<noteq> Wild"
proof -
  have ne: "dt_next s \<noteq> old" "old \<noteq> dt_next s" using wf_dtD(1) [OF assms(1) old] by auto
  note tp = old_pairs_wf [OF wf_dtD(2) [OF assms(1) old]]
  obtain type_map where f: "vec_fill vs (replicate (nat (vec_count vs)) (dt_junk_elt s)) = Some type_map"
    and e: "map entry_pair type_map = rev (entries vec_decide [] vs)" "int (length type_map) = vec_count vs"
    by (rule vec_fill_fresh)
  define env where "env = mk_envelope MPI_COMBINER_HVECTOR [count, blocklen] [stride] [old]"
  define t where "t = (init_new (dt_junk s))\<lparr>ut_num_pairs := vec_count vs, ut_envelope := env,
     ut_type_map := Arr type_map, ut_extent := extent,
     ut_lower_bound := ut_lower_bound oldtype\<rparr>"
  have run: "PMPI_Type_create_hvector count blocklen stride (Some old) (Some out) s =
    do { s' \<leftarrow> register_fortran (dt_next s) (built s t [old]); Some (MPI_SUCCESS, Some (Some (dt_next s)), s') }"
    using assms(2,4) ne old f ext ints
    by (simp add: PMPI_Type_create_hvector_def add_ref_bump bump_upd bump_self tp env_def [symmetric]
        vs [symmetric] Let_def t_def built_def)
  have "fresh_type t env (ut_lower_bound oldtype) extent"
    "map entry_pair (type_map_of t) = rev (entries vec_decide [] vs)" "ut_type_map t \<noteq> Wild"
    using e by (auto simp: fresh_type_def t_def init_new_def wf_map_def type_map_of_def)
  with constructor_finish [OF assms(1,2) _ run] show ?thesis unfolding env_def by (metis type_map_of_cong)
qed

subsection \<open>\<^verbatim>\<open>MPI_Type_struct\<close>\<close>

text \<open>A type without its reference count: all the constructors read of an old type.\<close>

definition noref :: "ulm_type \<Rightarrow> ulm_type" where
  "noref t = t\<lparr>ut_ref_count := 0\<rparr>"

lemma noref_ref [simp]: "noref (t\<lparr>ut_ref_count := r\<rparr>) = noref t"
  by (simp add: noref_def)

lemma noref_sel:
  "ut_extent (noref t) = ut_extent t" "ut_lower_bound (noref t) = ut_lower_bound t"
  "ut_op_index (noref t) = ut_op_index t" "type_pairs (noref t) = type_pairs t"
  by (simp_all add: noref_def)

lemma noref_eqD:
  assumes "noref t = noref u"
  shows "ut_extent t = ut_extent u" "ut_lower_bound t = ut_lower_bound u" "ut_op_index t = ut_op_index u"
    "type_pairs t = type_pairs u"
  using assms by (metis noref_sel)+

lemma bounds_step_noref: "noref t = noref u \<Longrightarrow> bounds_step b (i, d, t) = bounds_step b (i, d, u)"
  by (simp only: bounds_step_def noref_eqD [of t u] prod.case)

lemma struct_block_noref: "noref t = noref u \<Longrightarrow> struct_block (bl, d, t) = struct_block (bl, d, u)"
  by (simp only: struct_block_def noref_eqD [of t u] prod.case)

lemma struct_scan_noref: "map noref ts = map noref us \<Longrightarrow> struct_scan disps ts = struct_scan disps us"
proof -
  assume a: "map noref ts = map noref us"
  have "foldl bounds_step b (zip is (zip ds ts)) = foldl bounds_step b (zip is (zip ds us))" for b ds "is"
    using a
  proof (induction ts us arbitrary: b ds "is" rule: list_induct2')
    case (4 t ts u us)
    then show ?case
      by (cases ds; cases "is") (auto simp: bounds_step_noref [of t u])
  qed auto
  moreover have "length ts = length us" using a by (metis length_map)
  ultimately show ?thesis by (simp add: struct_scan_def)
qed

lemma bounds_step_range:
  assumes "i < n" and "b_max_disp_i b \<in> {0..<int n} \<and> b_min_disp_i b \<in> {0..<int n}"
  shows "b_max_disp_i (bounds_step b (i, d, t)) \<in> {0..<int n} \<and> b_min_disp_i (bounds_step b (i, d, t)) \<in> {0..<int n}"
  using assms by (simp add: bounds_step_def Let_def)

lemma foldl_bounds_range:
  assumes "b_max_disp_i b \<in> {0..<int n} \<and> b_min_disp_i b \<in> {0..<int n}" and "\<forall>x \<in> set xs. fst x < n"
  shows "b_max_disp_i (foldl bounds_step b xs) \<in> {0..<int n} \<and> b_min_disp_i (foldl bounds_step b xs) \<in> {0..<int n}"
  using assms
proof (induction xs arbitrary: b)
  case (Cons x xs)
  obtain i d t where x: "x = (i, d, t)" by (cases x)
  from Cons.IH [OF bounds_step_range [of i n b d t]] Cons.prems x show ?case by simp
qed simp

lemma struct_scan_range:
  assumes "ts \<noteq> []"
  shows "b_max_disp_i (struct_scan disps ts) \<in> {0..<int (length ts)} \<and> b_min_disp_i (struct_scan disps ts) \<in> {0..<int (length ts)}"
  unfolding struct_scan_def by (rule foldl_bounds_range) (use assms in \<open>auto dest!: set_zip_leftD\<close>)

lemma struct_lb_ub_noref:
  assumes "map noref ts = map noref us" and "us \<noteq> []"
  shows "struct_lb_ub bls disps ts = struct_lb_ub bls disps us"
proof -
  let ?m = "nat (b_max_disp_i (struct_scan disps us))"
  have "?m < length us" using struct_scan_range [OF assms(2), of disps] by auto
  moreover have "length ts = length us" using assms(1) by (metis length_map)
  ultimately have "noref (ts ! ?m) = noref (us ! ?m)" using assms(1) by (metis nth_map)
  from noref_eqD(1) [OF this] show ?thesis
    by (simp add: struct_lb_ub_def struct_scan_noref [OF assms(1)] Let_def)
qed

lemma map_struct_block_noref:
  "map noref ts = map noref us \<Longrightarrow> map struct_block (zip bls (zip disps ts)) = map struct_block (zip bls (zip disps us))"
proof (induction ts us arbitrary: bls disps rule: list_induct2')
  case (4 t ts u us)
  then show ?case by (cases bls; cases disps) (auto simp: struct_block_noref [of t u])
qed auto

lemma bump_types:
  assumes "map h ds = map Some ts"
  shows "\<exists>us. map (bump k es h) ds = map Some us \<and> map noref us = map noref ts"
  using assms
proof (induction ds arbitrary: ts)
  case (Cons d ds)
  then obtain t ts' where ts: "ts = t # ts'" "h d = Some t" "map h ds = map Some ts'" by auto
  from Cons.IH [OF ts(3)] obtain us where "map (bump k es h) ds = map Some us" "map noref us = map noref ts'" by blast
  moreover have "bump k es h d = Some (t\<lparr>ut_ref_count := ut_ref_count t + k * int (count_list es d)\<rparr>)"
    using ts(2) by (simp add: bump_def)
  ultimately show ?case
    using ts by (intro exI [of _ "t\<lparr>ut_ref_count := ut_ref_count t + k * int (count_list es d)\<rparr> # us"]) simp
qed simp

text \<open>The blocks of a struct over well-formed types.\<close>

definition wf_block :: "int \<times> size_t \<times> ulm_type \<Rightarrow> int \<times> size_t \<times> size_t \<times> tmelt list" where
  "wf_block = (\<lambda>(bl, disp, t). (bl, disp, ut_extent t, if ut_extent t > 0 \<and> bl > 0 then type_map_of t else []))"

lemma struct_block_wf: "wf_map t \<Longrightarrow> struct_block (bl, disp, t) = Some (wf_block (bl, disp, t))"
  by (simp add: struct_block_def wf_block_def type_pairs_wf)

lemma map_struct_block_wf:
  assumes "\<forall>t \<in> set ts. wf_map t"
  shows "map struct_block (zip bls (zip disps ts)) = map Some (map wf_block (zip bls (zip disps ts)))"
  using assms by (auto simp: struct_block_wf dest!: set_zip_rightD)

lemma struct_fill_fresh:
  obtains type_map where "struct_fill trim lb ub vs (replicate (nat (struct_count trim lb ub vs)) e) = Some type_map"
    and "map entry_pair type_map = rev (entries (struct_decide trim lb ub) [] vs)"
    and "int (length type_map) = struct_count trim lb ub vs"
proof -
  have "int (length (replicate (nat (struct_count trim lb ub vs)) e)) = struct_count trim lb ub vs"
    by (simp add: struct_count_entries)
  from struct_fill_ok [OF this]
  obtain tm where tm: "struct_fill trim lb ub vs (replicate (nat (struct_count trim lb ub vs)) e) = Some tm"
    "map entry_pair tm = rev (entries (struct_decide trim lb ub) [] vs)" by auto
  moreover have "int (length tm) = struct_count trim lb ub vs"
    using arg_cong [OF tm(2), of length] by (simp add: struct_count_entries)
  ultimately show ?thesis using that by blast
qed

lemma struct_ok:
  assumes "wf_dt s" and "dt_allocs s = []" and ts: "map (dt_heap s) dts = map Some ts"
    and len: "length bls = nat count" "length disps = nat count" "length dts = nat count" and "0 < count"
    and bnd: "struct_lb_ub bls disps ts = (lb, ub)"
    and vs: "vs = struct_visits (map wf_block (zip bls (zip disps ts)))"
  shows "\<exists>t s'. PMPI_Type_create_struct count bls disps (map Some dts) (Some out) s
      = Some (MPI_SUCCESS, Some (Some (dt_next s)), s') \<and> adds_type s (dt_next s) t dts s'
    \<and> fresh_type t (mk_envelope MPI_COMBINER_STRUCT (count # bls) disps dts) lb (ub - lb)
    \<and> map entry_pair (type_map_of t) = rev (entries (struct_decide False lb ub) [] vs) \<and> ut_type_map t \<noteq> Wild"
proof -
  have live: "\<forall>d \<in> set dts. dt_heap s d \<noteq> None" and wf: "\<forall>t \<in> set ts. wf_map t"
    using ts wf_dtD(2) [OF assms(1)]
    by (metis in_set_conv_nth length_map nth_map option.distinct(1))+
  have ne: "dt_next s \<notin> set dts" using live wf_dt_fresh [OF assms(1)] by auto
  obtain us where us: "map (bump 1 dts (dt_heap s)) dts = map Some us" "map noref us = map noref ts"
    using bump_types [OF ts] by blast
  have tsne: "ts \<noteq> []" using arg_cong [OF ts, of length] len(3) assms(7) by auto
  have bnd': "struct_lb_ub bls disps us = (lb, ub)" using struct_lb_ub_noref [OF us(2) tsne] bnd by simp
  have blk: "those (map struct_block (zip bls (zip disps us))) = Some (map wf_block (zip bls (zip disps ts)))"
    by (simp only: map_struct_block_noref [OF us(2)] map_struct_block_wf [OF wf] those_map_Some)
  define n where "n = struct_count False lb ub vs"
  obtain type_map where f: "struct_fill False lb ub vs (replicate (nat n) (dt_junk_elt s)) = Some type_map"
    and e: "map entry_pair type_map = rev (entries (struct_decide False lb ub) [] vs)" "int (length type_map) = n"
    unfolding n_def by (rule struct_fill_fresh)
  define env where "env = mk_envelope MPI_COMBINER_STRUCT (count # bls) disps dts"
  define t where "t = (init_new ((dt_junk s)\<lparr>ut_op_index := 0\<rparr>))\<lparr>ut_envelope := env, ut_extent := ub - lb,
     ut_lower_bound := lb, ut_num_pairs := n, ut_type_map := (if n > 0 then Arr type_map else Null)\<rparr>"
  have run: "PMPI_Type_create_struct count bls disps (map Some dts) (Some out) s =
    do { s' \<leftarrow> register_fortran (dt_next s) (built s t dts); Some (MPI_SUCCESS, Some (Some (dt_next s)), s') }"
    using assms(2,7) ne live len f
    by (cases "n > 0")
      (simp_all add: PMPI_Type_create_struct_def foldM_add_ref bump_upd env_def [symmetric] bnd' blk us(1)
        vs [symmetric] MPI_DTYPE_TRIM_def n_def [symmetric] Let_def t_def built_def)
  have "fresh_type t env lb (ub - lb)"
    "map entry_pair (type_map_of t) = rev (entries (struct_decide False lb ub) [] vs)" "ut_type_map t \<noteq> Wild"
    using e by (auto simp: fresh_type_def t_def init_new_def wf_map_def type_map_of_def n_def struct_count_entries)
  with constructor_finish [OF assms(1,2) _ run] show ?thesis unfolding env_def by (metis type_map_of_cong)
qed

subsection \<open>\<^verbatim>\<open>MPI_Type_contiguous\<close>, \<^verbatim>\<open>MPI_Type_indexed\<close> and \<^verbatim>\<open>MPI_Type_hindexed\<close>\<close>

lemma bump_cancel_upd:
  "a \<notin> set ds \<Longrightarrow> bump (- 1) ds ((bump 1 ds h)(a \<mapsto> t)) = h(a \<mapsto> t)"
  by (simp add: bump_upd bump_cancel(2) [of 1, simplified])

lemma bump_upd_at [simp]: "a \<notin> set ds \<Longrightarrow> bump k ds (h(a \<mapsto> t)) a = Some t"
  by (simp add: bump_upd)

lemma drop_envelope_refs_ok:
  assumes "dt_heap s a = Some t" and "ut_envelope t = mk_envelope c ints addrs ds"
    and "\<forall>d \<in> set ds. dt_heap s d \<noteq> None"
  shows "drop_envelope_refs a s = Some (s\<lparr>dt_heap := bump (- 1) ds (dt_heap s)\<rparr>)"
  using assms by (simp add: drop_envelope_refs_def mk_envelope_def null_if_empty_def foldM_add_ref)

lemma replace_envelope_ok:
  assumes wf: "wf_dt s" and al: "dt_allocs s = []" and add: "adds_type s a t ds s'"
    and env: "ut_envelope t = mk_envelope c ints addrs ds"
    and live: "\<forall>d \<in> set ds. dt_heap s d \<noteq> None" "dt_heap s old \<noteq> None"
  shows "\<exists>s''. replace_envelope c' ints' addrs' (Some old) (MPI_SUCCESS, Some (Some a), s')
      = Some (MPI_SUCCESS, Some (Some a), s'')
    \<and> adds_type s a (t\<lparr>ut_envelope := mk_envelope c' ints' addrs' [old]\<rparr>) [old] s''"
proof -
  obtain h0 tab where a: "a = dt_next s" and tab: "registers s a h0 (ut_fhandle t) tab"
    and s': "s' = s\<lparr>dt_heap := (bump 1 ds (dt_heap s))(a \<mapsto> t), dt_next := Suc a, dt_type_table := tab\<rparr>"
    using add by (auto simp: adds_type_def)
  have fresh: "a \<notin> set ds" "a \<noteq> old" using live wf_dt_fresh [OF wf] a by auto
  have "dt_heap s' a = Some t" "\<forall>d \<in> set ds. dt_heap s' d \<noteq> None"
    using s' live(1) by (simp_all del: not_None_eq)
  note d = drop_envelope_refs_ok [OF this(1) env this(2)]
  let ?t = "t\<lparr>ut_envelope := mk_envelope c' ints' addrs' [old]\<rparr>"
  let ?s = "s\<lparr>dt_next := Suc a, dt_type_table := tab, dt_heap := (bump 1 [old] (dt_heap s))(a \<mapsto> ?t)\<rparr>"
  have "replace_envelope c' ints' addrs' (Some old) (MPI_SUCCESS, Some (Some a), s') = Some (MPI_SUCCESS, Some (Some a), ?s)"
    unfolding replace_envelope_def using fresh live(2) al
    by (simp add: d [unfolded s'] bump_cancel_upd s' add_ref_bump bump_upd del: not_None_eq)
  moreover have "adds_type s a ?t [old] ?s"
    unfolding adds_type_def using tab a by (auto intro!: exI [of _ h0] exI [of _ tab])
  ultimately show ?thesis by blast
qed

lemma fresh_type_env: "fresh_type t env lb ext \<Longrightarrow> fresh_type (t\<lparr>ut_envelope := env'\<rparr>) env' lb ext"
  by (simp add: fresh_type_def wf_map_def split: tmptr.splits)

lemma type_map_of_env [simp]: "type_map_of (t\<lparr>ut_envelope := env\<rparr>) = type_map_of t"
  by (simp add: type_map_of_def)

text \<open>An outer constructor: the inner one succeeds and its envelope is replaced.\<close>

lemma outer_ok:
  assumes "wf_dt s" and "dt_allocs s = []"
    and "adds_type s (dt_next s) t ds s'" "fresh_type t (mk_envelope c ints addrs ds) lb ext"
    and "\<forall>d \<in> set ds. dt_heap s d \<noteq> None" and "dt_heap s old \<noteq> None"
  shows "\<exists>u s''. replace_envelope c' ints' addrs' (Some old) (MPI_SUCCESS, Some (Some (dt_next s)), s')
      = Some (MPI_SUCCESS, Some (Some (dt_next s)), s'')
    \<and> adds_type s (dt_next s) u [old] s'' \<and> fresh_type u (mk_envelope c' ints' addrs' [old]) lb ext
    \<and> ut_type_map u = ut_type_map t"
proof -
  have "ut_envelope t = mk_envelope c ints addrs ds" using assms(4) by (simp add: fresh_type_def)
  from replace_envelope_ok [OF assms(1-3) this assms(5,6), of c' ints' addrs'] fresh_type_env [OF assms(4)]
  show ?thesis by fastforce
qed

lemma contiguous_ok:
  assumes "wf_dt s" and "dt_allocs s = []" and old: "dt_heap s old = Some oldtype" and "0 < count"
    and vs: "vs = vec_visits count 1 1 oldtype (type_map_of oldtype)"
    and ints: "int_range count" "int_range (vec_count vs)"
  shows "\<exists>t s'. PMPI_Type_contiguous count (Some old) (Some out) s
      = Some (MPI_SUCCESS, Some (Some (dt_next s)), s') \<and> adds_type s (dt_next s) t [old] s'
    \<and> fresh_type t (mk_envelope MPI_COMBINER_CONTIGUOUS [count] [] [old])
        (ut_lower_bound oldtype) (word_of_int count * ut_extent oldtype - ut_lower_bound oldtype)
    \<and> map entry_pair (type_map_of t) = rev (entries vec_decide [] vs)
    \<and> (0 < vec_count vs \<longrightarrow> ut_type_map t \<noteq> Wild)"
proof -
  have ext: "vector_extent count 1 1 oldtype = Some (word_of_int count * ut_extent oldtype - ut_lower_bound oldtype)"
    using ints(1) assms(4) by (subst vector_extent_if) (auto simp: int_range_def)
  from vector_ok [OF assms(1-4) _ ext, of vs out] vs ints(2) obtain t s' where
    v: "PMPI_Type_vector count 1 1 (Some old) (Some out) s = Some (MPI_SUCCESS, Some (Some (dt_next s)), s')"
      "adds_type s (dt_next s) t [old] s'"
      "fresh_type t (mk_envelope MPI_COMBINER_VECTOR [count, 1, 1] [] [old]) (ut_lower_bound oldtype)
        (word_of_int count * ut_extent oldtype - ut_lower_bound oldtype)"
      "map entry_pair (type_map_of t) = rev (entries vec_decide [] vs)" "0 < vec_count vs \<longrightarrow> ut_type_map t \<noteq> Wild"
    by (auto simp: int_range_def [of 0])
  from outer_ok [OF assms(1,2) v(2,3), of old MPI_COMBINER_CONTIGUOUS "[count]" "[]"] old assms(4) v(1,4,5)
  show ?thesis by (fastforce simp: PMPI_Type_contiguous_def dest: type_map_of_cong)
qed

lemma indexed_ok:
  assumes "wf_dt s" and "dt_allocs s = []" and old: "dt_heap s old = Some oldtype" and "0 < count"
    and len: "length bls = nat count" "length ds = nat count"
    and disps: "disps = map (\<lambda>d. word_of_int d * ut_extent oldtype) ds"
    and bnd: "struct_lb_ub bls disps (replicate (nat count) oldtype) = (lb, ub)"
    and vs: "vs = struct_visits (map wf_block (zip bls (zip disps (replicate (nat count) oldtype))))"
  shows "\<exists>t s'. PMPI_Type_indexed count bls ds (Some old) (Some out) s
      = Some (MPI_SUCCESS, Some (Some (dt_next s)), s') \<and> adds_type s (dt_next s) t [old] s'
    \<and> fresh_type t (mk_envelope MPI_COMBINER_INDEXED (count # bls @ ds) [] [old]) lb (ub - lb)
    \<and> map entry_pair (type_map_of t) = rev (entries (struct_decide False lb ub) [] vs) \<and> ut_type_map t \<noteq> Wild"
proof -
  have ts: "map (dt_heap s) (replicate (nat count) old) = map Some (replicate (nat count) oldtype)"
    using old by simp
  from struct_ok [OF assms(1,2) ts _ _ _ assms(4) bnd vs, of out] len disps obtain t s' where
    v: "PMPI_Type_struct count bls disps (replicate (nat count) (Some old)) (Some out) s = Some (MPI_SUCCESS, Some (Some (dt_next s)), s')"
      "adds_type s (dt_next s) t (replicate (nat count) old) s'"
      "fresh_type t (mk_envelope MPI_COMBINER_STRUCT (count # bls) disps (replicate (nat count) old)) lb (ub - lb)"
      "map entry_pair (type_map_of t) = rev (entries (struct_decide False lb ub) [] vs)" "ut_type_map t \<noteq> Wild"
    by (auto simp: PMPI_Type_struct_def)
  from outer_ok [OF assms(1,2) v(2,3), of old MPI_COMBINER_INDEXED "count # bls @ ds" "[]"] old assms(2,4) v(1,4,5) len disps
  show ?thesis by (fastforce simp: PMPI_Type_indexed_def dest: type_map_of_cong)
qed

lemma hindexed_ok:
  assumes "wf_dt s" and "dt_allocs s = []" and old: "dt_heap s old = Some oldtype" and "0 < count"
    and nb: "ut_isbasic oldtype = 0"
    and len: "length bls = nat count" "length disps = nat count"
    and bnd: "struct_lb_ub bls disps (replicate (nat count) oldtype) = (lb, ub)"
    and vs: "vs = struct_visits (map wf_block (zip bls (zip disps (replicate (nat count) oldtype))))"
  shows "\<exists>t s'. PMPI_Type_create_hindexed count bls disps (Some old) (Some out) s
      = Some (MPI_SUCCESS, Some (Some (dt_next s)), s') \<and> adds_type s (dt_next s) t [old] s'
    \<and> fresh_type t (mk_envelope MPI_COMBINER_HINDEXED (count # bls) disps [old]) lb (ub - lb)
    \<and> map entry_pair (type_map_of t) = rev (entries (struct_decide False lb ub) [] vs) \<and> ut_type_map t \<noteq> Wild"
proof -
  have ts: "map (dt_heap s) (replicate (nat count) old) = map Some (replicate (nat count) oldtype)"
    using old by simp
  from struct_ok [OF assms(1,2) ts _ _ _ assms(4) bnd vs, of out] len obtain t s' where
    v: "PMPI_Type_struct count bls disps (replicate (nat count) (Some old)) (Some out) s = Some (MPI_SUCCESS, Some (Some (dt_next s)), s')"
      "adds_type s (dt_next s) t (replicate (nat count) old) s'"
      "fresh_type t (mk_envelope MPI_COMBINER_STRUCT (count # bls) disps (replicate (nat count) old)) lb (ub - lb)"
      "map entry_pair (type_map_of t) = rev (entries (struct_decide False lb ub) [] vs)" "ut_type_map t \<noteq> Wild"
    by (auto simp: PMPI_Type_struct_def)
  from outer_ok [OF assms(1,2) v(2,3), of old MPI_COMBINER_HINDEXED "count # bls" disps] old assms(2,4) nb v(1,4,5) len
  show ?thesis by (fastforce simp: PMPI_Type_create_hindexed_def dest: type_map_of_cong)
qed

subsection \<open>Empty types, and \<^verbatim>\<open>MPI_Type_hindexed\<close> of a predefined type\<close>

lemma make_empty_ok:
  assumes wf: "wf_dt s" and al: "dt_allocs s = []" and live: "\<forall>d \<in> set dts. dt_heap s d \<noteq> None"
  shows "\<exists>t s'. make_empty_type c ints addrs (map Some dts) (Some out) s
      = Some (MPI_SUCCESS, Some (Some (dt_next s)), s') \<and> adds_type s (dt_next s) t dts s'
    \<and> fresh_type t (mk_envelope c ints addrs dts) 0 0 \<and> ut_type_map t = Null"
proof -
  have ne: "dt_next s \<notin> set dts" using live wf_dt_fresh [OF wf] by auto
  define t where "t = (init_empty (dt_junk s))\<lparr>ut_envelope := mk_envelope c ints addrs dts\<rparr>"
  have run: "make_empty_type c ints addrs (map Some dts) (Some out) s =
    do { s' \<leftarrow> register_fortran (dt_next s) (built s t dts); Some (MPI_SUCCESS, Some (Some (dt_next s)), s') }"
    using al ne live by (simp add: make_empty_type_def foldM_add_ref bump_upd t_def built_def)
  have "fresh_type t (mk_envelope c ints addrs dts) 0 0" "ut_type_map t = Null"
    by (auto simp: fresh_type_def t_def init_empty_def wf_map_def)
  with constructor_finish [OF wf al _ run] show ?thesis by metis
qed

lemma basic_loop_Cons:
  "\<exists>st' e. snd (basic_loop ext ((bl, d) # bs) st) = e # snd (basic_loop ext bs st')
     \<and> entry_pair e = (word_of_int bl * ext, d)"
  by (cases st) (auto simp: Let_def split_beta entry_pair_def)

lemma basic_loop_entries:
  "map entry_pair (snd (basic_loop ext bs st)) = map (\<lambda>(bl, d). (word_of_int bl * ext, d)) bs"
proof (induction bs arbitrary: st)
  case Nil
  then show ?case by (cases st) simp
next
  case (Cons b bs)
  obtain bl d where b: "b = (bl, d)" by (cases b)
  from basic_loop_Cons [of ext bl d bs st] obtain st' e where
    "snd (basic_loop ext ((bl, d) # bs) st) = e # snd (basic_loop ext bs st')"
    "entry_pair e = (word_of_int bl * ext, d)" by blast
  with Cons.IH [of st'] b show ?case by simp
qed

lemma basic_loop_length: "length (snd (basic_loop ext bs st)) = length bs"
  using arg_cong [OF basic_loop_entries, of length] by simp

text \<open>The references to a predefined type are not counted (\<open>adds_type\<close> with the empty list).\<close>

lemma hindexed_basic_ok:
  assumes wf: "wf_dt s" and al: "dt_allocs s = []" and old: "dt_heap s old = Some oldtype" and c: "0 < count"
    and basic: "ut_isbasic oldtype \<noteq> 0" and len: "length bls = nat count" "length disps = nat count"
  shows "\<exists>t s' lb ext. PMPI_Type_create_hindexed count bls disps (Some old) (Some out) s
      = Some (MPI_SUCCESS, Some (Some (dt_next s)), s') \<and> adds_type s (dt_next s) t [] s'
    \<and> fresh_type t (mk_envelope MPI_COMBINER_HINDEXED (count # bls) disps [old]) lb ext
    \<and> map entry_pair (type_map_of t) = map (\<lambda>(bl, d). (word_of_int bl * ut_extent oldtype, d)) (zip bls disps)
    \<and> ut_type_map t \<noteq> Wild"
proof -
  have ne: "old \<noteq> dt_next s" using wf_dtD(1) [OF wf old] by auto
  let ?b = "disps ! 0" and ?e = "disps ! 0 + word_of_int (bls ! 0) * ut_extent oldtype"
  obtain lb ub tot tm where l: "basic_loop (ut_extent oldtype) (zip bls disps)
      (if ?e <s ?b then ?e else ?b, if ?e <s ?b then ?b else ?e, 0) = ((lb, ub, tot), tm)"
    by (metis prod.exhaust)
  have l': "?e <s ?b \<Longrightarrow> basic_loop (ut_extent oldtype) (zip bls disps) (?e, ?b, 0) = ((lb, ub, tot), tm)"
    "\<not> ?e <s ?b \<Longrightarrow> basic_loop (ut_extent oldtype) (zip bls disps) (?b, ?e, 0) = ((lb, ub, tot), tm)"
    using l by simp_all
  define t where "t = (dt_junk s)\<lparr>ut_type_map := Arr tm, ut_lower_bound := lb, ut_extent := ub - lb,
     ut_packed_size := 0, ut_num_pairs := count, ut_layout := NON_CONTIGUOUS, ut_isbasic := 0,
     ut_num_primitives := 0, ut_second_primitive_offset := 0, ut_op_index := 0,
     ut_fhandle := - 1, ut_ref_count := 1, ut_committed := 0\<rparr>"
  let ?env = "mk_envelope MPI_COMBINER_HINDEXED (count # bls) disps [old]"
  have run: "PMPI_Type_create_hindexed count bls disps (Some old) (Some out) s =
    do { s1 \<leftarrow> register_fortran (dt_next s) (built s t []);
         s2 \<leftarrow> save_envelope (dt_next s) MPI_COMBINER_HINDEXED (count # bls) disps [old] s1;
         Some (MPI_SUCCESS, Some (Some (dt_next s)), s2) }"
    using al ne old c basic len l'
    by (cases "?e <s ?b") (simp_all add: PMPI_Type_create_hindexed_def create_from_basic_type_def Let_def
        t_def built_def)
  obtain h s' where s': "register_fortran (dt_next s) (built s t []) = Some s'"
    "adds_type s (dt_next s) (t\<lparr>ut_fhandle := h\<rparr>) [] s'"
    using register_built [OF al wf_dt_table [OF wf], of t "[]"] by blast
  let ?u = "t\<lparr>ut_fhandle := h, ut_envelope := ?env\<rparr>"
  let ?s2 = "s'\<lparr>dt_heap := (dt_heap s')(dt_next s \<mapsto> ?u)\<rparr>"
  have al': "dt_allocs s' = []" using s'(2) al by (auto simp: adds_type_def)
  have add: "adds_type s (dt_next s) ?u [] ?s2" using adds_type_upd [OF s'(2), of ?u] by simp
  have tm: "tm = snd (basic_loop (ut_extent oldtype) (zip bls disps)
      (if ?e <s ?b then ?e else ?b, if ?e <s ?b then ?b else ?e, 0))"
    using l by simp
  have ent: "map entry_pair tm = map (\<lambda>(bl, d). (word_of_int bl * ut_extent oldtype, d)) (zip bls disps)"
    unfolding tm by (rule basic_loop_entries)
  have "length tm = nat count" unfolding tm using len by (simp add: basic_loop_length)
  then have "fresh_type ?u ?env lb (ub - lb)" "ut_type_map ?u = Arr tm" "type_map_of ?u = tm"
    using c by (auto simp: fresh_type_def t_def wf_map_def type_map_of_def)
  with run s' adds_type_new [OF s'(2)] ent al' add show ?thesis
    by (intro exI [of _ ?u] exI [of _ ?s2] exI [of _ lb] exI [of _ "ub - lb"]) simp
qed

end
