(* ===== verification/Datatype_Query.thy ===== *)
theory Datatype_Query
  imports Datatype
begin

section \<open>Datatypes: commit, inquiry and release\<close>

text \<open>
  The operations on datatypes that exist already: \<^verbatim>\<open>MPI_Type_commit\<close>, the inquiry functions
  \<^verbatim>\<open>MPI_Type_size\<close>, \<^verbatim>\<open>MPI_Type_extent\<close>, \<^verbatim>\<open>MPI_Type_lb\<close>, \<^verbatim>\<open>MPI_Type_ub\<close>,
  \<^verbatim>\<open>MPI_Type_get_envelope\<close>, \<^verbatim>\<open>MPI_Type_get_contents\<close>, \<^verbatim>\<open>MPI_Get_count\<close>, and the
  reference-counted release behind \<^verbatim>\<open>MPI_Type_free\<close>. An inquiry returns its code, the value stored
  through its output pointer (\<open>None\<close> when nothing is stored) and the state.
\<close>

abbreviation (input) DATATYPE_UNDEFINED :: int where "DATATYPE_UNDEFINED \<equiv> - 1"

subsection \<open>\<^verbatim>\<open>MPI_Type_commit\<close>\<close>

text \<open>The loop that numbers the bytes of the packed buffer.\<close>

fun commit_loop :: "size_t \<Rightarrow> tmelt list \<Rightarrow> tmelt list \<times> size_t" where
  "commit_loop p_sz [] = ([], p_sz)"
| "commit_loop p_sz (e # es) =
     (let (es', p) = commit_loop (p_sz + tm_size e) es in (e\<lparr>tm_seq_offset := p_sz\<rparr> # es', p))"

definition commit_map :: "ulm_type \<Rightarrow> (tmptr \<times> size_t) option" where
  "commit_map dt =
     (if ut_num_pairs dt \<le> 0 then Some (ut_type_map dt, 0)
      else case ut_type_map dt of
        Arr tm \<Rightarrow>
          if ut_num_pairs dt \<le> int (length tm) then
            (let n = nat (ut_num_pairs dt); (tm', p_sz) = commit_loop 0 (take n tm)
             in Some (Arr (tm' @ drop n tm), p_sz))
          else None
      | _ \<Rightarrow> None)"

definition PMPI_Type_commit :: "nat option \<Rightarrow> dt_state \<Rightarrow> (int \<times> dt_state) option" where
  "PMPI_Type_commit datatype s = do {
     a \<leftarrow> datatype;
     dt \<leftarrow> dt_heap s a;
     (if ut_committed dt \<noteq> 0 then Some (MPI_SUCCESS, s)
      else do {
        dt1 \<leftarrow> (if ut_layout dt = CONTIGUOUS then Some (dt\<lparr>ut_packed_size := ut_extent dt\<rparr>)
                 else do {
                   (tm, p_sz) \<leftarrow> commit_map dt;
                   let dt' = dt\<lparr>ut_type_map := tm, ut_packed_size := p_sz\<rparr>;
                   Some (if p_sz = 0 then dt'\<lparr>ut_layout := CONTIGUOUS\<rparr> else dt')
                 });
        s' \<leftarrow> dt_update a (\<lambda>_. dt1\<lparr>ut_committed := 1\<rparr>) s;
        Some (MPI_SUCCESS, s')
      })
   }"

subsection \<open>Sizes and bounds\<close>

text \<open>\<^verbatim>\<open>*size += type_map[i].size\<close> on an \<^verbatim>\<open>int\<close>: the sum is taken in \<^verbatim>\<open>size_t\<close> and cut to 32 bits.\<close>

definition size_step :: "int \<Rightarrow> tmelt \<Rightarrow> int" where
  "size_step sz e = to_c_int (word_of_int sz + tm_size e)"

definition PMPI_Type_size :: "nat option \<Rightarrow> dt_state \<Rightarrow> (int \<times> int option \<times> dt_state) option" where
  "PMPI_Type_size type s = do {
     a \<leftarrow> type;
     datatype \<leftarrow> dt_heap s a;
     (if ut_num_pairs datatype = DATATYPE_UNDEFINED then
        Some (MPI_ERR_INTERN, None, dt_errhandler MPI_ERR_INTERN s)
      else if ut_committed datatype \<noteq> 0 then Some (MPI_SUCCESS, Some (to_c_int (ut_packed_size datatype)), s)
      else if ut_num_pairs datatype = 0 then Some (MPI_SUCCESS, Some (to_c_int (ut_extent datatype)), s)
      else do {
        tm \<leftarrow> type_pairs datatype;
        Some (MPI_SUCCESS, Some (foldl size_step 0 tm), s)
      })
   }"

definition PMPI_Type_extent :: "nat option \<Rightarrow> dt_state \<Rightarrow> (int \<times> size_t option \<times> dt_state) option" where
  "PMPI_Type_extent type s = do {
     a \<leftarrow> type;
     datatype \<leftarrow> dt_heap s a;
     (if ut_extent datatype \<noteq> word_of_int DATATYPE_UNDEFINED then Some (MPI_SUCCESS, Some (ut_extent datatype), s)
      else Some (MPI_ERR_TYPE, None, dt_errhandler MPI_ERR_TYPE s))
   }"

text \<open>\<^verbatim>\<open>MPI_Type_lb\<close> and \<^verbatim>\<open>MPI_Type_ub\<close> read the type before they look at their check for a null handle.\<close>

definition PMPI_Type_lb :: "nat option \<Rightarrow> dt_state \<Rightarrow> (int \<times> size_t option \<times> dt_state) option" where
  "PMPI_Type_lb mtype s = do {
     let rc = (if mtype = None then MPI_ERR_INTERN else MPI_SUCCESS);
     a \<leftarrow> mtype;
     dtype \<leftarrow> dt_heap s a;
     let disp = ut_lower_bound dtype;
     Some (rc, Some disp, if rc \<noteq> MPI_SUCCESS then dt_errhandler rc s else s)
   }"

definition PMPI_Type_ub :: "nat option \<Rightarrow> dt_state \<Rightarrow> (int \<times> size_t option \<times> dt_state) option" where
  "PMPI_Type_ub mtype s = do {
     let rc = (if mtype = None then MPI_ERR_INTERN else MPI_SUCCESS);
     a \<leftarrow> mtype;
     dtype \<leftarrow> dt_heap s a;
     let disp = ut_lower_bound dtype + ut_extent dtype;
     Some (rc, Some disp, if rc \<noteq> MPI_SUCCESS then dt_errhandler rc s else s)
   }"

subsection \<open>The envelope\<close>

text \<open>The result is \<open>(num_integers, num_addresses, num_datatypes, combiner)\<close>.\<close>

definition PMPI_Type_get_envelope :: "nat option \<Rightarrow> dt_state \<Rightarrow> (int \<times> int \<times> int \<times> int \<times> int) option" where
  "PMPI_Type_get_envelope mtype s =
     (case mtype of
        None \<Rightarrow> Some (MPI_SUCCESS, 0, 0, 0, MPI_COMBINER_NAMED)
      | Some a \<Rightarrow> do {
          t \<leftarrow> dt_heap s a;
          Some (MPI_SUCCESS, env_nints (ut_envelope t), env_naddrs (ut_envelope t),
                env_ndatatypes (ut_envelope t), env_combiner (ut_envelope t))
        })"

text \<open>Copying an envelope array of \<open>n\<close> elements into the first \<open>m\<close> elements of a caller's array, padded with
  \<open>z\<close>. The caller's array must have room for \<open>m\<close>.\<close>

definition copy_padded :: "'a \<Rightarrow> int \<Rightarrow> 'a list option \<Rightarrow> int \<Rightarrow> 'a list \<Rightarrow> 'a list option" where
  "copy_padded z n src m dst =
     (let k = nat (min n m); m' = nat m; xs = (case src of None \<Rightarrow> [] | Some xs \<Rightarrow> xs) in
      if k \<le> length xs \<and> m' \<le> length dst then Some (take k xs @ replicate (m' - k) z @ drop m' dst) else None)"

definition retain_if_derived :: "dt_state \<Rightarrow> nat \<Rightarrow> dt_state option" where
  "retain_if_derived s d = do {
     t \<leftarrow> dt_heap s d;
     (if ut_isbasic t = 0 then add_ref 1 s d else Some s)
   }"

definition PMPI_Type_get_contents :: "nat option \<Rightarrow> int \<Rightarrow> int \<Rightarrow> int \<Rightarrow> int list \<Rightarrow> size_t list \<Rightarrow>
    nat option list \<Rightarrow> dt_state \<Rightarrow> (int \<times> int list \<times> size_t list \<times> nat option list \<times> dt_state) option" where
  "PMPI_Type_get_contents mtype max_integers max_addresses max_datatypes ints addrs dts s =
     (case mtype of
        None \<Rightarrow> Some (MPI_ERR_ARG, ints, addrs, dts, s)
      | Some a \<Rightarrow> do {
          t \<leftarrow> dt_heap s a;
          let env = ut_envelope t;
          (if env_combiner env = MPI_COMBINER_NAMED then Some (MPI_ERR_ARG, ints, addrs, dts, s)
           else if max_integers < env_nints env \<or> max_addresses < env_naddrs env
             \<or> max_datatypes < env_ndatatypes env then Some (MPI_ERR_ARG, ints, addrs, dts, s)
           else do {
             ints' \<leftarrow> copy_padded 0 (env_nints env) (env_iarray env) max_integers ints;
             addrs' \<leftarrow> copy_padded 0 (env_naddrs env) (env_aarray env) max_addresses addrs;
             dts' \<leftarrow> copy_padded None (env_ndatatypes env) (map_option (map Some) (env_darray env))
                       (env_ndatatypes env) dts;
             ds \<leftarrow> those (take (nat (env_ndatatypes env)) dts');
             s' \<leftarrow> foldM retain_if_derived s ds;
             Some (MPI_SUCCESS, ints', addrs', dts', s')
           })
        })"

subsection \<open>\<^verbatim>\<open>MPI_Get_count\<close>\<close>

text \<open>\<open>cnt\<close> is the field \<^verbatim>\<open>_count\<close> of the status; the arithmetic is that of \<^verbatim>\<open>size_t\<close>.\<close>

definition PMPI_Get_count :: "int \<Rightarrow> nat option \<Rightarrow> dt_state \<Rightarrow> (int \<times> int) option" where
  "PMPI_Get_count cnt type s = do {
     a \<leftarrow> type;
     datatype \<leftarrow> dt_heap s a;
     let ps = ut_packed_size datatype;
     (if ps \<noteq> 0 then
        (let c = to_c_int (word_of_int cnt div ps)
         in if word_of_int c * ps \<noteq> word_of_int cnt then Some (MPI_SUCCESS, MPI_UNDEFINED)
            else Some (MPI_SUCCESS, c))
      else if cnt = 0 then Some (MPI_SUCCESS, 0)
      else Some (MPI_SUCCESS, MPI_UNDEFINED))
   }"

subsection \<open>Release\<close>

text \<open>\<^verbatim>\<open>ulm_type_free\<close>, given the function that releases the types of the envelope. Freeing a pointer that
  was never set has no defined result.\<close>

definition ulm_type_free :: "(dt_state \<Rightarrow> nat \<Rightarrow> dt_state option) \<Rightarrow> nat \<Rightarrow> dt_state \<Rightarrow> dt_state option" where
  "ulm_type_free release a s = do {
     t \<leftarrow> dt_heap s a;
     s1 \<leftarrow> (if dt_fortran s \<and> ut_fhandle t \<noteq> - 1 then do {
              (_, tab) \<leftarrow> mpi_ptr_table_free (dt_threads s) (ut_fhandle t) (dt_type_table s);
              dt_update a (\<lambda>t. t\<lparr>ut_fhandle := - 1\<rparr>) (s\<lparr>dt_type_table := tab\<rparr>)
            } else Some s);
     s2 \<leftarrow> (case env_darray (ut_envelope t) of
              None \<Rightarrow> Some s1
            | Some ds \<Rightarrow>
                (let n = env_ndatatypes (ut_envelope t) in
                 if n > 0 then if nat n \<le> length ds then foldM release s1 (take (nat n) ds) else None
                 else Some s1));
     _ \<leftarrow> dt_heap s2 a;
     (if ut_type_map t = Wild then None else Some (s2\<lparr>dt_heap := (dt_heap s2)(a := None)\<rparr>))
   }"

text \<open>\<^verbatim>\<open>ulm_type_release\<close>; the fuel bounds the depth of the recursion.\<close>

fun ulm_type_release :: "nat \<Rightarrow> dt_state \<Rightarrow> nat \<Rightarrow> dt_state option" where
  "ulm_type_release 0 s a = None"
| "ulm_type_release (Suc fuel) s a = do {
     t \<leftarrow> dt_heap s a;
     (if ut_isbasic t = 0 then do {
        s1 \<leftarrow> add_ref (- 1) s a;
        (if ut_ref_count t = 1 then ulm_type_free (ulm_type_release fuel) a s1 else Some s1)
      } else Some s)
   }"

text \<open>\<open>mtype\<close> is the pointer argument; the contents of the variable is part of the result. Envelopes only
  refer to types made earlier, so the number of addresses used bounds the recursion.\<close>

definition PMPI_Type_free :: "nat option option \<Rightarrow> dt_state \<Rightarrow> dt_result" where
  "PMPI_Type_free mtype s =
     (case mtype of
        Some (Some type) \<Rightarrow> do {
          s' \<leftarrow> ulm_type_release (Suc (dt_next s)) s type;
          Some (MPI_SUCCESS, Some None, s')
        }
      | _ \<Rightarrow> Some (MPI_SUCCESS, mtype, s))"

end
