(* ===== verification/Datatype_Refcount.thy ===== *)
theory Datatype_Refcount
  imports Datatype_Construct Datatype_Query
begin

section \<open>Reference counting of datatypes\<close>

text \<open>
  The invariant behind \<^verbatim>\<open>MPI_Type_free\<close>: the reference count of a derived type is the number of handles the
  program holds plus the number of times it occurs in the envelopes of live types; a type with a
  reference is live; a derived type without one does not exist. While a type is being freed it still is
  in the store; such types are in the set \<open>Z\<close>, and their envelopes do not count.
\<close>

definition env_occ :: "dt_state \<Rightarrow> nat \<Rightarrow> nat \<Rightarrow> nat" where
  "env_occ s b x = (case dt_heap s b of None \<Rightarrow> 0 | Some t \<Rightarrow> count_list (darray_of t) x)"

definition owned :: "dt_state \<Rightarrow> nat set \<Rightarrow> nat \<Rightarrow> nat" where
  "owned s Z x = (\<Sum>b \<in> {..<dt_next s} - Z. env_occ s b x)"

definition reg_ok :: "dt_state \<Rightarrow> nat \<Rightarrow> ulm_type \<Rightarrow> bool" where
  "reg_ok s a t \<longleftrightarrow> (dt_fortran s \<longrightarrow> ut_fhandle t \<noteq> - 1 \<longrightarrow> pt_map (dt_type_table s) (ut_fhandle t) = Some a)"

definition rc_live :: "dt_state \<Rightarrow> nat set \<Rightarrow> (nat \<Rightarrow> nat) \<Rightarrow> nat \<Rightarrow> ulm_type \<Rightarrow> bool" where
  "rc_live s Z hs a t \<longleftrightarrow> (if ut_isbasic t = 0
     then ut_ref_count t = int (hs a + owned s Z a) \<and> 0 < hs a + owned s Z a \<and> ut_type_map t \<noteq> Wild \<and> reg_ok s a t
     else darray_of t = [])"

definition rc_inv :: "dt_state \<Rightarrow> nat set \<Rightarrow> (nat \<Rightarrow> nat) \<Rightarrow> bool" where
  "rc_inv s Z hs \<longleftrightarrow> pt_inv (dt_type_table s)
     \<and> (\<forall>a t. dt_heap s a = Some t \<longrightarrow> a < dt_next s \<and> wf_env a t \<and> wf_map t)
     \<and> (\<forall>a t. dt_heap s a = Some t \<longrightarrow> a \<notin> Z \<longrightarrow> rc_live s Z hs a t)
     \<and> (\<forall>a. 0 < hs a + owned s Z a \<longrightarrow> dt_heap s a \<noteq> None)
     \<and> (\<forall>z \<in> Z. hs z + owned s Z z = 0)"

lemma rc_invD:
  assumes "rc_inv s Z hs"
  shows "pt_inv (dt_type_table s)" and "dt_heap s a = Some t \<Longrightarrow> a < dt_next s"
    and "dt_heap s a = Some t \<Longrightarrow> wf_env a t" and "dt_heap s a = Some t \<Longrightarrow> a \<notin> Z \<Longrightarrow> rc_live s Z hs a t"
    and "0 < hs a + owned s Z a \<Longrightarrow> dt_heap s a \<noteq> None" and "z \<in> Z \<Longrightarrow> hs z + owned s Z z = 0"
    and "dt_heap s a = Some t \<Longrightarrow> wf_map t"
proof -
  show "0 < hs a + owned s Z a \<Longrightarrow> dt_heap s a \<noteq> None"
    using assms unfolding rc_inv_def by (elim conjE) (drule spec, drule (1) mp)
  show "z \<in> Z \<Longrightarrow> hs z + owned s Z z = 0"
    using assms unfolding rc_inv_def by (elim conjE) (drule (1) bspec)
qed (use assms in \<open>unfold rc_inv_def, blast+\<close>)

lemma rc_invI:
  assumes "pt_inv (dt_type_table s)" and "\<And>a t. dt_heap s a = Some t \<Longrightarrow> a < dt_next s \<and> wf_env a t \<and> wf_map t"
    and "\<And>a t. dt_heap s a = Some t \<Longrightarrow> a \<notin> Z \<Longrightarrow> rc_live s Z hs a t"
    and "\<And>a. 0 < hs a + owned s Z a \<Longrightarrow> dt_heap s a \<noteq> None" and "\<And>z. z \<in> Z \<Longrightarrow> hs z + owned s Z z = 0"
  shows "rc_inv s Z hs"
  unfolding rc_inv_def by (intro conjI allI impI ballI) (simp_all add: assms del: add_gr_0 add_is_0 not_None_eq)

text \<open>Only the envelopes matter for \<open>owned\<close>.\<close>

lemma env_occ_darray:
  "env_occ s b = (case dt_heap s b of None \<Rightarrow> (\<lambda>_. 0) | Some t \<Rightarrow> count_list (darray_of t))"
  by (auto simp: env_occ_def fun_eq_iff split: option.split)

lemma owned_cong:
  assumes "dt_next s' = dt_next s" and "\<And>b. b \<notin> Z \<Longrightarrow> env_occ s' b = env_occ s b"
  shows "owned s' Z = owned s Z"
  using assms by (auto simp: owned_def fun_eq_iff intro!: sum.cong)

lemma owned_insert:
  assumes "b < dt_next s" and "b \<notin> Z"
  shows "owned s Z x = owned s (insert b Z) x + env_occ s b x"
proof -
  have "{..<dt_next s} - Z - {b} = {..<dt_next s} - insert b Z" by blast
  with sum.remove [of "{..<dt_next s} - Z" b "\<lambda>b. env_occ s b x"] assms show ?thesis
    unfolding owned_def by simp
qed

lemma owned_removed:
  assumes "env_occ s b x = 0"
  shows "owned s (insert b Z) x = owned s Z x"
proof (cases "b < dt_next s \<and> b \<notin> Z")
  case True
  then show ?thesis using owned_insert [of b s Z x] assms by simp
next
  case False
  then have "{..<dt_next s} - insert b Z = {..<dt_next s} - Z" by auto
  then show ?thesis by (simp add: owned_def)
qed

text \<open>An envelope does not own its own type or a younger one.\<close>

lemma env_occ_older: "rc_inv s Z hs \<Longrightarrow> x \<ge> b \<Longrightarrow> env_occ s b x = 0"
proof (cases "dt_heap s b")
  case (Some t)
  assume "rc_inv s Z hs" "x \<ge> b"
  from rc_invD(3) [OF this(1) Some] this(2) have "x \<notin> set (darray_of t)" by (auto simp: wf_env_def)
  with Some show ?thesis by (simp add: env_occ_def count_list_0_iff)
qed (simp add: env_occ_def)

subsection \<open>Steps of the release\<close>

lemma rc_inv_adjust:
  assumes inv: "rc_inv s Z hs" and a: "dt_heap s a = Some t" "ut_isbasic t = 0" "a \<notin> Z"
    and n: "0 < n + owned s Z a" "int n = int (hs a) + k"
  shows "rc_inv (s\<lparr>dt_heap := bump k [a] (dt_heap s)\<rparr>) Z (hs(a := n))"
proof -
  let ?s = "s\<lparr>dt_heap := bump k [a] (dt_heap s)\<rparr>" and ?hs = "hs(a := n)"
  have heap: "bump k [a] (dt_heap s) b = map_option (\<lambda>t. if b = a then t\<lparr>ut_ref_count := ut_ref_count t + k\<rparr> else t) (dt_heap s b)" for b
    by (auto simp: bump_def option.map_ident)
  have occ: "env_occ ?s b = env_occ s b" for b
    by (auto simp: env_occ_def fun_eq_iff heap split: option.split)
  have own: "owned ?s Z = owned s Z" by (rule owned_cong) (simp_all add: occ)
  have live: "rc_live s Z hs a t" using rc_invD(4) [OF inv a(1,3)] .
  have "rc_live ?s Z ?hs b u" if "dt_heap ?s b = Some u" "b \<notin> Z" for b u
  proof (cases "b = a")
    case True
    then have "u = t\<lparr>ut_ref_count := ut_ref_count t + k\<rparr>" using that(1) a(1) heap by simp
    with live a(2) n True show ?thesis by (auto simp: rc_live_def own reg_ok_def)
  next
    case False
    then have "dt_heap s b = Some u" using that(1) heap by auto
    from rc_invD(4) [OF inv this that(2)] False show ?thesis
      by (simp add: rc_live_def own reg_ok_def split: if_splits)
  qed
  moreover have "b < dt_next s \<and> wf_env b u \<and> wf_map u" if "dt_heap ?s b = Some u" for b u
    using that rc_invD(2,3,7) [OF inv, of b] heap by (auto split: if_splits)
  moreover have "dt_heap ?s b \<noteq> None" if "0 < ?hs b + owned ?s Z b" for b
    using that rc_invD(5) [OF inv, of b] a(1) own heap by (auto split: if_splits)
  moreover have "?hs z + owned ?s Z z = 0" if "z \<in> Z" for z
    using that rc_invD(6) [OF inv that] own a(3) by auto
  ultimately show ?thesis using rc_invD(1) [OF inv] unfolding rc_inv_def by auto
qed

lemma rc_inv_dec:
  assumes inv: "rc_inv s Z hs" and a: "dt_heap s a = Some t" "ut_isbasic t = 0" "a \<notin> Z"
    and hs: "0 < hs a" and rc: "ut_ref_count t \<noteq> 1"
  shows "rc_inv (s\<lparr>dt_heap := bump (- 1) [a] (dt_heap s)\<rparr>) Z (hs(a := hs a - 1))"
  using rc_invD(4) [OF inv a(1,3)] a(2) hs rc
  by (intro rc_inv_adjust [OF inv a]) (auto simp: rc_live_def)

text \<open>Handles of predefined types are not counted.\<close>

lemma rc_inv_basic_handle:
  assumes inv: "rc_inv s Z hs" and a: "dt_heap s a = Some t" "ut_isbasic t \<noteq> 0" "a \<notin> Z"
  shows "rc_inv s Z (hs(a := k))"
proof (rule rc_invI)
  show "rc_live s Z (hs(a := k)) b u" if "dt_heap s b = Some u" "b \<notin> Z" for b u
    using rc_invD(4) [OF inv that] a that by (auto simp: rc_live_def)
qed (use rc_invD [OF inv] a in \<open>auto split: if_splits\<close>)

text \<open>A type without references left is set aside; its envelope's references become pending releases.\<close>

lemma rc_inv_set_aside:
  assumes inv: "rc_inv s Z hs" and b: "dt_heap s b = Some t" "b \<notin> Z" "hs b + owned s Z b = 1" "hs b = 1"
    and s1: "dt_heap s1 = (dt_heap s)(b \<mapsto> t')" "darray_of t' = darray_of t" "wf_env b t'" "wf_map t'" "dt_next s1 = dt_next s"
    and tab: "pt_inv (dt_type_table s1)" "\<And>a u. a \<noteq> b \<Longrightarrow> reg_ok s a u \<Longrightarrow> reg_ok s1 a u"
  shows "rc_inv s1 (insert b Z) (\<lambda>x. (hs(b := 0)) x + count_list (darray_of t) x)"
proof -
  let ?Z = "insert b Z" and ?hs = "\<lambda>x. (hs(b := 0)) x + count_list (darray_of t) x"
  have lt: "b < dt_next s" using rc_invD(2) [OF inv b(1)] .
  have occ: "env_occ s1 x = env_occ s x" for x
    using b(1) s1(1,2) by (auto simp: env_occ_def fun_eq_iff)
  have own: "?hs x + owned s1 ?Z x = (hs(b := 0)) x + owned s Z x" for x
  proof -
    have "owned s1 ?Z x = owned s ?Z x" using owned_cong [of s1 s ?Z] s1(5) occ by simp
    then show ?thesis using owned_insert [OF lt b(2), of x] b(1) by (simp add: env_occ_def)
  qed
  have "rc_live s1 ?Z ?hs a u" if "dt_heap s1 a = Some u" "a \<notin> ?Z" for a u
  proof -
    have u: "dt_heap s a = Some u" "a \<noteq> b" "a \<notin> Z" using that s1(1) by auto
    have eq: "?hs a + owned s1 ?Z a = hs a + owned s Z a" using own [of a] u(2) by simp
    show ?thesis using rc_invD(4) [OF inv u(1,3)] tab(2) [OF u(2), of u]
      unfolding rc_live_def eq by (simp split: if_splits)
  qed
  moreover have "a < dt_next s1 \<and> wf_env a u \<and> wf_map u" if "dt_heap s1 a = Some u" for a u
    using that s1 rc_invD(2,3,7) [OF inv, of a] lt by (auto split: if_splits)
  moreover have "dt_heap s1 a \<noteq> None" if "0 < ?hs a + owned s1 ?Z a" for a
    using that rc_invD(5) [OF inv, of a] s1(1) unfolding own by (auto split: if_splits)
  moreover have "?hs z + owned s1 ?Z z = 0" if "z \<in> ?Z" for z
    using that rc_invD(6) [OF inv, of z] b(3,4) unfolding own by (auto split: if_splits)
  ultimately show ?thesis using tab(1) by (intro rc_invI) assumption+
qed

lemma rc_inv_delete:
  assumes inv: "rc_inv s (insert b Z) hs" and b: "b \<notin> Z"
  shows "rc_inv (s\<lparr>dt_heap := (dt_heap s)(b := None)\<rparr>) Z hs"
proof -
  let ?s = "s\<lparr>dt_heap := (dt_heap s)(b := None)\<rparr>" and ?Z = "insert b Z"
  have "owned ?s Z x = owned ?s ?Z x" for x
    using owned_removed [of ?s b x Z] by (simp add: env_occ_def)
  moreover have "owned ?s ?Z = owned s ?Z" by (rule owned_cong) (auto simp: env_occ_def fun_eq_iff)
  ultimately have own: "owned ?s Z x = owned s ?Z x" for x by simp
  have "rc_live ?s Z hs a u" if "dt_heap ?s a = Some u" "a \<notin> Z" for a u
  proof -
    have u: "dt_heap s a = Some u" "a \<notin> ?Z" using that by (auto split: if_splits)
    from rc_invD(4) [OF inv this] show ?thesis by (simp add: rc_live_def own reg_ok_def split: if_splits)
  qed
  moreover have "a < dt_next s \<and> wf_env a u \<and> wf_map u" if "dt_heap ?s a = Some u" for a u
    using that rc_invD(2,3,7) [OF inv, of a] by (auto split: if_splits)
  moreover have "dt_heap ?s a \<noteq> None" if "0 < hs a + owned ?s Z a" for a
    using that rc_invD(5) [OF inv, of a] rc_invD(6) [OF inv, of b] by (auto simp: own)
  moreover have "hs z + owned ?s Z z = 0" if "z \<in> Z" for z
    using that rc_invD(6) [OF inv, of z] by (simp add: own)
  ultimately show ?thesis using rc_invD(1) [OF inv] unfolding rc_inv_def by auto
qed

subsection \<open>Release\<close>

definition same_env :: "dt_state \<Rightarrow> dt_state \<Rightarrow> bool" where
  "same_env s s' \<longleftrightarrow> dt_next s' = dt_next s \<and> dt_junk s' = dt_junk s \<and> dt_junk_elt s' = dt_junk_elt s
     \<and> dt_allocs s' = dt_allocs s \<and> dt_fortran s' = dt_fortran s \<and> dt_threads s' = dt_threads s \<and> dt_errs s' = dt_errs s"

text \<open>What a release does, seen from outside: one handle fewer, and nothing younger than the released type
  has changed.\<close>

definition releases :: "(dt_state \<Rightarrow> nat \<Rightarrow> dt_state option) \<Rightarrow> nat \<Rightarrow> bool" where
  "releases rel n \<longleftrightarrow> (\<forall>s Z hs a. rc_inv s Z hs \<longrightarrow> a < n \<longrightarrow> 0 < hs a \<longrightarrow>
     (\<exists>s'. rel s a = Some s' \<and> rc_inv s' Z (hs(a := hs a - 1)) \<and> (\<forall>x > a. dt_heap s' x = dt_heap s x)
        \<and> same_env s s'))"

lemma foldM_releases:
  assumes rel: "releases rel n" and "rc_inv s Z (\<lambda>x. hs x + count_list ds x)"
    and "\<forall>d \<in> set ds. d < n" "\<forall>d \<in> set ds. d < b"
  shows "\<exists>s'. foldM rel s ds = Some s' \<and> rc_inv s' Z hs \<and> (\<forall>x \<ge> b. dt_heap s' x = dt_heap s x)
    \<and> same_env s s'"
  using assms(2-4)
proof (induction ds arbitrary: s)
  case (Cons d ds)
  let ?hs = "\<lambda>x. hs x + count_list (d # ds) x"
  obtain s1 where s1: "rel s d = Some s1" "rc_inv s1 Z (?hs(d := ?hs d - 1))" "\<forall>x > d. dt_heap s1 x = dt_heap s x"
    "same_env s s1"
    using rel [unfolded releases_def, rule_format, OF Cons.prems(1), of d] Cons.prems(2) by auto
  have "?hs(d := ?hs d - 1) = (\<lambda>x. hs x + count_list ds x)" by (auto simp: fun_eq_iff)
  with s1(2) have "rc_inv s1 Z (\<lambda>x. hs x + count_list ds x)" by simp
  from Cons.IH [OF this] Cons.prems(2,3) obtain s2 where "foldM rel s1 ds = Some s2" "rc_inv s2 Z hs"
    "\<forall>x \<ge> b. dt_heap s2 x = dt_heap s1 x" "same_env s1 s2" by auto
  with s1 Cons.prems(3) show ?case by (auto simp: same_env_def)
qed (simp add: same_env_def)

text \<open>The loop over the envelope's types, as \<^verbatim>\<open>ulm_type_free\<close> guards it.\<close>

lemma envelope_loop:
  assumes "wf_env b t"
  shows "(case env_darray (ut_envelope t) of None \<Rightarrow> Some s | Some ds \<Rightarrow>
      (let n = env_ndatatypes (ut_envelope t) in
       if n > 0 then if nat n \<le> length ds then foldM rel s (take (nat n) ds) else None else Some s))
    = foldM rel s (darray_of t)"
  using assms by (auto simp: wf_env_def darray_of_def Let_def split: option.splits)

text \<open>Removing the Fortran handle.\<close>

lemma unregister_ok:
  assumes "pt_inv (dt_type_table s)" and "reg_ok s b t" and "dt_heap s b = Some t"
  shows "\<exists>s1 h. (if dt_fortran s \<and> ut_fhandle t \<noteq> - 1 then do {
              (_, tab) \<leftarrow> mpi_ptr_table_free (dt_threads s) (ut_fhandle t) (dt_type_table s);
              dt_update b (\<lambda>t. t\<lparr>ut_fhandle := - 1\<rparr>) (s\<lparr>dt_type_table := tab\<rparr>)
            } else Some s) = Some s1
    \<and> dt_heap s1 = (dt_heap s)(b \<mapsto> t\<lparr>ut_fhandle := h\<rparr>) \<and> same_env s s1
    \<and> pt_inv (dt_type_table s1) \<and> (\<forall>a u. a \<noteq> b \<longrightarrow> reg_ok s a u \<longrightarrow> reg_ok s1 a u)"
proof (cases "dt_fortran s \<and> ut_fhandle t \<noteq> - 1")
  case True
  then have m: "pt_map (dt_type_table s) (ut_fhandle t) = Some b" using assms(2) by (simp add: reg_ok_def)
  from pt.free_ok [OF assms(1) m, of "dt_threads s"] obtain tab where
    tab: "mpi_ptr_table_free (dt_threads s) (ut_fhandle t) (dt_type_table s) = Some (0, tab)" "pt_inv tab"
      "pt_map tab = (pt_map (dt_type_table s))(ut_fhandle t := None)" by blast
  have "reg_ok (s\<lparr>dt_type_table := tab, dt_heap := h\<rparr>) a u" if "a \<noteq> b" "reg_ok s a u" for a u h
    using that tab(3) m by (auto simp: reg_ok_def)
  with True tab assms(3) show ?thesis
    by (intro exI [of _ "s\<lparr>dt_type_table := tab, dt_heap := (dt_heap s)(b \<mapsto> t\<lparr>ut_fhandle := - 1\<rparr>)\<rparr>"] exI [of _ "- 1"])
      (auto simp: same_env_def)
next
  case False
  with assms show ?thesis by (auto intro!: exI [of _ s] exI [of _ "ut_fhandle t"] simp: fun_upd_idem same_env_def)
qed

lemma type_free_ok:
  assumes rel: "releases rel n" and inv: "rc_inv s Z hs" and b: "dt_heap s b = Some t" "b \<notin> Z" "b \<le> n"
    "ut_isbasic t = 0" "ut_ref_count t = 1" "0 < hs b"
  shows "\<exists>s'. ulm_type_free rel b (s\<lparr>dt_heap := bump (- 1) [b] (dt_heap s)\<rparr>) = Some s'
    \<and> rc_inv s' Z (hs(b := hs b - 1)) \<and> (\<forall>x > b. dt_heap s' x = dt_heap s x)
    \<and> same_env s s'"
proof -
  let ?s = "s\<lparr>dt_heap := bump (- 1) [b] (dt_heap s)\<rparr>" and ?t = "t\<lparr>ut_ref_count := ut_ref_count t - 1\<rparr>"
  have live: "rc_live s Z hs b t" using rc_invD(4) [OF inv b(1,2)] .
  have hs: "hs b = 1" "hs b + owned s Z b = 1" "ut_type_map t \<noteq> Wild" "reg_ok s b t"
    using live b(4-6) by (auto simp: rc_live_def)
  have t: "dt_heap ?s b = Some ?t" using b(1) by (simp add: bump_def)
  have "reg_ok ?s b ?t" using hs(4) by (simp add: reg_ok_def)
  from unregister_ok [OF _ this t] rc_invD(1) [OF inv] obtain s1 h where s1:
    "(if dt_fortran ?s \<and> ut_fhandle ?t \<noteq> - 1 then do {
        (_, tab) \<leftarrow> mpi_ptr_table_free (dt_threads ?s) (ut_fhandle ?t) (dt_type_table ?s);
        dt_update b (\<lambda>t. t\<lparr>ut_fhandle := - 1\<rparr>) (?s\<lparr>dt_type_table := tab\<rparr>)
      } else Some ?s) = Some s1"
    "dt_heap s1 = (dt_heap ?s)(b \<mapsto> ?t\<lparr>ut_fhandle := h\<rparr>)" "dt_next s1 = dt_next s" "same_env s s1"
    "pt_inv (dt_type_table s1)" "\<forall>a u. a \<noteq> b \<longrightarrow> reg_ok ?s a u \<longrightarrow> reg_ok s1 a u"
    by (auto simp: same_env_def)
  have h1: "dt_heap s1 = (dt_heap s)(b \<mapsto> ?t\<lparr>ut_fhandle := h\<rparr>)" using s1(2) b(1) by (simp add: bump_single)
  have wf: "wf_env b t" and wfm: "wf_map t" using rc_invD(3,7) [OF inv b(1)] .
  have "rc_inv s1 (insert b Z) (\<lambda>x. (hs(b := 0)) x + count_list (darray_of t) x)"
    by (rule rc_inv_set_aside [OF inv b(1,2) hs(2,1) h1 _ _ _ s1(3,5)])
      (use wf wfm s1(6) in \<open>auto simp: reg_ok_def\<close>)
  from foldM_releases [OF rel this, of b] wf b(3) obtain s2 where s2: "foldM rel s1 (darray_of t) = Some s2"
    "rc_inv s2 (insert b Z) (hs(b := 0))" "\<forall>x \<ge> b. dt_heap s2 x = dt_heap s1 x" "same_env s1 s2"
    by (fastforce simp: wf_env_def)
  have "ulm_type_free rel b ?s = Some (s2\<lparr>dt_heap := (dt_heap s2)(b := None)\<rparr>)"
    unfolding ulm_type_free_def t Option.bind.bind_lunit s1(1)
    using envelope_loop [of b ?t s1 rel] wf s2(1,3) h1 hs(3) by simp
  with rc_inv_delete [OF s2(2) b(2)] s2(3,4) s1(4) h1 hs(1) show ?thesis by (auto simp: same_env_def)
qed

lemma releases_ulm_type_release: "releases (ulm_type_release n) n"
proof (induction n)
  case 0
  then show ?case by (simp add: releases_def)
next
  case (Suc n)
  show ?case unfolding releases_def
  proof (intro allI impI)
    fix s Z hs a
    assume inv: "rc_inv s Z hs" and a: "a < Suc n" "0 < hs a"
    have z: "a \<notin> Z" using rc_invD(6) [OF inv, of a] a(2) by auto
    obtain t where t: "dt_heap s a = Some t" using rc_invD(5) [OF inv, of a] a(2) by auto
    show "\<exists>s'. ulm_type_release (Suc n) s a = Some s' \<and> rc_inv s' Z (hs(a := hs a - 1))
      \<and> (\<forall>x > a. dt_heap s' x = dt_heap s x)
      \<and> same_env s s'"
    proof (cases "ut_isbasic t = 0")
      case True
      show ?thesis
      proof (cases "ut_ref_count t = 1")
        case True
        with type_free_ok [OF Suc.IH inv t z _ \<open>ut_isbasic t = 0\<close> True a(2)] a(1) t \<open>ut_isbasic t = 0\<close>
        show ?thesis by (simp add: add_ref_bump)
      next
        case False
        with rc_inv_dec [OF inv t \<open>ut_isbasic t = 0\<close> z a(2) False] t \<open>ut_isbasic t = 0\<close> show ?thesis
          by (simp add: add_ref_bump bump_single same_env_def)
      qed
    next
      case False
      with t rc_inv_basic_handle [OF inv t _ z] show ?thesis by (simp add: same_env_def)
    qed
  qed
qed

subsection \<open>Constructors keep the invariant\<close>

text \<open>The invariant between calls, for the handles \<open>hs\<close> the program holds.\<close>

definition dt_inv :: "dt_state \<Rightarrow> (nat \<Rightarrow> nat) \<Rightarrow> bool" where
  "dt_inv s hs \<longleftrightarrow> rc_inv s {} hs \<and> ut_type_map (dt_junk s) = Wild"

lemma darray_live:
  assumes "rc_inv s {} hs" and "dt_heap s b = Some t" and "d \<in> set (darray_of t)"
  shows "dt_heap s d \<noteq> None"
proof -
  have "0 < env_occ s b d" using assms(2,3) by (simp add: env_occ_def neq0_conv [symmetric] count_list_0_iff)
  then have "0 < owned s {} d" using owned_insert [OF rc_invD(2) [OF assms(1,2)], of "{}" d] by simp
  then show ?thesis by (intro rc_invD(5) [OF assms(1)]) simp
qed

lemma dt_inv_wf: "dt_inv s hs \<Longrightarrow> wf_dt s"
  unfolding wf_dt_def dt_inv_def
  by (intro conjI allI impI ballI) (auto dest: rc_invD(1,2,3,7) dest: darray_live simp del: not_None_eq)

lemma darray_of_mk [simp]: "ut_envelope t = mk_envelope c ints addrs ds \<Longrightarrow> darray_of t = ds"
  by (simp add: darray_of_def mk_envelope_def null_if_empty_def)

lemma wf_env_mk: "ut_envelope t = mk_envelope c ints addrs ds \<Longrightarrow> \<forall>d \<in> set ds. d < a \<Longrightarrow> wf_env a t"
  by (simp add: wf_env_def) (simp add: mk_envelope_def)

text \<open>\<open>es\<close> are the types in the new envelope, \<open>ds\<close> those whose count was raised: they may differ in predefined
  types.\<close>

lemma rc_inv_adds:
  assumes inv: "dt_inv s hs" and add: "adds_type s a t ds s'"
    and t: "fresh_type t (mk_envelope c ints addrs es) lb ext" "ut_type_map t \<noteq> Wild"
    and es: "\<forall>d \<in> set es. dt_heap s d \<noteq> None"
      "\<And>d u. dt_heap s d = Some u \<Longrightarrow> ut_isbasic u = 0 \<Longrightarrow> count_list es d = count_list ds d"
  shows "dt_inv s' (hs(a := 1))"
proof -
  have rc: "rc_inv s {} hs" and junk: "ut_type_map (dt_junk s) = Wild" using inv by (auto simp: dt_inv_def)
  obtain h0 tab where a: "a = dt_next s" and tab: "registers s a h0 (ut_fhandle t) tab"
    and s': "s' = s\<lparr>dt_heap := (bump 1 ds (dt_heap s))(a \<mapsto> t), dt_next := Suc a, dt_type_table := tab\<rparr>"
    using add by (auto simp: adds_type_def)
  have fr: "dt_heap s a = None" using wf_dt_fresh [OF dt_inv_wf [OF inv]] a by simp
  have h0: "hs a = 0" "owned s {} a = 0" using rc_invD(5) [OF rc, of a] fr by fastforce+
  have lt: "\<forall>d \<in> set es. d < a" using es(1) rc_invD(2) [OF rc] a by auto
  have env: "ut_envelope t = mk_envelope c ints addrs es" and basic: "ut_isbasic t = 0" and rct: "ut_ref_count t = 1"
    and wfm: "wf_map t" using t(1) by (simp_all add: fresh_type_def)
  have d: "darray_of t = es" using env by simp
  have heap: "dt_heap s' b = (if b = a then Some t else bump 1 ds (dt_heap s) b)" for b by (simp add: s')
  have occ: "env_occ s' b = env_occ s b" if "b \<noteq> a" for b
    using that by (auto simp: env_occ_def fun_eq_iff heap bump_def split: option.split)
  have new: "env_occ s' a = count_list es" "dt_next s' = Suc a" by (simp_all add: env_occ_def fun_eq_iff heap d s')
  have own: "owned s' {} x = owned s {} x + count_list es x" for x
  proof -
    have "owned s' {} x = (\<Sum>b<a. env_occ s' b x) + count_list es x" by (simp add: owned_def new)
    also have "(\<Sum>b<a. env_occ s' b x) = owned s {} x"
      unfolding owned_def a Diff_empty by (rule sum.cong) (use occ a in auto)
    finally show ?thesis .
  qed
  have "count_list es a = 0" using lt by (auto simp: count_list_0_iff)
  then have owna: "owned s' {} a = 0" using own [of a] h0 by simp
  have "rc_live s' {} (hs(a := 1)) b u" if u: "dt_heap s' b = Some u" for b u
  proof (cases "b = a")
    case True
    then show ?thesis using u heap basic rct t(2) tab owna
      by (auto simp: rc_live_def reg_ok_def registers_def s' split: if_splits)
  next
    case False
    then obtain v where v: "dt_heap s b = Some v" "u = v\<lparr>ut_ref_count := ut_ref_count v + 1 * int (count_list ds b)\<rparr>"
      using u heap by (auto elim: bump_fields)
    have "reg_ok s' b v" if "reg_ok s b v"
      using that tab by (auto simp: reg_ok_def registers_def s' split: if_splits)
    with rc_invD(4) [OF rc v(1)] v es(2) [OF v(1)] own [of b] False show ?thesis
      by (auto simp: rc_live_def reg_ok_def split: if_splits)
  qed
  moreover have "b < dt_next s' \<and> wf_env b u \<and> wf_map u" if "dt_heap s' b = Some u" for b u
    using that heap rc_invD(2,3,7) [OF rc, of b] wfm wf_env_mk [OF env lt] a s'
    by (auto elim!: bump_fields split: if_splits)
  moreover have "dt_heap s' b \<noteq> None" if "0 < (hs(a := 1)) b + owned s' {} b" for b
    using that rc_invD(5) [OF rc, of b] es(1) own [of b] heap [of b]
    by (auto simp: count_list_0_iff neq0_conv [symmetric] simp del: not_None_eq neq0_conv split: if_splits)
  moreover have "pt_inv (dt_type_table s')" using tab by (simp add: s' registers_def)
  ultimately have "rc_inv s' {} (hs(a := 1))" by (intro rc_invI) auto
  then show ?thesis using junk s' by (simp add: dt_inv_def)
qed

end
