(* ===== verification/Datatype_Commit.thy ===== *)
theory Datatype_Commit
  imports Datatype_Refcount
begin

section \<open>Committing a datatype\<close>

text \<open>
  \<^verbatim>\<open>MPI_Type_commit\<close> numbers the bytes of the packed buffer: entry \<open>i\<close> of the type map starts at the sum of
  the sizes of the entries before it, and the packed size is the sum of all sizes.
\<close>

definition tm_sum :: "tmelt list \<Rightarrow> size_t" where
  "tm_sum tm = sum_list (map tm_size tm)"

lemma tm_sum_simps [simp]: "tm_sum [] = 0" "tm_sum (e # es) = tm_size e + tm_sum es"
  by (simp_all add: tm_sum_def)

lemma commit_loop_total: "snd (commit_loop p tm) = p + tm_sum tm"
  by (induction p tm rule: commit_loop.induct) (auto simp: split_beta)

lemma commit_loop_entries: "map entry_pair (fst (commit_loop p tm)) = map entry_pair tm"
  by (induction p tm rule: commit_loop.induct) (auto simp: split_beta entry_pair_def)

lemma commit_loop_length [simp]: "length (fst (commit_loop p tm)) = length tm"
  using arg_cong [OF commit_loop_entries, of length] by simp

lemma commit_loop_seq:
  "i < length tm \<Longrightarrow> tm_seq_offset (fst (commit_loop p tm) ! i) = p + tm_sum (take i tm)"
proof (induction p tm arbitrary: i rule: commit_loop.induct)
  case (2 p e es)
  then show ?case by (cases i) (auto simp: split_beta algebra_simps)
qed simp

lemma commit_map_wf:
  "wf_map t \<Longrightarrow> ut_num_pairs t > 0 \<Longrightarrow> commit_map t =
     Some (Arr (fst (commit_loop 0 (type_map_of t))), tm_sum (type_map_of t))"
  using commit_loop_total [of 0 "type_map_of t"]
  by (auto simp: wf_map_def commit_map_def type_map_of_def split_beta split: tmptr.splits)

lemma commit_map_empty: "wf_map t \<Longrightarrow> \<not> ut_num_pairs t > 0 \<Longrightarrow> commit_map t = Some (ut_type_map t, 0)"
  by (simp add: commit_map_def)

text \<open>The committed version of a type.\<close>

definition committed_type :: "ulm_type \<Rightarrow> ulm_type" where
  "committed_type t =
     (if ut_committed t \<noteq> 0 then t
      else if ut_layout t = CONTIGUOUS then t\<lparr>ut_packed_size := ut_extent t, ut_committed := 1\<rparr>
      else (let p = tm_sum (type_map_of t);
                m = (if ut_num_pairs t > 0 then Arr (fst (commit_loop 0 (type_map_of t))) else ut_type_map t);
                u = t\<lparr>ut_type_map := m, ut_packed_size := p\<rparr>
            in (if p = 0 then u\<lparr>ut_layout := CONTIGUOUS\<rparr> else u)\<lparr>ut_committed := 1\<rparr>))"

lemma type_map_of_empty: "wf_map t \<Longrightarrow> \<not> ut_num_pairs t > 0 \<Longrightarrow> type_map_of t = []"
  by (auto simp: wf_map_def type_map_of_def split: tmptr.splits)

lemma commit_ok:
  assumes "dt_heap s a = Some t" and "wf_map t"
  shows "PMPI_Type_commit (Some a) s = Some (MPI_SUCCESS, s\<lparr>dt_heap := (dt_heap s)(a \<mapsto> committed_type t)\<rparr>)"
proof (cases "ut_num_pairs t > 0")
  case True
  with assms show ?thesis
    by (auto simp: PMPI_Type_commit_def committed_type_def commit_map_wf Let_def fun_upd_idem)
next
  case False
  with assms type_map_of_empty [OF assms(2) False] show ?thesis
    by (auto simp: PMPI_Type_commit_def committed_type_def commit_map_empty Let_def fun_upd_idem)
qed

lemma committed_type_keeps:
  shows "ut_envelope (committed_type t) = ut_envelope t" "ut_isbasic (committed_type t) = ut_isbasic t"
    "ut_ref_count (committed_type t) = ut_ref_count t" "ut_fhandle (committed_type t) = ut_fhandle t"
    "ut_num_pairs (committed_type t) = ut_num_pairs t" "ut_extent (committed_type t) = ut_extent t"
    "ut_lower_bound (committed_type t) = ut_lower_bound t" "ut_committed (committed_type t) \<noteq> 0"
    "ut_type_map t \<noteq> Wild \<Longrightarrow> ut_type_map (committed_type t) \<noteq> Wild"
  by (simp_all add: committed_type_def Let_def)

lemma committed_type_wf: "wf_map t \<Longrightarrow> wf_map (committed_type t)"
  by (auto simp: wf_map_def committed_type_def type_map_of_def Let_def split: tmptr.splits)

lemma committed_type_darray [simp]: "darray_of (committed_type t) = darray_of t"
  by (simp add: darray_of_def committed_type_keeps)

lemma rc_inv_commit:
  assumes inv: "dt_inv s hs" and a: "dt_heap s a = Some t"
  shows "dt_inv (s\<lparr>dt_heap := (dt_heap s)(a \<mapsto> committed_type t)\<rparr>) hs"
proof -
  let ?s = "s\<lparr>dt_heap := (dt_heap s)(a \<mapsto> committed_type t)\<rparr>"
  have rc: "rc_inv s {} hs" using inv by (simp add: dt_inv_def)
  have own: "owned ?s {} = owned s {}"
    by (rule owned_cong) (use a in \<open>auto simp: env_occ_def fun_eq_iff\<close>)
  have "rc_inv ?s {} hs"
  proof (rule rc_invI)
    show "rc_live ?s {} hs b u" if "dt_heap ?s b = Some u" for b u
      using that a rc_invD(4) [OF rc, of b]
      by (cases "b = a") (auto simp: rc_live_def reg_ok_def own committed_type_keeps split: if_splits)
    show "b < dt_next ?s \<and> wf_env b u \<and> wf_map u" if "dt_heap ?s b = Some u" for b u
      using that a rc_invD(2,3,7) [OF rc, of b] committed_type_wf [of t]
      by (cases "b = a") (auto simp: wf_env_def committed_type_keeps)
    show "dt_heap ?s b \<noteq> None" if "0 < hs b + owned ?s {} b" for b
      using that rc_invD(5) [OF rc, of b] by (simp add: own)
  qed (use rc_invD(1) [OF rc] in simp_all)
  then show ?thesis using inv by (simp add: dt_inv_def)
qed

end
