(* ===== verification/Datatype_Basic.thy ===== *)
theory Datatype_Basic
  imports Datatype
begin

section \<open>The predefined datatypes (\<^verbatim>\<open>mpi/internal/mpi_type.c\<close>)\<close>

text \<open>
  The table \<^verbatim>\<open>ulm_type[]\<close> that \<^verbatim>\<open>_mpi_init_datatypes\<close> fills, as the initial contents of the store: the
  predefined type with index \<open>i\<close> of the enumeration in \<^verbatim>\<open>ulm/constants.h\<close> is at address \<open>i\<close>. The sizes are
  those of an LP64 platform. Static storage starts as zero.
\<close>

abbreviation (input) ULM_CHAR :: nat where "ULM_CHAR \<equiv> 0"
abbreviation (input) ULM_SHORT :: nat where "ULM_SHORT \<equiv> 1"
abbreviation (input) ULM_INT :: nat where "ULM_INT \<equiv> 2"
abbreviation (input) ULM_DOUBLE :: nat where "ULM_DOUBLE \<equiv> 9"
abbreviation (input) ULM_LB :: nat where "ULM_LB \<equiv> 20"
abbreviation (input) ULM_UB :: nat where "ULM_UB \<equiv> 21"
abbreviation (input) ULM_NUMBER_OF_TYPES :: nat where "ULM_NUMBER_OF_TYPES \<equiv> 34"

text \<open>Extent and \<^verbatim>\<open>op_index\<close> of the predefined types, in the order of the enumeration.\<close>

definition basic_table :: "(size_t \<times> int) list" where
  "basic_table =
     [(1, 0), (2, 1), (4, 2), (8, 3),             \<comment> \<open>CHAR, SHORT, INT, LONG\<close>
      (1, 4), (2, 5), (4, 6), (8, 7),             \<comment> \<open>UNSIGNED CHAR,  SHORT, UNSIGNED,  LONG\<close>
      (4, 8), (8, 9), (16, 10),                   \<comment> \<open>FLOAT, DOUBLE, LONG DOUBLE\<close>
      (1, 11), (1, 12), (8, 13),                  \<comment> \<open>PACKED, BYTE, LONG LONG INT\<close>
      (8, 14), (16, 15), (16, 16), (8, 17),       \<comment> \<open>FLOAT INT, DOUBLE INT, LONG INT, 2INT\<close>
      (8, 18), (32, 19),                          \<comment> \<open>SHORT INT, LONG DOUBLE INT\<close>
      (0, - 1), (0, - 2),                         \<comment> \<open>LB, UB\<close>
      (1, 0), (2, 1), (4, 2), (8, 13),            \<comment> \<open>INTEGER1, 2, 4, 8\<close>
      (2, 8), (4, 8), (8, 9),                     \<comment> \<open>REAL2, 4, 8\<close>
      (8, 23), (16, 24),                          \<comment> \<open>COMPLEX, DOUBLE COMPLEX\<close>
      (8, 21), (16, 22), (8, 17)]                 \<comment> \<open>2REAL, 2DOUBLE PRECISION, 2INTEGER\<close>"

text \<open>The pair types, with the size of their second component.\<close>

definition pair_second :: "nat \<Rightarrow> size_t option" where
  "pair_second = map_of [(18, 4), (17, 4), (16, 4), (14, 4), (15, 4), (19, 4), (33, 4), (31, 4), (32, 8)]"

definition basic_type :: "nat \<Rightarrow> ulm_type" where
  "basic_type i =
     (let (extent, op) = basic_table ! i; bound = (i = ULM_LB \<or> i = ULM_UB) in
      \<lparr>ut_type_map = (if bound then Null else Arr [\<lparr>tm_size = extent, tm_offset = 0, tm_seq_offset = 0\<rparr>]),
       ut_lower_bound = 0, ut_extent = extent, ut_packed_size = extent,
       ut_num_pairs = (if bound then 0 else 1), ut_layout = CONTIGUOUS, ut_isbasic = 1,
       ut_num_primitives = (if bound then 0 else if pair_second i \<noteq> None then 2 else 1),
       ut_second_primitive_offset = (case pair_second i of None \<Rightarrow> 0 | Some w \<Rightarrow> to_c_int (extent - w)),
       ut_op_index = op, ut_fhandle = 0,
       ut_envelope = mk_envelope MPI_COMBINER_NAMED [] [] [], ut_ref_count = 1, ut_committed = 1\<rparr>)"

definition mpi_init_datatypes :: "nat \<Rightarrow> ulm_type option" where
  "mpi_init_datatypes i = (if i < ULM_NUMBER_OF_TYPES then Some (basic_type i) else None)"

text \<open>The store with the predefined types, for any contents of fresh memory.\<close>

definition dt_static :: "ulm_type \<Rightarrow> tmelt \<Rightarrow> bool list \<Rightarrow> bool \<Rightarrow> bool \<Rightarrow> dt_state" where
  "dt_static junk junk_elt allocs fortran threads =
     \<lparr>dt_heap = mpi_init_datatypes, dt_next = ULM_NUMBER_OF_TYPES, dt_junk = junk, dt_junk_elt = junk_elt,
      dt_allocs = allocs, dt_fortran = fortran, dt_threads = threads, dt_type_table = ptr_table_zero,
      dt_errs = []\<rparr>"

subsection \<open>The Fortran handle table (\<^verbatim>\<open>mpi/internal/mpif_type.c\<close>)\<close>

text \<open>The types Fortran programs know, in the order of \<^verbatim>\<open>mpif.h\<close>; \<^verbatim>\<open>mpi.h\<close> makes \<^verbatim>\<open>MPI_INTEGER\<close>, \<^verbatim>\<open>MPI_REAL\<close>,
  \<^verbatim>\<open>MPI_DOUBLE_PRECISION\<close>, \<^verbatim>\<open>MPI_LOGICAL\<close> and \<^verbatim>\<open>MPI_CHARACTER\<close> names of the C types int, float, double, unsigned and char.\<close>

definition fortran_types :: "nat list" where
  "fortran_types =
     [2, 8, 9, 29, 30,                            \<comment> \<open>INTEGER, REAL, DOUBLE PRECISION, COMPLEX, DOUBLE COMPLEX\<close>
      6, 0, 12, 11,                               \<comment> \<open>LOGICAL, CHARACTER, BYTE, PACKED\<close>
      31, 32, 33,                                 \<comment> \<open>2REAL, 2DOUBLE PRECISION, 2INTEGER\<close>
      22, 23, 24, 25, 26, 27, 28,                 \<comment> \<open>INTEGER1, 2, 4, 8, REAL2, 4, 8\<close>
      20, 21]                                     \<comment> \<open>LB, UB\<close>"

definition add_fortran_datatype :: "dt_state \<times> int \<Rightarrow> nat \<Rightarrow> (dt_state \<times> int) option" where
  "add_fortran_datatype = (\<lambda>(s, error) type.
     if error = 0 then do {
       s' \<leftarrow> register_fortran type s;
       t \<leftarrow> dt_heap s' type;
       Some (s', if ut_fhandle t < 0 then 1 else error)
     } else Some (s, error))"

text \<open>The table itself is allocated without a check; the result says whether it was returned or freed after an error.\<close>

definition mpif_create_type_table :: "dt_state \<Rightarrow> (bool \<times> dt_state) option" where
  "mpif_create_type_table s = do {
     s1 \<leftarrow> malloc_unchecked s;
     (s2, error) \<leftarrow> foldM add_fortran_datatype (s1\<lparr>dt_type_table := ptr_table_zero\<rparr>, 0) fortran_types;
     Some (error = 0, s2)
   }"

text \<open>The store after a successful initialisation: with the Fortran layer enabled, its type table is created.\<close>

definition dt_init :: "ulm_type \<Rightarrow> tmelt \<Rightarrow> bool list \<Rightarrow> bool \<Rightarrow> bool \<Rightarrow> dt_state option" where
  "dt_init junk junk_elt allocs fortran threads =
     (let s = dt_static junk junk_elt allocs fortran threads in
      if fortran then do {
        (ok, s') \<leftarrow> mpif_create_type_table s;
        (if ok then Some s' else None)
      } else Some s)"

text \<open>An example of uninitialised memory, for evaluating the model.\<close>

definition wild_type :: ulm_type where
  "wild_type = (basic_type 0)\<lparr>ut_type_map := Wild, ut_lower_bound := 77, ut_extent := 78,
     ut_packed_size := 79, ut_num_pairs := 80, ut_op_index := 81, ut_fhandle := - 1, ut_ref_count := 83\<rparr>"

definition wild_elt :: tmelt where
  "wild_elt = \<lparr>tm_size = 91, tm_offset = 92, tm_seq_offset = 93\<rparr>"

text \<open>An initial store, without the Fortran layer.\<close>

definition dt_fresh :: dt_state where
  "dt_fresh = dt_static wild_type wild_elt [] False True"

lemma dt_fresh_init: "dt_init wild_type wild_elt [] False True = Some dt_fresh"
  by (simp add: dt_init_def dt_fresh_def)

end
