(* ===== verification/Datatype_Session.thy ===== *)
theory Datatype_Session
  imports Datatype_Commit Datatype_Basic
begin

section \<open>Sequences of datatype calls\<close>

text \<open>
  A program that only uses handles it holds, or predefined types, runs any sequence of constructor,
  commit and free calls without undefined behaviour, and the reference counts stay exact; when every
  handle has been freed, only the predefined types are left in the store.
\<close>

datatype dt_call =
    CVector int int int nat
  | CContiguous int nat
  | CHvector int int size_t nat
  | CStruct int "int list" "size_t list" "nat list"
  | CIndexed int "int list" "int list" nat
  | CHindexed int "int list" "size_t list" nat
  | CCommit nat
  | CFree nat

text \<open>The handles a program holds, after a constructor stored a new one.\<close>

definition new_handle :: "dt_result \<Rightarrow> (nat \<Rightarrow> nat) \<Rightarrow> (int \<times> dt_state \<times> (nat \<Rightarrow> nat)) option" where
  "new_handle r hs = (case r of
     Some (rc, Some (Some a), s) \<Rightarrow> Some (rc, s, hs(a := 1))
   | _ \<Rightarrow> None)"

fun dt_exec :: "dt_call \<Rightarrow> dt_state \<Rightarrow> (nat \<Rightarrow> nat) \<Rightarrow> (int \<times> dt_state \<times> (nat \<Rightarrow> nat)) option" where
  "dt_exec (CVector count bl stride old) s hs = new_handle (PMPI_Type_vector count bl stride (Some old) (Some None) s) hs"
| "dt_exec (CContiguous count old) s hs = new_handle (PMPI_Type_contiguous count (Some old) (Some None) s) hs"
| "dt_exec (CHvector count bl stride old) s hs = new_handle (PMPI_Type_hvector count bl stride (Some old) (Some None) s) hs"
| "dt_exec (CStruct count bls disps olds) s hs = new_handle (PMPI_Type_struct count bls disps (map Some olds) (Some None) s) hs"
| "dt_exec (CIndexed count bls disps old) s hs = new_handle (PMPI_Type_indexed count bls disps (Some old) (Some None) s) hs"
| "dt_exec (CHindexed count bls disps old) s hs = new_handle (PMPI_Type_hindexed count bls disps (Some old) (Some None) s) hs"
| "dt_exec (CCommit a) s hs = map_option (\<lambda>(rc, s'). (rc, s', hs)) (PMPI_Type_commit (Some a) s)"
| "dt_exec (CFree a) s hs = map_option (\<lambda>(rc, _, s'). (rc, s', hs(a := hs a - 1))) (PMPI_Type_free (Some (Some a)) s)"

text \<open>A program may use a handle it holds and the predefined types.\<close>

definition usable :: "dt_state \<Rightarrow> (nat \<Rightarrow> nat) \<Rightarrow> nat \<Rightarrow> bool" where
  "usable s hs a \<longleftrightarrow> (case dt_heap s a of None \<Rightarrow> False | Some t \<Rightarrow> hs a > 0 \<or> ut_isbasic t \<noteq> 0)"

text \<open>\<^verbatim>\<open>MPI_Type_vector\<close> and \<^verbatim>\<open>MPI_Type_contiguous\<close> leave the pointer to the type map uninitialised when the map is empty,
  and a later release frees it.\<close>

definition nonempty :: "dt_state \<Rightarrow> nat \<Rightarrow> bool" where
  "nonempty s a \<longleftrightarrow> (case dt_heap s a of None \<Rightarrow> False | Some t \<Rightarrow> type_map_of t \<noteq> [])"

text \<open>The arithmetic of the vector constructors stays inside its types: \<^verbatim>\<open>int\<close> for vectors, \<^verbatim>\<open>MPI_Aint\<close> for hvectors.\<close>

definition vector_fits :: "int \<Rightarrow> int \<Rightarrow> int \<Rightarrow> bool" where
  "vector_fits count bl stride \<longleftrightarrow> int_range stride \<and> int_range (stride - bl) \<and> int_range \<bar>stride\<bar>
     \<and> int_range (\<bar>stride\<bar> * (count - 1) + bl)"

definition hvector_fits :: "int \<Rightarrow> size_t \<Rightarrow> bool" where
  "hvector_fits count stride \<longleftrightarrow> \<bar>sint stride\<bar> < 2 ^ 63 \<and> (count - 1) * \<bar>sint stride\<bar> < 2 ^ 63"

text \<open>The type map entries that \<open>n\<close> copies of a type have; their number must fit the \<^verbatim>\<open>int\<close> that counts them.\<close>

definition copied :: "dt_state \<Rightarrow> nat \<Rightarrow> int \<Rightarrow> int" where
  "copied s a n = (case dt_heap s a of None \<Rightarrow> 0 | Some t \<Rightarrow> int (nat n * length (type_map_of t)))"

text \<open>The calls a program may make: with handles it holds or predefined types, counts that are not negative and arrays of
  that length. What else is excluded is where the code is undefined: vectors and contiguous types (of a positive count)
  with a block length of 0 or less or of a type without data, whose type map pointer is left uninitialised, and arguments
  for which the \<^verbatim>\<open>int\<close> arithmetic overflows.\<close>

fun dt_legal :: "dt_call \<Rightarrow> dt_state \<Rightarrow> (nat \<Rightarrow> nat) \<Rightarrow> bool" where
  "dt_legal (CVector count bl stride old) s hs \<longleftrightarrow> usable s hs old \<and> 0 \<le> count \<and> int_range count
     \<and> (count = 0 \<or> 0 < bl \<and> nonempty s old \<and> vector_fits count bl stride \<and> int_range (copied s old (count * bl)))"
| "dt_legal (CContiguous count old) s hs \<longleftrightarrow> usable s hs old \<and> 0 \<le> count \<and> int_range count
     \<and> (count = 0 \<or> nonempty s old \<and> int_range (copied s old count))"
| "dt_legal (CHvector count bl stride old) s hs \<longleftrightarrow> usable s hs old \<and> 0 \<le> count \<and> int_range count
     \<and> (count = 0 \<or> hvector_fits count stride \<and> int_range (copied s old (count * int (nat bl))))"
| "dt_legal (CStruct count bls disps olds) s hs \<longleftrightarrow> 0 \<le> count \<and> int_range count \<and> length bls = nat count
     \<and> length disps = nat count \<and> length olds = nat count \<and> list_all (usable s hs) olds
     \<and> int_range (sum_list (map2 (copied s) olds bls))"
| "dt_legal (CIndexed count bls disps old) s hs \<longleftrightarrow> usable s hs old \<and> 0 \<le> count \<and> int_range count
     \<and> length bls = nat count \<and> length disps = nat count \<and> int_range (sum_list (map (copied s old) bls))"
| "dt_legal (CHindexed count bls disps old) s hs \<longleftrightarrow> usable s hs old \<and> 0 \<le> count \<and> int_range count
     \<and> length bls = nat count \<and> length disps = nat count \<and> int_range (sum_list (map (copied s old) bls))"
| "dt_legal (CCommit a) s hs \<longleftrightarrow> usable s hs a"
| "dt_legal (CFree a) s hs \<longleftrightarrow> hs a > 0"

fun dt_session :: "dt_call list \<Rightarrow> dt_state \<Rightarrow> (nat \<Rightarrow> nat) \<Rightarrow> (dt_state \<times> (nat \<Rightarrow> nat)) option" where
  "dt_session [] s hs = Some (s, hs)"
| "dt_session (c # cs) s hs = Option.bind (dt_exec c s hs) (\<lambda>(rc, s', hs'). dt_session cs s' hs')"

fun dt_legals :: "dt_call list \<Rightarrow> dt_state \<Rightarrow> (nat \<Rightarrow> nat) \<Rightarrow> bool" where
  "dt_legals [] s hs = True"
| "dt_legals (c # cs) s hs \<longleftrightarrow> dt_legal c s hs \<and>
     (case dt_exec c s hs of None \<Rightarrow> True | Some (rc, s', hs') \<Rightarrow> dt_legals cs s' hs')"

subsection \<open>Each call keeps the invariant\<close>

definition step_ok :: "(int \<times> dt_state \<times> (nat \<Rightarrow> nat)) option \<Rightarrow> bool" where
  "step_ok r \<longleftrightarrow> (\<exists>s' hs'. r = Some (MPI_SUCCESS, s', hs') \<and> dt_inv s' hs' \<and> dt_allocs s' = [])"

lemma adds_type_allocs: "adds_type s a t ds s' \<Longrightarrow> dt_allocs s' = dt_allocs s"
  by (auto simp: adds_type_def)

text \<open>The envelope a constructor call is to leave: its combiner and its arguments.\<close>

fun call_args :: "dt_call \<Rightarrow> (int \<times> int list \<times> size_t list \<times> nat list) option" where
  "call_args (CVector count bl stride old) = Some (MPI_COMBINER_VECTOR, [count, bl, stride], [], [old])"
| "call_args (CContiguous count old) = Some (MPI_COMBINER_CONTIGUOUS, [count], [], [old])"
| "call_args (CHvector count bl stride old) = Some (MPI_COMBINER_HVECTOR, [count, bl], [stride], [old])"
| "call_args (CStruct count bls disps olds) = Some (MPI_COMBINER_STRUCT, count # bls, disps, olds)"
| "call_args (CIndexed count bls disps old) = Some (MPI_COMBINER_INDEXED, count # bls @ disps, [], [old])"
| "call_args (CHindexed count bls disps old) = Some (MPI_COMBINER_HINDEXED, count # bls, disps, [old])"
| "call_args _ = None"

definition made :: "(nat \<Rightarrow> nat) \<Rightarrow> (int \<times> dt_state \<times> (nat \<Rightarrow> nat)) option \<Rightarrow> int \<Rightarrow> int list \<Rightarrow> size_t list \<Rightarrow> nat list \<Rightarrow> bool" where
  "made hs r c ints addrs ds \<longleftrightarrow> (\<exists>s' a t. r = Some (MPI_SUCCESS, s', hs(a := 1)) \<and> dt_inv s' (hs(a := 1)) \<and> dt_allocs s' = []
     \<and> dt_heap s' a = Some t \<and> ut_envelope t = mk_envelope c ints addrs ds)"

lemma made_step: "made hs r c ints addrs ds \<Longrightarrow> step_ok r"
  by (auto simp: made_def step_ok_def)

lemma made_adds:
  assumes "dt_inv s hs" and "dt_allocs s = []" and "r = Some (MPI_SUCCESS, Some (Some a), s')"
    and "adds_type s a t ds s'" and "fresh_type t (mk_envelope c ints addrs ds) lb ext" and "ut_type_map t \<noteq> Wild"
    and "\<forall>d \<in> set ds. dt_heap s d \<noteq> None"
  shows "made hs (new_handle r hs) c ints addrs ds"
  using rc_inv_adds [OF assms(1,4,5,6,7)] adds_type_allocs [OF assms(4)] adds_type_new [OF assms(4)] assms(2,3,5)
  by (auto simp: made_def new_handle_def fresh_type_def)

lemma usable_live: "usable s hs a \<Longrightarrow> \<exists>t. dt_heap s a = Some t"
  by (auto simp: usable_def split: option.splits)

lemma vec_count_pos:
  assumes "tm \<noteq> []" and "0 < bl" and "0 < count"
  shows "0 < vec_count (vec_visits count bl stride t tm)"
proof -
  have ne: "entries vec_decide [] vs \<noteq> []" if n: "vs \<noteq> []" for vs
  proof -
    obtain v ws where "vs = v # ws" using n by (cases vs) auto
    then show ?thesis using length_entries [OF sane_vec, of "[v]" ws] by (cases v) auto
  qed
  obtain e es where tm: "tm = e # es" using assms(1) by (cases tm) auto
  obtain n m where "nat bl = Suc n" "nat count = Suc m" using assms(2,3) by (metis Suc_pred' zero_less_nat_eq)
  then have "vec_visits count bl stride t tm \<noteq> []"
    by (simp add: vec_visits_def tm pair_visits_def split: prod.split)
  from ne [OF this] show ?thesis by (simp add: vec_count_entries)
qed

lemma nonempty_map: "nonempty s a \<Longrightarrow> dt_heap s a = Some t \<Longrightarrow> type_map_of t \<noteq> []"
  by (simp add: nonempty_def)

lemma hvector_extent_fits:
  assumes "hvector_fits count stride" and "0 < count"
  shows "\<exists>e. hvector_extent count bl stride t = Some e"
proof -
  have neg: "stride <s 0 \<longleftrightarrow> sint stride < 0" by (simp add: word_sless_alt)
  let ?p = "(count - 1) * \<bar>sint stride\<bar>"
  have "0 \<le> ?p" using assms(2) by simp
  then have "c_ssize \<bar>sint stride\<bar> = Some \<bar>sint stride\<bar>" "c_ssize ?p = Some ?p"
    using assms(1) by (auto simp: hvector_fits_def c_ssize_def)
  then show ?thesis by (cases "sint stride < 0") (simp_all add: hvector_extent_def neg abs_if)
qed

lemma copied_fits:
  assumes "int_range (copied s old (count * n))" and "dt_heap s old = Some t" and "0 \<le> count" and "n = bl \<and> 0 \<le> bl \<or> n = int (nat bl)"
  shows "int (nat count * nat bl * length (type_map_of t)) \<le> 2147483647"
proof -
  have "nat (count * n) = nat count * nat bl" using assms(3,4) by (auto simp: nat_mult_distrib)
  then show ?thesis using assms(1,2) by (simp add: copied_def int_range_def)
qed

lemma made_vector:
  assumes inv: "dt_inv s hs" "dt_allocs s = []" and legal: "dt_legal (CVector count bl stride old) s hs"
  shows "made hs (dt_exec (CVector count bl stride old) s hs) MPI_COMBINER_VECTOR [count, bl, stride] [] [old]"
proof -
  obtain t where t: "dt_heap s old = Some t" using legal by (auto dest: usable_live)
  note wf = dt_inv_wf [OF inv(1)]
  show ?thesis
  proof (cases "count = 0")
    case True
    with make_empty_ok [OF wf inv(2), of "[old]" MPI_COMBINER_VECTOR "[count, bl, stride]" "[]" None] t
    show ?thesis by (auto simp: PMPI_Type_vector_def intro!: made_adds [OF inv])
  next
    case False
    then have c: "0 < count" "0 < bl" "type_map_of t \<noteq> []" and fits: "vector_fits count bl stride"
      and cp: "int (nat count * nat bl * length (type_map_of t)) \<le> 2147483647"
      using legal nonempty_map t copied_fits [of s old count bl t bl] by auto
    have ext: "vector_extent count bl stride t
        = Some (word_of_int (\<bar>stride\<bar> * (count - 1) + bl) * ut_extent t - ut_lower_bound t)"
      using fits c by (subst vector_extent_if) (auto simp: vector_fits_def)
    have "int_range (stride - bl)" using fits by (simp add: vector_fits_def)
    from vector_ok [OF wf inv(2) t c(1) refl ext this int_range_vec_count(1) [OF cp], of None] c
      vec_count_pos [of "type_map_of t" bl count stride t] t
    show ?thesis by (auto intro!: made_adds [OF inv])
  qed
qed

lemma made_contiguous:
  assumes inv: "dt_inv s hs" "dt_allocs s = []" and legal: "dt_legal (CContiguous count old) s hs"
  shows "made hs (dt_exec (CContiguous count old) s hs) MPI_COMBINER_CONTIGUOUS [count] [] [old]"
proof -
  obtain t where t: "dt_heap s old = Some t" using legal by (auto dest: usable_live)
  note wf = dt_inv_wf [OF inv(1)]
  show ?thesis
  proof (cases "count = 0")
    case True
    with make_empty_ok [OF wf inv(2), of "[old]" MPI_COMBINER_CONTIGUOUS "[count]" "[]" None] t
    show ?thesis by (auto simp: PMPI_Type_contiguous_def intro!: made_adds [OF inv])
  next
    case False
    then have c: "0 < count" "type_map_of t \<noteq> []" "int_range count"
      and cp: "int (nat count * nat 1 * length (type_map_of t)) \<le> 2147483647"
      using legal nonempty_map t copied_fits [of s old count 1 t 1] by auto
    with contiguous_ok [OF wf inv(2) t c(1) refl c(3), of None] int_range_vec_count(1) [OF cp, of 1 t]
      vec_count_pos [of "type_map_of t" 1 count 1 t] t
    show ?thesis by (auto intro!: made_adds [OF inv])
  qed
qed

lemma made_hvector:
  assumes inv: "dt_inv s hs" "dt_allocs s = []" and legal: "dt_legal (CHvector count bl stride old) s hs"
  shows "made hs (dt_exec (CHvector count bl stride old) s hs) MPI_COMBINER_HVECTOR [count, bl] [stride] [old]"
proof -
  obtain t where t: "dt_heap s old = Some t" using legal by (auto dest: usable_live)
  note wf = dt_inv_wf [OF inv(1)]
  show ?thesis
  proof (cases "count = 0")
    case True
    with make_empty_ok [OF wf inv(2), of "[old]" MPI_COMBINER_HVECTOR "[count, bl]" "[stride]" None] t
    show ?thesis
      by (auto simp: PMPI_Type_hvector_def PMPI_Type_create_hvector_def intro!: made_adds [OF inv])
  next
    case False
    then have c: "0 < count" "hvector_fits count stride"
      and cp: "int (nat count * nat bl * length (type_map_of t)) \<le> 2147483647"
      using legal t copied_fits [of s old count "int (nat bl)" t bl] by auto
    from hvector_extent_fits [OF c(2,1)] obtain ext where "hvector_extent count bl stride t = Some ext" by blast
    from hvector_ok [OF wf inv(2) t c(1) refl this int_range_vec_count(2) [OF cp], of None] t
    show ?thesis by (auto simp: PMPI_Type_hvector_def intro!: made_adds [OF inv])
  qed
qed

lemma made_struct:
  assumes inv: "dt_inv s hs" "dt_allocs s = []" and legal: "dt_legal (CStruct count bls disps olds) s hs"
  shows "made hs (dt_exec (CStruct count bls disps olds) s hs) MPI_COMBINER_STRUCT (count # bls) disps olds"
proof -
  have live: "\<forall>d \<in> set olds. dt_heap s d \<noteq> None"
    using legal by (auto simp: list_all_iff dest: usable_live)
  note wf = dt_inv_wf [OF inv(1)]
  show ?thesis
  proof (cases "count = 0")
    case True
    then have "bls = []" "disps = []" "olds = []" using legal by auto
    with True make_empty_ok [OF wf inv(2), of "[]" MPI_COMBINER_STRUCT "[count]" "[]" None]
    show ?thesis
      by (auto simp: PMPI_Type_struct_def PMPI_Type_create_struct_def intro!: made_adds [OF inv])
  next
    case False
    then have c: "0 < count" using legal by auto
    define ts where "ts = map (\<lambda>d. the (dt_heap s d)) olds"
    have ts: "map (dt_heap s) olds = map Some ts" using live by (simp add: ts_def)
    obtain lb ub where "struct_lb_ub bls disps ts = (lb, ub)" by fastforce
    from struct_ok [OF wf inv(2) ts _ _ _ c this refl, of None] legal live
    show ?thesis by (auto simp: PMPI_Type_struct_def intro!: made_adds [OF inv])
  qed
qed

lemma made_indexed:
  assumes inv: "dt_inv s hs" "dt_allocs s = []" and legal: "dt_legal (CIndexed count bls disps old) s hs"
  shows "made hs (dt_exec (CIndexed count bls disps old) s hs) MPI_COMBINER_INDEXED (count # bls @ disps) [] [old]"
proof -
  obtain t where t: "dt_heap s old = Some t" using legal by (auto dest: usable_live)
  note wf = dt_inv_wf [OF inv(1)]
  show ?thesis
  proof (cases "count = 0")
    case True
    then have "bls = []" "disps = []" using legal by auto
    with True make_empty_ok [OF wf inv(2), of "[old]" MPI_COMBINER_INDEXED "[count]" "[]" None] t
    show ?thesis by (auto simp: PMPI_Type_indexed_def intro!: made_adds [OF inv])
  next
    case False
    then have c: "0 < count" "length bls = nat count" "length disps = nat count" using legal by auto
    obtain lb ub where b: "struct_lb_ub bls (map (\<lambda>d. word_of_int d * ut_extent t) disps) (replicate (nat count) t) = (lb, ub)"
      by fastforce
    from indexed_ok [OF wf inv(2) t c refl b refl, of None] t
    show ?thesis by (auto intro!: made_adds [OF inv])
  qed
qed

lemma made_hindexed:
  assumes inv: "dt_inv s hs" "dt_allocs s = []" and legal: "dt_legal (CHindexed count bls disps old) s hs"
  shows "made hs (dt_exec (CHindexed count bls disps old) s hs) MPI_COMBINER_HINDEXED (count # bls) disps [old]"
proof -
  obtain t where t: "dt_heap s old = Some t" using legal by (auto dest: usable_live)
  note wf = dt_inv_wf [OF inv(1)]
  show ?thesis
  proof (cases "count = 0")
    case True
    then have "bls = []" "disps = []" using legal by auto
    with True make_empty_ok [OF wf inv(2), of "[old]" MPI_COMBINER_HINDEXED "[count]" "[]" None] t
    show ?thesis
      by (auto simp: PMPI_Type_hindexed_def PMPI_Type_create_hindexed_def intro!: made_adds [OF inv])
  next
    case False
    then have c: "0 < count" "length bls = nat count" "length disps = nat count" using legal by auto
    show ?thesis
    proof (cases "ut_isbasic t = 0")
      case True
      obtain lb ub where b: "struct_lb_ub bls disps (replicate (nat count) t) = (lb, ub)" by fastforce
      from hindexed_ok [OF wf inv(2) t c(1) True c(2,3) b refl, of None] t
      show ?thesis by (auto simp: PMPI_Type_hindexed_def intro!: made_adds [OF inv])
    next
      case False
      from hindexed_basic_ok [OF wf inv(2) t c(1) False c(2,3), of None] obtain u s' lb ext where
        u: "PMPI_Type_create_hindexed count bls disps (Some old) (Some None) s
          = Some (MPI_SUCCESS, Some (Some (dt_next s)), s')" "adds_type s (dt_next s) u [] s'"
          "fresh_type u (mk_envelope MPI_COMBINER_HINDEXED (count # bls) disps [old]) lb ext" "ut_type_map u \<noteq> Wild"
        by blast
      have "dt_inv s' (hs(dt_next s := 1))"
        by (rule rc_inv_adds [OF inv(1) u(2-4)]) (use t False in auto)
      with u(1,3) adds_type_allocs [OF u(2)] adds_type_new [OF u(2)] inv(2) show ?thesis
        by (auto simp: made_def new_handle_def PMPI_Type_hindexed_def fresh_type_def)
    qed
  qed
qed

lemma step_free:
  assumes inv: "dt_inv s hs" "dt_allocs s = []" and legal: "dt_legal (CFree a) s hs"
  shows "step_ok (dt_exec (CFree a) s hs)"
proof -
  have rc: "rc_inv s {} hs" using inv(1) by (simp add: dt_inv_def)
  have "dt_heap s a \<noteq> None" using legal by (intro rc_invD(5) [OF rc]) simp
  then have "a < Suc (dt_next s)" using rc_invD(2) [OF rc, of a] by fastforce
  with releases_ulm_type_release [of "Suc (dt_next s)", unfolded releases_def, rule_format, OF rc, of a] legal
  obtain s' where "ulm_type_release (Suc (dt_next s)) s a = Some s'" "rc_inv s' {} (hs(a := hs a - 1))" "same_env s s'"
    by auto
  with inv show ?thesis by (simp add: PMPI_Type_free_def step_ok_def dt_inv_def same_env_def)
qed

lemma step_commit:
  assumes inv: "dt_inv s hs" "dt_allocs s = []" and legal: "dt_legal (CCommit a) s hs"
  shows "step_ok (dt_exec (CCommit a) s hs)"
proof -
  obtain t where t: "dt_heap s a = Some t" using legal by (auto dest: usable_live)
  with commit_ok [OF t wf_dtD(2) [OF dt_inv_wf [OF inv(1)] t]] rc_inv_commit [OF inv(1) t] inv(2)
  show ?thesis by (simp add: step_ok_def)
qed

lemma made_exec:
  assumes "dt_inv s hs" and "dt_allocs s = []" and "dt_legal c s hs" and "call_args c = Some (comb, ints, addrs, ds)"
  shows "made hs (dt_exec c s hs) comb ints addrs ds"
  using assms
  by (cases c) (auto simp del: dt_exec.simps dt_legal.simps intro: made_vector made_contiguous made_hvector
      made_struct made_indexed made_hindexed)

lemma step_ok_exec:
  assumes "dt_inv s hs" and "dt_allocs s = []" and "dt_legal c s hs"
  shows "step_ok (dt_exec c s hs)"
proof (cases "call_args c")
  case None
  with assms show ?thesis by (cases c) (auto simp del: dt_exec.simps dt_legal.simps intro: step_commit step_free)
next
  case (Some x)
  obtain comb ints addrs ds where "x = (comb, ints, addrs, ds)" by (cases x)
  with Some show ?thesis using made_step [OF made_exec [OF assms]] by blast
qed

lemma session_ok:
  assumes "dt_inv s hs" and "dt_allocs s = []" and "dt_legals cs s hs"
  shows "\<exists>s' hs'. dt_session cs s hs = Some (s', hs') \<and> dt_inv s' hs'"
  using assms
proof (induction cs arbitrary: s hs)
  case (Cons c cs)
  from step_ok_exec [OF Cons.prems(1,2), of c] Cons.prems(3) obtain s1 hs1 where
    "dt_exec c s hs = Some (MPI_SUCCESS, s1, hs1)" "dt_inv s1 hs1" "dt_allocs s1 = []" by (auto simp: step_ok_def)
  with Cons show ?case by simp
qed simp

subsection \<open>The initial state, and the state without handles\<close>

lemma basic_type_sel:
  "ut_isbasic (basic_type i) = 1" "ut_envelope (basic_type i) = mk_envelope MPI_COMBINER_NAMED [] [] []"
  "wf_map (basic_type i)"
  by (simp_all add: basic_type_def Let_def split_beta wf_map_def)

text \<open>The stores reached during initialisation: the predefined types, some of them with a Fortran handle.\<close>

definition booted :: "ulm_type \<Rightarrow> dt_state \<Rightarrow> bool" where
  "booted junk s \<longleftrightarrow> pt_inv (dt_type_table s) \<and> dt_allocs s = [] \<and> dt_junk s = junk \<and> dt_next s = ULM_NUMBER_OF_TYPES
     \<and> (\<forall>b. dt_heap s b \<noteq> None \<longleftrightarrow> b < ULM_NUMBER_OF_TYPES)
     \<and> (\<forall>b u. dt_heap s b = Some u \<longrightarrow> (\<exists>h. u = (basic_type b)\<lparr>ut_fhandle := h\<rparr>))"

lemma booted_static: "booted junk (dt_static junk e [] f th)"
proof -
  have "\<exists>h. basic_type b = (basic_type b)\<lparr>ut_fhandle := h\<rparr>" for b
    by (rule exI [of _ "ut_fhandle (basic_type b)"]) simp
  then show ?thesis by (simp add: booted_def dt_static_def mpi_init_datatypes_def pt_inv_zero)
qed

lemma booted_inv:
  assumes "booted junk s" and "ut_type_map junk = Wild"
  shows "dt_inv s (\<lambda>_. 0) \<and> dt_allocs s = []"
proof -
  have heap: "b < ULM_NUMBER_OF_TYPES \<and> (\<exists>h. u = (basic_type b)\<lparr>ut_fhandle := h\<rparr>)" if "dt_heap s b = Some u" for b u
    using assms(1) that unfolding booted_def by (metis option.distinct(1))
  have d: "darray_of (basic_type b) = []" for b using basic_type_sel(2) by simp
  have own: "owned s {} x = 0" for x
    by (auto simp: owned_def env_occ_def d dest!: heap split: option.split)
  have "rc_inv s {} (\<lambda>_. 0)"
  proof (rule rc_invI)
    show "b < dt_next s \<and> wf_env b u \<and> wf_map u" if "dt_heap s b = Some u" for b u
      using heap [OF that] basic_type_sel assms(1) by (auto simp: booted_def intro: wf_env_mk)
    show "rc_live s {} (\<lambda>_. 0) b u" if "dt_heap s b = Some u" for b u
      using heap [OF that] d by (auto simp: rc_live_def basic_type_sel(1))
    show "pt_inv (dt_type_table s)" using assms(1) by (simp add: booted_def)
  qed (simp_all add: own)
  with assms show ?thesis by (simp add: dt_inv_def booted_def)
qed

lemma add_fortran_ok:
  assumes b: "booted junk s" and a: "a < ULM_NUMBER_OF_TYPES" and f: "dt_fortran s"
  shows "\<exists>s'. add_fortran_datatype (s, 0) a = Some (s', 0) \<and> booted junk s' \<and> dt_fortran s'"
proof -
  obtain t where t: "dt_heap s a = Some t" using b a unfolding booted_def by blast
  from register_fortran_ok [OF _ _ t] b obtain h tab where
    r: "registers s a (ut_fhandle t) h tab"
      "register_fortran a s = Some (s\<lparr>dt_heap := (dt_heap s)(a \<mapsto> t\<lparr>ut_fhandle := h\<rparr>), dt_type_table := tab\<rparr>)"
    unfolding booted_def by blast
  have "0 \<le> h" "pt_inv tab" using r(1) f by (auto simp: registers_def)
  moreover obtain h0 where "t = (basic_type a)\<lparr>ut_fhandle := h0\<rparr>" using b t unfolding booted_def by blast
  then have "t\<lparr>ut_fhandle := h\<rparr> = (basic_type a)\<lparr>ut_fhandle := h\<rparr>" by simp
  ultimately have "booted junk (s\<lparr>dt_heap := (dt_heap s)(a \<mapsto> t\<lparr>ut_fhandle := h\<rparr>), dt_type_table := tab\<rparr>)"
    using b a by (auto simp: booted_def)
  with r(2) f \<open>0 \<le> h\<close> show ?thesis by (simp add: add_fortran_datatype_def)
qed

lemma add_fortran_all_ok:
  assumes "booted junk s" and "list_all (\<lambda>a. a < ULM_NUMBER_OF_TYPES) as" and "dt_fortran s"
  shows "\<exists>s'. foldM add_fortran_datatype (s, 0) as = Some (s', 0) \<and> booted junk s'"
  using assms
proof (induction as arbitrary: s)
  case (Cons a as)
  from add_fortran_ok [OF Cons.prems(1) _ Cons.prems(3), of a] Cons.prems(2) obtain s1 where
    "add_fortran_datatype (s, 0) a = Some (s1, 0)" "booted junk s1" "dt_fortran s1" by auto
  with Cons.IH [of s1] Cons.prems(2) show ?case by auto
qed simp

text \<open>Initialisation succeeds when no allocation fails, and establishes the invariant.\<close>

lemma dt_init_booted: "\<exists>s. dt_init junk e [] f th = Some s \<and> booted junk s"
proof (cases f)
  case True
  let ?s = "dt_static junk e [] f th"
  have "booted junk (?s\<lparr>dt_type_table := ptr_table_zero\<rparr>)" using booted_static [of junk e f th]
    by (simp add: dt_static_def)
  moreover have "list_all (\<lambda>a. a < ULM_NUMBER_OF_TYPES) fortran_types" by (simp add: fortran_types_def)
  moreover have "malloc_unchecked ?s = Some ?s" by (simp add: malloc_unchecked_def ulm_malloc_def dt_static_def)
  moreover have "dt_fortran ?s" using True by (simp add: dt_static_def)
  ultimately show ?thesis using True add_fortran_all_ok [of junk "?s\<lparr>dt_type_table := ptr_table_zero\<rparr>" fortran_types]
    by (auto simp: dt_init_def mpif_create_type_table_def Let_def)
next
  case False
  then show ?thesis using booted_static by (simp add: dt_init_def)
qed

lemma dt_inv_init:
  assumes "dt_init junk e [] f th = Some s" and "ut_type_map junk = Wild"
  shows "dt_inv s (\<lambda>_. 0)" and "dt_allocs s = []"
  using dt_init_booted [of junk e f th] booted_inv [of junk s] assms by auto

text \<open>The Fortran handle of the \<open>i\<close>-th type of the list is \<open>i\<close>, the constant \<^verbatim>\<open>mpif.h\<close> has for it.\<close>

lemma fortran_handles:
  "map_option (\<lambda>s. map (\<lambda>a. map_option ut_fhandle (dt_heap s a)) fortran_types) (dt_init wild_type wild_elt [] True True)
    = Some (map Some [0, 1, 2, 3, 4, 5, 6, 7, 8, 9, 10, 11, 12, 13, 14, 15, 16, 17, 18, 19, 20])"
  by code_simp

text \<open>A derived type that no handle refers to is owned by a younger type; there is no youngest one.\<close>

lemma no_handles_no_derived:
  assumes inv: "dt_inv s (\<lambda>_. 0)" and a: "dt_heap s a = Some t"
  shows "ut_isbasic t \<noteq> 0"
proof
  have rc: "rc_inv s {} (\<lambda>_. 0)" using inv by (simp add: dt_inv_def)
  define D where "D = {a. \<exists>t. dt_heap s a = Some t \<and> ut_isbasic t = 0}"
  assume "ut_isbasic t = 0"
  then have "a \<in> D" using a by (auto simp: D_def)
  moreover have "finite D"
    by (rule finite_subset [of _ "{..<dt_next s}"]) (auto simp: D_def dest: rc_invD(2) [OF rc])
  ultimately have m: "Max D \<in> D" by (auto intro: Max_in)
  then obtain u where u: "dt_heap s (Max D) = Some u" "ut_isbasic u = 0" by (auto simp: D_def)
  from rc_invD(4) [OF rc u(1)] u(2) have "owned s {} (Max D) \<noteq> 0" by (auto simp: rc_live_def)
  then obtain b where b: "env_occ s b (Max D) \<noteq> 0" by (auto simp: owned_def)
  then obtain v where v: "dt_heap s b = Some v" "Max D \<in> set (darray_of v)"
    by (auto simp: env_occ_def count_list_0_iff simp del: neq0_conv split: option.splits)
  have "Max D < b" using rc_invD(3) [OF rc v(1)] v(2) by (simp add: wf_env_def)
  moreover have "b \<in> D" using rc_invD(4) [OF rc v(1)] v by (auto simp: D_def rc_live_def split: if_splits)
  ultimately show False using Max_ge [OF \<open>finite D\<close>, of b] by simp
qed

end
