(* ===== verification/Datatype_Props.thy ===== *)
theory Datatype_Props
  imports Datatype_Session
begin

section \<open>Properties of the datatype engine\<close>

subsection \<open>Bytes of the new type maps\<close>

lemma built_bytes:
  assumes "map entry_pair tm = rev (entries d [] vs)" and "keeps_bytes d" and "length (visit_bytes vs) < 2 ^ 64"
  shows "tm_bytes tm 0 = visit_bytes vs"
  using entries_bytes [OF assms(2), of "[]" vs] assms(1,3)
  by (simp add: tm_bytes_entry_pair length_visit_bytes)

lemma length_tm_bytes: "length (tm_bytes tm base) = sum_list (map (\<lambda>e. unat (tm_size e)) tm)"
  by (simp add: tm_bytes_def length_visit_bytes visit_total_def pair_visits_def comp_def)

lemma length_block_bytes: "length (block_bytes tm ext n base) = n * length (tm_bytes tm 0)"
  by (simp add: block_bytes_def length_concat comp_def length_tm_bytes sum_list_triv)

lemma length_strided_bytes: "length (strided_bytes tm ext n step count) = count * n * length (tm_bytes tm 0)"
  by (simp add: strided_bytes_def length_concat comp_def length_block_bytes sum_list_triv)

lemma vec_visits_bytes:
  assumes "0 \<le> blocklen"
  shows "visit_bytes (vec_visits count blocklen stride t (if blocklen > 0 then tm else []))
    = strided_bytes tm (ut_extent t) (nat blocklen) (word_of_int stride * ut_extent t) (nat count)"
proof (cases "blocklen = 0")
  case True
  then show ?thesis
    by (simp add: vec_visits_def vector_visits_bytes) (simp add: strided_bytes_def block_bytes_def)
next
  case False
  have "of_nat (nat blocklen) = (word_of_int blocklen :: size_t)" using assms by simp
  with False assms show ?thesis by (simp add: vec_visits_def vector_visits_bytes algebra_simps)
qed

lemma hvec_visits_bytes:
  assumes "0 \<le> blocklen"
  shows "visit_bytes (hvec_visits count blocklen stride t (if blocklen > 0 then tm else []))
    = strided_bytes tm (ut_extent t) (nat blocklen) stride (nat count)"
proof (cases "blocklen = 0")
  case True
  then show ?thesis
    by (simp add: hvec_visits_def vector_visits_bytes) (simp add: strided_bytes_def block_bytes_def)
next
  case False
  have "of_nat (nat blocklen) = (word_of_int blocklen :: size_t)" using assms by simp
  with False assms show ?thesis by (simp add: hvec_visits_def vector_visits_bytes)
qed

text \<open>The blocks of a struct over live types, and the bytes the MPI standard gives it.\<close>

definition type_blocks :: "int list \<Rightarrow> size_t list \<Rightarrow> ulm_type list \<Rightarrow> (int \<times> size_t \<times> size_t \<times> tmelt list) list" where
  "type_blocks bls disps ts = map (\<lambda>(bl, disp, t). (bl, disp, ut_extent t, type_map_of t)) (zip bls (zip disps ts))"

lemma struct_bytes_wf_block: "struct_bytes (map wf_block (zip bls (zip disps ts))) = struct_bytes (type_blocks bls disps ts)"
proof -
  have "(\<lambda>(bl, disp, ext, tm). if ext > 0 then block_bytes tm ext (nat bl) disp else []) (wf_block x)
    = (\<lambda>(bl, disp, ext, tm). if ext > 0 then block_bytes tm ext (nat bl) disp else [])
        ((\<lambda>(bl, disp, t). (bl, disp, ut_extent t, type_map_of t)) x)" for x :: "int \<times> size_t \<times> ulm_type"
    by (cases x) (auto simp: wf_block_def block_bytes_def tm_bytes_def)
  then show ?thesis by (simp add: struct_bytes_def type_blocks_def comp_def)
qed

lemma wf_dt_constructed:
  assumes "wf_dt s" and "adds_type s a t ds s'" and "fresh_type t (mk_envelope c ints addrs es) lb ext"
    and "\<forall>d \<in> set es. dt_heap s d \<noteq> None"
  shows "wf_dt s'"
proof -
  have env: "ut_envelope t = mk_envelope c ints addrs es" and "wf_map t" using assms(3) by (simp_all add: fresh_type_def)
  have "\<forall>d \<in> set es. d < a" using assms(1,2,4) wf_dtD(1) [OF assms(1)] by (fastforce simp: adds_type_def)
  from wf_dt_adds [OF assms(1,2) \<open>wf_map t\<close> wf_env_mk [OF env this]] env assms(4) show ?thesis by simp
qed

lemma strided_single: "strided_bytes tm ext (Suc 0) ext n = block_bytes tm ext n 0"
  by (simp add: strided_bytes_def block_bytes_def)

text \<open>The type map of a predefined type; the bound markers have extent 0.\<close>

definition predefined_map :: "ulm_type \<Rightarrow> bool" where
  "predefined_map t \<longleftrightarrow> ut_extent t = 0 \<or> map entry_pair (type_map_of t) = [(ut_extent t, 0)]"

lemma tm_bytes_single: "map entry_pair tm = [(ext, 0)] \<Longrightarrow> tm_bytes tm base = run_bytes (ext, base)"
  by (cases tm) (auto simp: tm_bytes_def pair_visits_def entry_pair_def)

text \<open>\<open>n\<close> adjacent runs are one run.\<close>

lemma block_bytes_run:
  assumes "map entry_pair tm = [(ext, 0)]" and "n * unat ext < 2 ^ 64"
  shows "block_bytes tm ext n base = run_bytes (of_nat n * ext, base)"
  using assms(2)
proof (induction n)
  case 0
  then show ?case by (simp add: block_bytes_def)
next
  case (Suc n)
  have u: "unat (of_nat n * ext) = n * unat ext"
  proof (cases "unat ext = 0")
    case True
    then show ?thesis by (simp add: unat_eq_zero)
  next
    case False
    then have "n < 2 ^ 64" using Suc.prems by (metis le_less_trans mult.right_neutral mult_le_mono2
          less_one linorder_not_less mult_Suc trans_le_add2)
    then have "unat (of_nat n :: size_t) = n" by (simp add: unat_of_nat take_bit_nat_eq_self)
    with Suc.prems show ?thesis by (simp add: unat_word_ariths)
  qed
  have "unat (of_nat n * ext) + unat ext < 2 ^ 64" using Suc.prems u by simp
  from run_bytes_join [OF this, of base] Suc assms(1) show ?case
    by (simp add: block_bytes_def tm_bytes_single algebra_simps del: run_bytes.simps)
qed

lemma basic_entries_bytes:
  assumes "predefined_map t" and "list_all (\<lambda>bl. 0 \<le> bl) bls"
    and "length (struct_bytes (type_blocks bls disps (replicate n t))) < 2 ^ 64" and "length bls = n" "length disps = n"
  shows "visit_bytes (map (\<lambda>(bl, d). (word_of_int bl * ut_extent t, d)) (zip bls disps))
    = struct_bytes (type_blocks bls disps (replicate n t))"
  using assms(2-)
proof (induction n arbitrary: bls disps)
  case 0
  then show ?case by (simp add: type_blocks_def struct_bytes_def)
next
  case (Suc n)
  then obtain bl bs d ds where l: "bls = bl # bs" "disps = d # ds" by (metis length_Suc_conv)
  let ?B = "if ut_extent t > 0 then block_bytes (type_map_of t) (ut_extent t) (nat bl) d else []"
  have c: "struct_bytes (type_blocks bls disps (replicate (Suc n) t)) = ?B @ struct_bytes (type_blocks bs ds (replicate n t))"
    by (simp add: l type_blocks_def struct_bytes_def)
  have IH: "visit_bytes (map (\<lambda>(bl, d). (word_of_int bl * ut_extent t, d)) (zip bs ds))
    = struct_bytes (type_blocks bs ds (replicate n t))"
    by (rule Suc.IH) (use Suc.prems l c in auto)
  have "run_bytes (word_of_int bl * ut_extent t, d) = ?B"
  proof (cases "ut_extent t = 0")
    case False
    then have m: "map entry_pair (type_map_of t) = [(ut_extent t, 0)]" using assms(1) by (simp add: predefined_map_def)
    have "length ?B < 2 ^ 64" using Suc.prems(2) c by simp
    then have "nat bl * unat (ut_extent t) < 2 ^ 64"
      using False m by (simp add: length_block_bytes tm_bytes_single word_neq_0_conv)
    from block_bytes_run [OF m this] Suc.prems(1) l False show ?thesis
      by (simp add: word_neq_0_conv del: run_bytes.simps)
  qed simp
  with IH c l show ?case by (simp del: run_bytes.simps)
qed

subsection \<open>Properties\<close>

text \<open>C17: \<^verbatim>\<open>MPI_Type_vector\<close> of a live type, for a positive \<^verbatim>\<open>count\<close> and a \<^verbatim>\<open>blocklen\<close> that is not negative, when no
  allocation fails. If the C \<^verbatim>\<open>int\<close> expressions \<^verbatim>\<open>stride - blocklen\<close>, \<^verbatim>\<open>|stride|\<close> and \<^verbatim>\<open>|stride| * (count - 1) + blocklen\<close>
  stay inside 32 bits, the call returns success and one new type whose type map denotes, in packing order, the bytes of
  \<^verbatim>\<open>count\<close> blocks of \<^verbatim>\<open>blocklen\<close> copies of the old type, the blocks \<^verbatim>\<open>stride\<close> extents apart: merging adjacent entries
  loses and invents nothing and both passes of the loops agree on the size of the array. The extent is the last of the
  expressions times the old extent, less the old lower bound, the envelope records the call and the store stays
  well-formed. Otherwise an \<^verbatim>\<open>int\<close> overflows and the call is undefined. (The data must be addressable with 64 bits, and
  the entries copied must be fewer than \<open>2\<^sup>3\<^sup>1\<close>, since an \<^verbatim>\<open>int\<close> counts them.)\<close>

theorem type_vector_correct:
  assumes "wf_dt s" and "dt_allocs s = []" and "dt_heap s old = Some oldtype" and "0 < count" and "0 \<le> blocklen"
    and "nat count * nat blocklen * length (tm_bytes (type_map_of oldtype) 0) < 2 ^ 64"
    and "int_range stride" and "int (nat count * nat blocklen * length (type_map_of oldtype)) \<le> 2147483647"
  shows "if int_range (stride - blocklen) \<and> int_range \<bar>stride\<bar> \<and> int_range (\<bar>stride\<bar> * (count - 1) + blocklen)
    then \<exists>t s'. PMPI_Type_vector count blocklen stride (Some old) (Some out) s
        = Some (MPI_SUCCESS, Some (Some (dt_next s)), s') \<and> dt_heap s' (dt_next s) = Some t \<and> wf_dt s'
      \<and> tm_bytes (type_map_of t) 0 = strided_bytes (type_map_of oldtype) (ut_extent oldtype) (nat blocklen)
          (word_of_int stride * ut_extent oldtype) (nat count)
      \<and> ut_extent t = word_of_int (\<bar>stride\<bar> * (count - 1) + blocklen) * ut_extent oldtype - ut_lower_bound oldtype
      \<and> ut_envelope t = mk_envelope MPI_COMBINER_VECTOR [count, blocklen, stride] [] [old]
    else PMPI_Type_vector count blocklen stride (Some old) (Some out) s = None"
proof (cases "int_range (stride - blocklen) \<and> int_range \<bar>stride\<bar> \<and> int_range (\<bar>stride\<bar> * (count - 1) + blocklen)")
  case True
  let ?vs = "vec_visits count blocklen stride oldtype (if blocklen > 0 then type_map_of oldtype else [])"
  let ?ext = "word_of_int (\<bar>stride\<bar> * (count - 1) + blocklen) * ut_extent oldtype - ut_lower_bound oldtype"
  have ext: "vector_extent count blocklen stride oldtype = Some ?ext"
    using True by (subst vector_extent_if [OF assms(7,4,5)]) simp
  from vector_ok [OF assms(1-4) refl ext _ int_range_vec_count(1) [OF assms(8)], of out] True obtain t s' where
    r: "PMPI_Type_vector count blocklen stride (Some old) (Some out) s = Some (MPI_SUCCESS, Some (Some (dt_next s)), s')"
      "adds_type s (dt_next s) t [old] s'"
      "fresh_type t (mk_envelope MPI_COMBINER_VECTOR [count, blocklen, stride] [] [old]) (ut_lower_bound oldtype) ?ext"
      "map entry_pair (type_map_of t) = rev (entries vec_decide [] ?vs)" by blast
  have "tm_bytes (type_map_of t) 0 = visit_bytes ?vs"
    using built_bytes [OF r(4) keeps_bytes_vec] assms(6)
    by (simp add: vec_visits_bytes [OF assms(5)] length_strided_bytes)
  with r wf_dt_constructed [OF assms(1) r(2,3)] adds_type_new [OF r(2)] assms(3) True show ?thesis
    by (auto simp: vec_visits_bytes [OF assms(5)] fresh_type_def)
next
  case False
  then have "\<not> int_range (stride - blocklen) \<or> vector_extent count blocklen stride oldtype = None"
    by (auto simp: vector_extent_if [OF assms(7,4,5)])
  from vector_undefined [OF assms(1-4) this, of out] show ?thesis unfolding if_not_P [OF False] .
qed

lemma wf_dt_fresh_store: "wf_dt dt_fresh"
  by (rule dt_inv_wf [OF dt_inv_init(1) [OF dt_fresh_init]]) (simp add: wild_type_def)

lemma dt_fresh_allocs: "dt_allocs dt_fresh = []"
  by (simp add: dt_fresh_def dt_static_def)

lemma dt_fresh_int: "dt_heap dt_fresh ULM_INT = Some (basic_type ULM_INT)"
  by (simp add: dt_fresh_def dt_static_def mpi_init_datatypes_def)

lemma int_bytes: "length (tm_bytes (type_map_of (basic_type ULM_INT)) 0) = 4"
  by code_simp

lemma int_entries: "length (type_map_of (basic_type ULM_INT)) = 1"
  by code_simp

text \<open>Three blocks of two integers, and 50000 blocks 50000 integers apart, where the extent overflows.\<close>

theorem type_vector_correct_witness:
  "(\<exists>t s'. PMPI_Type_vector 3 2 4 (Some ULM_INT) (Some None) dt_fresh
      = Some (MPI_SUCCESS, Some (Some (dt_next dt_fresh)), s') \<and> dt_heap s' (dt_next dt_fresh) = Some t \<and> wf_dt s'
    \<and> tm_bytes (type_map_of t) 0 = strided_bytes (type_map_of (basic_type ULM_INT)) (ut_extent (basic_type ULM_INT)) (nat 2)
        (word_of_int 4 * ut_extent (basic_type ULM_INT)) (nat 3)
    \<and> ut_envelope t = mk_envelope MPI_COMBINER_VECTOR [3, 2, 4] [] [ULM_INT])
   \<and> PMPI_Type_vector 50000 1 50000 (Some ULM_INT) (Some None) dt_fresh = None"
proof -
  have i: "int_range 4" "int_range 50000" "int_range (4 - 2)" "int_range \<bar>4\<bar>" "int_range (\<bar>4\<bar> * (3 - 1) + 2)"
    "\<not> int_range (\<bar>50000\<bar> * (50000 - 1) + 1)" by (simp_all add: int_range_def)
  have "int (nat 3 * nat 2 * length (type_map_of (basic_type ULM_INT))) \<le> 2147483647"
    "int (nat 50000 * nat 1 * length (type_map_of (basic_type ULM_INT))) \<le> 2147483647"
    "nat 3 * nat 2 * length (tm_bytes (type_map_of (basic_type ULM_INT)) 0) < 2 ^ 64"
    "nat 50000 * nat 1 * length (tm_bytes (type_map_of (basic_type ULM_INT)) 0) < 2 ^ 64"
    by (simp_all add: int_entries int_bytes)
  with type_vector_correct [OF wf_dt_fresh_store dt_fresh_allocs dt_fresh_int, of 3 2 4 None]
    type_vector_correct [OF wf_dt_fresh_store dt_fresh_allocs dt_fresh_int, of 50000 1 50000 None] i
  show ?thesis by auto
qed

text \<open>The same for \<^verbatim>\<open>MPI_Type_hvector\<close>, where the stride is given in bytes, when its arithmetic does not overflow.\<close>

theorem type_hvector_correct:
  assumes "wf_dt s" and "dt_allocs s = []" and "dt_heap s old = Some oldtype" and "0 < count" and "0 \<le> blocklen"
    and "nat count * nat blocklen * length (tm_bytes (type_map_of oldtype) 0) < 2 ^ 64"
    and "hvector_fits count stride" and "int (nat count * nat blocklen * length (type_map_of oldtype)) \<le> 2147483647"
  shows "\<exists>t s'. PMPI_Type_hvector count blocklen stride (Some old) (Some out) s
      = Some (MPI_SUCCESS, Some (Some (dt_next s)), s') \<and> dt_heap s' (dt_next s) = Some t \<and> wf_dt s'
    \<and> tm_bytes (type_map_of t) 0
        = strided_bytes (type_map_of oldtype) (ut_extent oldtype) (nat blocklen) stride (nat count)
    \<and> ut_envelope t = mk_envelope MPI_COMBINER_HVECTOR [count, blocklen] [stride] [old]"
proof -
  let ?vs = "hvec_visits count blocklen stride oldtype (if blocklen > 0 then type_map_of oldtype else [])"
  obtain ext where ext: "hvector_extent count blocklen stride oldtype = Some ext"
    using hvector_extent_fits [OF assms(7,4)] by blast
  from hvector_ok [OF assms(1-4) refl ext int_range_vec_count(2) [OF assms(8)], of out] obtain t s' where
    r: "PMPI_Type_create_hvector count blocklen stride (Some old) (Some out) s = Some (MPI_SUCCESS, Some (Some (dt_next s)), s')"
      "adds_type s (dt_next s) t [old] s'"
      "fresh_type t (mk_envelope MPI_COMBINER_HVECTOR [count, blocklen] [stride] [old])
        (ut_lower_bound oldtype) ext"
      "map entry_pair (type_map_of t) = rev (entries vec_decide [] ?vs)" by blast
  have "tm_bytes (type_map_of t) 0 = visit_bytes ?vs"
    using built_bytes [OF r(4) keeps_bytes_vec] assms(6)
    by (simp add: hvec_visits_bytes [OF assms(5)] length_strided_bytes)
  with r wf_dt_constructed [OF assms(1) r(2,3)] adds_type_new [OF r(2)] assms(3) show ?thesis
    by (auto simp: hvec_visits_bytes [OF assms(5)] fresh_type_def PMPI_Type_hvector_def)
qed

theorem type_hvector_correct_witness:
  "\<exists>t s'. PMPI_Type_hvector 3 2 20 (Some ULM_INT) (Some None) dt_fresh
      = Some (MPI_SUCCESS, Some (Some (dt_next dt_fresh)), s') \<and> dt_heap s' (dt_next dt_fresh) = Some t \<and> wf_dt s'
    \<and> tm_bytes (type_map_of t) 0
        = strided_bytes (type_map_of (basic_type ULM_INT)) (ut_extent (basic_type ULM_INT)) (nat 2) 20 (nat 3)
    \<and> ut_envelope t = mk_envelope MPI_COMBINER_HVECTOR [3, 2] [20] [ULM_INT]"
  by (rule type_hvector_correct [OF wf_dt_fresh_store dt_fresh_allocs dt_fresh_int])
    (simp_all add: int_bytes int_entries hvector_fits_def)



text \<open>\<^verbatim>\<open>MPI_Type_contiguous\<close> of a live type denotes \<^verbatim>\<open>count\<close> consecutive copies of it, although
  the type is built by \<^verbatim>\<open>MPI_Type_vector\<close> first and its envelope exchanged afterwards.\<close>

theorem type_contiguous_correct:
  assumes "wf_dt s" and "dt_allocs s = []" and "dt_heap s old = Some oldtype" and "0 < count"
    and "nat count * length (tm_bytes (type_map_of oldtype) 0) < 2 ^ 64"
    and "int_range count" and "int (nat count * nat 1 * length (type_map_of oldtype)) \<le> 2147483647"
  shows "\<exists>t s'. PMPI_Type_contiguous count (Some old) (Some out) s
      = Some (MPI_SUCCESS, Some (Some (dt_next s)), s') \<and> dt_heap s' (dt_next s) = Some t \<and> wf_dt s'
    \<and> tm_bytes (type_map_of t) 0 = block_bytes (type_map_of oldtype) (ut_extent oldtype) (nat count) 0
    \<and> ut_envelope t = mk_envelope MPI_COMBINER_CONTIGUOUS [count] [] [old]"
proof -
  let ?vs = "vec_visits count 1 1 oldtype (type_map_of oldtype)"
  have "int_range (vec_count ?vs)" using int_range_vec_count(1) [OF assms(7), of 1 oldtype] by simp
  from contiguous_ok [OF assms(1-4) refl assms(6) this, of out] obtain t s' where
    r: "PMPI_Type_contiguous count (Some old) (Some out) s = Some (MPI_SUCCESS, Some (Some (dt_next s)), s')"
      "adds_type s (dt_next s) t [old] s'"
      "fresh_type t (mk_envelope MPI_COMBINER_CONTIGUOUS [count] [] [old])
        (ut_lower_bound oldtype) (word_of_int count * ut_extent oldtype - ut_lower_bound oldtype)"
      "map entry_pair (type_map_of t) = rev (entries vec_decide [] ?vs)" by blast
  have v: "visit_bytes ?vs = block_bytes (type_map_of oldtype) (ut_extent oldtype) (nat count) 0"
    using vec_visits_bytes [of 1 count 1 oldtype "type_map_of oldtype"] by (simp add: strided_single)
  have "tm_bytes (type_map_of t) 0 = visit_bytes ?vs"
    using built_bytes [OF r(4) keeps_bytes_vec] assms(5) by (simp add: v length_block_bytes)
  with r v wf_dt_constructed [OF assms(1) r(2,3)] adds_type_new [OF r(2)] assms(3) show ?thesis
    by (auto simp: fresh_type_def)
qed

theorem type_contiguous_correct_witness:
  "\<exists>t s'. PMPI_Type_contiguous 5 (Some ULM_INT) (Some None) dt_fresh
      = Some (MPI_SUCCESS, Some (Some (dt_next dt_fresh)), s') \<and> dt_heap s' (dt_next dt_fresh) = Some t \<and> wf_dt s'
    \<and> tm_bytes (type_map_of t) 0
        = block_bytes (type_map_of (basic_type ULM_INT)) (ut_extent (basic_type ULM_INT)) (nat 5) 0
    \<and> ut_envelope t = mk_envelope MPI_COMBINER_CONTIGUOUS [5] [] [ULM_INT]"
  by (rule type_contiguous_correct [OF wf_dt_fresh_store dt_fresh_allocs dt_fresh_int])
    (simp_all add: int_bytes int_entries int_range_def)

text \<open>\<^verbatim>\<open>MPI_Type_indexed\<close> denotes the blocks at the given displacements, counted in extents of the
  old type.\<close>

theorem type_indexed_correct:
  assumes "wf_dt s" and "dt_allocs s = []" and "dt_heap s old = Some oldtype" and "0 < count"
    and "length bls = nat count" and "length ds = nat count"
    and "disps = map (\<lambda>d. word_of_int d * ut_extent oldtype) ds"
    and "length (struct_bytes (type_blocks bls disps (replicate (nat count) oldtype))) < 2 ^ 64"
  shows "\<exists>t s'. PMPI_Type_indexed count bls ds (Some old) (Some out) s
      = Some (MPI_SUCCESS, Some (Some (dt_next s)), s') \<and> dt_heap s' (dt_next s) = Some t \<and> wf_dt s'
    \<and> tm_bytes (type_map_of t) 0 = struct_bytes (type_blocks bls disps (replicate (nat count) oldtype))
    \<and> ut_envelope t = mk_envelope MPI_COMBINER_INDEXED (count # bls @ ds) [] [old]"
proof -
  let ?ts = "replicate (nat count) oldtype"
  obtain lb ub where b: "struct_lb_ub bls disps ?ts = (lb, ub)" by fastforce
  let ?vs = "struct_visits (map wf_block (zip bls (zip disps ?ts)))"
  from indexed_ok [OF assms(1-7) b refl, of out] obtain t s' where
    r: "PMPI_Type_indexed count bls ds (Some old) (Some out) s = Some (MPI_SUCCESS, Some (Some (dt_next s)), s')"
      "adds_type s (dt_next s) t [old] s'"
      "fresh_type t (mk_envelope MPI_COMBINER_INDEXED (count # bls @ ds) [] [old]) lb (ub - lb)"
      "map entry_pair (type_map_of t) = rev (entries (struct_decide False lb ub) [] ?vs)" by blast
  have vs: "visit_bytes ?vs = struct_bytes (type_blocks bls disps ?ts)"
    by (simp only: struct_visits_bytes struct_bytes_wf_block)
  have "tm_bytes (type_map_of t) 0 = visit_bytes ?vs"
    using built_bytes [OF r(4) keeps_bytes_struct] assms(8) vs by simp
  with r vs wf_dt_constructed [OF assms(1) r(2,3)] adds_type_new [OF r(2)] assms(3) show ?thesis
    by (auto simp: fresh_type_def)
qed

theorem type_indexed_correct_witness:
  "\<exists>t s'. PMPI_Type_indexed 2 [1, 2] [5, 1] (Some ULM_INT) (Some None) dt_fresh
      = Some (MPI_SUCCESS, Some (Some (dt_next dt_fresh)), s') \<and> dt_heap s' (dt_next dt_fresh) = Some t \<and> wf_dt s'
    \<and> tm_bytes (type_map_of t) 0 = struct_bytes (type_blocks [1, 2] [20, 4] (replicate (nat 2) (basic_type ULM_INT)))
    \<and> ut_envelope t = mk_envelope MPI_COMBINER_INDEXED (2 # [1, 2] @ [5, 1]) [] [ULM_INT]"
proof -
  have l: "length (struct_bytes (type_blocks [1, 2] [20, 4] (replicate (nat 2) (basic_type ULM_INT)))) = 12"
    by code_simp
  have e: "ut_extent (basic_type ULM_INT) = 4" by code_simp
  show ?thesis
    by (rule type_indexed_correct [OF wf_dt_fresh_store dt_fresh_allocs dt_fresh_int])
      (simp_all add: l [simplified] e)
qed

text \<open>\<^verbatim>\<open>MPI_Type_hindexed\<close> denotes the blocks at the given byte displacements, both by way of
  \<^verbatim>\<open>MPI_Type_struct\<close> and by the optimised \<^verbatim>\<open>create_from_basic_type\<close> it uses for predefined types: the two
  agree on the bytes.\<close>

theorem type_hindexed_correct:
  assumes "wf_dt s" and "dt_allocs s = []" and "dt_heap s old = Some oldtype" and "0 < count"
    and "length bls = nat count" and "length disps = nat count" and "list_all (\<lambda>bl. 0 \<le> bl) bls"
    and "ut_isbasic oldtype = 0 \<or> predefined_map oldtype"
    and "length (struct_bytes (type_blocks bls disps (replicate (nat count) oldtype))) < 2 ^ 64"
  shows "\<exists>t s'. PMPI_Type_hindexed count bls disps (Some old) (Some out) s
      = Some (MPI_SUCCESS, Some (Some (dt_next s)), s') \<and> dt_heap s' (dt_next s) = Some t \<and> wf_dt s'
    \<and> tm_bytes (type_map_of t) 0 = struct_bytes (type_blocks bls disps (replicate (nat count) oldtype))
    \<and> ut_envelope t = mk_envelope MPI_COMBINER_HINDEXED (count # bls) disps [old]"
proof (cases "ut_isbasic oldtype = 0")
  case True
  let ?ts = "replicate (nat count) oldtype"
  obtain lb ub where b: "struct_lb_ub bls disps ?ts = (lb, ub)" by fastforce
  let ?vs = "struct_visits (map wf_block (zip bls (zip disps ?ts)))"
  from hindexed_ok [OF assms(1-4) True assms(5,6) b refl, of out] obtain t s' where
    r: "PMPI_Type_create_hindexed count bls disps (Some old) (Some out) s = Some (MPI_SUCCESS, Some (Some (dt_next s)), s')"
      "adds_type s (dt_next s) t [old] s'"
      "fresh_type t (mk_envelope MPI_COMBINER_HINDEXED (count # bls) disps [old]) lb (ub - lb)"
      "map entry_pair (type_map_of t) = rev (entries (struct_decide False lb ub) [] ?vs)" by blast
  have vs: "visit_bytes ?vs = struct_bytes (type_blocks bls disps ?ts)"
    by (simp only: struct_visits_bytes struct_bytes_wf_block)
  have "tm_bytes (type_map_of t) 0 = visit_bytes ?vs"
    using built_bytes [OF r(4) keeps_bytes_struct] assms(9) vs by simp
  with r vs wf_dt_constructed [OF assms(1) r(2,3)] adds_type_new [OF r(2)] assms(3) show ?thesis
    by (auto simp: fresh_type_def PMPI_Type_hindexed_def)
next
  case False
  from hindexed_basic_ok [OF assms(1-4) False assms(5,6), of out] obtain t s' lb ext where
    r: "PMPI_Type_create_hindexed count bls disps (Some old) (Some out) s = Some (MPI_SUCCESS, Some (Some (dt_next s)), s')"
      "adds_type s (dt_next s) t [] s'"
      "fresh_type t (mk_envelope MPI_COMBINER_HINDEXED (count # bls) disps [old]) lb ext"
      "map entry_pair (type_map_of t) = map (\<lambda>(bl, d). (word_of_int bl * ut_extent oldtype, d)) (zip bls disps)"
    by blast
  have "tm_bytes (type_map_of t) 0 = struct_bytes (type_blocks bls disps (replicate (nat count) oldtype))"
    using basic_entries_bytes [OF _ assms(7,9,5,6)] assms(8) False by (simp add: tm_bytes_entry_pair r(4))
  with r wf_dt_constructed [OF assms(1) r(2,3)] adds_type_new [OF r(2)] assms(3) show ?thesis
    by (auto simp: fresh_type_def PMPI_Type_hindexed_def)
qed

theorem type_hindexed_correct_witness:
  "\<exists>t s'. PMPI_Type_hindexed 2 [1, 2] [20, 4] (Some ULM_INT) (Some None) dt_fresh
      = Some (MPI_SUCCESS, Some (Some (dt_next dt_fresh)), s') \<and> dt_heap s' (dt_next dt_fresh) = Some t \<and> wf_dt s'
    \<and> tm_bytes (type_map_of t) 0 = struct_bytes (type_blocks [1, 2] [20, 4] (replicate (nat 2) (basic_type ULM_INT)))
    \<and> ut_envelope t = mk_envelope MPI_COMBINER_HINDEXED (2 # [1, 2]) [20, 4] [ULM_INT]"
proof -
  have l: "length (struct_bytes (type_blocks [1, 2] [20, 4] (replicate (nat 2) (basic_type ULM_INT)))) = 12"
    by code_simp
  have "predefined_map (basic_type ULM_INT)" by code_simp
  then show ?thesis
    by (intro type_hindexed_correct [OF wf_dt_fresh_store dt_fresh_allocs dt_fresh_int]) (simp_all add: l [simplified])
qed

end
