(* ===== verification/Datatype_Life.thy ===== *)
theory Datatype_Life
  imports Datatype_Props
begin

section \<open>Properties of the life of a datatype\<close>

text \<open>Release, commit and inquiry: reference counts over whole call sequences, packed sizes and offsets, the
  contents of envelopes, and the cases in which the code does not do what it should.\<close>

subsection \<open>Retaining types\<close>

definition derived :: "dt_state \<Rightarrow> nat \<Rightarrow> bool" where
  "derived s d \<longleftrightarrow> (case dt_heap s d of None \<Rightarrow> False | Some t \<Rightarrow> ut_isbasic t = 0)"

lemma derived_bump [simp]: "derived (s\<lparr>dt_heap := bump k ds (dt_heap s)\<rparr>) d = derived s d"
  by (auto simp: derived_def bump_def split: option.split)

lemma retain_ok:
  assumes "rc_inv s {} hs" and "dt_heap s d \<noteq> None"
  shows "\<exists>s'. retain_if_derived s d = Some s' \<and> rc_inv s' {} (hs(d := hs d + (if derived s d then 1 else 0)))
    \<and> (\<forall>x. dt_heap s' x = None \<longleftrightarrow> dt_heap s x = None) \<and> (\<forall>x. derived s' x = derived s x) \<and> dt_junk s' = dt_junk s"
proof -
  obtain t where t: "dt_heap s d = Some t" using assms(2) by auto
  show ?thesis
  proof (cases "ut_isbasic t = 0")
    case True
    have "rc_inv (s\<lparr>dt_heap := bump 1 [d] (dt_heap s)\<rparr>) {} (hs(d := hs d + 1))"
      by (rule rc_inv_adjust [OF assms(1) t True]) auto
    then show ?thesis using t True
      by (auto simp: retain_if_derived_def add_ref_bump derived_def bump_def split: option.split)
  next
    case False
    then show ?thesis using t assms(1) by (auto simp: retain_if_derived_def derived_def)
  qed
qed

lemma foldM_retain_ok:
  assumes "rc_inv s {} hs" and "\<forall>d \<in> set ds. dt_heap s d \<noteq> None"
  shows "\<exists>s'. foldM retain_if_derived s ds = Some s'
    \<and> rc_inv s' {} (\<lambda>x. hs x + (if derived s x then count_list ds x else 0)) \<and> dt_junk s' = dt_junk s"
  using assms
proof (induction ds arbitrary: s hs)
  case Nil
  then show ?case by (simp cong: if_cong)
next
  case (Cons d ds)
  let ?hs = "hs(d := hs d + (if derived s d then 1 else 0))"
  from retain_ok [OF Cons.prems(1), of d] Cons.prems(2) obtain s1 where
    s1: "retain_if_derived s d = Some s1" "rc_inv s1 {} ?hs" "\<forall>x. dt_heap s1 x = None \<longleftrightarrow> dt_heap s x = None"
      "\<forall>x. derived s1 x = derived s x" "dt_junk s1 = dt_junk s" by auto
  from Cons.IH [OF s1(2)] s1(3) Cons.prems(2) obtain s2 where
    s2: "foldM retain_if_derived s1 ds = Some s2" "dt_junk s2 = dt_junk s1"
      "rc_inv s2 {} (\<lambda>x. ?hs x + (if derived s1 x then count_list ds x else 0))" by auto
  have "(\<lambda>x. ?hs x + (if derived s1 x then count_list ds x else 0))
      = (\<lambda>x. hs x + (if derived s x then count_list (d # ds) x else 0))"
    using s1(4) by (auto simp: fun_eq_iff)
  with s1 s2 show ?case by simp
qed

lemma copy_padded_exact:
  "length dst = length xs \<Longrightarrow> copy_padded z (int (length xs)) (null_if_empty xs) (int (length xs)) dst = Some xs"
  by (auto simp: copy_padded_def null_if_empty_def)

lemma map_null_if_empty: "map_option (map f) (null_if_empty xs) = null_if_empty (map f xs)"
  by (simp add: null_if_empty_def)

subsection \<open>Sizes cut to 32 bits\<close>

lemma take_bit_add_low: "take_bit 32 (take_bit 64 x + take_bit 64 y) = take_bit 32 (x + y :: int)"
proof -
  have "take_bit 32 (take_bit 32 (take_bit 64 x) + take_bit 32 (take_bit 64 y)) = take_bit 32 (x + y)"
    by (simp add: take_bit_take_bit) (simp only: take_bit_add)
  then show ?thesis by (simp only: take_bit_add)
qed

lemma ucast_add_low: "(ucast (x + y :: size_t) :: 32 word) = ucast x + ucast y"
  by transfer (simp add: take_bit_add_low)

lemma ucast_of_c_int: "(ucast (scast (z :: 32 word) :: size_t) :: 32 word) = z"
  by transfer (simp add: take_bit_signed_take_bit)

lemma to_c_int_add: "to_c_int (word_of_int (to_c_int x) + y) = to_c_int (x + y)"
  by (simp add: to_c_int_def ucast_add_low ucast_of_c_int)

lemma size_loop: "foldl size_step (to_c_int x) tm = to_c_int (x + tm_sum tm)"
proof (induction tm arbitrary: x)
  case (Cons e tm)
  from Cons [of "x + tm_size e"] show ?case by (simp add: size_step_def to_c_int_add add.assoc)
qed simp

lemma size_loop_0: "foldl size_step 0 tm = to_c_int (tm_sum tm)"
  using size_loop [of 0 tm] by (simp add: to_c_int_def)



subsection \<open>Properties\<close>






text \<open>A state with one derived type, for the witnesses.\<close>

definition one_type :: dt_state where
  "one_type = (case PMPI_Type_vector 2 1 3 (Some ULM_INT) (Some None) dt_fresh of
     Some (rc, out, s) \<Rightarrow> s | None \<Rightarrow> dt_fresh)"

lemma one_type_inv: "dt_inv one_type ((\<lambda>_. 0)(34 := 1))"
proof -
  have "dt_legal (CVector 2 1 3 ULM_INT) dt_fresh (\<lambda>_. 0)" by code_simp
  moreover have "dt_inv dt_fresh (\<lambda>_. 0)"
    by (rule dt_inv_init(1) [OF dt_fresh_init]) (simp add: wild_type_def)
  ultimately have "step_ok (dt_exec (CVector 2 1 3 ULM_INT) dt_fresh (\<lambda>_. 0))"
    using dt_fresh_allocs by (intro step_ok_exec)
  moreover have "map_option fst (PMPI_Type_vector 2 1 3 (Some ULM_INT) (Some None) dt_fresh) = Some MPI_SUCCESS"
    "map_option (fst \<circ> snd) (PMPI_Type_vector 2 1 3 (Some ULM_INT) (Some None) dt_fresh) = Some (Some (Some 34))"
    by code_simp+
  ultimately show ?thesis by (auto simp: step_ok_def new_handle_def one_type_def)
qed


text \<open>C24: committing an uncommitted, non-contiguous type returns success, leaves the data its type map
  denotes unchanged, makes the packed size the sum of the entry sizes and the packed-buffer offset of entry
  \<open>i\<close> the sum of the sizes before it; a second commit changes nothing.\<close>

theorem type_commit_correct:
  assumes "wf_dt s" and "dt_heap s a = Some t" and "ut_committed t = 0" and "ut_layout t = NON_CONTIGUOUS"
  shows "\<exists>s' u. PMPI_Type_commit (Some a) s = Some (MPI_SUCCESS, s') \<and> dt_heap s' a = Some u
    \<and> map entry_pair (type_map_of u) = map entry_pair (type_map_of t)
    \<and> ut_packed_size u = tm_sum (type_map_of t)
    \<and> (\<forall>i < length (type_map_of t). tm_seq_offset (type_map_of u ! i) = tm_sum (take i (type_map_of t)))
    \<and> ut_committed u = 1 \<and> PMPI_Type_commit (Some a) s' = Some (MPI_SUCCESS, s')"
proof -
  let ?u = "committed_type t" and ?s = "s\<lparr>dt_heap := (dt_heap s)(a \<mapsto> committed_type t)\<rparr>"
  have wf: "wf_map t" using wf_dtD(2) [OF assms(1,2)] .
  have tm: "type_map_of ?u = (if ut_num_pairs t > 0 then fst (commit_loop 0 (type_map_of t)) else [])"
    using assms(3,4) type_map_of_empty [OF wf] by (auto simp: committed_type_def type_map_of_def Let_def)
  have "map entry_pair (type_map_of ?u) = map entry_pair (type_map_of t)"
    using tm type_map_of_empty [OF wf] commit_loop_entries by auto
  moreover have "\<forall>i < length (type_map_of t). tm_seq_offset (type_map_of ?u ! i) = tm_sum (take i (type_map_of t))"
    using tm type_map_of_empty [OF wf] commit_loop_seq [of _ "type_map_of t" 0] by auto
  moreover have "ut_packed_size ?u = tm_sum (type_map_of t)" "ut_committed ?u = 1"
    using assms(3,4) by (simp_all add: committed_type_def Let_def)
  moreover have "committed_type ?u = ?u" by (simp add: committed_type_keeps(8) committed_type_def [of ?u])
  then have "PMPI_Type_commit (Some a) ?s = Some (MPI_SUCCESS, ?s)"
    using commit_ok [of ?s a ?u] committed_type_wf [OF wf] by simp
  ultimately show ?thesis using commit_ok [OF assms(2) wf] by auto
qed

lemma one_type_34: "\<exists>t. dt_heap one_type 34 = Some t \<and> ut_committed t = 0 \<and> ut_layout t = NON_CONTIGUOUS
   \<and> 0 < ut_num_pairs t \<and> ut_envelope t = mk_envelope MPI_COMBINER_VECTOR [2, 1, 3] [] [ULM_INT]"
proof -
  have "map_option (\<lambda>t. (ut_committed t, ut_layout t, ut_num_pairs t, ut_envelope t)) (dt_heap one_type 34) =
    Some (0, NON_CONTIGUOUS, 2, mk_envelope MPI_COMBINER_VECTOR [2, 1, 3] [] [ULM_INT])"
    by code_simp
  then show ?thesis by auto
qed

theorem type_commit_correct_witness:
  "\<exists>t s' u. dt_heap one_type 34 = Some t \<and> PMPI_Type_commit (Some 34) one_type = Some (MPI_SUCCESS, s')
    \<and> dt_heap s' 34 = Some u
    \<and> map entry_pair (type_map_of u) = map entry_pair (type_map_of t) \<and> ut_packed_size u = tm_sum (type_map_of t)
    \<and> (\<forall>i < length (type_map_of t). tm_seq_offset (type_map_of u ! i) = tm_sum (take i (type_map_of t)))
    \<and> ut_committed u = 1 \<and> PMPI_Type_commit (Some 34) s' = Some (MPI_SUCCESS, s')"
  using one_type_34 type_commit_correct [OF dt_inv_wf [OF one_type_inv], of 34] by metis

text \<open>The size \<^verbatim>\<open>MPI_Type_size\<close> reports is the sum of the entry sizes (cut to a C \<^verbatim>\<open>int\<close>) and does not
  change when the type is committed, for every non-contiguous type with a non-empty type map.\<close>

theorem type_size_commit:
  assumes "wf_dt s" and "dt_heap s a = Some t" and "ut_committed t = 0" and "ut_layout t = NON_CONTIGUOUS"
    and "0 < ut_num_pairs t"
  shows "PMPI_Type_size (Some a) s = Some (MPI_SUCCESS, Some (to_c_int (tm_sum (type_map_of t))), s)
    \<and> (\<exists>s'. PMPI_Type_commit (Some a) s = Some (MPI_SUCCESS, s')
        \<and> PMPI_Type_size (Some a) s' = Some (MPI_SUCCESS, Some (to_c_int (tm_sum (type_map_of t))), s'))"
proof -
  have wf: "wf_map t" using wf_dtD(2) [OF assms(1,2)] .
  have "ut_packed_size (committed_type t) = tm_sum (type_map_of t)"
    using assms(3,4) by (simp add: committed_type_def Let_def)
  with assms wf commit_ok [OF assms(2) wf] show ?thesis
    by (auto simp: PMPI_Type_size_def type_pairs_wf size_loop_0 committed_type_keeps)
qed

theorem type_size_commit_witness:
  "\<exists>t. dt_heap one_type 34 = Some t
    \<and> PMPI_Type_size (Some 34) one_type = Some (MPI_SUCCESS, Some (to_c_int (tm_sum (type_map_of t))), one_type)
    \<and> (\<exists>s'. PMPI_Type_commit (Some 34) one_type = Some (MPI_SUCCESS, s')
        \<and> PMPI_Type_size (Some 34) s' = Some (MPI_SUCCESS, Some (to_c_int (tm_sum (type_map_of t))), s'))"
  using one_type_34 type_size_commit [OF dt_inv_wf [OF one_type_inv], of 34] by blast

text \<open>For an empty type map the size does change: \<^verbatim>\<open>MPI_Type_size\<close> returns the extent of an uncommitted
  vector of empty blocks (16 bytes for three empty blocks, two integers apart) and 0 once it is committed.\<close>

theorem type_size_empty_vector:
  "(do { (rc, out, s) \<leftarrow> PMPI_Type_vector 3 0 2 (Some ULM_INT) (Some None) dt_fresh;
         (rc1, sz1, s1) \<leftarrow> PMPI_Type_size (Some 34) s;
         (rc2, s2) \<leftarrow> PMPI_Type_commit (Some 34) s1;
         (rc3, sz3, s3) \<leftarrow> PMPI_Type_size (Some 34) s2;
         Some (rc, sz1, sz3) }) = Some (MPI_SUCCESS, Some 16, Some 0)"
  by code_simp

text \<open>\<^verbatim>\<open>MPI_Type_vector\<close> leaves \<^verbatim>\<open>type_map\<close> uninitialised when the type map is empty, so freeing a vector
  of empty blocks passes a wild pointer to \<^verbatim>\<open>free\<close>.\<close>

theorem type_free_empty_vector_undefined:
  "(do { (rc, out, s) \<leftarrow> PMPI_Type_vector 3 0 2 (Some ULM_INT) (Some None) dt_fresh; Some (rc, out) })
      = Some (MPI_SUCCESS, Some (Some 34))
   \<and> (do { (rc, out, s) \<leftarrow> PMPI_Type_vector 3 0 2 (Some ULM_INT) (Some None) dt_fresh;
           (rc1, out1, s1) \<leftarrow> PMPI_Type_free out s; Some (rc, rc1) }) = None"
  by code_simp

lemma contents_of_envelope:
  assumes "dt_inv s hs" and "dt_heap s a = Some t" and "ut_envelope t = mk_envelope c ints addrs ds"
    and "c \<noteq> MPI_COMBINER_NAMED"
    and "length bi = length ints" and "length ba = length addrs" and "length bd = length ds"
  shows "PMPI_Type_get_envelope (Some a) s
      = Some (MPI_SUCCESS, int (length ints), int (length addrs), int (length ds), c)
    \<and> (\<exists>s'. PMPI_Type_get_contents (Some a) (int (length ints)) (int (length addrs)) (int (length ds)) bi ba bd s
        = Some (MPI_SUCCESS, ints, addrs, map Some ds, s')
        \<and> dt_inv s' (\<lambda>x. hs x + (if derived s x then count_list ds x else 0)))"
proof -
  have rc: "rc_inv s {} hs" using assms(1) by (simp add: dt_inv_def)
  have "\<forall>d \<in> set ds. dt_heap s d \<noteq> None" using darray_live [OF rc assms(2)] assms(3) by simp
  from foldM_retain_ok [OF rc this] obtain s' where
    s': "foldM retain_if_derived s ds = Some s'" "dt_junk s' = dt_junk s"
      "rc_inv s' {} (\<lambda>x. hs x + (if derived s x then count_list ds x else 0))" by blast
  have e: "env_combiner (mk_envelope c ints addrs ds) = c" "env_nints (mk_envelope c ints addrs ds) = int (length ints)"
    "env_naddrs (mk_envelope c ints addrs ds) = int (length addrs)"
    "env_ndatatypes (mk_envelope c ints addrs ds) = int (length ds)"
    "env_iarray (mk_envelope c ints addrs ds) = null_if_empty ints"
    "env_aarray (mk_envelope c ints addrs ds) = null_if_empty addrs"
    "env_darray (mk_envelope c ints addrs ds) = null_if_empty ds"
    by (simp_all add: mk_envelope_def)
  have "copy_padded None (int (length ds)) (map_option (map Some) (null_if_empty ds)) (int (length ds)) bd = Some (map Some ds)"
    using copy_padded_exact [of bd "map Some ds" None] assms(7) by (simp add: map_null_if_empty)
  with assms s' show ?thesis
    by (simp add: PMPI_Type_get_envelope_def PMPI_Type_get_contents_def e copy_padded_exact dt_inv_def Let_def)
qed

text \<open>C25: the arguments of a constructor call come back. After any legal constructor call (\<open>dt_legal\<close>) of \<^verbatim>\<open>MPI_Type_vector\<close>,
  \<^verbatim>\<open>contiguous\<close>, \<^verbatim>\<open>hvector\<close>, \<^verbatim>\<open>struct\<close>, \<^verbatim>\<open>indexed\<close> or \<^verbatim>\<open>hindexed\<close>, when no allocation fails, \<^verbatim>\<open>MPI_Type_get_envelope\<close> of the new
  handle gives the numbers of its integer, address and type arguments and the combiner of the constructor, and
  \<^verbatim>\<open>MPI_Type_get_contents\<close> with buffers of these sizes gives the arguments themselves (\<open>call_args\<close>), in order; the new
  handles to derived types are counted as references.\<close>

theorem type_contents_roundtrip:
  assumes "dt_inv s hs" and "dt_allocs s = []" and "dt_legal c s hs" and "call_args c = Some (comb, ints, addrs, ds)"
    and "length bi = length ints" and "length ba = length addrs" and "length bd = length ds"
  shows "\<exists>a s1 s2. dt_exec c s hs = Some (MPI_SUCCESS, s1, hs(a := 1))
    \<and> PMPI_Type_get_envelope (Some a) s1
      = Some (MPI_SUCCESS, int (length ints), int (length addrs), int (length ds), comb)
    \<and> PMPI_Type_get_contents (Some a) (int (length ints)) (int (length addrs)) (int (length ds)) bi ba bd s1
      = Some (MPI_SUCCESS, ints, addrs, map Some ds, s2)
    \<and> dt_inv s2 (\<lambda>x. (hs(a := 1)) x + (if derived s1 x then count_list ds x else 0))"
proof -
  from made_exec [OF assms(1-4)] obtain s1 a t where
    m: "dt_exec c s hs = Some (MPI_SUCCESS, s1, hs(a := 1))" "dt_inv s1 (hs(a := 1))" "dt_heap s1 a = Some t"
      "ut_envelope t = mk_envelope comb ints addrs ds" by (auto simp: made_def)
  have "comb \<noteq> MPI_COMBINER_NAMED" using assms(4) by (cases c) auto
  from contents_of_envelope [OF m(2-4) this assms(5-7)] m(1) show ?thesis by blast
qed

theorem type_contents_roundtrip_witness:
  "\<exists>a s1 s2. dt_exec (CIndexed 2 [1, 2] [4, 0] 34) one_type ((\<lambda>_. 0)(34 := 1))
      = Some (MPI_SUCCESS, s1, ((\<lambda>_. 0)(34 := 1))(a := 1))
    \<and> PMPI_Type_get_envelope (Some a) s1 = Some (MPI_SUCCESS, 5, 0, 1, MPI_COMBINER_INDEXED)
    \<and> PMPI_Type_get_contents (Some a) 5 0 1 [0, 0, 0, 0, 0] [] [None] s1
      = Some (MPI_SUCCESS, [2, 1, 2, 4, 0], [], [Some 34], s2)"
proof -
  have "dt_legal (CIndexed 2 [1, 2] [4, 0] 34) one_type ((\<lambda>_. 0)(34 := 1))" by code_simp
  moreover have "map_option dt_allocs (Some one_type) = Some []" by code_simp
  then have "dt_allocs one_type = []" by simp
  ultimately show ?thesis
    using type_contents_roundtrip [OF one_type_inv, of "CIndexed 2 [1, 2] [4, 0] 34" MPI_COMBINER_INDEXED "[2, 1, 2, 4, 0]" "[]" "[34]"
        "[0, 0, 0, 0, 0]" "[]" "[None]"] by (simp del: dt_exec.simps dt_legal.simps) blast
qed

text \<open>The extent the vector constructors compute subtracts the lower bound of the old type once, so it is
  too small when that bound is positive: two contiguous copies of a type with the bytes 4 to 7 have the bytes
  4 to 11, but extent 4 and upper bound 8.\<close>

theorem type_contiguous_extent_short:
  "(do { (rc1, out1, s1) \<leftarrow> PMPI_Type_struct 1 [1] [4] [Some ULM_INT] (Some None) dt_fresh;
         old \<leftarrow> out1;
         (rc2, out2, s2) \<leftarrow> PMPI_Type_contiguous 2 old (Some None) s1;
         t \<leftarrow> out2;
         (_, ext, _) \<leftarrow> PMPI_Type_extent t s2;
         (_, ub, _) \<leftarrow> PMPI_Type_ub t s2;
         a \<leftarrow> t;
         u \<leftarrow> dt_heap s2 a;
         Some (rc1, rc2, ext, ub, tm_bytes (type_map_of u) 0) })
   = Some (MPI_SUCCESS, MPI_SUCCESS, Some 4, Some 8, [4, 5, 6, 7, 8, 9, 10, 11])"
  by code_simp

end
