(* ===== verification/Comm.thy ===== *)
theory Comm
  imports Lampi_Prelude
begin

section \<open>The communicator table and the error handler\<close>

text \<open>
  The part of the global state the topology functions use: the array \<^verbatim>\<open>communicators[]\<close> of
  \<^verbatim>\<open>queue/globals.h\<close> (an entry is the null pointer or a communicator with its group size, its rank and its
  topology), the flags of \<^verbatim>\<open>_mpi\<close>, the outcome of the coming allocations and a record of the calls made
  to \<^verbatim>\<open>_mpi_errhandler\<close>.

  The communicator layer behind \<^verbatim>\<open>MPI_Comm_group\<close>, \<^verbatim>\<open>MPI_Group_range_incl\<close>, \<^verbatim>\<open>MPI_Comm_create\<close>,
  \<^verbatim>\<open>MPI_Group_free\<close>, \<^verbatim>\<open>MPI_Comm_split\<close> and \<^verbatim>\<open>MPI_Comm_free\<close> communicates between processes; it is
  a parameter (\<open>comm_ops\<close>) of the definitions that call it.
\<close>

record cart =
  cart_nnodes :: int
  cart_ndims :: int
  cart_dims :: "int list"
  cart_periods :: "int list"
  cart_position :: "int list"

record graph =
  graph_nnodes :: int
  graph_nedges :: int
  graph_index :: "int list"
  graph_edges :: "int list"

text \<open>The union \<^verbatim>\<open>ULMTopology_t\<close>, by its \<^verbatim>\<open>type\<close> field.\<close>

datatype topology = Cart cart | Graph graph | OtherTopology int

record comm =
  cm_size :: int
  cm_rank :: int
  cm_remote_size :: int
  cm_topology :: "topology option"

record mpi_state =
  ms_comms :: "comm option list"
  ms_check_args :: bool
  ms_finalized :: bool
  ms_allocs :: "bool list"
  ms_errs :: "(int \<times> int) list"

abbreviation (input) MPI_COMM_NULL :: int where "MPI_COMM_NULL \<equiv> - 1"

record comm_ops =
  op_comm_group :: "int \<Rightarrow> mpi_state \<Rightarrow> int \<times> int \<times> mpi_state"
  op_group_range_incl :: "int \<Rightarrow> int \<times> int \<times> int \<Rightarrow> mpi_state \<Rightarrow> int \<times> int \<times> mpi_state"
  op_comm_create :: "int \<Rightarrow> int \<Rightarrow> mpi_state \<Rightarrow> int \<times> int \<times> mpi_state"
  op_group_free :: "int \<Rightarrow> mpi_state \<Rightarrow> int \<times> mpi_state"
  op_comm_split :: "int \<Rightarrow> int \<Rightarrow> int \<Rightarrow> mpi_state \<Rightarrow> int \<times> int \<times> mpi_state"
  op_comm_free :: "int \<Rightarrow> mpi_state \<Rightarrow> int \<times> int \<times> mpi_state"

subsection \<open>Access to the table\<close>

text \<open>\<^verbatim>\<open>communicators[comm]\<close>, which must not be the null pointer.\<close>

definition get_comm :: "mpi_state \<Rightarrow> int \<Rightarrow> comm option" where
  "get_comm s comm = Option.bind (arr_get (ms_comms s) comm) (\<lambda>c. c)"

definition upd_comm :: "int \<Rightarrow> (comm \<Rightarrow> comm) \<Rightarrow> mpi_state \<Rightarrow> mpi_state option" where
  "upd_comm comm f s = do {
     c \<leftarrow> get_comm s comm;
     cs \<leftarrow> arr_set (ms_comms s) comm (Some (f c));
     Some (s\<lparr>ms_comms := cs\<rparr>)
   }"

definition mpi_errhandler :: "int \<Rightarrow> int \<Rightarrow> mpi_state \<Rightarrow> mpi_state" where
  "mpi_errhandler comm rc s = (if ms_finalized s then s else s\<lparr>ms_errs := ms_errs s @ [(comm, rc)]\<rparr>)"

definition ms_malloc :: "mpi_state \<Rightarrow> bool \<times> mpi_state" where
  "ms_malloc s = (case ms_allocs s of [] \<Rightarrow> (True, s) | b # bs \<Rightarrow> (b, s\<lparr>ms_allocs := bs\<rparr>))"

text \<open>The end of most functions: call the error handler when the code is not success.\<close>

definition finish :: "int \<Rightarrow> int \<Rightarrow> mpi_state \<Rightarrow> mpi_state" where
  "finish comm rc s = (if rc \<noteq> MPI_SUCCESS then mpi_errhandler comm rc s else s)"

text \<open>\<^verbatim>\<open>_mpi_error\<close>: translation of \<^verbatim>\<open>ULM_*\<close> into \<^verbatim>\<open>MPI_*\<close> codes.\<close>

definition error_table :: "(int \<times> int) list" where
  "error_table = [(0, MPI_SUCCESS), (- 2, MPI_ERR_NO_MEM), (- 3, MPI_ERR_OTHER), (- 4, MPI_ERR_OTHER),
     (- 5, MPI_ERR_ARG), (- 6, MPI_SUCCESS), (- 7, MPI_ERR_TRUNCATE), (- 8, MPI_ERR_PENDING),
     (- 9, MPI_ERR_INTERN), (- 10, MPI_ERR_BUFFER), (- 11, MPI_ERR_COMM), (- 12, MPI_ERR_RANK),
     (- 13, MPI_ERR_REQUEST)]"

definition mpi_error :: "int \<Rightarrow> int" where
  "mpi_error ulm_error =
     (if ulm_error > 0 then ulm_error
      else case map_of error_table ulm_error of Some e \<Rightarrow> e | None \<Rightarrow> MPI_ERR_UNKNOWN)"

text \<open>\<^verbatim>\<open>ulm_get_topology\<close> guards its access with \<^verbatim>\<open>comm > communicatorsArrayLen\<close>.\<close>

definition ulm_get_topology :: "int \<Rightarrow> mpi_state \<Rightarrow> (int \<times> topology option) option" where
  "ulm_get_topology comm s =
     (if comm < 0 \<or> comm > int (length (ms_comms s)) then Some (ULM_ERROR, None)
      else do {
        c \<leftarrow> arr_get (ms_comms s) comm;
        (case c of None \<Rightarrow> Some (ULM_ERROR, None) | Some cm \<Rightarrow> Some (ULM_SUCCESS, cm_topology cm))
      })"

definition ulm_set_topology :: "int \<Rightarrow> topology \<Rightarrow> mpi_state \<Rightarrow> (int \<times> mpi_state) option" where
  "ulm_set_topology comm topology s =
     map_option (Pair ULM_SUCCESS) (upd_comm comm (\<lambda>c. c\<lparr>cm_topology := Some topology\<rparr>) s)"

definition ulm_comm_size :: "int \<Rightarrow> mpi_state \<Rightarrow> (int \<times> int) option" where
  "ulm_comm_size comm s = map_option (\<lambda>c. (MPI_SUCCESS, cm_size c)) (get_comm s comm)"

definition ulm_comm_rank :: "int \<Rightarrow> mpi_state \<Rightarrow> (int \<times> int) option" where
  "ulm_comm_rank comm s = map_option (\<lambda>c. (MPI_SUCCESS, cm_rank c)) (get_comm s comm)"

definition PMPI_Comm_size :: "int \<Rightarrow> mpi_state \<Rightarrow> (int \<times> int \<times> mpi_state) option" where
  "PMPI_Comm_size comm s = do {
     (urc, n) \<leftarrow> ulm_comm_size comm s;
     let rc = (if urc = ULM_SUCCESS then MPI_SUCCESS else mpi_error urc);
     Some (rc, n, finish comm rc s)
   }"

definition PMPI_Comm_rank :: "int \<Rightarrow> mpi_state \<Rightarrow> (int \<times> int \<times> mpi_state) option" where
  "PMPI_Comm_rank comm s = do {
     (urc, r) \<leftarrow> ulm_comm_rank comm s;
     let rc = (if urc = ULM_SUCCESS then MPI_SUCCESS else mpi_error urc);
     Some (rc, r, finish comm rc s)
   }"

text \<open>\<^verbatim>\<open>ulm_check.cc\<close>\<close>

definition ulm_invalid_comm :: "int \<Rightarrow> mpi_state \<Rightarrow> bool option" where
  "ulm_invalid_comm comm s =
     (if comm < MPI_COMM_WORLD then Some True
      else map_option (\<lambda>c. c = None) (arr_get (ms_comms s) comm))"

definition ulm_invalid_destination :: "int \<Rightarrow> int \<Rightarrow> mpi_state \<Rightarrow> bool option" where
  "ulm_invalid_destination comm rank s =
     map_option (\<lambda>c. (rank < 0 \<or> rank \<ge> cm_remote_size c) \<and> rank \<noteq> MPI_PROC_NULL) (get_comm s comm)"

definition ulm_invalid_source :: "int \<Rightarrow> int \<Rightarrow> mpi_state \<Rightarrow> bool option" where
  "ulm_invalid_source comm rank s =
     map_option (\<lambda>c. (rank < - 3 \<or> rank \<ge> cm_remote_size c) \<and> rank \<noteq> MPI_PROC_NULL) (get_comm s comm)"

subsection \<open>Facts about the accessors\<close>

lemma get_comm_Some:
  "get_comm s comm = Some c \<longleftrightarrow> 0 \<le> comm \<and> comm < int (length (ms_comms s)) \<and> ms_comms s ! nat comm = Some c"
  by (auto simp: get_comm_def arr_get_def)

lemma get_topology_ok [simp]:
  "get_comm s comm = Some c \<Longrightarrow> ulm_get_topology comm s = Some (ULM_SUCCESS, cm_topology c)"
  by (auto simp: ulm_get_topology_def get_comm_Some arr_get_def)

lemma comm_size_ok [simp]: "get_comm s comm = Some c \<Longrightarrow> PMPI_Comm_size comm s = Some (MPI_SUCCESS, cm_size c, s)"
  by (simp add: PMPI_Comm_size_def ulm_comm_size_def finish_def)

lemma comm_rank_ok [simp]: "get_comm s comm = Some c \<Longrightarrow> PMPI_Comm_rank comm s = Some (MPI_SUCCESS, cm_rank c, s)"
  by (simp add: PMPI_Comm_rank_def ulm_comm_rank_def finish_def)

lemma upd_comm_ok:
  assumes "get_comm s comm = Some c"
  shows "upd_comm comm f s = Some (s\<lparr>ms_comms := (ms_comms s)[nat comm := Some (f c)]\<rparr>)"
  using assms by (simp add: upd_comm_def) (simp add: get_comm_Some arr_set_def)

lemma get_comm_upd:
  assumes "get_comm s comm = Some c"
  shows "get_comm (s\<lparr>ms_comms := (ms_comms s)[nat comm := Some c']\<rparr>) comm = Some c'"
  using assms by (simp add: get_comm_Some nat_less_iff)

end
