(* ===== verification/Topology.thy ===== *)
theory Topology
  imports Comm
begin

section \<open>Process topologies\<close>

text \<open>
  \<^verbatim>\<open>mpi_cart_*.c\<close>, \<^verbatim>\<open>mpi_graph_*.c\<close> and \<^verbatim>\<open>mpi_topo_test.c\<close>. An output pointer is \<open>None\<close> when it is null and
  \<open>Some v\<close> for a variable or array with contents \<open>v\<close>; its final contents are part of the result.
\<close>

subsection \<open>Cartesian topologies\<close>

text \<open>The product of the dimensions, as the loops compute it.\<close>

definition dims_product :: "int list \<Rightarrow> int" where
  "dims_product ds = foldl (*) 1 ds"

text \<open>The loop that splits a rank into coordinates (\<^verbatim>\<open>MPI_Cart_create\<close>, \<^verbatim>\<open>MPI_Cart_coords\<close>, \<^verbatim>\<open>MPI_Cart_sub\<close>):
  \<^verbatim>\<open>factor /= dims[i]; coords[i] = rank / factor; rank = rank % factor\<close>.\<close>

fun split_rank :: "int list \<Rightarrow> int \<Rightarrow> int \<Rightarrow> int list option" where
  "split_rank [] factor rank = Some []"
| "split_rank (d # ds) factor rank =
     (if d = 0 then None
      else (let factor' = factor sdiv d in
            if factor' = 0 then None
            else map_option ((#) (rank sdiv factor')) (split_rank ds factor' (rank smod factor'))))"

text \<open>The loop of \<^verbatim>\<open>MPI_Cart_rank\<close>, from the last dimension to the first.\<close>

fun cart_rank_loop :: "cart \<Rightarrow> int list \<Rightarrow> nat \<Rightarrow> int \<Rightarrow> int \<Rightarrow> (int \<times> int) option" where
  "cart_rank_loop c coords 0 rank factor = Some (MPI_SUCCESS, rank)"
| "cart_rank_loop c coords (Suc i) rank factor = do {
     coord \<leftarrow> arr_get coords (int i);
     sz \<leftarrow> arr_get (cart_dims c) (int i);
     period \<leftarrow> arr_get (cart_periods c) (int i);
     (if period \<noteq> 0 then
        if sz = 0 then None
        else (let r = coord smod sz; coord' = (if r < 0 then r + sz else r)
              in cart_rank_loop c coords i (rank + coord' * factor) (factor * sz))
      else if coord < 0 \<or> coord > sz then
        if coord = MPI_PROC_NULL then Some (MPI_SUCCESS, MPI_PROC_NULL) else Some (MPI_ERR_DIMS, rank)
      else cart_rank_loop c coords i (rank + coord * factor) (factor * sz))
   }"

text \<open>The lookup the Cartesian functions start with: the topology, or the error code.\<close>

definition get_cart :: "int \<Rightarrow> mpi_state \<Rightarrow> (int + cart) option" where
  "get_cart comm s = do {
     (rc, topology) \<leftarrow> ulm_get_topology comm s;
     Some (if rc \<noteq> ULM_SUCCESS then Inl MPI_ERR_COMM
           else case topology of Some (Cart c) \<Rightarrow> Inr c | _ \<Rightarrow> Inl MPI_ERR_TOPOLOGY)
   }"

definition PMPI_Cart_rank :: "int \<Rightarrow> int list option \<Rightarrow> int option \<Rightarrow> mpi_state \<Rightarrow>
    (int \<times> int option \<times> mpi_state) option" where
  "PMPI_Cart_rank comm coords rank s =
     (if coords = None \<or> rank = None then Some (MPI_ERR_ARG, rank, finish comm MPI_ERR_ARG s)
      else do {
        xs \<leftarrow> coords;
        t \<leftarrow> get_cart comm s;
        (case t of
           Inl rc \<Rightarrow> Some (rc, rank, finish comm rc s)
         | Inr c \<Rightarrow> do {
             (rc, r) \<leftarrow> cart_rank_loop c xs (nat (cart_ndims c)) 0 1;
             Some (rc, Some r, finish comm rc s)
           })
      })"

text \<open>Writing \<open>xs\<close> to the front of a caller's array.\<close>

definition write_front :: "'a list \<Rightarrow> 'a list \<Rightarrow> 'a list option" where
  "write_front xs dst = (if length xs \<le> length dst then Some (xs @ drop (length xs) dst) else None)"

definition PMPI_Cart_coords :: "int \<Rightarrow> int \<Rightarrow> int \<Rightarrow> int list option \<Rightarrow> mpi_state \<Rightarrow>
    (int \<times> int list option \<times> mpi_state) option" where
  "PMPI_Cart_coords comm rank maxdims coords s = do {
     bad \<leftarrow> (if ms_check_args s then
               if ms_finalized s then Some MPI_ERR_INTERN
               else if coords = None then Some MPI_ERR_ARG
               else if maxdims < 1 then Some MPI_ERR_COUNT
               else do {
                 ic \<leftarrow> ulm_invalid_comm comm s;
                 (if ic then Some MPI_ERR_COMM
                  else do {
                    ir \<leftarrow> ulm_invalid_destination comm rank s;
                    Some (if ir then MPI_ERR_RANK else MPI_SUCCESS)
                  })
               }
             else Some MPI_SUCCESS);
     (if bad \<noteq> MPI_SUCCESS then Some (bad, coords, finish comm bad s)
      else do {
        t \<leftarrow> get_cart comm s;
        (case t of
           Inl rc \<Rightarrow> Some (rc, coords, finish comm rc s)
         | Inr c \<Rightarrow> do {
             (rc, sz, s1) \<leftarrow> PMPI_Comm_size comm s;
             (if rc \<noteq> MPI_SUCCESS then Some (rc, coords, finish comm rc s1)
              else if rank \<ge> sz then Some (MPI_ERR_DIMS, coords, finish comm MPI_ERR_DIMS s1)
              else if length (cart_dims c) < nat (cart_ndims c) then None
              else do {
                xs \<leftarrow> split_rank (take (nat (cart_ndims c)) (cart_dims c)) sz rank;
                dst \<leftarrow> coords;
                out \<leftarrow> write_front xs dst;
                Some (MPI_SUCCESS, Some out, s1)
              })
           })
      })
   }"

definition set_position :: "int \<Rightarrow> cart \<Rightarrow> int \<Rightarrow> int \<Rightarrow> mpi_state \<Rightarrow> (cart \<times> mpi_state) option" where
  "set_position comm c i v s = do {
     p \<leftarrow> arr_set (cart_position c) i v;
     let c' = c\<lparr>cart_position := p\<rparr>;
     s' \<leftarrow> upd_comm comm (\<lambda>cm. cm\<lparr>cm_topology := Some (Cart c')\<rparr>) s;
     Some (c', s')
   }"

text \<open>One of the two ranks of \<^verbatim>\<open>MPI_Cart_shift\<close>: the stored position is changed for the call of
  \<^verbatim>\<open>MPI_Cart_rank\<close> and restored, unless that call fails.\<close>

definition shift_rank :: "int \<Rightarrow> cart \<Rightarrow> int \<Rightarrow> int \<Rightarrow> int \<Rightarrow> mpi_state \<Rightarrow>
    (int \<times> int \<times> mpi_state) option" where
  "shift_rank comm c direction coord target s = do {
     (c1, s1) \<leftarrow> set_position comm c direction target s;
     (rc, r, s2) \<leftarrow> PMPI_Cart_rank comm (Some (cart_position c1)) (Some 0) s1;
     r' \<leftarrow> r;
     (if rc \<noteq> MPI_SUCCESS then Some (rc, r', s2)
      else do {
        (c3, s3) \<leftarrow> set_position comm c1 direction coord s2;
        Some (MPI_SUCCESS, r', s3)
      })
   }"

definition PMPI_Cart_shift :: "int \<Rightarrow> int \<Rightarrow> int \<Rightarrow> int option \<Rightarrow> int option \<Rightarrow> mpi_state \<Rightarrow>
    (int \<times> int option \<times> int option \<times> mpi_state) option" where
  "PMPI_Cart_shift comm direction disp rank_source rank_dest s =
     (if rank_source = None \<or> rank_dest = None then
        Some (MPI_ERR_ARG, rank_source, rank_dest, finish comm MPI_ERR_ARG s)
      else do {
        t \<leftarrow> get_cart comm s;
        (case t of
           Inl rc \<Rightarrow> Some (rc, rank_source, rank_dest, finish comm rc s)
         | Inr c \<Rightarrow>
             if direction < 0 \<or> direction \<ge> cart_ndims c then
               Some (MPI_ERR_ARG, rank_source, rank_dest, finish comm MPI_ERR_ARG s)
             else if disp = 0 then do {
               (rc, rank, s1) \<leftarrow> PMPI_Comm_rank comm s;
               (if rc \<noteq> MPI_SUCCESS then Some (rc, rank_source, rank_dest, finish comm rc s1)
                else Some (rc, Some rank, Some rank, s1))
             } else do {
               sz \<leftarrow> arr_get (cart_dims c) direction;
               coord \<leftarrow> arr_get (cart_position c) direction;
               period \<leftarrow> arr_get (cart_periods c) direction;
               coord_source \<leftarrow> c_int (coord - disp);
               coord_dest \<leftarrow> c_int (coord + disp);
               let no_source = (period = 0 \<and> (coord_source < 0 \<or> coord_source \<ge> sz));
               let no_dest = (period = 0 \<and> (coord_dest < 0 \<or> coord_dest \<ge> sz));
               (rc1, r1, s1) \<leftarrow> (if no_source then Some (MPI_SUCCESS, MPI_PROC_NULL, s)
                                  else shift_rank comm c direction coord coord_source s);
               (if rc1 \<noteq> MPI_SUCCESS then
                  Some (rc1, Some r1, Some (if no_dest then MPI_PROC_NULL else 0), finish comm rc1 s1)
                else do {
                  (rc2, r2, s2) \<leftarrow> (if no_dest then Some (MPI_SUCCESS, MPI_PROC_NULL, s1)
                                     else shift_rank comm c direction coord coord_dest s1);
                  Some (rc2, Some r1, Some r2, finish comm rc2 s2)
                })
             })
      })"

definition PMPI_Cart_get :: "int \<Rightarrow> int \<Rightarrow> int list option \<Rightarrow> int list option \<Rightarrow> int list option \<Rightarrow>
    mpi_state \<Rightarrow> (int \<times> int list option \<times> int list option \<times> int list option \<times> mpi_state) option" where
  "PMPI_Cart_get comm maxdims dims periods coords s =
     (if maxdims < 1 \<or> dims = None \<or> periods = None \<or> coords = None then
        Some (MPI_ERR_ARG, dims, periods, coords, finish comm MPI_ERR_ARG s)
      else do {
        t \<leftarrow> get_cart comm s;
        (case t of
           Inl rc \<Rightarrow> Some (rc, dims, periods, coords, finish comm rc s)
         | Inr c \<Rightarrow>
             if cart_ndims c > maxdims then Some (MPI_ERR_DIMS, dims, periods, coords, finish comm MPI_ERR_DIMS s)
             else (let n = nat (cart_ndims c) in
               if length (cart_dims c) < n \<or> length (cart_periods c) < n \<or> length (cart_position c) < n then None
               else do {
                 d \<leftarrow> Option.bind dims (write_front (take n (cart_dims c)));
                 p \<leftarrow> Option.bind periods (write_front (take n (cart_periods c)));
                 q \<leftarrow> Option.bind coords (write_front (take n (cart_position c)));
                 Some (MPI_SUCCESS, Some d, Some p, Some q, s)
               }))
      })"

definition PMPI_Cartdim_get :: "int \<Rightarrow> int option \<Rightarrow> mpi_state \<Rightarrow> (int \<times> int option \<times> mpi_state) option" where
  "PMPI_Cartdim_get comm ndims s =
     (if ndims = None then Some (MPI_ERR_ARG, ndims, finish comm MPI_ERR_ARG s)
      else do {
        (rc, topology) \<leftarrow> ulm_get_topology comm s;
        (if rc \<noteq> ULM_SUCCESS then Some (MPI_ERR_COMM, ndims, finish comm MPI_ERR_COMM s)
         else case topology of
           Some (Cart c) \<Rightarrow> Some (MPI_SUCCESS, Some (cart_ndims c), s)
         | _ \<Rightarrow> Some (MPI_ERR_TOPOLOGY, Some 0, finish comm MPI_ERR_TOPOLOGY s))
      })"

definition PMPI_Cart_map :: "int \<Rightarrow> int \<Rightarrow> int list option \<Rightarrow> int list option \<Rightarrow> int option \<Rightarrow> mpi_state \<Rightarrow>
    (int \<times> int option \<times> mpi_state) option" where
  "PMPI_Cart_map comm ndims dims periods newrank s = do {
     (rc1, sz, s1) \<leftarrow> PMPI_Comm_size comm s;
     (if rc1 \<noteq> MPI_SUCCESS then Some (rc1, newrank, finish comm rc1 s1)
      else do {
        (rc2, rank, s2) \<leftarrow> PMPI_Comm_rank comm s1;
        (if rc2 \<noteq> MPI_SUCCESS then Some (rc2, newrank, finish comm rc2 s2)
         else if ndims < 1 \<or> dims = None \<or> periods = None \<or> newrank = None then
           Some (MPI_ERR_ARG, newrank, finish comm MPI_ERR_ARG s2)
         else do {
           ds \<leftarrow> dims;
           (if length ds < nat ndims then None
            else (let p = dims_product (take (nat ndims) ds); nnodes = (if p < 0 then - p else p) in
              if nnodes = 0 \<or> nnodes > sz then Some (MPI_ERR_DIMS, newrank, finish comm MPI_ERR_DIMS s2)
              else if rank < nnodes then Some (MPI_SUCCESS, Some rank, s2)
              else Some (MPI_SUCCESS, Some MPI_UNDEFINED, s2)))
         })
      })
   }"

subsection \<open>Creating topologies\<close>

text \<open>The error exit of the functions that create a communicator: \<open>comm_new\<close> is dereferenced, the
  communicator made so far is freed, the error handler of the old communicator is called.\<close>

definition create_fail :: "comm_ops \<Rightarrow> int \<Rightarrow> int \<Rightarrow> int option \<Rightarrow> mpi_state \<Rightarrow> (int \<times> int option \<times> mpi_state) option" where
  "create_fail ops comm_old rc comm_new s = do {
     c \<leftarrow> comm_new;
     (if c \<noteq> MPI_COMM_NULL then
        (case op_comm_free ops c s of (_, c', s') \<Rightarrow> Some (rc, Some c', mpi_errhandler comm_old rc s'))
      else Some (rc, comm_new, mpi_errhandler comm_old rc s))
   }"

text \<open>Making the communicator of the first \<open>nnodes\<close> processes. The result is the code and the contents of
  \<^verbatim>\<open>*comm_new\<close>.\<close>

definition make_comm :: "comm_ops \<Rightarrow> int \<Rightarrow> int \<Rightarrow> mpi_state \<Rightarrow> int \<times> int \<times> mpi_state" where
  "make_comm ops comm_old nnodes s =
     (case op_comm_group ops comm_old s of (rc1, group_old, s1) \<Rightarrow>
      if rc1 \<noteq> MPI_SUCCESS then (rc1, MPI_COMM_NULL, s1)
      else case op_group_range_incl ops group_old (0, nnodes - 1, 1) s1 of (rc2, group_new, s2) \<Rightarrow>
      if rc2 \<noteq> MPI_SUCCESS then (rc2, MPI_COMM_NULL, s2)
      else case op_comm_create ops comm_old group_new s2 of (rc3, new, s3) \<Rightarrow>
      if rc3 \<noteq> MPI_SUCCESS then (rc3, new, s3)
      else case op_group_free ops group_old s3 of (rc4, s4) \<Rightarrow>
      if rc4 \<noteq> MPI_SUCCESS then (rc4, new, s4)
      else case op_group_free ops group_new s4 of (rc5, s5) \<Rightarrow> (rc5, new, s5))"

text \<open>Allocating the topology and its arrays, and attaching it.\<close>

definition alloc_topology :: "mpi_state \<Rightarrow> bool \<times> mpi_state" where
  "alloc_topology s = (case ms_malloc s of
     (False, s1) \<Rightarrow> (False, s1)
   | (True, s1) \<Rightarrow> ms_malloc s1)"

definition PMPI_Cart_create :: "comm_ops \<Rightarrow> int \<Rightarrow> int \<Rightarrow> int list option \<Rightarrow> int list option \<Rightarrow> int option \<Rightarrow>
    mpi_state \<Rightarrow> (int \<times> int option \<times> mpi_state) option" where
  "PMPI_Cart_create ops comm_old ndims dims periods comm_new s =
     (if comm_new = None then create_fail ops comm_old MPI_ERR_ARG comm_new s
      else if ndims < 1 \<or> dims = None \<or> periods = None then
        create_fail ops comm_old MPI_ERR_ARG (Some MPI_COMM_NULL) s
      else do {
        ds0 \<leftarrow> dims;
        ps0 \<leftarrow> periods;
        (if length ds0 < nat ndims then None
         else (let n = nat ndims; ds = take n ds0; p = dims_product ds; nnodes = (if p < 0 then - p else p) in
           if nnodes = 0 then create_fail ops comm_old MPI_ERR_DIMS (Some MPI_COMM_NULL) s
           else do {
             (rc1, size_old, s1) \<leftarrow> PMPI_Comm_size comm_old s;
             (if rc1 \<noteq> MPI_SUCCESS then create_fail ops comm_old rc1 (Some MPI_COMM_NULL) s1
              else do {
                (rc2, rank_old, s2) \<leftarrow> PMPI_Comm_rank comm_old s1;
                (if rc2 \<noteq> MPI_SUCCESS then create_fail ops comm_old rc2 (Some MPI_COMM_NULL) s2
                 else if nnodes > size_old then create_fail ops comm_old MPI_ERR_DIMS (Some MPI_COMM_NULL) s2
                 else case make_comm ops comm_old nnodes s2 of (rc3, new, s3) \<Rightarrow>
                   if rc3 \<noteq> MPI_SUCCESS then create_fail ops comm_old rc3 (Some new) s3
                   else if new = MPI_COMM_NULL then Some (MPI_SUCCESS, Some new, s3)
                   else case alloc_topology s3 of
                     (False, s4) \<Rightarrow> create_fail ops comm_old MPI_ERR_OTHER (Some new) s4
                   | (True, s4) \<Rightarrow>
                       if length ps0 < n then None
                       else do {
                         position \<leftarrow> split_rank ds nnodes rank_old;
                         (rc5, s5) \<leftarrow> ulm_set_topology new
                           (Cart \<lparr>cart_nnodes = nnodes, cart_ndims = ndims, cart_dims = ds,
                                  cart_periods = take n ps0, cart_position = position\<rparr>) s4;
                         (if rc5 \<noteq> ULM_SUCCESS then create_fail ops comm_old MPI_ERR_TOPOLOGY (Some new) s5
                          else Some (MPI_SUCCESS, Some new, s5))
                       })
              })
           }))
      })"

text \<open>The colour and key of \<^verbatim>\<open>MPI_Cart_sub\<close>: Horner's scheme over the dropped and the kept dimensions.\<close>

definition sub_step :: "int \<times> int \<Rightarrow> bool \<times> int \<times> int \<Rightarrow> int \<times> int" where
  "sub_step = (\<lambda>(color, key) (remain, d, p). if remain then (color, key * d + p) else (color * d + p, key))"

definition PMPI_Cart_sub :: "comm_ops \<Rightarrow> int \<Rightarrow> int list option \<Rightarrow> int option \<Rightarrow> mpi_state \<Rightarrow>
    (int \<times> int option \<times> mpi_state) option" where
  "PMPI_Cart_sub ops comm_old remain_dims comm_new s = do {
     (rc1, rank_old, s1) \<leftarrow> PMPI_Comm_rank comm_old s;
     (if rc1 \<noteq> MPI_SUCCESS then create_fail ops comm_old rc1 comm_new s1
      else if comm_new = None \<or> remain_dims = None then create_fail ops comm_old MPI_ERR_ARG comm_new s1
      else do {
        rds \<leftarrow> remain_dims;
        t \<leftarrow> get_cart comm_old s1;
        (case t of
           Inl rc \<Rightarrow> create_fail ops comm_old rc (Some MPI_COMM_NULL) s1
         | Inr c \<Rightarrow>
             (let n = nat (cart_ndims c) in
              if length rds < n \<or> length (cart_dims c) < n \<or> length (cart_position c) < n
                 \<or> length (cart_periods c) < n then None
              else (let keep = map (\<lambda>r. r \<noteq> 0) (take n rds);
                        kept = (\<lambda>xs. map snd (filter fst (zip keep (take n xs))));
                        ds_new = kept (cart_dims c);
                        nnodes_new = dims_product ds_new;
                        (color, key) = foldl sub_step (0, 0) (zip keep (zip (cart_dims c) (cart_position c))) in
                case op_comm_split ops comm_old color key s1 of (rc2, new, s2) \<Rightarrow>
                if rc2 \<noteq> MPI_SUCCESS then create_fail ops comm_old rc2 (Some new) s2
                else case alloc_topology s2 of
                  (False, s3) \<Rightarrow> create_fail ops comm_old MPI_ERR_OTHER (Some new) s3
                | (True, s3) \<Rightarrow> do {
                    (rc4, rank_new, s4) \<leftarrow> PMPI_Comm_rank new s3;
                    (if rc4 \<noteq> MPI_SUCCESS then create_fail ops comm_old rc4 (Some new) s4
                     else do {
                       position \<leftarrow> split_rank ds_new nnodes_new rank_new;
                       (rc5, s5) \<leftarrow> ulm_set_topology new
                         (Cart \<lparr>cart_nnodes = nnodes_new, cart_ndims = int (length ds_new), cart_dims = ds_new,
                                cart_periods = kept (cart_periods c), cart_position = position\<rparr>) s4;
                       (if rc5 \<noteq> ULM_SUCCESS then create_fail ops comm_old MPI_ERR_TOPOLOGY (Some new) s5
                        else Some (MPI_SUCCESS, Some new, s5))
                     })
                  })))
      })
   }"

subsection \<open>Graph topologies\<close>

text \<open>The loops that copy an array and check its elements: the copy, or the error code.\<close>

fun check_copy :: "(int \<Rightarrow> bool) \<Rightarrow> int list \<Rightarrow> nat \<Rightarrow> (int + int list) option" where
  "check_copy bad xs 0 = Some (Inr [])"
| "check_copy bad [] (Suc n) = None"
| "check_copy bad (x # xs) (Suc n) =
     (if bad x then Some (Inl MPI_ERR_ARG) else map_option (map_sum id ((#) x)) (check_copy bad xs n))"

definition PMPI_Graph_create :: "comm_ops \<Rightarrow> int \<Rightarrow> int \<Rightarrow> int list option \<Rightarrow> int list option \<Rightarrow> int option \<Rightarrow>
    mpi_state \<Rightarrow> (int \<times> int option \<times> mpi_state) option" where
  "PMPI_Graph_create ops comm_old nnodes index edges comm_new s =
     (if comm_new = None then create_fail ops comm_old MPI_ERR_ARG comm_new s
      else if nnodes < 1 \<or> index = None \<or> edges = None then
        create_fail ops comm_old MPI_ERR_ARG (Some MPI_COMM_NULL) s
      else do {
        ix \<leftarrow> index;
        es \<leftarrow> edges;
        (rc1, size_old, s1) \<leftarrow> PMPI_Comm_size comm_old s;
        (if rc1 \<noteq> MPI_SUCCESS then create_fail ops comm_old rc1 (Some MPI_COMM_NULL) s1
         else if nnodes > size_old then create_fail ops comm_old MPI_ERR_ARG (Some MPI_COMM_NULL) s1
         else case make_comm ops comm_old nnodes s1 of (rc2, new, s2) \<Rightarrow>
           if rc2 \<noteq> MPI_SUCCESS then create_fail ops comm_old rc2 (Some new) s2
           else if new = MPI_COMM_NULL then Some (MPI_SUCCESS, Some new, s2)
           else do {
             nedges \<leftarrow> arr_get ix (nnodes - 1);
             (case alloc_topology s2 of
                (False, s3) \<Rightarrow> create_fail ops comm_old MPI_ERR_OTHER (Some new) s3
              | (True, s3) \<Rightarrow>
                  do {
                    r \<leftarrow> check_copy (\<lambda>i. i < 0) ix (nat nnodes);
                    (case r of
                       Inl rc \<Rightarrow> create_fail ops comm_old rc (Some new) s3
                     | Inr ix' \<Rightarrow> do {
                         r2 \<leftarrow> check_copy (\<lambda>e. e < 0 \<or> e \<ge> nnodes) es (nat nedges);
                         (case r2 of
                            Inl rc \<Rightarrow> create_fail ops comm_old rc (Some new) s3
                          | Inr es' \<Rightarrow> do {
                              (rc4, s4) \<leftarrow> ulm_set_topology new
                                (Graph \<lparr>graph_nnodes = nnodes, graph_nedges = nedges, graph_index = ix',
                                        graph_edges = es'\<rparr>) s3;
                              (if rc4 \<noteq> ULM_SUCCESS then create_fail ops comm_old MPI_ERR_TOPOLOGY (Some new) s4
                               else Some (MPI_SUCCESS, Some new, s4))
                            })
                       })
                  })
           })
      })"

definition get_graph :: "int \<Rightarrow> mpi_state \<Rightarrow> (int + graph) option" where
  "get_graph comm s = do {
     (rc, topology) \<leftarrow> ulm_get_topology comm s;
     Some (if rc \<noteq> ULM_SUCCESS then Inl MPI_ERR_COMM
           else case topology of Some (Graph g) \<Rightarrow> Inr g | _ \<Rightarrow> Inl MPI_ERR_TOPOLOGY)
   }"

definition PMPI_Graph_get :: "int \<Rightarrow> int \<Rightarrow> int \<Rightarrow> int list option \<Rightarrow> int list option \<Rightarrow> mpi_state \<Rightarrow>
    (int \<times> int list option \<times> int list option \<times> mpi_state) option" where
  "PMPI_Graph_get comm maxindex maxedges index edges s =
     (if maxindex < 1 \<or> maxedges < 1 \<or> index = None \<or> edges = None then
        Some (MPI_ERR_ARG, index, edges, finish comm MPI_ERR_ARG s)
      else do {
        t \<leftarrow> get_graph comm s;
        (case t of
           Inl rc \<Rightarrow> Some (rc, index, edges, finish comm rc s)
         | Inr g \<Rightarrow>
             if graph_nnodes g > maxindex then Some (MPI_ERR_DIMS, index, edges, finish comm MPI_ERR_DIMS s)
             else if length (graph_index g) < nat (graph_nnodes g) then None
             else do {
               ix \<leftarrow> Option.bind index (write_front (take (nat (graph_nnodes g)) (graph_index g)));
               (if graph_nedges g > maxedges then Some (MPI_ERR_DIMS, Some ix, edges, finish comm MPI_ERR_DIMS s)
                else if length (graph_edges g) < nat (graph_nedges g) then None
                else do {
                  es \<leftarrow> Option.bind edges (write_front (take (nat (graph_nedges g)) (graph_edges g)));
                  Some (MPI_SUCCESS, Some ix, Some es, s)
                })
             })
      })"

definition PMPI_Graph_map :: "int \<Rightarrow> int \<Rightarrow> int list option \<Rightarrow> int list option \<Rightarrow> int option \<Rightarrow> mpi_state \<Rightarrow>
    (int \<times> int option \<times> mpi_state) option" where
  "PMPI_Graph_map comm nnodes index edges newrank s = do {
     (rc1, sz, s1) \<leftarrow> PMPI_Comm_size comm s;
     (if rc1 \<noteq> MPI_SUCCESS then Some (rc1, newrank, finish comm rc1 s1)
      else do {
        (rc2, rank, s2) \<leftarrow> PMPI_Comm_rank comm s1;
        Some (if rc2 \<noteq> MPI_SUCCESS then (rc2, newrank, finish comm rc2 s2)
              else if nnodes < 1 \<or> nnodes > sz then (MPI_ERR_ARG, newrank, finish comm MPI_ERR_ARG s2)
              else if index = None \<or> edges = None \<or> newrank = None then
                (MPI_ERR_ARG, newrank, finish comm MPI_ERR_ARG s2)
              else (rc2, Some (if rank < nnodes then rank else MPI_UNDEFINED), s2))
      })
   }"

text \<open>The loop of \<^verbatim>\<open>MPI_Graph_neighbors\<close>: \<open>i\<close> runs to \<open>stop\<close>, \<open>j\<close> counts what is written.\<close>

function neighbors_loop :: "int list \<Rightarrow> int \<Rightarrow> int \<Rightarrow> int \<Rightarrow> int \<Rightarrow> int list \<Rightarrow> (int \<times> int list) option" where
  "neighbors_loop edges maxneighbors stop i j neighbors =
     (if i < stop then
        if j \<ge> maxneighbors then Some (MPI_ERR_ARG, neighbors)
        else do {
          e \<leftarrow> arr_get edges i;
          ns \<leftarrow> arr_set neighbors j e;
          neighbors_loop edges maxneighbors stop (i + 1) (j + 1) ns
        }
      else Some (MPI_SUCCESS, neighbors))"
  by auto
termination by (relation "measure (\<lambda>(es, m, stop, i, j, ns). nat (stop - i))") auto

declare neighbors_loop.simps [simp del]

definition PMPI_Graph_neighbors :: "int \<Rightarrow> int \<Rightarrow> int \<Rightarrow> int list option \<Rightarrow> mpi_state \<Rightarrow>
    (int \<times> int list option \<times> mpi_state) option" where
  "PMPI_Graph_neighbors comm rank maxneighbors neighbors s =
     (if rank < 0 \<or> maxneighbors < 0 \<or> neighbors = None then
        Some (MPI_ERR_ARG, neighbors, finish comm MPI_ERR_ARG s)
      else do {
        ns \<leftarrow> neighbors;
        t \<leftarrow> get_graph comm s;
        (case t of
           Inl rc \<Rightarrow> Some (rc, neighbors, finish comm rc s)
         | Inr g \<Rightarrow>
             if rank \<ge> graph_nnodes g then Some (MPI_ERR_ARG, neighbors, finish comm MPI_ERR_ARG s)
             else do {
               i \<leftarrow> (if rank = 0 then Some 0 else arr_get (graph_index g) (rank - 1));
               stop \<leftarrow> arr_get (graph_index g) rank;
               (rc, ns') \<leftarrow> neighbors_loop (graph_edges g) maxneighbors stop i 0 ns;
               Some (rc, Some ns', finish comm rc s)
             })
      })"

definition PMPI_Graph_neighbors_count :: "int \<Rightarrow> int \<Rightarrow> int option \<Rightarrow> mpi_state \<Rightarrow>
    (int \<times> int option \<times> mpi_state) option" where
  "PMPI_Graph_neighbors_count comm rank nneighbors s =
     (if rank < 0 \<or> nneighbors = None then Some (MPI_ERR_ARG, nneighbors, finish comm MPI_ERR_ARG s)
      else do {
        t \<leftarrow> get_graph comm s;
        (case t of
           Inl rc \<Rightarrow> Some (rc, nneighbors, finish comm rc s)
         | Inr g \<Rightarrow>
             if rank \<ge> graph_nnodes g then Some (MPI_ERR_ARG, nneighbors, finish comm MPI_ERR_ARG s)
             else do {
               n \<leftarrow> arr_get (graph_index g) rank;
               m \<leftarrow> (if rank > 0 then arr_get (graph_index g) (rank - 1) else Some 0);
               Some (MPI_SUCCESS, Some (n - m), s)
             })
      })"

definition PMPI_Graphdims_get :: "int \<Rightarrow> int option \<Rightarrow> int option \<Rightarrow> mpi_state \<Rightarrow>
    (int \<times> int option \<times> int option \<times> mpi_state) option" where
  "PMPI_Graphdims_get comm nnodes nedges s =
     (if nnodes = None \<or> nedges = None then Some (MPI_ERR_ARG, nnodes, nedges, finish comm MPI_ERR_ARG s)
      else do {
        (rc, topology) \<leftarrow> ulm_get_topology comm s;
        (if rc \<noteq> ULM_SUCCESS then Some (MPI_ERR_COMM, nnodes, nedges, finish comm MPI_ERR_COMM s)
         else case topology of
           Some (Graph g) \<Rightarrow> Some (MPI_SUCCESS, Some (graph_nnodes g), Some (graph_nedges g), s)
         | _ \<Rightarrow> Some (MPI_ERR_TOPOLOGY, Some MPI_UNDEFINED, Some MPI_UNDEFINED, finish comm MPI_ERR_TOPOLOGY s))
      })"

definition PMPI_Topo_test :: "int \<Rightarrow> int option \<Rightarrow> mpi_state \<Rightarrow> (int \<times> int option \<times> mpi_state) option" where
  "PMPI_Topo_test comm status s =
     (if status = None then Some (MPI_ERR_ARG, status, finish comm MPI_ERR_ARG s)
      else do {
        (rc, topology) \<leftarrow> ulm_get_topology comm s;
        (if rc \<noteq> ULM_SUCCESS then Some (MPI_ERR_COMM, Some MPI_UNDEFINED, finish comm MPI_ERR_COMM s)
         else case topology of
           None \<Rightarrow> Some (MPI_SUCCESS, Some MPI_UNDEFINED, s)
         | Some (Cart _) \<Rightarrow> Some (MPI_SUCCESS, Some MPI_CART, s)
         | Some (Graph _) \<Rightarrow> Some (MPI_SUCCESS, Some MPI_GRAPH, s)
         | Some (OtherTopology _) \<Rightarrow> Some (MPI_ERR_TOPOLOGY, Some MPI_UNDEFINED, finish comm MPI_ERR_TOPOLOGY s))
      })"

end
