(* ===== verification/Topology_Props.thy ===== *)
theory Topology_Props
  imports Topology
begin

section \<open>Properties of process topologies\<close>

subsection \<open>Ranks and coordinates\<close>

text \<open>The row-major rank of a coordinate vector.\<close>

fun rank_of :: "int list \<Rightarrow> int list \<Rightarrow> int" where
  "rank_of (x # xs) (d # ds) = x * prod_list ds + rank_of xs ds"
| "rank_of _ _ = 0"

definition pos_dims :: "int list \<Rightarrow> bool" where
  "pos_dims ds \<longleftrightarrow> list_all (\<lambda>d. 0 < d) ds"

definition in_range :: "int list \<Rightarrow> int list \<Rightarrow> bool" where
  "in_range xs ds \<longleftrightarrow> list_all2 (\<lambda>x d. 0 \<le> x \<and> x < d) xs ds"

lemma pos_dims_simps [simp]: "pos_dims []" "pos_dims (d # ds) \<longleftrightarrow> 0 < d \<and> pos_dims ds"
  by (simp_all add: pos_dims_def)

lemma in_range_simps [simp]:
  "in_range [] ds \<longleftrightarrow> ds = []" "in_range xs [] \<longleftrightarrow> xs = []"
  "in_range (x # xs) (d # ds) \<longleftrightarrow> 0 \<le> x \<and> x < d \<and> in_range xs ds"
  by (auto simp: in_range_def)

lemma in_range_length: "in_range xs ds \<Longrightarrow> length xs = length ds"
  by (auto simp: in_range_def list_all2_lengthD)

lemma prod_pos: "pos_dims ds \<Longrightarrow> 0 < prod_list ds"
  by (induction ds) auto

lemma dims_product_eq: "dims_product ds = prod_list ds"
proof -
  have "foldl (*) a ds = a * prod_list ds" for a :: int
    by (induction ds arbitrary: a) (auto simp: mult.assoc)
  then show ?thesis by (simp add: dims_product_def)
qed

lemma rank_of_bounds: "pos_dims ds \<Longrightarrow> in_range xs ds \<Longrightarrow> 0 \<le> rank_of xs ds \<and> rank_of xs ds < prod_list ds"
proof (induction xs ds rule: rank_of.induct)
  case (1 x xs d ds)
  then have IH: "0 \<le> rank_of xs ds" "rank_of xs ds < prod_list ds" and x: "0 \<le> x" "x < d" by auto
  have "x * prod_list ds + rank_of xs ds < (x + 1) * prod_list ds" using IH by (simp add: algebra_simps)
  also have "\<dots> \<le> d * prod_list ds" using x prod_pos [of ds] 1(2) by (intro mult_right_mono) auto
  finally show ?case using IH x prod_pos [of ds] 1(2) by simp
qed auto

lemma split_rank_step:
  assumes "0 < d" and "pos_dims ds" and "0 \<le> r"
  shows "split_rank (d # ds) (d * prod_list ds) r =
    map_option ((#) (r div prod_list ds)) (split_rank ds (prod_list ds) (r mod prod_list ds))"
  using assms prod_pos [OF assms(2)] by (simp add: sdiv_pos smod_pos Let_def)

lemma split_rank_ok:
  "pos_dims ds \<Longrightarrow> 0 \<le> r \<Longrightarrow> r < prod_list ds \<Longrightarrow>
   \<exists>xs. split_rank ds (prod_list ds) r = Some xs \<and> in_range xs ds \<and> rank_of xs ds = r"
proof (induction ds arbitrary: r)
  case Nil
  then show ?case by simp
next
  case (Cons d ds)
  let ?P = "prod_list ds"
  have p: "0 < ?P" "0 < d" "pos_dims ds" using Cons.prems prod_pos by auto
  from Cons.IH [of "r mod ?P"] p Cons.prems obtain xs where
    xs: "split_rank ds ?P (r mod ?P) = Some xs" "in_range xs ds" "rank_of xs ds = r mod ?P" by auto
  have "r div ?P < d"
  proof (rule ccontr)
    assume "\<not> r div ?P < d"
    then have "d * ?P \<le> r div ?P * ?P" using p by (simp add: mult_right_mono)
    also have "\<dots> \<le> r" using div_mult_mod_eq [of r ?P] p(1) by (metis le_add_same_cancel1 pos_mod_sign)
    finally show False using Cons.prems by simp
  qed
  moreover have "0 \<le> r div ?P" using p Cons.prems by (simp add: pos_imp_zdiv_nonneg_iff)
  ultimately show ?case
    using xs p Cons.prems split_rank_step [of d ds r] by (simp add: div_mult_mod_eq)
qed

lemma split_rank_of:
  "pos_dims ds \<Longrightarrow> in_range xs ds \<Longrightarrow> split_rank ds (prod_list ds) (rank_of xs ds) = Some xs"
proof (induction ds arbitrary: xs)
  case Nil
  then show ?case by simp
next
  case (Cons d ds)
  let ?P = "prod_list ds"
  obtain y ys where xs: "xs = y # ys" using Cons.prems(2) by (cases xs) auto
  have p: "0 < ?P" "0 < d" "pos_dims ds" "in_range ys ds" "0 \<le> y" using Cons.prems prod_pos xs by auto
  have b: "0 \<le> rank_of ys ds" "rank_of ys ds < ?P" using rank_of_bounds p by auto
  have "(y * ?P + rank_of ys ds) div ?P = y" "(y * ?P + rank_of ys ds) mod ?P = rank_of ys ds"
    using b p(1) by simp_all
  with Cons.IH [OF p(3,4)] split_rank_step [of d ds "y * ?P + rank_of ys ds"] p b show ?case
    by (simp add: xs)
qed

lemma split_rank_length: "split_rank ds f r = Some xs \<Longrightarrow> length xs = length ds"
  by (induction ds arbitrary: f r xs) (auto simp: Let_def split: if_splits)

lemma rank_of_snoc:
  "length xs = length ds \<Longrightarrow> rank_of (xs @ [x]) (ds @ [d]) = rank_of xs ds * d + x"
  by (induction xs ds rule: list_induct2) (auto simp: algebra_simps)

subsection \<open>Well-formed Cartesian topologies\<close>

definition wf_grid :: "cart \<Rightarrow> bool" where
  "wf_grid c \<longleftrightarrow> cart_ndims c = int (length (cart_dims c)) \<and> length (cart_periods c) = length (cart_dims c)
     \<and> pos_dims (cart_dims c) \<and> cart_nnodes c = prod_list (cart_dims c)"

definition wf_cart :: "cart \<Rightarrow> bool" where
  "wf_cart c \<longleftrightarrow> wf_grid c \<and> in_range (cart_position c) (cart_dims c)"

lemma wf_cart_grid: "wf_cart c \<Longrightarrow> wf_grid c"
  by (simp add: wf_cart_def)

text \<open>A process with a Cartesian communicator: size, rank and stored position agree.\<close>

definition cart_comm :: "mpi_state \<Rightarrow> int \<Rightarrow> cart \<Rightarrow> bool" where
  "cart_comm s comm c \<longleftrightarrow> wf_cart c \<and> MPI_COMM_WORLD \<le> comm \<and> \<not> ms_finalized s
     \<and> (case get_comm s comm of
          None \<Rightarrow> False
        | Some cm \<Rightarrow> cm_topology cm = Some (Cart c) \<and> cm_size cm = cart_nnodes c
            \<and> cm_remote_size cm = cart_nnodes c \<and> cm_rank cm = rank_of (cart_position c) (cart_dims c))"

lemma cart_commD:
  assumes "cart_comm s comm c"
  obtains cm where "get_comm s comm = Some cm" "cm_topology cm = Some (Cart c)" "cm_size cm = cart_nnodes c"
    "cm_remote_size cm = cart_nnodes c" "cm_rank cm = rank_of (cart_position c) (cart_dims c)" "wf_cart c"
    "MPI_COMM_WORLD \<le> comm" "\<not> ms_finalized s"
  using assms by (auto simp: cart_comm_def split: option.splits)

lemma get_cart_ok: "get_comm s comm = Some cm \<Longrightarrow> cm_topology cm = Some (Cart c) \<Longrightarrow> get_cart comm s = Some (Inr c)"
  by (simp add: get_cart_def)

text \<open>Coordinates reduced modulo the dimension where the topology is periodic.\<close>

definition wrap :: "int \<times> int \<times> int \<Rightarrow> int" where
  "wrap = (\<lambda>(p, d, x). if p \<noteq> 0 then x mod d else x)"

definition wrapped :: "cart \<Rightarrow> int list \<Rightarrow> int list" where
  "wrapped c xs = map wrap (zip (cart_periods c) (zip (cart_dims c) xs))"

text \<open>Coordinates are valid when the non-periodic ones are in range.\<close>

definition valid_coords :: "cart \<Rightarrow> int list \<Rightarrow> bool" where
  "valid_coords c xs \<longleftrightarrow> length xs = length (cart_dims c)
     \<and> list_all (\<lambda>(p, d, x). p = 0 \<longrightarrow> 0 \<le> x \<and> x < d) (zip (cart_periods c) (zip (cart_dims c) xs))"

lemma wrapped_nth:
  assumes "wf_grid c" and "length xs = length (cart_dims c)" and "i < length xs"
  shows "wrapped c xs ! i = wrap (cart_periods c ! i, cart_dims c ! i, xs ! i)"
  using assms by (simp add: wrapped_def wf_grid_def)

lemma length_wrapped: "wf_grid c \<Longrightarrow> length xs = length (cart_dims c) \<Longrightarrow> length (wrapped c xs) = length xs"
  by (simp add: wrapped_def wf_grid_def)

lemma cart_rank_loop_ok:
  assumes "wf_grid c" and "valid_coords c xs" and "i \<le> length (cart_dims c)"
  shows "cart_rank_loop c xs i rank factor =
    Some (MPI_SUCCESS, rank + factor * rank_of (take i (wrapped c xs)) (take i (cart_dims c)))"
  using assms(3)
proof (induction i arbitrary: rank factor)
  case 0
  then show ?case by simp
next
  case (Suc i)
  let ?ds = "cart_dims c" and ?ps = "cart_periods c" and ?ys = "wrapped c xs"
  have l: "length xs = length ?ds" "length ?ps = length ?ds" "i < length ?ds"
    using assms(1,2) Suc.prems by (auto simp: wf_grid_def valid_coords_def)
  have d: "0 < ?ds ! i" using assms(1) l(3) by (simp add: wf_grid_def pos_dims_def list_all_length)
  have v: "?ps ! i = 0 \<Longrightarrow> 0 \<le> xs ! i \<and> xs ! i < ?ds ! i"
    using assms(2) l by (auto simp: valid_coords_def list_all_length)
  have y: "?ys ! i = (if ?ps ! i \<noteq> 0 then xs ! i mod ?ds ! i else xs ! i)"
    using wrapped_nth [OF assms(1) l(1)] l by (simp add: wrap_def)
  have step: "cart_rank_loop c xs (Suc i) rank factor
      = cart_rank_loop c xs i (rank + ?ys ! i * factor) (factor * ?ds ! i)"
  proof (cases "?ps ! i = 0")
    case True
    with v l y show ?thesis by simp
  next
    case False
    with d l y smod_fix [OF d, of "xs ! i"] show ?thesis by (simp add: Let_def)
  qed
  have ly: "i < length ?ys" using length_wrapped [OF assms(1) l(1)] l by simp
  have "rank_of (take (Suc i) ?ys) (take (Suc i) ?ds) = rank_of (take i ?ys) (take i ?ds) * ?ds ! i + ?ys ! i"
    using rank_of_snoc [of "take i ?ys" "take i ?ds"] ly l by (simp add: take_Suc_conv_app_nth)
  with Suc.IH [of "rank + ?ys ! i * factor" "factor * ?ds ! i"] Suc.prems step show ?case
    by (simp add: algebra_simps)
qed

lemma cart_rank_ok:
  assumes "get_comm s comm = Some cm" "cm_topology cm = Some (Cart c)" "wf_grid c" and "valid_coords c xs"
  shows "PMPI_Cart_rank comm (Some xs) (Some r0) s = Some (MPI_SUCCESS, Some (rank_of (wrapped c xs) (cart_dims c)), s)"
proof -
  have "length (wrapped c xs) = length (cart_dims c)"
    using assms(3,4) length_wrapped [of c xs] by (simp add: valid_coords_def)
  moreover have "nat (cart_ndims c) = length (cart_dims c)" using assms(3) by (simp add: wf_grid_def)
  ultimately show ?thesis
    using cart_rank_loop_ok [OF assms(3,4), of "length (cart_dims c)" 0 1]
    by (simp add: PMPI_Cart_rank_def get_cart_ok [OF assms(1,2)] finish_def)
qed

lemma wrapped_in_range:
  assumes "wf_grid c" and "in_range xs (cart_dims c)"
  shows "wrapped c xs = xs" "valid_coords c xs"
proof -
  have l: "length xs = length (cart_dims c)" using in_range_length [OF assms(2)] .
  have r: "0 \<le> xs ! i \<and> xs ! i < cart_dims c ! i" if "i < length xs" for i
    using assms(2) that by (simp add: in_range_def list_all2_conv_all_nth)
  show "wrapped c xs = xs"
    using r l by (intro nth_equalityI) (auto simp: wrapped_nth [OF assms(1) l] length_wrapped [OF assms(1) l] wrap_def)
  show "valid_coords c xs"
    using r l assms(1) by (auto simp: valid_coords_def list_all_length wf_grid_def)
qed

lemma cart_coords_ok:
  assumes "cart_comm s comm c" and "0 \<le> rank" "rank < cart_nnodes c" and "cart_ndims c \<le> maxdims"
    and "0 < cart_ndims c" and "int (length buf) = cart_ndims c"
    and "split_rank (cart_dims c) (cart_nnodes c) rank = Some xs"
  shows "PMPI_Cart_coords comm rank maxdims (Some buf) s = Some (MPI_SUCCESS, Some xs, s)"
proof -
  from assms(1) obtain cm where cm: "get_comm s comm = Some cm" "cm_topology cm = Some (Cart c)"
    "cm_size cm = cart_nnodes c" "cm_remote_size cm = cart_nnodes c" "wf_cart c" "MPI_COMM_WORLD \<le> comm" "\<not> ms_finalized s"
    by (rule cart_commD)
  have "arr_get (ms_comms s) comm = Some (Some cm)" using cm(1) by (auto simp: get_comm_Some arr_get_def)
  moreover have "\<not> maxdims < 1" using assms(4,5) by simp
  ultimately show ?thesis using assms(2,3,6,7) cm split_rank_length [OF assms(7)]
    by (simp add: PMPI_Cart_coords_def ulm_invalid_comm_def ulm_invalid_destination_def get_cart_ok wf_cart_def wf_grid_def
        write_front_def)
qed

subsection \<open>Shifts\<close>

text \<open>The rank \<open>k\<close> steps along dimension \<open>i\<close> from the stored position.\<close>

definition shifted :: "cart \<Rightarrow> nat \<Rightarrow> int \<Rightarrow> int" where
  "shifted c i k = (let x = cart_position c ! i + k; d = cart_dims c ! i in
     if cart_periods c ! i = 0 \<and> (x < 0 \<or> x \<ge> d) then MPI_PROC_NULL
     else rank_of ((cart_position c)[i := x mod d]) (cart_dims c))"

lemma set_position_ok:
  assumes "get_comm s comm = Some cm" and "i < length (cart_position c)"
  shows "set_position comm c (int i) v s = Some (c\<lparr>cart_position := (cart_position c)[i := v]\<rparr>,
    s\<lparr>ms_comms := (ms_comms s)[nat comm := Some (cm\<lparr>cm_topology := Some (Cart (c\<lparr>cart_position := (cart_position c)[i := v]\<rparr>))\<rparr>)]\<rparr>)"
  using assms by (simp add: set_position_def upd_comm_ok Let_def)

lemma wrapped_update:
  assumes "wf_cart c" and "i < length (cart_dims c)"
    and "cart_periods c ! i \<noteq> 0 \<or> 0 \<le> v \<and> v < cart_dims c ! i"
    and "c1 = c\<lparr>cart_position := (cart_position c)[i := v]\<rparr>"
  shows "wrapped c1 (cart_position c1) = (cart_position c)[i := v mod cart_dims c ! i]"
    and "valid_coords c1 (cart_position c1)" and "wf_grid c1"
proof -
  let ?p = "cart_position c" and ?ds = "cart_dims c"
  have g: "wf_grid c1" using assms(1,4) by (simp add: wf_cart_def wf_grid_def)
  have l: "length ?p = length ?ds" using assms(1) by (auto simp: wf_cart_def dest: in_range_length)
  have r: "0 \<le> ?p ! j \<and> ?p ! j < ?ds ! j" if "j < length ?ds" for j
    using assms(1) l that by (simp add: wf_cart_def in_range_def list_all2_conv_all_nth)
  have sel: "cart_position c1 = ?p[i := v]" "cart_dims c1 = ?ds" "cart_periods c1 = cart_periods c"
    using assms(4) by simp_all
  show "wf_grid c1" by (fact g)
  show "wrapped c1 (cart_position c1) = ?p[i := v mod ?ds ! i]"
    using g l r assms(2,3) by (intro nth_equalityI)
      (auto simp: wrapped_nth [OF g] length_wrapped [OF g] sel wrap_def nth_list_update)
  show "valid_coords c1 (cart_position c1)"
    using g l r assms(2,3) by (auto simp: valid_coords_def sel list_all_length nth_list_update wf_grid_def)
qed

lemma shift_rank_ok:
  assumes "cart_comm s comm c" and "i < length (cart_dims c)"
    and "cart_periods c ! i \<noteq> 0 \<or> 0 \<le> v \<and> v < cart_dims c ! i"
  shows "shift_rank comm c (int i) (cart_position c ! i) v s =
    Some (MPI_SUCCESS, rank_of ((cart_position c)[i := v mod cart_dims c ! i]) (cart_dims c), s)"
proof -
  from assms(1) obtain cm where cm: "get_comm s comm = Some cm" "cm_topology cm = Some (Cart c)" "wf_cart c"
    by (rule cart_commD)
  have l: "i < length (cart_position c)" using cm(3) assms(2) by (auto simp: wf_cart_def dest: in_range_length)
  define c1 where "c1 = c\<lparr>cart_position := (cart_position c)[i := v]\<rparr>"
  define s1 where "s1 = s\<lparr>ms_comms := (ms_comms s)[nat comm := Some (cm\<lparr>cm_topology := Some (Cart c1)\<rparr>)]\<rparr>"
  have g1: "get_comm s1 comm = Some (cm\<lparr>cm_topology := Some (Cart c1)\<rparr>)"
    unfolding s1_def by (rule get_comm_upd [OF cm(1)])
  note w = wrapped_update [OF cm(3) assms(2,3) c1_def]
  have r: "PMPI_Cart_rank comm (Some (cart_position c1)) (Some 0) s1 =
    Some (MPI_SUCCESS, Some (rank_of ((cart_position c)[i := v mod cart_dims c ! i]) (cart_dims c)), s1)"
    using cart_rank_ok [OF g1 _ w(3,2)] w(1) by (simp add: c1_def)
  have restore: "set_position comm c1 (int i) (cart_position c ! i) s1 = Some (c, s)"
  proof -
    have e: "c1\<lparr>cart_position := (cart_position c1)[i := cart_position c ! i]\<rparr> = c" by (simp add: c1_def)
    have "i < length (cart_position c1)" using l by (simp add: c1_def)
    moreover have "cm\<lparr>cm_topology := Some (Cart c)\<rparr> = cm" using cm(2) by (cases cm) simp
    moreover have "(ms_comms s)[nat comm := Some cm] = ms_comms s"
      using cm(1) by (auto simp: get_comm_Some intro: list_update_same_conv [THEN iffD2])
    ultimately show ?thesis
      using set_position_ok [OF g1, of i c1 "cart_position c ! i"] unfolding e by (simp add: s1_def)
  qed
  show ?thesis
    using set_position_ok [OF cm(1) l, of v] r restore by (simp add: shift_rank_def c1_def [symmetric] s1_def [symmetric])
qed

definition shift_fits :: "cart \<Rightarrow> nat \<Rightarrow> int \<Rightarrow> bool" where
  "shift_fits c i disp \<longleftrightarrow> disp = 0 \<or> int_range (cart_position c ! i - disp) \<and> int_range (cart_position c ! i + disp)"

lemma shift_ok:
  assumes "cart_comm s comm c" and "0 \<le> direction" and "direction < cart_ndims c"
  shows "PMPI_Cart_shift comm direction disp (Some a) (Some b) s =
    (if shift_fits c (nat direction) disp
     then Some (MPI_SUCCESS, Some (shifted c (nat direction) (- disp)), Some (shifted c (nat direction) disp), s) else None)"
proof -
  from assms(1) obtain cm where cm: "get_comm s comm = Some cm" "cm_topology cm = Some (Cart c)" "wf_cart c"
    "cm_rank cm = rank_of (cart_position c) (cart_dims c)"
    by (rule cart_commD)
  define i where "i = nat direction"
  have i: "direction = int i" "i < length (cart_dims c)"
    using assms(2,3) cm(3) by (auto simp: i_def wf_cart_def wf_grid_def)
  have l: "length (cart_position c) = length (cart_dims c)" "length (cart_periods c) = length (cart_dims c)"
    using cm(3) by (auto simp: wf_cart_def wf_grid_def dest: in_range_length)
  have p: "0 \<le> cart_position c ! i" "cart_position c ! i < cart_dims c ! i"
    using cm(3) l i(2) by (simp_all add: wf_cart_def in_range_def list_all2_conv_all_nth)
  note sr = shift_rank_ok [OF assms(1) i(2)]
  show ?thesis
  proof (cases "disp = 0")
    case True
    with assms(2,3) cm i p l show ?thesis
      by (simp add: PMPI_Cart_shift_def get_cart_ok shifted_def shift_fits_def Let_def)
  next
    case False
    with assms(2,3) i l sr [of "cart_position c ! i - disp"] sr [of "cart_position c ! i + disp"] get_cart_ok [OF cm(1,2)]
    show ?thesis
      by (auto simp: PMPI_Cart_shift_def shifted_def shift_fits_def c_int_def Let_def finish_def not_less not_le)
  qed
qed

lemma rank_of_inj:
  "pos_dims ds \<Longrightarrow> in_range xs ds \<Longrightarrow> in_range ys ds \<Longrightarrow> rank_of xs ds = rank_of ys ds \<Longrightarrow> xs = ys"
  by (metis option.inject split_rank_of)

lemma in_range_update:
  "in_range xs ds \<Longrightarrow> i < length ds \<Longrightarrow> 0 < ds ! i \<Longrightarrow> in_range (xs[i := v mod ds ! i]) ds"
  by (auto simp: in_range_def list_all2_conv_all_nth nth_list_update)

lemma shifted_inverse:
  assumes "wf_cart c" and "wf_cart c'" and "cart_dims c' = cart_dims c" and "cart_periods c' = cart_periods c"
    and "i < length (cart_dims c)" and "shifted c i k = rank_of (cart_position c') (cart_dims c)"
  shows "shifted c' i (- k) = rank_of (cart_position c) (cart_dims c)"
proof -
  let ?p = "cart_position c" and ?ds = "cart_dims c"
  let ?d = "?ds ! i" and ?x = "cart_position c ! i + k"
  have r: "pos_dims ?ds" "in_range ?p ?ds" "in_range (cart_position c') ?ds"
    using assms(1-3) by (simp_all add: wf_cart_def wf_grid_def)
  have d: "0 < ?d" using r(1) assms(5) by (simp add: pos_dims_def list_all_length)
  have l: "length ?p = length ?ds" using r(2) by (rule in_range_length)
  have pi: "0 \<le> ?p ! i" "?p ! i < ?d" using r(2) l assms(5) by (simp_all add: in_range_def list_all2_conv_all_nth)
  have nn: "0 \<le> rank_of (cart_position c') ?ds" using rank_of_bounds [OF r(1,3)] by simp
  then have ok: "cart_periods c ! i = 0 \<Longrightarrow> 0 \<le> ?x \<and> ?x < ?d"
    and eq: "rank_of (?p[i := ?x mod ?d]) ?ds = rank_of (cart_position c') ?ds"
    using assms(6) by (auto simp: shifted_def Let_def split: if_splits)
  have p': "cart_position c' = ?p[i := ?x mod ?d]"
    using rank_of_inj [OF r(1) in_range_update [OF r(2) assms(5) d] r(3) eq] by simp
  then have "cart_position c' ! i = ?x mod ?d" using assms(5) l by simp
  moreover have "(?x mod ?d - k) mod ?d = ?p ! i" using pi by (simp add: mod_diff_left_eq)
  moreover have "cart_periods c ! i = 0 \<Longrightarrow> ?x mod ?d = ?x" using ok by simp
  moreover have "(cart_position c')[i := ?p ! i] = ?p" by (simp add: p')
  ultimately show ?thesis using pi assms(3,4) by (auto simp: shifted_def Let_def)
qed

subsection \<open>Properties\<close>

text \<open>The state of rank 4 in a 2 by 3 grid that is periodic in the second dimension.\<close>

definition sample_cart :: cart where
  "sample_cart = \<lparr>cart_nnodes = 6, cart_ndims = 2, cart_dims = [2, 3], cart_periods = [0, 1], cart_position = [1, 1]\<rparr>"

definition sample_state :: "cart \<Rightarrow> mpi_state" where
  "sample_state c = \<lparr>ms_comms = [None, Some \<lparr>cm_size = 6, cm_rank = rank_of (cart_position c) (cart_dims c),
     cm_remote_size = 6, cm_topology = Some (Cart c)\<rparr>], ms_check_args = True, ms_finalized = False, ms_allocs = [], ms_errs = []\<rparr>"

lemma sample_cart_comm: "cart_comm (sample_state sample_cart) 1 sample_cart"
  by code_simp

text \<open>C26: for every rank of a Cartesian communicator, \<^verbatim>\<open>MPI_Cart_coords\<close> gives coordinates within the
  dimensions, and \<^verbatim>\<open>MPI_Cart_rank\<close> takes them back to the rank.\<close>

theorem cart_rank_of_coords:
  assumes "cart_comm s comm c" and "0 \<le> rank" and "rank < cart_nnodes c" and "0 < cart_ndims c"
    and "cart_ndims c \<le> maxdims" and "int (length buf) = cart_ndims c"
  shows "\<exists>xs. PMPI_Cart_coords comm rank maxdims (Some buf) s = Some (MPI_SUCCESS, Some xs, s)
    \<and> in_range xs (cart_dims c) \<and> PMPI_Cart_rank comm (Some xs) (Some r0) s = Some (MPI_SUCCESS, Some rank, s)"
proof -
  from assms(1) obtain cm where cm: "get_comm s comm = Some cm" "cm_topology cm = Some (Cart c)" "wf_cart c"
    by (rule cart_commD)
  have g: "wf_grid c" "pos_dims (cart_dims c)" "cart_nnodes c = prod_list (cart_dims c)"
    using cm(3) by (simp_all add: wf_cart_def wf_grid_def)
  obtain xs where xs: "split_rank (cart_dims c) (cart_nnodes c) rank = Some xs" "in_range xs (cart_dims c)"
    "rank_of xs (cart_dims c) = rank"
    using split_rank_ok [OF g(2), of rank] assms(2,3) g(3) by auto
  with cart_coords_ok [OF assms(1-3,5,4,6) xs(1)] cart_rank_ok [OF cm(1,2) g(1) wrapped_in_range(2) [OF g(1) xs(2)]]
    wrapped_in_range(1) [OF g(1) xs(2)] show ?thesis by auto
qed

theorem cart_rank_of_coords_witness:
  "\<exists>xs. PMPI_Cart_coords 1 5 2 (Some [0, 0]) (sample_state sample_cart) = Some (MPI_SUCCESS, Some xs, sample_state sample_cart)
    \<and> in_range xs (cart_dims sample_cart)
    \<and> PMPI_Cart_rank 1 (Some xs) (Some 7) (sample_state sample_cart) = Some (MPI_SUCCESS, Some 5, sample_state sample_cart)"
  by (rule cart_rank_of_coords [OF sample_cart_comm]) (simp_all add: sample_cart_def)

text \<open>Conversely, \<^verbatim>\<open>MPI_Cart_rank\<close> of coordinates within the dimensions is a rank of the communicator,
  and \<^verbatim>\<open>MPI_Cart_coords\<close> gives the coordinates back.\<close>

theorem cart_coords_of_rank:
  assumes "cart_comm s comm c" and "in_range xs (cart_dims c)" and "0 < cart_ndims c" and "cart_ndims c \<le> maxdims"
    and "int (length buf) = cart_ndims c"
  shows "\<exists>rank. PMPI_Cart_rank comm (Some xs) (Some r0) s = Some (MPI_SUCCESS, Some rank, s)
    \<and> 0 \<le> rank \<and> rank < cart_nnodes c
    \<and> PMPI_Cart_coords comm rank maxdims (Some buf) s = Some (MPI_SUCCESS, Some xs, s)"
proof -
  from assms(1) obtain cm where cm: "get_comm s comm = Some cm" "cm_topology cm = Some (Cart c)" "wf_cart c"
    by (rule cart_commD)
  have g: "wf_grid c" "pos_dims (cart_dims c)" "cart_nnodes c = prod_list (cart_dims c)"
    using cm(3) by (simp_all add: wf_cart_def wf_grid_def)
  let ?r = "rank_of xs (cart_dims c)"
  have b: "0 \<le> ?r" "?r < cart_nnodes c" using rank_of_bounds [OF g(2) assms(2)] g(3) by simp_all
  have "split_rank (cart_dims c) (cart_nnodes c) ?r = Some xs" using split_rank_of [OF g(2) assms(2)] g(3) by simp
  with cart_coords_ok [OF assms(1) b assms(4,3,5)] cart_rank_ok [OF cm(1,2) g(1) wrapped_in_range(2) [OF g(1) assms(2)]]
    wrapped_in_range(1) [OF g(1) assms(2)] b show ?thesis by simp
qed

theorem cart_coords_of_rank_witness:
  "\<exists>rank. PMPI_Cart_rank 1 (Some [1, 2]) (Some 7) (sample_state sample_cart) = Some (MPI_SUCCESS, Some rank, sample_state sample_cart)
    \<and> 0 \<le> rank \<and> rank < cart_nnodes sample_cart
    \<and> PMPI_Cart_coords 1 rank 2 (Some [0, 0]) (sample_state sample_cart) = Some (MPI_SUCCESS, Some [1, 2], sample_state sample_cart)"
  by (rule cart_coords_of_rank [OF sample_cart_comm]) (simp_all add: sample_cart_def)

text \<open>In periodic dimensions \<^verbatim>\<open>MPI_Cart_rank\<close> accepts every coordinate, also a negative one, and returns the
  rank of the coordinate reduced modulo the dimension.\<close>

theorem cart_rank_periodic:
  assumes "cart_comm s comm c" and "valid_coords c xs"
  shows "PMPI_Cart_rank comm (Some xs) (Some r0) s = Some (MPI_SUCCESS, Some (rank_of (wrapped c xs) (cart_dims c)), s)
    \<and> in_range (wrapped c xs) (cart_dims c)"
proof -
  from assms(1) obtain cm where cm: "get_comm s comm = Some cm" "cm_topology cm = Some (Cart c)" "wf_cart c"
    by (rule cart_commD)
  have g: "wf_grid c" using cm(3) by (rule wf_cart_grid)
  have l: "length xs = length (cart_dims c)" using assms(2) by (simp add: valid_coords_def)
  have "in_range (wrapped c xs) (cart_dims c)"
    using assms(2) g l
    by (auto simp: in_range_def list_all2_conv_all_nth length_wrapped [OF g l] wrapped_nth [OF g l] wrap_def
        valid_coords_def list_all_length wf_grid_def pos_dims_def)
  with cart_rank_ok [OF cm(1,2) g assms(2)] show ?thesis by simp
qed

theorem cart_rank_periodic_witness:
  "PMPI_Cart_rank 1 (Some [1, - 4]) (Some 7) (sample_state sample_cart)
      = Some (MPI_SUCCESS, Some (rank_of (wrapped sample_cart [1, - 4]) (cart_dims sample_cart)), sample_state sample_cart)
    \<and> in_range (wrapped sample_cart [1, - 4]) (cart_dims sample_cart)"
proof -
  have "valid_coords sample_cart [1, - 4]" by code_simp
  then show ?thesis by (rule cart_rank_periodic [OF sample_cart_comm])
qed

text \<open>C27: \<^verbatim>\<open>MPI_Cart_shift\<close> returns the ranks at distance \<^verbatim>\<open>disp\<close> before and after the calling process:
  modulo the dimension when it is periodic, \<^verbatim>\<open>MPI_PROC_NULL\<close> beyond the border otherwise; the stored
  position it works on is restored. The call is undefined exactly when the displacement is not 0 and the coordinate of
  the calling process plus or minus the displacement, which is computed first, is not an \<^verbatim>\<open>int\<close>. (The communicator has a well-formed
  Cartesian topology whose number of nodes is its size; no rank or partial product exceeds that size.)\<close>

theorem cart_shift_correct:
  assumes "cart_comm s comm c" and "0 \<le> direction" and "direction < cart_ndims c"
  shows "PMPI_Cart_shift comm direction disp (Some a) (Some b) s =
    (if disp = 0 \<or> int_range (cart_position c ! nat direction - disp) \<and> int_range (cart_position c ! nat direction + disp)
     then Some (MPI_SUCCESS, Some (shifted c (nat direction) (- disp)), Some (shifted c (nat direction) disp), s) else None)"
  unfolding shift_fits_def [symmetric] using shift_ok [OF assms] .

theorem cart_shift_correct_witness:
  "PMPI_Cart_shift 1 1 2 (Some 9) (Some 9) (sample_state sample_cart) =
    Some (MPI_SUCCESS, Some (shifted sample_cart (nat 1) (- 2)), Some (shifted sample_cart (nat 1) 2), sample_state sample_cart)"
  using cart_shift_correct [OF sample_cart_comm, of 1 2 9 9] by (simp add: sample_cart_def int_range_def)

text \<open>Shifts match up between processes: if a process finds another one as the destination of a shift,
  the other one finds it as the source of the same shift.\<close>

theorem cart_shift_inverse:
  assumes "cart_comm s comm c" and "cart_comm s' comm' c'" and "cart_dims c' = cart_dims c"
    and "cart_periods c' = cart_periods c" and "0 \<le> direction" and "direction < cart_ndims c"
    and "PMPI_Cart_shift comm direction disp (Some a) (Some b) s
      = Some (MPI_SUCCESS, src, Some (rank_of (cart_position c') (cart_dims c)), s)"
    and "shift_fits c' (nat direction) disp"
  shows "\<exists>dst. PMPI_Cart_shift comm' direction disp (Some a') (Some b') s'
      = Some (MPI_SUCCESS, Some (rank_of (cart_position c) (cart_dims c)), dst, s')"
proof -
  have wf: "wf_cart c" "wf_cart c'" using assms(1,2) by (simp_all add: cart_comm_def)
  then have n: "cart_ndims c' = cart_ndims c" "nat direction < length (cart_dims c)"
    using assms(3,5,6) by (simp_all add: wf_cart_def wf_grid_def)
  have "shifted c (nat direction) disp = rank_of (cart_position c') (cart_dims c)"
    using shift_ok [OF assms(1,5,6), of disp a b] assms(7) by (simp split: if_splits)
  from shifted_inverse [OF wf assms(3,4) n(2) this] shift_ok [OF assms(2,5), of disp a' b'] assms(6,8) n(1)
  show ?thesis by simp
qed

theorem cart_shift_inverse_witness:
  "\<exists>dst. PMPI_Cart_shift 1 1 2 (Some 9) (Some 9) (sample_state (sample_cart\<lparr>cart_position := [1, 0]\<rparr>))
      = Some (MPI_SUCCESS, Some (rank_of (cart_position sample_cart) (cart_dims sample_cart)), dst,
          sample_state (sample_cart\<lparr>cart_position := [1, 0]\<rparr>))"
proof -
  have c': "cart_comm (sample_state (sample_cart\<lparr>cart_position := [1, 0]\<rparr>)) 1 (sample_cart\<lparr>cart_position := [1, 0]\<rparr>)"
    by code_simp
  have run: "PMPI_Cart_shift 1 1 2 (Some 9) (Some 9) (sample_state sample_cart)
    = Some (MPI_SUCCESS, Some (shifted sample_cart (nat 1) (- 2)),
        Some (rank_of (cart_position (sample_cart\<lparr>cart_position := [1, 0]\<rparr>)) (cart_dims sample_cart)), sample_state sample_cart)"
    by code_simp
  show ?thesis
    by (rule cart_shift_inverse [OF sample_cart_comm c' _ _ _ _ run]) (simp_all add: sample_cart_def shift_fits_def int_range_def)
qed

text \<open>\<^verbatim>\<open>MPI_Cart_rank\<close> checks a non-periodic coordinate with \<^verbatim>\<open>coord > size\<close>, so the coordinate just
  beyond the border is accepted: in a 2 by 3 grid (1, 0) and the invalid (0, 3) would get the same rank, and
  (2, 0) gets the rank 6 of a communicator with 6 processes.\<close>

theorem cart_rank_accepts_border:
  "map_option (\<lambda>(rc, r, s). (rc, r)) (PMPI_Cart_rank 1 (Some [2, 0]) (Some 7) (sample_state sample_cart))
      = Some (MPI_SUCCESS, Some 6)
   \<and> map_option (\<lambda>(rc, r, s). (rc, r)) (PMPI_Cart_rank 1 (Some [0, 3]) (Some 7)
        (sample_state (sample_cart\<lparr>cart_periods := [0, 0]\<rparr>))) = Some (MPI_SUCCESS, Some 3)
   \<and> map_option (\<lambda>(rc, r, s). (rc, r)) (PMPI_Cart_rank 1 (Some [1, 0]) (Some 7)
        (sample_state (sample_cart\<lparr>cart_periods := [0, 0]\<rparr>))) = Some (MPI_SUCCESS, Some 3)"
  by code_simp

end
