(* ===== verification/Topology_Create.thy ===== *)
theory Topology_Create
  imports Topology_Props
begin

section \<open>Properties of topology creation and of graph topologies\<close>

subsection \<open>Creation\<close>

lemma alloc_topology_ok [simp]: "ms_allocs s = [] \<Longrightarrow> alloc_topology s = (True, s)"
  by (simp add: alloc_topology_def ms_malloc_def)

lemma set_topology_ok:
  assumes "get_comm s comm = Some cm"
  shows "ulm_set_topology comm t s =
    Some (ULM_SUCCESS, s\<lparr>ms_comms := (ms_comms s)[nat comm := Some (cm\<lparr>cm_topology := Some t\<rparr>)]\<rparr>)"
  using assms by (simp add: ulm_set_topology_def upd_comm_ok)

lemma attach_cart:
  assumes "get_comm s comm = Some cm" and "cm_size cm = cart_nnodes c" and "cm_remote_size cm = cart_nnodes c"
    and "cm_rank cm = rank_of (cart_position c) (cart_dims c)" and "wf_cart c" and "MPI_COMM_WORLD \<le> comm"
    and "\<not> ms_finalized s"
  shows "\<exists>s'. ulm_set_topology comm (Cart c) s = Some (ULM_SUCCESS, s') \<and> cart_comm s' comm c"
  using assms get_comm_upd [OF assms(1)] by (simp add: set_topology_ok cart_comm_def)

text \<open>What the communicator layer does for \<^verbatim>\<open>MPI_Cart_create\<close>: the calls succeed and the new communicator has
  the first \<open>nnodes\<close> processes, in the same order, without a topology.\<close>

definition creates :: "comm_ops \<Rightarrow> int \<Rightarrow> int \<Rightarrow> mpi_state \<Rightarrow> int \<Rightarrow> mpi_state \<Rightarrow> bool" where
  "creates ops comm_old nnodes s new s' \<longleftrightarrow> make_comm ops comm_old nnodes s = (MPI_SUCCESS, new, s')
     \<and> MPI_COMM_WORLD \<le> new \<and> ms_allocs s' = [] \<and> \<not> ms_finalized s'
     \<and> (case (get_comm s comm_old, get_comm s' new) of
          (Some cm, Some cm') \<Rightarrow> cm_size cm' = nnodes \<and> cm_remote_size cm' = nnodes \<and> cm_rank cm' = cm_rank cm
            \<and> 0 \<le> cm_rank cm \<and> cm_rank cm < nnodes
        | _ \<Rightarrow> False)"

lemma createsD:
  assumes "creates ops comm_old nnodes s new s'"
  obtains cm cm' where "make_comm ops comm_old nnodes s = (MPI_SUCCESS, new, s')" "MPI_COMM_WORLD \<le> new"
    "ms_allocs s' = []" "\<not> ms_finalized s'" "get_comm s comm_old = Some cm" "get_comm s' new = Some cm'"
    "cm_size cm' = nnodes" "cm_remote_size cm' = nnodes" "cm_rank cm' = cm_rank cm" "0 \<le> cm_rank cm"
    "cm_rank cm < nnodes"
  using assms by (auto simp: creates_def split: option.splits)

definition keep :: "bool list \<Rightarrow> 'a list \<Rightarrow> 'a list" where
  "keep bs xs = map snd (filter fst (zip bs xs))"

lemma keep_simps [simp]:
  "keep [] xs = []" "keep bs [] = []"
  "keep (b # bs) (x # xs) = (if b then x # keep bs xs else keep bs xs)"
  by (simp_all add: keep_def)

lemma sub_step_foldl:
  assumes "length ds = length bs" and "length ps = length bs"
  shows "foldl sub_step (color, key) (zip bs (zip ds ps)) =
    (color * prod_list (keep (map Not bs) ds) + rank_of (keep (map Not bs) ps) (keep (map Not bs) ds),
     key * prod_list (keep bs ds) + rank_of (keep bs ps) (keep bs ds))"
  using assms
proof (induction bs arbitrary: ds ps color key)
  case (Cons b bs)
  then obtain d ds' p ps' where l: "ds = d # ds'" "ps = p # ps'" by (metis length_Suc_conv)
  with Cons show ?case by (auto simp: sub_step_def algebra_simps)
qed simp

lemma in_range_keep: "in_range xs ds \<Longrightarrow> in_range (keep bs xs) (keep bs ds)"
proof (induction bs arbitrary: xs ds)
  case (Cons b bs)
  then show ?case by (cases xs; cases ds) auto
qed simp

lemma pos_dims_keep: "pos_dims ds \<Longrightarrow> pos_dims (keep bs ds)"
proof (induction bs arbitrary: ds)
  case (Cons b bs)
  then show ?case by (cases ds) auto
qed simp

lemma length_keep: "length xs = length ds \<Longrightarrow> length (keep bs xs) = length (keep bs ds)"
proof (induction bs arbitrary: xs ds)
  case (Cons b bs)
  then show ?case by (cases xs; cases ds) auto
qed simp

subsection \<open>Graphs\<close>

definition wf_graph :: "graph \<Rightarrow> bool" where
  "wf_graph g \<longleftrightarrow> 0 < graph_nnodes g \<and> int (length (graph_index g)) = graph_nnodes g
     \<and> sorted (0 # graph_index g) \<and> int (length (graph_edges g)) = graph_nedges g
     \<and> graph_nedges g = last (graph_index g)"

definition graph_comm :: "mpi_state \<Rightarrow> int \<Rightarrow> graph \<Rightarrow> bool" where
  "graph_comm s comm g \<longleftrightarrow> wf_graph g
     \<and> (case get_comm s comm of None \<Rightarrow> False | Some cm \<Rightarrow> cm_topology cm = Some (Graph g))"

text \<open>The neighbours of a node: its part of the edge array.\<close>

definition adjacent :: "graph \<Rightarrow> int \<Rightarrow> int list" where
  "adjacent g rank = (let a = (if rank = 0 then 0 else graph_index g ! nat (rank - 1)); b = graph_index g ! nat rank
     in take (nat (b - a)) (drop (nat a) (graph_edges g)))"

lemma neighbors_loop_ok:
  assumes "0 \<le> i" and "i \<le> stop" and "stop \<le> int (length edges)" and "0 \<le> j"
    and "j + (stop - i) \<le> maxneighbors" and "j + (stop - i) \<le> int (length ns)"
  shows "neighbors_loop edges maxneighbors stop i j ns = Some (MPI_SUCCESS,
    take (nat j) ns @ take (nat (stop - i)) (drop (nat i) edges) @ drop (nat (j + (stop - i))) ns)"
  using assms
proof (induction "nat (stop - i)" arbitrary: i j ns)
  case 0
  then show ?case by (simp add: neighbors_loop.simps)
next
  case (Suc n)
  let ?ns = "ns[nat j := edges ! nat i]"
  have lt: "i < stop" using Suc.hyps(2) by simp
  have step: "neighbors_loop edges maxneighbors stop i j ns = neighbors_loop edges maxneighbors stop (i + 1) (j + 1) ?ns"
    using lt Suc.prems by (subst neighbors_loop.simps) (simp add: arr_get_def arr_set_def)
  have k: "nat (stop - i) = Suc (nat (stop - (i + 1)))" using lt by simp
  have "drop (nat i) edges = edges ! nat i # drop (nat (i + 1)) edges"
    using lt Suc.prems by (simp add: Cons_nth_drop_Suc [symmetric] nat_add_distrib)
  then have e: "take (nat (stop - i)) (drop (nat i) edges) =
      edges ! nat i # take (nat (stop - (i + 1))) (drop (nat (i + 1)) edges)" using k by simp
  have t: "take (nat (j + 1)) ?ns = take (nat j) ns @ [edges ! nat i]"
    using lt Suc.prems by (simp add: nat_add_distrib take_Suc_conv_app_nth)
  have d: "drop (nat (j + 1 + (stop - (i + 1)))) ?ns = drop (nat (j + (stop - i))) ns"
    using lt Suc.prems by (simp add: algebra_simps drop_update_cancel)
  have "neighbors_loop edges maxneighbors stop (i + 1) (j + 1) ?ns = Some (MPI_SUCCESS,
      take (nat (j + 1)) ?ns @ take (nat (stop - (i + 1))) (drop (nat (i + 1)) edges)
        @ drop (nat (j + 1 + (stop - (i + 1)))) ?ns)"
    by (rule Suc.hyps(1)) (use Suc lt in auto)
  then show ?case using step e t d by simp
qed

lemma neighbors_loop_overflow:
  assumes "0 \<le> i" and "stop \<le> int (length edges)" and "0 \<le> j" and "j \<le> maxneighbors"
    and "maxneighbors < j + (stop - i)" and "maxneighbors \<le> int (length ns)"
  shows "\<exists>ns'. neighbors_loop edges maxneighbors stop i j ns = Some (MPI_ERR_ARG, ns')"
  using assms
proof (induction "nat (maxneighbors - j)" arbitrary: i j ns)
  case 0
  then show ?case by (simp add: neighbors_loop.simps)
next
  case (Suc n)
  have "j < maxneighbors" "i < stop" using Suc.hyps(2) Suc.prems by auto
  then have "neighbors_loop edges maxneighbors stop i j ns
      = neighbors_loop edges maxneighbors stop (i + 1) (j + 1) (ns[nat j := edges ! nat i])"
    using Suc.prems by (subst neighbors_loop.simps) (simp add: arr_get_def arr_set_def)
  moreover have "\<exists>ns'. neighbors_loop edges maxneighbors stop (i + 1) (j + 1) (ns[nat j := edges ! nat i]) = Some (MPI_ERR_ARG, ns')"
    by (rule Suc.hyps(1)) (use Suc in auto)
  ultimately show ?case by simp
qed

lemma wf_graph_index:
  assumes "wf_graph g" and "0 \<le> rank" and "rank < graph_nnodes g"
  defines "a \<equiv> (if rank = 0 then 0 else graph_index g ! nat (rank - 1))"
  shows "0 \<le> a" "a \<le> graph_index g ! nat rank" "graph_index g ! nat rank \<le> int (length (graph_edges g))"
proof -
  let ?ix = "graph_index g"
  have s: "sorted ?ix" "\<forall>x \<in> set ?ix. 0 \<le> x" using assms(1) by (auto simp: wf_graph_def)
  have n: "nat rank < length ?ix" using assms(1-3) by (simp add: wf_graph_def nat_less_iff)
  then have m: "?ix \<noteq> []" by auto
  show "0 \<le> a" using s(2) n assms(2) by (auto simp: a_def)
  show "a \<le> ?ix ! nat rank" using s n assms(2) by (auto simp: a_def intro: sorted_nth_mono)
  have "?ix ! nat rank \<le> last ?ix" unfolding last_conv_nth [OF m] using s(1) n by (intro sorted_nth_mono) auto
  then show "?ix ! nat rank \<le> int (length (graph_edges g))" using assms(1) by (simp add: wf_graph_def)
qed

subsection \<open>Properties\<close>

text \<open>A communicator layer with one process, the caller: new communicators go to the end of the table.\<close>

definition sample_new :: "int \<Rightarrow> int \<Rightarrow> mpi_state \<Rightarrow> mpi_state" where
  "sample_new sz rank s = s\<lparr>ms_comms := ms_comms s @ [Some \<lparr>cm_size = sz, cm_rank = rank, cm_remote_size = sz, cm_topology = None\<rparr>]\<rparr>"

definition sample_ops :: "int \<Rightarrow> int \<Rightarrow> comm_ops" where
  "sample_ops sz rank = \<lparr>op_comm_group = (\<lambda>comm s. (MPI_SUCCESS, 7, s)),
     op_group_range_incl = (\<lambda>g r s. (MPI_SUCCESS, 8, s)),
     op_comm_create = (\<lambda>comm g s. (MPI_SUCCESS, int (length (ms_comms s)), sample_new sz rank s)),
     op_group_free = (\<lambda>g s. (MPI_SUCCESS, s)),
     op_comm_split = (\<lambda>comm color key s. (MPI_SUCCESS, int (length (ms_comms s)), sample_new sz rank s)),
     op_comm_free = (\<lambda>comm s. (MPI_SUCCESS, MPI_COMM_NULL, s))\<rparr>"

definition sample_world :: mpi_state where
  "sample_world = \<lparr>ms_comms = [None, Some \<lparr>cm_size = 8, cm_rank = 4, cm_remote_size = 8, cm_topology = None\<rparr>],
     ms_check_args = True, ms_finalized = False, ms_allocs = [], ms_errs = []\<rparr>"

text \<open>C28: when the communicator layer makes a communicator of the first processes, \<^verbatim>\<open>MPI_Cart_create\<close>
  attaches a well-formed topology with the given dimensions and periods, whose stored position is that of the
  calling process: \<^verbatim>\<open>cart_comm\<close>, on which the properties above rest, holds for the new communicator.\<close>

theorem cart_create_correct:
  assumes "creates ops comm_old (prod_list ds) s new s3" and "pos_dims ds" and "ds \<noteq> []" and "length ps = length ds"
    and "get_comm s comm_old = Some cm" and "prod_list ds \<le> cm_size cm"
  shows "\<exists>c s'. PMPI_Cart_create ops comm_old (int (length ds)) (Some ds) (Some ps) (Some x) s
      = Some (MPI_SUCCESS, Some new, s') \<and> cart_comm s' new c \<and> cart_dims c = ds \<and> cart_periods c = ps"
proof -
  let ?n = "prod_list ds"
  from assms(1) obtain cm' where m: "make_comm ops comm_old ?n s = (MPI_SUCCESS, new, s3)" "MPI_COMM_WORLD \<le> new"
    "ms_allocs s3 = []" "\<not> ms_finalized s3" "get_comm s3 new = Some cm'" "cm_size cm' = ?n" "cm_remote_size cm' = ?n"
    "cm_rank cm' = cm_rank cm" "0 \<le> cm_rank cm" "cm_rank cm < ?n"
    using assms(5) by (auto elim!: createsD)
  have n: "0 < ?n" using prod_pos [OF assms(2)] .
  from split_rank_ok [OF assms(2) m(9,10)] obtain xs where
    xs: "split_rank ds ?n (cm_rank cm) = Some xs" "in_range xs ds" "rank_of xs ds = cm_rank cm" by auto
  define c where "c = \<lparr>cart_nnodes = ?n, cart_ndims = int (length ds), cart_dims = ds, cart_periods = ps, cart_position = xs\<rparr>"
  have "wf_cart c" using xs assms(2,4) by (simp add: c_def wf_cart_def wf_grid_def)
  with attach_cart [OF m(5), of c] m xs(3) obtain s' where
    s': "ulm_set_topology new (Cart c) s3 = Some (ULM_SUCCESS, s')" "cart_comm s' new c" by (auto simp: c_def)
  have "PMPI_Cart_create ops comm_old (int (length ds)) (Some ds) (Some ps) (Some x) s = Some (MPI_SUCCESS, Some new, s')"
    using assms(3-6) n m(1-3) xs(1) s'(1)
    by (simp add: PMPI_Cart_create_def dims_product_eq Let_def c_def)
  with s'(2) show ?thesis by (intro exI [of _ c] exI [of _ s']) (simp add: c_def)
qed

theorem cart_create_correct_witness:
  "\<exists>c s'. PMPI_Cart_create (sample_ops 6 4) 1 (int (length [2, 3 :: int])) (Some [2, 3]) (Some [0, 1]) (Some 0) sample_world
      = Some (MPI_SUCCESS, Some 2, s') \<and> cart_comm s' 2 c \<and> cart_dims c = [2, 3] \<and> cart_periods c = [0, 1]"
proof -
  have c: "creates (sample_ops 6 4) 1 (prod_list [2, 3]) sample_world 2 (sample_new 6 4 sample_world)" by code_simp
  have g: "get_comm sample_world 1 = Some \<lparr>cm_size = 8, cm_rank = 4, cm_remote_size = 8, cm_topology = None\<rparr>"
    by code_simp
  show ?thesis by (rule cart_create_correct [OF c _ _ _ g]) simp_all
qed

text \<open>\<^verbatim>\<open>MPI_Cart_sub\<close> splits by a colour that is the rank of the dropped coordinates and a key that is the
  rank of the kept ones; when the communicator layer orders the new communicator by the key, the new topology
  has the kept dimensions and periods and the kept coordinates as its position.\<close>

theorem cart_sub_correct:
  assumes "cart_comm s comm c" and "length rds = length (cart_dims c)"
    and "bs = map (\<lambda>r. r \<noteq> 0) rds"
    and "op_comm_split ops comm
      (rank_of (keep (map Not bs) (cart_position c)) (keep (map Not bs) (cart_dims c)))
      (rank_of (keep bs (cart_position c)) (keep bs (cart_dims c))) s = (MPI_SUCCESS, new, s2)"
    and "get_comm s2 new = Some cm" and "MPI_COMM_WORLD \<le> new" and "ms_allocs s2 = []" and "\<not> ms_finalized s2"
    and "cm_rank cm = rank_of (keep bs (cart_position c)) (keep bs (cart_dims c))"
    and "cm_size cm = prod_list (keep bs (cart_dims c))" and "cm_remote_size cm = prod_list (keep bs (cart_dims c))"
  shows "\<exists>c' s'. PMPI_Cart_sub ops comm (Some rds) (Some x) s = Some (MPI_SUCCESS, Some new, s') \<and> cart_comm s' new c'
    \<and> cart_dims c' = keep bs (cart_dims c) \<and> cart_periods c' = keep bs (cart_periods c)
    \<and> cart_position c' = keep bs (cart_position c)"
proof -
  from assms(1) obtain cm0 where cm0: "get_comm s comm = Some cm0" "cm_topology cm0 = Some (Cart c)" "wf_cart c"
    by (rule cart_commD)
  let ?ds = "keep bs (cart_dims c)" and ?xs = "keep bs (cart_position c)"
  have l: "length (cart_position c) = length (cart_dims c)" "length (cart_periods c) = length (cart_dims c)"
    "nat (cart_ndims c) = length (cart_dims c)" "pos_dims (cart_dims c)" "in_range (cart_position c) (cart_dims c)"
    using cm0(3) by (auto simp: wf_cart_def wf_grid_def dest: in_range_length)
  have lb: "length bs = length (cart_dims c)" using assms(2,3) by simp
  have r: "pos_dims ?ds" "in_range ?xs ?ds" using pos_dims_keep l(4) in_range_keep [OF l(5)] by auto
  define c' where "c' = \<lparr>cart_nnodes = prod_list ?ds, cart_ndims = int (length ?ds), cart_dims = ?ds,
    cart_periods = keep bs (cart_periods c), cart_position = ?xs\<rparr>"
  have "wf_cart c'" using r length_keep [OF l(2)] by (simp add: c'_def wf_cart_def wf_grid_def)
  with attach_cart [OF assms(5), of c'] assms(6,8-11) obtain s' where
    s': "ulm_set_topology new (Cart c') s2 = Some (ULM_SUCCESS, s')" "cart_comm s' new c'" by (auto simp: c'_def)
  have "PMPI_Cart_sub ops comm (Some rds) (Some x) s = Some (MPI_SUCCESS, Some new, s')"
    using assms(2,4,5,7,9) s'(1) l split_rank_of [OF r] sub_step_foldl [of "cart_dims c" bs "cart_position c" 0 0] lb
    by (simp add: PMPI_Cart_sub_def comm_rank_ok [OF cm0(1)] get_cart_ok [OF cm0(1,2)] dims_product_eq Let_def
        assms(3) [symmetric] keep_def [symmetric] c'_def)
  with s'(2) show ?thesis by (intro exI [of _ c'] exI [of _ s']) (simp add: c'_def)
qed

theorem cart_sub_correct_witness:
  "\<exists>c' s'. PMPI_Cart_sub (sample_ops 3 1) 1 (Some [0, 1]) (Some 0) (sample_state sample_cart) = Some (MPI_SUCCESS, Some 2, s')
    \<and> cart_comm s' 2 c'
    \<and> cart_dims c' = keep [False, True] (cart_dims sample_cart) \<and> cart_periods c' = keep [False, True] (cart_periods sample_cart)
    \<and> cart_position c' = keep [False, True] (cart_position sample_cart)"
proof -
  let ?s = "sample_state sample_cart"
  have split: "op_comm_split (sample_ops 3 1) 1
      (rank_of (keep (map Not [False, True]) (cart_position sample_cart)) (keep (map Not [False, True]) (cart_dims sample_cart)))
      (rank_of (keep [False, True] (cart_position sample_cart)) (keep [False, True] (cart_dims sample_cart))) ?s
    = (MPI_SUCCESS, 2, sample_new 3 1 ?s)" by (simp add: sample_ops_def sample_state_def)
  have g: "get_comm (sample_new 3 1 ?s) 2 = Some \<lparr>cm_size = 3, cm_rank = 1, cm_remote_size = 3, cm_topology = None\<rparr>"
    by code_simp
  show ?thesis
    by (rule cart_sub_correct [OF sample_cart_comm _ _ split g])
      (simp_all add: sample_cart_def sample_new_def sample_state_def)
qed

text \<open>C29: on a well-formed graph, \<^verbatim>\<open>MPI_Graph_neighbors_count\<close> returns the number of neighbours of a node, and
  \<^verbatim>\<open>MPI_Graph_neighbors\<close> stores exactly these at the front of an array that is large enough; when
  \<^verbatim>\<open>maxneighbors\<close> is too small it returns \<^verbatim>\<open>MPI_ERR_ARG\<close>.\<close>

theorem graph_neighbors_correct:
  assumes "graph_comm s comm g" and "0 \<le> rank" and "rank < graph_nnodes g" and "0 \<le> maxneighbors"
    and "maxneighbors \<le> int (length ns)"
  shows "PMPI_Graph_neighbors_count comm rank (Some k) s = Some (MPI_SUCCESS, Some (int (length (adjacent g rank))), s)
    \<and> (if int (length (adjacent g rank)) \<le> maxneighbors
        then PMPI_Graph_neighbors comm rank maxneighbors (Some ns) s
          = Some (MPI_SUCCESS, Some (adjacent g rank @ drop (length (adjacent g rank)) ns), s)
        else \<exists>ns'. PMPI_Graph_neighbors comm rank maxneighbors (Some ns) s
          = Some (MPI_ERR_ARG, Some ns', finish comm MPI_ERR_ARG s))"
proof -
  from assms(1) obtain cm where cm: "get_comm s comm = Some cm" "cm_topology cm = Some (Graph g)" and wf: "wf_graph g"
    by (auto simp: graph_comm_def split: option.splits)
  define a where "a = (if rank = 0 then 0 else graph_index g ! nat (rank - 1))"
  define b where "b = graph_index g ! nat rank"
  have ab: "0 \<le> a" "a \<le> b" "b \<le> int (length (graph_edges g))"
    using wf_graph_index [OF wf assms(2,3)] by (simp_all add: a_def b_def)
  have adj: "adjacent g rank = take (nat (b - a)) (drop (nat a) (graph_edges g))"
    by (simp add: adjacent_def a_def b_def Let_def)
  have "nat (b - a) \<le> length (graph_edges g) - nat a" using ab by linarith
  then have ln: "int (length (adjacent g rank)) = b - a" using ab by (simp add: adj)
  have get: "arr_get (graph_index g) rank = Some b" "rank \<noteq> 0 \<Longrightarrow> arr_get (graph_index g) (rank - 1) = Some a"
    "rank = 0 \<Longrightarrow> a = 0"
    using wf assms(2,3) by (simp_all add: arr_get_def wf_graph_def a_def b_def)
  have gg: "get_graph comm s = Some (Inr g)" using cm by (simp add: get_graph_def)
  have count: "PMPI_Graph_neighbors_count comm rank (Some k) s = Some (MPI_SUCCESS, Some (int (length (adjacent g rank))), s)"
    using assms(2,3) get ln by (cases "rank = 0") (simp_all add: PMPI_Graph_neighbors_count_def gg)
  have nb: "PMPI_Graph_neighbors comm rank maxneighbors (Some ns) s =
      do { (rc, ns') \<leftarrow> neighbors_loop (graph_edges g) maxneighbors b a 0 ns; Some (rc, Some ns', finish comm rc s) }"
    using assms(2-4) get by (cases "rank = 0") (simp_all add: PMPI_Graph_neighbors_def gg)
  show ?thesis
  proof (cases "b - a \<le> maxneighbors")
    case True
    have "length (adjacent g rank) = nat (b - a)" using ln by simp
    with neighbors_loop_ok [OF ab, of 0 maxneighbors ns] True assms(5) have
      "neighbors_loop (graph_edges g) maxneighbors b a 0 ns
        = Some (MPI_SUCCESS, adjacent g rank @ drop (length (adjacent g rank)) ns)" by (simp add: adj [symmetric])
    with count nb ln True show ?thesis by (simp add: finish_def)
  next
    case False
    with neighbors_loop_overflow [OF ab(1,3), of 0 maxneighbors ns] assms(4,5) obtain ns' where
      "neighbors_loop (graph_edges g) maxneighbors b a 0 ns = Some (MPI_ERR_ARG, ns')" by auto
    with count nb ln False show ?thesis by simp
  qed
qed

definition sample_graph :: graph where
  "sample_graph = \<lparr>graph_nnodes = 4, graph_nedges = 6, graph_index = [2, 3, 4, 6], graph_edges = [1, 3, 0, 3, 0, 2]\<rparr>"

definition sample_graph_state :: mpi_state where
  "sample_graph_state = sample_world\<lparr>ms_comms := [None, Some \<lparr>cm_size = 4, cm_rank = 0, cm_remote_size = 4,
     cm_topology = Some (Graph sample_graph)\<rparr>]\<rparr>"

theorem graph_neighbors_correct_witness:
  "PMPI_Graph_neighbors_count 1 3 (Some 9) sample_graph_state
      = Some (MPI_SUCCESS, Some (int (length (adjacent sample_graph 3))), sample_graph_state)
    \<and> (if int (length (adjacent sample_graph 3)) \<le> 3
        then PMPI_Graph_neighbors 1 3 3 (Some [9, 9, 9]) sample_graph_state
          = Some (MPI_SUCCESS, Some (adjacent sample_graph 3 @ drop (length (adjacent sample_graph 3)) [9, 9, 9]), sample_graph_state)
        else \<exists>ns'. PMPI_Graph_neighbors 1 3 3 (Some [9, 9, 9]) sample_graph_state
          = Some (MPI_ERR_ARG, Some ns', finish 1 MPI_ERR_ARG sample_graph_state))"
proof -
  have "graph_comm sample_graph_state 1 sample_graph" by code_simp
  then show ?thesis by (rule graph_neighbors_correct) (simp_all add: sample_graph_def)
qed

end
