(* ===== verification/Coll_Tree.thy ===== *)
theory Coll_Tree
  imports Lampi_Prelude
begin

section \<open>Trees for collective communication\<close>

text \<open>
  \<^verbatim>\<open>collective/coll_tree.c\<close>: the tree of hosts along which gather and scatter move data
  (\<^verbatim>\<open>setupNaryTree\<close>) and the two orders in which the data of the hosts is laid out
  (\<^verbatim>\<open>getScatterNodeOrder\<close>, \<^verbatim>\<open>getGatherNodeOrder\<close>). A pointer to an array is \<open>None\<close> when it is null. The
  argument \<open>allocs\<close> is the outcome of the coming allocations (success when it runs out), \<open>junk\<close> the contents
  of fresh memory; an access outside an array, a null pointer, a loop that does not end and a product or sum that is not
  an \<^verbatim>\<open>int\<close> are \<open>None\<close>.
\<close>

record ulm_tree =
  t_nNodes :: int
  t_order :: int
  t_treeDepth :: int
  t_nFullLevels :: int
  t_nNodesInFullLevels :: int
  t_nUpNodes :: "int list option"
  t_upNodes :: "int list option"
  t_nDownNodes :: "int list option"
  t_nInPartialLevel :: "int list option"
  t_startLevel :: "int list option"
  t_downNodes :: "int list option list option"

abbreviation (input) ULM_ERR_OUT_OF_RESOURCE :: int where "ULM_ERR_OUT_OF_RESOURCE \<equiv> - 2"

subsection \<open>Parent and children in a complete tree\<close>

definition get_parent :: "int \<Rightarrow> int \<Rightarrow> int option" where
  "get_parent node_id k =
     (if k = 0 then None
      else if node_id smod k = 0 then Some (node_id sdiv k - 1) else Some (node_id sdiv k))"

text \<open>The result is \<^verbatim>\<open>*num_children\<close> and the array; the allocation is not checked.\<close>

definition get_children :: "bool \<Rightarrow> int \<Rightarrow> int \<Rightarrow> int \<Rightarrow> (int \<times> int list) option" where
  "get_children ok node_id num_nodes k =
     do {
       k1 \<leftarrow> c_int (k + 1);
       last \<leftarrow> c_int (num_nodes - 1);
       bound \<leftarrow> c_int (node_id * k1);
       num_children \<leftarrow> (if last \<ge> bound then Some k
         else do { below \<leftarrow> c_int (k * node_id); rest \<leftarrow> c_int (num_nodes - below); c_int (rest - 1) });
       (if num_children < 1 then Some (num_children, [])
        else if \<not> ok then None
        else do {
          base \<leftarrow> c_int (node_id * k);
          top \<leftarrow> c_int (base + num_children);
          Some (num_children, [base + 1..top])
        })
     }"

subsection \<open>Setting up the tree\<close>

partial_function (option) depth_loop :: "int \<Rightarrow> int \<Rightarrow> int \<Rightarrow> int \<Rightarrow> (int \<times> int) option" where
  "depth_loop order nMax nInFullLevels depth =
     (if nMax > 0 then
        if order = 0 then None
        else do {
          full \<leftarrow> c_int (nInFullLevels * order);
          depth_loop order (nMax sdiv order) full (depth + 1)
        }
      else Some (nInFullLevels, depth))"

declare depth_loop.simps [code]

definition take_alloc :: "bool list \<Rightarrow> bool \<times> bool list" where
  "take_alloc allocs = (case allocs of [] \<Rightarrow> (True, []) | b # bs \<Rightarrow> (b, bs))"

definition alloc_array :: "'a \<Rightarrow> int \<Rightarrow> bool list \<Rightarrow> 'a list option \<times> bool list" where
  "alloc_array junk n allocs =
     (case take_alloc allocs of (ok, rest) \<Rightarrow> (if ok then Some (replicate (nat n) junk) else None, rest))"

definition put :: "'a list option \<Rightarrow> int \<Rightarrow> 'a \<Rightarrow> 'a list option" where
  "put p i v = Option.bind p (\<lambda>a. arr_set a i v)"

definition get :: "'a list option \<Rightarrow> int \<Rightarrow> 'a option" where
  "get p i = Option.bind p (\<lambda>a. arr_get a i)"

text \<open>\<^verbatim>\<open>cumNodes[level] = cum; cum *= order\<close> for the levels from 1 on.\<close>

fun cum_loop :: "int \<Rightarrow> int list \<Rightarrow> int \<Rightarrow> int list \<Rightarrow> int list option" where
  "cum_loop order [] cum cumNodes = Some cumNodes"
| "cum_loop order (level # levels) cum cumNodes = do {
     cn \<leftarrow> arr_set cumNodes level cum;
     cum' \<leftarrow> c_int (cum * order);
     cum_loop order levels cum' cn
   }"

text \<open>The children of one node on one level, \<open>j\<close> of them at most: the loop stops at the first number that
  is not a node. The state is the array, \<^verbatim>\<open>nDownNodes[node]\<close>, \<^verbatim>\<open>nInPartialLevel[node]\<close> and \<^verbatim>\<open>cnt\<close>.\<close>

fun child_loop :: "int \<Rightarrow> bool \<Rightarrow> nat \<Rightarrow> int \<Rightarrow> int list option \<times> int \<times> int \<times> int \<Rightarrow>
    (int list option \<times> int \<times> int \<times> int) option" where
  "child_loop nNodes lastp 0 tmp st = Some st"
| "child_loop nNodes lastp (Suc j) tmp (arr, nDown, nPartial, cnt) =
     (if tmp \<ge> nNodes then Some (arr, nDown, nPartial, cnt)
      else do {
        arr' \<leftarrow> put arr cnt tmp;
        child_loop nNodes lastp j (tmp + 1)
          (Some arr', nDown + 1, (if lastp then nPartial + 1 else nPartial), cnt + 1)
      })"

definition level_step :: "int \<Rightarrow> int \<Rightarrow> int \<Rightarrow> bool \<Rightarrow> int list \<Rightarrow> int \<Rightarrow> int list option \<times> int \<times> int \<times> int \<Rightarrow> int \<Rightarrow>
    (int list option \<times> int \<times> int \<times> int) option" where
  "level_step nNodes order depth partialLastLevel cumNodes node st cLevel = do {
     c \<leftarrow> arr_get cumNodes cLevel;
     first \<leftarrow> c_int (node * (order - 1));
     tmp \<leftarrow> c_int (first + c);
     child_loop nNodes (cLevel = depth - 1 \<and> partialLastLevel) (nat (order - 1)) tmp st
   }"

text \<open>The parent of a node, and the arrays of one node: \<open>Inl\<close> is the return after a failed allocation.\<close>

definition set_parent :: "int \<Rightarrow> int list \<Rightarrow> int \<Rightarrow> int \<Rightarrow> ulm_tree \<Rightarrow> ulm_tree option" where
  "set_parent order cumNodes level node tree =
     (if level \<noteq> 0 then do {
        c \<leftarrow> arr_get cumNodes level;
        (if order = 1 then None else do {
           up \<leftarrow> put (t_upNodes tree) node ((node - c) sdiv (order - 1));
           nUp \<leftarrow> put (t_nUpNodes tree) node 1;
           Some (tree\<lparr>t_upNodes := Some up, t_nUpNodes := Some nUp\<rparr>)
         })
      } else do {
        up \<leftarrow> put (t_upNodes tree) node (- 1);
        nUp \<leftarrow> put (t_nUpNodes tree) node 0;
        Some (tree\<lparr>t_upNodes := Some up, t_nUpNodes := Some nUp\<rparr>)
      })"

definition set_children :: "int \<Rightarrow> int \<Rightarrow> int \<Rightarrow> int \<Rightarrow> bool \<Rightarrow> int list \<Rightarrow> int \<Rightarrow> int \<Rightarrow> ulm_tree \<Rightarrow> bool list \<Rightarrow>
    (ulm_tree + ulm_tree \<times> bool list) option" where
  "set_children junk nNodes order depth partialLastLevel cumNodes level node tree allocs = do {
     st \<leftarrow> put (t_startLevel tree) node level;
     let tree1 = tree\<lparr>t_startLevel := Some st\<rparr>;
     nToAlloc \<leftarrow> c_int ((order - 1) * (depth - (level + 1)));
     let (arr, rest) = (if nToAlloc > 0 then alloc_array junk nToAlloc allocs else (None, allocs));
     dn \<leftarrow> put (t_downNodes tree1) node arr;
     let tree2 = tree1\<lparr>t_downNodes := Some dn\<rparr>;
     (if nToAlloc > 0 \<and> arr = None then Some (Inl tree2)
      else do {
        (arr', nDown, nPartial, cnt) \<leftarrow>
          foldM (level_step nNodes order depth partialLastLevel cumNodes node) (arr, 0, 0, 0) [level + 1..depth - 1];
        dn' \<leftarrow> put (t_downNodes tree2) node arr';
        nd \<leftarrow> put (t_nDownNodes tree2) node nDown;
        np \<leftarrow> put (t_nInPartialLevel tree2) node nPartial;
        Some (Inr (tree2\<lparr>t_downNodes := Some dn', t_nDownNodes := Some nd, t_nInPartialLevel := Some np\<rparr>, rest))
      })
   }"

text \<open>The loop over the nodes, with the level counters.\<close>

fun node_loop :: "int \<Rightarrow> int \<Rightarrow> int \<Rightarrow> int \<Rightarrow> bool \<Rightarrow> int list \<Rightarrow> int list \<Rightarrow> int \<Rightarrow> int \<Rightarrow> ulm_tree \<Rightarrow> bool list \<Rightarrow>
    (int \<times> ulm_tree) option" where
  "node_loop junk nNodes order depth partialLastLevel cumNodes [] level cumNInLevel tree allocs =
     Some (ULM_SUCCESS, tree)"
| "node_loop junk nNodes order depth partialLastLevel cumNodes (node # nodes) level cumNInLevel tree allocs =
     do {
        (level', cum') \<leftarrow> (if node = cumNInLevel then do { m \<leftarrow> c_int (cumNInLevel * order); Some (level + 1, m) }
                            else Some (level, cumNInLevel));
        tree1 \<leftarrow> set_parent order cumNodes level' node tree;
        r \<leftarrow> set_children junk nNodes order depth partialLastLevel cumNodes level' node tree1 allocs;
        (case r of
           Inl tree2 \<Rightarrow> Some (ULM_ERR_OUT_OF_RESOURCE, tree2)
         | Inr (tree2, rest) \<Rightarrow>
             node_loop junk nNodes order depth partialLastLevel cumNodes nodes level' cum' tree2 rest)
      }"

text \<open>The six arrays of the tree, allocated one after the other.\<close>

definition alloc_tree :: "int \<Rightarrow> int \<Rightarrow> ulm_tree \<Rightarrow> bool list \<Rightarrow> bool \<times> ulm_tree \<times> bool list" where
  "alloc_tree junk nNodes t0 as0 =
     (case alloc_array junk nNodes as0 of (p1, as1) \<Rightarrow> let t1 = t0\<lparr>t_nUpNodes := p1\<rparr> in
      if p1 = None then (False, t1, as1)
      else case alloc_array junk nNodes as1 of (p2, as2) \<Rightarrow> let t2 = t1\<lparr>t_upNodes := p2\<rparr> in
      if p2 = None then (False, t2, as2)
      else case alloc_array junk nNodes as2 of (p3, as3) \<Rightarrow> let t3 = t2\<lparr>t_nDownNodes := p3\<rparr> in
      if p3 = None then (False, t3, as3)
      else case alloc_array (None :: int list option) nNodes as3 of (p4, as4) \<Rightarrow> let t4 = t3\<lparr>t_downNodes := p4\<rparr> in
      if p4 = None then (False, t4, as4)
      else case alloc_array junk nNodes as4 of (p5, as5) \<Rightarrow> let t5 = t4\<lparr>t_nInPartialLevel := p5\<rparr> in
      if p5 = None then (False, t5, as5)
      else case alloc_array junk nNodes as5 of (p6, as6) \<Rightarrow> let t6 = t5\<lparr>t_startLevel := p6\<rparr> in
      (p6 \<noteq> None, t6, as6))"

definition setupNaryTree :: "int \<Rightarrow> bool list \<Rightarrow> int \<Rightarrow> int \<Rightarrow> ulm_tree \<Rightarrow> (int \<times> ulm_tree) option" where
  "setupNaryTree junk allocs nNodes order tree = do {
     (nInFullLevels, depth0) \<leftarrow> depth_loop order nNodes 1 0;
     let t0 = tree\<lparr>t_nNodes := nNodes, t_order := order, t_nFullLevels := depth0,
                   t_nNodesInFullLevels := nInFullLevels\<rparr>;
     let partialLastLevel = (nInFullLevels > nNodes);
     (if partialLastLevel \<and> order = 0 then None else do {
        let depth = (if partialLastLevel then depth0 + 1 else depth0);
        let t1 = (if partialLastLevel then t0\<lparr>t_nNodesInFullLevels := nInFullLevels sdiv order\<rparr> else t0);
        let t2 = t1\<lparr>t_treeDepth := depth\<rparr>;
        (case alloc_array junk depth allocs of
           (None, as1) \<Rightarrow> Some (ULM_ERR_OUT_OF_RESOURCE, t2)
         | (Some cn0, as1) \<Rightarrow> do {
             cn1 \<leftarrow> arr_set cn0 0 0;
             cumNodes \<leftarrow> cum_loop order [1..depth - 1] 1 cn1;
             (case alloc_tree junk nNodes t2 as1 of
                (False, t3, as2) \<Rightarrow> Some (ULM_ERR_OUT_OF_RESOURCE, t3)
              | (True, t3, as2) \<Rightarrow>
                  node_loop junk nNodes order depth partialLastLevel cumNodes [0..nNodes - 1] 0 1 t3 as2)
           })
      })
   }"

subsection \<open>The orders of the nodes\<close>

text \<open>\<open>fill\<close> is \<^verbatim>\<open>fillInNodeList\<close>, the state the array and \<^verbatim>\<open>*lenNodeList\<close>. The fuel bounds the depth of the
  recursion.\<close>

definition add_root :: "bool \<Rightarrow> int \<Rightarrow> int list \<times> int \<Rightarrow> (int list \<times> int) option" where
  "add_root fill root = (\<lambda>(nodeList, len). do {
     nl \<leftarrow> (if fill then arr_set nodeList len root else Some nodeList);
     Some (nl, len + 1)
   })"

definition down_node :: "ulm_tree \<Rightarrow> int \<Rightarrow> int \<Rightarrow> int option" where
  "down_node tree root i = do { arr \<leftarrow> get (t_downNodes tree) root; get arr i }"

fun getScatterNodeOrder :: "nat \<Rightarrow> ulm_tree \<Rightarrow> bool \<Rightarrow> int \<Rightarrow> int list \<times> int \<Rightarrow> (int list \<times> int) option" where
  "getScatterNodeOrder 0 tree fill root st = None"
| "getScatterNodeOrder (Suc fuel) tree fill root st = do {
     st1 \<leftarrow> add_root fill root st;
     n \<leftarrow> get (t_nDownNodes tree) root;
     foldM (\<lambda>st i. do { c \<leftarrow> down_node tree root i; getScatterNodeOrder fuel tree fill c st }) st1 [0..n - 1]
   }"

text \<open>The indices the \<^verbatim>\<open>while\<close> loop of \<^verbatim>\<open>getGatherNodeOrder\<close> goes through, \<^verbatim>\<open>order - 1\<close> at a time.\<close>

partial_function (option) gather_chunks :: "int \<Rightarrow> int \<Rightarrow> int \<Rightarrow> int list option" where
  "gather_chunks order nDownNodes cnt =
     (if cnt < nDownNodes then do {
        let startIndex = nDownNodes - cnt - (order - 1);
        let idx = [startIndex..startIndex + (order - 1) - 1];
        rest \<leftarrow> gather_chunks order nDownNodes (cnt + int (length idx));
        Some (idx @ rest)
      } else Some [])"

declare gather_chunks.simps [code]

definition gather_indices :: "ulm_tree \<Rightarrow> int \<Rightarrow> int list option" where
  "gather_indices tree root = do {
     nInPartialLevel \<leftarrow> get (t_nInPartialLevel tree) root;
     nDownNodes \<leftarrow> get (t_nDownNodes tree) root;
     let first = (if nInPartialLevel > 0 then [nDownNodes - nInPartialLevel..nDownNodes - 1] else []);
     rest \<leftarrow> gather_chunks (t_order tree) nDownNodes (int (length first));
     Some (first @ rest)
   }"

fun getGatherNodeOrder :: "nat \<Rightarrow> ulm_tree \<Rightarrow> bool \<Rightarrow> int \<Rightarrow> int list \<times> int \<Rightarrow> (int list \<times> int) option" where
  "getGatherNodeOrder 0 tree fill root st = None"
| "getGatherNodeOrder (Suc fuel) tree fill root st = do {
     st1 \<leftarrow> add_root fill root st;
     is \<leftarrow> gather_indices tree root;
     foldM (\<lambda>st i. do { c \<leftarrow> down_node tree root i; getGatherNodeOrder fuel tree fill c st }) st1 is
   }"

end
