(* ===== verification/Coll_Tree_Props.thy ===== *)
theory Coll_Tree_Props
  imports Coll_Tree "HOL-Library.Multiset"
begin

section \<open>Correctness of the collective trees\<close>

text \<open>
  The shape of the tree in closed form: \<open>lev k v\<close> is the level of node \<open>v\<close>, \<open>dad k v\<close> its parent and
  \<open>kids n k v\<close> its children. The locale \<open>parent_tree\<close> states what the traversals need of a tree, its
  extension \<open>node_order\<close> what makes a function a traversal; both are interpreted on the tree that
  \<^verbatim>\<open>setupNaryTree\<close> builds.
\<close>

subsection \<open>Levels, parents and children\<close>

function lev :: "int \<Rightarrow> int \<Rightarrow> nat" where
  "lev k v = (if v \<le> 0 \<or> k < 2 then 0 else Suc (lev k (v div k)))"
  by auto
termination
proof (relation "measure (\<lambda>(k, v). nat v)")
  fix k v :: int assume "\<not> (v \<le> 0 \<or> k < 2)"
  then have "0 \<le> v div k" "v div k < v" by (auto simp: pos_imp_zdiv_nonneg_iff int_div_less_self)
  then show "((k, v div k), k, v) \<in> measure (\<lambda>(k, v). nat v)" by simp
qed simp

declare lev.simps [simp del]

lemma lev_0 [simp]: "lev k 0 = 0"
  by (simp add: lev.simps)

definition dad :: "int \<Rightarrow> int \<Rightarrow> int" where
  "dad k v = (v - k ^ (lev k v - 1)) div (k - 1)"

definition row :: "int \<Rightarrow> int \<Rightarrow> int \<Rightarrow> nat \<Rightarrow> int list" where
  "row n k v L = (let a = v * (k - 1) + k ^ (L - 1) in [a..min (a + (k - 1)) n - 1])"

definition kids :: "int \<Rightarrow> int \<Rightarrow> int \<Rightarrow> int list" where
  "kids n k v = concat (map (row n k v) [Suc (lev k v)..<Suc (lev k n)])"

lemma lev_bounds:
  assumes "2 \<le> k" and "0 \<le> v"
  shows "v < k ^ lev k v \<and> (0 < v \<longrightarrow> 0 < lev k v \<and> k ^ (lev k v - 1) \<le> v)"
  using assms
proof (induction k v rule: lev.induct)
  case (1 k v)
  show ?case
  proof (cases "v = 0")
    case False
    let ?q = "v div k"
    have v: "0 < v" and q: "0 \<le> ?q" using False 1(2,3) by (auto simp: pos_imp_zdiv_nonneg_iff)
    have IH: "?q < k ^ lev k ?q" "0 < ?q \<longrightarrow> 0 < lev k ?q \<and> k ^ (lev k ?q - 1) \<le> ?q"
      using 1(1) 1(2) v q by auto
    have l: "lev k v = Suc (lev k ?q)" using v 1(2) by (subst lev.simps) simp
    have up: "v < k ^ Suc (lev k ?q)"
    proof -
      have "v < (?q + 1) * k"
        using div_mult_mod_eq [of v k] pos_mod_bound [of k v] 1(2) unfolding distrib_right by linarith
      also have "\<dots> \<le> k ^ lev k ?q * k" using IH(1) 1(2) by (intro mult_right_mono) auto
      finally show ?thesis by (simp add: mult.commute)
    qed
    have "k ^ lev k ?q \<le> v"
    proof (cases "?q = 0")
      case False
      then have "lev k ?q = Suc (lev k ?q - 1)" "k ^ (lev k ?q - 1) \<le> ?q" using IH(2) q by auto
      then have "k ^ lev k ?q \<le> k * ?q" using 1(2) by (metis mult_left_mono power_Suc zero_le_numeral order_trans)
      also have "\<dots> \<le> v" using mult_div_mod_eq [of k v] pos_mod_sign [of k v] 1(2) by linarith
      finally show ?thesis .
    qed (use v in simp)
    with up l v show ?thesis by simp
  qed simp
qed

lemma lev_unique:
  assumes k: "2 \<le> k" and v: "0 \<le> v" "v < k ^ L" "L = 0 \<or> k ^ (L - 1) \<le> v"
  shows "lev k v = L"
proof (rule antisym; rule ccontr)
  assume "\<not> lev k v \<le> L"
  then have "L \<le> lev k v - 1" "v \<noteq> 0" by (auto simp: not_le)
  with lev_bounds [OF k v(1)] v(1) have "k ^ L \<le> k ^ (lev k v - 1)" "k ^ (lev k v - 1) \<le> v"
    using k by (auto intro: power_increasing)
  with v(2) show False by simp
next
  assume "\<not> L \<le> lev k v"
  then have "lev k v \<le> L - 1" "L \<noteq> 0" by auto
  with k v(3) have "k ^ lev k v \<le> k ^ (L - 1)" "k ^ (L - 1) \<le> v" by (auto intro: power_increasing)
  with lev_bounds [OF k v(1)] show False by simp
qed

lemma lev_mono:
  assumes k: "2 \<le> k" and v: "0 \<le> v" "v \<le> w"
  shows "lev k v \<le> lev k w"
proof (rule ccontr)
  assume "\<not> ?thesis"
  then have "lev k w \<le> lev k v - 1" "0 < lev k v" by auto
  moreover then have "v \<noteq> 0" by auto
  ultimately have "k ^ lev k w \<le> k ^ (lev k v - 1)" "k ^ (lev k v - 1) \<le> v"
    using k v lev_bounds [OF k v(1)] by (auto intro: power_increasing)
  with lev_bounds [OF k, of w] v show False by simp
qed

lemma row_child:
  assumes k: "2 \<le> k" and v: "0 \<le> v" "lev k v < L" and u: "u \<in> set (row n k v L)"
  shows "lev k u = L \<and> dad k u = v \<and> v < u \<and> u < n"
proof -
  obtain j where L: "L = Suc j" "lev k v \<le> j" using v(2) by (cases L) auto
  have vj: "v < k ^ j"
    using lev_bounds [OF k v(1)] k L(2) by (meson le_less_trans less_le_trans order_refl power_increasing one_le_numeral order_trans)
  obtain r where r: "0 \<le> r" "r < k - 1" "u = v * (k - 1) + k ^ j + r" "u < n"
    using u by (auto simp: row_def L Let_def intro: that [of "u - (v * (k - 1) + k ^ j)"])
  have "(v + 1) * (k - 1) \<le> k ^ j * (k - 1)" using vj k by (intro mult_right_mono) auto
  then have ub: "u < k ^ Suc j" using r by (simp add: algebra_simps)
  have lb: "k ^ j \<le> u" using r v k by simp
  then have lu: "lev k u = L" using ub L k v r by (intro lev_unique) (auto intro: order_trans)
  have "dad k u = (u - k ^ j) div (k - 1)" by (simp add: dad_def lu L)
  also have "u - k ^ j = v * (k - 1) + r" using r(3) by simp
  also have "\<dots> div (k - 1) = v" using r(1,2) k by (simp add: div_pos_pos_trivial)
  finally show ?thesis using lu r(4) vj lb by simp
qed

lemma dad_row:
  assumes k: "2 \<le> k" and u: "0 < u" "u < n"
  shows "0 \<le> dad k u \<and> dad k u < u \<and> lev k (dad k u) < lev k u \<and> u \<in> set (row n k (dad k u) (lev k u))"
proof -
  obtain j where j: "lev k u = Suc j" "k ^ j \<le> u" "u < k ^ Suc j"
    using lev_bounds [OF k, of u] u by (cases "lev k u") auto
  let ?p = "dad k u" and ?x = "u - k ^ j"
  have p: "?p = ?x div (k - 1)" by (simp add: dad_def j)
  have x: "?x = ?p * (k - 1) + ?x mod (k - 1)" "0 \<le> ?x mod (k - 1)" "?x mod (k - 1) < k - 1"
    unfolding p using k by (simp_all only: div_mult_mod_eq pos_mod_sign pos_mod_bound)
  have p0: "0 \<le> ?p" using j k by (simp add: p pos_imp_zdiv_nonneg_iff)
  have "?p * (k - 1) < k ^ j * (k - 1)" using x j(3) by (simp add: algebra_simps)
  then have pj: "?p < k ^ j" using k by simp
  have "lev k ?p \<le> j"
  proof (rule ccontr)
    assume "\<not> ?thesis"
    then have "j \<le> lev k ?p - 1" "0 < lev k ?p" by auto
    moreover then have "?p \<noteq> 0" by auto
    ultimately have "k ^ j \<le> k ^ (lev k ?p - 1)" "k ^ (lev k ?p - 1) \<le> ?p"
      using k lev_bounds [OF k p0] p0 by (auto intro: power_increasing)
    with pj show False by simp
  qed
  moreover have "u \<in> set (row n k ?p (lev k u))" using x j u by (simp add: row_def Let_def)
  ultimately show ?thesis using p0 pj j by simp
qed

lemma kids_iff:
  assumes k: "2 \<le> k" and v: "0 \<le> v"
  shows "u \<in> set (kids n k v) \<longleftrightarrow> 0 < u \<and> u < n \<and> dad k u = v"
proof
  assume "u \<in> set (kids n k v)"
  then obtain L where "L \<in> set [Suc (lev k v)..<Suc (lev k n)]" "u \<in> set (row n k v L)"
    unfolding kids_def set_concat set_map by blast
  then have "lev k v < L" "u \<in> set (row n k v L)" by auto
  from row_child [OF k v this] v show "0 < u \<and> u < n \<and> dad k u = v" by simp
next
  assume u: "0 < u \<and> u < n \<and> dad k u = v"
  with dad_row [OF k, of u n] have r: "lev k v < lev k u" "u \<in> set (row n k v (lev k u))" by auto
  moreover have "lev k u \<le> lev k n" using k u by (intro lev_mono) auto
  ultimately show "u \<in> set (kids n k v)" by (auto simp: kids_def simp del: upt_Suc intro!: bexI [of _ "lev k u"])
qed

lemma distinct_kids:
  assumes k: "2 \<le> k" and v: "0 \<le> v"
  shows "distinct (kids n k v)"
proof -
  have "distinct (concat (map (row n k v) ls))" if "distinct ls" "\<forall>L \<in> set ls. lev k v < L" for ls
    using that
  proof (induction ls)
    case (Cons L ls)
    have "L' = L" if "x \<in> set (row n k v L)" "x \<in> set (row n k v L')" "L' \<in> set ls" for x L'
      using row_child [OF k v _ that(1)] row_child [OF k v _ that(2)] that(3) Cons.prems by simp
    then have "set (row n k v L) \<inter> set (concat (map (row n k v) ls)) = {}"
      using Cons.prems(1) by fastforce
    with Cons show ?case by (simp add: row_def Let_def)
  qed simp
  from this [of "[Suc (lev k v)..<Suc (lev k n)]"] show ?thesis by (simp add: kids_def del: upt_Suc)
qed

subsection \<open>Trees and traversals\<close>

text \<open>\<open>below up v u\<close>: going up from \<open>u\<close> one arrives at \<open>v\<close>.\<close>

inductive below :: "(int \<Rightarrow> int) \<Rightarrow> int \<Rightarrow> int \<Rightarrow> bool" for up v where
  here: "below up v v"
| above: "0 < u \<Longrightarrow> below up v (up u) \<Longrightarrow> below up v u"

text \<open>The nodes below a node, each node before the nodes below it; \<open>ch\<close> gives the order of the children.\<close>

fun preorder :: "(int \<Rightarrow> int list) \<Rightarrow> nat \<Rightarrow> int \<Rightarrow> int list" where
  "preorder ch 0 v = []"
| "preorder ch (Suc fuel) v = v # concat (map (preorder ch fuel) (ch v))"

locale parent_tree =
  fixes n :: int and up :: "int \<Rightarrow> int" and ch :: "int \<Rightarrow> int list"
  assumes up_less: "0 < u \<Longrightarrow> u < n \<Longrightarrow> 0 \<le> up u \<and> up u < u"
    and ch_iff: "0 \<le> v \<Longrightarrow> v < n \<Longrightarrow> u \<in> set (ch v) \<longleftrightarrow> 0 < u \<and> u < n \<and> up u = v"
    and distinct_ch: "0 \<le> v \<Longrightarrow> v < n \<Longrightarrow> distinct (ch v)"
begin

lemma below_le: "below up v u \<Longrightarrow> u < n \<Longrightarrow> v \<le> u"
proof (induction rule: below.induct)
  case (above u)
  with up_less [of u] show ?case by linarith
qed simp

lemma below_linear: "below up a u \<Longrightarrow> below up b u \<Longrightarrow> below up a b \<or> below up b a"
proof (induction rule: below.induct)
  case (above u)
  from above.prems show ?case
  proof (cases rule: below.cases)
    case here
    with above.hyps show ?thesis by (auto intro: below.above)
  qed (use above.IH in blast)
qed simp

lemma siblings_apart:
  assumes "0 < a" "0 < b" "a < n" "b < n" "up a = up b" "below up a u" "below up b u"
  shows "a = b"
proof -
  have no: "a = b" if "0 < a" "0 < b" "a < n" "b < n" "up a = up b" "below up a b" for a b
    using that(6)
  proof (cases rule: below.cases)
    case above
    with that up_less [of a] up_less [of b] below_le [of a "up b"] show ?thesis by auto
  qed simp
  from below_linear [OF assms(6,7)] no [of a b] no [of b a] assms show ?thesis by auto
qed

lemma below_root: "0 \<le> u \<Longrightarrow> u < n \<Longrightarrow> below up 0 u"
proof (induction "nat u" arbitrary: u rule: less_induct)
  case less
  show ?case
  proof (cases "u = 0")
    case False
    then have "0 < u" using less.prems by simp
    with less.prems up_less [of u] have "0 \<le> up u" "up u < u" by auto
    with less.prems have "below up 0 (up u)" by (intro less.hyps) auto
    with \<open>0 < u\<close> show ?thesis by (rule below.above)
  qed (simp add: below.here)
qed

lemma below_child:
  assumes "0 \<le> v" "v < n" "0 \<le> u" "u < n"
  shows "below up v u \<longleftrightarrow> u = v \<or> (\<exists>c \<in> set (ch v). below up c u)"
proof
  assume "below up v u"
  then show "u = v \<or> (\<exists>c \<in> set (ch v). below up c u)" using assms(3,4)
  proof (induction rule: below.induct)
    case (above u)
    with up_less [of u] consider "up u = v" | c where "c \<in> set (ch v)" "below up c (up u)" by auto
    then show ?case
    proof cases
      case 1
      with above assms ch_iff [of v u] show ?thesis by (auto intro: below.here)
    next
      case 2
      with above show ?thesis by (auto intro: below.above)
    qed
  qed simp
next
  have trans: "below up c u \<Longrightarrow> below up v c \<Longrightarrow> below up v u" for c
    by (induction rule: below.induct) (auto intro: below.above)
  have "below up v c" if "c \<in> set (ch v)" for c
    using that assms ch_iff [of v c] by (auto intro: below.intros)
  moreover assume "u = v \<or> (\<exists>c \<in> set (ch v). below up c u)"
  ultimately show "below up v u" using trans below.here by blast
qed

lemma preorder_ok:
  assumes "0 \<le> v" "v < n" "n - v \<le> int fuel"
  shows "set (preorder ch fuel v) = {u. 0 \<le> u \<and> u < n \<and> below up v u} \<and> distinct (preorder ch fuel v)"
  using assms
proof (induction fuel arbitrary: v)
  case (Suc fuel)
  have c: "0 < c \<and> c < n \<and> up c = v \<and> v < c" if "c \<in> set (ch v)" for c
    using that Suc.prems ch_iff [of v c] up_less [of c] by auto
  have IH: "set (preorder ch fuel c) = {u. 0 \<le> u \<and> u < n \<and> below up c u}" "distinct (preorder ch fuel c)"
    if "c \<in> set (ch v)" for c
    using Suc.IH [of c] Suc.prems c [OF that] by auto
  have "distinct (concat (map (preorder ch fuel) cs))" if "distinct cs" "set cs \<subseteq> set (ch v)" for cs
    using that
  proof (induction cs)
    case (Cons a cs)
    have "b = a" if "b \<in> set cs" "x \<in> set (preorder ch fuel a)" "x \<in> set (preorder ch fuel b)" for b x
      using that Cons.prems c [of a] c [of b] IH(1) [of a] IH(1) [of b] siblings_apart [of b a x] by auto
    with Cons IH(2) [of a] show ?case by auto
  qed simp
  then have d: "distinct (concat (map (preorder ch fuel) (ch v)))"
    using distinct_ch [of v] Suc.prems by simp
  have "v \<notin> set (preorder ch fuel c)" if "c \<in> set (ch v)" for c
    using IH(1) [OF that] c [OF that] below_le [of c v] Suc.prems by auto
  moreover have "set (preorder ch (Suc fuel) v) = {u. 0 \<le> u \<and> u < n \<and> below up v u}"
    using Suc.prems IH(1) below_child [of v] by auto
  ultimately show ?case using d by auto
qed simp

lemma below_cong:
  assumes "\<And>u. 0 < u \<Longrightarrow> u < n \<Longrightarrow> up' u = up u" and "u < n"
  shows "below up' v u \<longleftrightarrow> below up v u"
proof
  assume "below up' v u"
  then show "below up v u" using assms(2)
  proof (induction rule: below.induct)
    case (above u)
    with assms(1) [of u] up_less [of u] show ?case by (auto intro: below.above)
  qed (rule below.here)
next
  assume "below up v u"
  then show "below up' v u" using assms(2)
  proof (induction rule: below.induct)
    case (above u)
    with assms(1) [of u] up_less [of u] show ?case by (auto intro: below.above)
  qed (rule below.here)
qed

lemma preorder_root:
  assumes "0 < n" "n \<le> int fuel"
  shows "mset (preorder ch fuel 0) = mset [0..n - 1]"
  using preorder_ok [of 0 fuel] below_root assms by (intro set_eq_iff_mset_eq_distinct [THEN iffD1]) auto

end

text \<open>A function that enters the node itself and then visits the children in the order \<open>ch\<close>.\<close>

locale node_order = parent_tree +
  fixes visit :: "nat \<Rightarrow> bool \<Rightarrow> int \<Rightarrow> int list \<times> int \<Rightarrow> (int list \<times> int) option"
  assumes visit_step: "0 \<le> v \<Longrightarrow> v < n \<Longrightarrow> visit (Suc fuel) fill v st =
    Option.bind (add_root fill v st) (\<lambda>st1. foldM (\<lambda>st c. visit fuel fill c st) st1 (ch v))"
begin

lemma ch_range: "0 \<le> v \<Longrightarrow> v < n \<Longrightarrow> c \<in> set (ch v) \<Longrightarrow> 0 \<le> c \<and> c < n \<and> v < c"
  using ch_iff [of v c] up_less [of c] by auto

lemma visit_count:
  assumes "0 \<le> v" "v < n" "n - v \<le> int fuel"
  shows "visit fuel False v (a, len) = Some (a, len + int (length (preorder ch fuel v)))"
  using assms
proof (induction fuel arbitrary: v len)
  case (Suc fuel)
  have "foldM (\<lambda>st c. visit fuel False c st) (a, l) cs
      = Some (a, l + int (length (concat (map (preorder ch fuel) cs))))" if "set cs \<subseteq> set (ch v)" for cs l
    using that
  proof (induction cs arbitrary: l)
    case (Cons c cs)
    with Suc.IH [of c l] ch_range [of v c] Suc.prems show ?case by simp
  qed simp
  with Suc.prems show ?case by (simp add: visit_step add_root_def)
qed simp

lemma visit_fill:
  assumes "0 \<le> v" "v < n" "n - v \<le> int fuel" "length (preorder ch fuel v) \<le> length b"
  shows "visit fuel True v (a @ b, int (length a)) =
    Some (a @ preorder ch fuel v @ drop (length (preorder ch fuel v)) b, int (length a + length (preorder ch fuel v)))"
  using assms
proof (induction fuel arbitrary: v a b)
  case (Suc fuel)
  have "foldM (\<lambda>st c. visit fuel True c st) (a @ b, int (length a)) cs
      = Some (a @ xs @ drop (length xs) b, int (length a + length xs))"
    if "set cs \<subseteq> set (ch v)" "xs = concat (map (preorder ch fuel) cs)" "length xs \<le> length b" for cs xs a b
    using that
  proof (induction cs arbitrary: xs a b)
    case (Cons c cs)
    let ?p = "preorder ch fuel c" and ?r = "concat (map (preorder ch fuel) cs)"
    have "visit fuel True c (a @ b, int (length a)) = Some (a @ ?p @ drop (length ?p) b, int (length a + length ?p))"
      using Cons.prems Suc.prems ch_range [of v c] by (intro Suc.IH) auto
    with Cons.IH [of ?r "drop (length ?p) b" "a @ ?p"] Cons.prems show ?case by (simp add: add.commute)
  qed simp
  note loop = this
  obtain x b' where b: "b = x # b'" using Suc.prems(4) by (cases b) auto
  have "add_root True v (a @ b, int (length a)) = Some ((a @ [v]) @ b', int (length (a @ [v])))"
    by (simp add: add_root_def b list_update_append)
  with Suc.prems loop [of "ch v" "concat (map (preorder ch fuel) (ch v))" b' "a @ [v]"] b
  show ?case by (simp add: visit_step)
qed simp

text \<open>Counting first and then filling an array of that size, as \<^verbatim>\<open>Group.cc\<close> does.\<close>

lemma two_passes:
  assumes "0 \<le> v" "v < n" "n \<le> int fuel" "int (length b) = m" "visit fuel False v (a, 0) = Some (a', m)"
  shows "\<exists>xs. visit fuel True v (b, 0) = Some (xs, m) \<and> int (length xs) = m \<and> distinct xs
    \<and> set xs = {u. 0 \<le> u \<and> u < n \<and> below up v u} \<and> hd xs = v \<and> (v = 0 \<longrightarrow> mset xs = mset [0..n - 1])"
proof -
  let ?p = "preorder ch fuel v"
  have f: "n - v \<le> int fuel" "0 < fuel" using assms by auto
  have m: "m = int (length ?p)" using visit_count [OF assms(1,2) f(1), of a 0] assms(5) by simp
  with assms(4) have "visit fuel True v (b, 0) = Some (?p, m)"
    using visit_fill [OF assms(1,2) f(1), of b "[]"] by simp
  moreover have "hd ?p = v" using f(2) by (cases fuel) auto
  ultimately show ?thesis using preorder_ok [OF assms(1,2) f(1)] preorder_root [of fuel] m assms by auto
qed

end

end
