(* ===== verification/Coll_Tree_Setup.thy ===== *)
theory Coll_Tree_Setup
  imports Coll_Tree_Props
begin

section \<open>The tree \<^verbatim>\<open>setupNaryTree\<close> builds\<close>

text \<open>
  The loops of \<^verbatim>\<open>setupNaryTree\<close> in closed form, and the interpretation of the traversal contract on the tree
  they build, for the scatter and for the gather order.
\<close>

definition up_val :: "int \<Rightarrow> int \<Rightarrow> int" where
  "up_val k v = (if v = 0 then - 1 else dad k v)"

definition part_val :: "int \<Rightarrow> int \<Rightarrow> int \<Rightarrow> int" where
  "part_val n k v = (if lev k v < lev k n then int (length (row n k v (lev k n))) else 0)"

definition arr_val :: "int \<Rightarrow> int \<Rightarrow> int \<Rightarrow> int \<Rightarrow> int list option" where
  "arr_val junk n k v =
     (let m = (k - 1) * int (lev k n - lev k v) in
      if m > 0 then Some (kids n k v @ replicate (nat m - length (kids n k v)) junk) else None)"

text \<open>An array of \<open>n\<close> entries whose first \<open>i\<close> are written, and the tree before node \<open>i\<close> is handled.\<close>

definition filled :: "'a \<Rightarrow> int \<Rightarrow> (int \<Rightarrow> 'a) \<Rightarrow> nat \<Rightarrow> 'a list option" where
  "filled x n f i = Some (map (\<lambda>j. f (int j)) [0..<i] @ replicate (nat n - i) x)"

definition tree_at :: "int \<Rightarrow> int \<Rightarrow> int \<Rightarrow> ulm_tree \<Rightarrow> nat \<Rightarrow> ulm_tree" where
  "tree_at junk n k t i = t\<lparr>
     t_nUpNodes := filled junk n (\<lambda>v. if v = 0 then 0 else 1) i,
     t_upNodes := filled junk n (up_val k) i,
     t_nDownNodes := filled junk n (\<lambda>v. int (length (kids n k v))) i,
     t_downNodes := filled None n (arr_val junk n k) i,
     t_nInPartialLevel := filled junk n (part_val n k) i,
     t_startLevel := filled junk n (\<lambda>v. int (lev k v)) i\<rparr>"

definition nary_tree :: "int \<Rightarrow> int \<Rightarrow> int \<Rightarrow> ulm_tree \<Rightarrow> ulm_tree" where
  "nary_tree junk n k t = tree_at junk n k
     (t\<lparr>t_nNodes := n, t_order := k, t_nFullLevels := int (lev k n), t_nNodesInFullLevels := k ^ (lev k n - 1),
        t_treeDepth := int (Suc (lev k n))\<rparr>) (nat n)"

subsection \<open>Writing arrays from the front\<close>

lemma put_at: "length xs = i \<Longrightarrow> put (Some (xs @ x # ys)) (int i) y = Some (xs @ y # ys)"
  by (auto simp: put_def list_update_append)

lemma filled_Suc:
  assumes "i < nat n"
  shows "filled x n f i = Some (map (\<lambda>j. f (int j)) [0..<i] @ x # replicate (nat n - Suc i) x)"
    and "filled x n f (Suc i) = Some (map (\<lambda>j. f (int j)) [0..<i] @ f (int i) # replicate (nat n - Suc i) x)"
  using assms by (simp_all add: filled_def replicate_Suc [symmetric] Suc_diff_Suc del: replicate_Suc)

lemma put_filled: "i < nat n \<Longrightarrow> f (int i) = y \<Longrightarrow> put (filled x n f i) (int i) y = filled x n f (Suc i)"
  by (simp only: filled_Suc) (simp add: put_at)

lemma get_filled: "0 \<le> v \<Longrightarrow> v < n \<Longrightarrow> get (filled x n f (nat n)) v = Some (f v)"
  by (simp add: get_def filled_def arr_get_def nat_less_iff)

subsection \<open>The loops\<close>

text \<open>The smallest power of the order above the number of nodes: every number computed is at most that.\<close>

lemma power_range:
  assumes k: "2 \<le> k" and r: "int_range (k ^ L)" and j: "j \<le> L"
  shows "int_range (k ^ j)"
proof -
  have "0 \<le> k ^ j" "k ^ j \<le> k ^ L" using k j by (auto intro: power_increasing)
  then show ?thesis using r by (rule int_range_nonneg)
qed

lemma alloc_range:
  assumes k: "2 \<le> k" and r: "int_range (k ^ L)" and j: "j \<le> L"
  shows "int_range ((k - 1) * int j)"
proof -
  have "(k - 1) * int j < k ^ j"
  proof (induction j)
    case (Suc j)
    have "k - 1 \<le> (k - 1) * k ^ j" using k by simp
    then show ?case using Suc by (simp add: algebra_simps)
  qed simp
  moreover have "0 \<le> (k - 1) * int j" using k by simp
  ultimately show ?thesis using power_range [OF k r j] by (simp add: int_range_def)
qed

lemma first_child_range:
  assumes k: "2 \<le> k" and r: "int_range (k ^ L)" and v: "0 \<le> v" "v < k ^ (L - 1)" and j: "j \<le> L" "0 < L"
  shows "int_range (v * (k - 1))" "int_range (v * (k - 1) + k ^ (j - 1))"
proof -
  have p: "k ^ (j - 1) \<le> k ^ (L - 1)" "0 \<le> k ^ (j - 1)" using k j(1) by (auto intro: power_increasing diff_le_mono)
  have "(v + 1) * (k - 1) \<le> k ^ (L - 1) * (k - 1)" using v k by (intro mult_right_mono) auto
  then have "v * (k - 1) + k ^ (L - 1) \<le> k ^ (L - 1) * k" using k by (simp add: algebra_simps)
  also have "\<dots> = k ^ L" using j(2) by (cases L) simp_all
  finally have "v * (k - 1) + k ^ (L - 1) \<le> k ^ L" .
  moreover have "0 \<le> v * (k - 1)" using v k by simp
  ultimately show "int_range (v * (k - 1))" "int_range (v * (k - 1) + k ^ (j - 1))"
    using p by (auto intro: int_range_nonneg [OF _ _ r])
qed

lemma depth_loop_ok:
  assumes "2 \<le> k" and "0 \<le> m" and "0 < x"
  shows "depth_loop k m x y = (if lev k m = 0 \<or> int_range (x * k ^ lev k m) then Some (x * k ^ lev k m, y + int (lev k m)) else None)"
  using assms
proof (induction k m arbitrary: x y rule: lev.induct)
  case (1 k m)
  show ?case
  proof (cases "m = 0")
    case False
    with 1 have m: "0 < m" "0 \<le> m div k" by (auto simp: pos_imp_zdiv_nonneg_iff)
    have l: "lev k m = Suc (lev k (m div k))" using m 1(2) by (subst lev.simps) simp
    have one: "1 \<le> k ^ lev k (m div k)" using 1(2) by simp
    have le: "x * k \<le> x * k ^ lev k m" "0 \<le> x * k" using 1(2,4) one unfolding l by (auto simp: mult_left_mono)
    have IH: "depth_loop k (m div k) (x * k) (y + 1) = (if lev k (m div k) = 0 \<or> int_range (x * k * k ^ lev k (m div k))
        then Some (x * k * k ^ lev k (m div k), y + 1 + int (lev k (m div k))) else None)"
      using m 1 by (intro 1(1)) auto
    have e: "x * k * k ^ lev k (m div k) = x * k ^ lev k m" by (simp add: l mult_ac)
    show ?thesis
    proof (cases "int_range (x * k)")
      case True
      have "lev k (m div k) = 0 \<Longrightarrow> x * k ^ lev k m = x * k" by (simp add: l)
      with True IH m 1(2) show ?thesis unfolding e by (subst depth_loop.simps) (auto simp: l sdiv_pos)
    next
      case False
      with int_range_nonneg [OF le(2,1)] have "\<not> int_range (x * k ^ lev k m)" by blast
      with False m 1(2) show ?thesis by (subst depth_loop.simps) (simp add: l)
    qed
  qed (subst depth_loop.simps, simp)
qed

definition cums :: "int \<Rightarrow> nat \<Rightarrow> int list" where
  "cums k D = map (\<lambda>L. if L = 0 then 0 else k ^ (L - 1)) [0..<D]"

lemma cum_loop_ok:
  assumes "0 < i" and "i \<le> D" and "2 \<le> k" and "int_range (k ^ (D - 1))"
  shows "cum_loop k [int i..int D - 1] (k ^ (i - 1)) (cums k i @ replicate (D - i) x) = Some (cums k D)"
  using assms
proof (induction "D - i" arbitrary: i)
  case (Suc d)
  then have r: "D - i = Suc d" by simp
  have "[int i..int D - 1] = int i # [int (Suc i)..int D - 1]" using Suc by (subst upto_rec1) (auto simp: add.commute)
  moreover have "arr_set (cums k i @ replicate (D - i) x) (int i) (k ^ (i - 1)) = Some (cums k (Suc i) @ replicate (D - Suc i) x)"
    using Suc r by (simp add: cums_def arr_set_def list_update_append)
  moreover have "k ^ (i - 1) * k = k ^ (Suc i - 1)" using Suc.prems by (cases i) auto
  moreover have "int_range (k ^ (Suc i - 1))" by (rule power_range [OF Suc.prems(3,4)]) (use r in simp)
  ultimately show ?case using Suc.hyps(1) [of "Suc i"] r Suc.prems by simp
qed simp

lemma child_loop_ok:
  assumes "zs = [tmp..min (tmp + int j) n - 1]" and "length zs \<le> length ys"
  shows "child_loop n b j tmp (Some (xs @ ys), c, p, int (length xs)) =
    Some (Some (xs @ zs @ drop (length zs) ys), c + int (length zs), (if b then p + int (length zs) else p),
      int (length xs + length zs))"
  using assms
proof (induction j arbitrary: tmp zs xs ys c p)
  case (Suc j)
  show ?case
  proof (cases "tmp < n")
    case True
    define zr where "zr = [tmp + 1..min (tmp + 1 + int j) n - 1]"
    have zs: "zs = tmp # zr" using True Suc.prems(1) by (subst (asm) upto_rec1) (auto simp: zr_def add_ac)
    then obtain y ys' where ys: "ys = y # ys'" using Suc.prems(2) by (cases ys) auto
    have "put (Some (xs @ ys)) (int (length xs)) tmp = Some ((xs @ [tmp]) @ ys')" by (simp add: ys put_at)
    with Suc.IH [OF zr_def, of ys' "xs @ [tmp]"] Suc.prems(2) True zs ys show ?thesis by (simp add: add_ac)
  qed (use Suc.prems in simp)
qed simp

lemma length_row: "2 \<le> k \<Longrightarrow> length (row n k v L) \<le> nat (k - 1)"
  by (auto simp: row_def Let_def)

lemma length_rows: "2 \<le> k \<Longrightarrow> length (concat (map (row n k v) ls)) \<le> length ls * nat (k - 1)"
proof (induction ls)
  case (Cons L ls)
  with length_row [of k n v L] show ?case by simp
qed simp

lemma level_loop_ok:
  assumes k: "2 \<le> k" and a: "0 < a" "a \<le> D" and zs: "zs = concat (map (row n k v) [a..<D])" "length zs \<le> length ys"
    and r: "\<And>j. j < D \<Longrightarrow> int_range (v * (k - 1)) \<and> int_range (v * (k - 1) + k ^ (j - 1))"
  shows "foldM (level_step n k (int D) True (cums k D) v) (Some (xs @ ys), c, p, int (length xs)) [int a..int D - 1] =
    Some (Some (xs @ zs @ drop (length zs) ys), c + int (length zs),
      (if a < D then p + int (length (row n k v (D - 1))) else p), int (length xs + length zs))"
  using a zs
proof (induction "D - a" arbitrary: a zs xs ys c p)
  case 0
  then show ?case by simp
next
  case (Suc d)
  let ?r = "row n k v a" and ?rs = "concat (map (row n k v) [Suc a..<D])"
  have up: "[int a..int D - 1] = int a # [int (Suc a)..int D - 1]"
    using Suc.hyps by (subst upto_rec1) (auto simp: add.commute)
  have zs: "zs = ?r @ ?rs" using Suc.hyps(2) Suc.prems(3) by (simp add: upt_conv_Cons)
  have "level_step n k (int D) True (cums k D) v (Some (xs @ ys), c, p, int (length xs)) (int a) =
    Some (Some (xs @ ?r @ drop (length ?r) ys), c + int (length ?r), (if a = D - 1 then p + int (length ?r) else p),
      int (length xs + length ?r))"
  proof -
    have "arr_get (cums k D) (int a) = Some (k ^ (a - 1))" using Suc by (simp add: cums_def)
    moreover have "(int a = int D - 1) = (a = D - 1)" using Suc.hyps Suc.prems by auto
    moreover have "length ?r \<le> length ys" using Suc.prems(4) zs by simp
    moreover have "?r = [v * (k - 1) + k ^ (a - 1)..min (v * (k - 1) + k ^ (a - 1) + int (nat (k - 1))) n - 1]"
      using k by (simp add: row_def Let_def)
    note child_loop_ok [OF this]
    moreover have "int_range (v * (k - 1)) \<and> int_range (v * (k - 1) + k ^ (a - 1))" using Suc.hyps(2) by (intro r) simp
    ultimately show ?thesis by (simp add: level_step_def)
  qed
  moreover have "foldM (level_step n k (int D) True (cums k D) v)
      (Some ((xs @ ?r) @ drop (length ?r) ys), c', p', int (length (xs @ ?r))) [int (Suc a)..int D - 1] =
    Some (Some ((xs @ ?r) @ ?rs @ drop (length ?rs) (drop (length ?r) ys)), c' + int (length ?rs),
      (if Suc a < D then p' + int (length (row n k v (D - 1))) else p'), int (length (xs @ ?r) + length ?rs))" for c' p'
    using Suc.hyps(2) Suc.prems(4) by (intro Suc.hyps(1)) (auto simp: zs)
  moreover have "a = D - 1 \<or> Suc a < D" "a < D" using Suc.hyps(2) by auto
  ultimately show ?case unfolding zs up foldM.simps by (auto simp: add_ac)
qed

lemma lev_step:
  assumes k: "2 \<le> k" and i: "0 < i"
  shows "lev k i = (if i = k ^ lev k (i - 1) then Suc (lev k (i - 1)) else lev k (i - 1))"
proof -
  let ?L = "lev k (i - 1)"
  have b: "i - 1 < k ^ ?L" "0 < i - 1 \<longrightarrow> 0 < ?L \<and> k ^ (?L - 1) \<le> i - 1"
    using lev_bounds [OF k, of "i - 1"] i by auto
  show ?thesis
  proof (cases "i = k ^ ?L")
    case True
    have "1 * k ^ ?L < k * k ^ ?L" using k by (intro mult_strict_right_mono) auto
    with True have "i < k ^ Suc ?L" by simp
    with True k i show ?thesis by (simp add: lev_unique)
  next
    case False
    with b have "i < k ^ ?L" by simp
    moreover from this i have "i - 1 \<noteq> 0 \<or> 1 < k ^ ?L" by auto
    then have "?L = 0 \<or> k ^ (?L - 1) \<le> i" using b i by auto
    ultimately show ?thesis using False k i by (auto intro!: lev_unique)
  qed
qed

lemma set_parent_ok:
  assumes k: "2 \<le> k" and i: "i < nat n" and D: "lev k (int i) < D"
  shows "set_parent k (cums k D) (int (lev k (int i))) (int i) (tree_at junk n k t i) =
    Some ((tree_at junk n k t i)\<lparr>t_upNodes := filled junk n (up_val k) (Suc i),
      t_nUpNodes := filled junk n (\<lambda>v. if v = 0 then 0 else 1) (Suc i)\<rparr>)"
proof -
  have put: "put (filled junk n (up_val k) i) (int i) (up_val k (int i)) = filled junk n (up_val k) (Suc i)"
    "put (filled junk n (\<lambda>v. if v = 0 then 0 else 1) i) (int i) (if i = 0 then 0 else 1)
      = filled junk n (\<lambda>v. if v = 0 then 0 else 1) (Suc i)"
    by (rule put_filled [OF i], simp)+
  show ?thesis
  proof (cases "i = 0")
    case True
    with put show ?thesis by (simp add: set_parent_def tree_at_def up_val_def) (simp add: filled_def)
  next
    case False
    have l: "0 < lev k (int i)" "k ^ (lev k (int i) - 1) \<le> int i" using lev_bounds [OF k, of "int i"] False by auto
    then have "(int i - k ^ (lev k (int i) - 1)) sdiv (k - 1) = up_val k (int i)"
      using k False by (simp add: sdiv_pos up_val_def dad_def)
    moreover have "arr_get (cums k D) (int (lev k (int i))) = Some (k ^ (lev k (int i) - 1))"
      using D l by (simp add: cums_def)
    ultimately show ?thesis using put False l k
      by (simp add: set_parent_def tree_at_def) (simp add: filled_def)
  qed
qed

lemma set_children_ok:
  assumes k: "2 \<le> k" and i: "i < nat n" and r: "int_range (k ^ lev k n)"
    and t: "t' = (tree_at junk n k t i)\<lparr>t_upNodes := filled junk n (up_val k) (Suc i),
      t_nUpNodes := filled junk n (\<lambda>v. if v = 0 then 0 else 1) (Suc i)\<rparr>"
  shows "set_children junk n k (int (Suc (lev k n))) True (cums k (Suc (lev k n))) (int (lev k (int i))) (int i) t' [] =
    Some (Inr (tree_at junk n k t (Suc i), []))"
proof -
  let ?v = "int i" and ?D = "Suc (lev k n)"
  let ?m = "(k - 1) * int (lev k n - lev k ?v)" and ?ks = "kids n k ?v"
  have l: "lev k ?v \<le> lev k n" using k i by (intro lev_mono) auto
  then have m: "(k - 1) * (int ?D - (int (lev k ?v) + 1)) = ?m" by (simp add: of_nat_diff)
  have up: "[int (lev k ?v) + 1..int ?D - 1] = [int (Suc (lev k ?v))..int ?D - 1]" by (simp add: add.commute)
  have pos: "0 < ?m \<longleftrightarrow> lev k ?v < lev k n" using k by (simp add: zero_less_mult_iff)
  define arr where "arr = (if 0 < ?m then Some (replicate (nat ?m) junk) else None)"
  have loop: "foldM (level_step n k (int ?D) True (cums k ?D) ?v) (arr, 0, 0, 0) [int (lev k ?v) + 1..int ?D - 1] =
    Some (arr_val junk n k ?v, int (length ?ks), part_val n k ?v, int (length ?ks))"
  proof (cases "lev k ?v < lev k n")
    case True
    have "?v < k ^ lev k ?v" "k ^ lev k ?v \<le> k ^ (lev k n - 1)"
      using lev_bounds [OF k, of ?v] True k by (auto intro: power_increasing)
    then have "?v < k ^ (lev k n - 1)" by simp
    then have range: "int_range (?v * (k - 1)) \<and> int_range (?v * (k - 1) + k ^ (j - 1))" if "j \<le> lev k n" for j
      using first_child_range [OF k r] that True by auto
    have len: "length ?ks \<le> nat ?m"
      using length_rows [OF k, of n ?v "[Suc (lev k ?v)..<?D]"] k
      by (simp add: kids_def nat_mult_distrib mult.commute del: upt_Suc)
    have "foldM (level_step n k (int ?D) True (cums k ?D) ?v)
        (Some ([] @ replicate (nat ?m) junk), 0, 0, int (length ([] :: int list))) [int (Suc (lev k ?v))..int ?D - 1] =
      Some (Some ([] @ ?ks @ drop (length ?ks) (replicate (nat ?m) junk)), 0 + int (length ?ks),
        (if Suc (lev k ?v) < ?D then 0 + int (length (row n k ?v (?D - 1))) else 0), int (length ([] :: int list) + length ?ks))"
      using True len range by (intro level_loop_ok [OF k _ _ kids_def]) (auto simp: less_Suc_eq_le)
    then show ?thesis using True pos unfolding up by (simp add: arr_def arr_val_def part_val_def Let_def)
  next
    case False
    with l have "lev k ?v = lev k n" by simp
    with False pos show ?thesis by (simp add: up arr_def arr_val_def part_val_def Let_def kids_def)
  qed
  note fill = filled_Suc [OF i]
  have alloc: "(if 0 < ?m then alloc_array junk ?m [] else (None, [])) = (arr, [])"
    and ok: "(0 < ?m \<and> arr = None) = False"
    using l by (auto simp: arr_def alloc_array_def take_alloc_def of_nat_diff)
  have ma: "c_int ?m = Some ?m" using alloc_range [OF k r, of "lev k n - lev k ?v"] by simp
  have "set_children junk n k (int ?D) True (cums k ?D) (int (lev k ?v)) ?v t' [] =
     (do { st \<leftarrow> put (t_startLevel t') ?v (int (lev k ?v));
           dn \<leftarrow> put (t_downNodes t') ?v arr;
           dn' \<leftarrow> put (Some dn) ?v (arr_val junk n k ?v);
           nd \<leftarrow> put (t_nDownNodes t') ?v (int (length ?ks));
           np \<leftarrow> put (t_nInPartialLevel t') ?v (part_val n k ?v);
           Some (Inr (t'\<lparr>t_startLevel := Some st, t_downNodes := Some dn', t_nDownNodes := Some nd,
             t_nInPartialLevel := Some np\<rparr>, [])) })"
    by (simp only: set_children_def Let_def m ma alloc prod.case ok if_False loop bind.bind_lunit) simp
  also have "\<dots> = Some (Inr (tree_at junk n k t (Suc i), []))"
    unfolding t tree_at_def by (simp add: fill put_at)
  finally show ?thesis .
qed

lemma node_loop_ok:
  assumes k: "2 \<le> k" and r: "int_range (k ^ lev k n)" and i: "i \<le> nat n"
    and lc: "level = (if i = 0 then 0 else int (lev k (int i - 1)))" "cum = (if i = 0 then 1 else k ^ lev k (int i - 1))"
  shows "node_loop junk n k (int (Suc (lev k n))) True (cums k (Suc (lev k n))) [int i..n - 1] level cum
    (tree_at junk n k t i) [] = Some (ULM_SUCCESS, tree_at junk n k t (nat n))"
  using i lc
proof (induction "nat n - i" arbitrary: i level cum)
  case 0
  then show ?case by simp
next
  case (Suc d)
  let ?L = "lev k (int i)"
  have i: "i < nat n" using Suc.hyps(2) by simp
  have up: "[int i..n - 1] = int i # [int (Suc i)..n - 1]" using i by (subst upto_rec1) (auto simp: add.commute)
  have le: "?L \<le> lev k n" using k i by (intro lev_mono) auto
  have st: "(if int i = cum then do { m \<leftarrow> c_int (cum * k); Some (level + 1, m) } else Some (level, cum)) = Some (int ?L, k ^ ?L)"
    using lev_step [OF k, of "int i"] Suc.prems(2,3) power_range [OF k r le] by (cases "i = 0") (auto simp: mult.commute)
  have "?L < Suc (lev k n)" using le by simp
  note sp = set_parent_ok [OF k i this, of junk t] and sc = set_children_ok [OF k i r refl, of junk t]
  have "node_loop junk n k (int (Suc (lev k n))) True (cums k (Suc (lev k n))) [int (Suc i)..n - 1] (int ?L) (k ^ ?L)
      (tree_at junk n k t (Suc i)) [] = Some (ULM_SUCCESS, tree_at junk n k t (nat n))"
    using Suc.hyps i by (intro Suc.hyps(1)) auto
  then show ?case unfolding up node_loop.simps st bind.bind_lunit prod.case sp sc by simp
qed

lemma setup_ok:
  assumes k: "2 \<le> k" and n: "0 < n"
  shows "setupNaryTree junk [] n k t = (if int_range (k ^ lev k n) then Some (ULM_SUCCESS, nary_tree junk n k t) else None)"
proof (cases "int_range (k ^ lev k n)")
  case False
  then show ?thesis using lev_bounds [OF k, of n] n by (simp add: setupNaryTree_def depth_loop_ok [OF k])
next
  case r: True
  let ?D = "Suc (lev k n)"
  have b: "n < k ^ lev k n" "0 < lev k n" using lev_bounds [OF k, of n] n by auto
  have div: "k ^ lev k n sdiv k = k ^ (lev k n - 1)" using k b(2) by (simp add: sdiv_pos power_diff)
  have cum: "cum_loop k [1..int ?D - 1] 1 (cums k 1 @ replicate (?D - 1) junk) = Some (cums k ?D)"
    using cum_loop_ok [of 1 ?D k junk] k r by simp
  have arr: "arr_set (replicate (nat (int (lev k n) + 1)) junk) 0 0 = Some (cums k 1 @ replicate (?D - 1) junk)"
    by (simp add: arr_set_def cums_def nat_add_distrib)
  define t2 where "t2 = t\<lparr>t_nNodes := n, t_order := k, t_nFullLevels := int (lev k n),
    t_nNodesInFullLevels := k ^ (lev k n - 1), t_treeDepth := int ?D\<rparr>"
  have al: "alloc_tree junk n t2 [] = (True, tree_at junk n k t2 0, [])"
    by (simp add: alloc_tree_def alloc_array_def take_alloc_def tree_at_def filled_def)
  have t2': "t\<lparr>t_nNodes := n, t_order := k, t_nFullLevels := int (lev k n),
    t_nNodesInFullLevels := k ^ lev k n, t_nNodesInFullLevels := k ^ lev k n sdiv k,
    t_treeDepth := int (lev k n) + 1\<rparr> = t2" by (simp add: t2_def div add.commute)
  have loop: "node_loop junk n k (int ?D) True (cums k ?D) [0..n - 1] 0 1 (tree_at junk n k t2 0) [] =
    Some (ULM_SUCCESS, nary_tree junk n k t)"
    using node_loop_ok [OF k r, of 0 0 1 junk t2] by (simp add: nary_tree_def t2_def)
  show ?thesis
    using b k cum arr al loop t2' r
    by (simp add: setupNaryTree_def depth_loop_ok [OF k] n less_imp_le alloc_array_def take_alloc_def add.commute)
qed

end
