(* ===== verification/Coll_Tree_Order.thy ===== *)
theory Coll_Tree_Order
  imports Coll_Tree_Setup
begin

section \<open>The scatter and the gather order\<close>

text \<open>
  The two traversals on the tree \<^verbatim>\<open>setupNaryTree\<close> builds, as instances of \<open>node_order\<close>: the scatter order takes
  the children as they are stored, the gather order level by level from the last level up.
\<close>

lemma foldM_children:
  assumes "\<And>i. i \<in> set is \<Longrightarrow> g i = Some (f i)"
  shows "foldM (\<lambda>st i. do { c \<leftarrow> g i; h c st }) st is = foldM (\<lambda>st c. h c st) st (map f is)"
  using assms by (induction "is" arbitrary: st) (auto split: bind_splits)

lemma map_index: "map (\<lambda>i. xs ! nat i) [0..int (length xs) - 1] = xs"
  by (rule nth_equalityI) auto

lemma nary_sel:
  assumes "0 \<le> v" "v < n"
  shows "get (t_nDownNodes (nary_tree junk n k t)) v = Some (int (length (kids n k v)))"
    and "get (t_nInPartialLevel (nary_tree junk n k t)) v = Some (part_val n k v)"
    and "get (t_upNodes (nary_tree junk n k t)) v = Some (up_val k v)"
    and "get (t_downNodes (nary_tree junk n k t)) v = Some (arr_val junk n k v)"
  using assms by (simp_all add: nary_tree_def tree_at_def get_filled)

lemma kids_pos: "kids n k v \<noteq> [] \<Longrightarrow> 2 \<le> k \<Longrightarrow> 0 < (k - 1) * int (lev k n - lev k v)"
  by (auto simp: kids_def zero_less_mult_iff)

lemma down_node_ok:
  assumes "2 \<le> k" "0 \<le> v" "v < n" "0 \<le> i" "i < int (length (kids n k v))"
  shows "down_node (nary_tree junk n k t) v i = Some (kids n k v ! nat i)"
proof -
  have "kids n k v \<noteq> []" "lev k v \<le> lev k n" using assms by (auto intro: lev_mono)
  with kids_pos [OF this(1) assms(1)] assms show ?thesis
    by (simp add: down_node_def nary_sel arr_val_def Let_def) (simp add: get_def arr_get_def nth_append nat_less_iff)
qed

subsection \<open>The indices of the gather order\<close>

lemma gather_chunks_ok:
  assumes k: "2 \<le> k" and "nd - cnt = int m * (k - 1)"
  shows "\<exists>is. gather_chunks k nd cnt = Some is \<and> mset is = mset [0..nd - cnt - 1]"
  using assms(2)
proof (induction m arbitrary: cnt)
  case 0
  then show ?case by (subst gather_chunks.simps) simp
next
  case (Suc m)
  define s where "s = int m * (k - 1)"
  have "0 \<le> int m * (k - 1)" using k by simp
  then have s: "0 \<le> s" "nd - cnt = s + (k - 1)" using Suc.prems by (simp_all add: s_def algebra_simps)
  then have st: "nd - (cnt + (k - 1)) = s" by simp
  obtain js where js: "gather_chunks k nd (cnt + (k - 1)) = Some js" "mset js = mset [0..s - 1]"
    using Suc.IH [of "cnt + (k - 1)"] unfolding st by (auto simp: s_def)
  have st: "nd - cnt - (k - 1) = s" "cnt < nd" using s k by auto
  have "[0..nd - cnt - 1] = [0..s - 1] @ [s..s + (k - 1) - 1]"
    using s k upto_split1 [of 0 s "nd - cnt - 1"] by simp
  with js k st show ?case by (subst gather_chunks.simps) (simp add: Let_def)
qed

lemma full_row:
  assumes k: "2 \<le> k" and v: "0 \<le> v" and n: "0 < n" and L: "lev k v < L" "L < lev k n"
  shows "length (row n k v L) = nat (k - 1)"
proof -
  obtain j where j: "L = Suc j" "lev k v \<le> j" using L(1) by (cases L) auto
  have "k ^ lev k v \<le> k ^ j" using k j by (intro power_increasing) auto
  with lev_bounds [OF k v] have "v + 1 \<le> k ^ j" by linarith
  then have "(v + 1) * (k - 1) \<le> k ^ j * (k - 1)" using k by (intro mult_right_mono) auto
  then have "v * (k - 1) + k ^ j + (k - 1) \<le> k ^ L" by (simp add: j algebra_simps)
  also have "\<dots> \<le> k ^ (lev k n - 1)" using k L by (intro power_increasing) auto
  also have "\<dots> \<le> n" using lev_bounds [OF k, of n] n by simp
  finally show ?thesis using k by (simp add: row_def Let_def j min_def)
qed

lemma part_full:
  assumes k: "2 \<le> k" and v: "0 \<le> v" and n: "v < n"
  shows "int (length (kids n k v)) - part_val n k v = int (lev k n - lev k v - 1) * (k - 1)"
proof (cases "lev k v < lev k n")
  case True
  let ?ls = "[Suc (lev k v)..<lev k n]"
  have "kids n k v = concat (map (row n k v) ?ls) @ row n k v (lev k n)" using True by (simp add: kids_def)
  moreover have "length (concat (map (row n k v) ls)) = length ls * nat (k - 1)" if "set ls \<subseteq> set ?ls" for ls
    using that
  proof (induction ls)
    case (Cons L ls)
    then have "length (row n k v L) = nat (k - 1)" using full_row [OF k v, of n L] v n by auto
    with Cons show ?case by simp
  qed simp
  from this [of ?ls] have "length (concat (map (row n k v) ?ls)) = (lev k n - lev k v - 1) * nat (k - 1)" by simp
  ultimately show ?thesis using True k by (simp add: part_val_def)
next
  case False
  moreover have "lev k v \<le> lev k n" using k v n by (intro lev_mono) auto
  ultimately show ?thesis by (simp add: kids_def part_val_def)
qed

lemma gather_indices_ok:
  assumes k: "2 \<le> k" and v: "0 \<le> v" "v < n"
  shows "\<exists>is. gather_indices (nary_tree junk n k t) v = Some is \<and> mset is = mset [0..int (length (kids n k v)) - 1]"
proof -
  let ?nd = "int (length (kids n k v))" and ?np = "part_val n k v"
  have "0 \<le> int (lev k n - lev k v - 1) * (k - 1)" using k by simp
  with part_full [OF k v] have np: "0 \<le> ?np" "?np \<le> ?nd" by (linarith | simp add: part_val_def)+
  let ?first = "if 0 < ?np then [?nd - ?np..?nd - 1] else []"
  have len: "int (length ?first) = ?np" using np by auto
  from gather_chunks_ok [OF k part_full [OF k v]] obtain js where
    js: "gather_chunks k ?nd ?np = Some js" "mset js = mset [0..?nd - ?np - 1]" by blast
  have "mset (?first @ js) = mset [0..?nd - 1]"
    using np js(2) upto_split1 [of 0 "?nd - ?np" "?nd - 1"] by (auto simp: add.commute)
  moreover have "t_order (nary_tree junk n k t) = k" by (simp add: nary_tree_def tree_at_def)
  ultimately show ?thesis using js(1) len by (simp add: gather_indices_def nary_sel v Let_def)
qed

subsection \<open>The traversals\<close>

definition gather_kids :: "ulm_tree \<Rightarrow> int \<Rightarrow> int \<Rightarrow> int \<Rightarrow> int list" where
  "gather_kids tree n k v = map (\<lambda>i. kids n k v ! nat i) (the (gather_indices tree v))"

lemma mset_gather_kids:
  assumes "2 \<le> k" "0 \<le> v" "v < n"
  shows "mset (gather_kids (nary_tree junk n k t) n k v) = mset (kids n k v)"
proof -
  from gather_indices_ok [OF assms, of junk t] obtain js where
    "gather_indices (nary_tree junk n k t) v = Some js" "mset js = mset [0..int (length (kids n k v)) - 1]" by blast
  then have "mset (gather_kids (nary_tree junk n k t) n k v)
      = mset (map (\<lambda>i. kids n k v ! nat i) [0..int (length (kids n k v)) - 1])"
    by (simp add: gather_kids_def)
  then show ?thesis by (simp only: map_index)
qed

lemma parent_tree_kids: "2 \<le> k \<Longrightarrow> parent_tree n (dad k) (kids n k)"
  by unfold_locales (use dad_row in \<open>auto simp: kids_iff distinct_kids\<close>)

lemma parent_tree_gather: "2 \<le> k \<Longrightarrow> parent_tree n (dad k) (gather_kids (nary_tree junk n k t) n k)"
proof unfold_locales
  fix v assume a: "2 \<le> k" "0 \<le> v" "v < n"
  note m = mset_gather_kids [OF a, of junk t]
  show "u \<in> set (gather_kids (nary_tree junk n k t) n k v) \<longleftrightarrow> 0 < u \<and> u < n \<and> dad k u = v" for u
    using m a by (metis kids_iff set_mset_mset)
  show "distinct (gather_kids (nary_tree junk n k t) n k v)"
    using m a by (metis distinct_kids mset_eq_imp_distinct_iff)
qed (use dad_row in auto)

text \<open>The contract for every tree with \<open>m + 1\<close> nodes and order \<open>q + 2\<close>.\<close>

lemma scatter_step:
  assumes "2 \<le> k" "0 \<le> v" "v < n"
  shows "getScatterNodeOrder (Suc fuel) (nary_tree junk n k t) fill v st = Option.bind (add_root fill v st)
    (\<lambda>st1. foldM (\<lambda>st c. getScatterNodeOrder fuel (nary_tree junk n k t) fill c st) st1 (kids n k v))"
  using assms foldM_children [of "[0..int (length (kids n k v)) - 1]" "down_node (nary_tree junk n k t) v"
      "\<lambda>i. kids n k v ! nat i" "getScatterNodeOrder fuel (nary_tree junk n k t) fill"]
  by (simp add: nary_sel down_node_ok map_index)

lemma gather_step:
  assumes "2 \<le> k" "0 \<le> v" "v < n"
  shows "getGatherNodeOrder (Suc fuel) (nary_tree junk n k t) fill v st = Option.bind (add_root fill v st)
    (\<lambda>st1. foldM (\<lambda>st c. getGatherNodeOrder fuel (nary_tree junk n k t) fill c st) st1
      (gather_kids (nary_tree junk n k t) n k v))"
proof -
  from gather_indices_ok [OF assms, of junk t] obtain js where
    js: "gather_indices (nary_tree junk n k t) v = Some js" "mset js = mset [0..int (length (kids n k v)) - 1]" by blast
  have "set js = set [0..int (length (kids n k v)) - 1]" using js(2) by (metis set_mset_mset)
  with js(1) assms foldM_children [of js "down_node (nary_tree junk n k t) v" "\<lambda>i. kids n k v ! nat i"
      "getGatherNodeOrder fuel (nary_tree junk n k t) fill"]
  show ?thesis by (simp add: gather_kids_def down_node_ok)
qed

interpretation scatter: node_order "int m + 1" "dad (int q + 2)" "kids (int m + 1) (int q + 2)"
  "\<lambda>fuel. getScatterNodeOrder fuel (nary_tree junk (int m + 1) (int q + 2) t)"
  for m q :: nat and junk t
  by (intro node_order.intro node_order_axioms.intro parent_tree_kids scatter_step) auto

interpretation gather: node_order "int m + 1" "dad (int q + 2)"
  "gather_kids (nary_tree junk (int m + 1) (int q + 2) t) (int m + 1) (int q + 2)"
  "\<lambda>fuel. getGatherNodeOrder fuel (nary_tree junk (int m + 1) (int q + 2) t)"
  for m q :: nat and junk t
  by (intro node_order.intro node_order_axioms.intro parent_tree_gather gather_step) auto

subsection \<open>Properties\<close>

definition children :: "ulm_tree \<Rightarrow> int \<Rightarrow> int list option" where
  "children tree v = do { n \<leftarrow> get (t_nDownNodes tree) v; those (map (down_node tree v) [0..n - 1]) }"

definition parent :: "ulm_tree \<Rightarrow> int \<Rightarrow> int" where
  "parent tree u = the (get (t_upNodes tree) u)"

lemma children_ok:
  assumes "2 \<le> k" "0 \<le> v" "v < n"
  shows "children (nary_tree junk n k t) v = Some (kids n k v)"
proof -
  have "map (down_node (nary_tree junk n k t) v) [0..int (length (kids n k v)) - 1]
      = map Some (map (\<lambda>i. kids n k v ! nat i) [0..int (length (kids n k v)) - 1])"
    using assms by (simp add: down_node_ok)
  then show ?thesis using assms by (simp only: children_def nary_sel map_index those_map_Some bind.bind_lunit)
qed

lemma parent_ok: "0 < u \<Longrightarrow> u < n \<Longrightarrow> parent (nary_tree junk n k t) u = dad k u"
  by (simp add: parent_def nary_sel up_val_def)

lemma full_power:
  assumes n: "0 < n" and k: "2 \<le> k"
  shows "(\<exists>e. n < k ^ e \<and> k ^ e \<le> 2147483647) \<longleftrightarrow> int_range (k ^ lev k n)"
proof
  assume "\<exists>e. n < k ^ e \<and> k ^ e \<le> 2147483647"
  then obtain e where e: "n < k ^ e" "k ^ e \<le> 2147483647" by blast
  have "k ^ (lev k n - 1) < k ^ e" "0 < lev k n" using lev_bounds [OF k, of n] n e(1) by auto
  then have "lev k n \<le> e" using k by (simp add: power_strict_increasing_iff)
  moreover have "int_range (k ^ e)" using e(2) k by (simp add: int_range_def order_trans [of _ 0])
  ultimately show "int_range (k ^ lev k n)" using power_range [OF k] by blast
next
  assume "int_range (k ^ lev k n)"
  then show "\<exists>e. n < k ^ e \<and> k ^ e \<le> 2147483647" using lev_bounds [OF k, of n] n by (auto simp: int_range_def)
qed

text \<open>C30: \<^verbatim>\<open>setupNaryTree\<close> for at least one node, an order of at least 2 and allocations that succeed. If some power of
  the order is above the number of nodes and an \<^verbatim>\<open>int\<close>, the call returns without leaving its arrays or overflowing,
  and what it builds is a tree rooted at node 0: every other node has a parent with a smaller number, and the children
  stored for a node are, without repetition, exactly the nodes whose parent it is. If there is no such power, the
  computation of the depth overflows and the call is undefined.\<close>

theorem nary_tree_correct:
  assumes "0 < nNodes" and "2 \<le> order"
  shows "if \<exists>e. nNodes < order ^ e \<and> order ^ e \<le> 2147483647
    then \<exists>t'. setupNaryTree junk [] nNodes order t = Some (ULM_SUCCESS, t') \<and> get (t_upNodes t') 0 = Some (- 1)
      \<and> (\<forall>u. 0 < u \<and> u < nNodes \<longrightarrow> (\<exists>p. get (t_upNodes t') u = Some p \<and> 0 \<le> p \<and> p < u))
      \<and> (\<forall>v. 0 \<le> v \<and> v < nNodes \<longrightarrow> (\<exists>cs. children t' v = Some cs \<and> distinct cs
          \<and> set cs = {u. 0 < u \<and> u < nNodes \<and> get (t_upNodes t') u = Some v}))
    else setupNaryTree junk [] nNodes order t = None"
proof -
  have e: "(\<exists>e. nNodes < order ^ e \<and> order ^ e \<le> 2147483647) \<longleftrightarrow> int_range (order ^ lev order nNodes)"
    by (rule full_power [OF assms])
  show ?thesis
    unfolding e using assms dad_row [OF assms(2)] kids_iff [OF assms(2)] distinct_kids [OF assms(2)] children_ok [OF assms(2)]
    by (simp add: setup_ok) (intro impI exI [of _ "nary_tree junk nNodes order t"], auto simp: nary_sel up_val_def)
qed

definition no_tree :: ulm_tree where
  "no_tree = \<lparr>t_nNodes = 0, t_order = 0, t_treeDepth = 0, t_nFullLevels = 0, t_nNodesInFullLevels = 0,
     t_nUpNodes = None, t_upNodes = None, t_nDownNodes = None, t_nInPartialLevel = None, t_startLevel = None,
     t_downNodes = None\<rparr>"

theorem nary_tree_correct_witness:
  "\<exists>t'. setupNaryTree 99 [] 7 2 no_tree = Some (ULM_SUCCESS, t') \<and> get (t_upNodes t') 0 = Some (- 1)
    \<and> (\<exists>cs. children t' 1 = Some cs \<and> distinct cs
        \<and> set cs = {u. 0 < u \<and> u < 7 \<and> get (t_upNodes t') u = Some 1})"
proof -
  have "\<exists>e. (7 :: int) < 2 ^ e \<and> 2 ^ e \<le> (2147483647 :: int)" by (intro exI [of _ 3]) simp
  with nary_tree_correct [of 7 2 99 no_tree] obtain t' where
    "setupNaryTree 99 [] 7 2 no_tree = Some (ULM_SUCCESS, t')" "get (t_upNodes t') 0 = Some (- 1)"
    "\<forall>v. 0 \<le> v \<and> v < 7 \<longrightarrow> (\<exists>cs. children t' v = Some cs \<and> distinct cs
        \<and> set cs = {u. 0 < u \<and> u < 7 \<and> get (t_upNodes t') u = Some v})" by auto
  then show ?thesis by (intro exI [of _ t']) auto
qed

lemma node_orders:
  assumes "0 < nNodes" and "2 \<le> order" and "setupNaryTree junk [] nNodes order t = Some (rc, t')"
    and "0 \<le> v" and "v < nNodes" and "nNodes \<le> int fuel"
  shows "\<exists>m. getScatterNodeOrder fuel t' False v (a, 0) = Some (a, m)
    \<and> getGatherNodeOrder fuel t' False v (a, 0) = Some (a, m)
    \<and> (\<forall>b. int (length b) = m \<longrightarrow>
        (\<exists>xs ys. getScatterNodeOrder fuel t' True v (b, 0) = Some (xs, m)
          \<and> getGatherNodeOrder fuel t' True v (b, 0) = Some (ys, m)
          \<and> hd xs = v \<and> hd ys = v \<and> distinct xs \<and> mset ys = mset xs
          \<and> set xs = {u. 0 \<le> u \<and> u < nNodes \<and> below (parent t') v u} \<and> (v = 0 \<longrightarrow> mset xs = mset [0..nNodes - 1])))"
proof -
  define p q where "p = nat (nNodes - 1)" and "q = nat (order - 2)"
  have n: "nNodes = int p + 1" and k: "order = int q + 2" using assms by (auto simp: p_def q_def)
  have t': "t' = nary_tree junk (int p + 1) (int q + 2) t"
    using setup_ok [OF assms(2,1), of junk t] assms(3) by (simp add: n k split: if_splits)
  have v: "0 \<le> v" "v < int p + 1" "int p + 1 - v \<le> int fuel" "int p + 1 \<le> int fuel" using assms n by auto
  have up: "below (parent t') v u = below (dad (int q + 2)) v u" if "u < int p + 1" for u
    using that by (intro scatter.below_cong) (auto simp: t' parent_ok)
  note s = scatter.visit_count [OF v(1-3), of junk q t a 0, folded t', simplified]
  note g = gather.visit_count [OF v(1-3), of junk q t a 0, folded t', simplified]
  note sp = scatter.preorder_ok [OF v(1-3), of q] and gp = gather.preorder_ok [OF v(1-3), of junk q t, folded t']
  define m where "m = int (length (preorder (kids (int p + 1) (int q + 2)) fuel v))"
  have m: "int (length (preorder (gather_kids t' (int p + 1) (int q + 2)) fuel v)) = m"
    using sp gp by (simp add: m_def distinct_card [symmetric])
  show ?thesis
  proof (rule exI [of _ m], intro conjI allI impI)
    show sc: "getScatterNodeOrder fuel t' False v (a, 0) = Some (a, m)" using s by (simp add: m_def)
    show gc: "getGatherNodeOrder fuel t' False v (a, 0) = Some (a, m)" using g m by simp
    fix b :: "int list" assume b: "int (length b) = m"
    note S = scatter.two_passes [OF v(1,2,4) b, of junk q t a a, folded t', OF sc]
    note G = gather.two_passes [OF v(1,2,4) b, of junk q t a a, folded t', OF gc]
    from S G obtain xs ys where xy: "getScatterNodeOrder fuel t' True v (b, 0) = Some (xs, m)" "distinct xs"
      "getGatherNodeOrder fuel t' True v (b, 0) = Some (ys, m)" "distinct ys" "hd xs = v" "hd ys = v"
      "set xs = {u. 0 \<le> u \<and> u < int p + 1 \<and> below (dad (int q + 2)) v u}" "set ys = set xs"
      "v = 0 \<longrightarrow> mset xs = mset [0..int p + 1 - 1]" by auto
    then have "mset ys = mset xs" by (metis set_eq_iff_mset_eq_distinct)
    with xy up show "\<exists>xs ys. getScatterNodeOrder fuel t' True v (b, 0) = Some (xs, m)
          \<and> getGatherNodeOrder fuel t' True v (b, 0) = Some (ys, m)
          \<and> hd xs = v \<and> hd ys = v \<and> distinct xs \<and> mset ys = mset xs
          \<and> set xs = {u. 0 \<le> u \<and> u < nNodes \<and> below (parent t') v u} \<and> (v = 0 \<longrightarrow> mset xs = mset [0..nNodes - 1])"
      unfolding n by (intro exI [of _ xs] exI [of _ ys]) auto
  qed
qed

text \<open>C31: for every node the counting pass and the filling pass of \<^verbatim>\<open>getScatterNodeOrder\<close> agree, and so do those
  of \<^verbatim>\<open>getGatherNodeOrder\<close>: an array of the counted size is filled exactly. Both orders start with the node and
  list the nodes below it in the tree once each; for the root these are all nodes. The recursion is at most
  as deep as there are nodes.\<close>

theorem node_orders_correct:
  assumes "0 < nNodes" and "2 \<le> order" and "setupNaryTree junk [] nNodes order t = Some (rc, t')"
    and "0 \<le> v" and "v < nNodes" and "nNodes \<le> int fuel"
  shows "\<exists>m. getScatterNodeOrder fuel t' False v (a, 0) = Some (a, m)
    \<and> getGatherNodeOrder fuel t' False v (a, 0) = Some (a, m)
    \<and> (\<forall>b. int (length b) = m \<longrightarrow>
        (\<exists>xs ys. getScatterNodeOrder fuel t' True v (b, 0) = Some (xs, m)
          \<and> getGatherNodeOrder fuel t' True v (b, 0) = Some (ys, m)
          \<and> hd xs = v \<and> hd ys = v \<and> distinct xs \<and> mset ys = mset xs
          \<and> set xs = {u. 0 \<le> u \<and> u < nNodes \<and> below (parent t') v u} \<and> (v = 0 \<longrightarrow> mset xs = mset [0..nNodes - 1])))"
  by (rule node_orders [OF assms])

theorem node_orders_correct_witness:
  "\<exists>t' xs. setupNaryTree 99 [] 5 2 no_tree = Some (ULM_SUCCESS, t')
    \<and> getScatterNodeOrder 5 t' False 0 ([], 0) = Some ([], 5)
    \<and> getScatterNodeOrder 5 t' True 0 (replicate 5 99, 0) = Some (xs, 5) \<and> mset xs = mset [0..4]"
proof -
  let ?t = "nary_tree 99 5 2 no_tree"
  have t: "setupNaryTree 99 [] 5 2 no_tree = Some (ULM_SUCCESS, ?t)"
    using setup_ok [of 2 5 99 no_tree] power_range [of 2 3 "lev 2 5"] lev_unique [of 2 5 3] by (simp add: int_range_def)
  from node_orders_correct [of 5 2 99 no_tree ULM_SUCCESS ?t 0 5 "[]"] t obtain m where
    m: "getScatterNodeOrder 5 ?t False 0 ([], 0) = Some ([], m)"
    "\<forall>b. int (length b) = m \<longrightarrow> (\<exists>xs. getScatterNodeOrder 5 ?t True 0 (b, 0) = Some (xs, m) \<and> mset xs = mset [0..4])"
    by fastforce
  have "Option.bind (setupNaryTree 99 [] 5 2 no_tree) (\<lambda>(rc, t). getScatterNodeOrder 5 t False 0 ([], 0)) = Some ([], 5)"
    by code_simp
  with m t show ?thesis by auto
qed

end
