(* ===== verification/Errhandler.thy ===== *)
theory Errhandler
  imports Ptr_Table Comm
begin

section \<open>Error handlers\<close>

text \<open>
  \<^verbatim>\<open>mpi_errhandler.c\<close> and \<^verbatim>\<open>mpi_errhandler_{create,free,get,set}.c\<close>: the table of error handlers (a handle
  table of \<^verbatim>\<open>mpi_ptr_table.c\<close>), the reference count a handler has for the communicators that use it, and the
  index of its handler each communicator stores. \<open>es_heap\<close> holds the handler objects, \<open>es_comms\<close> the entries
  \<^verbatim>\<open>communicators[i]\<close> (\<open>None\<close> for the null pointer, else \<^verbatim>\<open>errorHandlerIndex\<close>), \<open>es_allocs\<close> the outcome of the
  coming allocations and \<open>es_calls\<close> the handler functions called, with communicator and error code. After a
  call of \<open>Errors_are_fatal\<close> the process is aborted, so that what follows in a trace is not executed. A null
  pointer, an index out of range and a lock that is already held are \<open>None\<close>.
\<close>

datatype handler_fn = Errors_are_fatal | Errors_return | User_fn nat

record errhandler =
  eh_func :: handler_fn
  eh_lock :: bool
  eh_isbasic :: int
  eh_freed :: int
  eh_refcount :: int

record eh_state =
  es_heap :: "nat \<Rightarrow> errhandler option"
  es_next :: nat
  es_table :: "nat ptr_table"
  es_comms :: "int option list"
  es_threads :: bool
  es_finalized :: bool
  es_allocs :: "bool list"
  es_calls :: "(handler_fn \<times> int \<times> int) list"

abbreviation (input) MPI_ERRHANDLER_NULL :: int where "MPI_ERRHANDLER_NULL \<equiv> - 1"
abbreviation (input) ULM_ERR_COMM :: int where "ULM_ERR_COMM \<equiv> - 11"

subsection \<open>Allocation, locks, the table\<close>

definition es_malloc :: "eh_state \<Rightarrow> bool \<times> eh_state" where
  "es_malloc s = (case es_allocs s of [] \<Rightarrow> (True, s) | b # bs \<Rightarrow> (b, s\<lparr>es_allocs := bs\<rparr>))"

definition eh_update :: "nat \<Rightarrow> (errhandler \<Rightarrow> errhandler) \<Rightarrow> eh_state \<Rightarrow> eh_state option" where
  "eh_update a f s = map_option (\<lambda>h. s\<lparr>es_heap := (es_heap s)(a \<mapsto> f h)\<rparr>) (es_heap s a)"

definition atomic_lock :: "nat \<Rightarrow> eh_state \<Rightarrow> eh_state option" where
  "atomic_lock a s = do {
     h \<leftarrow> es_heap s a;
     (if eh_lock h then None else eh_update a (\<lambda>h. h\<lparr>eh_lock := True\<rparr>) s)
   }"

definition atomic_unlock :: "nat \<Rightarrow> eh_state \<Rightarrow> eh_state option" where
  "atomic_unlock a s = eh_update a (\<lambda>h. h\<lparr>eh_lock := False\<rparr>) s"

text \<open>\<^verbatim>\<open>_mpi_ptr_table_add\<close> allocates only when the table is empty or full.\<close>

definition table_add :: "nat \<Rightarrow> eh_state \<Rightarrow> (int \<times> eh_state) option" where
  "table_add a s =
     (let tab = es_table s;
          (ok, s1) = (if pt_addr tab = None \<or> pt_number_free tab = 0 then es_malloc s else (True, s))
      in map_option (\<lambda>(h, tab'). (h, s1\<lparr>es_table := tab'\<rparr>)) (mpi_ptr_table_add (es_threads s) ok (Some a) tab))"

definition table_free :: "int \<Rightarrow> eh_state \<Rightarrow> eh_state option" where
  "table_free index s =
     map_option (\<lambda>(_, tab). s\<lparr>es_table := tab\<rparr>) (mpi_ptr_table_free (es_threads s) index (es_table s))"

text \<open>A lookup whose result is dereferenced.\<close>

definition table_lookup :: "int \<Rightarrow> eh_state \<Rightarrow> (nat \<times> eh_state) option" where
  "table_lookup index s = do {
     (p, tab) \<leftarrow> mpi_ptr_table_lookup (es_threads s) index (es_table s);
     a \<leftarrow> p;
     Some (a, s\<lparr>es_table := tab\<rparr>)
   }"

definition ulm_get_errhandler_index :: "int \<Rightarrow> eh_state \<Rightarrow> (int \<times> int) option" where
  "ulm_get_errhandler_index comm s = do {
     bad \<leftarrow> (if comm < 0 \<or> comm > int (length (es_comms s)) then Some True
            else map_option (\<lambda>c. c = None) (arr_get (es_comms s) comm));
     c \<leftarrow> arr_get (es_comms s) (if bad then MPI_COMM_WORLD else comm);
     index \<leftarrow> c;
     Some (if bad then ULM_ERR_COMM else ULM_SUCCESS, index)
   }"

definition ulm_set_errhandler_index :: "int \<Rightarrow> int \<Rightarrow> eh_state \<Rightarrow> eh_state option" where
  "ulm_set_errhandler_index comm index s = do {
     c \<leftarrow> arr_get (es_comms s) comm;
     _ \<leftarrow> c;
     cs \<leftarrow> arr_set (es_comms s) comm (Some index);
     Some (s\<lparr>es_comms := cs\<rparr>)
   }"

subsection \<open>The operations\<close>

text \<open>\<^verbatim>\<open>_mpi_errhandler\<close>: look up the handler of the communicator and call it, holding its lock.\<close>

definition call_errhandler :: "int \<Rightarrow> int \<Rightarrow> eh_state \<Rightarrow> eh_state option" where
  "call_errhandler comm rc s =
     (if es_finalized s then Some s
      else do {
        (r, index) \<leftarrow> ulm_get_errhandler_index comm s;
        let comm' = (if r \<noteq> ULM_SUCCESS then MPI_COMM_WORLD else comm);
        (if index < pt_size (es_table s) then do {
           addr \<leftarrow> pt_addr (es_table s);
           p \<leftarrow> arr_get addr index;
           a \<leftarrow> p;
           s1 \<leftarrow> atomic_lock a s;
           h \<leftarrow> es_heap s1 a;
           atomic_unlock a (s1\<lparr>es_calls := es_calls s1 @ [(eh_func h, comm', rc)]\<rparr>)
         } else Some s)
      })"

definition new_errhandler :: "handler_fn \<Rightarrow> int \<Rightarrow> int \<Rightarrow> errhandler" where
  "new_errhandler func isbasic refcount =
     \<lparr>eh_func = func, eh_lock = False, eh_isbasic = isbasic, eh_freed = 0, eh_refcount = refcount\<rparr>"

text \<open>Allocating a handler object and entering it: \<open>None\<close> as the handle when the allocation failed.\<close>

definition add_errhandler :: "errhandler \<Rightarrow> eh_state \<Rightarrow> (int option \<times> eh_state) option" where
  "add_errhandler h s =
     (case es_malloc s of
        (False, s1) \<Rightarrow> Some (None, s1)
      | (True, s1) \<Rightarrow> do {
          let a = es_next s1;
          (i, s2) \<leftarrow> table_add a (s1\<lparr>es_heap := (es_heap s1)(a \<mapsto> h), es_next := Suc a\<rparr>);
          Some (Some i, s2)
        })"

text \<open>\<^verbatim>\<open>_mpi_create_errhandler_table\<close>: whether a table is returned. On failure the table and the object that was
  not entered are freed.\<close>

definition mpi_create_errhandler_table :: "eh_state \<Rightarrow> (bool \<times> eh_state) option" where
  "mpi_create_errhandler_table s =
     (case es_malloc s of
        (False, s1) \<Rightarrow> Some (False, s1)
      | (True, s1) \<Rightarrow> do {
          (h1, s2) \<leftarrow> add_errhandler (new_errhandler Errors_are_fatal 1 1) (s1\<lparr>es_table := ptr_table_zero\<rparr>);
          (case h1 of None \<Rightarrow> Some (False, s2)
           | Some i1 \<Rightarrow>
               if i1 < 0 then Some (False, s2\<lparr>es_heap := (es_heap s2)(es_next s2 - 1 := None)\<rparr>)
               else do {
                 (h2, s3) \<leftarrow> add_errhandler (new_errhandler Errors_return 1 1) s2;
                 (case h2 of None \<Rightarrow> Some (False, s3)
                  | Some i2 \<Rightarrow>
                      if i2 < 0 then Some (False, s3\<lparr>es_heap := (es_heap s3)(es_next s3 - 1 := None)\<rparr>)
                      else Some (True, s3))
               })
        })"

definition PMPI_Errhandler_create :: "handler_fn option \<Rightarrow> int option \<Rightarrow> eh_state \<Rightarrow>
    (int \<times> int option \<times> eh_state) option" where
  "PMPI_Errhandler_create func handler s =
     (case func of
        None \<Rightarrow> do {
          s1 \<leftarrow> call_errhandler MPI_COMM_WORLD MPI_ERR_ARG s;
          Some (MPI_ERR_ARG, handler, s1)
        }
      | Some f \<Rightarrow> do {
          (r, s1) \<leftarrow> add_errhandler (new_errhandler f 0 0) s;
          (case r of
             None \<Rightarrow> do {
               s2 \<leftarrow> call_errhandler MPI_COMM_WORLD MPI_ERR_NO_SPACE s1;
               Some (MPI_ERR_NO_SPACE, handler, s2)
             }
           | Some i \<Rightarrow> do { _ \<leftarrow> handler; Some (MPI_SUCCESS, Some i, s1) })
        })"

text \<open>\<open>index\<close> is the handle the argument points to; its new value is part of the result.\<close>

definition PMPI_Errhandler_free :: "int \<Rightarrow> eh_state \<Rightarrow> (int \<times> int \<times> eh_state) option" where
  "PMPI_Errhandler_free index s = do {
     (a, s1) \<leftarrow> table_lookup index s;
     s2 \<leftarrow> atomic_lock a s1;
     h \<leftarrow> es_heap s2 a;
     s3 \<leftarrow> (if eh_refcount h = 0 \<and> eh_isbasic h = 0 then table_free index s2 else Some s2);
     s4 \<leftarrow> (if eh_isbasic h = 0 then eh_update a (\<lambda>h. h\<lparr>eh_freed := 1\<rparr>) s3 else Some s3);
     s5 \<leftarrow> atomic_unlock a s4;
     Some (MPI_SUCCESS, MPI_ERRHANDLER_NULL, s5)
   }"

definition PMPI_Errhandler_get :: "int \<Rightarrow> eh_state \<Rightarrow> (int \<times> int) option" where
  "PMPI_Errhandler_get comm s = do {
     (rc, index) \<leftarrow> ulm_get_errhandler_index comm s;
     Some (if rc = ULM_SUCCESS then MPI_SUCCESS else mpi_error rc, index)
   }"

definition PMPI_Errhandler_set :: "int \<Rightarrow> int \<Rightarrow> eh_state \<Rightarrow> (int \<times> eh_state) option" where
  "PMPI_Errhandler_set comm index_new s = do {
     (_, index_old) \<leftarrow> ulm_get_errhandler_index comm s;
     (old, s1) \<leftarrow> table_lookup index_old s;
     (new, s2) \<leftarrow> table_lookup index_new s1;
     s3 \<leftarrow> atomic_lock old s2;
     s4 \<leftarrow> eh_update old (\<lambda>h. h\<lparr>eh_refcount := eh_refcount h - 1\<rparr>) s3;
     h \<leftarrow> es_heap s4 old;
     s5 \<leftarrow> atomic_unlock old s4;
     s6 \<leftarrow> (if eh_freed h \<noteq> 0 \<and> eh_refcount h = 0 then table_free index_old s5 else Some s5);
     s7 \<leftarrow> atomic_lock new s6;
     s8 \<leftarrow> eh_update new (\<lambda>h. h\<lparr>eh_refcount := eh_refcount h + 1\<rparr>) s7;
     s9 \<leftarrow> atomic_unlock new s8;
     s10 \<leftarrow> ulm_set_errhandler_index comm index_new s9;
     Some (MPI_SUCCESS, s10)
   }"

end
