(* ===== verification/Errhandler_Props.thy ===== *)
theory Errhandler_Props
  imports Errhandler
begin

section \<open>Error handlers stay in force\<close>

text \<open>
  The abstract view of the component: \<open>hf\<close> maps the handles the program holds to their functions, \<open>cf\<close> the
  communicators to the function in force. \<open>eh_rel\<close> relates it to the table, the objects and their reference
  counts; every operation of a program that uses its own handles only preserves the relation.
\<close>

subsection \<open>The relation\<close>

definition hd_at :: "eh_state \<Rightarrow> int \<Rightarrow> errhandler option" where
  "hd_at s i = Option.bind (pt_map (es_table s) i) (es_heap s)"

definition users :: "eh_state \<Rightarrow> int \<Rightarrow> int" where
  "users s i = int (count_list (es_comms s) (Some i))"

definition comm_index :: "eh_state \<Rightarrow> int \<Rightarrow> int option" where
  "comm_index s c = Option.bind (arr_get (es_comms s) c) (\<lambda>i. i)"

definition basic_fn :: "int \<Rightarrow> handler_fn" where
  "basic_fn i = (if i = 0 then Errors_are_fatal else Errors_return)"

definition handler_ok :: "eh_state \<Rightarrow> (int \<Rightarrow> handler_fn option) \<Rightarrow> int \<Rightarrow> errhandler \<Rightarrow> bool" where
  "handler_ok s hf i h \<longleftrightarrow> \<not> eh_lock h \<and>
     (if i = 0 \<or> i = 1 then eh_isbasic h \<noteq> 0 \<and> eh_freed h = 0 \<and> eh_func h = basic_fn i
      else eh_isbasic h = 0 \<and> eh_refcount h = users s i \<and>
        (case hf i of Some f \<Rightarrow> eh_freed h = 0 \<and> eh_func h = f | None \<Rightarrow> eh_freed h \<noteq> 0 \<and> 0 < eh_refcount h))"

definition table_ok :: "eh_state \<Rightarrow> bool" where
  "table_ok s \<longleftrightarrow> pt_inv (es_table s) \<and> 
     (\<forall>i j a. pt_map (es_table s) i = Some a \<longrightarrow> pt_map (es_table s) j = Some a \<longrightarrow> i = j) \<and>
     (\<forall>i a. pt_map (es_table s) i = Some a \<longrightarrow> a < es_next s \<and> es_heap s a \<noteq> None)"

definition eh_rel :: "eh_state \<Rightarrow> (int \<Rightarrow> handler_fn option) \<Rightarrow> (int \<Rightarrow> handler_fn) \<Rightarrow> bool" where
  "eh_rel s hf cf \<longleftrightarrow> table_ok s \<and> \<not> es_finalized s \<and> es_allocs s = [] \<and>
     (\<forall>i h. hd_at s i = Some h \<longrightarrow> handler_ok s hf i h) \<and>
     hd_at s 0 \<noteq> None \<and> hd_at s 1 \<noteq> None \<and> hf 0 = None \<and> hf 1 = None \<and>
     (\<forall>i. hf i \<noteq> None \<longrightarrow> hd_at s i \<noteq> None) \<and>
     (\<forall>c i. comm_index s c = Some i \<longrightarrow> (\<exists>h. hd_at s i = Some h \<and> eh_func h = cf c))"

lemma hd_atE:
  assumes "hd_at s i = Some h"
  obtains a where "pt_map (es_table s) i = Some a" "es_heap s a = Some h"
  using assms by (auto simp: hd_at_def split: bind_splits)

lemma hd_at_live: "table_ok s \<Longrightarrow> hd_at s i \<noteq> None \<longleftrightarrow> pt_map (es_table s) i \<noteq> None"
  by (auto simp: hd_at_def table_ok_def split: bind_splits)

text \<open>Writing one object, and changing the table, in terms of \<open>hd_at\<close>.\<close>

lemma hd_at_write:
  assumes "table_ok s" and "pt_map (es_table s) i = Some a"
  shows "hd_at (s\<lparr>es_heap := (es_heap s)(a \<mapsto> h)\<rparr>) = (hd_at s)(i \<mapsto> h)"
    and "table_ok (s\<lparr>es_heap := (es_heap s)(a \<mapsto> h)\<rparr>)"
proof -
  have other: "pt_map (es_table s) j \<noteq> Some a" if "j \<noteq> i" for j
    using assms that unfolding table_ok_def by blast
  have "hd_at (s\<lparr>es_heap := (es_heap s)(a \<mapsto> h)\<rparr>) j = ((hd_at s)(i \<mapsto> h)) j" for j
    using assms(2) other [of j] by (cases "pt_map (es_table s) j") (auto simp: hd_at_def)
  then show "hd_at (s\<lparr>es_heap := (es_heap s)(a \<mapsto> h)\<rparr>) = (hd_at s)(i \<mapsto> h)" by blast
  show "table_ok (s\<lparr>es_heap := (es_heap s)(a \<mapsto> h)\<rparr>)" using assms by (auto simp: table_ok_def)
qed

lemma hd_at_drop:
  assumes "table_ok s" and "pt_inv tab" and "pt_map tab = (pt_map (es_table s))(i := None)"
  shows "hd_at (s\<lparr>es_table := tab\<rparr>) = (hd_at s)(i := None)" and "table_ok (s\<lparr>es_table := tab\<rparr>)"
  using assms by (auto simp: hd_at_def fun_eq_iff table_ok_def split: if_splits)

lemma lookup_ok: "table_ok s \<Longrightarrow> pt_map (es_table s) i = Some a \<Longrightarrow> table_lookup i s = Some (a, s)"
  by (simp add: table_lookup_def table_ok_def mpi_ptr_table_lookup_ok)

lemma table_free_ok:
  assumes "table_ok s" and "pt_map (es_table s) i = Some a"
  shows "\<exists>tab. table_free i s = Some (s\<lparr>es_table := tab\<rparr>) \<and> pt_inv tab
    \<and> pt_map tab = (pt_map (es_table s))(i := None)
    \<and> hd_at (s\<lparr>es_table := tab\<rparr>) = (hd_at s)(i := None) \<and> table_ok (s\<lparr>es_table := tab\<rparr>)"
proof -
  from mpi_ptr_table_free_ok [of "es_table s" i a "es_threads s"] assms obtain tab where
    "mpi_ptr_table_free (es_threads s) i (es_table s) = Some (0, tab)" "pt_inv tab"
    "pt_map tab = (pt_map (es_table s))(i := None)" by (auto simp: table_ok_def)
  with hd_at_drop [OF assms(1)] show ?thesis by (auto simp: table_free_def)
qed

lemma malloc_ok [simp]: "es_allocs s = [] \<Longrightarrow> es_malloc s = (True, s)"
  by (simp add: es_malloc_def)

lemma add_ok:
  assumes "table_ok s" and "es_allocs s = []"
  shows "\<exists>i s'. add_errhandler h s = Some (Some i, s') \<and> table_ok s' \<and> 0 \<le> i \<and> hd_at s i = None
    \<and> (\<forall>k. 0 \<le> k \<longrightarrow> k < i \<longrightarrow> hd_at s k \<noteq> None)
    \<and> hd_at s' = (hd_at s)(i \<mapsto> h) \<and> es_allocs s' = [] \<and> es_finalized s' = es_finalized s \<and> es_comms s' = es_comms s
    \<and> es_calls s' = es_calls s"
proof -
  let ?a = "es_next s" and ?tab = "es_table s"
  from assms(1) have inv: "pt_inv ?tab" by (simp add: table_ok_def)
  from mpi_ptr_table_add_ok [OF inv, of "es_threads s" ?a] obtain i tab where
    t: "mpi_ptr_table_add (es_threads s) True (Some ?a) ?tab = Some (i, tab)" "pt_inv tab" "0 \<le> i"
    "pt_map ?tab i = None" "\<forall>k. 0 \<le> k \<longrightarrow> k < i \<longrightarrow> pt_map ?tab k \<noteq> None" "pt_map tab = (pt_map ?tab)(i \<mapsto> ?a)" by blast
  define s' where "s' = s\<lparr>es_heap := (es_heap s)(?a \<mapsto> h), es_next := Suc ?a, es_table := tab\<rparr>"
  have fresh: "pt_map ?tab j \<noteq> Some ?a" for j using assms(1) by (auto simp: table_ok_def)
  have "add_errhandler h s = Some (Some i, s')"
    using assms(2) t(1) by (simp add: add_errhandler_def table_add_def s'_def Let_def)
  moreover have "table_ok s'"
    using assms(1) t(2,6) fresh by (auto simp: table_ok_def s'_def less_Suc_eq split: if_splits)
  moreover have "hd_at s' = (hd_at s)(i \<mapsto> h)"
    using t(6) fresh by (auto simp: hd_at_def s'_def fun_eq_iff split: bind_splits)
  moreover have "hd_at s i = None" "\<forall>k. 0 \<le> k \<longrightarrow> k < i \<longrightarrow> hd_at s k \<noteq> None"
    using t(4,5) hd_at_live [OF assms(1)] by (simp add: hd_at_def, blast)
  ultimately show ?thesis using assms(2) t(3) by (auto simp: s'_def)
qed

lemma hd_at_dead:
  assumes "\<And>j. pt_map (es_table s) j \<noteq> Some a"
  shows "hd_at (s\<lparr>es_heap := (es_heap s)(a \<mapsto> h)\<rparr>) = hd_at s"
proof
  fix j
  show "hd_at (s\<lparr>es_heap := (es_heap s)(a \<mapsto> h)\<rparr>) j = hd_at s j"
    using assms [of j] by (cases "pt_map (es_table s) j") (auto simp: hd_at_def)
qed

lemma count_list_update:
  "n < length xs \<Longrightarrow> int (count_list (xs[n := y]) x) =
    int (count_list xs x) - (if xs ! n = x then 1 else 0) + (if y = x then 1 else 0)"
proof (induction xs arbitrary: n)
  case (Cons z zs)
  show ?case
  proof (cases n)
    case (Suc m)
    with Cons.IH [of m] Cons.prems show ?thesis by (cases "z = x"; cases "zs ! m = x"; cases "y = x") auto
  qed auto
qed simp

lemma comm_indexE:
  assumes "comm_index s c = Some i"
  shows "0 \<le> c \<and> c < int (length (es_comms s)) \<and> es_comms s ! nat c = Some i"
  using assms by (auto simp: comm_index_def arr_get_def split: bind_splits if_splits)

lemma get_index_ok: "comm_index s c = Some i \<Longrightarrow> ulm_get_errhandler_index c s = Some (ULM_SUCCESS, i)"
  by (frule comm_indexE) (simp add: ulm_get_errhandler_index_def arr_get_def)

lemma eh_relD:
  assumes "eh_rel s hf cf" and "hd_at s i = Some h"
  shows "\<not> eh_lock h" and "handler_ok s hf i h"
  using assms by (auto simp: eh_rel_def handler_ok_def)

lemma eh_rel_comm: "eh_rel s hf cf \<Longrightarrow> comm_index s c = Some i \<Longrightarrow> \<exists>h. hd_at s i = Some h \<and> eh_func h = cf c"
  unfolding eh_rel_def by blast

lemma table_ok_write: "table_ok s \<Longrightarrow> table_ok (s\<lparr>es_heap := (es_heap s)(a \<mapsto> h)\<rparr>)"
  by (auto simp: table_ok_def)

subsection \<open>The operations preserve it\<close>

lemma call_ok:
  assumes rel: "eh_rel s hf cf" and c: "comm_index s c = Some i"
  shows "call_errhandler c rc s = Some (s\<lparr>es_calls := es_calls s @ [(cf c, c, rc)]\<rparr>)"
proof -
  obtain h where h: "hd_at s i = Some h" "eh_func h = cf c" using eh_rel_comm [OF rel c] by blast
  obtain a where a: "pt_map (es_table s) i = Some a" "es_heap s a = Some h" by (rule hd_atE [OF h(1)])
  have unl: "\<not> eh_lock h" "h\<lparr>eh_lock := False\<rparr> = h" using eh_relD(1) [OF rel h(1)] by (cases h, auto)+
  have inv: "pt_inv (es_table s)" "\<not> es_finalized s" using rel by (auto simp: eh_rel_def table_ok_def)
  obtain arr where arr: "pt_addr (es_table s) = Some arr" "arr_get arr i = Some (Some a)" "i < pt_size (es_table s)"
    using a(1) inv(1) by (auto simp: pt_map_def pt_inv_def arr_get_def split: option.splits if_splits)
  show ?thesis
    using arr a unl inv(2) h(2)
    by (simp add: call_errhandler_def get_index_ok [OF c] atomic_lock_def atomic_unlock_def eh_update_def fun_upd_idem)
qed

lemma create_ok:
  assumes rel: "eh_rel s hf cf"
  shows "\<exists>i s'. PMPI_Errhandler_create (Some f) (Some x) s = Some (MPI_SUCCESS, Some i, s') \<and> hf i = None
    \<and> eh_rel s' (hf(i \<mapsto> f)) cf \<and> es_comms s' = es_comms s \<and> es_calls s' = es_calls s"
proof -
  let ?h = "new_errhandler f 0 0"
  from add_ok [of s ?h] rel obtain i s' where
    i: "add_errhandler ?h s = Some (Some i, s')" "table_ok s'" "0 \<le> i" "hd_at s i = None" "hd_at s' = (hd_at s)(i \<mapsto> ?h)"
    "es_allocs s' = []" "es_finalized s' = es_finalized s" "es_comms s' = es_comms s" "es_calls s' = es_calls s"
    by (auto simp: eh_rel_def)
  have hf: "hf i = None" and i01: "i \<noteq> 0" "i \<noteq> 1" using rel i(4) by (auto simp: eh_rel_def)
  have cs: "comm_index s' = comm_index s" "users s' = users s" using i(8) by (auto simp: comm_index_def users_def fun_eq_iff)
  have nc: "comm_index s c \<noteq> Some i" for c using eh_rel_comm [OF rel, of c i] i(4) by auto
  have "Some i \<notin> set (es_comms s)"
  proof
    assume "Some i \<in> set (es_comms s)"
    then obtain n where "n < length (es_comms s)" "es_comms s ! n = Some i" by (auto simp: in_set_conv_nth)
    then have "comm_index s (int n) = Some i" by (simp add: comm_index_def)
    with nc show False by blast
  qed
  then have "users s i = 0" by (simp add: users_def count_list_0_iff)
  then have "eh_rel s' (hf(i \<mapsto> f)) cf"
    using rel i i01 cs nc by (auto simp: eh_rel_def handler_ok_def new_errhandler_def)
  with i hf show ?thesis by (auto simp: PMPI_Errhandler_create_def)
qed

lemma free_ok:
  assumes rel: "eh_rel s hf cf" and i: "hf i = Some f"
  shows "\<exists>s'. PMPI_Errhandler_free i s = Some (MPI_SUCCESS, MPI_ERRHANDLER_NULL, s') \<and> eh_rel s' (hf(i := None)) cf
    \<and> es_comms s' = es_comms s \<and> es_calls s' = es_calls s"
proof -
  have i01: "i \<noteq> 0" "i \<noteq> 1" and ok: "table_ok s" using rel i by (auto simp: eh_rel_def)
  obtain h where h: "hd_at s i = Some h" using rel i by (auto simp: eh_rel_def)
  obtain a where a: "pt_map (es_table s) i = Some a" "es_heap s a = Some h" by (rule hd_atE [OF h])
  have hok: "\<not> eh_lock h" "eh_isbasic h = 0" "eh_refcount h = users s i" "eh_freed h = 0" "eh_func h = f"
    using eh_relD(2) [OF rel h] i i01 by (auto simp: handler_ok_def)
  define l where "l = s\<lparr>es_heap := (es_heap s)(a \<mapsto> h\<lparr>eh_lock := True\<rparr>)\<rparr>"
  define g where "g = h\<lparr>eh_freed := 1, eh_lock := False\<rparr>"
  have ll: "table_ok l" "hd_at l = (hd_at s)(i \<mapsto> h\<lparr>eh_lock := True\<rparr>)" "pt_map (es_table l) i = Some a"
    using hd_at_write [OF ok a(1), of "h\<lparr>eh_lock := True\<rparr>"] a by (simp_all add: l_def)
  show ?thesis
  proof (cases "eh_refcount h = 0")
    case True
    from table_free_ok [OF ll(1,3)] obtain tab where
      tab: "table_free i l = Some (l\<lparr>es_table := tab\<rparr>)" "pt_map tab = (pt_map (es_table l))(i := None)"
      "hd_at (l\<lparr>es_table := tab\<rparr>) = (hd_at l)(i := None)" "table_ok (l\<lparr>es_table := tab\<rparr>)" by blast
    define s' where "s' = l\<lparr>es_table := tab, es_heap := (es_heap s)(a \<mapsto> g)\<rparr>"
    have dead: "pt_map (es_table (l\<lparr>es_table := tab\<rparr>)) j \<noteq> Some a" for j
      using ll(1,3) tab(2) by (auto simp: table_ok_def)
    have hd: "hd_at s' = (hd_at s)(i := None)"
      using hd_at_dead [OF dead, of g] tab(3) ll(2) by (simp add: s'_def l_def)
    have "table_ok s'" using table_ok_write [OF tab(4), of a g] by (simp add: s'_def l_def)
    moreover have "comm_index s' = comm_index s" "users s' = users s"
      by (auto simp: s'_def l_def comm_index_def users_def fun_eq_iff)
    moreover have "comm_index s c \<noteq> Some i" for c
      using True hok(3) comm_indexE [of s c i] by (auto simp: users_def count_list_0_iff in_set_conv_nth)
    ultimately have "eh_rel s' (hf(i := None)) cf"
      using rel hd i01 by (auto simp: eh_rel_def handler_ok_def s'_def l_def)
    moreover have "PMPI_Errhandler_free i s = Some (MPI_SUCCESS, MPI_ERRHANDLER_NULL, s')"
      using True hok(1,2) a tab(1)
      by (simp add: PMPI_Errhandler_free_def lookup_ok [OF ok a(1)] atomic_lock_def atomic_unlock_def eh_update_def
          l_def s'_def g_def)
    ultimately show ?thesis by (auto simp: s'_def l_def)
  next
    case False
    define s' where "s' = s\<lparr>es_heap := (es_heap s)(a \<mapsto> g)\<rparr>"
    have hd: "hd_at s' = (hd_at s)(i \<mapsto> g)" "table_ok s'" using hd_at_write [OF ok a(1), of g] by (simp_all add: s'_def)
    moreover have "comm_index s' = comm_index s" "users s' = users s" by (auto simp: s'_def comm_index_def users_def fun_eq_iff)
    moreover have "0 < users s i" using False hok(3) by (auto simp: users_def)
    moreover have "eh_func h = cf c" if "comm_index s c = Some i" for c using eh_rel_comm [OF rel that] h by simp
    ultimately have "eh_rel s' (hf(i := None)) cf"
      using rel i01 hok by (auto simp: eh_rel_def handler_ok_def s'_def g_def)
    moreover have "PMPI_Errhandler_free i s = Some (MPI_SUCCESS, MPI_ERRHANDLER_NULL, s')"
      using False hok(1,2) a
      by (simp add: PMPI_Errhandler_free_def lookup_ok [OF ok a(1)] atomic_lock_def atomic_unlock_def eh_update_def
          s'_def g_def)
    ultimately show ?thesis by (auto simp: s'_def)
  qed
qed

text \<open>The objects after \<^verbatim>\<open>MPI_Errhandler_set\<close>: the old one has lost a reference, the new one gained one.\<close>

lemma set_run:
  assumes ok: "table_ok s" and c: "comm_index s c = Some io"
    and a: "pt_map (es_table s) io = Some a" "es_heap s a = Some ha" "\<not> eh_lock ha"
    and b: "pt_map (es_table s) i = Some b" "es_heap s b = Some hb" "\<not> eh_lock hb" and ne: "a \<noteq> b"
  shows "\<exists>s'. PMPI_Errhandler_set c i s = Some (MPI_SUCCESS, s') \<and> table_ok s'
    \<and> es_comms s' = (es_comms s)[nat c := Some i] \<and> es_calls s' = es_calls s \<and> es_allocs s' = es_allocs s
    \<and> es_finalized s' = es_finalized s
    \<and> hd_at s' = (hd_at s)(io := if eh_freed ha \<noteq> 0 \<and> eh_refcount ha = 1 then None
                            else Some (ha\<lparr>eh_refcount := eh_refcount ha - 1\<rparr>),
                         i \<mapsto> hb\<lparr>eh_refcount := eh_refcount hb + 1\<rparr>)"
proof -
  let ?ha = "ha\<lparr>eh_refcount := eh_refcount ha - 1\<rparr>" and ?hb = "hb\<lparr>eh_refcount := eh_refcount hb + 1\<rparr>"
  let ?drop = "eh_freed ha \<noteq> 0 \<and> eh_refcount ha = 1"
  have unl: "ha\<lparr>eh_refcount := x, eh_lock := False\<rparr> = ha\<lparr>eh_refcount := x\<rparr>"
    "hb\<lparr>eh_refcount := x, eh_lock := False\<rparr> = hb\<lparr>eh_refcount := x\<rparr>" for x
    using a(3) b(3) by (cases ha, cases hb, auto)+
  define s1 where "s1 = s\<lparr>es_heap := (es_heap s)(a \<mapsto> ?ha)\<rparr>"
  have s1: "table_ok s1" "hd_at s1 = (hd_at s)(io \<mapsto> ?ha)" "es_table s1 = es_table s"
    using hd_at_write [OF ok a(1), of ?ha] by (simp_all add: s1_def)
  obtain s2 where s2: "(if ?drop then table_free io s1 else Some s1) = Some s2" "table_ok s2"
    "pt_map (es_table s2) = (if ?drop then (pt_map (es_table s))(io := None) else pt_map (es_table s))"
    "hd_at s2 = (hd_at s)(io := if ?drop then None else Some ?ha)" "s2 = s1\<lparr>es_table := es_table s2\<rparr>"
    using table_free_ok [OF s1(1), of io a] s1 a(1) by (cases ?drop) auto
  have io: "io \<noteq> i" using ne a(1) b(1) by auto
  have "es_heap s2 = es_heap s1" by (subst s2(5)) simp
  then have b2: "pt_map (es_table s2) i = Some b" "es_heap s2 b = Some hb"
    using b(1,2) s2(3) io ne by (simp_all add: s1_def)
  define s3 where "s3 = s2\<lparr>es_heap := (es_heap s2)(b \<mapsto> ?hb)\<rparr>"
  have s3: "table_ok s3" "hd_at s3 = (hd_at s2)(i \<mapsto> ?hb)"
    using hd_at_write [OF s2(2) b2(1), of ?hb] by (simp_all add: s3_def)
  have keep: "es_comms s2 = es_comms s" "es_calls s2 = es_calls s" "es_allocs s2 = es_allocs s"
    "es_finalized s2 = es_finalized s" by (subst s2(5), simp add: s1_def)+
  define s4 where "s4 = s3\<lparr>es_comms := (es_comms s)[nat c := Some i]\<rparr>"
  have hc: "hd_at s4 = hd_at s3" by (simp add: s4_def hd_at_def fun_eq_iff)
  have "ulm_set_errhandler_index c i s3 = Some s4"
    using comm_indexE [OF c] keep(1) by (simp add: ulm_set_errhandler_index_def s3_def s4_def arr_get_def arr_set_def)
  moreover obtain s7 s8 where "atomic_lock b s2 = Some s7"
    "eh_update b (\<lambda>h. h\<lparr>eh_refcount := eh_refcount h + 1\<rparr>) s7 = Some s8" "atomic_unlock b s8 = Some s3"
    using b2 b(3) by (simp add: atomic_lock_def atomic_unlock_def eh_update_def s3_def unl)
  moreover obtain s3' s4' where "atomic_lock a s = Some s3'"
    "eh_update a (\<lambda>h. h\<lparr>eh_refcount := eh_refcount h - 1\<rparr>) s3' = Some s4'"
    "es_heap s4' a = Some (?ha\<lparr>eh_lock := True\<rparr>)" "atomic_unlock a s4' = Some s1"
    using a by (simp add: atomic_lock_def atomic_unlock_def eh_update_def s1_def unl)
  ultimately have "PMPI_Errhandler_set c i s = Some (MPI_SUCCESS, s4)"
    using s2(1) a(1) b(1)
    by (simp add: PMPI_Errhandler_set_def get_index_ok [OF c] lookup_ok [OF ok] conj_commute)
  then show ?thesis using s3 s2(4) keep hc by (auto simp: s4_def s3_def table_ok_def)
qed

lemma set_run_same:
  assumes ok: "table_ok s" and c: "comm_index s c = Some i"
    and a: "pt_map (es_table s) i = Some a" "es_heap s a = Some h" "\<not> eh_lock h" "eh_freed h = 0"
  shows "PMPI_Errhandler_set c i s = Some (MPI_SUCCESS, s)"
proof -
  let ?h = "h\<lparr>eh_refcount := eh_refcount h - 1\<rparr>"
  have unl: "h\<lparr>eh_refcount := x, eh_lock := False\<rparr> = h\<lparr>eh_refcount := x\<rparr>" for x using a(3) by (cases h) auto
  define s1 where "s1 = s\<lparr>es_heap := (es_heap s)(a \<mapsto> ?h)\<rparr>"
  have same: "h\<lparr>eh_refcount := eh_refcount h\<rparr> = h" "(es_comms s)[nat c := Some i] = es_comms s"
    using comm_indexE [OF c] by (simp_all add: list_update_same_conv nat_less_iff)
  obtain s3 s4 where "atomic_lock a s = Some s3" "eh_update a (\<lambda>h. h\<lparr>eh_refcount := eh_refcount h - 1\<rparr>) s3 = Some s4"
    "es_heap s4 a = Some (?h\<lparr>eh_lock := True\<rparr>)" "atomic_unlock a s4 = Some s1"
    using a by (simp add: atomic_lock_def atomic_unlock_def eh_update_def s1_def unl)
  moreover obtain s7 s8 where "atomic_lock a s1 = Some s7"
    "eh_update a (\<lambda>h. h\<lparr>eh_refcount := eh_refcount h + 1\<rparr>) s7 = Some s8" "atomic_unlock a s8 = Some s"
    using a by (simp add: atomic_lock_def atomic_unlock_def eh_update_def s1_def unl same fun_upd_idem)
  moreover have "ulm_set_errhandler_index c i s = Some s"
    using comm_indexE [OF c] by (simp add: ulm_set_errhandler_index_def arr_get_def arr_set_def same)
  ultimately show ?thesis using a by (simp add: PMPI_Errhandler_set_def get_index_ok [OF c] lookup_ok [OF ok])
qed

lemma comm_index_set:
  assumes "comm_index s c = Some io" and "es_comms s' = (es_comms s)[nat c := Some i]"
  shows "comm_index s' = (comm_index s)(c \<mapsto> i)"
    and "users s' j = users s j - (if j = io then 1 else 0) + (if j = i then 1 else 0)"
proof -
  note c = comm_indexE [OF assms(1)]
  show "comm_index s' = (comm_index s)(c \<mapsto> i)"
    using c assms(2) by (auto simp: comm_index_def arr_get_def fun_eq_iff nth_list_update nat_less_iff)
  show "users s' j = users s j - (if j = io then 1 else 0) + (if j = i then 1 else 0)"
    using c assms(2) count_list_update [of "nat c" "es_comms s" "Some i" "Some j"]
    by (auto simp: users_def nat_less_iff)
qed

lemma set_ok:
  assumes rel: "eh_rel s hf cf" and c: "comm_index s c = Some io"
    and i: "hd_at s i = Some hb" "i = 0 \<or> i = 1 \<or> hf i \<noteq> None"
  shows "\<exists>s'. PMPI_Errhandler_set c i s = Some (MPI_SUCCESS, s') \<and> eh_rel s' hf (cf(c := eh_func hb))
    \<and> comm_index s' = (comm_index s)(c \<mapsto> i) \<and> es_calls s' = es_calls s"
proof -
  have ok: "table_ok s" using rel by (simp add: eh_rel_def)
  obtain ha where ha: "hd_at s io = Some ha" "eh_func ha = cf c" using eh_rel_comm [OF rel c] by blast
  obtain a where a: "pt_map (es_table s) io = Some a" "es_heap s a = Some ha" by (rule hd_atE [OF ha(1)])
  obtain b where b: "pt_map (es_table s) i = Some b" "es_heap s b = Some hb" by (rule hd_atE [OF i(1)])
  note unl = eh_relD(1) [OF rel ha(1)] eh_relD(1) [OF rel i(1)]
  note hok = eh_relD(2) [OF rel ha(1)] eh_relD(2) [OF rel i(1)]
  show ?thesis
  proof (cases "io = i")
    case True
    have "eh_freed ha = 0" using hok i True ha(1) by (auto simp: handler_ok_def split: if_splits option.splits)
    with set_run_same [OF ok c] a unl True have "PMPI_Errhandler_set c i s = Some (MPI_SUCCESS, s)" by simp
    moreover have "(comm_index s)(c \<mapsto> i) = comm_index s" "cf(c := eh_func hb) = cf"
      using c True ha i(1) by (auto simp: fun_eq_iff)
    ultimately show ?thesis using rel by simp
  next
    case False
    then have "a \<noteq> b" using ok a(1) b(1) unfolding table_ok_def by blast
    from set_run [OF ok c a unl(1) b unl(2) this] obtain s' where
      s': "PMPI_Errhandler_set c i s = Some (MPI_SUCCESS, s')" "table_ok s'" "es_comms s' = (es_comms s)[nat c := Some i]"
      "es_calls s' = es_calls s" "es_allocs s' = es_allocs s" "es_finalized s' = es_finalized s"
      "hd_at s' = (hd_at s)(io := if eh_freed ha \<noteq> 0 \<and> eh_refcount ha = 1 then None
          else Some (ha\<lparr>eh_refcount := eh_refcount ha - 1\<rparr>), i \<mapsto> hb\<lparr>eh_refcount := eh_refcount hb + 1\<rparr>)" by blast
    note ci = comm_index_set [OF c s'(3)]
    let ?drop = "eh_freed ha \<noteq> 0 \<and> eh_refcount ha = 1"
    have io: "?drop \<Longrightarrow> io \<noteq> 0 \<and> io \<noteq> 1 \<and> users s io = 1 \<and> hf io = None"
      using hok(1) by (auto simp: handler_ok_def split: if_splits option.splits)
    have left: "comm_index s c' \<noteq> Some io" if "?drop" "c' \<noteq> c" for c'
    proof
      assume c': "comm_index s c' = Some io"
      let ?xs = "es_comms s"
      note x = comm_indexE [OF c] comm_indexE [OF c']
      have "nat c \<noteq> nat c'" using x that by auto
      moreover have "users s io = 1" using io that by blast
      ultimately have "count_list (?xs[nat c := None]) (Some io) = 0" "nat c' < length ?xs"
        "?xs[nat c := None] ! nat c' = Some io"
        using x count_list_update [of "nat c" ?xs None "Some io"] by (auto simp: users_def nat_less_iff)
      then show False by (metis count_list_0_iff length_list_update nth_mem)
    qed
    have "handler_ok s' hf j h" if j: "hd_at s' j = Some h" for j h
    proof -
      consider "j = i" | "j = io" "j \<noteq> i" | "j \<noteq> io" "j \<noteq> i" by blast
      then show ?thesis
      proof cases
        case 1
        then have "h = hb\<lparr>eh_refcount := eh_refcount hb + 1\<rparr>" using j s'(7) by simp
        with hok(2) ci(2) [of i] False 1 i(2) show ?thesis by (auto simp: handler_ok_def split: option.splits)
      next
        case 2
        then have h: "h = ha\<lparr>eh_refcount := eh_refcount ha - 1\<rparr>" "\<not> ?drop" using j s'(7) by (auto split: if_splits)
        from hok(1) ci(2) [of io] 2 h show ?thesis by (auto simp: handler_ok_def split: option.splits if_splits)
      next
        case 3
        then have "hd_at s j = Some h" using j s'(7) by simp
        from eh_relD(2) [OF rel this] ci(2) [of j] 3 show ?thesis by (simp add: handler_ok_def)
      qed
    qed
    moreover have "\<exists>h. hd_at s' j = Some h \<and> eh_func h = (cf(c := eh_func hb)) c'" if "comm_index s' c' = Some j" for c' j
      using that eh_rel_comm [OF rel, of c' j] s'(7) ci(1) left [of c'] ha False i(1) by (auto split: if_splits)
    ultimately have "eh_rel s' hf (cf(c := eh_func hb))"
      using rel s' io by (auto simp: eh_rel_def)
    then show ?thesis using s' ci by blast
  qed
qed

subsection \<open>Programs\<close>

text \<open>The calls a program makes, with the abstract state they lead to: \<open>hf\<close> gets the handle a creation returns.\<close>

datatype eh_op = ECreate handler_fn | EFree int | ESet int int | EError int int

fun eh_exec :: "eh_op \<Rightarrow> eh_state \<times> (int \<Rightarrow> handler_fn option) \<times> (int \<Rightarrow> handler_fn) \<Rightarrow>
    (int \<times> eh_state \<times> (int \<Rightarrow> handler_fn option) \<times> (int \<Rightarrow> handler_fn)) option" where
  "eh_exec (ECreate f) (s, hf, cf) = do {
     (rc, h, s') \<leftarrow> PMPI_Errhandler_create (Some f) (Some 0) s;
     i \<leftarrow> h;
     Some (rc, s', hf(i \<mapsto> f), cf)
   }"
| "eh_exec (EFree i) (s, hf, cf) = do {
     (rc, _, s') \<leftarrow> PMPI_Errhandler_free i s;
     Some (rc, s', hf(i := None), cf)
   }"
| "eh_exec (ESet c i) (s, hf, cf) = do {
     (rc, s') \<leftarrow> PMPI_Errhandler_set c i s;
     Some (rc, s', hf, cf(c := (case hf i of Some f \<Rightarrow> f | None \<Rightarrow> basic_fn i)))
   }"
| "eh_exec (EError c e) (s, hf, cf) = do {
     s' \<leftarrow> call_errhandler c e s;
     Some (MPI_SUCCESS, s', hf, cf)
   }"

text \<open>A program frees handles it created, sets these or the predefined ones, on existing communicators.\<close>

fun eh_legal :: "eh_op \<Rightarrow> eh_state \<times> (int \<Rightarrow> handler_fn option) \<times> (int \<Rightarrow> handler_fn) \<Rightarrow> bool" where
  "eh_legal (ECreate f) st = True"
| "eh_legal (EFree i) (s, hf, cf) = (hf i \<noteq> None)"
| "eh_legal (ESet c i) (s, hf, cf) = (comm_index s c \<noteq> None \<and> (i = 0 \<or> i = 1 \<or> hf i \<noteq> None))"
| "eh_legal (EError c e) (s, hf, cf) = (comm_index s c \<noteq> None)"

fun eh_run :: "eh_op list \<Rightarrow> eh_state \<times> (int \<Rightarrow> handler_fn option) \<times> (int \<Rightarrow> handler_fn) \<Rightarrow>
    (eh_state \<times> (int \<Rightarrow> handler_fn option) \<times> (int \<Rightarrow> handler_fn)) option" where
  "eh_run [] st = Some st"
| "eh_run (op # ops) st = Option.bind (eh_exec op st) (\<lambda>(rc, st'). if rc = MPI_SUCCESS then eh_run ops st' else None)"

fun eh_legals :: "eh_op list \<Rightarrow> eh_state \<times> (int \<Rightarrow> handler_fn option) \<times> (int \<Rightarrow> handler_fn) \<Rightarrow> bool" where
  "eh_legals [] st = True"
| "eh_legals (op # ops) st =
     (eh_legal op st \<and> (case eh_exec op st of Some (rc, st') \<Rightarrow> eh_legals ops st' | None \<Rightarrow> True))"

lemma eh_exec_ok:
  assumes rel: "eh_rel s hf cf" and "eh_legal op (s, hf, cf)"
  shows "\<exists>s' hf' cf'. eh_exec op (s, hf, cf) = Some (MPI_SUCCESS, s', hf', cf') \<and> eh_rel s' hf' cf'"
proof (cases op)
  case (ECreate f)
  with create_ok [OF rel, of f 0] show ?thesis by fastforce
next
  case (EFree i)
  with assms(2) free_ok [OF rel, of i] show ?thesis by fastforce
next
  case (ESet c i)
  with assms(2) obtain io where io: "comm_index s c = Some io" "i = 0 \<or> i = 1 \<or> hf i \<noteq> None" by auto
  with rel obtain hb where hb: "hd_at s i = Some hb" by (auto simp: eh_rel_def)
  have "eh_func hb = (case hf i of Some f \<Rightarrow> f | None \<Rightarrow> basic_fn i)"
    using eh_relD(2) [OF rel hb] io(2) rel by (auto simp: handler_ok_def eh_rel_def split: if_splits option.splits)
  with set_ok [OF rel io(1) hb io(2)] ESet show ?thesis by fastforce
next
  case (EError c e)
  with assms(2) obtain i where i: "comm_index s c = Some i" by auto
  let ?s = "s\<lparr>es_calls := es_calls s @ [(cf c, c, e)]\<rparr>"
  have "eh_rel ?s hf cf"
    using rel by (simp add: eh_rel_def table_ok_def handler_ok_def hd_at_def users_def comm_index_def)
  with call_ok [OF rel i] EError show ?thesis by simp
qed

lemma eh_run_ok:
  assumes "eh_rel s hf cf" and "eh_legals ops (s, hf, cf)"
  shows "\<exists>s' hf' cf'. eh_run ops (s, hf, cf) = Some (s', hf', cf') \<and> eh_rel s' hf' cf'"
  using assms
proof (induction ops arbitrary: s hf cf)
  case (Cons op ops)
  from eh_exec_ok [OF Cons.prems(1)] Cons.prems(2) obtain s1 hf1 cf1 where
    "eh_exec op (s, hf, cf) = Some (MPI_SUCCESS, s1, hf1, cf1)" "eh_rel s1 hf1 cf1" by fastforce
  with Cons.IH Cons.prems(2) show ?case by simp
qed simp

text \<open>The state \<^verbatim>\<open>MPI_Init\<close> leaves: the table with the two predefined handlers, every communicator with
  \<^verbatim>\<open>MPI_ERRHANDLER_DEFAULT\<close>.\<close>

definition eh_before :: "bool \<Rightarrow> bool list \<Rightarrow> eh_state" where
  "eh_before threads comms = \<lparr>es_heap = Map.empty, es_next = 0, es_table = ptr_table_zero,
     es_comms = map (\<lambda>b. if b then Some 1 else None) comms, es_threads = threads, es_finalized = False,
     es_allocs = [], es_calls = []\<rparr>"

lemma init_ok:
  "\<exists>s. mpi_create_errhandler_table (eh_before th comms) = Some (True, s) \<and> eh_rel s Map.empty (\<lambda>_. Errors_return)
    \<and> es_comms s = es_comms (eh_before th comms)"
proof -
  let ?s = "(eh_before th comms)\<lparr>es_table := ptr_table_zero\<rparr>"
  have ok: "table_ok ?s" "es_allocs ?s = []"
    using pt_inv_zero by (auto simp: eh_before_def table_ok_def pt_map_def ptr_table_zero_def)
  have none: "hd_at ?s i = None" for i by (simp add: eh_before_def hd_at_def pt_map_def ptr_table_zero_def)
  from add_ok [OF ok, of "new_errhandler Errors_are_fatal 1 1"] obtain i s1 where
    s1: "add_errhandler (new_errhandler Errors_are_fatal 1 1) ?s = Some (Some i, s1)" "table_ok s1" "0 \<le> i"
    "\<forall>k. 0 \<le> k \<longrightarrow> k < i \<longrightarrow> hd_at ?s k \<noteq> None" "hd_at s1 = (hd_at ?s)(i \<mapsto> new_errhandler Errors_are_fatal 1 1)"
    "es_allocs s1 = []" "es_finalized s1 = es_finalized ?s" "es_comms s1 = es_comms ?s" by blast
  have i0: "i = 0" using s1(3,4) none by (metis order_le_less order_refl)
  from add_ok [OF s1(2,6), of "new_errhandler Errors_return 1 1"] obtain j s2 where
    s2: "add_errhandler (new_errhandler Errors_return 1 1) s1 = Some (Some j, s2)" "table_ok s2" "0 \<le> j"
    "hd_at s1 j = None" "\<forall>k. 0 \<le> k \<longrightarrow> k < j \<longrightarrow> hd_at s1 k \<noteq> None"
    "hd_at s2 = (hd_at s1)(j \<mapsto> new_errhandler Errors_return 1 1)"
    "es_allocs s2 = []" "es_finalized s2 = es_finalized s1" "es_comms s2 = es_comms s1" by blast
  have j0: "j \<noteq> 0" using s2(4) s1(5) i0 by auto
  have "\<not> 1 < j" using s2(5) s1(5) none i0 by (metis fun_upd_other zero_le_one zero_neq_one)
  with j0 s2(3) have j1: "j = 1" by simp
  have hd: "hd_at s2 = (\<lambda>_. None)(0 \<mapsto> new_errhandler Errors_are_fatal 1 1, 1 \<mapsto> new_errhandler Errors_return 1 1)"
    using s2(6) s1(5) i0 j1 none by (auto simp: fun_eq_iff)
  have "c = Some 1 \<or> c = None" if "arr_get (es_comms s2) k = Some c" for k c
    using that s2(9) s1(8) by (auto simp: eh_before_def arr_get_def split: if_splits)
  then have ci: "comm_index s2 k = Some c \<Longrightarrow> c = 1" for k c
    by (fastforce simp: comm_index_def split: bind_splits)
  have "handler_ok s2 Map.empty k h" if "hd_at s2 k = Some h" for k h
    using that unfolding hd by (auto simp: handler_ok_def new_errhandler_def basic_fn_def split: if_splits)
  moreover have "\<exists>h. hd_at s2 c = Some h \<and> eh_func h = Errors_return" if "comm_index s2 k = Some c" for k c
    using ci [OF that] by (simp add: hd new_errhandler_def)
  moreover have "hd_at s2 0 \<noteq> None" "hd_at s2 1 \<noteq> None" by (simp_all add: hd)
  moreover have "\<not> es_finalized s2" using s2(8) s1(7) by (simp add: eh_before_def)
  ultimately have "eh_rel s2 Map.empty (\<lambda>_. Errors_return)" using s2(2,7) by (simp add: eh_rel_def)
  moreover have "mpi_create_errhandler_table (eh_before th comms) = Some (True, s2)"
    using s1(1,3) s2(1,3) by (simp add: mpi_create_errhandler_table_def eh_before_def)
  ultimately show ?thesis using s1(8) s2(9) by (auto simp: eh_before_def)
qed

lemma rel_entries:
  assumes rel: "eh_rel s hf cf" and i: "pt_map (es_table s) i \<noteq> None"
  shows "i = 0 \<or> i = 1 \<or> hf i \<noteq> None \<or> (\<exists>c. comm_index s c = Some i)"
proof -
  have "table_ok s" using rel by (simp add: eh_rel_def)
  from hd_at_live [OF this, of i] i obtain h where h: "hd_at s i = Some h" by blast
  show ?thesis
  proof (cases "i = 0 \<or> i = 1 \<or> hf i \<noteq> None")
    case False
    then have "0 < users s i" using eh_relD(2) [OF rel h] by (auto simp: handler_ok_def)
    then have "Some i \<in> set (es_comms s)" by (auto simp: users_def) (metis count_list_0_iff less_irrefl)
    then obtain n where "n < length (es_comms s)" "es_comms s ! n = Some i" by (auto simp: in_set_conv_nth)
    then have "comm_index s (int n) = Some i" by (simp add: comm_index_def)
    then show ?thesis by blast
  qed blast
qed

lemma entries_rel:
  assumes rel: "eh_rel s hf cf" and "i = 0 \<or> i = 1 \<or> hf i \<noteq> None \<or> (\<exists>c. comm_index s c = Some i)"
  shows "pt_map (es_table s) i \<noteq> None"
proof -
  have "hd_at s i \<noteq> None" using assms(2)
  proof (elim disjE exE)
    fix c
    assume "comm_index s c = Some i"
    then show "hd_at s i \<noteq> None" using eh_rel_comm [OF rel] by fastforce
  qed (use rel in \<open>auto simp: eh_rel_def\<close>)
  then show ?thesis using hd_at_live rel by (simp add: eh_rel_def)
qed

text \<open>
  C20: From the state after start-up, with allocations that succeed, every program that frees only handles it
  created and sets only these or the predefined handlers, on existing communicators, runs to its end with every
  call successful. The table then holds exactly the predefined handlers, the handlers the program still has a
  handle for and those in force on some communicator, and an error on a communicator calls the function of the
  handler that was set last on it, \<^verbatim>\<open>MPI_ERRORS_RETURN\<close> if none was, also when its handle was freed since.
\<close>

theorem errhandler_session_refines:
  assumes "mpi_create_errhandler_table (eh_before th comms) = Some (True, s)"
    and "eh_legals ops (s, Map.empty, (\<lambda>_. Errors_return))"
  shows "\<exists>s' hf' cf'. eh_run ops (s, Map.empty, (\<lambda>_. Errors_return)) = Some (s', hf', cf')
    \<and> {i. pt_map (es_table s') i \<noteq> None} = {0, 1} \<union> dom hf' \<union> {i. \<exists>c. comm_index s' c = Some i}
    \<and> (\<forall>c rc. comm_index s' c \<noteq> None \<longrightarrow>
        call_errhandler c rc s' = Some (s'\<lparr>es_calls := es_calls s' @ [(cf' c, c, rc)]\<rparr>))"
proof -
  have "eh_rel s Map.empty (\<lambda>_. Errors_return)" using init_ok [of th comms] assms(1) by auto
  from eh_run_ok [OF this assms(2)] obtain s' hf' cf' where
    run: "eh_run ops (s, Map.empty, (\<lambda>_. Errors_return)) = Some (s', hf', cf')" and rel: "eh_rel s' hf' cf'" by blast
  have "{i. pt_map (es_table s') i \<noteq> None} = {0, 1} \<union> dom hf' \<union> {i. \<exists>c. comm_index s' c = Some i}"
    using rel_entries [OF rel] entries_rel [OF rel] by blast
  moreover have "\<forall>c rc. comm_index s' c \<noteq> None \<longrightarrow>
      call_errhandler c rc s' = Some (s'\<lparr>es_calls := es_calls s' @ [(cf' c, c, rc)]\<rparr>)"
    using call_ok [OF rel] by blast
  ultimately show ?thesis using run by blast
qed

text \<open>A program that creates a handler, sets it on communicator 0, frees the handle and then meets an error.\<close>

definition eh_demo_state :: eh_state where
  "eh_demo_state = (case mpi_create_errhandler_table (eh_before True [True, True]) of
     Some (b, s) \<Rightarrow> s | None \<Rightarrow> eh_before True [])"

definition eh_demo_ops :: "eh_op list" where
  "eh_demo_ops = [ECreate (User_fn 7), ESet 0 2, EFree 2, EError 0 5]"

theorem errhandler_session_refines_witness:
  "\<exists>s' hf' cf'. eh_run eh_demo_ops (eh_demo_state, Map.empty, (\<lambda>_. Errors_return)) = Some (s', hf', cf')
    \<and> {i. pt_map (es_table s') i \<noteq> None} = {0, 1} \<union> dom hf' \<union> {i. \<exists>c. comm_index s' c = Some i}
    \<and> (\<forall>c rc. comm_index s' c \<noteq> None \<longrightarrow>
        call_errhandler c rc s' = Some (s'\<lparr>es_calls := es_calls s' @ [(cf' c, c, rc)]\<rparr>))"
proof (rule errhandler_session_refines)
  show "mpi_create_errhandler_table (eh_before True [True, True]) = Some (True, eh_demo_state)"
    using init_ok [of True "[True, True]"] by (auto simp: eh_demo_state_def)
  show "eh_legals eh_demo_ops (eh_demo_state, Map.empty, (\<lambda>_. Errors_return))" by code_simp
qed

end
