(* ===== verification/Seq_List.thy ===== *)
theory Seq_List
  imports Lampi_Prelude
begin

section \<open>Sequence tracking lists\<close>

text \<open>
  \<^verbatim>\<open>queue/SeqTrackingList.{h,cc}\<close>: the sets of 64-bit sequence numbers that the reliability protocol keeps,
  stored as a circular doubly linked list of ranges inside an array that grows and shrinks, with a second
  circular list of the free elements and a pointer to the element the last search found.

  The heap has one map per field of \<^verbatim>\<open>SeqRangeListElement\<close>; \<open>s_live\<close> tells which addresses are allocated, 0 is the
  null pointer, and every access to an address that is not allocated is \<open>None\<close>. \<^verbatim>\<open>ulm_malloc\<close> returns the addresses
  from \<open>s_brk\<close> on, with whatever the maps hold there; \<open>s_allocs\<close> holds the outcome of the coming allocations (all
  succeed once it is empty). Sequence numbers are 64-bit words. \<^verbatim>\<open>dump\<close> and the debugging checks are left out.
\<close>

record stl =
  s_next :: "nat \<Rightarrow> nat"
  s_prev :: "nat \<Rightarrow> nat"
  s_lower :: "nat \<Rightarrow> 64 word"
  s_upper :: "nat \<Rightarrow> 64 word"
  s_live :: "nat \<Rightarrow> bool"
  s_brk :: nat
  s_allocs :: "bool list"
  baseArray :: nat
  arraySize :: int
  listSize :: int
  growBy :: int
  shrinkBy :: int
  headp :: nat
  freep :: nat
  hintp :: nat

datatype recorded_t = NO | PARTIAL | COMPLETE

subsection \<open>Memory\<close>

definition get_next :: "nat \<Rightarrow> stl \<Rightarrow> nat option" where
  "get_next p s = (if s_live s p then Some (s_next s p) else None)"

definition get_prev :: "nat \<Rightarrow> stl \<Rightarrow> nat option" where
  "get_prev p s = (if s_live s p then Some (s_prev s p) else None)"

definition get_lower :: "nat \<Rightarrow> stl \<Rightarrow> 64 word option" where
  "get_lower p s = (if s_live s p then Some (s_lower s p) else None)"

definition get_upper :: "nat \<Rightarrow> stl \<Rightarrow> 64 word option" where
  "get_upper p s = (if s_live s p then Some (s_upper s p) else None)"

definition set_next :: "nat \<Rightarrow> nat \<Rightarrow> stl \<Rightarrow> stl option" where
  "set_next p v s = (if s_live s p then Some (s\<lparr>s_next := (s_next s)(p := v)\<rparr>) else None)"

definition set_prev :: "nat \<Rightarrow> nat \<Rightarrow> stl \<Rightarrow> stl option" where
  "set_prev p v s = (if s_live s p then Some (s\<lparr>s_prev := (s_prev s)(p := v)\<rparr>) else None)"

definition set_lower :: "nat \<Rightarrow> 64 word \<Rightarrow> stl \<Rightarrow> stl option" where
  "set_lower p v s = (if s_live s p then Some (s\<lparr>s_lower := (s_lower s)(p := v)\<rparr>) else None)"

definition set_upper :: "nat \<Rightarrow> 64 word \<Rightarrow> stl \<Rightarrow> stl option" where
  "set_upper p v s = (if s_live s p then Some (s\<lparr>s_upper := (s_upper s)(p := v)\<rparr>) else None)"

text \<open>Allocating an array of \<open>n\<close> elements (address 0 when it fails) and releasing one.\<close>

definition alloc_elts :: "int \<Rightarrow> stl \<Rightarrow> nat \<times> stl" where
  "alloc_elts n s =
     (case s_allocs s of
        False # bs \<Rightarrow> (0, s\<lparr>s_allocs := bs\<rparr>)
      | bs \<Rightarrow> let p = s_brk s in
          (p, s\<lparr>s_allocs := tl bs, s_brk := p + nat n,
                s_live := (\<lambda>q. s_live s q \<or> p \<le> q \<and> q < p + nat n)\<rparr>))"

definition free_elts :: "nat \<Rightarrow> int \<Rightarrow> stl \<Rightarrow> stl" where
  "free_elts p n s = s\<lparr>s_live := (\<lambda>q. s_live s q \<and> \<not> (p \<le> q \<and> q < p + nat n))\<rparr>"

subsection \<open>\<^verbatim>\<open>freeSeqRangeListElement\<close>\<close>

text \<open>Take the element out of the list of \<^verbatim>\<open>headp\<close>, if it is in it.\<close>

definition unlink :: "nat \<Rightarrow> stl \<Rightarrow> stl option" where
  "unlink ptr s = do {
     n \<leftarrow> get_next ptr s;
     (if n \<noteq> 0 then do {
        p \<leftarrow> get_prev ptr s;
        s1 \<leftarrow> set_next p n s;
        n1 \<leftarrow> get_next ptr s1;
        p1 \<leftarrow> get_prev ptr s1;
        s2 \<leftarrow> set_prev n1 p1 s1;
        n2 \<leftarrow> get_next ptr s2;
        Some (if ptr = headp s2 then s2\<lparr>headp := (if n2 \<noteq> ptr then n2 else 0)\<rparr> else s2)
      } else Some s)
   }"

text \<open>Append it to the circular list of \<^verbatim>\<open>freep\<close>.\<close>

definition append_free :: "nat \<Rightarrow> stl \<Rightarrow> stl option" where
  "append_free ptr s =
     (if freep s = 0 then do {
        s1 \<leftarrow> set_prev ptr ptr (s\<lparr>freep := ptr\<rparr>);
        set_next ptr ptr s1
      } else do {
        last \<leftarrow> get_prev (freep s) s;
        s1 \<leftarrow> set_next last ptr s;
        s2 \<leftarrow> set_next ptr (freep s) s1;
        s3 \<leftarrow> set_prev (freep s) ptr s2;
        set_prev ptr last s3
      })"

definition clear_elt :: "nat \<Rightarrow> stl \<Rightarrow> stl option" where
  "clear_elt ptr s = do {
     s1 \<leftarrow> set_upper ptr 0 s;
     s2 \<leftarrow> set_lower ptr 0 s1;
     Some (s2\<lparr>listSize := listSize s2 - 1, hintp := (if hintp s2 = ptr then 0 else hintp s2)\<rparr>)
   }"

text \<open>Fill \<^verbatim>\<open>newArray[i]\<close> from the element \<open>tmp\<close> of the old array.\<close>

definition copy_elt :: "nat \<Rightarrow> nat \<Rightarrow> nat \<Rightarrow> stl \<Rightarrow> stl option" where
  "copy_elt new i tmp s = do {
     s1 \<leftarrow> set_next (new + i) (if int i = listSize s - 1 then new else new + (i + 1)) s;
     s2 \<leftarrow> set_prev (new + i) (if i = 0 then new + nat (listSize s - 1) else new + (i - 1)) s1;
     l \<leftarrow> get_lower tmp s2;
     s3 \<leftarrow> set_lower (new + i) l s2;
     u \<leftarrow> get_upper tmp s3;
     set_upper (new + i) u s3
   }"

text \<open>The loop does not change \<^verbatim>\<open>listSize\<close>; \<open>n\<close> is its value.\<close>

function copy_loop :: "nat \<Rightarrow> nat \<Rightarrow> nat \<Rightarrow> nat \<Rightarrow> stl \<Rightarrow> stl option" where
  "copy_loop n new i tmp s =
     (if i < n then do {
        s1 \<leftarrow> copy_elt new i tmp s;
        tmp1 \<leftarrow> get_next tmp s1;
        copy_loop n new (i + 1) tmp1 s1
      } else Some s)"
  by pat_completeness auto
termination by (relation "measure (\<lambda>(n, new, i, tmp, s). n - i)") auto

text \<open>Put the elements \<open>i, i + 1, \<dots>\<close> of the new array on the free list.\<close>

definition rebuild_free_elt :: "nat \<Rightarrow> stl \<Rightarrow> stl option" where
  "rebuild_free_elt p s =
     (if freep s = 0 then do {
        s1 \<leftarrow> set_prev p p (s\<lparr>freep := p\<rparr>);
        set_next p p s1
      } else do {
        last \<leftarrow> get_prev (freep s) s;
        s1 \<leftarrow> set_prev (freep s) p s;
        s2 \<leftarrow> set_next last p s1;
        s3 \<leftarrow> set_next p (freep s) s2;
        s4 \<leftarrow> set_prev p last s3;
        s5 \<leftarrow> set_upper p 0 s4;
        set_lower p 0 s5
      })"

definition rebuild_free :: "stl \<Rightarrow> stl option" where
  "rebuild_free s = foldM (\<lambda>s i. rebuild_free_elt (baseArray s + i) s) s [nat (listSize s)..<nat (arraySize s)]"

definition shrink_into :: "nat \<Rightarrow> stl \<Rightarrow> stl option" where
  "shrink_into new s = do {
     let tmp = headp s;
     let s1 = s\<lparr>freep := 0, hintp := 0\<rparr>;
     s2 \<leftarrow> (if headp s1 \<noteq> 0 then copy_loop (nat (listSize s1)) new 0 tmp (s1\<lparr>headp := new\<rparr>) else Some s1);
     let s3 = (if baseArray s2 \<noteq> 0 then free_elts (baseArray s2) (arraySize s2) s2 else s2);
     rebuild_free (s3\<lparr>baseArray := new, arraySize := arraySize s3 - shrinkBy s3\<rparr>)
   }"

definition shrink_array :: "stl \<Rightarrow> stl option" where
  "shrink_array s =
     (if shrinkBy s \<noteq> 0 \<and> arraySize s - listSize s > shrinkBy s then
        if arraySize s - shrinkBy s = 0 then
          if listSize s = 0 then
            Some ((free_elts (baseArray s) (arraySize s) s)
              \<lparr>freep := 0, hintp := 0, headp := 0, baseArray := 0, arraySize := 0\<rparr>)
          else None
        else
          (case alloc_elts (arraySize s - shrinkBy s) s of
             (new, s1) \<Rightarrow> if new = 0 then Some s1 else shrink_into new s1)
      else Some s)"

definition freeSeqRangeListElement :: "nat \<Rightarrow> stl \<Rightarrow> stl option" where
  "freeSeqRangeListElement ptr s = do {
     s1 \<leftarrow> unlink ptr s;
     s2 \<leftarrow> append_free ptr s1;
     s3 \<leftarrow> clear_elt ptr s2;
     shrink_array s3
   }"

subsection \<open>\<^verbatim>\<open>getSeqRangeListElement\<close>\<close>

text \<open>The copying loop of the growth also moves \<^verbatim>\<open>prevp\<close> and \<^verbatim>\<open>hintp\<close> to the new array.\<close>

function grow_loop :: "nat \<Rightarrow> nat \<Rightarrow> nat \<Rightarrow> nat \<Rightarrow> nat \<Rightarrow> stl \<Rightarrow> (nat \<times> stl) option" where
  "grow_loop n new i tmp prevp s =
     (if i < n then do {
        s1 \<leftarrow> copy_elt new i tmp s;
        let prevp1 = (if prevp = tmp then new + i else prevp);
        let s2 = s1\<lparr>hintp := (if hintp s1 = tmp then new + i else hintp s1)\<rparr>;
        tmp1 \<leftarrow> get_next tmp s2;
        grow_loop n new (i + 1) tmp1 prevp1 s2
      } else Some (prevp, s))"
  by pat_completeness auto
termination by (relation "measure (\<lambda>(n, new, i, tmp, prevp, s). n - i)") auto

text \<open>Clear the links of the element and free it: new elements enter the free list this way.\<close>

definition add_free_elt :: "stl \<Rightarrow> nat \<Rightarrow> stl option" where
  "add_free_elt s p = do {
     s1 \<leftarrow> set_prev p 0 s;
     s2 \<leftarrow> set_next p 0 s1;
     freeSeqRangeListElement p s2
   }"

definition grow_array :: "nat \<Rightarrow> nat \<Rightarrow> stl \<Rightarrow> (nat \<times> stl) option" where
  "grow_array new prevp s = do {
     let tmp = headp s;
     (prevp1, s1) \<leftarrow> grow_loop (nat (listSize s)) new 0 tmp prevp
       (s\<lparr>freep := 0, headp := (if listSize s > 0 then new else 0)\<rparr>);
     let s2 = (if baseArray s1 \<noteq> 0 then free_elts (baseArray s1) (arraySize s1) s1 else s1);
     let s3 = s2\<lparr>baseArray := new, listSize := listSize s2 + growBy s2\<rparr>;
     s4 \<leftarrow> foldM (\<lambda>s i. add_free_elt s (baseArray s + (nat (arraySize s) + i))) s3 [0..<nat (growBy s3)];
     Some (prevp1, s4\<lparr>arraySize := arraySize s4 + growBy s4\<rparr>)
   }"

definition pop_free :: "stl \<Rightarrow> (nat \<times> stl) option" where
  "pop_free s = do {
     let result = freep s;
     p \<leftarrow> get_prev (freep s) s;
     n \<leftarrow> get_next (freep s) s;
     s1 \<leftarrow> set_next p n s;
     n1 \<leftarrow> get_next (freep s1) s1;
     p1 \<leftarrow> get_prev (freep s1) s1;
     s2 \<leftarrow> set_prev n1 p1 s1;
     n2 \<leftarrow> get_next (freep s2) s2;
     Some (result, s2\<lparr>freep := (if n2 = result then 0 else n2)\<rparr>)
   }"

definition link_elt :: "nat \<Rightarrow> nat \<Rightarrow> stl \<Rightarrow> stl option" where
  "link_elt result prevp s =
     (if prevp \<noteq> 0 then do {
        tmp \<leftarrow> get_next prevp s;
        s1 \<leftarrow> set_next prevp result s;
        s2 \<leftarrow> set_next result tmp s1;
        s3 \<leftarrow> set_prev tmp result s2;
        set_prev result prevp s3
      } else if headp s \<noteq> 0 then do {
        s1 \<leftarrow> set_next result (headp s) s;
        p \<leftarrow> get_prev (headp s1) s1;
        s2 \<leftarrow> set_prev result p s1;
        s3 \<leftarrow> set_prev (headp s2) result s2;
        p1 \<leftarrow> get_prev result s3;
        s4 \<leftarrow> set_next p1 result s3;
        Some (s4\<lparr>headp := result\<rparr>)
      } else if listSize s = 0 then do {
        s1 \<leftarrow> set_prev result result (s\<lparr>headp := result\<rparr>);
        set_next result result s1
      } else None)"

definition take_elt :: "nat \<Rightarrow> stl \<Rightarrow> (nat \<times> stl) option" where
  "take_elt prevp s = do {
     (result, s1) \<leftarrow> pop_free s;
     s2 \<leftarrow> link_elt result prevp s1;
     Some (result, s2\<lparr>listSize := listSize s2 + 1\<rparr>)
   }"

text \<open>The address 0 is returned when there is no free element and the array cannot grow.\<close>

definition getSeqRangeListElement :: "nat \<Rightarrow> stl \<Rightarrow> (nat \<times> stl) option" where
  "getSeqRangeListElement prevp s =
     (if listSize s + 1 > arraySize s then
        if growBy s = 0 then Some (0, s)
        else (case alloc_elts (arraySize s + growBy s) s of
                (new, s1) \<Rightarrow>
                  if new = 0 then Some (0, s1)
                  else do { (prevp1, s2) \<leftarrow> grow_array new prevp s1; take_elt prevp1 s2 })
      else take_elt prevp s)"

subsection \<open>Searching\<close>

text \<open>The \<^verbatim>\<open>do\<close> loops, from \<open>tmp\<close> until they are back at \<open>startp\<close>; a loop that does not end has the value \<open>None\<close>.\<close>

partial_function (option) lower_loop :: "64 word \<Rightarrow> nat \<Rightarrow> nat \<Rightarrow> stl \<Rightarrow> nat option" where
  [code]: "lower_loop seqnum startp tmp s = do {
     l \<leftarrow> get_lower tmp s;
     (if seqnum \<ge> l then do {
        n \<leftarrow> get_next tmp s;
        (if n = headp s then Some tmp
         else do {
           nl \<leftarrow> get_lower n s;
           (if seqnum < nl then Some tmp
            else if n \<noteq> startp then lower_loop seqnum startp n s else Some n)
         })
      } else if tmp = headp s then Some tmp
      else do {
        p \<leftarrow> get_prev tmp s;
        (if p \<noteq> startp then lower_loop seqnum startp p s else Some p)
      })
   }"

definition findNearestLowerSeqRangeListElement :: "64 word \<Rightarrow> stl \<Rightarrow> (nat \<times> stl) option" where
  "findNearestLowerSeqRangeListElement seqnum s =
     (if listSize s = 0 then Some (0, s)
      else do {
        let startp = (if hintp s = 0 then headp s else hintp s);
        tmp \<leftarrow> lower_loop seqnum startp startp s;
        Some (tmp, s\<lparr>hintp := tmp\<rparr>)
      })"

partial_function (option) upper_loop :: "64 word \<Rightarrow> nat \<Rightarrow> nat \<Rightarrow> stl \<Rightarrow> nat option" where
  [code]: "upper_loop seqnum startp tmp s = do {
     u \<leftarrow> get_upper tmp s;
     (if seqnum \<le> u then
        if tmp = headp s then Some tmp
        else do {
          p \<leftarrow> get_prev tmp s;
          pu \<leftarrow> get_upper p s;
          (if seqnum > pu then Some tmp
           else if p \<noteq> startp then upper_loop seqnum startp p s else Some p)
        }
      else do {
        n \<leftarrow> get_next tmp s;
        (if n = headp s then Some tmp
         else if n \<noteq> startp then upper_loop seqnum startp n s else Some n)
      })
   }"

definition findNearestUpperSeqRangeListElement :: "nat \<Rightarrow> 64 word \<Rightarrow> stl \<Rightarrow> nat option" where
  "findNearestUpperSeqRangeListElement lower seqnum s =
     (if listSize s = 0 then Some 0
      else let startp = (if lower = 0 then headp s else lower) in upper_loop seqnum startp startp s)"

subsection \<open>The public operations\<close>

text \<open>\<open>mk_stl\<close> is the constructor, run on memory in which nothing of this list is allocated yet.\<close>

definition mk_stl :: "int \<Rightarrow> int \<Rightarrow> int \<Rightarrow> bool \<Rightarrow> stl \<Rightarrow> stl option" where
  "mk_stl startSize startGrowBy startShrinkBy shared s =
     (let size = (if startShrinkBy \<noteq> 0 \<and> startSize > startShrinkBy then startShrinkBy else startSize);
          s1 = s\<lparr>headp := 0, freep := 0, hintp := 0, arraySize := size,
                 growBy := (if shared then 0 else startGrowBy), shrinkBy := (if shared then 0 else startShrinkBy)\<rparr>;
          (base, s2) = (if size > 0 then alloc_elts size s1 else (0, s1));
          s3 = s2\<lparr>baseArray := base, arraySize := (if size > 0 \<and> base = 0 then 0 else size)\<rparr>
      in do {
        s4 \<leftarrow> foldM (\<lambda>s i. add_free_elt s (baseArray s + i)) (s3\<lparr>listSize := arraySize s3\<rparr>) [0..<nat (arraySize s3)];
        (if listSize s4 = 0 then Some s4 else None)
      })"

definition destroy_stl :: "stl \<Rightarrow> stl" where
  "destroy_stl s = (if baseArray s \<noteq> 0 then (free_elts (baseArray s) (arraySize s) s)\<lparr>baseArray := 0\<rparr> else s)"

definition set_range :: "nat \<Rightarrow> 64 word \<Rightarrow> 64 word \<Rightarrow> stl \<Rightarrow> stl option" where
  "set_range p lower upper s = do { s1 \<leftarrow> set_lower p lower s; set_upper p upper s1 }"

text \<open>Allocate an element after \<open>prevp\<close> and give it a range: the common shape of the places that add one.\<close>

definition add_range :: "nat \<Rightarrow> 64 word \<Rightarrow> 64 word \<Rightarrow> stl \<Rightarrow> (bool \<times> stl) option" where
  "add_range prevp lower upper s = do {
     (p, s1) \<leftarrow> getSeqRangeListElement prevp s;
     (if p = 0 then Some (False, s1)
      else do { s2 \<leftarrow> set_range p lower upper s1; Some (True, s2) })
   }"

text \<open>The loop that frees the elements from \<open>tmp\<close> up to \<open>unearest\<close>.\<close>

partial_function (option) free_until :: "nat \<Rightarrow> nat \<Rightarrow> stl \<Rightarrow> stl option" where
  [code]: "free_until unearest tmp s =
     (if tmp \<noteq> unearest then do {
        nxt \<leftarrow> get_next tmp s;
        s1 \<leftarrow> freeSeqRangeListElement tmp s;
        free_until unearest nxt s1
      } else Some s)"

definition record_single :: "nat \<Rightarrow> 64 word \<Rightarrow> 64 word \<Rightarrow> stl \<Rightarrow> (bool \<times> stl) option" where
  "record_single lnearest lower upper s = do {
     l \<leftarrow> get_lower lnearest s;
     u \<leftarrow> get_upper lnearest s;
     (if l > upper + 1 then do {
        prevp \<leftarrow> (if lnearest = headp s then Some 0 else get_prev lnearest s);
        add_range prevp lower upper s
      } else if lower - 1 > u then add_range lnearest lower upper s
      else do {
        s1 \<leftarrow> (if upper > u then set_upper lnearest upper s else Some s);
        s2 \<leftarrow> (if lower < l then set_lower lnearest lower s1 else Some s1);
        Some (True, s2)
      })
   }"

definition record_multi :: "nat \<Rightarrow> nat \<Rightarrow> 64 word \<Rightarrow> 64 word \<Rightarrow> stl \<Rightarrow> (bool \<times> stl) option" where
  "record_multi lnearest unearest lower upper s = do {
     lu \<leftarrow> get_upper lnearest s;
     (if lower \<le> lu + 1 then do {
        s1 \<leftarrow> set_upper lnearest upper s;
        ll \<leftarrow> get_lower lnearest s1;
        s2 \<leftarrow> (if lower < ll then set_lower lnearest lower s1 else Some s1);
        tmp \<leftarrow> get_next lnearest s2;
        s3 \<leftarrow> free_until unearest tmp s2;
        ul \<leftarrow> get_lower unearest s3;
        (if upper + 1 \<ge> ul then do {
           uu \<leftarrow> get_upper unearest s3;
           s4 \<leftarrow> set_upper lnearest (if upper > uu then upper else uu) s3;
           s5 \<leftarrow> freeSeqRangeListElement unearest s4;
           Some (True, s5)
         } else Some (True, s3))
      } else do {
        ul \<leftarrow> get_lower unearest s;
        n \<leftarrow> get_next lnearest s;
        (if upper + 1 < ul then
           if n = unearest then add_range lnearest lower upper s
           else do {
             s1 \<leftarrow> set_range n lower upper s;
             tmp \<leftarrow> get_next n s1;
             s2 \<leftarrow> free_until unearest tmp s1;
             Some (True, s2)
           }
         else do {
           s1 \<leftarrow> set_lower unearest lower s;
           uu \<leftarrow> get_upper unearest s1;
           s2 \<leftarrow> (if upper > uu then set_upper unearest upper s1 else Some s1);
           tmp \<leftarrow> get_next lnearest s2;
           s3 \<leftarrow> free_until unearest tmp s2;
           Some (True, s3)
         })
      })
   }"

definition record_range :: "64 word \<Rightarrow> 64 word \<Rightarrow> stl \<Rightarrow> (bool \<times> stl) option" where
  "record_range lower upper s = do {
     (lnearest, s1) \<leftarrow> findNearestLowerSeqRangeListElement lower s;
     (if lower = 0 then Some (True, s1)
      else if lower > upper then Some (False, s1)
      else if lnearest = 0 then add_range 0 lower upper s1
      else do {
        unearest \<leftarrow> findNearestUpperSeqRangeListElement lnearest upper s1;
        (if lnearest = unearest then record_single lnearest lower upper s1
         else record_multi lnearest unearest lower upper s1)
      })
   }"

text \<open>What is left of the first and of the last of the elements that the erased range meets.\<close>

definition erase_low :: "nat \<Rightarrow> 64 word \<Rightarrow> stl \<Rightarrow> stl option" where
  "erase_low lnearest lower s = do {
     ll \<leftarrow> get_lower lnearest s;
     lu \<leftarrow> get_upper lnearest s;
     (if lower \<le> ll then freeSeqRangeListElement lnearest s
      else if lower \<le> lu then do {
        s1 \<leftarrow> set_upper lnearest (lower - 1) s;
        (if lower - 1 < ll then freeSeqRangeListElement lnearest s1 else Some s1)
      } else Some s)
   }"

definition erase_high :: "nat \<Rightarrow> 64 word \<Rightarrow> stl \<Rightarrow> stl option" where
  "erase_high unearest upper s = do {
     uu \<leftarrow> get_upper unearest s;
     ul \<leftarrow> get_lower unearest s;
     (if upper \<ge> uu then freeSeqRangeListElement unearest s
      else if upper \<ge> ul then do {
        s1 \<leftarrow> set_lower unearest (upper + 1) s;
        (if uu < upper + 1 then freeSeqRangeListElement unearest s1 else Some s1)
      } else Some s)
   }"

definition erase_multi :: "nat \<Rightarrow> nat \<Rightarrow> 64 word \<Rightarrow> 64 word \<Rightarrow> stl \<Rightarrow> stl option" where
  "erase_multi lnearest unearest lower upper s = do {
     tmp \<leftarrow> get_next lnearest s;
     s1 \<leftarrow> free_until unearest tmp s;
     s2 \<leftarrow> erase_low lnearest lower s1;
     erase_high unearest upper s2
   }"

text \<open>Splitting a range: the part above \<open>upper\<close> goes to a new element.\<close>

definition split_range :: "nat \<Rightarrow> 64 word \<Rightarrow> stl \<Rightarrow> (bool \<times> stl) option" where
  "split_range lnearest upper s = do {
     (tmp, s1) \<leftarrow> getSeqRangeListElement lnearest s;
     (if tmp = 0 then Some (False, s1)
      else do {
        u \<leftarrow> get_upper lnearest s1;
        s2 \<leftarrow> set_upper tmp u s1;
        s3 \<leftarrow> set_lower tmp (upper + 1) s2;
        Some (True, s3)
      })
   }"

definition erase_single :: "nat \<Rightarrow> 64 word \<Rightarrow> 64 word \<Rightarrow> stl \<Rightarrow> (bool \<times> stl) option" where
  "erase_single lnearest lower upper s = do {
     l \<leftarrow> get_lower lnearest s;
     u \<leftarrow> get_upper lnearest s;
     (if l \<le> upper \<and> lower \<le> u then do {
        (ok, s1) \<leftarrow>
          (if lower < l then map_option (Pair True) (set_lower lnearest (upper + 1) s)
           else if upper > u then map_option (Pair True) (set_upper lnearest (lower - 1) s)
           else do {
             (ok, s') \<leftarrow> (if u > upper then split_range lnearest upper s else Some (True, s));
             (if ok then map_option (Pair True) (set_upper lnearest (lower - 1) s') else Some (False, s'))
           });
        (if ok then do {
           l' \<leftarrow> get_lower lnearest s1;
           u' \<leftarrow> get_upper lnearest s1;
           s2 \<leftarrow> (if u' < l' then freeSeqRangeListElement lnearest s1 else Some s1);
           Some (True, s2)
         } else Some (False, s1))
      } else Some (True, s))
   }"

definition erase_range :: "64 word \<Rightarrow> 64 word \<Rightarrow> stl \<Rightarrow> (bool \<times> stl) option" where
  "erase_range lower upper s = do {
     (lnearest, s1) \<leftarrow> findNearestLowerSeqRangeListElement lower s;
     (if lnearest = 0 then Some (True, s1)
      else if lower = 0 \<or> lower > upper then Some (False, s1)
      else do {
        unearest \<leftarrow> findNearestUpperSeqRangeListElement lnearest upper s1;
        (if lnearest \<noteq> unearest then map_option (Pair True) (erase_multi lnearest unearest lower upper s1)
         else erase_single lnearest lower upper s1)
      })
   }"

definition isRecorded :: "64 word \<Rightarrow> 64 word \<Rightarrow> stl \<Rightarrow> (recorded_t \<times> stl) option" where
  "isRecorded lower upper s = do {
     (lnearest, s1) \<leftarrow> findNearestLowerSeqRangeListElement lower s;
     (if lnearest = 0 then Some (NO, s1)
      else do {
        unearest \<leftarrow> findNearestUpperSeqRangeListElement lnearest upper s1;
        ll \<leftarrow> get_lower lnearest s1;
        lu \<leftarrow> get_upper lnearest s1;
        (if lnearest \<noteq> unearest then do {
           n \<leftarrow> get_next lnearest s1;
           ul \<leftarrow> get_lower unearest s1;
           Some (if n \<noteq> unearest then PARTIAL
                 else if lower > lu \<and> upper < ul then NO else PARTIAL, s1)
         } else
           Some (if ll \<le> upper \<and> lower \<le> lu
                 then if lower \<ge> ll \<and> upper \<le> lu then COMPLETE else PARTIAL
                 else NO, s1))
      })
   }"

text \<open>The two halves of \<^verbatim>\<open>recordIfNotRecorded\<close>: the range meets one element, or lies between two. The result
  holds the return value, \<^verbatim>\<open>*recordStatus\<close> and the list.\<close>

definition added :: "(bool \<times> stl) option \<Rightarrow> (recorded_t \<times> bool \<times> stl) option" where
  "added = map_option (\<lambda>(ok, s). (NO, ok, s))"

definition rinr_single :: "nat \<Rightarrow> 64 word \<Rightarrow> 64 word \<Rightarrow> stl \<Rightarrow> (recorded_t \<times> bool \<times> stl) option" where
  "rinr_single lnearest lower upper s = do {
     l \<leftarrow> get_lower lnearest s;
     u \<leftarrow> get_upper lnearest s;
     (if l > upper + 1 then do {
        prevp \<leftarrow> (if lnearest = headp s then Some 0 else get_prev lnearest s);
        added (add_range prevp lower upper s)
      } else if lower - 1 > u then added (add_range lnearest lower upper s)
      else if upper \<ge> l \<and> lower \<le> u then
        Some (if lower \<ge> l \<and> upper \<le> u then COMPLETE else PARTIAL, True, s)
      else do {
        s1 \<leftarrow> (if upper > u then set_upper lnearest upper s else Some s);
        s2 \<leftarrow> (if lower < l then set_lower lnearest lower s1 else Some s1);
        Some (NO, True, s2)
      })
   }"

definition rinr_multi :: "nat \<Rightarrow> nat \<Rightarrow> 64 word \<Rightarrow> 64 word \<Rightarrow> stl \<Rightarrow> (recorded_t \<times> bool \<times> stl) option" where
  "rinr_multi lnearest unearest lower upper s = do {
     lu \<leftarrow> get_upper lnearest s;
     ul \<leftarrow> get_lower unearest s;
     n \<leftarrow> get_next lnearest s;
     (if lower \<le> lu \<or> upper \<ge> ul \<or> n \<noteq> unearest then Some (PARTIAL, True, s)
      else if lower \<le> lu + 1 then do {
        s1 \<leftarrow> set_upper lnearest upper s;
        (if upper + 1 \<ge> ul then do {
           uu \<leftarrow> get_upper unearest s1;
           s2 \<leftarrow> set_upper lnearest uu s1;
           s3 \<leftarrow> freeSeqRangeListElement unearest s2;
           Some (NO, True, s3)
         } else Some (NO, True, s1))
      } else if upper + 1 < ul then added (add_range lnearest lower upper s)
      else do {
        s1 \<leftarrow> set_lower unearest lower s;
        Some (NO, True, s1)
      })
   }"

definition recordIfNotRecorded :: "64 word \<Rightarrow> 64 word \<Rightarrow> stl \<Rightarrow> (recorded_t \<times> bool \<times> stl) option" where
  "recordIfNotRecorded lower upper s = do {
     (lnearest, s1) \<leftarrow> findNearestLowerSeqRangeListElement lower s;
     (if lower = 0 \<or> lower > upper then Some (NO, False, s1)
      else if lnearest = 0 then added (add_range 0 lower upper s1)
      else do {
        unearest \<leftarrow> findNearestUpperSeqRangeListElement lnearest upper s1;
        (if lnearest = unearest then rinr_single lnearest lower upper s1
         else rinr_multi lnearest unearest lower upper s1)
      })
   }"

definition largestInOrder :: "stl \<Rightarrow> 64 word option" where
  "largestInOrder s =
     (if headp s \<noteq> 0 then do {
        l \<leftarrow> get_lower (headp s) s;
        u \<leftarrow> get_upper (headp s) s;
        Some (if l = 1 then u else 0)
      } else Some 0)"

text \<open>The versions for one sequence number.\<close>

definition record_seq :: "64 word \<Rightarrow> stl \<Rightarrow> (bool \<times> stl) option" where
  "record_seq seqnum s = record_range seqnum seqnum s"

definition erase_seq :: "64 word \<Rightarrow> stl \<Rightarrow> (bool \<times> stl) option" where
  "erase_seq seqnum s = erase_range seqnum seqnum s"

definition isRecorded_seq :: "64 word \<Rightarrow> stl \<Rightarrow> (bool \<times> stl) option" where
  "isRecorded_seq seqnum s = map_option (\<lambda>(r, s'). (r = COMPLETE, s')) (isRecorded seqnum seqnum s)"

definition recordIfNotRecorded_seq :: "64 word \<Rightarrow> stl \<Rightarrow> (bool \<times> bool \<times> stl) option" where
  "recordIfNotRecorded_seq seqnum s =
     map_option (\<lambda>(r, st, s'). (r = COMPLETE, st, s')) (recordIfNotRecorded seqnum seqnum s)"

end
