(* ===== verification/Seq_Ranges.thy ===== *)
theory Seq_Ranges
  imports Lampi_Prelude
begin

section \<open>Lists of ranges\<close>

text \<open>
  The contents of a sequence tracking list as a list of pairs (lower, upper), free of pointers: the order the
  code keeps (ranges of positive numbers, ascending, at least one number between two of them), the set of
  numbers such a list denotes, and what replacing the ranges that a given range meets does to both.
\<close>

type_synonym range = "64 word \<times> 64 word"

subsection \<open>Word arithmetic\<close>

lemma unat_Suc_bounded: "(b :: 64 word) < - 1 \<Longrightarrow> unat (b + 1) = unat b + 1"
  by (metis Suc_eq_plus1 add.commute less_numeral_extra(3) unatSuc word_less_1 word_order.not_eq_extremum
      add.right_neutral add_eq_0_iff)

lemma plus_one_less: "(b :: 64 word) < - 1 \<Longrightarrow> b + 1 < c \<longleftrightarrow> unat b + 1 < unat c"
  by (simp add: word_less_nat_alt unat_Suc_bounded)

lemma plus_one_le: "(b :: 64 word) < - 1 \<Longrightarrow> c \<le> b + 1 \<longleftrightarrow> unat c \<le> unat b + 1"
  by (simp add: word_le_nat_alt unat_Suc_bounded)

lemma unat_pred: "0 < (l :: 64 word) \<Longrightarrow> unat (l - 1) = unat l - 1"
  by (metis unat_minus_one word_less_nat_alt unat_0 less_irrefl)

lemma less_pred: "0 < (l :: 64 word) \<Longrightarrow> b < l - 1 \<longleftrightarrow> unat b + 1 < unat l"
  by (simp add: word_less_nat_alt unat_pred) arith

text \<open>Comparisons of words as comparisons of naturals, with \<open>+ 1\<close> and \<open>- 1\<close> resolved.\<close>

lemma unat_Suc_nat: "unat (b :: 64 word) < unat (- 1 :: 64 word) \<Longrightarrow> unat (b + 1) = unat b + 1"
  using unat_Suc_bounded [of b] by (simp add: word_less_nat_alt)

lemma unat_pred_nat: "0 < unat (l :: 64 word) \<Longrightarrow> unat (l - 1) = unat l - 1"
  by (simp add: unat_pred word_less_nat_alt)

lemmas range_arith = word_less_nat_alt word_le_nat_alt unat_Suc_nat unat_pred_nat

subsection \<open>Order and denotation\<close>

fun sep :: "range list \<Rightarrow> bool" where
  "sep [] \<longleftrightarrow> True"
| "sep [(a, b)] \<longleftrightarrow> 0 < a \<and> a \<le> b \<and> b < - 1"
| "sep ((a, b) # (c, d) # rs) \<longleftrightarrow> 0 < a \<and> a \<le> b \<and> b < - 1 \<and> b + 1 < c \<and> sep ((c, d) # rs)"

definition den :: "range list \<Rightarrow> 64 word set" where
  "den rs = (\<Union>(a, b) \<in> set rs. {a..b})"

lemma den_simps [simp]:
  "den [] = {}" "den ((a, b) # rs) = {a..b} \<union> den rs" "den (rs @ qs) = den rs \<union> den qs"
  by (auto simp: den_def)

lemma sep_Cons:
  "sep ((a, b) # rs) \<longleftrightarrow> 0 < a \<and> a \<le> b \<and> b < - 1 \<and> (rs \<noteq> [] \<longrightarrow> b + 1 < fst (hd rs)) \<and> sep rs"
  by (cases rs) auto

lemma sep_append:
  "sep (rs @ qs) \<longleftrightarrow> sep rs \<and> sep qs \<and> (rs \<noteq> [] \<longrightarrow> qs \<noteq> [] \<longrightarrow> snd (last rs) + 1 < fst (hd qs))"
  by (induction rs rule: sep.induct) (auto simp: sep_Cons hd_append)

lemma sep_snoc:
  "sep (rs @ [(a, b)]) \<longleftrightarrow> sep rs \<and> 0 < a \<and> a \<le> b \<and> b < - 1 \<and> (rs \<noteq> [] \<longrightarrow> snd (last rs) + 1 < a)"
  by (auto simp: sep_append)

lemma sep_member: "sep rs \<Longrightarrow> (a, b) \<in> set rs \<Longrightarrow> 0 < a \<and> a \<le> b \<and> b < - 1"
  by (induction rs rule: sep.induct) auto

lemma sep_hd_le: "sep rs \<Longrightarrow> (a, b) \<in> set rs \<Longrightarrow> fst (hd rs) \<le> a"
proof (induction rs rule: sep.induct)
  case (3 p q c d rs)
  then show ?case
    by (auto simp: range_arith)
qed auto

lemma sep_last_ge: "sep rs \<Longrightarrow> (a, b) \<in> set rs \<Longrightarrow> b \<le> snd (last rs)"
proof (induction rs arbitrary: a b rule: sep.induct)
  case (3 p q c d rs)
  then have "d \<le> snd (last ((c, d) # rs))" by (metis list.set_intros(1) sep.simps(3))
  moreover have "c \<le> d" using 3 sep_member [of "(c, d) # rs" c d] by simp
  ultimately show ?case using 3 by (auto simp: range_arith split: if_splits)
qed auto

lemma den_bounds: "sep rs \<Longrightarrow> x \<in> den rs \<Longrightarrow> fst (hd rs) \<le> x \<and> x \<le> snd (last rs) \<and> 0 < x \<and> x < - 1"
proof -
  assume s: "sep rs" and "x \<in> den rs"
  then obtain a b where ab: "(a, b) \<in> set rs" "a \<le> x" "x \<le> b" by (auto simp: den_def)
  from sep_hd_le [OF s ab(1)] sep_last_ge [OF s ab(1)] sep_member [OF s ab(1)] ab(2,3)
  show ?thesis by (auto simp: range_arith)
qed

subsection \<open>The element nearest to a number\<close>

text \<open>What the two searches return: the last range that begins at or below \<open>seqnum\<close> (else the first range),
  and the first range that ends at or above it (else the last range).\<close>

definition near_lower :: "64 word \<Rightarrow> range list \<Rightarrow> nat \<Rightarrow> bool" where
  "near_lower seqnum rs k \<longleftrightarrow> k < length rs \<and> (0 < k \<longrightarrow> fst (rs ! k) \<le> seqnum)
     \<and> (k + 1 < length rs \<longrightarrow> seqnum < fst (rs ! (k + 1)))"

definition near_upper :: "64 word \<Rightarrow> range list \<Rightarrow> nat \<Rightarrow> bool" where
  "near_upper seqnum rs k \<longleftrightarrow> k < length rs \<and> (k + 1 < length rs \<longrightarrow> seqnum \<le> snd (rs ! k))
     \<and> (0 < k \<longrightarrow> snd (rs ! (k - 1)) < seqnum)"

lemma sep_gap:
  assumes "sep (A @ (a, b) # B)"
  shows "b + 1 \<notin> den (A @ (a, b) # B)"
proof -
  have s: "sep A" "a \<le> b" "b < - 1" "sep B" "A \<noteq> [] \<Longrightarrow> snd (last A) + 1 < a" "B \<noteq> [] \<Longrightarrow> b + 1 < fst (hd B)"
    using assms unfolding sep_append sep_Cons by simp_all
  have "x \<noteq> b + 1" if "x \<in> den A" for x
  proof -
    have "A \<noteq> []" using that by auto
    then have "snd (last A) < - 1" using sep_member [OF s(1), of "fst (last A)" "snd (last A)"] by simp
    with den_bounds [OF s(1) that] s(2,3,5) \<open>A \<noteq> []\<close> show ?thesis by (auto simp: range_arith)
  qed
  moreover have "b + 1 < x" if "x \<in> den B" for x
  proof -
    have "B \<noteq> []" using that by auto
    with den_bounds [OF s(4) that] s(6) show ?thesis by (auto dest: less_le_trans)
  qed
  moreover have "b < b + 1" using s(3) by (auto simp: range_arith)
  ultimately show ?thesis by fastforce
qed

lemma sep_nth_less:
  assumes "sep rs" and "i < j" and "j < length rs"
  shows "snd (rs ! i) < - 1 \<and> fst (rs ! i) \<le> snd (rs ! i) \<and> snd (rs ! i) + 1 < fst (rs ! j) \<and> fst (rs ! j) \<le> snd (rs ! j)"
proof -
  have split: "rs = take (Suc i) rs @ drop (Suc i) rs" by simp
  have "sep (take (Suc i) rs)" "sep (drop (Suc i) rs)" "snd (last (take (Suc i) rs)) + 1 < fst (hd (drop (Suc i) rs))"
    using assms sep_append [of "take (Suc i) rs" "drop (Suc i) rs"] by auto
  moreover have "last (take (Suc i) rs) = rs ! i" using assms by (simp add: take_Suc_conv_app_nth)
  moreover have "rs ! i \<in> set rs" "rs ! j \<in> set rs" using assms by auto
  moreover have "rs ! j \<in> set (drop (Suc i) rs)" using assms
    by (auto simp: in_set_conv_nth intro!: exI [of _ "j - Suc i"])
  ultimately show ?thesis
    using sep_member [OF assms(1)] sep_hd_le [of "drop (Suc i) rs" "fst (rs ! j)" "snd (rs ! j)"] assms(1)
    by (cases "rs ! i"; cases "rs ! j") (auto dest: less_le_trans)
qed

text \<open>The ranges \<open>M\<close> from the one search result to the other, between those below (\<open>A\<close>) and above (\<open>B\<close>) the range
  \<open>l..u\<close>.\<close>

definition meets :: "64 word \<Rightarrow> 64 word \<Rightarrow> range list \<Rightarrow> range list \<Rightarrow> range list \<Rightarrow> bool" where
  "meets l u A M B \<longleftrightarrow> sep (A @ M @ B) \<and> M \<noteq> [] \<and> (A \<noteq> [] \<longrightarrow> fst (hd M) \<le> l) \<and> (B \<noteq> [] \<longrightarrow> u \<le> snd (last M))
     \<and> (\<forall>r \<in> set (tl M). l < fst r) \<and> (\<forall>r \<in> set (butlast M). snd r < u)"

lemma near_meets:
  assumes "sep rs" and "near_lower l rs i" and "near_upper u rs j" and "l \<le> u"
  shows "i \<le> j" and "meets l u (take i rs) (take (Suc j - i) (drop i rs)) (drop (Suc j) rs)"
proof -
  show ij: "i \<le> j"
  proof (rule ccontr)
    assume "\<not> i \<le> j"
    with assms sep_nth_less [OF assms(1), of j i] show False
      by (auto simp: near_lower_def near_upper_def range_arith)
  qed
  let ?M = "take (Suc j - i) (drop i rs)"
  have bnd: "i < length rs" "j < length rs" using assms by (auto simp: near_lower_def near_upper_def)
  then have len: "length ?M = Suc j - i" "i < length rs" "j < length rs" by auto
  have nth: "?M ! k = rs ! (i + k)" if "k < Suc j - i" for k using that len by simp
  have ne: "?M \<noteq> []" using len ij by auto
  have hd: "hd ?M = rs ! i" using ne nth [of 0] len ij by (simp add: hd_conv_nth)
  have la: "last ?M = rs ! j" using ne nth [of "j - i"] len ij by (simp add: last_conv_nth)
  have eq: "take i rs @ ?M @ drop (Suc j) rs = rs"
  proof -
    have "drop (Suc j) rs = drop (Suc j - i) (drop i rs)" using ij by simp
    then show ?thesis by (metis append_take_drop_id)
  qed
  have "l < fst r" if "r \<in> set (tl ?M)" for r
  proof -
    from that obtain k where k: "k < length (tl ?M)" "r = tl ?M ! k" by (auto simp: in_set_conv_nth)
    then have "r = rs ! (i + Suc k)" "i + Suc k < length rs" "i + 1 < length rs" using len nth [of "Suc k"] by (auto simp: nth_tl)
    then show ?thesis using assms(2) sep_nth_less [OF assms(1), of "i + 1" "i + Suc k"]
      by (cases k) (auto simp: near_lower_def range_arith)
  qed
  moreover have "snd r < u" if "r \<in> set (butlast ?M)" for r
  proof -
    from that obtain k where k: "k < length (butlast ?M)" "r = butlast ?M ! k" by (auto simp: in_set_conv_nth)
    then have r: "r = rs ! (i + k)" "i + k < j" using len nth [of k] by (auto simp: nth_butlast)
    show ?thesis
    proof (cases "i + k = j - 1")
      case True
      with r assms(3) show ?thesis by (simp add: near_upper_def)
    next
      case False
      with r have less: "i + k < j - 1" "j - 1 < length rs" "0 < j" using len by linarith+
      with sep_nth_less [OF assms(1) less(1,2)] assms(3) show ?thesis
        by (auto simp: near_upper_def r(1) range_arith)
    qed
  qed
  ultimately show "meets l u (take i rs) ?M (drop (Suc j) rs)"
    using assms hd la ne eq len by (auto simp: meets_def near_lower_def near_upper_def)
qed

subsection \<open>Replacing the ranges that are met\<close>

lemma meets_replace:
  assumes "meets l u A M B" and "sep M'" and "M' \<noteq> []"
    and "A \<noteq> [] \<Longrightarrow> fst (hd M) \<le> fst (hd M')" and "B \<noteq> [] \<Longrightarrow> snd (last M') \<le> snd (last M)"
  shows "sep (A @ M' @ B)"
proof -
  have m: "sep A" "sep B" "M \<noteq> []" "B \<noteq> [] \<Longrightarrow> snd (last M) + 1 < fst (hd B)" "snd (last M) < - 1"
    "A \<noteq> [] \<Longrightarrow> snd (last A) + 1 < fst (hd M)"
    using assms(1) sep_member [of M "fst (last M)" "snd (last M)"] by (auto simp: meets_def sep_append)
  have "snd (last M') < - 1" using assms(2,3) sep_member [of M' "fst (last M')" "snd (last M')"] by simp
  with m assms show ?thesis by (auto simp: sep_append range_arith)
qed

lemma meets_remove:
  assumes "meets l u A M B"
  shows "sep (A @ B)"
proof -
  have m: "sep A" "sep B" "sep M" "M \<noteq> []" "B \<noteq> [] \<Longrightarrow> snd (last M) + 1 < fst (hd B)"
    "A \<noteq> [] \<Longrightarrow> snd (last A) + 1 < fst (hd M)" using assms by (auto simp: meets_def sep_append)
  have "fst (hd M) \<le> snd (hd M)" "snd (hd M) \<le> snd (last M)" "snd (last M) < - 1"
    using m(3,4) sep_member [of M "fst (last M)" "snd (last M)"] sep_member [of M "fst (hd M)" "snd (hd M)"]
      sep_last_ge [of M "fst (hd M)" "snd (hd M)"] by simp_all
  with m show ?thesis by (auto simp: sep_append range_arith)
qed

lemma meets_outside:
  assumes "meets l u A M B" and "x \<in> den A \<union> den B"
  shows "x < l \<or> u < x"
proof -
  have m: "sep A" "sep B" "sep M" "M \<noteq> []" "B \<noteq> [] \<Longrightarrow> snd (last M) + 1 < fst (hd B) \<and> u \<le> snd (last M)"
    "A \<noteq> [] \<Longrightarrow> snd (last A) + 1 < fst (hd M) \<and> fst (hd M) \<le> l" using assms by (auto simp: meets_def sep_append)
  have "snd (last M) < - 1" using m(3,4) sep_member [of M "fst (last M)" "snd (last M)"] by simp
  moreover have "A \<noteq> [] \<Longrightarrow> snd (last A) < - 1" using m(1) sep_member [of A "fst (last A)" "snd (last A)"] by simp
  moreover have "x \<in> den A \<Longrightarrow> A \<noteq> [] \<and> x \<le> snd (last A)" "x \<in> den B \<Longrightarrow> B \<noteq> [] \<and> fst (hd B) \<le> x"
    using den_bounds m(1,2) by auto
  ultimately show ?thesis using m assms(2) by (auto simp: range_arith)
qed

lemma meets_disjoint: "meets l u A M B \<Longrightarrow> (den A \<union> den B) \<inter> {l..u} = {}"
  using meets_outside [of l u A M B] by (force simp: range_arith)

text \<open>What \<^verbatim>\<open>record\<close> makes of one range, and of several.\<close>

fun rec1 :: "64 word \<Rightarrow> 64 word \<Rightarrow> range \<Rightarrow> range list" where
  "rec1 l u (a, b) =
     (if u + 1 < a then [(l, u), (a, b)] else if b < l - 1 then [(a, b), (l, u)]
      else [(if l < a then l else a, if b < u then u else b)])"

fun recm :: "64 word \<Rightarrow> 64 word \<Rightarrow> range \<Rightarrow> range \<Rightarrow> range list" where
  "recm l u (a, b) (c, d) =
     (if l \<le> b + 1 then
        if c \<le> u + 1 then [(if l < a then l else a, if d < u then u else d)] else [(if l < a then l else a, u), (c, d)]
      else if u + 1 < c then [(a, b), (l, u), (c, d)]
      else [(a, b), (l, if d < u then u else d)])"

lemma meets_sep: "meets l u A M B \<Longrightarrow> sep A \<and> sep M \<and> sep B"
  unfolding meets_def by (simp only: sep_append)

lemma meets_one:
  assumes "meets l u A [(a, b)] B"
  shows "0 < a" "a \<le> b" "b < - 1" "A \<noteq> [] \<Longrightarrow> a \<le> l" "B \<noteq> [] \<Longrightarrow> u \<le> b"
  using meets_sep [OF assms] assms by (auto simp: meets_def)

lemma rec1_ok:
  assumes m: "meets l u A [r] B" and "0 < l" "l \<le> u" "u < - 1"
  shows "sep (A @ rec1 l u r @ B)" and "den (A @ rec1 l u r @ B) = den (A @ [r] @ B) \<union> {l..u}"
proof -
  obtain a b where r: "r = (a, b)" by fastforce
  note ab = meets_one [OF m [unfolded r]]
  show "sep (A @ rec1 l u r @ B)"
    using ab assms(2-4) by (intro meets_replace [OF m]) (auto simp: r range_arith)
  have "den (rec1 l u r) = den [r] \<union> {l..u}"
    using ab assms(2-4) by (auto simp: r range_arith)
  then show "den (A @ rec1 l u r @ B) = den (A @ [r] @ B) \<union> {l..u}" unfolding den_simps(3) by blast
qed

lemma meets_multi:
  assumes m: "meets l u A ((a, b) # mids @ [(c, d)]) B"
  shows "0 < a" "a \<le> b" "b < - 1" "b + 1 < c" "c \<le> d" "d < - 1" "l < c" "b < u" "A \<noteq> [] \<Longrightarrow> a \<le> l" "B \<noteq> [] \<Longrightarrow> u \<le> d"
    "den mids \<subseteq> {l..u}"
proof -
  have s: "sep ((a, b) # mids @ [(c, d)])" and lu: "\<forall>r \<in> set mids. l < fst r \<and> snd r < u" "l < c" "b < u"
    and AB: "A \<noteq> [] \<Longrightarrow> a \<le> l" "B \<noteq> [] \<Longrightarrow> u \<le> d"
    using meets_sep [OF m] m by (auto simp: meets_def butlast_append)
  then show "0 < a" "a \<le> b" "b < - 1" "c \<le> d" "d < - 1" "l < c" "b < u" "A \<noteq> [] \<Longrightarrow> a \<le> l" "B \<noteq> [] \<Longrightarrow> u \<le> d"
    by (auto simp: sep_Cons sep_append)
  show "b + 1 < c"
    using sep_nth_less [OF s, of 0 "length (mids @ [(c, d)])"] by (simp add: nth_append)
  have "x \<in> {l..u}" if "x \<in> den mids" for x
    using that lu(1) by (fastforce simp: den_def range_arith)
  then show "den mids \<subseteq> {l..u}" by blast
qed

lemma recm_ok:
  assumes m: "meets l u A ((a, b) # mids @ [(c, d)]) B" and "0 < l" "l \<le> u" "u < - 1"
  shows "sep (A @ recm l u (a, b) (c, d) @ B)"
    and "den (A @ recm l u (a, b) (c, d) @ B) = den (A @ ((a, b) # mids @ [(c, d)]) @ B) \<union> {l..u}"
proof -
  note f = meets_multi [OF m]
  show "sep (A @ recm l u (a, b) (c, d) @ B)"
    using f(1-10) assms(2-4) by (intro meets_replace [OF m]) (auto simp: range_arith)
  have "den (recm l u (a, b) (c, d)) = {a..b} \<union> {c..d} \<union> {l..u}"
    using f(1-10) assms(2-4) by (auto simp: range_arith)
  then show "den (A @ recm l u (a, b) (c, d) @ B) = den (A @ ((a, b) # mids @ [(c, d)]) @ B) \<union> {l..u}"
    using f(11) by auto
qed

text \<open>What \<^verbatim>\<open>erase\<close> leaves of one range, and of the first and the last of several.\<close>

fun era1 :: "64 word \<Rightarrow> 64 word \<Rightarrow> range \<Rightarrow> range list" where
  "era1 l u (a, b) =
     (if a \<le> u \<and> l \<le> b then
        (if a < l then [(a, l - 1)] else []) @ (if u < b then [(u + 1, b)] else [])
      else [(a, b)])"

lemma era1_ok:
  assumes m: "meets l u A [r] B" and "0 < l" "l \<le> u" "u < - 1"
  shows "sep (A @ era1 l u r @ B)" and "den (A @ era1 l u r @ B) = den (A @ [r] @ B) - {l..u}"
proof -
  obtain a b where r: "r = (a, b)" by fastforce
  note ab = meets_one [OF m [unfolded r]]
  show "sep (A @ era1 l u r @ B)"
  proof (cases "era1 l u r = []")
    case True
    with meets_remove [OF m] show ?thesis by simp
  next
    case False
    then show ?thesis using ab assms(2-4)
      by (intro meets_replace [OF m]) (auto simp: r range_arith split: if_splits)
  qed
  have "den (era1 l u r) = den [r] - {l..u}"
    using ab assms(2-4) by (auto simp: r range_arith)
  then show "den (A @ era1 l u r @ B) = den (A @ [r] @ B) - {l..u}"
    unfolding den_simps(3) using meets_disjoint [OF m] by blast
qed

fun eram :: "64 word \<Rightarrow> 64 word \<Rightarrow> range \<Rightarrow> range \<Rightarrow> range list" where
  "eram l u (a, b) (c, d) =
     (if l \<le> a then [] else if l \<le> b then [(a, l - 1)] else [(a, b)]) @
     (if d \<le> u then [] else if c \<le> u then [(u + 1, d)] else [(c, d)])"

lemma eram_ok:
  assumes m: "meets l u A ((a, b) # mids @ [(c, d)]) B" and "0 < l" "l \<le> u" "u < - 1"
  shows "sep (A @ eram l u (a, b) (c, d) @ B)"
    and "den (A @ eram l u (a, b) (c, d) @ B) = den (A @ ((a, b) # mids @ [(c, d)]) @ B) - {l..u}"
proof -
  note f = meets_multi [OF m]
  show "sep (A @ eram l u (a, b) (c, d) @ B)"
  proof (cases "eram l u (a, b) (c, d) = []")
    case True
    with meets_remove [OF m] show ?thesis by simp
  next
    case False
    then show ?thesis using f(1-10) assms(2-4)
      by (intro meets_replace [OF m]) (auto simp: range_arith split: if_splits)
  qed
  have "den (eram l u (a, b) (c, d)) = ({a..b} \<union> {c..d}) - {l..u}"
    using f(1-10) assms(2-4) by (auto simp: range_arith)
  then show "den (A @ eram l u (a, b) (c, d) @ B) = den (A @ ((a, b) # mids @ [(c, d)]) @ B) - {l..u}"
    unfolding den_simps(3) using meets_disjoint [OF m] f(11) by (auto simp del: eram.simps)
qed

end
