(* ===== verification/Lampi_Links.thy ===== *)
theory Lampi_Links
  imports Lampi_Prelude
begin

section \<open>Doubly linked chains\<close>

text \<open>
  \<open>links n p xs\<close>: in a heap with the fields \<open>n\<close> (next) and \<open>p\<close> (prev) the addresses \<open>xs\<close> are chained in this order. The
  lists of \<^verbatim>\<open>DblLinkList.h\<close> (a chain between two sentinels) and of \<^verbatim>\<open>SeqTrackingList.h\<close> (a closed chain) rest on it.
\<close>

fun links :: "(nat \<Rightarrow> nat) \<Rightarrow> (nat \<Rightarrow> nat) \<Rightarrow> nat list \<Rightarrow> bool" where
  "links n p (a # b # r) \<longleftrightarrow> n a = b \<and> p b = a \<and> links n p (b # r)"
| "links n p r \<longleftrightarrow> True"

lemma links_append: "links n p (xs @ a # ys) \<longleftrightarrow> links n p (xs @ [a]) \<and> links n p (a # ys)"
proof (induction xs)
  case (Cons x xs)
  then show ?case by (cases xs) auto
qed simp

lemma links_mid: "links n p (xs @ a # b # ys) \<Longrightarrow> n a = b \<and> p b = a"
  using links_append [of n p xs a "b # ys"] by simp

lemma links_next: "a \<notin> set (butlast l) \<Longrightarrow> links (n(a := v)) p l = links n p l"
  by (induction n p l rule: links.induct) auto

lemma links_prev: "b \<notin> set (tl l) \<Longrightarrow> links n (p(b := v)) l = links n p l"
  by (induction n p l rule: links.induct) auto

lemma links_out: "b \<notin> set l \<Longrightarrow> links (n(b := v)) p l = links n p l" "b \<notin> set l \<Longrightarrow> links n (p(b := v)) l = links n p l"
  by (rule links_next, meson in_set_butlastD, rule links_prev, cases l) auto

lemma links_cong: "(\<And>x. x \<in> set l \<Longrightarrow> n x = n' x \<and> p x = p' x) \<Longrightarrow> links n p l = links n' p' l"
  by (induction n p l rule: links.induct) auto

lemma distinct_ends:
  assumes "zs \<noteq> []" and "distinct zs"
  shows "last zs \<notin> set (butlast zs)" and "hd zs \<notin> set (tl zs)"
proof -
  obtain ys z where "zs = ys @ [z]" using assms(1) by (meson rev_exhaust)
  with assms(2) show "last zs \<notin> set (butlast zs)" by simp
  show "hd zs \<notin> set (tl zs)" using assms by (cases zs) auto
qed

end
