(* ===== verification/Seq_Heap.thy ===== *)
theory Seq_Heap
  imports Seq_List Seq_Ranges Lampi_Links
begin

section \<open>Circular lists in the heap\<close>

text \<open>
  When the fields \<open>n\<close> (next) and \<open>p\<close> (prev) make a circular list of the addresses \<open>xs\<close>, how linking and
  unlinking an element changes it, and the representation of a sequence tracking list: the addresses \<open>xs\<close> of
  the list proper and \<open>fs\<close> of the free list, which together are the elements of the array.
\<close>

subsection \<open>Rings\<close>

definition ring :: "(nat \<Rightarrow> nat) \<Rightarrow> (nat \<Rightarrow> nat) \<Rightarrow> nat list \<Rightarrow> bool" where
  "ring n p xs \<longleftrightarrow> (xs \<noteq> [] \<longrightarrow> links n p (xs @ [hd xs]))"

lemma ring_Nil [simp]: "ring n p []" and ring_single [simp]: "ring n p [x] \<longleftrightarrow> n x = x \<and> p x = x"
  by (auto simp: ring_def)

lemma ring_cong: "(\<And>x. x \<in> set xs \<Longrightarrow> n x = n' x \<and> p x = p' x) \<Longrightarrow> ring n p xs = ring n' p' xs"
  unfolding ring_def using links_cong [of "xs @ [hd xs]" n n' p p'] by fastforce

lemma ring_rotate: "ring n p (xs @ ys) \<longleftrightarrow> ring n p (ys @ xs)"
proof (cases "xs = [] \<or> ys = []")
  case False
  then obtain x xs' y ys' where "xs = x # xs'" "ys = y # ys'" by (meson neq_Nil_conv)
  then show ?thesis
    using links_append [of n p "x # xs'" y "ys' @ [x]"] links_append [of n p "y # ys'" x "xs' @ [y]"]
    by (auto simp: ring_def)
qed auto

lemma ring_snoc:
  assumes "zs \<noteq> []"
  shows "ring n p (zs @ [x]) \<longleftrightarrow> links n p zs \<and> n (last zs) = x \<and> p x = last zs \<and> n x = hd zs \<and> p (hd zs) = x"
proof -
  obtain ys z where zs: "zs = ys @ [z]" using assms by (meson rev_exhaust)
  have "ring n p (zs @ [x]) \<longleftrightarrow> links n p (ys @ z # [x, hd zs])" by (simp add: ring_def zs hd_append)
  also have "\<dots> \<longleftrightarrow> links n p (ys @ [z]) \<and> links n p [z, x, hd zs]" by (rule links_append)
  finally show ?thesis by (auto simp: zs)
qed

lemma ring_links:
  assumes "zs \<noteq> []"
  shows "ring n p zs \<longleftrightarrow> links n p zs \<and> n (last zs) = hd zs \<and> p (hd zs) = last zs"
proof -
  obtain ys z where zs: "zs = ys @ [z]" using assms by (meson rev_exhaust)
  have "ring n p zs \<longleftrightarrow> links n p (ys @ z # [hd zs])" by (simp add: ring_def zs)
  also have "\<dots> \<longleftrightarrow> links n p (ys @ [z]) \<and> links n p [z, hd zs]" by (rule links_append)
  finally show ?thesis by (auto simp: zs)
qed

lemma ring_remove:
  assumes "ring n p (zs @ [x])" and "zs \<noteq> []" and "distinct (zs @ [x])"
  shows "ring (n(last zs := hd zs)) (p(hd zs := last zs)) zs" and "n x = hd zs" and "p x = last zs"
proof -
  have r: "links n p zs \<and> n (last zs) = x \<and> p x = last zs \<and> n x = hd zs \<and> p (hd zs) = x"
    using assms(1) ring_snoc [OF assms(2)] by blast
  then show "n x = hd zs" "p x = last zs" by auto
  have "distinct zs" using assms(3) by simp
  with r distinct_ends [OF assms(2)] show "ring (n(last zs := hd zs)) (p(hd zs := last zs)) zs"
    by (simp add: ring_links [OF assms(2)] links_next links_prev)
qed

lemma ring_insert:
  assumes "ring n p zs" and "zs \<noteq> []" and "distinct (zs @ [x])"
  shows "ring (n(last zs := x, x := hd zs)) (p(hd zs := x, x := last zs)) (zs @ [x])"
proof -
  have "x \<notin> set zs" using assms(3) by simp
  then have "x \<notin> set (butlast zs)" "x \<notin> set (tl zs)" "x \<noteq> last zs" "x \<noteq> hd zs"
    using assms(2) by (auto dest: in_set_butlastD list.set_sel(2))
  moreover have "links n p zs" using assms(1) ring_links [OF assms(2)] by blast
  ultimately show ?thesis using distinct_ends [OF assms(2)] assms(3)
    by (simp add: ring_snoc [OF assms(2)] links_next links_prev)
qed

lemma ring_nth:
  assumes "ring n p xs" and "Suc i < length xs"
  shows "n (xs ! i) = xs ! Suc i" and "p (xs ! Suc i) = xs ! i"
proof -
  have "drop i xs = xs ! i # xs ! Suc i # drop (Suc (Suc i)) xs"
    using assms(2) by (simp add: Cons_nth_drop_Suc)
  then have eq: "xs = take i xs @ xs ! i # xs ! Suc i # drop (Suc (Suc i)) xs" by (metis append_take_drop_id)
  have "xs \<noteq> []" using assms(2) by auto
  then have "links n p xs" using assms(1) ring_links by blast
  then have "links n p (take i xs @ xs ! i # xs ! Suc i # drop (Suc (Suc i)) xs)" using eq by simp
  from links_mid [OF this] show "n (xs ! i) = xs ! Suc i" "p (xs ! Suc i) = xs ! i" by simp_all
qed

lemma ring_ends:
  assumes "ring n p xs" and "xs \<noteq> []"
  shows "n (last xs) = hd xs" and "p (hd xs) = last xs"
  using assms by (simp_all add: ring_links)

subsection \<open>The representation\<close>

abbreviation first :: "nat list \<Rightarrow> nat" where
  "first xs \<equiv> (if xs = [] then 0 else hd xs)"

definition dlists :: "stl \<Rightarrow> nat list \<Rightarrow> nat list \<Rightarrow> bool" where
  "dlists s xs fs \<longleftrightarrow> distinct (xs @ fs) \<and> 0 \<notin> set (xs @ fs) \<and> (\<forall>p \<in> set (xs @ fs). s_live s p)
     \<and> ring (s_next s) (s_prev s) xs \<and> ring (s_next s) (s_prev s) fs \<and> headp s = first xs \<and> freep s = first fs"

definition ranges :: "stl \<Rightarrow> nat list \<Rightarrow> range list" where
  "ranges s xs = map (\<lambda>p. (s_lower s p, s_upper s p)) xs"

definition array_ok :: "stl \<Rightarrow> nat list \<Rightarrow> nat list \<Rightarrow> bool" where
  "array_ok s xs fs \<longleftrightarrow> (\<forall>p. s_live s p \<longleftrightarrow> baseArray s \<le> p \<and> p < baseArray s + nat (arraySize s)) \<and>
     set (xs @ fs) = {baseArray s..<baseArray s + nat (arraySize s)} \<and> 0 \<le> arraySize s
     \<and> (baseArray s = 0 \<longleftrightarrow> arraySize s = 0) \<and> 0 < s_brk s \<and> baseArray s + nat (arraySize s) \<le> s_brk s"

definition stl_rep :: "stl \<Rightarrow> nat list \<Rightarrow> nat list \<Rightarrow> bool" where
  "stl_rep s xs fs \<longleftrightarrow> dlists s xs fs \<and> array_ok s xs fs \<and> listSize s = int (length xs)
     \<and> (hintp s = 0 \<or> hintp s \<in> set xs) \<and> 0 \<le> growBy s \<and> 0 \<le> shrinkBy s"

lemma array_size: "array_ok s xs fs \<Longrightarrow> distinct (xs @ fs) \<Longrightarrow> arraySize s = int (length xs + length fs)"
proof -
  assume a: "array_ok s xs fs" and "distinct (xs @ fs)"
  then have "length (xs @ fs) = card (set (xs @ fs))" by (simp only: distinct_card)
  also have "\<dots> = nat (arraySize s)" using a by (simp add: array_ok_def)
  finally show ?thesis using a by (simp add: array_ok_def)
qed

lemma dlists_headp:
  assumes "dlists s xs fs" and "xs \<noteq> []"
  shows "headp s = hd xs" "hd xs \<noteq> 0" "s_live s (hd xs)"
proof -
  have "hd xs \<in> set xs" "0 \<notin> set xs" using assms by (simp_all add: dlists_def)
  then show "hd xs \<noteq> 0" by metis
  show "headp s = hd xs" "s_live s (hd xs)" using assms by (auto simp: dlists_def)
qed

lemmas access_defs = get_next_def get_prev_def get_lower_def get_upper_def
  set_next_def set_prev_def set_lower_def set_upper_def

lemma unlink_ok:
  assumes "dlists s (A @ x # B) fs"
  shows "\<exists>n p h. unlink x s = Some (s\<lparr>s_next := n, s_prev := p, headp := h\<rparr>)
    \<and> dlists (s\<lparr>s_next := n, s_prev := p, headp := h\<rparr>) (A @ B) fs"
proof (cases "A @ B = []")
  case True
  with assms have x: "s_next s x = x" "s_prev s x = x" "s_live s x" "x \<noteq> 0" "headp s = x" "x \<notin> set fs"
    by (auto simp: dlists_def)
  let ?s = "s\<lparr>s_next := s_next s, s_prev := s_prev s, headp := 0\<rparr>"
  have "unlink x s = Some ?s" using x by (simp add: unlink_def access_defs fun_upd_idem)
  moreover have "dlists ?s (A @ B) fs" using assms True by (simp add: dlists_def)
  ultimately show ?thesis by blast
next
  case False
  define zs where "zs = B @ A"
  have zs: "zs \<noteq> []" using False by (auto simp: zs_def)
  have r: "ring (s_next s) (s_prev s) (zs @ [x])" "distinct (zs @ [x])"
    using assms ring_rotate [of _ _ "A @ [x]" B] by (auto simp: dlists_def zs_def)
  note rm = ring_remove [OF r(1) zs r(2)]
  have live: "s_live s x" "s_live s (last zs)" "s_live s (hd zs)" and nz: "hd zs \<noteq> 0" "x \<noteq> 0"
    using assms last_in_set [OF zs] hd_in_set [OF zs] by (auto simp: dlists_def zs_def)
  have ne: "last zs \<noteq> x" "hd zs \<noteq> x" using r(2) zs last_in_set [OF zs] hd_in_set [OF zs] by auto
  let ?n = "(s_next s)(last zs := hd zs)" and ?p = "(s_prev s)(hd zs := last zs)"
  let ?s = "s\<lparr>s_next := ?n, s_prev := ?p, headp := first (A @ B)\<rparr>"
  have hd: "headp s = first (A @ x # B)" using assms by (simp add: dlists_def)
  have "first (A @ B) = (if x = headp s then hd zs else headp s)"
  proof (cases A)
    case Nil
    then show ?thesis using hd zs by (auto simp: zs_def)
  next
    case (Cons a A')
    then show ?thesis using hd r(2) by (auto simp: zs_def)
  qed
  then have "unlink x s = Some ?s"
    using rm(2,3) live nz ne by (auto simp: unlink_def access_defs)
  moreover have "ring ?n ?p (A @ B)" using rm(1) ring_rotate [of ?n ?p B A] by (simp add: zs_def)
  moreover have "ring ?n ?p fs"
  proof -
    have "last zs \<notin> set fs" "hd zs \<notin> set fs"
      using assms last_in_set [OF zs] hd_in_set [OF zs] by (auto simp: dlists_def zs_def)
    then have "ring ?n ?p fs = ring (s_next s) (s_prev s) fs" by (intro ring_cong) auto
    then show ?thesis using assms by (simp add: dlists_def)
  qed
  ultimately have "unlink x s = Some ?s \<and> dlists ?s (A @ B) fs" using assms by (auto simp: dlists_def)
  then show ?thesis by blast
qed

subsection \<open>Freeing an element\<close>

lemma dlists_append:
  assumes l: "dlists s xs fs" and x: "x \<noteq> 0" "x \<notin> set (xs @ fs)" "s_live s x"
    and s': "s_next s' = (if fs = [] then (s_next s)(x := x) else (s_next s)(last fs := x, x := hd fs))"
    "s_prev s' = (if fs = [] then (s_prev s)(x := x) else (s_prev s)(hd fs := x, x := last fs))"
    "headp s' = headp s" "freep s' = (if fs = [] then x else freep s)" "s_live s' = s_live s"
  shows "dlists s' xs (fs @ [x])"
proof -
  have "ring (s_next s') (s_prev s') (fs @ [x])"
    using l x s'(1,2) ring_insert [of "s_next s" "s_prev s" fs x] by (auto simp: dlists_def)
  moreover have "ring (s_next s') (s_prev s') xs = ring (s_next s) (s_prev s) xs"
  proof (rule ring_cong)
    fix y assume y: "y \<in> set xs"
    have "y \<noteq> x" using x y by auto
    moreover have "y \<noteq> last fs \<and> y \<noteq> hd fs" if "fs \<noteq> []"
      using l y last_in_set [OF that] hd_in_set [OF that] unfolding dlists_def by auto
    ultimately show "s_next s' y = s_next s y \<and> s_prev s' y = s_prev s y" using s'(1,2) by simp
  qed
  ultimately show ?thesis using l x s'(3-5) by (auto simp: dlists_def)
qed

lemma dlists_freep:
  assumes "dlists s xs fs" and "fs \<noteq> []"
  shows "freep s = hd fs" "hd fs \<noteq> 0" "s_live s (hd fs)" "s_live s (last fs)" "s_prev s (hd fs) = last fs"
    "s_next s (last fs) = hd fs"
proof -
  have "hd fs \<in> set fs" "last fs \<in> set fs" "0 \<notin> set fs" using assms by (simp_all add: dlists_def)
  then show "hd fs \<noteq> 0" by metis
  show "freep s = hd fs" "s_live s (hd fs)" "s_live s (last fs)" "s_prev s (hd fs) = last fs" "s_next s (last fs) = hd fs"
    using assms ring_ends [of "s_next s" "s_prev s" fs] by (auto simp: dlists_def)
qed

lemma append_free_ok:
  assumes l: "dlists s xs fs" and x: "x \<noteq> 0" "x \<notin> set (xs @ fs)" "s_live s x"
  shows "\<exists>n p f. append_free x s = Some (s\<lparr>s_next := n, s_prev := p, freep := f\<rparr>)
    \<and> dlists (s\<lparr>s_next := n, s_prev := p, freep := f\<rparr>) xs (fs @ [x])"
proof -
  let ?s = "s\<lparr>s_next := (if fs = [] then (s_next s)(x := x) else (s_next s)(last fs := x, x := hd fs)),
    s_prev := (if fs = [] then (s_prev s)(x := x) else (s_prev s)(hd fs := x, x := last fs)),
    freep := (if fs = [] then x else freep s)\<rparr>"
  have "append_free x s = Some ?s"
  proof (cases "fs = []")
    case False
    from dlists_freep [OF l False] False x(3) show ?thesis by (simp add: append_free_def access_defs)
  qed (use l x in \<open>simp add: append_free_def access_defs dlists_def\<close>)
  moreover have "dlists ?s xs (fs @ [x])" by (rule dlists_append [OF l x]) simp_all
  ultimately show ?thesis by blast
qed

lemma rebuild_free_elt_ok:
  assumes l: "dlists s xs fs" and x: "x \<noteq> 0" "x \<notin> set (xs @ fs)" "s_live s x"
  shows "\<exists>n p f lo up. rebuild_free_elt x s
      = Some (s\<lparr>s_next := n, s_prev := p, s_lower := lo, s_upper := up, freep := f\<rparr>)
    \<and> dlists (s\<lparr>s_next := n, s_prev := p, s_lower := lo, s_upper := up, freep := f\<rparr>) xs (fs @ [x])
    \<and> (\<forall>q. q \<noteq> x \<longrightarrow> lo q = s_lower s q \<and> up q = s_upper s q)"
proof -
  let ?s = "s\<lparr>s_next := (if fs = [] then (s_next s)(x := x) else (s_next s)(last fs := x, x := hd fs)),
    s_prev := (if fs = [] then (s_prev s)(x := x) else (s_prev s)(hd fs := x, x := last fs)),
    s_lower := (if fs = [] then s_lower s else (s_lower s)(x := 0)),
    s_upper := (if fs = [] then s_upper s else (s_upper s)(x := 0)),
    freep := (if fs = [] then x else freep s)\<rparr>"
  have "rebuild_free_elt x s = Some ?s"
  proof (cases "fs = []")
    case False
    from dlists_freep [OF l False] False x(3) show ?thesis by (simp add: rebuild_free_elt_def access_defs)
  qed (use l x in \<open>simp add: rebuild_free_elt_def access_defs dlists_def\<close>)
  moreover have "dlists ?s xs (fs @ [x])" by (rule dlists_append [OF l x]) simp_all
  moreover have "\<forall>q. q \<noteq> x \<longrightarrow> (if fs = [] then s_lower s else (s_lower s)(x := 0)) q = s_lower s q
    \<and> (if fs = [] then s_upper s else (s_upper s)(x := 0)) q = s_upper s q" by simp
  ultimately show ?thesis by blast
qed

lemma dlists_cong:
  assumes "dlists s xs fs" and "s_next s' = s_next s" "s_prev s' = s_prev s" "headp s' = headp s" "freep s' = freep s"
    and "s_live s' = s_live s"
  shows "dlists s' xs fs"
  using assms by (simp add: dlists_def)

text \<open>An element that is in the list, and one whose links are null, go to the end of the free list.\<close>

lemma free_linked:
  assumes l: "dlists s (A @ x # B) fs"
  shows "\<exists>n p h f s'. s' = s\<lparr>headp := h, s_next := n, s_prev := p, freep := f, s_upper := (s_upper s)(x := 0),
        s_lower := (s_lower s)(x := 0), listSize := listSize s - 1, hintp := (if hintp s = x then 0 else hintp s)\<rparr>
    \<and> freeSeqRangeListElement x s = shrink_array s' \<and> dlists s' (A @ B) (fs @ [x])"
proof -
  obtain n p h where s1: "unlink x s = Some (s\<lparr>s_next := n, s_prev := p, headp := h\<rparr>)"
    "dlists (s\<lparr>s_next := n, s_prev := p, headp := h\<rparr>) (A @ B) fs" using unlink_ok [OF l] by blast
  have x: "x \<noteq> 0" "x \<notin> set ((A @ B) @ fs)" "s_live s x" using l by (auto simp: dlists_def)
  have "s_live (s\<lparr>s_next := n, s_prev := p, headp := h\<rparr>) x" by (simp add: x(3))
  from append_free_ok [OF s1(2) x(1,2) this] obtain n' p' f where
    s2: "append_free x (s\<lparr>s_next := n, s_prev := p, headp := h\<rparr>) = Some (s\<lparr>headp := h, s_next := n', s_prev := p', freep := f\<rparr>)"
    "dlists (s\<lparr>headp := h, s_next := n', s_prev := p', freep := f\<rparr>) (A @ B) (fs @ [x])" by auto
  let ?s = "s\<lparr>headp := h, s_next := n', s_prev := p', freep := f, s_upper := (s_upper s)(x := 0),
        s_lower := (s_lower s)(x := 0), listSize := listSize s - 1, hintp := (if hintp s = x then 0 else hintp s)\<rparr>"
  have "clear_elt x (s\<lparr>headp := h, s_next := n', s_prev := p', freep := f\<rparr>) = Some ?s"
    using x(3) by (simp add: clear_elt_def access_defs)
  then have "freeSeqRangeListElement x s = shrink_array ?s"
    using s1(1) s2(1) by (simp add: freeSeqRangeListElement_def)
  moreover have "dlists ?s (A @ B) (fs @ [x])" by (rule dlists_cong [OF s2(2)]) simp_all
  ultimately show ?thesis by blast
qed

lemma free_unlinked:
  assumes l: "dlists s xs fs" and x: "x \<noteq> 0" "x \<notin> set (xs @ fs)" "s_live s x"
  shows "\<exists>n p f s'. s' = s\<lparr>s_next := n, s_prev := p, freep := f, s_upper := (s_upper s)(x := 0),
        s_lower := (s_lower s)(x := 0), listSize := listSize s - 1, hintp := (if hintp s = x then 0 else hintp s)\<rparr>
    \<and> add_free_elt s x = shrink_array s' \<and> dlists s' xs (fs @ [x])"
proof -
  let ?s1 = "s\<lparr>s_prev := (s_prev s)(x := 0), s_next := (s_next s)(x := 0)\<rparr>"
  have "ring (s_next ?s1) (s_prev ?s1) ys = ring (s_next s) (s_prev s) ys" if "x \<notin> set ys" for ys
    using that by (intro ring_cong) auto
  then have l1: "dlists ?s1 xs fs" using l x(2) by (simp add: dlists_def)
  have "s_live ?s1 x" by (simp add: x(3))
  from append_free_ok [OF l1 x(1,2) this] obtain n p f where
    s2: "append_free x ?s1 = Some (s\<lparr>s_next := n, s_prev := p, freep := f\<rparr>)"
    "dlists (s\<lparr>s_next := n, s_prev := p, freep := f\<rparr>) xs (fs @ [x])" by auto
  let ?s = "s\<lparr>s_next := n, s_prev := p, freep := f, s_upper := (s_upper s)(x := 0),
        s_lower := (s_lower s)(x := 0), listSize := listSize s - 1, hintp := (if hintp s = x then 0 else hintp s)\<rparr>"
  have "clear_elt x (s\<lparr>s_next := n, s_prev := p, freep := f\<rparr>) = Some ?s" "unlink x ?s1 = Some ?s1"
    using x(3) by (simp_all add: clear_elt_def unlink_def access_defs)
  then have "freeSeqRangeListElement x ?s1 = shrink_array ?s"
    using s2(1) by (simp add: freeSeqRangeListElement_def)
  then have "add_free_elt s x = shrink_array ?s" using x(3) by (simp add: add_free_elt_def access_defs)
  moreover have "dlists ?s xs (fs @ [x])" by (rule dlists_cong [OF s2(2)]) simp_all
  ultimately show ?thesis by blast
qed

end
