(* ===== verification/Seq_Array.thy ===== *)
theory Seq_Array
  imports Seq_Heap
begin

section \<open>Growing and shrinking the array\<close>

text \<open>
  Both rebuild the list at the start of a new array and put the remaining elements on the free list. What is
  stored does not change, only the addresses do.
\<close>

declare copy_loop.simps [simp del] grow_loop.simps [simp del]

subsection \<open>Copying\<close>

lemma links_nthI:
  "(\<And>i. Suc i < length l \<Longrightarrow> n (l ! i) = l ! Suc i \<and> p (l ! Suc i) = l ! i) \<Longrightarrow> links n p l"
proof (induction n p l rule: links.induct)
  case (1 n p a b r)
  have "links n p (b # r)" by (rule "1.IH") (use "1.prems" [of "Suc _"] in auto)
  then show ?case using "1.prems" [of 0] by simp
qed auto

definition ring_next :: "nat \<Rightarrow> nat \<Rightarrow> nat \<Rightarrow> nat" where
  "ring_next new n k = (if k = n - 1 then new else new + (k + 1))"

definition ring_prev :: "nat \<Rightarrow> nat \<Rightarrow> nat \<Rightarrow> nat" where
  "ring_prev new n k = (if k = 0 then new + (n - 1) else new + (k - 1))"

definition copied :: "nat \<Rightarrow> nat list \<Rightarrow> nat \<Rightarrow> stl \<Rightarrow> stl \<Rightarrow> bool" where
  "copied new xs i s s' \<longleftrightarrow>
     (\<forall>k. i \<le> k \<and> k < length xs \<longrightarrow>
        s_next s' (new + k) = ring_next new (length xs) k \<and> s_prev s' (new + k) = ring_prev new (length xs) k \<and>
        s_lower s' (new + k) = s_lower s (xs ! k) \<and> s_upper s' (new + k) = s_upper s (xs ! k)) \<and>
     (\<forall>q. q \<notin> {new + i..<new + length xs} \<longrightarrow>
        s_next s' q = s_next s q \<and> s_prev s' q = s_prev s q \<and> s_lower s' q = s_lower s q \<and> s_upper s' q = s_upper s q)"

definition copy_pre :: "nat \<Rightarrow> nat list \<Rightarrow> stl \<Rightarrow> bool" where
  "copy_pre new xs s \<longleftrightarrow> listSize s = int (length xs) \<and> ring (s_next s) (s_prev s) xs
     \<and> (\<forall>x \<in> set xs. s_live s x \<and> x \<notin> {new..<new + length xs}) \<and> (\<forall>k < length xs. s_live s (new + k))"

lemma copy_pre_old:
  assumes "copy_pre new xs s" and "k < length xs" and "i < length xs"
  shows "xs ! k \<noteq> new + i"
proof -
  have "xs ! k \<notin> {new..<new + length xs}" using assms nth_mem [OF assms(2)] unfolding copy_pre_def by blast
  then show ?thesis using assms(3) by auto
qed

abbreviation copy_at :: "nat \<Rightarrow> nat list \<Rightarrow> nat \<Rightarrow> stl \<Rightarrow> stl" where
  "copy_at new xs i s \<equiv> s\<lparr>
     s_next := (s_next s)(new + i := ring_next new (length xs) i),
     s_prev := (s_prev s)(new + i := ring_prev new (length xs) i),
     s_lower := (s_lower s)(new + i := s_lower s (xs ! i)), s_upper := (s_upper s)(new + i := s_upper s (xs ! i))\<rparr>"

lemma copy_step:
  assumes pre: "copy_pre new xs s" and i: "i < length xs"
  shows "copy_elt new i (xs ! i) s = Some (copy_at new xs i s)" and "copy_pre new xs (copy_at new xs i s)"
    and "get_next (xs ! i) (copy_at new xs i s) = Some (s_next s (xs ! i))"
proof -
  have m: "xs ! i \<in> set xs" "s_live s (xs ! i)" "xs ! i \<noteq> new + i" "s_live s (new + i)"
    using pre i copy_pre_old [OF pre i i] by (auto simp: copy_pre_def)
  show "copy_elt new i (xs ! i) s = Some (copy_at new xs i s)"
    using m(2-4) pre i by (auto simp: copy_elt_def access_defs copy_pre_def ring_next_def ring_prev_def nat_diff_distrib)
  have "ring (s_next (copy_at new xs i s)) (s_prev (copy_at new xs i s)) xs = ring (s_next s) (s_prev s) xs"
    using pre i by (intro ring_cong) (auto simp: copy_pre_def)
  then show "copy_pre new xs (copy_at new xs i s)" using pre by (simp add: copy_pre_def)
  show "get_next (xs ! i) (copy_at new xs i s) = Some (s_next s (xs ! i))"
    using m by (simp add: access_defs)
qed

lemma copied_step:
  assumes "copied new xs (Suc i) (copy_at new xs i s) s'" and "copy_pre new xs s" and "i < length xs"
  shows "copied new xs i s s'"
proof -
  have at: "new + i \<notin> {new + Suc i..<new + length xs}" by simp
  have old: "xs ! k \<noteq> new + i" if "k < length xs" for k by (rule copy_pre_old [OF assms(2) that assms(3)])
  show ?thesis unfolding copied_def
  proof (rule conjI; intro allI impI)
    fix k assume "i \<le> k \<and> k < length xs"
    then show "s_next s' (new + k) = ring_next new (length xs) k \<and> s_prev s' (new + k) = ring_prev new (length xs) k \<and>
        s_lower s' (new + k) = s_lower s (xs ! k) \<and> s_upper s' (new + k) = s_upper s (xs ! k)"
      using assms(1) at old [of k] by (cases "k = i") (auto simp: copied_def)
  next
    fix q assume "q \<notin> {new + i..<new + length xs}"
    then have "q \<notin> {new + Suc i..<new + length xs}" "q \<noteq> new + i" using assms(3) by auto
    then show "s_next s' q = s_next s q \<and> s_prev s' q = s_prev s q \<and> s_lower s' q = s_lower s q \<and> s_upper s' q = s_upper s q"
      using assms(1) unfolding copied_def by simp
  qed
qed

lemma copied_refl: "length xs \<le> i \<Longrightarrow> copied new xs i s s"
  by (auto simp: copied_def)

text \<open>The next element to copy, when there is one.\<close>

lemma next_elt: "copy_pre new xs s \<Longrightarrow> Suc i < length xs \<Longrightarrow> s_next s (xs ! i) = xs ! Suc i"
  using ring_nth(1) by (auto simp: copy_pre_def)

lemma copy_loop_ok:
  assumes "copy_pre new xs s" and "i < length xs \<Longrightarrow> tmp = xs ! i"
  shows "\<exists>n p lo up. copy_loop (length xs) new i tmp s = Some (s\<lparr>s_next := n, s_prev := p, s_lower := lo, s_upper := up\<rparr>)
    \<and> copied new xs i s (s\<lparr>s_next := n, s_prev := p, s_lower := lo, s_upper := up\<rparr>)"
  using assms
proof (induction "length xs - i" arbitrary: i tmp s)
  case 0
  then have "copy_loop (length xs) new i tmp s
      = Some (s\<lparr>s_next := s_next s, s_prev := s_prev s, s_lower := s_lower s, s_upper := s_upper s\<rparr>)"
    by (subst copy_loop.simps) simp
  moreover have "copied new xs i s (s\<lparr>s_next := s_next s, s_prev := s_prev s, s_lower := s_lower s, s_upper := s_upper s\<rparr>)"
    using 0 by (simp add: copied_refl)
  ultimately show ?case by blast
next
  case (Suc m)
  then have i: "i < length xs" "tmp = xs ! i" by auto
  note st = copy_step [OF Suc.prems(1) i(1)]
  have "m = length xs - Suc i" "Suc i < length xs \<Longrightarrow> s_next s (xs ! i) = xs ! Suc i"
    using Suc.hyps(2) next_elt [OF Suc.prems(1)] by auto
  from Suc.hyps(1) [OF this(1) st(2) this(2)] obtain n p lo up where
    r: "copy_loop (length xs) new (Suc i) (s_next s (xs ! i)) (copy_at new xs i s)
      = Some (s\<lparr>s_next := n, s_prev := p, s_lower := lo, s_upper := up\<rparr>)"
    "copied new xs (Suc i) (copy_at new xs i s) (s\<lparr>s_next := n, s_prev := p, s_lower := lo, s_upper := up\<rparr>)" by auto
  have "copy_loop (length xs) new i tmp s = Some (s\<lparr>s_next := n, s_prev := p, s_lower := lo, s_upper := up\<rparr>)"
    using i st(1,3) r(1) by (subst copy_loop.simps) simp
  with copied_step [OF r(2) Suc.prems(1) i(1)] show ?case by blast
qed

text \<open>Where an address of the old list is in the new one.\<close>

definition moved :: "nat \<Rightarrow> nat list \<Rightarrow> nat \<Rightarrow> nat \<Rightarrow> nat \<Rightarrow> bool" where
  "moved new xs i q q' \<longleftrightarrow> (\<forall>k. i \<le> k \<and> k < length xs \<and> q = xs ! k \<longrightarrow> q' = new + k) \<and> (q \<notin> set (drop i xs) \<longrightarrow> q' = q)"

lemma moved_step:
  assumes "moved new xs (Suc i) (if q = xs ! i then new + i else q) q'" and "copy_pre new xs s"
    and "i < length xs" and "distinct xs"
  shows "moved new xs i q q'"
proof -
  have d: "drop i xs = xs ! i # drop (Suc i) xs" using assms(3) by (simp add: Cons_nth_drop_Suc)
  have "new + i \<notin> set xs" using copy_pre_old [OF assms(2) _ assms(3)] by (metis in_set_conv_nth)
  then have new: "new + i \<notin> set (drop (Suc i) xs)" by (meson in_set_dropD)
  have at: "q' = new + i" if "q = xs ! i" using assms(1) that new by (auto simp: moved_def)
  have "q' = new + k" if "i \<le> k" "k < length xs" "q = xs ! k" for k
  proof (cases "k = i")
    case False
    with that assms(3,4) have "q \<noteq> xs ! i" by (simp add: nth_eq_iff_index_eq)
    with assms(1) that False show ?thesis by (auto simp: moved_def)
  qed (use at that in simp)
  then show ?thesis using assms(1) d by (auto simp: moved_def)
qed

lemma grow_loop_step:
  assumes "i < n" and "copy_elt new i tmp s = Some s1" and "get_next tmp (s1\<lparr>hintp := h\<rparr>) = Some t"
    and "(if hintp s1 = tmp then new + i else hintp s1) = h" and "(if prevp = tmp then new + i else prevp) = q"
  shows "grow_loop n new i tmp prevp s = grow_loop n new (Suc i) t q (s1\<lparr>hintp := h\<rparr>)"
  using assms(1-3) unfolding grow_loop.simps [of n new i tmp prevp s] by (simp add: assms(4,5) Let_def)

lemma grow_loop_ok:
  assumes "copy_pre new xs s" and "i < length xs \<Longrightarrow> tmp = xs ! i" and "distinct xs"
  shows "\<exists>n p lo up h q. grow_loop (length xs) new i tmp prevp s
      = Some (q, s\<lparr>s_next := n, s_prev := p, s_lower := lo, s_upper := up, hintp := h\<rparr>)
    \<and> copied new xs i s (s\<lparr>s_next := n, s_prev := p, s_lower := lo, s_upper := up, hintp := h\<rparr>)
    \<and> moved new xs i prevp q \<and> moved new xs i (hintp s) h"
  using assms(1,2)
proof (induction "length xs - i" arbitrary: i tmp s prevp)
  case 0
  let ?s = "s\<lparr>s_next := s_next s, s_prev := s_prev s, s_lower := s_lower s, s_upper := s_upper s, hintp := hintp s\<rparr>"
  from 0 have "grow_loop (length xs) new i tmp prevp s = Some (prevp, ?s)" by (subst grow_loop.simps) simp
  moreover have "copied new xs i s ?s" "moved new xs i prevp prevp" "moved new xs i (hintp s) (hintp s)"
    using 0 copied_refl [of xs i new s] by (auto simp: moved_def)
  ultimately show ?case by blast
next
  case (Suc m)
  then have i: "i < length xs" "tmp = xs ! i" by auto
  define h0 q0 where "h0 = (if hintp s = xs ! i then new + i else hintp s)" and "q0 = (if prevp = xs ! i then new + i else prevp)"
  let ?s = "(copy_at new xs i s)\<lparr>hintp := h0\<rparr>"
  note st = copy_step [OF Suc.prems(1) i(1)]
  have pre: "copy_pre new xs ?s" using st(2) by (simp add: copy_pre_def)
  have "m = length xs - Suc i" "Suc i < length xs \<Longrightarrow> s_next s (xs ! i) = xs ! Suc i"
    using Suc.hyps(2) next_elt [OF Suc.prems(1)] by auto
  from Suc.hyps(1) [OF this(1) pre this(2), of q0] obtain n p lo up h q where
    r: "grow_loop (length xs) new (Suc i) (s_next s (xs ! i)) q0 ?s
      = Some (q, s\<lparr>s_next := n, s_prev := p, s_lower := lo, s_upper := up, hintp := h\<rparr>)"
    "copied new xs (Suc i) ?s (s\<lparr>s_next := n, s_prev := p, s_lower := lo, s_upper := up, hintp := h\<rparr>)"
    "moved new xs (Suc i) q0 q" "moved new xs (Suc i) h0 h" by auto
  have "copied new xs (Suc i) (copy_at new xs i s) (s\<lparr>s_next := n, s_prev := p, s_lower := lo, s_upper := up, hintp := h\<rparr>)"
    using r(2) by (simp add: copied_def)
  from copied_step [OF this Suc.prems(1) i(1)] have c: "copied new xs i s
      (s\<lparr>s_next := n, s_prev := p, s_lower := lo, s_upper := up, hintp := h\<rparr>)" .
  have nx: "get_next (xs ! i) ?s = Some (s_next s (xs ! i))"
    using copy_pre_old [OF Suc.prems(1) i(1) i(1)] Suc.prems(1) i(1) by (auto simp: copy_pre_def get_next_def)
  have "grow_loop (length xs) new i tmp prevp s
      = Some (q, s\<lparr>s_next := n, s_prev := p, s_lower := lo, s_upper := up, hintp := h\<rparr>)"
    using grow_loop_step [OF i(1) st(1) nx, of prevp q0] r(1) i(2) by (simp add: h0_def q0_def)
  with c moved_step [OF r(3) [unfolded q0_def] Suc.prems(1) i(1) assms(3)]
    moved_step [OF r(4) [unfolded h0_def] Suc.prems(1) i(1) assms(3)] show ?case by blast
qed

lemma copied_ring:
  assumes "copied new xs 0 s s'"
  shows "ring (s_next s') (s_prev s') [new..<new + length xs]"
proof (cases "xs = []")
  case False
  let ?l = "[new..<new + length xs]"
  have f: "s_next s' (new + k) = ring_next new (length xs) k" "s_prev s' (new + k) = ring_prev new (length xs) k"
    if "k < length xs" for k using assms that by (auto simp: copied_def)
  have "links (s_next s') (s_prev s') ?l"
  proof (rule links_nthI)
    fix i assume i: "Suc i < length ?l"
    then show "s_next s' (?l ! i) = ?l ! Suc i \<and> s_prev s' (?l ! Suc i) = ?l ! i"
      using f(1) [of i] f(2) [of "Suc i"] by (auto simp: ring_next_def ring_prev_def)
  qed
  moreover have "?l \<noteq> []" using False by simp
  moreover from this have "last ?l = new + (length xs - 1)" "hd ?l = new" by (simp_all add: last_conv_nth hd_conv_nth)
  ultimately show ?thesis using False f(1) [of "length xs - 1"] f(2) [of 0] ring_links [of ?l]
    by (simp add: ring_next_def ring_prev_def)
qed simp

lemma copied_ranges: "copied new xs 0 s s' \<Longrightarrow> ranges s' [new..<new + length xs] = ranges s xs"
  by (rule nth_equalityI) (simp_all add: copied_def ranges_def)

lemma ranges_cong:
  "(\<And>p. p \<in> set xs \<Longrightarrow> s_lower s' p = s_lower s p \<and> s_upper s' p = s_upper s p) \<Longrightarrow> ranges s' xs = ranges s xs"
  by (simp add: ranges_def)

subsection \<open>Filling the free list\<close>

lemma rebuild_loop_ok:
  assumes "dlists s xs fs" and "distinct is"
    and "\<forall>i \<in> set is. baseArray s + i \<noteq> 0 \<and> baseArray s + i \<notin> set (xs @ fs) \<and> s_live s (baseArray s + i)"
  shows "\<exists>n p f lo up s'. s' = s\<lparr>s_next := n, s_prev := p, s_lower := lo, s_upper := up, freep := f\<rparr>
    \<and> foldM (\<lambda>s i. rebuild_free_elt (baseArray s + i) s) s is = Some s'
    \<and> dlists s' xs (fs @ map ((+) (baseArray s)) is) \<and> ranges s' xs = ranges s xs"
  using assms
proof (induction "is" arbitrary: s fs)
  case Nil
  then show ?case by (intro exI [of _ "s_next s"] exI [of _ "s_prev s"] exI [of _ "freep s"] exI [of _ "s_lower s"]
        exI [of _ "s_upper s"]) simp
next
  case (Cons i js)
  let ?x = "baseArray s + i"
  from Cons.prems(3) have x: "?x \<noteq> 0" "?x \<notin> set (xs @ fs)" "s_live s ?x" by simp_all
  from rebuild_free_elt_ok [OF Cons.prems(1) x] obtain n p f lo up where
    e: "rebuild_free_elt ?x s = Some (s\<lparr>s_next := n, s_prev := p, s_lower := lo, s_upper := up, freep := f\<rparr>)"
    "dlists (s\<lparr>s_next := n, s_prev := p, s_lower := lo, s_upper := up, freep := f\<rparr>) xs (fs @ [?x])"
    "\<forall>q. q \<noteq> ?x \<longrightarrow> lo q = s_lower s q \<and> up q = s_upper s q" by blast
  let ?s = "s\<lparr>s_next := n, s_prev := p, s_lower := lo, s_upper := up, freep := f\<rparr>"
  have j: "\<forall>j \<in> set js. baseArray ?s + j \<noteq> 0 \<and> baseArray ?s + j \<notin> set (xs @ fs @ [?x]) \<and> s_live ?s (baseArray ?s + j)"
    using Cons.prems(2,3) by auto
  from Cons.IH [OF e(2) _ j] Cons.prems(2) obtain n' p' f' lo' up' where
    r: "foldM (\<lambda>s i. rebuild_free_elt (baseArray s + i) s) ?s js
      = Some (s\<lparr>s_next := n', s_prev := p', s_lower := lo', s_upper := up', freep := f'\<rparr>)"
    "dlists (s\<lparr>s_next := n', s_prev := p', s_lower := lo', s_upper := up', freep := f'\<rparr>) xs
      ((fs @ [?x]) @ map ((+) (baseArray s)) js)"
    "ranges (s\<lparr>s_next := n', s_prev := p', s_lower := lo', s_upper := up', freep := f'\<rparr>) xs = ranges ?s xs" by auto
  have "q \<noteq> ?x" if "q \<in> set xs" for q using x(2) that by auto
  with e(3) have "ranges ?s xs = ranges s xs" by (intro ranges_cong) simp
  then have "ranges (s\<lparr>s_next := n', s_prev := p', s_lower := lo', s_upper := up', freep := f'\<rparr>) xs = ranges s xs"
    using r(3) by simp
  moreover have "foldM (\<lambda>s i. rebuild_free_elt (baseArray s + i) s) s (i # js)
      = Some (s\<lparr>s_next := n', s_prev := p', s_lower := lo', s_upper := up', freep := f'\<rparr>)" using r(1) e(1) by simp
  moreover have "dlists (s\<lparr>s_next := n', s_prev := p', s_lower := lo', s_upper := up', freep := f'\<rparr>) xs
      (fs @ map ((+) (baseArray s)) (i # js))" using r(2) by simp
  ultimately show ?case by blast
qed

text \<open>The elements that \<^verbatim>\<open>freeSeqRangeListElement\<close> receives one by one, while the sizes keep it from shrinking
  the array; \<open>adr\<close> is their address.\<close>

lemma shrink_not: "shrinkBy s = 0 \<or> arraySize s - listSize s \<le> shrinkBy s \<Longrightarrow> shrink_array s = Some s"
  by (auto simp: shrink_array_def)

lemma add_free_loop_ok:
  assumes "dlists s xs fs" and "distinct is" and "inj_on (adr s) (set is)"
    and "\<forall>i \<in> set is. adr s i \<noteq> 0 \<and> adr s i \<notin> set (xs @ fs) \<and> s_live s (adr s i) \<and> adr s i \<noteq> hintp s"
    and "shrinkBy s = 0 \<or> arraySize s - (listSize s - int (length is)) \<le> shrinkBy s"
    and "\<And>s s'. baseArray s' = baseArray s \<Longrightarrow> arraySize s' = arraySize s \<Longrightarrow> adr s' = adr s"
  shows "\<exists>n p f lo up s'. s' = s\<lparr>s_next := n, s_prev := p, freep := f, s_upper := up, s_lower := lo,
        listSize := listSize s - int (length is)\<rparr>
    \<and> foldM (\<lambda>s i. add_free_elt s (adr s i)) s is = Some s'
    \<and> dlists s' xs (fs @ map (adr s) is) \<and> ranges s' xs = ranges s xs"
  using assms(1-5)
proof (induction "is" arbitrary: s fs)
  case Nil
  then show ?case by (intro exI [of _ "s_next s"] exI [of _ "s_prev s"] exI [of _ "freep s"] exI [of _ "s_lower s"]
        exI [of _ "s_upper s"]) simp
next
  case (Cons i js)
  let ?x = "adr s i"
  from Cons.prems(4) have x: "?x \<noteq> 0" "?x \<notin> set (xs @ fs)" "s_live s ?x" "?x \<noteq> hintp s" by simp_all
  from free_unlinked [OF Cons.prems(1) x(1-3)] x(4) obtain n p f s1 where
    e: "s1 = s\<lparr>s_next := n, s_prev := p, freep := f, s_upper := (s_upper s)(?x := 0),
        s_lower := (s_lower s)(?x := 0), listSize := listSize s - 1\<rparr>"
    "add_free_elt s ?x = shrink_array s1" "dlists s1 xs (fs @ [?x])" by auto
  have "shrink_array s1 = Some s1" using Cons.prems(5) by (intro shrink_not) (auto simp: e(1))
  with e(2) have add: "add_free_elt s ?x = Some s1" by simp
  have adr: "adr s1 = adr s" by (rule assms(6)) (simp_all add: e(1))
  have j: "\<forall>j \<in> set js. adr s1 j \<noteq> 0 \<and> adr s1 j \<notin> set (xs @ fs @ [?x]) \<and> s_live s1 (adr s1 j) \<and> adr s1 j \<noteq> hintp s1"
  proof
    fix j assume "j \<in> set js"
    moreover from this have "adr s j \<noteq> ?x" using Cons.prems(2,3) by (auto simp: inj_on_def)
    ultimately show "adr s1 j \<noteq> 0 \<and> adr s1 j \<notin> set (xs @ fs @ [?x]) \<and> s_live s1 (adr s1 j) \<and> adr s1 j \<noteq> hintp s1"
      using Cons.prems(4) unfolding adr by (simp add: e(1))
  qed
  have inj: "inj_on (adr s1) (set js)" using Cons.prems(3) unfolding adr by auto
  have "shrinkBy s1 = 0 \<or> arraySize s1 - (listSize s1 - int (length js)) \<le> shrinkBy s1"
    using Cons.prems(5) by (auto simp: e(1))
  from Cons.IH [OF e(3) _ inj _ this] j Cons.prems(2) obtain n' p' f' lo' up' s' where
    r: "s' = s1\<lparr>s_next := n', s_prev := p', freep := f', s_upper := up', s_lower := lo',
        listSize := listSize s1 - int (length js)\<rparr>"
    "foldM (\<lambda>s i. add_free_elt s (adr s i)) s1 js = Some s'"
    "dlists s' xs ((fs @ [?x]) @ map (adr s) js)" "ranges s' xs = ranges s1 xs" unfolding adr by auto
  have "ranges s1 xs = ranges s xs" using x(2) by (intro ranges_cong) (auto simp: e(1))
  with r(4) have rg: "ranges s' xs = ranges s xs" by simp
  have s': "s' = s\<lparr>s_next := n', s_prev := p', freep := f', s_upper := up', s_lower := lo',
        listSize := listSize s - int (length (i # js))\<rparr>" using r(1) by (simp add: e(1))
  have "foldM (\<lambda>s i. add_free_elt s (adr s i)) s (i # js) = Some s'" using add r(2) by simp
  moreover have "dlists s' xs (fs @ map (adr s) (i # js))" using r(3) by simp
  ultimately show ?case using s' rg by blast
qed

subsection \<open>Shrinking\<close>

lemma alloc_ok:
  "alloc_elts n s = (if s_allocs s \<noteq> [] \<and> \<not> hd (s_allocs s) then (0, s\<lparr>s_allocs := tl (s_allocs s)\<rparr>)
     else (s_brk s, s\<lparr>s_allocs := tl (s_allocs s), s_brk := s_brk s + nat n,
             s_live := (\<lambda>q. s_live s q \<or> s_brk s \<le> q \<and> q < s_brk s + nat n)\<rparr>))"
  by (auto simp: alloc_elts_def Let_def split: list.splits bool.splits)

text \<open>The list after its elements were copied to the start of a new array at \<open>new\<close>, the old array still allocated.\<close>

lemma dlists_copied:
  assumes "copied new xs 0 s s'" and "new \<noteq> 0" and "\<And>k. k < length xs \<Longrightarrow> s_live s' (new + k)"
    and "headp s' = (if xs = [] then 0 else new)" and "freep s' = 0"
  shows "dlists s' [new..<new + length xs] []"
  using assms copied_ring [OF assms(1)] by (auto simp: dlists_def) (metis le_Suc_ex less_diff_conv2 nat_add_left_cancel_less add.commute)+

lemma stl_rep_data [simp]:
  "stl_rep (s\<lparr>s_allocs := bs\<rparr>) xs fs = stl_rep s xs fs"
  "stl_rep (s\<lparr>s_lower := lo\<rparr>) xs fs = stl_rep s xs fs"
  "stl_rep (s\<lparr>s_upper := up\<rparr>) xs fs = stl_rep s xs fs"
  unfolding stl_rep_def dlists_def array_ok_def by simp_all

lemma ranges_data [simp]:
  "ranges (s\<lparr>s_allocs := bs\<rparr>) xs = ranges s xs" "ranges (s\<lparr>hintp := h\<rparr>) xs = ranges s xs"
  "ranges (s\<lparr>arraySize := i\<rparr>) xs = ranges s xs"
  by (simp_all add: ranges_def)

text \<open>The new array: the list at its start, the rest free.\<close>

lemma rep_rebuilt:
  assumes "dlists s [new..<new + k] (map ((+) new) [k..<m])" and "k \<le> m" and "0 < m" and "0 < new"
    and "\<And>p. s_live s p \<longleftrightarrow> new \<le> p \<and> p < new + m" and "baseArray s = new" and "arraySize s = int m"
    and "new + m \<le> s_brk s" and "listSize s = int k" and "hintp s = 0 \<or> new \<le> hintp s \<and> hintp s < new + k"
    and "0 \<le> growBy s" and "0 \<le> shrinkBy s"
  shows "stl_rep s [new..<new + k] (map ((+) new) [k..<m])"
proof -
  have "(+) new ` {k..<m} = {new + k..<new + m}" by (simp add: add.commute)
  then have "set ([new..<new + k] @ map ((+) new) [k..<m]) = {new..<new + m}" using assms(2) by auto
  then show ?thesis using assms by (auto simp: stl_rep_def array_ok_def)
qed

lemma shrink_copy_ok:
  assumes rep: "stl_rep s xs fs" and new: "new = s_brk s" and s2: "s2 = s\<lparr>s_allocs := al, s_brk := new + m,
      s_live := (\<lambda>q. s_live s q \<or> new \<le> q \<and> q < new + m), freep := 0, hintp := 0\<rparr>" and m: "length xs \<le> m"
  shows "\<exists>n p lo up s3. s3 = s2\<lparr>headp := (if xs = [] then 0 else new), s_next := n, s_prev := p, s_lower := lo, s_upper := up\<rparr>
    \<and> (if headp s2 \<noteq> 0 then copy_loop (nat (listSize s2)) new 0 (headp s2) (s2\<lparr>headp := new\<rparr>) else Some s2) = Some s3
    \<and> dlists s3 [new..<new + length xs] [] \<and> ranges s3 [new..<new + length xs] = ranges s xs"
proof -
  have l: "dlists s xs fs" and a: "array_ok s xs fs" and n: "listSize s = int (length xs)"
    using rep by (auto simp: stl_rep_def)
  have hp: "headp s2 = first xs" "new \<noteq> 0" using l a by (auto simp: s2 dlists_def array_ok_def new)
  have below: "x < new" if "x \<in> set xs" for x
  proof -
    have "x \<in> {baseArray s..<baseArray s + nat (arraySize s)}" using a that unfolding array_ok_def by auto
    then show ?thesis using a by (auto simp: array_ok_def new)
  qed
  show ?thesis
  proof (cases "xs = []")
    case True
    then have "headp s2 = 0" using hp by simp
    then have eq: "s2 = s2\<lparr>headp := 0, s_next := s_next s2, s_prev := s_prev s2, s_lower := s_lower s2,
        s_upper := s_upper s2\<rparr>" by simp
    have "dlists s2 [new..<new + length xs] []" using True hp by (simp add: dlists_def s2)
    then show ?thesis using True hp eq
      by (intro exI [of _ "s_next s2"] exI [of _ "s_prev s2"] exI [of _ "s_lower s2"] exI [of _ "s_upper s2"]
          exI [of _ s2]) (simp add: ranges_def)
  next
    case False
    let ?s = "s2\<lparr>headp := new\<rparr>"
    have hd: "headp s2 = xs ! 0" "headp s2 \<noteq> 0"
      using dlists_headp [OF l False] False by (simp_all add: s2 hd_conv_nth)
    have pre: "copy_pre new xs ?s"
      using l n m by (auto simp: copy_pre_def s2 dlists_def dest: below)
    from copy_loop_ok [OF pre, of 0 "headp s2"] hd obtain n p lo up where
      c: "copy_loop (length xs) new 0 (headp s2) ?s = Some (?s\<lparr>s_next := n, s_prev := p, s_lower := lo, s_upper := up\<rparr>)"
      "copied new xs 0 ?s (?s\<lparr>s_next := n, s_prev := p, s_lower := lo, s_upper := up\<rparr>)" by auto
    let ?s3 = "?s\<lparr>s_next := n, s_prev := p, s_lower := lo, s_upper := up\<rparr>"
    have "dlists ?s3 [new..<new + length xs] []"
      using m False hp(2) by (intro dlists_copied [OF c(2)]) (auto simp: s2)
    moreover have "ranges ?s3 [new..<new + length xs] = ranges s xs"
      using copied_ranges [OF c(2)] by (simp add: ranges_def s2)
    moreover have "nat (listSize s2) = length xs" by (simp add: s2 n)
    ultimately show ?thesis using c(1) hd(2) False by (intro exI [of _ n] exI [of _ p] exI [of _ lo] exI [of _ up]) simp
  qed
qed

lemma shrink_into_run:
  assumes "(if headp s1 \<noteq> 0 then copy_loop (nat (listSize s1)) new 0 (headp s1) (s1\<lparr>headp := new\<rparr>) else Some s1) = Some s2"
    and "s1 = s\<lparr>freep := 0, hintp := 0\<rparr>" and "baseArray s2 \<noteq> 0"
  shows "shrink_into new s = rebuild_free ((free_elts (baseArray s2) (arraySize s2) s2)
    \<lparr>baseArray := new, arraySize := arraySize s2 - shrinkBy s2\<rparr>)"
proof -
  have "headp s1 = headp s" by (simp add: assms(2))
  with assms(1,3) show ?thesis unfolding shrink_into_def Let_def assms(2) [symmetric]
    by (cases "headp s = 0") (simp_all add: free_elts_def)
qed

lemma shrink_ok:
  assumes rep: "stl_rep s xs fs"
  shows "\<exists>s' xs' fs'. shrink_array s = Some s' \<and> stl_rep s' xs' fs' \<and> ranges s' xs' = ranges s xs
    \<and> growBy s' = growBy s \<and> shrinkBy s' = shrinkBy s"
proof (cases "shrinkBy s \<noteq> 0 \<and> arraySize s - listSize s > shrinkBy s")
  case False
  then have "shrink_array s = Some s" by (intro shrink_not) auto
  with rep show ?thesis by blast
next
  case True
  define m where "m = nat (arraySize s - shrinkBy s)"
  have a: "array_ok s xs fs" and n: "listSize s = int (length xs)" and k: "0 \<le> shrinkBy s" "0 \<le> growBy s"
    using rep by (auto simp: stl_rep_def)
  have m: "length xs \<le> m" "0 < m" "arraySize s - shrinkBy s = int m" "int m \<noteq> 0" "0 < s_brk s" "baseArray s \<noteq> 0"
    using True n k a by (auto simp: m_def array_ok_def)
  show ?thesis
  proof (cases "s_allocs s \<noteq> [] \<and> \<not> hd (s_allocs s)")
    case fail: True
    let ?s = "s\<lparr>s_allocs := tl (s_allocs s)\<rparr>"
    have "shrink_array s = Some ?s"
      using True m fail by (simp add: shrink_array_def alloc_ok)
    moreover have "stl_rep ?s xs fs" "ranges ?s xs = ranges s xs" "growBy ?s = growBy s" "shrinkBy ?s = shrinkBy s"
      using rep by simp_all
    ultimately show ?thesis by blast
  next
    case ok: False
    let ?new = "s_brk s" and ?al = "tl (s_allocs s)"
    define s2 where "s2 = s\<lparr>s_allocs := ?al, s_brk := ?new + m, s_live := (\<lambda>q. s_live s q \<or> ?new \<le> q \<and> q < ?new + m),
      freep := 0, hintp := 0\<rparr>"
    from shrink_copy_ok [OF rep refl s2_def m(1)] obtain nx p lo up s3 where
      s3: "s3 = s2\<lparr>headp := (if xs = [] then 0 else ?new), s_next := nx, s_prev := p, s_lower := lo, s_upper := up\<rparr>"
      "(if headp s2 \<noteq> 0 then copy_loop (nat (listSize s2)) ?new 0 (headp s2) (s2\<lparr>headp := ?new\<rparr>) else Some s2) = Some s3"
      "dlists s3 [?new..<?new + length xs] []" "ranges s3 [?new..<?new + length xs] = ranges s xs" by blast
    define s5 where "s5 = (free_elts (baseArray s) (arraySize s) s3)\<lparr>baseArray := ?new, arraySize := int m\<rparr>"
    have live: "s_live s5 q \<longleftrightarrow> ?new \<le> q \<and> q < ?new + m" for q
      using a by (auto simp: s5_def s3(1) s2_def free_elts_def array_ok_def)
    have run: "shrink_array s = rebuild_free s5"
    proof -
      let ?s1 = "s\<lparr>s_allocs := ?al, s_brk := ?new + m, s_live := (\<lambda>q. s_live s q \<or> ?new \<le> q \<and> q < ?new + m)\<rparr>"
      have b: "baseArray s3 = baseArray s" "arraySize s3 = arraySize s" "shrinkBy s3 = shrinkBy s"
        by (simp_all add: s3(1) s2_def)
      have "shrink_into ?new ?s1 = rebuild_free s5"
        using shrink_into_run [OF s3(2), of ?s1] m(3,6) unfolding b s5_def by (simp add: s2_def)
      moreover have "alloc_elts (int m) s = (?new, ?s1)" using ok by (auto simp: alloc_ok)
      ultimately show ?thesis using True m by (simp add: shrink_array_def n)
    qed
    have d5: "dlists s5 [?new..<?new + length xs] []"
      using s3(3) live m(1) by (auto simp: dlists_def s5_def free_elts_def)
    have sz: "nat (listSize s5) = length xs" "nat (arraySize s5) = m" "baseArray s5 = ?new"
      by (simp_all add: s5_def free_elts_def s3(1) s2_def n)
    have pre: "\<forall>i \<in> set [length xs..<m]. baseArray s5 + i \<noteq> 0 \<and> baseArray s5 + i \<notin> set ([?new..<?new + length xs] @ [])
        \<and> s_live s5 (baseArray s5 + i)" using m(5) by (auto simp: live sz)
    from rebuild_loop_ok [OF d5 distinct_upt pre] obtain n' p' f' lo' up' s' where
      r: "s' = s5\<lparr>s_next := n', s_prev := p', s_lower := lo', s_upper := up', freep := f'\<rparr>"
      "foldM (\<lambda>s i. rebuild_free_elt (baseArray s + i) s) s5 [length xs..<m] = Some s'"
      "dlists s' [?new..<?new + length xs] ([] @ map ((+) (baseArray s5)) [length xs..<m])"
      "ranges s' [?new..<?new + length xs] = ranges s5 [?new..<?new + length xs]"
      by (elim exE conjE) (rule that; assumption)
    have d': "dlists s' [?new..<?new + length xs] (map ((+) ?new) [length xs..<m])" using r(3) by (simp add: sz)
    have run': "rebuild_free s5 = Some s'" using r(2) by (simp add: rebuild_free_def sz)
    have "stl_rep s' [?new..<?new + length xs] (map ((+) ?new) [length xs..<m])"
      using m k by (intro rep_rebuilt d') (auto simp: r(1) live, auto simp: s5_def free_elts_def s3(1) s2_def n)
    moreover have "ranges s' [?new..<?new + length xs] = ranges s xs"
      using r(4) s3(4) ranges_cong [of "[?new..<?new + length xs]" s5 s3] by (simp add: s5_def free_elts_def)
    moreover have "growBy s' = growBy s" "shrinkBy s' = shrinkBy s"
      by (simp_all add: r(1) s5_def free_elts_def s3(1) s2_def)
    ultimately show ?thesis using run run' by metis
  qed
qed

lemma array_ok_cong:
  assumes "array_ok s xs fs" and "set (xs' @ fs') = set (xs @ fs)" and "s_live s' = s_live s"
    and "baseArray s' = baseArray s" and "arraySize s' = arraySize s" and "s_brk s' = s_brk s"
  shows "array_ok s' xs' fs'"
  using assms unfolding array_ok_def by simp

lemma free_rep:
  assumes rep: "stl_rep s (A @ x # B) fs"
  shows "\<exists>s' xs' fs'. freeSeqRangeListElement x s = Some s' \<and> stl_rep s' xs' fs' \<and> ranges s' xs' = ranges s (A @ B)
    \<and> growBy s' = growBy s \<and> shrinkBy s' = shrinkBy s
    \<and> (shrinkBy s = 0 \<longrightarrow> xs' = A @ B \<and> fs' = fs @ [x] \<and> (\<forall>q. q \<noteq> x \<longrightarrow> s_lower s' q = s_lower s q \<and> s_upper s' q = s_upper s q))"
proof -
  have l: "dlists s (A @ x # B) fs" using rep by (simp add: stl_rep_def)
  from free_linked [OF l] obtain n p h f s1 where
    s1: "s1 = s\<lparr>headp := h, s_next := n, s_prev := p, freep := f, s_upper := (s_upper s)(x := 0),
        s_lower := (s_lower s)(x := 0), listSize := listSize s - 1, hintp := (if hintp s = x then 0 else hintp s)\<rparr>"
    "freeSeqRangeListElement x s = shrink_array s1" "dlists s1 (A @ B) (fs @ [x])" by blast
  have a: "array_ok s1 (A @ B) (fs @ [x])"
    by (rule array_ok_cong [of s "A @ x # B" fs]) (use rep in \<open>auto simp: stl_rep_def s1(1)\<close>)
  have x: "x \<notin> set (A @ B)" using l by (auto simp: dlists_def)
  have rep1: "stl_rep s1 (A @ B) (fs @ [x])" using rep s1(3) a by (auto simp: stl_rep_def s1(1))
  have rg: "ranges s1 (A @ B) = ranges s (A @ B)" using x by (intro ranges_cong) (auto simp: s1(1))
  show ?thesis
  proof (cases "shrinkBy s = 0")
    case True
    then have "shrink_array s1 = Some s1" by (intro shrink_not) (simp add: s1(1))
    with rep1 rg s1(2) show ?thesis by (intro exI [of _ s1] exI [of _ "A @ B"] exI [of _ "fs @ [x]"]) (auto simp: s1(1))
  next
    case False
    from shrink_ok [OF rep1] rg s1(2) False show ?thesis by (auto simp: s1(1))
  qed
qed

subsection \<open>Taking an element off the free list\<close>

lemma pop_free_ok:
  assumes l: "dlists s xs (x # fs)"
  shows "\<exists>n p f. pop_free s = Some (x, s\<lparr>s_next := n, s_prev := p, freep := f\<rparr>)
    \<and> dlists (s\<lparr>s_next := n, s_prev := p, freep := f\<rparr>) xs fs"
proof (cases "fs = []")
  case True
  with l have x: "s_next s x = x" "s_prev s x = x" "s_live s x" "freep s = x" by (auto simp: dlists_def)
  let ?s = "s\<lparr>s_next := s_next s, s_prev := s_prev s, freep := 0\<rparr>"
  have "pop_free s = Some (x, ?s)" using x by (simp add: pop_free_def access_defs fun_upd_idem)
  moreover have "dlists ?s xs fs" using l True by (simp add: dlists_def)
  ultimately show ?thesis by blast
next
  case False
  have r: "ring (s_next s) (s_prev s) (fs @ [x])" "distinct (fs @ [x])"
    using l ring_rotate [of _ _ "[x]" fs] by (auto simp: dlists_def)
  note rm = ring_remove [OF r(1) False r(2)]
  have live: "s_live s x" "s_live s (last fs)" "s_live s (hd fs)" "freep s = x"
    using l False last_in_set [OF False] hd_in_set [OF False] by (auto simp: dlists_def)
  have ne: "last fs \<noteq> x" "hd fs \<noteq> x" using r(2) last_in_set [OF False] hd_in_set [OF False] by auto
  let ?n = "(s_next s)(last fs := hd fs)" and ?p = "(s_prev s)(hd fs := last fs)"
  let ?s = "s\<lparr>s_next := ?n, s_prev := ?p, freep := hd fs\<rparr>"
  have "pop_free s = Some (x, ?s)" using rm(2,3) live ne by (simp add: pop_free_def access_defs)
  moreover have "ring ?n ?p xs"
  proof -
    have "last fs \<notin> set xs" "hd fs \<notin> set xs"
      using l last_in_set [OF False] hd_in_set [OF False] by (auto simp: dlists_def)
    then have "ring ?n ?p xs = ring (s_next s) (s_prev s) xs" by (intro ring_cong) auto
    then show ?thesis using l by (simp add: dlists_def)
  qed
  ultimately have "pop_free s = Some (x, ?s) \<and> dlists ?s xs fs" using l False rm(1) by (auto simp: dlists_def)
  then show ?thesis by blast
qed

text \<open>Linking \<open>x\<close> into a list: the common step on rings.\<close>

lemma dlists_link:
  assumes l: "dlists s (A @ B) fs" and x: "x \<noteq> 0" "x \<notin> set ((A @ B) @ fs)" "s_live s x" and ne: "A @ B \<noteq> []"
    and s': "s_next s' = (s_next s)(last (B @ A) := x, x := hd (B @ A))"
      "s_prev s' = (s_prev s)(hd (B @ A) := x, x := last (B @ A))"
      "headp s' = first (A @ x # B)" "freep s' = freep s" "s_live s' = s_live s"
  shows "dlists s' (A @ x # B) fs"
proof -
  let ?zs = "B @ A"
  have "ring (s_next s) (s_prev s) ?zs" "distinct (?zs @ [x])" "?zs \<noteq> []"
    using l x ne ring_rotate [of _ _ A B] by (auto simp: dlists_def)
  then have "ring (s_next s') (s_prev s') (?zs @ [x])" unfolding s'(1,2) by (intro ring_insert)
  then have "ring (s_next s') (s_prev s') (A @ x # B)" using ring_rotate [of _ _ B "A @ [x]"] by simp
  moreover have "ring (s_next s') (s_prev s') fs = ring (s_next s) (s_prev s) fs"
  proof (rule ring_cong)
    fix y assume y: "y \<in> set fs"
    have "last ?zs \<in> set ?zs" "hd ?zs \<in> set ?zs" using ne by (metis append_is_Nil_conv last_in_set hd_in_set)+
    moreover have "y \<notin> set ?zs" "y \<noteq> x" using l y x by (auto simp: dlists_def)
    ultimately have "y \<noteq> last ?zs" "y \<noteq> hd ?zs" "y \<noteq> x" by blast+
    then show "s_next s' y = s_next s y \<and> s_prev s' y = s_prev s y" using s'(1,2) by simp
  qed
  ultimately show ?thesis using l x s'(3-5) by (auto simp: dlists_def)
qed

text \<open>\<open>A\<close> is what precedes the new element: empty, or up to \<open>prevp\<close>.\<close>

lemma link_elt_ok:
  assumes l: "dlists s (A @ B) fs" and x: "x \<noteq> 0" "x \<notin> set ((A @ B) @ fs)" "s_live s x"
    and prevp: "prevp = (if A = [] then 0 else last A)" and sz: "A @ B = [] \<Longrightarrow> listSize s = 0"
  shows "\<exists>n p h. link_elt x prevp s = Some (s\<lparr>s_next := n, s_prev := p, headp := h\<rparr>)
    \<and> dlists (s\<lparr>s_next := n, s_prev := p, headp := h\<rparr>) (A @ x # B) fs"
proof (cases "A @ B = []")
  case True
  let ?s = "s\<lparr>s_next := (s_next s)(x := x), s_prev := (s_prev s)(x := x), headp := x\<rparr>"
  have "link_elt x prevp s = Some ?s" using l x True sz prevp by (simp add: link_elt_def access_defs dlists_def)
  moreover have "ring (s_next ?s) (s_prev ?s) fs = ring (s_next s) (s_prev s) fs" using x by (intro ring_cong) auto
  ultimately have "link_elt x prevp s = Some ?s \<and> dlists ?s (A @ x # B) fs" using l x True by (simp add: dlists_def)
  then show ?thesis by blast
next
  case False
  let ?zs = "B @ A"
  let ?s = "s\<lparr>s_next := (s_next s)(last ?zs := x, x := hd ?zs), s_prev := (s_prev s)(hd ?zs := x, x := last ?zs),
    headp := first (A @ x # B)\<rparr>"
  have zs: "?zs \<noteq> []" using False by auto
  have mem: "last ?zs \<in> set (A @ B)" "hd ?zs \<in> set (A @ B)"
    using last_in_set [OF zs] hd_in_set [OF zs] by auto
  have live: "s_live s (last ?zs)" "s_live s (hd ?zs)" and nz: "last ?zs \<noteq> 0" "hd ?zs \<noteq> 0"
    and ne: "last ?zs \<noteq> x" "hd ?zs \<noteq> x" using l x mem unfolding dlists_def by (metis UnCI set_append)+
  have r: "ring (s_next s) (s_prev s) ?zs" using l ring_rotate [of _ _ A B] by (auto simp: dlists_def)
  note ends = ring_ends [OF r zs]
  have hp: "headp s = first (A @ B)" using l by (simp add: dlists_def)
  have "link_elt x prevp s = Some ?s"
  proof (cases "A = []")
    case True
    with hp False ends live nz ne x(3) prevp show ?thesis
      by (simp add: link_elt_def access_defs fun_upd_twist)
  next
    case A: False
    then have "last ?zs = last A" "last A \<noteq> 0" "s_next s (last A) = hd ?zs" using ends nz by simp_all
    with A hp live nz ne x(3) prevp show ?thesis
      by (simp add: link_elt_def access_defs)
  qed
  moreover have "dlists ?s (A @ x # B) fs" by (rule dlists_link [OF l x False]) simp_all
  ultimately show ?thesis by blast
qed

subsection \<open>Growing\<close>

lemma moved_hint:
  assumes "moved new xs 0 q q'" and "q = 0 \<or> q \<in> set xs" and "0 \<notin> set xs"
  shows "q' = 0 \<or> new \<le> q' \<and> q' < new + length xs"
  using assms by (auto simp: moved_def in_set_conv_nth)

lemma grow_array_run:
  assumes "grow_loop (nat (listSize s)) new 0 (headp s) prevp
      (s\<lparr>freep := 0, headp := (if listSize s > 0 then new else 0)\<rparr>) = Some (q, s1)"
    and "(if baseArray s1 \<noteq> 0 then free_elts (baseArray s1) (arraySize s1) s1 else s1) = s2"
    and "s2\<lparr>baseArray := new, listSize := listSize s2 + growBy s2\<rparr> = s3"
    and "foldM (\<lambda>s i. add_free_elt s (baseArray s + (nat (arraySize s) + i))) s3 [0..<nat (growBy s3)] = Some s4"
  shows "grow_array new prevp s = Some (q, s4\<lparr>arraySize := arraySize s4 + growBy s4\<rparr>)"
  unfolding grow_array_def Let_def assms(1) by (simp only: Option.bind.simps prod.case assms(2-4))

lemma grow_ok:
  assumes rep: "stl_rep s xs []" and new: "new = s_brk s" and g: "growBy s = int g" "0 < g"
    and s1: "s1 = s\<lparr>s_allocs := al, s_brk := new + (length xs + g),
      s_live := (\<lambda>q. s_live s q \<or> new \<le> q \<and> q < new + (length xs + g))\<rparr>"
  shows "\<exists>q s'. grow_array new prevp s1 = Some (q, s') \<and> moved new xs 0 prevp q
    \<and> stl_rep s' [new..<new + length xs] (map ((+) new) [length xs..<length xs + g])
    \<and> ranges s' [new..<new + length xs] = ranges s xs \<and> growBy s' = growBy s \<and> shrinkBy s' = shrinkBy s \<and> baseArray s' = new"
proof -
  have l: "dlists s xs []" and a: "array_ok s xs []" and n: "listSize s = int (length xs)" and k: "0 \<le> shrinkBy s"
    and h: "hintp s = 0 \<or> hintp s \<in> set xs" using rep by (auto simp: stl_rep_def)
  have sz: "arraySize s = int (length xs)" using array_size [OF a] l by (simp add: dlists_def)
  have new0: "0 < new" using a by (simp add: array_ok_def new)
  have below: "x < new" if "x \<in> set xs" for x
  proof -
    have "x \<in> {baseArray s..<baseArray s + nat (arraySize s)}" using a that unfolding array_ok_def by auto
    then show ?thesis using a by (auto simp: array_ok_def new)
  qed
  let ?s = "s1\<lparr>freep := 0, headp := (if listSize s1 > 0 then new else 0)\<rparr>"
  have pre: "copy_pre new xs ?s" using l n by (auto simp: copy_pre_def s1 dlists_def dest: below)
  have hd: "0 < length xs \<Longrightarrow> headp s1 = xs ! 0" using l by (simp add: s1 dlists_def hd_conv_nth)
  from grow_loop_ok [OF pre hd, of prevp] l obtain nx p lo up h' q where
    c: "grow_loop (length xs) new 0 (headp s1) prevp ?s
        = Some (q, ?s\<lparr>s_next := nx, s_prev := p, s_lower := lo, s_upper := up, hintp := h'\<rparr>)"
      "copied new xs 0 ?s (?s\<lparr>s_next := nx, s_prev := p, s_lower := lo, s_upper := up, hintp := h'\<rparr>)"
      "moved new xs 0 prevp q" "moved new xs 0 (hintp s) h'" by (auto simp: dlists_def s1)
  define s2 where "s2 = ?s\<lparr>s_next := nx, s_prev := p, s_lower := lo, s_upper := up, hintp := h'\<rparr>"
  define s3 where "s3 = (if baseArray s2 \<noteq> 0 then free_elts (baseArray s2) (arraySize s2) s2 else s2)
    \<lparr>baseArray := new, listSize := int (length xs + g)\<rparr>"
  have live: "s_live s3 x \<longleftrightarrow> new \<le> x \<and> x < new + (length xs + g)" for x
    using a by (auto simp: s3_def s2_def s1 free_elts_def array_ok_def new)
  have sel: "s_next s3 = nx" "s_prev s3 = p" "s_lower s3 = lo" "s_upper s3 = up" "hintp s3 = h'" "freep s3 = 0"
    "headp s3 = (if xs = [] then 0 else new)" "baseArray s3 = new" "arraySize s3 = int (length xs)"
    "listSize s3 = int (length xs + g)" "growBy s3 = int g" "shrinkBy s3 = shrinkBy s" "s_brk s3 = new + (length xs + g)"
    by (simp_all add: s3_def s2_def s1 free_elts_def sz n g)
  have cp: "copied new xs 0 ?s s3" using c(2) by (simp add: copied_def sel)
  have d3: "dlists s3 [new..<new + length xs] []"
    using new0 by (intro dlists_copied [OF cp]) (auto simp: live sel)
  have rg: "ranges s3 [new..<new + length xs] = ranges s xs"
    using copied_ranges [OF cp] by (simp add: ranges_def s1)
  let ?adr = "\<lambda>(s :: stl) i. baseArray s + (nat (arraySize s) + i)"
  have hint: "h' = 0 \<or> new \<le> h' \<and> h' < new + length xs" using moved_hint [OF c(4) h] l by (simp add: dlists_def)
  have "inj_on (?adr s3) (set [0..<g])"
    "\<forall>i \<in> set [0..<g]. ?adr s3 i \<noteq> 0 \<and> ?adr s3 i \<notin> set ([new..<new + length xs] @ []) \<and> s_live s3 (?adr s3 i) \<and> ?adr s3 i \<noteq> hintp s3"
    "shrinkBy s3 = 0 \<or> arraySize s3 - (listSize s3 - int (length [0..<g])) \<le> shrinkBy s3"
    using new0 hint k by (auto simp: inj_on_def sel live)
  from add_free_loop_ok [where adr = ?adr, OF d3 distinct_upt this] obtain n' p' f' lo' up' s4 where
    s4: "s4 = s3\<lparr>s_next := n', s_prev := p', freep := f', s_upper := up', s_lower := lo',
        listSize := listSize s3 - int (length [0..<g])\<rparr>"
      "foldM (\<lambda>s i. add_free_elt s (?adr s i)) s3 [0..<g] = Some s4"
      "dlists s4 [new..<new + length xs] ([] @ map (?adr s3) [0..<g])"
      "ranges s4 [new..<new + length xs] = ranges s3 [new..<new + length xs]" by auto
  define s' where "s' = s4\<lparr>arraySize := arraySize s4 + growBy s4\<rparr>"
  have "map (?adr s3) [0..<g] = map ((+) new) [length xs..<length xs + g]"
    by (rule nth_equalityI) (simp_all add: sel)
  then have "dlists s' [new..<new + length xs] (map ((+) new) [length xs..<length xs + g])"
    using s4(3) by (simp add: s'_def dlists_def)
  then have "stl_rep s' [new..<new + length xs] (map ((+) new) [length xs..<length xs + g])"
    using g new0 k hint by (intro rep_rebuilt) (auto simp: s'_def s4(1) sel live)
  moreover have "grow_array new prevp s1 = Some (q, s')"
  proof -
    have "grow_loop (nat (listSize s1)) new 0 (headp s1) prevp ?s = Some (q, s2)" using c(1) by (simp add: s1 n s2_def)
    moreover define t where "t = (if baseArray s2 \<noteq> 0 then free_elts (baseArray s2) (arraySize s2) s2 else s2)"
    moreover have "t\<lparr>baseArray := new, listSize := listSize t + growBy t\<rparr> = s3"
      by (simp add: t_def s3_def s2_def s1 n g free_elts_def)
    moreover have "foldM (\<lambda>s i. add_free_elt s (?adr s i)) s3 [0..<nat (growBy s3)] = Some s4" using s4(2) by (simp add: sel)
    ultimately show ?thesis unfolding s'_def by (intro grow_array_run) simp_all
  qed
  moreover have "ranges s' [new..<new + length xs] = ranges s xs" using s4(4) rg by (simp add: s'_def)
  ultimately show ?thesis using c(3) by (auto simp: s'_def s4(1) sel g)
qed

subsection \<open>\<^verbatim>\<open>getSeqRangeListElement\<close>\<close>

lemma take_elt_ok:
  assumes rep: "stl_rep s (A @ B) (x # fs)" and prevp: "prevp = (if A = [] then 0 else last A)"
  shows "\<exists>n p f h s'. s' = s\<lparr>s_next := n, s_prev := p, freep := f, headp := h, listSize := listSize s + 1\<rparr>
    \<and> take_elt prevp s = Some (x, s') \<and> stl_rep s' (A @ x # B) fs"
proof -
  have l: "dlists s (A @ B) (x # fs)" and a: "array_ok s (A @ B) (x # fs)" using rep by (auto simp: stl_rep_def)
  obtain n p f where
    s1: "pop_free s = Some (x, s\<lparr>s_next := n, s_prev := p, freep := f\<rparr>)"
      "dlists (s\<lparr>s_next := n, s_prev := p, freep := f\<rparr>) (A @ B) fs" using pop_free_ok [OF l] by blast
  let ?s1 = "s\<lparr>s_next := n, s_prev := p, freep := f\<rparr>"
  have x: "x \<noteq> 0" "x \<notin> set ((A @ B) @ fs)" "s_live ?s1 x" using l by (auto simp: dlists_def)
  have "A @ B = [] \<Longrightarrow> listSize ?s1 = 0" using rep by (simp add: stl_rep_def)
  from link_elt_ok [OF s1(2) x prevp this] obtain n' p' h where
    s2: "link_elt x prevp ?s1 = Some (?s1\<lparr>s_next := n', s_prev := p', headp := h\<rparr>)"
      "dlists (?s1\<lparr>s_next := n', s_prev := p', headp := h\<rparr>) (A @ x # B) fs" by blast
  define s' where "s' = s\<lparr>s_next := n', s_prev := p', freep := f, headp := h, listSize := listSize s + 1\<rparr>"
  have "take_elt prevp s = Some (x, s')" using s1(1) s2(1) by (simp add: take_elt_def s'_def)
  moreover have "dlists s' (A @ x # B) fs" using s2(2) by (simp add: dlists_def s'_def)
  moreover have "array_ok s' (A @ x # B) fs"
    by (rule array_ok_cong [OF a]) (auto simp: s'_def)
  ultimately show ?thesis using rep by (auto simp: s'_def stl_rep_def)
qed

lemma stl_rep_free: "stl_rep s xs fs \<Longrightarrow> listSize s + 1 > arraySize s \<longleftrightarrow> fs = []"
  using array_size [of s xs fs] by (auto simp: stl_rep_def dlists_def)

text \<open>What a request for an element after the last of \<open>A\<close> leads to: it is refused only when no element is
  free and the array cannot grow.\<close>

definition got :: "nat list \<Rightarrow> nat list \<Rightarrow> nat list \<Rightarrow> stl \<Rightarrow> nat \<Rightarrow> stl \<Rightarrow> bool" where
  "got A B fs s x s' \<longleftrightarrow> growBy s' = growBy s \<and> shrinkBy s' = shrinkBy s \<and>
     (if x = 0 then fs = [] \<and> (growBy s = 0 \<or> s_allocs s \<noteq> [] \<and> \<not> hd (s_allocs s)) \<and> stl_rep s' (A @ B) fs
          \<and> ranges s' (A @ B) = ranges s (A @ B)
      else \<exists>A' B' fs'. stl_rep s' (A' @ x # B') fs' \<and> ranges s' A' = ranges s A \<and> ranges s' B' = ranges s B
          \<and> (if fs = [] then baseArray s' = s_brk s
             else A' = A \<and> B' = B \<and> s_lower s' = s_lower s \<and> s_upper s' = s_upper s))"

lemma moved_split:
  assumes m: "moved new (A @ B) 0 prevp q" and prevp: "prevp = (if A = [] then 0 else last A)" and "0 \<notin> set (A @ B)"
  shows "q = (if A = [] then 0 else last [new..<new + length A])"
proof (cases "A = []")
  case True
  with assms show ?thesis by (auto simp: moved_def)
next
  case False
  have "length A - 1 < length (A @ B)" using False by (cases A) auto
  moreover have "prevp = (A @ B) ! (length A - 1)" using prevp False by (simp add: nth_append last_conv_nth)
  ultimately have "q = new + (length A - 1)" using m unfolding moved_def by blast
  with False show ?thesis by (simp add: last_conv_nth)
qed

lemma ranges_append [simp]: "ranges s (xs @ ys) = ranges s xs @ ranges s ys"
  by (simp add: ranges_def)

lemma length_ranges [simp]: "length (ranges s xs) = length xs"
  by (simp add: ranges_def)

lemma get_ok:
  assumes rep: "stl_rep s (A @ B) fs" and prevp: "prevp = (if A = [] then 0 else last A)"
  shows "\<exists>x s'. getSeqRangeListElement prevp s = Some (x, s') \<and> got A B fs s x s'"
proof (cases fs)
  case (Cons f fs')
  from take_elt_ok [OF rep [unfolded Cons] prevp] obtain n p fr h s' where
    s': "s' = s\<lparr>s_next := n, s_prev := p, freep := fr, headp := h, listSize := listSize s + 1\<rparr>"
      "take_elt prevp s = Some (f, s')" "stl_rep s' (A @ f # B) fs'" by blast
  have "getSeqRangeListElement prevp s = Some (f, s')"
    using s'(2) stl_rep_free [OF rep] Cons by (auto simp: getSeqRangeListElement_def)
  moreover have "f \<noteq> 0" using rep Cons by (auto simp: stl_rep_def dlists_def)
  ultimately show ?thesis using s'(3) Cons by (auto simp: got_def s'(1) ranges_def)
next
  case Nil
  have full: "listSize s + 1 > arraySize s" using stl_rep_free [OF rep] Nil by simp
  have ao: "array_ok s (A @ B) fs" "distinct ((A @ B) @ fs)" "0 \<le> growBy s" using rep by (simp_all add: stl_rep_def dlists_def)
  have a: "arraySize s = int (length (A @ B))" "0 < s_brk s" "0 \<le> growBy s"
    using array_size [OF ao(1,2)] ao(1,3) Nil by (simp_all add: array_ok_def)
  show ?thesis
  proof (cases "growBy s = 0 \<or> s_allocs s \<noteq> [] \<and> \<not> hd (s_allocs s)")
    case True
    let ?s = "if growBy s = 0 then s else s\<lparr>s_allocs := tl (s_allocs s)\<rparr>"
    have "getSeqRangeListElement prevp s = Some (0, ?s)"
      using full True by (cases "growBy s = 0") (simp_all add: getSeqRangeListElement_def alloc_ok)
    moreover have "got A B fs s 0 ?s"
      using rep Nil True by (cases "growBy s = 0") (simp_all add: got_def del: ranges_append)
    ultimately show ?thesis by blast
  next
    case False
    obtain g where g: "growBy s = int g" using a(3) nonneg_int_cases by blast
    with False have g0: "0 < g" by auto
    let ?new = "s_brk s" and ?m = "length (A @ B) + g"
    let ?s1 = "s\<lparr>s_allocs := tl (s_allocs s), s_brk := ?new + ?m, s_live := (\<lambda>q. s_live s q \<or> ?new \<le> q \<and> q < ?new + ?m)\<rparr>"
    from grow_ok [OF rep [unfolded Nil] refl g g0 refl, of prevp] obtain q s2 where
      s2: "grow_array ?new prevp ?s1 = Some (q, s2)" "moved ?new (A @ B) 0 prevp q"
        "stl_rep s2 [?new..<?new + length (A @ B)] (map ((+) ?new) [length (A @ B)..<?m])"
        "ranges s2 [?new..<?new + length (A @ B)] = ranges s (A @ B)" "growBy s2 = growBy s" "shrinkBy s2 = shrinkBy s"
        "baseArray s2 = ?new" by blast
    define A' B' where "A' = [?new..<?new + length A]" and "B' = [?new + length A..<?new + length (A @ B)]"
    have split: "[?new..<?new + length (A @ B)] = A' @ B'"
      using upt_add_eq_append [of ?new "?new + length A" "length B"] by (simp add: A'_def B'_def add.assoc)
    have rg: "ranges s2 A' = ranges s A" "ranges s2 B' = ranges s B"
      using s2(4) unfolding split by (simp_all add: A'_def)
    have q: "q = (if A' = [] then 0 else last A')"
      using moved_split [OF s2(2) prevp] rep by (simp add: A'_def stl_rep_def dlists_def)
    obtain f fs' where fr: "map ((+) ?new) [length (A @ B)..<?m] = f # fs'"
      using g0 by (cases "map ((+) ?new) [length (A @ B)..<?m]") auto
    from take_elt_ok [OF s2(3) [unfolded split fr] q] obtain n p fe h s' where
      s': "s' = s2\<lparr>s_next := n, s_prev := p, freep := fe, headp := h, listSize := listSize s2 + 1\<rparr>"
        "take_elt q s2 = Some (f, s')" "stl_rep s' (A' @ f # B') fs'" by blast
    have m: "nat (arraySize s + growBy s) = ?m" by (simp add: a g)
    have "\<not> (s_allocs s \<noteq> [] \<and> \<not> hd (s_allocs s))" using False by blast
    then have "alloc_elts (arraySize s + growBy s) s = (?new, ?s1)" unfolding alloc_ok m by (rule if_not_P)
    then have "getSeqRangeListElement prevp s = Some (f, s')"
      using full False s2(1) s'(2) a(2) by (simp add: getSeqRangeListElement_def)
    moreover have "f \<noteq> 0" using s'(3) by (auto simp: stl_rep_def dlists_def)
    moreover have "ranges s' A' = ranges s A" "ranges s' B' = ranges s B" using rg by (simp_all add: s'(1) ranges_def)
    ultimately have "got A B fs s f s'" using s'(3) Nil s2(5-7) by (auto simp: got_def s'(1))
    then show ?thesis using \<open>getSeqRangeListElement prevp s = Some (f, s')\<close> by blast
  qed
qed

end
