(* ===== verification/Seq_Search.thy ===== *)
theory Seq_Search
  imports Seq_Array
begin

section \<open>Searching\<close>

text \<open>
  From any start the two searches end, and they find the element nearest to the number: along the list the
  lower search first goes up, or down, and never turns back.
\<close>

lemma dlists_nth:
  assumes "dlists s xs fs" and "i < length xs"
  shows "get_lower (xs ! i) s = Some (fst (ranges s xs ! i))" "get_upper (xs ! i) s = Some (snd (ranges s xs ! i))"
    "get_next (xs ! i) s = Some (if Suc i = length xs then xs ! 0 else xs ! Suc i)"
    "0 < i \<Longrightarrow> get_prev (xs ! i) s = Some (xs ! (i - 1))" "headp s = xs ! 0" "xs ! i \<noteq> 0"
    "j < length xs \<Longrightarrow> xs ! i = xs ! j \<longleftrightarrow> i = j"
proof -
  have ne: "xs \<noteq> []" and mem: "xs ! i \<in> set xs" and live: "s_live s (xs ! i)" and r: "ring (s_next s) (s_prev s) xs"
    using assms by (auto simp: dlists_def)
  show "get_lower (xs ! i) s = Some (fst (ranges s xs ! i))" "get_upper (xs ! i) s = Some (snd (ranges s xs ! i))"
    using assms(2) live by (simp_all add: access_defs ranges_def)
  show "get_next (xs ! i) s = Some (if Suc i = length xs then xs ! 0 else xs ! Suc i)"
  proof (cases "Suc i = length xs")
    case True
    then have "xs ! i = last xs" by (metis diff_Suc_1 last_conv_nth ne)
    with True show ?thesis using ring_ends(1) [OF r ne] live ne by (simp add: access_defs hd_conv_nth)
  next
    case False
    with assms(2) have "Suc i < length xs" by simp
    from ring_nth(1) [OF r this] live False show ?thesis by (simp add: access_defs)
  qed
  show "0 < i \<Longrightarrow> get_prev (xs ! i) s = Some (xs ! (i - 1))"
    using ring_nth(2) [OF r, of "i - 1"] assms(2) live by (simp add: access_defs)
  show "headp s = xs ! 0" using assms ne by (simp add: dlists_def hd_conv_nth)
  have "0 \<notin> set xs" using assms by (simp add: dlists_def)
  with mem show "xs ! i \<noteq> 0" by metis
  show "j < length xs \<Longrightarrow> xs ! i = xs ! j \<longleftrightarrow> i = j" using assms by (simp add: dlists_def nth_eq_iff_index_eq)
qed

lemma lower_up:
  assumes l: "dlists s xs fs" and "j \<le> i" and "i < length xs" and "fst (ranges s xs ! i) \<le> q"
  shows "\<exists>k. lower_loop q (xs ! j) (xs ! i) s = Some (xs ! k) \<and> near_lower q (ranges s xs) k"
  using assms(2-)
proof (induction "length xs - i" arbitrary: i)
  case (Suc m)
  note p = dlists_nth [OF l Suc.prems(2)]
  show ?case
  proof (cases "Suc i = length xs")
    case True
    then have "lower_loop q (xs ! j) (xs ! i) s = Some (xs ! i)"
      using Suc.prems p by (subst lower_loop.simps) simp
    with True Suc.prems show ?thesis by (auto simp: near_lower_def)
  next
    case False
    then have i: "Suc i < length xs" using Suc.prems by simp
    note p' = dlists_nth [OF l i]
    have ne: "xs ! Suc i \<noteq> xs ! 0" using p'(7) [of 0] i by (metis Suc_lessD Suc_neq_Zero less_trans_Suc zero_less_Suc)
    have nj: "xs ! Suc i \<noteq> xs ! j" using p'(7) [of j] Suc.prems by simp
    show ?thesis
    proof (cases "q < fst (ranges s xs ! Suc i)")
      case True
      then have "lower_loop q (xs ! j) (xs ! i) s = Some (xs ! i)"
        using Suc.prems p p' False ne by (subst lower_loop.simps) simp
      with True Suc.prems show ?thesis by (auto simp: near_lower_def)
    next
      case up: False
      then have "lower_loop q (xs ! j) (xs ! i) s = lower_loop q (xs ! j) (xs ! Suc i) s"
        using Suc.prems p p' False ne nj by (subst lower_loop.simps) simp
      with Suc.hyps(1) [of "Suc i"] Suc.hyps(2) Suc.prems i up show ?thesis by simp
    qed
  qed
qed simp

lemma lower_down:
  assumes l: "dlists s xs fs" and sep: "sep (ranges s xs)" and "i \<le> j" and "j < length xs" and "q < fst (ranges s xs ! i)"
  shows "\<exists>k. lower_loop q (xs ! j) (xs ! i) s = Some (xs ! k) \<and> near_lower q (ranges s xs) k"
  using assms(3-)
proof (induction i)
  case 0
  then have "0 < length xs" by linarith
  note p = dlists_nth [OF l this]
  have "\<not> fst (ranges s xs ! 0) \<le> q" using 0 by simp
  then have "lower_loop q (xs ! j) (xs ! 0) s = Some (xs ! 0)" using p(1,5) by (subst lower_loop.simps) simp
  moreover have "near_lower q (ranges s xs) 0"
    using 0 sep_nth_less [OF sep, of 0 1] by (auto simp: near_lower_def range_arith)
  ultimately show ?case by blast
next
  case (Suc i)
  then have i: "Suc i < length xs" "i < length xs" by simp_all
  note p = dlists_nth [OF l i(1)] and p' = dlists_nth [OF l i(2)]
  have ne: "xs ! Suc i \<noteq> xs ! 0" "xs ! i \<noteq> xs ! j"
    using p(7) [of 0] p'(7) [of j] i Suc.prems by (metis Suc_neq_Zero gr_implies_not0 gr0I, simp)
  have "\<not> fst (ranges s xs ! Suc i) \<le> q" using Suc.prems by simp
  then have step: "lower_loop q (xs ! j) (xs ! Suc i) s = lower_loop q (xs ! j) (xs ! i) s"
    using p(1,4,5) ne by (subst lower_loop.simps) simp
  show ?case
  proof (cases "q < fst (ranges s xs ! i)")
    case True
    with Suc step show ?thesis by simp
  next
    case False
    then have "fst (ranges s xs ! i) \<le> q" by (simp add: not_less)
    moreover from this have "lower_loop q (xs ! j) (xs ! i) s = Some (xs ! i)"
      using p(1) p'(1,3,5) ne i Suc.prems by (subst lower_loop.simps) simp
    ultimately show ?thesis using step Suc.prems i by (auto simp: near_lower_def)
  qed
qed

lemma upper_up:
  assumes l: "dlists s xs fs" and "j \<le> i" and "i < length xs" and "0 < i \<Longrightarrow> snd (ranges s xs ! (i - 1)) < q"
  shows "\<exists>k. upper_loop q (xs ! j) (xs ! i) s = Some (xs ! k) \<and> near_upper q (ranges s xs) k"
  using assms(2-)
proof (induction "length xs - i" arbitrary: i)
  case (Suc m)
  note p = dlists_nth [OF l Suc.prems(2)]
  show ?case
  proof (cases "q \<le> snd (ranges s xs ! i)")
    case True
    have "upper_loop q (xs ! j) (xs ! i) s = Some (xs ! i)"
    proof (cases "i = 0")
      case True
      then show ?thesis using \<open>q \<le> _\<close> p by (subst upper_loop.simps) simp
    next
      case False
      then have "i - 1 < length xs" using Suc.prems by simp
      note p' = dlists_nth [OF l this]
      show ?thesis using \<open>q \<le> _\<close> p p' False Suc.prems by (subst upper_loop.simps) simp
    qed
    with True Suc.prems show ?thesis by (auto simp: near_upper_def)
  next
    case False
    show ?thesis
    proof (cases "Suc i = length xs")
      case True
      then have "upper_loop q (xs ! j) (xs ! i) s = Some (xs ! i)" using False p by (subst upper_loop.simps) simp
      with True False Suc.prems show ?thesis by (auto simp: near_upper_def)
    next
      case more: False
      then have i: "Suc i < length xs" using Suc.prems by simp
      note p' = dlists_nth [OF l i]
      have ne: "xs ! Suc i \<noteq> xs ! 0" using p'(7) [of 0] i by (metis Suc_lessD Suc_neq_Zero less_trans_Suc zero_less_Suc)
      have nj: "xs ! Suc i \<noteq> xs ! j" using p'(7) [of j] Suc.prems by simp
      have "upper_loop q (xs ! j) (xs ! i) s = upper_loop q (xs ! j) (xs ! Suc i) s"
        using False more p p' ne nj by (subst upper_loop.simps) simp
      with Suc.hyps(1) [of "Suc i"] Suc.hyps(2) Suc.prems i False show ?thesis by (simp add: not_le)
    qed
  qed
qed simp

lemma upper_down:
  assumes l: "dlists s xs fs" and "i \<le> j" and "j < length xs" and "q \<le> snd (ranges s xs ! i)"
  shows "\<exists>k. upper_loop q (xs ! j) (xs ! i) s = Some (xs ! k) \<and> near_upper q (ranges s xs) k"
  using assms(2-)
proof (induction i)
  case 0
  then have "0 < length xs" by linarith
  note p = dlists_nth [OF l this]
  have "upper_loop q (xs ! j) (xs ! 0) s = Some (xs ! 0)" using p 0 by (subst upper_loop.simps) simp
  moreover have "near_upper q (ranges s xs) 0" using 0 by (auto simp: near_upper_def)
  ultimately show ?case by blast
next
  case (Suc i)
  then have i: "Suc i < length xs" "i < length xs" by simp_all
  note p = dlists_nth [OF l i(1)] and p' = dlists_nth [OF l i(2)]
  have ne: "xs ! Suc i \<noteq> xs ! 0" "xs ! i \<noteq> xs ! j"
    using p(7) [of 0] p'(7) [of j] i Suc.prems by (metis Suc_neq_Zero gr_implies_not0 gr0I, simp)
  show ?case
  proof (cases "snd (ranges s xs ! i) < q")
    case True
    then have "upper_loop q (xs ! j) (xs ! Suc i) s = Some (xs ! Suc i)"
      using p p' ne Suc.prems by (subst upper_loop.simps) simp
    with True Suc.prems i show ?thesis by (auto simp: near_upper_def)
  next
    case False
    then have "upper_loop q (xs ! j) (xs ! Suc i) s = upper_loop q (xs ! j) (xs ! i) s"
      using p p' ne Suc.prems by (subst upper_loop.simps) simp
    with Suc False show ?thesis by simp
  qed
qed

text \<open>The two searches of a well-formed list.\<close>

lemma find_lower_ok:
  assumes rep: "stl_rep s xs fs" and sep: "sep (ranges s xs)"
  shows "xs = [] \<Longrightarrow> findNearestLowerSeqRangeListElement q s = Some (0, s)"
    and "xs \<noteq> [] \<Longrightarrow> \<exists>k. findNearestLowerSeqRangeListElement q s = Some (xs ! k, s\<lparr>hintp := xs ! k\<rparr>)
      \<and> near_lower q (ranges s xs) k"
proof -
  have l: "dlists s xs fs" and n: "listSize s = int (length xs)" using rep by (auto simp: stl_rep_def)
  show "xs = [] \<Longrightarrow> findNearestLowerSeqRangeListElement q s = Some (0, s)"
    using n by (simp add: findNearestLowerSeqRangeListElement_def)
  assume ne: "xs \<noteq> []"
  let ?start = "if hintp s = 0 then headp s else hintp s"
  have "?start \<in> set xs" using rep dlists_headp [OF l ne] ne by (auto simp: stl_rep_def)
  then obtain j where j: "j < length xs" "?start = xs ! j" by (auto simp: in_set_conv_nth)
  have "\<exists>k. lower_loop q (xs ! j) (xs ! j) s = Some (xs ! k) \<and> near_lower q (ranges s xs) k"
    using lower_up [OF l order_refl j(1)] lower_down [OF l sep order_refl j(1)] by (metis not_le)
  then show "\<exists>k. findNearestLowerSeqRangeListElement q s = Some (xs ! k, s\<lparr>hintp := xs ! k\<rparr>) \<and> near_lower q (ranges s xs) k"
    using n ne j(2) by (auto simp: findNearestLowerSeqRangeListElement_def Let_def)
qed

lemma find_upper_ok:
  assumes rep: "stl_rep s xs fs" and sep: "sep (ranges s xs)" and i: "i < length xs"
  shows "\<exists>k. findNearestUpperSeqRangeListElement (xs ! i) q s = Some (xs ! k) \<and> near_upper q (ranges s xs) k"
proof -
  have l: "dlists s xs fs" and n: "listSize s = int (length xs)" using rep by (auto simp: stl_rep_def)
  have "\<exists>k. upper_loop q (xs ! i) (xs ! i) s = Some (xs ! k) \<and> near_upper q (ranges s xs) k"
  proof (cases "q \<le> snd (ranges s xs ! i)")
    case True
    from upper_down [OF l order_refl i True] show ?thesis .
  next
    case False
    have "snd (ranges s xs ! (i - 1)) < q" if "0 < i"
      using sep_nth_less [OF sep, of "i - 1" i] that i False by (auto simp: range_arith)
    from upper_up [OF l order_refl i this] show ?thesis .
  qed
  moreover have "xs \<noteq> []" "xs ! i \<noteq> 0" using i dlists_nth(6) [OF l i] by auto
  ultimately show ?thesis using n by (simp add: findNearestUpperSeqRangeListElement_def Let_def)
qed

lemma stl_rep_hint: "stl_rep s xs fs \<Longrightarrow> h = 0 \<or> h \<in> set xs \<Longrightarrow> stl_rep (s\<lparr>hintp := h\<rparr>) xs fs"
  unfolding stl_rep_def dlists_def array_ok_def by simp

end
