(* ===== verification/Seq_Ops.thy ===== *)
theory Seq_Ops
  imports Seq_Search
begin

section \<open>The operations on the represented ranges\<close>

text \<open>
  What each branch of \<^verbatim>\<open>record\<close>, \<^verbatim>\<open>recordIfNotRecorded\<close> and \<^verbatim>\<open>erase\<close> makes of the ranges, as a function on lists of
  ranges. An operation that needs an element may be refused; then the ranges are unchanged. Freeing an element
  can move the whole list to a smaller array, so that what is done after it with old addresses is only covered
  when the array does not shrink.
\<close>

definition stl_has :: "stl \<Rightarrow> range list \<Rightarrow> bool" where
  "stl_has s rs \<longleftrightarrow> (\<exists>xs fs. stl_rep s xs fs \<and> ranges s xs = rs)"

definition refused :: "stl \<Rightarrow> bool" where
  "refused s \<longleftrightarrow> listSize s = arraySize s \<and> (growBy s = 0 \<or> s_allocs s \<noteq> [] \<and> \<not> hd (s_allocs s))"

text \<open>The next request for an element moves the array: none is free, and the array can grow.\<close>

definition moves :: "stl \<Rightarrow> bool" where
  "moves s \<longleftrightarrow> listSize s = arraySize s \<and> \<not> refused s"

definition outcome :: "stl \<Rightarrow> range list \<Rightarrow> range list \<Rightarrow> bool \<Rightarrow> stl \<Rightarrow> bool" where
  "outcome s rs rs' ok s' \<longleftrightarrow> growBy s' = growBy s \<and> shrinkBy s' = shrinkBy s
     \<and> (if ok then stl_has s' rs' else stl_has s' rs \<and> refused s)"

lemma rep_live: "stl_rep s xs fs \<Longrightarrow> x \<in> set xs \<Longrightarrow> s_live s x \<and> x \<noteq> 0"
  by (auto simp: stl_rep_def dlists_def)

lemma ranges_upd [simp]:
  "x \<notin> set xs \<Longrightarrow> ranges (s\<lparr>s_upper := (s_upper s)(x := v)\<rparr>) xs = ranges s xs"
  "x \<notin> set xs \<Longrightarrow> ranges (s\<lparr>s_lower := (s_lower s)(x := v)\<rparr>) xs = ranges s xs"
  "x \<notin> set xs \<Longrightarrow> ranges (s\<lparr>s_lower := (s_lower s)(x := v), s_upper := (s_upper s)(x := w)\<rparr>) xs = ranges s xs"
  "x \<notin> set xs \<Longrightarrow> ranges (s\<lparr>s_upper := (s_upper s)(x := w), s_lower := (s_lower s)(x := v)\<rparr>) xs = ranges s xs"
  by (auto simp: ranges_def)

text \<open>An assignment under a condition, as one that may leave the old value.\<close>

lemma set_upper_if: "s_live s x \<Longrightarrow> s_upper s x = b \<Longrightarrow>
    (if b < u then set_upper x u s else Some s) = Some (s\<lparr>s_upper := (s_upper s)(x := if b < u then u else b)\<rparr>)"
  by (auto simp: set_upper_def fun_upd_idem)

lemma set_lower_if: "s_live s x \<Longrightarrow> s_lower s x = a \<Longrightarrow>
    (if l < a then set_lower x l s else Some s) = Some (s\<lparr>s_lower := (s_lower s)(x := if l < a then l else a)\<rparr>)"
  by (auto simp: set_lower_def fun_upd_idem)

lemma ranges_Cons [simp]: "ranges s (x # xs) = (s_lower s x, s_upper s x) # ranges s xs" "ranges s [] = []"
  by (simp_all add: ranges_def)

lemma rep_distinct: "stl_rep s xs fs \<Longrightarrow> distinct xs"
  by (simp add: stl_rep_def dlists_def)

lemma rep_sizes: "stl_rep s xs fs \<Longrightarrow> listSize s = int (length xs) \<and> arraySize s = int (length xs) + int (length fs)"
  using array_size [of s xs fs] unfolding stl_rep_def dlists_def by (metis of_nat_add)

lemma outcomeI:
  "f = Some (True, s') \<Longrightarrow> growBy s' = growBy s \<Longrightarrow> shrinkBy s' = shrinkBy s \<Longrightarrow> stl_rep s' xs fs \<Longrightarrow> ranges s' xs = rs' \<Longrightarrow>
    \<exists>ok s'. f = Some (ok, s') \<and> outcome s rs rs' ok s'"
  unfolding outcome_def stl_has_def by (intro exI [of _ True] exI [of _ s']) auto

subsection \<open>Adding an element\<close>

lemma add_range_ok:
  assumes rep: "stl_rep s (A @ B) fs" and prevp: "prevp = (if A = [] then 0 else last A)"
  shows "\<exists>ok s'. add_range prevp l u s = Some (ok, s') \<and> outcome s (ranges s (A @ B)) (ranges s A @ (l, u) # ranges s B) ok s'"
proof -
  from get_ok [OF rep prevp] obtain x s1 where g: "getSeqRangeListElement prevp s = Some (x, s1)" "got A B fs s x s1" by blast
  have gb: "growBy s1 = growBy s" "shrinkBy s1 = shrinkBy s" using g(2) unfolding got_def by blast+
  show ?thesis
  proof (cases "x = 0")
    case True
    have fs: "fs = []" "growBy s = 0 \<or> s_allocs s \<noteq> [] \<and> \<not> hd (s_allocs s)" "stl_rep s1 (A @ B) fs"
      "ranges s1 (A @ B) = ranges s (A @ B)" using g(2) True by (auto simp: got_def)
    have "refused s" using rep_sizes [OF rep] fs(1,2) by (simp add: refused_def)
    moreover have "stl_has s1 (ranges s (A @ B))" using fs(3,4) unfolding stl_has_def by blast
    moreover have "add_range prevp l u s = Some (False, s1)" using g(1) True by (simp add: add_range_def)
    ultimately show ?thesis using gb by (auto simp: outcome_def)
  next
    case False
    with g(2) obtain A' B' fs' where r: "stl_rep s1 (A' @ x # B') fs'" "ranges s1 A' = ranges s A" "ranges s1 B' = ranges s B"
      by (auto simp: got_def)
    let ?s = "s1\<lparr>s_lower := (s_lower s1)(x := l), s_upper := (s_upper s1)(x := u)\<rparr>"
    have x: "s_live s1 x" "x \<notin> set A'" "x \<notin> set B'" using rep_live [OF r(1), of x] rep_distinct [OF r(1)] by auto
    have "add_range prevp l u s = Some (True, ?s)"
      using g(1) False x(1) by (simp add: add_range_def set_range_def access_defs)
    moreover have "ranges ?s (A' @ x # B') = ranges s A @ (l, u) # ranges s B"
      using x(2,3) r(2,3) by simp
    moreover have "stl_rep ?s (A' @ x # B') fs'" using r(1) by simp
    ultimately show ?thesis using gb by - (rule outcomeI; (assumption | simp))
  qed
qed

subsection \<open>Freeing a run of elements\<close>

lemma free_until_ok:
  assumes "stl_rep s (A @ ms @ y # B) fs" and "ms = [] \<or> shrinkBy s = 0"
  shows "\<exists>s' fs'. free_until y (hd (ms @ [y])) s = Some s' \<and> stl_rep s' (A @ y # B) fs'
    \<and> growBy s' = growBy s \<and> shrinkBy s' = shrinkBy s
    \<and> (\<forall>q. q \<notin> set ms \<longrightarrow> s_lower s' q = s_lower s q \<and> s_upper s' q = s_upper s q)"
  using assms
proof (induction ms arbitrary: s fs)
  case Nil
  then show ?case by (subst free_until.simps) auto
next
  case (Cons m ms)
  then have k: "shrinkBy s = 0" by simp
  have rep: "stl_rep s (A @ m # (ms @ y # B)) fs" using Cons.prems by simp
  from free_rep [OF rep] k obtain s1 where
    s1: "freeSeqRangeListElement m s = Some s1" "stl_rep s1 (A @ ms @ y # B) (fs @ [m])" "growBy s1 = growBy s" "shrinkBy s1 = shrinkBy s"
      "\<forall>q. q \<noteq> m \<longrightarrow> s_lower s1 q = s_lower s q \<and> s_upper s1 q = s_upper s q" by auto
  have nx: "get_next m s = Some (hd (ms @ [y]))"
  proof -
    have "(A @ m # ms @ y # B) ! length A = m" "length A < length (A @ m # ms @ y # B)"
      "(A @ m # ms @ y # B) ! Suc (length A) = hd (ms @ [y])" by (simp_all add: nth_append hd_append)
        (cases ms; simp)
    with dlists_nth(3) [of s "A @ m # ms @ y # B" fs "length A"] rep show ?thesis by (simp add: stl_rep_def)
  qed
  have ne: "m \<noteq> y" using rep_distinct [OF rep] by auto
  from Cons.IH [OF s1(2)] k s1(4) obtain s' fs' where
    r: "free_until y (hd (ms @ [y])) s1 = Some s'" "stl_rep s' (A @ y # B) fs'" "growBy s' = growBy s1" "shrinkBy s' = shrinkBy s1"
      "\<forall>q. q \<notin> set ms \<longrightarrow> s_lower s' q = s_lower s1 q \<and> s_upper s' q = s_upper s1 q" by auto
  have "free_until y (hd ((m # ms) @ [y])) s = Some s'"
    using ne nx s1(1) r(1) by (subst free_until.simps) simp
  with r s1 show ?case by auto
qed

subsection \<open>\<^verbatim>\<open>record\<close>\<close>

lemma rep_next:
  assumes "stl_rep s (A @ x # y # B) fs"
  shows "get_next x s = Some y"
  using dlists_nth(3) [of s "A @ x # y # B" fs "length A"] assms by (simp add: stl_rep_def nth_append)

lemma record_single_ok:
  assumes rep: "stl_rep s (A @ x # B) fs" and ab: "s_lower s x = a" "s_upper s x = b"
    and lu: "0 < l" "l \<le> u" "u < - 1" and A: "A \<noteq> [] \<Longrightarrow> a \<le> l"
  shows "\<exists>ok s'. record_single x l u s = Some (ok, s')
    \<and> outcome s (ranges s (A @ x # B)) (ranges s A @ rec1 l u (a, b) @ ranges s B) ok s'"
proof -
  have x: "s_live s x" "x \<notin> set A" "x \<notin> set B" using rep_live [OF rep, of x] rep_distinct [OF rep] by auto
  consider "u + 1 < a" | "\<not> u + 1 < a" "b < l - 1" | "\<not> u + 1 < a" "\<not> b < l - 1" by blast
  then show ?thesis
  proof cases
    case 1
    then have A0: "A = []" using A lu by (auto simp: range_arith)
    then have "x = headp s" using rep by (simp add: stl_rep_def dlists_def)
    then have "record_single x l u s = add_range 0 l u s" using 1 ab x(1) by (simp add: record_single_def access_defs)
    moreover have "stl_rep s ([] @ A @ x # B) fs" using rep by simp
    ultimately show ?thesis using add_range_ok [of s "[]" "A @ x # B" fs 0 l u] 1 ab A0 by simp
  next
    case 2
    then have "record_single x l u s = add_range x l u s" using ab x(1) by (simp add: record_single_def access_defs)
    moreover have "stl_rep s ((A @ [x]) @ B) fs" using rep by simp
    ultimately show ?thesis using add_range_ok [of s "A @ [x]" B fs x l u] 2 ab by simp
  next
    case 3
    let ?s = "s\<lparr>s_upper := (s_upper s)(x := if b < u then u else b), s_lower := (s_lower s)(x := if l < a then l else a)\<rparr>"
    have "record_single x l u s = Some (True, ?s)"
      using 3 ab x(1) by (simp add: record_single_def get_lower_def get_upper_def set_upper_if set_lower_if)
    moreover have "stl_rep ?s (A @ x # B) fs" using rep by simp
    moreover have "ranges ?s (A @ x # B) = ranges s A @ rec1 l u (a, b) @ ranges s B"
      using 3 ab x(2,3) by simp
    ultimately show ?thesis by - (rule outcomeI; (assumption | simp))
  qed
qed

lemma record_multi_ok:
  assumes rep: "stl_rep s (A @ x # ms @ y # B) fs" and ab: "s_lower s x = a" "s_upper s x = b"
    and cd: "s_lower s y = c" "s_upper s y = d" and ms: "ms = [] \<or> shrinkBy s = 0"
  shows "\<exists>ok s'. record_multi x y l u s = Some (ok, s')
    \<and> outcome s (ranges s (A @ x # ms @ y # B)) (ranges s A @ recm l u (a, b) (c, d) @ ranges s B) ok s'"
proof -
  have live: "s_live s x" "s_live s y" using rep_live [OF rep] by auto
  have dist: "x \<notin> set A" "x \<notin> set B" "x \<noteq> y" "x \<notin> set ms" "y \<notin> set A" "y \<notin> set B" "y \<notin> set ms"
    "set A \<inter> set ms = {}" "set B \<inter> set ms = {}" using rep_distinct [OF rep] by auto
  have nx: "get_next x s = Some (hd (ms @ [y]))" using rep_next [of s A x] rep by (cases ms) auto
  consider "l \<le> b + 1" | "\<not> l \<le> b + 1" "u + 1 < c" "ms = []" | m ms' where "\<not> l \<le> b + 1" "u + 1 < c" "ms = m # ms'"
    | "\<not> l \<le> b + 1" "\<not> u + 1 < c" by (cases ms) auto
  then show ?thesis
  proof cases
    case 1
    let ?s2 = "s\<lparr>s_upper := (s_upper s)(x := u), s_lower := (s_lower s)(x := if l < a then l else a)\<rparr>"
    have rep2: "stl_rep ?s2 ((A @ [x]) @ ms @ y # B) fs" using rep by simp
    from free_until_ok [OF rep2] ms obtain s3 fs3 where
      s3: "free_until y (hd (ms @ [y])) ?s2 = Some s3" "stl_rep s3 ((A @ [x]) @ y # B) fs3" "growBy s3 = growBy s" "shrinkBy s3 = shrinkBy s"
        "\<forall>q. q \<notin> set ms \<longrightarrow> s_lower s3 q = s_lower ?s2 q \<and> s_upper s3 q = s_upper ?s2 q" by auto
    have d3: "s_lower s3 x = (if l < a then l else a)" "s_upper s3 x = u" "s_lower s3 y = c" "s_upper s3 y = d"
      "ranges s3 A = ranges s A" "ranges s3 B = ranges s B" "s_live s3 x" "s_live s3 y"
      using s3(5) dist ab cd rep_live [OF s3(2)] by (auto simp: ranges_def)
    have run: "record_multi x y l u s = (if c \<le> u + 1 then do {
        s4 \<leftarrow> set_upper x (if u > d then u else d) s3; s5 \<leftarrow> freeSeqRangeListElement y s4; Some (True, s5) } else Some (True, s3))"
      using 1 live ab nx s3(1) d3
      by (simp add: record_multi_def get_upper_def get_lower_def get_next_def set_upper_def [of x u] set_lower_if)
    show ?thesis
    proof (cases "c \<le> u + 1")
      case True
      let ?s4 = "s3\<lparr>s_upper := (s_upper s3)(x := if u > d then u else d)\<rparr>"
      have "stl_rep ?s4 ((A @ [x]) @ y # B) fs3" using s3(2) by simp
      from free_rep [OF this] obtain s5 xs5 fs5 where
        s5: "freeSeqRangeListElement y ?s4 = Some s5" "stl_rep s5 xs5 fs5" "ranges s5 xs5 = ranges ?s4 ((A @ [x]) @ B)"
          "growBy s5 = growBy s" "shrinkBy s5 = shrinkBy s" using s3(3,4) by auto
      have "record_multi x y l u s = Some (True, s5)" using run True d3(7) s5(1) by (simp add: access_defs)
      moreover have "ranges s5 xs5 = ranges s A @ recm l u (a, b) (c, d) @ ranges s B"
        using s5(3) 1 True d3 dist by simp
      ultimately show ?thesis using s5(2,4,5) by - (rule outcomeI; (assumption | simp))
    next
      case False
      then have "ranges s3 ((A @ [x]) @ y # B) = ranges s A @ recm l u (a, b) (c, d) @ ranges s B" using 1 d3 by simp
      moreover have "record_multi x y l u s = Some (True, s3)" using run False by simp
      ultimately show ?thesis using s3(2-4) by - (rule outcomeI; (assumption | simp))
    qed
  next
    case 2
    then have "record_multi x y l u s = add_range x l u s"
      using live ab cd nx by (simp add: record_multi_def access_defs)
    moreover have "stl_rep s ((A @ [x]) @ y # B) fs" using rep 2 by simp
    ultimately show ?thesis using add_range_ok [of s "A @ [x]" "y # B" fs x l u] 2 ab cd by simp
  next
    case 3
    let ?s1 = "s\<lparr>s_lower := (s_lower s)(m := l), s_upper := (s_upper s)(m := u)\<rparr>"
    have m: "s_live s m" "m \<noteq> y" "m \<noteq> x" "m \<notin> set ms'" "m \<notin> set A" "m \<notin> set B"
      using rep_live [OF rep, of m] rep_distinct [OF rep] 3(3) by auto
    have rep1: "stl_rep ?s1 ((A @ [x, m]) @ ms' @ y # B) fs" using rep 3 by simp
    from free_until_ok [OF rep1] ms 3(3) obtain s3 fs3 where
      s3: "free_until y (hd (ms' @ [y])) ?s1 = Some s3" "stl_rep s3 ((A @ [x, m]) @ y # B) fs3" "growBy s3 = growBy s" "shrinkBy s3 = shrinkBy s"
        "\<forall>q. q \<notin> set ms' \<longrightarrow> s_lower s3 q = s_lower ?s1 q \<and> s_upper s3 q = s_upper ?s1 q" by auto
    have nm: "get_next m ?s1 = Some (hd (ms' @ [y]))"
      using rep_next [of ?s1 "A @ [x]" m] rep1 by (cases ms') auto
    have "record_multi x y l u s = Some (True, s3)"
      using 3 live ab cd nx m s3(1) nm by (simp add: record_multi_def set_range_def access_defs)
    moreover have "ranges s3 ((A @ [x, m]) @ y # B) = ranges s A @ recm l u (a, b) (c, d) @ ranges s B"
      using 3 s3(5) m dist ab cd by (auto simp: ranges_def)
    ultimately show ?thesis using s3(2-4) by - (rule outcomeI; (assumption | simp))
  next
    case 4
    let ?s2 = "s\<lparr>s_lower := (s_lower s)(y := l), s_upper := (s_upper s)(y := if d < u then u else d)\<rparr>"
    have rep2: "stl_rep ?s2 ((A @ [x]) @ ms @ y # B) fs" using rep by simp
    from free_until_ok [OF rep2] ms obtain s3 fs3 where
      s3: "free_until y (hd (ms @ [y])) ?s2 = Some s3" "stl_rep s3 ((A @ [x]) @ y # B) fs3" "growBy s3 = growBy s" "shrinkBy s3 = shrinkBy s"
        "\<forall>q. q \<notin> set ms \<longrightarrow> s_lower s3 q = s_lower ?s2 q \<and> s_upper s3 q = s_upper ?s2 q" by auto
    have "record_multi x y l u s = Some (True, s3)"
      using 4 live ab cd nx s3(1) dist(3)
      by (simp add: record_multi_def get_upper_def get_lower_def get_next_def set_lower_def set_upper_if)
    moreover have "ranges s3 ((A @ [x]) @ y # B) = ranges s A @ recm l u (a, b) (c, d) @ ranges s B"
      using 4 s3(5) dist ab cd by (auto simp: ranges_def)
    ultimately show ?thesis using s3(2-4) by - (rule outcomeI; (assumption | simp))
  qed
qed

end
