(* ===== verification/Seq_Erase.thy ===== *)
theory Seq_Erase
  imports Seq_Ops
begin

section \<open>Erasing, and recording what is not recorded\<close>

text \<open>
  The branches of \<^verbatim>\<open>erase\<close> and \<^verbatim>\<open>recordIfNotRecorded\<close>. Splitting a range goes on using the address of the element
  after the request for a new one, so it is covered when an element is free, or when the array never grows.
\<close>

subsection \<open>\<^verbatim>\<open>erase\<close>\<close>

lemma split_range_ok:
  assumes rep: "stl_rep s (A @ x # B) fs" and fs: "\<not> moves s" and b: "s_upper s x = b"
  shows "\<exists>ok s'. split_range x u s = Some (ok, s') \<and> growBy s' = growBy s \<and> shrinkBy s' = shrinkBy s
    \<and> (if ok then \<exists>t fs'. stl_rep s' (A @ x # t # B) fs' \<and> s_lower s' t = u + 1 \<and> s_upper s' t = b
          \<and> (\<forall>q. q \<noteq> t \<longrightarrow> s_lower s' q = s_lower s q \<and> s_upper s' q = s_upper s q)
       else refused s \<and> stl_has s' (ranges s (A @ x # B)))"
proof -
  have rep': "stl_rep s ((A @ [x]) @ B) fs" using rep by simp
  from get_ok [OF rep', of x] obtain t s1 where g: "getSeqRangeListElement x s = Some (t, s1)" "got (A @ [x]) B fs s t s1" by auto
  have gb: "growBy s1 = growBy s" "shrinkBy s1 = shrinkBy s" using g(2) unfolding got_def by blast+
  show ?thesis
  proof (cases "t = 0")
    case True
    have f: "fs = []" "growBy s = 0 \<or> s_allocs s \<noteq> [] \<and> \<not> hd (s_allocs s)" "stl_rep s1 ((A @ [x]) @ B) fs"
      "ranges s1 ((A @ [x]) @ B) = ranges s ((A @ [x]) @ B)" using g(2) True unfolding got_def by metis+
    have "refused s" using rep_sizes [OF rep] f(1,2) by (simp add: refused_def)
    moreover have "stl_has s1 (ranges s (A @ x # B))" using f(3,4) unfolding stl_has_def by auto
    moreover have "split_range x u s = Some (False, s1)" using g(1) True by (simp add: split_range_def)
    ultimately show ?thesis using gb by auto
  next
    case False
    have "fs \<noteq> []"
    proof
      assume f: "fs = []"
      then have full: "arraySize s = listSize s" "refused s" using rep_sizes [OF rep] fs by (simp_all add: moves_def)
      then have "getSeqRangeListElement x s = Some (0, if growBy s = 0 then s else s\<lparr>s_allocs := tl (s_allocs s)\<rparr>)"
        by (auto simp: getSeqRangeListElement_def refused_def alloc_ok)
      with g(1) False show False by simp
    qed
    with g(2) False obtain fs' where r: "stl_rep s1 ((A @ [x]) @ t # B) fs'" "s_lower s1 = s_lower s" "s_upper s1 = s_upper s"
      unfolding got_def by auto
    let ?s = "s1\<lparr>s_upper := (s_upper s)(t := b), s_lower := (s_lower s)(t := u + 1)\<rparr>"
    have live: "s_live s1 x" "s_live s1 t" using rep_live [OF r(1)] by auto
    have "split_range x u s = Some (True, ?s)"
      using g(1) False live b r(2,3) by (simp add: split_range_def access_defs)
    moreover have "stl_rep ?s (A @ x # t # B) fs'" using r(1) by simp
    ultimately show ?thesis using gb by (intro exI [of _ True] exI [of _ ?s]) (auto simp: r(2,3))
  qed
qed

text \<open>When the array has to move, the pointer to the element that is split is stale afterwards.\<close>

lemma split_range_stale:
  assumes rep: "stl_rep s (A @ x # B) fs" and m: "moves s"
  shows "split_range x u s = None"
proof -
  have rep': "stl_rep s ((A @ [x]) @ B) fs" using rep by simp
  from get_ok [OF rep', of x] obtain t s1 where g: "getSeqRangeListElement x s = Some (t, s1)" "got (A @ [x]) B fs s t s1" by auto
  have fs: "fs = []" using m rep_sizes [OF rep] by (simp add: moves_def)
  have t: "t \<noteq> 0"
  proof
    assume "t = 0"
    with g(2) have "growBy s = 0 \<or> s_allocs s \<noteq> [] \<and> \<not> hd (s_allocs s)" unfolding got_def by metis
    with m show False by (auto simp: moves_def refused_def)
  qed
  with g(2) fs obtain A' B' fs' where r: "stl_rep s1 (A' @ t # B') fs'" "baseArray s1 = s_brk s" by (auto simp: got_def)
  have "array_ok s (A @ x # B) fs" "array_ok s1 (A' @ t # B') fs'" using rep r(1) by (simp_all add: stl_rep_def)
  moreover have "s_live s x" using rep_live [OF rep] by simp
  ultimately have "\<not> s_live s1 x" using r(2) unfolding array_ok_def by auto
  with g(1) t show ?thesis by (simp add: split_range_def get_upper_def)
qed

text \<open>The test at the end of \<open>erase_single\<close>: an element whose range has become empty is freed.\<close>

lemma drop_empty_ok:
  assumes rep: "stl_rep s (A @ x # B) fs" and ab: "s_lower s x = a" "s_upper s x = b"
    and kept: "ranges s A = rA" "ranges s B = rB" and s0: "growBy s = growBy s0" "shrinkBy s = shrinkBy s0"
    and rs': "rs' = rA @ (if b < a then [] else [(a, b)]) @ rB"
  shows "\<exists>ok s'. do { l' \<leftarrow> get_lower x s; u' \<leftarrow> get_upper x s;
      s2 \<leftarrow> (if u' < l' then freeSeqRangeListElement x s else Some s); Some (True, s2) } = Some (ok, s')
    \<and> outcome s0 rs rs' ok s'"
proof (cases "b < a")
  case True
  from free_rep [OF rep] obtain s' xs' fs' where
    f: "freeSeqRangeListElement x s = Some s'" "stl_rep s' xs' fs'" "ranges s' xs' = ranges s (A @ B)"
      "growBy s' = growBy s" "shrinkBy s' = shrinkBy s" by blast
  have "s_live s x" using rep_live [OF rep] by simp
  then have "do { l' \<leftarrow> get_lower x s; u' \<leftarrow> get_upper x s;
      s2 \<leftarrow> (if u' < l' then freeSeqRangeListElement x s else Some s); Some (True, s2) } = Some (True, s')"
    using True f(1) ab by (simp add: get_lower_def get_upper_def)
  moreover have "ranges s' xs' = rs'" using True f(3) kept rs' by simp
  ultimately show ?thesis using f(2,4,5) s0 by (intro outcomeI [where s' = s' and xs = xs' and fs = fs']) simp_all
next
  case False
  have "s_live s x" using rep_live [OF rep] by simp
  then have "do { l' \<leftarrow> get_lower x s; u' \<leftarrow> get_upper x s;
      s2 \<leftarrow> (if u' < l' then freeSeqRangeListElement x s else Some s); Some (True, s2) } = Some (True, s)"
    using False ab by (simp add: get_lower_def get_upper_def)
  moreover have "ranges s (A @ x # B) = rs'" using False ab kept rs' by simp
  ultimately show ?thesis using rep s0 by - (rule outcomeI; (assumption | simp))
qed

lemma erase_single_ok:
  assumes rep: "stl_rep s (A @ x # B) fs" and ab: "s_lower s x = a" "s_upper s x = b" "a \<le> b" "b < - 1"
    and lu: "0 < l" "l \<le> u" "u < - 1" and fs: "moves s \<Longrightarrow> \<not> (a \<le> l \<and> u < b)"
  shows "\<exists>ok s'. erase_single x l u s = Some (ok, s')
    \<and> outcome s (ranges s (A @ x # B)) (ranges s A @ era1 l u (a, b) @ ranges s B) ok s'"
proof -
  have x: "s_live s x" "x \<notin> set A" "x \<notin> set B" using rep_live [OF rep, of x] rep_distinct [OF rep] by auto
  let ?fin = "\<lambda>s. do { l' \<leftarrow> get_lower x s; u' \<leftarrow> get_upper x s;
      s2 \<leftarrow> (if u' < l' then freeSeqRangeListElement x s else Some s); Some (True, s2) }"
  consider "\<not> (a \<le> u \<and> l \<le> b)" | "a \<le> u" "l \<le> b" "l < a" | "a \<le> u" "l \<le> b" "\<not> l < a" "b < u"
    | "a \<le> u" "l \<le> b" "\<not> l < a" "u = b" | "a \<le> u" "l \<le> b" "\<not> l < a" "u < b" by fastforce
  then show ?thesis
  proof cases
    case 1
    then have "erase_single x l u s = Some (True, s)" using ab x(1) by (auto simp: erase_single_def access_defs)
    moreover have "ranges s (A @ x # B) = ranges s A @ era1 l u (a, b) @ ranges s B" using 1 ab by auto
    ultimately show ?thesis using rep by - (rule outcomeI; (assumption | simp))
  next
    case 2
    let ?s = "s\<lparr>s_lower := (s_lower s)(x := u + 1)\<rparr>"
    have "erase_single x l u s = ?fin ?s" using 2 ab x(1) by (simp add: erase_single_def access_defs)
    moreover have "stl_rep ?s (A @ x # B) fs" using rep by simp
    moreover have "era1 l u (a, b) = (if b < u + 1 then [] else [(u + 1, b)])" using 2 ab lu by (auto simp: range_arith)
    ultimately show ?thesis
      using drop_empty_ok [of ?s A x B fs "u + 1" b "ranges s A" "ranges s B" s] ab x(2,3) by simp
  next
    case 3
    let ?s = "s\<lparr>s_upper := (s_upper s)(x := l - 1)\<rparr>"
    have "erase_single x l u s = ?fin ?s" using 3 ab x(1) by (simp add: erase_single_def access_defs)
    moreover have "stl_rep ?s (A @ x # B) fs" using rep by simp
    moreover have "era1 l u (a, b) = (if l - 1 < a then [] else [(a, l - 1)])" using 3 ab lu by (auto simp: range_arith)
    ultimately show ?thesis
      using drop_empty_ok [of ?s A x B fs a "l - 1" "ranges s A" "ranges s B" s] ab x(2,3) by simp
  next
    case 4
    let ?s = "s\<lparr>s_upper := (s_upper s)(x := l - 1)\<rparr>"
    have "erase_single x l u s = ?fin ?s" using 4 ab x(1) by (simp add: erase_single_def access_defs)
    moreover have "stl_rep ?s (A @ x # B) fs" using rep by simp
    moreover have "era1 l u (a, b) = (if l - 1 < a then [] else [(a, l - 1)])" using 4 ab lu by (auto simp: range_arith)
    ultimately show ?thesis
      using drop_empty_ok [of ?s A x B fs a "l - 1" "ranges s A" "ranges s B" s] ab x(2,3) by simp
  next
    case 5
    then have "\<not> moves s" using fs by auto
    from split_range_ok [OF rep this ab(2)] obtain ok s1 where
      sp: "split_range x u s = Some (ok, s1)" "growBy s1 = growBy s" "shrinkBy s1 = shrinkBy s"
        "if ok then \<exists>t fs'. stl_rep s1 (A @ x # t # B) fs' \<and> s_lower s1 t = u + 1 \<and> s_upper s1 t = b
          \<and> (\<forall>q. q \<noteq> t \<longrightarrow> s_lower s1 q = s_lower s q \<and> s_upper s1 q = s_upper s q)
         else refused s \<and> stl_has s1 (ranges s (A @ x # B))" by blast
    have nb: "\<not> b < u" using 5(4) by auto
    show ?thesis
    proof (cases ok)
      case False
      then have "erase_single x l u s = Some (False, s1)" using 5 nb ab x(1) sp(1) by (simp add: erase_single_def access_defs)
      then show ?thesis using sp False by (auto simp: outcome_def)
    next
      case True
      with sp(4) obtain t fs' where t: "stl_rep s1 (A @ x # t # B) fs'" "s_lower s1 t = u + 1" "s_upper s1 t = b"
        "\<forall>q. q \<noteq> t \<longrightarrow> s_lower s1 q = s_lower s q \<and> s_upper s1 q = s_upper s q" by auto
      have d: "t \<notin> set A" "t \<notin> set B" "t \<noteq> x" "s_live s1 x" using rep_distinct [OF t(1)] rep_live [OF t(1), of x] by auto
      let ?s = "s1\<lparr>s_upper := (s_upper s1)(x := l - 1)\<rparr>"
      have "erase_single x l u s = ?fin ?s" using 5 nb ab x(1) sp(1) True d(4) by (simp add: erase_single_def access_defs)
      moreover have "stl_rep ?s (A @ x # t # B) fs'" using t(1) by simp
      moreover have "era1 l u (a, b) = (if l - 1 < a then [] else [(a, l - 1)]) @ [(u + 1, b)]"
        using 5 ab lu by (auto simp: range_arith)
      moreover have "ranges ?s A = ranges s A" "ranges ?s (t # B) = (u + 1, b) # ranges s B"
        using t(2-4) d x by (auto simp: ranges_def)
      ultimately show ?thesis
        using drop_empty_ok [of ?s A x "t # B" fs' a "l - 1" "ranges s A" "(u + 1, b) # ranges s B" s] t(4) ab d sp(2,3) by simp
    qed
  qed
qed

lemma erase_single_stale:
  assumes rep: "stl_rep s (A @ x # B) fs" and ab: "s_lower s x \<le> l" "l \<le> u" "u < s_upper s x" and m: "moves s"
  shows "erase_single x l u s = None"
proof -
  have x: "s_live s x" using rep_live [OF rep, of x] by simp
  have "s_lower s x \<le> u" "l \<le> s_upper s x" "\<not> s_upper s x < u" "\<not> l < s_lower s x" using ab by auto
  with x ab split_range_stale [OF rep m] show ?thesis by (simp add: erase_single_def access_defs)
qed

lemma erase_low_ok:
  assumes rep: "stl_rep s (A @ x # y # B) fs" and ab: "s_lower s x = a" "s_upper s x = b" and l: "0 < l"
    and k: "shrinkBy s = 0 \<or> \<not> l \<le> a"
  shows "\<exists>s' xs' fs'. erase_low x l s = Some s' \<and> growBy s' = growBy s \<and> shrinkBy s' = shrinkBy s
    \<and> stl_rep s' (xs' @ y # B) fs' \<and> s_lower s' y = s_lower s y \<and> s_upper s' y = s_upper s y \<and> ranges s' B = ranges s B
    \<and> ranges s' xs' = ranges s A @ (if l \<le> a then [] else if l \<le> b then [(a, l - 1)] else [(a, b)])"
proof -
  have x: "s_live s x" "x \<notin> set A" "x \<notin> set B" "x \<noteq> y" using rep_live [OF rep, of x] rep_distinct [OF rep] by auto
  have pl: "\<not> l \<le> a \<Longrightarrow> \<not> l - 1 < a" using l by (auto simp: range_arith)
  consider "l \<le> a" | "\<not> l \<le> a" "l \<le> b" | "\<not> l \<le> a" "\<not> l \<le> b" by blast
  then show ?thesis
  proof cases
    case 1
    with k free_rep [OF rep] obtain s2 where
      s2: "freeSeqRangeListElement x s = Some s2" "stl_rep s2 (A @ y # B) (fs @ [x])" "growBy s2 = growBy s" "shrinkBy s2 = shrinkBy s"
        "\<forall>q. q \<noteq> x \<longrightarrow> s_lower s2 q = s_lower s q \<and> s_upper s2 q = s_upper s q" by auto
    have "ranges s2 A = ranges s A" "ranges s2 B = ranges s B" using s2(5) x(2,3) by (intro ranges_cong; metis)+
    with 1 s2 x ab show ?thesis
      by (intro exI [of _ s2] exI [of _ A] exI [of _ "fs @ [x]"]) (simp add: erase_low_def get_lower_def get_upper_def)
  next
    case 2
    let ?s = "s\<lparr>s_upper := (s_upper s)(x := l - 1)\<rparr>"
    have "stl_rep ?s ((A @ [x]) @ y # B) fs" using rep by simp
    with 2 pl x ab show ?thesis
      by (intro exI [of _ ?s] exI [of _ "A @ [x]"] exI [of _ fs]) (simp add: erase_low_def access_defs)
  next
    case 3
    have "stl_rep s ((A @ [x]) @ y # B) fs" using rep by simp
    with 3 x ab show ?thesis
      by (intro exI [of _ s] exI [of _ "A @ [x]"] exI [of _ fs]) (simp add: erase_low_def access_defs)
  qed
qed

lemma erase_high_ok:
  assumes rep: "stl_rep s (A @ y # B) fs" and cd: "s_lower s y = c" "s_upper s y = d" "d < - 1" and u: "u < - 1"
  shows "\<exists>s' xs' fs'. erase_high y u s = Some s' \<and> growBy s' = growBy s \<and> shrinkBy s' = shrinkBy s \<and> stl_rep s' xs' fs'
    \<and> ranges s' xs' = ranges s A @ (if d \<le> u then [] else if c \<le> u then [(u + 1, d)] else [(c, d)]) @ ranges s B"
proof -
  have y: "s_live s y" "y \<notin> set A" "y \<notin> set B" using rep_live [OF rep, of y] rep_distinct [OF rep] by auto
  have pl: "\<not> d \<le> u \<Longrightarrow> \<not> d < u + 1" using u cd by (auto simp: range_arith)
  consider "d \<le> u" | "\<not> d \<le> u" "c \<le> u" | "\<not> d \<le> u" "\<not> c \<le> u" by blast
  then show ?thesis
  proof cases
    case 1
    from free_rep [OF rep] obtain s' xs' fs' where
      f: "freeSeqRangeListElement y s = Some s'" "stl_rep s' xs' fs'" "ranges s' xs' = ranges s (A @ B)"
        "growBy s' = growBy s" "shrinkBy s' = shrinkBy s" by blast
    with 1 y cd show ?thesis
      by (intro exI [of _ s'] exI [of _ xs'] exI [of _ fs']) (simp add: erase_high_def get_lower_def get_upper_def)
  next
    case 2
    let ?s = "s\<lparr>s_lower := (s_lower s)(y := u + 1)\<rparr>"
    have "stl_rep ?s (A @ y # B) fs" using rep by simp
    with 2 pl y cd show ?thesis
      by (intro exI [of _ ?s] exI [of _ "A @ y # B"] exI [of _ fs]) (simp add: erase_high_def access_defs)
  next
    case 3
    with rep y cd show ?thesis
      by (intro exI [of _ s] exI [of _ "A @ y # B"] exI [of _ fs]) (simp add: erase_high_def access_defs)
  qed
qed

lemma erase_multi_ok:
  assumes rep: "stl_rep s (A @ x # ms @ y # B) fs" and ab: "s_lower s x = a" "s_upper s x = b" "a \<le> b"
    and cd: "s_lower s y = c" "s_upper s y = d" "d < - 1" and lu: "0 < l" "u < - 1"
    and k: "shrinkBy s = 0 \<or> ms = [] \<and> b < l"
  shows "\<exists>s'. erase_multi x y l u s = Some s'
    \<and> outcome s (ranges s (A @ x # ms @ y # B)) (ranges s A @ eram l u (a, b) (c, d) @ ranges s B) True s'"
proof -
  have dist: "x \<notin> set ms" "y \<notin> set ms" "set A \<inter> set ms = {}" "set B \<inter> set ms = {}" using rep_distinct [OF rep] by auto
  have nx: "get_next x s = Some (hd (ms @ [y]))" using rep_next [of s A x] rep by (cases ms) auto
  have rep': "stl_rep s ((A @ [x]) @ ms @ y # B) fs" using rep by simp
  from free_until_ok [OF rep'] k obtain s1 fs1 where
    s1: "free_until y (hd (ms @ [y])) s = Some s1" "stl_rep s1 ((A @ [x]) @ y # B) fs1" "growBy s1 = growBy s" "shrinkBy s1 = shrinkBy s"
      "\<forall>q. q \<notin> set ms \<longrightarrow> s_lower s1 q = s_lower s q \<and> s_upper s1 q = s_upper s q" by auto
  have d1: "s_lower s1 x = a" "s_upper s1 x = b" "s_lower s1 y = c" "s_upper s1 y = d" using s1(5) dist(1,2) ab cd by auto
  have rg: "ranges s1 A = ranges s A" "ranges s1 B = ranges s B" using s1(5) dist(3,4) by (intro ranges_cong; blast)+
  have rep1: "stl_rep s1 (A @ x # y # B) fs1" using s1(2) by simp
  have "shrinkBy s1 = 0 \<or> \<not> l \<le> a" using k s1(4) ab(3) by (auto simp: range_arith)
  from erase_low_ok [OF rep1 d1(1,2) lu(1) this] obtain s2 xs2 fs2 where
    s2: "erase_low x l s1 = Some s2" "growBy s2 = growBy s1" "shrinkBy s2 = shrinkBy s1" "stl_rep s2 (xs2 @ y # B) fs2"
      "s_lower s2 y = c" "s_upper s2 y = d" "ranges s2 B = ranges s B"
      "ranges s2 xs2 = ranges s A @ (if l \<le> a then [] else if l \<le> b then [(a, l - 1)] else [(a, b)])"
    using d1(3,4) rg by auto
  from erase_high_ok [OF s2(4,5,6) cd(3) lu(2)] obtain s3 xs3 fs3 where
    s3: "erase_high y u s2 = Some s3" "growBy s3 = growBy s2" "shrinkBy s3 = shrinkBy s2" "stl_rep s3 xs3 fs3"
      "ranges s3 xs3 = ranges s A @ eram l u (a, b) (c, d) @ ranges s B" unfolding s2(7,8) by auto
  have "erase_multi x y l u s = Some s3" using nx s1(1) s2(1) s3(1) by (simp add: erase_multi_def)
  moreover have "stl_has s3 (ranges s A @ eram l u (a, b) (c, d) @ ranges s B)" using s3(4,5) unfolding stl_has_def by blast
  ultimately show ?thesis using s3(2,3) s2(2,3) s1(3,4) by (simp add: outcome_def del: eram.simps)
qed

subsection \<open>\<^verbatim>\<open>recordIfNotRecorded\<close>\<close>

lemma added_ok:
  "\<exists>ok s'. f = Some (ok, s') \<and> outcome s rs rs' ok s' \<Longrightarrow> \<exists>st s'. added f = Some (NO, st, s') \<and> outcome s rs rs' st s'"
  by (auto simp: added_def)

lemma rinr_single_ok:
  assumes rep: "stl_rep s (A @ x # B) fs" and ab: "s_lower s x = a" "s_upper s x = b" "a \<le> b" "b < - 1"
    and lu: "0 < l" "l \<le> u" "u < - 1" and A: "A \<noteq> [] \<Longrightarrow> a \<le> l"
  shows "if a \<le> u \<and> l \<le> b
    then rinr_single x l u s = Some (if a \<le> l \<and> u \<le> b then COMPLETE else PARTIAL, True, s)
    else \<exists>st s'. rinr_single x l u s = Some (NO, st, s')
      \<and> outcome s (ranges s (A @ x # B)) (ranges s A @ rec1 l u (a, b) @ ranges s B) st s'"
proof -
  have x: "s_live s x" "x \<notin> set A" "x \<notin> set B" using rep_live [OF rep, of x] rep_distinct [OF rep] by auto
  have far: "a \<le> u \<Longrightarrow> \<not> u + 1 < a" "l \<le> b \<Longrightarrow> \<not> b < l - 1" using lu ab by (auto simp: range_arith)
  show ?thesis
  proof (cases "a \<le> u \<and> l \<le> b")
    case True
    then show ?thesis using far ab x(1) by (simp add: rinr_single_def access_defs)
  next
    case False
    consider "u + 1 < a" | "\<not> u + 1 < a" "b < l - 1" | "\<not> u + 1 < a" "\<not> b < l - 1" by blast
    then have "\<exists>st s'. rinr_single x l u s = Some (NO, st, s')
      \<and> outcome s (ranges s (A @ x # B)) (ranges s A @ rec1 l u (a, b) @ ranges s B) st s'"
    proof cases
      case 1
      then have A0: "A = []" using A lu by (auto simp: range_arith)
      then have "x = headp s" using rep by (simp add: stl_rep_def dlists_def)
      then have "rinr_single x l u s = added (add_range 0 l u s)" using 1 ab x(1) by (simp add: rinr_single_def access_defs)
      moreover have "stl_rep s ([] @ A @ x # B) fs" using rep by simp
      ultimately show ?thesis using added_ok [OF add_range_ok [of s "[]" "A @ x # B" fs 0 l u]] 1 ab A0 by simp
    next
      case 2
      then have "rinr_single x l u s = added (add_range x l u s)" using ab x(1) by (simp add: rinr_single_def access_defs)
      moreover have "stl_rep s ((A @ [x]) @ B) fs" using rep by simp
      ultimately show ?thesis using added_ok [OF add_range_ok [of s "A @ [x]" B fs x l u]] 2 ab by simp
    next
      case 3
      let ?s = "s\<lparr>s_upper := (s_upper s)(x := if b < u then u else b), s_lower := (s_lower s)(x := if l < a then l else a)\<rparr>"
      have "rinr_single x l u s = Some (NO, True, ?s)"
        using 3 False ab x(1) by (auto simp: rinr_single_def get_lower_def get_upper_def set_upper_if set_lower_if)
      moreover have "stl_rep ?s (A @ x # B) fs" using rep by simp
      moreover have "ranges ?s (A @ x # B) = ranges s A @ rec1 l u (a, b) @ ranges s B" using 3 ab x(2,3) by simp
      ultimately have "rinr_single x l u s = Some (NO, True, ?s) \<and> growBy ?s = growBy s \<and> shrinkBy ?s = shrinkBy s
          \<and> stl_has ?s (ranges s A @ rec1 l u (a, b) @ ranges s B)"
        unfolding stl_has_def by (intro conjI exI) (assumption | simp)+
      then show ?thesis unfolding outcome_def by metis
    qed
    then show ?thesis by (simp only: False if_False)
  qed
qed

lemma rinr_multi_ok:
  assumes rep: "stl_rep s (A @ x # ms @ y # B) fs" and ab: "s_lower s x = a" "s_upper s x = b" "a \<le> b" "b < - 1"
    and cd: "s_lower s y = c" "s_upper s y = d" "c \<le> d" and lu: "0 < l" "l \<le> u" "u < - 1"
  shows "if ms = [] \<and> b < l \<and> u < c
    then \<exists>st s'. rinr_multi x y l u s = Some (NO, st, s')
      \<and> outcome s (ranges s (A @ x # ms @ y # B)) (ranges s A @ recm l u (a, b) (c, d) @ ranges s B) st s'
    else rinr_multi x y l u s = Some (PARTIAL, True, s)"
proof -
  have live: "s_live s x" "s_live s y" using rep_live [OF rep] by auto
  have nx: "get_next x s = Some (hd (ms @ [y]))" using rep_next [of s A x] rep by (cases ms) auto
  show ?thesis
  proof (cases "ms = [] \<and> b < l \<and> u < c")
    case False
    have "l \<le> b \<or> u \<ge> c \<or> hd (ms @ [y]) \<noteq> y"
      using False rep_distinct [OF rep] by (cases ms) (auto simp: not_less)
    then show ?thesis using False live ab cd nx by (auto simp: rinr_multi_def get_lower_def get_upper_def)
  next
    case True
    then have no: "\<not> l \<le> b" "\<not> u \<ge> c" "hd (ms @ [y]) = y" by auto
    have rep2: "stl_rep s ((A @ [x]) @ y # B) fs" using rep True by simp
    have d: "x \<notin> set A" "x \<notin> set B" "x \<noteq> y" "y \<notin> set A" "y \<notin> set B" using rep_distinct [OF rep2] by auto
    have f: "\<not> l < a" "\<not> d < u" using True ab cd by (auto simp: range_arith)
    consider "l \<le> b + 1" "c \<le> u + 1" | "l \<le> b + 1" "\<not> c \<le> u + 1" | "\<not> l \<le> b + 1" "u + 1 < c" | "\<not> l \<le> b + 1" "\<not> u + 1 < c"
      by blast
    then have "\<exists>st s'. rinr_multi x y l u s = Some (NO, st, s')
      \<and> outcome s (ranges s (A @ x # ms @ y # B)) (ranges s A @ recm l u (a, b) (c, d) @ ranges s B) st s'"
    proof cases
      case 1
      let ?s = "s\<lparr>s_upper := (s_upper s)(x := d)\<rparr>"
      have "stl_rep ?s ((A @ [x]) @ y # B) fs" using rep2 by simp
      from free_rep [OF this] obtain s5 xs5 fs5 where
        s5: "freeSeqRangeListElement y ?s = Some s5" "stl_rep s5 xs5 fs5" "ranges s5 xs5 = ranges ?s ((A @ [x]) @ B)"
          "growBy s5 = growBy s" "shrinkBy s5 = shrinkBy s" by auto
      have "rinr_multi x y l u s = Some (NO, True, s5)"
        using 1 no live ab cd nx s5(1) d(3) by (simp add: rinr_multi_def access_defs)
      moreover have "stl_has s5 (ranges s A @ recm l u (a, b) (c, d) @ ranges s B)"
        using s5(2,3) 1 f ab d unfolding stl_has_def by auto
      ultimately show ?thesis using s5(4,5) unfolding outcome_def by metis
    next
      case 2
      let ?s = "s\<lparr>s_upper := (s_upper s)(x := u)\<rparr>"
      have "rinr_multi x y l u s = Some (NO, True, ?s)" using 2 no live ab cd nx by (simp add: rinr_multi_def access_defs)
      moreover have "ranges ?s ((A @ [x]) @ y # B) = ranges s A @ recm l u (a, b) (c, d) @ ranges s B"
        using 2 f ab cd d by simp
      then have "stl_has ?s (ranges s A @ recm l u (a, b) (c, d) @ ranges s B)"
        using rep2 unfolding stl_has_def by (metis stl_rep_data(3))
      ultimately show ?thesis unfolding outcome_def by (intro exI conjI) (assumption | simp)+
    next
      case 3
      then have "rinr_multi x y l u s = added (add_range x l u s)"
        using no live ab cd nx by (simp add: rinr_multi_def access_defs)
      with added_ok [OF add_range_ok [OF rep2, of x l u]] 3 True ab cd show ?thesis by simp
    next
      case 4
      let ?s = "s\<lparr>s_lower := (s_lower s)(y := l)\<rparr>"
      have "rinr_multi x y l u s = Some (NO, True, ?s)" using 4 no live ab cd nx by (simp add: rinr_multi_def access_defs)
      moreover have "ranges ?s ((A @ [x]) @ y # B) = ranges s A @ recm l u (a, b) (c, d) @ ranges s B"
        using 4 f ab cd d by simp
      then have "stl_has ?s (ranges s A @ recm l u (a, b) (c, d) @ ranges s B)"
        using rep2 unfolding stl_has_def by (metis stl_rep_data(2))
      ultimately show ?thesis unfolding outcome_def by (intro exI conjI) (assumption | simp)+
    qed
    then show ?thesis by (simp only: True if_True simp_thms)
  qed
qed

end
