(* ===== verification/Seq_Props.thy ===== *)
theory Seq_Props
  imports Seq_Erase
begin

section \<open>Sequence tracking lists represent sets of numbers\<close>

text \<open>
  \<open>holds s X\<close>: the list \<open>s\<close> is well formed and records the set \<open>X\<close>. Each public operation is specified on the set.
\<close>

definition holds :: "stl \<Rightarrow> 64 word set \<Rightarrow> bool" where
  "holds s X \<longleftrightarrow> (\<exists>rs. stl_has s rs \<and> sep rs \<and> den rs = X)"

definition same_growth :: "stl \<Rightarrow> stl \<Rightarrow> bool" where
  "same_growth s s' \<longleftrightarrow> growBy s' = growBy s \<and> shrinkBy s' = shrinkBy s"

lemma holdsE:
  assumes "holds s X"
  obtains xs fs where "stl_rep s xs fs" "sep (ranges s xs)" "X = den (ranges s xs)"
  using assms by (auto simp: holds_def stl_has_def)

lemma holdsI: "stl_rep s xs fs \<Longrightarrow> sep (ranges s xs) \<Longrightarrow> holds s (den (ranges s xs))"
  by (auto simp: holds_def stl_has_def)

text \<open>The two searches of an operation on \<open>l..u\<close>, and the elements they lead to.\<close>

lemma locate:
  assumes rep: "stl_rep s xs fs" and sep: "sep (ranges s xs)" and lu: "l \<le> u" and ne: "xs \<noteq> []"
  obtains x y where "findNearestLowerSeqRangeListElement l s = Some (x, s\<lparr>hintp := x\<rparr>)" "x \<noteq> 0"
    "findNearestUpperSeqRangeListElement x u (s\<lparr>hintp := x\<rparr>) = Some y" "stl_rep (s\<lparr>hintp := x\<rparr>) xs fs"
    "(\<exists>A B. xs = A @ x # B \<and> x = y \<and> meets l u (ranges s A) [(s_lower s x, s_upper s x)] (ranges s B)) \<or>
     (\<exists>A ms B. xs = A @ x # ms @ y # B \<and> x \<noteq> y
        \<and> meets l u (ranges s A) ((s_lower s x, s_upper s x) # ranges s ms @ [(s_lower s y, s_upper s y)]) (ranges s B))"
proof -
  let ?rs = "ranges s xs"
  from find_lower_ok(2) [OF rep sep ne] obtain i where
    i: "findNearestLowerSeqRangeListElement l s = Some (xs ! i, s\<lparr>hintp := xs ! i\<rparr>)" "near_lower l ?rs i" by blast
  have il: "i < length xs" using i(2) by (simp add: near_lower_def)
  let ?s = "s\<lparr>hintp := xs ! i\<rparr>"
  have rep': "stl_rep ?s xs fs" using stl_rep_hint [OF rep, of "xs ! i"] il by simp
  from find_upper_ok [OF rep' _ il] sep obtain j where
    j: "findNearestUpperSeqRangeListElement (xs ! i) u ?s = Some (xs ! j)" "near_upper u ?rs j" by auto
  have jl: "j < length xs" using j(2) by (simp add: near_upper_def)
  note m = near_meets [OF sep i(2) j(2) lu]
  have dist: "distinct xs" by (rule rep_distinct [OF rep])
  have rg: "take i ?rs = ranges s (take i xs)" "drop (Suc j) ?rs = ranges s (drop (Suc j) xs)"
    "take (Suc j - i) (drop i ?rs) = ranges s (take (Suc j - i) (drop i xs))"
    by (simp_all add: ranges_def take_map drop_map)
  show ?thesis
  proof (rule that [OF i(1) _ j(1) rep'])
    show "xs ! i \<noteq> 0" using rep_live [OF rep, of "xs ! i"] il by simp
    show "(\<exists>A B. xs = A @ xs ! i # B \<and> xs ! i = xs ! j \<and> meets l u (ranges s A) [(s_lower s (xs ! i), s_upper s (xs ! i))] (ranges s B)) \<or>
     (\<exists>A ms B. xs = A @ xs ! i # ms @ xs ! j # B \<and> xs ! i \<noteq> xs ! j
        \<and> meets l u (ranges s A) ((s_lower s (xs ! i), s_upper s (xs ! i)) # ranges s ms @ [(s_lower s (xs ! j), s_upper s (xs ! j))]) (ranges s B))"
    proof (cases "i = j")
      case True
      have "xs = take i xs @ xs ! i # drop (Suc i) xs" using il by (rule id_take_nth_drop)
      moreover have "take (Suc j - i) (drop i xs) = [xs ! i]" using il True by (simp add: take_Suc_conv_app_nth)
      ultimately show ?thesis using m(2) True unfolding rg by (intro disjI1 exI [of _ "take i xs"] exI [of _ "drop (Suc i) xs"]) simp
    next
      case False
      with m(1) have ij: "i < j" by simp
      define ms where "ms = take (j - Suc i) (drop (Suc i) xs)"
      have tl: "take (Suc j - i) (drop i xs) = xs ! i # ms @ [xs ! j]"
      proof -
        have "drop i xs = xs ! i # drop (Suc i) xs" using il by (simp add: Cons_nth_drop_Suc)
        moreover have "take (j - i) (drop (Suc i) xs) = ms @ [xs ! j]"
          using ij jl take_Suc_conv_app_nth [of "j - Suc i" "drop (Suc i) xs"] by (simp add: ms_def Suc_diff_Suc)
        ultimately show ?thesis using ij by (simp add: Suc_diff_le)
      qed
      have "xs = take i xs @ take (Suc j - i) (drop i xs) @ drop (Suc j) xs"
        using ij by (metis append_take_drop_id drop_drop le_add_diff_inverse2 less_SucI less_imp_le_nat)
      then have "xs = take i xs @ xs ! i # ms @ xs ! j # drop (Suc j) xs" unfolding tl by simp
      moreover have "xs ! i \<noteq> xs ! j" using dist il jl False by (simp add: nth_eq_iff_index_eq)
      moreover have "meets l u (ranges s (take i xs)) ((s_lower s (xs ! i), s_upper s (xs ! i)) # ranges s ms @ [(s_lower s (xs ! j), s_upper s (xs ! j))])
          (ranges s (drop (Suc j) xs))" using m(2) unfolding rg tl by simp
      ultimately show ?thesis by blast
    qed
  qed
qed

lemma outcome_holds:
  assumes "outcome s rs rs' ok s'" and "sep rs" and "sep rs'"
  shows "same_growth s s' \<and> (if ok then holds s' (den rs') else holds s' (den rs) \<and> refused s)"
  using assms by (auto simp: outcome_def holds_def same_growth_def)

lemma refused_hint [simp]: "refused (s\<lparr>hintp := h\<rparr>) = refused s" "same_growth (s\<lparr>hintp := h\<rparr>) s' = same_growth s s'"
  "moves (s\<lparr>hintp := h\<rparr>) = moves s"
  by (simp_all add: refused_def same_growth_def moves_def)

lemma single_no_mids:
  assumes "meets l l A (r # ms @ [r']) B"
  shows "ms = []" and "snd r < l" and "l < fst r'"
proof -
  have "sep (r # ms @ [r'])" and f: "\<forall>r \<in> set ms. l < fst r \<and> snd r < l" "snd r < l" "l < fst r'"
    using meets_sep [OF assms] assms by (auto simp: meets_def butlast_append)
  then have "fst q \<le> snd q" if "q \<in> set ms" for q
    using that sep_member [of "r # ms @ [r']" "fst q" "snd q"] by simp
  then have "\<not> (l < fst q \<and> snd q < l)" if "q \<in> set ms" for q
    using that less_le_trans [of l "fst q" "snd q"] less_asym [of l "snd q"] by blast
  with f(1) show "ms = []" by (metis list.set_intros(1) neq_Nil_conv)
  show "snd r < l" "l < fst r'" using f by auto
qed

lemma record_ok:
  assumes h: "holds s X" and lu: "0 < l" "l \<le> u" "u < - 1" and k: "shrinkBy s = 0 \<or> l = u"
  shows "\<exists>ok s'. record_range l u s = Some (ok, s') \<and> same_growth s s'
    \<and> (if ok then holds s' (X \<union> {l..u}) else holds s' X \<and> refused s)"
proof -
  from h obtain xs fs where rep: "stl_rep s xs fs" and sep: "sep (ranges s xs)" and X: "X = den (ranges s xs)" by (rule holdsE)
  have l: "l \<noteq> 0" "\<not> u < l" using lu by (auto simp: range_arith)
  show ?thesis
  proof (cases "xs = []")
    case True
    have sl: "sep [(l, u)]" using lu by simp
    have "record_range l u s = add_range 0 l u s"
      using find_lower_ok(1) [OF rep sep True] l by (simp add: record_range_def)
    moreover from add_range_ok [of s "[]" "[]" fs 0 l u] rep True obtain ok s' where
      a: "add_range 0 l u s = Some (ok, s')" "outcome s [] [(l, u)] ok s'" by auto
    ultimately show ?thesis using outcome_holds [OF a(2) _ sl] X True by auto
  next
    case False
    from locate [OF rep sep lu(2) False] obtain x y where
      f: "findNearestLowerSeqRangeListElement l s = Some (x, s\<lparr>hintp := x\<rparr>)" "x \<noteq> 0"
        "findNearestUpperSeqRangeListElement x u (s\<lparr>hintp := x\<rparr>) = Some y" "stl_rep (s\<lparr>hintp := x\<rparr>) xs fs"
        "(\<exists>A B. xs = A @ x # B \<and> x = y \<and> meets l u (ranges s A) [(s_lower s x, s_upper s x)] (ranges s B)) \<or>
         (\<exists>A ms B. xs = A @ x # ms @ y # B \<and> x \<noteq> y
          \<and> meets l u (ranges s A) ((s_lower s x, s_upper s x) # ranges s ms @ [(s_lower s y, s_upper s y)]) (ranges s B))" by blast
    let ?s = "s\<lparr>hintp := x\<rparr>"
    have run: "record_range l u s = (if x = y then record_single x l u ?s else record_multi x y l u ?s)"
      using f(1-3) l by (simp add: record_range_def)
    from f(5) show ?thesis
    proof (elim disjE exE conjE)
      fix A B assume xs: "xs = A @ x # B" and xy: "x = y" and m: "meets l u (ranges s A) [(s_lower s x, s_upper s x)] (ranges s B)"
      note r1 = rec1_ok [OF m lu]
      have rep1: "stl_rep ?s (A @ x # B) fs" using f(4) xs by simp
      have "A \<noteq> [] \<Longrightarrow> s_lower ?s x \<le> l" using meets_one(4) [OF m] by (simp add: ranges_def)
      from record_single_ok [OF rep1 refl refl lu this] obtain ok s' where
        r: "record_single x l u ?s = Some (ok, s')"
          "outcome ?s (ranges ?s (A @ x # B)) (ranges ?s A @ rec1 l u (s_lower ?s x, s_upper ?s x) @ ranges ?s B) ok s'" by blast
      have sp: "sep (ranges ?s (A @ x # B))" using sep xs by (simp only: ranges_data)
      have r1': "sep (ranges ?s A @ rec1 l u (s_lower ?s x, s_upper ?s x) @ ranges ?s B)"
        "den (ranges ?s A @ rec1 l u (s_lower ?s x, s_upper ?s x) @ ranges ?s B) = X \<union> {l..u}" "den (ranges ?s (A @ x # B)) = X"
        using r1 X xs by (simp_all del: rec1.simps)
      from outcome_holds [OF r(2) sp r1'(1)] show ?thesis using run xy r(1) unfolding r1'(2,3) refused_hint by simp
    next
      fix A ms B assume xs: "xs = A @ x # ms @ y # B" and xy: "x \<noteq> y"
        and m: "meets l u (ranges s A) ((s_lower s x, s_upper s x) # ranges s ms @ [(s_lower s y, s_upper s y)]) (ranges s B)"
      note r1 = recm_ok [OF m lu]
      have rep1: "stl_rep ?s (A @ x # ms @ y # B) fs" using f(4) xs by simp
      have "ms = [] \<or> shrinkBy ?s = 0"
      proof (cases "l = u")
        case True
        from single_no_mids(1) [OF m [unfolded True [symmetric]]] show ?thesis by (simp add: ranges_def)
      qed (use k in simp)
      from record_multi_ok [OF rep1 refl refl refl refl this] obtain ok s' where
        r: "record_multi x y l u ?s = Some (ok, s')"
          "outcome ?s (ranges ?s (A @ x # ms @ y # B))
            (ranges ?s A @ recm l u (s_lower ?s x, s_upper ?s x) (s_lower ?s y, s_upper ?s y) @ ranges ?s B) ok s'" by blast
      have sp: "sep (ranges ?s (A @ x # ms @ y # B))" using sep xs by (simp only: ranges_data)
      have r1': "sep (ranges ?s A @ recm l u (s_lower ?s x, s_upper ?s x) (s_lower ?s y, s_upper ?s y) @ ranges ?s B)"
        "den (ranges ?s A @ recm l u (s_lower ?s x, s_upper ?s x) (s_lower ?s y, s_upper ?s y) @ ranges ?s B) = X \<union> {l..u}"
        "den (ranges ?s (A @ x # ms @ y # B)) = X"
        using r1 X xs by (simp_all del: recm.simps)
      from outcome_holds [OF r(2) sp r1'(1)] show ?thesis using run xy r(1) unfolding r1'(2,3) refused_hint by simp
    qed
  qed
qed

text \<open>
  A new element is asked for exactly when the list holds no number of the recorded range and neither of the two numbers
  next to it; every other range is merged into an element that is there.
\<close>

definition fresh :: "64 word set \<Rightarrow> 64 word \<Rightarrow> 64 word \<Rightarrow> bool" where
  "fresh X l u \<longleftrightarrow> X \<inter> {l - 1..u + 1} = {}"

lemma fresh_iff: "fresh X l u \<longleftrightarrow> (\<forall>x \<in> X. x < l - 1 \<or> u + 1 < x)"
  unfolding fresh_def disjoint_iff atLeastAtMost_iff de_Morgan_conj not_le by blast

lemma meets_below_above:
  assumes "meets l u A M B"
  shows "x \<in> den A \<Longrightarrow> A \<noteq> [] \<and> x + 1 < fst (hd M) \<and> x < - 1" "x \<in> den B \<Longrightarrow> B \<noteq> [] \<and> snd (last M) + 1 < x \<and> snd (last M) < - 1"
proof -
  have m: "sep A" "sep B" "sep M" "M \<noteq> []" "B \<noteq> [] \<Longrightarrow> snd (last M) + 1 < fst (hd B)"
    "A \<noteq> [] \<Longrightarrow> snd (last A) + 1 < fst (hd M)" using assms by (auto simp: meets_def sep_append)
  have la: "A \<noteq> [] \<Longrightarrow> snd (last A) < - 1" "snd (last M) < - 1"
    using m(1,3,4) sep_member [of A "fst (last A)" "snd (last A)"] sep_member [of M "fst (last M)" "snd (last M)"] by simp_all
  show "A \<noteq> [] \<and> x + 1 < fst (hd M) \<and> x < - 1" if "x \<in> den A"
  proof -
    have "A \<noteq> []" using that by auto
    with den_bounds [OF m(1) that] m(6) la(1) show ?thesis by (auto simp: range_arith)
  qed
  show "B \<noteq> [] \<and> snd (last M) + 1 < x \<and> snd (last M) < - 1" if "x \<in> den B"
  proof -
    have "B \<noteq> []" using that by auto
    with den_bounds [OF m(2) that] m(5) la(2) show ?thesis by (auto dest: less_le_trans)
  qed
qed

lemma fresh_one:
  assumes m: "meets l u A [(a, b)] B" and lu: "0 < l" "l \<le> u" "u < - 1"
  shows "fresh (den (A @ [(a, b)] @ B)) l u \<longleftrightarrow> u + 1 < a \<or> b < l - 1"
proof -
  note ab = meets_one [OF m]
  have "x < l - 1 \<or> u + 1 < x" if "u + 1 < a \<or> b < l - 1" "x \<in> den (A @ [(a, b)] @ B)" for x
    using that meets_below_above [OF m, of x] ab lu by (auto simp: range_arith)
  moreover have "(a < l - 1 \<or> u + 1 < a) \<and> (b < l - 1 \<or> u + 1 < b) \<and> (l \<in> {a..b} \<longrightarrow> l < l - 1 \<or> u + 1 < l)"
    if "fresh (den (A @ [(a, b)] @ B)) l u" using that ab(2) by (auto simp: fresh_iff)
  then have "u + 1 < a \<or> b < l - 1" if "fresh (den (A @ [(a, b)] @ B)) l u"
    using that ab(1-3) lu by (auto simp: range_arith)
  ultimately show ?thesis unfolding fresh_iff by blast
qed

lemma fresh_multi:
  assumes m: "meets l u A ((a, b) # ms @ [(c, d)]) B" and lu: "0 < l" "l \<le> u" "u < - 1"
  shows "fresh (den (A @ ((a, b) # ms @ [(c, d)]) @ B)) l u \<longleftrightarrow> \<not> l \<le> b + 1 \<and> u + 1 < c \<and> ms = []"
proof -
  note ab = meets_multi [OF m]
  have "x < l - 1 \<or> u + 1 < x" if "\<not> l \<le> b + 1" "u + 1 < c" "ms = []" "x \<in> den (A @ ((a, b) # ms @ [(c, d)]) @ B)" for x
    using that meets_below_above [OF m, of x] ab(1-8) lu by (auto simp: range_arith)
  moreover have "\<not> l \<le> b + 1 \<and> u + 1 < c \<and> ms = []" if f: "fresh (den (A @ ((a, b) # ms @ [(c, d)]) @ B)) l u"
  proof -
    have "(b < l - 1 \<or> u + 1 < b) \<and> (c < l - 1 \<or> u + 1 < c)" using f ab(2,5) by (auto simp: fresh_iff)
    then have bc: "\<not> l \<le> b + 1" "u + 1 < c" using ab(3,6-8) lu by (auto simp: range_arith)
    have "ms = []"
    proof (rule ccontr)
      assume "ms \<noteq> []"
      then obtain q where q: "q \<in> set ms" by (cases ms) auto
      then have "fst q \<le> snd q" using meets_sep [OF m] sep_member [of "(a, b) # ms @ [(c, d)]" "fst q" "snd q"] by simp
      then have "fst q \<in> den ms" using q by (auto simp: den_def intro!: bexI [of _ q] split: prod.splits)
      then have "fst q \<in> {l..u}" "fst q < l - 1 \<or> u + 1 < fst q" using ab(11) f by (auto simp: fresh_iff)
      then show False using lu by (auto simp: range_arith)
    qed
    with bc show ?thesis by simp
  qed
  ultimately show ?thesis unfolding fresh_iff by blast
qed

lemma add_range_refused: "refused s \<Longrightarrow> \<exists>s'. add_range p l u s = Some (False, s')"
  by (cases "growBy s = 0") (auto simp: refused_def add_range_def getSeqRangeListElement_def alloc_ok)

lemma record_single_asks:
  assumes "stl_rep s (A @ x # B) fs" and "A \<noteq> [] \<Longrightarrow> s_lower s x \<le> l" "l \<le> u" "u < - 1"
  shows "u + 1 < s_lower s x \<or> s_upper s x < l - 1 \<Longrightarrow> \<exists>p. record_single x l u s = add_range p l u s"
    and "\<not> (u + 1 < s_lower s x \<or> s_upper s x < l - 1) \<Longrightarrow> record_single x l u s = Some (ok, s') \<Longrightarrow> ok"
proof -
  have x: "s_live s x" using rep_live [OF assms(1), of x] by simp
  have "x = headp s" if "u + 1 < s_lower s x"
  proof -
    have "A = []" using assms(2-4) that by (auto simp: range_arith)
    then show ?thesis using assms(1) by (simp add: stl_rep_def dlists_def)
  qed
  then show "u + 1 < s_lower s x \<or> s_upper s x < l - 1 \<Longrightarrow> \<exists>p. record_single x l u s = add_range p l u s"
    using x by (auto simp: record_single_def access_defs)
  show "\<not> (u + 1 < s_lower s x \<or> s_upper s x < l - 1) \<Longrightarrow> record_single x l u s = Some (ok, s') \<Longrightarrow> ok"
    using x by (auto simp: record_single_def access_defs bind_eq_Some_conv split: if_splits)
qed

lemma record_multi_asks:
  fixes l u :: "64 word"
  assumes "stl_rep s (A @ x # ms @ y # B) fs"
  defines "ask \<equiv> \<not> l \<le> s_upper s x + 1 \<and> u + 1 < s_lower s y \<and> ms = []"
  shows "ask \<Longrightarrow> record_multi x y l u s = add_range x l u s"
    and "\<not> ask \<Longrightarrow> record_multi x y l u s = Some (ok, s') \<Longrightarrow> ok"
proof -
  have live: "s_live s x" "s_live s y" "y \<notin> set ms" using rep_live [OF assms(1)] rep_distinct [OF assms(1)] by auto
  have nx: "get_next x s = Some (hd (ms @ [y]))" using rep_next [of s A x] assms(1) by (cases ms) auto
  have hd: "hd (ms @ [y]) = y \<longleftrightarrow> ms = []" using live(3) by (cases ms) auto
  show "ask \<Longrightarrow> record_multi x y l u s = add_range x l u s"
    using live nx by (simp add: ask_def record_multi_def get_upper_def get_lower_def)
  show "\<not> ask \<Longrightarrow> record_multi x y l u s = Some (ok, s') \<Longrightarrow> ok"
    using live nx hd unfolding ask_def record_multi_def get_upper_def [of x s] get_lower_def [of y s]
    by (auto simp: bind_eq_Some_conv split: if_splits)
qed

lemma record_answer:
  assumes h: "holds s X" and lu: "0 < l" "l \<le> u" "u < - 1" and k: "shrinkBy s = 0 \<or> l = u"
    and r: "record_range l u s = Some (ok, s')"
  shows "ok \<longleftrightarrow> \<not> (refused s \<and> fresh X l u)"
proof -
  from h obtain xs fs where rep: "stl_rep s xs fs" and sep: "sep (ranges s xs)" and X: "X = den (ranges s xs)" by (rule holdsE)
  have l: "l \<noteq> 0" "\<not> u < l" using lu by (auto simp: range_arith)
  have nr: "\<not> ok \<Longrightarrow> refused s" using record_ok [OF h lu k] r by (auto split: if_splits)
  have key: ?thesis if t: "refused t = refused s" and
    "fresh X l u \<Longrightarrow> \<exists>p. record_range l u s = add_range p l u t" and "\<not> fresh X l u \<Longrightarrow> ok" for t
  proof (cases "fresh X l u")
    case True
    with that obtain p where p: "record_range l u s = add_range p l u t" by blast
    have "refused s \<Longrightarrow> \<not> ok" using add_range_refused [of t p l u] r p t by auto
    with nr True show ?thesis by blast
  qed (use that in simp)
  show ?thesis
  proof (cases "xs = []")
    case True
    have "record_range l u s = add_range 0 l u s"
      using find_lower_ok(1) [OF rep sep True] l by (simp add: record_range_def)
    moreover have "fresh X l u" using X True by (simp add: fresh_def ranges_def)
    ultimately show ?thesis by (intro key [of s]) auto
  next
    case False
    from locate [OF rep sep lu(2) False] obtain x y where
      f: "findNearestLowerSeqRangeListElement l s = Some (x, s\<lparr>hintp := x\<rparr>)" "x \<noteq> 0"
        "findNearestUpperSeqRangeListElement x u (s\<lparr>hintp := x\<rparr>) = Some y" "stl_rep (s\<lparr>hintp := x\<rparr>) xs fs"
        "(\<exists>A B. xs = A @ x # B \<and> x = y \<and> meets l u (ranges s A) [(s_lower s x, s_upper s x)] (ranges s B)) \<or>
         (\<exists>A ms B. xs = A @ x # ms @ y # B \<and> x \<noteq> y
          \<and> meets l u (ranges s A) ((s_lower s x, s_upper s x) # ranges s ms @ [(s_lower s y, s_upper s y)]) (ranges s B))" by blast
    let ?s = "s\<lparr>hintp := x\<rparr>"
    have run: "record_range l u s = (if x = y then record_single x l u ?s else record_multi x y l u ?s)"
      using f(1-3) l by (simp add: record_range_def)
    from f(5) show ?thesis
    proof (elim disjE exE conjE)
      fix A B assume xs: "xs = A @ x # B" and xy: "x = y" and m: "meets l u (ranges s A) [(s_lower s x, s_upper s x)] (ranges s B)"
      have rep1: "stl_rep ?s (A @ x # B) fs" and A: "A \<noteq> [] \<Longrightarrow> s_lower ?s x \<le> l"
        using f(4) xs meets_one(4) [OF m] by (simp_all add: ranges_def)
      note asks = record_single_asks(1) [OF rep1 A lu(2,3)] record_single_asks(2) [OF rep1 A lu(2,3), of ok s']
      have "fresh X l u \<longleftrightarrow> u + 1 < s_lower s x \<or> s_upper s x < l - 1" using fresh_one [OF m lu] X xs by simp
      with asks run xy r show ?thesis by (intro key [of ?s]) auto
    next
      fix A ms B assume xs: "xs = A @ x # ms @ y # B" and xy: "x \<noteq> y"
        and m: "meets l u (ranges s A) ((s_lower s x, s_upper s x) # ranges s ms @ [(s_lower s y, s_upper s y)]) (ranges s B)"
      have rep1: "stl_rep ?s (A @ x # ms @ y # B) fs" using f(4) xs by simp
      note asks = record_multi_asks(1) [OF rep1, of l u] record_multi_asks(2) [OF rep1, of l u ok s']
      have "fresh X l u \<longleftrightarrow> \<not> l \<le> s_upper s x + 1 \<and> u + 1 < s_lower s y \<and> ms = []"
        using fresh_multi [OF m lu] X xs by (simp add: ranges_def)
      with asks run xy r show ?thesis by (intro key [of ?s]) auto
    qed
  qed
qed

lemma erase_ok:
  assumes h: "holds s X" and lu: "0 < l" "l \<le> u" "u < - 1" and k: "shrinkBy s = 0 \<or> l = u"
    and room: "\<not> (moves s \<and> {l..u + 1} \<subseteq> X)"
  shows "\<exists>ok s'. erase_range l u s = Some (ok, s') \<and> same_growth s s'
    \<and> (if ok then holds s' (X - {l..u}) else holds s' X \<and> refused s)"
proof -
  from h obtain xs fs where rep: "stl_rep s xs fs" and sep: "sep (ranges s xs)" and X: "X = den (ranges s xs)" by (rule holdsE)
  have l: "l \<noteq> 0" "\<not> u < l" using lu by (auto simp: range_arith)
  show ?thesis
  proof (cases "xs = []")
    case True
    have "erase_range l u s = Some (True, s)"
      using find_lower_ok(1) [OF rep sep True] by (simp add: erase_range_def)
    moreover have "holds s (X - {l..u})" using h X True by (simp add: ranges_def)
    ultimately show ?thesis by (auto simp: same_growth_def)
  next
    case False
    from locate [OF rep sep lu(2) False] obtain x y where
      f: "findNearestLowerSeqRangeListElement l s = Some (x, s\<lparr>hintp := x\<rparr>)" "x \<noteq> 0"
        "findNearestUpperSeqRangeListElement x u (s\<lparr>hintp := x\<rparr>) = Some y" "stl_rep (s\<lparr>hintp := x\<rparr>) xs fs"
        "(\<exists>A B. xs = A @ x # B \<and> x = y \<and> meets l u (ranges s A) [(s_lower s x, s_upper s x)] (ranges s B)) \<or>
         (\<exists>A ms B. xs = A @ x # ms @ y # B \<and> x \<noteq> y
          \<and> meets l u (ranges s A) ((s_lower s x, s_upper s x) # ranges s ms @ [(s_lower s y, s_upper s y)]) (ranges s B))" by blast
    let ?s = "s\<lparr>hintp := x\<rparr>"
    have run: "erase_range l u s = (if x = y then erase_single x l u ?s else map_option (Pair True) (erase_multi x y l u ?s))"
      using f(1-3) l by (simp add: erase_range_def)
    from f(5) show ?thesis
    proof (elim disjE exE conjE)
      fix A B assume xs: "xs = A @ x # B" and xy: "x = y" and m: "meets l u (ranges s A) [(s_lower s x, s_upper s x)] (ranges s B)"
      note r1 = era1_ok [OF m lu] and ab = meets_one(2,3) [OF m]
      have rep1: "stl_rep ?s (A @ x # B) fs" using f(4) xs by simp
      have "{s_lower s x..s_upper s x} \<subseteq> X" using X xs by auto
      then have "{l..u + 1} \<subseteq> X" if "s_lower s x \<le> l" "u < s_upper s x"
        using that inc_le [OF that(2)] by (force intro: order_trans)
      then have "\<not> (s_lower s x \<le> l \<and> u < s_upper s x)" if "moves s" using that room by blast
      then have "s_lower ?s x \<le> s_upper ?s x" "s_upper ?s x < - 1" "moves ?s \<Longrightarrow> \<not> (s_lower ?s x \<le> l \<and> u < s_upper ?s x)"
        using ab by simp_all
      from erase_single_ok [OF rep1 refl refl this(1,2) lu this(3)] obtain ok s' where
        r: "erase_single x l u ?s = Some (ok, s')"
          "outcome ?s (ranges ?s (A @ x # B)) (ranges ?s A @ era1 l u (s_lower ?s x, s_upper ?s x) @ ranges ?s B) ok s'" by blast
      have sp: "sep (ranges ?s (A @ x # B))" using sep xs by (simp only: ranges_data)
      have r1': "sep (ranges ?s A @ era1 l u (s_lower ?s x, s_upper ?s x) @ ranges ?s B)"
        "den (ranges ?s A @ era1 l u (s_lower ?s x, s_upper ?s x) @ ranges ?s B) = X - {l..u}" "den (ranges ?s (A @ x # B)) = X"
        using r1 X xs by (simp_all del: era1.simps)
      from outcome_holds [OF r(2) sp r1'(1)] show ?thesis using run xy r(1) unfolding r1'(2,3) refused_hint by simp
    next
      fix A ms B assume xs: "xs = A @ x # ms @ y # B" and xy: "x \<noteq> y"
        and m: "meets l u (ranges s A) ((s_lower s x, s_upper s x) # ranges s ms @ [(s_lower s y, s_upper s y)]) (ranges s B)"
      note r1 = eram_ok [OF m lu] and ab = meets_multi [OF m]
      have rep1: "stl_rep ?s (A @ x # ms @ y # B) fs" using f(4) xs by simp
      have kk: "shrinkBy ?s = 0 \<or> ms = [] \<and> s_upper ?s x < l"
      proof (cases "l = u")
        case True
        from single_no_mids(1,2) [OF m [unfolded True [symmetric]]] show ?thesis by (simp add: ranges_def)
      qed (use k in simp)
      have "s_lower ?s x \<le> s_upper ?s x" "s_upper ?s y < - 1" using ab by simp_all
      from erase_multi_ok [OF rep1 refl refl this(1) refl refl this(2) lu(1,3) kk] obtain s' where
        r: "erase_multi x y l u ?s = Some s'"
          "outcome ?s (ranges ?s (A @ x # ms @ y # B))
            (ranges ?s A @ eram l u (s_lower ?s x, s_upper ?s x) (s_lower ?s y, s_upper ?s y) @ ranges ?s B) True s'" by blast
      have sp: "sep (ranges ?s (A @ x # ms @ y # B))" using sep xs by (simp only: ranges_data)
      have r1': "sep (ranges ?s A @ eram l u (s_lower ?s x, s_upper ?s x) (s_lower ?s y, s_upper ?s y) @ ranges ?s B)"
        "den (ranges ?s A @ eram l u (s_lower ?s x, s_upper ?s x) (s_lower ?s y, s_upper ?s y) @ ranges ?s B) = X - {l..u}"
        "den (ranges ?s (A @ x # ms @ y # B)) = X"
        using r1 X xs by (simp_all del: eram.simps)
      from outcome_holds [OF r(2) sp r1'(1)] show ?thesis
        using run xy r(1) unfolding r1'(2,3) refused_hint by (intro exI [of _ True] exI [of _ s']) simp
    qed
  qed
qed

subsection \<open>Queries\<close>

definition range_class :: "64 word \<Rightarrow> 64 word \<Rightarrow> 64 word set \<Rightarrow> recorded_t" where
  "range_class l u X = (if {l..u} \<subseteq> X then COMPLETE else if X \<inter> {l..u} = {} then NO else PARTIAL)"

lemma class_one:
  assumes m: "meets l u A [(a, b)] B" and lu: "l \<le> u"
  shows "range_class l u (den (A @ [(a, b)] @ B))
    = (if a \<le> u \<and> l \<le> b then if a \<le> l \<and> u \<le> b then COMPLETE else PARTIAL else NO)"
proof -
  have X: "den (A @ [(a, b)] @ B) \<inter> {l..u} = {a..b} \<inter> {l..u}" using meets_disjoint [OF m] by auto
  have sub: "{l..u} \<subseteq> den (A @ [(a, b)] @ B) \<longleftrightarrow> {l..u} \<subseteq> {a..b}" using X by blast
  have "{l..u} \<subseteq> {a..b} \<longleftrightarrow> a \<le> l \<and> u \<le> b" using lu by auto
  moreover have "{a..b} \<inter> {l..u} = {} \<longleftrightarrow> \<not> (a \<le> u \<and> l \<le> b)" using lu meets_one(2) [OF m]
    by (auto simp: range_arith)
  ultimately show ?thesis using X sub lu meets_one(2) [OF m] by (auto simp: range_class_def range_arith)
qed

lemma class_multi:
  assumes m: "meets l u A ((a, b) # ms @ [(c, d)]) B" and lu: "l \<le> u"
  shows "range_class l u (den (A @ ((a, b) # ms @ [(c, d)]) @ B)) = (if ms = [] \<and> b < l \<and> u < c then NO else PARTIAL)"
proof -
  let ?M = "(a, b) # ms @ [(c, d)]"
  note f = meets_multi [OF m]
  have sp: "sep ?M" and low: "\<forall>r \<in> set (ms @ [(c, d)]). l < fst r" using meets_sep [OF m] m by (auto simp: meets_def)
  have X: "den (A @ ?M @ B) \<inter> {l..u} = den ?M \<inter> {l..u}" using meets_disjoint [OF m] by auto
  let ?g = "if l \<le> b + 1 then b + 1 else l"
  have g: "?g \<in> {l..u}" using f lu by (auto simp: range_arith)
  have above: "?g < fst r" if "r \<in> set (ms @ [(c, d)])" for r
  proof (cases "l \<le> b + 1")
    case True
    have "sep (ms @ [(c, d)])" "b + 1 < fst (hd (ms @ [(c, d)]))" using sp by (auto simp: sep_Cons)
    with True that sep_hd_le [of "ms @ [(c, d)]" "fst r" "snd r"] show ?thesis by (auto dest: less_le_trans)
  qed (use low that in auto)
  have "?g \<notin> den ?M"
  proof
    assume "?g \<in> den ?M"
    then consider "?g \<in> {a..b}" | r where "r \<in> set (ms @ [(c, d)])" "fst r \<le> ?g" by (fastforce simp: den_def)
    then show False
    proof cases
      case 1
      then show False using f by (auto simp: range_arith split: if_splits)
    next
      case 2
      then show False using above [of r] by auto
    qed
  qed
  with X g have nc: "\<not> {l..u} \<subseteq> den (A @ ?M @ B)" by blast
  have "den ?M \<inter> {l..u} = {} \<longleftrightarrow> ms = [] \<and> b < l \<and> u < c"
  proof
    assume e: "den ?M \<inter> {l..u} = {}"
    have "ms = []"
    proof (rule ccontr)
      assume "ms \<noteq> []"
      then obtain p q where pq: "(p, q) \<in> set ms" by (metis list.set_sel(1) prod.collapse)
      then have "p \<le> q" using sep_member [OF sp, of p q] by auto
      then have "p \<in> den ms" using pq by (force simp: den_def)
      with f(11) e show False by auto
    qed
    moreover have "b < l" using e f by (auto simp: range_arith)
    moreover have "u < c" using e f by (auto simp: range_arith)
    ultimately show "ms = [] \<and> b < l \<and> u < c" by blast
  next
    assume "ms = [] \<and> b < l \<and> u < c"
    then show "den ?M \<inter> {l..u} = {}" by (auto simp: range_arith)
  qed
  with nc X show ?thesis by (auto simp: range_class_def)
qed

text \<open>An erased range that is followed by another member lies in one element, and that is where \<^verbatim>\<open>erase\<close> asks for a new one.\<close>

lemma erase_inside:
  assumes h: "holds s X" and lu: "0 < l" "l \<le> u" "u < - 1" and sub: "{l..u + 1} \<subseteq> X"
  shows "\<exists>A x B fs. stl_rep (s\<lparr>hintp := x\<rparr>) (A @ x # B) fs \<and> s_lower s x \<le> l \<and> u < s_upper s x
    \<and> erase_range l u s = erase_single x l u (s\<lparr>hintp := x\<rparr>)"
proof -
  from h obtain xs fs where rep: "stl_rep s xs fs" and sep: "sep (ranges s xs)" and X: "X = den (ranges s xs)" by (rule holdsE)
  have l: "l \<noteq> 0" "\<not> u < l" using lu by (auto simp: range_arith)
  have le: "u \<le> u + 1" "l \<le> u + 1" "u < u + 1" using lu by (auto simp: range_arith)
  then have "{l..u} \<subseteq> {l..u + 1}" "u + 1 \<in> {l..u + 1}" by (auto intro: order_trans)
  then have "{l..u} \<subseteq> X" and u1: "u + 1 \<in> X" using sub by blast+
  then have full: "range_class l u X = COMPLETE" by (simp add: range_class_def)
  have "xs \<noteq> []" using u1 X by auto
  from locate [OF rep sep lu(2) this] obtain x y where
    f: "findNearestLowerSeqRangeListElement l s = Some (x, s\<lparr>hintp := x\<rparr>)" "x \<noteq> 0"
      "findNearestUpperSeqRangeListElement x u (s\<lparr>hintp := x\<rparr>) = Some y" "stl_rep (s\<lparr>hintp := x\<rparr>) xs fs"
      "(\<exists>A B. xs = A @ x # B \<and> x = y \<and> meets l u (ranges s A) [(s_lower s x, s_upper s x)] (ranges s B)) \<or>
       (\<exists>A ms B. xs = A @ x # ms @ y # B \<and> x \<noteq> y
        \<and> meets l u (ranges s A) ((s_lower s x, s_upper s x) # ranges s ms @ [(s_lower s y, s_upper s y)]) (ranges s B))" by blast
  from f(5) show ?thesis
  proof (elim disjE exE conjE)
    fix A B assume xs: "xs = A @ x # B" and xy: "x = y" and m1: "meets l u (ranges s A) [(s_lower s x, s_upper s x)] (ranges s B)"
    have c: "s_lower s x \<le> l" "u \<le> s_upper s x" using full class_one [OF m1 lu(2)] X xs by (auto split: if_splits)
    have "s_upper s x + 1 \<notin> X" using sep_gap [of "ranges s A"] sep X xs by simp
    then have "u \<noteq> s_upper s x" using u1 by auto
    with c have "u < s_upper s x" by auto
    moreover have "erase_range l u s = erase_single x l u (s\<lparr>hintp := x\<rparr>)" using f(1-3) xy l by (simp add: erase_range_def)
    ultimately show ?thesis using f(4) xs c(1) by blast
  next
    fix A ms B
    assume m1: "meets l u (ranges s A) ((s_lower s x, s_upper s x) # ranges s ms @ [(s_lower s y, s_upper s y)]) (ranges s B)"
      and xs: "xs = A @ x # ms @ y # B"
    then have False using full class_multi [OF m1 lu(2)] X by (auto split: if_splits)
    then show ?thesis ..
  qed
qed

lemma erase_stale:
  assumes "holds s X" and lu: "0 < l" "l \<le> u" "u < - 1" and m: "moves s" and "{l..u + 1} \<subseteq> X"
  shows "erase_range l u s = None"
proof -
  from erase_inside [OF assms(1-4,6)] obtain A x B fs where "stl_rep (s\<lparr>hintp := x\<rparr>) (A @ x # B) fs"
    "s_lower s x \<le> l" "u < s_upper s x" "erase_range l u s = erase_single x l u (s\<lparr>hintp := x\<rparr>)" by blast
  then show ?thesis using erase_single_stale [of "s\<lparr>hintp := x\<rparr>" A x B fs l u] lu m by simp
qed

lemma erase_refused:
  assumes "holds s X" and lu: "0 < l" "l \<le> u" "u < - 1" and m: "refused s" and "{l..u + 1} \<subseteq> X"
  shows "\<exists>s'. erase_range l u s = Some (False, s')"
proof -
  from erase_inside [OF assms(1-4,6)] obtain A x B fs where r: "stl_rep (s\<lparr>hintp := x\<rparr>) (A @ x # B) fs"
    "s_lower s x \<le> l" "u < s_upper s x" "erase_range l u s = erase_single x l u (s\<lparr>hintp := x\<rparr>)" by blast
  have x: "s_live s x" using rep_live [OF r(1), of x] by simp
  have "\<exists>s'. split_range x u (s\<lparr>hintp := x\<rparr>) = Some (False, s')"
    using m by (cases "growBy s = 0") (auto simp: refused_def split_range_def getSeqRangeListElement_def alloc_ok)
  moreover have "s_lower s x \<le> u" "l \<le> s_upper s x" "\<not> l < s_lower s x" "\<not> s_upper s x < u" using r(2,3) lu(2) by auto
  ultimately show ?thesis using r(2-4) x by (auto simp: erase_single_def get_lower_def get_upper_def)
qed

lemma erase_granted:
  assumes h: "holds s X" and lu: "0 < l" "l \<le> u" "u < - 1" and out: "\<not> {l..u + 1} \<subseteq> X"
    and r: "erase_range l u s = Some (ok, s')"
  shows ok
proof -
  from h obtain xs fs where rep: "stl_rep s xs fs" and sep: "sep (ranges s xs)" and X: "X = den (ranges s xs)" by (rule holdsE)
  have l: "l \<noteq> 0" "\<not> u < l" using lu by (auto simp: range_arith)
  show ?thesis
  proof (cases "xs = []")
    case True
    then show ?thesis using r find_lower_ok(1) [OF rep sep True] by (simp add: erase_range_def)
  next
    case False
    obtain x y where
      f: "findNearestLowerSeqRangeListElement l s = Some (x, s\<lparr>hintp := x\<rparr>)" "x \<noteq> 0"
        "findNearestUpperSeqRangeListElement x u (s\<lparr>hintp := x\<rparr>) = Some y" "stl_rep (s\<lparr>hintp := x\<rparr>) xs fs"
        "(\<exists>A B. xs = A @ x # B \<and> x = y \<and> meets l u (ranges s A) [(s_lower s x, s_upper s x)] (ranges s B)) \<or>
         (\<exists>A ms B. xs = A @ x # ms @ y # B \<and> x \<noteq> y
          \<and> meets l u (ranges s A) ((s_lower s x, s_upper s x) # ranges s ms @ [(s_lower s y, s_upper s y)]) (ranges s B))"
      by (rule locate [OF rep sep lu(2) False])
    from f(5) have x: "x \<in> set xs" by (elim disjE exE conjE) simp_all
    have "{s_lower s x..s_upper s x} \<subseteq> X" using X x by (auto simp: ranges_def den_def)
    then have "{l..u + 1} \<subseteq> X" if "s_lower s x \<le> l" "u < s_upper s x"
      using that inc_le [OF that(2)] by (force intro: order_trans)
    then have "\<not> (s_lower s x \<le> l \<and> u < s_upper s x)" using out by blast
    moreover have "s_live s x" using rep_live [OF rep x] by simp
    ultimately show ?thesis using r f(1-3) l
      by (auto simp: erase_range_def erase_single_def get_lower_def get_upper_def bind_eq_Some_conv split: if_splits)
  qed
qed

lemma isRecorded_ok:
  assumes h: "holds s X" and lu: "l \<le> u"
  shows "\<exists>p. isRecorded l u s = Some (range_class l u X, s\<lparr>hintp := p\<rparr>) \<and> holds (s\<lparr>hintp := p\<rparr>) X"
proof -
  from h obtain xs fs where rep: "stl_rep s xs fs" and sep: "sep (ranges s xs)" and X: "X = den (ranges s xs)" by (rule holdsE)
  show ?thesis
  proof (cases "xs = []")
    case True
    have "hintp s = 0" using rep True by (simp add: stl_rep_def)
    then have eq: "s\<lparr>hintp := 0\<rparr> = s" by simp
    have "isRecorded l u s = Some (NO, s\<lparr>hintp := 0\<rparr>)" "holds (s\<lparr>hintp := 0\<rparr>) X"
      unfolding eq using find_lower_ok(1) [OF rep sep True] h by (simp_all add: isRecorded_def)
    moreover have "range_class l u X = NO" using X True lu by (simp add: range_class_def)
    ultimately show ?thesis by metis
  next
    case False
    from locate [OF rep sep lu False] obtain x y where
      f: "findNearestLowerSeqRangeListElement l s = Some (x, s\<lparr>hintp := x\<rparr>)" "x \<noteq> 0"
        "findNearestUpperSeqRangeListElement x u (s\<lparr>hintp := x\<rparr>) = Some y" "stl_rep (s\<lparr>hintp := x\<rparr>) xs fs"
        "(\<exists>A B. xs = A @ x # B \<and> x = y \<and> meets l u (ranges s A) [(s_lower s x, s_upper s x)] (ranges s B)) \<or>
         (\<exists>A ms B. xs = A @ x # ms @ y # B \<and> x \<noteq> y
          \<and> meets l u (ranges s A) ((s_lower s x, s_upper s x) # ranges s ms @ [(s_lower s y, s_upper s y)]) (ranges s B))" by blast
    let ?s = "s\<lparr>hintp := x\<rparr>"
    have hx: "holds ?s X" using holdsI [OF f(4)] sep X by simp
    from f(5) have "isRecorded l u s = Some (range_class l u X, ?s)"
    proof (elim disjE exE conjE)
      fix A B assume xs: "xs = A @ x # B" and xy: "x = y" and m: "meets l u (ranges s A) [(s_lower s x, s_upper s x)] (ranges s B)"
      have "s_live s x" using rep_live [OF rep] xs by simp
      with f(1-3) xy class_one [OF m lu] X xs show ?thesis by (simp add: isRecorded_def get_lower_def get_upper_def)
    next
      fix A ms B assume xs: "xs = A @ x # ms @ y # B" and xy: "x \<noteq> y"
        and m: "meets l u (ranges s A) ((s_lower s x, s_upper s x) # ranges s ms @ [(s_lower s y, s_upper s y)]) (ranges s B)"
      have live: "s_live s x" "s_live s y" using rep_live [OF rep] xs by auto
      have rep1: "stl_rep ?s (A @ x # ms @ y # B) fs" using f(4) xs by simp
      have nx: "get_next x ?s = Some (hd (ms @ [y]))" using rep_next [of ?s A x] rep1 by (cases ms) auto
      have "hd (ms @ [y]) = y \<longleftrightarrow> ms = []" using rep_distinct [OF rep1] by (cases ms) auto
      with f(1-3) xy nx live class_multi [OF m lu] X xs show ?thesis
        by (simp add: isRecorded_def get_lower_def get_upper_def ranges_def)
    qed
    with hx show ?thesis by blast
  qed
qed

lemma rinr_ok:
  assumes h: "holds s X" and lu: "0 < l" "l \<le> u" "u < - 1"
  shows "\<exists>st s'. recordIfNotRecorded l u s = Some (range_class l u X, st, s') \<and> same_growth s s'
    \<and> (if range_class l u X = NO then if st then holds s' (X \<union> {l..u}) else holds s' X \<and> refused s else st \<and> holds s' X)"
proof -
  from h obtain xs fs where rep: "stl_rep s xs fs" and sep: "sep (ranges s xs)" and X: "X = den (ranges s xs)" by (rule holdsE)
  have l: "l \<noteq> 0" "\<not> u < l" using lu by (auto simp: range_arith)
  show ?thesis
  proof (cases "xs = []")
    case True
    have sl: "sep [(l, u)]" using lu by simp
    have "recordIfNotRecorded l u s = added (add_range 0 l u s)"
      using find_lower_ok(1) [OF rep sep True] l by (simp add: recordIfNotRecorded_def)
    moreover from added_ok [OF add_range_ok [of s "[]" "[]" fs 0 l u]] rep True obtain st s' where
      a: "added (add_range 0 l u s) = Some (NO, st, s')" "outcome s [] [(l, u)] st s'" by auto
    moreover have "range_class l u X = NO" using X True lu(2) by (simp add: range_class_def)
    ultimately show ?thesis using outcome_holds [OF a(2) _ sl] X True by auto
  next
    case False
    from locate [OF rep sep lu(2) False] obtain x y where
      f: "findNearestLowerSeqRangeListElement l s = Some (x, s\<lparr>hintp := x\<rparr>)" "x \<noteq> 0"
        "findNearestUpperSeqRangeListElement x u (s\<lparr>hintp := x\<rparr>) = Some y" "stl_rep (s\<lparr>hintp := x\<rparr>) xs fs"
        "(\<exists>A B. xs = A @ x # B \<and> x = y \<and> meets l u (ranges s A) [(s_lower s x, s_upper s x)] (ranges s B)) \<or>
         (\<exists>A ms B. xs = A @ x # ms @ y # B \<and> x \<noteq> y
          \<and> meets l u (ranges s A) ((s_lower s x, s_upper s x) # ranges s ms @ [(s_lower s y, s_upper s y)]) (ranges s B))" by blast
    let ?s = "s\<lparr>hintp := x\<rparr>"
    have hx: "holds ?s X" "same_growth s ?s" using holdsI [OF f(4)] sep X by (simp_all add: same_growth_def)
    have run: "recordIfNotRecorded l u s = (if x = y then rinr_single x l u ?s else rinr_multi x y l u ?s)"
      using f(1-3) l by (simp add: recordIfNotRecorded_def)
    from f(5) show ?thesis
    proof (elim disjE exE conjE)
      fix A B assume xs: "xs = A @ x # B" and xy: "x = y" and m: "meets l u (ranges s A) [(s_lower s x, s_upper s x)] (ranges s B)"
      note r1 = rec1_ok [OF m lu] and ab = meets_one [OF m] and cl = class_one [OF m lu(2)]
      have rep1: "stl_rep ?s (A @ x # B) fs" using f(4) xs by simp
      have p: "s_lower ?s x \<le> s_upper ?s x" "s_upper ?s x < - 1" "A \<noteq> [] \<Longrightarrow> s_lower ?s x \<le> l"
        using ab by (simp_all add: ranges_def)
      note rs = rinr_single_ok [OF rep1 refl refl p(1,2) lu p(3)]
      show ?thesis
      proof (cases "s_lower s x \<le> u \<and> l \<le> s_upper s x")
        case True
        then have "recordIfNotRecorded l u s = Some (range_class l u X, True, ?s)" "range_class l u X \<noteq> NO"
          using run xy rs cl X xs by simp_all
        with hx show ?thesis by auto
      next
        case no: False
        then obtain st s' where r: "rinr_single x l u ?s = Some (NO, st, s')"
          "outcome ?s (ranges ?s (A @ x # B)) (ranges ?s A @ rec1 l u (s_lower ?s x, s_upper ?s x) @ ranges ?s B) st s'"
          using rs by (auto simp del: rec1.simps split: if_splits)
        have sp: "sep (ranges ?s (A @ x # B))" using sep xs by (simp only: ranges_data)
        have r1': "sep (ranges ?s A @ rec1 l u (s_lower ?s x, s_upper ?s x) @ ranges ?s B)"
          "den (ranges ?s A @ rec1 l u (s_lower ?s x, s_upper ?s x) @ ranges ?s B) = X \<union> {l..u}" "den (ranges ?s (A @ x # B)) = X"
          using r1 X xs by (simp_all del: rec1.simps)
        have "range_class l u X = NO" using cl X xs no by simp
        with outcome_holds [OF r(2) sp r1'(1)] show ?thesis using run xy r(1) unfolding r1'(2,3) refused_hint by simp
      qed
    next
      fix A ms B assume xs: "xs = A @ x # ms @ y # B" and xy: "x \<noteq> y"
        and m: "meets l u (ranges s A) ((s_lower s x, s_upper s x) # ranges s ms @ [(s_lower s y, s_upper s y)]) (ranges s B)"
      note r1 = recm_ok [OF m lu] and ab = meets_multi [OF m] and cl = class_multi [OF m lu(2)]
      have rep1: "stl_rep ?s (A @ x # ms @ y # B) fs" using f(4) xs by simp
      have p: "s_lower ?s x \<le> s_upper ?s x" "s_upper ?s x < - 1" "s_lower ?s y \<le> s_upper ?s y" using ab by simp_all
      note rs = rinr_multi_ok [OF rep1 refl refl p(1,2) refl refl p(3) lu]
      show ?thesis
      proof (cases "ms = [] \<and> s_upper s x < l \<and> u < s_lower s y")
        case False
        then have "recordIfNotRecorded l u s = Some (range_class l u X, True, ?s)" "range_class l u X \<noteq> NO"
          using run xy rs cl X xs by (auto simp: ranges_def)
        with hx show ?thesis by auto
      next
        case no: True
        then obtain st s' where r: "rinr_multi x y l u ?s = Some (NO, st, s')"
          "outcome ?s (ranges ?s (A @ x # ms @ y # B))
            (ranges ?s A @ recm l u (s_lower ?s x, s_upper ?s x) (s_lower ?s y, s_upper ?s y) @ ranges ?s B) st s'"
          using rs by (auto simp del: recm.simps split: if_splits)
        have sp: "sep (ranges ?s (A @ x # ms @ y # B))" using sep xs by (simp only: ranges_data)
        have r1': "sep (ranges ?s A @ recm l u (s_lower ?s x, s_upper ?s x) (s_lower ?s y, s_upper ?s y) @ ranges ?s B)"
          "den (ranges ?s A @ recm l u (s_lower ?s x, s_upper ?s x) (s_lower ?s y, s_upper ?s y) @ ranges ?s B) = X \<union> {l..u}"
          "den (ranges ?s (A @ x # ms @ y # B)) = X"
          using r1 X xs by (simp_all del: recm.simps)
        have "range_class l u X = NO" using cl X xs no by (simp add: ranges_def)
        with outcome_holds [OF r(2) sp r1'(1)] show ?thesis using run xy r(1) unfolding r1'(2,3) refused_hint by simp
      qed
    qed
  qed
qed

lemma largest_ok:
  assumes h: "holds s X"
  shows "\<exists>n. largestInOrder s = Some n \<and> {1..n} \<subseteq> X \<and> n + 1 \<notin> X"
proof -
  from h obtain xs fs where rep: "stl_rep s xs fs" and sep: "sep (ranges s xs)" and X: "X = den (ranges s xs)" by (rule holdsE)
  show ?thesis
  proof (cases xs)
    case Nil
    then show ?thesis using rep X by (simp add: largestInOrder_def stl_rep_def dlists_def)
  next
    case (Cons x ys)
    have hp: "headp s = x" "s_live s x" "x \<noteq> 0" using rep rep_live [OF rep, of x] Cons by (auto simp: stl_rep_def dlists_def)
    have sp: "0 < s_lower s x" "s_lower s x \<le> s_upper s x" "s_upper s x < - 1" "sep (ranges s ys)"
      "ys \<noteq> [] \<Longrightarrow> s_upper s x + 1 < fst (hd (ranges s ys))" using sep Cons by (auto simp: sep_Cons ranges_def)
    have rest: "q \<notin> den (ranges s ys)" if "q \<le> s_upper s x + 1" for q
      using den_bounds [OF sp(4), of q] sp(5) that by (cases "ys = []") (auto simp: ranges_def dest: less_le_trans leD)
    show ?thesis
    proof (cases "s_lower s x = 1")
      case True
      have "s_upper s x + 1 \<notin> X" using rest [of "s_upper s x + 1"] X Cons sp by (auto simp: range_arith)
      then show ?thesis using hp True X Cons by (intro exI [of _ "s_upper s x"]) (auto simp: largestInOrder_def get_lower_def get_upper_def)
    next
      case False
      then have "unat (s_lower s x) \<noteq> 1" by (metis unsigned_1 unsigned_word_eqI)
      then have "\<not> s_lower s x \<le> 1" using sp(1) by (auto simp: range_arith)
      moreover have "1 \<le> s_upper s x + 1" using sp by (auto simp: range_arith)
      ultimately have "1 \<notin> X" using rest [of 1] X Cons by auto
      then show ?thesis using hp False by (intro exI [of _ 0]) (auto simp: largestInOrder_def get_lower_def get_upper_def)
    qed
  qed
qed

subsection \<open>Construction\<close>

definition no_memory :: "stl \<Rightarrow> bool" where
  "no_memory s \<longleftrightarrow> (\<forall>p. \<not> s_live s p) \<and> 0 < s_brk s"

lemma mk_stl_ok:
  assumes m: "no_memory s" and sz: "0 \<le> n" "0 \<le> g" "0 \<le> k" and ok: "s_allocs s \<noteq> [] \<Longrightarrow> hd (s_allocs s)"
  shows "\<exists>s'. mk_stl n g k sh s = Some s' \<and> holds s' {} \<and> growBy s' = (if sh then 0 else g) \<and> shrinkBy s' = (if sh then 0 else k)
    \<and> listSize s' = 0 \<and> arraySize s' = (if k \<noteq> 0 \<and> n > k then k else n)"
proof -
  define z where "z = nat (if k \<noteq> 0 \<and> n > k then k else n)"
  have z: "(if k \<noteq> 0 \<and> n > k then k else n) = int z" "shrinkBy s = 0 \<or> True" using sz by (auto simp: z_def)
  have zk: "k = 0 \<or> int z \<le> k" using sz by (auto simp: z_def)
  let ?new = "s_brk s"
  define s1 where "s1 = s\<lparr>headp := 0, freep := 0, hintp := 0, arraySize := int z,
      growBy := (if sh then 0 else g), shrinkBy := (if sh then 0 else k)\<rparr>"
  define s2 where "s2 = (if 0 < z then s1\<lparr>s_allocs := tl (s_allocs s1), s_brk := ?new + z,
      s_live := (\<lambda>q. s_live s1 q \<or> ?new \<le> q \<and> q < ?new + z)\<rparr> else s1)"
  define s3 where "s3 = s2\<lparr>baseArray := (if 0 < z then ?new else 0), arraySize := int z, listSize := int z\<rparr>"
  have sel: "headp s3 = 0" "freep s3 = 0" "hintp s3 = 0" "arraySize s3 = int z" "growBy s3 = (if sh then 0 else g)"
    "shrinkBy s3 = (if sh then 0 else k)" "baseArray s3 = (if 0 < z then ?new else 0)" "listSize s3 = int z"
    "s_brk s3 = ?new + z" by (simp_all add: s3_def s2_def s1_def)
  have live: "s_live s3 p \<longleftrightarrow> ?new \<le> p \<and> p < ?new + z" for p using m by (simp add: s3_def s2_def s1_def no_memory_def)
  have new: "0 < ?new" using m by (simp add: no_memory_def)
  let ?adr = "\<lambda>(s :: stl) i. baseArray s + i"
  have d: "dlists s3 [] []" by (simp add: dlists_def sel)
  have "inj_on (?adr s3) (set [0..<z])" "\<forall>i \<in> set [0..<z]. ?adr s3 i \<noteq> 0 \<and> ?adr s3 i \<notin> set ([] @ []) \<and> s_live s3 (?adr s3 i)
      \<and> ?adr s3 i \<noteq> hintp s3" "shrinkBy s3 = 0 \<or> arraySize s3 - (listSize s3 - int (length [0..<z])) \<le> shrinkBy s3"
    using new zk by (auto simp: inj_on_def sel live)
  from add_free_loop_ok [where adr = ?adr, OF d distinct_upt this] obtain n' p' f' lo' up' s4 where
    s4: "s4 = s3\<lparr>s_next := n', s_prev := p', freep := f', s_upper := up', s_lower := lo', listSize := listSize s3 - int (length [0..<z])\<rparr>"
      "foldM (\<lambda>s i. add_free_elt s (?adr s i)) s3 [0..<z] = Some s4" "dlists s4 [] ([] @ map (?adr s3) [0..<z])" by auto
  have "(+) (baseArray s3) ` {0..<z} = {baseArray s3..<baseArray s3 + z}" by (simp add: add.commute)
  then have "stl_rep s4 [] (map (?adr s3) [0..<z])"
    using s4(3) sz new by (auto simp: stl_rep_def array_ok_def s4(1) sel live)
  then have "holds s4 {}" using holdsI [of s4 "[]"] by simp
  moreover have "mk_stl n g k sh s = Some s4"
  proof -
    have al: "alloc_elts (int z) s1 = (?new, s2)" if "0 < z"
      using that ok by (cases "s_allocs s") (simp_all add: alloc_elts_def s2_def s1_def Let_def)
    have "(if int z > 0 then alloc_elts (int z) s1 else (0, s1)) = (if 0 < z then ?new else 0, s2)"
      using al by (simp add: s2_def)
    moreover have "s2\<lparr>baseArray := (if 0 < z then ?new else 0), arraySize := int z,
        listSize := arraySize (s2\<lparr>baseArray := (if 0 < z then ?new else 0), arraySize := int z\<rparr>)\<rparr> = s3"
      by (simp add: s3_def)
    moreover have "listSize s4 = 0" by (simp add: s4(1) sel)
    ultimately show ?thesis
      unfolding mk_stl_def z(1) Let_def s1_def [symmetric] using s4(2) new by simp
  qed
  ultimately show ?thesis using z(1) by (auto simp: s4(1) sel)
qed

end
