(* ===== verification/Seq_Session.thy ===== *)
theory Seq_Session
  imports Seq_Props
begin

section \<open>What the sequence tracking lists promise\<close>

text \<open>
  The public operations of \<^verbatim>\<open>SeqTrackingList\<close>, on every argument, as operations on the set that the list holds,
  and any number of calls on a list of fixed size, the kind that is placed in shared memory.
\<close>

subsection \<open>Sessions\<close>

datatype seq_op = Record "64 word" "64 word" | Erase "64 word" "64 word" | IsRecorded "64 word" "64 word"
  | RecordIfNot "64 word" "64 word" | Largest

datatype seq_answer = Done bool | Class recorded_t | ClassDone recorded_t bool | Number "64 word"

fun seq_call :: "seq_op \<Rightarrow> stl \<Rightarrow> (seq_answer \<times> stl) option" where
  "seq_call (Record l u) s = map_option (\<lambda>(ok, s'). (Done ok, s')) (record_range l u s)"
| "seq_call (Erase l u) s = map_option (\<lambda>(ok, s'). (Done ok, s')) (erase_range l u s)"
| "seq_call (IsRecorded l u) s = map_option (\<lambda>(c, s'). (Class c, s')) (isRecorded l u s)"
| "seq_call (RecordIfNot l u) s = map_option (\<lambda>(c, ok, s'). (ClassDone c ok, s')) (recordIfNotRecorded l u s)"
| "seq_call Largest s = map_option (\<lambda>n. (Number n, s)) (largestInOrder s)"

fun seq_calls :: "seq_op list \<Rightarrow> stl \<Rightarrow> (seq_answer list \<times> stl) option" where
  "seq_calls [] s = Some ([], s)"
| "seq_calls (c # cs) s = do {
     (a, s1) \<leftarrow> seq_call c s;
     (as, s2) \<leftarrow> seq_calls cs s1;
     Some (a # as, s2)
   }"

text \<open>The ranges that the callers pass: not empty, and below the largest 64-bit number, so that \<open>upper + 1\<close> does not wrap.\<close>

fun seq_legal :: "seq_op \<Rightarrow> bool" where
  "seq_legal (Record l u) \<longleftrightarrow> 0 < l \<and> l \<le> u \<and> u < - 1"
| "seq_legal (Erase l u) \<longleftrightarrow> 0 < l \<and> l \<le> u \<and> u < - 1"
| "seq_legal (IsRecorded l u) \<longleftrightarrow> l \<le> u"
| "seq_legal (RecordIfNot l u) \<longleftrightarrow> 0 < l \<and> l \<le> u \<and> u < - 1"
| "seq_legal Largest \<longleftrightarrow> True"

text \<open>The set after a call that gave this answer, and the answers a set allows; a refusal leaves the set as it was.\<close>

fun set_after :: "seq_op \<Rightarrow> seq_answer \<Rightarrow> 64 word set \<Rightarrow> 64 word set" where
  "set_after (Record l u) (Done ok) X = (if ok then X \<union> {l..u} else X)"
| "set_after (Erase l u) (Done ok) X = (if ok then X - {l..u} else X)"
| "set_after (RecordIfNot l u) (ClassDone c ok) X = (if c = NO \<and> ok then X \<union> {l..u} else X)"
| "set_after _ _ X = X"

fun allowed :: "seq_op \<Rightarrow> seq_answer \<Rightarrow> 64 word set \<Rightarrow> bool" where
  "allowed (Record l u) (Done ok) X \<longleftrightarrow> True"
| "allowed (Erase l u) (Done ok) X \<longleftrightarrow> True"
| "allowed (IsRecorded l u) (Class c) X \<longleftrightarrow> c = range_class l u X"
| "allowed (RecordIfNot l u) (ClassDone c ok) X \<longleftrightarrow> c = range_class l u X \<and> (c \<noteq> NO \<longrightarrow> ok)"
| "allowed Largest (Number n) X \<longleftrightarrow> {1..n} \<subseteq> X \<and> n + 1 \<notin> X"
| "allowed _ _ X \<longleftrightarrow> False"

fun sets_after :: "seq_op list \<Rightarrow> seq_answer list \<Rightarrow> 64 word set \<Rightarrow> 64 word set option" where
  "sets_after [] [] X = Some X"
| "sets_after (c # cs) (a # as) X = (if allowed c a X then sets_after cs as (set_after c a X) else None)"
| "sets_after _ _ X = None"

definition fixed_size :: "stl \<Rightarrow> bool" where
  "fixed_size s \<longleftrightarrow> growBy s = 0 \<and> shrinkBy s = 0"

lemma fixed_size_facts:
  assumes "fixed_size s"
  shows "\<not> moves s" "shrinkBy s = 0" "same_growth s s' \<Longrightarrow> fixed_size s'" "fixed_size (s\<lparr>hintp := p\<rparr>)"
  using assms by (auto simp: fixed_size_def moves_def refused_def same_growth_def)

lemma seq_call_ok:
  assumes h: "holds s X" and f: "fixed_size s" and legal: "seq_legal c"
  shows "\<exists>a s'. seq_call c s = Some (a, s') \<and> allowed c a X \<and> holds s' (set_after c a X) \<and> fixed_size s'"
proof (cases c)
  case (Record l u)
  with legal record_ok [OF h, of l u] fixed_size_facts [OF f] show ?thesis by fastforce
next
  case (Erase l u)
  with legal erase_ok [OF h, of l u] fixed_size_facts [OF f] show ?thesis by fastforce
next
  case (IsRecorded l u)
  with legal isRecorded_ok [OF h, of l u] fixed_size_facts [OF f] show ?thesis by fastforce
next
  case (RecordIfNot l u)
  with legal obtain st s' where r: "recordIfNotRecorded l u s = Some (range_class l u X, st, s')" "same_growth s s'"
    "if range_class l u X = NO then if st then holds s' (X \<union> {l..u}) else holds s' X \<and> refused s else st \<and> holds s' X"
    using rinr_ok [OF h, of l u] by auto
  with RecordIfNot fixed_size_facts [OF f] show ?thesis by (auto split: if_splits)
next
  case Largest
  with largest_ok [OF h] h f show ?thesis by auto
qed

lemma seq_calls_ok:
  assumes "holds s X" and "fixed_size s" and "list_all seq_legal cs"
  shows "\<exists>as s' X'. seq_calls cs s = Some (as, s') \<and> sets_after cs as X = Some X' \<and> holds s' X' \<and> fixed_size s'"
  using assms
proof (induction cs arbitrary: s X)
  case (Cons c cs)
  then obtain a s1 where "seq_call c s = Some (a, s1)" "allowed c a X" "holds s1 (set_after c a X)" "fixed_size s1"
    using seq_call_ok [of s X c] by auto
  moreover from Cons.IH [OF this(3,4)] Cons.prems(3) obtain as s2 X' where
    "seq_calls cs s1 = Some (as, s2)" "sets_after cs as (set_after c a X) = Some X'" "holds s2 X'" "fixed_size s2" by auto
  ultimately show ?case by auto
qed auto

subsection \<open>The number of elements\<close>

text \<open>The numbers at which a run of consecutive members begins; 0 is never a member.\<close>

definition run_starts :: "64 word set \<Rightarrow> 64 word set" where
  "run_starts X = {x \<in> X. x - 1 \<notin> X}"

lemma starts_sep:
  assumes "sep rs"
  shows "run_starts (den rs) = fst ` set rs \<and> distinct (map fst rs)"
  using assms
proof (induction rs)
  case (Cons r rs)
  obtain a b where r: "r = (a, b)" by fastforce
  have s: "0 < a" "a \<le> b" "b < - 1" "sep rs" "rs \<noteq> [] \<Longrightarrow> b + 1 < fst (hd rs)" using Cons.prems unfolding r sep_Cons by auto
  have above: "b + 1 < x" if "x \<in> den rs" for x
  proof -
    have "rs \<noteq> []" using that by auto
    with den_bounds [OF s(4) that] s(5) show ?thesis by (auto dest: less_le_trans)
  qed
  note IH = Cons.IH [OF s(4)]
  have "x - 1 \<notin> {a..b}" if "x \<in> den rs" for x using above [OF that] s(3) by (auto simp: range_arith)
  moreover have "x - 1 \<notin> den rs" if "x \<in> {a..b}" for x using above [of "x - 1"] that s(1,3) by (auto simp: range_arith)
  moreover have "x = a" if "x \<in> {a..b}" "x - 1 \<notin> {a..b}" for x
  proof -
    have "0 < x" using that(1) s(1) by (auto dest: less_le_trans)
    with that show ?thesis by (auto simp: range_arith word_unat_eq_iff)
  qed
  moreover have "a \<in> {a..b}" "a - 1 \<notin> {a..b}" using s(1-3) by (auto simp: range_arith)
  ultimately have "run_starts (den (r # rs)) = insert a (run_starts (den rs))"
    unfolding run_starts_def r den_simps by blast
  moreover have "a \<notin> fst ` set rs"
  proof
    assume "a \<in> fst ` set rs"
    then have "a \<in> den rs" using IH by (auto simp: run_starts_def)
    from above [OF this] s(2,3) show False by (auto simp: range_arith)
  qed
  ultimately show ?case using IH r by auto
qed (simp add: run_starts_def)

lemma holds_size:
  assumes "holds s X"
  shows "listSize s = int (card (run_starts X)) \<and> listSize s \<le> arraySize s"
proof -
  from assms obtain xs fs where rep: "stl_rep s xs fs" and sep: "sep (ranges s xs)" and X: "X = den (ranges s xs)" by (rule holdsE)
  have "card (run_starts X) = length (ranges s xs)"
    using starts_sep [OF sep] distinct_card [of "map fst (ranges s xs)"] by (simp add: X)
  then show ?thesis using rep_sizes [OF rep] by (simp add: ranges_def)
qed

subsection \<open>The claims\<close>

text \<open>A memory in which nothing is allocated.\<close>

definition no_heap :: stl where
  "no_heap = \<lparr>s_next = \<lambda>_. 0, s_prev = \<lambda>_. 0, s_lower = \<lambda>_. 0, s_upper = \<lambda>_. 0, s_live = \<lambda>_. False, s_brk = 1,
     s_allocs = [], baseArray = 0, arraySize = 0, listSize = 0, growBy = 0, shrinkBy = 0, headp = 0, freep = 0, hintp = 0\<rparr>"

lemma no_heap_ok: "no_memory no_heap" "s_allocs no_heap = []"
  by (simp_all add: no_heap_def no_memory_def)

lemma no_heap_list:
  assumes "0 \<le> n" "0 \<le> g" "0 \<le> k"
  shows "\<exists>s. mk_stl n g k sh no_heap = Some s \<and> holds s {} \<and> growBy s = (if sh then 0 else g)
    \<and> shrinkBy s = (if sh then 0 else k) \<and> listSize s = 0 \<and> arraySize s = (if k \<noteq> 0 \<and> n > k then k else n)"
  using mk_stl_ok [OF no_heap_ok(1) assms] no_heap_ok(2) by simp

lemma find_lower_holds:
  assumes "holds s X"
  shows "\<exists>p s'. findNearestLowerSeqRangeListElement l s = Some (p, s') \<and> holds s' X \<and> same_growth s s' \<and> (p = 0 \<longleftrightarrow> X = {})"
proof -
  from assms obtain xs fs where rep: "stl_rep s xs fs" and sep: "sep (ranges s xs)" and X: "X = den (ranges s xs)" by (rule holdsE)
  show ?thesis
  proof (cases "xs = []")
    case True
    with find_lower_ok(1) [OF rep sep True] assms X show ?thesis by (auto simp: same_growth_def)
  next
    case False
    from locate [OF rep sep order_refl False, of l] obtain x where
      "findNearestLowerSeqRangeListElement l s = Some (x, s\<lparr>hintp := x\<rparr>)" "x \<noteq> 0" "stl_rep (s\<lparr>hintp := x\<rparr>) xs fs" by metis
    moreover have "fst (hd (ranges s xs)) \<in> X"
      using False sep X by (cases xs) (auto simp: sep_Cons ranges_def)
    moreover have "same_growth s (s\<lparr>hintp := x\<rparr>)" by (simp add: same_growth_def)
    ultimately show ?thesis using holdsI [of "s\<lparr>hintp := x\<rparr>" xs fs] sep X by auto
  qed
qed

text \<open>
  C32: \<^verbatim>\<open>SeqTrackingList::record\<close>. On a well-formed list that holds the set \<open>X\<close>, recording \<open>l..u\<close> returns without
  touching released memory. It returns true and changes nothing for \<open>l = 0\<close>, the number that means ``no sequence
  number'', and false with nothing changed for an empty range. For every other range it returns true, and the list then
  holds \<open>X \<union> {l..u}\<close>, unless a new element is needed --- \<open>X\<close> has no number from \<open>l - 1\<close> to \<open>u + 1\<close>, so that there is no
  range to merge with --- and none can be had, since all are in use and the array cannot grow: then, and only then, it
  returns false with the set unchanged. Two conditions: \<open>u + 1\<close> does not wrap, and the list does not shrink its array
  (\<open>shrinkBy = 0\<close>) or the range is a single number; a list that shrinks, such as one with the default constructor, is
  not covered for longer ranges, where joining several ranges can use pointers into an array already released
  (\<open>seq_record_after_shrink_undefined\<close>).\<close>

theorem seq_record_correct:
  assumes "holds s X" and "u < - 1" and "shrinkBy s = 0 \<or> l = u"
  shows "\<exists>ok s'. record_range l u s = Some (ok, s') \<and> same_growth s s'
    \<and> (if l = 0 then ok \<and> holds s' X else if u < l then \<not> ok \<and> holds s' X
       else (ok \<longleftrightarrow> \<not> (refused s \<and> X \<inter> {l - 1..u + 1} = {})) \<and> holds s' (if ok then X \<union> {l..u} else X))"
proof (cases "l = 0 \<or> u < l")
  case True
  from find_lower_holds [OF assms(1), of l] obtain p s' where
    s': "findNearestLowerSeqRangeListElement l s = Some (p, s')" "holds s' X" "same_growth s s'" by blast
  then have "record_range l u s = Some (l = 0, s')" using True by (cases "l = 0") (simp_all add: record_range_def)
  with s' True show ?thesis by (intro exI [of _ "l = 0"] exI [of _ s']) (cases "l = 0"; simp)
next
  case False
  then have lu: "0 < l" "l \<le> u" by (simp_all add: word_gt_0 not_less)
  from record_ok [OF assms(1) lu assms(2,3)] obtain ok s' where
    r: "record_range l u s = Some (ok, s')" "same_growth s s'" "if ok then holds s' (X \<union> {l..u}) else holds s' X \<and> refused s"
    by blast
  from record_answer [OF assms(1) lu assms(2,3) r(1)] have "ok \<longleftrightarrow> \<not> (refused s \<and> X \<inter> {l - 1..u + 1} = {})"
    by (simp add: fresh_def)
  moreover have "holds s' (if ok then X \<union> {l..u} else X)" using r(3) by (cases ok) simp_all
  ultimately have "\<exists>ok s'. record_range l u s = Some (ok, s') \<and> same_growth s s'
      \<and> (ok \<longleftrightarrow> \<not> (refused s \<and> X \<inter> {l - 1..u + 1} = {})) \<and> holds s' (if ok then X \<union> {l..u} else X)" using r(1,2) by blast
  then show ?thesis using False by (simp only: de_Morgan_disj if_False)
qed

text \<open>A list of fixed size with two elements, both in use.\<close>

lemma demo_list:
  "\<exists>s s'. mk_stl 2 0 0 False no_heap = Some s \<and> seq_calls [Record 4 9, Record 20 20] s = Some ([Done True, Done True], s')
    \<and> holds s' ({4..9} \<union> {20..20}) \<and> listSize s' = 2 \<and> arraySize s' = 2 \<and> growBy s' = 0 \<and> shrinkBy s' = 0"
proof -
  from no_heap_list [of 2 0 0 False] obtain s where
    s: "mk_stl 2 0 0 False no_heap = Some s" "holds s {}" "fixed_size s" by (auto simp: fixed_size_def)
  have "map_option (\<lambda>(as, s'). (as, listSize s', arraySize s'))
      (Option.bind (mk_stl 2 0 0 False no_heap) (seq_calls [Record 4 9, Record 20 20])) = Some ([Done True, Done True], 2, 2)"
    by code_simp
  then obtain s' where s': "seq_calls [Record 4 9, Record 20 20] s = Some ([Done True, Done True], s')" "listSize s' = 2" "arraySize s' = 2"
    using s(1) by (auto simp del: seq_calls.simps)
  from seq_calls_ok [OF s(2,3), of "[Record 4 9, Record 20 20]"] s'(1)
  have "holds s' ({4..9} \<union> {20..20})" "fixed_size s'" by auto
  with s(1) s' show ?thesis by (auto simp: fixed_size_def)
qed

theorem seq_record_correct_witness:
  "\<exists>s s'. mk_stl 2 0 0 False no_heap = Some s \<and> seq_calls [Record 4 9, Record 20 20] s = Some ([Done True, Done True], s')
    \<and> (\<exists>s''. record_range 12 15 s' = Some (False, s'') \<and> holds s'' ({4..9} \<union> {20..20}))
    \<and> (\<exists>s''. record_range 10 12 s' = Some (True, s'') \<and> holds s'' (({4..9} \<union> {20..20}) \<union> {10..12}))"
proof -
  from demo_list obtain s s' where
    s: "mk_stl 2 0 0 False no_heap = Some s" "seq_calls [Record 4 9, Record 20 20] s = Some ([Done True, Done True], s')"
      "holds s' ({4..9} \<union> {20..20})" "listSize s' = 2" "arraySize s' = 2" "growBy s' = 0" "shrinkBy s' = 0" by blast
  have ref: "refused s'" using s by (simp add: refused_def)
  have "({4..9} \<union> {20..20}) \<inter> {(12::64 word) - 1..15 + 1} = {}" by (auto simp: range_arith)
  with seq_record_correct [OF s(3), of 15 12] s(7) ref
  have "\<exists>s''. record_range 12 15 s' = Some (False, s'') \<and> holds s'' ({4..9} \<union> {20..20})" by auto
  moreover have "(9::64 word) \<in> ({4..9} \<union> {20..20}) \<inter> {10 - 1..12 + 1}" by simp
  then have "({4..9} \<union> {20..20}) \<inter> {(10::64 word) - 1..12 + 1} \<noteq> {}" by blast
  with seq_record_correct [OF s(3), of 12 10] s(7)
  have "\<exists>s''. record_range 10 12 s' = Some (True, s'') \<and> holds s'' (({4..9} \<union> {20..20}) \<union> {10..12})" by auto
  ultimately show ?thesis using s(1,2) by blast
qed

text \<open>
  C33: \<^verbatim>\<open>SeqTrackingList::erase\<close>, for a range \<open>l..u\<close> that is not empty and whose \<open>u + 1\<close> does not wrap, on a well-formed
  list that holds \<open>X\<close> and does not shrink its array (\<open>shrinkBy = 0\<close>), or for a single number on any list; erasing
  several numbers from a list that shrinks, such as one with the default constructor, is not covered, since the array
  can then be released while \<^verbatim>\<open>erase\<close> still uses it. Under these conditions the outcome depends on whether \<open>l\<close> to
  \<open>u + 1\<close> are all in \<open>X\<close>, where the code asks for an element to hold what lies above \<open>u\<close>. If they are and the request
  moves the array (none free, and the array can grow), the code goes on with a pointer into the released array: the
  call is undefined. If they are and no element can be had, it returns false with \<open>X\<close> unchanged. In every other case it
  returns true and the list holds \<open>X - {l..u}\<close>.\<close>

theorem seq_erase_correct:
  assumes "holds s X" and "0 < l" and "l \<le> u" and "u < - 1" and "shrinkBy s = 0 \<or> l = u"
  shows "if {l..u + 1} \<subseteq> X \<and> moves s then erase_range l u s = None
    else \<exists>ok s'. erase_range l u s = Some (ok, s') \<and> same_growth s s'
      \<and> (ok \<longleftrightarrow> \<not> (refused s \<and> {l..u + 1} \<subseteq> X)) \<and> holds s' (if ok then X - {l..u} else X)"
proof (cases "{l..u + 1} \<subseteq> X \<and> moves s")
  case True
  with erase_stale [OF assms(1-4)] show ?thesis by simp
next
  case False
  with erase_ok [OF assms] obtain ok s' where r: "erase_range l u s = Some (ok, s')" "same_growth s s'"
    "if ok then holds s' (X - {l..u}) else holds s' X \<and> refused s" by blast
  have "ok \<longleftrightarrow> \<not> (refused s \<and> {l..u + 1} \<subseteq> X)"
  proof (cases ok)
    case True
    then show ?thesis using erase_refused [OF assms(1-4)] r(1) by fastforce
  next
    case False
    then show ?thesis using erase_granted [OF assms(1-4) _ r(1)] r(3) by metis
  qed
  moreover have "holds s' (if ok then X - {l..u} else X)" using r(3) by (cases ok) simp_all
  ultimately have "\<exists>ok s'. erase_range l u s = Some (ok, s') \<and> same_growth s s'
      \<and> (ok \<longleftrightarrow> \<not> (refused s \<and> {l..u + 1} \<subseteq> X)) \<and> holds s' (if ok then X - {l..u} else X)" using r(1,2) by blast
  then show ?thesis unfolding if_not_P [OF False] .
qed

theorem seq_erase_correct_witness:
  "\<exists>s s'. mk_stl 2 0 0 False no_heap = Some s \<and> seq_calls [Record 4 9, Record 20 20] s = Some ([Done True, Done True], s')
    \<and> (\<exists>s''. erase_range 5 6 s' = Some (False, s'') \<and> holds s'' ({4..9} \<union> {20..20}))
    \<and> (\<exists>s''. erase_range 7 20 s' = Some (True, s'') \<and> holds s'' (({4..9} \<union> {20..20}) - {7..20}))"
proof -
  from demo_list obtain s s' where
    s: "mk_stl 2 0 0 False no_heap = Some s" "seq_calls [Record 4 9, Record 20 20] s = Some ([Done True, Done True], s')"
      "holds s' ({4..9} \<union> {20..20})" "listSize s' = 2" "arraySize s' = 2" "growBy s' = 0" "shrinkBy s' = 0" by blast
  have ref: "refused s'" "\<not> moves s'" using s by (simp_all add: refused_def moves_def)
  have "{5..6 + 1} \<subseteq> {4..9} \<union> {20..20 :: 64 word}" by (auto simp: range_arith)
  with seq_erase_correct [OF s(3), of 5 6] s(7) ref
  have "\<exists>s''. erase_range 5 6 s' = Some (False, s'') \<and> holds s'' ({4..9} \<union> {20..20})" by auto
  moreover have "(12::64 word) \<in> {7..20 + 1} - ({4..9} \<union> {20..20})" by simp
  then have "\<not> {7..20 + 1} \<subseteq> {4..9} \<union> {20..20 :: 64 word}" by blast
  with seq_erase_correct [OF s(3), of 7 20] s(7) ref(2)
  have "\<exists>s''. erase_range 7 20 s' = Some (True, s'') \<and> holds s'' (({4..9} \<union> {20..20}) - {7..20})" by auto
  ultimately show ?thesis using s(1,2) by blast
qed

text \<open>
  Termination of the searches. On a well-formed list that holds \<open>X\<close> the two search loops of \<^verbatim>\<open>isRecorded\<close> end, from
  whatever element the last search found, and the answer is COMPLETE, PARTIAL or NO as all, some or none of \<open>l..u\<close> is in
  \<open>X\<close>; the set is unchanged. \<^verbatim>\<open>largestInOrder\<close> returns the largest \<open>n\<close> such that 1 to \<open>n\<close> are all in \<open>X\<close>.\<close>

theorem seq_queries_terminate:
  assumes "holds s X" and "l \<le> u"
  shows "\<exists>n s'. isRecorded l u s = Some (range_class l u X, s') \<and> holds s' X
    \<and> largestInOrder s = Some n \<and> {1..n} \<subseteq> X \<and> n + 1 \<notin> X"
  using isRecorded_ok [OF assms] largest_ok [OF assms(1)] by blast

theorem seq_queries_terminate_witness:
  "\<exists>s s'. mk_stl 3 0 0 False no_heap = Some s \<and> isRecorded 4 9 s = Some (NO, s')"
proof -
  from no_heap_list [of 3 0 0 False] obtain s where s: "mk_stl 3 0 0 False no_heap = Some s" "holds s {}" by auto
  with seq_queries_terminate [of s "{}" 4 9] show ?thesis by (auto simp: range_class_def)
qed

text \<open>
  C15: The invariant of the lists of fixed size, as the collective operations keep them in shared memory. After the
  constructor with room for \<open>n\<close> ranges and any number of legal calls, no call has touched memory outside the array or
  looped, each answer is one that the set allows, and the list is well formed and holds exactly the set that the
  successful calls describe.\<close>

theorem seq_session_invariant:
  assumes "0 \<le> n" and "list_all seq_legal cs"
  shows "\<exists>s as s' X. mk_stl n 0 0 True no_heap = Some s \<and> seq_calls cs s = Some (as, s')
    \<and> sets_after cs as {} = Some X \<and> holds s' X \<and> fixed_size s'"
proof -
  from no_heap_list [of n 0 0 True] assms(1) obtain s where
    s: "mk_stl n 0 0 True no_heap = Some s" "holds s {}" "fixed_size s" by (auto simp: fixed_size_def)
  with seq_calls_ok [OF s(2,3) assms(2)] show ?thesis by blast
qed

theorem seq_session_invariant_witness:
  "\<exists>s as s'. mk_stl 50 0 0 True no_heap = Some s
    \<and> seq_calls [RecordIfNot 3 3, Record 1 2, Erase 2 2, Largest] s = Some (as, s')"
  using seq_session_invariant [of 50 "[RecordIfNot 3 3, Record 1 2, Erase 2 2, Largest]"] by auto

text \<open>
  The size of a list. A well-formed list uses one element for every run of consecutive members, the least that a list
  of ranges can do with, and never more elements than the array has.\<close>

theorem seq_list_size:
  assumes "holds s X"
  shows "listSize s = int (card (run_starts X)) \<and> 0 \<le> listSize s \<and> listSize s \<le> arraySize s"
  using holds_size [OF assms] by simp

theorem seq_list_size_witness: "\<exists>s. mk_stl 3 0 0 False no_heap = Some s \<and> 0 \<le> listSize s \<and> listSize s \<le> arraySize s"
proof -
  from no_heap_list [of 3 0 0 False] obtain s where s: "mk_stl 3 0 0 False no_heap = Some s" "holds s {}" by auto
  with seq_list_size [of s "{}"] show ?thesis by auto
qed

text \<open>
  Recording a range that joins several others in a list that shrinks its array. With the array of the constructor
  \<open>(2, 1, 2)\<close> and five ranges, recording \<open>5..18\<close> frees the ranges in between; that shrinks the array, and the loop goes on
  with the pointers into the array it has just released.\<close>

theorem seq_record_after_shrink_undefined:
  "\<exists>s s'. mk_stl 2 1 2 False no_heap = Some s
    \<and> seq_calls [Record 5 6, Record 8 9, Record 11 12, Record 15 16, Record 18 19] s = Some (replicate 5 (Done True), s')
    \<and> record_range 5 18 s' = None"
proof -
  let ?cs = "[Record 5 6, Record 8 9, Record 11 12, Record 15 16, Record 18 19]"
  have "map_option (\<lambda>(as, s'). (as, record_range 5 18 s' = None)) (Option.bind (mk_stl 2 1 2 False no_heap) (seq_calls ?cs))
      = Some (replicate 5 (Done True), True)"
    by code_simp
  then show ?thesis by (auto simp del: seq_calls.simps split: bind_splits)
qed

end
