(* ===== verification/Reliability.thy ===== *)
theory Reliability
  imports Seq_Session
begin

section \<open>The reliability protocol\<close>

text \<open>
  The handling of fragment sequence numbers and acknowledgements when \<^verbatim>\<open>ENABLE_RELIABILITY\<close> is defined: on the receiving
  side the duplicate check at the head of \<^verbatim>\<open>Communicator::handleReceivedFrag\<close> and \<^verbatim>\<open>matchReceivedFrag\<close>
  (\<^verbatim>\<open>queue/Pt2PtGroupRecvFrags.cc\<close>) and \<^verbatim>\<open>BaseRecvFragDesc_t::processRecvDataSeqs\<close> (\<^verbatim>\<open>path/common/BaseDesc.cc\<close>), on the
  sending side the numbering of fragments (\<^verbatim>\<open>path/common/path.h\<close>) and the handling of an acknowledgement
  (\<^verbatim>\<open>checkForDuplicateAndNonSpecificAck\<close>, \<^verbatim>\<open>handlePt2PtMessageAck\<close>).

  \<open>rel_info\<close> holds what one process keeps in \<^verbatim>\<open>ReliabilityInfo\<close>, per peer. The memory of each sequence tracking list is a
  part of that list. \<open>None\<close> is undefined behaviour as before; \<^verbatim>\<open>ulm_exit\<close>, which ends the process, is \<open>Exits\<close>. The locks
  are left out, as one thread is modelled.
\<close>

datatype 'a ended = Exits | Returns 'a

record ackinfo =
  delivered_largest_inorder_seq :: "64 word"
  received_largest_inorder_seq :: "64 word"

record rel_info =
  next_frag_seqs :: "64 word list"
  receivedDataSeqs :: "stl list"
  deliveredDataSeqs :: "stl list"
  sender_ackinfo :: "ackinfo list"

record rfrag =
  seq_m :: "64 word"
  isDuplicate_m :: int
  DataOK :: bool
  msgType_m :: int

record base_ack =
  thisFragSeq :: "64 word"
  receivedFragSeq :: "64 word"
  deliveredFragSeq :: "64 word"
  ackStatus :: int

abbreviation (input) UNIQUE_FRAG :: int where "UNIQUE_FRAG \<equiv> 0"
abbreviation (input) DUPLICATE_RECEIVED :: int where "DUPLICATE_RECEIVED \<equiv> 1"
abbreviation (input) DUPLICATE_DELIVERD :: int where "DUPLICATE_DELIVERD \<equiv> 2"
abbreviation (input) ACKSTATUS_DATAGOOD :: int where "ACKSTATUS_DATAGOOD \<equiv> 1"
abbreviation (input) ACKSTATUS_DATACORRUPT :: int where "ACKSTATUS_DATACORRUPT \<equiv> 2"
abbreviation (input) ACKSTATUS_AGGINFO_ONLY :: int where "ACKSTATUS_AGGINFO_ONLY \<equiv> 4"
abbreviation (input) MSGTYPE_PT2PT :: int where "MSGTYPE_PT2PT \<equiv> 0"
abbreviation (input) MSGTYPE_PT2PT_SYNC :: int where "MSGTYPE_PT2PT_SYNC \<equiv> 1"

subsection \<open>Set-up\<close>

text \<open>The point-to-point part of the constructor: counters start at 1, lists with the default arguments. \<open>mem\<close> is the
  memory each list finds.\<close>

definition mk_rel_info :: "nat \<Rightarrow> stl \<Rightarrow> rel_info option" where
  "mk_rel_info nprocs mem = do {
     l \<leftarrow> mk_stl 0 10 20 False mem;
     Some \<lparr>next_frag_seqs = replicate nprocs 1, receivedDataSeqs = replicate nprocs l, deliveredDataSeqs = replicate nprocs l,
           sender_ackinfo = replicate nprocs \<lparr>delivered_largest_inorder_seq = 0, received_largest_inorder_seq = 0\<rparr>\<rparr>
   }"

subsection \<open>The receiving side\<close>

text \<open>What becomes of a fragment that came in: it is a duplicate and is dropped, it is a duplicate and an acknowledgement
  is due, or it is new and is to be matched.\<close>

datatype arrival = Drop | AckDuplicate | Accept

definition set_nth :: "nat \<Rightarrow> 'a \<Rightarrow> 'a list \<Rightarrow> 'a list option" where
  "set_nth i x xs = (if i < length xs then Some (xs[i := x]) else None)"

definition get_nth :: "nat \<Rightarrow> 'a list \<Rightarrow> 'a option" where
  "get_nth i xs = (if i < length xs then Some (xs ! i) else None)"

definition arrive_check :: "nat \<Rightarrow> rfrag \<Rightarrow> rel_info \<Rightarrow> (arrival \<times> rfrag \<times> rel_info) ended option" where
  "arrive_check src f r =
     (if seq_m f \<noteq> 0 then do {
        rl \<leftarrow> get_nth src (receivedDataSeqs r);
        (dup, recorded, rl1) \<leftarrow> recordIfNotRecorded_seq (seq_m f) rl;
        rls \<leftarrow> set_nth src rl1 (receivedDataSeqs r);
        let r1 = r\<lparr>receivedDataSeqs := rls\<rparr>;
        (if dup then do {
           dl \<leftarrow> get_nth src (deliveredDataSeqs r1);
           (deliv, dl1) \<leftarrow> isRecorded_seq (seq_m f) dl;
           dls \<leftarrow> set_nth src dl1 (deliveredDataSeqs r1);
           let r2 = r1\<lparr>deliveredDataSeqs := dls\<rparr>;
           (if deliv then Some (Returns (AckDuplicate, f\<lparr>isDuplicate_m := DUPLICATE_DELIVERD, DataOK := True\<rparr>, r2))
            else do {
              n \<leftarrow> largestInOrder rl1;
              Some (Returns (if n \<ge> seq_m f then (AckDuplicate, f\<lparr>isDuplicate_m := DUPLICATE_RECEIVED\<rparr>, r2) else (Drop, f, r2)))
            })
         } else if \<not> recorded then Some Exits
         else Some (Returns (Accept, f, r1)))
      } else Some (Returns (Accept, f, r)))"

text \<open>The copy of this check in \<^verbatim>\<open>matchReceivedFrag\<close> marks both kinds of duplicate with \<^verbatim>\<open>true\<close>, that is 1.\<close>

definition match_check :: "nat \<Rightarrow> rfrag \<Rightarrow> rel_info \<Rightarrow> (arrival \<times> rfrag \<times> rel_info) ended option" where
  "match_check src f r =
     (if seq_m f \<noteq> 0 then do {
        rl \<leftarrow> get_nth src (receivedDataSeqs r);
        (dup, recorded, rl1) \<leftarrow> recordIfNotRecorded_seq (seq_m f) rl;
        rls \<leftarrow> set_nth src rl1 (receivedDataSeqs r);
        let r1 = r\<lparr>receivedDataSeqs := rls\<rparr>;
        (if dup then do {
           dl \<leftarrow> get_nth src (deliveredDataSeqs r1);
           (deliv, dl1) \<leftarrow> isRecorded_seq (seq_m f) dl;
           dls \<leftarrow> set_nth src dl1 (deliveredDataSeqs r1);
           let r2 = r1\<lparr>deliveredDataSeqs := dls\<rparr>;
           (if deliv then Some (Returns (AckDuplicate, f\<lparr>isDuplicate_m := 1\<rparr>, r2))
            else do {
              n \<leftarrow> largestInOrder rl1;
              Some (Returns (if n \<ge> seq_m f then (AckDuplicate, f\<lparr>isDuplicate_m := 1\<rparr>, r2) else (Drop, f, r2)))
            })
         } else if \<not> recorded then Some Exits
         else Some (Returns (Accept, f, r1)))
      } else Some (Returns (Accept, f, r)))"

text \<open>The lists after the data of a fragment was processed.\<close>

definition update_seqs :: "nat \<Rightarrow> rfrag \<Rightarrow> bool \<Rightarrow> rel_info \<Rightarrow> rel_info ended option" where
  "update_seqs src f good r =
     (if good then do {
        dl \<leftarrow> get_nth src (deliveredDataSeqs r);
        (_, recorded, dl1) \<leftarrow> recordIfNotRecorded_seq (seq_m f) dl;
        dls \<leftarrow> set_nth src dl1 (deliveredDataSeqs r);
        Some (if recorded then Returns (r\<lparr>deliveredDataSeqs := dls\<rparr>) else Exits)
      } else do {
        rl \<leftarrow> get_nth src (receivedDataSeqs r);
        (ok, rl1) \<leftarrow> erase_seq (seq_m f) rl;
        rls \<leftarrow> set_nth src rl1 (receivedDataSeqs r);
        Some (if ok then Returns (r\<lparr>receivedDataSeqs := rls\<rparr>) else Exits)
      })"

definition aggregate :: "nat \<Rightarrow> base_ack \<Rightarrow> rel_info \<Rightarrow> (base_ack \<times> rel_info) ended option" where
  "aggregate src a r = do {
     rl \<leftarrow> get_nth src (receivedDataSeqs r);
     n \<leftarrow> largestInOrder rl;
     dl \<leftarrow> get_nth src (deliveredDataSeqs r);
     m \<leftarrow> largestInOrder dl;
     Some (Returns (a\<lparr>receivedFragSeq := n, deliveredFragSeq := m\<rparr>, r))
   }"

definition processRecvDataSeqs :: "nat \<Rightarrow> base_ack \<Rightarrow> rfrag \<Rightarrow> rel_info \<Rightarrow> (base_ack \<times> rel_info) ended option" where
  "processRecvDataSeqs src a f r =
     (if isDuplicate_m f = 0 then
        if msgType_m f = MSGTYPE_PT2PT \<or> msgType_m f = MSGTYPE_PT2PT_SYNC then do {
          let a1 = a\<lparr>ackStatus := (if DataOK f then ACKSTATUS_DATAGOOD else ACKSTATUS_DATACORRUPT)\<rparr>;
          u \<leftarrow> update_seqs src f (ackStatus a1 = ACKSTATUS_DATAGOOD) r;
          (case u of Exits \<Rightarrow> Some Exits | Returns r1 \<Rightarrow> aggregate src a1 r1)
        } else Some Exits
      else aggregate src
        (if isDuplicate_m f = DUPLICATE_DELIVERD then a\<lparr>ackStatus := ACKSTATUS_DATAGOOD\<rparr>
         else if isDuplicate_m f = DUPLICATE_RECEIVED then a\<lparr>thisFragSeq := 0, ackStatus := ACKSTATUS_AGGINFO_ONLY\<rparr>
         else a) r)"

text \<open>\<^verbatim>\<open>AckData\<close> puts the number of the fragment into the acknowledgement and fills in the rest; the other fields of a fresh
  acknowledgement hold anything (\<open>a\<close>). Here is what all paths have in common. Sending the acknowledgement is up to the path and
  can fail; the descriptor then waits in \<^verbatim>\<open>UnprocessedAcks\<close>, and \<^verbatim>\<open>SendUnsentAcks\<close> calls \<^verbatim>\<open>AckData\<close> on it again, all of it.
  These calls are steps of their own in \<open>Reliability_System\<close>.\<close>

definition make_ack :: "nat \<Rightarrow> base_ack \<Rightarrow> rfrag \<Rightarrow> rel_info \<Rightarrow> (base_ack \<times> rel_info) ended option" where
  "make_ack src a f r = processRecvDataSeqs src (a\<lparr>thisFragSeq := seq_m f\<rparr>) f r"

subsection \<open>The sending side\<close>

text \<open>\<open>doAck\<close> is the answer of the path; the fields of the fragment that matter are whether its message is a synchronous send
  and whether it is the first fragment. The result is the sequence number the fragment gets.\<close>

definition initFragSeq :: "bool \<Rightarrow> bool \<Rightarrow> bool \<Rightarrow> nat \<Rightarrow> rel_info \<Rightarrow> (64 word \<times> rel_info) option" where
  "initFragSeq doAck synchronous firstFrag dest r =
     (if \<not> doAck \<and> (\<not> synchronous \<or> \<not> firstFrag) then Some (0, r)
      else do {
        n \<leftarrow> get_nth dest (next_frag_seqs r);
        ns \<leftarrow> set_nth dest (n + 1) (next_frag_seqs r);
        Some (n, r\<lparr>next_frag_seqs := ns\<rparr>)
      })"

text \<open>The acknowledgement \<open>a\<close> from process \<open>peer\<close> for the fragment whose descriptor now holds the number \<open>fragSeq\<close>. The result
  tells whether that was all there is to do.\<close>

definition checkForDuplicateAndNonSpecificAck :: "nat \<Rightarrow> int \<Rightarrow> base_ack \<Rightarrow> 64 word \<Rightarrow> rel_info \<Rightarrow> (bool \<times> rel_info) option" where
  "checkForDuplicateAndNonSpecificAck peer msgType a fragSeq r =
     (if msgType = MSGTYPE_PT2PT \<or> msgType = MSGTYPE_PT2PT_SYNC then do {
        t \<leftarrow> get_nth peer (sender_ackinfo r);
        let t1 = (if deliveredFragSeq a > delivered_largest_inorder_seq t
                  then t\<lparr>delivered_largest_inorder_seq := deliveredFragSeq a\<rparr> else t);
        let t2 = t1\<lparr>received_largest_inorder_seq := receivedFragSeq a\<rparr>;
        ts \<leftarrow> set_nth peer t2 (sender_ackinfo r);
        Some (ackStatus a = ACKSTATUS_AGGINFO_ONLY \<or> fragSeq \<noteq> thisFragSeq a, r\<lparr>sender_ackinfo := ts\<rparr>)
      } else Some (True, r))"

text \<open>What the sender then does with the fragment: nothing, count the acknowledgement and keep the fragment because the
  device has not finished sending it, release it, or put it back into the queue of fragments to send.\<close>

datatype ack_action = Ignore | Count | Release | SendAgain

text \<open>\<open>complete\<close> is the fragment's \<^verbatim>\<open>sendDidComplete()\<close>. In both positive cases \<^verbatim>\<open>NumAcked\<close> of the message is incremented, and
  the GM path sets the fragment's \<^verbatim>\<open>didReceiveAck\<close>.\<close>

definition handlePt2PtMessageAck :: "base_ack \<Rightarrow> bool \<Rightarrow> ack_action" where
  "handlePt2PtMessageAck a complete =
     (if ackStatus a = ACKSTATUS_DATAGOOD then if complete then Release else Count
      else if ackStatus a = ACKSTATUS_DATACORRUPT then SendAgain else Ignore)"

definition process_ack :: "nat \<Rightarrow> int \<Rightarrow> base_ack \<Rightarrow> 64 word \<Rightarrow> bool \<Rightarrow> rel_info \<Rightarrow> (ack_action \<times> rel_info) option" where
  "process_ack peer msgType a fragSeq complete r = do {
     (finished, r1) \<leftarrow> checkForDuplicateAndNonSpecificAck peer msgType a fragSeq r;
     Some (if finished then Ignore else handlePt2PtMessageAck a complete, r1)
   }"

text \<open>What \<^verbatim>\<open>BasePath_t::resend\<close> does with a fragment on the list of fragments to be acknowledged. When the aggregate
  information of another acknowledgement shows that it was delivered, it is taken off that list and counted, and released
  if the device has finished with it (\<^verbatim>\<open>BasePath_t::freeResources\<close>); when it has timed out it is sent again.\<close>

definition resend_action :: "nat \<Rightarrow> 64 word \<Rightarrow> bool \<Rightarrow> bool \<Rightarrow> rel_info \<Rightarrow> ack_action option" where
  "resend_action dest fragSeq complete timed_out r = do {
     t \<leftarrow> get_nth dest (sender_ackinfo r);
     Some (if delivered_largest_inorder_seq t \<ge> fragSeq then if complete then Release else Count
           else if timed_out then SendAgain else Ignore)
   }"

text \<open>The end of the callback by which the GM device reports that a fragment was sent, after \<^verbatim>\<open>setSendDidComplete(true)\<close>. The
  other paths set the flag and do nothing else.\<close>

definition send_callback :: "bool \<Rightarrow> bool \<Rightarrow> bool \<Rightarrow> bool \<Rightarrow> ack_action" where
  "send_callback doAck synchronous firstFrag didReceiveAck =
     (if synchronous \<and> firstFrag then if didReceiveAck then Release else Ignore
      else if \<not> doAck then Release else if didReceiveAck then Release else Ignore)"

end
