(* ===== verification/Reliability_Props.thy ===== *)
theory Reliability_Props
  imports Reliability
begin

section \<open>The receiver keeps two sets of numbers\<close>

text \<open>
  What the protocol needs of a list of sequence numbers is the interface \<open>number_set\<close>; the tracking lists are an instance.
  With it, the operations of the receiver become operations on the set \<open>R\<close> of the numbers received and the set \<open>D\<close> of the
  numbers delivered (\<open>rel_rep\<close>).
\<close>

subsection \<open>The interface of the tracking lists\<close>

locale number_set =
  fixes has :: "'s \<Rightarrow> 64 word set \<Rightarrow> bool"
    and enter :: "64 word \<Rightarrow> 's \<Rightarrow> (bool \<times> bool \<times> 's) option"
    and member :: "64 word \<Rightarrow> 's \<Rightarrow> (bool \<times> 's) option"
    and remove :: "64 word \<Rightarrow> 's \<Rightarrow> (bool \<times> 's) option"
    and largest :: "'s \<Rightarrow> 64 word option"
  assumes enter: "has s X \<Longrightarrow> 0 < q \<Longrightarrow> q < - 1 \<Longrightarrow>
      \<exists>ok s'. enter q s = Some (q \<in> X, ok, s') \<and> (if q \<in> X then ok \<and> has s' X else has s' (if ok then insert q X else X))"
    and member: "has s X \<Longrightarrow> \<exists>s'. member q s = Some (q \<in> X, s') \<and> has s' X"
    and remove: "has s X \<Longrightarrow> 0 < q \<Longrightarrow> q < - 1 \<Longrightarrow> remove q s = Some (ok, s') \<Longrightarrow> has s' (if ok then X - {q} else X)"
    and largest: "has s X \<Longrightarrow> \<exists>n. largest s = Some n \<and> {1..n} \<subseteq> X \<and> n + 1 \<notin> X"
begin

lemma enter_twice:
  assumes "has s X" "0 < q" "q < - 1" and "enter q s = Some (b, True, s')"
  shows "\<exists>s''. enter q s' = Some (True, True, s'')"
  using enter [OF assms(1-3)] enter [of s' "insert q X" q] enter [of s' X q] assms by (auto simp: insert_absorb split: if_splits)

lemma removed_is_new:
  assumes "has s X" "0 < q" "q < - 1" and "remove q s = Some (True, s')"
  shows "\<exists>ok s''. enter q s' = Some (False, ok, s'') \<and> (ok \<longrightarrow> has s'' (insert q X))"
  using remove [OF assms] enter [of s' "X - {q}" q] assms(2,3) by (auto split: if_splits)

lemma below_largest: "has s X \<Longrightarrow> largest s = Some n \<Longrightarrow> 0 < q \<Longrightarrow> q \<le> n \<Longrightarrow> q \<in> X"
  using largest [of s X] by (auto simp: word_le_nat_alt word_less_nat_alt Suc_le_eq)

end

lemma class_single: "range_class q q X = (if q \<in> X then COMPLETE else NO)"
  by (auto simp: range_class_def)

interpretation sl: number_set holds recordIfNotRecorded_seq isRecorded_seq erase_seq largestInOrder
proof
  fix s X and q :: "64 word" assume h: "holds s X" and q: "0 < q" "q < - 1"
  from rinr_ok [OF h q(1) order_refl q(2)] obtain st s' where
    r: "recordIfNotRecorded q q s = Some (range_class q q X, st, s')"
      "if range_class q q X = NO then if st then holds s' (X \<union> {q..q}) else holds s' X \<and> refused s else st \<and> holds s' X" by blast
  then show "\<exists>ok s'. recordIfNotRecorded_seq q s = Some (q \<in> X, ok, s')
      \<and> (if q \<in> X then ok \<and> holds s' X else holds s' (if ok then insert q X else X))"
    by (auto simp: recordIfNotRecorded_seq_def class_single split: if_splits)
next
  fix s X and q :: "64 word" assume "holds s X"
  from isRecorded_ok [OF this order_refl, of q] show "\<exists>s'. isRecorded_seq q s = Some (q \<in> X, s') \<and> holds s' X"
    by (auto simp: isRecorded_seq_def class_single)
next
  fix s X ok s' and q :: "64 word" assume h: "holds s X" and q: "0 < q" "q < - 1" and e: "erase_seq q s = Some (ok, s')"
  have "\<not> (moves s \<and> {q..q + 1} \<subseteq> X)" using erase_stale [OF h q(1) order_refl q(2)] e by (auto simp: erase_seq_def)
  from erase_ok [OF h q(1) order_refl q(2) _ this] e show "holds s' (if ok then X - {q} else X)"
    by (auto simp: erase_seq_def)
qed (rule largest_ok)

subsection \<open>The two sets\<close>

definition rel_rep :: "nat \<Rightarrow> rel_info \<Rightarrow> 64 word set \<Rightarrow> 64 word set \<Rightarrow> bool" where
  "rel_rep src r R D \<longleftrightarrow> src < length (receivedDataSeqs r) \<and> src < length (deliveredDataSeqs r)
     \<and> holds (receivedDataSeqs r ! src) R \<and> holds (deliveredDataSeqs r ! src) D"

text \<open>Nothing else in \<open>rel_info\<close> is touched by the receiver.\<close>

definition others_kept :: "nat \<Rightarrow> rel_info \<Rightarrow> rel_info \<Rightarrow> bool" where
  "others_kept src r r' \<longleftrightarrow> next_frag_seqs r' = next_frag_seqs r \<and> sender_ackinfo r' = sender_ackinfo r
     \<and> length (receivedDataSeqs r') = length (receivedDataSeqs r) \<and> length (deliveredDataSeqs r') = length (deliveredDataSeqs r)
     \<and> (\<forall>j. j \<noteq> src \<longrightarrow> receivedDataSeqs r' ! j = receivedDataSeqs r ! j \<and> deliveredDataSeqs r' ! j = deliveredDataSeqs r ! j)"

lemma others_kept_trans: "others_kept src r r' \<Longrightarrow> others_kept src r' r'' \<Longrightarrow> others_kept src r r''"
  by (simp add: others_kept_def)

lemma others_kept_upd [simp]:
  "others_kept src r r" "others_kept src r (r\<lparr>receivedDataSeqs := (receivedDataSeqs r)[src := x]\<rparr>)"
  "others_kept src r (r\<lparr>deliveredDataSeqs := (deliveredDataSeqs r)[src := y]\<rparr>)"
  "others_kept src r (r\<lparr>receivedDataSeqs := (receivedDataSeqs r)[src := x], deliveredDataSeqs := (deliveredDataSeqs r)[src := y]\<rparr>)"
  by (simp_all add: others_kept_def)

lemma arrive_new:
  assumes rep: "rel_rep src r R D" and q: "seq_m f = q" "0 < q" "q < - 1" "q \<notin> R"
  shows "arrive_check src f r = Some Exits
    \<or> (\<exists>r'. arrive_check src f r = Some (Returns (Accept, f, r')) \<and> rel_rep src r' (insert q R) D \<and> others_kept src r r')"
proof -
  have h: "holds (receivedDataSeqs r ! src) R" "q \<noteq> 0" "src < length (receivedDataSeqs r)" using rep q(2) by (auto simp: rel_rep_def)
  from sl.enter [OF h(1) q(2,3)] q(4) obtain ok s' where
    e: "recordIfNotRecorded_seq q (receivedDataSeqs r ! src) = Some (False, ok, s')" "holds s' (if ok then insert q R else R)" by auto
  then show ?thesis using rep h q(1) by (cases ok) (auto simp: arrive_check_def get_nth_def set_nth_def rel_rep_def)
qed

lemma arrive_dup:
  assumes rep: "rel_rep src r R D" and q: "seq_m f = q" "0 < q" "q < - 1" "q \<in> R"
  shows "\<exists>r'. rel_rep src r' R D \<and> others_kept src r r' \<and> arrive_check src f r = Some (Returns
    (if q \<in> D then (AckDuplicate, f\<lparr>isDuplicate_m := DUPLICATE_DELIVERD, DataOK := True\<rparr>, r')
     else if {1..q} \<subseteq> R then (AckDuplicate, f\<lparr>isDuplicate_m := DUPLICATE_RECEIVED\<rparr>, r') else (Drop, f, r')))"
proof -
  have h: "holds (receivedDataSeqs r ! src) R" "q \<noteq> 0" "src < length (receivedDataSeqs r)"
    "holds (deliveredDataSeqs r ! src) D" "src < length (deliveredDataSeqs r)" using rep q(2) by (auto simp: rel_rep_def)
  from sl.enter [OF h(1) q(2,3)] q(4) obtain s' where
    e: "recordIfNotRecorded_seq q (receivedDataSeqs r ! src) = Some (True, True, s')" "holds s' R" by auto
  from sl.member [OF h(4)] obtain d' where
    m: "isRecorded_seq q (deliveredDataSeqs r ! src) = Some (q \<in> D, d')" "holds d' D" by blast
  from sl.largest [OF e(2)] obtain n where n: "largestInOrder s' = Some n" "{1..n} \<subseteq> R" "n + 1 \<notin> R" by blast
  have le: "q \<le> n \<longleftrightarrow> {1..q} \<subseteq> R"
  proof
    assume "q \<le> n"
    then have "{1..q} \<subseteq> {1..n}" by auto
    then show "{1..q} \<subseteq> R" using n(2) by blast
  next
    assume sub: "{1..q} \<subseteq> R"
    show "q \<le> n"
    proof (rule ccontr)
      assume "\<not> q \<le> n"
      then have "n < q" by simp
      then have "n + 1 \<le> q" "1 \<le> n + 1" using q(3) inc_le [of n q] by (auto simp: range_arith)
      with sub n(3) show False by auto
    qed
  qed
  let ?r = "r\<lparr>receivedDataSeqs := (receivedDataSeqs r)[src := s'], deliveredDataSeqs := (deliveredDataSeqs r)[src := d']\<rparr>"
  have "rel_rep src ?r R D" using h e(2) m(2) by (simp add: rel_rep_def)
  moreover have "arrive_check src f r = Some (Returns
    (if q \<in> D then (AckDuplicate, f\<lparr>isDuplicate_m := DUPLICATE_DELIVERD, DataOK := True\<rparr>, ?r)
     else if {1..q} \<subseteq> R then (AckDuplicate, f\<lparr>isDuplicate_m := DUPLICATE_RECEIVED\<rparr>, ?r) else (Drop, f, ?r)))"
    using h e(1) m(1) n(1) q(1) le by (simp add: arrive_check_def get_nth_def set_nth_def)
  ultimately show ?thesis by (intro exI [of _ ?r]) simp
qed

text \<open>The part of an acknowledgement that speaks of all fragments.\<close>

definition agg_ok :: "base_ack \<Rightarrow> 64 word set \<Rightarrow> 64 word set \<Rightarrow> bool" where
  "agg_ok a R D \<longleftrightarrow> {1..receivedFragSeq a} \<subseteq> R \<and> {1..deliveredFragSeq a} \<subseteq> D"

lemma aggregate_ok:
  assumes "rel_rep src r R D"
  shows "\<exists>n m. aggregate src a r = Some (Returns (a\<lparr>receivedFragSeq := n, deliveredFragSeq := m\<rparr>, r))
    \<and> {1..n} \<subseteq> R \<and> {1..m} \<subseteq> D \<and> n + 1 \<notin> R \<and> m + 1 \<notin> D"
proof -
  have h: "holds (receivedDataSeqs r ! src) R" "holds (deliveredDataSeqs r ! src) D"
    "src < length (receivedDataSeqs r)" "src < length (deliveredDataSeqs r)" using assms by (simp_all add: rel_rep_def)
  from sl.largest [OF h(1)] sl.largest [OF h(2)] obtain n m where
    "largestInOrder (receivedDataSeqs r ! src) = Some n" "{1..n} \<subseteq> R" "n + 1 \<notin> R"
    "largestInOrder (deliveredDataSeqs r ! src) = Some m" "{1..m} \<subseteq> D" "m + 1 \<notin> D" by blast
  with h show ?thesis by (intro exI [of _ n] exI [of _ m]) (simp add: aggregate_def get_nth_def)
qed

lemma ack_dup_ok:
  assumes rep: "rel_rep src r R D" and d: "isDuplicate_m f = DUPLICATE_DELIVERD \<or> isDuplicate_m f = DUPLICATE_RECEIVED"
  shows "\<exists>a'. make_ack src a f r = Some (Returns (a', r)) \<and> agg_ok a' R D
    \<and> (if isDuplicate_m f = DUPLICATE_DELIVERD then thisFragSeq a' = seq_m f \<and> ackStatus a' = ACKSTATUS_DATAGOOD
       else thisFragSeq a' = 0 \<and> ackStatus a' = ACKSTATUS_AGGINFO_ONLY)"
  using d aggregate_ok [OF rep, of "a\<lparr>thisFragSeq := seq_m f, ackStatus := ACKSTATUS_DATAGOOD\<rparr>"]
    aggregate_ok [OF rep, of "a\<lparr>thisFragSeq := 0, ackStatus := ACKSTATUS_AGGINFO_ONLY\<rparr>"]
  by (elim disjE) (auto simp: make_ack_def processRecvDataSeqs_def agg_ok_def)

lemma update_good:
  assumes rep: "rel_rep src r R D" and q: "seq_m f = q" "0 < q" "q < - 1"
  shows "update_seqs src f True r = Some Exits
    \<or> (\<exists>r'. update_seqs src f True r = Some (Returns r') \<and> rel_rep src r' R (insert q D) \<and> others_kept src r r')"
proof -
  have h: "holds (deliveredDataSeqs r ! src) D" "src < length (deliveredDataSeqs r)" using rep by (auto simp: rel_rep_def)
  from sl.enter [OF h(1) q(2,3)] obtain ok s' where
    e: "recordIfNotRecorded_seq q (deliveredDataSeqs r ! src) = Some (q \<in> D, ok, s')"
      "ok \<Longrightarrow> holds s' (insert q D)" by (metis (full_types) insert_absorb)
  then show ?thesis using rep q(1) h by (cases ok) (auto simp: update_seqs_def get_nth_def set_nth_def rel_rep_def)
qed

lemma update_corrupt:
  assumes rep: "rel_rep src r R D" and q: "seq_m f = q" "0 < q" "q < - 1" and run: "update_seqs src f False r = Some (Returns r')"
  shows "rel_rep src r' (R - {q}) D" and "others_kept src r r'"
proof -
  have h: "holds (receivedDataSeqs r ! src) R" "src < length (receivedDataSeqs r)" using rep by (auto simp: rel_rep_def)
  from run h(2) q(1) obtain s' where
    e: "erase_seq q (receivedDataSeqs r ! src) = Some (True, s')" "r' = r\<lparr>receivedDataSeqs := (receivedDataSeqs r)[src := s']\<rparr>"
    by (auto simp: update_seqs_def get_nth_def set_nth_def bind_eq_Some_conv split: if_splits)
  then show "rel_rep src r' (R - {q}) D" "others_kept src r r'"
    using rep h sl.remove [OF h(1) q(2,3) e(1)] by (simp_all add: rel_rep_def)
qed

lemma ack_unique_run:
  assumes "isDuplicate_m f = 0" and "msgType_m f = MSGTYPE_PT2PT \<or> msgType_m f = MSGTYPE_PT2PT_SYNC"
  shows "make_ack src a f r = do {
     u \<leftarrow> update_seqs src f (DataOK f) r;
     (case u of Exits \<Rightarrow> Some Exits
      | Returns r1 \<Rightarrow> aggregate src (a\<lparr>thisFragSeq := seq_m f, ackStatus := (if DataOK f then ACKSTATUS_DATAGOOD else ACKSTATUS_DATACORRUPT)\<rparr>) r1)
   }"
  using assms by (cases "DataOK f") (simp_all add: make_ack_def processRecvDataSeqs_def)

text \<open>After the data of a new fragment was processed: its number enters the delivered numbers or leaves the received ones.\<close>

lemma ack_unique_ok:
  assumes rep: "rel_rep src r R D" and f: "isDuplicate_m f = 0" "msgType_m f = MSGTYPE_PT2PT \<or> msgType_m f = MSGTYPE_PT2PT_SYNC"
    and q: "seq_m f = q" "0 < q" "q < - 1" and run: "make_ack src a f r = Some (Returns (a', r'))"
  defines "R' \<equiv> if DataOK f then R else R - {q}" and "D' \<equiv> if DataOK f then insert q D else D"
  shows "rel_rep src r' R' D'" and "agg_ok a' R' D'" and "thisFragSeq a' = q" and "others_kept src r r'"
    and "ackStatus a' = (if DataOK f then ACKSTATUS_DATAGOOD else ACKSTATUS_DATACORRUPT)"
proof -
  from run obtain r1 where u: "update_seqs src f (DataOK f) r = Some (Returns r1)"
    "aggregate src (a\<lparr>thisFragSeq := seq_m f, ackStatus := (if DataOK f then ACKSTATUS_DATAGOOD else ACKSTATUS_DATACORRUPT)\<rparr>) r1
      = Some (Returns (a', r'))"
    unfolding ack_unique_run [OF f] by (cases "update_seqs src f (DataOK f) r") (auto split: ended.split_asm)
  have r1: "rel_rep src r1 R' D' \<and> others_kept src r r1"
    using u(1) update_good [OF rep q] update_corrupt [OF rep q] by (cases "DataOK f") (auto simp: R'_def D'_def)
  with aggregate_ok [of src r1 R' D' "a\<lparr>thisFragSeq := seq_m f, ackStatus := (if DataOK f then ACKSTATUS_DATAGOOD else ACKSTATUS_DATACORRUPT)\<rparr>"] u(2) q(1)
  show "rel_rep src r' R' D'" "agg_ok a' R' D'" "thisFragSeq a' = q" "others_kept src r r'"
    "ackStatus a' = (if DataOK f then ACKSTATUS_DATAGOOD else ACKSTATUS_DATACORRUPT)"
    by (auto simp: agg_ok_def)
qed

lemma ack_good_runs:
  assumes rep: "rel_rep src r R D" and f: "isDuplicate_m f = 0" "msgType_m f = MSGTYPE_PT2PT \<or> msgType_m f = MSGTYPE_PT2PT_SYNC"
    and q: "seq_m f = q" "0 < q" "q < - 1" and ok: "DataOK f"
  shows "make_ack src a f r = Some Exits \<or> (\<exists>a' r'. make_ack src a f r = Some (Returns (a', r')))"
  using update_good [OF rep q] ok aggregate_ok unfolding ack_unique_run [OF f] by fastforce

end
