(* ===== verification/Reliability_System.thy ===== *)
theory Reliability_System
  imports Reliability_Props
begin

section \<open>Sender, receiver and a network that loses and repeats\<close>

text \<open>
  One direction of traffic between two processes, as a step relation over the functions of the code. The network may lose,
  delay, reorder and repeat everything: what was sent once may arrive at any later time and any number of times. The
  fields beyond the two \<open>rel_info\<close> are what the rest of the library keeps in its queues and descriptors.

  \<^item> Sender: \<open>y_waiting\<close>, the fragments on \<^verbatim>\<open>FragsToSend\<close> or \<^verbatim>\<open>FragsToAck\<close> of their message, which are sent again until they are
    acknowledged; \<open>y_stranded\<close>, those that \<^verbatim>\<open>resend\<close> has taken off \<^verbatim>\<open>FragsToAck\<close> before the device was finished with them;
    \<open>y_released\<close>, those whose resources were freed; \<open>y_complete\<close> and \<open>y_didack\<close>, those with \<^verbatim>\<open>sendDidComplete\<close> and
    \<^verbatim>\<open>didReceiveAck\<close> set.
  \<^item> Receiver: \<open>y_pending\<close>, the fragments accepted and not yet copied out; \<open>y_handed\<close>, those whose data was found good when it was
    copied to the application (last first); \<open>y_toack\<close>, the descriptors copied out for which \<^verbatim>\<open>AckData\<close> has not reached
    \<^verbatim>\<open>processRecvDataSeqs\<close> yet (it is called at once, but the GM path gives up before that when it has no buffer); \<open>y_unsent\<close>, those
    for which it has, but the acknowledgement could not be sent. The latter two are in \<^verbatim>\<open>UnprocessedAcks\<close>.
  \<^item> \<open>y_nack_again\<close> records whether \<^verbatim>\<open>SendUnsentAcks\<close> has ever run \<^verbatim>\<open>processRecvDataSeqs\<close> a second time for damaged data.

  \<open>src\<close> is the sender as the receiver numbers it, \<open>dst\<close> the receiver as the sender numbers it.
\<close>

record net_sys =
  y_sender :: rel_info
  y_receiver :: rel_info
  y_sent :: "64 word set"
  y_acks :: "base_ack set"
  y_waiting :: "64 word set"
  y_stranded :: "64 word set"
  y_released :: "64 word set"
  y_complete :: "64 word set"
  y_didack :: "64 word set"
  y_pending :: "64 word list"
  y_toack :: "rfrag list"
  y_unsent :: "rfrag list"
  y_handed :: "64 word list"
  y_nack_again :: bool

definition in_frag :: "64 word \<Rightarrow> bool \<Rightarrow> int \<Rightarrow> rfrag" where
  "in_frag q ok t = \<lparr>seq_m = q, isDuplicate_m = UNIQUE_FRAG, DataOK = ok, msgType_m = t\<rparr>"

definition is_pt2pt :: "int \<Rightarrow> bool" where
  "is_pt2pt t \<longleftrightarrow> t = MSGTYPE_PT2PT \<or> t = MSGTYPE_PT2PT_SYNC"

definition damaged :: "rfrag \<Rightarrow> bool" where
  "damaged f \<longleftrightarrow> isDuplicate_m f = 0 \<and> \<not> DataOK f"

text \<open>The sender's sets after the action \<open>act\<close> on fragment \<open>q\<close>; \<open>Count\<close> alone changes none of them.\<close>

definition settle :: "ack_action \<Rightarrow> 64 word \<Rightarrow> net_sys \<Rightarrow> net_sys" where
  "settle act q y =
     (if act = Release then y\<lparr>y_waiting := y_waiting y - {q}, y_stranded := y_stranded y - {q}, y_released := insert q (y_released y)\<rparr>
      else if act = SendAgain then y\<lparr>y_complete := y_complete y - {q}\<rparr> else y)"

text \<open>The number a sender gives out stays below the largest word: the counter does not wrap. \<open>sent_ok\<close> tells whether the
  path could send the acknowledgement.\<close>

inductive net_step :: "nat \<Rightarrow> nat \<Rightarrow> net_sys \<Rightarrow> net_sys \<Rightarrow> bool" for src dst where
  send: "initFragSeq True sync first_frag dst (y_sender y) = Some (q, s') \<Longrightarrow> q < - 1 \<Longrightarrow>
    net_step src dst y (y\<lparr>y_sender := s', y_sent := insert q (y_sent y), y_waiting := insert q (y_waiting y)\<rparr>)"
| device: "q \<in> y_waiting y \<union> y_stranded y \<Longrightarrow>
    net_step src dst y (settle (send_callback True sync first_frag (q \<in> y_didack y)) q (y\<lparr>y_complete := insert q (y_complete y)\<rparr>))"
| take_ack: "a \<in> y_acks y \<Longrightarrow> q \<in> y_waiting y \<union> y_stranded y \<Longrightarrow>
    process_ack dst t a q (q \<in> y_complete y) (y_sender y) = Some (act, s') \<Longrightarrow> \<not> (act = SendAgain \<and> q \<in> y_stranded y) \<Longrightarrow>
    net_step src dst y (settle act q (y\<lparr>y_sender := s',
      y_didack := (if act = Count \<or> act = Release then insert q (y_didack y) else y_didack y)\<rparr>))"
| resend: "q \<in> y_waiting y \<Longrightarrow> resend_action dst q (q \<in> y_complete y) timed_out (y_sender y) = Some act \<Longrightarrow>
    net_step src dst y (if act = Count then y\<lparr>y_waiting := y_waiting y - {q}, y_stranded := insert q (y_stranded y)\<rparr> else settle act q y)"
| accept: "q \<in> y_sent y \<Longrightarrow> arrive_check src (in_frag q ok t) (y_receiver y) = Some (Returns (Accept, f, r')) \<Longrightarrow>
    net_step src dst y (y\<lparr>y_receiver := r', y_pending := q # y_pending y\<rparr>)"
| drop: "q \<in> y_sent y \<Longrightarrow> arrive_check src (in_frag q ok t) (y_receiver y) = Some (Returns (Drop, f, r')) \<Longrightarrow>
    net_step src dst y (y\<lparr>y_receiver := r'\<rparr>)"
| ack_later: "q \<in> y_sent y \<Longrightarrow> arrive_check src (in_frag q ok t) (y_receiver y) = Some (Returns (AckDuplicate, f, r')) \<Longrightarrow>
    net_step src dst y (y\<lparr>y_receiver := r', y_unsent := f # y_unsent y\<rparr>)"
| ack_again: "q \<in> y_sent y \<Longrightarrow> arrive_check src (in_frag q ok t) (y_receiver y) = Some (Returns (AckDuplicate, f, r')) \<Longrightarrow>
    make_ack src raw f r' = Some (Returns (a, r'')) \<Longrightarrow>
    net_step src dst y (y\<lparr>y_receiver := r'', y_acks := (if sent_ok then insert a (y_acks y) else y_acks y),
      y_unsent := (if sent_ok then y_unsent y else f # y_unsent y)\<rparr>)"
| copy_out: "q \<in> set (y_pending y) \<Longrightarrow> is_pt2pt t \<Longrightarrow>
    net_step src dst y (y\<lparr>y_pending := remove1 q (y_pending y), y_toack := in_frag q ok t # y_toack y,
      y_handed := (if ok then q # y_handed y else y_handed y)\<rparr>)"
| ack: "f \<in> set (y_toack y) \<Longrightarrow> make_ack src raw f (y_receiver y) = Some (Returns (a, r')) \<Longrightarrow>
    net_step src dst y (y\<lparr>y_receiver := r', y_acks := (if sent_ok then insert a (y_acks y) else y_acks y),
      y_toack := remove1 f (y_toack y), y_unsent := (if sent_ok then y_unsent y else f # y_unsent y)\<rparr>)"
| retry: "f \<in> set (y_unsent y) \<Longrightarrow> make_ack src raw f (y_receiver y) = Some (Returns (a, r')) \<Longrightarrow>
    net_step src dst y (y\<lparr>y_receiver := r', y_acks := (if sent_ok then insert a (y_acks y) else y_acks y),
      y_unsent := (if sent_ok then remove1 f (y_unsent y) else y_unsent y), y_nack_again := y_nack_again y \<or> damaged f\<rparr>)"

text \<open>
  The calls that have no step because they do not return: the process exits or the behaviour is undefined. Two of them are told
  apart from all others. \<open>Erasing\<close>: the number of damaged data is to be erased from the received numbers. \<open>Relinking\<close>: a
  fragment that \<^verbatim>\<open>resend\<close> has taken off \<^verbatim>\<open>FragsToAck\<close> is to be sent again after a late negative acknowledgement, and is
  removed from that list a second time.
\<close>

datatype fail_cause = Erasing | Relinking | Calling

definition returns :: "'a ended option \<Rightarrow> bool" where
  "returns c \<longleftrightarrow> (\<exists>v. c = Some (Returns v))"

inductive net_fails :: "nat \<Rightarrow> nat \<Rightarrow> net_sys \<Rightarrow> fail_cause \<Rightarrow> bool" for src dst y where
  "initFragSeq True sync first_frag dst (y_sender y) = None \<Longrightarrow> net_fails src dst y Calling"
| "q \<in> y_waiting y \<union> y_stranded y \<Longrightarrow> process_ack dst t a q c (y_sender y) = None \<Longrightarrow> net_fails src dst y Calling"
| "a \<in> y_acks y \<Longrightarrow> q \<in> y_stranded y \<Longrightarrow> process_ack dst t a q (q \<in> y_complete y) (y_sender y) = Some (SendAgain, s') \<Longrightarrow>
    net_fails src dst y Relinking"
| "q \<in> y_waiting y \<Longrightarrow> resend_action dst q c timed_out (y_sender y) = None \<Longrightarrow> net_fails src dst y Calling"
| "q \<in> y_sent y \<Longrightarrow> \<not> returns (arrive_check src (in_frag q ok t) (y_receiver y)) \<Longrightarrow> net_fails src dst y Calling"
| "q \<in> y_sent y \<Longrightarrow> arrive_check src (in_frag q ok t) (y_receiver y) = Some (Returns (AckDuplicate, f, r')) \<Longrightarrow>
    \<not> returns (make_ack src raw f r') \<Longrightarrow> net_fails src dst y Calling"
| "f \<in> set (y_toack y) \<union> set (y_unsent y) \<Longrightarrow> \<not> returns (make_ack src raw f (y_receiver y)) \<Longrightarrow>
    net_fails src dst y (if damaged f then Erasing else Calling)"

definition net_init :: "rel_info \<Rightarrow> net_sys" where
  "net_init r = \<lparr>y_sender = r, y_receiver = r, y_sent = {}, y_acks = {}, y_waiting = {}, y_stranded = {}, y_released = {},
     y_complete = {}, y_didack = {}, y_pending = [], y_toack = [], y_unsent = [], y_handed = [], y_nack_again = False\<rparr>"

inductive net_reach :: "nat \<Rightarrow> nat \<Rightarrow> net_sys \<Rightarrow> net_sys \<Rightarrow> bool" for src dst where
  start: "net_reach src dst y y"
| more: "net_reach src dst y y' \<Longrightarrow> net_step src dst y' y'' \<Longrightarrow> net_reach src dst y y''"

subsection \<open>The invariant\<close>

definition next_seq :: "nat \<Rightarrow> rel_info \<Rightarrow> 64 word" where
  "next_seq dst s = next_frag_seqs s ! dst"

definition largest_delivered :: "nat \<Rightarrow> rel_info \<Rightarrow> 64 word" where
  "largest_delivered dst s = delivered_largest_inorder_seq (sender_ackinfo s ! dst)"

text \<open>What an acknowledgement says is true of the numbers \<open>H\<close> that were handed to the application.\<close>

definition ack_true :: "base_ack \<Rightarrow> 64 word set \<Rightarrow> bool" where
  "ack_true a H \<longleftrightarrow> {1..deliveredFragSeq a} \<subseteq> H \<and> (ackStatus a = ACKSTATUS_DATAGOOD \<longrightarrow> thisFragSeq a \<in> H)"

lemma ack_true_mono: "ack_true a H \<Longrightarrow> H \<subseteq> H' \<Longrightarrow> ack_true a H'"
  unfolding ack_true_def by blast

text \<open>The descriptors whose acknowledgement could not be sent; \<open>D\<close> are the numbers recorded as delivered.\<close>

definition unsent_ok :: "64 word set \<Rightarrow> rfrag \<Rightarrow> bool" where
  "unsent_ok D f \<longleftrightarrow> isDuplicate_m f = UNIQUE_FRAG \<and> is_pt2pt (msgType_m f) \<and> (DataOK f \<longrightarrow> seq_m f \<in> D)
     \<or> isDuplicate_m f = DUPLICATE_DELIVERD \<and> seq_m f \<in> D \<or> isDuplicate_m f = DUPLICATE_RECEIVED"

definition recv_inv :: "nat \<Rightarrow> rel_info \<Rightarrow> 64 word list \<Rightarrow> rfrag list \<Rightarrow> rfrag list \<Rightarrow> 64 word list \<Rightarrow> base_ack set \<Rightarrow> 64 word set \<Rightarrow> bool" where
  "recv_inv src r ps ts us hs as sent \<longleftrightarrow>
     rel_rep src r (set ps \<union> seq_m ` set ts \<union> set hs) (set hs - seq_m ` set ts)
     \<and> distinct (ps @ map seq_m ts) \<and> distinct hs \<and> set ps \<inter> set hs = {} \<and> set ps \<union> seq_m ` set ts \<union> set hs \<subseteq> sent
     \<and> (\<forall>f \<in> set ts. isDuplicate_m f = UNIQUE_FRAG \<and> is_pt2pt (msgType_m f) \<and> (DataOK f \<longleftrightarrow> seq_m f \<in> set hs))
     \<and> (\<forall>f \<in> set us. unsent_ok (set hs - seq_m ` set ts) f \<and> seq_m f \<in> sent) \<and> (\<forall>a \<in> as. ack_true a (set hs))"

definition send_inv :: "nat \<Rightarrow> rel_info \<Rightarrow> 64 word set \<Rightarrow> 64 word set \<Rightarrow> 64 word set \<Rightarrow> 64 word set \<Rightarrow> 64 word set \<Rightarrow> 64 word set \<Rightarrow> bool" where
  "send_inv dst s sent waiting stranded released didack H \<longleftrightarrow>
     sent = {q. 0 < q \<and> q < next_seq dst s} \<and> dst < length (next_frag_seqs s) \<and> dst < length (sender_ackinfo s) \<and> 0 < next_seq dst s
     \<and> {1..largest_delivered dst s} \<subseteq> H \<and> released \<union> stranded \<union> didack \<subseteq> H \<and> sent = waiting \<union> stranded \<union> released"

definition recv_ok :: "nat \<Rightarrow> net_sys \<Rightarrow> bool" where
  "recv_ok src y \<longleftrightarrow> recv_inv src (y_receiver y) (y_pending y) (y_toack y) (y_unsent y) (y_handed y) (y_acks y) (y_sent y)"

definition send_ok :: "nat \<Rightarrow> net_sys \<Rightarrow> bool" where
  "send_ok dst y \<longleftrightarrow> send_inv dst (y_sender y) (y_sent y) (y_waiting y) (y_stranded y) (y_released y) (y_didack y) (set (y_handed y))"

text \<open>The invariant holds until \<^verbatim>\<open>processRecvDataSeqs\<close> is run a second time for damaged data.\<close>

definition net_inv :: "nat \<Rightarrow> nat \<Rightarrow> net_sys \<Rightarrow> bool" where
  "net_inv src dst y \<longleftrightarrow> y_nack_again y \<or> recv_ok src y \<and> send_ok dst y"

lemma recv_invD:
  assumes "recv_inv src r ps ts us hs as sent"
  shows "rel_rep src r (set ps \<union> seq_m ` set ts \<union> set hs) (set hs - seq_m ` set ts)"
    "distinct (ps @ map seq_m ts)" "distinct hs" "set ps \<inter> set hs = {}" "set ps \<union> seq_m ` set ts \<union> set hs \<subseteq> sent"
    "\<And>f. f \<in> set ts \<Longrightarrow> isDuplicate_m f = UNIQUE_FRAG \<and> is_pt2pt (msgType_m f) \<and> (DataOK f \<longleftrightarrow> seq_m f \<in> set hs)"
    "\<And>f. f \<in> set us \<Longrightarrow> unsent_ok (set hs - seq_m ` set ts) f \<and> seq_m f \<in> sent" "\<And>a. a \<in> as \<Longrightarrow> ack_true a (set hs)"
  using assms unfolding recv_inv_def by blast+

lemma recv_invI:
  assumes "rel_rep src r (set ps \<union> seq_m ` set ts \<union> set hs) (set hs - seq_m ` set ts)"
    "distinct (ps @ map seq_m ts)" "distinct hs" "set ps \<inter> set hs = {}" "set ps \<union> seq_m ` set ts \<union> set hs \<subseteq> sent"
    "\<And>f. f \<in> set ts \<Longrightarrow> isDuplicate_m f = UNIQUE_FRAG \<and> is_pt2pt (msgType_m f) \<and> (DataOK f \<longleftrightarrow> seq_m f \<in> set hs)"
    "\<And>f. f \<in> set us \<Longrightarrow> unsent_ok (set hs - seq_m ` set ts) f \<and> seq_m f \<in> sent" "\<And>a. a \<in> as \<Longrightarrow> ack_true a (set hs)"
  shows "recv_inv src r ps ts us hs as sent"
  using assms unfolding recv_inv_def by blast

lemma send_invD:
  assumes "send_inv dst s sent waiting stranded released didack H"
  shows "sent = {q. 0 < q \<and> q < next_seq dst s}" "dst < length (next_frag_seqs s)" "dst < length (sender_ackinfo s)" "0 < next_seq dst s"
    "{1..largest_delivered dst s} \<subseteq> H" "released \<union> stranded \<union> didack \<subseteq> H" "sent = waiting \<union> stranded \<union> released"
  using assms unfolding send_inv_def by blast+

lemma send_inv_mono: "send_inv dst s sent w t r d H \<Longrightarrow> H \<subseteq> H' \<Longrightarrow> send_inv dst s sent w t r d H'"
  unfolding send_inv_def by blast

lemma recv_inv_mono: "recv_inv src r ps ts us hs as sent \<Longrightarrow> sent \<subseteq> sent' \<Longrightarrow> recv_inv src r ps ts us hs as sent'"
  unfolding recv_inv_def by blast

lemma unsent_ok_mono: "unsent_ok D f \<Longrightarrow> D \<subseteq> D' \<Longrightarrow> unsent_ok D' f"
  unfolding unsent_ok_def by blast

lemma sent_bounds:
  assumes "send_inv dst s sent w t r d H" and "q \<in> sent"
  shows "0 < q \<and> q < - 1"
  using send_invD(1) [OF assms(1)] assms(2)
  by (auto simp: word_less_nat_alt intro: less_le_trans [OF _ word_n1_ge [unfolded word_le_nat_alt]])

subsection \<open>Steps of the sender\<close>

lemma inv_send:
  assumes inv: "send_inv dst s sent w t r d H" and i: "initFragSeq True sync first_frag dst s = Some (q, s')" and q: "q < - 1"
  shows "send_inv dst s' (insert q sent) (insert q w) t r d H"
proof -
  note v = send_invD [OF inv]
  have s': "q = next_seq dst s" "s' = s\<lparr>next_frag_seqs := (next_frag_seqs s)[dst := q + 1]\<rparr>"
    using i v(2) by (auto simp: initFragSeq_def get_nth_def set_nth_def next_seq_def)
  have n: "next_seq dst s' = q + 1" "largest_delivered dst s' = largest_delivered dst s"
    using v(2) by (simp_all add: s'(2) next_seq_def largest_delivered_def)
  have sent: "insert q sent = {p. 0 < p \<and> p < q + 1}"
  proof -
    have "p < q + 1 \<longleftrightarrow> p \<le> q" for p using q by (simp add: word_less_nat_alt word_le_nat_alt unat_Suc_bounded less_Suc_eq_le)
    then show ?thesis using v(1,4) s'(1) by (auto simp: le_less)
  qed
  have pos: "0 < q + 1" using q by (simp add: range_arith)
  have "insert q sent = insert q w \<union> t \<union> r" using v(7) by blast
  moreover have "dst < length (next_frag_seqs s')" "dst < length (sender_ackinfo s')" using v(2,3) s'(2) by simp_all
  ultimately show ?thesis using sent pos v(5,6) unfolding send_inv_def n by blast
qed

text \<open>Whatever the sender does with a fragment, it is released or given up only when it was handed over.\<close>

lemma inv_settle:
  assumes inv: "send_ok dst y" and q: "q \<in> y_waiting y \<union> y_stranded y" and rel: "act = Release \<Longrightarrow> q \<in> set (y_handed y)"
  shows "send_ok dst (settle act q y)"
proof -
  note v = send_invD [OF inv [unfolded send_ok_def]]
  have "y_sent y = (y_waiting y - {q}) \<union> (y_stranded y - {q}) \<union> insert q (y_released y)" using v(7) q by blast
  moreover have "act = Release \<Longrightarrow> insert q (y_released y) \<union> (y_stranded y - {q}) \<union> y_didack y \<subseteq> set (y_handed y)" using v(6) rel by blast
  ultimately show ?thesis using v inv by (simp add: settle_def send_ok_def send_inv_def)
qed

lemma settle_recv: "recv_ok src (settle act q y) = recv_ok src y" "y_nack_again (settle act q y) = y_nack_again y"
  "y_handed (settle act q y) = y_handed y" "y_acks (settle act q y) = y_acks y" "y_receiver (settle act q y) = y_receiver y"
  "y_toack (settle act q y) = y_toack y"
  by (simp_all add: settle_def recv_ok_def)

lemma process_ack_sound:
  assumes inv: "send_inv dst s sent w t r d H" and a: "ack_true a H" and run: "process_ack dst ty a q c s = Some (act, s')"
  shows "act = Count \<or> act = Release \<longrightarrow> q \<in> H" and "send_inv dst s' sent w t r d H"
proof -
  note v = send_invD [OF inv]
  show "act = Count \<or> act = Release \<longrightarrow> q \<in> H"
    using run a by (auto simp: process_ack_def handlePt2PtMessageAck_def checkForDuplicateAndNonSpecificAck_def ack_true_def
        bind_eq_Some_conv Let_def split: if_splits)
  have "{1..delivered_largest_inorder_seq (sender_ackinfo s ! dst)} \<subseteq> H" "{1..deliveredFragSeq a} \<subseteq> H"
    using v(5) a by (simp_all add: largest_delivered_def ack_true_def)
  then have "next_frag_seqs s' = next_frag_seqs s \<and> length (sender_ackinfo s') = length (sender_ackinfo s) \<and> {1..largest_delivered dst s'} \<subseteq> H"
    using run v(3) by (auto simp: process_ack_def checkForDuplicateAndNonSpecificAck_def get_nth_def set_nth_def largest_delivered_def
        Let_def split: if_splits)
  then have "next_seq dst s' = next_seq dst s" "dst < length (next_frag_seqs s')" "dst < length (sender_ackinfo s')"
    "{1..largest_delivered dst s'} \<subseteq> H" using v(2,3) by (simp_all add: next_seq_def)
  then show "send_inv dst s' sent w t r d H" using v unfolding send_inv_def by metis
qed

lemma resend_sound:
  assumes inv: "send_inv dst s sent w t r d H" and q: "q \<in> sent" and run: "resend_action dst q c timed_out s = Some act"
  shows "act = Count \<or> act = Release \<longrightarrow> q \<in> H"
proof
  note v = send_invD [OF inv]
  assume "act = Count \<or> act = Release"
  then have "q \<le> largest_delivered dst s" using run v(3)
    by (auto simp: resend_action_def get_nth_def largest_delivered_def split: if_splits)
  with sent_bounds [OF inv q] have "q \<in> {1..largest_delivered dst s}" by (auto simp: range_arith)
  with v(5) show "q \<in> H" by blast
qed

subsection \<open>Steps of the receiver\<close>

lemma inv_receiver:
  assumes inv: "recv_inv src r ps ts us hs as sent" and b: "0 < q" "q < - 1"
    and run: "arrive_check src (in_frag q ok t) r = Some (Returns (v, f, r'))"
  defines "R \<equiv> set ps \<union> seq_m ` set ts \<union> set hs" and "D \<equiv> set hs - seq_m ` set ts"
  shows "if q \<in> R then rel_rep src r' R D \<and> (v = (if q \<in> D \<or> {1..q} \<subseteq> R then AckDuplicate else Drop))
      \<and> (v = AckDuplicate \<longrightarrow> isDuplicate_m f = (if q \<in> D then DUPLICATE_DELIVERD else DUPLICATE_RECEIVED)) \<and> seq_m f = q
    else v = Accept \<and> rel_rep src r' (insert q R) D"
proof -
  note d = recv_invD(1) [OF inv, folded R_def D_def]
  have sq: "seq_m (in_frag q ok t) = q" by (simp add: in_frag_def)
  show ?thesis
  proof (cases "q \<in> R")
    case True
    from arrive_dup [OF d sq b True] run True show ?thesis by (auto simp: in_frag_def split: if_splits)
  next
    case False
    from arrive_new [OF d sq b False] run False show ?thesis by auto
  qed
qed

lemma inv_accept:
  assumes inv: "recv_inv src r ps ts us hs as sent" and q: "0 < q" "q < - 1" "q \<in> sent"
    and run: "arrive_check src (in_frag q ok t) r = Some (Returns (Accept, f, r'))"
  shows "recv_inv src r' (q # ps) ts us hs as sent"
proof -
  have "q \<notin> set ps \<union> seq_m ` set ts \<union> set hs" "rel_rep src r' (insert q (set ps \<union> seq_m ` set ts \<union> set hs)) (set hs - seq_m ` set ts)"
    using inv_receiver [OF inv q(1,2) run] by (auto split: if_splits)
  then show ?thesis using recv_invD [OF inv] q(3) by (intro recv_invI) auto
qed

text \<open>A duplicate leaves the numbers as they are, whether it is dropped, acknowledged, or its acknowledgement has to wait.\<close>

lemma inv_dup:
  assumes inv: "recv_inv src r ps ts us hs as sent" and q: "0 < q" "q < - 1" "q \<in> sent"
    and run: "arrive_check src (in_frag q ok t) r = Some (Returns (v, f, r'))" and v: "v \<noteq> Accept"
  shows "recv_inv src r' ps ts us hs as sent" and "v = AckDuplicate \<Longrightarrow> unsent_ok (set hs - seq_m ` set ts) f \<and> seq_m f = q"
    and "v = AckDuplicate \<Longrightarrow> isDuplicate_m f = DUPLICATE_DELIVERD \<or> isDuplicate_m f = DUPLICATE_RECEIVED"
proof -
  have h: "rel_rep src r' (set ps \<union> seq_m ` set ts \<union> set hs) (set hs - seq_m ` set ts)" "seq_m f = q"
    "v = AckDuplicate \<longrightarrow> isDuplicate_m f = (if q \<in> set hs - seq_m ` set ts then DUPLICATE_DELIVERD else DUPLICATE_RECEIVED)"
    using inv_receiver [OF inv q(1,2) run] v by (auto split: if_splits)
  show "recv_inv src r' ps ts us hs as sent" using recv_invD [OF inv] h(1) by (intro recv_invI)
  show "v = AckDuplicate \<Longrightarrow> unsent_ok (set hs - seq_m ` set ts) f \<and> seq_m f = q"
    "v = AckDuplicate \<Longrightarrow> isDuplicate_m f = DUPLICATE_DELIVERD \<or> isDuplicate_m f = DUPLICATE_RECEIVED"
    using h(2,3) by (auto simp: unsent_ok_def split: if_splits)
qed

text \<open>An acknowledgement that is sent, and a descriptor whose acknowledgement is not.\<close>

lemma inv_answer:
  assumes inv: "recv_inv src r ps ts us hs as sent" and a: "ack_true a (set hs)" and f: "unsent_ok (set hs - seq_m ` set ts) f" "seq_m f \<in> sent"
  shows "recv_inv src r ps ts (if b then us else f # us) hs (if b then insert a as else as) sent"
  using recv_invD [OF inv] a f by (intro recv_invI) (auto split: if_splits)

lemma unsent_less:
  assumes "recv_inv src r ps ts us hs as sent" and "set us' \<subseteq> set us"
  shows "recv_inv src r ps ts us' hs as sent"
  using recv_invD [OF assms(1)] assms(2) by (intro recv_invI) auto

lemma agg_true:
  assumes "agg_ok a R D" and "D \<subseteq> H" and "ackStatus a = ACKSTATUS_DATAGOOD \<Longrightarrow> thisFragSeq a \<in> H"
  shows "ack_true a H"
  using assms unfolding ack_true_def agg_ok_def by blast

lemma dup_ack_true:
  assumes inv: "recv_inv src r ps ts us hs as sent" and f: "unsent_ok (set hs - seq_m ` set ts) f"
    "isDuplicate_m f = DUPLICATE_DELIVERD \<or> isDuplicate_m f = DUPLICATE_RECEIVED" and run: "make_ack src raw f r = Some (Returns (a, r'))"
  shows "r' = r" and "ack_true a (set hs)"
proof -
  from ack_dup_ok [OF recv_invD(1) [OF inv] f(2), of raw] run have
    a: "r' = r" "agg_ok a (set ps \<union> seq_m ` set ts \<union> set hs) (set hs - seq_m ` set ts)"
      "if isDuplicate_m f = DUPLICATE_DELIVERD then thisFragSeq a = seq_m f \<and> ackStatus a = ACKSTATUS_DATAGOOD
       else thisFragSeq a = 0 \<and> ackStatus a = ACKSTATUS_AGGINFO_ONLY" by auto
  show "r' = r" by (rule a(1))
  show "ack_true a (set hs)" by (rule agg_true [OF a(2)]) (use a(3) f(1,2) in \<open>auto simp: unsent_ok_def split: if_splits\<close>)
qed

lemma inv_copy:
  assumes inv: "recv_inv src r ps ts us hs as sent" and q: "q \<in> set ps" and t: "is_pt2pt t"
  shows "recv_inv src r (remove1 q ps) (in_frag q ok t # ts) us (if ok then q # hs else hs) as sent"
proof (rule recv_invI)
  note d = recv_invD [OF inv]
  have q': "q \<notin> set hs" "q \<notin> seq_m ` set ts" "set (remove1 q ps) = set ps - {q}" using q d(2,4) by auto
  have s: "seq_m (in_frag q ok t) = q" by (simp add: in_frag_def)
  have R: "set (remove1 q ps) \<union> seq_m ` set (in_frag q ok t # ts) \<union> set (if ok then q # hs else hs) = set ps \<union> seq_m ` set ts \<union> set hs"
    and D: "set (if ok then q # hs else hs) - seq_m ` set (in_frag q ok t # ts) = set hs - seq_m ` set ts" using q q' s by auto
  show "rel_rep src r (set (remove1 q ps) \<union> seq_m ` set (in_frag q ok t # ts) \<union> set (if ok then q # hs else hs))
    (set (if ok then q # hs else hs) - seq_m ` set (in_frag q ok t # ts))" unfolding R D by (rule d(1))
  show "set (remove1 q ps) \<union> seq_m ` set (in_frag q ok t # ts) \<union> set (if ok then q # hs else hs) \<subseteq> sent" unfolding R by (rule d(5))
  show "distinct (remove1 q ps @ map seq_m (in_frag q ok t # ts))" "distinct (if ok then q # hs else hs)"
    "set (remove1 q ps) \<inter> set (if ok then q # hs else hs) = {}" using d(2-4) q' s by auto
  show "unsent_ok (set (if ok then q # hs else hs) - seq_m ` set (in_frag q ok t # ts)) f \<and> seq_m f \<in> sent" if "f \<in> set us" for f
    unfolding D using d(7) [OF that] .
  show "ack_true a (set (if ok then q # hs else hs))" if "a \<in> as" for a by (rule ack_true_mono [OF d(8) [OF that]]) auto
  show "isDuplicate_m f = UNIQUE_FRAG \<and> is_pt2pt (msgType_m f) \<and> (DataOK f \<longleftrightarrow> seq_m f \<in> set (if ok then q # hs else hs))"
    if f: "f \<in> set (in_frag q ok t # ts)" for f
  proof (cases "f = in_frag q ok t")
    case False
    then have "f \<in> set ts" using f by simp
    moreover from this have "seq_m f \<noteq> q" using q'(2) by auto
    ultimately show ?thesis using d(6) [of f] by auto
  qed (use t q' in \<open>simp add: in_frag_def\<close>)
qed

text \<open>The first time \<^verbatim>\<open>processRecvDataSeqs\<close> is run for a descriptor: its number enters the delivered ones or leaves the received ones.\<close>

lemma inv_ack:
  assumes inv: "recv_inv src r ps ts us hs as sent" and b: "0 < seq_m f" "seq_m f < - 1" and f: "f \<in> set ts"
    and run: "make_ack src raw f r = Some (Returns (a, r'))"
  shows "recv_inv src r' ps (remove1 f ts) us hs as sent" and "ack_true a (set hs)"
    and "unsent_ok (set hs - seq_m ` set (remove1 f ts)) f" and "DataOK f \<Longrightarrow> thisFragSeq a = seq_m f \<and> ackStatus a = ACKSTATUS_DATAGOOD"
proof -
  note d = recv_invD [OF inv] and g = recv_invD(6) [OF inv f]
  have ty: "msgType_m f = MSGTYPE_PT2PT \<or> msgType_m f = MSGTYPE_PT2PT_SYNC" using g by (simp add: is_pt2pt_def)
  note u = ack_unique_ok [OF d(1) _ ty refl b run]
  have dist: "distinct (map seq_m ts)" "set ps \<inter> seq_m ` set ts = {}" using d(2) by auto
  have ts: "seq_m ` set (remove1 f ts) = seq_m ` set ts - {seq_m f}" "set (remove1 f ts) = set ts - {f}" "distinct ts"
    using dist(1) f by (auto simp: distinct_map inj_on_def)
  have q: "seq_m f \<notin> set ps" "seq_m f \<in> seq_m ` set ts" using dist(2) f by auto
  let ?R = "set ps \<union> seq_m ` set ts \<union> set hs" and ?D = "set hs - seq_m ` set ts"
  have R: "(if DataOK f then ?R else ?R - {seq_m f}) = set ps \<union> seq_m ` set (remove1 f ts) \<union> set hs"
    and D: "(if DataOK f then insert (seq_m f) ?D else ?D) = set hs - seq_m ` set (remove1 f ts)" using q g unfolding ts(1) by auto
  have rep: "rel_rep src r' (set ps \<union> seq_m ` set (remove1 f ts) \<union> set hs) (set hs - seq_m ` set (remove1 f ts))"
    using u(1) g unfolding R [symmetric] D [symmetric] by simp
  have more: "?D \<subseteq> set hs - seq_m ` set (remove1 f ts)" unfolding ts(1) by blast
  have "distinct (ps @ map seq_m (remove1 f ts))" using d(2) dist(1) ts(1) by (simp add: distinct_map distinct_remove1 inj_on_def ts(2,3)) blast
  then show "recv_inv src r' ps (remove1 f ts) us hs as sent"
    using rep d(3-8) unsent_ok_mono [OF _ more] ts(1,2) by (intro recv_invI) auto
  have "(if DataOK f then insert (seq_m f) ?D else ?D) \<subseteq> set hs" unfolding D by blast
  then show "ack_true a (set hs)" by (rule agg_true [OF u(2), rotated]) (use u(3,5) g in \<open>auto split: if_splits\<close>)
  show "unsent_ok (set hs - seq_m ` set (remove1 f ts)) f" using g unfolding unsent_ok_def D [symmetric] by auto
  show "DataOK f \<Longrightarrow> thisFragSeq a = seq_m f \<and> ackStatus a = ACKSTATUS_DATAGOOD" using u(3,5) g by simp
qed

text \<open>Running it again does no harm, unless the data was damaged.\<close>

lemma inv_retry:
  assumes inv: "recv_inv src r ps ts us hs as sent" and b: "0 < seq_m f" "seq_m f < - 1" and f: "f \<in> set us" "\<not> damaged f"
    and run: "make_ack src raw f r = Some (Returns (a, r'))"
  shows "recv_inv src r' ps ts us hs as sent \<and> ack_true a (set hs)"
proof -
  note d = recv_invD [OF inv] and g = recv_invD(7) [OF inv f(1), THEN conjunct1]
  show ?thesis
  proof (cases "isDuplicate_m f = UNIQUE_FRAG")
    case True
    then have h: "DataOK f" "seq_m f \<in> set hs - seq_m ` set ts" "msgType_m f = MSGTYPE_PT2PT \<or> msgType_m f = MSGTYPE_PT2PT_SYNC"
      using g f(2) by (auto simp: unsent_ok_def damaged_def is_pt2pt_def)
    note u = ack_unique_ok [OF d(1) True h(3) refl b run, unfolded if_P [OF h(1)] insert_absorb [OF h(2)]]
    have "ack_true a (set hs)" by (rule agg_true [OF u(2)]) (use u(3) h(2) in auto)
    moreover have "recv_inv src r' ps ts us hs as sent" using u(1) d(2-8) by (intro recv_invI)
    ultimately show ?thesis by simp
  next
    case False
    then have "isDuplicate_m f = DUPLICATE_DELIVERD \<or> isDuplicate_m f = DUPLICATE_RECEIVED" using g by (auto simp: unsent_ok_def)
    from dup_ack_true [OF inv g this run] inv show ?thesis by simp
  qed
qed

subsection \<open>Every step keeps the invariant\<close>

lemma same_sides:
  assumes "send_ok dst y" and "set (y_handed y) \<subseteq> set hs"
  shows "send_ok dst (y\<lparr>y_receiver := r, y_acks := as, y_pending := ps, y_toack := ts, y_unsent := us, y_handed := hs\<rparr>)"
  using send_inv_mono [OF assms [unfolded send_ok_def]] by (simp add: send_ok_def)

lemma recv_side:
  assumes "recv_inv src r ps ts us hs as (y_sent y)" and "send_ok dst y" and "set (y_handed y) \<subseteq> set hs"
    and "y' = y\<lparr>y_receiver := r, y_acks := as, y_pending := ps, y_toack := ts, y_unsent := us, y_handed := hs\<rparr>"
  shows "recv_ok src y' \<and> send_ok dst y'"
  using assms same_sides [OF assms(2,3)] by (simp add: recv_ok_def)

lemma good_step:
  assumes "net_step src dst y y'" and r: "recv_ok src y" and s: "send_ok dst y" and n: "\<not> y_nack_again y'"
  shows "recv_ok src y' \<and> send_ok dst y'"
  using assms(1)
proof cases
  case (send sync first_frag q s')
  have "recv_ok src y'" using recv_inv_mono [OF r [unfolded recv_ok_def], of "insert q (y_sent y)"] send(1) by (auto simp: recv_ok_def)
  with send inv_send [OF s [unfolded send_ok_def] send(2,3)] show ?thesis by (simp add: send_ok_def)
next
  case (device q sync first_frag)
  let ?y = "y\<lparr>y_complete := insert q (y_complete y)\<rparr>"
  have "send_ok dst ?y" using s by (simp add: send_ok_def)
  moreover have "send_callback True sync first_frag (q \<in> y_didack y) = Release \<Longrightarrow> q \<in> set (y_handed ?y)"
    using send_invD(6) [OF s [unfolded send_ok_def]] by (auto simp: send_callback_def split: if_splits)
  ultimately show ?thesis using inv_settle [of dst ?y q] device r by (simp add: settle_recv) (simp add: recv_ok_def)
next
  case (take_ack a q t act s')
  let ?y = "y\<lparr>y_sender := s', y_didack := (if act = Count \<or> act = Release then insert q (y_didack y) else y_didack y)\<rparr>"
  have "ack_true a (set (y_handed y))" using recv_invD(8) [OF r [unfolded recv_ok_def] take_ack(2)] .
  note p = process_ack_sound [OF s [unfolded send_ok_def] this take_ack(4)]
  have "send_ok dst ?y" using p by (auto simp: send_ok_def send_inv_def)
  with inv_settle [of dst ?y q act] p(1) take_ack(1,3) r show ?thesis by (simp add: settle_recv) (simp add: recv_ok_def)
next
  case (resend q timed_out act)
  have "q \<in> y_sent y" using send_invD(7) [OF s [unfolded send_ok_def]] resend(2) by blast
  note p = resend_sound [OF s [unfolded send_ok_def] this resend(3)]
  show ?thesis
  proof (cases "act = Count")
    case True
    have "y_sent y = (y_waiting y - {q}) \<union> insert q (y_stranded y) \<union> y_released y" using send_invD(7) [OF s [unfolded send_ok_def]] resend(2) by blast
    with True p resend(1) r s show ?thesis by (simp add: recv_ok_def send_ok_def send_inv_def)
  next
    case False
    with inv_settle [OF s, of q act] p resend(1,2) r show ?thesis by (simp add: settle_recv)
  qed
next
  case (accept q ok t f r')
  note b = sent_bounds [OF s [unfolded send_ok_def] accept(2)]
  from inv_accept [OF r [unfolded recv_ok_def] _ _ accept(2,3)] b show ?thesis by (intro recv_side [OF _ s subset_refl]) (auto simp: accept(1))
next
  case (drop q ok t f r')
  note b = sent_bounds [OF s [unfolded send_ok_def] drop(2)]
  from inv_dup(1) [OF r [unfolded recv_ok_def] _ _ drop(2,3)] b show ?thesis by (intro recv_side [OF _ s subset_refl]) (auto simp: drop(1))
next
  case (ack_later q ok t f r')
  note b = sent_bounds [OF s [unfolded send_ok_def] ack_later(2)]
  note i = inv_dup [OF r [unfolded recv_ok_def] _ _ ack_later(2,3)]
  have "ack_true a (set (y_handed y)) \<Longrightarrow> recv_inv src r' (y_pending y) (y_toack y) (f # y_unsent y) (y_handed y) (y_acks y) (y_sent y)" for a
    using inv_answer [of src r' _ _ "y_unsent y" "y_handed y" _ _ a f False] i b ack_later(2) by auto
  moreover have "ack_true (base_ack.make 0 0 0 0) (set (y_handed y))" by (simp add: ack_true_def base_ack.make_def)
  ultimately show ?thesis by (intro recv_side [OF _ s subset_refl]) (auto simp: ack_later(1))
next
  case (ack_again q ok t f r' raw a r'' sent_ok)
  note b = sent_bounds [OF s [unfolded send_ok_def] ack_again(2)]
  note i = inv_dup [OF r [unfolded recv_ok_def] _ _ ack_again(2,3)]
  have a: "r'' = r'" "ack_true a (set (y_handed y))" using dup_ack_true [of src r' _ _ _ "y_handed y" _ _ f raw a r''] i b ack_again(4) by auto
  from inv_answer [OF i(1) a(2), of f sent_ok] i b ack_again(2) a(1)
  have "recv_inv src r'' (y_pending y) (y_toack y) (if sent_ok then y_unsent y else f # y_unsent y) (y_handed y)
      (if sent_ok then insert a (y_acks y) else y_acks y) (y_sent y)" by auto
  then show ?thesis by (rule recv_side [OF _ s subset_refl]) (simp add: ack_again(1))
next
  case (copy_out q t ok)
  from inv_copy [OF r [unfolded recv_ok_def] copy_out(2,3), of ok] show ?thesis by (rule recv_side [OF _ s]) (auto simp: copy_out(1))
next
  case (ack f raw a r' sent_ok)
  have f: "seq_m f \<in> y_sent y" using recv_invD(5) [OF r [unfolded recv_ok_def]] ack(2) by blast
  note b = sent_bounds [OF s [unfolded send_ok_def] f]
  note i = inv_ack [OF r [unfolded recv_ok_def] b [THEN conjunct1] b [THEN conjunct2] ack(2,3)]
  from inv_answer [OF i(1-3) f, of sent_ok] show ?thesis by (rule recv_side [OF _ s subset_refl]) (simp add: ack(1))
next
  case (retry f raw a r' sent_ok)
  have f: "seq_m f \<in> y_sent y" "unsent_ok (set (y_handed y) - seq_m ` set (y_toack y)) f"
    using recv_invD(7) [OF r [unfolded recv_ok_def]] retry(2) by blast+
  have nd: "\<not> damaged f" using n by (simp add: retry(1))
  note b = sent_bounds [OF s [unfolded send_ok_def] f(1)]
  note i = inv_retry [OF r [unfolded recv_ok_def] b [THEN conjunct1] b [THEN conjunct2] retry(2) nd retry(3)]
  from inv_answer [OF i [THEN conjunct1] i [THEN conjunct2] f(2,1), of True]
  have "recv_inv src r' (y_pending y) (y_toack y) (if sent_ok then remove1 f (y_unsent y) else y_unsent y) (y_handed y)
      (if sent_ok then insert a (y_acks y) else y_acks y) (y_sent y)"
    using i by (auto intro: unsent_less [OF _ set_remove1_subset])
  then show ?thesis using recv_side [OF _ s subset_refl refl] by (simp add: retry(1) recv_ok_def send_ok_def)
qed

lemma again_sticks: "net_step src dst y y' \<Longrightarrow> y_nack_again y \<Longrightarrow> y_nack_again y'"
  by (erule net_step.cases) (auto simp: settle_recv)

lemma inv_step: "net_step src dst y y' \<Longrightarrow> net_inv src dst y \<Longrightarrow> net_inv src dst y'"
  using good_step again_sticks unfolding net_inv_def by metis

lemma inv_reach: "net_reach src dst y y' \<Longrightarrow> net_inv src dst y \<Longrightarrow> net_inv src dst y'"
  by (induction rule: net_reach.induct) (auto intro: inv_step)

lemma inv_init:
  assumes "mk_rel_info n no_heap = Some r" and "src < n" "dst < n"
  shows "net_inv src dst (net_init r)"
proof -
  from no_heap_list [of 0 10 20 False] obtain l where l: "mk_stl 0 10 20 False no_heap = Some l" "holds l {}" by auto
  then have r: "r = \<lparr>next_frag_seqs = replicate n 1, receivedDataSeqs = replicate n l, deliveredDataSeqs = replicate n l,
           sender_ackinfo = replicate n \<lparr>delivered_largest_inorder_seq = 0, received_largest_inorder_seq = 0\<rparr>\<rparr>"
    using assms(1) by (simp add: mk_rel_info_def)
  have "{q. 0 < q \<and> q < (1 :: 64 word)} = {}" by (auto simp: range_arith)
  then show ?thesis using assms(2,3) l(2)
    by (simp add: net_inv_def recv_ok_def send_ok_def recv_inv_def send_inv_def net_init_def r rel_rep_def next_seq_def largest_delivered_def)
qed

end
