(* ===== verification/Seq_Memory.thy ===== *)
theory Seq_Memory
  imports Seq_Session
begin

section \<open>Sequence tracking lists while memory lasts\<close>

text \<open>
  A frame property of every operation: when all allocations succeed they go on to succeed, and the amount by which the
  array grows does not change. A list that grows then never refuses to record a number (\<open>plenty\<close>).
\<close>

definition keeps_memory :: "stl \<Rightarrow> stl \<Rightarrow> bool" where
  "keeps_memory s s' \<longleftrightarrow> (s_allocs s = [] \<longrightarrow> s_allocs s' = []) \<and> growBy s' = growBy s"

named_theorems mem_dests \<open>operations that keep the memory\<close>

lemma keeps_refl [simp]: "keeps_memory s s"
  by (simp add: keeps_memory_def)

lemma keeps_trans: "keeps_memory s s' \<Longrightarrow> keeps_memory s' s'' \<Longrightarrow> keeps_memory s s''"
  by (simp add: keeps_memory_def)

lemma keeps_data [simp]:
  "keeps_memory s (s'\<lparr>headp := a\<rparr>) = keeps_memory s s'" "keeps_memory s (s'\<lparr>freep := a\<rparr>) = keeps_memory s s'"
  "keeps_memory s (s'\<lparr>hintp := a\<rparr>) = keeps_memory s s'" "keeps_memory s (s'\<lparr>listSize := i\<rparr>) = keeps_memory s s'"
  "keeps_memory s (s'\<lparr>arraySize := i\<rparr>) = keeps_memory s s'" "keeps_memory s (s'\<lparr>baseArray := a\<rparr>) = keeps_memory s s'"
  "keeps_memory (s\<lparr>headp := a\<rparr>) s' = keeps_memory s s'" "keeps_memory (s\<lparr>freep := a\<rparr>) s' = keeps_memory s s'"
  "keeps_memory (s\<lparr>hintp := a\<rparr>) s' = keeps_memory s s'" "keeps_memory (s\<lparr>listSize := i\<rparr>) s' = keeps_memory s s'"
  "keeps_memory (s\<lparr>arraySize := i\<rparr>) s' = keeps_memory s s'" "keeps_memory (s\<lparr>baseArray := a\<rparr>) s' = keeps_memory s s'"
  by (simp_all add: keeps_memory_def)

lemma keeps_fields [mem_dests]:
  "set_next p v s = Some s' \<Longrightarrow> keeps_memory s s'" "set_prev p v s = Some s' \<Longrightarrow> keeps_memory s s'"
  "set_lower p l s = Some s' \<Longrightarrow> keeps_memory s s'" "set_upper p l s = Some s' \<Longrightarrow> keeps_memory s s'"
  by (auto simp: keeps_memory_def set_next_def set_prev_def set_lower_def set_upper_def split: if_splits)

lemma keeps_alloc: "keeps_memory s (snd (alloc_elts n s))" "keeps_memory s (free_elts p n s')  \<longleftrightarrow> keeps_memory s s'"
  by (auto simp: keeps_memory_def alloc_elts_def free_elts_def Let_def split: list.split bool.split)

lemmas elementary = set_next_def set_prev_def set_lower_def set_upper_def get_next_def get_prev_def get_lower_def get_upper_def

lemma keeps_unlink [mem_dests]: "unlink p s = Some s' \<Longrightarrow> keeps_memory s s'"
  by (auto simp: unlink_def elementary bind_eq_Some_conv Let_def keeps_memory_def split: if_splits)

lemma keeps_append_free [mem_dests]: "append_free p s = Some s' \<Longrightarrow> keeps_memory s s'"
  by (auto simp: append_free_def elementary bind_eq_Some_conv Let_def keeps_memory_def split: if_splits)

lemma keeps_clear_elt [mem_dests]: "clear_elt p s = Some s' \<Longrightarrow> keeps_memory s s'"
  by (auto simp: clear_elt_def elementary bind_eq_Some_conv Let_def keeps_memory_def split: if_splits)

lemma keeps_copy_elt [mem_dests]: "copy_elt new i tmp s = Some s' \<Longrightarrow> keeps_memory s s'"
  by (auto simp: copy_elt_def elementary bind_eq_Some_conv Let_def keeps_memory_def split: if_splits)

lemma keeps_copy_loop [mem_dests]: "copy_loop n new i tmp s = Some s' \<Longrightarrow> keeps_memory s s'"
proof (induction "n - i" arbitrary: i tmp s)
  case 0
  then show ?case by (subst (asm) copy_loop.simps) simp
next
  case (Suc k)
  then have "i < n" by simp
  with Suc.prems obtain s1 tmp1 where "copy_elt new i tmp s = Some s1" "copy_loop n new (i + 1) tmp1 s1 = Some s'"
    by (subst (asm) copy_loop.simps) (auto simp: bind_eq_Some_conv)
  moreover have "k = n - (i + 1)" using Suc.hyps(2) by simp
  ultimately show ?case using Suc.hyps(1) keeps_copy_elt keeps_trans by blast
qed

lemma keeps_rebuild_free_elt [mem_dests]: "rebuild_free_elt p s = Some s' \<Longrightarrow> keeps_memory s s'"
  by (auto simp: rebuild_free_elt_def elementary bind_eq_Some_conv Let_def keeps_memory_def split: if_splits)

lemma keeps_foldM:
  assumes "foldM f s xs = Some s'" and "\<And>s x s'. f s x = Some s' \<Longrightarrow> keeps_memory s s'"
  shows "keeps_memory s s'"
  using foldM_invariant [OF assms(1), of "keeps_memory s"] assms(2) keeps_trans by (metis keeps_refl)

lemma keeps_rebuild_free [mem_dests]: "rebuild_free s = Some s' \<Longrightarrow> keeps_memory s s'"
  unfolding rebuild_free_def by (erule keeps_foldM) (rule keeps_rebuild_free_elt)

lemma keeps_shrink_into [mem_dests]: "shrink_into new s = Some s' \<Longrightarrow> keeps_memory s s'"
  by (auto simp: shrink_into_def bind_eq_Some_conv Let_def keeps_memory_def free_elts_def split: if_splits dest!: mem_dests)

lemma keeps_alloc_elts [mem_dests]: "alloc_elts n s = (p, s') \<Longrightarrow> keeps_memory s s'"
  using keeps_alloc(1) [of s n] by simp

lemma keeps_shrink_array [mem_dests]: "shrink_array s = Some s' \<Longrightarrow> keeps_memory s s'"
  by (auto simp: shrink_array_def keeps_memory_def free_elts_def split: if_splits prod.splits dest!: mem_dests)

lemma keeps_free [mem_dests]: "freeSeqRangeListElement p s = Some s' \<Longrightarrow> keeps_memory s s'"
  by (auto simp: freeSeqRangeListElement_def bind_eq_Some_conv keeps_memory_def dest!: mem_dests)

lemma keeps_grow_loop [mem_dests]: "grow_loop n new i tmp prevp s = Some (q, s') \<Longrightarrow> keeps_memory s s'"
proof (induction "n - i" arbitrary: i tmp prevp s)
  case 0
  then show ?case by (subst (asm) grow_loop.simps) simp
next
  case (Suc k)
  then have "i < n" by simp
  with Suc.prems obtain s1 h tmp1 prevp1 where s1: "copy_elt new i tmp s = Some s1"
    and rec: "grow_loop n new (i + 1) tmp1 prevp1 (s1\<lparr>hintp := h\<rparr>) = Some (q, s')"
    by (subst (asm) grow_loop.simps) (auto simp: bind_eq_Some_conv Let_def simp del: grow_loop.simps)
  have "k = n - (i + 1)" using Suc.hyps(2) by simp
  from Suc.hyps(1) [OF this rec] have "keeps_memory s1 s'" by simp
  with keeps_copy_elt [OF s1] show ?case by (rule keeps_trans)
qed

lemma keeps_add_free_elt [mem_dests]: "add_free_elt s p = Some s' \<Longrightarrow> keeps_memory s s'"
  by (auto simp: add_free_elt_def bind_eq_Some_conv keeps_memory_def dest!: mem_dests)

lemma keeps_grow_array [mem_dests]: "grow_array new prevp s = Some (q, s') \<Longrightarrow> keeps_memory s s'"
  by (auto simp: grow_array_def bind_eq_Some_conv Let_def keeps_memory_def free_elts_def split: if_splits
      dest!: keeps_grow_loop keeps_foldM [OF _ keeps_add_free_elt])

lemma keeps_pop_free [mem_dests]: "pop_free s = Some (p, s') \<Longrightarrow> keeps_memory s s'"
  by (auto simp: pop_free_def elementary bind_eq_Some_conv Let_def keeps_memory_def split: if_splits)

lemma keeps_link_elt [mem_dests]: "link_elt r p s = Some s' \<Longrightarrow> keeps_memory s s'"
  by (auto simp: link_elt_def elementary bind_eq_Some_conv Let_def keeps_memory_def split: if_splits)

lemma keeps_take_elt [mem_dests]: "take_elt p s = Some (r, s') \<Longrightarrow> keeps_memory s s'"
  by (auto simp: take_elt_def bind_eq_Some_conv keeps_memory_def dest!: mem_dests)

lemma keeps_get [mem_dests]: "getSeqRangeListElement p s = Some (r, s') \<Longrightarrow> keeps_memory s s'"
  by (auto simp: getSeqRangeListElement_def bind_eq_Some_conv keeps_memory_def split: if_splits prod.splits dest!: mem_dests)

lemma keeps_add_range [mem_dests]: "add_range p l u s = Some (ok, s') \<Longrightarrow> keeps_memory s s'"
  by (auto simp: add_range_def set_range_def bind_eq_Some_conv keeps_memory_def split: if_splits dest!: mem_dests)

lemma keeps_added [mem_dests]: "added (add_range p l u s) = Some (c, ok, s') \<Longrightarrow> keeps_memory s s'"
  by (auto simp: added_def dest!: mem_dests)

lemma keeps_find_lower [mem_dests]: "findNearestLowerSeqRangeListElement q s = Some (p, s') \<Longrightarrow> keeps_memory s s'"
  by (auto simp: findNearestLowerSeqRangeListElement_def bind_eq_Some_conv Let_def split: if_splits)

lemma keeps_rinr_single [mem_dests]: "rinr_single p l u s = Some (c, ok, s') \<Longrightarrow> keeps_memory s s'"
  by (auto simp: rinr_single_def bind_eq_Some_conv split: if_splits dest!: mem_dests intro: keeps_trans)

lemma keeps_rinr_multi [mem_dests]: "rinr_multi p q l u s = Some (c, ok, s') \<Longrightarrow> keeps_memory s s'"
  by (auto simp: rinr_multi_def bind_eq_Some_conv split: if_splits dest!: mem_dests intro: keeps_trans)

lemma keeps_rinr [mem_dests]: "recordIfNotRecorded l u s = Some (c, ok, s') \<Longrightarrow> keeps_memory s s'"
  by (auto simp: recordIfNotRecorded_def bind_eq_Some_conv split: if_splits dest!: mem_dests intro: keeps_trans)

lemma keeps_free_until [mem_dests]: "free_until q tmp s = Some s' \<Longrightarrow> keeps_memory s s'"
proof (rule free_until.raw_induct [of "\<lambda>q tmp s s'. keeps_memory s s'"])
  fix f q tmp s s'
  assume IH: "\<And>q tmp s s'. f q tmp s = Some s' \<Longrightarrow> keeps_memory s s'"
    and run: "(if tmp \<noteq> q then Option.bind (get_next tmp s) (\<lambda>nxt. Option.bind (freeSeqRangeListElement tmp s) (f q nxt)) else Some s) = Some s'"
  then show "keeps_memory s s'"
    by (auto simp: bind_eq_Some_conv split: if_splits dest!: keeps_free IH intro: keeps_trans)
qed

lemma keeps_erase_ends [mem_dests]:
  "erase_low p l s = Some s' \<Longrightarrow> keeps_memory s s'" "erase_high p l s = Some s' \<Longrightarrow> keeps_memory s s'"
  by (auto simp: erase_low_def erase_high_def bind_eq_Some_conv split: if_splits dest!: mem_dests intro: keeps_trans)

lemma keeps_erase_multi [mem_dests]: "erase_multi p q l u s = Some s' \<Longrightarrow> keeps_memory s s'"
  by (auto simp: erase_multi_def bind_eq_Some_conv dest!: mem_dests intro: keeps_trans)

lemma keeps_split [mem_dests]: "split_range p u s = Some (ok, s') \<Longrightarrow> keeps_memory s s'"
  by (auto simp: split_range_def bind_eq_Some_conv split: if_splits dest!: mem_dests intro: keeps_trans)

lemma keeps_erase_single [mem_dests]: "erase_single p l u s = Some (ok, s') \<Longrightarrow> keeps_memory s s'"
  by (auto simp: erase_single_def bind_eq_Some_conv split: if_splits dest!: mem_dests intro: keeps_trans)

lemma keeps_erase [mem_dests]: "erase_range l u s = Some (ok, s') \<Longrightarrow> keeps_memory s s'"
  by (auto simp: erase_range_def bind_eq_Some_conv split: if_splits dest!: mem_dests intro: keeps_trans)

lemma keeps_isRecorded [mem_dests]: "isRecorded l u s = Some (c, s') \<Longrightarrow> keeps_memory s s'"
  by (auto simp: isRecorded_def bind_eq_Some_conv split: if_splits dest!: mem_dests)

subsection \<open>Lists that never refuse\<close>

definition plenty :: "stl \<Rightarrow> bool" where
  "plenty s \<longleftrightarrow> s_allocs s = [] \<and> growBy s \<noteq> 0"

lemma plenty_kept: "keeps_memory s s' \<Longrightarrow> plenty s \<Longrightarrow> plenty s'"
  by (simp add: keeps_memory_def plenty_def)

lemma plenty_not_refused: "plenty s \<Longrightarrow> \<not> refused s"
  by (simp add: plenty_def refused_def)

lemma plenty_ops:
  "recordIfNotRecorded_seq q s = Some (b, ok, s') \<Longrightarrow> plenty s \<Longrightarrow> plenty s'"
  "isRecorded_seq q s = Some (b, s') \<Longrightarrow> plenty s \<Longrightarrow> plenty s'"
  "erase_seq q s = Some (ok, s') \<Longrightarrow> plenty s \<Longrightarrow> plenty s'"
  by (auto simp: recordIfNotRecorded_seq_def isRecorded_seq_def erase_seq_def dest!: mem_dests intro: plenty_kept)

end
