(* ===== verification/Reliability_Live.thy ===== *)
theory Reliability_Live
  imports Reliability_System Seq_Memory
begin

section \<open>What the reliability protocol guarantees\<close>

text \<open>
  While memory lasts the lists never refuse a number (the interface \<open>roomy_set\<close>, an extension of \<open>number_set\<close>), so that
  the receiver never ends the process. With it and the invariant of \<open>Reliability_System\<close>: no fragment is handed to the
  application twice or released before it was handed over, and every fragment can still get through --- as long as
  \<^verbatim>\<open>processRecvDataSeqs\<close> is not run a second time for damaged data, which makes the receiver accept a fragment again.
\<close>

subsection \<open>Lists with room\<close>

locale roomy_set = number_set +
  assumes room: "has s X \<Longrightarrow> 0 < q \<Longrightarrow> q < - 1 \<Longrightarrow> enter q s = Some (b, ok, s') \<Longrightarrow> ok"
begin

lemma enter_grows:
  assumes "has s X" "0 < q" "q < - 1"
  shows "\<exists>s'. enter q s = Some (q \<in> X, True, s') \<and> has s' (insert q X)"
  using enter [OF assms] room [OF assms] by (metis (full_types) insert_absorb)

end

definition roomy :: "stl \<Rightarrow> 64 word set \<Rightarrow> bool" where
  "roomy s X \<longleftrightarrow> holds s X \<and> plenty s"

interpretation rl: roomy_set roomy recordIfNotRecorded_seq isRecorded_seq erase_seq largestInOrder
proof
  fix s X and q :: "64 word" assume h: "roomy s X" and q: "0 < q" "q < - 1"
  then show "\<exists>ok s'. recordIfNotRecorded_seq q s = Some (q \<in> X, ok, s')
      \<and> (if q \<in> X then ok \<and> roomy s' X else roomy s' (if ok then insert q X else X))"
    using sl.enter [of s X q] plenty_ops(1) [of q s] unfolding roomy_def by metis
next
  fix s X and q :: "64 word" assume "roomy s X"
  then show "\<exists>s'. isRecorded_seq q s = Some (q \<in> X, s') \<and> roomy s' X"
    using sl.member [of s X q] plenty_ops(2) [of q s] unfolding roomy_def by metis
next
  fix s X ok s' and q :: "64 word" assume "roomy s X" "0 < q" "q < - 1" "erase_seq q s = Some (ok, s')"
  then show "roomy s' (if ok then X - {q} else X)"
    using sl.remove [of s X q] plenty_ops(3) [of q s] unfolding roomy_def by metis
next
  fix s X assume "roomy s X"
  then show "\<exists>n. largestInOrder s = Some n \<and> {1..n} \<subseteq> X \<and> n + 1 \<notin> X" using sl.largest [of s X] by (simp add: roomy_def)
next
  fix s X b ok s' and q :: "64 word" assume h: "roomy s X" and q: "0 < q" "q < - 1" and e: "recordIfNotRecorded_seq q s = Some (b, ok, s')"
  have hs: "holds s X" and nr: "\<not> refused s" using h plenty_not_refused by (auto simp: roomy_def)
  from rinr_ok [OF hs q(1) order_refl q(2)] nr e show ok
    by (auto simp: recordIfNotRecorded_seq_def split: if_splits)
qed

subsection \<open>The receiver while memory lasts\<close>

definition rel_plenty :: "nat \<Rightarrow> rel_info \<Rightarrow> bool" where
  "rel_plenty src r \<longleftrightarrow> plenty (receivedDataSeqs r ! src) \<and> plenty (deliveredDataSeqs r ! src)"

lemma arrive_plenty:
  assumes "arrive_check src f r = Some (Returns (v, f', r'))" and "rel_plenty src r"
  shows "rel_plenty src r'"
  using assms plenty_ops(1,2)
  by (fastforce simp: arrive_check_def rel_plenty_def get_nth_def set_nth_def bind_eq_Some_conv Let_def split: if_splits)

lemma update_plenty:
  assumes "update_seqs src f g r = Some (Returns r')" and "rel_plenty src r"
  shows "rel_plenty src r'"
  using assms plenty_ops(1,3)
  by (fastforce simp: update_seqs_def rel_plenty_def get_nth_def set_nth_def bind_eq_Some_conv split: if_splits)

lemma aggregate_same: "aggregate src a r = Some (Returns (a', r')) \<Longrightarrow> r' = r"
  by (auto simp: aggregate_def bind_eq_Some_conv)

lemma case_ended_Some:
  "(case u of Exits \<Rightarrow> Some Exits | Returns r \<Rightarrow> g r) = Some (Returns x) \<longleftrightarrow> (\<exists>r. u = Returns r \<and> g r = Some (Returns x))"
  by (cases u) auto

lemma make_ack_plenty:
  assumes "make_ack src a f r = Some (Returns (a', r'))" and "rel_plenty src r"
  shows "rel_plenty src r'"
  using assms
  by (auto simp: make_ack_def processRecvDataSeqs_def bind_eq_Some_conv case_ended_Some Let_def split: if_splits
      dest!: aggregate_same intro: update_plenty)

lemma plenty_step:
  assumes "net_step src dst y y'" and "rel_plenty src (y_receiver y)"
  shows "rel_plenty src (y_receiver y')"
  using assms by cases (auto simp: settle_recv intro: arrive_plenty make_ack_plenty)

lemma plenty_reach: "net_reach src dst y y' \<Longrightarrow> rel_plenty src (y_receiver y) \<Longrightarrow> rel_plenty src (y_receiver y')"
  by (induction rule: net_reach.induct) (auto intro: plenty_step)

lemma roomy_lists:
  assumes "rel_rep src r R D" and "rel_plenty src r"
  shows "src < length (receivedDataSeqs r)" "src < length (deliveredDataSeqs r)"
    "roomy (receivedDataSeqs r ! src) R" "roomy (deliveredDataSeqs r ! src) D"
  using assms by (simp_all add: rel_rep_def rel_plenty_def roomy_def)

lemma arrive_new_runs:
  assumes rep: "rel_rep src r R D" and p: "rel_plenty src r" and q: "seq_m f = q" "0 < q" "q < - 1" "q \<notin> R"
  shows "\<exists>r'. arrive_check src f r = Some (Returns (Accept, f, r'))"
proof -
  note l = roomy_lists [OF rep p]
  from rl.enter_grows [OF l(3) q(2,3)] q(4) obtain s' where
    "recordIfNotRecorded_seq q (receivedDataSeqs r ! src) = Some (False, True, s')" by auto
  then show ?thesis using q(1,2) l(1) by (simp add: arrive_check_def get_nth_def set_nth_def)
qed

lemma ack_good_returns:
  assumes rep: "rel_rep src r R D" and p: "rel_plenty src r"
    and f: "isDuplicate_m f = 0" "msgType_m f = MSGTYPE_PT2PT \<or> msgType_m f = MSGTYPE_PT2PT_SYNC"
    and q: "seq_m f = q" "0 < q" "q < - 1" and ok: "DataOK f"
  shows "\<exists>a' r'. make_ack src a f r = Some (Returns (a', r'))"
proof -
  note l = roomy_lists [OF rep p]
  from rl.enter_grows [OF l(4) q(2,3)] obtain b s' where
    "recordIfNotRecorded_seq q (deliveredDataSeqs r ! src) = Some (b, True, s')" by auto
  then have "update_seqs src f True r \<noteq> Some Exits" using q(1) l(2) by (simp add: update_seqs_def get_nth_def set_nth_def)
  with update_good [OF rep q] obtain r1 where "update_seqs src f True r = Some (Returns r1)" "rel_rep src r1 R (insert q D)" by blast
  with aggregate_ok [of src r1 R "insert q D"] ok show ?thesis unfolding ack_unique_run [OF f] by fastforce
qed



subsection \<open>A fragment that is still waiting can get through\<close>


lemma reach_step: "net_step src dst y y' \<Longrightarrow> net_reach src dst y y'"
  by (blast intro: net_reach.intros)






text \<open>A number that is not among those received is accepted.\<close>

lemma accept_step:
  assumes rep: "rel_rep src (y_receiver y) R D" and p: "rel_plenty src (y_receiver y)" and q: "q \<in> y_sent y" "0 < q" "q < - 1" "q \<notin> R"
  shows "\<exists>r'. net_step src dst y (y\<lparr>y_receiver := r', y_pending := q # y_pending y\<rparr>)"
proof -
  let ?f = "in_frag q True MSGTYPE_PT2PT"
  have "seq_m ?f = q" by (simp add: in_frag_def)
  from arrive_new_runs [OF rep p this q(2-4)] obtain r' where "arrive_check src ?f (y_receiver y) = Some (Returns (Accept, ?f, r'))" by auto
  from net_step.accept [OF q(1) this] show ?thesis by blast
qed


lemma init_plenty:
  assumes "mk_rel_info n no_heap = Some r" and "src < n"
  shows "rel_plenty src r"
proof -
  have "map_option plenty (mk_stl 0 10 20 False no_heap) = Some True" by (simp add: mk_stl_def no_heap_def plenty_def Let_def)
  then show ?thesis using assms by (auto simp: mk_rel_info_def rel_plenty_def bind_eq_Some_conv)
qed

lemma count_one: "distinct xs \<Longrightarrow> x \<in> set xs \<Longrightarrow> count_list xs x = 1"
  by (induction xs) (auto simp: count_list_0_iff)

text \<open>Erasing does not fail for want of memory; and it is defined when the next number is not in the list.\<close>

lemma erase_defined:
  assumes "holds s X" and "0 < q" "q < - 1" "q + 1 \<notin> X"
  shows "erase_seq q s \<noteq> None"
proof -
  have "q \<le> q + 1" using assms(3) by (auto simp: range_arith)
  then have "\<not> {q..q + 1} \<subseteq> X" using assms(4) by auto
  with erase_ok [OF assms(1,2) order_refl assms(3)] show ?thesis by (auto simp: erase_seq_def)
qed

lemma erase_returns:
  assumes rep: "rel_rep src r R D" and p: "rel_plenty src r" and q: "0 < q" "q < - 1" and e: "erase_seq q (receivedDataSeqs r ! src) \<noteq> None"
    and f: "isDuplicate_m f = 0" "msgType_m f = MSGTYPE_PT2PT \<or> msgType_m f = MSGTYPE_PT2PT_SYNC" "seq_m f = q" "\<not> DataOK f"
  shows "\<exists>a' r'. make_ack src a f r = Some (Returns (a', r'))"
proof -
  note l = roomy_lists [OF rep p]
  have h: "holds (receivedDataSeqs r ! src) R" "\<not> refused (receivedDataSeqs r ! src)" using l(3) plenty_not_refused by (auto simp: roomy_def)
  have "\<not> (moves (receivedDataSeqs r ! src) \<and> {q..q + 1} \<subseteq> R)" using erase_stale [OF h(1) q(1) order_refl q(2)] e by (auto simp: erase_seq_def)
  from erase_ok [OF h(1) q(1) order_refl q(2) _ this] h(2) obtain s' where "erase_seq q (receivedDataSeqs r ! src) = Some (True, s')"
    by (auto simp: erase_seq_def split: if_splits)
  then obtain r1 where r1: "update_seqs src f False r = Some (Returns r1)" using f(3) l(1) by (simp add: update_seqs_def get_nth_def set_nth_def)
  from aggregate_ok [OF update_corrupt(1) [OF rep f(3) q r1]] r1 f(4) show ?thesis unfolding ack_unique_run [OF f(1,2)] by fastforce
qed

subsection \<open>The claims\<close>

text \<open>Runs that the examples below use. Process 0 sends its first fragment to process 1; then a damaged copy arrives, whose
  acknowledgement cannot be sent, and after it a good one.\<close>

lemma first_send:
  "\<exists>r s y. mk_rel_info 2 no_heap = Some r \<and> y = (net_init r)\<lparr>y_sender := s, y_sent := {1}, y_waiting := {1}\<rparr>
    \<and> net_reach 0 1 (net_init r) y \<and> \<not> y_nack_again y \<and> 1 \<in> y_waiting y \<and> y_toack y = []"
proof -
  from no_heap_list [of 0 10 20 False] obtain l where l: "mk_stl 0 10 20 False no_heap = Some l" by auto
  then obtain r where r: "mk_rel_info 2 no_heap = Some r" by (simp add: mk_rel_info_def)
  with l have n: "next_frag_seqs r = [1, 1]" by (auto simp: mk_rel_info_def numeral_2_eq_2)
  let ?y = "net_init r"
  have "initFragSeq True False True 1 (y_sender ?y) = Some (1, r\<lparr>next_frag_seqs := [1, 2]\<rparr>)"
    by (simp add: initFragSeq_def get_nth_def set_nth_def net_init_def n)
  moreover have "(1 :: 64 word) < - 1" by code_simp
  ultimately have "net_step 0 1 ?y (?y\<lparr>y_sender := r\<lparr>next_frag_seqs := [1, 2]\<rparr>, y_sent := insert 1 (y_sent ?y), y_waiting := insert 1 (y_waiting ?y)\<rparr>)"
    by (rule net_step.send)
  then have "net_step 0 1 ?y (?y\<lparr>y_sender := r\<lparr>next_frag_seqs := [1, 2]\<rparr>, y_sent := {1}, y_waiting := {1}\<rparr>)"
    by (simp add: net_init_def)
  with r reach_step [OF this] show ?thesis by (intro exI [of _ r] exI [of _ "r\<lparr>next_frag_seqs := [1, 2]\<rparr>"] exI conjI) (assumption | rule refl | simp add: net_init_def)+
qed

lemma fresh_info: "\<exists>r. mk_rel_info 2 no_heap = Some r \<and> rel_rep 0 r {} {} \<and> rel_plenty 0 r"
proof -
  from no_heap_list [of 0 10 20 False] obtain l where l: "mk_stl 0 10 20 False no_heap = Some l" "holds l {}" by auto
  then obtain r where r: "mk_rel_info 2 no_heap = Some r" by (simp add: mk_rel_info_def)
  with l have "rel_rep 0 r {} {}" by (auto simp: mk_rel_info_def rel_rep_def)
  with r init_plenty [OF r] show ?thesis by simp
qed

lemma damaged_then_good:
  "\<exists>r y. mk_rel_info 2 no_heap = Some r \<and> net_reach 0 1 (net_init r) y \<and> \<not> y_nack_again y \<and> y_handed y = [1]
    \<and> in_frag 1 False MSGTYPE_PT2PT \<in> set (y_unsent y) \<and> erase_seq 1 (receivedDataSeqs (y_receiver y) ! 0) \<noteq> None"
proof -
  from first_send obtain r s where r: "mk_rel_info 2 no_heap = Some r"
    "net_reach 0 1 (net_init r) ((net_init r)\<lparr>y_sender := s, y_sent := {1}, y_waiting := {1}\<rparr>)" (is "net_reach _ _ _ ?y0") by blast
  have one: "(0 :: 64 word) < 1" "(1 :: 64 word) < - 1" by code_simp+
  have y0: "y_receiver ?y0 = r" "rel_rep 0 r {} {}" "rel_plenty 0 r" using fresh_info r(1) by (auto simp: net_init_def)
  let ?f = "in_frag 1 False MSGTYPE_PT2PT" and ?g = "in_frag 1 True MSGTYPE_PT2PT"
  have f: "isDuplicate_m ?f = 0" "msgType_m ?f = MSGTYPE_PT2PT \<or> msgType_m ?f = MSGTYPE_PT2PT_SYNC" "seq_m ?f = 1" "\<not> DataOK ?f" "seq_m ?g = 1"
    by (simp_all add: in_frag_def)
  from arrive_new [OF y0(2) f(3) one] arrive_new_runs [OF y0(2,3) f(3) one] obtain r1 where
    r1: "arrive_check 0 ?f r = Some (Returns (Accept, ?f, r1))" "rel_rep 0 r1 {1} {}" by auto
  note p1 = arrive_plenty [OF r1(1) y0(3)]
  have "erase_seq 1 (receivedDataSeqs r1 ! 0) \<noteq> None" using erase_defined [of _ "{1}" 1] r1(2) one by (simp add: rel_rep_def)
  from erase_returns [OF r1(2) p1 one this f(1-4), of undefined] obtain a r2 where m: "make_ack 0 undefined ?f r1 = Some (Returns (a, r2))" by blast
  have r2: "rel_rep 0 r2 {} {}" using ack_unique_ok(1) [OF r1(2) f(1-3) one m] f(4) by simp
  note p2 = make_ack_plenty [OF m p1]
  from arrive_new [OF r2 f(5) one] arrive_new_runs [OF r2 p2 f(5) one] obtain r3 where
    r3: "arrive_check 0 ?g r2 = Some (Returns (Accept, ?g, r3))" "rel_rep 0 r3 {1} {}" by auto
  let ?y1 = "?y0\<lparr>y_receiver := r1, y_pending := [1]\<rparr>"
  let ?y2 = "?y1\<lparr>y_pending := [], y_toack := [?f]\<rparr>"
  let ?y3 = "?y2\<lparr>y_receiver := r2, y_toack := [], y_unsent := [?f]\<rparr>"
  let ?y4 = "?y3\<lparr>y_receiver := r3, y_pending := [1]\<rparr>"
  let ?y5 = "?y4\<lparr>y_pending := [], y_toack := [?g], y_handed := [1]\<rparr>"
  have "net_step 0 1 ?y0 ?y1" using net_step.accept [of 1 ?y0 0 False MSGTYPE_PT2PT ?f r1 1] r1(1) by (simp add: net_init_def)
  moreover have "net_step 0 1 ?y1 ?y2" using net_step.copy_out [of 1 ?y1 MSGTYPE_PT2PT 0 1 False] by (simp add: is_pt2pt_def net_init_def)
  moreover have "net_step 0 1 ?y2 ?y3" using net_step.ack [of ?f ?y2 0 undefined a r2 1 False] m by (simp add: net_init_def)
  moreover have "net_step 0 1 ?y3 ?y4" using net_step.accept [of 1 ?y3 0 True MSGTYPE_PT2PT ?g r3 1] r3(1) by (simp add: net_init_def)
  moreover have "net_step 0 1 ?y4 ?y5" using net_step.copy_out [of 1 ?y4 MSGTYPE_PT2PT 0 1 True] by (simp add: is_pt2pt_def net_init_def)
  ultimately have "net_reach 0 1 (net_init r) ?y5" by (intro net_reach.more [OF net_reach.more [OF net_reach.more [OF net_reach.more [OF net_reach.more [OF r(2)]]]]])
  moreover have "erase_seq 1 (receivedDataSeqs r3 ! 0) \<noteq> None" using erase_defined [of _ "{1}" 1] r3(2) one by (simp add: rel_rep_def)
  ultimately show ?thesis using r(1) by (intro exI [of _ r] exI [of _ ?y5]) (simp add: net_init_def)
qed

text \<open>A receiver to which one fragment was delivered.\<close>

lemma one_delivered: "\<exists>r. rel_rep 0 r {1} {1}"
proof -
  from fresh_info obtain r where r: "rel_rep 0 r {} {}" "rel_plenty 0 r" by blast
  let ?f = "in_frag 1 True MSGTYPE_PT2PT"
  have one: "(0 :: 64 word) < 1" "(1 :: 64 word) < - 1" by code_simp+
  have f: "isDuplicate_m ?f = 0" "msgType_m ?f = MSGTYPE_PT2PT \<or> msgType_m ?f = MSGTYPE_PT2PT_SYNC" "seq_m ?f = 1" "DataOK ?f"
    by (simp_all add: in_frag_def)
  from arrive_new [OF r(1) f(3) one] arrive_new_runs [OF r f(3) one] obtain r1 where
    r1: "arrive_check 0 ?f r = Some (Returns (Accept, ?f, r1))" "rel_rep 0 r1 {1} {}" by auto
  from ack_good_returns [OF r1(2) arrive_plenty [OF r1(1) r(2)] f(1-3) one f(4)] obtain a r2 where
    "make_ack 0 undefined ?f r1 = Some (Returns (a, r2))" by blast
  from ack_unique_ok(1) [OF r1(2) f(1-3) one this] f(4) show ?thesis by auto
qed

lemma reached:
  assumes "mk_rel_info n no_heap = Some r" and "src < n" "dst < n" and "net_reach src dst (net_init r) y" and "\<not> y_nack_again y"
  shows "recv_ok src y" "send_ok dst y" "rel_plenty src (y_receiver y)"
proof -
  from inv_reach [OF assms(4) inv_init [OF assms(1-3)]] assms(5) show "recv_ok src y" "send_ok dst y" by (simp_all add: net_inv_def)
  have "rel_plenty src (y_receiver (net_init r))" using init_plenty [OF assms(1,2)] by (simp add: net_init_def)
  from plenty_reach [OF assms(4) this] show "rel_plenty src (y_receiver y)" .
qed





text \<open>
  C13: A fragment is handed over twice when \<^verbatim>\<open>SendUnsentAcks\<close> runs \<^verbatim>\<open>processRecvDataSeqs\<close> again for damaged data. In every state that is
  reached as above, in which the acknowledgement of a damaged copy of a fragment could not be sent while a good copy of the
  same fragment has been handed to the application meanwhile: unless erasing the number is undefined, the retry takes the number out of the received ones, the next
  copy that arrives is accepted as new, and the application gets the fragment a second time.\<close>

theorem nack_retried_delivers_twice:
  assumes "mk_rel_info n no_heap = Some r" and "src < n" "dst < n" and "net_reach src dst (net_init r) y" and "\<not> y_nack_again y"
    and "f \<in> set (y_unsent y)" and "damaged f" and "seq_m f \<in> set (y_handed y)"
    and "erase_seq (seq_m f) (receivedDataSeqs (y_receiver y) ! src) \<noteq> None"
  shows "\<exists>y'. net_reach src dst y y' \<and> count_list (y_handed y') (seq_m f) = 2"
proof -
  let ?q = "seq_m f"
  note o = reached [OF assms(1-5)]
  note d = recv_invD [OF o(1) [unfolded recv_ok_def]]
  have sent: "?q \<in> y_sent y" using d(5) assms(8) by blast
  from sent_bounds [OF o(2) [unfolded send_ok_def] sent] have b: "0 < ?q" "?q < - 1" by auto
  have f: "isDuplicate_m f = 0" "\<not> DataOK f" "msgType_m f = MSGTYPE_PT2PT \<or> msgType_m f = MSGTYPE_PT2PT_SYNC"
    using assms(6,7) d(7) [of f] by (auto simp: damaged_def unsent_ok_def is_pt2pt_def)
  from erase_returns [OF d(1) o(3) b assms(9) f(1,3) refl f(2), of undefined] obtain a r1 where
    m: "make_ack src undefined f (y_receiver y) = Some (Returns (a, r1))" by blast
  note u = ack_unique_ok(1) [OF d(1) f(1,3) refl b m]
  let ?y1 = "y\<lparr>y_receiver := r1, y_acks := insert a (y_acks y), y_unsent := remove1 f (y_unsent y), y_nack_again := True\<rparr>"
  have y1: "net_step src dst y ?y1" using net_step.retry [OF assms(6) m, of dst True] assms(7) by simp
  have "rel_plenty src (y_receiver ?y1)" using plenty_step [OF y1 o(3)] .
  from accept_step [of src ?y1 _ _ ?q dst, OF _ this] u f(2) sent b obtain r2 where
    y2: "net_step src dst ?y1 (?y1\<lparr>y_receiver := r2, y_pending := ?q # y_pending ?y1\<rparr>)" (is "net_step src dst _ ?y2") by auto
  let ?y3 = "?y2\<lparr>y_pending := remove1 ?q (y_pending ?y2), y_toack := in_frag ?q True MSGTYPE_PT2PT # y_toack ?y2, y_handed := ?q # y_handed ?y2\<rparr>"
  have y3: "net_step src dst ?y2 ?y3"
    using net_step.copy_out [of ?q ?y2 MSGTYPE_PT2PT src dst True] by (simp add: is_pt2pt_def)
  have "net_reach src dst y ?y3" using y1 y2 y3 by (blast intro: net_reach.intros)
  moreover have "count_list (y_handed ?y3) ?q = 2" using assms(8) d(3) by (simp add: count_one)
  ultimately show ?thesis by blast
qed

theorem nack_retried_delivers_twice_witness:
  "\<exists>r y y'. mk_rel_info 2 no_heap = Some r \<and> net_reach 0 1 (net_init r) y \<and> \<not> y_nack_again y \<and> y_handed y = [1]
    \<and> net_reach 0 1 y y' \<and> count_list (y_handed y') 1 = 2"
proof -
  from damaged_then_good obtain r y where y: "mk_rel_info 2 no_heap = Some r" "net_reach 0 1 (net_init r) y" "\<not> y_nack_again y"
    "y_handed y = [1]" "in_frag 1 False MSGTYPE_PT2PT \<in> set (y_unsent y)" "erase_seq 1 (receivedDataSeqs (y_receiver y) ! 0) \<noteq> None" by blast
  have "damaged (in_frag 1 False MSGTYPE_PT2PT)" "seq_m (in_frag 1 False MSGTYPE_PT2PT) = 1" by (simp_all add: damaged_def in_frag_def)
  with nack_retried_delivers_twice [OF y(1) _ _ y(2,3,5)] y show ?thesis by fastforce
qed

text \<open>
  C35: The duplicate check of \<^verbatim>\<open>Communicator::handleReceivedFrag\<close>. On lists that hold the numbers \<open>R\<close> received and \<open>D\<close> delivered
  from \<open>src\<close>, with memory left, the check returns. A number not in \<open>R\<close> is accepted and entered; a number in \<open>D\<close> is marked as a delivered
  duplicate and acknowledged; a number received but not delivered is acknowledged when no number below it is missing
  and dropped otherwise. \<open>D\<close>, the other peers and the sender's data are unchanged.\<close>

theorem arrival_classified:
  assumes "rel_rep src r R D" and "rel_plenty src r" and "0 < seq_m f" and "seq_m f < - 1"
  shows "\<exists>v f' r'. arrive_check src f r = Some (Returns (v, f', r')) \<and> rel_plenty src r' \<and> others_kept src r r'
    \<and> rel_rep src r' (insert (seq_m f) R) D
    \<and> v = (if seq_m f \<notin> R then Accept else if seq_m f \<in> D \<or> {1..seq_m f} \<subseteq> R then AckDuplicate else Drop)
    \<and> f' = (if seq_m f \<notin> R then f else if seq_m f \<in> D then f\<lparr>isDuplicate_m := DUPLICATE_DELIVERD, DataOK := True\<rparr>
            else if {1..seq_m f} \<subseteq> R then f\<lparr>isDuplicate_m := DUPLICATE_RECEIVED\<rparr> else f)"
proof (cases "seq_m f \<in> R")
  case True
  from arrive_dup [OF assms(1) refl assms(3,4) True] obtain r' where "rel_rep src r' R D" "others_kept src r r'"
    "arrive_check src f r = Some (Returns
      (if seq_m f \<in> D then (AckDuplicate, f\<lparr>isDuplicate_m := DUPLICATE_DELIVERD, DataOK := True\<rparr>, r')
       else if {1..seq_m f} \<subseteq> R then (AckDuplicate, f\<lparr>isDuplicate_m := DUPLICATE_RECEIVED\<rparr>, r') else (Drop, f, r')))" by blast
  with True assms(2) arrive_plenty show ?thesis by (auto simp: insert_absorb split: if_splits)
next
  case False
  from arrive_new [OF assms(1) refl assms(3,4) False] arrive_new_runs [OF assms(1,2) refl assms(3,4) False] obtain r' where
    "arrive_check src f r = Some (Returns (Accept, f, r'))" "rel_rep src r' (insert (seq_m f) R) D" "others_kept src r r'" by auto
  with False assms(2) arrive_plenty show ?thesis by auto
qed

theorem arrival_classified_witness:
  "\<exists>r f' r'. mk_rel_info 2 no_heap = Some r \<and> arrive_check 0 (in_frag 7 True MSGTYPE_PT2PT) r = Some (Returns (Accept, f', r'))
    \<and> rel_rep 0 r' {7} {}"
proof -
  from fresh_info obtain r where r: "mk_rel_info 2 no_heap = Some r" "rel_rep 0 r {} {}" "rel_plenty 0 r" by blast
  have "(0 :: 64 word) < 7" "(7 :: 64 word) < - 1" by code_simp+
  with arrival_classified [OF r(2,3), of "in_frag 7 True MSGTYPE_PT2PT"] r(1) show ?thesis by (auto simp: in_frag_def)
qed

text \<open>
  C34: The copy of the check in \<^verbatim>\<open>Communicator::matchReceivedFrag\<close> marks a duplicate of a delivered fragment with the value of
  a received one. The acknowledgement that answers it then names no fragment, and no sender that processes it counts or releases the fragment;
  the check of \<^verbatim>\<open>handleReceivedFrag\<close> leads to an acknowledgement on which the sender of the fragment counts it, and
  releases it if the device has finished sending it.\<close>

theorem match_duplicate_not_acked:
  assumes "rel_rep src r R D" and "q \<in> R" "q \<in> D" and "seq_m f = q" "0 < q" "q < - 1"
  shows "(\<exists>f' r' a'. match_check src f r = Some (Returns (AckDuplicate, f', r')) \<and> make_ack src a f' r' = Some (Returns (a', r'))
      \<and> thisFragSeq a' = 0 \<and> ackStatus a' = ACKSTATUS_AGGINFO_ONLY
      \<and> (\<forall>peer t c s act s'. process_ack peer t a' q c s = Some (act, s') \<longrightarrow> act = Ignore))
    \<and> (\<exists>f' r' a'. arrive_check src f r = Some (Returns (AckDuplicate, f', r')) \<and> make_ack src a f' r' = Some (Returns (a', r'))
      \<and> thisFragSeq a' = q \<and> ackStatus a' = ACKSTATUS_DATAGOOD
      \<and> (\<forall>peer t c s. peer < length (sender_ackinfo s) \<and> is_pt2pt t
           \<longrightarrow> (\<exists>s'. process_ack peer t a' q c s = Some (if c then Release else Count, s'))))"
proof -
  from arrive_dup [OF assms(1,4-6,2)] assms(3) obtain r' where r': "rel_rep src r' R D"
    "arrive_check src f r = Some (Returns (AckDuplicate, f\<lparr>isDuplicate_m := DUPLICATE_DELIVERD, DataOK := True\<rparr>, r'))" by auto
  from ack_dup_ok [OF r'(1), of "f\<lparr>isDuplicate_m := DUPLICATE_DELIVERD, DataOK := True\<rparr>" a] assms(4) obtain a1 where
    a1: "make_ack src a (f\<lparr>isDuplicate_m := DUPLICATE_DELIVERD, DataOK := True\<rparr>) r' = Some (Returns (a1, r'))"
      "thisFragSeq a1 = q" "ackStatus a1 = ACKSTATUS_DATAGOOD" by auto
  have rel: "\<exists>s'. process_ack peer t a1 q c s = Some (if c then Release else Count, s')" if "peer < length (sender_ackinfo s)" "is_pt2pt t" for peer t c s
    using that a1(2,3) by (auto simp: process_ack_def handlePt2PtMessageAck_def checkForDuplicateAndNonSpecificAck_def get_nth_def set_nth_def
        is_pt2pt_def Let_def)
  from r'(2) assms(4,5) have m: "match_check src f r = Some (Returns (AckDuplicate, f\<lparr>isDuplicate_m := 1\<rparr>, r'))"
    by (auto simp: match_check_def arrive_check_def bind_eq_Some_conv Let_def split: if_splits)
  from ack_dup_ok [OF r'(1), of "f\<lparr>isDuplicate_m := 1\<rparr>" a] obtain a2 where
    a2: "make_ack src a (f\<lparr>isDuplicate_m := 1\<rparr>) r' = Some (Returns (a2, r'))" "thisFragSeq a2 = 0" "ackStatus a2 = ACKSTATUS_AGGINFO_ONLY" by auto
  have ign: "act = Ignore" if "process_ack peer t a2 q c s = Some (act, s')" for peer t c s act s'
    using that a2(3) by (auto simp: process_ack_def checkForDuplicateAndNonSpecificAck_def bind_eq_Some_conv Let_def split: if_splits)
  show ?thesis using m a2 ign r'(2) a1 rel by blast
qed

theorem match_duplicate_not_acked_witness:
  "\<exists>r f' r' a'. rel_rep 0 r {1} {1} \<and> match_check 0 (in_frag 1 True MSGTYPE_PT2PT) r = Some (Returns (AckDuplicate, f', r'))
    \<and> make_ack 0 (base_ack.make 0 0 0 0) f' r' = Some (Returns (a', r')) \<and> ackStatus a' = ACKSTATUS_AGGINFO_ONLY"
proof -
  have "(1 :: 64 word) < - 1" by code_simp
  with one_delivered match_duplicate_not_acked [of 0 _ "{1}" "{1}" 1 "in_frag 1 True MSGTYPE_PT2PT" "base_ack.make 0 0 0 0"]
  show ?thesis by (fastforce simp: in_frag_def)
qed

end
