(* ===== verification/Match.thy ===== *)
theory Match
  imports Lampi_Prelude "HOL-Library.Word"
begin

section \<open>Message matching\<close>

text \<open>
  The receiving half of the message engine: \<^verbatim>\<open>queue/Pt2PtGroupRecvFrags.cc\<close>, \<^verbatim>\<open>Pt2PtGroupMatchFrags.cc\<close>,
  \<^verbatim>\<open>Pt2PtGroupMatchRecv.cc\<close>, \<^verbatim>\<open>Pt2PtGroupRecv.cc\<close>, \<^verbatim>\<open>ProcessMatchedData\<close> of \<^verbatim>\<open>Pt2PtGroupMisc.cc\<close> and the copying
  functions of \<^verbatim>\<open>RecvDesc_t\<close> (\<^verbatim>\<open>path/common/BaseDesc.cc\<close>), for one communicator and one thread.

  Receive and fragment descriptors live at addresses (\<open>recvs\<close>, \<open>frags\<close>); the queues are the sequences of addresses that
  the doubly linked lists hold, per source process. A failed \<^verbatim>\<open>assert\<close> is \<open>None\<close>. What a path answers is a part of the fragment: \<open>f_ok\<close>
  is the result of \<^verbatim>\<open>CheckData\<close>, \<open>f_acks\<close> that of \<^verbatim>\<open>AckData\<close>. Sequence numbers of messages and receives are unbounded.

  The receive buffer is contiguous. Fragments in shared memory (\<^verbatim>\<open>ENABLE_SHARED_MEMORY\<close>) and requests that are freed
  before they complete are left out.
\<close>

datatype queue_id = ONNOLIST | POSTEDWILDIRECV | POSTEDIRECV | MATCHEDIRECV | UNMATCHEDFRAGS | AHEADOFSEQUENCEFRAGS
  | FRAGSTOACK | FRAGFREELIST

abbreviation (input) ULM_ANY_TAG :: int where "ULM_ANY_TAG \<equiv> - 1"
abbreviation (input) ULM_ANY_PROC :: int where "ULM_ANY_PROC \<equiv> - 1"

record recv_desc =
  p_length :: nat
  p_peer :: int
  p_tag :: int
  r_length :: nat
  r_peer :: int
  r_tag :: int
  r_isendSeq :: int
  r_irecvSeq :: int
  r_buf :: "nat \<Rightarrow> 8 word"
  DataReceived :: nat
  DataInBitBucket :: nat
  messageDone :: bool
  r_queue :: queue_id

record frag_desc =
  f_src :: nat
  f_tag :: int
  f_isendSeq :: int
  f_msgLength :: nat
  f_offset :: nat
  f_data :: "8 word list"
  f_ok :: bool
  f_acks :: bool
  f_queue :: queue_id

record comm_q =
  recvs :: "nat \<Rightarrow> recv_desc"
  frags :: "nat \<Rightarrow> frag_desc"
  groupSize :: nat
  PostedWildRecv :: "nat list"
  PostedSpecificRecv :: "nat \<Rightarrow> nat list"
  MatchedRecv :: "nat \<Rightarrow> nat list"
  AheadOfSeqRecvFrags :: "nat \<Rightarrow> nat list"
  OkToMatchRecvFrags :: "nat \<Rightarrow> nat list"
  next_expected_isendSeqs :: "nat \<Rightarrow> int"
  next_irecv_id_counter :: int
  UnprocessedAcks :: "nat list"
  frag_pool :: "nat list"

subsection \<open>Copying to the application\<close>

definition upd_recv :: "nat \<Rightarrow> (recv_desc \<Rightarrow> recv_desc) \<Rightarrow> comm_q \<Rightarrow> comm_q" where
  "upd_recv a g c = c\<lparr>recvs := (recvs c)(a := g (recvs c a))\<rparr>"

definition set_fqueue :: "nat \<Rightarrow> queue_id \<Rightarrow> comm_q \<Rightarrow> comm_q" where
  "set_fqueue f w c = c\<lparr>frags := (frags c)(f := (frags c f)\<lparr>f_queue := w\<rparr>)\<rparr>"

definition write_bytes :: "nat \<Rightarrow> 8 word list \<Rightarrow> (nat \<Rightarrow> 8 word) \<Rightarrow> nat \<Rightarrow> 8 word" where
  "write_bytes off bs buf = (\<lambda>i. if off \<le> i \<and> i < off + length bs then bs ! (i - off) else buf i)"

text \<open>What \<^verbatim>\<open>CopyToApp\<close> and \<^verbatim>\<open>CopyToAppLock\<close> have in common: the bytes copied and discarded, or nothing when the data is
  corrupt (the bytes are in the buffer all the same).\<close>

definition copy_data :: "nat \<Rightarrow> nat \<Rightarrow> comm_q \<Rightarrow> (nat \<times> nat) option \<times> comm_q" where
  "copy_data a f c =
     (let fd = frags c f; len = length (f_data fd); plen = p_length (recvs c a) in
      if plen \<le> f_offset fd then (Some (0, len), c)
      else let n = min len (plen - f_offset fd);
               c1 = upd_recv a (\<lambda>r. r\<lparr>r_buf := write_bytes (f_offset fd) (take n (f_data fd)) (r_buf r)\<rparr>) c
           in (if f_ok fd then Some (n, len - n) else None, c1))"

definition remove_matched :: "nat \<Rightarrow> comm_q \<Rightarrow> comm_q" where
  "remove_matched a c =
     (if r_queue (recvs c a) = MATCHEDIRECV
      then let s = nat (r_peer (recvs c a)) in c\<lparr>MatchedRecv := (MatchedRecv c)(s := remove1 a (MatchedRecv c s))\<rparr>
      else c)"

definition DeliveredToApp :: "nat \<Rightarrow> nat \<Rightarrow> nat \<Rightarrow> comm_q \<Rightarrow> comm_q option" where
  "DeliveredToApp a copied discarded c =
     (let c1 = upd_recv a (\<lambda>r. r\<lparr>DataReceived := DataReceived r + copied, DataInBitBucket := DataInBitBucket r + discarded\<rparr>) c;
          r = recvs c1 a
      in if DataReceived r + DataInBitBucket r \<ge> r_length r then
           if messageDone r then None
           else Some (remove_matched a (upd_recv a (\<lambda>r. r\<lparr>messageDone := True\<rparr>) c1))
         else Some c1)"

definition CopyToApp :: "nat \<Rightarrow> nat \<Rightarrow> comm_q \<Rightarrow> comm_q option" where
  "CopyToApp a f c =
     (case copy_data a f c of
        (None, c1) \<Rightarrow> Some c1
      | (Some (n, d), c1) \<Rightarrow> DeliveredToApp a n d c1)"

text \<open>The version that leaves \<^verbatim>\<open>messageDone\<close> to its caller; the result tells whether the message is complete
  (\<^verbatim>\<open>*recvDone = true\<close>).\<close>

definition DeliveredToAppLock :: "nat \<Rightarrow> nat \<Rightarrow> nat \<Rightarrow> comm_q \<Rightarrow> bool \<times> comm_q" where
  "DeliveredToAppLock a copied discarded c =
     (let c1 = upd_recv a (\<lambda>r. r\<lparr>DataReceived := DataReceived r + copied, DataInBitBucket := DataInBitBucket r + discarded\<rparr>) c;
          r = recvs c1 a
      in if DataReceived r + DataInBitBucket r \<ge> r_length r then (True, remove_matched a c1) else (False, c1))"

definition CopyToAppLock :: "nat \<Rightarrow> nat \<Rightarrow> comm_q \<Rightarrow> bool \<times> comm_q" where
  "CopyToAppLock a f c =
     (case copy_data a f c of
        (None, c1) \<Rightarrow> (False, c1)
      | (Some (n, d), c1) \<Rightarrow> DeliveredToAppLock a n d c1)"

text \<open>Acknowledge the fragment; it goes back to its pool or waits for another attempt.\<close>

definition ack_frag :: "nat \<Rightarrow> comm_q \<Rightarrow> comm_q" where
  "ack_frag f c =
     (if f_acks (frags c f) then (set_fqueue f FRAGFREELIST c)\<lparr>frag_pool := frag_pool c @ [f]\<rparr>
      else (set_fqueue f FRAGSTOACK c)\<lparr>UnprocessedAcks := UnprocessedAcks c @ [f]\<rparr>)"

definition ProcessMatchedData :: "nat \<Rightarrow> nat \<Rightarrow> comm_q \<Rightarrow> bool \<times> comm_q" where
  "ProcessMatchedData a f c = (case CopyToAppLock a f c of (fin, c1) \<Rightarrow> (fin, ack_frag f c1))"

text \<open>\<^verbatim>\<open>assert(messageDone != REQUEST_COMPLETE); messageDone = REQUEST_COMPLETE\<close> when the receive is complete.\<close>

definition mark_done :: "bool \<Rightarrow> nat \<Rightarrow> comm_q \<Rightarrow> comm_q option" where
  "mark_done fin a c =
     (if fin then if messageDone (recvs c a) then None else Some (upd_recv a (\<lambda>r. r\<lparr>messageDone := True\<rparr>) c) else Some c)"

subsection \<open>A fragment against the posted receives\<close>

definition tag_match :: "int \<Rightarrow> int \<Rightarrow> bool" where
  "tag_match posted tag \<longleftrightarrow> (tag = posted \<or> posted = ULM_ANY_TAG) \<and> \<not> (posted = ULM_ANY_TAG \<and> tag < 0)"

text \<open>Fill in the results and move the receive to the matched ones; \<open>with_tag\<close> is false where the code does not record the tag.\<close>

definition fill_result :: "bool \<Rightarrow> frag_desc \<Rightarrow> recv_desc \<Rightarrow> recv_desc" where
  "fill_result with_tag fd r =
     r\<lparr>r_isendSeq := f_isendSeq fd, r_length := f_msgLength fd, r_peer := int (f_src fd),
       r_tag := (if with_tag then f_tag fd else r_tag r), r_queue := MATCHEDIRECV\<rparr>"

definition append_matched :: "nat \<Rightarrow> nat \<Rightarrow> comm_q \<Rightarrow> comm_q" where
  "append_matched s a c = c\<lparr>MatchedRecv := (MatchedRecv c)(s := MatchedRecv c s @ [a])\<rparr>"

definition take_wild :: "frag_desc \<Rightarrow> nat \<Rightarrow> comm_q \<Rightarrow> comm_q" where
  "take_wild fd a c = append_matched (f_src fd) a
     ((upd_recv a (fill_result True fd) c)\<lparr>PostedWildRecv := remove1 a (PostedWildRecv c)\<rparr>)"

definition take_specific :: "bool \<Rightarrow> frag_desc \<Rightarrow> nat \<Rightarrow> comm_q \<Rightarrow> comm_q" where
  "take_specific with_tag fd a c = append_matched (f_src fd) a
     ((upd_recv a (fill_result with_tag fd) c)
        \<lparr>PostedSpecificRecv := (PostedSpecificRecv c)(f_src fd := remove1 a (PostedSpecificRecv c (f_src fd)))\<rparr>)"

fun wild_loop :: "frag_desc \<Rightarrow> nat list \<Rightarrow> comm_q \<Rightarrow> (nat option \<times> comm_q) option" where
  "wild_loop fd [] c = Some (None, c)"
| "wild_loop fd (w # ws) c =
     (if r_queue (recvs c w) \<noteq> POSTEDWILDIRECV then None
      else if tag_match (p_tag (recvs c w)) (f_tag fd) then Some (Some w, take_wild fd w c)
      else wild_loop fd ws c)"

definition checkWildPostedRecvListForMatch :: "frag_desc \<Rightarrow> comm_q \<Rightarrow> (nat option \<times> comm_q) option" where
  "checkWildPostedRecvListForMatch fd c = wild_loop fd (PostedWildRecv c) c"

fun specific_loop :: "frag_desc \<Rightarrow> nat list \<Rightarrow> comm_q \<Rightarrow> nat option \<times> comm_q" where
  "specific_loop fd [] c = (None, c)"
| "specific_loop fd (p # ps) c =
     (if tag_match (p_tag (recvs c p)) (f_tag fd) then (Some p, take_specific True fd p c) else specific_loop fd ps c)"

definition checkSpecificPostedRecvListForMatch :: "frag_desc \<Rightarrow> comm_q \<Rightarrow> nat option \<times> comm_q" where
  "checkSpecificPostedRecvListForMatch fd c = specific_loop fd (PostedSpecificRecv c (f_src fd)) c"

text \<open>Both lists at once, always going on in the one whose receive was posted first.\<close>

fun both_loop :: "frag_desc \<Rightarrow> nat list \<Rightarrow> nat list \<Rightarrow> comm_q \<Rightarrow> (nat option \<times> comm_q) option" where
  "both_loop fd (p # ps) (w # ws) c =
     (if r_irecvSeq (recvs c w) < r_irecvSeq (recvs c p) then
        if tag_match (p_tag (recvs c w)) (f_tag fd) then Some (Some w, take_wild fd w c)
        else if ws = [] then Some (checkSpecificPostedRecvListForMatch fd c)
        else both_loop fd (p # ps) ws c
      else
        if tag_match (p_tag (recvs c p)) (f_tag fd) then Some (Some p, take_specific False fd p c)
        else if ps = [] then checkWildPostedRecvListForMatch fd c
        else both_loop fd ps (w # ws) c)"
| "both_loop fd _ _ c = None"

definition checkSpecificAndWildPostedRecvListForMatch :: "frag_desc \<Rightarrow> comm_q \<Rightarrow> (nat option \<times> comm_q) option" where
  "checkSpecificAndWildPostedRecvListForMatch fd c = both_loop fd (PostedSpecificRecv c (f_src fd)) (PostedWildRecv c) c"

definition checkPostedRecvListForMatch :: "frag_desc \<Rightarrow> comm_q \<Rightarrow> (nat option \<times> comm_q) option" where
  "checkPostedRecvListForMatch fd c =
     (if PostedSpecificRecv c (f_src fd) = [] then checkWildPostedRecvListForMatch fd c
      else if PostedWildRecv c = [] then Some (checkSpecificPostedRecvListForMatch fd c)
      else checkSpecificAndWildPostedRecvListForMatch fd c)"

subsection \<open>Fragments of messages already matched\<close>

definition isThisMissingFrag :: "frag_desc \<Rightarrow> comm_q \<Rightarrow> nat option" where
  "isThisMissingFrag fd c =
     find (\<lambda>a. f_isendSeq fd = r_isendSeq (recvs c a) \<and> int (f_src fd) = r_peer (recvs c a)) (MatchedRecv c (f_src fd))"

definition remove_ok :: "nat \<Rightarrow> nat \<Rightarrow> comm_q \<Rightarrow> comm_q" where
  "remove_ok s f c = c\<lparr>OkToMatchRecvFrags := (OkToMatchRecvFrags c)(s := remove1 f (OkToMatchRecvFrags c s))\<rparr>"

definition append_ok :: "nat \<Rightarrow> nat \<Rightarrow> comm_q \<Rightarrow> comm_q" where
  "append_ok s f c = (set_fqueue f UNMATCHEDFRAGS c)\<lparr>OkToMatchRecvFrags := (OkToMatchRecvFrags c)(s := OkToMatchRecvFrags c s @ [f])\<rparr>"

definition append_ahead :: "nat \<Rightarrow> nat \<Rightarrow> comm_q \<Rightarrow> comm_q" where
  "append_ahead s f c =
     (set_fqueue f AHEADOFSEQUENCEFRAGS c)\<lparr>AheadOfSeqRecvFrags := (AheadOfSeqRecvFrags c)(s := AheadOfSeqRecvFrags c s @ [f])\<rparr>"

definition remove_ahead :: "nat \<Rightarrow> nat \<Rightarrow> comm_q \<Rightarrow> comm_q" where
  "remove_ahead s f c = c\<lparr>AheadOfSeqRecvFrags := (AheadOfSeqRecvFrags c)(s := remove1 f (AheadOfSeqRecvFrags c s))\<rparr>"

text \<open>The loops below go over a list that they only remove the current element from: \<open>fs\<close> is what is still to come.\<close>

fun search_loop :: "nat \<Rightarrow> int \<Rightarrow> nat \<Rightarrow> nat list \<Rightarrow> comm_q \<Rightarrow> (bool \<times> comm_q) option" where
  "search_loop s q a [] c = Some (False, c)"
| "search_loop s q a (f # fs) c =
     (if f_queue (frags c f) \<noteq> UNMATCHEDFRAGS then None
      else if f_isendSeq (frags c f) = q then
        (case ProcessMatchedData a f (remove_ok s f c) of
           (fin, c1) \<Rightarrow> if fin then Some (True, c1) else search_loop s q a fs c1)
      else search_loop s q a fs c)"

definition SearchForFragsWithSpecifiedISendSeqNum :: "nat \<Rightarrow> comm_q \<Rightarrow> (bool \<times> comm_q) option" where
  "SearchForFragsWithSpecifiedISendSeqNum a c =
     (let s = nat (r_peer (recvs c a)) in search_loop s (r_isendSeq (recvs c a)) a (OkToMatchRecvFrags c s) c)"

subsection \<open>Fragments that came ahead of their turn\<close>

text \<open>The fragment goes to the receive that matched its message, or waits for one.\<close>

definition place_frag :: "nat \<Rightarrow> nat option \<Rightarrow> nat \<Rightarrow> comm_q \<Rightarrow> (bool \<times> comm_q) option" where
  "place_frag s m f c =
     (case m of
        Some a \<Rightarrow> (case ProcessMatchedData a f c of (fin, c1) \<Rightarrow> map_option (Pair fin) (mark_done fin a c1))
      | None \<Rightarrow> Some (False, append_ok s f c))"

fun ahead_rest :: "nat \<Rightarrow> int \<Rightarrow> nat option \<Rightarrow> nat list \<Rightarrow> comm_q \<Rightarrow> comm_q option" where
  "ahead_rest s q m [] c = Some c"
| "ahead_rest s q m (f # fs) c =
     (if f_isendSeq (frags c f) = q then do {
        (fin, c1) \<leftarrow> place_frag s m f (remove_ahead s f c);
        (if fin then Some c1 else ahead_rest s q m fs c1)
      } else ahead_rest s q m fs c)"

definition inc_expected :: "nat \<Rightarrow> comm_q \<Rightarrow> comm_q" where
  "inc_expected s c = c\<lparr>next_expected_isendSeqs := (next_expected_isendSeqs c)(s := next_expected_isendSeqs c s + 1)\<rparr>"

text \<open>One round of the \<^verbatim>\<open>while\<close> loop: look for the first fragment of the message expected next.\<close>

fun ahead_find :: "nat \<Rightarrow> int \<Rightarrow> nat list \<Rightarrow> comm_q \<Rightarrow> (bool \<times> comm_q) option" where
  "ahead_find s q [] c = Some (False, c)"
| "ahead_find s q (f # fs) c =
     (if f_isendSeq (frags c f) = q then do {
        (m, c1) \<leftarrow> checkPostedRecvListForMatch (frags c f) c;
        (fin, c2) \<leftarrow> place_frag s m f (remove_ahead s f c1);
        c3 \<leftarrow> (if fin then Some c2 else ahead_rest s q m fs c2);
        Some (True, inc_expected s c3)
      } else ahead_find s q fs c)"

partial_function (option) matchFragsInAheadOfSequenceList :: "nat \<Rightarrow> comm_q \<Rightarrow> comm_q option" where
  [code]: "matchFragsInAheadOfSequenceList s c =
     (if AheadOfSeqRecvFrags c s = [] then Some c
      else do {
        (found, c1) \<leftarrow> ahead_find s (next_expected_isendSeqs c s) (AheadOfSeqRecvFrags c s) c;
        (if found then matchFragsInAheadOfSequenceList s c1 else Some c1)
      })"

subsection \<open>A fragment comes in\<close>

text \<open>The first fragment of the message expected next.\<close>

definition expected_frag :: "nat \<Rightarrow> comm_q \<Rightarrow> comm_q option" where
  "expected_frag f c = do {
     let s = f_src (frags c f);
     (m, c1) \<leftarrow> checkPostedRecvListForMatch (frags c f) c;
     (fin, c2) \<leftarrow>
       (case m of
          None \<Rightarrow> Some (False, append_ok s f c1)
        | Some a \<Rightarrow> (case ProcessMatchedData a f c1 of
            (fin, c2) \<Rightarrow> if fin then Some (True, c2) else SearchForFragsWithSpecifiedISendSeqNum a c2));
     let c3 = inc_expected s c2;
     c4 \<leftarrow> (if AheadOfSeqRecvFrags c3 s \<noteq> [] then matchFragsInAheadOfSequenceList s c3 else Some c3);
     (case m of None \<Rightarrow> Some c4 | Some a \<Rightarrow> mark_done fin a c4)
   }"

text \<open>\<^verbatim>\<open>Communicator::handleReceivedFrag\<close> after the check for duplicates.\<close>

definition match_frag :: "nat \<Rightarrow> comm_q \<Rightarrow> comm_q option" where
  "match_frag f c =
     (let fd = frags c f; s = f_src fd in
      if f_isendSeq fd = next_expected_isendSeqs c s then expected_frag f c
      else if f_isendSeq fd < next_expected_isendSeqs c s then
        (case isThisMissingFrag fd c of
           None \<Rightarrow> Some (append_ok s f c)
         | Some a \<Rightarrow> (case ProcessMatchedData a f c of (fin, c1) \<Rightarrow> mark_done fin a c1))
      else Some (append_ahead s f c))"

subsection \<open>A receive is posted\<close>

text \<open>The loop over the unmatched fragments of one process, before and after a first fragment was found.\<close>

fun rest_loop :: "nat \<Rightarrow> nat \<Rightarrow> int \<Rightarrow> nat \<Rightarrow> int \<Rightarrow> nat list \<Rightarrow> comm_q \<Rightarrow> comm_q option" where
  "rest_loop a proc q src tag [] c = Some c"
| "rest_loop a proc q src tag (f # fs) c =
     (if f_isendSeq (frags c f) = q \<and> f_src (frags c f) = src \<and> f_tag (frags c f) = tag then
        (case CopyToAppLock a f c of
           (fin, c1) \<Rightarrow> do {
             c2 \<leftarrow> mark_done fin a c1;
             let c3 = ack_frag f (remove_ok proc f c2);
             (if messageDone (recvs c3 a) then Some c3 else rest_loop a proc q src tag fs c3)
           })
      else rest_loop a proc q src tag fs c)"

fun first_loop :: "nat \<Rightarrow> nat \<Rightarrow> nat list \<Rightarrow> comm_q \<Rightarrow> (bool \<times> comm_q) option" where
  "first_loop a proc [] c = Some (False, c)"
| "first_loop a proc (f # fs) c =
     (let fd = frags c f in
      if tag_match (p_tag (recvs c a)) (f_tag fd) then do {
        let c1 = upd_recv a (\<lambda>r. (fill_result True fd r)\<lparr>r_queue := r_queue r\<rparr>) c;
        c2 \<leftarrow> CopyToApp a f c1;
        let c3 = ack_frag f (remove_ok proc f c2);
        (if messageDone (recvs c3 a) then Some (True, c3)
         else map_option (Pair True)
           (rest_loop a proc (f_isendSeq fd) (f_src fd) (f_tag fd) fs
             (append_matched (f_src fd) a (upd_recv a (\<lambda>r. r\<lparr>r_queue := MATCHEDIRECV\<rparr>) c3))))
      } else first_loop a proc fs c)"

definition checkSpecifiedFragListsForMatch :: "nat \<Rightarrow> nat \<Rightarrow> comm_q \<Rightarrow> (bool \<times> comm_q) option" where
  "checkSpecifiedFragListsForMatch a proc c = first_loop a proc (OkToMatchRecvFrags c proc) c"

definition post_specific :: "nat \<Rightarrow> nat \<Rightarrow> comm_q \<Rightarrow> comm_q" where
  "post_specific a s c = (upd_recv a (\<lambda>r. r\<lparr>r_queue := POSTEDIRECV\<rparr>) c)
     \<lparr>PostedSpecificRecv := (PostedSpecificRecv c)(s := PostedSpecificRecv c s @ [a])\<rparr>"

definition checkFragListsForSpecificMatch :: "nat \<Rightarrow> comm_q \<Rightarrow> comm_q option" where
  "checkFragListsForSpecificMatch a c =
     (let s = nat (p_peer (recvs c a)) in
      if OkToMatchRecvFrags c s = [] then Some (post_specific a s c)
      else do {
        (found, c1) \<leftarrow> checkSpecifiedFragListsForMatch a s c;
        Some (if found then c1 else post_specific a s c1)
      })"

fun wild_procs :: "nat \<Rightarrow> nat list \<Rightarrow> comm_q \<Rightarrow> (bool \<times> comm_q) option" where
  "wild_procs a [] c = Some (False, c)"
| "wild_procs a (proc # ps) c =
     (if OkToMatchRecvFrags c proc = [] then wild_procs a ps c
      else do {
        (found, c1) \<leftarrow> checkSpecifiedFragListsForMatch a proc c;
        (if found then Some (True, c1) else wild_procs a ps c1)
      })"

definition checkFragListsForWildMatch :: "nat \<Rightarrow> comm_q \<Rightarrow> comm_q option" where
  "checkFragListsForWildMatch a c = do {
     (found, c1) \<leftarrow> wild_procs a [0..<groupSize c] c;
     Some (if found then c1
           else (upd_recv a (\<lambda>r. r\<lparr>r_queue := POSTEDWILDIRECV\<rparr>) c1)\<lparr>PostedWildRecv := PostedWildRecv c1 @ [a]\<rparr>)
   }"

text \<open>\<^verbatim>\<open>irecv_start\<close> on a descriptor whose status is valid.\<close>

definition irecv_start :: "nat \<Rightarrow> comm_q \<Rightarrow> comm_q option" where
  "irecv_start a c =
     (let c1 = upd_recv a (\<lambda>r. r\<lparr>messageDone := False, r_queue := ONNOLIST, r_length := 0, DataReceived := 0,
                 DataInBitBucket := 0, r_irecvSeq := next_irecv_id_counter c\<rparr>) c;
          c2 = c1\<lparr>next_irecv_id_counter := next_irecv_id_counter c + 1\<rparr>
      in if p_peer (recvs c2 a) = ULM_ANY_PROC then checkFragListsForWildMatch a c2
         else checkFragListsForSpecificMatch a c2)"

end
