(* ===== verification/Match_Posted.thy ===== *)
theory Match_Posted
  imports Match
begin

section \<open>The receive a fragment is matched with\<close>

text \<open>
  The three ways to search the posted receives find the same: the one posted first of those that the fragment matches
  (\<open>oldest_match\<close>), as long as both lists are in the order of posting (\<open>posted_ok\<close>).
\<close>

abbreviation posted :: "nat \<Rightarrow> comm_q \<Rightarrow> nat list" where
  "posted s c \<equiv> PostedSpecificRecv c s @ PostedWildRecv c"

abbreviation posted_at :: "comm_q \<Rightarrow> nat \<Rightarrow> int" where
  "posted_at c a \<equiv> r_irecvSeq (recvs c a)"

definition accepts :: "comm_q \<Rightarrow> frag_desc \<Rightarrow> nat \<Rightarrow> bool" where
  "accepts c fd a \<longleftrightarrow> tag_match (p_tag (recvs c a)) (f_tag fd)"

definition oldest_match :: "frag_desc \<Rightarrow> comm_q \<Rightarrow> nat option" where
  "oldest_match fd c = find (accepts c fd) (sort_key (posted_at c) (posted (f_src fd) c))"

text \<open>A list in the order of posting, all of it on this queue, nothing received yet.\<close>

definition posted_list :: "comm_q \<Rightarrow> queue_id \<Rightarrow> nat list \<Rightarrow> bool" where
  "posted_list c w xs \<longleftrightarrow> sorted_wrt (\<lambda>a b. posted_at c a < posted_at c b) xs
     \<and> list_all (\<lambda>a. r_queue (recvs c a) = w \<and> \<not> messageDone (recvs c a) \<and> DataReceived (recvs c a) = 0
         \<and> DataInBitBucket (recvs c a) = 0 \<and> posted_at c a < next_irecv_id_counter c) xs"

definition posted_ok :: "comm_q \<Rightarrow> bool" where
  "posted_ok c \<longleftrightarrow> posted_list c POSTEDWILDIRECV (PostedWildRecv c)
     \<and> (\<forall>s. posted_list c POSTEDIRECV (PostedSpecificRecv c s))
     \<and> (\<forall>s. list_all (\<lambda>a. p_peer (recvs c a) = int s) (PostedSpecificRecv c s))
     \<and> (\<forall>s a b. a \<in> set (PostedWildRecv c) \<longrightarrow> b \<in> set (PostedSpecificRecv c s) \<longrightarrow> posted_at c a \<noteq> posted_at c b)"

lemma posted_listD:
  assumes "posted_list c w xs"
  shows "sorted_wrt (\<lambda>a b. posted_at c a < posted_at c b) xs" "distinct xs"
    "\<And>a. a \<in> set xs \<Longrightarrow> r_queue (recvs c a) = w \<and> \<not> messageDone (recvs c a) \<and> DataReceived (recvs c a) = 0
       \<and> DataInBitBucket (recvs c a) = 0 \<and> posted_at c a < next_irecv_id_counter c"
proof -
  show s: "sorted_wrt (\<lambda>a b. posted_at c a < posted_at c b) xs" using assms by (simp add: posted_list_def)
  then show "distinct xs" by (induction xs) auto
qed (use assms in \<open>simp add: posted_list_def list_all_iff\<close>)

subsection \<open>First in a set\<close>

text \<open>\<open>m\<close> is the element of \<open>Z\<close> with property \<open>P\<close> whose key is least, if there is any.\<close>

definition least_of :: "('a \<Rightarrow> bool) \<Rightarrow> ('a \<Rightarrow> int) \<Rightarrow> 'a set \<Rightarrow> 'a option \<Rightarrow> bool" where
  "least_of P k Z m \<longleftrightarrow> (case m of None \<Rightarrow> \<forall>z \<in> Z. \<not> P z | Some a \<Rightarrow> a \<in> Z \<and> P a \<and> (\<forall>z \<in> Z. P z \<longrightarrow> k a \<le> k z))"

lemma least_of_unique: "least_of P k Z m \<Longrightarrow> least_of P k Z m' \<Longrightarrow> inj_on k Z \<Longrightarrow> m = m'"
  by (auto simp: least_of_def inj_on_def split: option.splits) (meson antisym)

lemma find_least: "sorted_wrt (\<lambda>a b. k a \<le> k b) xs \<Longrightarrow> least_of P k (set xs) (find P xs)"
  by (induction xs) (auto simp: least_of_def split: option.splits)

lemma find_strict_least: "sorted_wrt (\<lambda>a b. k a < k b) xs \<Longrightarrow> least_of P k (set xs) (find P xs)"
  by (rule find_least) (erule sorted_wrt_mono_rel [rotated], simp)

lemma least_of_skip: "least_of P k Z m \<Longrightarrow> \<forall>y \<in> Y. \<not> P y \<Longrightarrow> least_of P k (Y \<union> Z) m"
  by (fastforce simp: least_of_def split: option.splits)

lemma least_of_first: "P a \<Longrightarrow> a \<in> Z \<Longrightarrow> \<forall>z \<in> Z. k a \<le> k z \<Longrightarrow> least_of P k Z (Some a)"
  by (simp add: least_of_def)

lemma find_sort_key_least: "least_of P k (set xs) (find P (sort_key k xs))"
  using find_least [of k "sort_key k xs" P] sorted_sort_key [of k xs] by (simp add: sorted_map)

subsection \<open>The three searches\<close>

definition after_match :: "bool \<Rightarrow> frag_desc \<Rightarrow> nat option \<Rightarrow> comm_q \<Rightarrow> comm_q" where
  "after_match with_tag fd m c =
     (case m of None \<Rightarrow> c
      | Some a \<Rightarrow> if a \<in> set (PostedSpecificRecv c (f_src fd)) then take_specific with_tag fd a c else take_wild fd a c)"

lemma wild_loop_find:
  "(\<And>a. a \<in> set ws \<Longrightarrow> r_queue (recvs c a) = POSTEDWILDIRECV) \<Longrightarrow>
   wild_loop fd ws c = Some (find (accepts c fd) ws, case find (accepts c fd) ws of None \<Rightarrow> c | Some a \<Rightarrow> take_wild fd a c)"
  by (induction ws) (auto simp: accepts_def)

lemma specific_loop_find:
  "specific_loop fd ps c = (find (accepts c fd) ps, case find (accepts c fd) ps of None \<Rightarrow> c | Some a \<Rightarrow> take_specific True fd a c)"
  by (induction ps) (auto simp: accepts_def)

lemma find_in: "find P xs = Some a \<Longrightarrow> a \<in> set xs"
  by (auto simp: find_Some_iff)

lemma find_append_none: "\<forall>x \<in> set xs. \<not> P x \<Longrightarrow> find P (xs @ ys) = find P ys"
  by (induction xs) auto

lemma queue_disjoint:
  assumes "posted_ok c" "a \<in> set (PostedWildRecv c)"
  shows "a \<notin> set (PostedSpecificRecv c s)"
  using assms posted_listD(3) [of c POSTEDWILDIRECV "PostedWildRecv c" a] posted_listD(3) [of c POSTEDIRECV "PostedSpecificRecv c s" a]
  by (auto simp: posted_ok_def)

lemma wild_search:
  assumes ok: "posted_ok c" and none: "\<forall>a \<in> set (PostedSpecificRecv c (f_src fd)). \<not> accepts c fd a"
  shows "\<exists>m. checkWildPostedRecvListForMatch fd c = Some (m, after_match tagged fd m c)
    \<and> least_of (accepts c fd) (posted_at c) (set (posted (f_src fd) c)) m"
proof -
  let ?m = "find (accepts c fd) (PostedWildRecv c)"
  have w: "posted_list c POSTEDWILDIRECV (PostedWildRecv c)" using ok by (simp add: posted_ok_def)
  note d = posted_listD [OF w]
  have "(case ?m of None \<Rightarrow> c | Some a \<Rightarrow> take_wild fd a c) = after_match tagged fd ?m c"
    using queue_disjoint [OF ok] by (auto simp: after_match_def split: option.split dest: find_in)
  then have "checkWildPostedRecvListForMatch fd c = Some (?m, after_match tagged fd ?m c)"
    using wild_loop_find [of "PostedWildRecv c" c fd] d(3) by (simp add: checkWildPostedRecvListForMatch_def)
  with least_of_skip [OF find_strict_least [OF d(1), of "accepts c fd"] none] show ?thesis by auto
qed

lemma specific_search:
  assumes ok: "posted_ok c" and none: "\<forall>a \<in> set (PostedWildRecv c). \<not> accepts c fd a"
  shows "\<exists>m. checkSpecificPostedRecvListForMatch fd c = (m, after_match True fd m c)
    \<and> least_of (accepts c fd) (posted_at c) (set (posted (f_src fd) c)) m"
proof -
  let ?m = "find (accepts c fd) (PostedSpecificRecv c (f_src fd))"
  have w: "posted_list c POSTEDIRECV (PostedSpecificRecv c (f_src fd))" using ok by (simp add: posted_ok_def)
  have "checkSpecificPostedRecvListForMatch fd c = (?m, after_match True fd ?m c)"
    using specific_loop_find [of fd "PostedSpecificRecv c (f_src fd)" c]
    by (auto simp: checkSpecificPostedRecvListForMatch_def after_match_def split: option.split dest: find_in)
  with least_of_skip [OF find_strict_least [OF posted_listD(1) [OF w], of "accepts c fd"] none] show ?thesis by (auto simp: Un_commute)
qed

lemma both_loop_step:
  "both_loop fd (p # ps) (w # ws) c =
     (if posted_at c w < posted_at c p then
        if accepts c fd w then Some (Some w, take_wild fd w c)
        else if ws = [] then Some (checkSpecificPostedRecvListForMatch fd c) else both_loop fd (p # ps) ws c
      else
        if accepts c fd p then Some (Some p, take_specific False fd p c)
        else if ps = [] then checkWildPostedRecvListForMatch fd c else both_loop fd ps (w # ws) c)"
  by (simp add: accepts_def)

text \<open>In the loop over both lists, \<open>xs\<close> and \<open>ys\<close> are the receives that were passed over.\<close>

lemma both_search:
  assumes ok: "posted_ok c" and lists: "PostedSpecificRecv c (f_src fd) = xs @ ps" "PostedWildRecv c = ys @ ws"
    and passed: "\<forall>a \<in> set xs \<union> set ys. \<not> accepts c fd a" and ne: "ps \<noteq> []" "ws \<noteq> []"
  shows "\<exists>m t. both_loop fd ps ws c = Some (m, after_match t fd m c)
    \<and> least_of (accepts c fd) (posted_at c) (set (posted (f_src fd) c)) m"
  using ok lists passed ne
proof (induction fd ps ws c arbitrary: xs ys rule: both_loop.induct)
  case (1 fd p ps w ws c)
  have lw: "posted_list c POSTEDWILDIRECV (ys @ w # ws)" using 1(3,5) by (simp add: posted_ok_def)
  have "posted_list c POSTEDIRECV (PostedSpecificRecv c (f_src fd))" using 1(3) by (simp add: posted_ok_def)
  then have lp: "posted_list c POSTEDIRECV (xs @ p # ps)" using 1(4) by simp
  have all: "set (posted (f_src fd) c) = (set xs \<union> set ys) \<union> (set (p # ps) \<union> set (w # ws))" using 1(4,5) by auto
  have ge: "posted_at c w \<le> posted_at c a" if "a \<in> set (w # ws)" for a using posted_listD(1) [OF lw] that by (auto simp: sorted_wrt_append)
  have gp: "posted_at c p \<le> posted_at c a" if "a \<in> set (p # ps)" for a using posted_listD(1) [OF lp] that by (auto simp: sorted_wrt_append)
  have wild: "w \<notin> set (PostedSpecificRecv c (f_src fd))" using queue_disjoint [OF 1(3), of w] 1(5) by simp
  have spec: "p \<in> set (PostedSpecificRecv c (f_src fd))" using 1(4) by simp
  show ?case
  proof (cases "posted_at c w < posted_at c p")
    case lt: True
    show ?thesis
    proof (cases "accepts c fd w")
      case True
      have "least_of (accepts c fd) (posted_at c) (set (p # ps) \<union> set (w # ws)) (Some w)"
        by (rule least_of_first) (use True lt ge gp in force)+
      from least_of_skip [OF this 1(6)] have "least_of (accepts c fd) (posted_at c) (set (posted (f_src fd) c)) (Some w)" by (simp only: all)
      moreover have "both_loop fd (p # ps) (w # ws) c = Some (Some w, after_match True fd (Some w) c)" using True lt wild by (simp add: both_loop_step after_match_def del: both_loop.simps)
      ultimately show ?thesis by blast
    next
      case False
      have ys: "PostedWildRecv c = (ys @ [w]) @ ws" "\<forall>a \<in> set xs \<union> set (ys @ [w]). \<not> accepts c fd a" using 1(5,6) False by auto
      show ?thesis
      proof (cases "ws = []")
        case True
        with specific_search [OF 1(3), of fd] ys False lt show ?thesis by (fastforce simp: both_loop_step simp del: both_loop.simps)
      next
        case ne: False
        from 1(1) [OF _ _ ne 1(3,4) ys _ ne] False lt show ?thesis using ne by (simp add: both_loop_step accepts_def [symmetric] del: both_loop.simps)
      qed
    qed
  next
    case ge': False
    show ?thesis
    proof (cases "accepts c fd p")
      case True
      have "least_of (accepts c fd) (posted_at c) (set (p # ps) \<union> set (w # ws)) (Some p)"
        by (rule least_of_first) (use True ge' ge gp in force)+
      from least_of_skip [OF this 1(6)] have "least_of (accepts c fd) (posted_at c) (set (posted (f_src fd) c)) (Some p)" by (simp only: all)
      moreover have "both_loop fd (p # ps) (w # ws) c = Some (Some p, after_match False fd (Some p) c)" using True ge' spec by (simp add: both_loop_step after_match_def del: both_loop.simps)
      ultimately show ?thesis by blast
    next
      case False
      have xs: "PostedSpecificRecv c (f_src fd) = (xs @ [p]) @ ps" "\<forall>a \<in> set (xs @ [p]) \<union> set ys. \<not> accepts c fd a" using 1(4,6) False by auto
      show ?thesis
      proof (cases "ps = []")
        case True
        with wild_search [OF 1(3), of fd True] xs False ge' show ?thesis by (fastforce simp: both_loop_step simp del: both_loop.simps)
      next
        case ne: False
        from 1(2) [OF _ _ ne 1(3) xs(1) 1(5) xs(2) ne] False ge' show ?thesis using ne by (simp add: both_loop_step accepts_def [symmetric] del: both_loop.simps)
      qed
    qed
  qed
qed auto

lemma strict_keys_inj: "sorted_wrt (\<lambda>a b. k a < k b) xs \<Longrightarrow> inj_on k (set xs)" for k :: "'a \<Rightarrow> int"
  by (induction xs) auto

lemma posted_keys_inj:
  assumes ok: "posted_ok c"
  shows "inj_on (posted_at c) (set (posted s c))"
proof -
  have w: "posted_list c POSTEDWILDIRECV (PostedWildRecv c)" and p: "posted_list c POSTEDIRECV (PostedSpecificRecv c s)"
    using ok by (simp_all add: posted_ok_def)
  have ne: "posted_at c a \<noteq> posted_at c b" if "a \<in> set (PostedWildRecv c)" "b \<in> set (PostedSpecificRecv c s)" for a b
    using ok that by (simp add: posted_ok_def)
  have "inj_on (posted_at c) (set (PostedSpecificRecv c s) \<union> set (PostedWildRecv c))"
  proof (rule inj_onI)
    fix a b assume "a \<in> set (PostedSpecificRecv c s) \<union> set (PostedWildRecv c)" "b \<in> set (PostedSpecificRecv c s) \<union> set (PostedWildRecv c)"
      and eq: "posted_at c a = posted_at c b"
    then consider "a \<in> set (PostedSpecificRecv c s)" "b \<in> set (PostedSpecificRecv c s)" | "a \<in> set (PostedWildRecv c)" "b \<in> set (PostedWildRecv c)"
      | "a \<in> set (PostedWildRecv c)" "b \<in> set (PostedSpecificRecv c s)" | "b \<in> set (PostedWildRecv c)" "a \<in> set (PostedSpecificRecv c s)" by blast
    then show "a = b"
      using ne [of a b] ne [of b a] eq strict_keys_inj [OF posted_listD(1) [OF w]] strict_keys_inj [OF posted_listD(1) [OF p]]
      by cases (auto dest: inj_onD)
  qed
  then show ?thesis by simp
qed

text \<open>The search as a whole. The tag is left out when a specific receive is taken while wild ones are posted.\<close>

lemma posted_search:
  assumes ok: "posted_ok c"
  shows "\<exists>t. checkPostedRecvListForMatch fd c = Some (oldest_match fd c, after_match t fd (oldest_match fd c) c)
    \<and> least_of (accepts c fd) (posted_at c) (set (posted (f_src fd) c)) (oldest_match fd c)"
proof -
  let ?L = "least_of (accepts c fd) (posted_at c) (set (posted (f_src fd) c))"
  have "\<exists>m t. checkPostedRecvListForMatch fd c = Some (m, after_match t fd m c) \<and> ?L m"
  proof (cases "PostedSpecificRecv c (f_src fd) = [] \<or> PostedWildRecv c = []")
    case True
    then show ?thesis using wild_search [OF ok, of fd True] specific_search [OF ok, of fd]
      by (cases "PostedSpecificRecv c (f_src fd) = []") (auto simp: checkPostedRecvListForMatch_def)
  next
    case False
    with both_search [OF ok, of fd "[]" "PostedSpecificRecv c (f_src fd)" "[]" "PostedWildRecv c"] show ?thesis
      by (simp add: checkPostedRecvListForMatch_def checkSpecificAndWildPostedRecvListForMatch_def)
  qed
  then obtain m t where m: "checkPostedRecvListForMatch fd c = Some (m, after_match t fd m c)" "?L m" by blast
  have "?L (oldest_match fd c)" using find_sort_key_least by (simp only: oldest_match_def)
  from least_of_unique [OF m(2) this posted_keys_inj [OF ok]] m show ?thesis by auto
qed

end
