(* ===== verification/Match_Serve.thy ===== *)
theory Match_Serve
  imports Match_Posted
begin

section \<open>Giving the fragments of a message to its receive\<close>

text \<open>
  The effect of handing fragments to a matched receive, without the contents of its buffer: \<open>serves\<close>. The loops of the
  code that do so are instances of one (\<open>serve_loop\<close>), and they take all fragments of the message as long as these do not
  hold more bytes than the message (\<open>serve_loop_ok\<close>).
\<close>

subsection \<open>Frames\<close>

text \<open>The fields of a receive that delivering data leaves alone.\<close>

definition same_req :: "recv_desc \<Rightarrow> recv_desc \<Rightarrow> bool" where
  "same_req r r' \<longleftrightarrow> p_length r' = p_length r \<and> p_peer r' = p_peer r \<and> p_tag r' = p_tag r \<and> r_length r' = r_length r
     \<and> r_peer r' = r_peer r \<and> r_tag r' = r_tag r \<and> r_isendSeq r' = r_isendSeq r \<and> r_irecvSeq r' = r_irecvSeq r \<and> r_queue r' = r_queue r"

definition same_frag :: "frag_desc \<Rightarrow> frag_desc \<Rightarrow> bool" where
  "same_frag fd fd' \<longleftrightarrow> (\<exists>w. fd' = fd\<lparr>f_queue := w\<rparr>)"

text \<open>Everything but the receive \<open>a\<close>, the queue marks of the fragments \<open>F\<close>, the lists of fragments and the matched receives of \<open>s\<close>.\<close>

definition keeps :: "nat \<Rightarrow> nat \<Rightarrow> nat set \<Rightarrow> comm_q \<Rightarrow> comm_q \<Rightarrow> bool" where
  "keeps a s F c c' \<longleftrightarrow> PostedWildRecv c' = PostedWildRecv c \<and> PostedSpecificRecv c' = PostedSpecificRecv c \<and> groupSize c' = groupSize c
     \<and> next_expected_isendSeqs c' = next_expected_isendSeqs c \<and> next_irecv_id_counter c' = next_irecv_id_counter c
     \<and> (\<forall>b. b \<noteq> a \<longrightarrow> recvs c' b = recvs c b) \<and> same_req (recvs c a) (recvs c' a)
     \<and> (\<forall>g. same_frag (frags c g) (frags c' g)) \<and> (\<forall>g. g \<notin> F \<longrightarrow> frags c' g = frags c g)
     \<and> (\<forall>t. t \<noteq> s \<longrightarrow> MatchedRecv c' t = MatchedRecv c t)"

definition got :: "nat \<Rightarrow> comm_q \<Rightarrow> nat" where
  "got a c = DataReceived (recvs c a) + DataInBitBucket (recvs c a)"

text \<open>The receive \<open>a\<close> got the fragments \<open>F\<close>, with at most \<open>n\<close> bytes, and is complete when \<open>fin\<close> says so.\<close>

definition serves :: "nat \<Rightarrow> nat \<Rightarrow> nat set \<Rightarrow> nat \<Rightarrow> bool \<Rightarrow> comm_q \<Rightarrow> comm_q \<Rightarrow> bool" where
  "serves a s F n fin c c' \<longleftrightarrow> keeps a s F c c' \<and> got a c' \<le> got a c + n
     \<and> MatchedRecv c' s = (if fin then remove1 a (MatchedRecv c s) else MatchedRecv c s)
     \<and> (fin \<longrightarrow> r_length (recvs c a) \<le> got a c') \<and> (\<not> fin \<longrightarrow> messageDone (recvs c' a) = messageDone (recvs c a))"

lemma same_refl [simp]: "same_req r r" "same_frag fd fd" "same_frag fd (fd\<lparr>f_queue := w\<rparr>)"
proof -
  show "same_frag fd fd" unfolding same_frag_def by (rule exI [of _ "f_queue fd"]) simp
qed (auto simp: same_req_def same_frag_def)

lemma same_frag_fields:
  "same_frag fd fd' \<Longrightarrow> f_src fd' = f_src fd" "same_frag fd fd' \<Longrightarrow> f_tag fd' = f_tag fd"
  "same_frag fd fd' \<Longrightarrow> f_isendSeq fd' = f_isendSeq fd" "same_frag fd fd' \<Longrightarrow> f_msgLength fd' = f_msgLength fd"
  "same_frag fd fd' \<Longrightarrow> f_data fd' = f_data fd"
  by (auto simp: same_frag_def)

lemma same_frag_trans: "same_frag fd fd' \<Longrightarrow> same_frag fd' fd'' \<Longrightarrow> same_frag fd fd''"
proof -
  assume "same_frag fd fd'" "same_frag fd' fd''"
  then obtain w v where "fd' = fd\<lparr>f_queue := w\<rparr>" "fd'' = fd'\<lparr>f_queue := v\<rparr>" unfolding same_frag_def by blast
  then show ?thesis by simp
qed

lemma same_req_trans: "same_req r r' \<Longrightarrow> same_req r' r'' \<Longrightarrow> same_req r r''"
  by (simp add: same_req_def)

lemma frame_trans: "keeps a s F c c' \<Longrightarrow> keeps a s G c' c'' \<Longrightarrow> keeps a s (F \<union> G) c c''"
  by (clarsimp simp: keeps_def) (meson same_req_trans same_frag_trans)

lemma serves_refl: "serves a s {} 0 False c c"
  by (simp add: serves_def keeps_def)

lemma serves_trans:
  assumes "serves a s F n False c c'" and "serves a s G m fin c' c''"
  shows "serves a s (F \<union> G) (n + m) fin c c''"
  using assms frame_trans [of a s F c c' G c''] by (auto simp: serves_def keeps_def same_req_def)

lemma upd_recv_simps [simp]:
  "recvs (upd_recv a g c) b = (if b = a then g (recvs c a) else recvs c b)" "frags (upd_recv a g c) = frags c"
  "groupSize (upd_recv a g c) = groupSize c" "PostedWildRecv (upd_recv a g c) = PostedWildRecv c"
  "PostedSpecificRecv (upd_recv a g c) = PostedSpecificRecv c" "MatchedRecv (upd_recv a g c) = MatchedRecv c"
  "AheadOfSeqRecvFrags (upd_recv a g c) = AheadOfSeqRecvFrags c" "OkToMatchRecvFrags (upd_recv a g c) = OkToMatchRecvFrags c"
  "next_expected_isendSeqs (upd_recv a g c) = next_expected_isendSeqs c" "next_irecv_id_counter (upd_recv a g c) = next_irecv_id_counter c"
  by (simp_all add: upd_recv_def)

lemma remove_matched_simps [simp]:
  "recvs (remove_matched a c) = recvs c" "frags (remove_matched a c) = frags c"
  "groupSize (remove_matched a c) = groupSize c" "PostedWildRecv (remove_matched a c) = PostedWildRecv c"
  "PostedSpecificRecv (remove_matched a c) = PostedSpecificRecv c"
  "AheadOfSeqRecvFrags (remove_matched a c) = AheadOfSeqRecvFrags c" "OkToMatchRecvFrags (remove_matched a c) = OkToMatchRecvFrags c"
  "next_expected_isendSeqs (remove_matched a c) = next_expected_isendSeqs c" "next_irecv_id_counter (remove_matched a c) = next_irecv_id_counter c"
  by (simp_all add: remove_matched_def Let_def)

lemma ack_frag_simps [simp]:
  "recvs (ack_frag f c) = recvs c" "same_frag (frags c g) (frags (ack_frag f c) g)" "g \<noteq> f \<Longrightarrow> frags (ack_frag f c) g = frags c g"
  "groupSize (ack_frag f c) = groupSize c" "PostedWildRecv (ack_frag f c) = PostedWildRecv c"
  "PostedSpecificRecv (ack_frag f c) = PostedSpecificRecv c" "MatchedRecv (ack_frag f c) = MatchedRecv c"
  "AheadOfSeqRecvFrags (ack_frag f c) = AheadOfSeqRecvFrags c" "OkToMatchRecvFrags (ack_frag f c) = OkToMatchRecvFrags c"
  "next_expected_isendSeqs (ack_frag f c) = next_expected_isendSeqs c" "next_irecv_id_counter (ack_frag f c) = next_irecv_id_counter c"
  by (simp_all add: ack_frag_def set_fqueue_def)

lemma remove_frag_simps [simp]:
  "recvs (remove_ok s f c) = recvs c" "frags (remove_ok s f c) = frags c" "groupSize (remove_ok s f c) = groupSize c"
  "PostedWildRecv (remove_ok s f c) = PostedWildRecv c" "PostedSpecificRecv (remove_ok s f c) = PostedSpecificRecv c"
  "MatchedRecv (remove_ok s f c) = MatchedRecv c" "AheadOfSeqRecvFrags (remove_ok s f c) = AheadOfSeqRecvFrags c"
  "OkToMatchRecvFrags (remove_ok s f c) = (OkToMatchRecvFrags c)(s := remove1 f (OkToMatchRecvFrags c s))"
  "next_expected_isendSeqs (remove_ok s f c) = next_expected_isendSeqs c" "next_irecv_id_counter (remove_ok s f c) = next_irecv_id_counter c"
  "recvs (remove_ahead s f c) = recvs c" "frags (remove_ahead s f c) = frags c" "groupSize (remove_ahead s f c) = groupSize c"
  "PostedWildRecv (remove_ahead s f c) = PostedWildRecv c" "PostedSpecificRecv (remove_ahead s f c) = PostedSpecificRecv c"
  "MatchedRecv (remove_ahead s f c) = MatchedRecv c" "OkToMatchRecvFrags (remove_ahead s f c) = OkToMatchRecvFrags c"
  "AheadOfSeqRecvFrags (remove_ahead s f c) = (AheadOfSeqRecvFrags c)(s := remove1 f (AheadOfSeqRecvFrags c s))"
  "next_expected_isendSeqs (remove_ahead s f c) = next_expected_isendSeqs c" "next_irecv_id_counter (remove_ahead s f c) = next_irecv_id_counter c"
  by (simp_all add: remove_ok_def remove_ahead_def)

subsection \<open>One fragment\<close>

definition matched_to :: "nat \<Rightarrow> nat \<Rightarrow> comm_q \<Rightarrow> bool" where
  "matched_to a s c \<longleftrightarrow> r_queue (recvs c a) = MATCHEDIRECV \<and> r_peer (recvs c a) = int s"

definition frag_len :: "comm_q \<Rightarrow> nat \<Rightarrow> nat" where
  "frag_len c f = length (f_data (frags c f))"

text \<open>The effect of the copying on the lists of fragments, which \<open>serves\<close> leaves open.\<close>

definition same_lists :: "comm_q \<Rightarrow> comm_q \<Rightarrow> bool" where
  "same_lists c c' \<longleftrightarrow> AheadOfSeqRecvFrags c' = AheadOfSeqRecvFrags c \<and> OkToMatchRecvFrags c' = OkToMatchRecvFrags c"

lemma copy_serves:
  assumes "CopyToAppLock a f c = (fin, c')" and "matched_to a s c"
  shows "serves a s {} (frag_len c f) fin c c' \<and> same_lists c c' \<and> messageDone (recvs c' a) = messageDone (recvs c a) \<and> frags c' = frags c"
  using assms
  by (auto simp: CopyToAppLock_def copy_data_def DeliveredToAppLock_def serves_def keeps_def same_req_def got_def frag_len_def
      matched_to_def same_lists_def remove_matched_def Let_def split: if_splits)

lemma process_serves:
  assumes "ProcessMatchedData a f c = (fin, c')" and "matched_to a s c"
  shows "serves a s {f} (frag_len c f) fin c c' \<and> same_lists c c' \<and> messageDone (recvs c' a) = messageDone (recvs c a)"
proof -
  obtain c1 where c1: "CopyToAppLock a f c = (fin, c1)" "c' = ack_frag f c1"
    using assms(1) by (auto simp: ProcessMatchedData_def split: prod.splits)
  from copy_serves [OF c1(1) assms(2)] have h: "serves a s {} (frag_len c f) fin c c1" "same_lists c c1" "frags c1 = frags c"
    "messageDone (recvs c1 a) = messageDone (recvs c a)" by auto
  moreover have "same_frag (frags c g) (frags c' g)" for g using h(3) c1(2) by (metis ack_frag_simps(2))
  ultimately show ?thesis using c1(2) by (auto simp: serves_def keeps_def got_def same_lists_def)
qed

lemma mark_done_serves:
  assumes "serves a s F n fin c c'" and "\<not> messageDone (recvs c' a)"
  shows "\<exists>c''. mark_done fin a c' = Some c'' \<and> serves a s F n fin c c'' \<and> same_lists c' c'' \<and> messageDone (recvs c'' a) = fin"
  using assms by (cases fin) (auto simp: mark_done_def serves_def keeps_def got_def same_req_def same_lists_def)

lemma place_serves:
  assumes "matched_to a s c" and "\<not> messageDone (recvs c a)"
  shows "\<exists>fin c'. place_frag t (Some a) f c = Some (fin, c') \<and> serves a s {f} (frag_len c f) fin c c' \<and> same_lists c c'
    \<and> messageDone (recvs c' a) = fin"
proof -
  obtain fin c1 where c1: "ProcessMatchedData a f c = (fin, c1)" by fastforce
  from process_serves [OF this assms(1)] assms(2) have s: "serves a s {f} (frag_len c f) fin c c1" "same_lists c c1"
    "\<not> messageDone (recvs c1 a)" by auto
  from mark_done_serves [OF s(1,3)] obtain c2 where "mark_done fin a c1 = Some c2" "serves a s {f} (frag_len c f) fin c c2"
    "same_lists c1 c2" "messageDone (recvs c2 a) = fin" by blast
  with c1 s(2) show ?thesis by (auto simp: place_frag_def same_lists_def)
qed

subsection \<open>All fragments of a message\<close>

text \<open>Take each fragment off its list with \<open>rem\<close> and give it to \<open>a\<close>, until the message is complete.\<close>

fun serve_loop :: "(nat \<Rightarrow> comm_q \<Rightarrow> comm_q) \<Rightarrow> nat \<Rightarrow> nat list \<Rightarrow> comm_q \<Rightarrow> (bool \<times> comm_q) option" where
  "serve_loop rem a [] c = Some (False, c)"
| "serve_loop rem a (f # fs) c = do {
     (fin, c1) \<leftarrow> place_frag 0 (Some a) f (rem f c);
     (if fin then Some (True, c1) else serve_loop rem a fs c1)
   }"

text \<open>One of the lists of fragments of the communicator: \<open>lst\<close> is its contents, \<open>rem\<close> takes an element off, \<open>others\<close> are the other lists.\<close>

locale frag_queue =
  fixes rem :: "nat \<Rightarrow> comm_q \<Rightarrow> comm_q" and lst :: "comm_q \<Rightarrow> nat list" and others :: "comm_q \<Rightarrow> 'o"
  assumes rem_frame: "recvs (rem f c) = recvs c \<and> frags (rem f c) = frags c \<and> keeps a s {} c (rem f c) \<and> MatchedRecv (rem f c) = MatchedRecv c"
    and rem_lst: "lst (rem f c) = remove1 f (lst c)"
    and rem_others: "others (rem f c) = others c"
    and lists_lst: "same_lists c c' \<Longrightarrow> lst c' = lst c"
    and lists_others: "same_lists c c' \<Longrightarrow> others c' = others c"
begin

lemma rem_serves: "serves a s {} 0 False c (rem f c)"
  using rem_frame [of f c a s] by (simp add: serves_def got_def)

lemma place_rem:
  assumes "matched_to a s c" and "\<not> messageDone (recvs c a)"
  shows "\<exists>fin c'. place_frag t (Some a) f (rem f c) = Some (fin, c') \<and> serves a s {f} (frag_len c f) fin c c'
    \<and> lst c' = remove1 f (lst c) \<and> others c' = others c \<and> messageDone (recvs c' a) = fin"
proof -
  have "matched_to a s (rem f c)" "\<not> messageDone (recvs (rem f c) a)" using assms rem_frame [of f c] by (simp_all add: matched_to_def)
  from place_serves [OF this, of t f] obtain fin c' where p: "place_frag t (Some a) f (rem f c) = Some (fin, c')"
    "serves a s {f} (frag_len (rem f c) f) fin (rem f c) c'" "same_lists (rem f c) c'" "messageDone (recvs c' a) = fin" by blast
  have "serves a s {f} (frag_len c f) fin c c'" using serves_trans [OF rem_serves p(2)] rem_frame [of f c] by (simp add: frag_len_def)
  with p show ?thesis using lists_lst [OF p(3)] lists_others [OF p(3)] rem_lst rem_others by auto
qed

lemma serve_loop_ok:
  assumes "matched_to a s c" and "\<not> messageDone (recvs c a)"
  shows "\<exists>n fin c'. serve_loop rem a fs c = Some (fin, c') \<and> n \<le> length fs
    \<and> serves a s (set (take n fs)) (sum_list (map (frag_len c) (take n fs))) fin c c'
    \<and> lst c' = fold remove1 (take n fs) (lst c) \<and> others c' = others c \<and> messageDone (recvs c' a) = fin \<and> (\<not> fin \<longrightarrow> n = length fs)
    \<and> (fs \<noteq> [] \<longrightarrow> 0 < n)"
  using assms
proof (induction fs arbitrary: c)
  case Nil
  then show ?case using serves_refl by auto
next
  case (Cons f fs)
  from place_rem [OF Cons.prems, of 0 f] obtain fin c1 where c1: "place_frag 0 (Some a) f (rem f c) = Some (fin, c1)"
    "serves a s {f} (frag_len c f) fin c c1" "lst c1 = remove1 f (lst c)" "others c1 = others c" "messageDone (recvs c1 a) = fin" by blast
  show ?case
  proof (cases fin)
    case True
    with c1 show ?thesis by (intro exI [of _ 1] exI [of _ True] exI [of _ c1]) simp
  next
    case False
    have "matched_to a s c1" using c1(2) Cons.prems(1) by (auto simp: serves_def keeps_def same_req_def matched_to_def)
    moreover have "\<not> messageDone (recvs c1 a)" using c1(5) False by simp
    ultimately obtain n fin' c' where IH: "serve_loop rem a fs c1 = Some (fin', c')" "n \<le> length fs"
      "serves a s (set (take n fs)) (sum_list (map (frag_len c1) (take n fs))) fin' c1 c'"
      "lst c' = fold remove1 (take n fs) (lst c1)" "others c' = others c1" "messageDone (recvs c' a) = fin'" "\<not> fin' \<longrightarrow> n = length fs"
      using Cons.IH [of c1] by blast
    have "frag_len c1 g = frag_len c g" for g
      using c1(2) same_frag_fields(5) [of "frags c g" "frags c1 g"] by (simp add: serves_def keeps_def frag_len_def)
    then have "frag_len c1 = frag_len c" by blast
    moreover have "serves a s {f} (frag_len c f) False c c1" using c1(2) False by simp
    ultimately have
      "serves a s (set (take (Suc n) (f # fs))) (sum_list (map (frag_len c) (take (Suc n) (f # fs)))) fin' c c'" using serves_trans [OF _ IH(3)] by fastforce
    with c1 IH False show ?thesis by (intro exI [of _ "Suc n"] exI [of _ fin'] exI [of _ c']) simp
  qed
qed

end

interpretation okq: frag_queue "remove_ok s" "\<lambda>c. OkToMatchRecvFrags c s" "\<lambda>c. (AheadOfSeqRecvFrags c, (OkToMatchRecvFrags c)(s := []))" for s
  by unfold_locales (auto simp: same_lists_def keeps_def)

interpretation ahq: frag_queue "remove_ahead s" "\<lambda>c. AheadOfSeqRecvFrags c s" "\<lambda>c. (OkToMatchRecvFrags c, (AheadOfSeqRecvFrags c)(s := []))" for s
  by unfold_locales (auto simp: same_lists_def keeps_def)

text \<open>The fragments of message \<open>q\<close>, and that they hold no more than \<open>L\<close> bytes, with an empty one only alone.\<close>

definition of_msg :: "comm_q \<Rightarrow> int \<Rightarrow> nat list \<Rightarrow> nat list" where
  "of_msg c q xs = filter (\<lambda>f. f_isendSeq (frags c f) = q) xs"

definition counted :: "comm_q \<Rightarrow> nat list \<Rightarrow> nat \<Rightarrow> bool" where
  "counted c zs L \<longleftrightarrow> sum_list (map (frag_len c) zs) \<le> L \<and> (\<forall>z \<in> set zs. frag_len c z \<noteq> 0 \<or> zs = [z])"

lemma counted_cong:
  assumes "\<And>z. z \<in> set zs \<Longrightarrow> frag_len c' z = frag_len c z"
  shows "counted c' zs L = counted c zs L"
proof -
  have "sum_list (map (frag_len c') zs) = sum_list (map (frag_len c) zs)" using assms by (metis map_cong)
  with assms show ?thesis by (simp add: counted_def)
qed

lemma counted_all_taken:
  assumes cnt: "counted c zs L" and full: "L \<le> sum_list (map (frag_len c) (take n zs))" and n: "n \<le> length zs" "0 < n"
  shows "n = length zs"
proof (rule ccontr)
  assume "n \<noteq> length zs"
  then obtain z rest where z: "drop n zs = z # rest" using n by (cases "drop n zs") auto
  have "sum_list (map (frag_len c) zs) = sum_list (map (frag_len c) (take n zs)) + sum_list (map (frag_len c) (drop n zs))"
    by (metis append_take_drop_id map_append sum_list_append)
  then have "frag_len c z = 0" using cnt full z by (simp add: counted_def)
  moreover have "z \<in> set zs" using z by (metis in_set_dropD list.set_intros(1))
  ultimately have "zs = [z]" using cnt by (auto simp: counted_def)
  then show False using z n by (simp add: drop_Cons')
qed

lemma fold_remove1: "distinct xs \<Longrightarrow> fold remove1 ys xs = filter (\<lambda>x. x \<notin> set ys) xs"
  by (induction ys arbitrary: xs) (auto simp: distinct_remove1_removeAll removeAll_filter_not_eq intro!: filter_cong)

lemma of_msg_cong: "(\<And>g. same_frag (frags c g) (frags c' g)) \<Longrightarrow> of_msg c' q xs = of_msg c q xs"
  unfolding of_msg_def by (intro filter_cong refl) (metis same_frag_fields(3))

end
