(* ===== verification/Match_Inv.thy ===== *)
theory Match_Inv
  imports Match_Serve
begin

section \<open>The invariant of the queues\<close>

text \<open>
  What holds between two calls (\<open>match_inv\<close>): the posted receives are in order, no fragment waits that a posted receive
  would accept, the unmatched fragments of each process are of earlier messages than the one expected next, in the order
  of the messages as far as the first fragment of each goes, and none of them is of a message already matched.
\<close>

subsection \<open>Order of first occurrences\<close>

fun in_order :: "int set \<Rightarrow> int list \<Rightarrow> bool" where
  "in_order seen [] \<longleftrightarrow> True"
| "in_order seen (q # qs) \<longleftrightarrow> (q \<in> seen \<or> (\<forall>p \<in> seen. p < q)) \<and> in_order (insert q seen) qs"

lemma in_order_snoc: "in_order seen (qs @ [q]) \<longleftrightarrow> in_order seen qs \<and> (q \<in> seen \<union> set qs \<or> (\<forall>p \<in> seen \<union> set qs. p < q))"
  by (induction qs arbitrary: seen) auto

lemma in_order_filter: "in_order seen qs \<Longrightarrow> in_order (seen - {r}) (filter (\<lambda>q. q \<noteq> r) qs)"
proof (induction qs arbitrary: seen)
  case (Cons q qs)
  from Cons.IH [of "insert q seen"] Cons.prems show ?case
    by (cases "q = r") (auto simp: insert_Diff_if)
qed simp

lemma in_order_later: "in_order seen qs \<Longrightarrow> q \<in> seen \<Longrightarrow> g \<in> set qs \<Longrightarrow> g < q \<Longrightarrow> g \<in> seen"
  by (induction qs arbitrary: seen) fastforce+

lemma in_order_prefix: "in_order seen (qs @ q # rs) \<Longrightarrow> g \<in> set rs \<Longrightarrow> g < q \<Longrightarrow> g \<in> seen \<union> set qs"
proof (induction qs arbitrary: seen)
  case Nil
  then show ?case using in_order_later [of "insert q seen" rs q g] by auto
next
  case (Cons x qs)
  then show ?case using Cons.IH [of "insert x seen"] by auto
qed

subsection \<open>The parts of the invariant\<close>

abbreviation seq_of :: "comm_q \<Rightarrow> nat \<Rightarrow> int" where
  "seq_of c f \<equiv> f_isendSeq (frags c f)"

text \<open>A list of fragments from \<open>s\<close>: those of one message agree on its tag and length and hold no more bytes than it has.\<close>

definition frag_list :: "comm_q \<Rightarrow> nat \<Rightarrow> queue_id \<Rightarrow> nat list \<Rightarrow> bool" where
  "frag_list c s w xs \<longleftrightarrow> distinct xs \<and> (\<forall>f \<in> set xs. f_src (frags c f) = s \<and> f_queue (frags c f) = w
       \<and> counted c (of_msg c (seq_of c f) xs) (f_msgLength (frags c f)))
     \<and> (\<forall>f \<in> set xs. \<forall>g \<in> set xs. seq_of c f = seq_of c g \<longrightarrow> f_tag (frags c f) = f_tag (frags c g) \<and> f_msgLength (frags c f) = f_msgLength (frags c g))"

definition matched_list :: "comm_q \<Rightarrow> nat \<Rightarrow> nat list \<Rightarrow> bool" where
  "matched_list c s xs \<longleftrightarrow> distinct xs \<and> inj_on (\<lambda>a. r_isendSeq (recvs c a)) (set xs)
     \<and> (\<forall>a \<in> set xs. matched_to a s c \<and> \<not> messageDone (recvs c a) \<and> r_isendSeq (recvs c a) < next_expected_isendSeqs c s)"

text \<open>While the fragments ahead of their turn are being looked at, one of them may be of the message expected next.\<close>

definition src_inv :: "nat \<Rightarrow> comm_q \<Rightarrow> bool" where
  "src_inv s c \<longleftrightarrow> frag_list c s UNMATCHEDFRAGS (OkToMatchRecvFrags c s) \<and> frag_list c s AHEADOFSEQUENCEFRAGS (AheadOfSeqRecvFrags c s)
     \<and> matched_list c s (MatchedRecv c s)
     \<and> (\<forall>f \<in> set (OkToMatchRecvFrags c s). seq_of c f < next_expected_isendSeqs c s)
     \<and> (\<forall>f \<in> set (AheadOfSeqRecvFrags c s). next_expected_isendSeqs c s \<le> seq_of c f)
     \<and> in_order {} (map (seq_of c) (OkToMatchRecvFrags c s))
     \<and> (\<forall>f \<in> set (OkToMatchRecvFrags c s). \<forall>a \<in> set (MatchedRecv c s). r_isendSeq (recvs c a) \<noteq> seq_of c f)
     \<and> (\<forall>f \<in> set (OkToMatchRecvFrags c s). \<forall>a \<in> set (posted s c). \<not> accepts c (frags c f) a)
     \<and> (groupSize c \<le> s \<longrightarrow> OkToMatchRecvFrags c s = [] \<and> AheadOfSeqRecvFrags c s = [])"

definition weak_inv :: "comm_q \<Rightarrow> bool" where
  "weak_inv c \<longleftrightarrow> posted_ok c \<and> (\<forall>s. src_inv s c)"

definition no_turn :: "nat \<Rightarrow> comm_q \<Rightarrow> bool" where
  "no_turn s c \<longleftrightarrow> next_expected_isendSeqs c s \<notin> seq_of c ` set (AheadOfSeqRecvFrags c s)"

definition match_inv :: "comm_q \<Rightarrow> bool" where
  "match_inv c \<longleftrightarrow> weak_inv c \<and> (\<forall>s. no_turn s c)"

lemma src_invD:
  assumes "src_inv s c"
  shows "frag_list c s UNMATCHEDFRAGS (OkToMatchRecvFrags c s)" "frag_list c s AHEADOFSEQUENCEFRAGS (AheadOfSeqRecvFrags c s)"
    "matched_list c s (MatchedRecv c s)"
    "\<And>f. f \<in> set (OkToMatchRecvFrags c s) \<Longrightarrow> seq_of c f < next_expected_isendSeqs c s"
    "\<And>f. f \<in> set (AheadOfSeqRecvFrags c s) \<Longrightarrow> next_expected_isendSeqs c s \<le> seq_of c f"
    "in_order {} (map (seq_of c) (OkToMatchRecvFrags c s))"
    "\<And>f a. f \<in> set (OkToMatchRecvFrags c s) \<Longrightarrow> a \<in> set (MatchedRecv c s) \<Longrightarrow> r_isendSeq (recvs c a) \<noteq> seq_of c f"
    "\<And>f a. f \<in> set (OkToMatchRecvFrags c s) \<Longrightarrow> a \<in> set (posted s c) \<Longrightarrow> \<not> accepts c (frags c f) a"
    "groupSize c \<le> s \<Longrightarrow> OkToMatchRecvFrags c s = [] \<and> AheadOfSeqRecvFrags c s = []"
  using assms by (simp_all add: src_inv_def)

lemma src_invI:
  assumes "frag_list c s UNMATCHEDFRAGS (OkToMatchRecvFrags c s)" "frag_list c s AHEADOFSEQUENCEFRAGS (AheadOfSeqRecvFrags c s)"
    "matched_list c s (MatchedRecv c s)"
    "\<And>f. f \<in> set (OkToMatchRecvFrags c s) \<Longrightarrow> seq_of c f < next_expected_isendSeqs c s"
    "\<And>f. f \<in> set (AheadOfSeqRecvFrags c s) \<Longrightarrow> next_expected_isendSeqs c s \<le> seq_of c f"
    "in_order {} (map (seq_of c) (OkToMatchRecvFrags c s))"
    "\<And>f a. f \<in> set (OkToMatchRecvFrags c s) \<Longrightarrow> a \<in> set (MatchedRecv c s) \<Longrightarrow> r_isendSeq (recvs c a) \<noteq> seq_of c f"
    "\<And>f a. f \<in> set (OkToMatchRecvFrags c s) \<Longrightarrow> a \<in> set (posted s c) \<Longrightarrow> \<not> accepts c (frags c f) a"
    "groupSize c \<le> s \<Longrightarrow> OkToMatchRecvFrags c s = [] \<and> AheadOfSeqRecvFrags c s = []"
  shows "src_inv s c"
  using assms by (simp add: src_inv_def)

subsection \<open>What the invariant depends on\<close>

text \<open>Only the receive \<open>a\<close> may have changed, and it is posted no more.\<close>

lemma posted_list_remove:
  assumes "posted_list c w xs" and "next_irecv_id_counter c' = next_irecv_id_counter c" and "\<And>b. b \<noteq> a \<Longrightarrow> recvs c' b = recvs c b"
  shows "posted_list c' w (remove1 a xs)"
proof -
  have d: "distinct xs" by (rule posted_listD(2) [OF assms(1)])
  then have "remove1 a xs = filter (\<lambda>x. x \<noteq> a) xs" by (auto simp: distinct_remove1_removeAll removeAll_filter_not_eq intro!: filter_cong)
  moreover have "sorted_wrt (\<lambda>a b. posted_at c' a < posted_at c' b) (filter (\<lambda>x. x \<noteq> a) xs)"
    using posted_listD(1) [OF assms(1)] assms(3) by (induction xs) auto
  ultimately show ?thesis using posted_listD(3) [OF assms(1)] assms(2,3) by (simp add: posted_list_def list_all_iff)
qed

lemma posted_ok_remove:
  assumes w: "PostedWildRecv c' = remove1 a (PostedWildRecv c)" and p: "\<And>s. PostedSpecificRecv c' s = remove1 a (PostedSpecificRecv c s)"
    and n: "next_irecv_id_counter c' = next_irecv_id_counter c" and r: "\<And>b. b \<noteq> a \<Longrightarrow> recvs c' b = recvs c b" and ok: "posted_ok c"
  shows "posted_ok c'"
proof -
  have lw: "posted_list c POSTEDWILDIRECV (PostedWildRecv c)" and lp: "posted_list c POSTEDIRECV (PostedSpecificRecv c s)" for s
    using ok by (simp_all add: posted_ok_def)
  have mem: "b \<in> set (remove1 a xs) \<longleftrightarrow> b \<in> set xs \<and> b \<noteq> a" if "posted_list c v xs" for b v xs using posted_listD(2) [OF that] by auto
  show ?thesis unfolding posted_ok_def w p
  proof (intro conjI allI impI)
    show "list_all (\<lambda>b. p_peer (recvs c' b) = int s) (remove1 a (PostedSpecificRecv c s))" for s
      using ok r mem [OF lp] by (simp add: posted_ok_def list_all_iff)
    show "posted_at c' x \<noteq> posted_at c' y" if "x \<in> set (remove1 a (PostedWildRecv c))" "y \<in> set (remove1 a (PostedSpecificRecv c s))" for s x y
      using ok that mem [OF lp] mem [OF lw] r unfolding posted_ok_def by auto
  qed (use posted_list_remove [OF lw n r] posted_list_remove [OF lp n r] in auto)
qed

lemma frag_list_cong:
  assumes "\<And>f. f \<in> set xs \<Longrightarrow> frags c' f = frags c f"
  shows "frag_list c' s w xs = frag_list c s w xs"
proof -
  have "of_msg c' q xs = of_msg c q xs" for q unfolding of_msg_def using assms by (intro filter_cong refl) simp
  moreover have "counted c' zs L = counted c zs L" if "set zs \<subseteq> set xs" for zs L
    by (rule counted_cong) (use that assms in \<open>auto simp: frag_len_def\<close>)
  moreover have "set (of_msg c q xs) \<subseteq> set xs" for q by (auto simp: of_msg_def)
  ultimately show ?thesis using assms by (simp add: frag_list_def)
qed

lemma matched_list_mono:
  assumes l: "matched_list c s xs" and d: "distinct ys" and ys: "set ys \<subseteq> set xs" and n: "next_expected_isendSeqs c s \<le> next_expected_isendSeqs c' s"
    and r: "\<And>b. b \<in> set ys \<Longrightarrow> r_queue (recvs c' b) = r_queue (recvs c b)" "\<And>b. b \<in> set ys \<Longrightarrow> r_peer (recvs c' b) = r_peer (recvs c b)"
      "\<And>b. b \<in> set ys \<Longrightarrow> r_isendSeq (recvs c' b) = r_isendSeq (recvs c b)" "\<And>b. b \<in> set ys \<Longrightarrow> \<not> messageDone (recvs c' b)"
  shows "matched_list c' s ys"
proof -
  have "inj_on (\<lambda>a. r_isendSeq (recvs c a)) (set ys)" using l ys by (auto simp: matched_list_def dest: inj_on_subset)
  then have "inj_on (\<lambda>a. r_isendSeq (recvs c' a)) (set ys)" using r(3) by (simp add: inj_on_def)
  moreover have "matched_to b s c' \<and> r_isendSeq (recvs c' b) < next_expected_isendSeqs c' s" if "b \<in> set ys" for b
    using l ys that r(1-3) [OF that] n by (fastforce simp: matched_list_def matched_to_def)
  ultimately show ?thesis using d r(4) by (simp add: matched_list_def)
qed

lemma matched_list_cong:
  assumes "\<And>a. a \<in> set xs \<Longrightarrow> recvs c' a = recvs c a" and "next_expected_isendSeqs c s \<le> next_expected_isendSeqs c' s"
    and "matched_list c s xs"
  shows "matched_list c' s xs"
  using assms by (fastforce simp: matched_list_def matched_to_def inj_on_def)

lemma src_inv_cong:
  assumes l: "OkToMatchRecvFrags c' s = OkToMatchRecvFrags c s" "AheadOfSeqRecvFrags c' s = AheadOfSeqRecvFrags c s"
    "MatchedRecv c' s = MatchedRecv c s" "next_expected_isendSeqs c' s = next_expected_isendSeqs c s" "set (posted s c') \<subseteq> set (posted s c)"
    "groupSize c' = groupSize c"
    and f: "\<And>f. f \<in> set (OkToMatchRecvFrags c s) \<union> set (AheadOfSeqRecvFrags c s) \<Longrightarrow> frags c' f = frags c f"
    and r: "\<And>a. a \<in> set (MatchedRecv c s) \<union> set (posted s c') \<Longrightarrow> recvs c' a = recvs c a" and inv: "src_inv s c"
  shows "src_inv s c'"
proof (rule src_invI)
  note d = src_invD [OF inv]
  show "frag_list c' s UNMATCHEDFRAGS (OkToMatchRecvFrags c' s)" using d(1) frag_list_cong [of "OkToMatchRecvFrags c s" c' c] f l by simp
  show "frag_list c' s AHEADOFSEQUENCEFRAGS (AheadOfSeqRecvFrags c' s)" using d(2) frag_list_cong [of "AheadOfSeqRecvFrags c s" c' c] f l by simp
  show "matched_list c' s (MatchedRecv c' s)" using matched_list_cong [OF _ _ d(3), of c'] r l by simp
  have "map (seq_of c') (OkToMatchRecvFrags c s) = map (seq_of c) (OkToMatchRecvFrags c s)" using f by simp
  then show "in_order {} (map (seq_of c') (OkToMatchRecvFrags c' s))" using d(6) l by (simp only:)
  show "\<not> accepts c' (frags c' g) a" if "g \<in> set (OkToMatchRecvFrags c' s)" "a \<in> set (posted s c')" for g a
    using d(8) [of g a] f [of g] r [of a] l(1,5) that by (auto simp: accepts_def)
qed (use src_invD [OF inv] f r l in auto)

subsection \<open>Data for a matched receive\<close>

lemma weak_invD: "weak_inv c \<Longrightarrow> posted_ok c" "weak_inv c \<Longrightarrow> src_inv s c"
  by (simp_all add: weak_inv_def)

text \<open>A receive is on one list only.\<close>

lemma matched_not_posted:
  assumes "weak_inv c" and "a \<in> set (MatchedRecv c s)"
  shows "a \<notin> set (posted t c)" and "a \<in> set (MatchedRecv c u) \<longleftrightarrow> u = s"
proof -
  have m: "matched_to a s c" using src_invD(3) [OF weak_invD(2) [OF assms(1)]] assms(2) by (auto simp: matched_list_def)
  have "posted_list c POSTEDWILDIRECV (PostedWildRecv c)" "posted_list c POSTEDIRECV (PostedSpecificRecv c t)"
    using weak_invD(1) [OF assms(1)] by (simp_all add: posted_ok_def)
  from posted_listD(3) [OF this(1), of a] posted_listD(3) [OF this(2), of a] m show "a \<notin> set (posted t c)"
    by (auto simp: matched_to_def)
  have "u = s" if "a \<in> set (MatchedRecv c u)"
    using src_invD(3) [OF weak_invD(2) [OF assms(1)], of u] that m by (auto simp: matched_list_def matched_to_def)
  then show "a \<in> set (MatchedRecv c u) \<longleftrightarrow> u = s" using assms(2) by auto
qed

lemma serves_inv:
  assumes inv: "weak_inv c" and a: "a \<in> set (MatchedRecv c s)" and sv: "serves a s F n fin c c'" and lists: "same_lists c c'"
    and dn: "\<not> fin \<Longrightarrow> \<not> messageDone (recvs c' a)" and F: "\<And>t. F \<inter> (set (OkToMatchRecvFrags c t) \<union> set (AheadOfSeqRecvFrags c t)) = {}"
  shows "weak_inv c'"
proof -
  note d = src_invD [OF weak_invD(2) [OF inv]] and mnp = matched_not_posted [OF inv a]
  have k: "PostedWildRecv c' = PostedWildRecv c" "PostedSpecificRecv c' = PostedSpecificRecv c" "groupSize c' = groupSize c"
    "next_expected_isendSeqs c' = next_expected_isendSeqs c" "next_irecv_id_counter c' = next_irecv_id_counter c"
    "\<And>b. b \<noteq> a \<Longrightarrow> recvs c' b = recvs c b" "same_req (recvs c a) (recvs c' a)" "\<And>g. g \<notin> F \<Longrightarrow> frags c' g = frags c g"
    "\<And>t. t \<noteq> s \<Longrightarrow> MatchedRecv c' t = MatchedRecv c t" using sv by (auto simp: serves_def keeps_def)
  have ls: "OkToMatchRecvFrags c' = OkToMatchRecvFrags c" "AheadOfSeqRecvFrags c' = AheadOfSeqRecvFrags c" using lists by (simp_all add: same_lists_def)
  have fr: "frags c' g = frags c g" if "g \<in> set (OkToMatchRecvFrags c t) \<union> set (AheadOfSeqRecvFrags c t)" for g t using k(8) F [of t] that by blast
  have np: "a \<notin> set (PostedWildRecv c)" "\<And>t. a \<notin> set (PostedSpecificRecv c t)" using mnp(1) by auto
  have "posted_ok c'" by (rule posted_ok_remove [OF _ _ k(5,6) weak_invD(1) [OF inv]]) (use k(1,2) np in \<open>simp_all add: remove1_idem\<close>)
  moreover have "src_inv t c'" for t
  proof (cases "t = s")
    case False
    have "b \<noteq> a" if "b \<in> set (MatchedRecv c t) \<union> set (posted t c)" for b using that False mnp(2) [of t] np by auto
    then have "recvs c' b = recvs c b" if "b \<in> set (MatchedRecv c t) \<union> set (posted t c)" for b using that k(6) by blast
    then show ?thesis by (intro src_inv_cong [OF _ _ _ _ _ _ _ _ weak_invD(2) [OF inv, of t]]) (use False k(1-4,9) ls fr in auto)
  next
    case True
    have f: "r_queue (recvs c' b) = r_queue (recvs c b)" "r_peer (recvs c' b) = r_peer (recvs c b)" "r_isendSeq (recvs c' b) = r_isendSeq (recvs c b)" for b
      using k(6,7) by (cases "b = a"; auto simp: same_req_def)+
    have m: "MatchedRecv c' s = (if fin then remove1 a (MatchedRecv c s) else MatchedRecv c s)" using sv by (simp add: serves_def)
    have old: "distinct (MatchedRecv c s)" "\<And>b. b \<in> set (MatchedRecv c s) \<Longrightarrow> \<not> messageDone (recvs c b)" using d(3) [of s] by (auto simp: matched_list_def)
    have "\<not> messageDone (recvs c' b)" if "b \<in> set (MatchedRecv c' s)" for b
      using that old k(6) dn m by (cases "b = a") (auto split: if_splits)
    then have ml: "matched_list c' s (MatchedRecv c' s)"
      by (intro matched_list_mono [OF d(3)] f) (use m old(1) k(4) in \<open>auto dest: notin_set_remove1 split: if_splits\<close>)
    show ?thesis unfolding True
    proof (rule src_invI)
      show "frag_list c' s UNMATCHEDFRAGS (OkToMatchRecvFrags c' s)" using d(1) frag_list_cong [of "OkToMatchRecvFrags c s" c' c] fr [of _ s] ls by simp
      show "frag_list c' s AHEADOFSEQUENCEFRAGS (AheadOfSeqRecvFrags c' s)" using d(2) frag_list_cong [of "AheadOfSeqRecvFrags c s" c' c] fr [of _ s] ls by simp
      have "map (seq_of c') (OkToMatchRecvFrags c s) = map (seq_of c) (OkToMatchRecvFrags c s)" using fr [of _ s] by simp
      then show "in_order {} (map (seq_of c') (OkToMatchRecvFrags c' s))" using d(6) ls by (simp only:)
      show "r_isendSeq (recvs c' b) \<noteq> seq_of c' g" if "g \<in> set (OkToMatchRecvFrags c' s)" "b \<in> set (MatchedRecv c' s)" for g b
      proof -
        have "b \<in> set (MatchedRecv c s)" using that(2) m old(1) by (auto split: if_splits)
        moreover have "r_isendSeq (recvs c' b) = r_isendSeq (recvs c b)" using k(6,7) by (cases "b = a") (auto simp: same_req_def)
        ultimately show ?thesis using d(7) [of g s b] fr [of g s] ls that(1) by auto
      qed
      show "\<not> accepts c' (frags c' g) b" if "g \<in> set (OkToMatchRecvFrags c' s)" "b \<in> set (posted s c')" for g b
        using d(8) [of g s b] fr [of g s] k(1,2,6) ls that np by (cases "b = a") (auto simp: accepts_def)
    qed (use d k ls fr [of _ s] ml in auto)
  qed
  ultimately show ?thesis by (simp add: weak_inv_def)
qed

end
