(* ===== verification/Match_Lists.thy ===== *)
theory Match_Lists
  imports Match_Inv
begin

section \<open>Changes of the queues that keep the invariant\<close>

text \<open>
  The four changes that the operations are made of: all fragments of a message leave a list, a receive becomes a matched
  one, fragments become unmatched ones, a fragment comes ahead of its turn.
\<close>

subsection \<open>All fragments of a message leave\<close>

definition not_msg :: "comm_q \<Rightarrow> int \<Rightarrow> nat list \<Rightarrow> nat list" where
  "not_msg c q xs = filter (\<lambda>f. seq_of c f \<noteq> q) xs"

lemma set_not_msg [simp]: "set (not_msg c q xs) = {f \<in> set xs. seq_of c f \<noteq> q}"
  by (auto simp: not_msg_def)

lemma set_of_msg [simp]: "set (of_msg c q xs) = {f \<in> set xs. seq_of c f = q}"
  by (auto simp: of_msg_def)

lemma not_msg_Nil [simp]: "not_msg c q [] = []"
  by (simp add: not_msg_def)

lemma of_not_msg: "of_msg c p (not_msg c q xs) = (if p = q then [] else of_msg c p xs)"
  by (auto simp: of_msg_def not_msg_def filter_empty_conv intro!: filter_cong)

lemma frag_list_drop: "frag_list c s w xs \<Longrightarrow> frag_list c s w (not_msg c q xs)"
  by (simp add: frag_list_def of_not_msg) (simp add: not_msg_def)

lemma map_not_msg: "map (seq_of c) (not_msg c q xs) = filter (\<lambda>p. p \<noteq> q) (map (seq_of c) xs)"
  by (simp add: not_msg_def filter_map o_def)

lemma frag_len_fields [simp]: "frag_len (c\<lparr>OkToMatchRecvFrags := x\<rparr>) = frag_len c" "frag_len (c\<lparr>AheadOfSeqRecvFrags := x\<rparr>) = frag_len c"
  by (simp_all add: fun_eq_iff frag_len_def)

lemma ok_frag_fields [simp]:
  "frag_list (c\<lparr>OkToMatchRecvFrags := x\<rparr>) = frag_list c" "frag_list (c\<lparr>AheadOfSeqRecvFrags := x\<rparr>) = frag_list c"
  "matched_list (c\<lparr>OkToMatchRecvFrags := x\<rparr>) = matched_list c" "matched_list (c\<lparr>AheadOfSeqRecvFrags := x\<rparr>) = matched_list c"
  "accepts (c\<lparr>OkToMatchRecvFrags := x\<rparr>) = accepts c" "accepts (c\<lparr>AheadOfSeqRecvFrags := x\<rparr>) = accepts c"
  "posted_ok (c\<lparr>OkToMatchRecvFrags := x\<rparr>) = posted_ok c" "posted_ok (c\<lparr>AheadOfSeqRecvFrags := x\<rparr>) = posted_ok c"
  by (simp_all add: fun_eq_iff frag_list_def of_msg_def counted_def matched_list_def matched_to_def accepts_def posted_ok_def posted_list_def)

lemma serves_fields [simp]:
  "serves a s F n fin (c\<lparr>OkToMatchRecvFrags := x\<rparr>) c' = serves a s F n fin c c'"
  "serves a s F n fin (c\<lparr>AheadOfSeqRecvFrags := x\<rparr>) c' = serves a s F n fin c c'"
  by (simp_all add: serves_def keeps_def got_def)

definition drop_ok :: "nat \<Rightarrow> int \<Rightarrow> comm_q \<Rightarrow> comm_q" where
  "drop_ok s q c = c\<lparr>OkToMatchRecvFrags := (OkToMatchRecvFrags c)(s := not_msg c q (OkToMatchRecvFrags c s))\<rparr>"

definition drop_ahead :: "nat \<Rightarrow> int \<Rightarrow> comm_q \<Rightarrow> comm_q" where
  "drop_ahead s q c = c\<lparr>AheadOfSeqRecvFrags := (AheadOfSeqRecvFrags c)(s := not_msg c q (AheadOfSeqRecvFrags c s))\<rparr>"

lemma drop_ok_inv:
  assumes inv: "weak_inv c"
  shows "weak_inv (drop_ok s q c)"
proof -
  note d = src_invD [OF weak_invD(2) [OF inv]]
  have "src_inv t (drop_ok s q c)" for t
  proof (rule src_invI)
    have "in_order ({} - {q}) (map (seq_of c) (not_msg c q (OkToMatchRecvFrags c s)))"
      using in_order_filter [OF d(6) [of s]] by (simp only: map_not_msg)
    then show "in_order {} (map (seq_of (drop_ok s q c)) (OkToMatchRecvFrags (drop_ok s q c) t))" using d(6) [of t] by (simp add: drop_ok_def)
  qed (use d in \<open>auto simp: drop_ok_def frag_list_drop split: if_splits\<close>)
  then show ?thesis using weak_invD(1) [OF inv] by (simp add: weak_inv_def drop_ok_def)
qed

lemma drop_ahead_inv:
  assumes inv: "weak_inv c"
  shows "weak_inv (drop_ahead s q c)"
proof -
  note d = src_invD [OF weak_invD(2) [OF inv]]
  have "src_inv t (drop_ahead s q c)" for t
    by (rule src_invI) (use d in \<open>auto simp: drop_ahead_def frag_list_drop split: if_splits\<close>)
  then show ?thesis using weak_invD(1) [OF inv] by (simp add: weak_inv_def drop_ahead_def)
qed

subsection \<open>A receive becomes a matched one\<close>

lemma add_matched_inv:
  assumes inv: "weak_inv c" and a: "\<And>t. a \<notin> set (MatchedRecv c t)"
    and lists: "OkToMatchRecvFrags c' = OkToMatchRecvFrags c" "AheadOfSeqRecvFrags c' = AheadOfSeqRecvFrags c" "frags c' = frags c"
      "groupSize c' = groupSize c" "next_irecv_id_counter c' = next_irecv_id_counter c"
    and posted: "PostedWildRecv c' = remove1 a (PostedWildRecv c)" "\<And>t. PostedSpecificRecv c' t = remove1 a (PostedSpecificRecv c t)"
    and r: "\<And>b. b \<noteq> a \<Longrightarrow> recvs c' b = recvs c b"
    and m: "MatchedRecv c' = (MatchedRecv c)(s := MatchedRecv c s @ [a])" "matched_to a s c'" "\<not> messageDone (recvs c' a)"
    and n: "next_expected_isendSeqs c' = (next_expected_isendSeqs c)(s := N)" "next_expected_isendSeqs c s \<le> N"
      "r_isendSeq (recvs c' a) < N" "\<And>f. f \<in> set (AheadOfSeqRecvFrags c s) \<Longrightarrow> N \<le> seq_of c f"
    and q: "\<And>f. f \<in> set (OkToMatchRecvFrags c s) \<Longrightarrow> seq_of c f \<noteq> r_isendSeq (recvs c' a)"
      "\<And>b. b \<in> set (MatchedRecv c s) \<Longrightarrow> r_isendSeq (recvs c b) \<noteq> r_isendSeq (recvs c' a)"
  shows "weak_inv c'"
proof -
  note d = src_invD [OF weak_invD(2) [OF inv]]
  have pok: "posted_ok c'" by (rule posted_ok_remove [OF posted lists(5) r weak_invD(1) [OF inv]])
  have pl: "posted_list c POSTEDWILDIRECV (PostedWildRecv c)" "posted_list c POSTEDIRECV (PostedSpecificRecv c t)" for t
    using weak_invD(1) [OF inv] by (simp_all add: posted_ok_def)
  have mem: "b \<in> set (posted t c) \<and> b \<noteq> a" if "b \<in> set (posted t c')" for b t
    using that posted_listD(2) [OF pl(1)] posted_listD(2) [OF pl(2)] by (auto simp: posted)
  have "src_inv t c'" for t
  proof (cases "t = s")
    case False
    have "b \<noteq> a" if "b \<in> set (MatchedRecv c t) \<union> set (posted t c')" for b using that mem [of b t] a [of t] by auto
    then have "recvs c' b = recvs c b" if "b \<in> set (MatchedRecv c t) \<union> set (posted t c')" for b using that r by metis
    then show ?thesis by (intro src_inv_cong [OF _ _ _ _ _ _ _ _ weak_invD(2) [OF inv, of t]]) (use False lists m(1) n(1) mem [of _ t] in auto)
  next
    case True
    have same: "recvs c' b = recvs c b" if "b \<in> set (MatchedRecv c s)" for b using that a r by metis
    then have ml: "matched_list c' s (MatchedRecv c s)" by (intro matched_list_cong [OF _ _ d(3)]) (use n(1,2) in auto)
    have seq: "r_isendSeq (recvs c' b) = r_isendSeq (recvs c b)" if "b \<in> set (MatchedRecv c s)" for b using same [OF that] by simp
    then have "r_isendSeq (recvs c' a) \<notin> (\<lambda>b. r_isendSeq (recvs c' b)) ` set (MatchedRecv c s)" using q(2) by (metis (no_types, lifting) imageE)
    with ml m a n(1,3) have ml': "matched_list c' s (MatchedRecv c' s)" by (auto simp: matched_list_def)
    have fl: "frag_list c' = frag_list c" using frag_list_cong [of _ c' c] lists(3) by (simp add: fun_eq_iff)
    show ?thesis unfolding True
    proof (rule src_invI)
      show "frag_list c' s UNMATCHEDFRAGS (OkToMatchRecvFrags c' s)" "frag_list c' s AHEADOFSEQUENCEFRAGS (AheadOfSeqRecvFrags c' s)"
        using d(1,2) by (simp_all add: fl lists(1,2))
      show "in_order {} (map (seq_of c') (OkToMatchRecvFrags c' s))" using d(6) by (simp add: lists)
      show "\<not> accepts c' (frags c' g) b" if "g \<in> set (OkToMatchRecvFrags c' s)" "b \<in> set (posted s c')" for g b
        using d(8) [of g s b] mem [OF that(2)] that(1) r [of b] by (simp add: accepts_def lists)
      show "seq_of c' f < next_expected_isendSeqs c' s" if "f \<in> set (OkToMatchRecvFrags c' s)" for f
        using d(4) [of f s] that n(1,2) by (simp add: lists)
      show "r_isendSeq (recvs c' b) \<noteq> seq_of c' f" if "f \<in> set (OkToMatchRecvFrags c' s)" "b \<in> set (MatchedRecv c' s)" for f b
        using d(7) [of f s b] q(1) [of f] seq [of b] that m(1) by (auto simp: lists)
    qed (use d(9) [of s] n(1,4) ml' lists in auto)
  qed
  with pok show ?thesis by (simp add: weak_inv_def)
qed

subsection \<open>Fragments become unmatched ones\<close>

lemma in_order_replicate:
  "in_order seen qs \<Longrightarrow> q \<in> seen \<union> set qs \<or> (\<forall>p \<in> seen \<union> set qs. p < q) \<Longrightarrow> in_order seen (qs @ replicate n q)"
proof (induction n)
  case (Suc n)
  then have IH: "in_order seen (qs @ replicate n q)" by blast
  have "qs @ replicate (Suc n) q = (qs @ replicate n q) @ [q]" by (simp add: replicate_append_same [symmetric])
  moreover have "in_order seen ((qs @ replicate n q) @ [q])" unfolding in_order_snoc using IH Suc.prems(2) by (cases n) auto
  ultimately show ?case by (simp only:)
qed simp

text \<open>The fragments \<open>zs\<close>, all of message \<open>q\<close>, are put at the end of the list; the message expected next is then \<open>N\<close>.\<close>

definition put_ok :: "nat \<Rightarrow> nat list \<Rightarrow> int \<Rightarrow> comm_q \<Rightarrow> comm_q" where
  "put_ok s zs N c = c\<lparr>frags := (\<lambda>g. if g \<in> set zs then (frags c g)\<lparr>f_queue := UNMATCHEDFRAGS\<rparr> else frags c g),
     OkToMatchRecvFrags := (OkToMatchRecvFrags c)(s := OkToMatchRecvFrags c s @ zs),
     next_expected_isendSeqs := (next_expected_isendSeqs c)(s := N)\<rparr>"

lemma put_ok_inv:
  assumes inv: "weak_inv c" and z: "\<And>t. set zs \<inter> (set (OkToMatchRecvFrags c t) \<union> set (AheadOfSeqRecvFrags c t)) = {}"
    and zq: "\<And>z. z \<in> set zs \<Longrightarrow> seq_of c z = q" and fl: "frag_list (put_ok s zs N c) s UNMATCHEDFRAGS (OkToMatchRecvFrags c s @ zs)"
    and n: "next_expected_isendSeqs c s \<le> N" "q < N" "\<And>f. f \<in> set (AheadOfSeqRecvFrags c s) \<Longrightarrow> N \<le> seq_of c f" and s: "s < groupSize c"
    and new: "q \<in> seq_of c ` set (OkToMatchRecvFrags c s) \<or> q = next_expected_isendSeqs c s"
    and q: "\<And>a. a \<in> set (MatchedRecv c s) \<Longrightarrow> r_isendSeq (recvs c a) \<noteq> q" "\<And>z a. z \<in> set zs \<Longrightarrow> a \<in> set (posted s c) \<Longrightarrow> \<not> accepts c (frags c z) a"
  shows "weak_inv (put_ok s zs N c)"
proof -
  let ?c = "put_ok s zs N c"
  note d = src_invD [OF weak_invD(2) [OF inv]]
  have fr: "frags ?c g = frags c g" if "g \<in> set (OkToMatchRecvFrags c t) \<union> set (AheadOfSeqRecvFrags c t)" for g t
    using z [of t] that by (auto simp: put_ok_def)
  have seq: "seq_of ?c = seq_of c" by (auto simp: put_ok_def fun_eq_iff)
  have ac: "accepts ?c (frags ?c g) a = accepts c (frags c g) a" for g a by (simp add: accepts_def put_ok_def)
  have "src_inv t ?c" for t
  proof (cases "t = s")
    case False
    then show ?thesis by (intro src_inv_cong [OF _ _ _ _ _ _ _ _ weak_invD(2) [OF inv, of t]]) (use fr [of _ t] in \<open>auto simp: put_ok_def\<close>)
  next
    case True
    have "map (seq_of ?c) zs = replicate (length zs) q" using zq seq by (simp add: map_replicate_const [symmetric])
    moreover have "q \<in> {} \<union> set (map (seq_of c) (OkToMatchRecvFrags c s)) \<or> (\<forall>p \<in> {} \<union> set (map (seq_of c) (OkToMatchRecvFrags c s)). p < q)"
      using new d(4) [of _ s] by auto
    ultimately have ord: "in_order {} (map (seq_of ?c) (OkToMatchRecvFrags c s @ zs))"
      using in_order_replicate [OF d(6) [of s]] seq by (simp only: map_append)
    have fa: "frag_list ?c s AHEADOFSEQUENCEFRAGS (AheadOfSeqRecvFrags c s)"
      using d(2) [of s] frag_list_cong [of "AheadOfSeqRecvFrags c s" ?c c] fr [of _ s] by simp
    have ml: "matched_list ?c s (MatchedRecv c s)" by (rule matched_list_cong [OF _ _ d(3)]) (use n(1) in \<open>auto simp: put_ok_def\<close>)
    show ?thesis unfolding True
    proof (rule src_invI)
      show "seq_of ?c f < next_expected_isendSeqs ?c s" if "f \<in> set (OkToMatchRecvFrags ?c s)" for f
        using that d(4) [of f s] zq [of f] n(1,2) seq by (auto simp: put_ok_def)
      show "r_isendSeq (recvs ?c a) \<noteq> seq_of ?c f" if "f \<in> set (OkToMatchRecvFrags ?c s)" "a \<in> set (MatchedRecv ?c s)" for f a
        using that d(7) [of f s a] zq [of f] q(1) [of a] by (auto simp: put_ok_def)
      show "\<not> accepts ?c (frags ?c f) a" if "f \<in> set (OkToMatchRecvFrags ?c s)" "a \<in> set (posted s ?c)" for f a
        using that d(8) [of f s a] q(2) [of f a] unfolding ac by (auto simp: put_ok_def)
      show "next_expected_isendSeqs ?c s \<le> seq_of ?c f" if "f \<in> set (AheadOfSeqRecvFrags ?c s)" for f
        using that n(3) [of f] by (auto simp: put_ok_def)
    qed (use s fl ord fa ml d(9) [of s] in \<open>auto simp: put_ok_def\<close>)
  qed
  moreover have "posted_ok ?c" using weak_invD(1) [OF inv] by (simp add: posted_ok_def posted_list_def put_ok_def)
  ultimately show ?thesis by (simp add: weak_inv_def)
qed

text \<open>When the list of the combined fragments is well formed: the old ones are, the new ones are, and they fit together.\<close>

lemma frag_listD:
  assumes "frag_list c s w xs" and "f \<in> set xs"
  shows "f_src (frags c f) = s" "f_queue (frags c f) = w" "counted c (of_msg c (seq_of c f) xs) (f_msgLength (frags c f))"
  using assms unfolding frag_list_def by blast+

lemma frag_listI:
  assumes "distinct xs" and "\<And>f. f \<in> set xs \<Longrightarrow>
      counted c (of_msg c (seq_of c f) xs) (f_msgLength (frags c f)) \<and> f_src (frags c f) = s \<and> f_queue (frags c f) = w"
    and "\<And>f g. f \<in> set xs \<Longrightarrow> g \<in> set xs \<Longrightarrow> seq_of c f = seq_of c g \<Longrightarrow>
      f_tag (frags c f) = f_tag (frags c g) \<and> f_msgLength (frags c f) = f_msgLength (frags c g)"
  shows "frag_list c s w xs"
  using assms unfolding frag_list_def by blast

lemma frag_list_distinct: "frag_list c s w xs \<Longrightarrow> distinct xs"
  by (simp add: frag_list_def)

lemma put_ok_frag_list_new:
  assumes fl: "frag_list c s UNMATCHEDFRAGS xs" "frag_list c' s UNMATCHEDFRAGS zs"
    and fr: "\<And>g. g \<in> set xs \<Longrightarrow> frags c' g = frags c g" and diff: "\<And>f z. f \<in> set xs \<Longrightarrow> z \<in> set zs \<Longrightarrow> seq_of c' f \<noteq> seq_of c' z" "set xs \<inter> set zs = {}"
  shows "frag_list c' s UNMATCHEDFRAGS (xs @ zs)"
proof -
  have x: "frag_list c' s UNMATCHEDFRAGS xs" using fl(1) frag_list_cong [OF fr, of xs] by simp
  have none: "of_msg c' (seq_of c' f) zs = []" if "f \<in> set xs" for f using that diff(1) by (fastforce simp: of_msg_def filter_empty_conv)
  have none': "of_msg c' (seq_of c' z) xs = []" if "z \<in> set zs" for z using that diff(1) by (fastforce simp: of_msg_def filter_empty_conv)
  have app: "of_msg c' q (xs @ zs) = of_msg c' q xs @ of_msg c' q zs" for q by (simp add: of_msg_def)
  have cnt: "counted c' (of_msg c' (seq_of c' f) (xs @ zs)) (f_msgLength (frags c' f)) \<and> f_src (frags c' f) = s \<and> f_queue (frags c' f) = UNMATCHEDFRAGS"
    if "f \<in> set (xs @ zs)" for f
  proof (cases "f \<in> set xs")
    case True
    then show ?thesis using frag_listD [OF x True] none [OF True] by (simp add: app)
  next
    case False
    then have z: "f \<in> set zs" using that by simp
    then show ?thesis using frag_listD [OF fl(2) z] none' [OF z] by (simp add: app)
  qed
  have tags: "f_tag (frags c' f) = f_tag (frags c' g) \<and> f_msgLength (frags c' f) = f_msgLength (frags c' g)"
    if "f \<in> set (xs @ zs)" "g \<in> set (xs @ zs)" "seq_of c' f = seq_of c' g" for f g
  proof -
    have "f \<in> set xs \<and> g \<in> set xs \<or> f \<in> set zs \<and> g \<in> set zs" using that diff(1) by (metis Un_iff set_append)
    with x fl(2) that(3) show ?thesis unfolding frag_list_def by blast
  qed
  have "distinct (xs @ zs)" using frag_list_distinct [OF x] frag_list_distinct [OF fl(2)] diff(2) by simp
  then show ?thesis using cnt tags by (rule frag_listI)
qed

end
