(* ===== verification/Match_Arrive.thy ===== *)
theory Match_Arrive
  imports Match_Lists
begin

section \<open>A fragment comes in\<close>

text \<open>
  \<open>match_frag\<close> on a fragment that fits what came before of its message (\<open>arrive_legal\<close>) returns and keeps the invariant.
\<close>

subsection \<open>Where things are\<close>

lemma frag_where:
  assumes "weak_inv c"
  shows "f \<in> set (OkToMatchRecvFrags c t) \<Longrightarrow> f_src (frags c f) = t \<and> f_queue (frags c f) = UNMATCHEDFRAGS"
    and "f \<in> set (AheadOfSeqRecvFrags c t) \<Longrightarrow> f_src (frags c f) = t \<and> f_queue (frags c f) = AHEADOFSEQUENCEFRAGS"
  using frag_listD(1,2) [OF src_invD(1) [OF weak_invD(2) [OF assms]]] frag_listD(1,2) [OF src_invD(2) [OF weak_invD(2) [OF assms]]] by blast+

definition listed :: "comm_q \<Rightarrow> nat set" where
  "listed c = set (PostedWildRecv c) \<union> (\<Union>t. set (PostedSpecificRecv c t)) \<union> (\<Union>t. set (MatchedRecv c t))"

text \<open>Receives that are on no list stay as they are and stay off the lists.\<close>

definition others_stay :: "comm_q \<Rightarrow> comm_q \<Rightarrow> bool" where
  "others_stay c c' \<longleftrightarrow> listed c' \<subseteq> listed c \<and> (\<forall>b. b \<notin> listed c \<longrightarrow> recvs c' b = recvs c b)"

lemma others_stay_trans: "others_stay c c' \<Longrightarrow> others_stay c' c'' \<Longrightarrow> others_stay c c''"
  unfolding others_stay_def by (metis subset_eq)

lemma serves_stay:
  assumes "serves a s F n fin c c'" and "a \<in> listed c"
  shows "others_stay c c'"
proof -
  have m: "set (MatchedRecv c' t) \<subseteq> set (MatchedRecv c t)" for t
    using assms(1) set_remove1_subset [of a "MatchedRecv c s"] by (cases "t = s") (auto simp: serves_def keeps_def)
  have "PostedWildRecv c' = PostedWildRecv c" "PostedSpecificRecv c' = PostedSpecificRecv c" "\<And>b. b \<noteq> a \<Longrightarrow> recvs c' b = recvs c b"
    using assms(1) by (simp_all add: serves_def keeps_def)
  moreover from this m have "listed c' \<subseteq> listed c" unfolding listed_def by (metis (no_types, lifting) Un_mono UN_mono order_refl)
  ultimately show ?thesis using assms(2) unfolding others_stay_def by metis
qed

lemma posted_once:
  assumes ok: "posted_ok c" and a: "a \<in> set (posted s c)"
  shows "a \<in> set (PostedSpecificRecv c s) \<Longrightarrow> a \<notin> set (PostedWildRecv c) \<and> (u \<noteq> s \<longrightarrow> a \<notin> set (PostedSpecificRecv c u))"
    and "a \<notin> set (PostedSpecificRecv c s) \<Longrightarrow> a \<in> set (PostedWildRecv c) \<and> a \<notin> set (PostedSpecificRecv c u)"
proof -
  have peer: "p_peer (recvs c a) = int u" if "a \<in> set (PostedSpecificRecv c u)" for u using ok that by (simp add: posted_ok_def list_all_iff)
  show "a \<in> set (PostedSpecificRecv c s) \<Longrightarrow> a \<notin> set (PostedWildRecv c) \<and> (u \<noteq> s \<longrightarrow> a \<notin> set (PostedSpecificRecv c u))"
    using queue_disjoint [OF ok, of a s] peer [of u] peer [of s] by auto
  show "a \<notin> set (PostedSpecificRecv c s) \<Longrightarrow> a \<in> set (PostedWildRecv c) \<and> a \<notin> set (PostedSpecificRecv c u)"
    using queue_disjoint [OF ok, of a u] a by auto
qed

lemma after_match_facts:
  fixes t :: bool
  assumes ok: "posted_ok c" and a: "a \<in> set (posted (f_src fd) c)"
  defines "c1 \<equiv> after_match t fd (Some a) c"
  shows "PostedWildRecv c1 = remove1 a (PostedWildRecv c)" "PostedSpecificRecv c1 u = remove1 a (PostedSpecificRecv c u)"
    "\<exists>t'. recvs c1 = (recvs c)(a := fill_result t' fd (recvs c a))"
    "MatchedRecv c1 = (MatchedRecv c)(f_src fd := MatchedRecv c (f_src fd) @ [a])"
    "OkToMatchRecvFrags c1 = OkToMatchRecvFrags c" "AheadOfSeqRecvFrags c1 = AheadOfSeqRecvFrags c" "frags c1 = frags c"
    "groupSize c1 = groupSize c" "next_irecv_id_counter c1 = next_irecv_id_counter c" "next_expected_isendSeqs c1 = next_expected_isendSeqs c"
proof -
  note p = posted_once [OF ok a]
  show "PostedWildRecv c1 = remove1 a (PostedWildRecv c)" "PostedSpecificRecv c1 u = remove1 a (PostedSpecificRecv c u)"
    using p(1) [of u] p(2) [of u]
    by (auto simp: c1_def after_match_def take_specific_def take_wild_def append_matched_def upd_recv_def remove1_idem)
  show "\<exists>t'. recvs c1 = (recvs c)(a := fill_result t' fd (recvs c a))"
    unfolding c1_def after_match_def take_specific_def take_wild_def append_matched_def upd_recv_def by auto
qed (simp_all add: c1_def after_match_def take_specific_def take_wild_def append_matched_def upd_recv_def)

text \<open>The receive that was just matched, as the code sees it before the next message is expected.\<close>

lemma new_match:
  fixes t :: bool
  assumes ok: "posted_ok c" and a: "a \<in> set (posted (f_src fd) c)"
  defines "c1 \<equiv> after_match t fd (Some a) c"
  shows "matched_to a (f_src fd) c1" "\<not> messageDone (recvs c1 a)" "got a c1 = 0" "r_length (recvs c1 a) = f_msgLength fd"
    "r_isendSeq (recvs c1 a) = f_isendSeq fd" "a \<in> set (MatchedRecv c1 (f_src fd))"
proof -
  have "posted_list c POSTEDWILDIRECV (PostedWildRecv c)" "posted_list c POSTEDIRECV (PostedSpecificRecv c (f_src fd))"
    using ok by (simp_all add: posted_ok_def)
  from posted_listD(3) [OF this(1), of a] posted_listD(3) [OF this(2), of a] a
  have r: "\<not> messageDone (recvs c a)" "DataReceived (recvs c a) = 0" "DataInBitBucket (recvs c a) = 0" by auto
  from after_match_facts(3) [OF ok a, of t] obtain t' where "recvs c1 a = fill_result t' fd (recvs c a)" by (auto simp: c1_def)
  with r show "matched_to a (f_src fd) c1" "\<not> messageDone (recvs c1 a)" "got a c1 = 0" "r_length (recvs c1 a) = f_msgLength fd"
    "r_isendSeq (recvs c1 a) = f_isendSeq fd" by (simp_all add: matched_to_def got_def fill_result_def)
  show "a \<in> set (MatchedRecv c1 (f_src fd))" using after_match_facts(4) [OF ok a, of t] by (simp add: c1_def)
qed

lemma inc_expected_simps [simp]:
  "recvs (inc_expected s c) = recvs c" "frags (inc_expected s c) = frags c" "groupSize (inc_expected s c) = groupSize c"
  "PostedWildRecv (inc_expected s c) = PostedWildRecv c" "PostedSpecificRecv (inc_expected s c) = PostedSpecificRecv c"
  "MatchedRecv (inc_expected s c) = MatchedRecv c" "AheadOfSeqRecvFrags (inc_expected s c) = AheadOfSeqRecvFrags c"
  "OkToMatchRecvFrags (inc_expected s c) = OkToMatchRecvFrags c" "next_irecv_id_counter (inc_expected s c) = next_irecv_id_counter c"
  "next_expected_isendSeqs (inc_expected s c) = (next_expected_isendSeqs c)(s := next_expected_isendSeqs c s + 1)"
  "got a (inc_expected s c) = got a c" "matched_to a t (inc_expected s c) = matched_to a t c"
  by (simp_all add: inc_expected_def got_def matched_to_def)

lemma serves_inc: "serves a s F n fin c c' \<Longrightarrow> serves a s F n fin (inc_expected t c) (inc_expected t c')"
  by (simp add: serves_def keeps_def)

text \<open>A posted receive is matched with the message expected next.\<close>

lemma match_next_inv:
  assumes inv: "weak_inv c" and s: "s = f_src fd" and a: "a \<in> set (posted s c)" and q: "f_isendSeq fd = next_expected_isendSeqs c s"
    and ah: "no_turn s c"
  shows "weak_inv (inc_expected s (after_match t fd (Some a) c))"
proof -
  let ?c = "inc_expected s (after_match t fd (Some a) c)"
  note d = src_invD [OF weak_invD(2) [OF inv]] and ok = weak_invD(1) [OF inv]
  note a' = a [unfolded s]
  note f = after_match_facts [OF ok a', of t] and n = new_match [OF ok a', of t]
  obtain t' where r: "recvs ?c = (recvs c)(a := fill_result t' fd (recvs c a))" using f(3) by auto
  have am: "a \<notin> set (MatchedRecv c u)" for u using matched_not_posted(1) [OF inv, of a u s] a by blast
  have late: "next_expected_isendSeqs c s + 1 \<le> seq_of c g" if "g \<in> set (AheadOfSeqRecvFrags c s)" for g
  proof -
    have "seq_of c g \<noteq> next_expected_isendSeqs c s" using ah that unfolding no_turn_def by (metis imageI)
    with d(5) [OF that] show ?thesis by simp
  qed
  have seqs: "r_isendSeq (recvs c b) \<noteq> next_expected_isendSeqs c s" if "b \<in> set (MatchedRecv c s)" for b
    using d(3) [of s] that by (auto simp: matched_list_def)
  have oks: "seq_of c g \<noteq> next_expected_isendSeqs c s" if "g \<in> set (OkToMatchRecvFrags c s)" for g using d(4) [OF that] by simp
  have rn: "r_isendSeq (recvs ?c a) = next_expected_isendSeqs c s" using n(5) q by simp
  show ?thesis
    by (rule add_matched_inv [OF inv am, where s = s and N = "next_expected_isendSeqs c s + 1"])
      (use f(1,2,4-10) n(1,2) r rn late seqs oks in \<open>simp_all add: s [symmetric]\<close>)
qed

end
