(* ===== verification/Match_Ahead.thy ===== *)
theory Match_Ahead
  imports Match_Arrive
begin

section \<open>Fragments whose turn has come\<close>

text \<open>
  \<open>matchFragsInAheadOfSequenceList\<close>: every round takes all fragments of the message expected next, so the loop ends,
  and when it does no fragment of the message expected next is left.
\<close>

subsection \<open>The inner loops\<close>

definition move_ok :: "nat \<Rightarrow> nat list \<Rightarrow> comm_q \<Rightarrow> comm_q" where
  "move_ok s zs c = c\<lparr>frags := (\<lambda>g. if g \<in> set zs then (frags c g)\<lparr>f_queue := UNMATCHEDFRAGS\<rparr> else frags c g),
     OkToMatchRecvFrags := (OkToMatchRecvFrags c)(s := OkToMatchRecvFrags c s @ zs),
     AheadOfSeqRecvFrags := (AheadOfSeqRecvFrags c)(s := fold remove1 zs (AheadOfSeqRecvFrags c s))\<rparr>"

lemma move_ok_one: "append_ok s f (remove_ahead s f c) = move_ok s [f] c"
  by (simp add: append_ok_def remove_ahead_def set_fqueue_def move_ok_def fun_eq_iff)

lemma move_ok_Cons: "move_ok s zs (move_ok s [f] c) = move_ok s (f # zs) c"
  by (auto simp: move_ok_def fun_eq_iff)

lemma of_msg_move: "of_msg (move_ok s zs c) q xs = of_msg c q xs"
  unfolding of_msg_def by (intro filter_cong refl) (simp add: move_ok_def)

lemma ahead_rest_None: "ahead_rest s q None fs c = Some (move_ok s (of_msg c q fs) c)"
proof (induction fs arbitrary: c)
  case Nil
  show ?case by (simp add: of_msg_def move_ok_def)
next
  case (Cons f fs)
  show ?case using Cons.IH [of "move_ok s [f] c"] Cons.IH [of c] of_msg_move [of s "[f]" c q fs]
    by (simp add: place_frag_def move_ok_one move_ok_Cons of_msg_def)
qed

lemma place_frags: "place_frag t (Some a) f c = Some (fin, c1) \<Longrightarrow> same_frag (frags c g) (frags c1 g)"
  by (auto simp: place_frag_def ProcessMatchedData_def CopyToAppLock_def copy_data_def DeliveredToAppLock_def mark_done_def ack_frag_def
      set_fqueue_def Let_def split: prod.splits if_splits)

lemma ahead_rest_Some:
  "ahead_rest s q (Some a) fs c = map_option snd (serve_loop (remove_ahead s) a (of_msg c q fs) c)"
proof (induction fs arbitrary: c)
  case Nil
  show ?case by (simp add: of_msg_def)
next
  case (Cons f fs)
  show ?case
  proof (cases "seq_of c f = q")
    case False
    then show ?thesis using Cons.IH by (simp add: of_msg_def)
  next
    case True
    have p: "place_frag s (Some a) f (remove_ahead s f c) = place_frag 0 (Some a) f (remove_ahead s f c)" by (simp add: place_frag_def)
    have "of_msg c1 q fs = of_msg c q fs" if "place_frag 0 (Some a) f (remove_ahead s f c) = Some (fin, c1)" for fin c1
      using of_msg_cong [of c c1] place_frags [OF that] by simp
    with True Cons.IH p show ?thesis
      by (cases "place_frag 0 (Some a) f (remove_ahead s f c)") (auto simp: of_msg_def split: prod.splits)
  qed
qed

lemma ahead_find_skip: "\<forall>y \<in> set ys. seq_of c y \<noteq> q \<Longrightarrow> ahead_find s q (ys @ xs) c = ahead_find s q xs c"
  by (induction ys) auto

subsection \<open>Lists of one message\<close>

lemma frag_list_tags:
  assumes "frag_list c s w xs" "f \<in> set xs" "g \<in> set xs" "seq_of c f = seq_of c g"
  shows "f_tag (frags c f) = f_tag (frags c g) \<and> f_msgLength (frags c f) = f_msgLength (frags c g)"
  using assms unfolding frag_list_def by blast

lemma frag_list_msg: "frag_list c s w xs \<Longrightarrow> frag_list c s w (of_msg c q xs)"
proof (rule frag_listI)
  assume fl: "frag_list c s w xs"
  show "distinct (of_msg c q xs)" using frag_list_distinct [OF fl] by (simp add: of_msg_def)
  have idem: "of_msg c q (of_msg c q xs) = of_msg c q xs" by (simp add: of_msg_def)
  show "counted c (of_msg c (seq_of c f) (of_msg c q xs)) (f_msgLength (frags c f)) \<and> f_src (frags c f) = s \<and> f_queue (frags c f) = w"
    if "f \<in> set (of_msg c q xs)" for f
  proof -
    have f: "f \<in> set xs" "q = seq_of c f" using that by simp_all
    from frag_listD [OF fl f(1)] idem [unfolded f(2)] show ?thesis unfolding f(2) by simp
  qed
  show "f_tag (frags c f) = f_tag (frags c g) \<and> f_msgLength (frags c f) = f_msgLength (frags c g)"
    if "f \<in> set (of_msg c q xs)" "g \<in> set (of_msg c q xs)" "seq_of c f = seq_of c g" for f g
    by (rule frag_list_tags [OF fl _ _ that(3)]) (use that(1,2) in simp_all)
qed

lemma frag_list_requeue:
  assumes fr: "\<And>g. g \<in> set zs \<Longrightarrow> frags c' g = (frags c g)\<lparr>f_queue := w'\<rparr>" and fl: "frag_list c s w zs"
  shows "frag_list c' s w' zs"
proof (rule frag_listI)
  show "distinct zs" by (rule frag_list_distinct [OF fl])
  have om: "of_msg c' q zs = of_msg c q zs" for q unfolding of_msg_def by (intro filter_cong refl) (simp add: fr)
  have len: "frag_len c' z = frag_len c z" if "z \<in> set zs" for z using fr [OF that] by (simp add: frag_len_def)
  have "counted c' (of_msg c q zs) L = counted c (of_msg c q zs) L" for q L by (rule counted_cong) (use len in simp)
  then show "counted c' (of_msg c' (seq_of c' f) zs) (f_msgLength (frags c' f)) \<and> f_src (frags c' f) = s \<and> f_queue (frags c' f) = w'"
    if "f \<in> set zs" for f using that frag_listD [OF fl that] fr [OF that] by (simp add: om)
  show "f_tag (frags c' f) = f_tag (frags c' g) \<and> f_msgLength (frags c' f) = f_msgLength (frags c' g)"
    if "f \<in> set zs" "g \<in> set zs" "seq_of c' f = seq_of c' g" for f g
    using frag_list_tags [OF fl that(1,2)] that(3) fr [OF that(1)] fr [OF that(2)] by simp
qed

lemma fold_remove_msg: "distinct xs \<Longrightarrow> fold remove1 (of_msg c q xs) xs = not_msg c q xs"
  by (auto simp: fold_remove1 not_msg_def intro!: filter_cong)

subsection \<open>One round\<close>

lemma ahead_msg_apart:
  assumes inv: "weak_inv c"
  shows "set (of_msg c q (AheadOfSeqRecvFrags c s))
    \<inter> (set (OkToMatchRecvFrags c u) \<union> set (((AheadOfSeqRecvFrags c)(s := not_msg c q (AheadOfSeqRecvFrags c s))) u)) = {}"
proof -
  have "x \<notin> set (OkToMatchRecvFrags c u)" "u \<noteq> s \<Longrightarrow> x \<notin> set (AheadOfSeqRecvFrags c u)" if "x \<in> set (AheadOfSeqRecvFrags c s)" for x
    using frag_where(1) [OF inv, of x u] frag_where(2) [OF inv, of x u] frag_where(2) [OF inv that] by auto
  then show ?thesis by (cases "u = s") auto
qed

lemma round_unmatched:
  assumes inv: "weak_inv c" and q: "q = next_expected_isendSeqs c s" and f: "f \<in> set (AheadOfSeqRecvFrags c s)" "seq_of c f = q"
    and none: "\<And>a. a \<in> set (posted s c) \<Longrightarrow> \<not> accepts c (frags c f) a"
  shows "weak_inv (inc_expected s (move_ok s (of_msg c q (AheadOfSeqRecvFrags c s)) c))"
proof -
  let ?zs = "of_msg c q (AheadOfSeqRecvFrags c s)" and ?d = "drop_ahead s q c"
  note d = src_invD [OF weak_invD(2) [OF inv]]
  have eq: "inc_expected s (move_ok s ?zs c) = put_ok s ?zs (q + 1) ?d"
    using fold_remove_msg [OF frag_list_distinct [OF d(2) [of s]], of c q]
    by (simp add: inc_expected_def move_ok_def put_ok_def drop_ahead_def q cong: if_cong)
  have zs: "frag_list c s AHEADOFSEQUENCEFRAGS ?zs" by (rule frag_list_msg [OF d(2)])
  have z: "set ?zs \<inter> (set (OkToMatchRecvFrags ?d t) \<union> set (AheadOfSeqRecvFrags ?d t)) = {}" for t
    using ahead_msg_apart [OF inv, of q s t] by (simp add: drop_ahead_def)
  have diff: "seq_of c g < q" if "g \<in> set (OkToMatchRecvFrags c s)" for g using d(4) [OF that] q by simp
  let ?p = "put_ok s ?zs (q + 1) ?d"
  have seq: "seq_of ?p g = seq_of c g" for g by (simp add: put_ok_def drop_ahead_def)
  have fl: "frag_list ?p s UNMATCHEDFRAGS (OkToMatchRecvFrags c s @ ?zs)"
  proof (rule put_ok_frag_list_new [OF d(1)])
    show "frag_list ?p s UNMATCHEDFRAGS ?zs" by (rule frag_list_requeue [OF _ zs]) (simp add: put_ok_def drop_ahead_def)
    show "frags ?p g = frags c g" if "g \<in> set (OkToMatchRecvFrags c s)" for g
      using z [of s] that by (auto simp: put_ok_def drop_ahead_def)
    show "seq_of ?p g \<noteq> seq_of ?p h" if "g \<in> set (OkToMatchRecvFrags c s)" "h \<in> set ?zs" for g h
      unfolding seq using diff [OF that(1)] that(2) by simp
    show "set (OkToMatchRecvFrags c s) \<inter> set ?zs = {}" using z [of s] by (auto simp: drop_ahead_def)
  qed
  have same: "\<not> accepts c (frags c g) a" if "g \<in> set ?zs" "a \<in> set (posted s c)" for g a
    using none [OF that(2)] frag_list_tags [OF d(2) f(1), of g] that(1) f(2) by (simp add: accepts_def)
  show ?thesis unfolding eq
    by (rule put_ok_inv [OF drop_ahead_inv [OF inv] z, of q])
      (use fl f q d(3) [of s] d(5) [of _ s] d(9) [of s] same in \<open>force simp: drop_ahead_def matched_list_def accepts_def\<close>)+
qed

text \<open>The receive \<open>a\<close> gets all fragments of the message.\<close>

lemma round_matched:
  assumes inv: "weak_inv c" and q: "q = next_expected_isendSeqs c s" and f: "f \<in> set (AheadOfSeqRecvFrags c s)" "seq_of c f = q"
    and a: "a \<in> set (posted s c)" and c1: "c1 = after_match t (frags c f) (Some a) c"
  shows "\<exists>fin c'. serve_loop (remove_ahead s) a (of_msg c q (AheadOfSeqRecvFrags c s)) c1 = Some (fin, c')
    \<and> weak_inv (inc_expected s c') \<and> AheadOfSeqRecvFrags c' = (AheadOfSeqRecvFrags c)(s := not_msg c q (AheadOfSeqRecvFrags c s))
    \<and> serves a s (set (of_msg c q (AheadOfSeqRecvFrags c s))) (sum_list (map (frag_len c) (of_msg c q (AheadOfSeqRecvFrags c s)))) fin c1 c'
    \<and> OkToMatchRecvFrags c' = OkToMatchRecvFrags c"
proof -
  let ?xs = "AheadOfSeqRecvFrags c s" let ?zs = "of_msg c q ?xs"
  note d = src_invD [OF weak_invD(2) [OF inv]]
  have src: "f_src (frags c f) = s" using frag_where(2) [OF inv f(1)] by simp
  note ok = weak_invD(1) [OF inv] and a' = a [folded src]
  note am = after_match_facts [OF ok a', of t, unfolded src, folded c1] and nm = new_match [OF ok a', of t, unfolded src, folded c1]
  from ahq.serve_loop_ok [OF nm(1,2), of s ?zs] obtain n fin c' where sl: "serve_loop (remove_ahead s) a ?zs c1 = Some (fin, c')" "n \<le> length ?zs"
    "serves a s (set (take n ?zs)) (sum_list (map (frag_len c1) (take n ?zs))) fin c1 c'"
    "AheadOfSeqRecvFrags c' s = fold remove1 (take n ?zs) (AheadOfSeqRecvFrags c1 s)"
    "(OkToMatchRecvFrags c', (AheadOfSeqRecvFrags c')(s := [])) = (OkToMatchRecvFrags c1, (AheadOfSeqRecvFrags c1)(s := []))"
    "messageDone (recvs c' a) = fin" "\<not> fin \<longrightarrow> n = length ?zs" "?zs \<noteq> [] \<longrightarrow> 0 < n" by blast
  have len: "frag_len c1 = frag_len c" using am(7) by (simp add: frag_len_def fun_eq_iff)
  have n: "n = length ?zs"
  proof (cases fin)
    case True
    have "counted c ?zs (f_msgLength (frags c f))" using frag_listD(3) [OF d(2) f(1)] f(2) by simp
    moreover have "f_msgLength (frags c f) \<le> sum_list (map (frag_len c) (take n ?zs))"
      using sl(3) True nm(3,4) by (simp add: serves_def len)
    moreover have "0 < n" using sl(8) f by (metis (mono_tags, lifting) empty_iff list.set(1) mem_Collect_eq set_of_msg)
    ultimately show ?thesis using counted_all_taken sl(2) by blast
  qed (use sl(7) in simp)
  have sv: "serves a s (set ?zs) (sum_list (map (frag_len c) ?zs)) fin c1 c'" using sl(3) n len by simp
  have ahead: "AheadOfSeqRecvFrags c' = (AheadOfSeqRecvFrags c)(s := not_msg c q ?xs)"
  proof
    fix u
    show "AheadOfSeqRecvFrags c' u = ((AheadOfSeqRecvFrags c)(s := not_msg c q ?xs)) u"
    proof (cases "u = s")
      case True
      then show ?thesis using sl(4) n fold_remove_msg [OF frag_list_distinct [OF d(2) [of s]], of c q] am(6) by simp
    next
      case False
      from sl(5) have "((AheadOfSeqRecvFrags c')(s := [])) u = ((AheadOfSeqRecvFrags c1)(s := [])) u" by simp
      with False show ?thesis by (simp add: am(6))
    qed
  qed
  let ?b = "inc_expected s (after_match t (frags c f) (Some a) (drop_ahead s q c))"
  have b: "?b = (inc_expected s c1)\<lparr>AheadOfSeqRecvFrags := (AheadOfSeqRecvFrags c)(s := not_msg c q ?xs)\<rparr>"
    using c1 by (simp add: after_match_def drop_ahead_def inc_expected_def take_specific_def take_wild_def append_matched_def upd_recv_def)
  have pd: "a \<in> set (posted s (drop_ahead s q c))" using a by (simp add: drop_ahead_def)
  have wb: "weak_inv ?b"
    by (rule match_next_inv [OF drop_ahead_inv [OF inv] _ pd]) (use src q f(2) in \<open>auto simp: no_turn_def drop_ahead_def\<close>)
  have svb: "serves a s (set ?zs) (sum_list (map (frag_len c) ?zs)) fin ?b (inc_expected s c')" unfolding b using serves_inc [OF sv] by simp
  have "weak_inv (inc_expected s c')"
  proof (rule serves_inv [OF wb _ svb])
    show "a \<in> set (MatchedRecv ?b s)" using nm(6) by (simp add: b)
    show "same_lists ?b (inc_expected s c')" using sl(5) ahead am(5) by (simp add: b same_lists_def)
    show "set ?zs \<inter> (set (OkToMatchRecvFrags ?b u) \<union> set (AheadOfSeqRecvFrags ?b u)) = {}" for u
      using ahead_msg_apart [OF inv, of q s u] by (simp add: b am(5))
  qed (use sl(6) in simp)
  with sl(1,5) sv ahead am(5) show ?thesis by auto
qed

text \<open>What a round leaves for the other processes.\<close>

definition elsewhere_same :: "nat \<Rightarrow> comm_q \<Rightarrow> comm_q \<Rightarrow> bool" where
  "elsewhere_same s c c' \<longleftrightarrow> (\<forall>t. t \<noteq> s \<longrightarrow> AheadOfSeqRecvFrags c' t = AheadOfSeqRecvFrags c t
     \<and> next_expected_isendSeqs c' t = next_expected_isendSeqs c t) \<and> (\<forall>g. seq_of c' g = seq_of c g)"

lemma elsewhere_trans: "elsewhere_same s c c' \<Longrightarrow> elsewhere_same s c' c'' \<Longrightarrow> elsewhere_same s c c''"
  by (simp add: elsewhere_same_def)

lemma elsewhere_turn: "elsewhere_same s c c' \<Longrightarrow> t \<noteq> s \<Longrightarrow> no_turn t c \<Longrightarrow> no_turn t c'"
  by (simp add: elsewhere_same_def no_turn_def)

lemma serves_seq: "serves a s F n fin c c' \<Longrightarrow> seq_of c' g = seq_of c g"
  using same_frag_fields(3) [of "frags c g" "frags c' g"] by (simp add: serves_def keeps_def)

lemma after_match_stay:
  assumes ok: "posted_ok c" and a: "a \<in> set (posted (f_src fd) c)"
  shows "others_stay c (after_match t fd (Some a) c)" "a \<in> listed (after_match t fd (Some a) c)"
proof -
  note f = after_match_facts [OF ok a, of t]
  have al: "a \<in> listed c" using a by (auto simp: listed_def)
  have w: "set (PostedWildRecv (after_match t fd (Some a) c)) \<subseteq> listed c" using f(1) set_remove1_subset [of a] by (auto simp: listed_def)
  have p: "set (PostedSpecificRecv (after_match t fd (Some a) c) u) \<subseteq> listed c" for u using f(2) [of u] set_remove1_subset [of a] by (auto simp: listed_def)
  have m: "set (MatchedRecv (after_match t fd (Some a) c) u) \<subseteq> listed c" for u using f(4) al by (auto simp: listed_def)
  have "listed (after_match t fd (Some a) c) \<subseteq> listed c" unfolding listed_def [of "after_match t fd (Some a) c"] using w p m by blast
  moreover have "recvs (after_match t fd (Some a) c) b = recvs c b" if "b \<notin> listed c" for b using f(3) al that by auto
  ultimately show "others_stay c (after_match t fd (Some a) c)" by (simp add: others_stay_def)
  show "a \<in> listed (after_match t fd (Some a) c)" using f(4) by (auto simp: listed_def)
qed

lemma ahead_round:
  assumes inv: "weak_inv c" and turn: "\<not> no_turn s c"
  shows "\<exists>c'. ahead_find s (next_expected_isendSeqs c s) (AheadOfSeqRecvFrags c s) c = Some (True, c') \<and> weak_inv c'
    \<and> length (AheadOfSeqRecvFrags c' s) < length (AheadOfSeqRecvFrags c s) \<and> others_stay c c' \<and> elsewhere_same s c c'"
proof -
  let ?q = "next_expected_isendSeqs c s" and ?xs = "AheadOfSeqRecvFrags c s"
  from turn obtain y where y: "y \<in> set ?xs" "seq_of c y = ?q" unfolding no_turn_def by (metis imageE)
  then obtain ys f fs where xs: "?xs = ys @ f # fs" and f: "seq_of c f = ?q" and ys: "\<forall>y \<in> set ys. seq_of c y \<noteq> ?q"
    using split_list_first_prop [of ?xs "\<lambda>f. seq_of c f = ?q"] by blast
  have fin: "f \<in> set ?xs" using xs by simp
  have src: "f_src (frags c f) = s" using frag_where(2) [OF inv fin] by simp
  have zs: "of_msg c ?q ?xs = f # of_msg c ?q fs" using ys f unfolding xs by (auto simp: of_msg_def filter_empty_conv)
  have nm: "length (not_msg c ?q ?xs) < length ?xs" using fin f unfolding not_msg_def by (intro length_filter_less) auto
  note ok = weak_invD(1) [OF inv]
  from posted_search [OF ok, of "frags c f"] obtain m t where m: "checkPostedRecvListForMatch (frags c f) c = Some (m, after_match t (frags c f) m c)"
    "least_of (accepts c (frags c f)) (posted_at c) (set (posted s c)) m" unfolding src by blast
  show ?thesis
  proof (cases m)
    case None
    have run: "ahead_find s ?q ?xs c = Some (True, inc_expected s (move_ok s (of_msg c ?q ?xs) c))"
      using ahead_find_skip [OF ys, of s "f # fs"] f m(1) None of_msg_move [of s "[f]" c ?q fs] unfolding zs unfolding xs
      by (simp add: after_match_def place_frag_def move_ok_one ahead_rest_None move_ok_Cons)
    have w: "weak_inv (inc_expected s (move_ok s (of_msg c ?q ?xs) c))"
      by (rule round_unmatched [OF inv refl fin f]) (use m(2) None in \<open>simp add: least_of_def\<close>)
    have l: "AheadOfSeqRecvFrags (inc_expected s (move_ok s (of_msg c ?q ?xs) c)) s = not_msg c ?q ?xs"
      using fold_remove_msg [OF frag_list_distinct [OF src_invD(2) [OF weak_invD(2) [OF inv, of s]]], of c ?q] by (simp add: move_ok_def)
    show ?thesis
      by (intro exI conjI, rule run, rule w, unfold l, rule nm)
        (simp_all add: others_stay_def listed_def elsewhere_same_def move_ok_def)
  next
    case (Some a)
    have a: "a \<in> set (posted s c)" using m(2) Some by (simp add: least_of_def)
    define c1 where "c1 = after_match t (frags c f) (Some a) c"
    from round_matched [OF inv refl fin f a c1_def] obtain fi c' where r: "serve_loop (remove_ahead s) a (of_msg c ?q ?xs) c1 = Some (fi, c')"
      "weak_inv (inc_expected s c')" "AheadOfSeqRecvFrags c' = (AheadOfSeqRecvFrags c)(s := not_msg c ?q ?xs)"
      "serves a s (set (of_msg c ?q ?xs)) (sum_list (map (frag_len c) (of_msg c ?q ?xs))) fi c1 c'" by blast
    note st = after_match_stay [OF ok, of a "frags c f" t, unfolded src, OF a, folded c1_def]
    note am = after_match_facts [OF ok, of a "frags c f" t, unfolded src, OF a, folded c1_def]
    have om: "of_msg c1 ?q fs = of_msg c ?q fs" using am(7) by (simp add: of_msg_def)
    have place: "place_frag s (Some a) f (remove_ahead s f c1) = place_frag 0 (Some a) f (remove_ahead s f c1)" by (simp add: place_frag_def)
    have "of_msg c2 ?q fs = of_msg c ?q fs" if "place_frag 0 (Some a) f (remove_ahead s f c1) = Some (b, c2)" for b c2
      using of_msg_cong [of c1 c2] place_frags [OF that] om by simp
    then have run: "ahead_find s ?q ?xs c = Some (True, inc_expected s c')"
      using ahead_find_skip [OF ys, of s "f # fs"] f m(1) Some r(1) place unfolding zs unfolding xs
      by (cases "place_frag 0 (Some a) f (remove_ahead s f c1)")
        (auto simp: c1_def [symmetric] ahead_rest_Some split: if_splits)
    have "others_stay c (inc_expected s c')"
      using others_stay_trans [OF st(1) serves_stay [OF r(4) st(2)]] by (simp add: others_stay_def listed_def)
    moreover have "elsewhere_same s c (inc_expected s c')"
      using serves_seq [OF r(4)] am(7,10) r(3,4) by (simp add: elsewhere_same_def serves_def keeps_def)
    ultimately show ?thesis using run r(2,3) nm by auto
  qed
qed

subsection \<open>The loop\<close>

lemma ahead_find_none: "\<forall>x \<in> set xs. seq_of c x \<noteq> q \<Longrightarrow> ahead_find s q xs c = Some (False, c)"
  by (induction xs) auto

lemma ahead_ok:
  assumes "weak_inv c"
  shows "\<exists>c'. matchFragsInAheadOfSequenceList s c = Some c' \<and> weak_inv c' \<and> no_turn s c' \<and> others_stay c c' \<and> elsewhere_same s c c'"
  using assms
proof (induction "length (AheadOfSeqRecvFrags c s)" arbitrary: c rule: less_induct)
  case less
  show ?case
  proof (cases "no_turn s c")
    case True
    then have "\<forall>x \<in> set (AheadOfSeqRecvFrags c s). seq_of c x \<noteq> next_expected_isendSeqs c s" unfolding no_turn_def by (metis imageI)
    from ahead_find_none [OF this, of s] have "matchFragsInAheadOfSequenceList s c = Some c"
      by (subst matchFragsInAheadOfSequenceList.simps) simp
    with True less.prems show ?thesis by (auto simp: others_stay_def elsewhere_same_def)
  next
    case False
    from ahead_round [OF less.prems False] obtain c1 where c1: "ahead_find s (next_expected_isendSeqs c s) (AheadOfSeqRecvFrags c s) c = Some (True, c1)"
      "weak_inv c1" "length (AheadOfSeqRecvFrags c1 s) < length (AheadOfSeqRecvFrags c s)" "others_stay c c1" "elsewhere_same s c c1" by blast
    from less.hyps [OF c1(3,2)] obtain c' where c': "matchFragsInAheadOfSequenceList s c1 = Some c'" "weak_inv c'" "no_turn s c'"
      "others_stay c1 c'" "elsewhere_same s c1 c'" by blast
    have "matchFragsInAheadOfSequenceList s c = Some c'"
      using c1(1,3) c'(1) by (subst matchFragsInAheadOfSequenceList.simps) auto
    with c' others_stay_trans [OF c1(4) c'(4)] elsewhere_trans [OF c1(5) c'(5)] show ?thesis by blast
  qed
qed

end
