(* ===== verification/Match_Frag.thy ===== *)
theory Match_Frag
  imports Match_Ahead
begin

section \<open>A fragment comes in: the invariant\<close>

subsection \<open>Fragments that fit\<close>

text \<open>A fragment is on no list; those of the same message that are waiting agree with it and leave room for its bytes.\<close>

definition fresh_frag :: "nat \<Rightarrow> comm_q \<Rightarrow> bool" where
  "fresh_frag f c \<longleftrightarrow> (\<forall>t. f \<notin> set (OkToMatchRecvFrags c t) \<union> set (AheadOfSeqRecvFrags c t))"

definition fits :: "comm_q \<Rightarrow> nat \<Rightarrow> nat list \<Rightarrow> bool" where
  "fits c f xs \<longleftrightarrow> (\<forall>g \<in> set xs. seq_of c g = seq_of c f \<longrightarrow>
       f_tag (frags c g) = f_tag (frags c f) \<and> f_msgLength (frags c g) = f_msgLength (frags c f))
     \<and> counted c (of_msg c (seq_of c f) xs @ [f]) (f_msgLength (frags c f))"

definition arrive_legal :: "nat \<Rightarrow> comm_q \<Rightarrow> bool" where
  "arrive_legal f c \<longleftrightarrow> (let s = f_src (frags c f); q = seq_of c f in
     s < groupSize c \<and> fresh_frag f c
     \<and> (if q < next_expected_isendSeqs c s
        then (\<exists>a \<in> set (MatchedRecv c s). r_isendSeq (recvs c a) = q)
             \<or> (q \<in> seq_of c ` set (OkToMatchRecvFrags c s) \<and> fits c f (OkToMatchRecvFrags c s))
        else fits c f (AheadOfSeqRecvFrags c s)))"

lemma frag_list_snoc:
  assumes fl: "frag_list c s w xs" and fr: "\<And>g. g \<in> set xs \<Longrightarrow> frags c' g = frags c g" and f: "f \<notin> set xs"
    "frags c' f = (frags c f)\<lparr>f_queue := w\<rparr>" "f_src (frags c f) = s" "fits c f xs"
  shows "frag_list c' s w (xs @ [f])"
proof (rule frag_listI)
  show "distinct (xs @ [f])" using frag_list_distinct [OF fl] f(1) by simp
  have fl': "frag_list c' s w xs" using fl frag_list_cong [OF fr, of xs] by simp
  have om: "of_msg c' q xs = of_msg c q xs" for q unfolding of_msg_def using fr by (intro filter_cong refl) simp
  have len: "frag_len c' g = frag_len c g" if "g \<in> set (xs @ [f])" for g using that fr f(2) by (auto simp: frag_len_def)
  have cnt: "counted c' (of_msg c (seq_of c f) xs @ [f]) (f_msgLength (frags c f))"
    using f(4) counted_cong [of "of_msg c (seq_of c f) xs @ [f]" c' c] len by (auto simp: fits_def)
  show "counted c' (of_msg c' (seq_of c' g) (xs @ [f])) (f_msgLength (frags c' g)) \<and> f_src (frags c' g) = s \<and> f_queue (frags c' g) = w"
    if "g \<in> set (xs @ [f])" for g
  proof (cases "seq_of c' g = seq_of c f")
    case True
    then have o: "of_msg c' (seq_of c' g) (xs @ [f]) = of_msg c (seq_of c f) xs @ [f]" using f(2) by (simp add: of_msg_def om [unfolded of_msg_def])
    show ?thesis
    proof (cases "g = f")
      case False
      then have g: "g \<in> set xs" using that by simp
      moreover have "f_msgLength (frags c g) = f_msgLength (frags c f)" using f(4) g True fr [OF g] by (simp add: fits_def)
      ultimately show ?thesis using o cnt fr [OF g] frag_listD(1,2) [OF fl g] by simp
    qed (use o cnt f(2,3) in simp)
  next
    case False
    then have g: "g \<in> set xs" using that f(2) by auto
    have "of_msg c' (seq_of c' g) (xs @ [f]) = of_msg c' (seq_of c' g) xs" using False f(2) by (simp add: of_msg_def)
    then show ?thesis using frag_listD [OF fl' g] by simp
  qed
  show "f_tag (frags c' g) = f_tag (frags c' h) \<and> f_msgLength (frags c' g) = f_msgLength (frags c' h)"
    if "g \<in> set (xs @ [f])" "h \<in> set (xs @ [f])" "seq_of c' g = seq_of c' h" for g h
  proof -
    note gh = that
    have *: "f_tag (frags c' g) = f_tag (frags c' f) \<and> f_msgLength (frags c' g) = f_msgLength (frags c' f)"
      if "g \<in> set xs" "seq_of c' g = seq_of c' f" for g using that f(2,4) fr [OF that(1)] by (simp add: fits_def)
    consider "g = f" "h = f" | "g \<in> set xs" "h = f" | "g = f" "h \<in> set xs" | "g \<in> set xs" "h \<in> set xs" using gh(1,2) by auto
    then show ?thesis
    proof cases
      case 2
      then show ?thesis using * [of g] gh(3) by simp
    next
      case 3
      then show ?thesis using * [of h] gh(3) by simp
    next
      case 4
      then show ?thesis using frag_list_tags [OF fl' 4 gh(3)] by simp
    qed simp
  qed
qed

lemma append_ok_put: "append_ok s f c = put_ok s [f] (next_expected_isendSeqs c s) c"
  by (simp add: append_ok_def set_fqueue_def put_ok_def fun_eq_iff)

lemma append_inc_put: "inc_expected s (append_ok s f c) = put_ok s [f] (next_expected_isendSeqs c s + 1) c"
  by (simp add: append_ok_def set_fqueue_def put_ok_def inc_expected_def fun_eq_iff)

lemma put_one_frag_list:
  assumes inv: "weak_inv c" and f: "fresh_frag f c" "f_src (frags c f) = s" and fits: "fits c f (OkToMatchRecvFrags c s)"
  shows "frag_list (put_ok s [f] N c) s UNMATCHEDFRAGS (OkToMatchRecvFrags c s @ [f])"
  by (rule frag_list_snoc [OF src_invD(1) [OF weak_invD(2) [OF inv]]]) (use f fits in \<open>auto simp: put_ok_def fresh_frag_def\<close>)

lemma fits_none: "of_msg c (seq_of c f) xs = [] \<Longrightarrow> frag_len c f \<le> f_msgLength (frags c f) \<Longrightarrow> fits c f xs"
  by (auto simp: fits_def counted_def of_msg_def filter_empty_conv)

lemma fits_len: "fits c f xs \<Longrightarrow> frag_len c f \<le> f_msgLength (frags c f)"
  by (auto simp: fits_def counted_def)

subsection \<open>Part of an earlier message\<close>

lemma early_frag_ok:
  assumes inv: "match_inv c" and legal: "arrive_legal f c" and early: "seq_of c f < next_expected_isendSeqs c (f_src (frags c f))"
  shows "\<exists>c'. match_frag f c = Some c' \<and> match_inv c'"
proof -
  let ?s = "f_src (frags c f)" and ?q = "seq_of c f"
  have w: "weak_inv c" and nt: "no_turn t c" for t using inv by (simp_all add: match_inv_def)
  note d = src_invD [OF weak_invD(2) [OF w]]
  have fr: "fresh_frag f c" "?s < groupSize c" using legal by (simp_all add: arrive_legal_def Let_def)
  show ?thesis
  proof (cases "isThisMissingFrag (frags c f) c")
    case (Some a)
    then have a: "a \<in> set (MatchedRecv c ?s)" by (auto simp: isThisMissingFrag_def dest: find_in)
    then have m: "matched_to a ?s c" "\<not> messageDone (recvs c a)" using d(3) [of ?s] by (auto simp: matched_list_def)
    from place_serves [OF m, of 0 f] obtain fin c' where c': "place_frag 0 (Some a) f c = Some (fin, c')"
      "serves a ?s {f} (frag_len c f) fin c c'" "same_lists c c'" "messageDone (recvs c' a) = fin" by blast
    have run: "match_frag f c = Some c'" using Some early c'(1) by (auto simp: match_frag_def place_frag_def Let_def split: prod.splits)
    have "weak_inv c'" by (rule serves_inv [OF w a c'(2,3)]) (use c'(4) fr(1) in \<open>auto simp: fresh_frag_def\<close>)
    moreover have "no_turn t c'" for t using nt [of t] c'(3) serves_seq [OF c'(2)] c'(2) by (simp add: no_turn_def same_lists_def serves_def keeps_def)
    ultimately show ?thesis using run by (simp add: match_inv_def)
  next
    case None
    have nomatch: "r_isendSeq (recvs c a) \<noteq> ?q" if "a \<in> set (MatchedRecv c ?s)" for a
      using None that d(3) [of ?s] by (auto simp: isThisMissingFrag_def find_None_iff matched_list_def matched_to_def)
    then have l: "?q \<in> seq_of c ` set (OkToMatchRecvFrags c ?s)" "fits c f (OkToMatchRecvFrags c ?s)"
      using legal early by (auto simp: arrive_legal_def Let_def)
    then obtain g where g: "g \<in> set (OkToMatchRecvFrags c ?s)" "seq_of c g = ?q" by (metis imageE)
    have run: "match_frag f c = Some (put_ok ?s [f] (next_expected_isendSeqs c ?s) c)"
      using None early by (simp add: match_frag_def Let_def append_ok_put)
    have acc: "\<not> accepts c (frags c f) a" if "a \<in> set (posted ?s c)" for a
      using d(8) [OF g(1) that] l(2) g by (simp add: accepts_def fits_def)
    have wk: "weak_inv (put_ok ?s [f] (next_expected_isendSeqs c ?s) c)"
      by (rule put_ok_inv [OF w _ _ put_one_frag_list [OF w fr(1) refl l(2)], where q = "seq_of c f"])
        (use fr early d(5) [of _ ?s] l(1) nomatch acc in \<open>auto simp: fresh_frag_def\<close>)
    moreover have "no_turn t (put_ok ?s [f] (next_expected_isendSeqs c ?s) c)" for t using nt [of t] by (auto simp: no_turn_def put_ok_def)
    ultimately show ?thesis using run by (simp add: match_inv_def)
  qed
qed

subsection \<open>Ahead of its turn\<close>

lemma late_frag_ok:
  assumes inv: "match_inv c" and legal: "arrive_legal f c" and late: "next_expected_isendSeqs c (f_src (frags c f)) < seq_of c f"
  shows "\<exists>c'. match_frag f c = Some c' \<and> match_inv c'"
proof -
  let ?s = "f_src (frags c f)" and ?c = "append_ahead (f_src (frags c f)) f c"
  have w: "weak_inv c" and nt: "no_turn t c" for t using inv by (simp_all add: match_inv_def)
  note d = src_invD [OF weak_invD(2) [OF w]]
  have fr: "\<And>t. f \<notin> set (OkToMatchRecvFrags c t)" "\<And>t. f \<notin> set (AheadOfSeqRecvFrags c t)" "?s < groupSize c" "fits c f (AheadOfSeqRecvFrags c ?s)"
    using legal late by (auto simp: arrive_legal_def Let_def fresh_frag_def)
  have run: "match_frag f c = Some ?c" using late by (simp add: match_frag_def Let_def)
  have g: "frags ?c g = frags c g" if "g \<noteq> f" for g using that by (simp add: append_ahead_def set_fqueue_def)
  have seq: "seq_of ?c g = seq_of c g" for g by (simp add: append_ahead_def set_fqueue_def)
  have old: "g \<noteq> f" if "g \<in> set (OkToMatchRecvFrags c t) \<union> set (AheadOfSeqRecvFrags c t)" for g t using that fr(1,2) [of t] by auto
  have "src_inv t ?c" for t
  proof (cases "t = ?s")
    case False
    then show ?thesis
      by (intro src_inv_cong [OF _ _ _ _ _ _ _ _ weak_invD(2) [OF w, of t]]) (use g old in \<open>auto simp: append_ahead_def set_fqueue_def\<close>)
  next
    case True
    have fa: "frag_list ?c ?s AHEADOFSEQUENCEFRAGS (AheadOfSeqRecvFrags c ?s @ [f])"
      by (rule frag_list_snoc [OF d(2)]) (use g old [of _ ?s] fr in \<open>auto simp: append_ahead_def set_fqueue_def\<close>)
    have fo: "frag_list ?c ?s UNMATCHEDFRAGS (OkToMatchRecvFrags c ?s)"
      using d(1) [of ?s] frag_list_cong [of "OkToMatchRecvFrags c ?s" ?c c] g old [of _ ?s] by simp
    have ml: "matched_list ?c ?s (MatchedRecv c ?s)" by (rule matched_list_cong [OF _ _ d(3)]) (auto simp: append_ahead_def set_fqueue_def)
    have acc: "accepts ?c (frags ?c h) a = accepts c (frags c h) a" for h a by (simp add: accepts_def append_ahead_def set_fqueue_def)
    show ?thesis unfolding True
    proof (rule src_invI)
      show "in_order {} (map (seq_of ?c) (OkToMatchRecvFrags ?c ?s))" using d(6) [of ?s] seq by (simp add: append_ahead_def set_fqueue_def)
      show "next_expected_isendSeqs ?c ?s \<le> seq_of ?c h" if "h \<in> set (AheadOfSeqRecvFrags ?c ?s)" for h
        unfolding seq using that d(5) [of h ?s] late by (auto simp: append_ahead_def set_fqueue_def)
      show "\<not> accepts ?c (frags ?c h) a" if "h \<in> set (OkToMatchRecvFrags ?c ?s)" "a \<in> set (posted ?s ?c)" for h a
        unfolding acc using d(8) [of h ?s a] that by (auto simp: append_ahead_def set_fqueue_def)
      show "seq_of ?c h < next_expected_isendSeqs ?c ?s" if "h \<in> set (OkToMatchRecvFrags ?c ?s)" for h
        unfolding seq using that d(4) [of h ?s] by (auto simp: append_ahead_def set_fqueue_def)
      show "r_isendSeq (recvs ?c a) \<noteq> seq_of ?c h" if "h \<in> set (OkToMatchRecvFrags ?c ?s)" "a \<in> set (MatchedRecv ?c ?s)" for h a
        unfolding seq using that d(7) [of h ?s a] by (auto simp: append_ahead_def set_fqueue_def)
    qed (use fa fo ml fr(3) in \<open>simp_all add: append_ahead_def set_fqueue_def\<close>)
  qed
  moreover have "posted_ok ?c" using weak_invD(1) [OF w] by (simp add: posted_ok_def posted_list_def append_ahead_def set_fqueue_def)
  moreover have "no_turn t ?c" for t using nt [of t] late by (auto simp: no_turn_def append_ahead_def set_fqueue_def)
  ultimately show ?thesis using run by (simp add: match_inv_def weak_inv_def)
qed

subsection \<open>The message expected next\<close>

lemma search_none:
  assumes "\<And>g. g \<in> set fs \<Longrightarrow> f_queue (frags c g) = UNMATCHEDFRAGS \<and> seq_of c g \<noteq> q"
  shows "search_loop s q a fs c = Some (False, c)"
  using assms by (induction fs) auto

text \<open>A receive on no list may be marked as complete.\<close>

lemma mark_unlisted:
  assumes inv: "match_inv c" and a: "a \<notin> listed c" "\<not> messageDone (recvs c a)"
  shows "\<exists>c'. mark_done True a c = Some c' \<and> match_inv c'"
proof -
  let ?c = "upd_recv a (\<lambda>r. r\<lparr>messageDone := True\<rparr>) c"
  have w: "weak_inv c" and nt: "no_turn t c" for t using inv by (simp_all add: match_inv_def)
  have n: "a \<notin> set (PostedWildRecv c)" "\<And>t. a \<notin> set (PostedSpecificRecv c t)" "\<And>t. a \<notin> set (MatchedRecv c t)" using a(1) by (auto simp: listed_def)
  have "posted_ok ?c" by (rule posted_ok_remove [OF _ _ _ _ weak_invD(1) [OF w], of _ a]) (use n in \<open>simp_all add: remove1_idem\<close>)
  moreover have "src_inv t ?c" for t by (rule src_inv_cong [OF _ _ _ _ _ _ _ _ weak_invD(2) [OF w, of t]]) (use n in auto)
  moreover have "no_turn t ?c" for t using nt [of t] by (simp add: no_turn_def)
  ultimately show ?thesis using a(2) by (simp add: mark_done_def match_inv_def weak_inv_def)
qed

lemma ahead_part:
  assumes inv: "weak_inv c" and nt: "\<And>t. t \<noteq> s \<Longrightarrow> no_turn t c"
  shows "\<exists>c'. (if AheadOfSeqRecvFrags c s \<noteq> [] then matchFragsInAheadOfSequenceList s c else Some c) = Some c' \<and> match_inv c' \<and> others_stay c c'"
proof (cases "AheadOfSeqRecvFrags c s = []")
  case True
  then have "no_turn s c" by (simp add: no_turn_def)
  with nt have "no_turn t c" for t by (cases "t = s") auto
  with True inv show ?thesis by (simp add: match_inv_def others_stay_def)
next
  case False
  from ahead_ok [OF inv, of s] obtain c' where c': "matchFragsInAheadOfSequenceList s c = Some c'" "weak_inv c'" "no_turn s c'"
    "others_stay c c'" "elsewhere_same s c c'" by blast
  have "no_turn t c'" for t using c'(3) elsewhere_turn [OF c'(5) _ nt] by (cases "t = s") auto
  with False c' show ?thesis by (simp add: match_inv_def)
qed

lemma expected_unmatched:
  assumes inv: "match_inv c" and legal: "arrive_legal f c" and s: "s = f_src (frags c f)" and q: "seq_of c f = next_expected_isendSeqs c s"
    and none: "\<And>a. a \<in> set (posted s c) \<Longrightarrow> \<not> accepts c (frags c f) a"
  shows "weak_inv (inc_expected s (append_ok s f c))"
proof -
  have w: "weak_inv c" and nt: "no_turn s c" using inv by (simp_all add: match_inv_def)
  note d = src_invD [OF weak_invD(2) [OF w]]
  have fr: "fresh_frag f c" "s < groupSize c" "fits c f (AheadOfSeqRecvFrags c s)" using legal q s by (simp_all add: arrive_legal_def Let_def)
  have new: "seq_of c g \<noteq> seq_of c f" if "g \<in> set (OkToMatchRecvFrags c s)" for g using d(4) [OF that] q by simp
  then have fits: "fits c f (OkToMatchRecvFrags c s)"
    by (intro fits_none fits_len [OF fr(3)]) (simp add: of_msg_def filter_empty_conv)
  have late: "next_expected_isendSeqs c s + 1 \<le> seq_of c g" if "g \<in> set (AheadOfSeqRecvFrags c s)" for g
  proof -
    have "seq_of c g \<noteq> next_expected_isendSeqs c s" using nt that unfolding no_turn_def by (metis imageI)
    with d(5) [OF that] show ?thesis by simp
  qed
  have old: "r_isendSeq (recvs c a) \<noteq> seq_of c f" if "a \<in> set (MatchedRecv c s)" for a using d(3) [of s] that q by (auto simp: matched_list_def)
  show ?thesis unfolding append_inc_put
    by (rule put_ok_inv [OF w _ _ put_one_frag_list [OF w fr(1) s [symmetric] fits], where q = "seq_of c f"])
      (use fr late q old none in \<open>auto simp: fresh_frag_def\<close>)
qed

lemma expected_matched:
  assumes inv: "match_inv c" and legal: "arrive_legal f c" and s: "s = f_src (frags c f)" and q: "seq_of c f = next_expected_isendSeqs c s"
    and a: "a \<in> set (posted s c)" and c1: "c1 = after_match t (frags c f) (Some a) c" and run: "ProcessMatchedData a f c1 = (fin, c2)"
  shows "weak_inv (inc_expected s c2)" "fin \<Longrightarrow> a \<notin> listed c2 \<and> \<not> messageDone (recvs c2 a)"
    "\<not> fin \<Longrightarrow> SearchForFragsWithSpecifiedISendSeqNum a c2 = Some (False, c2)"
    "\<And>t. t \<noteq> s \<Longrightarrow> no_turn t (inc_expected s c2)"
proof -
  have w: "weak_inv c" and nt: "no_turn t c" for t using inv by (simp_all add: match_inv_def)
  note d = src_invD [OF weak_invD(2) [OF w]] and ok = weak_invD(1) [OF w] and a' = a [unfolded s]
  note am = after_match_facts [OF ok a', of t, folded s c1] and nm = new_match [OF ok a', of t, folded s c1]
  from process_serves [OF run nm(1)] have sv: "serves a s {f} (frag_len c1 f) fin c1 c2" "same_lists c1 c2"
    "messageDone (recvs c2 a) = messageDone (recvs c1 a)" by auto
  have fr: "fresh_frag f c" using legal by (simp add: arrive_legal_def Let_def)
  have w1: "weak_inv (inc_expected s c1)" unfolding c1 by (rule match_next_inv [OF w s a q nt])
  show w2: "weak_inv (inc_expected s c2)"
    by (rule serves_inv [OF w1 _ serves_inc [OF sv(1)]]) (use nm(2,6) sv(2,3) fr am(5,6) in \<open>auto simp: same_lists_def fresh_frag_def\<close>)
  have k: "PostedWildRecv c2 = PostedWildRecv c1" "PostedSpecificRecv c2 = PostedSpecificRecv c1" "same_req (recvs c1 a) (recvs c2 a)"
    "MatchedRecv c2 s = (if fin then remove1 a (MatchedRecv c1 s) else MatchedRecv c1 s)" "\<And>t. t \<noteq> s \<Longrightarrow> MatchedRecv c2 t = MatchedRecv c1 t"
    "next_expected_isendSeqs c2 = next_expected_isendSeqs c1" using sv(1) by (auto simp: serves_def keeps_def)
  show "a \<notin> listed c2 \<and> \<not> messageDone (recvs c2 a)" if fin
  proof -
    have "a \<notin> set (posted u c1)" "a \<in> set (MatchedRecv c1 u) \<longleftrightarrow> u = s" for u using matched_not_posted [OF w1, of a s] nm(6) by auto
    moreover have "distinct (MatchedRecv c1 s)" using src_invD(3) [OF weak_invD(2) [OF w1, of s]] by (simp add: matched_list_def)
    ultimately have "a \<notin> set (MatchedRecv c2 u)" "a \<notin> set (posted u c2)" for u using k(1,2,4,5) that by (cases "u = s"; auto)+
    then show ?thesis using nm(2) sv(3) by (auto simp: listed_def)
  qed
  show "SearchForFragsWithSpecifiedISendSeqNum a c2 = Some (False, c2)" if "\<not> fin"
  proof -
    have ra: "r_peer (recvs c2 a) = int s" "r_isendSeq (recvs c2 a) = next_expected_isendSeqs c s"
      using nm(1,5) k(3) q by (simp_all add: matched_to_def same_req_def)
    have "f_queue (frags c2 g) = UNMATCHEDFRAGS \<and> seq_of c2 g \<noteq> next_expected_isendSeqs c s" if "g \<in> set (OkToMatchRecvFrags c2 s)" for g
    proof -
      have g: "g \<in> set (OkToMatchRecvFrags c s)" using that sv(2) am(5) by (simp add: same_lists_def)
      then have "g \<noteq> f" using fr by (auto simp: fresh_frag_def)
      then have "frags c2 g = frags c g" using sv(1) am(7) by (simp add: serves_def keeps_def)
      with frag_where(1) [OF w g] d(4) [OF g] show ?thesis by simp
    qed
    then show ?thesis by (simp add: SearchForFragsWithSpecifiedISendSeqNum_def ra Let_def search_none)
  qed
  show "no_turn u (inc_expected s c2)" if "u \<noteq> s" for u
    using nt [of u] that sv(2) am(6,7,10) k(6) serves_seq [OF sv(1)] by (simp add: no_turn_def same_lists_def)
qed

lemma expected_frag_ok:
  assumes inv: "match_inv c" and legal: "arrive_legal f c" and q: "seq_of c f = next_expected_isendSeqs c (f_src (frags c f))"
  shows "\<exists>c'. expected_frag f c = Some c' \<and> match_inv c'"
proof -
  define s where "s = f_src (frags c f)"
  have w: "weak_inv c" and nt: "no_turn t c" for t using inv by (simp_all add: match_inv_def)
  from posted_search [OF weak_invD(1) [OF w], of "frags c f"] obtain m t where
    m: "checkPostedRecvListForMatch (frags c f) c = Some (m, after_match t (frags c f) m c)"
      "least_of (accepts c (frags c f)) (posted_at c) (set (posted s c)) m" unfolding s_def by blast
  show ?thesis
  proof (cases m)
    case None
    have w3: "weak_inv (inc_expected s (append_ok s f c))"
      by (rule expected_unmatched [OF inv legal s_def]) (use q m(2) None in \<open>auto simp: s_def least_of_def\<close>)
    have "no_turn u (inc_expected s (append_ok s f c))" if "u \<noteq> s" for u
      using nt [of u] that by (auto simp: no_turn_def append_ok_def set_fqueue_def)
    from ahead_part [OF w3, of s] this m(1) None show ?thesis
      by (auto simp: expected_frag_def s_def [symmetric] after_match_def Let_def)
  next
    case (Some a)
    have a: "a \<in> set (posted s c)" using m(2) Some by (simp add: least_of_def)
    obtain fin c2 where run: "ProcessMatchedData a f (after_match t (frags c f) (Some a) c) = (fin, c2)" by fastforce
    note e = expected_matched [OF inv legal s_def q [folded s_def] a refl run]
    from ahead_part [OF e(1,4)] obtain c4 where c4: "(if AheadOfSeqRecvFrags (inc_expected s c2) s \<noteq> [] then
        matchFragsInAheadOfSequenceList s (inc_expected s c2) else Some (inc_expected s c2)) = Some c4" "match_inv c4"
      "others_stay (inc_expected s c2) c4" by blast
    show ?thesis
    proof (cases fin)
      case False
      with m(1) Some run e(3) c4(1,2) show ?thesis by (auto simp: expected_frag_def s_def [symmetric] mark_done_def)
    next
      case True
      then have "a \<notin> listed (inc_expected s c2)" "\<not> messageDone (recvs c2 a)" using e(2) by (auto simp: listed_def)
      then have "a \<notin> listed c4" "\<not> messageDone (recvs c4 a)" using c4(3) by (auto simp: others_stay_def)
      from mark_unlisted [OF c4(2) this] m(1) Some run c4(1) True show ?thesis by (auto simp: expected_frag_def s_def [symmetric])
    qed
  qed
qed

lemma match_frag_ok:
  assumes "match_inv c" and "arrive_legal f c"
  shows "\<exists>c'. match_frag f c = Some c' \<and> match_inv c'"
proof -
  consider "seq_of c f < next_expected_isendSeqs c (f_src (frags c f))" | "next_expected_isendSeqs c (f_src (frags c f)) < seq_of c f"
    | "seq_of c f = next_expected_isendSeqs c (f_src (frags c f))" by linarith
  then show ?thesis
  proof cases
    case 3
    with expected_frag_ok [OF assms 3] show ?thesis by (simp add: match_frag_def Let_def)
  qed (use early_frag_ok [OF assms] late_frag_ok [OF assms] in auto)
qed

end
