(* ===== verification/Match_Post.thy ===== *)
theory Match_Post
  imports Match_Frag
begin

section \<open>A receive is posted: the invariant\<close>

text \<open>
  \<open>irecv_start\<close> on a receive that is on no list returns and keeps the invariant. When it finds a fragment it takes the message
  that was sent first of those that it accepts.
\<close>

subsection \<open>Changes outside the queues\<close>

lemma frame_inv:
  assumes inv: "weak_inv c" and lists: "same_lists c c'" and q: "PostedWildRecv c' = PostedWildRecv c" "PostedSpecificRecv c' = PostedSpecificRecv c"
    "MatchedRecv c' = MatchedRecv c" "next_expected_isendSeqs c' = next_expected_isendSeqs c" "groupSize c' = groupSize c"
    "next_irecv_id_counter c \<le> next_irecv_id_counter c'"
    and r: "\<And>b. b \<in> listed c \<Longrightarrow> recvs c' b = recvs c b"
    and f: "\<And>g t. g \<in> set (OkToMatchRecvFrags c t) \<union> set (AheadOfSeqRecvFrags c t) \<Longrightarrow> frags c' g = frags c g"
  shows "weak_inv c'"
proof -
  have l: "posted_list c' w xs" if "posted_list c w xs" "set xs \<subseteq> listed c" for w xs
  proof -
    have e: "recvs c' b = recvs c b" if "b \<in> set xs" for b using that r \<open>set xs \<subseteq> listed c\<close> by blast
    have "sorted_wrt (\<lambda>a b. posted_at c' a < posted_at c' b) xs"
      using posted_listD(1) [OF that(1)] by (rule sorted_wrt_mono_rel [rotated]) (simp add: e)
    then show ?thesis using posted_listD(3) [OF that(1)] e q(6) by (force simp: posted_list_def list_all_iff)
  qed
  have rw: "recvs c' b = recvs c b" if "b \<in> set (PostedWildRecv c)" for b using r that by (auto simp: listed_def)
  have rp: "recvs c' b = recvs c b" if "b \<in> set (PostedSpecificRecv c t)" for b t using r that by (auto simp: listed_def)
  have rm: "recvs c' b = recvs c b" if "b \<in> set (MatchedRecv c t)" for b t using r that by (auto simp: listed_def)
  have sub: "set (PostedWildRecv c) \<subseteq> listed c" "\<And>t. set (PostedSpecificRecv c t) \<subseteq> listed c" by (auto simp: listed_def)
  have ok: "posted_list c POSTEDWILDIRECV (PostedWildRecv c)" "\<And>s. posted_list c POSTEDIRECV (PostedSpecificRecv c s)"
    "\<And>s a. a \<in> set (PostedSpecificRecv c s) \<Longrightarrow> p_peer (recvs c a) = int s"
    "\<And>s a b. a \<in> set (PostedWildRecv c) \<Longrightarrow> b \<in> set (PostedSpecificRecv c s) \<Longrightarrow> posted_at c a \<noteq> posted_at c b"
    using weak_invD(1) [OF inv] by (simp_all add: posted_ok_def list_all_iff)
  have "posted_ok c'" unfolding posted_ok_def q(1,2) list_all_iff
  proof (intro conjI allI impI ballI)
    show "posted_at c' x \<noteq> posted_at c' y" if "x \<in> set (PostedWildRecv c)" "y \<in> set (PostedSpecificRecv c s)" for s x y
      using ok(4) [OF that] rw [OF that(1)] rp [OF that(2)] by simp
  qed (use l ok sub rp in auto)
  moreover have "src_inv t c'" for t
    by (rule src_inv_cong [OF _ _ _ _ _ _ _ _ weak_invD(2) [OF inv, of t]]) (use lists q f [of _ t] rw rp [of _ t] rm [of _ t] in \<open>auto simp: same_lists_def\<close>)
  ultimately show ?thesis by (simp add: weak_inv_def)
qed

subsection \<open>The rest of the message\<close>

lemma copy_remove: "CopyToAppLock a f (remove_ok s f c) = apsnd (remove_ok s f) (CopyToAppLock a f c)"
  by (auto simp: CopyToAppLock_def copy_data_def DeliveredToAppLock_def remove_matched_def upd_recv_def remove_ok_def Let_def split: option.splits)

lemma mark_remove: "mark_done fin a (ack_frag f (remove_ok s f c)) = map_option (\<lambda>c2. ack_frag f (remove_ok s f c2)) (mark_done fin a c)"
  by (auto simp: mark_done_def upd_recv_def remove_ok_def ack_frag_def set_fqueue_def)

lemma rest_body:
  "(case CopyToAppLock a f c of (fin, c1) \<Rightarrow> map_option (\<lambda>c2. (fin, ack_frag f (remove_ok s f c2))) (mark_done fin a c1))
    = place_frag 0 (Some a) f (remove_ok s f c)"
  by (cases "CopyToAppLock a f c")
    (simp add: place_frag_def ProcessMatchedData_def copy_remove mark_remove option.map_comp o_def)

lemma rest_serves:
  assumes "matched_to a s c" and "\<not> messageDone (recvs c a)"
    and "\<And>f. f \<in> set fs \<Longrightarrow> seq_of c f = q \<Longrightarrow> f_src (frags c f) = s \<and> f_tag (frags c f) = tag"
  shows "rest_loop a s q s tag fs c = map_option snd (serve_loop (remove_ok s) a (of_msg c q fs) c)"
  using assms
proof (induction fs arbitrary: c)
  case Nil
  show ?case by (simp add: of_msg_def)
next
  case (Cons f fs)
  show ?case
  proof (cases "seq_of c f = q")
    case False
    then show ?thesis using Cons.IH [of c] Cons.prems by (simp add: of_msg_def)
  next
    case True
    from okq.place_rem [OF Cons.prems(1,2), of 0 f] obtain fin c3 where
      c3: "place_frag 0 (Some a) f (remove_ok s f c) = Some (fin, c3)" "serves a s {f} (frag_len c f) fin c c3" "messageDone (recvs c3 a) = fin" by blast
    then obtain c1 c2 where c1: "CopyToAppLock a f c = (fin, c1)" "mark_done fin a c1 = Some c2" "c3 = ack_frag f (remove_ok s f c2)"
      using rest_body [where a = a and f = f and c = c and s = s] by (auto split: prod.splits)
    have sf: "same_frag (frags c g) (frags c3 g)" for g using c3(2) by (simp add: serves_def keeps_def)
    have om: "of_msg c3 q fs = of_msg c q fs" by (rule of_msg_cong) (rule sf)
    have IH: "rest_loop a s q s tag fs c3 = map_option snd (serve_loop (remove_ok s) a (of_msg c3 q fs) c3)" if "\<not> fin"
    proof (rule Cons.IH)
      show "matched_to a s c3" using Cons.prems(1) c3(2) by (simp add: serves_def keeps_def same_req_def matched_to_def)
      show "f_src (frags c3 g) = s \<and> f_tag (frags c3 g) = tag" if "g \<in> set fs" "seq_of c3 g = q" for g
        using Cons.prems(3) [of g] that same_frag_fields [OF sf [of g]] by simp
    qed (use c3(3) that in simp)
    show ?thesis using True Cons.prems(3) [of f] c1 c3(1,3) IH om by (auto simp: of_msg_def Let_def)
  qed
qed

text \<open>The first fragment, given to a receive that is on no list yet.\<close>

lemma copy_first:
  assumes "\<not> messageDone (recvs c a)" and "r_queue (recvs c a) \<noteq> MATCHEDIRECV"
  shows "\<exists>c'. CopyToApp a f c = Some c' \<and> keeps a s {} c c' \<and> same_lists c c' \<and> MatchedRecv c' = MatchedRecv c \<and> frags c' = frags c
    \<and> got a c' \<le> got a c + frag_len c f \<and> (messageDone (recvs c' a) \<longrightarrow> r_length (recvs c a) \<le> got a c')"
  using assms
  by (auto simp: CopyToApp_def copy_data_def DeliveredToApp_def remove_matched_def keeps_def same_lists_def got_def frag_len_def same_req_def Let_def)

lemma first_none: "(\<And>f. f \<in> set xs \<Longrightarrow> \<not> accepts c (frags c f) a) \<Longrightarrow> first_loop a s xs c = Some (False, c)"
  by (induction xs) (auto simp: accepts_def Let_def)

lemma first_skip: "(\<And>f. f \<in> set ys \<Longrightarrow> \<not> accepts c (frags c f) a) \<Longrightarrow> first_loop a s (ys @ xs) c = first_loop a s xs c"
  by (induction ys) (auto simp: accepts_def Let_def)

text \<open>What the receive holds when message \<open>q\<close> from \<open>s\<close>, to which the fragment \<open>fd\<close> belongs, was taken.\<close>

definition took :: "nat \<Rightarrow> nat \<Rightarrow> frag_desc \<Rightarrow> comm_q \<Rightarrow> comm_q \<Rightarrow> bool" where
  "took a s fd c c' \<longleftrightarrow> r_isendSeq (recvs c' a) = f_isendSeq fd \<and> r_peer (recvs c' a) = int s \<and> r_tag (recvs c' a) = f_tag fd
     \<and> r_length (recvs c' a) = f_msgLength fd \<and> OkToMatchRecvFrags c' = (OkToMatchRecvFrags c)(s := not_msg c (f_isendSeq fd) (OkToMatchRecvFrags c s))
     \<and> AheadOfSeqRecvFrags c' = AheadOfSeqRecvFrags c \<and> next_expected_isendSeqs c' = next_expected_isendSeqs c
     \<and> PostedWildRecv c' = PostedWildRecv c \<and> PostedSpecificRecv c' = PostedSpecificRecv c \<and> (\<forall>g. seq_of c' g = seq_of c g)"

definition first_filled :: "nat \<Rightarrow> nat \<Rightarrow> comm_q \<Rightarrow> comm_q" where
  "first_filled a f c = upd_recv a (\<lambda>r. (fill_result True (frags c f) r)\<lparr>r_queue := r_queue r\<rparr>) c"

lemma first_run:
  assumes "accepts c (frags c f) a" and "CopyToApp a f (first_filled a f c) = Some c2" and "c3 = ack_frag f (remove_ok s f c2)"
  shows "first_loop a s (f # fs) c = (if messageDone (recvs c3 a) then Some (True, c3) else map_option (Pair True)
    (rest_loop a s (seq_of c f) (f_src (frags c f)) (f_tag (frags c f)) fs
      (append_matched (f_src (frags c f)) a (upd_recv a (\<lambda>r. r\<lparr>r_queue := MATCHEDIRECV\<rparr>) c3))))"
  using assms by (simp add: accepts_def Let_def first_filled_def)

text \<open>The state after the first fragment, compared with the one in which the whole message has left the list.\<close>

lemma first_taken:
  assumes inv: "weak_inv c" and a: "a \<notin> listed c" and r: "\<not> messageDone (recvs c a)" "r_queue (recvs c a) = ONNOLIST" "got a c = 0"
    and f: "f \<in> set (OkToMatchRecvFrags c s)" and c2: "CopyToApp a f (first_filled a f c) = Some c2"
    and c3: "c3 = ack_frag f (remove_ok s f c2)"
  shows "weak_inv (c3\<lparr>OkToMatchRecvFrags := (OkToMatchRecvFrags c)(s := not_msg c (seq_of c f) (OkToMatchRecvFrags c s))\<rparr>)" (is "weak_inv ?d")
    and "got a c3 \<le> frag_len c f" and "messageDone (recvs c3 a) \<Longrightarrow> f_msgLength (frags c f) \<le> got a c3"
    and "same_req (recvs (first_filled a f c) a) (recvs c3 a)" and "\<And>b. b \<noteq> a \<Longrightarrow> recvs c3 b = recvs c b"
    and "\<And>g. same_frag (frags c g) (frags c3 g)" and "MatchedRecv c3 = MatchedRecv c" "PostedWildRecv c3 = PostedWildRecv c"
      "PostedSpecificRecv c3 = PostedSpecificRecv c" "groupSize c3 = groupSize c" "next_expected_isendSeqs c3 = next_expected_isendSeqs c"
      "next_irecv_id_counter c3 = next_irecv_id_counter c" "AheadOfSeqRecvFrags c3 = AheadOfSeqRecvFrags c"
      "OkToMatchRecvFrags c3 = (OkToMatchRecvFrags c)(s := remove1 f (OkToMatchRecvFrags c s))"
proof -
  let ?c1 = "first_filled a f c"
  have "\<not> messageDone (recvs ?c1 a)" "r_queue (recvs ?c1 a) \<noteq> MATCHEDIRECV" using r by (simp_all add: first_filled_def fill_result_def)
  from copy_first [OF this, of f s] c2 have k: "keeps a s {} ?c1 c2" "same_lists ?c1 c2" "MatchedRecv c2 = MatchedRecv ?c1" "frags c2 = frags ?c1"
    "got a c2 \<le> got a ?c1 + frag_len ?c1 f" "messageDone (recvs c2 a) \<Longrightarrow> r_length (recvs ?c1 a) \<le> got a c2" by auto
  have g1: "got a ?c1 = 0" "frag_len ?c1 f = frag_len c f" "r_length (recvs ?c1 a) = f_msgLength (frags c f)"
    using r(3) by (simp_all add: got_def first_filled_def fill_result_def frag_len_def)
  show "got a c3 \<le> frag_len c f" "messageDone (recvs c3 a) \<Longrightarrow> f_msgLength (frags c f) \<le> got a c3"
    using k(5,6) g1 by (simp_all add: c3 got_def)
  show sf: "same_frag (frags c g) (frags c3 g)" for g using k(4) ack_frag_simps(2) [of "remove_ok s f c2" g f] by (simp add: c3 first_filled_def)
  show "same_req (recvs ?c1 a) (recvs c3 a)" "MatchedRecv c3 = MatchedRecv c" "PostedWildRecv c3 = PostedWildRecv c"
    "PostedSpecificRecv c3 = PostedSpecificRecv c" "groupSize c3 = groupSize c" "next_expected_isendSeqs c3 = next_expected_isendSeqs c"
    "next_irecv_id_counter c3 = next_irecv_id_counter c" "AheadOfSeqRecvFrags c3 = AheadOfSeqRecvFrags c"
    "OkToMatchRecvFrags c3 = (OkToMatchRecvFrags c)(s := remove1 f (OkToMatchRecvFrags c s))"
    and rb: "\<And>b. b \<noteq> a \<Longrightarrow> recvs c3 b = recvs c b"
    using k(1-3) by (simp_all add: c3 first_filled_def keeps_def same_lists_def)
  note fields = this
  let ?o = "drop_ok s (seq_of c f) c"
  have lo: "listed ?o = listed c" by (simp add: listed_def drop_ok_def)
  have fg: "frags c3 g = frags c g" if "g \<in> set (OkToMatchRecvFrags ?o t) \<union> set (AheadOfSeqRecvFrags ?o t)" for g t
  proof -
    have "g \<noteq> f"
      using that frag_where(1) [OF inv f] frag_where(1) [OF inv, of f t] frag_where(2) [OF inv, of f t] by (auto simp: drop_ok_def split: if_splits)
    then show ?thesis using k(4) by (simp add: c3 first_filled_def)
  qed
  show "weak_inv ?d"
  proof (rule frame_inv [OF drop_ok_inv [OF inv, of s "seq_of c f"]])
    show "recvs ?d b = recvs ?o b" if "b \<in> listed ?o" for b using rb [of b] that a unfolding lo by (cases "b = a") (auto simp: drop_ok_def)
    show "frags ?d g = frags ?o g" if "g \<in> set (OkToMatchRecvFrags ?o t) \<union> set (AheadOfSeqRecvFrags ?o t)" for g t
      using fg [OF that] by (simp add: drop_ok_def)
  qed (use fields in \<open>simp_all add: drop_ok_def same_lists_def\<close>)
qed

lemma ok_msg_apart:
  assumes inv: "weak_inv c"
  shows "set (of_msg c q (OkToMatchRecvFrags c s))
    \<inter> (set (((OkToMatchRecvFrags c)(s := not_msg c q (OkToMatchRecvFrags c s))) u) \<union> set (AheadOfSeqRecvFrags c u)) = {}"
proof -
  have "x \<notin> set (AheadOfSeqRecvFrags c u)" "u \<noteq> s \<Longrightarrow> x \<notin> set (OkToMatchRecvFrags c u)" if "x \<in> set (OkToMatchRecvFrags c s)" for x
    using frag_where(1) [OF inv, of x u] frag_where(2) [OF inv, of x u] frag_where(1) [OF inv that] by auto
  then show ?thesis by (cases "u = s") auto
qed

lemma first_found_ok:
  assumes inv: "weak_inv c" and a: "a \<notin> listed c" and r: "\<not> messageDone (recvs c a)" "r_queue (recvs c a) = ONNOLIST" "got a c = 0"
    and xs: "OkToMatchRecvFrags c s = ys @ f # fs" and acc: "accepts c (frags c f) a" and ys: "\<And>g. g \<in> set ys \<Longrightarrow> \<not> accepts c (frags c g) a"
  shows "\<exists>c'. first_loop a s (OkToMatchRecvFrags c s) c = Some (True, c') \<and> weak_inv c' \<and> took a s (frags c f) c c'"
proof -
  let ?q = "seq_of c f" and ?xs = "OkToMatchRecvFrags c s"
  note d = src_invD [OF weak_invD(2) [OF inv]]
  have f: "f \<in> set ?xs" using xs by simp
  have src: "f_src (frags c f) = s" using frag_where(1) [OF inv f] by simp
  have not_ys: "seq_of c g \<noteq> ?q" if "g \<in> set ys" for g
    using ys [OF that] acc frag_list_tags [OF d(1), of g s f] that xs by (auto simp: accepts_def)
  then have zs: "of_msg c ?q ?xs = f # of_msg c ?q fs" unfolding xs by (auto simp: of_msg_def filter_empty_conv)
  have cnt: "counted c (f # of_msg c ?q fs) (f_msgLength (frags c f))" using frag_listD(3) [OF d(1) f] zs by simp
  have r1: "\<not> messageDone (recvs (first_filled a f c) a)" "r_queue (recvs (first_filled a f c) a) \<noteq> MATCHEDIRECV"
    using r by (simp_all add: first_filled_def fill_result_def)
  from copy_first [OF r1, of f s] obtain c2 where c2: "CopyToApp a f (first_filled a f c) = Some c2" by blast
  define c3 where "c3 = ack_frag f (remove_ok s f c2)"
  note t = first_taken [OF inv a r f c2 c3_def]
  have run: "first_loop a s ?xs c = (if messageDone (recvs c3 a) then Some (True, c3) else map_option (Pair True)
      (rest_loop a s ?q s (f_tag (frags c f)) fs (append_matched s a (upd_recv a (\<lambda>r. r\<lparr>r_queue := MATCHEDIRECV\<rparr>) c3))))"
    unfolding xs using first_skip [OF ys, where xs = "f # fs" and ys = ys and s = s] first_run [OF acc c2 c3_def, of fs] by (simp add: src)
  have fill: "r_isendSeq (recvs c3 a) = ?q" "r_peer (recvs c3 a) = int s" "r_tag (recvs c3 a) = f_tag (frags c f)" "r_length (recvs c3 a) = f_msgLength (frags c f)"
    using t(4) src by (simp_all add: same_req_def first_filled_def fill_result_def)
  have seq3: "seq_of c3 g = seq_of c g" for g using same_frag_fields(3) [OF t(6) [of g]] .
  show ?thesis
  proof (cases "messageDone (recvs c3 a)")
    case True
    have "1 = length (f # of_msg c ?q fs)" by (rule counted_all_taken [OF cnt]) (use t(2,3) True in auto)
    then have none: "of_msg c ?q fs = []" by simp
    have "fold remove1 (of_msg c ?q ?xs) ?xs = not_msg c ?q ?xs" by (rule fold_remove_msg [OF frag_list_distinct [OF d(1)]])
    then have "remove1 f ?xs = not_msg c ?q ?xs" by (simp add: zs none)
    then have ok3: "OkToMatchRecvFrags c3 = (OkToMatchRecvFrags c)(s := not_msg c ?q ?xs)" using t(14) by simp
    then have "c3\<lparr>OkToMatchRecvFrags := (OkToMatchRecvFrags c)(s := not_msg c ?q ?xs)\<rparr> = c3" by simp
    then have "weak_inv c3" using t(1) by simp
    moreover have "took a s (frags c f) c c3" using fill ok3 t(8,9,11,13) seq3 by (simp add: took_def)
    ultimately show ?thesis using run True by simp
  next
    case False
    define b where "b = append_matched s a (upd_recv a (\<lambda>r. r\<lparr>r_queue := MATCHEDIRECV\<rparr>) c3)"
    have bm: "matched_to a s b" "\<not> messageDone (recvs b a)" using False fill by (simp_all add: b_def matched_to_def append_matched_def)
    have fb: "frags b = frags c3" "got a b = got a c3" "r_length (recvs b a) = f_msgLength (frags c f)"
      using fill by (simp_all add: b_def append_matched_def got_def)
    have sfb: "same_frag (frags c g) (frags b g)" for g using t(6) fb(1) by simp
    have om: "of_msg b ?q fs = of_msg c ?q fs" by (rule of_msg_cong) (rule sfb)
    have len: "frag_len b = frag_len c" using same_frag_fields(5) [OF sfb] by (simp add: frag_len_def fun_eq_iff)
    have rest: "rest_loop a s ?q s (f_tag (frags c f)) fs b = map_option snd (serve_loop (remove_ok s) a (of_msg c ?q fs) b)"
      unfolding om [symmetric]
    proof (rule rest_serves [OF bm])
      show "f_src (frags b g) = s \<and> f_tag (frags b g) = f_tag (frags c f)" if "g \<in> set fs" "seq_of b g = ?q" for g
        using frag_where(1) [OF inv, of g s] frag_list_tags [OF d(1), of g s f] that xs f same_frag_fields [OF sfb [of g]] by simp
    qed
    from okq.serve_loop_ok [OF bm, of s "of_msg c ?q fs"] obtain n fin c' where sl: "serve_loop (remove_ok s) a (of_msg c ?q fs) b = Some (fin, c')"
      "n \<le> length (of_msg c ?q fs)"
      "serves a s (set (take n (of_msg c ?q fs))) (sum_list (map (frag_len b) (take n (of_msg c ?q fs)))) fin b c'"
      "OkToMatchRecvFrags c' s = fold remove1 (take n (of_msg c ?q fs)) (OkToMatchRecvFrags b s)"
      "(AheadOfSeqRecvFrags c', (OkToMatchRecvFrags c')(s := [])) = (AheadOfSeqRecvFrags b, (OkToMatchRecvFrags b)(s := []))"
      "messageDone (recvs c' a) = fin" "\<not> fin \<longrightarrow> n = length (of_msg c ?q fs)" by blast
    have n: "n = length (of_msg c ?q fs)"
    proof (cases fin)
      case True
      have "f_msgLength (frags c f) \<le> sum_list (map (frag_len c) (take (Suc n) (f # of_msg c ?q fs)))"
        using sl(3) True t(2) fb(2,3) by (simp add: serves_def len)
      from counted_all_taken [OF cnt this] sl(2) show ?thesis by simp
    qed (use sl(7) in simp)
    have ob: "OkToMatchRecvFrags b = OkToMatchRecvFrags c3" "AheadOfSeqRecvFrags b = AheadOfSeqRecvFrags c" using t(13) by (simp_all add: b_def append_matched_def)
    have "fold remove1 (of_msg c ?q ?xs) ?xs = not_msg c ?q ?xs" by (rule fold_remove_msg [OF frag_list_distinct [OF d(1)]])
    then have "OkToMatchRecvFrags c' s = not_msg c ?q ?xs" using sl(4) n ob(1) t(14) zs by simp
    moreover have "OkToMatchRecvFrags c' u = OkToMatchRecvFrags c u" if "u \<noteq> s" for u
      using sl(5) that ob(1) t(14) by (metis (no_types, lifting) fun_upd_other prod.inject)
    ultimately have ok': "OkToMatchRecvFrags c' = (OkToMatchRecvFrags c)(s := not_msg c ?q ?xs)" by (simp add: fun_eq_iff)
    let ?O = "(OkToMatchRecvFrags c)(s := not_msg c ?q ?xs)"
    have al: "a \<notin> set (PostedWildRecv c)" "\<And>u. a \<notin> set (PostedSpecificRecv c u)" "\<And>u. a \<notin> set (MatchedRecv c u)" using a by (auto simp: listed_def)
    have old: "r_isendSeq (recvs c x) \<noteq> ?q" if "x \<in> set (MatchedRecv c s)" for x using d(7) [OF f that] .
    have old3: "r_isendSeq (recvs c3 x) \<noteq> ?q" if "x \<in> set (MatchedRecv c s)" for x using old [OF that] t(5) [of x] that al(3) [of s] by (cases "x = a") auto
    have wB: "weak_inv (b\<lparr>OkToMatchRecvFrags := ?O\<rparr>)"
      by (rule add_matched_inv [OF t(1), where a = a and s = s and N = "next_expected_isendSeqs c s"])
        (use bm al fill(1) t(7-13) d(4) [OF f] d(5) [of _ s] old3 seq3 in \<open>auto simp: b_def append_matched_def remove1_idem matched_to_def\<close>)
    have sv: "serves a s (set (of_msg c ?q fs)) (sum_list (map (frag_len c) (of_msg c ?q fs))) fin (b\<lparr>OkToMatchRecvFrags := ?O\<rparr>) c'"
      using sl(3) n len by simp
    have "weak_inv c'"
    proof (rule serves_inv [OF wB _ sv])
      show "a \<in> set (MatchedRecv (b\<lparr>OkToMatchRecvFrags := ?O\<rparr>) s)" by (simp add: b_def append_matched_def)
      show "same_lists (b\<lparr>OkToMatchRecvFrags := ?O\<rparr>) c'" using ok' sl(5) by (simp add: same_lists_def)
      show "set (of_msg c ?q fs) \<inter> (set (OkToMatchRecvFrags (b\<lparr>OkToMatchRecvFrags := ?O\<rparr>) u) \<union> set (AheadOfSeqRecvFrags (b\<lparr>OkToMatchRecvFrags := ?O\<rparr>) u)) = {}" for u
        using ok_msg_apart [OF inv, of ?q s u] ob(2) zs by auto
    qed (use sl(6) in simp)
    moreover have "took a s (frags c f) c c'"
      using sv fill t(8,9,11) ok' sl(5) ob(2) seq3 serves_seq [OF sl(3)]
      by (simp add: took_def serves_def keeps_def same_req_def b_def append_matched_def)
    ultimately show ?thesis using run False rest sl(1) by (simp add: b_def [symmetric])
  qed
qed

text \<open>The first fragment of the list that is accepted belongs to the earliest message that is accepted.\<close>

lemma first_is_oldest:
  assumes inv: "weak_inv c" and xs: "OkToMatchRecvFrags c s = ys @ f # fs" and acc: "accepts c (frags c f) a"
    and ys: "\<And>g. g \<in> set ys \<Longrightarrow> \<not> accepts c (frags c g) a" and g: "g \<in> set (OkToMatchRecvFrags c s)" "accepts c (frags c g) a"
  shows "seq_of c f \<le> seq_of c g"
proof (rule ccontr)
  note d = src_invD [OF weak_invD(2) [OF inv, of s]]
  assume less: "\<not> seq_of c f \<le> seq_of c g"
  have "g \<in> set fs" using g ys less unfolding xs by auto
  then have "seq_of c g \<in> set (map (seq_of c) ys)"
    using in_order_prefix [of "{}" "map (seq_of c) ys" "seq_of c f" "map (seq_of c) fs" "seq_of c g"] d(6) less unfolding xs by simp
  then obtain h where h: "h \<in> set ys" "seq_of c h = seq_of c g" by auto
  have "f_tag (frags c h) = f_tag (frags c g)" using frag_list_tags [OF d(1), of h g] h g(1) xs by simp
  with ys [OF h(1)] g(2) show False by (simp add: accepts_def)
qed

subsection \<open>Posting\<close>

definition prepared :: "nat \<Rightarrow> comm_q \<Rightarrow> comm_q" where
  "prepared a c = (upd_recv a (\<lambda>r. r\<lparr>messageDone := False, r_queue := ONNOLIST, r_length := 0, DataReceived := 0,
     DataInBitBucket := 0, r_irecvSeq := next_irecv_id_counter c\<rparr>) c)\<lparr>next_irecv_id_counter := next_irecv_id_counter c + 1\<rparr>"

definition post_legal :: "nat \<Rightarrow> comm_q \<Rightarrow> bool" where
  "post_legal a c \<longleftrightarrow> a \<notin> listed c \<and> (p_peer (recvs c a) = ULM_ANY_PROC \<or> 0 \<le> p_peer (recvs c a) \<and> p_peer (recvs c a) < int (groupSize c))"

lemma prepared_facts:
  assumes inv: "weak_inv c" and a: "a \<notin> listed c"
  shows "weak_inv (prepared a c)" "\<not> messageDone (recvs (prepared a c) a)" "r_queue (recvs (prepared a c) a) = ONNOLIST" "got a (prepared a c) = 0"
    "a \<notin> listed (prepared a c)" "\<And>b. b \<in> listed c \<Longrightarrow> posted_at c b < next_irecv_id_counter c \<or> (\<exists>t. b \<in> set (MatchedRecv c t))"
proof -
  show "weak_inv (prepared a c)" by (rule frame_inv [OF inv]) (use a in \<open>auto simp: prepared_def same_lists_def\<close>)
  have ok: "posted_list c POSTEDWILDIRECV (PostedWildRecv c)" "\<And>s. posted_list c POSTEDIRECV (PostedSpecificRecv c s)"
    using weak_invD(1) [OF inv] by (simp_all add: posted_ok_def)
  show "posted_at c b < next_irecv_id_counter c \<or> (\<exists>t. b \<in> set (MatchedRecv c t))" if "b \<in> listed c" for b
    using that posted_listD(3) [OF ok(1), of b] posted_listD(3) [OF ok(2), of b] by (auto simp: listed_def)
qed (use a in \<open>simp_all add: prepared_def got_def listed_def\<close>)

text \<open>Appending the receive to the list of posted ones, when nothing that waits is accepted.\<close>

lemma posted_list_snoc:
  assumes "posted_list c w xs" and "\<And>b. b \<in> set xs \<Longrightarrow> recvs c' b = recvs c b" and "next_irecv_id_counter c \<le> next_irecv_id_counter c'"
    and "\<And>b. b \<in> set xs \<Longrightarrow> posted_at c b < posted_at c' a" and "r_queue (recvs c' a) = w" "\<not> messageDone (recvs c' a)" "got a c' = 0"
    "posted_at c' a < next_irecv_id_counter c'"
  shows "posted_list c' w (xs @ [a])"
proof -
  have "sorted_wrt (\<lambda>a b. posted_at c' a < posted_at c' b) xs"
    using posted_listD(1) [OF assms(1)] by (rule sorted_wrt_mono_rel [rotated]) (simp add: assms(2))
  then show ?thesis using posted_listD(3) [OF assms(1)] assms by (force simp: posted_list_def list_all_iff sorted_wrt_append got_def)
qed

definition requeued :: "nat \<Rightarrow> queue_id \<Rightarrow> comm_q \<Rightarrow> comm_q" where
  "requeued a w c = upd_recv a (\<lambda>r. r\<lparr>r_queue := w\<rparr>) c"

lemma post_inv:
  assumes inv: "weak_inv c" and a: "a \<notin> listed c" and ok: "posted_ok c'"
    and c': "recvs c' = recvs (requeued a w c)" "frags c' = frags c" "same_lists c c'" "MatchedRecv c' = MatchedRecv c"
      "next_expected_isendSeqs c' = next_expected_isendSeqs c" "groupSize c' = groupSize c"
    and p: "\<And>t. set (posted t c') \<subseteq> insert a (set (posted t c))"
    and acc: "\<And>t f. a \<in> set (posted t c') \<Longrightarrow> f \<in> set (OkToMatchRecvFrags c t) \<Longrightarrow> \<not> accepts c (frags c f) a"
  shows "weak_inv c'"
proof -
  note d = src_invD [OF weak_invD(2) [OF inv]]
  have m: "recvs c' b = recvs c b" if "b \<noteq> a" for b using that c'(1) by (simp add: requeued_def)
  have am: "a \<notin> set (MatchedRecv c t)" for t using a by (auto simp: listed_def)
  have ac: "accepts c' fd b = accepts c fd b" for fd b using c'(1) by (cases "b = a") (simp_all add: accepts_def requeued_def)
  have "src_inv t c'" for t
  proof (rule src_invI)
    show "frag_list c' t UNMATCHEDFRAGS (OkToMatchRecvFrags c' t)" "frag_list c' t AHEADOFSEQUENCEFRAGS (AheadOfSeqRecvFrags c' t)"
      using d(1,2) [of t] frag_list_cong [of _ c' c t] c'(2,3) by (simp_all add: same_lists_def)
    show "matched_list c' t (MatchedRecv c' t)" unfolding c'(4)
      by (rule matched_list_cong [OF _ _ d(3)]) (use m am [of t] c'(5) in \<open>auto intro!: m\<close>)
    show "\<not> accepts c' (frags c' f) b" if "f \<in> set (OkToMatchRecvFrags c' t)" "b \<in> set (posted t c')" for f b
    proof -
      have f: "f \<in> set (OkToMatchRecvFrags c t)" using that(1) c'(3) by (simp add: same_lists_def)
      show ?thesis unfolding ac c'(2) using p [of t] that(2) acc [OF _ f] d(8) [OF f, of b] by (cases "b = a") auto
    qed
    show "r_isendSeq (recvs c' b) \<noteq> seq_of c' f" if "f \<in> set (OkToMatchRecvFrags c' t)" "b \<in> set (MatchedRecv c' t)" for f b
      using d(7) [of f t b] that c'(2-4) m [of b] am [of t] by (cases "b = a") (auto simp: same_lists_def)
  qed (use d(4) [of _ t] d(5) [of _ t] d(6) [of t] d(9) [of t] c'(2-6) in \<open>auto simp: same_lists_def\<close>)
  then show ?thesis using ok by (simp add: weak_inv_def)
qed

text \<open>A receive that was just prepared is younger than all that are posted.\<close>

lemma prepared_posted_ok:
  assumes inv: "weak_inv c" and a: "a \<notin> listed c" "\<not> messageDone (recvs c a)" "got a c = 0"
    and young: "\<And>b t. b \<in> set (posted t c) \<Longrightarrow> posted_at c b < posted_at c a" "posted_at c a < next_irecv_id_counter c"
  shows "p_peer (recvs c a) = int s \<Longrightarrow> posted_ok (post_specific a s c)"
    and "posted_ok ((requeued a POSTEDWILDIRECV c)\<lparr>PostedWildRecv := PostedWildRecv c @ [a]\<rparr>)"
proof -
  have ok: "posted_list c POSTEDWILDIRECV (PostedWildRecv c)" "\<And>s. posted_list c POSTEDIRECV (PostedSpecificRecv c s)"
    "\<And>s b. b \<in> set (PostedSpecificRecv c s) \<Longrightarrow> p_peer (recvs c b) = int s"
    "\<And>s x y. x \<in> set (PostedWildRecv c) \<Longrightarrow> y \<in> set (PostedSpecificRecv c s) \<Longrightarrow> posted_at c x \<noteq> posted_at c y"
    using weak_invD(1) [OF inv] by (simp_all add: posted_ok_def list_all_iff)
  have n: "a \<notin> set (PostedWildRecv c)" "\<And>t. a \<notin> set (PostedSpecificRecv c t)" using a(1) by (auto simp: listed_def)
  have l: "posted_list c' w xs" if "posted_list c w xs" "a \<notin> set xs" "\<And>b. b \<noteq> a \<Longrightarrow> recvs c' b = recvs c b"
    "next_irecv_id_counter c' = next_irecv_id_counter c" for c' w xs
    using posted_list_remove [OF that(1,4), of a] that(2,3) by (simp add: remove1_idem)
  have y: "posted_at c b < posted_at c a" if "b \<in> set (PostedWildRecv c)" for b using young(1) [of b 0] that by simp
  have ys: "posted_at c b < posted_at c a" if "b \<in> set (PostedSpecificRecv c t)" for b t using young(1) [of b t] that by simp
  let ?p = "post_specific a s c" and ?w = "(requeued a POSTEDWILDIRECV c)\<lparr>PostedWildRecv := PostedWildRecv c @ [a]\<rparr>"
  have rp: "recvs ?p b = recvs c b" "recvs ?w b = recvs c b" if "b \<noteq> a" for b using that by (simp_all add: post_specific_def requeued_def)
  have rw: "recvs ?w b = recvs c b" if "b \<in> set (PostedWildRecv c)" for b using that n(1) rp(2) [of b] by (cases "b = a") simp_all
  have at: "posted_at ?p b = posted_at c b" "posted_at ?w b = posted_at c b" for b by (simp_all add: post_specific_def requeued_def)
  have same: "PostedWildRecv ?p = PostedWildRecv c" "PostedSpecificRecv ?p = (PostedSpecificRecv c)(s := PostedSpecificRecv c s @ [a])"
    "PostedWildRecv ?w = PostedWildRecv c @ [a]" "PostedSpecificRecv ?w = PostedSpecificRecv c"
    "next_irecv_id_counter ?p = next_irecv_id_counter c" "next_irecv_id_counter ?w = next_irecv_id_counter c"
    "r_queue (recvs ?p a) = POSTEDIRECV" "r_queue (recvs ?w a) = POSTEDWILDIRECV" "\<not> messageDone (recvs ?p a)" "\<not> messageDone (recvs ?w a)"
    "got a ?p = 0" "got a ?w = 0" "p_peer (recvs ?p a) = p_peer (recvs c a)"
    using a(2,3) by (simp_all add: post_specific_def requeued_def got_def)
  show "posted_ok ?p" if peer: "p_peer (recvs c a) = int s" unfolding posted_ok_def same(1,2) list_all_iff
  proof (intro conjI allI impI ballI)
    show "posted_list ?p POSTEDIRECV (((PostedSpecificRecv c)(s := PostedSpecificRecv c s @ [a])) t)" for t
    proof (cases "t = s")
      case True
      have "posted_list ?p POSTEDIRECV (PostedSpecificRecv c s @ [a])"
        by (rule posted_list_snoc [OF ok(2)]) (use n(2) [of s] rp ys young(2) same at in \<open>auto intro!: rp(1)\<close>)
      with True show ?thesis by simp
    next
      case False
      then show ?thesis using l [OF ok(2) n(2), of ?p t] rp(1) same(5) by simp
    qed
    show "p_peer (recvs ?p b) = int t" if "b \<in> set (((PostedSpecificRecv c)(s := PostedSpecificRecv c s @ [a])) t)" for t b
      using that ok(3) [of b t] rp(1) [of b] n(2) [of t] peer same(13) by (cases "b = a") (auto split: if_splits)
    show "posted_at ?p x \<noteq> posted_at ?p z" if "x \<in> set (PostedWildRecv c)" "z \<in> set (((PostedSpecificRecv c)(s := PostedSpecificRecv c s @ [a])) t)" for t x z
      unfolding at using that ok(4) [of x z t] y [OF that(1)] by (auto split: if_splits)
  qed (use l [OF ok(1) n(1), of ?p] rp(1) same(5) in simp)
  show "posted_ok ?w" unfolding posted_ok_def same(3,4) list_all_iff
  proof (intro conjI allI impI ballI)
    show "posted_list ?w POSTEDWILDIRECV (PostedWildRecv c @ [a])"
      by (rule posted_list_snoc [OF ok(1)]) (use n(1) rw y young(2) same at in simp_all)
    show "posted_list ?w POSTEDIRECV (PostedSpecificRecv c t)" for t using l [OF ok(2) n(2), of ?w t] rp(2) same(6) by simp
    show "p_peer (recvs ?w b) = int t" if "b \<in> set (PostedSpecificRecv c t)" for t b
      using that ok(3) [OF that] rp(2) [of b] n(2) [of t] by (cases "b = a") auto
    show "posted_at ?w x \<noteq> posted_at ?w z" if "x \<in> set (PostedWildRecv c @ [a])" "z \<in> set (PostedSpecificRecv c t)" for t x z
      unfolding at using that ok(4) [of x z t] ys [OF that(2)] by auto
  qed
qed

subsection \<open>The whole call\<close>

text \<open>The earliest message from \<open>s\<close> that \<open>a\<close> accepts.\<close>

definition earliest :: "nat \<Rightarrow> nat \<Rightarrow> nat \<Rightarrow> comm_q \<Rightarrow> bool" where
  "earliest f a s c \<longleftrightarrow> f \<in> set (OkToMatchRecvFrags c s) \<and> accepts c (frags c f) a
     \<and> (\<forall>g \<in> set (OkToMatchRecvFrags c s). accepts c (frags c g) a \<longrightarrow> seq_of c f \<le> seq_of c g)"

definition waits_for :: "nat \<Rightarrow> comm_q \<Rightarrow> nat \<Rightarrow> bool" where
  "waits_for a c s \<longleftrightarrow> (\<exists>f \<in> set (OkToMatchRecvFrags c s). accepts c (frags c f) a)"

lemma source_found:
  assumes inv: "weak_inv c" and a: "a \<notin> listed c" and r: "\<not> messageDone (recvs c a)" "r_queue (recvs c a) = ONNOLIST" "got a c = 0"
    and w: "waits_for a c s"
  shows "\<exists>f c'. checkSpecifiedFragListsForMatch a s c = Some (True, c') \<and> weak_inv c' \<and> earliest f a s c \<and> took a s (frags c f) c c'"
proof -
  from w split_list_first_prop [of "OkToMatchRecvFrags c s" "\<lambda>f. accepts c (frags c f) a"]
  obtain ys f fs where xs: "OkToMatchRecvFrags c s = ys @ f # fs" "accepts c (frags c f) a" "\<forall>g \<in> set ys. \<not> accepts c (frags c g) a"
    unfolding waits_for_def by blast
  have "earliest f a s c" using xs first_is_oldest [OF inv xs(1,2)] by (auto simp: earliest_def)
  then show ?thesis using first_found_ok [OF inv a r xs(1,2)] xs(3) unfolding checkSpecifiedFragListsForMatch_def by blast
qed

lemma source_skipped: "\<not> waits_for a c s \<Longrightarrow> checkSpecifiedFragListsForMatch a s c = Some (False, c)"
  unfolding waits_for_def checkSpecifiedFragListsForMatch_def by (rule first_none) blast

lemma wild_procs_none: "find (waits_for a c) ps = None \<Longrightarrow> wild_procs a ps c = Some (False, c)"
  by (induction ps) (auto simp: source_skipped split: if_splits)

lemma wild_procs_some:
  "find (waits_for a c) ps = Some s \<Longrightarrow> checkSpecifiedFragListsForMatch a s c = Some (True, c') \<Longrightarrow> wild_procs a ps c = Some (True, c')"
proof (induction ps)
  case (Cons p ps)
  then show ?case by (cases "waits_for a c p") (auto simp: source_skipped waits_for_def [of a c p])
qed simp

text \<open>The processes whose messages the receive may take, in the order of the search.\<close>

definition sources :: "nat \<Rightarrow> comm_q \<Rightarrow> nat list" where
  "sources a c = (if p_peer (recvs c a) = ULM_ANY_PROC then [0..<groupSize c] else [nat (p_peer (recvs c a))])"

definition posted_state :: "nat \<Rightarrow> comm_q \<Rightarrow> comm_q" where
  "posted_state a c = (if p_peer (recvs c a) = ULM_ANY_PROC then (requeued a POSTEDWILDIRECV c)\<lparr>PostedWildRecv := PostedWildRecv c @ [a]\<rparr>
     else post_specific a (nat (p_peer (recvs c a))) c)"

lemma irecv_prepared:
  "irecv_start a c = (if p_peer (recvs c a) = ULM_ANY_PROC then checkFragListsForWildMatch a (prepared a c) else checkFragListsForSpecificMatch a (prepared a c))"
  by (simp add: irecv_start_def prepared_def Let_def)

lemma irecv_none:
  assumes "find (waits_for a (prepared a c)) (sources a c) = None"
  shows "irecv_start a c = Some (posted_state a (prepared a c))"
proof -
  have p: "p_peer (recvs (prepared a c) a) = p_peer (recvs c a)" "groupSize (prepared a c) = groupSize c" by (simp_all add: prepared_def)
  show ?thesis
  proof (cases "p_peer (recvs c a) = ULM_ANY_PROC")
    case True
    then have "wild_procs a [0..<groupSize c] (prepared a c) = Some (False, prepared a c)"
      using assms wild_procs_none [of a "prepared a c" "[0..<groupSize c]"] by (simp add: sources_def)
    then show ?thesis using True p by (simp add: irecv_prepared checkFragListsForWildMatch_def posted_state_def requeued_def)
  next
    case False
    then have "\<not> waits_for a (prepared a c) (nat (p_peer (recvs c a)))" using assms by (simp add: sources_def split: if_splits)
    from source_skipped [OF this] False p show ?thesis by (simp add: irecv_prepared checkFragListsForSpecificMatch_def posted_state_def Let_def)
  qed
qed

lemma irecv_some:
  assumes "find (waits_for a (prepared a c)) (sources a c) = Some s" and "checkSpecifiedFragListsForMatch a s (prepared a c) = Some (True, c')"
  shows "irecv_start a c = Some c'"
proof -
  have p: "p_peer (recvs (prepared a c) a) = p_peer (recvs c a)" "groupSize (prepared a c) = groupSize c" by (simp_all add: prepared_def)
  show ?thesis
  proof (cases "p_peer (recvs c a) = ULM_ANY_PROC")
    case True
    then have "wild_procs a [0..<groupSize c] (prepared a c) = Some (True, c')"
      using assms(1) wild_procs_some [OF _ assms(2)] by (simp add: sources_def)
    then show ?thesis using True p by (simp add: irecv_prepared checkFragListsForWildMatch_def)
  next
    case False
    then have s: "s = nat (p_peer (recvs c a))" "waits_for a (prepared a c) s" using assms(1) by (auto simp: sources_def split: if_splits)
    then have "OkToMatchRecvFrags (prepared a c) s \<noteq> []" by (auto simp: waits_for_def)
    then show ?thesis using False p s(1) assms(2) by (simp add: irecv_prepared checkFragListsForSpecificMatch_def Let_def)
  qed
qed

text \<open>What the call promises: the earliest message that the receive accepts is taken, from the first process that has one;
  without one the receive is appended to the posted ones.\<close>

definition post_result :: "nat \<Rightarrow> comm_q \<Rightarrow> comm_q \<Rightarrow> bool" where
  "post_result a c c' \<longleftrightarrow> (case find (waits_for a c) (sources a c) of
       None \<Rightarrow> c' = posted_state a (prepared a c)
     | Some s \<Rightarrow> \<exists>f. earliest f a s c \<and> took a s (frags c f) c c')"

lemma prepared_same:
  "waits_for a (prepared a c) = waits_for a c" "earliest f a s (prepared a c) = earliest f a s c" "frags (prepared a c) = frags c"
  "took a s fd (prepared a c) c' = took a s fd c c'"
proof -
  have acc: "accepts (prepared a c) fd b = accepts c fd b" for fd b by (cases "b = a") (simp_all add: accepts_def prepared_def)
  have f: "frags (prepared a c) = frags c" "OkToMatchRecvFrags (prepared a c) = OkToMatchRecvFrags c" by (simp_all add: prepared_def)
  show "waits_for a (prepared a c) = waits_for a c" "earliest f a s (prepared a c) = earliest f a s c" "frags (prepared a c) = frags c"
    by (simp_all add: fun_eq_iff waits_for_def earliest_def acc f)
  show "took a s fd (prepared a c) c' = took a s fd c c'" by (simp add: took_def prepared_def not_msg_def)
qed

lemma no_turn_same:
  assumes "AheadOfSeqRecvFrags c' = AheadOfSeqRecvFrags c" "next_expected_isendSeqs c' = next_expected_isendSeqs c" "\<And>g. seq_of c' g = seq_of c g"
  shows "no_turn s c' = no_turn s c"
  using assms by (simp add: no_turn_def)

lemma posted_state_inv:
  assumes inv: "weak_inv c" and a: "post_legal a c" and none: "find (waits_for a c) (sources a c) = None"
  shows "weak_inv (posted_state a (prepared a c))" (is "weak_inv ?c'")
proof -
  let ?p = "prepared a c"
  have al: "a \<notin> listed c" using a by (simp add: post_legal_def)
  note p = prepared_facts [OF inv al]
  have n: "a \<notin> set (PostedWildRecv c)" "\<And>t. a \<notin> set (PostedSpecificRecv c t)" using al by (auto simp: listed_def)
  have ok: "posted_list c POSTEDWILDIRECV (PostedWildRecv c)" "\<And>s. posted_list c POSTEDIRECV (PostedSpecificRecv c s)"
    using weak_invD(1) [OF inv] by (simp_all add: posted_ok_def)
  have same: "posted_at ?p a = next_irecv_id_counter c" "next_irecv_id_counter ?p = next_irecv_id_counter c + 1" "p_peer (recvs ?p a) = p_peer (recvs c a)"
    "\<And>t. posted t ?p = posted t c" "\<And>b. b \<noteq> a \<Longrightarrow> recvs ?p b = recvs c b" "OkToMatchRecvFrags ?p = OkToMatchRecvFrags c" "groupSize ?p = groupSize c"
    by (simp_all add: prepared_def)
  have young: "posted_at ?p b < posted_at ?p a" if b: "b \<in> set (posted t ?p)" for b t
  proof -
    have "b \<noteq> a" using b n same(4) by auto
    then show ?thesis using b same posted_listD(3) [OF ok(1), of b] posted_listD(3) [OF ok(2), of b t] by auto
  qed
  have fresh: "posted_at ?p a < next_irecv_id_counter ?p" using same(1,2) by simp
  have pok: "posted_ok ((requeued a POSTEDWILDIRECV ?p)\<lparr>PostedWildRecv := PostedWildRecv ?p @ [a]\<rparr>)"
    "\<And>t. p_peer (recvs ?p a) = int t \<Longrightarrow> posted_ok (post_specific a t ?p)"
    using prepared_posted_ok [OF p(1,5,2,4), OF _ fresh] young by blast+
  have acc: "\<not> accepts ?p (frags ?p f) a" if "f \<in> set (OkToMatchRecvFrags ?p t)" "t \<in> set (sources a c)" for f t
  proof -
    have "\<not> waits_for a ?p t" using none that(2) by (auto simp: find_None_iff prepared_same(1))
    with that(1) show ?thesis by (simp add: waits_for_def)
  qed
  have small: "t < groupSize c" if "f \<in> set (OkToMatchRecvFrags ?p t)" for f t
    using that src_invD(9) [OF weak_invD(2) [OF inv], of t] same(6) by (cases "t < groupSize c") auto
  show ?thesis
  proof (cases "p_peer (recvs c a) = ULM_ANY_PROC")
    case True
    then have c': "?c' = (requeued a POSTEDWILDIRECV ?p)\<lparr>PostedWildRecv := PostedWildRecv ?p @ [a]\<rparr>" by (simp add: posted_state_def same(3))
    show ?thesis unfolding c'
    proof (rule post_inv [OF p(1,5), where w = POSTEDWILDIRECV])
      show "\<not> accepts ?p (frags ?p f) a" if "f \<in> set (OkToMatchRecvFrags ?p t)" for t f
        by (rule acc [OF that]) (use small [OF that] True in \<open>simp add: sources_def\<close>)
    qed (use pok(1) in \<open>auto simp: requeued_def same_lists_def\<close>)
  next
    case False
    let ?s = "nat (p_peer (recvs c a))"
    have peer: "p_peer (recvs ?p a) = int ?s" using a False same(3) by (simp add: post_legal_def)
    have c': "?c' = post_specific a ?s ?p" using False by (simp add: posted_state_def same(3))
    show ?thesis unfolding c'
    proof (rule post_inv [OF p(1,5), where w = POSTEDIRECV])
      show "\<not> accepts ?p (frags ?p f) a" if "a \<in> set (posted t (post_specific a ?s ?p))" "f \<in> set (OkToMatchRecvFrags ?p t)" for t f
      proof (rule acc [OF that(2)])
        have "t = ?s" using that(1) n by (auto simp: post_specific_def prepared_def split: if_splits)
        then show "t \<in> set (sources a c)" using False by (simp add: sources_def)
      qed
    qed (use pok(2) [OF peer] in \<open>auto simp: post_specific_def requeued_def same_lists_def\<close>)
  qed
qed

lemma irecv_start_ok:
  assumes inv: "match_inv c" and a: "post_legal a c"
  shows "\<exists>c'. irecv_start a c = Some c' \<and> match_inv c' \<and> post_result a c c'"
proof -
  have w: "weak_inv c" and t: "\<And>s. no_turn s c" using inv by (simp_all add: match_inv_def)
  have al: "a \<notin> listed c" using a by (simp add: post_legal_def)
  note p = prepared_facts [OF w al]
  show ?thesis
  proof (cases "find (waits_for a c) (sources a c)")
    case None
    let ?c' = "posted_state a (prepared a c)"
    have "no_turn s ?c' = no_turn s c" for s
      by (rule no_turn_same) (simp_all add: posted_state_def post_specific_def requeued_def prepared_def)
    with posted_state_inv [OF w a None] t have "match_inv ?c'" by (simp add: match_inv_def)
    then show ?thesis using None irecv_none [of a c] by (simp add: prepared_same post_result_def)
  next
    case (Some s)
    then have "waits_for a (prepared a c) s" unfolding prepared_same(1) by (auto simp: find_Some_iff)
    from source_found [OF p(1,5,2-4) this] obtain f c' where c': "checkSpecifiedFragListsForMatch a s (prepared a c) = Some (True, c')" "weak_inv c'"
      "earliest f a s c" "took a s (frags c f) c c'" by (auto simp: prepared_same)
    have "no_turn u c' = no_turn u c" for u by (rule no_turn_same) (use c'(4) in \<open>simp_all add: took_def\<close>)
    then have "match_inv c'" using c'(2) t by (simp add: match_inv_def)
    then show ?thesis using irecv_some [OF _ c'(1)] Some c'(3,4) by (auto simp: prepared_same post_result_def)
  qed
qed

end
