(* ===== verification/Match_Session.thy ===== *)
theory Match_Session
  imports Match_Post
begin

section \<open>Posting and arriving in any order\<close>

text \<open>
  The calls that the application and the paths make on one communicator: a receive whose descriptor is on no list is
  started, or a fragment comes in that is not a duplicate (\<open>arrive_legal\<close> says what the check for duplicates in front of the
  matching leaves: the fragments of one message agree on its tag and length, and hold no more bytes than it has).
\<close>

definition new_recv :: "nat \<Rightarrow> recv_desc \<Rightarrow> comm_q \<Rightarrow> comm_q" where
  "new_recv a r c = c\<lparr>recvs := (recvs c)(a := r)\<rparr>"

text \<open>The descriptor of a new fragment comes from the pool.\<close>

definition new_frag :: "nat \<Rightarrow> frag_desc \<Rightarrow> comm_q \<Rightarrow> comm_q" where
  "new_frag f fd c = c\<lparr>frags := (frags c)(f := fd), frag_pool := removeAll f (frag_pool c)\<rparr>"

definition empty_comm :: "nat \<Rightarrow> (nat \<Rightarrow> recv_desc) \<Rightarrow> (nat \<Rightarrow> frag_desc) \<Rightarrow> comm_q" where
  "empty_comm n rs fs = \<lparr>recvs = rs, frags = fs, groupSize = n, PostedWildRecv = [], PostedSpecificRecv = (\<lambda>s. []),
     MatchedRecv = (\<lambda>s. []), AheadOfSeqRecvFrags = (\<lambda>s. []), OkToMatchRecvFrags = (\<lambda>s. []), next_expected_isendSeqs = (\<lambda>s. 0),
     next_irecv_id_counter = 0, UnprocessedAcks = [], frag_pool = []\<rparr>"

inductive match_step :: "comm_q \<Rightarrow> comm_q \<Rightarrow> bool" where
  post: "post_legal a (new_recv a r c) \<Longrightarrow> irecv_start a (new_recv a r c) = Some c' \<Longrightarrow> match_step c c'"
| arrive: "fresh_frag f c \<Longrightarrow> arrive_legal f (new_frag f fd c) \<Longrightarrow> match_frag f (new_frag f fd c) = Some c' \<Longrightarrow> match_step c c'"

inductive match_reach :: "comm_q \<Rightarrow> bool" where
  start: "match_reach (empty_comm n rs fs)"
| step: "match_reach c \<Longrightarrow> match_step c c' \<Longrightarrow> match_reach c'"

lemma empty_comm_inv: "match_inv (empty_comm n rs fs)"
  by (simp add: match_inv_def weak_inv_def posted_ok_def posted_list_def src_inv_def frag_list_def matched_list_def no_turn_def empty_comm_def)

lemma new_recv_listed: "listed (new_recv a r c) = listed c"
  by (simp add: listed_def new_recv_def)

lemma new_recv_inv:
  assumes "match_inv c" and "a \<notin> listed c"
  shows "match_inv (new_recv a r c)"
proof -
  have w: "weak_inv c" "\<And>s. no_turn s c" using assms(1) by (simp_all add: match_inv_def)
  have "weak_inv (new_recv a r c)" by (rule frame_inv [OF w(1)]) (use assms(2) in \<open>auto simp: new_recv_def same_lists_def\<close>)
  then show ?thesis using w(2) by (simp add: match_inv_def no_turn_def new_recv_def)
qed

lemma new_frag_inv:
  assumes "match_inv c" and "fresh_frag f c"
  shows "match_inv (new_frag f fd c)"
proof -
  have w: "weak_inv c" "\<And>s. no_turn s c" using assms(1) by (simp_all add: match_inv_def)
  have f: "\<And>g t. g \<in> set (OkToMatchRecvFrags c t) \<union> set (AheadOfSeqRecvFrags c t) \<Longrightarrow> frags (new_frag f fd c) g = frags c g"
    using assms(2) by (auto simp: fresh_frag_def new_frag_def)
  have "weak_inv (new_frag f fd c)" by (rule frame_inv [OF w(1)]) (use f in \<open>auto simp: new_frag_def same_lists_def\<close>)
  moreover have "seq_of (new_frag f fd c) ` set (AheadOfSeqRecvFrags c s) = seq_of c ` set (AheadOfSeqRecvFrags c s)" for s
    by (rule image_cong) (use f [of _ s] in auto)
  ultimately show ?thesis using w(2) by (simp add: match_inv_def no_turn_def new_frag_def)
qed

lemma match_step_inv:
  assumes "match_inv c" and "match_step c c'"
  shows "match_inv c'"
  using assms(2)
proof (cases rule: match_step.cases)
  case (post a r)
  then have "a \<notin> listed c" by (simp add: post_legal_def new_recv_listed)
  from irecv_start_ok [OF new_recv_inv [OF assms(1) this] post(1)] post(2) show ?thesis by auto
next
  case (arrive f fd)
  from match_frag_ok [OF new_frag_inv [OF assms(1) arrive(1)] arrive(2)] arrive(3) show ?thesis by auto
qed

lemma match_reach_inv: "match_reach c \<Longrightarrow> match_inv c"
  by (induction rule: match_reach.induct) (use empty_comm_inv match_step_inv in auto)

subsection \<open>A communicator of two processes\<close>

definition some_recv :: recv_desc where
  "some_recv = \<lparr>p_length = 4, p_peer = 0, p_tag = 7, r_length = 0, r_peer = 0, r_tag = 0, r_isendSeq = 0, r_irecvSeq = 0, r_buf = (\<lambda>_. 0),
     DataReceived = 0, DataInBitBucket = 0, messageDone = False, r_queue = ONNOLIST\<rparr>"

definition some_frag :: frag_desc where
  "some_frag = \<lparr>f_src = 0, f_tag = 7, f_isendSeq = 0, f_msgLength = 2, f_offset = 0, f_data = [5, 6], f_ok = True, f_acks = True, f_queue = FRAGFREELIST\<rparr>"

definition pair_comm :: comm_q where
  "pair_comm = empty_comm 2 (\<lambda>_. some_recv) (\<lambda>_. some_frag)"

text \<open>One fragment from process 0 is waiting.\<close>

definition waiting_comm :: comm_q where
  "waiting_comm = inc_expected 0 (append_ok 0 3 (new_frag 3 some_frag pair_comm))"

lemmas comm_eval = pair_comm_def empty_comm_def some_recv_def some_frag_def new_frag_def new_recv_def

lemma pair_arrive: "fresh_frag 3 pair_comm" "arrive_legal 3 (new_frag 3 some_frag pair_comm)"
  by (simp_all add: comm_eval fresh_frag_def arrive_legal_def fits_def counted_def of_msg_def frag_len_def Let_def)

lemma pair_post: "post_legal 1 (new_recv 1 some_recv pair_comm)"
  by (simp add: comm_eval post_legal_def listed_def)

lemma waiting_reach: "match_reach waiting_comm"
proof -
  have "match_frag 3 (new_frag 3 some_frag pair_comm) = Some waiting_comm"
    by (simp add: match_frag_def expected_frag_def checkPostedRecvListForMatch_def checkWildPostedRecvListForMatch_def
      waiting_comm_def comm_eval append_ok_def inc_expected_def set_fqueue_def Let_def)
  from match_step.arrive [OF pair_arrive this] show ?thesis using match_reach.start match_reach.step unfolding pair_comm_def by blast
qed

text \<open>The same, and a receive for another tag is posted.\<close>

definition mixed_comm :: comm_q where
  "mixed_comm = posted_state 1 (prepared 1 (new_recv 1 (some_recv\<lparr>p_tag := 8\<rparr>) waiting_comm))"

lemma waiting_post: "post_legal 1 (new_recv 1 (some_recv\<lparr>p_tag := t\<rparr>) waiting_comm)"
  by (simp add: comm_eval waiting_comm_def append_ok_def inc_expected_def set_fqueue_def post_legal_def listed_def)

lemma mixed_reach: "match_reach mixed_comm"
proof -
  let ?c = "new_recv 1 (some_recv\<lparr>p_tag := 8\<rparr>) waiting_comm"
  have "irecv_start 1 ?c = Some mixed_comm" unfolding mixed_comm_def
    by (rule irecv_none) (simp add: prepared_same(1) sources_def waits_for_def accepts_def tag_match_def waiting_comm_def comm_eval
      append_ok_def inc_expected_def set_fqueue_def)
  from match_step.post [OF waiting_post this] show ?thesis using match_reach.step [OF waiting_reach] by blast
qed

text \<open>A receive from process 0 with any tag, then one from any process, are posted.\<close>

definition both_posted :: comm_q where
  "both_posted = posted_state 2 (prepared 2 (new_recv 2 (some_recv\<lparr>p_peer := ULM_ANY_PROC\<rparr>)
     (posted_state 1 (prepared 1 (new_recv 1 (some_recv\<lparr>p_tag := ULM_ANY_TAG\<rparr>) pair_comm)))))"

lemma both_posted_reach: "match_reach both_posted"
proof -
  let ?c1 = "new_recv 1 (some_recv\<lparr>p_tag := ULM_ANY_TAG\<rparr>) pair_comm"
  let ?d = "posted_state 1 (prepared 1 ?c1)"
  let ?c2 = "new_recv 2 (some_recv\<lparr>p_peer := ULM_ANY_PROC\<rparr>) ?d"
  have "irecv_start 1 ?c1 = Some ?d"
    by (rule irecv_none) (simp add: prepared_same(1) sources_def waits_for_def comm_eval)
  moreover have "post_legal 1 ?c1" by (simp add: post_legal_def listed_def comm_eval)
  ultimately have d: "match_reach ?d" using match_reach.step match_reach.start match_step.post unfolding pair_comm_def by blast
  have "irecv_start 2 ?c2 = Some both_posted" unfolding both_posted_def
    by (rule irecv_none) (simp add: prepared_same(1) sources_def waits_for_def posted_state_def prepared_def post_specific_def find_None_iff comm_eval)
  moreover have "post_legal 2 ?c2"
    by (simp add: post_legal_def listed_def posted_state_def prepared_def post_specific_def comm_eval)
  ultimately show ?thesis using match_reach.step [OF d] match_step.post by blast
qed

lemma both_posted_arrive: "fresh_frag 3 both_posted" "arrive_legal 3 (new_frag 3 some_frag both_posted)"
  by (simp_all add: both_posted_def posted_state_def prepared_def post_specific_def requeued_def comm_eval fresh_frag_def arrive_legal_def
    fits_def counted_def of_msg_def frag_len_def Let_def)

lemma both_posted_facts:
  "PostedSpecificRecv both_posted 0 = [1]" "PostedWildRecv both_posted = [2]" "f_src some_frag = 0"
  "posted_at both_posted 1 = 0" "posted_at both_posted 2 = 1" "accepts both_posted some_frag 1"
  "p_tag (recvs both_posted 1) = ULM_ANY_TAG" "r_tag (recvs both_posted 1) = 0" "f_tag some_frag = 7"
  "oldest_match some_frag both_posted = Some 1"
proof -
  show l: "PostedSpecificRecv both_posted 0 = [1]" "PostedWildRecv both_posted = [2]" "f_src some_frag = 0"
    "posted_at both_posted 1 = 0" "posted_at both_posted 2 = 1" "accepts both_posted some_frag 1"
    "p_tag (recvs both_posted 1) = ULM_ANY_TAG" "r_tag (recvs both_posted 1) = 0" "f_tag some_frag = 7"
    by (simp_all add: both_posted_def posted_state_def prepared_def post_specific_def requeued_def upd_recv_def comm_eval accepts_def tag_match_def)
  show "oldest_match some_frag both_posted = Some 1" using l by (simp add: oldest_match_def)
qed

subsection \<open>Properties\<close>

text \<open>
  C2: Whatever receives were started and fragments came in before, starting another receive and handling another
  fragment returns: no \<^verbatim>\<open>assert\<close> of the matching code fails and the loop over the fragments that came ahead of their turn ends.
\<close>

theorem matching_returns:
  assumes "match_reach c"
  shows "(\<forall>a r. post_legal a (new_recv a r c) \<longrightarrow> (\<exists>c'. irecv_start a (new_recv a r c) = Some c' \<and> match_reach c'))
    \<and> (\<forall>f fd. fresh_frag f c \<and> arrive_legal f (new_frag f fd c) \<longrightarrow> (\<exists>c'. match_frag f (new_frag f fd c) = Some c' \<and> match_reach c'))"
proof (intro conjI allI impI; (elim conjE)?)
  note inv = match_reach_inv [OF assms]
  show "\<exists>c'. irecv_start a (new_recv a r c) = Some c' \<and> match_reach c'" if p: "post_legal a (new_recv a r c)" for a r
  proof -
    have "a \<notin> listed c" using p by (simp add: post_legal_def new_recv_listed)
    from irecv_start_ok [OF new_recv_inv [OF inv this] p] show ?thesis using match_reach.step [OF assms match_step.post [OF p]] by blast
  qed
  show "\<exists>c'. match_frag f (new_frag f fd c) = Some c' \<and> match_reach c'" if f: "fresh_frag f c" "arrive_legal f (new_frag f fd c)" for f fd
    using match_frag_ok [OF new_frag_inv [OF inv f(1)] f(2)] match_reach.step [OF assms match_step.arrive [OF f]] by blast
qed

theorem matching_returns_witness:
  "(\<exists>c'. irecv_start 1 (new_recv 1 some_recv pair_comm) = Some c' \<and> match_reach c')
    \<and> (\<exists>c'. match_frag 3 (new_frag 3 some_frag pair_comm) = Some c' \<and> match_reach c')"
  using matching_returns [OF match_reach.start, of 2 "\<lambda>_. some_recv" "\<lambda>_. some_frag", folded pair_comm_def] pair_arrive pair_post by blast

text \<open>
  C6: The search for the receive that a fragment belongs to, in the list of receives from its source, the list of receives
  from any source, or both at once, finds the receive that was posted first among those the fragment matches, and none when there is none.
\<close>

theorem posted_match_is_oldest:
  assumes "match_reach c"
  shows "map_option fst (checkPostedRecvListForMatch fd c) = Some (oldest_match fd c)"
  using posted_search [OF weak_invD(1), of c fd] match_reach_inv [OF assms] by (auto simp: match_inv_def)

theorem posted_match_is_oldest_witness:
  "map_option fst (checkPostedRecvListForMatch some_frag both_posted) = Some (Some 1) \<and> posted 0 both_posted = [1, 2]"
proof -
  note l = both_posted_facts
  from posted_match_is_oldest [OF both_posted_reach, of some_frag] l show ?thesis by simp
qed

text \<open>
  C11: No message waits that a posted receive would accept: a fragment on the list of unmatched fragments does not match any
  receive posted for its source or for any source.
\<close>

theorem waiting_matches_none:
  assumes "match_reach c" and "f \<in> set (OkToMatchRecvFrags c s)" and "a \<in> set (PostedSpecificRecv c s) \<union> set (PostedWildRecv c)"
  shows "\<not> tag_match (p_tag (recvs c a)) (f_tag (frags c f))"
proof -
  have "src_inv s c" using match_reach_inv [OF assms(1)] weak_invD(2) by (simp add: match_inv_def)
  from src_invD(8) [OF this assms(2)] assms(3) show ?thesis by (simp add: accepts_def)
qed

theorem waiting_matches_none_witness:
  "3 \<in> set (OkToMatchRecvFrags mixed_comm 0) \<and> 1 \<in> set (PostedSpecificRecv mixed_comm 0) \<and> \<not> tag_match (p_tag (recvs mixed_comm 1)) (f_tag (frags mixed_comm 3))"
proof -
  have l: "3 \<in> set (OkToMatchRecvFrags mixed_comm 0)" "1 \<in> set (PostedSpecificRecv mixed_comm 0)"
    by (simp_all add: mixed_comm_def posted_state_def prepared_def post_specific_def waiting_comm_def comm_eval append_ok_def inc_expected_def set_fqueue_def)
  with waiting_matches_none [OF mixed_reach l(1), of 1] show ?thesis by blast
qed

text \<open>
  C3: A receive from process \<open>s\<close> that is started while fragments from \<open>s\<close> wait that it accepts takes the message that was sent
  first of all that it accepts: the result describes that message, and all its fragments leave the list of unmatched fragments.
\<close>

theorem irecv_takes_earliest:
  assumes "match_reach c" and "post_legal a (new_recv a r c)" and "p_peer r = int s"
    and "f \<in> set (OkToMatchRecvFrags c s)" and "tag_match (p_tag r) (f_tag (frags c f))"
  shows "\<exists>g c'. irecv_start a (new_recv a r c) = Some c' \<and> g \<in> set (OkToMatchRecvFrags c s) \<and> tag_match (p_tag r) (f_tag (frags c g))
    \<and> (\<forall>h \<in> set (OkToMatchRecvFrags c s). tag_match (p_tag r) (f_tag (frags c h)) \<longrightarrow> f_isendSeq (frags c g) \<le> f_isendSeq (frags c h))
    \<and> r_isendSeq (recvs c' a) = f_isendSeq (frags c g) \<and> r_tag (recvs c' a) = f_tag (frags c g) \<and> r_peer (recvs c' a) = int s
    \<and> OkToMatchRecvFrags c' s = filter (\<lambda>h. f_isendSeq (frags c h) \<noteq> f_isendSeq (frags c g)) (OkToMatchRecvFrags c s)"
proof -
  let ?c = "new_recv a r c"
  have "a \<notin> listed c" using assms(2) by (simp add: post_legal_def new_recv_listed)
  from irecv_start_ok [OF new_recv_inv [OF match_reach_inv [OF assms(1)] this] assms(2)]
  obtain c' where c': "irecv_start a ?c = Some c'" "post_result a ?c c'" by blast
  have n: "OkToMatchRecvFrags ?c = OkToMatchRecvFrags c" "frags ?c = frags c" "recvs ?c a = r" by (simp_all add: new_recv_def)
  have "waits_for a ?c s" using assms(4,5) n by (auto simp: waits_for_def accepts_def)
  moreover have "sources a ?c = [s]" using assms(3) n by (simp add: sources_def)
  ultimately obtain g where g: "earliest g a s ?c" "took a s (frags c g) ?c c'" using c'(2) n by (auto simp: post_result_def)
  show ?thesis
    by (rule exI [of _ g], rule exI [of _ c']) (use c'(1) g n in \<open>simp add: earliest_def took_def accepts_def not_msg_def\<close>)
qed

theorem irecv_takes_earliest_witness:
  "\<exists>g c'. irecv_start 1 (new_recv 1 some_recv waiting_comm) = Some c' \<and> g \<in> set (OkToMatchRecvFrags waiting_comm 0)
    \<and> r_isendSeq (recvs c' 1) = f_isendSeq (frags waiting_comm g) \<and> r_tag (recvs c' 1) = 7"
proof -
  have w: "frags waiting_comm 3 = some_frag\<lparr>f_queue := UNMATCHEDFRAGS\<rparr>" "OkToMatchRecvFrags waiting_comm 0 = [3]"
    by (simp_all add: waiting_comm_def append_ok_def inc_expected_def set_fqueue_def comm_eval)
  have p: "post_legal 1 (new_recv 1 some_recv waiting_comm)" using waiting_post [of 7] by (simp add: some_recv_def)
  show ?thesis
    using irecv_takes_earliest [OF waiting_reach p, of 0 3] w by (auto simp: some_recv_def some_frag_def tag_match_def)
qed

text \<open>The search through both lists takes a receive from the first list without recording the tag, as long as the second list
  has a receive that was posted later.\<close>

lemma both_loop_accepts:
  assumes "both_loop fd ps ws c = Some (Some a, c')" and "\<And>x. x \<in> set (PostedWildRecv c) \<Longrightarrow> r_queue (recvs c x) = POSTEDWILDIRECV"
  shows "accepts c fd a"
  using assms
proof (induction fd ps ws c rule: both_loop.induct)
  case (1 fd p ps w ws c)
  have w: "checkWildPostedRecvListForMatch fd c = Some (Some a, c') \<Longrightarrow> accepts c fd a"
    using wild_loop_find [of "PostedWildRecv c" c fd] 1(4) by (auto simp: checkWildPostedRecvListForMatch_def find_Some_iff)
  have s: "checkSpecificPostedRecvListForMatch fd c = (Some a, c') \<Longrightarrow> accepts c fd a"
    by (auto simp: checkSpecificPostedRecvListForMatch_def specific_loop_find find_Some_iff)
  show ?case using 1 w s by (auto simp: accepts_def split: if_splits)
qed simp_all

lemma both_loop_untagged:
  assumes "both_loop fd ps ws c = Some (Some a, c')" and "sorted_wrt (\<lambda>a b. posted_at c a < posted_at c b) ps"
    and "a \<in> set ps" and "a \<notin> set ws" and "a \<notin> set (PostedWildRecv c)" and "w \<in> set ws" and "posted_at c a < posted_at c w"
    and "\<And>x. x \<in> set (PostedWildRecv c) \<Longrightarrow> r_queue (recvs c x) = POSTEDWILDIRECV"
  shows "c' = take_specific False fd a c"
  using assms
proof (induction fd ps ws c rule: both_loop.induct)
  case (1 fd p ps w0 ws c)
  have first: "posted_at c p \<le> posted_at c a" using 1(4,5) by auto
  show ?case
  proof (cases "posted_at c w0 < posted_at c p")
    case True
    then have w: "w \<in> set ws" using first 1(8,9) by auto
    then have "ws \<noteq> []" by auto
    with True 1(3,6) have "\<not> tag_match (p_tag (recvs c w0)) (f_tag fd)" "both_loop fd (p # ps) ws c = Some (Some a, c')" by (auto split: if_splits)
    with True \<open>ws \<noteq> []\<close> 1 w show ?thesis by auto
  next
    case False
    show ?thesis
    proof (cases "tag_match (p_tag (recvs c p)) (f_tag fd)")
      case True
      with False 1(3) show ?thesis by auto
    next
      case nomatch: False
      have "a \<noteq> p"
      proof
        assume "a = p"
        with 1(3) False nomatch have run: "if ps = [] then checkWildPostedRecvListForMatch fd c = Some (Some p, c') else both_loop fd ps (w0 # ws) c = Some (Some p, c')"
          by (auto split: if_splits)
        show False
        proof (cases "ps = []")
          case True
          with run wild_loop_find [of "PostedWildRecv c" c fd] 1(10) have "find (accepts c fd) (PostedWildRecv c) = Some p"
            by (simp add: checkWildPostedRecvListForMatch_def)
          from find_in [OF this] \<open>a = p\<close> 1(7) show False by simp
        next
          case False
          with run both_loop_accepts [of fd ps "w0 # ws" c p c'] 1(10) nomatch show False by (simp add: accepts_def)
        qed
      qed
      then have "a \<in> set ps" "ps \<noteq> []" using 1(5) by auto
      with False nomatch 1 show ?thesis by auto
    qed
  qed
qed simp_all

text \<open>
  C36: A receive from a given source that is matched while a receive from any source was posted after it does not get the tag of the message. In every
  state that receives and fragments reach, and for every fragment whose match is a receive for its source posted before some receive for any source:
  the search takes that receive and enters the sequence number, the length and the source of the message into its result, but the tag in the
  result is what the descriptor held before.
\<close>

theorem tag_not_recorded:
  assumes "match_reach c" and "oldest_match fd c = Some a" and "a \<in> set (PostedSpecificRecv c (f_src fd))"
    and "w \<in> set (PostedWildRecv c)" and "r_irecvSeq (recvs c a) < r_irecvSeq (recvs c w)"
  shows "\<exists>c'. checkPostedRecvListForMatch fd c = Some (Some a, c') \<and> r_queue (recvs c' a) = MATCHEDIRECV
    \<and> r_isendSeq (recvs c' a) = f_isendSeq fd \<and> r_length (recvs c' a) = f_msgLength fd \<and> r_peer (recvs c' a) = int (f_src fd)
    \<and> r_tag (recvs c' a) = r_tag (recvs c a)"
proof -
  have ok: "posted_ok c" using match_reach_inv [OF assms(1)] weak_invD(1) by (auto simp: match_inv_def)
  have lists: "posted_list c POSTEDIRECV (PostedSpecificRecv c (f_src fd))" "posted_list c POSTEDWILDIRECV (PostedWildRecv c)"
    using ok by (simp_all add: posted_ok_def)
  have n: "PostedSpecificRecv c (f_src fd) \<noteq> []" "PostedWildRecv c \<noteq> []" "a \<notin> set (PostedWildRecv c)"
    using assms(3,4) queue_disjoint [OF ok] by auto
  from posted_search [OF ok, of fd] assms(2) obtain c' where r: "checkPostedRecvListForMatch fd c = Some (Some a, c')" by auto
  then have "both_loop fd (PostedSpecificRecv c (f_src fd)) (PostedWildRecv c) c = Some (Some a, c')"
    using n by (simp add: checkPostedRecvListForMatch_def checkSpecificAndWildPostedRecvListForMatch_def)
  from both_loop_untagged [OF this posted_listD(1) [OF lists(1)] assms(3) n(3,3) assms(4,5)] posted_listD(3) [OF lists(2)]
  have "c' = take_specific False fd a c" by blast
  with r show ?thesis by (simp add: take_specific_def append_matched_def upd_recv_def fill_result_def)
qed

theorem tag_not_recorded_witness:
  "\<exists>c'. checkPostedRecvListForMatch some_frag both_posted = Some (Some 1, c') \<and> p_tag (recvs both_posted 1) = ULM_ANY_TAG
    \<and> f_tag some_frag = 7 \<and> r_tag (recvs c' 1) = 0"
proof -
  note l = both_posted_facts
  from tag_not_recorded [OF both_posted_reach l(10), of 2] l show ?thesis by auto
qed

text \<open>The message then completes that receive, and the application sees the tag 0.\<close>

theorem tag_not_recorded_completes:
  "\<exists>c'. match_reach both_posted \<and> match_frag 3 (new_frag 3 some_frag both_posted) = Some c' \<and> messageDone (recvs c' 1)
    \<and> p_tag (recvs c' 1) = ULM_ANY_TAG \<and> f_tag some_frag = 7 \<and> r_tag (recvs c' 1) = 0"
proof -
  have "\<exists>c'. match_frag 3 (new_frag 3 some_frag both_posted) = Some c' \<and> messageDone (recvs c' 1)
    \<and> p_tag (recvs c' 1) = ULM_ANY_TAG \<and> r_tag (recvs c' 1) = 0"
    by (simp add: match_frag_def expected_frag_def checkPostedRecvListForMatch_def checkSpecificAndWildPostedRecvListForMatch_def both_posted_def
      posted_state_def prepared_def post_specific_def requeued_def comm_eval take_specific_def fill_result_def append_matched_def tag_match_def
      ProcessMatchedData_def CopyToAppLock_def copy_data_def DeliveredToAppLock_def remove_matched_def ack_frag_def set_fqueue_def inc_expected_def
      mark_done_def upd_recv_def Let_def)
  then show ?thesis using both_posted_reach by (simp add: some_frag_def)
qed

end
