(* ===== verification/Dbl_List.thy ===== *)
theory Dbl_List
  imports Lampi_Links
begin

section \<open>Doubly linked lists\<close>

text \<open>
  \<^verbatim>\<open>util/DblLinkList.{h,cc}\<close>, \<^verbatim>\<open>util/Links.h\<close>: the lists behind the message queues, the fragment queues of a message
  and the descriptor pools. An element is the address of a \<^verbatim>\<open>Links_t\<close>; \<open>l_next\<close> and \<open>l_prev\<close> are its fields, shared by
  all lists, and 0 is the null pointer. A list owns the addresses of its two sentinels \<^verbatim>\<open>Head\<close> and \<^verbatim>\<open>Tail\<close>.

  A null pointer that is dereferenced, a failed \<^verbatim>\<open>assert\<close> and a wait for a lock that is held or for readers that never
  leave are \<open>None\<close>; other threads are not modelled. The checks under \<^verbatim>\<open>_DEBUGQUEUES\<close> are left out.
\<close>

record link_heap =
  l_next :: "nat \<Rightarrow> nat"
  l_prev :: "nat \<Rightarrow> nat"

record dbl_list =
  dl_Head :: nat
  dl_Tail :: nat
  dl_length :: int
  dl_readers :: int
  dl_writers :: int
  dl_needs_cleaning :: int
  dl_locked :: bool

subsection \<open>Fields and locks\<close>

definition ld_next :: "nat \<Rightarrow> link_heap \<Rightarrow> nat option" where
  "ld_next a h = (if a = 0 then None else Some (l_next h a))"

definition ld_prev :: "nat \<Rightarrow> link_heap \<Rightarrow> nat option" where
  "ld_prev a h = (if a = 0 then None else Some (l_prev h a))"

definition st_next :: "nat \<Rightarrow> nat \<Rightarrow> link_heap \<Rightarrow> link_heap option" where
  "st_next a v h = (if a = 0 then None else Some (h\<lparr>l_next := (l_next h)(a := v)\<rparr>))"

definition st_prev :: "nat \<Rightarrow> nat \<Rightarrow> link_heap \<Rightarrow> link_heap option" where
  "st_prev a v h = (if a = 0 then None else Some (h\<lparr>l_prev := (l_prev h)(a := v)\<rparr>))"

definition dl_lock :: "dbl_list \<Rightarrow> dbl_list option" where
  "dl_lock d = (if dl_locked d then None else Some (d\<lparr>dl_locked := True\<rparr>))"

definition dl_unlock :: "dbl_list \<Rightarrow> dbl_list" where
  "dl_unlock d = d\<lparr>dl_locked := False\<rparr>"

text \<open>\<open>Lock.lock(); \<dots>; Lock.unlock()\<close> around an operation.\<close>

definition with_lock :: "(dbl_list \<Rightarrow> ('a \<times> dbl_list \<times> link_heap) option) \<Rightarrow> dbl_list \<Rightarrow> ('a \<times> dbl_list \<times> link_heap) option" where
  "with_lock f d = do {
     d1 \<leftarrow> dl_lock d;
     (r, d2, h) \<leftarrow> f d1;
     Some (r, dl_unlock d2, h)
   }"

subsection \<open>The operations\<close>

definition DoubleLinkList :: "nat \<Rightarrow> nat \<Rightarrow> link_heap \<Rightarrow> (dbl_list \<times> link_heap) option" where
  "DoubleLinkList head tail h = do {
     h1 \<leftarrow> st_prev head 0 h;
     h2 \<leftarrow> st_next head tail h1;
     h3 \<leftarrow> st_prev tail head h2;
     h4 \<leftarrow> st_next tail 0 h3;
     Some (\<lparr>dl_Head = head, dl_Tail = tail, dl_length = 0, dl_readers = 0, dl_writers = 0, dl_needs_cleaning = 0,
            dl_locked = False\<rparr>, h4)
   }"

definition AppendNoLock :: "nat \<Rightarrow> dbl_list \<Rightarrow> link_heap \<Rightarrow> (unit \<times> dbl_list \<times> link_heap) option" where
  "AppendNoLock e d h = do {
     lastEle \<leftarrow> ld_prev (dl_Tail d) h;
     h1 \<leftarrow> st_next lastEle e h;
     h2 \<leftarrow> st_prev e lastEle h1;
     h3 \<leftarrow> st_next e (dl_Tail d) h2;
     h4 \<leftarrow> st_prev (dl_Tail d) e h3;
     Some ((), d\<lparr>dl_length := dl_length d + 1\<rparr>, h4)
   }"

definition Append :: "nat \<Rightarrow> dbl_list \<Rightarrow> link_heap \<Rightarrow> (unit \<times> dbl_list \<times> link_heap) option" where
  "Append e d h = with_lock (\<lambda>d. AppendNoLock e d h) d"

definition AppendAsWriter :: "nat \<Rightarrow> dbl_list \<Rightarrow> link_heap \<Rightarrow> (unit \<times> dbl_list \<times> link_heap) option" where
  "AppendAsWriter e d h = with_lock (\<lambda>d.
     if dl_readers d \<noteq> 0 then None
     else do {
       (u, d1, h1) \<leftarrow> AppendNoLock e (d\<lparr>dl_writers := dl_writers d + 1\<rparr>) h;
       Some (u, d1\<lparr>dl_writers := dl_writers d1 - 1\<rparr>, h1)
     }) d"

definition PrependNoLock :: "nat \<Rightarrow> dbl_list \<Rightarrow> link_heap \<Rightarrow> (unit \<times> dbl_list \<times> link_heap) option" where
  "PrependNoLock e d h = do {
     firstEle \<leftarrow> ld_next (dl_Head d) h;
     h1 \<leftarrow> st_next e firstEle h;
     h2 \<leftarrow> st_prev e (dl_Head d) h1;
     h3 \<leftarrow> st_prev firstEle e h2;
     h4 \<leftarrow> st_next (dl_Head d) e h3;
     Some ((), d\<lparr>dl_length := dl_length d + 1\<rparr>, h4)
   }"

definition Prepend :: "nat \<Rightarrow> dbl_list \<Rightarrow> link_heap \<Rightarrow> (unit \<times> dbl_list \<times> link_heap) option" where
  "Prepend e d h = with_lock (\<lambda>d. PrependNoLock e d h) d"

definition GetLastElementNoLock :: "dbl_list \<Rightarrow> link_heap \<Rightarrow> (nat \<times> dbl_list \<times> link_heap) option" where
  "GetLastElementNoLock d h =
     (if dl_length d = 0 then Some (0, d, h)
      else do {
        r \<leftarrow> ld_prev (dl_Tail d) h;
        newLast \<leftarrow> ld_prev r h;
        h1 \<leftarrow> st_next newLast (dl_Tail d) h;
        h2 \<leftarrow> st_prev (dl_Tail d) newLast h1;
        Some (r, d\<lparr>dl_length := dl_length d - 1\<rparr>, h2)
      })"

definition GetLastElement :: "dbl_list \<Rightarrow> link_heap \<Rightarrow> (nat \<times> dbl_list \<times> link_heap) option" where
  "GetLastElement d h =
     (if dl_length d = 0 then Some (0, d, h) else with_lock (\<lambda>d. GetLastElementNoLock d h) d)"

text \<open>An empty list gives the address of its \<^verbatim>\<open>Tail\<close>.\<close>

definition GetfirstElementNoLock :: "dbl_list \<Rightarrow> link_heap \<Rightarrow> (nat \<times> dbl_list \<times> link_heap) option" where
  "GetfirstElementNoLock d h =
     (if dl_length d = 0 then Some (dl_Tail d, d, h)
      else do {
        r \<leftarrow> ld_next (dl_Head d) h;
        newFirst \<leftarrow> ld_next r h;
        h1 \<leftarrow> st_prev newFirst (dl_Head d) h;
        h2 \<leftarrow> st_next (dl_Head d) newFirst h1;
        Some (r, d\<lparr>dl_length := dl_length d - 1\<rparr>, h2)
      })"

definition GetfirstElement :: "dbl_list \<Rightarrow> link_heap \<Rightarrow> (nat \<times> dbl_list \<times> link_heap) option" where
  "GetfirstElement d h =
     (if dl_length d = 0 then Some (dl_Tail d, d, h) else with_lock (\<lambda>d. GetfirstElementNoLock d h) d)"

text \<open>The result is the element before the removed one.\<close>

definition RemoveLinkNoLock :: "nat \<Rightarrow> dbl_list \<Rightarrow> link_heap \<Rightarrow> (nat \<times> dbl_list \<times> link_heap) option" where
  "RemoveLinkNoLock e d h =
     (if dl_length d = 0 then Some (0, d, h)
      else do {
        prv \<leftarrow> ld_prev e h;
        nxt \<leftarrow> ld_next e h;
        h1 \<leftarrow> st_next prv nxt h;
        h2 \<leftarrow> st_prev nxt prv h1;
        Some (prv, d\<lparr>dl_length := dl_length d - 1\<rparr>, h2)
      })"

definition RemoveLink :: "nat \<Rightarrow> dbl_list \<Rightarrow> link_heap \<Rightarrow> (nat \<times> dbl_list \<times> link_heap) option" where
  "RemoveLink e d h = with_lock (\<lambda>d. RemoveLinkNoLock e d h) d"

definition AppendListNoLock :: "nat \<Rightarrow> nat \<Rightarrow> int \<Rightarrow> dbl_list \<Rightarrow> link_heap \<Rightarrow> (unit \<times> dbl_list \<times> link_heap) option" where
  "AppendListNoLock firstElement lastElement n d h = do {
     lst \<leftarrow> ld_prev (dl_Tail d) h;
     h1 \<leftarrow> st_next lst firstElement h;
     h2 \<leftarrow> st_prev firstElement lst h1;
     h3 \<leftarrow> st_next lastElement (dl_Tail d) h2;
     h4 \<leftarrow> st_prev (dl_Tail d) lastElement h3;
     Some ((), d\<lparr>dl_length := dl_length d + n\<rparr>, h4)
   }"

definition AppendList :: "nat \<Rightarrow> nat \<Rightarrow> int \<Rightarrow> dbl_list \<Rightarrow> link_heap \<Rightarrow> (unit \<times> dbl_list \<times> link_heap) option" where
  "AppendList firstElement lastElement n d h = with_lock (\<lambda>d. AppendListNoLock firstElement lastElement n d h) d"

text \<open>Moving the elements of \<open>d\<close> to the end of another list; the result holds both lists, the emptied one first.\<close>

definition MoveListNoLock :: "dbl_list \<Rightarrow> dbl_list \<Rightarrow> link_heap \<Rightarrow> (dbl_list \<times> dbl_list \<times> link_heap) option" where
  "MoveListNoLock new d h = do {
     f \<leftarrow> ld_next (dl_Head d) h;
     l \<leftarrow> ld_prev (dl_Tail d) h;
     (_, new1, h1) \<leftarrow> AppendListNoLock f l (dl_length d) new h;
     h2 \<leftarrow> st_next (dl_Head d) (dl_Tail d) h1;
     h3 \<leftarrow> st_prev (dl_Tail d) (dl_Head d) h2;
     Some (d\<lparr>dl_length := 0\<rparr>, new1, h3)
   }"

definition MoveList :: "dbl_list \<Rightarrow> dbl_list \<Rightarrow> link_heap \<Rightarrow> (dbl_list \<times> dbl_list \<times> link_heap) option" where
  "MoveList new d h = do {
     d0 \<leftarrow> dl_lock d;
     f \<leftarrow> ld_next (dl_Head d0) h;
     l \<leftarrow> ld_prev (dl_Tail d0) h;
     (_, new1, h1) \<leftarrow> AppendList f l (dl_length d0) new h;
     h2 \<leftarrow> st_next (dl_Head d0) (dl_Tail d0) h1;
     h3 \<leftarrow> st_prev (dl_Tail d0) (dl_Head d0) h2;
     Some (dl_unlock (d0\<lparr>dl_length := 0\<rparr>), new1, h3)
   }"

definition AddChunkNoLock :: "nat \<Rightarrow> int \<Rightarrow> nat \<Rightarrow> dbl_list \<Rightarrow> link_heap \<Rightarrow> (unit \<times> dbl_list \<times> link_heap) option" where
  "AddChunkNoLock topOfChunk nLinks sizeOfElement d h =
     map_option (Pair ())
       (foldM (\<lambda>(d, h) ele. map_option snd (AppendNoLock (topOfChunk + ele * sizeOfElement) d h)) (d, h) [0..<nat nLinks])"

definition AddChunk :: "nat \<Rightarrow> int \<Rightarrow> nat \<Rightarrow> dbl_list \<Rightarrow> link_heap \<Rightarrow> (unit \<times> dbl_list \<times> link_heap) option" where
  "AddChunk topOfChunk nLinks sizeOfElement d h = with_lock (\<lambda>d. AddChunkNoLock topOfChunk nLinks sizeOfElement d h) d"

end
