(* ===== verification/Dbl_List_Props.thy ===== *)
theory Dbl_List_Props
  imports Dbl_List
begin

section \<open>Doubly linked lists represent sequences\<close>

text \<open>
  \<open>dl_rep d h xs\<close>: in the heap \<open>h\<close> the list \<open>d\<close> holds the elements \<open>xs\<close> in this order. Every operation is its counterpart
  on sequences and changes no links outside of the list and the element it gets (\<open>same_outside\<close>), so the other lists
  of the heap keep their contents.
\<close>

subsection \<open>Chains\<close>

lemma links_insert:
  assumes "links n p (A @ a # b # B)" and "distinct (A @ a # b # B)" and "e \<notin> set (A @ a # b # B)"
  shows "links (n(a := e, e := b)) (p(e := a, b := e)) (A @ a # e # b # B)"
proof -
  have l: "links n p (A @ [a])" "links n p (b # B)" using assms(1) links_append [of n p A a "b # B"] by (cases B; simp)+
  have "links (n(a := e, e := b)) (p(e := a, b := e)) (A @ [a])"
    using l(1) assms(2,3) by (cases A) (simp_all add: links_next links_prev)
  moreover have "links (n(a := e, e := b)) (p(e := a, b := e)) (b # B)"
    using l(2) assms(2,3) by (cases B rule: rev_cases) (simp_all add: links_next links_prev)
  ultimately show ?thesis using assms(2,3) unfolding links_append [of _ _ A a "e # b # B"] by auto
qed

lemma links_delete:
  assumes "links n p (A @ a # e # b # B)" and "distinct (A @ a # e # b # B)"
  shows "links (n(a := b)) (p(b := a)) (A @ a # b # B)" and "n e = b" and "p e = a"
proof -
  have l: "links n p (A @ [a])" "links n p (b # B)" "n a = e" "p e = a" "n e = b"
    using assms(1) links_append [of n p A a "e # b # B"] by simp_all
  then show "n e = b" "p e = a" by auto
  have "links (n(a := b)) (p(b := a)) (A @ [a])"
    using l(1) assms(2) by (cases A) (simp_all add: links_next links_prev)
  moreover have "links (n(a := b)) (p(b := a)) (b # B)"
    using l(2) assms(2) by (cases B rule: rev_cases) (simp_all add: links_next links_prev)
  ultimately show "links (n(a := b)) (p(b := a)) (A @ a # b # B)" unfolding links_append [of _ _ A a "b # B"] by simp
qed

subsection \<open>Representation\<close>

definition dl_chain :: "dbl_list \<Rightarrow> nat list \<Rightarrow> nat list" where
  "dl_chain d xs = dl_Head d # xs @ [dl_Tail d]"

definition dl_rep :: "dbl_list \<Rightarrow> link_heap \<Rightarrow> nat list \<Rightarrow> bool" where
  "dl_rep d h xs \<longleftrightarrow> links (l_next h) (l_prev h) (dl_chain d xs) \<and> distinct (dl_chain d xs) \<and> 0 \<notin> set (dl_chain d xs)
     \<and> dl_length d = int (length xs)"

definition same_outside :: "nat set \<Rightarrow> link_heap \<Rightarrow> link_heap \<Rightarrow> bool" where
  "same_outside S h h' \<longleftrightarrow> (\<forall>a. a \<notin> S \<longrightarrow> l_next h' a = l_next h a \<and> l_prev h' a = l_prev h a)"

lemma dl_rep_frame:
  assumes "dl_rep d h xs" and "same_outside S h h'" and "S \<inter> set (dl_chain d xs) = {}"
  shows "dl_rep d h' xs"
proof -
  have "links (l_next h') (l_prev h') (dl_chain d xs) = links (l_next h) (l_prev h) (dl_chain d xs)"
    using assms(2,3) by (intro links_cong) (auto simp: same_outside_def)
  with assms(1) show ?thesis by (simp add: dl_rep_def)
qed

lemma dl_rep_locked [simp]:
  "dl_rep (d\<lparr>dl_locked := b\<rparr>) h xs = dl_rep d h xs" "dl_rep (d\<lparr>dl_writers := i\<rparr>) h xs = dl_rep d h xs"
  "dl_chain (d\<lparr>dl_locked := b\<rparr>) xs = dl_chain d xs" "dl_chain (d\<lparr>dl_length := k\<rparr>) xs = dl_chain d xs"
  "dl_chain (d\<lparr>dl_writers := i\<rparr>) xs = dl_chain d xs"
  by (simp_all add: dl_rep_def dl_chain_def)

lemma set_both: "h\<lparr>l_prev := p, l_next := n\<rparr> = h\<lparr>l_next := n, l_prev := p\<rparr>"
  by simp

lemma with_lock_ok:
  assumes "\<not> dl_locked d" and "f (d\<lparr>dl_locked := True\<rparr>) = Some (r, d\<lparr>dl_locked := True, dl_length := k\<rparr>, h)"
  shows "with_lock f d = Some (r, d\<lparr>dl_length := k\<rparr>, h)"
  using assms by (simp add: with_lock_def dl_lock_def dl_unlock_def)

lemmas field_defs = ld_next_def ld_prev_def st_next_def st_prev_def

lemma init_list_ok:
  assumes "head \<noteq> 0" "tail \<noteq> 0" "head \<noteq> tail"
  shows "\<exists>d h'. DoubleLinkList head tail h = Some (d, h') \<and> dl_rep d h' [] \<and> dl_Head d = head \<and> dl_Tail d = tail
    \<and> \<not> dl_locked d \<and> dl_readers d = 0 \<and> same_outside {head, tail} h h'"
  using assms by (auto simp: DoubleLinkList_def field_defs dl_rep_def dl_chain_def same_outside_def)

text \<open>The element before the \<^verbatim>\<open>Tail\<close>, and the one after the \<^verbatim>\<open>Head\<close>.\<close>

lemma chain_last: "dl_chain d xs = butlast (dl_Head d # xs) @ last (dl_Head d # xs) # dl_Tail d # []"
  unfolding dl_chain_def by (metis append.assoc append_Cons append_Nil append_butlast_last_id list.distinct(1))

lemma chain_first: "dl_chain d xs = [] @ dl_Head d # hd (xs @ [dl_Tail d]) # tl (xs @ [dl_Tail d])"
  by (simp add: dl_chain_def)

lemma chain_split: "dl_Head d # ys = A @ [a] \<Longrightarrow> dl_chain d (ys @ zs) = A @ a # zs @ [dl_Tail d]"
  unfolding dl_chain_def by (metis append.assoc append_Cons append_Nil)

lemma append_ok:
  assumes rep: "dl_rep d h xs" and e: "e \<noteq> 0" "e \<notin> set (dl_chain d xs)"
  shows "\<exists>h'. AppendNoLock e d h = Some ((), d\<lparr>dl_length := dl_length d + 1\<rparr>, h')
    \<and> dl_rep (d\<lparr>dl_length := dl_length d + 1\<rparr>) h' (xs @ [e]) \<and> same_outside (insert e (set (dl_chain d xs))) h h'"
proof -
  let ?a = "last (dl_Head d # xs)" and ?A = "butlast (dl_Head d # xs)"
  note c = chain_last [of d xs]
  have l: "links (l_next h) (l_prev h) (?A @ ?a # dl_Tail d # [])" "distinct (?A @ ?a # dl_Tail d # [])"
      "e \<notin> set (?A @ ?a # dl_Tail d # [])" "0 \<notin> set (?A @ ?a # dl_Tail d # [])"
    using rep e(2) unfolding dl_rep_def c by blast+
  have "l_prev h (dl_Tail d) = ?a" using links_mid [OF l(1)] by simp
  moreover have "?a \<noteq> 0" "dl_Tail d \<noteq> 0" "?a \<in> set (dl_chain d xs)" "dl_Tail d \<in> set (dl_chain d xs)"
    using l(4) unfolding c by auto
  moreover have "dl_chain d (xs @ [e]) = ?A @ ?a # e # dl_Tail d # []"
    unfolding dl_chain_def by (metis append.assoc append_Cons append_Nil append_butlast_last_id list.distinct(1))
  ultimately show ?thesis
    using links_insert [OF l(1-3)] l(2-4) e(1) rep
    by (auto simp: AppendNoLock_def field_defs dl_rep_def same_outside_def)
qed

lemma prepend_ok:
  assumes rep: "dl_rep d h xs" and e: "e \<noteq> 0" "e \<notin> set (dl_chain d xs)"
  shows "\<exists>h'. PrependNoLock e d h = Some ((), d\<lparr>dl_length := dl_length d + 1\<rparr>, h')
    \<and> dl_rep (d\<lparr>dl_length := dl_length d + 1\<rparr>) h' (e # xs) \<and> same_outside (insert e (set (dl_chain d xs))) h h'"
proof -
  let ?b = "hd (xs @ [dl_Tail d])" and ?B = "tl (xs @ [dl_Tail d])"
  note c = chain_first [of d xs]
  have l: "links (l_next h) (l_prev h) ([] @ dl_Head d # ?b # ?B)" "distinct ([] @ dl_Head d # ?b # ?B)"
      "e \<notin> set ([] @ dl_Head d # ?b # ?B)" "0 \<notin> set ([] @ dl_Head d # ?b # ?B)"
    using rep e(2) unfolding dl_rep_def c by blast+
  have "l_next h (dl_Head d) = ?b" using links_mid [OF l(1)] by simp
  moreover have "?b \<noteq> 0" "dl_Head d \<noteq> 0" "?b \<in> set (dl_chain d xs)" "dl_Head d \<in> set (dl_chain d xs)"
    using l(4) unfolding c by (metis append_Nil list.set_intros)+
  moreover have "dl_chain d (e # xs) = [] @ dl_Head d # e # ?b # ?B" by (simp add: dl_chain_def)
  moreover have "dl_Head d \<noteq> e" using l(3) by auto
  ultimately show ?thesis
    using links_insert [OF l(1-3)] l(2-4) e(1) rep
    by (auto simp: PrependNoLock_def field_defs dl_rep_def same_outside_def fun_upd_twist)
qed

text \<open>Taking out an element, wherever it is; it is the last one and the first one in two of the cases.\<close>

lemma unlink_mid:
  assumes rep: "dl_rep d h (ys @ e # zs)"
  defines "a \<equiv> last (dl_Head d # ys)" and "b \<equiv> hd (zs @ [dl_Tail d])"
  shows "l_prev h e = a" "l_next h e = b" "a \<noteq> 0" "b \<noteq> 0" "e \<noteq> 0"
    "a \<in> set (dl_chain d (ys @ e # zs))" "b \<in> set (dl_chain d (ys @ e # zs))"
    "dl_rep (d\<lparr>dl_length := dl_length d - 1\<rparr>) (h\<lparr>l_next := (l_next h)(a := b), l_prev := (l_prev h)(b := a)\<rparr>) (ys @ zs)"
proof -
  define A B where "A = butlast (dl_Head d # ys)" and "B = tl (zs @ [dl_Tail d])"
  have s: "dl_Head d # ys = A @ [a]" "zs @ [dl_Tail d] = b # B" by (simp_all add: A_def B_def a_def b_def)
  have c: "dl_chain d (ys @ e # zs) = A @ a # e # b # B" "dl_chain d (ys @ zs) = A @ a # b # B"
    using chain_split [OF s(1), of "e # zs"] chain_split [OF s(1), of zs] s(2) by simp_all
  have l: "links (l_next h) (l_prev h) (A @ a # e # b # B)" "distinct (A @ a # e # b # B)" "0 \<notin> set (A @ a # e # b # B)"
    using rep unfolding dl_rep_def c by blast+
  note dl = links_delete [OF l(1,2)]
  then show "l_prev h e = a" "l_next h e = b" by auto
  show "a \<noteq> 0" "b \<noteq> 0" "e \<noteq> 0" using l(3) by auto
  show "a \<in> set (dl_chain d (ys @ e # zs))" "b \<in> set (dl_chain d (ys @ e # zs))" unfolding c by auto
  show "dl_rep (d\<lparr>dl_length := dl_length d - 1\<rparr>) (h\<lparr>l_next := (l_next h)(a := b), l_prev := (l_prev h)(b := a)\<rparr>) (ys @ zs)"
    using dl(1) l(2,3) rep unfolding dl_rep_def dl_rep_locked c by auto
qed

lemma remove_ok:
  assumes rep: "dl_rep d h (ys @ e # zs)"
  shows "\<exists>h'. RemoveLinkNoLock e d h = Some (last (dl_Head d # ys), d\<lparr>dl_length := dl_length d - 1\<rparr>, h')
    \<and> dl_rep (d\<lparr>dl_length := dl_length d - 1\<rparr>) h' (ys @ zs) \<and> same_outside (set (dl_chain d (ys @ e # zs))) h h'
    \<and> l_next h' e = l_next h e \<and> l_prev h' e = l_prev h e"
proof -
  note u = unlink_mid [OF rep]
  have "dl_length d \<noteq> 0" "e \<noteq> last (dl_Head d # ys)" "e \<noteq> hd (zs @ [dl_Tail d])"
    using rep by (auto simp: dl_rep_def dl_chain_def hd_append split: if_splits)
  with u show ?thesis by (auto simp: RemoveLinkNoLock_def field_defs same_outside_def)
qed

lemma get_last_ok:
  assumes rep: "dl_rep d h xs"
  shows "if xs = [] then GetLastElementNoLock d h = Some (0, d, h)
    else \<exists>h'. GetLastElementNoLock d h = Some (last xs, d\<lparr>dl_length := dl_length d - 1\<rparr>, h')
      \<and> dl_rep (d\<lparr>dl_length := dl_length d - 1\<rparr>) h' (butlast xs) \<and> same_outside (set (dl_chain d xs)) h h'"
proof (cases xs rule: rev_cases)
  case Nil
  with rep show ?thesis by (simp add: dl_rep_def GetLastElementNoLock_def)
next
  case (snoc ys e)
  note u = unlink_mid [OF rep [unfolded snoc], simplified]
  have "links (l_next h) (l_prev h) ((dl_Head d # ys) @ e # dl_Tail d # [])" "dl_length d \<noteq> 0"
    using rep snoc by (simp_all add: dl_rep_def dl_chain_def)
  with links_mid [OF this(1)] u show ?thesis
    unfolding snoc by (auto simp: GetLastElementNoLock_def field_defs same_outside_def)
qed

lemma get_first_ok:
  assumes rep: "dl_rep d h xs"
  shows "if xs = [] then GetfirstElementNoLock d h = Some (dl_Tail d, d, h)
    else \<exists>h'. GetfirstElementNoLock d h = Some (hd xs, d\<lparr>dl_length := dl_length d - 1\<rparr>, h')
      \<and> dl_rep (d\<lparr>dl_length := dl_length d - 1\<rparr>) h' (tl xs) \<and> same_outside (set (dl_chain d xs)) h h'"
proof (cases xs)
  case Nil
  with rep show ?thesis by (simp add: dl_rep_def GetfirstElementNoLock_def)
next
  case (Cons e zs)
  have rep': "dl_rep d h ([] @ e # zs)" using rep Cons by simp
  note u = unlink_mid [OF rep', simplified]
  have "l_next h (dl_Head d) = e" "dl_length d \<noteq> 0" using rep Cons by (auto simp: dl_rep_def dl_chain_def)
  with u show ?thesis
    unfolding Cons by (auto simp: GetfirstElementNoLock_def field_defs same_outside_def set_both)
qed

text \<open>Moving all elements of a list that is not empty to the end of another one.\<close>

lemma move_ok:
  assumes rep: "dl_rep d h xs" and new: "dl_rep d' h ys" and dis: "set (dl_chain d xs) \<inter> set (dl_chain d' ys) = {}" and ne: "xs \<noteq> []"
  shows "\<exists>h'. MoveListNoLock d' d h = Some (d\<lparr>dl_length := 0\<rparr>, d'\<lparr>dl_length := dl_length d' + dl_length d\<rparr>, h')
    \<and> dl_rep (d\<lparr>dl_length := 0\<rparr>) h' [] \<and> dl_rep (d'\<lparr>dl_length := dl_length d' + dl_length d\<rparr>) h' (ys @ xs)
    \<and> same_outside (set (dl_chain d xs) \<union> set (dl_chain d' ys)) h h'"
proof -
  let ?n = "l_next h" and ?p = "l_prev h" and ?H = "dl_Head d" and ?T = "dl_Tail d" and ?T' = "dl_Tail d'"
  let ?f = "hd xs" and ?l = "last xs"
  obtain A a where A: "dl_Head d' # ys = A @ [a]" by (metis list.distinct(1) rev_exhaust)
  have c': "dl_chain d' ys = A @ a # [?T']" "dl_chain d' (ys @ xs) = A @ a # xs @ [?T']"
    using chain_split [OF A, of "[]"] chain_split [OF A, of xs] by simp_all
  have lx: "links ?n ?p (?H # xs @ [?T])" "links ?n ?p (A @ a # [?T'])"
    using rep new unfolding dl_rep_def c'(1) unfolding dl_chain_def by blast+
  have ends: "?n ?H = ?f" "?p ?f = ?H" using lx(1) ne by (cases xs; simp)+
  have xl: "xs @ [t] = butlast xs @ ?l # [t]" for t using ne by (metis append.assoc append_Cons append_Nil append_butlast_last_id)
  have e2: "?n ?l = ?T" "?p ?T = ?l"
    using lx(1) links_mid [of ?n ?p "?H # butlast xs" ?l ?T "[]"] unfolding xl by simp_all
  have e3: "?p ?T' = a" using links_mid [OF lx(2)] by simp
  have lA: "links ?n ?p (A @ [a])" using lx(2) links_append [of ?n ?p A a "[?T']"] by simp
  have lxs: "links ?n ?p xs" using lx(1) ne
  proof -
    have "links ?n ?p (xs @ [?T])" using lx(1) by (cases xs) auto
    then show ?thesis using links_append [of ?n ?p "butlast xs" ?l "[?T]"] ne unfolding xl by simp
  qed
  have dist: "distinct (?H # xs @ [?T])" "distinct (A @ a # [?T'])" "0 \<notin> set (?H # xs @ [?T])" "0 \<notin> set (A @ a # [?T'])"
    using rep new unfolding dl_rep_def c'(1) by (auto simp: dl_chain_def)
  have disj: "set (?H # xs @ [?T]) \<inter> set (A @ a # [?T']) = {}" using dis unfolding c'(1) by (simp add: dl_chain_def)
  have mem: "?f \<in> set xs" "?l \<in> set xs" using ne by simp_all
  have sub: "z \<notin> set (A @ a # [?T'])" if "z \<in> set (?H # xs @ [?T])" for z using disj that by blast
  let ?n' = "?n(a := ?f, ?l := ?T', ?H := ?T)" and ?p' = "?p(?f := a, ?T' := ?l, ?T := ?H)"
  have "links ?n' ?p' (A @ [a])"
  proof -
    have "?H \<notin> set (A @ [a])" "?T \<notin> set (A @ [a])" "?f \<notin> set (A @ [a])" "?l \<notin> set (A @ [a])" "?T' \<notin> set (A @ [a])"
      using sub [of ?H] sub [of ?T] sub [of ?f] sub [of ?l] dist(2) mem by simp_all
    then have "links ?n' ?p' (A @ [a]) = links (?n(a := ?f)) ?p (A @ [a])" by (simp only: links_out not_False_eq_True)
    also have "\<dots> = links ?n ?p (A @ [a])" using dist(2) by (simp add: links_next)
    finally show ?thesis using lA by simp
  qed
  moreover have "links ?n' ?p' xs"
  proof -
    have "?H \<notin> set xs" "?T \<notin> set xs" "?T' \<notin> set xs" "a \<notin> set xs"
      using sub [of ?T'] sub [of a] dist(1) by auto
    then have "links ?n' ?p' xs = links (?n(a := ?f, ?l := ?T')) (?p(?f := a)) xs" by (simp only: links_out not_False_eq_True)
    also have "\<dots> = links (?n(?l := ?T')) (?p(?f := a)) xs"
      using \<open>a \<notin> set xs\<close> mem(2) fun_upd_twist [of a ?l ?n ?f ?T'] links_out(1) [of a xs] by (metis (no_types))
    also have "\<dots> = links ?n ?p xs"
      using dist ne distinct_ends [of xs] by (simp add: links_next links_prev)
    finally show ?thesis using lxs by simp
  qed
  moreover have "?n' a = ?f" "?p' ?f = a" "?n' ?l = ?T'" "?p' ?T' = ?l"
    using sub [of ?H] sub [of ?T] sub [of ?l] sub [of ?f] dist(1) mem by auto
  ultimately have l': "links ?n' ?p' (A @ a # xs @ [?T'])"
  proof -
    assume l: "links ?n' ?p' (A @ [a])" "links ?n' ?p' xs"
      and e: "?n' a = ?f" "?p' ?f = a" "?n' ?l = ?T'" "?p' ?T' = ?l"
    have "links ?n' ?p' (xs @ [?T'])"
      using l(2) e(3,4) links_append [of ?n' ?p' "butlast xs" ?l "[?T']"] ne unfolding xl by simp
    then have "links ?n' ?p' (a # xs @ [?T'])" using e(1,2) ne by (cases xs) auto
    with l(1) show ?thesis using links_append [of ?n' ?p' A a "xs @ [?T']"] by simp
  qed
  have "links ?n' ?p' [?H, ?T]" using sub [of ?T] by simp
  moreover have "z \<noteq> 0" if "z \<in> set xs" for z using dist(3) that by (cases "z = 0") auto
  then have "?f \<noteq> 0" "?l \<noteq> 0" "a \<noteq> 0" "?T' \<noteq> 0" "?H \<noteq> 0" "?T \<noteq> 0" using dist(3,4) mem by auto
  moreover note this
  moreover have "MoveListNoLock d' d h = Some (d\<lparr>dl_length := 0\<rparr>, d'\<lparr>dl_length := dl_length d' + dl_length d\<rparr>,
      h\<lparr>l_next := ?n', l_prev := ?p'\<rparr>)"
    using calculation ends(1) e2(2) e3 by (simp add: MoveListNoLock_def AppendListNoLock_def field_defs set_both)
  moreover have "distinct (A @ a # xs @ [?T'])" "0 \<notin> set (A @ a # xs @ [?T'])" using dist disj by auto
  moreover have "same_outside (set (dl_chain d xs) \<union> set (dl_chain d' ys)) h (h\<lparr>l_next := ?n', l_prev := ?p'\<rparr>)"
    using mem unfolding c'(1) by (auto simp: same_outside_def dl_chain_def)
  ultimately show ?thesis
    using l' rep new dist(1,3) unfolding dl_rep_def dl_rep_locked c'(2)
    by (intro exI [of _ "h\<lparr>l_next := ?n', l_prev := ?p'\<rparr>"]) (auto simp: dl_chain_def)
qed

end
