(* ===== verification/Dbl_List_Session.thy ===== *)
theory Dbl_List_Session
  imports Dbl_List_Props
begin

section \<open>Many lists in one heap\<close>

text \<open>
  The queues of the library share one pool of elements, which move from list to list. The locale \<open>heap_lists\<close> is what
  such a family needs of a list: that a change of the heap away from its cells does not disturb it. Its instance for
  \<open>dl_rep\<close> carries the session theorem: any sequence of the public operations on any number of lists does what the same
  operations do on sequences.
\<close>

subsection \<open>Families of lists\<close>

locale heap_lists =
  fixes rep :: "'d \<Rightarrow> 'h \<Rightarrow> nat list \<Rightarrow> bool" and cells :: "'d \<Rightarrow> nat list \<Rightarrow> nat set" and same :: "nat set \<Rightarrow> 'h \<Rightarrow> 'h \<Rightarrow> bool"
  assumes frame: "rep d h xs \<Longrightarrow> same S h h' \<Longrightarrow> S \<inter> cells d xs = {} \<Longrightarrow> rep d h' xs"
begin

definition family :: "nat \<Rightarrow> (nat \<Rightarrow> 'd) \<Rightarrow> 'h \<Rightarrow> (nat \<Rightarrow> nat list) \<Rightarrow> bool" where
  "family N ds h qs \<longleftrightarrow> (\<forall>i < N. rep (ds i) h (qs i))
     \<and> (\<forall>i < N. \<forall>j < N. i \<noteq> j \<longrightarrow> cells (ds i) (qs i) \<inter> cells (ds j) (qs j) = {})"

definition all_cells :: "nat \<Rightarrow> (nat \<Rightarrow> 'd) \<Rightarrow> (nat \<Rightarrow> nat list) \<Rightarrow> nat set" where
  "all_cells N ds qs = (\<Union>i < N. cells (ds i) (qs i))"

lemma familyI:
  assumes "\<And>i. i < N \<Longrightarrow> rep (ds i) h (qs i)"
    and "\<And>i j. i < N \<Longrightarrow> j < N \<Longrightarrow> i \<noteq> j \<Longrightarrow> cells (ds i) (qs i) \<inter> cells (ds j) (qs j) = {}"
  shows "family N ds h qs"
  using assms by (simp add: family_def)

lemma familyD:
  assumes "family N ds h qs"
  shows "i < N \<Longrightarrow> rep (ds i) h (qs i)"
    and "i < N \<Longrightarrow> j < N \<Longrightarrow> i \<noteq> j \<Longrightarrow> cells (ds i) (qs i) \<inter> cells (ds j) (qs j) = {}"
  using assms by (simp_all add: family_def)

lemma family_one:
  assumes f: "family N ds h qs" and i: "i < N" and rep: "rep d h' xs" and same: "same (cells (ds i) (qs i) \<union> E) h h'"
    and c: "cells d xs \<subseteq> cells (ds i) (qs i) \<union> E" and E: "E \<inter> all_cells N ds qs = {}"
  shows "family N (ds(i := d)) h' (qs(i := xs))"
proof -
  have other: "(cells (ds i) (qs i) \<union> E) \<inter> cells (ds j) (qs j) = {}" if "j < N" "j \<noteq> i" for j
    using familyD(2) [OF f i, of j] E that unfolding all_cells_def by blast
  then have old: "rep (ds j) h' (qs j)" "cells d xs \<inter> cells (ds j) (qs j) = {}" if "j < N" "j \<noteq> i" for j
    using frame [OF familyD(1) [OF f] same, of j] c that by blast+
  show ?thesis
  proof (rule familyI)
    show "rep ((ds(i := d)) j) h' ((qs(i := xs)) j)" if "j < N" for j using old(1) [OF that] rep by simp
    show "cells ((ds(i := d)) j) ((qs(i := xs)) j) \<inter> cells ((ds(i := d)) k) ((qs(i := xs)) k) = {}" if "j < N" "k < N" "j \<noteq> k" for j k
      using old(2) [of j] old(2) [of k] familyD(2) [OF f that] that by (cases "j = i"; cases "k = i") (auto simp: Int_commute)
  qed
qed

lemma family_two:
  assumes f: "family N ds h qs" and ij: "i < N" "j < N" "i \<noteq> j" and rep: "rep d h' xs" "rep d' h' ys"
    and same: "same (cells (ds i) (qs i) \<union> cells (ds j) (qs j)) h h'"
    and c: "cells d xs \<subseteq> cells (ds i) (qs i)" "cells d' ys \<subseteq> cells (ds i) (qs i) \<union> cells (ds j) (qs j)"
      "cells d xs \<inter> cells d' ys = {}"
  shows "family N (ds(i := d, j := d')) h' (qs(i := xs, j := ys))"
proof -
  have other: "(cells (ds i) (qs i) \<union> cells (ds j) (qs j)) \<inter> cells (ds k) (qs k) = {}" if "k < N" "k \<noteq> i" "k \<noteq> j" for k
    using familyD(2) [OF f ij(1), of k] familyD(2) [OF f ij(2), of k] that by blast
  then have old: "rep (ds k) h' (qs k)" "cells d xs \<inter> cells (ds k) (qs k) = {}" "cells d' ys \<inter> cells (ds k) (qs k) = {}"
    if "k < N" "k \<noteq> i" "k \<noteq> j" for k
    using frame [OF familyD(1) [OF f] same, of k] c that by blast+
  let ?ds = "ds(i := d, j := d')" and ?qs = "qs(i := xs, j := ys)"
  have cl: "cells (?ds k) (?qs k) = (if k = i then cells d xs else if k = j then cells d' ys else cells (ds k) (qs k))" for k
    using ij(3) by simp
  show ?thesis
  proof (rule familyI)
    show "rep (?ds k) h' (?qs k)" if "k < N" for k using old(1) [OF that] rep ij(3) by simp
    show "cells (?ds k) (?qs k) \<inter> cells (?ds m) (?qs m) = {}" if "k < N" "m < N" "k \<noteq> m" for k m
      using old(2,3) [of k] old(2,3) [of m] familyD(2) [OF f that] c(3) that unfolding cl by (auto simp: Int_commute)
  qed
qed

end

definition dl_cells :: "dbl_list \<Rightarrow> nat list \<Rightarrow> nat set" where
  "dl_cells d xs = set (dl_chain d xs)"

interpretation dl: heap_lists dl_rep dl_cells same_outside
  by unfold_locales (simp add: dl_cells_def dl_rep_frame)

lemma dl_cells_eq: "dl_cells d xs = {dl_Head d, dl_Tail d} \<union> set xs"
  by (auto simp: dl_cells_def dl_chain_def)

subsection \<open>Sessions\<close>

datatype q_op = QAppend nat nat | QPrepend nat nat | QFirst nat | QLast nat | QRemove nat nat | QMove nat nat | QSize nat

type_synonym q_state = "(nat \<Rightarrow> dbl_list) \<times> link_heap"

definition on_list :: "(dbl_list \<Rightarrow> link_heap \<Rightarrow> ('a \<times> dbl_list \<times> link_heap) option) \<Rightarrow> nat \<Rightarrow> q_state \<Rightarrow> ('a \<times> q_state) option" where
  "on_list f i s = (case s of (ds, h) \<Rightarrow> map_option (\<lambda>(r, d, h'). (r, ds(i := d), h')) (f (ds i) h))"

fun q_call :: "q_op \<Rightarrow> q_state \<Rightarrow> (int \<times> q_state) option" where
  "q_call (QAppend i e) s = map_option (\<lambda>(_, s'). (0, s')) (on_list (Append e) i s)"
| "q_call (QPrepend i e) s = map_option (\<lambda>(_, s'). (0, s')) (on_list (Prepend e) i s)"
| "q_call (QFirst i) s = map_option (\<lambda>(r, s'). (int r, s')) (on_list GetfirstElement i s)"
| "q_call (QLast i) s = map_option (\<lambda>(r, s'). (int r, s')) (on_list GetLastElement i s)"
| "q_call (QRemove i e) s = map_option (\<lambda>(r, s'). (int r, s')) (on_list (RemoveLink e) i s)"
| "q_call (QMove i j) (ds, h) = map_option (\<lambda>(d, d', h'). (0, ds(i := d, j := d'), h')) (MoveList (ds j) (ds i) h)"
| "q_call (QSize i) (ds, h) = Some (dl_length (ds i), ds, h)"

fun q_calls :: "q_op list \<Rightarrow> q_state \<Rightarrow> (int list \<times> q_state) option" where
  "q_calls [] s = Some ([], s)"
| "q_calls (c # cs) s = do {
     (a, s1) \<leftarrow> q_call c s;
     (as, s2) \<leftarrow> q_calls cs s1;
     Some (a # as, s2)
   }"

text \<open>The same on sequences; \<open>hd_of i\<close> and \<open>tl_of i\<close> are the sentinels of list \<open>i\<close>.\<close>

definition before :: "nat list \<Rightarrow> nat \<Rightarrow> nat list" where
  "before xs e = takeWhile (\<lambda>x. x \<noteq> e) xs"

fun q_spec :: "(nat \<Rightarrow> nat) \<Rightarrow> (nat \<Rightarrow> nat) \<Rightarrow> q_op \<Rightarrow> (nat \<Rightarrow> nat list) \<Rightarrow> int \<times> (nat \<Rightarrow> nat list)" where
  "q_spec hd_of tl_of (QAppend i e) qs = (0, qs(i := qs i @ [e]))"
| "q_spec hd_of tl_of (QPrepend i e) qs = (0, qs(i := e # qs i))"
| "q_spec hd_of tl_of (QFirst i) qs = (int (hd (qs i @ [tl_of i])), qs(i := tl (qs i)))"
| "q_spec hd_of tl_of (QLast i) qs = (int (last (0 # qs i)), qs(i := butlast (qs i)))"
| "q_spec hd_of tl_of (QRemove i e) qs = (int (last (hd_of i # before (qs i) e)), qs(i := remove1 e (qs i)))"
| "q_spec hd_of tl_of (QMove i j) qs = (0, qs(i := [], j := qs j @ qs i))"
| "q_spec hd_of tl_of (QSize i) qs = (int (length (qs i)), qs)"

text \<open>What a caller has to see to: an element that is added is in no list and is no sentinel, and an element that is removed is
  in the list. Two calls that the code accepts and mishandles are excluded as well: moving an empty list, which damages
  the other one (\<open>move_empty_list_breaks_target\<close>), and moving a list onto itself, which takes its lock twice.\<close>

fun q_legal :: "nat \<Rightarrow> (nat \<Rightarrow> nat) \<Rightarrow> (nat \<Rightarrow> nat) \<Rightarrow> (nat \<Rightarrow> nat list) \<Rightarrow> q_op \<Rightarrow> bool" where
  "q_legal N hd_of tl_of qs (QAppend i e) \<longleftrightarrow> i < N \<and> e \<noteq> 0 \<and> list_all (\<lambda>j. e \<notin> set (hd_of j # tl_of j # qs j)) [0..<N]"
| "q_legal N hd_of tl_of qs (QPrepend i e) \<longleftrightarrow> i < N \<and> e \<noteq> 0 \<and> list_all (\<lambda>j. e \<notin> set (hd_of j # tl_of j # qs j)) [0..<N]"
| "q_legal N hd_of tl_of qs (QFirst i) \<longleftrightarrow> i < N"
| "q_legal N hd_of tl_of qs (QLast i) \<longleftrightarrow> i < N"
| "q_legal N hd_of tl_of qs (QRemove i e) \<longleftrightarrow> i < N \<and> e \<in> set (qs i)"
| "q_legal N hd_of tl_of qs (QMove i j) \<longleftrightarrow> i < N \<and> j < N \<and> i \<noteq> j \<and> qs i \<noteq> []"
| "q_legal N hd_of tl_of qs (QSize i) \<longleftrightarrow> i < N"

fun q_legals :: "nat \<Rightarrow> (nat \<Rightarrow> nat) \<Rightarrow> (nat \<Rightarrow> nat) \<Rightarrow> (nat \<Rightarrow> nat list) \<Rightarrow> q_op list \<Rightarrow> bool" where
  "q_legals N hd_of tl_of qs [] \<longleftrightarrow> True"
| "q_legals N hd_of tl_of qs (c # cs) \<longleftrightarrow>
     q_legal N hd_of tl_of qs c \<and> q_legals N hd_of tl_of (snd (q_spec hd_of tl_of c qs)) cs"

fun q_specs :: "(nat \<Rightarrow> nat) \<Rightarrow> (nat \<Rightarrow> nat) \<Rightarrow> q_op list \<Rightarrow> (nat \<Rightarrow> nat list) \<Rightarrow> int list \<times> (nat \<Rightarrow> nat list)" where
  "q_specs hd_of tl_of [] qs = ([], qs)"
| "q_specs hd_of tl_of (c # cs) qs =
     (let (a, qs1) = q_spec hd_of tl_of c qs; (as, qs2) = q_specs hd_of tl_of cs qs1 in (a # as, qs2))"

definition q_inv :: "nat \<Rightarrow> (nat \<Rightarrow> nat) \<Rightarrow> (nat \<Rightarrow> nat) \<Rightarrow> q_state \<Rightarrow> (nat \<Rightarrow> nat list) \<Rightarrow> bool" where
  "q_inv N hd_of tl_of s qs \<longleftrightarrow> dl.family N (fst s) (snd s) qs
     \<and> (\<forall>i < N. dl_Head (fst s i) = hd_of i \<and> dl_Tail (fst s i) = tl_of i \<and> \<not> dl_locked (fst s i))"

lemma with_lock_run:
  assumes "\<not> dl_locked d" and "f (d\<lparr>dl_locked := True\<rparr>) = Some (r, (d\<lparr>dl_locked := True\<rparr>)\<lparr>dl_length := k\<rparr>, h)"
  shows "with_lock f d = Some (r, d\<lparr>dl_length := k\<rparr>, h)"
  using assms by (simp add: with_lock_def dl_lock_def dl_unlock_def)

lemma q_one:
  assumes inv: "q_inv N hd_of tl_of (ds, h) qs" and i: "i < N" and f: "f (ds i) h = Some (r, (ds i)\<lparr>dl_length := k\<rparr>, h')"
    and rep: "dl_rep ((ds i)\<lparr>dl_length := k\<rparr>) h' xs" and same: "same_outside (dl_cells (ds i) (qs i) \<union> E) h h'"
    and c: "set xs \<subseteq> set (qs i) \<union> E" and E: "\<forall>j < N. E \<inter> dl_cells (ds j) (qs j) = {}"
  shows "\<exists>s'. on_list f i (ds, h) = Some (r, s') \<and> q_inv N hd_of tl_of s' (qs(i := xs))"
proof -
  have f0: "dl.family N ds h qs" using inv by (simp add: q_inv_def)
  have "dl_cells ((ds i)\<lparr>dl_length := k\<rparr>) xs \<subseteq> dl_cells (ds i) (qs i) \<union> E" using c by (auto simp: dl_cells_eq)
  moreover have "E \<inter> dl.all_cells N ds qs = {}" using E unfolding dl.all_cells_def by blast
  ultimately have "dl.family N (ds(i := (ds i)\<lparr>dl_length := k\<rparr>)) h' (qs(i := xs))"
    by (rule dl.family_one [OF f0 i rep same])
  then have "q_inv N hd_of tl_of (ds(i := (ds i)\<lparr>dl_length := k\<rparr>), h') (qs(i := xs))" using inv by (auto simp: q_inv_def)
  with f show ?thesis by (auto simp: on_list_def)
qed

lemma dl_rep_lock_length [simp]: "dl_rep (d\<lparr>dl_locked := b, dl_length := k\<rparr>) h xs = dl_rep (d\<lparr>dl_length := k\<rparr>) h xs"
  by (simp add: dl_rep_def dl_chain_def)

text \<open>The operations that take the lock, by their versions that do not.\<close>

lemma locked_append:
  assumes rep: "dl_rep d h xs" and d: "\<not> dl_locked d" and e: "e \<noteq> 0" "e \<notin> dl_cells d xs"
  shows "\<exists>h'. Append e d h = Some ((), d\<lparr>dl_length := dl_length d + 1\<rparr>, h')
    \<and> dl_rep (d\<lparr>dl_length := dl_length d + 1\<rparr>) h' (xs @ [e]) \<and> same_outside (dl_cells d xs \<union> {e}) h h'"
  using append_ok [of "d\<lparr>dl_locked := True\<rparr>" h xs e] assms
  by (auto simp: Append_def with_lock_run dl_cells_def)

lemma locked_prepend:
  assumes rep: "dl_rep d h xs" and d: "\<not> dl_locked d" and e: "e \<noteq> 0" "e \<notin> dl_cells d xs"
  shows "\<exists>h'. Prepend e d h = Some ((), d\<lparr>dl_length := dl_length d + 1\<rparr>, h')
    \<and> dl_rep (d\<lparr>dl_length := dl_length d + 1\<rparr>) h' (e # xs) \<and> same_outside (dl_cells d xs \<union> {e}) h h'"
  using prepend_ok [of "d\<lparr>dl_locked := True\<rparr>" h xs e] assms
  by (auto simp: Prepend_def with_lock_run dl_cells_def)

lemma locked_first:
  assumes rep: "dl_rep d h xs" and d: "\<not> dl_locked d"
  shows "\<exists>k h'. GetfirstElement d h = Some (hd (xs @ [dl_Tail d]), d\<lparr>dl_length := k\<rparr>, h')
    \<and> dl_rep (d\<lparr>dl_length := k\<rparr>) h' (tl xs) \<and> same_outside (dl_cells d xs \<union> {}) h h'"
proof (cases "xs = []")
  case True
  then have "GetfirstElement d h = Some (dl_Tail d, d\<lparr>dl_length := 0\<rparr>, h)" using rep by (simp add: GetfirstElement_def dl_rep_def)
  with True rep show ?thesis by (auto simp: same_outside_def dl_rep_def)
next
  case False
  then have "dl_length d \<noteq> 0" using rep by (simp add: dl_rep_def)
  with get_first_ok [of "d\<lparr>dl_locked := True\<rparr>" h xs] rep d False show ?thesis
    by (auto simp: GetfirstElement_def with_lock_run dl_cells_def)
qed

lemma locked_last:
  assumes rep: "dl_rep d h xs" and d: "\<not> dl_locked d"
  shows "\<exists>k h'. GetLastElement d h = Some (last (0 # xs), d\<lparr>dl_length := k\<rparr>, h')
    \<and> dl_rep (d\<lparr>dl_length := k\<rparr>) h' (butlast xs) \<and> same_outside (dl_cells d xs \<union> {}) h h'"
proof (cases "xs = []")
  case True
  then have "GetLastElement d h = Some (0, d\<lparr>dl_length := 0\<rparr>, h)" using rep by (simp add: GetLastElement_def dl_rep_def)
  with True rep show ?thesis by (auto simp: same_outside_def dl_rep_def)
next
  case False
  then have "dl_length d \<noteq> 0" using rep by (simp add: dl_rep_def)
  with get_last_ok [of "d\<lparr>dl_locked := True\<rparr>" h xs] rep d False show ?thesis
    by (auto simp: GetLastElement_def with_lock_run dl_cells_def)
qed

lemma locked_remove:
  assumes rep: "dl_rep d h xs" and d: "\<not> dl_locked d" and e: "e \<in> set xs"
  shows "\<exists>k h'. RemoveLink e d h = Some (last (dl_Head d # before xs e), d\<lparr>dl_length := k\<rparr>, h')
    \<and> dl_rep (d\<lparr>dl_length := k\<rparr>) h' (remove1 e xs) \<and> same_outside (dl_cells d xs \<union> {}) h h'"
proof -
  obtain ys zs where xs: "xs = ys @ e # zs" "e \<notin> set ys" using e split_list_first by fast
  then have "\<forall>x \<in> set ys. x \<noteq> e" by metis
  with xs have b: "before xs e = ys" "remove1 e xs = ys @ zs" by (simp_all add: before_def takeWhile_append remove1_append)
  from remove_ok [of "d\<lparr>dl_locked := True\<rparr>" h ys e zs] rep xs(1) obtain h' where
    "RemoveLinkNoLock e (d\<lparr>dl_locked := True\<rparr>) h = Some (last (dl_Head d # ys), d\<lparr>dl_locked := True, dl_length := dl_length d - 1\<rparr>, h')"
    "dl_rep (d\<lparr>dl_length := dl_length d - 1\<rparr>) h' (ys @ zs)" "same_outside (dl_cells d xs \<union> {}) h h'"
    by (auto simp: dl_cells_def)
  with d b show ?thesis
    by (intro exI [of _ "dl_length d - 1"] exI [of _ h']) (simp add: RemoveLink_def with_lock_run del: last.simps)
qed

lemma locked_move:
  assumes rep: "dl_rep d h xs" "dl_rep d' h ys" and d: "\<not> dl_locked d" "\<not> dl_locked d'"
    and dis: "dl_cells d xs \<inter> dl_cells d' ys = {}" and ne: "xs \<noteq> []"
  shows "\<exists>h'. MoveList d' d h = Some (d\<lparr>dl_length := 0\<rparr>, d'\<lparr>dl_length := dl_length d' + dl_length d\<rparr>, h')
    \<and> dl_rep (d\<lparr>dl_length := 0\<rparr>) h' [] \<and> dl_rep (d'\<lparr>dl_length := dl_length d' + dl_length d\<rparr>) h' (ys @ xs)
    \<and> same_outside (dl_cells d xs \<union> dl_cells d' ys) h h'"
proof -
  from move_ok [OF rep dis [unfolded dl_cells_def] ne] obtain h' where
    m: "MoveListNoLock d' d h = Some (d\<lparr>dl_length := 0\<rparr>, d'\<lparr>dl_length := dl_length d' + dl_length d\<rparr>, h')"
    and r: "dl_rep (d\<lparr>dl_length := 0\<rparr>) h' []" "dl_rep (d'\<lparr>dl_length := dl_length d' + dl_length d\<rparr>) h' (ys @ xs)"
      "same_outside (dl_cells d xs \<union> dl_cells d' ys) h h'" by (auto simp: dl_cells_def)
  have "MoveList d' d h = Some (d\<lparr>dl_length := 0\<rparr>, d'\<lparr>dl_length := dl_length d' + dl_length d\<rparr>, h')"
    using m d unfolding MoveListNoLock_def MoveList_def
    by (auto simp: AppendList_def AppendListNoLock_def with_lock_def dl_lock_def dl_unlock_def bind_eq_Some_conv)
  with r show ?thesis by blast
qed

lemma q_call_ok:
  assumes inv: "q_inv N hd_of tl_of s qs" and legal: "q_legal N hd_of tl_of qs c" and sp: "q_spec hd_of tl_of c qs = (a, qs')"
  shows "\<exists>s'. q_call c s = Some (a, s') \<and> q_inv N hd_of tl_of s' qs'"
proof -
  obtain ds h where s: "s = (ds, h)" by fastforce
  have fam: "dl.family N ds h qs" and hdtl: "i < N \<Longrightarrow> dl_Head (ds i) = hd_of i \<and> dl_Tail (ds i) = tl_of i \<and> \<not> dl_locked (ds i)" for i
    using inv s by (auto simp: q_inv_def)
  note inv' = inv [unfolded s] and rep = dl.familyD(1) [OF fam]
  show ?thesis
  proof (cases c)
    case (QAppend i e)
    then have i: "i < N" "e \<noteq> 0" "\<forall>j < N. {e} \<inter> dl_cells (ds j) (qs j) = {}" using legal hdtl by (auto simp: dl_cells_eq list_all_iff)
    with locked_append [OF rep [OF i(1)], of e] hdtl obtain h' where
      "Append e (ds i) h = Some ((), (ds i)\<lparr>dl_length := dl_length (ds i) + 1\<rparr>, h')"
      "dl_rep ((ds i)\<lparr>dl_length := dl_length (ds i) + 1\<rparr>) h' (qs i @ [e])" "same_outside (dl_cells (ds i) (qs i) \<union> {e}) h h'" by auto
    from q_one [where f = "Append e" and E = "{e}", OF inv' i(1) this _ i(3)] QAppend s sp show ?thesis by auto
  next
    case (QPrepend i e)
    then have i: "i < N" "e \<noteq> 0" "\<forall>j < N. {e} \<inter> dl_cells (ds j) (qs j) = {}" using legal hdtl by (auto simp: dl_cells_eq list_all_iff)
    with locked_prepend [OF rep [OF i(1)], of e] hdtl obtain h' where
      "Prepend e (ds i) h = Some ((), (ds i)\<lparr>dl_length := dl_length (ds i) + 1\<rparr>, h')"
      "dl_rep ((ds i)\<lparr>dl_length := dl_length (ds i) + 1\<rparr>) h' (e # qs i)" "same_outside (dl_cells (ds i) (qs i) \<union> {e}) h h'" by auto
    from q_one [where f = "Prepend e" and E = "{e}", OF inv' i(1) this _ i(3)] QPrepend s sp show ?thesis by auto
  next
    case (QFirst i)
    then have i: "i < N" using legal by simp
    with locked_first [OF rep [OF i]] hdtl obtain k h' where
      "GetfirstElement (ds i) h = Some (hd (qs i @ [tl_of i]), (ds i)\<lparr>dl_length := k\<rparr>, h')"
      "dl_rep ((ds i)\<lparr>dl_length := k\<rparr>) h' (tl (qs i))" "same_outside (dl_cells (ds i) (qs i) \<union> {}) h h'" by metis
    from q_one [where f = GetfirstElement and E = "{}", OF inv' i this] QFirst s sp show ?thesis by (cases "qs i") auto
  next
    case (QLast i)
    then have i: "i < N" using legal by simp
    with locked_last [OF rep [OF i]] hdtl obtain k h' where
      "GetLastElement (ds i) h = Some (last (0 # qs i), (ds i)\<lparr>dl_length := k\<rparr>, h')"
      "dl_rep ((ds i)\<lparr>dl_length := k\<rparr>) h' (butlast (qs i))" "same_outside (dl_cells (ds i) (qs i) \<union> {}) h h'" by metis
    from q_one [where f = GetLastElement and E = "{}", OF inv' i this] QLast s sp show ?thesis by (auto dest: in_set_butlastD)
  next
    case (QRemove i e)
    then have i: "i < N" "e \<in> set (qs i)" using legal by simp_all
    with locked_remove [OF rep [OF i(1)] _ i(2)] hdtl obtain k h' where
      "RemoveLink e (ds i) h = Some (last (hd_of i # before (qs i) e), (ds i)\<lparr>dl_length := k\<rparr>, h')"
      "dl_rep ((ds i)\<lparr>dl_length := k\<rparr>) h' (remove1 e (qs i))" "same_outside (dl_cells (ds i) (qs i) \<union> {}) h h'" by metis
    from q_one [where f = "RemoveLink e" and E = "{}", OF inv' i(1) this] QRemove s sp set_remove1_subset [of e "qs i"] show ?thesis by auto
  next
    case (QMove i j)
    then have ij: "i < N" "j < N" "i \<noteq> j" "qs i \<noteq> []" using legal by simp_all
    from locked_move [OF rep [OF ij(1)] rep [OF ij(2)] _ _ dl.familyD(2) [OF fam ij(1-3)] ij(4)] hdtl ij obtain h' where
      m: "MoveList (ds j) (ds i) h = Some ((ds i)\<lparr>dl_length := 0\<rparr>, (ds j)\<lparr>dl_length := dl_length (ds j) + dl_length (ds i)\<rparr>, h')"
      and r: "dl_rep ((ds i)\<lparr>dl_length := 0\<rparr>) h' []" "dl_rep ((ds j)\<lparr>dl_length := dl_length (ds j) + dl_length (ds i)\<rparr>) h' (qs j @ qs i)"
        "same_outside (dl_cells (ds i) (qs i) \<union> dl_cells (ds j) (qs j)) h h'" by blast
    have "dl.family N (ds(i := (ds i)\<lparr>dl_length := 0\<rparr>, j := (ds j)\<lparr>dl_length := dl_length (ds j) + dl_length (ds i)\<rparr>)) h'
        (qs(i := [], j := qs j @ qs i))"
      using dl.familyD(2) [OF fam ij(1-3)] rep [OF ij(1), unfolded dl_rep_def dl_chain_def] by (intro dl.family_two [OF fam ij(1-3) r]) (auto simp: dl_cells_eq)
    with m QMove s sp inv show ?thesis by (auto simp: q_inv_def)
  next
    case (QSize i)
    then have "dl_length (ds i) = int (length (qs i))" using rep legal by (simp add: dl_rep_def)
    with QSize s sp inv show ?thesis by auto
  qed
qed

lemma q_calls_ok:
  assumes "q_inv N hd_of tl_of s qs" and "q_legals N hd_of tl_of qs cs" and "q_specs hd_of tl_of cs qs = (as, qs')"
  shows "\<exists>s'. q_calls cs s = Some (as, s') \<and> q_inv N hd_of tl_of s' qs'"
  using assms
proof (induction cs arbitrary: s qs as)
  case (Cons c cs)
  obtain a qs1 where sp: "q_spec hd_of tl_of c qs = (a, qs1)" by fastforce
  with q_call_ok [OF Cons.prems(1) _ sp] Cons.prems(2) obtain s1 where
    s1: "q_call c s = Some (a, s1)" "q_inv N hd_of tl_of s1 qs1" by auto
  obtain as1 where "q_specs hd_of tl_of cs qs1 = (as1, qs')" "as = a # as1" using Cons.prems(3) sp by (auto split: prod.splits)
  with Cons.IH [OF s1(2)] Cons.prems(2) sp s1(1) show ?case by auto
qed simp

subsection \<open>Construction\<close>

definition new_lists :: "nat \<Rightarrow> (nat \<Rightarrow> nat) \<Rightarrow> (nat \<Rightarrow> nat) \<Rightarrow> q_state \<Rightarrow> q_state option" where
  "new_lists N hd_of tl_of s =
     foldM (\<lambda>(ds, h) i. map_option (\<lambda>(d, h'). (ds(i := d), h')) (DoubleLinkList (hd_of i) (tl_of i) h)) s [0..<N]"

definition sentinels :: "nat \<Rightarrow> (nat \<Rightarrow> nat) \<Rightarrow> (nat \<Rightarrow> nat) \<Rightarrow> nat list" where
  "sentinels N hd_of tl_of = map hd_of [0..<N] @ map tl_of [0..<N]"

lemma sentinels_apart:
  assumes "distinct (sentinels N hd_of tl_of)" and "i < N" "j < N" "i \<noteq> j"
  shows "hd_of i \<noteq> hd_of j \<and> hd_of i \<noteq> tl_of j \<and> tl_of i \<noteq> hd_of j \<and> tl_of i \<noteq> tl_of j"
proof -
  have "inj_on hd_of {0..<N}" "inj_on tl_of {0..<N}" "hd_of ` {0..<N} \<inter> tl_of ` {0..<N} = {}"
    using assms(1) by (simp_all add: sentinels_def distinct_map)
  moreover have "i \<in> {0..<N}" "j \<in> {0..<N}" using assms(2,3) by simp_all
  ultimately show ?thesis using assms(4) unfolding inj_on_def by blast
qed

lemma new_lists_ok:
  assumes "distinct (sentinels N hd_of tl_of)" and "0 \<notin> set (sentinels N hd_of tl_of)"
  shows "\<exists>s'. new_lists N hd_of tl_of s = Some s' \<and> q_inv N hd_of tl_of s' (\<lambda>_. [])"
  using assms
proof (induction N)
  case 0
  then show ?case by (simp add: new_lists_def q_inv_def dl.family_def)
next
  case (Suc N)
  then have IHp: "distinct (sentinels N hd_of tl_of)" "0 \<notin> set (sentinels N hd_of tl_of)" by (auto simp: sentinels_def)
  from Suc.IH [OF IHp] obtain ds h where
    s1: "new_lists N hd_of tl_of s = Some (ds, h)" "q_inv N hd_of tl_of (ds, h) (\<lambda>_. [])" by auto
  have n: "hd_of N \<noteq> 0" "tl_of N \<noteq> 0" "hd_of N \<noteq> tl_of N" using Suc.prems by (auto simp: sentinels_def)
  have apart: "hd_of N \<noteq> hd_of i \<and> hd_of N \<noteq> tl_of i \<and> tl_of N \<noteq> hd_of i \<and> tl_of N \<noteq> tl_of i" if "i < N" for i
    using Suc.prems(1) that by (auto simp: sentinels_def)
  from init_list_ok [OF n, of h] obtain d h' where
    d: "DoubleLinkList (hd_of N) (tl_of N) h = Some (d, h')" "dl_rep d h' []" "dl_Head d = hd_of N" "dl_Tail d = tl_of N"
      "\<not> dl_locked d" "same_outside {hd_of N, tl_of N} h h'" by blast
  have old: "dl_rep (ds i) h' []" "dl_Head (ds i) = hd_of i" "dl_Tail (ds i) = tl_of i" "\<not> dl_locked (ds i)" if "i < N" for i
  proof -
    show e: "dl_Head (ds i) = hd_of i" "dl_Tail (ds i) = tl_of i" "\<not> dl_locked (ds i)" using s1(2) that by (auto simp: q_inv_def)
    have "dl_rep (ds i) h []" using s1(2) that dl.familyD(1) [of N ds h "\<lambda>_. []" i] by (simp add: q_inv_def)
    then show "dl_rep (ds i) h' []"
      by (rule dl_rep_frame [OF _ d(6)]) (use apart [OF that] e in \<open>auto simp: dl_chain_def\<close>)
  qed
  have "dl.family (Suc N) (ds(N := d)) h' (\<lambda>_. [])"
  proof (rule dl.familyI)
    show "dl_rep ((ds(N := d)) i) h' []" if "i < Suc N" for i using that old(1) [of i] d(2) by (cases "i = N") auto
    show "dl_cells ((ds(N := d)) i) [] \<inter> dl_cells ((ds(N := d)) j) [] = {}" if "i < Suc N" "j < Suc N" "i \<noteq> j" for i j
    proof -
      have "dl_cells ((ds(N := d)) k) [] = {hd_of k, tl_of k}" if "k < Suc N" for k
        using that old [of k] d by (cases "k = N") (auto simp: dl_cells_eq)
      moreover have "{hd_of i, tl_of i} \<inter> {hd_of j, tl_of j} = {}"
        using sentinels_apart [OF Suc.prems(1) that] by auto
      ultimately show ?thesis using that by blast
    qed
  qed
  moreover have "new_lists (Suc N) hd_of tl_of s = Some (ds(N := d), h')"
    using s1(1) d(1) by (simp add: new_lists_def foldM_append)
  ultimately show ?case using old d by (auto simp: q_inv_def less_Suc_eq)
qed

subsection \<open>The claims\<close>

text \<open>
  C14: The doubly linked lists are sequences. Build any number of lists with the constructor and run any sequence of appends,
  prepends, removals from the ends and from the middle, queries of the size, and moves of a whole list that is not empty to
  the end of another list, with elements that are in one list at a time and are no sentinels: no null pointer is followed,
  no assertion fails and no lock is waited for, every call returns what the operation on sequences returns, and in the end
  every list holds its sequence, whatever the other lists did. Moving an empty list and moving a list onto itself are not
  covered: the code accepts the first and damages the target (\<open>move_empty_list_breaks_target\<close>), and the second waits for a
  lock it holds.\<close>

theorem dbl_lists_refine_sequences:
  assumes "distinct (sentinels N hd_of tl_of)" and "0 \<notin> set (sentinels N hd_of tl_of)"
    and "q_legals N hd_of tl_of (\<lambda>_. []) cs" and "q_specs hd_of tl_of cs (\<lambda>_. []) = (as, qs)"
  shows "\<exists>s ds h. new_lists N hd_of tl_of s0 = Some s \<and> q_calls cs s = Some (as, ds, h)
    \<and> (\<forall>i < N. dl_rep (ds i) h (qs i) \<and> \<not> dl_locked (ds i))"
proof -
  from new_lists_ok [OF assms(1,2)] obtain s where s: "new_lists N hd_of tl_of s0 = Some s" "q_inv N hd_of tl_of s (\<lambda>_. [])" by blast
  from q_calls_ok [OF s(2) assms(3,4)] obtain ds h where
    "q_calls cs s = Some (as, ds, h)" "q_inv N hd_of tl_of (ds, h) qs" by auto
  with s(1) show ?thesis by (auto simp: q_inv_def dest: dl.familyD(1))
qed

definition raw_links :: q_state where
  "raw_links = (\<lambda>_. \<lparr>dl_Head = 0, dl_Tail = 0, dl_length = 0, dl_readers = 0, dl_writers = 0, dl_needs_cleaning = 0, dl_locked = False\<rparr>,
     \<lparr>l_next = \<lambda>_. 0, l_prev = \<lambda>_. 0\<rparr>)"

abbreviation (input) ten_of :: "nat \<Rightarrow> nat" where "ten_of i \<equiv> 10 + 2 * i"

theorem dbl_lists_refine_sequences_witness:
  "\<exists>s ds h. new_lists 2 ten_of (\<lambda>i. Suc (ten_of i)) raw_links = Some s
    \<and> q_calls [QAppend 0 5, QAppend 0 6, QRemove 0 5, QAppend 1 5, QMove 0 1] s = Some ([0, 0, 10, 0, 0], ds, h)
    \<and> dl_rep (ds 0) h [] \<and> dl_rep (ds 1) h [5, 6]"
proof -
  let ?cs = "[QAppend 0 5, QAppend 0 6, QRemove 0 5, QAppend 1 5, QMove 0 1]" and ?t = "\<lambda>i. Suc (ten_of i)"
  have all2: "(\<forall>i < 2. P i) \<longleftrightarrow> P 0 \<and> P 1" for P :: "nat \<Rightarrow> bool" by (auto simp: less_2_cases_iff)
  have s: "q_specs ten_of ?t ?cs (\<lambda>_. []) = ([0, 0, 10, 0, 0], (\<lambda>_. [])(0 := [], 1 := [5, 6]))"
    by (simp add: before_def fun_upd_twist)
  have l: "q_legals 2 ten_of ?t (\<lambda>_. []) ?cs" by code_simp
  have d: "distinct (sentinels 2 ten_of ?t)" "0 \<notin> set (sentinels 2 ten_of ?t)" by code_simp+
  from dbl_lists_refine_sequences [OF d l s, of raw_links] obtain st ds h where "new_lists 2 ten_of ?t raw_links = Some st" "q_calls ?cs st = Some ([0, 0, 10, 0, 0], ds, h)"
    "\<forall>i < 2. dl_rep (ds i) h (((\<lambda>_. [])(0 := [], 1 := [5, 6])) i) \<and> \<not> dl_locked (ds i)"
    by blast
  then show ?thesis unfolding all2 by (intro exI [of _ st] exI [of _ ds] exI [of _ h]) simp
qed

text \<open>
  Moving an empty list breaks the other one: its last element is linked to the sentinel of the list that was moved. Here
  list 1 holds the element 5 and its \<^verbatim>\<open>Tail\<close> is 13; after the move of the empty list 0, whose \<^verbatim>\<open>Tail\<close> is 11, the
  element after 5 is 11.\<close>

theorem move_empty_list_breaks_target:
  "map_option (\<lambda>(as, ds, h). (dl_length (ds 1), l_next h 5, dl_Tail (ds 1)))
     (Option.bind (new_lists 2 ten_of (\<lambda>i. Suc (ten_of i)) raw_links) (q_calls [QAppend 1 5, QMove 0 1])) = Some (1, 11, 13)"
  by code_simp

end
