(* ===== verification/Group.thy ===== *)
theory Group
  imports Coll_Tree
begin

section \<open>Process groups\<close>

text \<open>
  \<^verbatim>\<open>queue/Group.cc\<close>, \<^verbatim>\<open>queue/Group.h\<close> and \<^verbatim>\<open>interface/ulm_group_*.cc\<close>: the description of a group (\<^verbatim>\<open>Group::create\<close>), the pool of
  groups and the operations that form new groups from old ones.

  A \<open>group\<close> has the members of the class, a pointer to an array being \<open>None\<close> while nothing is allocated; of \<^verbatim>\<open>groupHostData\<close>
  the elements that were filled in. The pool is the array of pointers and \<^verbatim>\<open>firstFreeElement\<close>. \<open>allocs\<close> is the outcome of
  the coming allocations, \<open>tree_allocs\<close> of those inside \<^verbatim>\<open>setupNaryTree\<close>, \<open>junk\<close> the contents of fresh memory. A call that ends the process
  (\<^verbatim>\<open>ulm_exit\<close>) has no result, as one that accesses memory it must not. What the groups use of \<^verbatim>\<open>lampiState\<close> is \<open>lampi_state\<close>. Locks
  are left out.
\<close>

abbreviation (input) MPI_GROUP_EMPTY :: int where "MPI_GROUP_EMPTY \<equiv> - 2"
abbreviation (input) MPI_ERR_GROUP :: int where "MPI_ERR_GROUP \<equiv> 9"
abbreviation (input) MPI_IDENT :: int where "MPI_IDENT \<equiv> 0"
abbreviation (input) MPI_SIMILAR :: int where "MPI_SIMILAR \<equiv> 2"
abbreviation (input) MPI_UNEQUAL :: int where "MPI_UNEQUAL \<equiv> 3"
abbreviation (input) ULM_ERR_BAD_PARAM :: int where "ULM_ERR_BAD_PARAM \<equiv> - 5"
abbreviation (input) GATHER_TREE_ORDER :: int where "GATHER_TREE_ORDER \<equiv> 3"
abbreviation (input) poison :: int where "poison \<equiv> - 559038737"

record lampi_state =
  nhosts :: int
  nprocs :: int
  myproc :: int
  myhost :: int
  map_global_rank_to_host :: "int list"
  map_host_to_local_size :: "int list"

text \<open>The map from processes to hosts, as start-up builds it (\<^verbatim>\<open>init/init.cc\<close>): the processes of a host have consecutive numbers.\<close>

fun rank_hosts :: "int \<Rightarrow> int list \<Rightarrow> int list" where
  "rank_hosts h [] = []"
| "rank_hosts h (n # ns) = replicate (nat n) h @ rank_hosts (h + 1) ns"

text \<open>The state that start-up leaves. The number of hosts is far below the bound, which keeps the tree of hosts within the range of
  \<^verbatim>\<open>int\<close> (\<^verbatim>\<open>ULM_MAX_HOSTS\<close> in \<^verbatim>\<open>internal/constants.h\<close> is 1024).\<close>

definition env_ok :: "lampi_state \<Rightarrow> bool" where
  "env_ok env \<longleftrightarrow> nhosts env = int (length (map_host_to_local_size env)) \<and> (\<forall>n \<in> set (map_host_to_local_size env). 0 \<le> n)
     \<and> nprocs env = sum_list (map_host_to_local_size env) \<and> map_global_rank_to_host env = rank_hosts 0 (map_host_to_local_size env)
     \<and> nhosts env < 3 ^ 19 \<and> 0 \<le> myproc env \<and> myproc env < nprocs env \<and> myhost env = map_global_rank_to_host env ! nat (myproc env)"

record ulm_host_info =
  groupProcIDOnHost :: "int list"
  nGroupProcIDOnHost :: int
  hostID :: int
  hostCommRoot :: int
  destProc :: int

record group =
  mapGlobalProcIDToGroupProcID :: "int list option"
  mapGroupProcIDToGlobalProcID :: "int list option"
  mapGroupProcIDToHostID :: "int list option"
  mapGroupProcIDToOnHostProcID :: "int list option"
  groupHostDataLookup :: "int list option"
  groupHostData :: "ulm_host_info list option"
  ProcID :: int
  grp_size :: int
  hostIndexInGroup :: int
  numberOfHostsInGroup :: int
  onHostProcID :: int
  onHostGroupSize :: int
  maxOnHostGroupSize :: int
  refCount :: int
  groupID :: int
  interhostGatherScatterTree :: ulm_tree
  scatterDataNodeList :: "int list option list option"
  lenScatterDataNodeList :: "int list option"
  gatherDataNodeList :: "int list option list option"
  lenGatherDataNodeList :: "int list option"

subsection \<open>The constructor and \<^verbatim>\<open>create\<close>\<close>

text \<open>\<^verbatim>\<open>Group::Group\<close>; the members it does not set hold \<open>junk\<close>.\<close>

definition new_group :: "int \<Rightarrow> group" where
  "new_group junk = \<lparr>mapGlobalProcIDToGroupProcID = None, mapGroupProcIDToGlobalProcID = None, mapGroupProcIDToHostID = None,
     mapGroupProcIDToOnHostProcID = None, groupHostDataLookup = None, groupHostData = None, ProcID = junk, grp_size = junk,
     hostIndexInGroup = junk, numberOfHostsInGroup = poison, onHostProcID = junk, onHostGroupSize = junk, maxOnHostGroupSize = junk,
     refCount = 0, groupID = - 1,
     interhostGatherScatterTree = \<lparr>t_nNodes = junk, t_order = junk, t_treeDepth = junk, t_nFullLevels = junk, t_nNodesInFullLevels = junk,
       t_nUpNodes = None, t_upNodes = None, t_nDownNodes = None, t_nInPartialLevel = None, t_startLevel = None, t_downNodes = None\<rparr>,
     scatterDataNodeList = None, lenScatterDataNodeList = None, gatherDataNodeList = None, lenGatherDataNodeList = None\<rparr>"

text \<open>Go on when the next allocation succeeds, else return with the state reached so far.\<close>

definition alloc_or :: "bool list \<Rightarrow> 'a \<Rightarrow> (bool list \<Rightarrow> 'a option) \<Rightarrow> 'a option" where
  "alloc_or allocs failed go = (case take_alloc allocs of (ok, rest) \<Rightarrow> if ok then go rest else Some failed)"

definition global_proc_to_host :: "lampi_state \<Rightarrow> int \<Rightarrow> int option" where
  "global_proc_to_host env x = arr_get (map_global_rank_to_host env) x"

text \<open>The hosts of the members, in the order in which they appear, in an array of \<^verbatim>\<open>nhosts\<close> elements.\<close>

definition add_host :: "lampi_state \<Rightarrow> int list option \<Rightarrow> int list \<Rightarrow> int \<Rightarrow> int list option" where
  "add_host env rnkLst hosts proc = do {
     l \<leftarrow> rnkLst;
     r \<leftarrow> arr_get l proc;
     h \<leftarrow> global_proc_to_host env r;
     (if h \<in> set hosts then Some hosts else if int (length hosts) < nhosts env then Some (hosts @ [h]) else None)
   }"

definition index_of :: "int \<Rightarrow> int list \<Rightarrow> int" where
  "index_of x xs = (if x \<in> set xs then int (length (takeWhile (\<lambda>y. y \<noteq> x) xs)) else - 1)"

text \<open>The processes of the group on one host, and the loop over the hosts with its two allocations for each.\<close>

definition procs_on :: "lampi_state \<Rightarrow> int list \<Rightarrow> int \<Rightarrow> int list option" where
  "procs_on env procs h = foldM (\<lambda>tmp p. do {
       r \<leftarrow> arr_get procs p;
       h' \<leftarrow> global_proc_to_host env r;
       (if h' \<noteq> h then Some tmp else if int (length tmp) < nprocs env then Some (tmp @ [p]) else None)
     }) [] [0..int (length procs) - 1]"

fun fill_hosts :: "lampi_state \<Rightarrow> int list \<Rightarrow> int list \<Rightarrow> ulm_host_info list \<Rightarrow> bool list \<Rightarrow> (bool \<times> ulm_host_info list \<times> bool list) option" where
  "fill_hosts env procs [] filled as = Some (True, filled, as)"
| "fill_hosts env procs (h # hs) filled as =
     alloc_or as (False, filled, as) (\<lambda>as1. do {
       tmp \<leftarrow> procs_on env procs h;
       alloc_or as1 (False, filled, as1) (\<lambda>as2. do {
         root \<leftarrow> arr_get tmp 0;
         dest \<leftarrow> arr_get procs root;
         fill_hosts env procs hs (filled @ [\<lparr>groupProcIDOnHost = tmp, nGroupProcIDOnHost = int (length tmp), hostID = h,
           hostCommRoot = root, destProc = dest\<rparr>]) as2
       })
     })"

definition host_lookup :: "int list \<Rightarrow> int list option" where
  "host_lookup hosts = do {
     let m = foldl max 0 hosts;
     foldM (\<lambda>arr i. do { h \<leftarrow> arr_get hosts i; arr_set arr h i }) (replicate (nat (m + 1)) poison) [0..int (length hosts) - 1]
   }"

text \<open>The host of a process, from the number of processes on each host.\<close>

fun host_loop :: "int list \<Rightarrow> int \<Rightarrow> int \<Rightarrow> int \<Rightarrow> int option" where
  "host_loop [] host cum gRank = None"
| "host_loop (n # ns) host cum gRank = (if cum + n > gRank then Some host else host_loop ns (host + 1) (cum + n) gRank)"

definition rank_host :: "int \<Rightarrow> lampi_state \<Rightarrow> int \<Rightarrow> int" where
  "rank_host junk env gRank = (case host_loop (map_host_to_local_size env) 0 0 gRank of None \<Rightarrow> junk | Some h \<Rightarrow> h)"

definition count_on_host :: "lampi_state \<Rightarrow> int list \<Rightarrow> int \<Rightarrow> int option" where
  "count_on_host env toHost n = foldM (\<lambda>k p. do { h \<leftarrow> arr_get toHost p; Some (if h = myhost env then k + 1 else k) }) 0 [0..n - 1]"

definition on_host_map :: "lampi_state \<Rightarrow> int list \<Rightarrow> int list \<Rightarrow> int list option" where
  "on_host_map env toHost mine =
     foldM (\<lambda>arr p. do { k \<leftarrow> count_on_host env toHost p; arr_set arr p k }) (replicate (length toHost) (- 1)) mine"

text \<open>The lists of hosts for scatter and gather: count, allocate, fill.\<close>

fun node_lists :: "(bool \<Rightarrow> int \<Rightarrow> int list \<times> int \<Rightarrow> (int list \<times> int) option) \<Rightarrow> int \<Rightarrow> int list \<Rightarrow> int list option list \<Rightarrow> int list
    \<Rightarrow> bool list \<Rightarrow> (bool \<times> int list option list \<times> int list \<times> bool list) option" where
  "node_lists order junk [] ls lens as = Some (True, ls, lens, as)"
| "node_lists order junk (i # is) ls lens as = do {
     (x, n) \<leftarrow> order False i ([], 0);
     (if n > 0 then
        alloc_or as (False, ls @ [None], lens @ [n], as) (\<lambda>as1. do {
          (nodes, n') \<leftarrow> order True i (replicate (nat n) junk, 0);
          node_lists order junk is (ls @ [Some nodes]) (lens @ [n']) as1
        })
      else node_lists order junk is (ls @ [None]) (lens @ [n]) as)
   }"

text \<open>The parts of \<^verbatim>\<open>create\<close> in their order; each returns early when an allocation fails.\<close>

definition create_orders :: "int \<Rightarrow> bool list \<Rightarrow> group \<Rightarrow> (int \<times> group) option" where
  "create_orders junk as0 g0 = (let n = numberOfHostsInGroup g0; tree = interhostGatherScatterTree g0; fuel = nat n in
     alloc_or as0 (ULM_ERR_OUT_OF_RESOURCE, g0) (\<lambda>as1.
     alloc_or as1 (ULM_ERR_OUT_OF_RESOURCE, g0\<lparr>scatterDataNodeList := Some []\<rparr>) (\<lambda>as2. do {
       (ok, ls, lens, as3) \<leftarrow> node_lists (getScatterNodeOrder fuel tree) junk [0..n - 1] [] [] as2;
       let g1 = g0\<lparr>scatterDataNodeList := Some ls, lenScatterDataNodeList := Some lens\<rparr>;
       (if \<not> ok then Some (ULM_ERR_OUT_OF_RESOURCE, g1) else
        alloc_or as3 (ULM_ERR_OUT_OF_RESOURCE, g1) (\<lambda>as4.
        alloc_or as4 (ULM_ERR_OUT_OF_RESOURCE, g1\<lparr>gatherDataNodeList := Some []\<rparr>) (\<lambda>as5. do {
          (ok, ls, lens, as6) \<leftarrow> node_lists (getGatherNodeOrder fuel tree) junk [0..n - 1] [] [] as5;
          let g2 = g1\<lparr>gatherDataNodeList := Some ls, lenGatherDataNodeList := Some lens\<rparr>;
          Some (if ok then ULM_SUCCESS else ULM_ERR_OUT_OF_RESOURCE, g2)
        })))
     })))"

text \<open>The members of the group on this host.\<close>

definition own_procs :: "ulm_host_info list \<Rightarrow> int \<Rightarrow> int list option" where
  "own_procs hostData i = (if i < 0 then Some [] else map_option groupProcIDOnHost (arr_get hostData i))"

definition create_local :: "int \<Rightarrow> lampi_state \<Rightarrow> bool list \<Rightarrow> bool list \<Rightarrow> int list \<Rightarrow> ulm_host_info list \<Rightarrow> int list \<Rightarrow> group \<Rightarrow> (int \<times> group) option" where
  "create_local junk env as0 tree_allocs procs hostData toGroup g0 =
     alloc_or as0 (ULM_ERR_OUT_OF_RESOURCE, g0) (\<lambda>as1. do {
       let toHost = map (rank_host junk env) procs;
       me \<leftarrow> arr_get toGroup (myproc env);
       onHost \<leftarrow> count_on_host env toHost me;
       mine \<leftarrow> own_procs hostData (hostIndexInGroup g0);
       let g1 = g0\<lparr>mapGroupProcIDToHostID := Some toHost, ProcID := me, onHostProcID := onHost, onHostGroupSize := int (length mine),
                    maxOnHostGroupSize := foldl max 0 (map nGroupProcIDOnHost hostData)\<rparr>;
       alloc_or as1 (ULM_ERR_OUT_OF_RESOURCE, g1) (\<lambda>as2. do {
         onHostMap \<leftarrow> on_host_map env toHost mine;
         let g2 = g1\<lparr>mapGroupProcIDToOnHostProcID := Some onHostMap\<rparr>;
         (rc, tree) \<leftarrow> setupNaryTree junk tree_allocs (numberOfHostsInGroup g2) GATHER_TREE_ORDER (interhostGatherScatterTree g2);
         let g3 = g2\<lparr>interhostGatherScatterTree := tree\<rparr>;
         (if rc \<noteq> ULM_SUCCESS then Some (rc, g3) else create_orders junk as2 g3)
       })
     })"

definition create_hosts :: "int \<Rightarrow> lampi_state \<Rightarrow> bool list \<Rightarrow> bool list \<Rightarrow> int list \<Rightarrow> int list \<Rightarrow> group \<Rightarrow> (int \<times> group) option" where
  "create_hosts junk env as0 tree_allocs procs hosts g0 =
     alloc_or as0 (ULM_ERR_OUT_OF_RESOURCE, g0) (\<lambda>as1. do {
       (ok, hostData, as2) \<leftarrow> fill_hosts env procs hosts [] as1;
       let g1 = g0\<lparr>groupHostData := Some hostData\<rparr>;
       (if \<not> ok then Some (ULM_ERR_OUT_OF_RESOURCE, g1) else
        alloc_or as2 (ULM_ERR_OUT_OF_RESOURCE, g1) (\<lambda>as3. do {
          lookup \<leftarrow> host_lookup hosts;
          let g2 = g1\<lparr>groupHostDataLookup := Some lookup\<rparr>;
          alloc_or as3 (ULM_ERR_OUT_OF_RESOURCE, g2) (\<lambda>as4. do {
            let toGroup = map (\<lambda>i. index_of i procs) [0..nprocs env - 1];
            create_local junk env as4 tree_allocs procs hostData toGroup (g2\<lparr>mapGlobalProcIDToGroupProcID := Some toGroup\<rparr>)
          })
        }))
     })"

definition create :: "int \<Rightarrow> lampi_state \<Rightarrow> bool list \<Rightarrow> bool list \<Rightarrow> int \<Rightarrow> int list option \<Rightarrow> int \<Rightarrow> group \<Rightarrow> (int \<times> group) option" where
  "create junk env as0 tree_allocs grpSize rnkLst grpID g0 =
     (let g1 = g0\<lparr>groupID := grpID, grp_size := grpSize, refCount := 1\<rparr> in
      alloc_or as0 (ULM_ERR_OUT_OF_RESOURCE, g1) (\<lambda>as1. do {
        hosts \<leftarrow> foldM (add_host env rnkLst) [] [0..grpSize - 1];
        let g2 = g1\<lparr>numberOfHostsInGroup := int (length hosts), hostIndexInGroup := index_of (myhost env) hosts\<rparr>;
        alloc_or as1 (ULM_ERR_OUT_OF_RESOURCE, g2) (\<lambda>as2. do {
          procs \<leftarrow> (case rnkLst of None \<Rightarrow> Some [0..grpSize - 1] | Some l \<Rightarrow> those (map (arr_get l) [0..grpSize - 1]));
          let g3 = g2\<lparr>mapGroupProcIDToGlobalProcID := Some procs\<rparr>;
          (if \<not> distinct procs then Some (ULM_ERR_BAD_PARAM, g3)
           else create_hosts junk env as2 tree_allocs procs hosts g3)
        })
      }))"

end
