(* ===== verification/Group_Pool.thy ===== *)
theory Group_Pool
  imports Group
begin

section \<open>The pool of groups and its operations\<close>

text \<open>
  \<^verbatim>\<open>getGroupElement\<close> and \<^verbatim>\<open>Group::freeGroup\<close> (\<^verbatim>\<open>queue/Group.cc\<close>) and the functions of \<^verbatim>\<open>interface/ulm_group_*.cc\<close>. The result of an operation
  is its return code, the group index it writes to its last argument (\<open>None\<close> when it writes none), and the pool. A
  loop that looks a process up in the list of another group reads that list as a whole (\<open>members\<close>).
\<close>

abbreviation (input) nIncreaseGroupArray :: nat where "nIncreaseGroupArray \<equiv> 10"

record group_pool =
  groups :: "group option list"
  firstFreeElement :: int

abbreviation poolSize :: "group_pool \<Rightarrow> int" where
  "poolSize p \<equiv> int (length (groups p))"

type_synonym op_result = "(int \<times> int option \<times> group_pool) option"

definition put_group :: "int \<Rightarrow> group option \<Rightarrow> group_pool \<Rightarrow> group_pool" where
  "put_group i g p = p\<lparr>groups := (groups p)[nat i := g]\<rparr>"

text \<open>The first empty slot from \<open>i\<close> on.\<close>

definition next_free :: "group option list \<Rightarrow> int \<Rightarrow> int" where
  "next_free gs i = i + int (length (takeWhile (\<lambda>g. g \<noteq> None) (drop (nat i) gs)))"

definition grow_pool :: "group_pool \<Rightarrow> group_pool" where
  "grow_pool p = p\<lparr>groups := groups p @ replicate nIncreaseGroupArray None\<rparr>"

definition getGroupElement :: "int \<Rightarrow> bool list \<Rightarrow> group_pool \<Rightarrow> (int \<times> int option \<times> group_pool \<times> bool list) option" where
  "getGroupElement junk as0 p = do {
     let slotAvail = firstFreeElement p;
     let (ok, as1) = (if slotAvail \<ge> poolSize p then take_alloc as0 else (True, as0));
     (if \<not> ok then None else do {
        let p1 = (if slotAvail \<ge> poolSize p then grow_pool p else p);
        old \<leftarrow> arr_get (groups p1) slotAvail;
        (case take_alloc as1 of
           (False, as2) \<Rightarrow> Some (ULM_ERR_OUT_OF_RESOURCE, None, put_group slotAvail None p1, as2)
         | (True, as2) \<Rightarrow>
             let p2 = put_group slotAvail (Some (new_group junk)) p1 in
             Some (ULM_SUCCESS, Some slotAvail, p2\<lparr>firstFreeElement := next_free (groups p2) slotAvail\<rparr>, as2))
      })
   }"

definition members :: "group \<Rightarrow> int list option" where
  "members g = those (map (\<lambda>i. do { l \<leftarrow> mapGroupProcIDToGlobalProcID g; arr_get l i }) [0..grp_size g - 1])"

definition incrementRefCount :: "int \<Rightarrow> group_pool \<Rightarrow> group_pool" where
  "incrementRefCount i p = (case groups p ! nat i of None \<Rightarrow> p | Some g \<Rightarrow> put_group i (Some (g\<lparr>refCount := refCount g + 1\<rparr>)) p)"

text \<open>Another reference to an existing group is the result.\<close>

definition share_group :: "int \<Rightarrow> group_pool \<Rightarrow> op_result" where
  "share_group i p = do {
     g \<leftarrow> arr_get (groups p) i;
     Some (case g of None \<Rightarrow> (MPI_ERR_GROUP, Some i, p) | Some _ \<Rightarrow> (MPI_SUCCESS, Some i, incrementRefCount i p))
   }"

text \<open>\<^verbatim>\<open>create\<close> on the element in slot \<open>i\<close>.\<close>

definition create_in :: "int \<Rightarrow> lampi_state \<Rightarrow> bool list \<Rightarrow> bool list \<Rightarrow> int list \<Rightarrow> int \<Rightarrow> group_pool \<Rightarrow> (int \<times> group_pool) option" where
  "create_in junk env as0 tree_allocs procIDs i p = do {
     slot \<leftarrow> arr_get (groups p) i;
     g \<leftarrow> slot;
     (rc, g') \<leftarrow> create junk env as0 tree_allocs (int (length procIDs)) (Some procIDs) i g;
     Some (rc, put_group i (Some g') p)
   }"

text \<open>The pool after start-up (\<^verbatim>\<open>init/init.cc\<close>), and a group from a list of processes.\<close>

definition init_pool :: group_pool where
  "init_pool = \<lparr>groups = replicate nIncreaseGroupArray None, firstFreeElement = 0\<rparr>"

definition setupNewGroupObject :: "int \<Rightarrow> lampi_state \<Rightarrow> bool list \<Rightarrow> bool list \<Rightarrow> int list \<Rightarrow> group_pool \<Rightarrow> op_result" where
  "setupNewGroupObject junk env as0 tree_allocs listOfRanks p = do {
     (rc, slot, p1, as1) \<leftarrow> getGroupElement junk as0 p;
     (if rc \<noteq> ULM_SUCCESS then Some (rc, slot, p1) else do {
        k \<leftarrow> slot;
        (rc, p2) \<leftarrow> create_in junk env as1 tree_allocs listOfRanks k p1;
        Some (rc, slot, p2)
      })
   }"

text \<open>Both operands, when their indices are below the size of the pool and name a group.\<close>

definition with_groups :: "int \<Rightarrow> int \<Rightarrow> group_pool \<Rightarrow> (group \<Rightarrow> group \<Rightarrow> (int \<times> 'a option \<times> group_pool) option) \<Rightarrow> (int \<times> 'a option \<times> group_pool) option" where
  "with_groups i j p go = do {
     g1 \<leftarrow> arr_get (groups p) i;
     (case g1 of None \<Rightarrow> Some (MPI_ERR_GROUP, None, p)
      | Some g1 \<Rightarrow> do {
          g2 \<leftarrow> arr_get (groups p) j;
          (case g2 of None \<Rightarrow> Some (MPI_ERR_GROUP, None, p) | Some g2 \<Rightarrow> go g1 g2)
        })
   }"

subsection \<open>Set operations\<close>

definition ulm_group_union :: "int \<Rightarrow> lampi_state \<Rightarrow> bool list \<Rightarrow> bool list \<Rightarrow> int \<Rightarrow> int \<Rightarrow> group_pool \<Rightarrow> op_result" where
  "ulm_group_union junk env as0 tree_allocs i j p =
     (if i \<ge> poolSize p \<or> j \<ge> poolSize p then Some (MPI_ERR_GROUP, None, p)
      else if i = MPI_GROUP_EMPTY \<and> j = MPI_GROUP_EMPTY then Some (MPI_SUCCESS, Some MPI_GROUP_EMPTY, p)
      else if i = MPI_GROUP_EMPTY then share_group j p
      else if j = MPI_GROUP_EMPTY then share_group i p
      else with_groups i j p (\<lambda>g1 g2. do {
        (rc, slot, p1, as1) \<leftarrow> getGroupElement junk as0 p;
        (if rc \<noteq> ULM_SUCCESS then Some (rc, slot, p1) else do {
          k \<leftarrow> slot;
          (if grp_size g1 + grp_size g2 = 0
           then Some (ULM_SUCCESS, slot, put_group k (map_option (\<lambda>g. g\<lparr>grp_size := 0\<rparr>) (groups p1 ! nat k)) p1)
           else case take_alloc as1 of
             (False, as2) \<Rightarrow> Some (MPI_ERR_OTHER, slot, p1)
           | (True, as2) \<Rightarrow> do {
               m1 \<leftarrow> members g1;
               m2 \<leftarrow> members g2;
               (rc, p2) \<leftarrow> create_in junk env as2 tree_allocs (m1 @ filter (\<lambda>r. r \<notin> set m1) m2) k p1;
               Some (MPI_SUCCESS, slot, p2)
             })
        })
      }))"

text \<open>A new group of the given processes, as intersection and difference make it at their end: the code for a failed
  element and a failed \<^verbatim>\<open>create\<close> are arguments (\<open>None\<close> passes it on).\<close>

definition make_group :: "int \<Rightarrow> lampi_state \<Rightarrow> bool list \<Rightarrow> bool list \<Rightarrow> int option \<Rightarrow> int list \<Rightarrow> group_pool \<Rightarrow> op_result" where
  "make_group junk env as0 tree_allocs failed procIDs p =
     (if procIDs = [] then Some (MPI_SUCCESS, Some MPI_GROUP_EMPTY, p)
      else do {
        (rc, slot, p1, as1) \<leftarrow> getGroupElement junk as0 p;
        (if rc \<noteq> ULM_SUCCESS then Some (case failed of None \<Rightarrow> rc | Some e \<Rightarrow> e, slot, p1) else do {
          k \<leftarrow> slot;
          (rc, p2) \<leftarrow> create_in junk env as1 tree_allocs procIDs k p1;
          Some (if rc = ULM_SUCCESS then MPI_SUCCESS else (case failed of None \<Rightarrow> rc | Some e \<Rightarrow> e), slot, p2)
        })
      })"

definition ulm_group_intersection :: "int \<Rightarrow> lampi_state \<Rightarrow> bool list \<Rightarrow> bool list \<Rightarrow> int \<Rightarrow> int \<Rightarrow> group_pool \<Rightarrow> op_result" where
  "ulm_group_intersection junk env as0 tree_allocs i j p =
     (if i \<ge> poolSize p \<or> j \<ge> poolSize p then Some (MPI_ERR_GROUP, None, p)
      else with_groups i j p (\<lambda>g1 g2.
        if grp_size g1 = 0 \<or> grp_size g2 = 0 then Some (MPI_ERR_GROUP, None, p)
        else case take_alloc as0 of
          (False, as1) \<Rightarrow> Some (MPI_ERR_OTHER, None, p)
        | (True, as1) \<Rightarrow> do {
            m1 \<leftarrow> members g1;
            m2 \<leftarrow> members g2;
            make_group junk env as1 tree_allocs None (filter (\<lambda>r. r \<in> set m2) m1) p
          }))"

definition ulm_group_difference :: "int \<Rightarrow> lampi_state \<Rightarrow> bool list \<Rightarrow> bool list \<Rightarrow> int \<Rightarrow> int \<Rightarrow> group_pool \<Rightarrow> op_result" where
  "ulm_group_difference junk env as0 tree_allocs i j p =
     (if i \<ge> poolSize p \<or> j \<ge> poolSize p then Some (MPI_ERR_GROUP, None, p)
      else if i = MPI_GROUP_EMPTY then Some (MPI_SUCCESS, Some MPI_GROUP_EMPTY, p)
      else if j = MPI_GROUP_EMPTY then
        map_option (\<lambda>(rc, k, p'). (rc, if rc = MPI_SUCCESS then k else None, p')) (share_group i p)
      else with_groups i j p (\<lambda>g1 g2.
        if grp_size g1 + grp_size g2 = 0 then Some (MPI_SUCCESS, Some MPI_GROUP_EMPTY, p)
        else case take_alloc as0 of
          (False, as1) \<Rightarrow> Some (MPI_ERR_OTHER, None, p)
        | (True, as1) \<Rightarrow> do {
            m1 \<leftarrow> members g1;
            m2 \<leftarrow> members g2;
            make_group junk env as1 tree_allocs (Some MPI_ERR_INTERN) (filter (\<lambda>r. r \<notin> set m2) m1) p
          }))"

subsection \<open>Selections by rank\<close>

text \<open>The loop over the ranks of \<^verbatim>\<open>ulm_group_incl\<close>; \<open>Inl\<close> is its early return.\<close>

fun incl_loop :: "group \<Rightarrow> int list \<Rightarrow> int list \<Rightarrow> int list \<Rightarrow> (int + int list) option" where
  "incl_loop g ranks [] procIDs = Some (Inr procIDs)"
| "incl_loop g ranks (i # is) procIDs = do {
     r \<leftarrow> arr_get ranks i;
     (if r < 0 \<or> r > grp_size g then Some (Inl MPI_ERR_RANK)
      else do {
        l \<leftarrow> mapGroupProcIDToGlobalProcID g;
        x \<leftarrow> arr_get l r;
        incl_loop g ranks is (procIDs @ [x])
      })
   }"

definition ulm_group_incl :: "int \<Rightarrow> lampi_state \<Rightarrow> bool list \<Rightarrow> bool list \<Rightarrow> int \<Rightarrow> int \<Rightarrow> int list \<Rightarrow> group_pool \<Rightarrow> op_result" where
  "ulm_group_incl junk env as0 tree_allocs i nRanks ranks p =
     (if i = MPI_GROUP_EMPTY \<or> nRanks = 0 then Some (MPI_SUCCESS, Some MPI_GROUP_EMPTY, p)
      else if i \<ge> poolSize p then Some (MPI_ERR_GROUP, None, p)
      else do {
        slot \<leftarrow> arr_get (groups p) i;
        (case slot of
           None \<Rightarrow> Some (MPI_ERR_GROUP, None, p)
         | Some g \<Rightarrow>
             if nRanks > grp_size g then Some (MPI_ERR_RANK, None, p)
             else do {
               (rc, new, p1, as1) \<leftarrow> getGroupElement junk as0 p;
               (if rc \<noteq> ULM_SUCCESS then Some (MPI_ERR_OTHER, new, p1)
                else case take_alloc as1 of
                  (False, as2) \<Rightarrow> Some (MPI_ERR_OTHER, new, p1)
                | (True, as2) \<Rightarrow> do {
                    k \<leftarrow> new;
                    r \<leftarrow> incl_loop g ranks [0..nRanks - 1] [];
                    (case r of
                       Inl e \<Rightarrow> Some (e, new, p1)
                     | Inr procIDs \<Rightarrow> do {
                         (rc, p2) \<leftarrow> create_in junk env as2 tree_allocs procIDs k p1;
                         Some (MPI_SUCCESS, new, p2)
                       })
                  })
             })
      })"

text \<open>The loop of \<^verbatim>\<open>ulm_group_excl\<close> that marks the members to leave out.\<close>

fun excl_loop :: "group \<Rightarrow> int list \<Rightarrow> int list \<Rightarrow> int list \<Rightarrow> (int + int list) option" where
  "excl_loop g ranks [] tmp = Some (Inr tmp)"
| "excl_loop g ranks (i # is) tmp = do {
     r \<leftarrow> arr_get ranks i;
     (if r < 0 \<or> r > grp_size g then Some (Inl MPI_ERR_RANK)
      else do { tmp' \<leftarrow> arr_set tmp r (- 1); excl_loop g ranks is tmp' })
   }"

definition ulm_group_excl :: "int \<Rightarrow> lampi_state \<Rightarrow> bool list \<Rightarrow> bool list \<Rightarrow> int \<Rightarrow> int \<Rightarrow> int list \<Rightarrow> group_pool \<Rightarrow> op_result" where
  "ulm_group_excl junk env as0 tree_allocs i nRanks ranks p =
     (if i = MPI_GROUP_EMPTY then Some (MPI_SUCCESS, Some MPI_GROUP_EMPTY, p)
      else if i \<ge> poolSize p then Some (MPI_ERR_GROUP, None, p)
      else do {
        slot \<leftarrow> arr_get (groups p) i;
        (case slot of
           None \<Rightarrow> Some (MPI_ERR_GROUP, None, p)
         | Some g \<Rightarrow>
             if nRanks > grp_size g then Some (MPI_ERR_RANK, None, p)
             else if nRanks = 0 then Some (MPI_SUCCESS, Some i, incrementRefCount i p)
             else if nRanks = grp_size g then Some (MPI_SUCCESS, Some MPI_GROUP_EMPTY, p)
             else
               alloc_or as0 (MPI_ERR_OTHER, None, p) (\<lambda>as1.
               alloc_or as1 (MPI_ERR_OTHER, None, p) (\<lambda>as2. do {
                 m \<leftarrow> members g;
                 r \<leftarrow> excl_loop g ranks [0..nRanks - 1] m;
                 (case r of
                    Inl e \<Rightarrow> Some (e, None, p)
                  | Inr tmp \<Rightarrow>
                      let procIDs = filter (\<lambda>x. x \<noteq> - 1) tmp in
                      if int (length procIDs) > grp_size g - nRanks then None
                      else make_group junk env as2 tree_allocs (Some MPI_ERR_OTHER) procIDs p)
               })))
      })"

subsection \<open>Selections by ranges of ranks\<close>

text \<open>\<open>up\<close> is 1 for the \<^verbatim>\<open>while (index <= lastRank)\<close> loop, -1 for the \<^verbatim>\<open>while (index >= lastRank)\<close> loop. The state is \<^verbatim>\<open>elementsInList\<close>
  and \<^verbatim>\<open>nRanks\<close>.\<close>

partial_function (option) mark_loop :: "int \<Rightarrow> int \<Rightarrow> int \<Rightarrow> int \<Rightarrow> int list \<Rightarrow> int \<Rightarrow> (int + int list \<times> int) option" where
  [code]: "mark_loop up index lastRank stride elts n =
     (if up * index \<le> up * lastRank then do {
        e \<leftarrow> arr_get elts index;
        (if e \<noteq> - 1 then Some (Inl MPI_ERR_RANK)
         else do { elts' \<leftarrow> arr_set elts index n; index' \<leftarrow> c_int (index + stride); mark_loop up index' lastRank stride elts' (n + 1) })
      } else Some (Inr (elts, n)))"

fun triplet_loop :: "int \<Rightarrow> (int \<times> int \<times> int) list \<Rightarrow> int list \<Rightarrow> int \<Rightarrow> (int + int list \<times> int) option" where
  "triplet_loop gsize [] elts n = Some (Inr (elts, n))"
| "triplet_loop gsize ((firstRank, lastRank, stride) # ts) elts n =
     (if firstRank < 0 \<or> firstRank > gsize \<or> lastRank < 0 \<or> lastRank > gsize \<or> stride = 0 then Some (Inl MPI_ERR_RANK)
      else if firstRank < lastRank \<and> stride < 0 \<or> firstRank > lastRank \<and> stride > 0 then Some (Inl MPI_ERR_RANK)
      else do {
        r \<leftarrow> (if firstRank < lastRank then mark_loop 1 firstRank lastRank stride elts n
              else if firstRank > lastRank then mark_loop (- 1) firstRank lastRank stride elts n
              else do {
                e \<leftarrow> arr_get elts firstRank;
                (if e \<noteq> - 1 then Some (Inl MPI_ERR_RANK)
                 else map_option (\<lambda>elts'. Inr (elts', n + 1)) (arr_set elts firstRank n))
              });
        (case r of Inl e \<Rightarrow> Some (Inl e) | Inr (elts', n') \<Rightarrow> triplet_loop gsize ts elts' n')
      })"

text \<open>\<^verbatim>\<open>procIDs[elementsInList[proc]] = value(proc)\<close> for the elements that are in the list.\<close>

definition collect_ranks :: "int \<Rightarrow> (int \<Rightarrow> int option) \<Rightarrow> int list \<Rightarrow> int \<Rightarrow> int list option" where
  "collect_ranks junk val elts n =
     foldM (\<lambda>ids proc. do {
       e \<leftarrow> arr_get elts proc;
       (if e \<ge> 0 then do { v \<leftarrow> val proc; arr_set ids e v } else Some ids)
     }) (replicate (nat n) junk) [0..int (length elts) - 1]"

text \<open>What \<^verbatim>\<open>ulm_group_range_incl\<close> and \<^verbatim>\<open>ulm_group_range_excl\<close> share, from the first allocation to the array they pass on.\<close>

definition range_ranks :: "int \<Rightarrow> bool list \<Rightarrow> group \<Rightarrow> (int \<times> int \<times> int) list \<Rightarrow> (int \<Rightarrow> int option) \<Rightarrow> (int + int list \<times> bool list) option" where
  "range_ranks junk as0 g ranges val =
     alloc_or as0 (Inl MPI_ERR_OTHER) (\<lambda>as1. do {
       r \<leftarrow> triplet_loop (grp_size g) ranges (replicate (nat (grp_size g)) (- 1)) 0;
       (case r of
          Inl e \<Rightarrow> Some (Inl e)
        | Inr (elts, n) \<Rightarrow> alloc_or as1 (Inl MPI_ERR_OTHER) (\<lambda>as2.
            map_option (\<lambda>ids. Inr (ids, as2)) (collect_ranks junk val elts n)))
     })"

definition ulm_group_range_incl :: "int \<Rightarrow> lampi_state \<Rightarrow> bool list \<Rightarrow> bool list \<Rightarrow> int \<Rightarrow> (int \<times> int \<times> int) list \<Rightarrow> group_pool \<Rightarrow> op_result" where
  "ulm_group_range_incl junk env as0 tree_allocs i ranges p =
     (if i = MPI_GROUP_EMPTY then Some (MPI_SUCCESS, Some MPI_GROUP_EMPTY, p)
      else if i \<ge> poolSize p then Some (MPI_ERR_GROUP, None, p)
      else do {
        slot \<leftarrow> arr_get (groups p) i;
        (case slot of
           None \<Rightarrow> Some (MPI_ERR_GROUP, None, p)
         | Some g \<Rightarrow>
             if ranges = [] then Some (MPI_SUCCESS, Some MPI_GROUP_EMPTY, p)
             else do {
               r \<leftarrow> range_ranks junk as0 g ranges Some;
               (case r of
                  Inl e \<Rightarrow> Some (e, None, p)
                | Inr (ids, as1) \<Rightarrow> ulm_group_incl junk env as1 tree_allocs i (int (length ids)) ids p)
             })
      })"

definition ulm_group_range_excl :: "int \<Rightarrow> lampi_state \<Rightarrow> bool list \<Rightarrow> bool list \<Rightarrow> int \<Rightarrow> (int \<times> int \<times> int) list \<Rightarrow> group_pool \<Rightarrow> op_result" where
  "ulm_group_range_excl junk env as0 tree_allocs i ranges p =
     (if i = MPI_GROUP_EMPTY then Some (MPI_SUCCESS, Some MPI_GROUP_EMPTY, p)
      else if i \<ge> poolSize p then Some (MPI_ERR_GROUP, None, p)
      else do {
        slot \<leftarrow> arr_get (groups p) i;
        (case slot of
           None \<Rightarrow> Some (MPI_ERR_GROUP, None, p)
         | Some g \<Rightarrow>
             if ranges = [] then Some (MPI_SUCCESS, Some i, p)
             else do {
               r \<leftarrow> range_ranks junk as0 g ranges (\<lambda>proc. do { l \<leftarrow> mapGroupProcIDToGlobalProcID g; arr_get l proc });
               (case r of
                  Inl e \<Rightarrow> Some (e, None, p)
                | Inr (ids, as1) \<Rightarrow> ulm_group_excl junk env as1 tree_allocs i (int (length ids)) ids p)
             })
      })"

subsection \<open>Questions\<close>

definition ulm_group_translate_ranks :: "int \<Rightarrow> int \<Rightarrow> int list \<Rightarrow> int \<Rightarrow> group_pool \<Rightarrow> (int \<times> int list option \<times> group_pool) option" where
  "ulm_group_translate_ranks i numRanks ranks1List j p =
     (if i \<ge> poolSize p \<or> j \<ge> poolSize p then Some (MPI_ERR_GROUP, None, p)
      else if i = MPI_GROUP_EMPTY then Some (MPI_ERR_GROUP, None, p)
      else if j = MPI_GROUP_EMPTY then Some (MPI_SUCCESS, Some (replicate (nat numRanks) MPI_UNDEFINED), p)
      else with_groups i j p (\<lambda>g1 g2. do {
        m2 \<leftarrow> members g2;
        out \<leftarrow> those (map (\<lambda>q. do {
          r \<leftarrow> arr_get ranks1List q;
          l \<leftarrow> mapGroupProcIDToGlobalProcID g1;
          x \<leftarrow> arr_get l r;
          Some (if x \<in> set m2 then index_of x m2 else MPI_UNDEFINED)
        }) [0..numRanks - 1]);
        Some (MPI_SUCCESS, Some out, p)
      }))"

text \<open>The two nested loops of \<^verbatim>\<open>ulm_group_compare\<close>: the result is \<^verbatim>\<open>similar\<close> and \<^verbatim>\<open>identical\<close>.\<close>

fun compare_loop :: "int list \<Rightarrow> int \<Rightarrow> int list \<Rightarrow> bool \<Rightarrow> bool \<times> bool" where
  "compare_loop [] proc1 m2 identical = (True, identical)"
| "compare_loop (x # xs) proc1 m2 identical =
     (let match = index_of x m2 in
      if match = - 1 then (False, identical)
      else compare_loop xs (proc1 + 1) m2 (identical \<and> proc1 = match))"

definition ulm_group_compare :: "int \<Rightarrow> int \<Rightarrow> group_pool \<Rightarrow> op_result" where
  "ulm_group_compare i j p =
     (if i \<ge> poolSize p \<or> j \<ge> poolSize p then Some (MPI_ERR_GROUP, None, p)
      else with_groups i j p (\<lambda>g1 g2.
        if grp_size g1 \<noteq> grp_size g2 then Some (MPI_SUCCESS, Some MPI_UNEQUAL, p)
        else do {
          m1 \<leftarrow> members g1;
          m2 \<leftarrow> members g2;
          Some (MPI_SUCCESS, Some (case compare_loop m1 0 m2 True of (similar, identical) \<Rightarrow>
            if \<not> similar then MPI_UNEQUAL else if \<not> identical then MPI_SIMILAR else MPI_IDENT), p)
        }))"

definition ulm_group_size :: "int \<Rightarrow> group_pool \<Rightarrow> op_result" where
  "ulm_group_size i p =
     (if i = MPI_GROUP_EMPTY then Some (MPI_SUCCESS, Some 0, p)
      else if i \<ge> poolSize p then Some (MPI_ERR_GROUP, None, p)
      else do {
        slot \<leftarrow> arr_get (groups p) i;
        Some (case slot of None \<Rightarrow> (MPI_ERR_GROUP, None, p) | Some g \<Rightarrow> (MPI_SUCCESS, Some (grp_size g), p))
      })"

definition ulm_group_rank :: "int \<Rightarrow> group_pool \<Rightarrow> op_result" where
  "ulm_group_rank i p =
     (if i = MPI_GROUP_EMPTY then Some (MPI_SUCCESS, Some MPI_UNDEFINED, p)
      else if i \<ge> poolSize p then Some (MPI_ERR_GROUP, None, p)
      else do {
        slot \<leftarrow> arr_get (groups p) i;
        Some (case slot of None \<Rightarrow> (MPI_ERR_GROUP, None, p)
          | Some g \<Rightarrow> (MPI_SUCCESS, Some (if ProcID g = - 1 then MPI_UNDEFINED else ProcID g), p))
      })"

subsection \<open>Freeing\<close>

text \<open>Releasing the arrays is undefined when one of the pointers was never set; the constructor sets the first two.\<close>

definition all_allocated :: "group \<Rightarrow> bool" where
  "all_allocated g \<longleftrightarrow> mapGroupProcIDToOnHostProcID g \<noteq> None \<and> mapGroupProcIDToHostID g \<noteq> None \<and> groupHostData g \<noteq> None
     \<and> groupHostDataLookup g \<noteq> None \<and> lenScatterDataNodeList g \<noteq> None \<and> lenGatherDataNodeList g \<noteq> None
     \<and> scatterDataNodeList g \<noteq> None \<and> gatherDataNodeList g \<noteq> None
     \<and> list_all (\<lambda>x. x \<noteq> None) (the (scatterDataNodeList g)) \<and> list_all (\<lambda>x. x \<noteq> None) (the (gatherDataNodeList g))"

definition freeGroup :: "group \<Rightarrow> group option" where
  "freeGroup g = (let n = refCount g - 1 in
     if n = 0 \<and> \<not> all_allocated g then None else Some (g\<lparr>refCount := n\<rparr>))"

definition ulm_group_free :: "int \<Rightarrow> group_pool \<Rightarrow> (int \<times> group_pool) option" where
  "ulm_group_free i p =
     (if i \<ge> poolSize p then Some (MPI_ERR_GROUP, p)
      else do {
        slot \<leftarrow> arr_get (groups p) i;
        (case slot of
           None \<Rightarrow> Some (MPI_ERR_GROUP, p)
         | Some g \<Rightarrow> do {
             g' \<leftarrow> freeGroup g;
             Some (MPI_SUCCESS,
               if refCount g' = 0
               then (put_group i None p)\<lparr>firstFreeElement := (if i < firstFreeElement p then i else firstFreeElement p)\<rparr>
               else put_group i (Some g') p)
           })
      })"

end
