(* ===== verification/Group_Create.thy ===== *)
theory Group_Create
  imports Group_Pool Coll_Tree_Order
begin

section \<open>The description of a group is consistent\<close>

text \<open>
  What \<^verbatim>\<open>Group::create\<close> computes from a list of different processes, when memory lasts: the maps between ranks, processes and hosts.
\<close>

subsection \<open>Loops over indices\<close>

lemma upto_map: "[0..int n - 1] = map int [0..<n]"
proof (induction n)
  case (Suc n)
  have "[0..int n] = [0..int n - 1] @ [int n]" by (rule upto_rec2) simp
  with Suc show ?case by simp
qed simp

lemma foldM_map: "foldM f s (map g xs) = foldM (\<lambda>s x. f s (g x)) s xs"
  by (induction xs arbitrary: s) (auto split: bind_splits)

lemma foldM_cong: "(\<And>s x. x \<in> set xs \<Longrightarrow> f s x = g s x) \<Longrightarrow> foldM f s xs = foldM g s xs"
  by (induction xs arbitrary: s) (auto split: bind_splits)

lemma those_eq: "length ys = length xs \<Longrightarrow> (\<And>i. i < length xs \<Longrightarrow> f (xs ! i) = Some (ys ! i)) \<Longrightarrow> those (map f xs) = Some ys"
proof (induction xs arbitrary: ys)
  case (Cons x xs)
  then obtain y ys' where ys: "ys = y # ys'" by (cases ys) auto
  have "those (map f xs) = Some ys'" by (rule Cons.IH) (use Cons.prems(1) Cons.prems(2) [of "Suc _"] ys in auto)
  then show ?case using Cons.prems(2) [of 0] ys by simp
qed simp

lemma those_arr: "those (map (arr_get xs) [0..int (length xs) - 1]) = Some xs"
  by (rule those_eq) (auto simp: upto_map)

text \<open>Collecting the indices that pass a test in an array of \<open>B\<close> elements.\<close>

lemma foldM_filter:
  assumes "\<And>x. x \<in> set xs \<Longrightarrow> test x = Some (P x)" and "int (length (acc @ filter P xs)) \<le> B"
  shows "foldM (\<lambda>tmp x. do { b \<leftarrow> test x; (if \<not> b then Some tmp else if int (length tmp) < B then Some (tmp @ [x]) else None) }) acc xs
    = Some (acc @ filter P xs)"
  using assms
proof (induction xs arbitrary: acc)
  case (Cons x xs)
  then show ?case using Cons.IH [of "acc @ [x]"] Cons.IH [of acc] by auto
qed simp

subsection \<open>The hosts of the processes\<close>

abbreviation host_of :: "lampi_state \<Rightarrow> int \<Rightarrow> int" where
  "host_of env r \<equiv> map_global_rank_to_host env ! nat r"

definition firsts :: "'a list \<Rightarrow> 'a list" where
  "firsts xs = rev (remdups (rev xs))"

lemma firsts_simps [simp]: "firsts [] = []" "firsts (xs @ [x]) = (if x \<in> set xs then firsts xs else firsts xs @ [x])"
  "distinct (firsts xs)" "set (firsts xs) = set xs"
  by (simp_all add: firsts_def)

lemma length_rank_hosts: "\<forall>n \<in> set ns. 0 \<le> n \<Longrightarrow> int (length (rank_hosts h ns)) = sum_list ns"
  by (induction h ns rule: rank_hosts.induct) auto

lemma set_rank_hosts: "x \<in> set (rank_hosts h ns) \<Longrightarrow> h \<le> x \<and> x < h + int (length ns)"
  by (induction h ns rule: rank_hosts.induct) force+

lemma host_loop_rank:
  "\<forall>n \<in> set ns. 0 \<le> n \<Longrightarrow> 0 \<le> r \<Longrightarrow> r < sum_list ns \<Longrightarrow> host_loop ns h cum (cum + r) = Some (rank_hosts h ns ! nat r)"
proof (induction ns arbitrary: h cum r)
  case (Cons n ns)
  show ?case
  proof (cases "r < n")
    case True
    then show ?thesis using Cons.prems by (simp add: nth_append)
  next
    case False
    then have "nat r - nat n = nat (r - n)" "\<not> nat r < nat n" using Cons.prems by auto
    moreover have "cum + r = (cum + n) + (r - n)" by simp
    moreover have "host_loop ns (h + 1) (cum + n) ((cum + n) + (r - n)) = Some (rank_hosts (h + 1) ns ! nat (r - n))"
      by (rule Cons.IH) (use Cons.prems False in auto)
    ultimately show ?thesis using False by (simp add: nth_append)
  qed
qed simp

lemma env_okD:
  assumes "env_ok env"
  shows "int (length (map_global_rank_to_host env)) = nprocs env" "0 \<le> myproc env" "myproc env < nprocs env" "myhost env = host_of env (myproc env)"
    "\<And>r. 0 \<le> r \<Longrightarrow> r < nprocs env \<Longrightarrow> global_proc_to_host env r = Some (host_of env r)"
    "\<And>r. 0 \<le> r \<Longrightarrow> r < nprocs env \<Longrightarrow> 0 \<le> host_of env r \<and> host_of env r < nhosts env"
    "\<And>r junk. 0 \<le> r \<Longrightarrow> r < nprocs env \<Longrightarrow> rank_host junk env r = host_of env r"
proof -
  have l: "int (length (map_global_rank_to_host env)) = nprocs env" using assms length_rank_hosts by (simp add: env_ok_def)
  show "int (length (map_global_rank_to_host env)) = nprocs env" by (rule l)
  show "0 \<le> myproc env" "myproc env < nprocs env" "myhost env = host_of env (myproc env)" using assms by (simp_all add: env_ok_def)
  show "global_proc_to_host env r = Some (host_of env r)" if "0 \<le> r" "r < nprocs env" for r
    using that l by (simp add: global_proc_to_host_def arr_get_def)
  show "0 \<le> host_of env r \<and> host_of env r < nhosts env" if "0 \<le> r" "r < nprocs env" for r
    using set_rank_hosts [of "host_of env r" 0 "map_host_to_local_size env"] nth_mem [of "nat r" "map_global_rank_to_host env"] that l assms
    by (auto simp: env_ok_def)
  show "rank_host junk env r = host_of env r" if "0 \<le> r" "r < nprocs env" for r junk
    using host_loop_rank [of "map_host_to_local_size env" r 0 0] that assms by (simp add: env_ok_def rank_host_def)
qed

text \<open>The lists of processes \<^verbatim>\<open>create\<close> is shown right for: global ranks, no two of them equal, and at least one. \<^verbatim>\<open>create\<close> also
  accepts an empty list, but then it sets up a tree without nodes, and \<^verbatim>\<open>setupNaryTree\<close> writes outside its arrays.\<close>

definition procs_ok :: "lampi_state \<Rightarrow> int list \<Rightarrow> bool" where
  "procs_ok env procs \<longleftrightarrow> procs \<noteq> [] \<and> distinct procs \<and> (\<forall>r \<in> set procs. 0 \<le> r \<and> r < nprocs env)"

abbreviation hosts_of :: "lampi_state \<Rightarrow> int list \<Rightarrow> int list" where
  "hosts_of env procs \<equiv> firsts (map (host_of env) procs)"

lemma few_hosts:
  assumes "env_ok env" and "procs_ok env procs"
  shows "int (length (hosts_of env procs)) \<le> nhosts env" and "h \<in> set (hosts_of env procs) \<Longrightarrow> 0 \<le> h \<and> h < nhosts env"
proof -
  have r: "0 \<le> h \<and> h < nhosts env" if "h \<in> set (hosts_of env procs)" for h
    using that assms env_okD(6) [OF assms(1)] by (auto simp: procs_ok_def)
  have "set (hosts_of env procs) \<subseteq> {0..<nhosts env}" using r by auto
  then have "card (set (hosts_of env procs)) \<le> card {0..<nhosts env}" by (rule card_mono [rotated]) simp
  moreover have "0 \<le> nhosts env" using assms(1) by (simp add: env_ok_def)
  ultimately show "int (length (hosts_of env procs)) \<le> nhosts env" using distinct_card [of "hosts_of env procs"] by simp
  show "h \<in> set (hosts_of env procs) \<Longrightarrow> 0 \<le> h \<and> h < nhosts env" by (rule r)
qed

lemma few_procs: "procs_ok env procs \<Longrightarrow> int (length procs) \<le> nprocs env"
proof -
  assume ok: "procs_ok env procs"
  then have "set procs \<subseteq> {0..<nprocs env}" by (auto simp: procs_ok_def)
  then have "card (set procs) \<le> card {0..<nprocs env}" by (rule card_mono [rotated]) simp
  moreover have "procs \<noteq> []" "distinct procs" using ok by (auto simp: procs_ok_def)
  moreover from this have "0 \<le> nprocs env" using ok by (cases procs) (auto simp: procs_ok_def)
  ultimately show ?thesis using distinct_card [of procs] by simp
qed

lemma procs_ok_nth: "procs_ok env procs \<Longrightarrow> i < length procs \<Longrightarrow> 0 \<le> procs ! i \<and> procs ! i < nprocs env"
  by (simp add: procs_ok_def)

lemma hosts_found:
  assumes env: "env_ok env" and ok: "procs_ok env procs"
  shows "foldM (add_host env (Some procs)) [] [0..int (length procs) - 1] = Some (hosts_of env procs)"
proof -
  have "foldM (add_host env (Some procs)) [] (map int [0..<n]) = Some (firsts (map (host_of env) (take n procs)))" if "n \<le> length procs" for n
    using that
  proof (induction n)
    case (Suc n)
    let ?r = "procs ! n" and ?hs = "firsts (map (host_of env) (take n procs))"
    have r: "0 \<le> ?r" "?r < nprocs env" using procs_ok_nth [OF ok, of n] Suc.prems by auto
    have take: "take (Suc n) procs = take n procs @ [?r]" using Suc.prems by (simp add: take_Suc_conv_app_nth)
    have room: "int (length ?hs) < nhosts env" if "host_of env ?r \<notin> set ?hs"
    proof -
      have ok': "procs_ok env (take (Suc n) procs)" using ok Suc.prems by (auto simp: procs_ok_def dest: in_set_takeD)
      show ?thesis using few_hosts(1) [OF env ok'] that by (simp add: take)
    qed
    have "foldM (add_host env (Some procs)) [] (map int [0..<n]) = Some ?hs" using Suc by simp
    moreover have "add_host env (Some procs) ?hs (int n) = Some (firsts (map (host_of env) (take (Suc n) procs)))"
      using room env_okD(5) [OF env r] Suc.prems by (auto simp: add_host_def take)
    ultimately show ?case by (simp add: foldM_append)
  qed simp
  from this [of "length procs"] show ?thesis by (simp add: upto_map)
qed

subsection \<open>The processes on each host\<close>

definition on_host :: "lampi_state \<Rightarrow> int list \<Rightarrow> int \<Rightarrow> int list" where
  "on_host env procs h = filter (\<lambda>q. host_of env (procs ! nat q) = h) [0..int (length procs) - 1]"

definition host_entry :: "lampi_state \<Rightarrow> int list \<Rightarrow> int \<Rightarrow> ulm_host_info" where
  "host_entry env procs h = (let l = on_host env procs h in
     \<lparr>groupProcIDOnHost = l, nGroupProcIDOnHost = int (length l), hostID = h, hostCommRoot = hd l, destProc = procs ! nat (hd l)\<rparr>)"

lemma on_host_simps:
  "distinct (on_host env procs h)" "sorted_wrt (<) (on_host env procs h)" "length (on_host env procs h) \<le> length procs"
  "set (on_host env procs h) = {q. 0 \<le> q \<and> q < int (length procs) \<and> host_of env (procs ! nat q) = h}"
  using length_filter_le [of "\<lambda>q. host_of env (procs ! nat q) = h" "[0..int (length procs) - 1]"] sorted_wrt_filter [OF sorted_wrt_upto]
  by (auto simp: on_host_def)

lemma on_host_nonempty:
  assumes "h \<in> set (hosts_of env procs)"
  shows "on_host env procs h \<noteq> []"
proof -
  from assms obtain i where "i < length procs" "host_of env (procs ! i) = h" by (auto simp: in_set_conv_nth)
  then have "int i \<in> set (on_host env procs h)" by (simp add: on_host_simps(4))
  then show ?thesis by auto
qed

lemma procs_on_ok:
  assumes env: "env_ok env" and ok: "procs_ok env procs"
  shows "procs_on env procs h = Some (on_host env procs h)"
proof -
  let ?test = "\<lambda>q. do { r \<leftarrow> arr_get procs q; h' \<leftarrow> global_proc_to_host env r; Some (h' = h) }"
  have t: "?test q = Some (host_of env (procs ! nat q) = h)" if "q \<in> set [0..int (length procs) - 1]" for q
    using that procs_ok_nth [OF ok, of "nat q"] env_okD(5) [OF env] by (auto simp: arr_get_def)
  have "procs_on env procs h = foldM (\<lambda>tmp q. do { b \<leftarrow> ?test q;
      (if \<not> b then Some tmp else if int (length tmp) < nprocs env then Some (tmp @ [q]) else None) }) [] [0..int (length procs) - 1]"
    unfolding procs_on_def by (rule foldM_cong) (auto split: bind_splits)
  also have "\<dots> = Some ([] @ on_host env procs h)" unfolding on_host_def
    by (rule foldM_filter [OF t]) (use few_procs [OF ok] on_host_simps(3) [of env procs h] in \<open>auto simp: on_host_def\<close>)
  finally show ?thesis by simp
qed

lemma fill_hosts_ok:
  assumes "env_ok env" and "procs_ok env procs" and "set hs \<subseteq> set (hosts_of env procs)"
  shows "fill_hosts env procs hs fld [] = Some (True, fld @ map (host_entry env procs) hs, [])"
  using assms(3)
proof (induction hs arbitrary: fld)
  case (Cons h hs)
  have h: "h \<in> set (hosts_of env procs)" and hs: "set hs \<subseteq> set (hosts_of env procs)" using Cons.prems by auto
  obtain q l where l: "on_host env procs h = q # l" using on_host_nonempty [OF h] by (cases "on_host env procs h") auto
  have "q \<in> set (on_host env procs h)" using l by simp
  then have q: "0 \<le> q" "q < int (length procs)" by (simp_all add: on_host_simps(4))
  have "fill_hosts env procs (h # hs) fld [] = fill_hosts env procs hs (fld @ [host_entry env procs h]) []"
    using q l by (simp add: alloc_or_def take_alloc_def procs_on_ok [OF assms(1,2)] host_entry_def arr_get_def)
  then show ?case using Cons.IH [OF hs] by simp
qed simp

subsection \<open>The index of a host\<close>

lemma foldl_max_ge: "(a::int) \<le> foldl max a xs \<and> (\<forall>x \<in> set xs. x \<le> foldl max a xs)"
proof (induction xs arbitrary: a)
  case (Cons x xs)
  from Cons [of "max a x"] show ?case by auto
qed simp

lemma host_lookup_ok:
  assumes "distinct hosts" and "\<forall>h \<in> set hosts. 0 \<le> h"
  shows "\<exists>lk. host_lookup hosts = Some lk \<and> (\<forall>i < length hosts. arr_get lk (hosts ! i) = Some (int i))"
proof -
  let ?m = "foldl max 0 hosts" and ?f = "\<lambda>arr i. do { h \<leftarrow> arr_get hosts i; arr_set arr h i }"
  have m: "0 \<le> ?m" "\<And>h. h \<in> set hosts \<Longrightarrow> h \<le> ?m" using foldl_max_ge [of 0 hosts] by auto
  have "\<exists>lk. foldM ?f (replicate (nat (?m + 1)) poison) (map int [0..<n]) = Some lk \<and> int (length lk) = ?m + 1
      \<and> (\<forall>i < n. arr_get lk (hosts ! i) = Some (int i))" if "n \<le> length hosts" for n
    using that
  proof (induction n)
    case 0
    show ?case using m(1) by simp
  next
    case (Suc n)
    then obtain lk where lk: "foldM ?f (replicate (nat (?m + 1)) poison) (map int [0..<n]) = Some lk" "int (length lk) = ?m + 1"
      "\<forall>i < n. arr_get lk (hosts ! i) = Some (int i)" by auto
    have h: "0 \<le> hosts ! n" "hosts ! n < int (length lk)" using assms(2) m(2) [of "hosts ! n"] Suc.prems lk(2) by auto
    have ne: "nat (hosts ! i) \<noteq> nat (hosts ! n)" if "i < n" for i
      using that assms Suc.prems nth_eq_iff_index_eq [of hosts i n] nth_mem [of i hosts] nth_mem [of n hosts] by (auto simp: eq_nat_nat_iff)
    have "?f lk (int n) = Some (lk[nat (hosts ! n) := int n])" using h Suc.prems by (simp add: arr_set_def)
    moreover have "arr_get (lk[nat (hosts ! n) := int n]) (hosts ! i) = Some (int i)" if "i < Suc n" for i
    proof (cases "i = n")
      case False
      then have "i < n" using that by simp
      then have "arr_get lk (hosts ! i) = Some (int i)" "nat (hosts ! i) \<noteq> nat (hosts ! n)" using lk(3) ne by auto
      then show ?thesis by (auto simp: arr_get_Some)
    qed (use h in \<open>simp add: arr_get_def\<close>)
    ultimately show ?case using lk(1,2) by (simp add: foldM_append)
  qed
  from this [of "length hosts"] show ?thesis by (auto simp: host_lookup_def upto_map)
qed

subsection \<open>Positions on the own host\<close>

definition local_count :: "lampi_state \<Rightarrow> int list \<Rightarrow> int \<Rightarrow> int" where
  "local_count env toHost n = int (length (filter (\<lambda>h. h = myhost env) (take (nat n) toHost)))"

lemma count_on_host_ok: "n \<le> int (length toHost) \<Longrightarrow> count_on_host env toHost n = Some (local_count env toHost n)"
proof -
  have "foldM (\<lambda>k p. do { h \<leftarrow> arr_get toHost p; Some (if h = myhost env then k + 1 else k) }) 0 (map int [0..<m])
      = Some (int (length (filter (\<lambda>h. h = myhost env) (take m toHost))))" if "m \<le> length toHost" for m
    using that
  proof (induction m)
    case (Suc m)
    then show ?case by (simp add: foldM_append take_Suc_conv_app_nth)
  qed simp
  note loop = this
  assume n: "n \<le> int (length toHost)"
  show ?thesis
  proof (cases "0 \<le> n")
    case True
    then obtain m where "n = int m" using nonneg_int_cases by blast
    then show ?thesis using loop [of m] n by (simp add: count_on_host_def local_count_def upto_map)
  next
    case False
    then show ?thesis by (simp add: count_on_host_def local_count_def)
  qed
qed

lemma on_host_map_ok:
  assumes "distinct mine" and "\<forall>q \<in> set mine. 0 \<le> q \<and> q < int (length toHost)"
  shows "on_host_map env toHost mine
    = Some (map (\<lambda>q. if q \<in> set mine then local_count env toHost q else - 1) [0..int (length toHost) - 1])"
proof -
  let ?f = "\<lambda>arr p. do { k \<leftarrow> count_on_host env toHost p; arr_set arr p k }"
  have "foldM ?f arr qs = Some (foldl (\<lambda>a q. a[nat q := local_count env toHost q]) arr qs)"
    if "length arr = length toHost" "\<forall>q \<in> set qs. 0 \<le> q \<and> q < int (length toHost)" for arr qs
    using that
  proof (induction qs arbitrary: arr)
    case (Cons q qs)
    have "?f arr q = Some (arr[nat q := local_count env toHost q])" using Cons.prems by (simp add: count_on_host_ok arr_set_def)
    then show ?case using Cons.IH [of "arr[nat q := local_count env toHost q]"] Cons.prems by simp
  qed simp
  note run = this
  have upd: "foldl (\<lambda>a q. a[nat q := v q]) (map g [0..<n]) qs = map (\<lambda>i. if int i \<in> set qs then v (int i) else g i) [0..<n]"
    if "\<forall>q \<in> set qs. 0 \<le> q \<and> q < int n" for g and v :: "int \<Rightarrow> int" and n qs
    using that
  proof (induction qs arbitrary: g)
    case (Cons q qs)
    have "(map g [0..<n])[nat q := v q] = map (\<lambda>i. if int i = q then v q else g i) [0..<n]"
      using Cons.prems by (intro nth_equalityI) (auto simp: nth_list_update)
    then show ?case using Cons.IH [of "\<lambda>i. if int i = q then v q else g i"] Cons.prems by (auto cong: map_cong)
  qed simp
  have rep: "replicate n x = map (\<lambda>i. x) [0..<n]" for n and x :: int by (rule nth_equalityI) auto
  show ?thesis unfolding on_host_map_def
    using run [of "replicate (length toHost) (- 1)" mine] upd [of mine "length toHost" "\<lambda>q. local_count env toHost q" "\<lambda>i. - 1"] assms(2)
    by (simp add: rep upto_map o_def)
qed

subsection \<open>The lists for scatter and gather\<close>

lemma node_lists_ok:
  assumes "\<And>i. i \<in> set is \<Longrightarrow> \<exists>m xs. order False i ([], 0) = Some ([], m) \<and> 0 < m \<and> order True i (replicate (nat m) junk, 0) = Some (xs, m)"
  shows "\<exists>ls' lens'. node_lists order junk is ls lens [] = Some (True, ls @ ls', lens @ lens', [])
    \<and> list_all (\<lambda>x. x \<noteq> None) ls' \<and> length ls' = length is \<and> length lens' = length is"
  using assms
proof (induction "is" arbitrary: ls lens)
  case (Cons i "is")
  from Cons.prems [of i] obtain m xs where m: "order False i ([], 0) = Some ([], m)" "0 < m" "order True i (replicate (nat m) junk, 0) = Some (xs, m)"
    by auto
  from Cons.IH [of "ls @ [Some xs]" "lens @ [m]"] Cons.prems obtain ls' lens' where
    "node_lists order junk is (ls @ [Some xs]) (lens @ [m]) [] = Some (True, (ls @ [Some xs]) @ ls', (lens @ [m]) @ lens', [])"
    "list_all (\<lambda>x. x \<noteq> None) ls'" "length ls' = length is" "length lens' = length is" by auto
  then show ?case using m by (intro exI [of _ "Some xs # ls'"] exI [of _ "m # lens'"]) (simp add: alloc_or_def take_alloc_def)
qed simp

lemma order_run:
  assumes "0 < n" and "0 \<le> v" and "v < n" and "setupNaryTree junk [] n GATHER_TREE_ORDER t = Some (rc, t')"
  shows "\<exists>m xs. getScatterNodeOrder (nat n) t' False v ([], 0) = Some ([], m) \<and> 0 < m
      \<and> getScatterNodeOrder (nat n) t' True v (replicate (nat m) junk, 0) = Some (xs, m)"
    and "\<exists>m ys. getGatherNodeOrder (nat n) t' False v ([], 0) = Some ([], m) \<and> 0 < m
      \<and> getGatherNodeOrder (nat n) t' True v (replicate (nat m) junk, 0) = Some (ys, m)"
proof -
  have e: "2 \<le> (3 :: int)" "n \<le> int (nat n)" by simp_all
  from node_orders [OF assms(1) e(1) assms(4,2,3) e(2), of "[]"] obtain m where
    m: "getScatterNodeOrder (nat n) t' False v ([], 0) = Some ([], m)" "getGatherNodeOrder (nat n) t' False v ([], 0) = Some ([], m)"
    "\<And>b. int (length b) = m \<Longrightarrow> \<exists>xs ys. getScatterNodeOrder (nat n) t' True v (b, 0) = Some (xs, m) \<and> getGatherNodeOrder (nat n) t' True v (b, 0) = Some (ys, m)"
    by meson
  have mono: "len \<le> len'" if "getScatterNodeOrder f t' False u (a, len) = Some (a', len')" for f u a len a' len'
    using that
  proof (induction f arbitrary: u a len a' len')
    case (Suc f)
    then obtain k where "foldM (\<lambda>st i. do { c \<leftarrow> down_node t' u i; getScatterNodeOrder f t' False c st }) (a, len + 1) [0..k - 1] = Some (a', len')"
      by (auto simp: add_root_def split: bind_splits)
    then have "len + 1 \<le> snd (a', len')"
      by (rule foldM_invariant) (use Suc.IH in \<open>fastforce split: bind_splits\<close>)+
    then show ?case by simp
  qed simp
  obtain f where f: "nat n = Suc f" using assms(1) by (cases "nat n") auto
  obtain k where "foldM (\<lambda>st i. do { c \<leftarrow> down_node t' v i; getScatterNodeOrder f t' False c st }) ([], 1) [0..k - 1] = Some ([], m)"
    using m(1) by (auto simp: f add_root_def split: bind_splits)
  then have "1 \<le> snd ([] :: int list, m)"
    by (rule foldM_invariant) (use mono in \<open>fastforce split: bind_splits\<close>)+
  then have "0 < m" by simp
  then have "int (length (replicate (nat m) junk)) = m" by simp
  from m(3) [OF this] m(1,2) \<open>0 < m\<close> show
    "\<exists>m xs. getScatterNodeOrder (nat n) t' False v ([], 0) = Some ([], m) \<and> 0 < m
      \<and> getScatterNodeOrder (nat n) t' True v (replicate (nat m) junk, 0) = Some (xs, m)"
    "\<exists>m ys. getGatherNodeOrder (nat n) t' False v ([], 0) = Some ([], m) \<and> 0 < m
      \<and> getGatherNodeOrder (nat n) t' True v (replicate (nat m) junk, 0) = Some (ys, m)" by blast+
qed

subsection \<open>The whole description\<close>

lemma index_of_nth: "distinct xs \<Longrightarrow> i < length xs \<Longrightarrow> index_of (xs ! i) xs = int i"
proof -
  assume d: "distinct xs" "i < length xs"
  have "takeWhile (\<lambda>y. y \<noteq> xs ! i) xs = take i xs"
    by (rule takeWhile_eq_take_P_nth) (use d in \<open>auto simp: nth_eq_iff_index_eq\<close>)
  then show ?thesis using d by (simp add: index_of_def)
qed

lemma index_of_less: "x \<in> set xs \<Longrightarrow> 0 \<le> index_of x xs \<and> index_of x xs < int (length xs) \<and> xs ! nat (index_of x xs) = x"
proof -
  assume x: "x \<in> set xs"
  then obtain ys zs where xs: "xs = ys @ x # zs" "x \<notin> set ys" by (meson split_list_first)
  have "takeWhile (\<lambda>y. y \<noteq> x) xs = ys" using xs by (auto simp: takeWhile_append)
  then show ?thesis using xs by (simp add: index_of_def)
qed

lemma index_of_bounds: "- 1 \<le> index_of x xs \<and> index_of x xs \<le> int (length xs)"
  using index_of_less [of x xs] by (cases "x \<in> set xs") (auto simp: index_of_def)

definition grp_ok :: "lampi_state \<Rightarrow> int list \<Rightarrow> group \<Rightarrow> bool" where
  "grp_ok env procs g \<longleftrightarrow> (let hosts = hosts_of env procs; toHost = map (host_of env) procs; mine = on_host env procs (myhost env) in
     procs_ok env procs \<and> grp_size g = int (length procs) \<and> mapGroupProcIDToGlobalProcID g = Some procs
     \<and> mapGlobalProcIDToGroupProcID g = Some (map (\<lambda>i. index_of i procs) [0..nprocs env - 1])
     \<and> mapGroupProcIDToHostID g = Some toHost \<and> groupHostData g = Some (map (host_entry env procs) hosts)
     \<and> (\<exists>lk. groupHostDataLookup g = Some lk \<and> (\<forall>i < length hosts. arr_get lk (hosts ! i) = Some (int i)))
     \<and> numberOfHostsInGroup g = int (length hosts) \<and> hostIndexInGroup g = index_of (myhost env) hosts
     \<and> ProcID g = index_of (myproc env) procs \<and> onHostProcID g = local_count env toHost (ProcID g)
     \<and> onHostGroupSize g = int (length mine)
     \<and> mapGroupProcIDToOnHostProcID g = Some (map (\<lambda>q. if q \<in> set mine then local_count env toHost q else - 1) [0..int (length procs) - 1])
     \<and> all_allocated g)"

lemma orders_ok:
  assumes "0 < numberOfHostsInGroup g"
    and "setupNaryTree junk [] (numberOfHostsInGroup g) GATHER_TREE_ORDER t = Some (ULM_SUCCESS, interhostGatherScatterTree g)"
  shows "\<exists>sl sn gl gn. create_orders junk [] g = Some (ULM_SUCCESS, g\<lparr>scatterDataNodeList := Some sl, lenScatterDataNodeList := Some sn,
      gatherDataNodeList := Some gl, lenGatherDataNodeList := Some gn\<rparr>) \<and> list_all (\<lambda>x. x \<noteq> None) sl \<and> list_all (\<lambda>x. x \<noteq> None) gl"
proof -
  let ?n = "numberOfHostsInGroup g" and ?t = "interhostGatherScatterTree g"
  have i: "0 \<le> i" "i < ?n" if "i \<in> set [0..?n - 1]" for i using that by auto
  have rs: "\<exists>m xs. getScatterNodeOrder (nat ?n) ?t False i ([], 0) = Some ([], m) \<and> 0 < m
      \<and> getScatterNodeOrder (nat ?n) ?t True i (replicate (nat m) junk, 0) = Some (xs, m)" if "i \<in> set [0..?n - 1]" for i
    by (rule order_run(1) [OF assms(1) i [OF that] assms(2)])
  have rg: "\<exists>m xs. getGatherNodeOrder (nat ?n) ?t False i ([], 0) = Some ([], m) \<and> 0 < m
      \<and> getGatherNodeOrder (nat ?n) ?t True i (replicate (nat m) junk, 0) = Some (xs, m)" if "i \<in> set [0..?n - 1]" for i
    by (rule order_run(2) [OF assms(1) i [OF that] assms(2)])
  obtain sl sn where s: "node_lists (getScatterNodeOrder (nat ?n) ?t) junk [0..?n - 1] [] [] [] = Some (True, sl, sn, [])" "list_all (\<lambda>x. x \<noteq> None) sl"
    using node_lists_ok [where order = "getScatterNodeOrder (nat ?n) ?t" and ls = "[]" and lens = "[]", OF rs] unfolding append_Nil by blast
  obtain gl gn where g: "node_lists (getGatherNodeOrder (nat ?n) ?t) junk [0..?n - 1] [] [] [] = Some (True, gl, gn, [])" "list_all (\<lambda>x. x \<noteq> None) gl"
    using node_lists_ok [where order = "getGatherNodeOrder (nat ?n) ?t" and ls = "[]" and lens = "[]", OF rg] unfolding append_Nil by blast
  show ?thesis using s g by (intro exI [of _ sl] exI [of _ sn] exI [of _ gl] exI [of _ gn]) (simp add: create_orders_def alloc_or_def take_alloc_def Let_def)
qed

lemma own_host_data:
  assumes "env_ok env"
  shows "own_procs (map (host_entry env procs) (hosts_of env procs)) (index_of (myhost env) (hosts_of env procs)) = Some (on_host env procs (myhost env))"
proof (cases "myhost env \<in> set (hosts_of env procs)")
  case True
  from index_of_less [OF True] show ?thesis by (auto simp: own_procs_def arr_get_def host_entry_def Let_def)
next
  case False
  have "q \<notin> set (on_host env procs (myhost env))" for q
  proof
    assume "q \<in> set (on_host env procs (myhost env))"
    then have "procs ! nat q \<in> set procs" "host_of env (procs ! nat q) = myhost env" by (auto simp: on_host_simps(4))
    then have "myhost env \<in> host_of env ` set procs" by (metis image_eqI)
    with False show False by simp
  qed
  then have "on_host env procs (myhost env) = []" by (metis list.set_intros(1) neq_Nil_conv)
  then show ?thesis using False by (simp add: own_procs_def index_of_def)
qed

lemma grp_create_ok:
  assumes env: "env_ok env" and ok: "procs_ok env procs"
  shows "\<exists>g'. create junk env [] [] (int (length procs)) (Some procs) k g = Some (ULM_SUCCESS, g') \<and> grp_ok env procs g' \<and> refCount g' = 1 \<and> groupID g' = k"
proof -
  let ?hosts = "hosts_of env procs" and ?mine = "on_host env procs (myhost env)" and ?H = "map (host_of env) procs"
  let ?data = "map (host_entry env procs) ?hosts" and ?G = "map (\<lambda>i. index_of i procs) [0..nprocs env - 1]"
  from host_lookup_ok [of ?hosts] few_hosts(2) [OF env ok] obtain lk where
    lk: "host_lookup ?hosts = Some lk" "\<forall>i < length ?hosts. arr_get lk (?hosts ! i) = Some (int i)" by auto
  have d: "distinct procs" "procs \<noteq> []" using ok by (simp_all add: procs_ok_def)
  have me: "arr_get ?G (myproc env) = Some (index_of (myproc env) procs)"
    using env_okD(2,3) [OF env] by (simp add: arr_get_def)
  have H: "map (rank_host junk env) procs = ?H" using env_okD(7) [OF env] ok by (auto simp: procs_ok_def)
  have cnt: "count_on_host env ?H (index_of (myproc env) procs) = Some (local_count env ?H (index_of (myproc env) procs))"
    by (rule count_on_host_ok) (use index_of_bounds [of "myproc env" procs] in simp)
  have map: "on_host_map env ?H ?mine = Some (map (\<lambda>q. if q \<in> set ?mine then local_count env ?H q else - 1) [0..int (length procs) - 1])"
    using on_host_map_ok [of ?mine ?H env] on_host_simps [of env procs "myhost env"] by simp
  have n: "0 < int (length ?hosts)"
  proof -
    have "hd (map (host_of env) procs) \<in> set ?hosts" using d(2) by (cases procs) auto
    then show ?thesis by (cases ?hosts) auto
  qed
  define g3 where "g3 = g\<lparr>groupID := k, grp_size := int (length procs), refCount := 1, numberOfHostsInGroup := int (length ?hosts),
    hostIndexInGroup := index_of (myhost env) ?hosts, mapGroupProcIDToGlobalProcID := Some procs, groupHostData := Some ?data,
    groupHostDataLookup := Some lk, mapGlobalProcIDToGroupProcID := Some ?G, mapGroupProcIDToHostID := Some ?H, ProcID := index_of (myproc env) procs,
    onHostProcID := local_count env ?H (index_of (myproc env) procs), onHostGroupSize := int (length ?mine),
    maxOnHostGroupSize := foldl max 0 (map nGroupProcIDOnHost ?data),
    mapGroupProcIDToOnHostProcID := Some (map (\<lambda>q. if q \<in> set ?mine then local_count env ?H q else - 1) [0..int (length procs) - 1]),
    interhostGatherScatterTree := nary_tree junk (int (length ?hosts)) GATHER_TREE_ORDER (interhostGatherScatterTree g)\<rparr>"
  have tree: "setupNaryTree junk [] (int (length ?hosts)) GATHER_TREE_ORDER t = Some (ULM_SUCCESS, nary_tree junk (int (length ?hosts)) GATHER_TREE_ORDER t)" for t
  proof -
    have few: "int (length ?hosts) < 3 ^ 19" using few_hosts(1) [OF env ok] env by (simp add: env_ok_def)
    have "\<exists>e. int (length ?hosts) < GATHER_TREE_ORDER ^ e \<and> GATHER_TREE_ORDER ^ e \<le> 2147483647"
      by (rule exI [of _ 19]) (use few in simp)
    with full_power [OF n, of GATHER_TREE_ORDER] setup_ok [OF _ n, of GATHER_TREE_ORDER junk t] show ?thesis by simp
  qed
  have run: "create junk env [] [] (int (length procs)) (Some procs) k g = create_orders junk [] g3"
    by (simp add: d(1) lk(1) H cnt map me own_host_data [OF env, of procs] tree create_def create_hosts_def create_local_def alloc_or_def take_alloc_def hosts_found [OF env ok] those_arr
      fill_hosts_ok [OF env ok] g3_def Let_def)
  from orders_ok [of g3 junk "interhostGatherScatterTree g"] n tree [of "interhostGatherScatterTree g"] obtain sl sn gl gn where
    o: "create_orders junk [] g3 = Some (ULM_SUCCESS, g3\<lparr>scatterDataNodeList := Some sl, lenScatterDataNodeList := Some sn,
      gatherDataNodeList := Some gl, lenGatherDataNodeList := Some gn\<rparr>)" "list_all (\<lambda>x. x \<noteq> None) sl" "list_all (\<lambda>x. x \<noteq> None) gl"
    by (auto simp: g3_def)
  show ?thesis using run o ok lk(2)
    by (intro exI [of _ "g3\<lparr>scatterDataNodeList := Some sl, lenScatterDataNodeList := Some sn,
      gatherDataNodeList := Some gl, lenGatherDataNodeList := Some gn\<rparr>"]) (simp add: grp_ok_def g3_def all_allocated_def Let_def)
qed

end
