(* ===== verification/Group_Ops.thy ===== *)
theory Group_Ops
  imports Group_Create
begin

section \<open>Groups as lists of processes\<close>

text \<open>
  The pool seen from outside: a partial map (\<open>table\<close>) from group indices to the list of the processes and the number of references. A
  well-formed pool (\<open>pool_ok\<close>) has only groups that \<^verbatim>\<open>create\<close> completed.
\<close>

definition pool_ok :: "lampi_state \<Rightarrow> group_pool \<Rightarrow> bool" where
  "pool_ok env p \<longleftrightarrow> 0 \<le> firstFreeElement p \<and> firstFreeElement p \<le> poolSize p
     \<and> (\<forall>i < nat (firstFreeElement p). groups p ! i \<noteq> None)
     \<and> (firstFreeElement p < poolSize p \<longrightarrow> groups p ! nat (firstFreeElement p) = None)
     \<and> (\<forall>i g. i < length (groups p) \<longrightarrow> groups p ! i = Some g \<longrightarrow> (\<exists>procs. grp_ok env procs g) \<and> 1 \<le> refCount g)"

definition view :: "group \<Rightarrow> int list \<times> int" where
  "view g = (the (mapGroupProcIDToGlobalProcID g), refCount g)"

definition table :: "group_pool \<Rightarrow> int \<rightharpoonup> int list \<times> int" where
  "table p i = (if 0 \<le> i \<and> i < poolSize p then map_option view (groups p ! nat i) else None)"

subsection \<open>Looking up a group\<close>

lemma grp_okD:
  assumes "grp_ok env procs g"
  shows "procs_ok env procs" "grp_size g = int (length procs)" "mapGroupProcIDToGlobalProcID g = Some procs" "members g = Some procs" "all_allocated g"
    "procs \<noteq> []" "distinct procs"
proof -
  show g: "procs_ok env procs" "grp_size g = int (length procs)" "mapGroupProcIDToGlobalProcID g = Some procs" "all_allocated g"
    using assms by (simp_all add: grp_ok_def Let_def)
  show "members g = Some procs" using g(2,3) those_arr [of procs] by (simp add: members_def)
  show "procs \<noteq> []" "distinct procs" using g(1) by (simp_all add: procs_ok_def)
qed

lemma grp_ok_refs [simp]: "grp_ok env procs (g\<lparr>refCount := n\<rparr>) = grp_ok env procs g"
  by (simp add: grp_ok_def all_allocated_def Let_def)

lemma table_some:
  assumes ok: "pool_ok env p" and t: "table p i = Some (xs, n)"
  shows "\<exists>g. arr_get (groups p) i = Some (Some g) \<and> groups p ! nat i = Some g \<and> grp_ok env xs g \<and> refCount g = n \<and> 1 \<le> n"
    and "0 \<le> i" and "i < poolSize p"
proof -
  show i: "0 \<le> i" "i < poolSize p" using t by (auto simp: table_def split: if_splits)
  from t i obtain g where g: "groups p ! nat i = Some g" "view g = (xs, n)" by (auto simp: table_def)
  have "nat i < length (groups p)" using i by simp
  with ok g(1) obtain procs where "grp_ok env procs g" "1 \<le> refCount g" unfolding pool_ok_def by meson
  moreover from this(1) g(2) have "procs = xs" "refCount g = n" by (auto simp: view_def grp_okD(3))
  ultimately show "\<exists>g. arr_get (groups p) i = Some (Some g) \<and> groups p ! nat i = Some g \<and> grp_ok env xs g \<and> refCount g = n \<and> 1 \<le> n"
    using g(1) i by (auto simp: arr_get_def)
qed

lemma with_groups_ok:
  assumes "arr_get (groups p) i = Some (Some g1)" and "arr_get (groups p) j = Some (Some g2)"
  shows "with_groups i j p go = go g1 g2"
  using assms by (simp add: with_groups_def)

subsection \<open>A slot for a new group\<close>

lemma next_free_props:
  assumes "0 \<le> i" and "i \<le> int (length gs)"
  shows "i \<le> next_free gs i" "next_free gs i \<le> int (length gs)" "next_free gs i < int (length gs) \<longrightarrow> gs ! nat (next_free gs i) = None"
    "\<And>j. i \<le> int j \<Longrightarrow> int j < next_free gs i \<Longrightarrow> gs ! j \<noteq> None"
proof -
  let ?d = "drop (nat i) gs" and ?t = "takeWhile (\<lambda>g. g \<noteq> None) (drop (nat i) gs)"
  have l: "length ?t \<le> length gs - nat i" using length_takeWhile_le [of "\<lambda>g. g \<noteq> None" ?d] by simp
  show "i \<le> next_free gs i" by (simp add: next_free_def)
  show "next_free gs i \<le> int (length gs)" using l assms by (simp add: next_free_def)
  have n: "nat (next_free gs i) = nat i + length ?t" using assms by (simp add: next_free_def nat_add_distrib)
  show "next_free gs i < int (length gs) \<longrightarrow> gs ! nat (next_free gs i) = None"
  proof
    assume "next_free gs i < int (length gs)"
    then have "length ?t < length ?d" using assms by (simp add: next_free_def)
    from nth_length_takeWhile [OF this] have "?d ! length ?t = None" by simp
    then show "gs ! nat (next_free gs i) = None" using assms by (simp add: n)
  qed
  show "gs ! j \<noteq> None" if "i \<le> int j" "int j < next_free gs i" for j
  proof -
    have "j - nat i < length ?t" using that assms by (simp add: next_free_def)
    then have "?d ! (j - nat i) \<noteq> None" using nth_mem [of "j - nat i" ?t] takeWhile_nth [of "j - nat i" "\<lambda>g. g \<noteq> None" ?d] set_takeWhileD by metis
    then show ?thesis using that assms by simp
  qed
qed

definition roomy :: "group_pool \<Rightarrow> group_pool" where
  "roomy p = (if firstFreeElement p \<ge> poolSize p then grow_pool p else p)"

lemma roomy_props:
  assumes "pool_ok env p"
  shows "table (roomy p) = table p" "0 \<le> firstFreeElement p" "firstFreeElement p < poolSize (roomy p)" "table p (firstFreeElement p) = None"
    "groups (roomy p) ! nat (firstFreeElement p) = None" "pool_ok env (roomy p)" "firstFreeElement (roomy p) = firstFreeElement p"
proof -
  have b: "0 \<le> firstFreeElement p" "firstFreeElement p \<le> poolSize p" "firstFreeElement p < poolSize p \<longrightarrow> groups p ! nat (firstFreeElement p) = None"
    using assms by (simp_all add: pool_ok_def)
  show "table (roomy p) = table p" using b by (rule_tac ext) (auto simp: roomy_def table_def grow_pool_def nth_append)
  show "0 \<le> firstFreeElement p" "firstFreeElement p < poolSize (roomy p)" "firstFreeElement (roomy p) = firstFreeElement p"
    using b by (auto simp: roomy_def grow_pool_def)
  show "table p (firstFreeElement p) = None" using b by (auto simp: table_def)
  show "groups (roomy p) ! nat (firstFreeElement p) = None" using b by (auto simp: roomy_def grow_pool_def nth_append)
  show "pool_ok env (roomy p)"
  proof (cases "firstFreeElement p \<ge> poolSize p")
    case True
    then have f: "firstFreeElement p = poolSize p" using b by simp
    show ?thesis using assms True by (auto simp: pool_ok_def roomy_def grow_pool_def f nth_append)
  qed (use assms in \<open>simp add: roomy_def\<close>)
qed

text \<open>Any good group put into the free slot gives a good pool.\<close>

lemma put_new_ok:
  assumes ok: "pool_ok env p" and g: "grp_ok env xs g" "refCount g = 1"
  defines "k \<equiv> firstFreeElement p"
  defines "p' \<equiv> (put_group k (Some g) (roomy p))\<lparr>firstFreeElement := next_free (groups (put_group k (Some g) (roomy p))) k\<rparr>"
  shows "pool_ok env p'" and "table p' = (table p)(k \<mapsto> (xs, 1))"
proof -
  note r = roomy_props [OF ok]
  have k: "0 \<le> k" "k < poolSize (roomy p)" using r(2,3) by (simp_all add: k_def)
  let ?gs = "(groups (roomy p))[nat k := Some g]"
  have gs: "groups p' = ?gs" "firstFreeElement p' = next_free ?gs k" by (simp_all add: p'_def put_group_def)
  note n = next_free_props [of k ?gs]
  have old: "\<forall>i < nat k. groups (roomy p) ! i \<noteq> None"
    "\<And>i h. i < length (groups (roomy p)) \<Longrightarrow> groups (roomy p) ! i = Some h \<Longrightarrow> (\<exists>procs. grp_ok env procs h) \<and> 1 \<le> refCount h"
    using r(6,7) by (simp_all add: pool_ok_def k_def)
  have "?gs ! i \<noteq> None" if "i < nat (next_free ?gs k)" for i
  proof (cases "i < nat k")
    case False
    then show ?thesis using n(4) [of i] that k by simp
  qed (use old(1) in simp)
  moreover have "(\<exists>procs. grp_ok env procs h) \<and> 1 \<le> refCount h" if "i < length ?gs" "?gs ! i = Some h" for i h
    using that old(2) [of i h] g by (cases "i = nat k") auto
  ultimately show "pool_ok env p'" unfolding pool_ok_def gs using n(1-3) k by auto
  show "table p' = (table p)(k \<mapsto> (xs, 1))"
  proof
    fix i
    have "table p' i = ((table (roomy p))(k \<mapsto> (xs, 1))) i"
      using k g grp_okD(3) [OF g(1)] by (auto simp: table_def gs view_def nth_list_update eq_nat_nat_iff)
    then show "table p' i = ((table p)(k \<mapsto> (xs, 1))) i" by (simp add: r(1))
  qed
qed

lemma element_ok:
  assumes ok: "pool_ok env p"
  shows "\<exists>p1. getGroupElement junk [] p = Some (ULM_SUCCESS, Some (firstFreeElement p), p1, [])
    \<and> (\<forall>xs. env_ok env \<longrightarrow> procs_ok env xs \<longrightarrow> (\<exists>p2. create_in junk env [] [] xs (firstFreeElement p) p1 = Some (ULM_SUCCESS, p2)
        \<and> pool_ok env p2 \<and> table p2 = (table p)(firstFreeElement p \<mapsto> (xs, 1))))"
proof -
  let ?k = "firstFreeElement p"
  note r = roomy_props [OF ok]
  define q where "q = put_group ?k (Some (new_group junk)) (roomy p)"
  define p1 where "p1 = q\<lparr>firstFreeElement := next_free (groups q) ?k\<rparr>"
  have get: "getGroupElement junk [] p = Some (ULM_SUCCESS, Some ?k, p1, [])"
    using r(2,3) by (auto simp: getGroupElement_def take_alloc_def roomy_def arr_get_def p1_def q_def Let_def)
  have "\<exists>p2. create_in junk env [] [] xs ?k p1 = Some (ULM_SUCCESS, p2) \<and> pool_ok env p2 \<and> table p2 = (table p)(?k \<mapsto> (xs, 1))"
    if "env_ok env" "procs_ok env xs" for xs
  proof -
    from grp_create_ok [OF that, of junk ?k "new_group junk"] obtain g' where
      g': "create junk env [] [] (int (length xs)) (Some xs) ?k (new_group junk) = Some (ULM_SUCCESS, g')" "grp_ok env xs g'" "refCount g' = 1" by blast
    have slot: "arr_get (groups p1) ?k = Some (Some (new_group junk))"
      using r(2,3) by (simp add: p1_def q_def put_group_def arr_get_def)
    have nf: "next_free ((groups (roomy p))[nat ?k := Some h]) ?k = next_free ((groups (roomy p))[nat ?k := Some h']) ?k" for h h'
      using r(2,3) by (simp add: next_free_def upd_conv_take_nth_drop drop_take)
    have "put_group ?k (Some g') p1 = (put_group ?k (Some g') (roomy p))\<lparr>firstFreeElement := next_free (groups (put_group ?k (Some g') (roomy p))) ?k\<rparr>"
      using nf [of g' "new_group junk"] by (simp add: p1_def q_def put_group_def)
    then show ?thesis using put_new_ok [OF ok g'(2,3)] g'(1) slot by (simp add: create_in_def)
  qed
  with get show ?thesis by blast
qed

subsection \<open>References\<close>

text \<open>A group changes only its number of references.\<close>

lemma put_refs_ok:
  assumes ok: "pool_ok env p" and t: "table p i = Some (xs, n)" and g: "groups p ! nat i = Some g" "grp_ok env xs g" and m: "1 \<le> m"
  shows "pool_ok env (put_group i (Some (g\<lparr>refCount := m\<rparr>)) p)" (is "pool_ok env ?p'")
    and "table (put_group i (Some (g\<lparr>refCount := m\<rparr>)) p) = (table p)(i \<mapsto> (xs, m))"
proof -
  have i: "0 \<le> i" "i < poolSize p" using table_some(2,3) [OF ok t] by auto
  have gs: "groups ?p' = (groups p)[nat i := Some (g\<lparr>refCount := m\<rparr>)]" "firstFreeElement ?p' = firstFreeElement p" by (simp_all add: put_group_def)
  have same: "groups ?p' ! j = None \<longleftrightarrow> groups p ! j = None" if "j < length (groups p)" for j
    using that g(1) i by (cases "j = nat i") (simp_all add: gs)
  have "(\<exists>procs. grp_ok env procs h) \<and> 1 \<le> refCount h" if "j < length (groups ?p')" "groups ?p' ! j = Some h" for j h
  proof (cases "j = nat i")
    case True
    then have "h = g\<lparr>refCount := m\<rparr>" using that i by (simp add: gs)
    then show ?thesis using g(2) m by auto
  next
    case False
    then show ?thesis using ok that unfolding pool_ok_def gs by simp
  qed
  moreover have "groups ?p' ! j \<noteq> None" if "j < nat (firstFreeElement p)" for j
    using same [of j] that ok by (auto simp: pool_ok_def)
  moreover have "groups ?p' ! nat (firstFreeElement p) = None" if "firstFreeElement p < poolSize p"
    using same [of "nat (firstFreeElement p)"] that ok by (auto simp: pool_ok_def)
  ultimately show "pool_ok env ?p'" using ok unfolding pool_ok_def gs(2) by (simp add: put_group_def)
  show "table ?p' = (table p)(i \<mapsto> (xs, m))"
    using i grp_okD(3) [OF g(2)] by (rule_tac ext) (auto simp: table_def gs view_def nth_list_update eq_nat_nat_iff)
qed

lemma increment_ok:
  assumes ok: "pool_ok env p" and t: "table p i = Some (xs, n)"
  shows "pool_ok env (incrementRefCount i p) \<and> table (incrementRefCount i p) = (table p)(i \<mapsto> (xs, n + 1))"
proof -
  from table_some(1) [OF ok t] obtain g where g: "groups p ! nat i = Some g" "grp_ok env xs g" "refCount g = n" "1 \<le> n" by blast
  show ?thesis using put_refs_ok [OF ok t g(1,2), of "n + 1"] g by (simp add: incrementRefCount_def)
qed

lemma grp_free_ok:
  assumes ok: "pool_ok env p" and t: "table p i = Some (xs, n)"
  shows "\<exists>p'. ulm_group_free i p = Some (MPI_SUCCESS, p') \<and> pool_ok env p' \<and> table p' = (table p)(i := if n = 1 then None else Some (xs, n - 1))"
proof -
  have i: "0 \<le> i" "i < poolSize p" using table_some(2,3) [OF ok t] by auto
  from table_some(1) [OF ok t] obtain g where g: "arr_get (groups p) i = Some (Some g)" "groups p ! nat i = Some g" "grp_ok env xs g" "refCount g = n" "1 \<le> n"
    by blast
  have f: "freeGroup g = Some (g\<lparr>refCount := n - 1\<rparr>)" using grp_okD(5) [OF g(3)] g(4) by (simp add: freeGroup_def Let_def)
  show ?thesis
  proof (cases "n = 1")
    case False
    then have "ulm_group_free i p = Some (MPI_SUCCESS, put_group i (Some (g\<lparr>refCount := n - 1\<rparr>)) p)"
      using i g f by (simp add: ulm_group_free_def)
    then show ?thesis using put_refs_ok [OF ok t g(2,3), of "n - 1"] False g(5) by simp
  next
    case True
    let ?f = "if i < firstFreeElement p then i else firstFreeElement p"
    let ?p' = "(put_group i None p)\<lparr>firstFreeElement := ?f\<rparr>"
    have gs: "groups ?p' = (groups p)[nat i := None]" "firstFreeElement ?p' = ?f" by (simp_all add: put_group_def)
    have run: "ulm_group_free i p = Some (MPI_SUCCESS, ?p')" using i g f True by (simp add: ulm_group_free_def)
    have old: "\<forall>j < nat (firstFreeElement p). groups p ! j \<noteq> None" "0 \<le> firstFreeElement p" "firstFreeElement p \<le> poolSize p"
      "firstFreeElement p < poolSize p \<longrightarrow> groups p ! nat (firstFreeElement p) = None"
      "\<And>j h. j < length (groups p) \<Longrightarrow> groups p ! j = Some h \<Longrightarrow> (\<exists>procs. grp_ok env procs h) \<and> 1 \<le> refCount h"
      using ok by (simp_all add: pool_ok_def)
    have "(\<exists>procs. grp_ok env procs h) \<and> 1 \<le> refCount h" if "j < length (groups ?p')" "groups ?p' ! j = Some h" for j h
      using that old(5) [of j h] by (cases "j = nat i") (simp_all add: gs)
    moreover have "groups ?p' ! j \<noteq> None" if "j < nat ?f" for j
    proof -
      have "j \<noteq> nat i" "j < nat (firstFreeElement p)" using that i g(2) by (auto split: if_splits)
      then show ?thesis using old(1) by (simp add: gs)
    qed
    moreover have "groups ?p' ! nat ?f = None" if "?f < poolSize p" using that old(2,4) i by (simp add: gs nth_list_update)
    ultimately have "pool_ok env ?p'" unfolding pool_ok_def gs(1,2) using old(2,3) i by auto
    moreover have "table ?p' = (table p)(i := None)"
      using i by (rule_tac ext) (auto simp: table_def gs nth_list_update eq_nat_nat_iff)
    ultimately show ?thesis using run True by simp
  qed
qed

subsection \<open>What the operations promise\<close>

text \<open>The result \<open>zs\<close> at index \<open>k\<close>: the empty group, a new group, or one more reference to a group that has these processes.\<close>

definition results_in :: "(int \<rightharpoonup> int list \<times> int) \<Rightarrow> (int \<rightharpoonup> int list \<times> int) \<Rightarrow> int \<Rightarrow> int list \<Rightarrow> bool" where
  "results_in t t' k zs \<longleftrightarrow> (zs = [] \<and> k = MPI_GROUP_EMPTY \<and> t' = t) \<or> (zs \<noteq> [] \<and> 0 \<le> k \<and> t k = None \<and> t' = t(k \<mapsto> (zs, 1)))
     \<or> (\<exists>n. t k = Some (zs, n) \<and> t' = t(k \<mapsto> (zs, n + 1)))"

definition procs_at :: "(int \<rightharpoonup> int list \<times> int) \<Rightarrow> int \<Rightarrow> int list" where
  "procs_at t i = (case t i of None \<Rightarrow> [] | Some (xs, n) \<Rightarrow> xs)"

abbreviation good_result :: "lampi_state \<Rightarrow> group_pool \<Rightarrow> int list \<Rightarrow> op_result \<Rightarrow> bool" where
  "good_result env p zs r \<equiv> \<exists>k p'. r = Some (MPI_SUCCESS, Some k, p') \<and> pool_ok env p' \<and> results_in (table p) (table p') k zs"

lemma new_result: "pool_ok env p \<Longrightarrow> zs \<noteq> [] \<Longrightarrow> results_in (table p) ((table p)(firstFreeElement p \<mapsto> (zs, 1))) (firstFreeElement p) zs"
  using roomy_props(2,4) by (simp add: results_in_def)

lemma make_group_ok:
  assumes "env_ok env" and "pool_ok env p" and "zs \<noteq> [] \<Longrightarrow> procs_ok env zs"
  shows "good_result env p zs (make_group junk env [] [] e zs p)"
proof (cases "zs = []")
  case False
  with element_ok [OF assms(2), of junk] assms obtain p1 p2 where "getGroupElement junk [] p = Some (ULM_SUCCESS, Some (firstFreeElement p), p1, [])"
    "create_in junk env [] [] zs (firstFreeElement p) p1 = Some (ULM_SUCCESS, p2)" "pool_ok env p2" "table p2 = (table p)(firstFreeElement p \<mapsto> (zs, 1))"
    by meson
  then show ?thesis using False new_result [OF assms(2) False] by (simp add: make_group_def)
qed (use assms in \<open>simp add: make_group_def results_in_def\<close>)

lemma share_ok:
  assumes "pool_ok env p" and "table p i = Some (xs, n)"
  shows "share_group i p = Some (MPI_SUCCESS, Some i, incrementRefCount i p)" "good_result env p xs (Some (MPI_SUCCESS, Some i, incrementRefCount i p))"
  using table_some(1) [OF assms] increment_ok [OF assms] assms(2) by (auto simp: share_group_def results_in_def)

definition group_at :: "(int \<rightharpoonup> int list \<times> int) \<Rightarrow> int \<Rightarrow> bool" where
  "group_at t i \<longleftrightarrow> t i \<noteq> None"

lemma group_atD:
  assumes "pool_ok env p" and "group_at (table p) i"
  obtains g n where "table p i = Some (procs_at (table p) i, n)" "arr_get (groups p) i = Some (Some g)" "grp_ok env (procs_at (table p) i) g"
    "\<not> poolSize p \<le> i" "i \<noteq> MPI_GROUP_EMPTY"
proof -
  from assms(2) obtain xs n where t: "table p i = Some (xs, n)" by (auto simp: group_at_def)
  then have "procs_at (table p) i = xs" by (simp add: procs_at_def)
  with t table_some [OF assms(1) t] show thesis using that by fastforce
qed

lemma empty_at: "procs_at (table p) MPI_GROUP_EMPTY = []"
  by (simp add: procs_at_def table_def)

lemma union_ok:
  assumes env: "env_ok env" and ok: "pool_ok env p"
    and i: "i = MPI_GROUP_EMPTY \<or> group_at (table p) i" and j: "j = MPI_GROUP_EMPTY \<or> group_at (table p) j"
  shows "good_result env p (procs_at (table p) i @ filter (\<lambda>r. r \<notin> set (procs_at (table p) i)) (procs_at (table p) j))
    (ulm_group_union junk env [] [] i j p)"
proof -
  have e: "\<not> poolSize p \<le> MPI_GROUP_EMPTY" by simp
  consider "i = MPI_GROUP_EMPTY" "j = MPI_GROUP_EMPTY" | "i = MPI_GROUP_EMPTY" "group_at (table p) j" | "j = MPI_GROUP_EMPTY" "group_at (table p) i"
    | "group_at (table p) i" "group_at (table p) j" using i j by blast
  then show ?thesis
  proof cases
    case 1
    then show ?thesis using ok by (simp add: ulm_group_union_def empty_at results_in_def)
  next
    case 2
    from group_atD [OF ok 2(2)] obtain n where jn: "table p j = Some (procs_at (table p) j, n)" "\<not> poolSize p \<le> j" "j \<noteq> MPI_GROUP_EMPTY" by metis
    then show ?thesis using 2 share_ok [OF ok jn(1)] by (simp add: ulm_group_union_def empty_at)
  next
    case 3
    from group_atD [OF ok 3(2)] obtain n where "in": "table p i = Some (procs_at (table p) i, n)" "\<not> poolSize p \<le> i" "i \<noteq> MPI_GROUP_EMPTY" by metis
    then show ?thesis using 3 share_ok [OF ok "in"(1)] by (simp add: ulm_group_union_def empty_at)
  next
    case 4
    from group_atD [OF ok 4(1)] obtain g1 where g1: "arr_get (groups p) i = Some (Some g1)" "grp_ok env (procs_at (table p) i) g1"
      "\<not> poolSize p \<le> i" "i \<noteq> MPI_GROUP_EMPTY" by metis
    from group_atD [OF ok 4(2)] obtain g2 where g2: "arr_get (groups p) j = Some (Some g2)" "grp_ok env (procs_at (table p) j) g2"
      "\<not> poolSize p \<le> j" "j \<noteq> MPI_GROUP_EMPTY" by metis
    let ?zs = "procs_at (table p) i @ filter (\<lambda>r. r \<notin> set (procs_at (table p) i)) (procs_at (table p) j)"
    have zs: "procs_ok env ?zs" using grp_okD(1) [OF g1(2)] grp_okD(1) [OF g2(2)] by (auto simp: procs_ok_def)
    from element_ok [OF ok, of junk] env zs obtain p1 p2 where p: "getGroupElement junk [] p = Some (ULM_SUCCESS, Some (firstFreeElement p), p1, [])"
      "create_in junk env [] [] ?zs (firstFreeElement p) p1 = Some (ULM_SUCCESS, p2)" "pool_ok env p2" "table p2 = (table p)(firstFreeElement p \<mapsto> (?zs, 1))"
      by meson
    have "?zs \<noteq> []" using zs by (simp add: procs_ok_def)
    have sz: "grp_size g1 + grp_size g2 \<noteq> 0" using grp_okD(2,6) [OF g1(2)] grp_okD(2) [OF g2(2)] by (simp add: add_nonneg_eq_0_iff)
    have "ulm_group_union junk env [] [] i j p = Some (MPI_SUCCESS, Some (firstFreeElement p), p2)"
      using g1 g2 p(1,2) grp_okD(4) [OF g1(2)] grp_okD(4) [OF g2(2)] sz
      by (simp add: ulm_group_union_def with_groups_ok take_alloc_def)
    then show ?thesis using p(3,4) new_result [OF ok \<open>?zs \<noteq> []\<close>] by simp
  qed
qed

end
