(* ===== verification/Group_Select.thy ===== *)
theory Group_Select
  imports Group_Ops
begin

section \<open>The operations on groups\<close>

text \<open>
  Every operation that forms a group gives the list of processes that its specification says, for groups of a well-formed pool.
\<close>

subsection \<open>Intersection and difference\<close>

lemma filter_procs: "procs_ok env xs \<Longrightarrow> filter P xs \<noteq> [] \<Longrightarrow> procs_ok env (filter P xs)"
  by (simp add: procs_ok_def)

lemma intersection_ok:
  assumes env: "env_ok env" and ok: "pool_ok env p" and i: "group_at (table p) i" and j: "group_at (table p) j"
  shows "good_result env p (filter (\<lambda>r. r \<in> set (procs_at (table p) j)) (procs_at (table p) i)) (ulm_group_intersection junk env [] [] i j p)"
proof -
  from group_atD [OF ok i] obtain g1 where g1: "arr_get (groups p) i = Some (Some g1)" "grp_ok env (procs_at (table p) i) g1" "\<not> poolSize p \<le> i" by metis
  from group_atD [OF ok j] obtain g2 where g2: "arr_get (groups p) j = Some (Some g2)" "grp_ok env (procs_at (table p) j) g2" "\<not> poolSize p \<le> j" by metis
  have "ulm_group_intersection junk env [] [] i j p
      = make_group junk env [] [] None (filter (\<lambda>r. r \<in> set (procs_at (table p) j)) (procs_at (table p) i)) p"
    using g1 g2 grp_okD(2,4,6) [OF g1(2)] grp_okD(2,4,6) [OF g2(2)] by (simp add: ulm_group_intersection_def with_groups_ok take_alloc_def)
  then show ?thesis using make_group_ok [OF env ok filter_procs] grp_okD(1) [OF g1(2)] by simp
qed

lemma difference_ok:
  assumes env: "env_ok env" and ok: "pool_ok env p"
    and i: "i = MPI_GROUP_EMPTY \<or> group_at (table p) i" and j: "j = MPI_GROUP_EMPTY \<or> group_at (table p) j"
  shows "good_result env p (filter (\<lambda>r. r \<notin> set (procs_at (table p) j)) (procs_at (table p) i)) (ulm_group_difference junk env [] [] i j p)"
proof (cases "i = MPI_GROUP_EMPTY")
  case True
  have "\<not> poolSize p \<le> j" using j group_atD [OF ok, of j] by fastforce
  then show ?thesis using True ok by (simp add: ulm_group_difference_def empty_at results_in_def)
next
  case False
  with i have gi: "group_at (table p) i" by simp
  from group_atD [OF ok gi] obtain g1 n where g1: "table p i = Some (procs_at (table p) i, n)" "arr_get (groups p) i = Some (Some g1)"
    "grp_ok env (procs_at (table p) i) g1" "\<not> poolSize p \<le> i" by metis
  show ?thesis
  proof (cases "j = MPI_GROUP_EMPTY")
    case True
    then show ?thesis using False g1(4) share_ok [OF ok g1(1)] by (simp add: ulm_group_difference_def empty_at)
  next
    case nj: False
    with j have gj: "group_at (table p) j" by simp
    from group_atD [OF ok gj] obtain g2 where g2: "arr_get (groups p) j = Some (Some g2)" "grp_ok env (procs_at (table p) j) g2" "\<not> poolSize p \<le> j" by metis
    have sz: "grp_size g1 + grp_size g2 \<noteq> 0" using grp_okD(2,6) [OF g1(3)] grp_okD(2) [OF g2(2)] by (simp add: add_nonneg_eq_0_iff)
    have "ulm_group_difference junk env [] [] i j p
        = make_group junk env [] [] (Some MPI_ERR_INTERN) (filter (\<lambda>r. r \<notin> set (procs_at (table p) j)) (procs_at (table p) i)) p"
      using False nj g1 g2 sz grp_okD(4) [OF g1(3)] grp_okD(4) [OF g2(2)] by (simp add: ulm_group_difference_def with_groups_ok take_alloc_def)
    then show ?thesis using make_group_ok [OF env ok filter_procs] grp_okD(1) [OF g1(3)] by simp
  qed
qed

subsection \<open>Selections by rank\<close>

definition ranks_ok :: "int list \<Rightarrow> int list \<Rightarrow> bool" where
  "ranks_ok xs ranks \<longleftrightarrow> distinct ranks \<and> (\<forall>r \<in> set ranks. 0 \<le> r \<and> r < int (length xs))"

abbreviation pick :: "int list \<Rightarrow> int list \<Rightarrow> int list" where
  "pick xs ranks \<equiv> map (\<lambda>r. xs ! nat r) ranks"

text \<open>The members whose rank is not listed.\<close>

definition leave_out :: "int list \<Rightarrow> int list \<Rightarrow> int list" where
  "leave_out xs ranks = pick xs (filter (\<lambda>r. r \<notin> set ranks) [0..int (length xs) - 1])"

lemma ranks_len: "ranks_ok xs ranks \<Longrightarrow> int (length ranks) \<le> int (length xs)"
proof -
  assume r: "ranks_ok xs ranks"
  then have "set ranks \<subseteq> {0..<int (length xs)}" by (auto simp: ranks_ok_def)
  then have "card (set ranks) \<le> card {0..<int (length xs)}" by (rule card_mono [rotated]) simp
  then show ?thesis using r distinct_card [of ranks] by (simp add: ranks_ok_def)
qed

lemma pick_procs:
  assumes "procs_ok env xs" and "ranks_ok xs ranks" and "ranks \<noteq> []"
  shows "procs_ok env (pick xs ranks)"
proof -
  have "x = y" if "x \<in> set ranks" "y \<in> set ranks" "xs ! nat x = xs ! nat y" for x y
  proof -
    have b: "0 \<le> x" "x < int (length xs)" "0 \<le> y" "y < int (length xs)" "distinct xs" using assms that by (auto simp: procs_ok_def ranks_ok_def)
    then have "nat x = nat y" using that(3) nth_eq_iff_index_eq [of xs "nat x" "nat y"] by simp
    with b show ?thesis by (simp add: eq_nat_nat_iff)
  qed
  then have "inj_on (\<lambda>r. xs ! nat r) (set ranks)" by (auto simp: inj_on_def)
  then show ?thesis using assms by (auto simp: procs_ok_def ranks_ok_def distinct_map)
qed

lemma incl_loop_ok:
  assumes "mapGroupProcIDToGlobalProcID g = Some xs" and "grp_size g = int (length xs)" and "ranks_ok xs ranks" and "set is \<subseteq> {0..<int (length ranks)}"
  shows "incl_loop g ranks is acc = Some (Inr (acc @ pick xs (pick ranks is)))"
  using assms(4)
proof (induction "is" arbitrary: acc)
  case (Cons i "is")
  have i: "0 \<le> i" "i < int (length ranks)" using Cons.prems by auto
  then have "0 \<le> ranks ! nat i" "ranks ! nat i < int (length xs)" using assms(3) by (auto simp: ranks_ok_def)
  then show ?case using Cons assms(1,2) i by (simp add: arr_get_def)
qed simp

lemma upto_less: "set [0..n - 1] \<subseteq> {0..<n}"
  by auto

lemma pick_all: "pick ranks [0..int (length ranks) - 1] = ranks"
  by (rule nth_equalityI) (auto simp: upto_map)

lemma incl_ok:
  assumes env: "env_ok env" and ok: "pool_ok env p" and i: "i = MPI_GROUP_EMPTY \<and> ranks = [] \<or> group_at (table p) i"
    and r: "ranks_ok (procs_at (table p) i) ranks"
  shows "good_result env p (pick (procs_at (table p) i) ranks) (ulm_group_incl junk env [] [] i (int (length ranks)) ranks p)"
proof (cases "ranks = []")
  case True
  then show ?thesis using ok by (simp add: ulm_group_incl_def results_in_def)
next
  case False
  let ?xs = "procs_at (table p) i" and ?zs = "pick (procs_at (table p) i) ranks"
  have gi: "group_at (table p) i" using i False by simp
  from group_atD [OF ok gi] obtain g where g: "arr_get (groups p) i = Some (Some g)" "grp_ok env ?xs g" "\<not> poolSize p \<le> i" "i \<noteq> MPI_GROUP_EMPTY" by metis
  have zs: "procs_ok env ?zs" by (rule pick_procs [OF grp_okD(1) [OF g(2)] r False])
  from element_ok [OF ok, of junk] env zs obtain p1 p2 where p: "getGroupElement junk [] p = Some (ULM_SUCCESS, Some (firstFreeElement p), p1, [])"
    "create_in junk env [] [] ?zs (firstFreeElement p) p1 = Some (ULM_SUCCESS, p2)" "pool_ok env p2" "table p2 = (table p)(firstFreeElement p \<mapsto> (?zs, 1))"
    by meson
  have loop: "incl_loop g ranks [0..int (length ranks) - 1] [] = Some (Inr ?zs)"
    using incl_loop_ok [OF grp_okD(3,2) [OF g(2)] r upto_less, of "[]"] by (simp add: pick_all)
  have "ulm_group_incl junk env [] [] i (int (length ranks)) ranks p = Some (MPI_SUCCESS, Some (firstFreeElement p), p2)"
    using g p(1,2) loop False ranks_len [OF r] grp_okD(2) [OF g(2)] by (simp add: ulm_group_incl_def take_alloc_def)
  then show ?thesis using p(3,4) new_result [OF ok, of ?zs] False by simp
qed

lemma excl_loop_ok:
  assumes "grp_size g = int (length tmp)" and "\<forall>r \<in> set ranks. 0 \<le> r \<and> r < int (length tmp)" and "set is \<subseteq> {0..<int (length ranks)}"
  shows "excl_loop g ranks is tmp = Some (Inr (map (\<lambda>q. if q \<in> set (pick ranks is) then - 1 else tmp ! nat q) [0..int (length tmp) - 1]))"
  using assms
proof (induction "is" arbitrary: tmp)
  case Nil
  then show ?case using pick_all [of tmp] by simp
next
  case (Cons i "is")
  let ?r = "ranks ! nat i"
  have i: "0 \<le> i" "i < int (length ranks)" using Cons.prems by auto
  then have r: "0 \<le> ?r" "?r < int (length tmp)" using Cons.prems(2) by auto
  have "excl_loop g ranks (i # is) tmp = excl_loop g ranks is (tmp[nat ?r := - 1])"
    using i r Cons.prems(1) by (simp add: arr_get_def arr_set_def)
  also have "\<dots> = Some (Inr (map (\<lambda>q. if q \<in> set (pick ranks is) then - 1 else tmp[nat ?r := - 1] ! nat q) [0..int (length tmp) - 1]))"
    using Cons.IH [of "tmp[nat ?r := - 1]"] Cons.prems by simp
  also have "map (\<lambda>q. if q \<in> set (pick ranks is) then - 1 else tmp[nat ?r := - 1] ! nat q) [0..int (length tmp) - 1]
      = map (\<lambda>q. if q \<in> set (pick ranks (i # is)) then - 1 else tmp ! nat q) [0..int (length tmp) - 1]"
    using r by (auto simp: nth_list_update eq_nat_nat_iff)
  finally show ?case .
qed

lemma length_leave_out:
  assumes "ranks_ok xs ranks"
  shows "int (length (leave_out xs ranks)) = int (length xs) - int (length ranks)"
proof -
  let ?u = "[0..int (length xs) - 1]"
  have "length (leave_out xs ranks) = card (set (filter (\<lambda>r. r \<notin> set ranks) ?u))"
    by (simp only: leave_out_def length_map distinct_card distinct_filter distinct_upto)
  also have "set (filter (\<lambda>r. r \<notin> set ranks) ?u) = {0..<int (length xs)} - set ranks" by auto
  also have "card ({0..<int (length xs)} - set ranks) = card {0..<int (length xs)} - card (set ranks)"
    by (rule card_Diff_subset) (use assms in \<open>auto simp: ranks_ok_def\<close>)
  finally show ?thesis using assms ranks_len [OF assms] distinct_card [of ranks] by (simp add: ranks_ok_def)
qed

lemma excl_ok:
  assumes env: "env_ok env" and ok: "pool_ok env p" and gi: "group_at (table p) i" and r: "ranks_ok (procs_at (table p) i) ranks"
  shows "good_result env p (leave_out (procs_at (table p) i) ranks) (ulm_group_excl junk env [] [] i (int (length ranks)) ranks p)"
proof -
  let ?xs = "procs_at (table p) i" and ?u = "[0..int (length (procs_at (table p) i)) - 1]"
  from group_atD [OF ok gi] obtain g n where g: "table p i = Some (?xs, n)" "arr_get (groups p) i = Some (Some g)" "grp_ok env ?xs g" "\<not> poolSize p \<le> i"
    "i \<noteq> MPI_GROUP_EMPTY" by metis
  note gd = grp_okD [OF g(3)]
  consider "ranks = []" | "length ranks = length ?xs" "ranks \<noteq> []" | "length ranks < length ?xs" "ranks \<noteq> []"
    using ranks_len [OF r] by fastforce
  then show ?thesis
  proof cases
    case 1
    then have "leave_out ?xs ranks = ?xs" using pick_all [of ?xs] by (simp add: leave_out_def)
    then show ?thesis using 1 g gd(2,6) share_ok(2) [OF ok g(1)] by (simp add: ulm_group_excl_def)
  next
    case 2
    then have "leave_out ?xs ranks = []" using length_leave_out [OF r] by simp
    then show ?thesis using 2 g gd(2,6) ok by (simp add: ulm_group_excl_def results_in_def)
  next
    case 3
    let ?zs = "leave_out ?xs ranks"
    have "excl_loop g ranks [0..int (length ranks) - 1] ?xs = Some (Inr (map (\<lambda>q. if q \<in> set ranks then - 1 else ?xs ! nat q) ?u))"
      using excl_loop_ok [OF gd(2) _ upto_less, of ranks] r unfolding pick_all by (simp add: ranks_ok_def)
    moreover have "filter (\<lambda>x. x \<noteq> - 1) (map (\<lambda>q. if q \<in> set ranks then - 1 else ?xs ! nat q) ?u) = ?zs"
    proof -
      have nn: "?xs ! nat q \<noteq> - 1" if "0 \<le> q" "q < int (length ?xs)" for q
      proof -
        have "nat q < length ?xs" using that by linarith
        from procs_ok_nth [OF gd(1) this] show ?thesis by auto
      qed
      have "filter (\<lambda>x. x \<noteq> - 1) (map (\<lambda>q. if q \<in> set ranks then - 1 else ?xs ! nat q) qs) = pick ?xs (filter (\<lambda>r. r \<notin> set ranks) qs)"
        if "set qs \<subseteq> set ?u" for qs
        using that by (induction qs) (auto simp: nn)
      then show ?thesis by (simp add: leave_out_def)
    qed
    moreover have "int (length ?zs) = grp_size g - int (length ranks)" using length_leave_out [OF r] gd(2) by simp
    ultimately have run: "ulm_group_excl junk env [] [] i (int (length ranks)) ranks p = make_group junk env [] [] (Some MPI_ERR_OTHER) ?zs p"
      using 3 g gd(2,4) by (simp add: ulm_group_excl_def alloc_or_def take_alloc_def Let_def)
    have "?zs \<noteq> []" using length_leave_out [OF r] 3 by auto
    then have "procs_ok env ?zs" unfolding leave_out_def by (intro pick_procs [OF gd(1)]) (auto simp: ranks_ok_def)
    then show ?thesis using make_group_ok [OF env ok] run by simp
  qed
qed

end
