(* ===== verification/Group_Range.thy ===== *)
theory Group_Range
  imports Group_Select
begin

section \<open>Ranges of ranks\<close>

text \<open>
  The triplets of first rank, last rank and stride that \<^verbatim>\<open>ulm_group_range_incl\<close> and \<^verbatim>\<open>ulm_group_range_excl\<close> take, and the ranks they
  stand for. The loops compute one index beyond the last rank before they stop, so the last rank plus the stride must be an \<^verbatim>\<open>int\<close>:
  with a stride near the largest \<^verbatim>\<open>int\<close>, which the standard allows, that sum overflows.
\<close>

definition range_list :: "int \<times> int \<times> int \<Rightarrow> int list" where
  "range_list = (\<lambda>(f, l, s). if f < l then map (\<lambda>k. f + int k * s) [0..<Suc (nat ((l - f) div s))]
     else if l < f then map (\<lambda>k. f + int k * s) [0..<Suc (nat ((f - l) div (- s)))] else [f])"

abbreviation range_lists :: "(int \<times> int \<times> int) list \<Rightarrow> int list" where
  "range_lists ts \<equiv> concat (map range_list ts)"

definition triple_ok :: "int \<Rightarrow> int \<times> int \<times> int \<Rightarrow> bool" where
  "triple_ok n = (\<lambda>(f, l, s). 0 \<le> f \<and> f < n \<and> 0 \<le> l \<and> l < n \<and> s \<noteq> 0 \<and> (f < l \<longrightarrow> 0 < s) \<and> (l < f \<longrightarrow> s < 0)
     \<and> int_range f \<and> (f = l \<or> int_range (l + s)))"

definition ranges_ok :: "int \<Rightarrow> (int \<times> int \<times> int) list \<Rightarrow> bool" where
  "ranges_ok n ts \<longleftrightarrow> (\<forall>t \<in> set ts. triple_ok n t) \<and> distinct (range_lists ts)"

subsection \<open>Marking\<close>

fun mark :: "int list \<Rightarrow> int \<Rightarrow> int list \<Rightarrow> int list" where
  "mark elts n [] = elts"
| "mark elts n (q # qs) = mark (elts[nat q := n]) (n + 1) qs"

lemma length_mark [simp]: "length (mark elts n qs) = length elts"
  by (induction elts n qs rule: mark.induct) auto

lemma mark_append: "mark elts n (qs @ rs) = mark (mark elts n qs) (n + int (length qs)) rs"
  by (induction elts n qs rule: mark.induct) (auto simp: ac_simps)

lemma mark_other: "\<forall>x \<in> set qs. 0 \<le> x \<Longrightarrow> int i \<notin> set qs \<Longrightarrow> mark elts n qs ! i = elts ! i"
proof (induction elts n qs rule: mark.induct)
  case (2 elts n q qs)
  then have "nat q \<noteq> i" by auto
  with 2 show ?case by simp
qed simp

lemma mark_nth:
  "\<forall>x \<in> set qs. 0 \<le> x \<and> x < int (length elts) \<Longrightarrow> distinct qs \<Longrightarrow> j < length qs \<Longrightarrow> mark elts n qs ! nat (qs ! j) = n + int j"
proof (induction elts n qs arbitrary: j rule: mark.induct)
  case (2 elts n q qs)
  show ?case
  proof (cases j)
    case 0
    have q: "0 \<le> q" "q < int (length elts)" using 2(2) by auto
    have "mark (elts[nat q := n]) (n + 1) qs ! nat q = elts[nat q := n] ! nat q" by (rule mark_other) (use 2 in auto)
    then show ?thesis using 0 q by simp
  qed (use 2 in auto)
qed simp

lemma mark_loop_ok:
  assumes "\<forall>k < m. up * (f + int k * s) \<le> up * l" and "\<not> up * (f + int m * s) \<le> up * l"
    and "distinct (map (\<lambda>k. f + int k * s) [0..<m])"
    and "\<forall>k < m. 0 \<le> f + int k * s \<and> f + int k * s < int (length elts) \<and> elts ! nat (f + int k * s) = - 1"
    and "\<forall>k < m. int_range (f + int (Suc k) * s)"
  shows "mark_loop up f l s elts n = Some (Inr (mark elts n (map (\<lambda>k. f + int k * s) [0..<m]), n + int m))"
  using assms
proof (induction m arbitrary: f elts n)
  case 0
  then show ?case by (subst mark_loop.simps) simp
next
  case (Suc m)
  let ?qs = "map (\<lambda>k. (f + s) + int k * s) [0..<m]"
  have qs: "map (\<lambda>k. f + int k * s) [0..<Suc m] = f # ?qs" by (simp only: map_upt_Suc) (simp add: algebra_simps)
  have d: "distinct ?qs" "f \<notin> set ?qs" using Suc.prems(3) unfolding qs by auto
  have f: "up * f \<le> up * l" "0 \<le> f" "f < int (length elts)" "elts ! nat f = - 1" using Suc.prems(1,4) by (force dest: spec [of _ 0])+
  have sh: "f + int (Suc k) * s = (f + s) + int k * s" for k by (simp add: algebra_simps)
  have "mark_loop up (f + s) l s (elts[nat f := n]) (n + 1) = Some (Inr (mark (elts[nat f := n]) (n + 1) ?qs, (n + 1) + int m))"
  proof (rule Suc.IH [OF _ _ d(1)])
    show "\<forall>k < m. int_range ((f + s) + int (Suc k) * s)" using Suc.prems(5) unfolding sh [symmetric] by blast
    show "\<forall>k < m. up * ((f + s) + int k * s) \<le> up * l" using Suc.prems(1) unfolding sh [symmetric] by blast
    show "\<not> up * ((f + s) + int m * s) \<le> up * l" using Suc.prems(2) unfolding sh .
    show "\<forall>k < m. 0 \<le> (f + s) + int k * s \<and> (f + s) + int k * s < int (length (elts[nat f := n])) \<and> elts[nat f := n] ! nat ((f + s) + int k * s) = - 1"
    proof (intro allI impI)
      fix k assume k: "k < m"
      let ?q = "(f + s) + int k * s"
      have q: "0 \<le> ?q" "?q < int (length elts)" "elts ! nat ?q = - 1" using Suc.prems(4) k unfolding sh [symmetric] by auto
      have "?q \<in> set ?qs" using k by (simp only: set_map set_upt) (rule imageI, simp)
      then have "?q \<noteq> f" using d(2) by metis
      then have "nat ?q \<noteq> nat f" using q(1) f(2) by (simp add: eq_nat_nat_iff)
      then show "0 \<le> ?q \<and> ?q < int (length (elts[nat f := n])) \<and> elts[nat f := n] ! nat ?q = - 1" using q by simp
    qed
  qed
  moreover have "int_range (f + s)" using Suc.prems(5) [rule_format, of 0] by simp
  ultimately show ?case using f unfolding qs by (subst mark_loop.simps) (simp add: arr_get_def arr_set_def)
qed

lemma steps_iff:
  assumes "0 < d" and "0 \<le> D"
  shows "k < Suc (nat (D div d)) \<longleftrightarrow> int k * d \<le> D"
proof -
  have "int k \<le> D div d \<longleftrightarrow> int k * d \<le> D"
  proof
    assume "int k \<le> D div d"
    then have "int k * d \<le> D div d * d" using assms(1) by (simp add: mult_right_mono)
    also have "\<dots> \<le> D" using pos_mod_sign [OF assms(1), of D] div_mult_mod_eq [of D d] by linarith
    finally show "int k * d \<le> D" .
  next
    assume "int k * d \<le> D"
    from zdiv_mono1 [OF this assms(1)] show "int k \<le> D div d" using assms(1) by simp
  qed
  moreover have "0 \<le> D div d" using assms by (simp add: pos_imp_zdiv_nonneg_iff)
  ultimately show ?thesis by (simp add: less_Suc_eq_le le_nat_iff)
qed

text \<open>The ranks of a triplet, going up or down: \<open>m\<close> of them, none beyond the last rank.\<close>

lemma range_steps:
  assumes "triple_ok n (f, l, s)" and "f \<noteq> l"
  defines "up \<equiv> if f < l then 1 else - 1"
  shows "\<exists>m. range_list (f, l, s) = map (\<lambda>k. f + int k * s) [0..<m] \<and> (\<forall>k. k < m \<longleftrightarrow> up * (f + int k * s) \<le> up * l)"
proof (cases "f < l")
  case True
  then have s: "0 < s" "0 \<le> l - f" using assms(1) by (simp_all add: triple_ok_def)
  have "k < Suc (nat ((l - f) div s)) \<longleftrightarrow> up * (f + int k * s) \<le> up * l" for k
    unfolding steps_iff [OF s] using True by (simp add: up_def le_diff_eq add.commute)
  then show ?thesis using True by (intro exI [of _ "Suc (nat ((l - f) div s))"]) (simp add: range_list_def del: upt_Suc)
next
  case False
  then have s: "0 < - s" "0 \<le> f - l" "l < f" using assms(1,2) by (simp_all add: triple_ok_def)
  have "k < Suc (nat ((f - l) div (- s))) \<longleftrightarrow> up * (f + int k * s) \<le> up * l" for k
    unfolding steps_iff [OF s(1,2)] using False by (simp add: up_def) linarith
  then show ?thesis using False s(3) by (intro exI [of _ "Suc (nat ((f - l) div (- s)))"]) (simp add: range_list_def del: upt_Suc)
qed

lemma steps_range:
  assumes "triple_ok n (f, l, s)" and "f \<noteq> l" and "(if f < l then 1 else - 1) * (f + int k * s) \<le> (if f < l then 1 else - 1) * l"
  shows "int_range (f + int (Suc k) * s)"
proof -
  have r: "int_range (l + s)" "int_range f" "0 \<le> f" using assms(1,2) by (simp_all add: triple_ok_def)
  have e: "f + int (Suc k) * s = f + int k * s + s" by (simp add: algebra_simps)
  show ?thesis
  proof (cases "f < l")
    case True
    then have "0 \<le> s" "f + int k * s + s \<le> l + s" using assms(1,3) by (simp_all add: triple_ok_def)
    moreover from this(1) have "0 \<le> int k * s" by simp
    ultimately have "0 \<le> f + int k * s + s" "f + int k * s + s \<le> l + s" using r(3) by linarith+
    then show ?thesis unfolding e using r(1) by (rule int_range_nonneg)
  next
    case False
    then have "s \<le> 0" "l + s \<le> f + int k * s + s" using assms by (simp_all add: triple_ok_def)
    moreover from this(1) have "int k * s \<le> 0" by (simp add: mult_nonneg_nonpos)
    ultimately have "l + s \<le> f + int k * s + s" "f + int k * s + s \<le> f" by linarith+
    then show ?thesis unfolding e by (rule int_range_between [OF r(1,2)])
  qed
qed

lemma range_list_mem:
  assumes "triple_ok n t" and "q \<in> set (range_list t)"
  shows "0 \<le> q \<and> q < n"
proof -
  obtain f l s where t: "t = (f, l, s)" by (cases t)
  show ?thesis
  proof (cases "f = l")
    case False
    from range_steps [OF assms(1) [unfolded t] False] obtain m where m: "range_list t = map (\<lambda>k. f + int k * s) [0..<m]"
      "\<forall>k. k < m \<longleftrightarrow> (if f < l then 1 else - 1) * (f + int k * s) \<le> (if f < l then 1 else - 1) * l" unfolding t by blast
    from assms(2) obtain k where "k < m" "q = f + int k * s" unfolding m(1) by auto
    with m(2) have k: "q = f + int k * s" "(if f < l then 1 else - 1) * q \<le> (if f < l then 1 else - 1) * l" by blast+
    have "if f < l then 0 \<le> int k * s else int k * s \<le> 0"
      using assms(1) False by (auto simp: t triple_ok_def mult_nonneg_nonpos)
    then show ?thesis using assms(1) k False by (auto simp: t triple_ok_def split: if_splits)
  qed (use assms in \<open>auto simp: t range_list_def triple_ok_def\<close>)
qed

subsection \<open>The loop over the triplets\<close>

definition unmarked :: "int list \<Rightarrow> int list \<Rightarrow> bool" where
  "unmarked elts qs \<longleftrightarrow> (\<forall>q \<in> set qs. elts ! nat q = - 1)"

lemma triplet_loop_ok:
  assumes "\<forall>t \<in> set ts. triple_ok (int (length elts)) t" and "distinct (range_lists ts)" and "unmarked elts (range_lists ts)"
  shows "triplet_loop (int (length elts)) ts elts n = Some (Inr (mark elts n (range_lists ts), n + int (length (range_lists ts))))"
  using assms
proof (induction ts arbitrary: elts n)
  case (Cons t ts)
  obtain f l s where t: "t = (f, l, s)" by (cases t)
  have tok: "triple_ok (int (length elts)) (f, l, s)" using Cons.prems(1) t by simp
  let ?qs = "range_list t" and ?elts = "mark elts n (range_list t)"
  have d: "distinct ?qs" "distinct (range_lists ts)" "set ?qs \<inter> set (range_lists ts) = {}" using Cons.prems(2) by auto
  have un: "\<forall>q \<in> set ?qs. elts ! nat q = - 1" "\<forall>q \<in> set (range_lists ts). elts ! nat q = - 1" using Cons.prems(3) by (auto simp: unmarked_def)
  have b: "0 \<le> q \<and> q < int (length elts)" if "q \<in> set ?qs" for q using range_list_mem [OF _ that] tok t by blast
  have "(if f < l then mark_loop 1 f l s elts n else if f > l then mark_loop (- 1) f l s elts n
      else do { e \<leftarrow> arr_get elts f; (if e \<noteq> - 1 then Some (Inl MPI_ERR_RANK) else map_option (\<lambda>elts'. Inr (elts', n + 1)) (arr_set elts f n)) })
    = Some (Inr (?elts, n + int (length ?qs)))"
  proof (cases "f = l")
    case True
    then have "?qs = [f]" by (simp add: t range_list_def)
    then show ?thesis using True un(1) b [of f] by (simp add: arr_get_def arr_set_def)
  next
    case False
    let ?up = "if f < l then 1 else - 1 :: int"
    from range_steps [OF tok False] obtain m where m: "?qs = map (\<lambda>k. f + int k * s) [0..<m]"
      "\<forall>k. k < m \<longleftrightarrow> ?up * (f + int k * s) \<le> ?up * l" unfolding t by blast
    have "mark_loop ?up f l s elts n = Some (Inr (mark elts n (map (\<lambda>k. f + int k * s) [0..<m]), n + int m))"
    proof (rule mark_loop_ok)
      show "\<forall>k < m. ?up * (f + int k * s) \<le> ?up * l" "\<not> ?up * (f + int m * s) \<le> ?up * l" using m(2) by (blast, metis less_irrefl)
      show "distinct (map (\<lambda>k. f + int k * s) [0..<m])" using d(1) m(1) by simp
      show "\<forall>k < m. int_range (f + int (Suc k) * s)" using steps_range [OF tok False] m(2) by blast
      show "\<forall>k < m. 0 \<le> f + int k * s \<and> f + int k * s < int (length elts) \<and> elts ! nat (f + int k * s) = - 1"
      proof (intro allI impI)
        fix k assume "k < m"
        then have "f + int k * s \<in> set ?qs" unfolding m(1) by (simp only: set_map set_upt) (rule imageI, simp)
        then show "0 \<le> f + int k * s \<and> f + int k * s < int (length elts) \<and> elts ! nat (f + int k * s) = - 1" using b un(1) by blast
      qed
    qed
    then show ?thesis using False unfolding m(1) by (auto split: if_splits)
  qed
  moreover have "triplet_loop (int (length ?elts)) ts ?elts (n + int (length ?qs))
    = Some (Inr (mark ?elts (n + int (length ?qs)) (range_lists ts), (n + int (length ?qs)) + int (length (range_lists ts))))"
  proof (rule Cons.IH [OF _ d(2)])
    show "unmarked ?elts (range_lists ts)" unfolding unmarked_def
    proof
      fix q assume q: "q \<in> set (range_lists ts)"
      then obtain u where "u \<in> set ts" "q \<in> set (range_list u)" by auto
      then have "0 \<le> q" using range_list_mem [of _ u q] Cons.prems(1) by auto
      moreover from this have "int (nat q) \<notin> set ?qs" using q d(3) by auto
      ultimately show "?elts ! nat q = - 1" using mark_other [of ?qs "nat q" elts n] b un(2) q by auto
    qed
  qed (use Cons.prems(1) in simp)
  ultimately show ?case using tok by (simp add: t triple_ok_def mark_append split del: if_split) (auto simp: mark_append add_ac)
qed simp

subsection \<open>The ranks in order\<close>

lemma collect_ok:
  assumes b: "\<forall>q \<in> set qs. 0 \<le> q \<and> q < int n" and d: "distinct qs" and v: "\<And>q. q \<in> set qs \<Longrightarrow> val q = Some (v q)"
  shows "collect_ranks junk val (mark (replicate n (- 1)) 0 qs) (int (length qs)) = Some (map v qs)"
proof -
  let ?elts = "mark (replicate n (- 1)) 0 qs"
  let ?f = "\<lambda>ids proc. do { e \<leftarrow> arr_get ?elts proc; (if e \<ge> 0 then do { x \<leftarrow> val proc; arr_set ids e x } else Some ids) }"
  have "\<exists>ids. foldM ?f (replicate (length qs) junk) (map int [0..<m]) = Some ids \<and> length ids = length qs
      \<and> (\<forall>j < length qs. qs ! j < int m \<longrightarrow> ids ! j = v (qs ! j))" if "m \<le> n" for m
    using that
  proof (induction m)
    case 0
    have "\<not> qs ! j < 0" if "j < length qs" for j using b nth_mem [OF that] by force
    then show ?case by simp
  next
    case (Suc m)
    then obtain ids where ids: "foldM ?f (replicate (length qs) junk) (map int [0..<m]) = Some ids" "length ids = length qs"
      "\<forall>j < length qs. qs ! j < int m \<longrightarrow> ids ! j = v (qs ! j)" by auto
    show ?case
    proof (cases "int m \<in> set qs")
      case True
      then obtain k where k: "k < length qs" "qs ! k = int m" by (auto simp: in_set_conv_nth)
      have "?elts ! m = int k" using mark_nth [of qs "replicate n (- 1)" k 0] b d k by simp
      then have "?f ids (int m) = Some (ids[k := v (int m)])" using Suc.prems v [OF True] k ids(2) by (simp add: arr_get_def arr_set_def)
      moreover have "ids[k := v (int m)] ! j = v (qs ! j)" if "j < length qs" "qs ! j < int (Suc m)" for j
        using ids(2,3) that k d nth_eq_iff_index_eq [of qs j k] by (cases "j = k") auto
      ultimately show ?thesis using ids(1,2) by (simp add: foldM_append)
    next
      case False
      then have "?elts ! m = - 1" using mark_other [of qs m "replicate n (- 1)" 0] b Suc.prems by auto
      then have "?f ids (int m) = Some ids" using Suc.prems by (simp add: arr_get_def)
      moreover have "qs ! j < int m" if "j < length qs" "qs ! j < int (Suc m)" for j using that False nth_mem [OF that(1)] by (cases "qs ! j = int m") auto
      ultimately show ?thesis using ids by (simp add: foldM_append)
    qed
  qed
  from this [of n] obtain ids where "foldM ?f (replicate (length qs) junk) (map int [0..<n]) = Some ids" "length ids = length qs"
    "\<forall>j < length qs. qs ! j < int n \<longrightarrow> ids ! j = v (qs ! j)" by auto
  moreover from this have "ids = map v qs" using b by (intro nth_equalityI) auto
  ultimately show ?thesis by (simp add: collect_ranks_def upto_map)
qed

lemma range_ranks_ok:
  assumes "ranges_ok (int n) ts" and "grp_size g = int n" and "\<And>q. 0 \<le> q \<Longrightarrow> q < int n \<Longrightarrow> val q = Some (v q)"
  shows "range_ranks junk [] g ts val = Some (Inr (map v (range_lists ts), []))"
proof -
  let ?e = "replicate n (- 1 :: int)" and ?qs = "range_lists ts"
  have b: "\<forall>q \<in> set ?qs. 0 \<le> q \<and> q < int n" using assms(1) range_list_mem by (fastforce simp: ranges_ok_def)
  have "unmarked ?e ?qs" unfolding unmarked_def
  proof
    fix q assume "q \<in> set ?qs"
    with b have "0 \<le> q" "q < int n" by blast+
    then have "nat q < n" by linarith
    then show "?e ! nat q = - 1" by simp
  qed
  then have "triplet_loop (int n) ts ?e 0 = Some (Inr (mark ?e 0 ?qs, int (length ?qs)))"
    using triplet_loop_ok [of ts ?e 0] assms(1) by (simp add: ranges_ok_def)
  moreover have "collect_ranks junk val (mark ?e 0 ?qs) (int (length ?qs)) = Some (map v ?qs)"
    by (rule collect_ok) (use b assms in \<open>auto simp: ranges_ok_def\<close>)
  ultimately show ?thesis using assms(2) by (simp add: range_ranks_def alloc_or_def take_alloc_def)
qed

lemma ranges_ranks: "ranges_ok (int (length xs)) ts \<Longrightarrow> ranks_ok xs (range_lists ts)"
  using range_list_mem by (fastforce simp: ranges_ok_def ranks_ok_def)

lemma range_incl_ok:
  assumes env: "env_ok env" and ok: "pool_ok env p" and gi: "group_at (table p) i" and r: "ranges_ok (int (length (procs_at (table p) i))) ts"
  shows "good_result env p (pick (procs_at (table p) i) (range_lists ts)) (ulm_group_range_incl junk env [] [] i ts p)"
proof (cases "ts = []")
  case True
  from group_atD [OF ok gi] obtain g where "arr_get (groups p) i = Some (Some g)" "\<not> poolSize p \<le> i" "i \<noteq> MPI_GROUP_EMPTY" by metis
  then show ?thesis using True ok by (simp add: ulm_group_range_incl_def results_in_def)
next
  case False
  from group_atD [OF ok gi] obtain g where g: "arr_get (groups p) i = Some (Some g)" "grp_ok env (procs_at (table p) i) g" "\<not> poolSize p \<le> i" "i \<noteq> MPI_GROUP_EMPTY" by metis
  have "range_ranks junk [] g ts Some = Some (Inr (map (\<lambda>q. q) (range_lists ts), []))"
    by (rule range_ranks_ok [OF r grp_okD(2) [OF g(2)]]) simp
  then have "ulm_group_range_incl junk env [] [] i ts p = ulm_group_incl junk env [] [] i (int (length (range_lists ts))) (range_lists ts) p"
    using False g by (simp add: ulm_group_range_incl_def)
  then show ?thesis using incl_ok [OF env ok _ ranges_ranks [OF r]] gi by simp
qed

text \<open>The processes at the ranks, and not the ranks, are handed on.\<close>

lemma range_excl_run:
  assumes ok: "pool_ok env p" and gi: "group_at (table p) i" and r: "ranges_ok (int (length (procs_at (table p) i))) ts" and ts: "ts \<noteq> []"
  shows "ulm_group_range_excl junk env [] [] i ts p
    = ulm_group_excl junk env [] [] i (int (length (range_lists ts))) (pick (procs_at (table p) i) (range_lists ts)) p"
proof -
  let ?xs = "procs_at (table p) i"
  from group_atD [OF ok gi] obtain g where g: "arr_get (groups p) i = Some (Some g)" "grp_ok env ?xs g" "\<not> poolSize p \<le> i" "i \<noteq> MPI_GROUP_EMPTY" by metis
  have "range_ranks junk [] g ts (\<lambda>q. do { l \<leftarrow> mapGroupProcIDToGlobalProcID g; arr_get l q }) = Some (Inr (pick ?xs (range_lists ts), []))"
    by (rule range_ranks_ok [OF r grp_okD(2) [OF g(2)]]) (simp add: grp_okD(3) [OF g(2)] arr_get_def)
  then show ?thesis using ts g by (simp add: ulm_group_range_excl_def)
qed

subsection \<open>Questions about groups\<close>

lemma compare_loop_similar: "fst (compare_loop xs k m2 b) \<longleftrightarrow> set xs \<subseteq> set m2"
proof (induction xs arbitrary: k b)
  case (Cons x xs)
  have "index_of x m2 = - 1 \<longleftrightarrow> x \<notin> set m2" using index_of_less [of x m2] by (auto simp: index_of_def)
  with Cons show ?case by (simp add: Let_def)
qed simp

lemma compare_loop_identical:
  assumes "distinct m2"
  shows "set xs \<subseteq> set m2 \<Longrightarrow> int k + int (length xs) \<le> int (length m2) \<Longrightarrow> snd (compare_loop xs (int k) m2 b) \<longleftrightarrow> b \<and> xs = take (length xs) (drop k m2)"
proof (induction xs arbitrary: k b)
  case (Cons x xs)
  have x: "x \<in> set m2" "index_of x m2 \<noteq> - 1" using Cons.prems index_of_less [of x m2] by auto
  have k: "k < length m2" using Cons.prems by simp
  have eq: "int k = index_of x m2 \<longleftrightarrow> x = m2 ! k" using index_of_nth [OF assms k] index_of_less [OF x(1)] by (metis nat_int)
  have "snd (compare_loop (x # xs) (int k) m2 b) = snd (compare_loop xs (int (Suc k)) m2 (b \<and> int k = index_of x m2))"
    using x(2) by (simp add: Let_def add.commute)
  also have "\<dots> \<longleftrightarrow> (b \<and> int k = index_of x m2) \<and> xs = take (length xs) (drop (Suc k) m2)" by (rule Cons.IH) (use Cons.prems in auto)
  also have "\<dots> \<longleftrightarrow> b \<and> x # xs = take (length (x # xs)) (drop k m2)" using eq k by (auto simp: Cons_nth_drop_Suc [symmetric])
  finally show ?case .
qed simp

lemma compare_ok:
  assumes ok: "pool_ok env p" and i: "group_at (table p) i" and j: "group_at (table p) j"
  shows "ulm_group_compare i j p = Some (MPI_SUCCESS, Some (if procs_at (table p) i = procs_at (table p) j then MPI_IDENT
    else if set (procs_at (table p) i) = set (procs_at (table p) j) then MPI_SIMILAR else MPI_UNEQUAL), p)"
proof -
  let ?xs = "procs_at (table p) i" and ?ys = "procs_at (table p) j"
  from group_atD [OF ok i] obtain g1 where g1: "arr_get (groups p) i = Some (Some g1)" "grp_ok env ?xs g1" "\<not> poolSize p \<le> i" by metis
  from group_atD [OF ok j] obtain g2 where g2: "arr_get (groups p) j = Some (Some g2)" "grp_ok env ?ys g2" "\<not> poolSize p \<le> j" by metis
  note d = grp_okD [OF g1(2)] grp_okD [OF g2(2)]
  show ?thesis
  proof (cases "length ?xs = length ?ys")
    case False
    then have "?xs \<noteq> ?ys" "set ?xs \<noteq> set ?ys" using d(7,14) distinct_card by metis+
    then show ?thesis using False g1 g2 d(2,9) by (simp add: ulm_group_compare_def with_groups_ok)
  next
    case True
    have "set ?xs \<subseteq> set ?ys \<longleftrightarrow> set ?xs = set ?ys" using True d(7,14) by (metis card_subset_eq distinct_card finite_set subset_refl)
    moreover have "snd (compare_loop ?xs 0 ?ys True) \<longleftrightarrow> ?xs = ?ys" if "set ?xs \<subseteq> set ?ys"
      using compare_loop_identical [OF d(14) that, of 0 True] True by simp
    ultimately show ?thesis using True g1 g2 d(2,4,9,11) compare_loop_similar [of ?xs 0 ?ys True]
      by (auto simp: ulm_group_compare_def with_groups_ok split: prod.splits)
  qed
qed

lemma translate_ok:
  assumes ok: "pool_ok env p" and i: "group_at (table p) i" and j: "group_at (table p) j"
    and r: "\<forall>r \<in> set ranks. 0 \<le> r \<and> r < int (length (procs_at (table p) i))"
  shows "ulm_group_translate_ranks i (int (length ranks)) ranks j p
    = Some (MPI_SUCCESS, Some (map (\<lambda>r. index_of (procs_at (table p) i ! nat r) (procs_at (table p) j)) ranks), p)"
proof -
  let ?xs = "procs_at (table p) i" and ?ys = "procs_at (table p) j"
  from group_atD [OF ok i] obtain g1 where g1: "arr_get (groups p) i = Some (Some g1)" "grp_ok env ?xs g1" "\<not> poolSize p \<le> i" "i \<noteq> MPI_GROUP_EMPTY" by metis
  from group_atD [OF ok j] obtain g2 where g2: "arr_get (groups p) j = Some (Some g2)" "grp_ok env ?ys g2" "\<not> poolSize p \<le> j" "j \<noteq> MPI_GROUP_EMPTY" by metis
  note d = grp_okD [OF g1(2)] grp_okD [OF g2(2)]
  have "those (map (\<lambda>q. do { r \<leftarrow> arr_get ranks q; l \<leftarrow> mapGroupProcIDToGlobalProcID g1; x \<leftarrow> arr_get l r;
      Some (if x \<in> set ?ys then index_of x ?ys else MPI_UNDEFINED) }) [0..int (length ranks) - 1])
    = Some (map (\<lambda>r. index_of (?xs ! nat r) ?ys) ranks)"
    by (rule those_eq) (use r d(3) in \<open>auto simp: upto_map arr_get_def index_of_def\<close>)
  then show ?thesis using g1 g2 d(4,11) by (simp add: ulm_group_translate_ranks_def with_groups_ok)
qed

end
