(* ===== verification/Group_Session.thy ===== *)
theory Group_Session
  imports Group_Range
begin

section \<open>Sessions with groups\<close>

text \<open>
  Any sequence of legal calls from the pool of start-up, and the properties of the groups.
\<close>

datatype group_op = New "int list" | Union int int | Intersection int int | Difference int int | Incl int "int list" | Excl int "int list"
  | Range_incl int "(int \<times> int \<times> int) list" | Free int

fun run_op :: "int \<Rightarrow> lampi_state \<Rightarrow> group_op \<Rightarrow> group_pool \<Rightarrow> op_result" where
  "run_op junk env (New xs) p = setupNewGroupObject junk env [] [] xs p"
| "run_op junk env (Union i j) p = ulm_group_union junk env [] [] i j p"
| "run_op junk env (Intersection i j) p = ulm_group_intersection junk env [] [] i j p"
| "run_op junk env (Difference i j) p = ulm_group_difference junk env [] [] i j p"
| "run_op junk env (Incl i ranks) p = ulm_group_incl junk env [] [] i (int (length ranks)) ranks p"
| "run_op junk env (Excl i ranks) p = ulm_group_excl junk env [] [] i (int (length ranks)) ranks p"
| "run_op junk env (Range_incl i ts) p = ulm_group_range_incl junk env [] [] i ts p"
| "run_op junk env (Free i) p = map_option (\<lambda>(rc, p'). (rc, None, p')) (ulm_group_free i p)"

text \<open>The arguments the MPI standard allows.\<close>

fun legal_op :: "lampi_state \<Rightarrow> (int \<rightharpoonup> int list \<times> int) \<Rightarrow> group_op \<Rightarrow> bool" where
  "legal_op env t (New xs) \<longleftrightarrow> procs_ok env xs"
| "legal_op env t (Union i j) \<longleftrightarrow> (i = MPI_GROUP_EMPTY \<or> group_at t i) \<and> (j = MPI_GROUP_EMPTY \<or> group_at t j)"
| "legal_op env t (Intersection i j) \<longleftrightarrow> group_at t i \<and> group_at t j"
| "legal_op env t (Difference i j) \<longleftrightarrow> (i = MPI_GROUP_EMPTY \<or> group_at t i) \<and> (j = MPI_GROUP_EMPTY \<or> group_at t j)"
| "legal_op env t (Incl i ranks) \<longleftrightarrow> group_at t i \<and> ranks_ok (procs_at t i) ranks"
| "legal_op env t (Excl i ranks) \<longleftrightarrow> group_at t i \<and> ranks_ok (procs_at t i) ranks"
| "legal_op env t (Range_incl i ts) \<longleftrightarrow> group_at t i \<and> ranges_ok (int (length (procs_at t i))) ts"
| "legal_op env t (Free i) \<longleftrightarrow> group_at t i"

text \<open>The processes of the result.\<close>

fun op_procs :: "(int \<rightharpoonup> int list \<times> int) \<Rightarrow> group_op \<Rightarrow> int list" where
  "op_procs t (New xs) = xs"
| "op_procs t (Union i j) = procs_at t i @ filter (\<lambda>r. r \<notin> set (procs_at t i)) (procs_at t j)"
| "op_procs t (Intersection i j) = filter (\<lambda>r. r \<in> set (procs_at t j)) (procs_at t i)"
| "op_procs t (Difference i j) = filter (\<lambda>r. r \<notin> set (procs_at t j)) (procs_at t i)"
| "op_procs t (Incl i ranks) = pick (procs_at t i) ranks"
| "op_procs t (Excl i ranks) = leave_out (procs_at t i) ranks"
| "op_procs t (Range_incl i ts) = pick (procs_at t i) (range_lists ts)"
| "op_procs t (Free i) = []"

definition op_effect :: "group_op \<Rightarrow> (int \<rightharpoonup> int list \<times> int) \<Rightarrow> int option \<Rightarrow> (int \<rightharpoonup> int list \<times> int) \<Rightarrow> bool" where
  "op_effect op t k t' \<longleftrightarrow> (case op of
       Free i \<Rightarrow> k = None \<and> t' = t(i := (case t i of None \<Rightarrow> None | Some (xs, n) \<Rightarrow> if n = 1 then None else Some (xs, n - 1)))
     | _ \<Rightarrow> \<exists>k'. k = Some k' \<and> results_in t t' k' (op_procs t op))"

lemma op_ok:
  assumes env: "env_ok env" and ok: "pool_ok env p" and legal: "legal_op env (table p) op"
  shows "\<exists>k p'. run_op junk env op p = Some (MPI_SUCCESS, k, p') \<and> pool_ok env p' \<and> op_effect op (table p) k (table p')"
proof (cases op)
  case (New xs)
  then have xs: "procs_ok env xs" using legal by simp
  from element_ok [OF ok, of junk] env xs obtain p1 p2 where "getGroupElement junk [] p = Some (ULM_SUCCESS, Some (firstFreeElement p), p1, [])"
    "create_in junk env [] [] xs (firstFreeElement p) p1 = Some (ULM_SUCCESS, p2)" "pool_ok env p2" "table p2 = (table p)(firstFreeElement p \<mapsto> (xs, 1))"
    by meson
  then show ?thesis using New new_result [OF ok, of xs] xs by (simp add: setupNewGroupObject_def op_effect_def procs_ok_def)
next
  case (Free i)
  then obtain xs n where t: "table p i = Some (xs, n)" using legal by (auto simp: group_at_def)
  from grp_free_ok [OF ok t] Free t show ?thesis by (auto simp: op_effect_def)
next
  case (Union i j)
  with legal union_ok [OF env ok, of i j junk] show ?thesis by (auto simp: op_effect_def)
next
  case (Intersection i j)
  with legal intersection_ok [OF env ok, of i j junk] show ?thesis by (auto simp: op_effect_def)
next
  case (Difference i j)
  with legal difference_ok [OF env ok, of i j junk] show ?thesis by (auto simp: op_effect_def)
next
  case (Incl i ranks)
  with legal incl_ok [OF env ok, of i ranks junk] show ?thesis by (auto simp: op_effect_def)
next
  case (Excl i ranks)
  with legal excl_ok [OF env ok, of i ranks junk] show ?thesis by (auto simp: op_effect_def)
next
  case (Range_incl i ts)
  with legal range_incl_ok [OF env ok, of i ts junk] show ?thesis by (auto simp: op_effect_def)
qed

inductive group_reach :: "int \<Rightarrow> lampi_state \<Rightarrow> group_pool \<Rightarrow> bool" for junk env where
  start: "group_reach junk env init_pool"
| step: "group_reach junk env p \<Longrightarrow> legal_op env (table p) op \<Longrightarrow> run_op junk env op p = Some (rc, k, p') \<Longrightarrow> group_reach junk env p'"

lemma init_pool_ok: "pool_ok env init_pool"
  by (simp add: pool_ok_def init_pool_def)

lemma group_reach_ok: "group_reach junk env p \<Longrightarrow> env_ok env \<Longrightarrow> pool_ok env p"
proof (induction rule: group_reach.induct)
  case (step p op rc k p')
  from op_ok [OF step.prems step.IH [OF step.prems] step.hyps(2), of junk] step.hyps(3) show ?case by auto
qed (rule init_pool_ok)

subsection \<open>The maps of a group\<close>

lemma hosts_partition:
  "mset (concat (map (on_host env procs) (hosts_of env procs))) = mset [0..int (length procs) - 1]"
proof -
  have "distinct (concat (map (on_host env procs) hs))" if "distinct hs" for hs
    using that
  proof (induction hs)
    case (Cons h hs)
    have "set (on_host env procs h) \<inter> set (concat (map (on_host env procs) hs)) = {}"
      using Cons.prems by (auto simp: on_host_simps(4))
    with Cons show ?case by (simp add: on_host_simps(1))
  qed simp
  then have "distinct (concat (map (on_host env procs) (hosts_of env procs)))" by simp
  moreover have "set (concat (map (on_host env procs) (hosts_of env procs))) = set [0..int (length procs) - 1]"
  proof
    show "set [0..int (length procs) - 1] \<subseteq> set (concat (map (on_host env procs) (hosts_of env procs)))"
    proof
      fix q assume "q \<in> set [0..int (length procs) - 1]"
      then have "q \<in> set (on_host env procs (host_of env (procs ! nat q)))" "procs ! nat q \<in> set procs" by (auto simp: on_host_simps(4))
      then show "q \<in> set (concat (map (on_host env procs) (hosts_of env procs)))" by auto
    qed
  qed (auto simp: on_host_simps(4))
  ultimately show ?thesis using set_eq_iff_mset_eq_distinct distinct_upto by metis
qed

lemma nth_split: "xs = a @ x # b \<Longrightarrow> xs ! length a = x \<and> length a < length xs"
  by simp

text \<open>The ranks on this host are numbered in their order.\<close>

lemma local_positions: "map (local_count env (map (host_of env) procs)) (on_host env procs (myhost env)) = [0..int (length (on_host env procs (myhost env))) - 1]"
proof (rule nth_equalityI)
  let ?P = "\<lambda>q. host_of env (procs ! nat q) = myhost env" and ?us = "[0..int (length procs) - 1]" and ?m = "on_host env procs (myhost env)"
  fix j assume "j < length (map (local_count env (map (host_of env) procs)) ?m)"
  then have j: "j < length ?m" by simp
  define q' where "q' = ?m ! j"
  let ?q = q'
  have q: "0 \<le> ?q" "?q < int (length procs)" "?P ?q" using nth_mem [OF j] by (simp_all add: q'_def on_host_simps(4))
  have us: "?us = take (nat ?q) ?us @ ?q # drop (Suc (nat ?q)) ?us" using q id_take_nth_drop [of "nat ?q" ?us] by (simp add: upto_map)
  have "?m = filter ?P (take (nat ?q) ?us) @ ?q # filter ?P (drop (Suc (nat ?q)) ?us)"
    unfolding on_host_def by (subst us) (simp add: q(3))
  then have "?m ! length (filter ?P (take (nat ?q) ?us)) = ?q" "length (filter ?P (take (nat ?q) ?us)) < length ?m"
    using nth_split [of ?m] by blast+
  then have c: "length (filter ?P (take (nat ?q) ?us)) = j" using nth_eq_iff_index_eq [OF on_host_simps(1)] j unfolding q'_def by blast
  have "filter (\<lambda>h. h = myhost env) (take (nat ?q) (map (host_of env) procs)) = map (\<lambda>x. host_of env (procs ! nat x)) (filter ?P (take (nat ?q) ?us))"
  proof -
    have "map (host_of env) procs = map (\<lambda>x. host_of env (procs ! nat x)) ?us" by (rule nth_equalityI) (auto simp: upto_map)
    then show ?thesis by (simp add: take_map filter_map o_def)
  qed
  then have "local_count env (map (host_of env) procs) ?q = int j" using c by (simp add: local_count_def)
  then show "map (local_count env (map (host_of env) procs)) ?m ! j = [0..int (length ?m) - 1] ! j" using j by (simp add: q'_def)
qed simp

definition demo_env :: lampi_state where
  "demo_env = \<lparr>nhosts = 2, nprocs = 4, myproc = 0, myhost = 0, map_global_rank_to_host = [0, 0, 1, 1], map_host_to_local_size = [2, 2]\<rparr>"

lemma demo_env_ok: "env_ok demo_env"
  by (simp add: env_ok_def demo_env_def numeral_2_eq_2)

text \<open>
  C19: The description of a group. From a list of different processes that is not empty, in a job of fewer than \<open>3 ^ 19\<close> hosts (for more, the
  depth of the tree of hosts overflows) and if every allocation succeeds, \<^verbatim>\<open>Group::create\<close> returns success and computes maps that agree with each
  other: the map from processes to ranks is the inverse of the list and -1 elsewhere; the lists of ranks kept for the hosts divide the ranks of the group
  among different hosts, each rank with the host its process runs on; the lookup table finds the entry of each host; and the ranks on
  this host are numbered 0, 1, ... in their order.
\<close>

theorem group_create_consistent:
  assumes env: "env_ok env" and ok: "procs_ok env procs"
  shows "\<exists>g' toGroup entries lookup onHost. create junk env [] [] (int (length procs)) (Some procs) k g = Some (ULM_SUCCESS, g')
    \<and> mapGroupProcIDToGlobalProcID g' = Some procs \<and> mapGlobalProcIDToGroupProcID g' = Some toGroup
    \<and> (\<forall>q < length procs. arr_get toGroup (procs ! q) = Some (int q))
    \<and> (\<forall>r. 0 \<le> r \<and> r < nprocs env \<and> r \<notin> set procs \<longrightarrow> arr_get toGroup r = Some (- 1))
    \<and> groupHostData g' = Some entries \<and> distinct (map hostID entries)
    \<and> mset (concat (map groupProcIDOnHost entries)) = mset [0..int (length procs) - 1]
    \<and> (\<forall>e \<in> set entries. \<forall>q \<in> set (groupProcIDOnHost e). map_global_rank_to_host env ! nat (procs ! nat q) = hostID e)
    \<and> groupHostDataLookup g' = Some lookup \<and> (\<forall>i < length entries. arr_get lookup (hostID (entries ! i)) = Some (int i))
    \<and> mapGroupProcIDToOnHostProcID g' = Some onHost
    \<and> those (map (arr_get onHost) (on_host env procs (myhost env))) = Some [0..onHostGroupSize g' - 1]"
proof -
  from grp_create_ok [OF env ok, of junk k g] obtain g' where g': "create junk env [] [] (int (length procs)) (Some procs) k g = Some (ULM_SUCCESS, g')"
    "grp_ok env procs g'" by blast
  let ?G = "map (\<lambda>i. index_of i procs) [0..nprocs env - 1]" and ?hosts = "hosts_of env procs" and ?mine = "on_host env procs (myhost env)"
  let ?E = "map (host_entry env procs) ?hosts" and ?H = "map (host_of env) procs"
  let ?O = "map (\<lambda>q. if q \<in> set ?mine then local_count env ?H q else - 1) [0..int (length procs) - 1]"
  from g'(2) obtain lk where f: "mapGroupProcIDToGlobalProcID g' = Some procs" "mapGlobalProcIDToGroupProcID g' = Some ?G" "groupHostData g' = Some ?E"
    "groupHostDataLookup g' = Some lk" "\<forall>i < length ?hosts. arr_get lk (?hosts ! i) = Some (int i)" "mapGroupProcIDToOnHostProcID g' = Some ?O"
    "onHostGroupSize g' = int (length ?mine)" by (auto simp: grp_ok_def Let_def)
  have G: "arr_get ?G r = Some (index_of r procs)" if "0 \<le> r" "r < nprocs env" for r using that by (simp add: arr_get_def)
  have E: "map hostID ?E = ?hosts" "map groupProcIDOnHost ?E = map (on_host env procs) ?hosts" by (auto simp: host_entry_def Let_def map_idI)
  have "those (map (arr_get ?O) ?mine) = Some (map (local_count env ?H) ?mine)"
  proof (rule those_eq)
    fix j assume "j < length ?mine"
    from nth_mem [OF this] have q: "?mine ! j \<in> set ?mine" "0 \<le> ?mine ! j" "?mine ! j < int (length procs)" by (simp_all add: on_host_simps(4))
    then show "arr_get ?O (?mine ! j) = Some (map (local_count env ?H) ?mine ! j)" using \<open>j < length ?mine\<close> by (simp add: arr_get_def)
  qed simp
  then have O: "those (map (arr_get ?O) ?mine) = Some [0..onHostGroupSize g' - 1]" using local_positions [of env procs] f(7) by simp
  show ?thesis
  proof (rule exI [of _ g'], rule exI [of _ ?G], rule exI [of _ ?E], rule exI [of _ lk], rule exI [of _ ?O], intro conjI allI impI ballI)
    show "arr_get ?G (procs ! q) = Some (int q)" if "q < length procs" for q
      using G procs_ok_nth [OF ok that] index_of_nth [OF _ that] ok by (simp add: procs_ok_def)
    show "arr_get ?G r = Some (- 1)" if "0 \<le> r \<and> r < nprocs env \<and> r \<notin> set procs" for r using G [of r] that by (simp add: index_of_def)
    show "distinct (map hostID ?E)" unfolding E by simp
    show "mset (concat (map groupProcIDOnHost ?E)) = mset [0..int (length procs) - 1]" unfolding E by (rule hosts_partition)
    show "host_of env (procs ! nat q) = hostID e" if "e \<in> set ?E" "q \<in> set (groupProcIDOnHost e)" for e q
      using that by (auto simp: host_entry_def Let_def on_host_simps(4))
    show "arr_get lk (hostID (?E ! i)) = Some (int i)" if "i < length ?E" for i using f(5) that by (simp add: host_entry_def Let_def)
  qed (use g'(1) f O in simp_all)
qed

theorem group_create_consistent_witness:
  "\<exists>g' entries. create 7 demo_env [] [] 3 (Some [2, 0, 3]) 5 (new_group 7) = Some (ULM_SUCCESS, g')
    \<and> groupHostData g' = Some entries \<and> mset (concat (map groupProcIDOnHost entries)) = mset [0, 1, 2]"
proof -
  have "procs_ok demo_env [2, 0, 3]" by (simp add: procs_ok_def demo_env_def)
  moreover have "[0..2] = [0, 1, 2 :: int]" by (simp add: upto.simps)
  ultimately show ?thesis using group_create_consistent [OF demo_env_ok, of "[2, 0, 3]" 7 5 "new_group 7"] by auto
qed

text \<open>
  C4: The operations on groups implement operations on lists of processes. The operations are the creation from a list of processes, union, intersection, difference,
  the selections \<^verbatim>\<open>incl\<close>, \<^verbatim>\<open>excl\<close> and \<^verbatim>\<open>range_incl\<close>, and freeing; not \<^verbatim>\<open>range_excl\<close>, which computes another group. Allocations succeed
  and the job has fewer than \<open>3 ^ 19\<close> hosts. A call is legal when its groups exist (or are the empty group, for union and difference), a list for a new
  group is a non-empty list of different processes, ranks are different and in range, and ranges select different ranks with a stride of the right sign,
  the last rank plus the stride being an \<^verbatim>\<open>int\<close>. In every pool that legal calls reach from start-up, every
  further legal call succeeds; its result is exactly the list that the MPI
  standard prescribes, in its order, as a new group with one reference, as one more reference to an existing group, or as the empty group; freeing takes
  one reference away and the group with the last one; and no other group changes.
\<close>

theorem group_ops_refine:
  assumes "env_ok env" and "group_reach junk env p" and "legal_op env (table p) op"
  shows "\<exists>k p'. run_op junk env op p = Some (MPI_SUCCESS, k, p') \<and> group_reach junk env p' \<and> op_effect op (table p) k (table p')"
  using op_ok [OF assms(1) group_reach_ok [OF assms(2,1)] assms(3), of junk] group_reach.step [OF assms(2,3)] by blast

theorem group_ops_refine_witness:
  "\<exists>k p'. run_op 7 demo_env (New [2, 0]) init_pool = Some (MPI_SUCCESS, k, p') \<and> group_reach 7 demo_env p'
    \<and> op_effect (New [2, 0]) (table init_pool) k (table p')"
  by (rule group_ops_refine [OF demo_env_ok group_reach.start]) (simp add: procs_ok_def demo_env_def)

text \<open>
  C37: Comparing groups and translating ranks. The result of \<^verbatim>\<open>ulm_group_compare\<close> is identical for groups with the same processes in the same
  order, similar for the same processes in another order and unequal otherwise; \<^verbatim>\<open>ulm_group_translate_ranks\<close> gives for each rank the rank of the same process in the
  other group, or \<^verbatim>\<open>MPI_UNDEFINED\<close> when it is not a member.
\<close>

theorem group_compare_translate:
  assumes "env_ok env" and "group_reach junk env p" and "group_at (table p) i" and "group_at (table p) j"
    and "\<forall>r \<in> set ranks. 0 \<le> r \<and> r < int (length (procs_at (table p) i))"
  shows "ulm_group_compare i j p = Some (MPI_SUCCESS, Some (if procs_at (table p) i = procs_at (table p) j then MPI_IDENT
      else if set (procs_at (table p) i) = set (procs_at (table p) j) then MPI_SIMILAR else MPI_UNEQUAL), p)
    \<and> (\<exists>out. ulm_group_translate_ranks i (int (length ranks)) ranks j p = Some (MPI_SUCCESS, Some out, p) \<and> length out = length ranks
      \<and> (\<forall>q < length ranks. let x = procs_at (table p) i ! nat (ranks ! q) in
          if x \<in> set (procs_at (table p) j) then 0 \<le> out ! q \<and> out ! q < int (length (procs_at (table p) j)) \<and> procs_at (table p) j ! nat (out ! q) = x
          else out ! q = MPI_UNDEFINED))"
proof -
  note ok = group_reach_ok [OF assms(2,1)]
  show ?thesis using compare_ok [OF ok assms(3,4)] translate_ok [OF ok assms(3-5)] index_of_less
    by (simp add: Let_def index_of_def)
qed

lemma one_group:
  assumes "procs_ok demo_env xs"
  shows "\<exists>k p. group_reach 7 demo_env p \<and> group_at (table p) k \<and> procs_at (table p) k = xs"
proof -
  have l: "legal_op demo_env (table init_pool) (New xs)" using assms by simp
  from op_ok [OF demo_env_ok init_pool_ok l, of 7] obtain k p where r: "run_op 7 demo_env (New xs) init_pool = Some (MPI_SUCCESS, k, p)"
    "op_effect (New xs) (table init_pool) k (table p)" by blast
  have "\<exists>k' n. table p k' = Some (xs, n)" using r(2) assms by (auto simp: op_effect_def results_in_def procs_ok_def split: if_splits)
  then obtain k' n where "table p k' = Some (xs, n)" by blast
  moreover have "group_reach 7 demo_env p" using group_reach.step [OF group_reach.start l r(1)] .
  ultimately show ?thesis by (intro exI [of _ k'] exI [of _ p]) (simp add: group_at_def procs_at_def)
qed

theorem group_compare_translate_witness:
  "\<exists>k p. group_reach 7 demo_env p \<and> procs_at (table p) k = [2, 0]
    \<and> ulm_group_compare k k p = Some (MPI_SUCCESS, Some MPI_IDENT, p)
    \<and> (\<exists>out. ulm_group_translate_ranks k 1 [1] k p = Some (MPI_SUCCESS, Some out, p) \<and> [2, 0] ! nat (out ! 0) = (0 :: int))"
proof -
  from one_group [of "[2, 0]"] obtain k p where p: "group_reach 7 demo_env p" "group_at (table p) k" "procs_at (table p) k = [2, 0]"
    by (auto simp: procs_ok_def demo_env_def)
  from group_compare_translate [OF demo_env_ok p(1,2,2), of "[1]"] p show ?thesis by (intro exI [of _ k] exI [of _ p]) (auto simp: Let_def)
qed

lemma leave_out_inj:
  assumes d: "distinct xs" and r: "ranks_ok xs qs" "ranks_ok xs rs" and eq: "leave_out xs qs = leave_out xs rs"
  shows "set qs = set rs"
proof -
  have "set (leave_out xs qs) = (\<lambda>q. xs ! nat q) ` ({0..<int (length xs)} - set qs)" for qs
    by (auto simp: leave_out_def)
  then have "(\<lambda>q. xs ! nat q) ` ({0..<int (length xs)} - set qs) = (\<lambda>q. xs ! nat q) ` ({0..<int (length xs)} - set rs)" using eq by metis
  moreover have inj: "inj_on (\<lambda>q. xs ! nat q) {0..<int (length xs)}" using d by (auto simp: inj_on_def nth_eq_iff_index_eq)
  ultimately have "{0..<int (length xs)} - set qs = {0..<int (length xs)} - set rs"
    by (subst (asm) inj_on_image_eq_iff [OF inj]) auto
  moreover have "set qs \<subseteq> {0..<int (length xs)}" "set rs \<subseteq> {0..<int (length xs)}" using r by (auto simp: ranks_ok_def)
  ultimately show ?thesis by blast
qed

text \<open>
  C38: \<^verbatim>\<open>ulm_group_range_excl\<close> excludes the wrong processes: it hands the processes at the given ranks to \<^verbatim>\<open>ulm_group_excl\<close>, which takes their
  numbers for ranks. In every pool that legal calls reach, for every group and every legal, non-empty list of ranges whose processes have numbers below the size of the
  group: the call succeeds (memory permitting) with the members whose rank is not the number of one of those processes; and that is the group which
  the standard prescribes if and only if those numbers are, as a set, the selected ranks.
\<close>

theorem range_excl_wrong_group:
  assumes "env_ok env" and "group_reach junk env p" and "group_at (table p) i" and "ranges_ok (int (length (procs_at (table p) i))) ts" and "ts \<noteq> []"
    and "\<forall>r \<in> set (range_lists ts). procs_at (table p) i ! nat r < int (length (procs_at (table p) i))"
  shows "\<exists>k p'. ulm_group_range_excl junk env [] [] i ts p = Some (MPI_SUCCESS, Some k, p')
    \<and> results_in (table p) (table p') k (leave_out (procs_at (table p) i) (pick (procs_at (table p) i) (range_lists ts)))
    \<and> (leave_out (procs_at (table p) i) (pick (procs_at (table p) i) (range_lists ts)) = leave_out (procs_at (table p) i) (range_lists ts)
        \<longleftrightarrow> set (pick (procs_at (table p) i) (range_lists ts)) = set (range_lists ts))"
proof -
  let ?xs = "procs_at (table p) i" and ?rs = "range_lists ts"
  note ok = group_reach_ok [OF assms(2,1)]
  note rr = ranges_ranks [OF assms(4)]
  from group_atD [OF ok assms(3)] obtain g where "grp_ok env ?xs g" by metis
  note xs = grp_okD(1) [OF this]
  have "ranks_ok ?xs (pick ?xs ?rs)"
  proof (cases "?rs = []")
    case False
    from pick_procs [OF xs rr False] assms(6) show ?thesis by (auto simp: ranks_ok_def procs_ok_def)
  next
    case True
    then show ?thesis by (simp only: list.map ranks_ok_def) simp
  qed
  note pr = this
  from excl_ok [OF assms(1) ok assms(3) pr, of junk] obtain k p' where
    "ulm_group_excl junk env [] [] i (int (length (pick ?xs ?rs))) (pick ?xs ?rs) p = Some (MPI_SUCCESS, Some k, p')"
    "results_in (table p) (table p') k (leave_out ?xs (pick ?xs ?rs))" by blast
  moreover have "leave_out ?xs (pick ?xs ?rs) = leave_out ?xs ?rs \<longleftrightarrow> set (pick ?xs ?rs) = set ?rs"
    using leave_out_inj [OF _ pr rr] xs by (auto simp: procs_ok_def) (simp add: leave_out_def)
  ultimately show ?thesis using range_excl_run [OF ok assms(3,4,5), of junk] by (intro exI [of _ k] exI [of _ p']) simp
qed

theorem range_excl_wrong_group_witness:
  "\<exists>k p k' p'. group_reach 7 demo_env p \<and> procs_at (table p) k = [2, 1, 0]
    \<and> ulm_group_range_excl 7 demo_env [] [] k [(0, 0, 1)] p = Some (MPI_SUCCESS, Some k', p')
    \<and> procs_at (table p') k' = [2, 1] \<and> leave_out [2, 1, 0] (range_lists [(0, 0, 1)]) = [1, 0]"
proof -
  from one_group [of "[2, 1, 0]"] obtain k p where p: "group_reach 7 demo_env p" "group_at (table p) k" "procs_at (table p) k = [2, 1, 0]"
    by (auto simp: procs_ok_def demo_env_def)
  have r: "range_lists [(0, 0, 1)] = [0]" "ranges_ok (int (length (procs_at (table p) k))) [(0, 0, 1)]"
    by (simp_all add: range_list_def ranges_ok_def triple_ok_def int_range_def p(3))
  have u: "[0..2] = [0, 1, 2 :: int]" by (simp add: upto.simps)
  have lo: "leave_out [2, 1, 0] [2] = [2, 1]" "leave_out [2, 1, 0] [0] = [1, 0]" by (simp_all add: leave_out_def u)
  from range_excl_wrong_group [OF demo_env_ok p(1,2) r(2)] r(1) p(3) lo obtain k' p' where
    "ulm_group_range_excl 7 demo_env [] [] k [(0, 0, 1)] p = Some (MPI_SUCCESS, Some k', p')"
    "results_in (table p) (table p') k' [2, 1]" by auto
  moreover from this(2) have "procs_at (table p') k' = [2, 1]" by (auto simp: results_in_def procs_at_def)
  ultimately show ?thesis using p lo(2) r(1) by (intro exI [of _ k] exI [of _ p] exI [of _ k'] exI [of _ p']) simp
qed

end
