(* ===== verification/Reduction.thy ===== *)
theory Reduction
  imports Lampi_Prelude
begin

section \<open>The predefined reduction functions (\<^verbatim>\<open>interface/ulm_binary_functions.cc\<close>)\<close>

text \<open>
  One definition for each function of the file. A function gets two arrays as \<^verbatim>\<open>void *\<close>, casts them to the
  element type it is written for and combines the first \<^verbatim>\<open>*pn\<close> elements of \<^verbatim>\<open>inv\<close> into \<^verbatim>\<open>inoutv\<close>. The arrays
  do not overlap (the pointers are \<^verbatim>\<open>restrict\<close>); the model returns the new contents of \<^verbatim>\<open>inoutv\<close>. \<open>None\<close> is an
  undefined call: an array accessed through a pointer of another type, an access out of bounds, or a signed
  overflow in \<^verbatim>\<open>int\<close>, \<^verbatim>\<open>long\<close> or \<^verbatim>\<open>long long\<close> arithmetic. Operands narrower than \<^verbatim>\<open>int\<close> are promoted to
  \<^verbatim>\<open>int\<close> and the result is stored back modulo the width; \<^verbatim>\<open>char\<close> is signed. Floating-point
  arithmetic is the machine's, the parameter \<open>fpu\<close>.
\<close>

subsection \<open>Arrays in memory\<close>

text \<open>\<^verbatim>\<open>ulm_scomplex_t\<close>, \<^verbatim>\<open>ulm_dcomplex_t\<close>, \<^verbatim>\<open>ulm_qcomplex_t\<close> and the pair types of \<^verbatim>\<open>ulm/types.h\<close>.\<close>

record 'r complex_t =
  re :: 'r
  im :: 'r

record ('v, 'l) loc_t =
  val :: 'v
  loc :: 'l

datatype 'r buffer =
    Char "8 word list"
  | Short "16 word list"
  | SInt "32 word list"
  | Long "64 word list"
  | UChar "8 word list"
  | UShort "16 word list"
  | UInt "32 word list"
  | ULong "64 word list"
  | LongLong "64 word list"
  | Float "'r list"
  | Double "'r list"
  | LongDouble "'r list"
  | SComplex "'r complex_t list"
  | DComplex "'r complex_t list"
  | QComplex "'r complex_t list"
  | CharInt "(8 word, 32 word) loc_t list"
  | ShortInt "(16 word, 32 word) loc_t list"
  | IntInt "(32 word, 32 word) loc_t list"
  | LongInt "(64 word, 32 word) loc_t list"
  | UCharInt "(8 word, 32 word) loc_t list"
  | UShortInt "(16 word, 32 word) loc_t list"
  | UIntInt "(32 word, 32 word) loc_t list"
  | ULongInt "(64 word, 32 word) loc_t list"
  | FloatInt "('r, 32 word) loc_t list"
  | DoubleInt "('r, 32 word) loc_t list"
  | LDoubleInt "('r, 32 word) loc_t list"
  | FloatFloat "('r, 'r) loc_t list"
  | DoubleDouble "('r, 'r) loc_t list"
  | LDoubleLDouble "('r, 'r) loc_t list"

type_synonym 'r ulm_func = "'r buffer \<Rightarrow> 'r buffer \<Rightarrow> int \<Rightarrow> 'r buffer option"

text \<open>The operations of the machine on one floating-point format, and on the three of C.\<close>

record 'r fp_ops =
  fadd :: "'r \<Rightarrow> 'r \<Rightarrow> 'r"
  fsub :: "'r \<Rightarrow> 'r \<Rightarrow> 'r"
  fmul :: "'r \<Rightarrow> 'r \<Rightarrow> 'r"
  fgt :: "'r \<Rightarrow> 'r \<Rightarrow> bool"
  feq :: "'r \<Rightarrow> 'r \<Rightarrow> bool"

record 'r fpu =
  float_ops :: "'r fp_ops"
  double_ops :: "'r fp_ops"
  long_double_ops :: "'r fp_ops"

text \<open>The pointer casts.\<close>

definition as_char :: "'r buffer \<Rightarrow> 8 word list option" where
  "as_char m = (case m of Char a \<Rightarrow> Some a | _ \<Rightarrow> None)"

definition as_short :: "'r buffer \<Rightarrow> 16 word list option" where
  "as_short m = (case m of Short a \<Rightarrow> Some a | _ \<Rightarrow> None)"

definition as_int :: "'r buffer \<Rightarrow> 32 word list option" where
  "as_int m = (case m of SInt a \<Rightarrow> Some a | _ \<Rightarrow> None)"

definition as_long :: "'r buffer \<Rightarrow> 64 word list option" where
  "as_long m = (case m of Long a \<Rightarrow> Some a | _ \<Rightarrow> None)"

definition as_unsigned_char :: "'r buffer \<Rightarrow> 8 word list option" where
  "as_unsigned_char m = (case m of UChar a \<Rightarrow> Some a | _ \<Rightarrow> None)"

definition as_unsigned_short :: "'r buffer \<Rightarrow> 16 word list option" where
  "as_unsigned_short m = (case m of UShort a \<Rightarrow> Some a | _ \<Rightarrow> None)"

definition as_unsigned_int :: "'r buffer \<Rightarrow> 32 word list option" where
  "as_unsigned_int m = (case m of UInt a \<Rightarrow> Some a | _ \<Rightarrow> None)"

definition as_unsigned_long :: "'r buffer \<Rightarrow> 64 word list option" where
  "as_unsigned_long m = (case m of ULong a \<Rightarrow> Some a | _ \<Rightarrow> None)"

definition as_long_long :: "'r buffer \<Rightarrow> 64 word list option" where
  "as_long_long m = (case m of LongLong a \<Rightarrow> Some a | _ \<Rightarrow> None)"

definition as_float :: "'r buffer \<Rightarrow> 'r list option" where
  "as_float m = (case m of Float a \<Rightarrow> Some a | _ \<Rightarrow> None)"

definition as_double :: "'r buffer \<Rightarrow> 'r list option" where
  "as_double m = (case m of Double a \<Rightarrow> Some a | _ \<Rightarrow> None)"

definition as_long_double :: "'r buffer \<Rightarrow> 'r list option" where
  "as_long_double m = (case m of LongDouble a \<Rightarrow> Some a | _ \<Rightarrow> None)"

definition as_scomplex :: "'r buffer \<Rightarrow> 'r complex_t list option" where
  "as_scomplex m = (case m of SComplex a \<Rightarrow> Some a | _ \<Rightarrow> None)"

definition as_dcomplex :: "'r buffer \<Rightarrow> 'r complex_t list option" where
  "as_dcomplex m = (case m of DComplex a \<Rightarrow> Some a | _ \<Rightarrow> None)"

definition as_qcomplex :: "'r buffer \<Rightarrow> 'r complex_t list option" where
  "as_qcomplex m = (case m of QComplex a \<Rightarrow> Some a | _ \<Rightarrow> None)"

definition as_char_int :: "'r buffer \<Rightarrow> (8 word, 32 word) loc_t list option" where
  "as_char_int m = (case m of CharInt a \<Rightarrow> Some a | _ \<Rightarrow> None)"

definition as_short_int :: "'r buffer \<Rightarrow> (16 word, 32 word) loc_t list option" where
  "as_short_int m = (case m of ShortInt a \<Rightarrow> Some a | _ \<Rightarrow> None)"

definition as_int_int :: "'r buffer \<Rightarrow> (32 word, 32 word) loc_t list option" where
  "as_int_int m = (case m of IntInt a \<Rightarrow> Some a | _ \<Rightarrow> None)"

definition as_long_int :: "'r buffer \<Rightarrow> (64 word, 32 word) loc_t list option" where
  "as_long_int m = (case m of LongInt a \<Rightarrow> Some a | _ \<Rightarrow> None)"

definition as_uchar_int :: "'r buffer \<Rightarrow> (8 word, 32 word) loc_t list option" where
  "as_uchar_int m = (case m of UCharInt a \<Rightarrow> Some a | _ \<Rightarrow> None)"

definition as_ushort_int :: "'r buffer \<Rightarrow> (16 word, 32 word) loc_t list option" where
  "as_ushort_int m = (case m of UShortInt a \<Rightarrow> Some a | _ \<Rightarrow> None)"

definition as_uint_int :: "'r buffer \<Rightarrow> (32 word, 32 word) loc_t list option" where
  "as_uint_int m = (case m of UIntInt a \<Rightarrow> Some a | _ \<Rightarrow> None)"

definition as_ulong_int :: "'r buffer \<Rightarrow> (64 word, 32 word) loc_t list option" where
  "as_ulong_int m = (case m of ULongInt a \<Rightarrow> Some a | _ \<Rightarrow> None)"

definition as_float_int :: "'r buffer \<Rightarrow> ('r, 32 word) loc_t list option" where
  "as_float_int m = (case m of FloatInt a \<Rightarrow> Some a | _ \<Rightarrow> None)"

definition as_double_int :: "'r buffer \<Rightarrow> ('r, 32 word) loc_t list option" where
  "as_double_int m = (case m of DoubleInt a \<Rightarrow> Some a | _ \<Rightarrow> None)"

definition as_ldouble_int :: "'r buffer \<Rightarrow> ('r, 32 word) loc_t list option" where
  "as_ldouble_int m = (case m of LDoubleInt a \<Rightarrow> Some a | _ \<Rightarrow> None)"

definition as_float_float :: "'r buffer \<Rightarrow> ('r, 'r) loc_t list option" where
  "as_float_float m = (case m of FloatFloat a \<Rightarrow> Some a | _ \<Rightarrow> None)"

definition as_double_double :: "'r buffer \<Rightarrow> ('r, 'r) loc_t list option" where
  "as_double_double m = (case m of DoubleDouble a \<Rightarrow> Some a | _ \<Rightarrow> None)"

definition as_ldouble_ldouble :: "'r buffer \<Rightarrow> ('r, 'r) loc_t list option" where
  "as_ldouble_ldouble m = (case m of LDoubleLDouble a \<Rightarrow> Some a | _ \<Rightarrow> None)"

subsection \<open>Element operations\<close>

definition sgt :: "'w::len word \<Rightarrow> 'w word \<Rightarrow> bool" where
  "sgt x y \<longleftrightarrow> sint y < sint x"

definition ugt :: "'w::len word \<Rightarrow> 'w word \<Rightarrow> bool" where
  "ugt x y \<longleftrightarrow> uint y < uint x"

definition ULM_MAX :: "('a \<Rightarrow> 'a \<Rightarrow> bool) \<Rightarrow> 'a \<Rightarrow> 'a \<Rightarrow> 'a" where
  "ULM_MAX gt x y = (if gt y x then y else x)"

definition ULM_MIN :: "('a \<Rightarrow> 'a \<Rightarrow> bool) \<Rightarrow> 'a \<Rightarrow> 'a \<Rightarrow> 'a" where
  "ULM_MIN gt x y = (if gt x y then y else x)"

text \<open>The logical macros yield the \<^verbatim>\<open>int\<close> 0 or 1.\<close>

definition c_bool :: "bool \<Rightarrow> 'w::len word" where
  "c_bool p = (if p then 1 else 0)"

definition ULM_LAND :: "'w::len word \<Rightarrow> 'w word \<Rightarrow> 'w word" where
  "ULM_LAND x y = c_bool (x \<noteq> 0 \<and> y \<noteq> 0)"

definition ULM_LOR :: "'w::len word \<Rightarrow> 'w word \<Rightarrow> 'w word" where
  "ULM_LOR x y = c_bool (x \<noteq> 0 \<or> y \<noteq> 0)"

definition ULM_LXOR :: "'w::len word \<Rightarrow> 'w word \<Rightarrow> 'w word" where
  "ULM_LXOR x y = c_bool ((x \<noteq> 0 \<and> \<not> y \<noteq> 0) \<or> (\<not> x \<noteq> 0 \<and> y \<noteq> 0))"

text \<open>A signed result at the width of its type, defined when it fits; the product of two \<^verbatim>\<open>unsigned short\<close>
  operands, which are promoted to a 32-bit \<^verbatim>\<open>int\<close>.\<close>

definition in_srange :: "nat \<Rightarrow> int \<Rightarrow> bool" where
  "in_srange w r \<longleftrightarrow> - (2 ^ (w - 1)) \<le> r \<and> r < 2 ^ (w - 1)"

definition in_urange :: "nat \<Rightarrow> int \<Rightarrow> bool" where
  "in_urange w r \<longleftrightarrow> 0 \<le> r \<and> r < 2 ^ w"

definition checked :: "int \<Rightarrow> 'w::len word option" where
  "checked r = (if in_srange LENGTH('w) r then Some (word_of_int r) else None)"

definition promoted_prod :: "'w::len word \<Rightarrow> 'w word \<Rightarrow> 'w word option" where
  "promoted_prod x y = (if in_srange 32 (uint x * uint y) then Some (word_of_int (uint x * uint y)) else None)"

text \<open>The two assignments of the complex sum and product, in their order: the second one of the product
  reads the new real part.\<close>

definition complex_sum :: "'r fp_ops \<Rightarrow> 'r complex_t \<Rightarrow> 'r complex_t \<Rightarrow> 'r complex_t" where
  "complex_sum fo a b =
     (let a1 = a\<lparr>re := fadd fo (re a) (re b)\<rparr>
      in a1\<lparr>im := fadd fo (im a1) (im b)\<rparr>)"

definition complex_prod :: "'r fp_ops \<Rightarrow> 'r complex_t \<Rightarrow> 'r complex_t \<Rightarrow> 'r complex_t" where
  "complex_prod fo a b =
     (let a1 = a\<lparr>re := fsub fo (fmul fo (re a) (re b)) (fmul fo (im a) (im b))\<rparr>
      in a1\<lparr>im := fadd fo (fmul fo (re a1) (im b)) (fmul fo (im a1) (re b))\<rparr>)"

text \<open>The bodies of the \<^verbatim>\<open>maxloc\<close> and \<^verbatim>\<open>minloc\<close> loops.\<close>

definition maxloc_step :: "('v \<Rightarrow> 'v \<Rightarrow> bool) \<Rightarrow> ('v \<Rightarrow> 'v \<Rightarrow> bool) \<Rightarrow> ('l \<Rightarrow> 'l \<Rightarrow> bool) \<Rightarrow>
    ('v, 'l) loc_t \<Rightarrow> ('v, 'l) loc_t \<Rightarrow> ('v, 'l) loc_t" where
  "maxloc_step veq vgt lgt a b =
     (if veq (val b) (val a) then a\<lparr>loc := ULM_MIN lgt (loc b) (loc a)\<rparr>
      else if vgt (val b) (val a) then a\<lparr>val := val b, loc := loc b\<rparr>
      else a)"

definition minloc_step :: "('v \<Rightarrow> 'v \<Rightarrow> bool) \<Rightarrow> ('v \<Rightarrow> 'v \<Rightarrow> bool) \<Rightarrow> ('l \<Rightarrow> 'l \<Rightarrow> bool) \<Rightarrow>
    ('v, 'l) loc_t \<Rightarrow> ('v, 'l) loc_t \<Rightarrow> ('v, 'l) loc_t" where
  "minloc_step veq vgt lgt a b =
     (if veq (val b) (val a) then a\<lparr>loc := ULM_MAX lgt (loc b) (loc a)\<rparr>
      else if vgt (val a) (val b) then a\<lparr>val := val b, loc := loc b\<rparr>
      else a)"

subsection \<open>The loops\<close>

text \<open>\<^verbatim>\<open>while (n--)\<close> over two advancing pointers, and \<^verbatim>\<open>for (i = 0; i < *pn; i++)\<close> over two arrays.\<close>

fun while_n :: "('a \<Rightarrow> 'a \<Rightarrow> 'a option) \<Rightarrow> int \<Rightarrow> 'a list \<Rightarrow> 'a list \<Rightarrow> 'a list option" where
  "while_n f n (x # xs) (y # ys) =
     (if n = 0 then Some (x # xs)
      else do {
        z \<leftarrow> f x y;
        zs \<leftarrow> while_n f (n - 1) xs ys;
        Some (z # zs)
      })"
| "while_n f n xs ys = (if n = 0 then Some xs else None)"

function for_i :: "('a \<Rightarrow> 'a \<Rightarrow> 'a) \<Rightarrow> int \<Rightarrow> int \<Rightarrow> 'a list \<Rightarrow> 'a list \<Rightarrow> 'a list option" where
  "for_i f i n a b =
     (if i < n then do {
        x \<leftarrow> arr_get a i;
        y \<leftarrow> arr_get b i;
        a' \<leftarrow> arr_set a i (f x y);
        for_i f (i + 1) n a' b
      } else Some a)"
  by pat_completeness auto
termination
  by (relation "measure (\<lambda>(f, i, n, a, b). nat (n - i))") auto

declare for_i.simps [simp del]

subsection \<open>The functions\<close>

definition ulm_null :: "'r ulm_func" where
  "ulm_null inv0 inoutv pn = Some inoutv"

text \<open>\<^verbatim>\<open>char\<close>\<close>

definition ulm_cmax :: "'r ulm_func" where
  "ulm_cmax inv0 inoutv pn = do {
     a \<leftarrow> as_char inoutv;
     b \<leftarrow> as_char inv0;
     map_option Char (while_n (\<lambda>x y. Some (ULM_MAX sgt x y)) pn a b)
   }"

definition ulm_cmin :: "'r ulm_func" where
  "ulm_cmin inv0 inoutv pn = do {
     a \<leftarrow> as_char inoutv;
     b \<leftarrow> as_char inv0;
     map_option Char (while_n (\<lambda>x y. Some (ULM_MIN sgt x y)) pn a b)
   }"

definition ulm_csum :: "'r ulm_func" where
  "ulm_csum inv0 inoutv pn = do {
     a \<leftarrow> as_char inoutv;
     b \<leftarrow> as_char inv0;
     map_option Char (while_n (\<lambda>x y. Some (x + y)) pn a b)
   }"

definition ulm_cprod :: "'r ulm_func" where
  "ulm_cprod inv0 inoutv pn = do {
     a \<leftarrow> as_char inoutv;
     b \<leftarrow> as_char inv0;
     map_option Char (while_n (\<lambda>x y. Some (x * y)) pn a b)
   }"

definition ulm_cbor :: "'r ulm_func" where
  "ulm_cbor inv0 inoutv pn = do {
     a \<leftarrow> as_char inoutv;
     b \<leftarrow> as_char inv0;
     map_option Char (while_n (\<lambda>x y. Some (x OR y)) pn a b)
   }"

definition ulm_cband :: "'r ulm_func" where
  "ulm_cband inv0 inoutv pn = do {
     a \<leftarrow> as_char inoutv;
     b \<leftarrow> as_char inv0;
     map_option Char (while_n (\<lambda>x y. Some (x AND y)) pn a b)
   }"

definition ulm_cbxor :: "'r ulm_func" where
  "ulm_cbxor inv0 inoutv pn = do {
     a \<leftarrow> as_char inoutv;
     b \<leftarrow> as_char inv0;
     map_option Char (while_n (\<lambda>x y. Some (x XOR y)) pn a b)
   }"

definition ulm_clor :: "'r ulm_func" where
  "ulm_clor inv0 inoutv pn = do {
     a \<leftarrow> as_char inoutv;
     b \<leftarrow> as_char inv0;
     map_option Char (while_n (\<lambda>x y. Some (ULM_LOR x y)) pn a b)
   }"

definition ulm_cland :: "'r ulm_func" where
  "ulm_cland inv0 inoutv pn = do {
     a \<leftarrow> as_char inoutv;
     b \<leftarrow> as_char inv0;
     map_option Char (while_n (\<lambda>x y. Some (ULM_LAND x y)) pn a b)
   }"

definition ulm_clxor :: "'r ulm_func" where
  "ulm_clxor inv0 inoutv pn = do {
     a \<leftarrow> as_char inoutv;
     b \<leftarrow> as_char inv0;
     map_option Char (while_n (\<lambda>x y. Some (ULM_LXOR x y)) pn a b)
   }"

text \<open>\<^verbatim>\<open>short\<close>\<close>

definition ulm_smax :: "'r ulm_func" where
  "ulm_smax inv0 inoutv pn = do {
     a \<leftarrow> as_short inoutv;
     b \<leftarrow> as_short inv0;
     map_option Short (while_n (\<lambda>x y. Some (ULM_MAX sgt x y)) pn a b)
   }"

definition ulm_smin :: "'r ulm_func" where
  "ulm_smin inv0 inoutv pn = do {
     a \<leftarrow> as_short inoutv;
     b \<leftarrow> as_short inv0;
     map_option Short (while_n (\<lambda>x y. Some (ULM_MIN sgt x y)) pn a b)
   }"

definition ulm_ssum :: "'r ulm_func" where
  "ulm_ssum inv0 inoutv pn = do {
     a \<leftarrow> as_short inoutv;
     b \<leftarrow> as_short inv0;
     map_option Short (while_n (\<lambda>x y. Some (x + y)) pn a b)
   }"

definition ulm_sprod :: "'r ulm_func" where
  "ulm_sprod inv0 inoutv pn = do {
     a \<leftarrow> as_short inoutv;
     b \<leftarrow> as_short inv0;
     map_option Short (while_n (\<lambda>x y. Some (x * y)) pn a b)
   }"

definition ulm_sbor :: "'r ulm_func" where
  "ulm_sbor inv0 inoutv pn = do {
     a \<leftarrow> as_short inoutv;
     b \<leftarrow> as_short inv0;
     map_option Short (while_n (\<lambda>x y. Some (x OR y)) pn a b)
   }"

definition ulm_sband :: "'r ulm_func" where
  "ulm_sband inv0 inoutv pn = do {
     a \<leftarrow> as_short inoutv;
     b \<leftarrow> as_short inv0;
     map_option Short (while_n (\<lambda>x y. Some (x AND y)) pn a b)
   }"

definition ulm_sbxor :: "'r ulm_func" where
  "ulm_sbxor inv0 inoutv pn = do {
     a \<leftarrow> as_short inoutv;
     b \<leftarrow> as_short inv0;
     map_option Short (while_n (\<lambda>x y. Some (x XOR y)) pn a b)
   }"

definition ulm_slor :: "'r ulm_func" where
  "ulm_slor inv0 inoutv pn = do {
     a \<leftarrow> as_short inoutv;
     b \<leftarrow> as_short inv0;
     map_option Short (while_n (\<lambda>x y. Some (ULM_LOR x y)) pn a b)
   }"

definition ulm_sland :: "'r ulm_func" where
  "ulm_sland inv0 inoutv pn = do {
     a \<leftarrow> as_short inoutv;
     b \<leftarrow> as_short inv0;
     map_option Short (while_n (\<lambda>x y. Some (ULM_LAND x y)) pn a b)
   }"

definition ulm_slxor :: "'r ulm_func" where
  "ulm_slxor inv0 inoutv pn = do {
     a \<leftarrow> as_short inoutv;
     b \<leftarrow> as_short inv0;
     map_option Short (while_n (\<lambda>x y. Some (ULM_LXOR x y)) pn a b)
   }"

text \<open>\<^verbatim>\<open>int\<close>\<close>

definition ulm_imax :: "'r ulm_func" where
  "ulm_imax inv0 inoutv pn = do {
     a \<leftarrow> as_int inoutv;
     b \<leftarrow> as_int inv0;
     map_option SInt (while_n (\<lambda>x y. Some (ULM_MAX sgt x y)) pn a b)
   }"

definition ulm_imin :: "'r ulm_func" where
  "ulm_imin inv0 inoutv pn = do {
     a \<leftarrow> as_int inoutv;
     b \<leftarrow> as_int inv0;
     map_option SInt (while_n (\<lambda>x y. Some (ULM_MIN sgt x y)) pn a b)
   }"

definition ulm_isum :: "'r ulm_func" where
  "ulm_isum inv0 inoutv pn = do {
     a \<leftarrow> as_int inoutv;
     b \<leftarrow> as_int inv0;
     map_option SInt (while_n (\<lambda>x y. checked (sint x + sint y)) pn a b)
   }"

definition ulm_iprod :: "'r ulm_func" where
  "ulm_iprod inv0 inoutv pn = do {
     a \<leftarrow> as_int inoutv;
     b \<leftarrow> as_int inv0;
     map_option SInt (while_n (\<lambda>x y. checked (sint x * sint y)) pn a b)
   }"

definition ulm_ibor :: "'r ulm_func" where
  "ulm_ibor inv0 inoutv pn = do {
     a \<leftarrow> as_int inoutv;
     b \<leftarrow> as_int inv0;
     map_option SInt (while_n (\<lambda>x y. Some (x OR y)) pn a b)
   }"

definition ulm_iband :: "'r ulm_func" where
  "ulm_iband inv0 inoutv pn = do {
     a \<leftarrow> as_int inoutv;
     b \<leftarrow> as_int inv0;
     map_option SInt (while_n (\<lambda>x y. Some (x AND y)) pn a b)
   }"

definition ulm_ibxor :: "'r ulm_func" where
  "ulm_ibxor inv0 inoutv pn = do {
     a \<leftarrow> as_int inoutv;
     b \<leftarrow> as_int inv0;
     map_option SInt (while_n (\<lambda>x y. Some (x XOR y)) pn a b)
   }"

definition ulm_ilor :: "'r ulm_func" where
  "ulm_ilor inv0 inoutv pn = do {
     a \<leftarrow> as_int inoutv;
     b \<leftarrow> as_int inv0;
     map_option SInt (while_n (\<lambda>x y. Some (ULM_LOR x y)) pn a b)
   }"

definition ulm_iland :: "'r ulm_func" where
  "ulm_iland inv0 inoutv pn = do {
     a \<leftarrow> as_int inoutv;
     b \<leftarrow> as_int inv0;
     map_option SInt (while_n (\<lambda>x y. Some (ULM_LAND x y)) pn a b)
   }"

definition ulm_ilxor :: "'r ulm_func" where
  "ulm_ilxor inv0 inoutv pn = do {
     a \<leftarrow> as_int inoutv;
     b \<leftarrow> as_int inv0;
     map_option SInt (while_n (\<lambda>x y. Some (ULM_LXOR x y)) pn a b)
   }"

text \<open>\<^verbatim>\<open>long\<close>\<close>

definition ulm_lmax :: "'r ulm_func" where
  "ulm_lmax inv0 inoutv pn = do {
     a \<leftarrow> as_long inoutv;
     b \<leftarrow> as_long inv0;
     map_option Long (while_n (\<lambda>x y. Some (ULM_MAX sgt x y)) pn a b)
   }"

definition ulm_lmin :: "'r ulm_func" where
  "ulm_lmin inv0 inoutv pn = do {
     a \<leftarrow> as_long inoutv;
     b \<leftarrow> as_long inv0;
     map_option Long (while_n (\<lambda>x y. Some (ULM_MIN sgt x y)) pn a b)
   }"

definition ulm_lsum :: "'r ulm_func" where
  "ulm_lsum inv0 inoutv pn = do {
     a \<leftarrow> as_long inoutv;
     b \<leftarrow> as_long inv0;
     map_option Long (while_n (\<lambda>x y. checked (sint x + sint y)) pn a b)
   }"

definition ulm_lprod :: "'r ulm_func" where
  "ulm_lprod inv0 inoutv pn = do {
     a \<leftarrow> as_long inoutv;
     b \<leftarrow> as_long inv0;
     map_option Long (while_n (\<lambda>x y. checked (sint x * sint y)) pn a b)
   }"

definition ulm_lbor :: "'r ulm_func" where
  "ulm_lbor inv0 inoutv pn = do {
     a \<leftarrow> as_long inoutv;
     b \<leftarrow> as_long inv0;
     map_option Long (while_n (\<lambda>x y. Some (x OR y)) pn a b)
   }"

definition ulm_lband :: "'r ulm_func" where
  "ulm_lband inv0 inoutv pn = do {
     a \<leftarrow> as_long inoutv;
     b \<leftarrow> as_long inv0;
     map_option Long (while_n (\<lambda>x y. Some (x AND y)) pn a b)
   }"

definition ulm_lbxor :: "'r ulm_func" where
  "ulm_lbxor inv0 inoutv pn = do {
     a \<leftarrow> as_long inoutv;
     b \<leftarrow> as_long inv0;
     map_option Long (while_n (\<lambda>x y. Some (x XOR y)) pn a b)
   }"

definition ulm_llor :: "'r ulm_func" where
  "ulm_llor inv0 inoutv pn = do {
     a \<leftarrow> as_long inoutv;
     b \<leftarrow> as_long inv0;
     map_option Long (while_n (\<lambda>x y. Some (ULM_LOR x y)) pn a b)
   }"

definition ulm_lland :: "'r ulm_func" where
  "ulm_lland inv0 inoutv pn = do {
     a \<leftarrow> as_long inoutv;
     b \<leftarrow> as_long inv0;
     map_option Long (while_n (\<lambda>x y. Some (ULM_LAND x y)) pn a b)
   }"

definition ulm_llxor :: "'r ulm_func" where
  "ulm_llxor inv0 inoutv pn = do {
     a \<leftarrow> as_long inoutv;
     b \<leftarrow> as_long inv0;
     map_option Long (while_n (\<lambda>x y. Some (ULM_LXOR x y)) pn a b)
   }"

text \<open>\<^verbatim>\<open>unsigned char\<close>\<close>

definition ulm_ucmax :: "'r ulm_func" where
  "ulm_ucmax inv0 inoutv pn = do {
     a \<leftarrow> as_unsigned_char inoutv;
     b \<leftarrow> as_unsigned_char inv0;
     map_option UChar (while_n (\<lambda>x y. Some (ULM_MAX ugt x y)) pn a b)
   }"

definition ulm_ucmin :: "'r ulm_func" where
  "ulm_ucmin inv0 inoutv pn = do {
     a \<leftarrow> as_unsigned_char inoutv;
     b \<leftarrow> as_unsigned_char inv0;
     map_option UChar (while_n (\<lambda>x y. Some (ULM_MIN ugt x y)) pn a b)
   }"

definition ulm_ucsum :: "'r ulm_func" where
  "ulm_ucsum inv0 inoutv pn = do {
     a \<leftarrow> as_unsigned_char inoutv;
     b \<leftarrow> as_unsigned_char inv0;
     map_option UChar (while_n (\<lambda>x y. Some (x + y)) pn a b)
   }"

definition ulm_ucprod :: "'r ulm_func" where
  "ulm_ucprod inv0 inoutv pn = do {
     a \<leftarrow> as_unsigned_char inoutv;
     b \<leftarrow> as_unsigned_char inv0;
     map_option UChar (while_n (\<lambda>x y. Some (x * y)) pn a b)
   }"

definition ulm_ucbor :: "'r ulm_func" where
  "ulm_ucbor inv0 inoutv pn = do {
     a \<leftarrow> as_unsigned_char inoutv;
     b \<leftarrow> as_unsigned_char inv0;
     map_option UChar (while_n (\<lambda>x y. Some (x OR y)) pn a b)
   }"

definition ulm_ucband :: "'r ulm_func" where
  "ulm_ucband inv0 inoutv pn = do {
     a \<leftarrow> as_unsigned_char inoutv;
     b \<leftarrow> as_unsigned_char inv0;
     map_option UChar (while_n (\<lambda>x y. Some (x AND y)) pn a b)
   }"

definition ulm_ucbxor :: "'r ulm_func" where
  "ulm_ucbxor inv0 inoutv pn = do {
     a \<leftarrow> as_unsigned_char inoutv;
     b \<leftarrow> as_unsigned_char inv0;
     map_option UChar (while_n (\<lambda>x y. Some (x XOR y)) pn a b)
   }"

definition ulm_uclor :: "'r ulm_func" where
  "ulm_uclor inv0 inoutv pn = do {
     a \<leftarrow> as_unsigned_char inoutv;
     b \<leftarrow> as_unsigned_char inv0;
     map_option UChar (while_n (\<lambda>x y. Some (ULM_LOR x y)) pn a b)
   }"

definition ulm_ucland :: "'r ulm_func" where
  "ulm_ucland inv0 inoutv pn = do {
     a \<leftarrow> as_unsigned_char inoutv;
     b \<leftarrow> as_unsigned_char inv0;
     map_option UChar (while_n (\<lambda>x y. Some (ULM_LAND x y)) pn a b)
   }"

definition ulm_uclxor :: "'r ulm_func" where
  "ulm_uclxor inv0 inoutv pn = do {
     a \<leftarrow> as_unsigned_char inoutv;
     b \<leftarrow> as_unsigned_char inv0;
     map_option UChar (while_n (\<lambda>x y. Some (ULM_LXOR x y)) pn a b)
   }"

text \<open>\<^verbatim>\<open>unsigned short\<close>\<close>

definition ulm_usmax :: "'r ulm_func" where
  "ulm_usmax inv0 inoutv pn = do {
     a \<leftarrow> as_unsigned_short inoutv;
     b \<leftarrow> as_unsigned_short inv0;
     map_option UShort (while_n (\<lambda>x y. Some (ULM_MAX ugt x y)) pn a b)
   }"

definition ulm_usmin :: "'r ulm_func" where
  "ulm_usmin inv0 inoutv pn = do {
     a \<leftarrow> as_unsigned_short inoutv;
     b \<leftarrow> as_unsigned_short inv0;
     map_option UShort (while_n (\<lambda>x y. Some (ULM_MIN ugt x y)) pn a b)
   }"

definition ulm_ussum :: "'r ulm_func" where
  "ulm_ussum inv0 inoutv pn = do {
     a \<leftarrow> as_unsigned_short inoutv;
     b \<leftarrow> as_unsigned_short inv0;
     map_option UShort (while_n (\<lambda>x y. Some (x + y)) pn a b)
   }"

definition ulm_usprod :: "'r ulm_func" where
  "ulm_usprod inv0 inoutv pn = do {
     a \<leftarrow> as_unsigned_short inoutv;
     b \<leftarrow> as_unsigned_short inv0;
     map_option UShort (while_n (\<lambda>x y. promoted_prod x y) pn a b)
   }"

definition ulm_usbor :: "'r ulm_func" where
  "ulm_usbor inv0 inoutv pn = do {
     a \<leftarrow> as_unsigned_short inoutv;
     b \<leftarrow> as_unsigned_short inv0;
     map_option UShort (while_n (\<lambda>x y. Some (x OR y)) pn a b)
   }"

definition ulm_usband :: "'r ulm_func" where
  "ulm_usband inv0 inoutv pn = do {
     a \<leftarrow> as_unsigned_short inoutv;
     b \<leftarrow> as_unsigned_short inv0;
     map_option UShort (while_n (\<lambda>x y. Some (x AND y)) pn a b)
   }"

definition ulm_usbxor :: "'r ulm_func" where
  "ulm_usbxor inv0 inoutv pn = do {
     a \<leftarrow> as_unsigned_short inoutv;
     b \<leftarrow> as_unsigned_short inv0;
     map_option UShort (while_n (\<lambda>x y. Some (x XOR y)) pn a b)
   }"

definition ulm_uslor :: "'r ulm_func" where
  "ulm_uslor inv0 inoutv pn = do {
     a \<leftarrow> as_unsigned_short inoutv;
     b \<leftarrow> as_unsigned_short inv0;
     map_option UShort (while_n (\<lambda>x y. Some (ULM_LOR x y)) pn a b)
   }"

definition ulm_usland :: "'r ulm_func" where
  "ulm_usland inv0 inoutv pn = do {
     a \<leftarrow> as_unsigned_short inoutv;
     b \<leftarrow> as_unsigned_short inv0;
     map_option UShort (while_n (\<lambda>x y. Some (ULM_LAND x y)) pn a b)
   }"

definition ulm_uslxor :: "'r ulm_func" where
  "ulm_uslxor inv0 inoutv pn = do {
     a \<leftarrow> as_unsigned_short inoutv;
     b \<leftarrow> as_unsigned_short inv0;
     map_option UShort (while_n (\<lambda>x y. Some (ULM_LXOR x y)) pn a b)
   }"

text \<open>\<^verbatim>\<open>unsigned int\<close>\<close>

definition ulm_uimax :: "'r ulm_func" where
  "ulm_uimax inv0 inoutv pn = do {
     a \<leftarrow> as_unsigned_int inoutv;
     b \<leftarrow> as_unsigned_int inv0;
     map_option UInt (while_n (\<lambda>x y. Some (ULM_MAX ugt x y)) pn a b)
   }"

definition ulm_uimin :: "'r ulm_func" where
  "ulm_uimin inv0 inoutv pn = do {
     a \<leftarrow> as_unsigned_int inoutv;
     b \<leftarrow> as_unsigned_int inv0;
     map_option UInt (while_n (\<lambda>x y. Some (ULM_MIN ugt x y)) pn a b)
   }"

definition ulm_uisum :: "'r ulm_func" where
  "ulm_uisum inv0 inoutv pn = do {
     a \<leftarrow> as_unsigned_int inoutv;
     b \<leftarrow> as_unsigned_int inv0;
     map_option UInt (while_n (\<lambda>x y. Some (x + y)) pn a b)
   }"

definition ulm_uiprod :: "'r ulm_func" where
  "ulm_uiprod inv0 inoutv pn = do {
     a \<leftarrow> as_unsigned_int inoutv;
     b \<leftarrow> as_unsigned_int inv0;
     map_option UInt (while_n (\<lambda>x y. Some (x * y)) pn a b)
   }"

definition ulm_uibor :: "'r ulm_func" where
  "ulm_uibor inv0 inoutv pn = do {
     a \<leftarrow> as_unsigned_int inoutv;
     b \<leftarrow> as_unsigned_int inv0;
     map_option UInt (while_n (\<lambda>x y. Some (x OR y)) pn a b)
   }"

definition ulm_uiband :: "'r ulm_func" where
  "ulm_uiband inv0 inoutv pn = do {
     a \<leftarrow> as_unsigned_int inoutv;
     b \<leftarrow> as_unsigned_int inv0;
     map_option UInt (while_n (\<lambda>x y. Some (x AND y)) pn a b)
   }"

definition ulm_uibxor :: "'r ulm_func" where
  "ulm_uibxor inv0 inoutv pn = do {
     a \<leftarrow> as_unsigned_int inoutv;
     b \<leftarrow> as_unsigned_int inv0;
     map_option UInt (while_n (\<lambda>x y. Some (x XOR y)) pn a b)
   }"

definition ulm_uilor :: "'r ulm_func" where
  "ulm_uilor inv0 inoutv pn = do {
     a \<leftarrow> as_unsigned_int inoutv;
     b \<leftarrow> as_unsigned_int inv0;
     map_option UInt (while_n (\<lambda>x y. Some (ULM_LOR x y)) pn a b)
   }"

definition ulm_uiland :: "'r ulm_func" where
  "ulm_uiland inv0 inoutv pn = do {
     a \<leftarrow> as_unsigned_int inoutv;
     b \<leftarrow> as_unsigned_int inv0;
     map_option UInt (while_n (\<lambda>x y. Some (ULM_LAND x y)) pn a b)
   }"

definition ulm_uilxor :: "'r ulm_func" where
  "ulm_uilxor inv0 inoutv pn = do {
     a \<leftarrow> as_unsigned_int inoutv;
     b \<leftarrow> as_unsigned_int inv0;
     map_option UInt (while_n (\<lambda>x y. Some (ULM_LXOR x y)) pn a b)
   }"

text \<open>\<^verbatim>\<open>unsigned long\<close>\<close>

definition ulm_ulmax :: "'r ulm_func" where
  "ulm_ulmax inv0 inoutv pn = do {
     a \<leftarrow> as_unsigned_long inoutv;
     b \<leftarrow> as_unsigned_long inv0;
     map_option ULong (while_n (\<lambda>x y. Some (ULM_MAX ugt x y)) pn a b)
   }"

definition ulm_ulmin :: "'r ulm_func" where
  "ulm_ulmin inv0 inoutv pn = do {
     a \<leftarrow> as_unsigned_long inoutv;
     b \<leftarrow> as_unsigned_long inv0;
     map_option ULong (while_n (\<lambda>x y. Some (ULM_MIN ugt x y)) pn a b)
   }"

definition ulm_ulsum :: "'r ulm_func" where
  "ulm_ulsum inv0 inoutv pn = do {
     a \<leftarrow> as_unsigned_long inoutv;
     b \<leftarrow> as_unsigned_long inv0;
     map_option ULong (while_n (\<lambda>x y. Some (x + y)) pn a b)
   }"

definition ulm_ulprod :: "'r ulm_func" where
  "ulm_ulprod inv0 inoutv pn = do {
     a \<leftarrow> as_unsigned_long inoutv;
     b \<leftarrow> as_unsigned_long inv0;
     map_option ULong (while_n (\<lambda>x y. Some (x * y)) pn a b)
   }"

definition ulm_ulbor :: "'r ulm_func" where
  "ulm_ulbor inv0 inoutv pn = do {
     a \<leftarrow> as_unsigned_long inoutv;
     b \<leftarrow> as_unsigned_long inv0;
     map_option ULong (while_n (\<lambda>x y. Some (x OR y)) pn a b)
   }"

definition ulm_ulband :: "'r ulm_func" where
  "ulm_ulband inv0 inoutv pn = do {
     a \<leftarrow> as_unsigned_long inoutv;
     b \<leftarrow> as_unsigned_long inv0;
     map_option ULong (while_n (\<lambda>x y. Some (x AND y)) pn a b)
   }"

definition ulm_ulbxor :: "'r ulm_func" where
  "ulm_ulbxor inv0 inoutv pn = do {
     a \<leftarrow> as_unsigned_long inoutv;
     b \<leftarrow> as_unsigned_long inv0;
     map_option ULong (while_n (\<lambda>x y. Some (x XOR y)) pn a b)
   }"

definition ulm_ullor :: "'r ulm_func" where
  "ulm_ullor inv0 inoutv pn = do {
     a \<leftarrow> as_unsigned_long inoutv;
     b \<leftarrow> as_unsigned_long inv0;
     map_option ULong (while_n (\<lambda>x y. Some (ULM_LOR x y)) pn a b)
   }"

definition ulm_ulland :: "'r ulm_func" where
  "ulm_ulland inv0 inoutv pn = do {
     a \<leftarrow> as_unsigned_long inoutv;
     b \<leftarrow> as_unsigned_long inv0;
     map_option ULong (while_n (\<lambda>x y. Some (ULM_LAND x y)) pn a b)
   }"

definition ulm_ullxor :: "'r ulm_func" where
  "ulm_ullxor inv0 inoutv pn = do {
     a \<leftarrow> as_unsigned_long inoutv;
     b \<leftarrow> as_unsigned_long inv0;
     map_option ULong (while_n (\<lambda>x y. Some (ULM_LXOR x y)) pn a b)
   }"

text \<open>\<^verbatim>\<open>float\<close>\<close>

definition ulm_fmax :: "'r fpu \<Rightarrow> 'r ulm_func" where
  "ulm_fmax fpu inv0 inoutv pn = do {
     a \<leftarrow> as_float inoutv;
     b \<leftarrow> as_float inv0;
     map_option Float (while_n (\<lambda>x y. Some (ULM_MAX (fgt (float_ops fpu)) x y)) pn a b)
   }"

definition ulm_fmin :: "'r fpu \<Rightarrow> 'r ulm_func" where
  "ulm_fmin fpu inv0 inoutv pn = do {
     a \<leftarrow> as_float inoutv;
     b \<leftarrow> as_float inv0;
     map_option Float (while_n (\<lambda>x y. Some (ULM_MIN (fgt (float_ops fpu)) x y)) pn a b)
   }"

definition ulm_fsum :: "'r fpu \<Rightarrow> 'r ulm_func" where
  "ulm_fsum fpu inv0 inoutv pn = do {
     a \<leftarrow> as_float inoutv;
     b \<leftarrow> as_float inv0;
     map_option Float (while_n (\<lambda>x y. Some (fadd (float_ops fpu) x y)) pn a b)
   }"

definition ulm_fprod :: "'r fpu \<Rightarrow> 'r ulm_func" where
  "ulm_fprod fpu inv0 inoutv pn = do {
     a \<leftarrow> as_float inoutv;
     b \<leftarrow> as_float inv0;
     map_option Float (while_n (\<lambda>x y. Some (fmul (float_ops fpu) x y)) pn a b)
   }"

text \<open>\<^verbatim>\<open>double\<close>\<close>

definition ulm_dmax :: "'r fpu \<Rightarrow> 'r ulm_func" where
  "ulm_dmax fpu inv0 inoutv pn = do {
     a \<leftarrow> as_double inoutv;
     b \<leftarrow> as_double inv0;
     map_option Double (while_n (\<lambda>x y. Some (ULM_MAX (fgt (double_ops fpu)) x y)) pn a b)
   }"

definition ulm_dmin :: "'r fpu \<Rightarrow> 'r ulm_func" where
  "ulm_dmin fpu inv0 inoutv pn = do {
     a \<leftarrow> as_double inoutv;
     b \<leftarrow> as_double inv0;
     map_option Double (while_n (\<lambda>x y. Some (ULM_MIN (fgt (double_ops fpu)) x y)) pn a b)
   }"

definition ulm_dsum :: "'r fpu \<Rightarrow> 'r ulm_func" where
  "ulm_dsum fpu inv0 inoutv pn = do {
     a \<leftarrow> as_double inoutv;
     b \<leftarrow> as_double inv0;
     map_option Double (while_n (\<lambda>x y. Some (fadd (double_ops fpu) x y)) pn a b)
   }"

definition ulm_dprod :: "'r fpu \<Rightarrow> 'r ulm_func" where
  "ulm_dprod fpu inv0 inoutv pn = do {
     a \<leftarrow> as_double inoutv;
     b \<leftarrow> as_double inv0;
     map_option Double (while_n (\<lambda>x y. Some (fmul (double_ops fpu) x y)) pn a b)
   }"

text \<open>\<^verbatim>\<open>long double\<close>\<close>

definition ulm_qmax :: "'r fpu \<Rightarrow> 'r ulm_func" where
  "ulm_qmax fpu inv0 inoutv pn = do {
     a \<leftarrow> as_long_double inoutv;
     b \<leftarrow> as_long_double inv0;
     map_option LongDouble (while_n (\<lambda>x y. Some (ULM_MAX (fgt (long_double_ops fpu)) x y)) pn a b)
   }"

definition ulm_qmin :: "'r fpu \<Rightarrow> 'r ulm_func" where
  "ulm_qmin fpu inv0 inoutv pn = do {
     a \<leftarrow> as_long_double inoutv;
     b \<leftarrow> as_long_double inv0;
     map_option LongDouble (while_n (\<lambda>x y. Some (ULM_MIN (fgt (long_double_ops fpu)) x y)) pn a b)
   }"

definition ulm_qsum :: "'r fpu \<Rightarrow> 'r ulm_func" where
  "ulm_qsum fpu inv0 inoutv pn = do {
     a \<leftarrow> as_long_double inoutv;
     b \<leftarrow> as_long_double inv0;
     map_option LongDouble (while_n (\<lambda>x y. Some (fadd (long_double_ops fpu) x y)) pn a b)
   }"

definition ulm_qprod :: "'r fpu \<Rightarrow> 'r ulm_func" where
  "ulm_qprod fpu inv0 inoutv pn = do {
     a \<leftarrow> as_long_double inoutv;
     b \<leftarrow> as_long_double inv0;
     map_option LongDouble (while_n (\<lambda>x y. Some (fmul (long_double_ops fpu) x y)) pn a b)
   }"

text \<open>Complex numbers (for Fortran).\<close>

definition ulm_scsum :: "'r fpu \<Rightarrow> 'r ulm_func" where
  "ulm_scsum fpu inv0 inoutv pn = do {
     a \<leftarrow> as_scomplex inoutv;
     b \<leftarrow> as_scomplex inv0;
     map_option SComplex (for_i (complex_sum (float_ops fpu)) 0 pn a b)
   }"

definition ulm_scprod :: "'r fpu \<Rightarrow> 'r ulm_func" where
  "ulm_scprod fpu inv0 inoutv pn = do {
     a \<leftarrow> as_scomplex inoutv;
     b \<leftarrow> as_scomplex inv0;
     map_option SComplex (for_i (complex_prod (float_ops fpu)) 0 pn a b)
   }"

definition ulm_dcsum :: "'r fpu \<Rightarrow> 'r ulm_func" where
  "ulm_dcsum fpu inv0 inoutv pn = do {
     a \<leftarrow> as_dcomplex inoutv;
     b \<leftarrow> as_dcomplex inv0;
     map_option DComplex (for_i (complex_sum (double_ops fpu)) 0 pn a b)
   }"

definition ulm_dcprod :: "'r fpu \<Rightarrow> 'r ulm_func" where
  "ulm_dcprod fpu inv0 inoutv pn = do {
     a \<leftarrow> as_dcomplex inoutv;
     b \<leftarrow> as_dcomplex inv0;
     map_option DComplex (for_i (complex_prod (double_ops fpu)) 0 pn a b)
   }"

definition ulm_qcsum :: "'r fpu \<Rightarrow> 'r ulm_func" where
  "ulm_qcsum fpu inv0 inoutv pn = do {
     a \<leftarrow> as_qcomplex inoutv;
     b \<leftarrow> as_qcomplex inv0;
     map_option QComplex (for_i (complex_sum (long_double_ops fpu)) 0 pn a b)
   }"

definition ulm_qcprod :: "'r fpu \<Rightarrow> 'r ulm_func" where
  "ulm_qcprod fpu inv0 inoutv pn = do {
     a \<leftarrow> as_qcomplex inoutv;
     b \<leftarrow> as_qcomplex inv0;
     map_option QComplex (for_i (complex_prod (long_double_ops fpu)) 0 pn a b)
   }"

text \<open>\<^verbatim>\<open>maxloc\<close>\<close>

definition ulm_cmaxloc :: "'r ulm_func" where
  "ulm_cmaxloc inv0 inoutv pn = do {
     a \<leftarrow> as_char_int inoutv;
     b \<leftarrow> as_char_int inv0;
     map_option CharInt (for_i (maxloc_step (=) sgt sgt) 0 pn a b)
   }"

definition ulm_smaxloc :: "'r ulm_func" where
  "ulm_smaxloc inv0 inoutv pn = do {
     a \<leftarrow> as_short_int inoutv;
     b \<leftarrow> as_short_int inv0;
     map_option ShortInt (for_i (maxloc_step (=) sgt sgt) 0 pn a b)
   }"

definition ulm_imaxloc :: "'r ulm_func" where
  "ulm_imaxloc inv0 inoutv pn = do {
     a \<leftarrow> as_int_int inoutv;
     b \<leftarrow> as_int_int inv0;
     map_option IntInt (for_i (maxloc_step (=) sgt sgt) 0 pn a b)
   }"

definition ulm_lmaxloc :: "'r ulm_func" where
  "ulm_lmaxloc inv0 inoutv pn = do {
     a \<leftarrow> as_long_int inoutv;
     b \<leftarrow> as_long_int inv0;
     map_option LongInt (for_i (maxloc_step (=) sgt sgt) 0 pn a b)
   }"

definition ulm_ucmaxloc :: "'r ulm_func" where
  "ulm_ucmaxloc inv0 inoutv pn = do {
     a \<leftarrow> as_uchar_int inoutv;
     b \<leftarrow> as_uchar_int inv0;
     map_option UCharInt (for_i (maxloc_step (=) ugt sgt) 0 pn a b)
   }"

definition ulm_usmaxloc :: "'r ulm_func" where
  "ulm_usmaxloc inv0 inoutv pn = do {
     a \<leftarrow> as_ushort_int inoutv;
     b \<leftarrow> as_ushort_int inv0;
     map_option UShortInt (for_i (maxloc_step (=) ugt sgt) 0 pn a b)
   }"

definition ulm_uimaxloc :: "'r ulm_func" where
  "ulm_uimaxloc inv0 inoutv pn = do {
     a \<leftarrow> as_uint_int inoutv;
     b \<leftarrow> as_uint_int inv0;
     map_option UIntInt (for_i (maxloc_step (=) ugt sgt) 0 pn a b)
   }"

definition ulm_ulmaxloc :: "'r ulm_func" where
  "ulm_ulmaxloc inv0 inoutv pn = do {
     a \<leftarrow> as_ulong_int inoutv;
     b \<leftarrow> as_ulong_int inv0;
     map_option ULongInt (for_i (maxloc_step (=) ugt sgt) 0 pn a b)
   }"

definition ulm_fmaxloc :: "'r fpu \<Rightarrow> 'r ulm_func" where
  "ulm_fmaxloc fpu inv0 inoutv pn = do {
     a \<leftarrow> as_float_int inoutv;
     b \<leftarrow> as_float_int inv0;
     map_option FloatInt (for_i (maxloc_step (feq (float_ops fpu)) (fgt (float_ops fpu)) sgt) 0 pn a b)
   }"

definition ulm_dmaxloc :: "'r fpu \<Rightarrow> 'r ulm_func" where
  "ulm_dmaxloc fpu inv0 inoutv pn = do {
     a \<leftarrow> as_double_int inoutv;
     b \<leftarrow> as_double_int inv0;
     map_option DoubleInt (for_i (maxloc_step (feq (double_ops fpu)) (fgt (double_ops fpu)) sgt) 0 pn a b)
   }"

definition ulm_qmaxloc :: "'r fpu \<Rightarrow> 'r ulm_func" where
  "ulm_qmaxloc fpu inv0 inoutv pn = do {
     a \<leftarrow> as_ldouble_int inoutv;
     b \<leftarrow> as_ldouble_int inv0;
     map_option LDoubleInt (for_i (maxloc_step (feq (long_double_ops fpu)) (fgt (long_double_ops fpu)) sgt) 0 pn a b)
   }"

definition ulm_ffmaxloc :: "'r fpu \<Rightarrow> 'r ulm_func" where
  "ulm_ffmaxloc fpu inv0 inoutv pn = do {
     a \<leftarrow> as_float_float inoutv;
     b \<leftarrow> as_float_float inv0;
     map_option FloatFloat (for_i (maxloc_step (feq (float_ops fpu)) (fgt (float_ops fpu)) (fgt (float_ops fpu))) 0 pn a b)
   }"

definition ulm_ddmaxloc :: "'r fpu \<Rightarrow> 'r ulm_func" where
  "ulm_ddmaxloc fpu inv0 inoutv pn = do {
     a \<leftarrow> as_double_double inoutv;
     b \<leftarrow> as_double_double inv0;
     map_option DoubleDouble (for_i (maxloc_step (feq (double_ops fpu)) (fgt (double_ops fpu)) (fgt (double_ops fpu))) 0 pn a b)
   }"

definition ulm_qqmaxloc :: "'r fpu \<Rightarrow> 'r ulm_func" where
  "ulm_qqmaxloc fpu inv0 inoutv pn = do {
     a \<leftarrow> as_ldouble_ldouble inoutv;
     b \<leftarrow> as_ldouble_ldouble inv0;
     map_option LDoubleLDouble (for_i (maxloc_step (feq (long_double_ops fpu)) (fgt (long_double_ops fpu)) (fgt (long_double_ops fpu))) 0 pn a b)
   }"

text \<open>\<^verbatim>\<open>minloc\<close>\<close>

definition ulm_cminloc :: "'r ulm_func" where
  "ulm_cminloc inv0 inoutv pn = do {
     a \<leftarrow> as_char_int inoutv;
     b \<leftarrow> as_char_int inv0;
     map_option CharInt (for_i (minloc_step (=) sgt sgt) 0 pn a b)
   }"

definition ulm_sminloc :: "'r ulm_func" where
  "ulm_sminloc inv0 inoutv pn = do {
     a \<leftarrow> as_short_int inoutv;
     b \<leftarrow> as_short_int inv0;
     map_option ShortInt (for_i (minloc_step (=) sgt sgt) 0 pn a b)
   }"

definition ulm_iminloc :: "'r ulm_func" where
  "ulm_iminloc inv0 inoutv pn = do {
     a \<leftarrow> as_int_int inoutv;
     b \<leftarrow> as_int_int inv0;
     map_option IntInt (for_i (minloc_step (=) sgt sgt) 0 pn a b)
   }"

definition ulm_lminloc :: "'r ulm_func" where
  "ulm_lminloc inv0 inoutv pn = do {
     a \<leftarrow> as_long_int inoutv;
     b \<leftarrow> as_long_int inv0;
     map_option LongInt (for_i (minloc_step (=) sgt sgt) 0 pn a b)
   }"

definition ulm_ucminloc :: "'r ulm_func" where
  "ulm_ucminloc inv0 inoutv pn = do {
     a \<leftarrow> as_uchar_int inoutv;
     b \<leftarrow> as_uchar_int inv0;
     map_option UCharInt (for_i (minloc_step (=) ugt sgt) 0 pn a b)
   }"

definition ulm_usminloc :: "'r ulm_func" where
  "ulm_usminloc inv0 inoutv pn = do {
     a \<leftarrow> as_ushort_int inoutv;
     b \<leftarrow> as_ushort_int inv0;
     map_option UShortInt (for_i (minloc_step (=) ugt sgt) 0 pn a b)
   }"

definition ulm_uiminloc :: "'r ulm_func" where
  "ulm_uiminloc inv0 inoutv pn = do {
     a \<leftarrow> as_uint_int inoutv;
     b \<leftarrow> as_uint_int inv0;
     map_option UIntInt (for_i (minloc_step (=) ugt sgt) 0 pn a b)
   }"

definition ulm_ulminloc :: "'r ulm_func" where
  "ulm_ulminloc inv0 inoutv pn = do {
     a \<leftarrow> as_ulong_int inoutv;
     b \<leftarrow> as_ulong_int inv0;
     map_option ULongInt (for_i (minloc_step (=) ugt sgt) 0 pn a b)
   }"

definition ulm_fminloc :: "'r fpu \<Rightarrow> 'r ulm_func" where
  "ulm_fminloc fpu inv0 inoutv pn = do {
     a \<leftarrow> as_float_int inoutv;
     b \<leftarrow> as_float_int inv0;
     map_option FloatInt (for_i (minloc_step (feq (float_ops fpu)) (fgt (float_ops fpu)) sgt) 0 pn a b)
   }"

definition ulm_dminloc :: "'r fpu \<Rightarrow> 'r ulm_func" where
  "ulm_dminloc fpu inv0 inoutv pn = do {
     a \<leftarrow> as_double_int inoutv;
     b \<leftarrow> as_double_int inv0;
     map_option DoubleInt (for_i (minloc_step (feq (double_ops fpu)) (fgt (double_ops fpu)) sgt) 0 pn a b)
   }"

definition ulm_qminloc :: "'r fpu \<Rightarrow> 'r ulm_func" where
  "ulm_qminloc fpu inv0 inoutv pn = do {
     a \<leftarrow> as_ldouble_int inoutv;
     b \<leftarrow> as_ldouble_int inv0;
     map_option LDoubleInt (for_i (minloc_step (feq (long_double_ops fpu)) (fgt (long_double_ops fpu)) sgt) 0 pn a b)
   }"

definition ulm_ffminloc :: "'r fpu \<Rightarrow> 'r ulm_func" where
  "ulm_ffminloc fpu inv0 inoutv pn = do {
     a \<leftarrow> as_float_float inoutv;
     b \<leftarrow> as_float_float inv0;
     map_option FloatFloat (for_i (minloc_step (feq (float_ops fpu)) (fgt (float_ops fpu)) (fgt (float_ops fpu))) 0 pn a b)
   }"

definition ulm_ddminloc :: "'r fpu \<Rightarrow> 'r ulm_func" where
  "ulm_ddminloc fpu inv0 inoutv pn = do {
     a \<leftarrow> as_double_double inoutv;
     b \<leftarrow> as_double_double inv0;
     map_option DoubleDouble (for_i (minloc_step (feq (double_ops fpu)) (fgt (double_ops fpu)) (fgt (double_ops fpu))) 0 pn a b)
   }"

definition ulm_qqminloc :: "'r fpu \<Rightarrow> 'r ulm_func" where
  "ulm_qqminloc fpu inv0 inoutv pn = do {
     a \<leftarrow> as_ldouble_ldouble inoutv;
     b \<leftarrow> as_ldouble_ldouble inv0;
     map_option LDoubleLDouble (for_i (minloc_step (feq (long_double_ops fpu)) (fgt (long_double_ops fpu)) (fgt (long_double_ops fpu))) 0 pn a b)
   }"

text \<open>\<^verbatim>\<open>long long\<close>\<close>

definition ulm_llmax :: "'r ulm_func" where
  "ulm_llmax inv0 inoutv pn = do {
     a \<leftarrow> as_long_long inoutv;
     b \<leftarrow> as_long_long inv0;
     map_option LongLong (while_n (\<lambda>x y. Some (ULM_MAX sgt x y)) pn a b)
   }"

definition ulm_llmin :: "'r ulm_func" where
  "ulm_llmin inv0 inoutv pn = do {
     a \<leftarrow> as_long_long inoutv;
     b \<leftarrow> as_long_long inv0;
     map_option LongLong (while_n (\<lambda>x y. Some (ULM_MIN sgt x y)) pn a b)
   }"

definition ulm_llsum :: "'r ulm_func" where
  "ulm_llsum inv0 inoutv pn = do {
     a \<leftarrow> as_long_long inoutv;
     b \<leftarrow> as_long_long inv0;
     map_option LongLong (while_n (\<lambda>x y. checked (sint x + sint y)) pn a b)
   }"

definition ulm_llprod :: "'r ulm_func" where
  "ulm_llprod inv0 inoutv pn = do {
     a \<leftarrow> as_long_long inoutv;
     b \<leftarrow> as_long_long inv0;
     map_option LongLong (while_n (\<lambda>x y. checked (sint x * sint y)) pn a b)
   }"

definition ulm_llbor :: "'r ulm_func" where
  "ulm_llbor inv0 inoutv pn = do {
     a \<leftarrow> as_long_long inoutv;
     b \<leftarrow> as_long_long inv0;
     map_option LongLong (while_n (\<lambda>x y. Some (x OR y)) pn a b)
   }"

definition ulm_llband :: "'r ulm_func" where
  "ulm_llband inv0 inoutv pn = do {
     a \<leftarrow> as_long_long inoutv;
     b \<leftarrow> as_long_long inv0;
     map_option LongLong (while_n (\<lambda>x y. Some (x AND y)) pn a b)
   }"

definition ulm_llbxor :: "'r ulm_func" where
  "ulm_llbxor inv0 inoutv pn = do {
     a \<leftarrow> as_long_long inoutv;
     b \<leftarrow> as_long_long inv0;
     map_option LongLong (while_n (\<lambda>x y. Some (x XOR y)) pn a b)
   }"

definition ulm_lllor :: "'r ulm_func" where
  "ulm_lllor inv0 inoutv pn = do {
     a \<leftarrow> as_long_long inoutv;
     b \<leftarrow> as_long_long inv0;
     map_option LongLong (while_n (\<lambda>x y. Some (ULM_LOR x y)) pn a b)
   }"

definition ulm_llland :: "'r ulm_func" where
  "ulm_llland inv0 inoutv pn = do {
     a \<leftarrow> as_long_long inoutv;
     b \<leftarrow> as_long_long inv0;
     map_option LongLong (while_n (\<lambda>x y. Some (ULM_LAND x y)) pn a b)
   }"

definition ulm_lllxor :: "'r ulm_func" where
  "ulm_lllxor inv0 inoutv pn = do {
     a \<leftarrow> as_long_long inoutv;
     b \<leftarrow> as_long_long inv0;
     map_option LongLong (while_n (\<lambda>x y. Some (ULM_LXOR x y)) pn a b)
   }"

lemmas cast_defs =
  as_char_def as_short_def as_int_def as_long_def as_unsigned_char_def as_unsigned_short_def
  as_unsigned_int_def as_unsigned_long_def as_long_long_def as_float_def as_double_def
  as_long_double_def as_scomplex_def as_dcomplex_def as_qcomplex_def as_char_int_def as_short_int_def
  as_int_int_def as_long_int_def as_uchar_int_def as_ushort_int_def as_uint_int_def as_ulong_int_def
  as_float_int_def as_double_int_def as_ldouble_int_def as_float_float_def as_double_double_def
  as_ldouble_ldouble_def

lemmas ulm_func_defs =
  ulm_null_def ulm_cmax_def ulm_cmin_def ulm_csum_def ulm_cprod_def ulm_cbor_def ulm_cband_def
  ulm_cbxor_def ulm_clor_def ulm_cland_def ulm_clxor_def ulm_smax_def ulm_smin_def ulm_ssum_def
  ulm_sprod_def ulm_sbor_def ulm_sband_def ulm_sbxor_def ulm_slor_def ulm_sland_def ulm_slxor_def
  ulm_imax_def ulm_imin_def ulm_isum_def ulm_iprod_def ulm_ibor_def ulm_iband_def ulm_ibxor_def
  ulm_ilor_def ulm_iland_def ulm_ilxor_def ulm_lmax_def ulm_lmin_def ulm_lsum_def ulm_lprod_def
  ulm_lbor_def ulm_lband_def ulm_lbxor_def ulm_llor_def ulm_lland_def ulm_llxor_def ulm_ucmax_def
  ulm_ucmin_def ulm_ucsum_def ulm_ucprod_def ulm_ucbor_def ulm_ucband_def ulm_ucbxor_def ulm_uclor_def
  ulm_ucland_def ulm_uclxor_def ulm_usmax_def ulm_usmin_def ulm_ussum_def ulm_usprod_def ulm_usbor_def
  ulm_usband_def ulm_usbxor_def ulm_uslor_def ulm_usland_def ulm_uslxor_def ulm_uimax_def
  ulm_uimin_def ulm_uisum_def ulm_uiprod_def ulm_uibor_def ulm_uiband_def ulm_uibxor_def ulm_uilor_def
  ulm_uiland_def ulm_uilxor_def ulm_ulmax_def ulm_ulmin_def ulm_ulsum_def ulm_ulprod_def ulm_ulbor_def
  ulm_ulband_def ulm_ulbxor_def ulm_ullor_def ulm_ulland_def ulm_ullxor_def ulm_fmax_def ulm_fmin_def
  ulm_fsum_def ulm_fprod_def ulm_dmax_def ulm_dmin_def ulm_dsum_def ulm_dprod_def ulm_qmax_def
  ulm_qmin_def ulm_qsum_def ulm_qprod_def ulm_scsum_def ulm_scprod_def ulm_dcsum_def ulm_dcprod_def
  ulm_qcsum_def ulm_qcprod_def ulm_cmaxloc_def ulm_smaxloc_def ulm_imaxloc_def ulm_lmaxloc_def
  ulm_ucmaxloc_def ulm_usmaxloc_def ulm_uimaxloc_def ulm_ulmaxloc_def ulm_fmaxloc_def ulm_dmaxloc_def
  ulm_qmaxloc_def ulm_ffmaxloc_def ulm_ddmaxloc_def ulm_qqmaxloc_def ulm_cminloc_def ulm_sminloc_def
  ulm_iminloc_def ulm_lminloc_def ulm_ucminloc_def ulm_usminloc_def ulm_uiminloc_def ulm_ulminloc_def
  ulm_fminloc_def ulm_dminloc_def ulm_qminloc_def ulm_ffminloc_def ulm_ddminloc_def ulm_qqminloc_def
  ulm_llmax_def ulm_llmin_def ulm_llsum_def ulm_llprod_def ulm_llbor_def ulm_llband_def ulm_llbxor_def
  ulm_lllor_def ulm_llland_def ulm_lllxor_def

end
