(* ===== verification/Reduction_Table.thy ===== *)
theory Reduction_Table
  imports Reduction Ptr_Table Datatype_Basic
begin

section \<open>Reduction operations (\<^verbatim>\<open>mpi/internal/mpi_op.c\<close>, \<^verbatim>\<open>mpi/c/mpi_op_create.c\<close>, \<^verbatim>\<open>mpi/c/mpi_op_free.c\<close>)\<close>

text \<open>
  The tables of the twelve predefined operations, the choice of the function for an operation and a
  datatype, and the user-defined operations: their creation and their deferred release through the table
  of freeable pointers. The storage is one memory of cells: an \<^verbatim>\<open>ULMOp_t\<close> structure or an array of function
  pointers, whose elements are \<open>None\<close> until they are written. The static structures \<^verbatim>\<open>ULM_MAX\<close>, ...,
  \<^verbatim>\<open>ULM_LXOR\<close> have the addresses below \<open>NUMBER_OF_OPS\<close>.
\<close>

subsection \<open>State\<close>

abbreviation (input) MPI_CHAR_OP_INDEX :: int where "MPI_CHAR_OP_INDEX \<equiv> 0"
abbreviation (input) MPI_SHORT_OP_INDEX :: int where "MPI_SHORT_OP_INDEX \<equiv> 1"
abbreviation (input) MPI_INT_OP_INDEX :: int where "MPI_INT_OP_INDEX \<equiv> 2"
abbreviation (input) MPI_LONG_OP_INDEX :: int where "MPI_LONG_OP_INDEX \<equiv> 3"
abbreviation (input) MPI_UNSIGNED_CHAR_OP_INDEX :: int where "MPI_UNSIGNED_CHAR_OP_INDEX \<equiv> 4"
abbreviation (input) MPI_UNSIGNED_SHORT_OP_INDEX :: int where "MPI_UNSIGNED_SHORT_OP_INDEX \<equiv> 5"
abbreviation (input) MPI_UNSIGNED_OP_INDEX :: int where "MPI_UNSIGNED_OP_INDEX \<equiv> 6"
abbreviation (input) MPI_UNSIGNED_LONG_OP_INDEX :: int where "MPI_UNSIGNED_LONG_OP_INDEX \<equiv> 7"
abbreviation (input) MPI_FLOAT_OP_INDEX :: int where "MPI_FLOAT_OP_INDEX \<equiv> 8"
abbreviation (input) MPI_DOUBLE_OP_INDEX :: int where "MPI_DOUBLE_OP_INDEX \<equiv> 9"
abbreviation (input) MPI_LONG_DOUBLE_OP_INDEX :: int where "MPI_LONG_DOUBLE_OP_INDEX \<equiv> 10"
abbreviation (input) MPI_PACKED_OP_INDEX :: int where "MPI_PACKED_OP_INDEX \<equiv> 11"
abbreviation (input) MPI_BYTE_OP_INDEX :: int where "MPI_BYTE_OP_INDEX \<equiv> 12"
abbreviation (input) MPI_LONG_LONG_OP_INDEX :: int where "MPI_LONG_LONG_OP_INDEX \<equiv> 13"
abbreviation (input) MPI_FLOAT_INT_OP_INDEX :: int where "MPI_FLOAT_INT_OP_INDEX \<equiv> 14"
abbreviation (input) MPI_DOUBLE_INT_OP_INDEX :: int where "MPI_DOUBLE_INT_OP_INDEX \<equiv> 15"
abbreviation (input) MPI_LONG_INT_OP_INDEX :: int where "MPI_LONG_INT_OP_INDEX \<equiv> 16"
abbreviation (input) MPI_2INT_OP_INDEX :: int where "MPI_2INT_OP_INDEX \<equiv> 17"
abbreviation (input) MPI_SHORT_INT_OP_INDEX :: int where "MPI_SHORT_INT_OP_INDEX \<equiv> 18"
abbreviation (input) MPI_LONG_DOUBLE_INT_OP_INDEX :: int where "MPI_LONG_DOUBLE_INT_OP_INDEX \<equiv> 19"
abbreviation (input) MPI_2INTEGER_OP_INDEX :: int where "MPI_2INTEGER_OP_INDEX \<equiv> 20"
abbreviation (input) MPI_2REAL_OP_INDEX :: int where "MPI_2REAL_OP_INDEX \<equiv> 21"
abbreviation (input) MPI_2DOUBLE_PRECISION_OP_INDEX :: int where "MPI_2DOUBLE_PRECISION_OP_INDEX \<equiv> 22"
abbreviation (input) MPI_SCOMPLEX_OP_INDEX :: int where "MPI_SCOMPLEX_OP_INDEX \<equiv> 23"
abbreviation (input) MPI_DCOMPLEX_OP_INDEX :: int where "MPI_DCOMPLEX_OP_INDEX \<equiv> 24"
abbreviation (input) MPI_QCOMPLEX_OP_INDEX :: int where "MPI_QCOMPLEX_OP_INDEX \<equiv> 25"
abbreviation (input) NUMBER_OF_BASIC_TYPES :: nat where "NUMBER_OF_BASIC_TYPES \<equiv> 26"

datatype op_kind = OP_MAX | OP_MIN | OP_SUM | OP_PROD | OP_MAXLOC | OP_MINLOC | OP_BAND | OP_BOR | OP_BXOR | OP_LAND | OP_LOR | OP_LXOR

abbreviation (input) NUMBER_OF_OPS :: nat where "NUMBER_OF_OPS \<equiv> 12"

primrec op_addr :: "op_kind \<Rightarrow> nat" where
  "op_addr OP_MAX = 0"
| "op_addr OP_MIN = 1"
| "op_addr OP_SUM = 2"
| "op_addr OP_PROD = 3"
| "op_addr OP_MAXLOC = 4"
| "op_addr OP_MINLOC = 5"
| "op_addr OP_BAND = 6"
| "op_addr OP_BOR = 7"
| "op_addr OP_BXOR = 8"
| "op_addr OP_LAND = 9"
| "op_addr OP_LOR = 10"
| "op_addr OP_LXOR = 11"

record ulm_op =
  op_func :: "nat option"
  op_isbasic :: int
  op_commute :: int
  op_fortran :: int
  op_fhandle :: int

datatype 'r op_cell = OpCell ulm_op | FuncCell "'r ulm_func option list"

record 'r op_state =
  os_mem :: "nat \<Rightarrow> 'r op_cell option"
  os_next :: nat
  os_junk :: ulm_op
  os_allocs :: "bool list"
  os_free_table :: "nat ptr_table"
  os_threads :: bool
  os_errs :: "(int \<times> int) list"

definition read_op :: "'r op_state \<Rightarrow> nat \<Rightarrow> ulm_op option" where
  "read_op s p = (case os_mem s p of Some (OpCell u) \<Rightarrow> Some u | _ \<Rightarrow> None)"

definition read_funcs :: "'r op_state \<Rightarrow> nat \<Rightarrow> 'r ulm_func option list option" where
  "read_funcs s p = (case os_mem s p of Some (FuncCell fs) \<Rightarrow> Some fs | _ \<Rightarrow> None)"

definition write_cell :: "nat \<Rightarrow> 'r op_cell \<Rightarrow> 'r op_state \<Rightarrow> 'r op_state" where
  "write_cell p c s = s\<lparr>os_mem := (os_mem s)(p \<mapsto> c)\<rparr>"

text \<open>\<^verbatim>\<open>ulm_malloc\<close>, with the contents of the new block; \<^verbatim>\<open>ulm_free\<close> of a block that is not allocated
  is undefined.\<close>

definition next_alloc :: "'r op_state \<Rightarrow> bool \<times> 'r op_state" where
  "next_alloc s = (case os_allocs s of [] \<Rightarrow> (True, s) | ok # oks \<Rightarrow> (ok, s\<lparr>os_allocs := oks\<rparr>))"

definition malloc_cell :: "'r op_cell \<Rightarrow> 'r op_state \<Rightarrow> nat option \<times> 'r op_state" where
  "malloc_cell c s = (case next_alloc s of
     (True, s1) \<Rightarrow> (Some (os_next s1), (write_cell (os_next s1) c s1)\<lparr>os_next := Suc (os_next s1)\<rparr>)
   | (False, s1) \<Rightarrow> (None, s1))"

definition ulm_free_cell :: "nat \<Rightarrow> 'r op_state \<Rightarrow> 'r op_state option" where
  "ulm_free_cell p s =
     (if p < NUMBER_OF_OPS \<or> os_mem s p = None then None
      else Some (s\<lparr>os_mem := (os_mem s)(p := None)\<rparr>))"

definition op_errhandler :: "int \<Rightarrow> 'r op_state \<Rightarrow> 'r op_state" where
  "op_errhandler rc s = s\<lparr>os_errs := os_errs s @ [(MPI_COMM_WORLD, rc)]\<rparr>"

subsection \<open>The predefined operations\<close>

text \<open>The assignments to each table, in the order of the code.\<close>

definition max_entries :: "'r fpu \<Rightarrow> (int \<times> 'r ulm_func) list" where
  "max_entries fpu =
     [(MPI_CHAR_OP_INDEX, ulm_cmax), (MPI_SHORT_OP_INDEX, ulm_smax),
      (MPI_INT_OP_INDEX, ulm_imax), (MPI_LONG_OP_INDEX, ulm_lmax),
      (MPI_UNSIGNED_CHAR_OP_INDEX, ulm_ucmax), (MPI_UNSIGNED_SHORT_OP_INDEX, ulm_usmax),
      (MPI_UNSIGNED_OP_INDEX, ulm_uimax), (MPI_UNSIGNED_LONG_OP_INDEX, ulm_ulmax),
      (MPI_FLOAT_OP_INDEX, ulm_fmax fpu), (MPI_DOUBLE_OP_INDEX, ulm_dmax fpu),
      (MPI_LONG_DOUBLE_OP_INDEX, ulm_qmax fpu), (MPI_PACKED_OP_INDEX, ulm_null),
      (MPI_BYTE_OP_INDEX, ulm_cmax), (MPI_LONG_LONG_OP_INDEX, ulm_llmax),
      (MPI_FLOAT_INT_OP_INDEX, ulm_null), (MPI_DOUBLE_INT_OP_INDEX, ulm_null),
      (MPI_LONG_INT_OP_INDEX, ulm_null), (MPI_2INT_OP_INDEX, ulm_null),
      (MPI_SHORT_INT_OP_INDEX, ulm_null), (MPI_LONG_DOUBLE_INT_OP_INDEX, ulm_null),
      (MPI_2INTEGER_OP_INDEX, ulm_null), (MPI_2REAL_OP_INDEX, ulm_null),
      (MPI_2DOUBLE_PRECISION_OP_INDEX, ulm_null), (MPI_SCOMPLEX_OP_INDEX, ulm_null),
      (MPI_DCOMPLEX_OP_INDEX, ulm_null), (MPI_QCOMPLEX_OP_INDEX, ulm_null)]"

definition min_entries :: "'r fpu \<Rightarrow> (int \<times> 'r ulm_func) list" where
  "min_entries fpu =
     [(MPI_CHAR_OP_INDEX, ulm_cmin), (MPI_SHORT_OP_INDEX, ulm_smin),
      (MPI_INT_OP_INDEX, ulm_imin), (MPI_LONG_OP_INDEX, ulm_lmin),
      (MPI_UNSIGNED_CHAR_OP_INDEX, ulm_ucmin), (MPI_UNSIGNED_SHORT_OP_INDEX, ulm_usmin),
      (MPI_UNSIGNED_OP_INDEX, ulm_uimin), (MPI_UNSIGNED_LONG_OP_INDEX, ulm_ulmin),
      (MPI_FLOAT_OP_INDEX, ulm_fmin fpu), (MPI_DOUBLE_OP_INDEX, ulm_dmin fpu),
      (MPI_LONG_DOUBLE_OP_INDEX, ulm_qmin fpu), (MPI_PACKED_OP_INDEX, ulm_null),
      (MPI_BYTE_OP_INDEX, ulm_cmin), (MPI_LONG_LONG_OP_INDEX, ulm_llmin),
      (MPI_FLOAT_INT_OP_INDEX, ulm_null), (MPI_DOUBLE_INT_OP_INDEX, ulm_null),
      (MPI_LONG_INT_OP_INDEX, ulm_null), (MPI_2INT_OP_INDEX, ulm_null),
      (MPI_SHORT_INT_OP_INDEX, ulm_null), (MPI_LONG_DOUBLE_INT_OP_INDEX, ulm_null),
      (MPI_LONG_DOUBLE_INT_OP_INDEX, ulm_null), (MPI_2INTEGER_OP_INDEX, ulm_null),
      (MPI_2REAL_OP_INDEX, ulm_null), (MPI_2DOUBLE_PRECISION_OP_INDEX, ulm_null),
      (MPI_SCOMPLEX_OP_INDEX, ulm_null), (MPI_DCOMPLEX_OP_INDEX, ulm_null),
      (MPI_QCOMPLEX_OP_INDEX, ulm_null)]"

definition sum_entries :: "'r fpu \<Rightarrow> (int \<times> 'r ulm_func) list" where
  "sum_entries fpu =
     [(MPI_CHAR_OP_INDEX, ulm_csum), (MPI_SHORT_OP_INDEX, ulm_ssum),
      (MPI_INT_OP_INDEX, ulm_isum), (MPI_LONG_OP_INDEX, ulm_lsum),
      (MPI_UNSIGNED_CHAR_OP_INDEX, ulm_ucsum), (MPI_UNSIGNED_SHORT_OP_INDEX, ulm_ussum),
      (MPI_UNSIGNED_OP_INDEX, ulm_uisum), (MPI_UNSIGNED_LONG_OP_INDEX, ulm_ulsum),
      (MPI_FLOAT_OP_INDEX, ulm_fsum fpu), (MPI_DOUBLE_OP_INDEX, ulm_dsum fpu),
      (MPI_LONG_DOUBLE_OP_INDEX, ulm_qsum fpu), (MPI_PACKED_OP_INDEX, ulm_null),
      (MPI_BYTE_OP_INDEX, ulm_csum), (MPI_LONG_LONG_OP_INDEX, ulm_llsum),
      (MPI_FLOAT_INT_OP_INDEX, ulm_null), (MPI_DOUBLE_INT_OP_INDEX, ulm_null),
      (MPI_LONG_INT_OP_INDEX, ulm_null), (MPI_2INT_OP_INDEX, ulm_null),
      (MPI_SHORT_INT_OP_INDEX, ulm_null), (MPI_LONG_DOUBLE_INT_OP_INDEX, ulm_null),
      (MPI_2INTEGER_OP_INDEX, ulm_null), (MPI_2REAL_OP_INDEX, ulm_null),
      (MPI_2DOUBLE_PRECISION_OP_INDEX, ulm_null), (MPI_SCOMPLEX_OP_INDEX, ulm_scsum fpu),
      (MPI_DCOMPLEX_OP_INDEX, ulm_dcsum fpu), (MPI_QCOMPLEX_OP_INDEX, ulm_qcsum fpu)]"

definition prod_entries :: "'r fpu \<Rightarrow> (int \<times> 'r ulm_func) list" where
  "prod_entries fpu =
     [(MPI_CHAR_OP_INDEX, ulm_cprod), (MPI_SHORT_OP_INDEX, ulm_sprod),
      (MPI_INT_OP_INDEX, ulm_iprod), (MPI_LONG_OP_INDEX, ulm_lprod),
      (MPI_UNSIGNED_CHAR_OP_INDEX, ulm_ucprod), (MPI_UNSIGNED_SHORT_OP_INDEX, ulm_usprod),
      (MPI_UNSIGNED_OP_INDEX, ulm_uiprod), (MPI_UNSIGNED_LONG_OP_INDEX, ulm_ulprod),
      (MPI_FLOAT_OP_INDEX, ulm_fprod fpu), (MPI_DOUBLE_OP_INDEX, ulm_dprod fpu),
      (MPI_LONG_DOUBLE_OP_INDEX, ulm_qprod fpu), (MPI_PACKED_OP_INDEX, ulm_null),
      (MPI_BYTE_OP_INDEX, ulm_cprod), (MPI_LONG_LONG_OP_INDEX, ulm_llprod),
      (MPI_FLOAT_INT_OP_INDEX, ulm_null), (MPI_DOUBLE_INT_OP_INDEX, ulm_null),
      (MPI_LONG_INT_OP_INDEX, ulm_null), (MPI_2INT_OP_INDEX, ulm_null),
      (MPI_SHORT_INT_OP_INDEX, ulm_null), (MPI_LONG_DOUBLE_INT_OP_INDEX, ulm_null),
      (MPI_2INTEGER_OP_INDEX, ulm_null), (MPI_2REAL_OP_INDEX, ulm_null),
      (MPI_2DOUBLE_PRECISION_OP_INDEX, ulm_null), (MPI_SCOMPLEX_OP_INDEX, ulm_scprod fpu),
      (MPI_DCOMPLEX_OP_INDEX, ulm_dcprod fpu), (MPI_QCOMPLEX_OP_INDEX, ulm_qcprod fpu)]"

definition maxloc_entries :: "'r fpu \<Rightarrow> (int \<times> 'r ulm_func) list" where
  "maxloc_entries fpu =
     [(MPI_CHAR_OP_INDEX, ulm_null), (MPI_SHORT_OP_INDEX, ulm_null),
      (MPI_INT_OP_INDEX, ulm_null), (MPI_LONG_OP_INDEX, ulm_null),
      (MPI_UNSIGNED_CHAR_OP_INDEX, ulm_null), (MPI_UNSIGNED_SHORT_OP_INDEX, ulm_null),
      (MPI_UNSIGNED_OP_INDEX, ulm_null), (MPI_UNSIGNED_LONG_OP_INDEX, ulm_null),
      (MPI_FLOAT_OP_INDEX, ulm_null), (MPI_DOUBLE_OP_INDEX, ulm_null),
      (MPI_LONG_DOUBLE_OP_INDEX, ulm_null), (MPI_PACKED_OP_INDEX, ulm_null),
      (MPI_BYTE_OP_INDEX, ulm_null), (MPI_LONG_LONG_OP_INDEX, ulm_null),
      (MPI_FLOAT_INT_OP_INDEX, ulm_fmaxloc fpu), (MPI_DOUBLE_INT_OP_INDEX, ulm_dmaxloc fpu),
      (MPI_LONG_INT_OP_INDEX, ulm_lmaxloc), (MPI_2INT_OP_INDEX, ulm_imaxloc),
      (MPI_SHORT_INT_OP_INDEX, ulm_smaxloc), (MPI_LONG_DOUBLE_INT_OP_INDEX, ulm_qmaxloc fpu),
      (MPI_2INTEGER_OP_INDEX, ulm_imaxloc), (MPI_2REAL_OP_INDEX, ulm_ffmaxloc fpu),
      (MPI_2DOUBLE_PRECISION_OP_INDEX, ulm_ddmaxloc fpu), (MPI_SCOMPLEX_OP_INDEX, ulm_null),
      (MPI_DCOMPLEX_OP_INDEX, ulm_null), (MPI_QCOMPLEX_OP_INDEX, ulm_null)]"

definition minloc_entries :: "'r fpu \<Rightarrow> (int \<times> 'r ulm_func) list" where
  "minloc_entries fpu =
     [(MPI_CHAR_OP_INDEX, ulm_null), (MPI_SHORT_OP_INDEX, ulm_null),
      (MPI_INT_OP_INDEX, ulm_null), (MPI_LONG_OP_INDEX, ulm_null),
      (MPI_UNSIGNED_CHAR_OP_INDEX, ulm_null), (MPI_UNSIGNED_SHORT_OP_INDEX, ulm_null),
      (MPI_UNSIGNED_OP_INDEX, ulm_null), (MPI_UNSIGNED_LONG_OP_INDEX, ulm_null),
      (MPI_FLOAT_OP_INDEX, ulm_null), (MPI_DOUBLE_OP_INDEX, ulm_null),
      (MPI_LONG_DOUBLE_OP_INDEX, ulm_null), (MPI_PACKED_OP_INDEX, ulm_null),
      (MPI_BYTE_OP_INDEX, ulm_null), (MPI_LONG_LONG_OP_INDEX, ulm_null),
      (MPI_FLOAT_INT_OP_INDEX, ulm_fminloc fpu), (MPI_DOUBLE_INT_OP_INDEX, ulm_dminloc fpu),
      (MPI_LONG_INT_OP_INDEX, ulm_lminloc), (MPI_2INT_OP_INDEX, ulm_iminloc),
      (MPI_SHORT_INT_OP_INDEX, ulm_sminloc), (MPI_LONG_DOUBLE_INT_OP_INDEX, ulm_qminloc fpu),
      (MPI_2INTEGER_OP_INDEX, ulm_iminloc), (MPI_2REAL_OP_INDEX, ulm_ffminloc fpu),
      (MPI_2DOUBLE_PRECISION_OP_INDEX, ulm_ddminloc fpu), (MPI_SCOMPLEX_OP_INDEX, ulm_null),
      (MPI_DCOMPLEX_OP_INDEX, ulm_null), (MPI_QCOMPLEX_OP_INDEX, ulm_null)]"

definition band_entries :: "'r fpu \<Rightarrow> (int \<times> 'r ulm_func) list" where
  "band_entries fpu =
     [(MPI_CHAR_OP_INDEX, ulm_cband), (MPI_SHORT_OP_INDEX, ulm_sband),
      (MPI_INT_OP_INDEX, ulm_iband), (MPI_LONG_OP_INDEX, ulm_lband),
      (MPI_UNSIGNED_CHAR_OP_INDEX, ulm_ucband), (MPI_UNSIGNED_SHORT_OP_INDEX, ulm_usband),
      (MPI_UNSIGNED_OP_INDEX, ulm_uiband), (MPI_UNSIGNED_LONG_OP_INDEX, ulm_ulband),
      (MPI_FLOAT_OP_INDEX, ulm_null), (MPI_DOUBLE_OP_INDEX, ulm_null),
      (MPI_LONG_DOUBLE_OP_INDEX, ulm_null), (MPI_PACKED_OP_INDEX, ulm_null),
      (MPI_BYTE_OP_INDEX, ulm_cband), (MPI_LONG_LONG_OP_INDEX, ulm_llband),
      (MPI_FLOAT_INT_OP_INDEX, ulm_null), (MPI_DOUBLE_INT_OP_INDEX, ulm_null),
      (MPI_LONG_INT_OP_INDEX, ulm_null), (MPI_2INT_OP_INDEX, ulm_null),
      (MPI_SHORT_INT_OP_INDEX, ulm_null), (MPI_LONG_DOUBLE_INT_OP_INDEX, ulm_null),
      (MPI_2INTEGER_OP_INDEX, ulm_null), (MPI_2REAL_OP_INDEX, ulm_null),
      (MPI_2DOUBLE_PRECISION_OP_INDEX, ulm_null), (MPI_SCOMPLEX_OP_INDEX, ulm_null),
      (MPI_DCOMPLEX_OP_INDEX, ulm_null), (MPI_QCOMPLEX_OP_INDEX, ulm_null)]"

definition bor_entries :: "'r fpu \<Rightarrow> (int \<times> 'r ulm_func) list" where
  "bor_entries fpu =
     [(MPI_CHAR_OP_INDEX, ulm_cbor), (MPI_SHORT_OP_INDEX, ulm_sbor),
      (MPI_INT_OP_INDEX, ulm_ibor), (MPI_LONG_OP_INDEX, ulm_lbor),
      (MPI_UNSIGNED_CHAR_OP_INDEX, ulm_ucbor), (MPI_UNSIGNED_SHORT_OP_INDEX, ulm_usbor),
      (MPI_UNSIGNED_OP_INDEX, ulm_uibor), (MPI_UNSIGNED_LONG_OP_INDEX, ulm_ulbor),
      (MPI_FLOAT_OP_INDEX, ulm_null), (MPI_DOUBLE_OP_INDEX, ulm_null),
      (MPI_LONG_DOUBLE_OP_INDEX, ulm_null), (MPI_PACKED_OP_INDEX, ulm_null),
      (MPI_BYTE_OP_INDEX, ulm_cbor), (MPI_LONG_LONG_OP_INDEX, ulm_llbor),
      (MPI_FLOAT_INT_OP_INDEX, ulm_null), (MPI_DOUBLE_INT_OP_INDEX, ulm_null),
      (MPI_LONG_INT_OP_INDEX, ulm_null), (MPI_2INT_OP_INDEX, ulm_null),
      (MPI_SHORT_INT_OP_INDEX, ulm_null), (MPI_LONG_DOUBLE_INT_OP_INDEX, ulm_null),
      (MPI_2INTEGER_OP_INDEX, ulm_null), (MPI_2REAL_OP_INDEX, ulm_null),
      (MPI_2DOUBLE_PRECISION_OP_INDEX, ulm_null), (MPI_SCOMPLEX_OP_INDEX, ulm_null),
      (MPI_DCOMPLEX_OP_INDEX, ulm_null), (MPI_QCOMPLEX_OP_INDEX, ulm_null)]"

definition bxor_entries :: "'r fpu \<Rightarrow> (int \<times> 'r ulm_func) list" where
  "bxor_entries fpu =
     [(MPI_CHAR_OP_INDEX, ulm_cbxor), (MPI_SHORT_OP_INDEX, ulm_sbxor),
      (MPI_INT_OP_INDEX, ulm_ibxor), (MPI_LONG_OP_INDEX, ulm_lbxor),
      (MPI_UNSIGNED_CHAR_OP_INDEX, ulm_ucbxor), (MPI_UNSIGNED_SHORT_OP_INDEX, ulm_usbxor),
      (MPI_UNSIGNED_OP_INDEX, ulm_uibxor), (MPI_UNSIGNED_LONG_OP_INDEX, ulm_ulbxor),
      (MPI_FLOAT_OP_INDEX, ulm_null), (MPI_DOUBLE_OP_INDEX, ulm_null),
      (MPI_LONG_DOUBLE_OP_INDEX, ulm_null), (MPI_PACKED_OP_INDEX, ulm_null),
      (MPI_BYTE_OP_INDEX, ulm_cbxor), (MPI_LONG_LONG_OP_INDEX, ulm_llbxor),
      (MPI_FLOAT_INT_OP_INDEX, ulm_null), (MPI_DOUBLE_INT_OP_INDEX, ulm_null),
      (MPI_LONG_INT_OP_INDEX, ulm_null), (MPI_2INT_OP_INDEX, ulm_null),
      (MPI_SHORT_INT_OP_INDEX, ulm_null), (MPI_LONG_DOUBLE_INT_OP_INDEX, ulm_null),
      (MPI_2INTEGER_OP_INDEX, ulm_null), (MPI_2REAL_OP_INDEX, ulm_null),
      (MPI_2DOUBLE_PRECISION_OP_INDEX, ulm_null), (MPI_SCOMPLEX_OP_INDEX, ulm_null),
      (MPI_DCOMPLEX_OP_INDEX, ulm_null), (MPI_QCOMPLEX_OP_INDEX, ulm_null)]"

definition land_entries :: "'r fpu \<Rightarrow> (int \<times> 'r ulm_func) list" where
  "land_entries fpu =
     [(MPI_CHAR_OP_INDEX, ulm_cland), (MPI_SHORT_OP_INDEX, ulm_sland),
      (MPI_INT_OP_INDEX, ulm_iland), (MPI_LONG_OP_INDEX, ulm_lland),
      (MPI_UNSIGNED_CHAR_OP_INDEX, ulm_ucland), (MPI_UNSIGNED_SHORT_OP_INDEX, ulm_usland),
      (MPI_UNSIGNED_OP_INDEX, ulm_uiland), (MPI_UNSIGNED_LONG_OP_INDEX, ulm_ulland),
      (MPI_FLOAT_OP_INDEX, ulm_null), (MPI_DOUBLE_OP_INDEX, ulm_null),
      (MPI_LONG_DOUBLE_OP_INDEX, ulm_null), (MPI_PACKED_OP_INDEX, ulm_null),
      (MPI_BYTE_OP_INDEX, ulm_cland), (MPI_LONG_LONG_OP_INDEX, ulm_llland),
      (MPI_FLOAT_INT_OP_INDEX, ulm_null), (MPI_DOUBLE_INT_OP_INDEX, ulm_null),
      (MPI_LONG_INT_OP_INDEX, ulm_null), (MPI_2INT_OP_INDEX, ulm_null),
      (MPI_SHORT_INT_OP_INDEX, ulm_null), (MPI_LONG_DOUBLE_INT_OP_INDEX, ulm_null),
      (MPI_2INTEGER_OP_INDEX, ulm_null), (MPI_2REAL_OP_INDEX, ulm_null),
      (MPI_2DOUBLE_PRECISION_OP_INDEX, ulm_null), (MPI_SCOMPLEX_OP_INDEX, ulm_null),
      (MPI_DCOMPLEX_OP_INDEX, ulm_null), (MPI_QCOMPLEX_OP_INDEX, ulm_null)]"

definition lor_entries :: "'r fpu \<Rightarrow> (int \<times> 'r ulm_func) list" where
  "lor_entries fpu =
     [(MPI_CHAR_OP_INDEX, ulm_clor), (MPI_SHORT_OP_INDEX, ulm_slor),
      (MPI_INT_OP_INDEX, ulm_ilor), (MPI_LONG_OP_INDEX, ulm_llor),
      (MPI_UNSIGNED_CHAR_OP_INDEX, ulm_uclor), (MPI_UNSIGNED_SHORT_OP_INDEX, ulm_uslor),
      (MPI_UNSIGNED_OP_INDEX, ulm_uilor), (MPI_UNSIGNED_LONG_OP_INDEX, ulm_ullor),
      (MPI_FLOAT_OP_INDEX, ulm_null), (MPI_DOUBLE_OP_INDEX, ulm_null),
      (MPI_LONG_DOUBLE_OP_INDEX, ulm_null), (MPI_PACKED_OP_INDEX, ulm_null),
      (MPI_BYTE_OP_INDEX, ulm_clor), (MPI_LONG_LONG_OP_INDEX, ulm_lllor),
      (MPI_FLOAT_INT_OP_INDEX, ulm_null), (MPI_DOUBLE_INT_OP_INDEX, ulm_null),
      (MPI_LONG_INT_OP_INDEX, ulm_null), (MPI_2INT_OP_INDEX, ulm_null),
      (MPI_SHORT_INT_OP_INDEX, ulm_null), (MPI_LONG_DOUBLE_INT_OP_INDEX, ulm_null),
      (MPI_2INTEGER_OP_INDEX, ulm_null), (MPI_2REAL_OP_INDEX, ulm_null),
      (MPI_2DOUBLE_PRECISION_OP_INDEX, ulm_null), (MPI_SCOMPLEX_OP_INDEX, ulm_null),
      (MPI_DCOMPLEX_OP_INDEX, ulm_null), (MPI_QCOMPLEX_OP_INDEX, ulm_null)]"

definition lxor_entries :: "'r fpu \<Rightarrow> (int \<times> 'r ulm_func) list" where
  "lxor_entries fpu =
     [(MPI_CHAR_OP_INDEX, ulm_clxor), (MPI_SHORT_OP_INDEX, ulm_slxor),
      (MPI_INT_OP_INDEX, ulm_ilxor), (MPI_LONG_OP_INDEX, ulm_llxor),
      (MPI_UNSIGNED_CHAR_OP_INDEX, ulm_uclxor), (MPI_UNSIGNED_SHORT_OP_INDEX, ulm_uslxor),
      (MPI_UNSIGNED_OP_INDEX, ulm_uilxor), (MPI_UNSIGNED_LONG_OP_INDEX, ulm_ullxor),
      (MPI_FLOAT_OP_INDEX, ulm_null), (MPI_DOUBLE_OP_INDEX, ulm_null),
      (MPI_LONG_DOUBLE_OP_INDEX, ulm_null), (MPI_PACKED_OP_INDEX, ulm_null),
      (MPI_BYTE_OP_INDEX, ulm_clxor), (MPI_LONG_LONG_OP_INDEX, ulm_lllxor),
      (MPI_FLOAT_INT_OP_INDEX, ulm_null), (MPI_DOUBLE_INT_OP_INDEX, ulm_null),
      (MPI_LONG_INT_OP_INDEX, ulm_null), (MPI_2INT_OP_INDEX, ulm_null),
      (MPI_SHORT_INT_OP_INDEX, ulm_null), (MPI_LONG_DOUBLE_INT_OP_INDEX, ulm_null),
      (MPI_2INTEGER_OP_INDEX, ulm_null), (MPI_2REAL_OP_INDEX, ulm_null),
      (MPI_2DOUBLE_PRECISION_OP_INDEX, ulm_null), (MPI_SCOMPLEX_OP_INDEX, ulm_null),
      (MPI_DCOMPLEX_OP_INDEX, ulm_null), (MPI_QCOMPLEX_OP_INDEX, ulm_null)]"

definition op_entries :: "'r fpu \<Rightarrow> (op_kind \<times> (int \<times> 'r ulm_func) list) list" where
  "op_entries fpu =
     [(OP_MAX, max_entries fpu),
      (OP_MIN, min_entries fpu),
      (OP_SUM, sum_entries fpu),
      (OP_PROD, prod_entries fpu),
      (OP_MAXLOC, maxloc_entries fpu),
      (OP_MINLOC, minloc_entries fpu),
      (OP_BAND, band_entries fpu),
      (OP_BOR, bor_entries fpu),
      (OP_BXOR, bxor_entries fpu),
      (OP_LAND, land_entries fpu),
      (OP_LOR, lor_entries fpu),
      (OP_LXOR, lxor_entries fpu)]"

text \<open>One step of the initialisation: allocate the table of one operation and fill it.\<close>

definition set_entry :: "'r ulm_func option list \<Rightarrow> int \<times> 'r ulm_func \<Rightarrow> 'r ulm_func option list option" where
  "set_entry fs e = arr_set fs (fst e) (Some (snd e))"

fun init_tables :: "(op_kind \<times> (int \<times> 'r ulm_func) list) list \<Rightarrow> 'r op_state \<Rightarrow> (int \<times> 'r op_state) option" where
  "init_tables [] s = Some (0, s)"
| "init_tables ((k, es) # rest) s =
     (let (p, s1) = malloc_cell (FuncCell (replicate NUMBER_OF_BASIC_TYPES None)) s in do {
        u \<leftarrow> read_op s1 (op_addr k);
        let s2 = write_cell (op_addr k) (OpCell (u\<lparr>op_func := p\<rparr>)) s1;
        (case p of
           None \<Rightarrow> Some (- 1, s2)
         | Some a \<Rightarrow> do {
             fs0 \<leftarrow> read_funcs s2 a;
             fs \<leftarrow> foldM set_entry fs0 es;
             init_tables rest (write_cell a (FuncCell fs) s2)
           })
      })"

definition mpi_init_operations :: "'r fpu \<Rightarrow> 'r op_state \<Rightarrow> (int \<times> 'r op_state) option" where
  "mpi_init_operations fpu s = init_tables (op_entries fpu) s"

text \<open>The static structures before the initialisation, and an empty table of freeable pointers.\<close>

definition static_op :: ulm_op where
  "static_op = \<lparr>op_func = None, op_isbasic = 1, op_commute = 1, op_fortran = 0, op_fhandle = 0\<rparr>"

definition op_boot :: "ulm_op \<Rightarrow> bool list \<Rightarrow> bool \<Rightarrow> 'r op_state" where
  "op_boot junk allocs th =
     \<lparr>os_mem = (\<lambda>p. if p < NUMBER_OF_OPS then Some (OpCell static_op) else None),
      os_next = NUMBER_OF_OPS, os_junk = junk, os_allocs = allocs, os_free_table = ptr_table_zero,
      os_threads = th, os_errs = []\<rparr>"

text \<open>The choice of the function. \<open>None\<close> is a read outside of the array or of an element that was never
  written; \<open>Some None\<close> is the null pointer.\<close>

definition mpi_get_reduction_function :: "nat \<Rightarrow> ulm_type \<Rightarrow> 'r op_state \<Rightarrow> 'r ulm_func option option" where
  "mpi_get_reduction_function mop mtype s = do {
     u \<leftarrow> read_op s mop;
     (if op_isbasic u \<noteq> 0 then
        (if ut_isbasic mtype = 0 then Some None
         else do {
           p \<leftarrow> op_func u;
           fs \<leftarrow> read_funcs s p;
           f \<leftarrow> arr_get fs (ut_op_index mtype);
           map_option Some f
         })
      else do {
        p \<leftarrow> op_func u;
        fs \<leftarrow> read_funcs s p;
        f \<leftarrow> arr_get fs 0;
        map_option Some f
      })
   }"

subsection \<open>User-defined operations\<close>

text \<open>The value written through \<^verbatim>\<open>mop\<close> is the second component; it is unchanged when the call fails.\<close>

definition PMPI_Op_create :: "'r ulm_func \<Rightarrow> int \<Rightarrow> nat option \<Rightarrow> 'r op_state \<Rightarrow> (int \<times> nat option \<times> 'r op_state) option" where
  "PMPI_Op_create function commute mop s =
     (case malloc_cell (OpCell (os_junk s)) s of
        (None, s1) \<Rightarrow> Some (MPI_ERR_BUFFER, mop, op_errhandler MPI_ERR_BUFFER s1)
      | (Some op, s1) \<Rightarrow>
          (case malloc_cell (FuncCell [None]) s1 of
             (None, s2) \<Rightarrow> do {
               s3 \<leftarrow> ulm_free_cell op s2;
               Some (MPI_ERR_BUFFER, mop, op_errhandler MPI_ERR_BUFFER s3)
             }
           | (Some func, s2) \<Rightarrow> do {
               u \<leftarrow> read_op s2 op;
               let s3 = write_cell func (FuncCell [Some function]) s2;
               let s4 = write_cell op (OpCell (u\<lparr>op_func := Some func, op_isbasic := 0,
                          op_commute := (if commute \<noteq> 0 then 1 else 0), op_fortran := 0\<rparr>)) s3;
               Some (MPI_SUCCESS, Some op, s4)
             }))"

text \<open>\<^verbatim>\<open>_mpi_ptr_table_add\<close> on the table of freeable pointers, which allocates when it is empty or full.\<close>

definition free_table_add :: "nat option \<Rightarrow> 'r op_state \<Rightarrow> (int \<times> 'r op_state) option" where
  "free_table_add p s =
     (let tab = os_free_table s;
          (ok, s1) = (if pt_addr tab = None \<or> pt_number_free tab = 0 then next_alloc s else (True, s))
      in do {
        (h, tab') \<leftarrow> mpi_ptr_table_add (os_threads s) ok p tab;
        Some (h, s1\<lparr>os_free_table := tab'\<rparr>)
      })"

text \<open>The loop over the table: every pointer is freed and its slot cleared.\<close>

function free_slots :: "int \<Rightarrow> int \<Rightarrow> nat option list \<Rightarrow> 'r op_state \<Rightarrow> (nat option list \<times> 'r op_state) option" where
  "free_slots i n a s =
     (if i < n then do {
        p \<leftarrow> arr_get a i;
        (case p of
           None \<Rightarrow> free_slots (i + 1) n a s
         | Some q \<Rightarrow> do {
             s' \<leftarrow> ulm_free_cell q s;
             a' \<leftarrow> arr_set a i None;
             free_slots (i + 1) n a' s'
           })
      } else Some (a, s))"
  by pat_completeness auto
termination
  by (relation "measure (\<lambda>(i, n, a, s). nat (n - i))") auto

declare free_slots.simps [simp del]

definition free_all :: "'r op_state \<Rightarrow> 'r op_state option" where
  "free_all s = do {
     t \<leftarrow> atomic_lock_thread True (os_free_table s);
     (a, s') \<leftarrow> free_slots 0 (pt_size t) (case pt_addr t of None \<Rightarrow> [] | Some a \<Rightarrow> a) s;
     let t' = t\<lparr>pt_addr := map_option (\<lambda>_. a) (pt_addr t), pt_lowest_free := 0, pt_number_free := pt_size t\<rparr>;
     Some (s'\<lparr>os_free_table := atomic_unlock_thread True t'\<rparr>)
   }"

text \<open>\<open>mop\<close> is \<open>None\<close> for a null argument and otherwise the handle it points to; \<open>pending\<close> is the answer of
  \<^verbatim>\<open>ulm_pending_messages\<close>.\<close>

definition PMPI_Op_free :: "bool \<Rightarrow> nat option option \<Rightarrow> 'r op_state \<Rightarrow> (int \<times> nat option option \<times> 'r op_state) option" where
  "PMPI_Op_free pending mop s0 = do {
     (failed, mop', s1) \<leftarrow>
       (case mop of
          Some (Some op) \<Rightarrow> do {
            u \<leftarrow> read_op s0 op;
            (if op_isbasic u \<noteq> 0 then Some (False, mop, s0)
             else do {
               (h, s2) \<leftarrow> free_table_add (op_func u) s0;
               (if h < 0 then Some (True, mop, s2)
                else do {
                  (h', s3) \<leftarrow> free_table_add (Some op) s2;
                  (if h' < 0 then Some (True, mop, s3) else Some (False, Some None, s3))
                })
             })
          }
        | _ \<Rightarrow> Some (False, mop, s0));
     (if failed then Some (MPI_ERR_INTERN, mop', op_errhandler MPI_ERR_INTERN s1)
      else if pending then Some (MPI_SUCCESS, mop', s1)
      else do {
        s2 \<leftarrow> free_all s1;
        Some (MPI_SUCCESS, mop', s2)
      })
   }"

end
