(* ===== verification/Reduction_Init.thy ===== *)
theory Reduction_Init
  imports Reduction_Table
begin

section \<open>The tables after initialisation\<close>

text \<open>
  \<^verbatim>\<open>_mpi_init_operations\<close> returns 0 or, when an allocation fails, -1; after a return of 0 each predefined
  operation has a table in which every element was written, and \<^verbatim>\<open>_mpi_get_reduction_function\<close> selects from it.
\<close>

named_theorems lampi_ops \<open>the tables of the predefined operations\<close>

subsection \<open>Filling one table\<close>

definition table_of :: "(int \<times> 'r ulm_func) list \<Rightarrow> 'r ulm_func option list" where
  "table_of es = map (\<lambda>i. map_of (rev es) (int i)) [0..<NUMBER_OF_BASIC_TYPES]"

lemma foldM_set_entry:
  assumes "\<forall>e \<in> set es. 0 \<le> fst e \<and> fst e < int (length fs)"
  shows "foldM set_entry fs es = Some (map (\<lambda>i. case map_of (rev es) (int i) of None \<Rightarrow> fs ! i | Some f \<Rightarrow> Some f)
    [0..<length fs])"
  using assms
proof (induction es arbitrary: fs)
  case Nil
  then show ?case by (simp add: map_nth)
next
  case (Cons e es)
  let ?fs = "fs[nat (fst e) := Some (snd e)]"
  have "set_entry fs e = Some ?fs" using Cons.prems by (simp add: set_entry_def arr_set_def)
  moreover have "foldM set_entry ?fs es =
      Some (map (\<lambda>i. case map_of (rev es) (int i) of None \<Rightarrow> ?fs ! i | Some f \<Rightarrow> Some f) [0..<length fs])"
    using Cons.IH [of ?fs] Cons.prems by simp
  moreover have "(case map_of (rev es) (int i) of None \<Rightarrow> ?fs ! i | Some f \<Rightarrow> Some f) =
      (case map_of (rev (e # es)) (int i) of None \<Rightarrow> fs ! i | Some f \<Rightarrow> Some f)" if "i < length fs" for i
    using that Cons.prems by (cases e) (auto simp: nth_list_update map_add_def split: option.splits)
  ultimately show ?case by simp
qed

definition entries_ok :: "(int \<times> 'r ulm_func) list \<Rightarrow> bool" where
  "entries_ok es \<longleftrightarrow> (\<forall>e \<in> set es. 0 \<le> fst e \<and> fst e < int NUMBER_OF_BASIC_TYPES)"

lemma foldM_table: "entries_ok es \<Longrightarrow> foldM set_entry (replicate NUMBER_OF_BASIC_TYPES None) es = Some (table_of es)"
  by (subst foldM_set_entry) (auto simp: entries_ok_def table_of_def nth_replicate split: option.splits
    intro!: map_cong)

subsection \<open>Filling all of them\<close>

text \<open>The memory holds every static structure and nothing at or above the next address.\<close>

definition mem_ok :: "'r op_state \<Rightarrow> bool" where
  "mem_ok s \<longleftrightarrow> NUMBER_OF_OPS \<le> os_next s \<and> (\<forall>p \<ge> os_next s. os_mem s p = None)
     \<and> (\<forall>k. \<exists>u. read_op s (op_addr k) = Some u \<and> op_isbasic u = 1 \<and> op_commute u = 1)"

definition has_table :: "'r op_state \<Rightarrow> op_kind \<Rightarrow> 'r ulm_func option list \<Rightarrow> bool" where
  "has_table s k fs \<longleftrightarrow> (\<exists>u a. read_op s (op_addr k) = Some u \<and> op_isbasic u = 1 \<and> op_commute u = 1
     \<and> op_func u = Some a \<and> read_funcs s a = Some fs)"

lemma op_addr_less: "op_addr k < NUMBER_OF_OPS"
  by (cases k) simp_all

lemma op_addr_inj [simp]: "op_addr k = op_addr l \<longleftrightarrow> k = l"
  by (cases k; cases l) simp_all

text \<open>The state after one table is allocated and filled, given the static structure \<open>u\<close>.\<close>

definition add_table :: "op_kind \<Rightarrow> ulm_op \<Rightarrow> 'r ulm_func option list \<Rightarrow> 'r op_state \<Rightarrow> 'r op_state" where
  "add_table k u fs s = s\<lparr>os_next := Suc (os_next s),
     os_mem := (os_mem s)(os_next s \<mapsto> FuncCell fs, op_addr k \<mapsto> OpCell (u\<lparr>op_func := Some (os_next s)\<rparr>))\<rparr>"

lemma mem_ok_static:
  assumes "mem_ok s"
  obtains u where "read_op s (op_addr k) = Some u" "os_mem s (op_addr k) = Some (OpCell u)"
    "op_isbasic u = 1" "op_commute u = 1" "op_addr k < os_next s"
proof -
  from assms obtain u where u: "read_op s (op_addr k) = Some u" "op_isbasic u = 1" "op_commute u = 1"
    unfolding mem_ok_def by metis
  moreover have "os_mem s (op_addr k) = Some (OpCell u)"
    using u(1) by (simp add: read_op_def split: option.splits op_cell.splits)
  moreover have "op_addr k < os_next s" using assms op_addr_less [of k] by (simp add: mem_ok_def)
  ultimately show thesis by (intro that)
qed

lemma add_table_ok:
  assumes s: "mem_ok s" and u: "read_op s (op_addr k) = Some u"
  shows "mem_ok (add_table k u fs s)" "has_table (add_table k u fs s) k fs"
    "l \<noteq> k \<Longrightarrow> has_table s l gs \<Longrightarrow> has_table (add_table k u fs s) l gs"
proof -
  have less: "op_addr j < os_next s" for j
    using s op_addr_less [of j] by (simp add: mem_ok_def)
  have u1: "op_isbasic u = 1" "op_commute u = 1" using s u unfolding mem_ok_def by (metis option.inject)+
  show "mem_ok (add_table k u fs s)"
    unfolding mem_ok_def
  proof (intro conjI allI)
    show "\<exists>v. read_op (add_table k u fs s) (op_addr j) = Some v \<and> op_isbasic v = 1 \<and> op_commute v = 1" for j
      using s u1 less [of j] by (cases "j = k") (auto simp: mem_ok_def add_table_def read_op_def)
  qed (use s less [of k] in \<open>auto simp: mem_ok_def add_table_def\<close>)
  show "has_table (add_table k u fs s) k fs"
    using u1 less [of k] by (auto simp: has_table_def add_table_def read_op_def read_funcs_def)
  assume l: "l \<noteq> k" "has_table s l gs"
  then obtain v a where v: "read_op s (op_addr l) = Some v" "op_isbasic v = 1" "op_commute v = 1"
      "op_func v = Some a" "read_funcs s a = Some gs"
    by (auto simp: has_table_def)
  have "a \<noteq> op_addr k" using v(5) u by (auto simp: read_op_def read_funcs_def split: option.splits op_cell.splits)
  moreover have "a \<noteq> os_next s" using v(5) s by (auto simp: read_funcs_def mem_ok_def)
  ultimately show "has_table (add_table k u fs s) l gs"
    using v l(1) less [of l] by (auto simp: has_table_def add_table_def read_op_def read_funcs_def)
qed

lemma init_tables_step:
  assumes s: "mem_ok s" and e: "entries_ok e" and a: "next_alloc s = (ok, s1)"
  obtains (fail) s2 where "\<not> ok" "init_tables ((k, e) # es) s = Some (- 1, s2)"
    | (step) u where "ok" "read_op s1 (op_addr k) = Some u" "mem_ok s1"
        "init_tables ((k, e) # es) s = init_tables es (add_table k u (table_of e) s1)"
proof -
  have same: "os_mem s1 = os_mem s" "os_next s1 = os_next s"
    using a by (auto simp: next_alloc_def split: list.splits)
  have s1: "mem_ok s1" using s by (simp add: mem_ok_def same read_op_def)
  obtain u where u: "read_op s1 (op_addr k) = Some u" "op_addr k < os_next s1"
    using mem_ok_static [OF s1] by metis
  show thesis
  proof (cases ok)
    case False
    with a u fail show thesis by (simp add: malloc_cell_def)
  next
    case True
    have ne: "op_addr k \<noteq> os_next s1" using u(2) by simp
    have "init_tables ((k, e) # es) s = init_tables es (add_table k u (table_of e) s1)"
      using a True u ne foldM_table [OF e]
      by (simp add: malloc_cell_def write_cell_def read_op_def read_funcs_def add_table_def fun_upd_twist)
    with True u s1 step show thesis by simp
  qed
qed

lemma init_tables_ok:
  assumes "mem_ok s" "distinct (map fst es)" "\<forall>x \<in> set es. entries_ok (snd x)"
  shows "\<exists>rc s'. init_tables es s = Some (rc, s') \<and> (rc = 0 \<or> rc = - 1)
    \<and> (False \<notin> set (os_allocs s) \<longrightarrow> rc = 0)
    \<and> (rc = 0 \<longrightarrow> mem_ok s' \<and> os_free_table s' = os_free_table s \<and> (\<forall>x \<in> set es. has_table s' (fst x) (table_of (snd x)))
        \<and> (\<forall>l gs. l \<notin> fst ` set es \<longrightarrow> has_table s l gs \<longrightarrow> has_table s' l gs))"
  using assms
proof (induction es arbitrary: s)
  case Nil
  then show ?case by simp
next
  case (Cons x es)
  obtain k e where x: "x = (k, e)" by (cases x)
  obtain ok s1 where a: "next_alloc s = (ok, s1)" by (cases "next_alloc s")
  have e: "entries_ok e" using Cons.prems(3) x by simp
  show ?case
  proof (cases rule: init_tables_step [OF Cons.prems(1) e a, of k es])
    case (1 s2)
    then have "False \<in> set (os_allocs s)" using a by (auto simp: next_alloc_def split: list.splits)
    with 1 x show ?thesis by simp
  next
    case step: (2 u)
    let ?s = "add_table k u (table_of e) s1"
    have same: "os_mem s1 = os_mem s" "os_next s1 = os_next s" "os_free_table s1 = os_free_table s"
        "set (os_allocs s1) \<subseteq> set (os_allocs s)"
      using a by (auto simp: next_alloc_def split: list.splits)
    note t = add_table_ok [OF step(3,2), where fs = "table_of e"]
    have keep: "has_table s1 l gs \<longleftrightarrow> has_table s l gs" for l gs
      by (simp add: has_table_def read_op_def read_funcs_def same)
    have f: "os_free_table ?s = os_free_table s" "set (os_allocs ?s) \<subseteq> set (os_allocs s)"
      using same by (simp_all add: add_table_def)
    from Cons.IH [OF t(1)] Cons.prems x obtain rc s' where
      r: "init_tables es ?s = Some (rc, s')" "rc = 0 \<or> rc = - 1" "False \<notin> set (os_allocs ?s) \<longrightarrow> rc = 0"
        "rc = 0 \<longrightarrow> mem_ok s' \<and> os_free_table s' = os_free_table ?s
          \<and> (\<forall>x \<in> set es. has_table s' (fst x) (table_of (snd x)))
          \<and> (\<forall>l gs. l \<notin> fst ` set es \<longrightarrow> has_table ?s l gs \<longrightarrow> has_table s' l gs)"
      by auto
    have "k \<notin> fst ` set es" using Cons.prems(2) x by auto
    with r t keep f Cons.prems(2) step(4) x show ?thesis by auto
  qed
qed

subsection \<open>The tables of the predefined operations\<close>

definition op_table :: "'r fpu \<Rightarrow> op_kind \<Rightarrow> 'r ulm_func list" where
  "op_table fpu k = map (\<lambda>i. the (map_of (rev (the (map_of (op_entries fpu) k))) (int i))) [0..<NUMBER_OF_BASIC_TYPES]"

lemmas entries_defs = max_entries_def min_entries_def sum_entries_def prod_entries_def maxloc_entries_def
  minloc_entries_def band_entries_def bor_entries_def bxor_entries_def land_entries_def lor_entries_def
  lxor_entries_def

lemma op_entries_ok: "x \<in> set (op_entries fpu) \<Longrightarrow> entries_ok (snd x)"
  by (auto simp: op_entries_def entries_ok_def entries_defs)

lemma op_entries_all: "\<exists>es. (k, es) \<in> set (op_entries fpu) \<and> map_of (op_entries fpu) k = Some es"
  by (cases k) (simp_all add: op_entries_def)

lemma op_table_max [lampi_ops]:
  "op_table fpu OP_MAX =
     [ulm_cmax, ulm_smax, ulm_imax, ulm_lmax, ulm_ucmax, ulm_usmax,
      ulm_uimax, ulm_ulmax, ulm_fmax fpu, ulm_dmax fpu, ulm_qmax fpu, ulm_null,
      ulm_cmax, ulm_llmax, ulm_null, ulm_null, ulm_null, ulm_null,
      ulm_null, ulm_null, ulm_null, ulm_null, ulm_null, ulm_null,
      ulm_null, ulm_null]"
  by (simp add: op_table_def op_entries_def max_entries_def upt_rec)

lemma op_table_min [lampi_ops]:
  "op_table fpu OP_MIN =
     [ulm_cmin, ulm_smin, ulm_imin, ulm_lmin, ulm_ucmin, ulm_usmin,
      ulm_uimin, ulm_ulmin, ulm_fmin fpu, ulm_dmin fpu, ulm_qmin fpu, ulm_null,
      ulm_cmin, ulm_llmin, ulm_null, ulm_null, ulm_null, ulm_null,
      ulm_null, ulm_null, ulm_null, ulm_null, ulm_null, ulm_null,
      ulm_null, ulm_null]"
  by (simp add: op_table_def op_entries_def min_entries_def upt_rec)

lemma op_table_sum [lampi_ops]:
  "op_table fpu OP_SUM =
     [ulm_csum, ulm_ssum, ulm_isum, ulm_lsum, ulm_ucsum, ulm_ussum,
      ulm_uisum, ulm_ulsum, ulm_fsum fpu, ulm_dsum fpu, ulm_qsum fpu, ulm_null,
      ulm_csum, ulm_llsum, ulm_null, ulm_null, ulm_null, ulm_null,
      ulm_null, ulm_null, ulm_null, ulm_null, ulm_null, ulm_scsum fpu,
      ulm_dcsum fpu, ulm_qcsum fpu]"
  by (simp add: op_table_def op_entries_def sum_entries_def upt_rec)

lemma op_table_prod [lampi_ops]:
  "op_table fpu OP_PROD =
     [ulm_cprod, ulm_sprod, ulm_iprod, ulm_lprod, ulm_ucprod, ulm_usprod,
      ulm_uiprod, ulm_ulprod, ulm_fprod fpu, ulm_dprod fpu, ulm_qprod fpu, ulm_null,
      ulm_cprod, ulm_llprod, ulm_null, ulm_null, ulm_null, ulm_null,
      ulm_null, ulm_null, ulm_null, ulm_null, ulm_null, ulm_scprod fpu,
      ulm_dcprod fpu, ulm_qcprod fpu]"
  by (simp add: op_table_def op_entries_def prod_entries_def upt_rec)

lemma op_table_maxloc [lampi_ops]:
  "op_table fpu OP_MAXLOC =
     [ulm_null, ulm_null, ulm_null, ulm_null, ulm_null, ulm_null,
      ulm_null, ulm_null, ulm_null, ulm_null, ulm_null, ulm_null,
      ulm_null, ulm_null, ulm_fmaxloc fpu, ulm_dmaxloc fpu, ulm_lmaxloc, ulm_imaxloc,
      ulm_smaxloc, ulm_qmaxloc fpu, ulm_imaxloc, ulm_ffmaxloc fpu, ulm_ddmaxloc fpu, ulm_null,
      ulm_null, ulm_null]"
  by (simp add: op_table_def op_entries_def maxloc_entries_def upt_rec)

lemma op_table_minloc [lampi_ops]:
  "op_table fpu OP_MINLOC =
     [ulm_null, ulm_null, ulm_null, ulm_null, ulm_null, ulm_null,
      ulm_null, ulm_null, ulm_null, ulm_null, ulm_null, ulm_null,
      ulm_null, ulm_null, ulm_fminloc fpu, ulm_dminloc fpu, ulm_lminloc, ulm_iminloc,
      ulm_sminloc, ulm_qminloc fpu, ulm_iminloc, ulm_ffminloc fpu, ulm_ddminloc fpu, ulm_null,
      ulm_null, ulm_null]"
  by (simp add: op_table_def op_entries_def minloc_entries_def upt_rec)

lemma op_table_band [lampi_ops]:
  "op_table fpu OP_BAND =
     [ulm_cband, ulm_sband, ulm_iband, ulm_lband, ulm_ucband, ulm_usband,
      ulm_uiband, ulm_ulband, ulm_null, ulm_null, ulm_null, ulm_null,
      ulm_cband, ulm_llband, ulm_null, ulm_null, ulm_null, ulm_null,
      ulm_null, ulm_null, ulm_null, ulm_null, ulm_null, ulm_null,
      ulm_null, ulm_null]"
  by (simp add: op_table_def op_entries_def band_entries_def upt_rec)

lemma op_table_bor [lampi_ops]:
  "op_table fpu OP_BOR =
     [ulm_cbor, ulm_sbor, ulm_ibor, ulm_lbor, ulm_ucbor, ulm_usbor,
      ulm_uibor, ulm_ulbor, ulm_null, ulm_null, ulm_null, ulm_null,
      ulm_cbor, ulm_llbor, ulm_null, ulm_null, ulm_null, ulm_null,
      ulm_null, ulm_null, ulm_null, ulm_null, ulm_null, ulm_null,
      ulm_null, ulm_null]"
  by (simp add: op_table_def op_entries_def bor_entries_def upt_rec)

lemma op_table_bxor [lampi_ops]:
  "op_table fpu OP_BXOR =
     [ulm_cbxor, ulm_sbxor, ulm_ibxor, ulm_lbxor, ulm_ucbxor, ulm_usbxor,
      ulm_uibxor, ulm_ulbxor, ulm_null, ulm_null, ulm_null, ulm_null,
      ulm_cbxor, ulm_llbxor, ulm_null, ulm_null, ulm_null, ulm_null,
      ulm_null, ulm_null, ulm_null, ulm_null, ulm_null, ulm_null,
      ulm_null, ulm_null]"
  by (simp add: op_table_def op_entries_def bxor_entries_def upt_rec)

lemma op_table_land [lampi_ops]:
  "op_table fpu OP_LAND =
     [ulm_cland, ulm_sland, ulm_iland, ulm_lland, ulm_ucland, ulm_usland,
      ulm_uiland, ulm_ulland, ulm_null, ulm_null, ulm_null, ulm_null,
      ulm_cland, ulm_llland, ulm_null, ulm_null, ulm_null, ulm_null,
      ulm_null, ulm_null, ulm_null, ulm_null, ulm_null, ulm_null,
      ulm_null, ulm_null]"
  by (simp add: op_table_def op_entries_def land_entries_def upt_rec)

lemma op_table_lor [lampi_ops]:
  "op_table fpu OP_LOR =
     [ulm_clor, ulm_slor, ulm_ilor, ulm_llor, ulm_uclor, ulm_uslor,
      ulm_uilor, ulm_ullor, ulm_null, ulm_null, ulm_null, ulm_null,
      ulm_clor, ulm_lllor, ulm_null, ulm_null, ulm_null, ulm_null,
      ulm_null, ulm_null, ulm_null, ulm_null, ulm_null, ulm_null,
      ulm_null, ulm_null]"
  by (simp add: op_table_def op_entries_def lor_entries_def upt_rec)

lemma op_table_lxor [lampi_ops]:
  "op_table fpu OP_LXOR =
     [ulm_clxor, ulm_slxor, ulm_ilxor, ulm_llxor, ulm_uclxor, ulm_uslxor,
      ulm_uilxor, ulm_ullxor, ulm_null, ulm_null, ulm_null, ulm_null,
      ulm_clxor, ulm_lllxor, ulm_null, ulm_null, ulm_null, ulm_null,
      ulm_null, ulm_null, ulm_null, ulm_null, ulm_null, ulm_null,
      ulm_null, ulm_null]"
  by (simp add: op_table_def op_entries_def lxor_entries_def upt_rec)

text \<open>No element of a table is left unwritten.\<close>

lemma table_of_entries:
  assumes "map_of (op_entries fpu) k = Some es"
  shows "table_of es = map Some (op_table fpu k)"
proof -
  have "map_of (rev es) (int i) \<noteq> None" if "i < NUMBER_OF_BASIC_TYPES" for i
  proof -
    have "i \<in> set [0..<NUMBER_OF_BASIC_TYPES]" using that by simp
    then have "int i \<in> fst ` set es"
      using assms by (cases k) (auto simp: op_entries_def entries_defs upt_rec)
    then show ?thesis by (simp add: map_of_eq_None_iff)
  qed
  then show ?thesis using assms by (auto simp: table_of_def op_table_def)
qed

subsection \<open>Initialisation and selection\<close>

lemma op_boot_ok: "mem_ok (op_boot junk allocs th)"
  by (auto simp: mem_ok_def op_boot_def read_op_def static_op_def op_addr_less)

lemma op_boot_table: "os_free_table (op_boot junk allocs th) = ptr_table_zero"
  by (simp add: op_boot_def)

lemma init_operations_ok:
  assumes "mpi_init_operations fpu (op_boot junk allocs th) = Some (0, s)"
  shows "mem_ok s" "os_free_table s = ptr_table_zero" "has_table s k (map Some (op_table fpu k))"
proof -
  have d: "distinct (map fst (op_entries fpu))" by (simp add: op_entries_def)
  have e: "\<forall>x \<in> set (op_entries fpu). entries_ok (snd x)" using op_entries_ok by blast
  from init_tables_ok [OF op_boot_ok d e, of junk allocs th] obtain rc s' where
      "init_tables (op_entries fpu) (op_boot junk allocs th) = Some (rc, s')"
      "rc = 0 \<longrightarrow> mem_ok s' \<and> os_free_table s' = ptr_table_zero
        \<and> (\<forall>x \<in> set (op_entries fpu). has_table s' (fst x) (table_of (snd x)))"
    by (auto simp: op_boot_table)
  with assms have r: "mem_ok s" "os_free_table s = ptr_table_zero"
      "\<And>x. x \<in> set (op_entries fpu) \<Longrightarrow> has_table s (fst x) (table_of (snd x))"
    by (simp_all add: mpi_init_operations_def)
  show "mem_ok s" "os_free_table s = ptr_table_zero" by fact+
  obtain es where es: "(k, es) \<in> set (op_entries fpu)" "map_of (op_entries fpu) k = Some es"
    using op_entries_all [of k fpu] by blast
  from r(3) [OF es(1)] table_of_entries [OF es(2)] show "has_table s k (map Some (op_table fpu k))" by simp
qed

lemma op_table_length [simp]: "length (op_table fpu k) = NUMBER_OF_BASIC_TYPES"
  by (simp add: op_table_def)

lemma select_ok:
  assumes "has_table s k (map Some (op_table fpu k))" "ut_isbasic ty \<noteq> 0"
    and "ut_op_index ty = int i" "i < NUMBER_OF_BASIC_TYPES"
  shows "mpi_get_reduction_function (op_addr k) ty s = Some (Some (op_table fpu k ! i))"
  using assms by (auto simp: has_table_def mpi_get_reduction_function_def)

end
