(* ===== verification/Reduction_Loops.thy ===== *)
theory Reduction_Loops
  imports Reduction
begin

section \<open>What the reduction loops compute\<close>

text \<open>
  Both loops combine the first \<open>n\<close> elements and leave the others; a count that is negative or exceeds an
  array makes the \<^verbatim>\<open>while (n--)\<close> loop undefined. The element operations are related to operations on
  the integers the words stand for.
\<close>

subsection \<open>The loops\<close>

definition combined :: "('a \<Rightarrow> 'a \<Rightarrow> 'a) \<Rightarrow> nat \<Rightarrow> 'a list \<Rightarrow> 'a list \<Rightarrow> 'a list" where
  "combined f n xs ys = map2 f (take n xs) (take n ys) @ drop n xs"

lemma combined_length [simp]: "n \<le> length xs \<Longrightarrow> n \<le> length ys \<Longrightarrow> length (combined f n xs ys) = length xs"
  by (simp add: combined_def)

lemma combined_drop [simp]:
  "n \<le> length xs \<Longrightarrow> n \<le> length ys \<Longrightarrow> drop n (combined f n xs ys) = drop n xs"
  by (simp add: combined_def)

lemma combined_nth:
  "n \<le> length xs \<Longrightarrow> n \<le> length ys \<Longrightarrow> i < length xs \<Longrightarrow>
   combined f n xs ys ! i = (if i < n then f (xs ! i) (ys ! i) else xs ! i)"
  by (auto simp: combined_def nth_append)

lemma while_n_nat:
  "while_n f (int n) xs ys =
     (if n \<le> length xs \<and> n \<le> length ys
      then map_option (\<lambda>zs. zs @ drop n xs) (those (map2 f (take n xs) (take n ys)))
      else None)"
proof (induction xs arbitrary: n ys)
  case Nil
  show ?case by simp
next
  case (Cons x xs)
  show ?case
  proof (cases n)
    case 0
    then show ?thesis by (cases ys) auto
  next
    case (Suc m)
    have i: "int (Suc m) - 1 = int m" by simp
    show ?thesis
    proof (cases ys)
      case Nil
      with Suc show ?thesis by simp
    next
      case ys: (Cons y ys')
      show ?thesis unfolding Suc ys
        by (simp only: while_n.simps i Cons.IH)
           (auto simp: option.map_comp comp_def map_option_case split: option.splits bind_splits)
    qed
  qed
qed

lemma while_n_negative: "n < 0 \<Longrightarrow> while_n f n xs ys = None"
proof (induction f n xs ys rule: while_n.induct)
  case (1 f n x xs y ys)
  then show ?case by (cases "f x y") auto
qed auto

lemma while_n_total:
  assumes "n \<le> length xs" "n \<le> length ys"
    and "\<And>i. i < n \<Longrightarrow> f (xs ! i) (ys ! i) = Some (g (xs ! i) (ys ! i))"
  shows "while_n f (int n) xs ys = Some (combined g n xs ys)"
proof -
  have "map2 f (take n xs) (take n ys) = map Some (map2 g (take n xs) (take n ys))"
    using assms by (intro nth_equalityI) auto
  then have "those (map2 f (take n xs) (take n ys)) = Some (map2 g (take n xs) (take n ys))"
    by (simp only: those_map_Some)
  with assms(1,2) show ?thesis by (simp add: while_n_nat combined_def)
qed

lemma for_i_run:
  assumes "j \<le> n" "n \<le> length xs" "n \<le> length ys"
  shows "for_i f (int j) (int n) (combined f j xs ys) ys = Some (combined f n xs ys)"
  using assms
proof (induction "n - j" arbitrary: j)
  case 0
  then show ?case by (simp add: for_i.simps)
next
  case (Suc k)
  have step: "(combined f j xs ys)[j := f (combined f j xs ys ! j) (ys ! j)] = combined f (Suc j) xs ys"
    using Suc.prems Suc.hyps(2)
    by (intro nth_equalityI) (auto simp: nth_list_update combined_nth less_Suc_eq)
  have "for_i f (int (Suc j)) (int n) (combined f (Suc j) xs ys) ys = Some (combined f n xs ys)"
    by (rule Suc.hyps) (use Suc.prems Suc.hyps(2) in auto)
  then show ?case using Suc.prems Suc.hyps(2) step
    by (simp add: for_i.simps [of f "int j"] add.commute)
qed

lemma for_i_nat:
  "n \<le> length xs \<Longrightarrow> n \<le> length ys \<Longrightarrow> for_i f 0 (int n) xs ys = Some (combined f n xs ys)"
  using for_i_run [of 0 n xs ys f] by (simp add: combined_def)

lemma while_n_Some_drop:
  assumes "while_n f (int n) xs ys = Some zs"
  shows "length zs = length xs" "drop n zs = drop n xs"
proof -
  from assms obtain ws where ws: "n \<le> length xs" "n \<le> length ys"
      "those (map2 f (take n xs) (take n ys)) = Some ws" "zs = ws @ drop n xs"
    by (auto simp: while_n_nat split: if_splits)
  have "length (us :: 'c list) = length vs" if "those vs = Some us" for us vs
    using that by (induction vs arbitrary: us) (auto split: option.splits)
  from this [OF ws(3)] ws show "length zs = length xs" "drop n zs = drop n xs" by auto
qed

subsection \<open>Element operations on integers\<close>

text \<open>The value of an \<open>int\<close> as a truth value, and the operations of MPI on integers.\<close>

definition truth :: "bool \<Rightarrow> int" where
  "truth p = (if p then 1 else 0)"

lemma sint_range: "in_srange LENGTH('w) (sint (x :: 'w::len word))"
  using sint_ge [of x] sint_lt [of x] by (simp add: in_srange_def)

lemma uint_range: "in_urange LENGTH('w) (uint (x :: 'w::len word))"
  by (simp add: in_urange_def)

lemma sint_word_of_int: "in_srange LENGTH('w) r \<Longrightarrow> sint (word_of_int r :: 'w::len word) = r"
  by (simp add: in_srange_def sint_sbintrunc' signed_take_bit_int_eq_self)

lemma uint_word_of_int: "in_urange LENGTH('w) r \<Longrightarrow> uint (word_of_int r :: 'w::len word) = r"
  by (simp add: in_urange_def uint_word_of_int_eq take_bit_int_eq_self)

lemma word_sum_sint: "x + y = (word_of_int (sint x + sint y) :: 'w::len word)"
  by simp

lemma word_prod_sint: "x * y = (word_of_int (sint x * sint y) :: 'w::len word)"
  by simp

lemma word_sum_uint: "x + y = (word_of_int (uint x + uint y) :: 'w::len word)"
  by simp

lemma word_prod_uint: "x * y = (word_of_int (uint x * uint y) :: 'w::len word)"
  by simp

lemma sint_0_iff: "sint (x :: 'w::len word) = 0 \<longleftrightarrow> x = 0"
  by (metis signed_eq_0_iff)

lemma sint_bits:
  "sint (x AND y) = sint x AND sint (y :: 'w::len word)"
  "sint (x OR y) = sint x OR sint y"
  "sint (x XOR y) = sint x XOR sint y"
  by (simp_all add: signed_and_eq signed_or_eq signed_xor_eq)

lemma uint_bits:
  "uint (x AND y) = uint x AND uint (y :: 'w::len word)"
  "uint (x OR y) = uint x OR uint y"
  "uint (x XOR y) = uint x XOR uint y"
  by (simp_all add: unsigned_and_eq unsigned_or_eq unsigned_xor_eq)

end
