(* ===== verification/Reduction_Types.thy ===== *)
theory Reduction_Types
  imports Reduction_Init Reduction_Loops
begin

section \<open>The selected function fits the datatype\<close>

text \<open>
  For each predefined operation and each index of the tables: the function is written for the element
  type of the datatype with that index, keeps the type and the length of the array, changes no element
  beyond the count, and is \<^verbatim>\<open>ulm_null\<close> exactly where the operation has no meaning.
\<close>

subsection \<open>Arrays by index\<close>

lemma as_iff [simp]:
  "as_char m = Some xs0 \<longleftrightarrow> m = Char xs0"
  "as_short m = Some xs1 \<longleftrightarrow> m = Short xs1"
  "as_int m = Some xs2 \<longleftrightarrow> m = SInt xs2"
  "as_long m = Some xs3 \<longleftrightarrow> m = Long xs3"
  "as_unsigned_char m = Some xs4 \<longleftrightarrow> m = UChar xs4"
  "as_unsigned_short m = Some xs5 \<longleftrightarrow> m = UShort xs5"
  "as_unsigned_int m = Some xs6 \<longleftrightarrow> m = UInt xs6"
  "as_unsigned_long m = Some xs7 \<longleftrightarrow> m = ULong xs7"
  "as_long_long m = Some xs8 \<longleftrightarrow> m = LongLong xs8"
  "as_float m = Some xs9 \<longleftrightarrow> m = Float xs9"
  "as_double m = Some xs10 \<longleftrightarrow> m = Double xs10"
  "as_long_double m = Some xs11 \<longleftrightarrow> m = LongDouble xs11"
  "as_scomplex m = Some xs12 \<longleftrightarrow> m = SComplex xs12"
  "as_dcomplex m = Some xs13 \<longleftrightarrow> m = DComplex xs13"
  "as_qcomplex m = Some xs14 \<longleftrightarrow> m = QComplex xs14"
  "as_char_int m = Some xs15 \<longleftrightarrow> m = CharInt xs15"
  "as_short_int m = Some xs16 \<longleftrightarrow> m = ShortInt xs16"
  "as_int_int m = Some xs17 \<longleftrightarrow> m = IntInt xs17"
  "as_long_int m = Some xs18 \<longleftrightarrow> m = LongInt xs18"
  "as_uchar_int m = Some xs19 \<longleftrightarrow> m = UCharInt xs19"
  "as_ushort_int m = Some xs20 \<longleftrightarrow> m = UShortInt xs20"
  "as_uint_int m = Some xs21 \<longleftrightarrow> m = UIntInt xs21"
  "as_ulong_int m = Some xs22 \<longleftrightarrow> m = ULongInt xs22"
  "as_float_int m = Some xs23 \<longleftrightarrow> m = FloatInt xs23"
  "as_double_int m = Some xs24 \<longleftrightarrow> m = DoubleInt xs24"
  "as_ldouble_int m = Some xs25 \<longleftrightarrow> m = LDoubleInt xs25"
  "as_float_float m = Some xs26 \<longleftrightarrow> m = FloatFloat xs26"
  "as_double_double m = Some xs27 \<longleftrightarrow> m = DoubleDouble xs27"
  "as_ldouble_ldouble m = Some xs28 \<longleftrightarrow> m = LDoubleLDouble xs28"
  by (cases m; simp add: cast_defs)+

lemma as_same [simp]:
  "as_char (Char xs0) = Some xs0"
  "as_short (Short xs1) = Some xs1"
  "as_int (SInt xs2) = Some xs2"
  "as_long (Long xs3) = Some xs3"
  "as_unsigned_char (UChar xs4) = Some xs4"
  "as_unsigned_short (UShort xs5) = Some xs5"
  "as_unsigned_int (UInt xs6) = Some xs6"
  "as_unsigned_long (ULong xs7) = Some xs7"
  "as_long_long (LongLong xs8) = Some xs8"
  "as_float (Float xs9) = Some xs9"
  "as_double (Double xs10) = Some xs10"
  "as_long_double (LongDouble xs11) = Some xs11"
  "as_scomplex (SComplex xs12) = Some xs12"
  "as_dcomplex (DComplex xs13) = Some xs13"
  "as_qcomplex (QComplex xs14) = Some xs14"
  "as_char_int (CharInt xs15) = Some xs15"
  "as_short_int (ShortInt xs16) = Some xs16"
  "as_int_int (IntInt xs17) = Some xs17"
  "as_long_int (LongInt xs18) = Some xs18"
  "as_uchar_int (UCharInt xs19) = Some xs19"
  "as_ushort_int (UShortInt xs20) = Some xs20"
  "as_uint_int (UIntInt xs21) = Some xs21"
  "as_ulong_int (ULongInt xs22) = Some xs22"
  "as_float_int (FloatInt xs23) = Some xs23"
  "as_double_int (DoubleInt xs24) = Some xs24"
  "as_ldouble_int (LDoubleInt xs25) = Some xs25"
  "as_float_float (FloatFloat xs26) = Some xs26"
  "as_double_double (DoubleDouble xs27) = Some xs27"
  "as_ldouble_ldouble (LDoubleLDouble xs28) = Some xs28"
  by (simp_all add: cast_defs)

text \<open>The number of elements of a buffer that is an array of the C type with operation index \<open>i\<close>.\<close>

definition array_len :: "nat \<Rightarrow> 'r buffer \<Rightarrow> nat option" where
  "array_len i m =
     [map_option length (as_char m), map_option length (as_short m), map_option length (as_int m),
      map_option length (as_long m), map_option length (as_unsigned_char m), map_option length
      (as_unsigned_short m), map_option length (as_unsigned_int m), map_option length
      (as_unsigned_long m), map_option length (as_float m), map_option length (as_double m),
      map_option length (as_long_double m), map_option length (as_unsigned_char m), map_option length
      (as_char m), map_option length (as_long_long m), map_option length (as_float_int m), map_option
      length (as_double_int m), map_option length (as_long_int m), map_option length (as_int_int m),
      map_option length (as_short_int m), map_option length (as_ldouble_int m), map_option length
      (as_int_int m), map_option length (as_float_float m), map_option length (as_double_double m),
      map_option length (as_scomplex m), map_option length (as_dcomplex m), map_option length
      (as_qcomplex m)] ! i"

primrec buf_drop :: "nat \<Rightarrow> 'r buffer \<Rightarrow> 'r buffer" where
  "buf_drop n (Char xs) = Char (drop n xs)"
| "buf_drop n (Short xs) = Short (drop n xs)"
| "buf_drop n (SInt xs) = SInt (drop n xs)"
| "buf_drop n (Long xs) = Long (drop n xs)"
| "buf_drop n (UChar xs) = UChar (drop n xs)"
| "buf_drop n (UShort xs) = UShort (drop n xs)"
| "buf_drop n (UInt xs) = UInt (drop n xs)"
| "buf_drop n (ULong xs) = ULong (drop n xs)"
| "buf_drop n (LongLong xs) = LongLong (drop n xs)"
| "buf_drop n (Float xs) = Float (drop n xs)"
| "buf_drop n (Double xs) = Double (drop n xs)"
| "buf_drop n (LongDouble xs) = LongDouble (drop n xs)"
| "buf_drop n (SComplex xs) = SComplex (drop n xs)"
| "buf_drop n (DComplex xs) = DComplex (drop n xs)"
| "buf_drop n (QComplex xs) = QComplex (drop n xs)"
| "buf_drop n (CharInt xs) = CharInt (drop n xs)"
| "buf_drop n (ShortInt xs) = ShortInt (drop n xs)"
| "buf_drop n (IntInt xs) = IntInt (drop n xs)"
| "buf_drop n (LongInt xs) = LongInt (drop n xs)"
| "buf_drop n (UCharInt xs) = UCharInt (drop n xs)"
| "buf_drop n (UShortInt xs) = UShortInt (drop n xs)"
| "buf_drop n (UIntInt xs) = UIntInt (drop n xs)"
| "buf_drop n (ULongInt xs) = ULongInt (drop n xs)"
| "buf_drop n (FloatInt xs) = FloatInt (drop n xs)"
| "buf_drop n (DoubleInt xs) = DoubleInt (drop n xs)"
| "buf_drop n (LDoubleInt xs) = LDoubleInt (drop n xs)"
| "buf_drop n (FloatFloat xs) = FloatFloat (drop n xs)"
| "buf_drop n (DoubleDouble xs) = DoubleDouble (drop n xs)"
| "buf_drop n (LDoubleLDouble xs) = LDoubleLDouble (drop n xs)"

text \<open>The classes of indices: the integer types, the floating-point types, bytes, the complex and the pair
  types; the operations that apply to them, and the cases without C arithmetic that may overflow.\<close>

definition int_index :: "nat \<Rightarrow> bool" where "int_index i \<longleftrightarrow> i < 8 \<or> i = 13"
definition fp_index :: "nat \<Rightarrow> bool" where "fp_index i \<longleftrightarrow> i \<in> {8, 9, 10}"
definition complex_index :: "nat \<Rightarrow> bool" where "complex_index i \<longleftrightarrow> i \<in> {23, 24, 25}"
definition pair_index :: "nat \<Rightarrow> bool" where "pair_index i \<longleftrightarrow> 14 \<le> i \<and> i < 23"

definition allowed :: "op_kind \<Rightarrow> nat \<Rightarrow> bool" where
  "allowed k i \<longleftrightarrow>
     (if k \<in> {OP_MAX, OP_MIN} then int_index i \<or> i = 12 \<or> fp_index i
      else if k \<in> {OP_SUM, OP_PROD} then int_index i \<or> i = 12 \<or> fp_index i \<or> complex_index i
      else if k \<in> {OP_MAXLOC, OP_MINLOC} then pair_index i
      else int_index i \<or> i = 12)"

definition may_overflow :: "op_kind \<Rightarrow> nat \<Rightarrow> bool" where
  "may_overflow k i \<longleftrightarrow> k \<in> {OP_SUM, OP_PROD} \<and> i \<in> {2, 3, 13} \<or> k = OP_PROD \<and> i = 5"

definition fits :: "op_kind \<Rightarrow> nat \<Rightarrow> 'r ulm_func \<Rightarrow> bool" where
  "fits k i f \<longleftrightarrow> (\<forall>a b la lb n. array_len i a = Some la \<longrightarrow> array_len i b = Some lb \<longrightarrow> n \<le> la \<longrightarrow> n \<le> lb \<longrightarrow>
     (if allowed k i
      then (may_overflow k i \<or> f b a (int n) \<noteq> None)
        \<and> (\<forall>a'. f b a (int n) = Some a' \<longrightarrow> array_len i a' = Some la \<and> buf_drop n a' = buf_drop n a)
      else f b a (int n) = Some a))"

lemmas index_defs = int_index_def fp_index_def complex_index_def pair_index_def

lemma upt_26: "[0..<26] = [0, 1, 2, 3, 4, 5, 6, 7, 8, 9, 10, 11, 12, 13, 14, 15, 16, 17, 18, 19, 20, 21, 22, 23, 24, 25::nat]"
  by (simp add: upt_rec)

text \<open>What the pointer cast of a function promises for an index.\<close>

definition cast_ok :: "nat \<Rightarrow> ('r buffer \<Rightarrow> 'a list option) \<Rightarrow> ('a list \<Rightarrow> 'r buffer) \<Rightarrow> bool" where
  "cast_ok i cast c \<longleftrightarrow> (\<forall>m. array_len i m = map_option length (cast m)) \<and> (\<forall>m xs. cast m = Some xs \<longleftrightarrow> m = c xs)
     \<and> (\<forall>n xs. buf_drop n (c xs) = c (drop n xs))"

lemma cast_okD:
  assumes "cast_ok i cast c"
  shows "cast (c xs) = Some xs" "array_len i (c xs) = Some (length xs)" "buf_drop n (c xs) = c (drop n xs)"
    "array_len i m = Some l \<Longrightarrow> \<exists>ys. m = c ys \<and> length ys = l"
  using assms by (auto simp: cast_ok_def)

lemma fits_null: "\<not> allowed k i \<Longrightarrow> fits k i ulm_null"
  by (simp add: fits_def ulm_null_def)

lemma fits_while:
  assumes c: "cast_ok i cast c"
    and f: "\<And>b a n. f b a n = do {x \<leftarrow> cast a; y \<leftarrow> cast b; map_option c (while_n e n x y)}"
    and k: "allowed k i" and e: "may_overflow k i \<or> (\<forall>x y. e x y \<noteq> None)"
  shows "fits k i f"
  unfolding fits_def
proof (intro allI impI, goal_cases)
  case (1 a b la lb n)
  then obtain xs ys where x: "a = c xs" "b = c ys" "length xs = la" "length ys = lb"
    using cast_okD(4) [OF c] by metis
  have run: "f (c ys) (c xs) (int n) = map_option c (while_n e (int n) xs ys)"
    by (simp add: f cast_okD(1) [OF c])
  have drops: "length zs = la" "drop n zs = drop n xs" if "while_n e (int n) xs ys = Some zs" for zs
    using while_n_Some_drop [OF that] x by simp_all
  have "while_n e (int n) xs ys \<noteq> None" if "\<forall>x y. e x y \<noteq> None"
    using while_n_total [of n xs ys e "\<lambda>x y. the (e x y)"] that 1(3,4) x(3,4) by simp
  with e k drops show ?case by (auto simp: run x(1,2) cast_okD [OF c])
qed

lemma fits_for:
  assumes c: "cast_ok i cast c"
    and f: "\<And>b a n. f b a n = do {x \<leftarrow> cast a; y \<leftarrow> cast b; map_option c (for_i e 0 n x y)}"
    and k: "allowed k i"
  shows "fits k i f"
  unfolding fits_def
proof (intro allI impI, goal_cases)
  case (1 a b la lb n)
  then obtain xs ys where x: "a = c xs" "b = c ys" "length xs = la" "length ys = lb"
    using cast_okD(4) [OF c] by metis
  have "f b a (int n) = Some (c (combined e n xs ys))"
    using x 1(3,4) by (simp add: f cast_okD(1) [OF c] for_i_nat)
  with k x 1(3,4) show ?case by (simp add: cast_okD [OF c])
qed

lemma casts_ok:
  "cast_ok 0 as_char Char" "cast_ok 1 as_short Short" "cast_ok 2 as_int SInt" "cast_ok 3 as_long Long"
  "cast_ok 4 as_unsigned_char UChar" "cast_ok 5 as_unsigned_short UShort" "cast_ok 6 as_unsigned_int UInt"
  "cast_ok 7 as_unsigned_long ULong" "cast_ok 8 as_float Float" "cast_ok 9 as_double Double"
  "cast_ok 10 as_long_double LongDouble" "cast_ok 12 as_char Char" "cast_ok 13 as_long_long LongLong"
  "cast_ok 14 as_float_int FloatInt" "cast_ok 15 as_double_int DoubleInt" "cast_ok 16 as_long_int LongInt"
  "cast_ok 17 as_int_int IntInt" "cast_ok 18 as_short_int ShortInt" "cast_ok 19 as_ldouble_int LDoubleInt"
  "cast_ok 20 as_int_int IntInt" "cast_ok 21 as_float_float FloatFloat" "cast_ok 22 as_double_double DoubleDouble"
  "cast_ok 23 as_scomplex SComplex" "cast_ok 24 as_dcomplex DComplex" "cast_ok 25 as_qcomplex QComplex"
  by (simp_all add: cast_ok_def array_len_def)

lemmas fits_rules = casts_ok(1-13) [THEN fits_while] casts_ok(14-) [THEN fits_for]

lemmas fits_simps = allowed_def may_overflow_def index_defs checked_def promoted_prod_def

lemma fits_table: "list_all2 (fits k) [0..<26] (op_table fpu k)"
  by (cases k; simp only: lampi_ops upt_26 list_all2_Cons list_all2_Nil; intro conjI refl;
    (rule fits_null, simp add: fits_simps; fail)?,
    (rule fits_rules, rule ulm_func_defs, simp_all add: fits_simps)?)

lemma fits_selected: "i < 26 \<Longrightarrow> fits k i (op_table fpu k ! i)"
  using list_all2_nthD2 [OF fits_table, of i fpu k] by simp

end
