(* ===== verification/Reduction_Ints.thy ===== *)
theory Reduction_Ints
  imports Reduction_Types
begin

section \<open>The integer reductions compute the operations on integers\<close>

text \<open>
  For the nine integer types and the ten operations on them: the array after the call holds, as integers,
  the results of the mathematical operation, truncated to the type. Where C makes an overflow undefined the
  results have to fit.
\<close>

subsection \<open>Operations on integers\<close>

primrec int_op :: "op_kind \<Rightarrow> int \<Rightarrow> int \<Rightarrow> int" where
  "int_op OP_MAX x y = max x y"
| "int_op OP_MIN x y = min x y"
| "int_op OP_SUM x y = x + y"
| "int_op OP_PROD x y = x * y"
| "int_op OP_MAXLOC x y = x"
| "int_op OP_MINLOC x y = x"
| "int_op OP_BAND x y = x AND y"
| "int_op OP_BOR x y = x OR y"
| "int_op OP_BXOR x y = x XOR y"
| "int_op OP_LAND x y = truth (x \<noteq> 0 \<and> y \<noteq> 0)"
| "int_op OP_LOR x y = truth (x \<noteq> 0 \<or> y \<noteq> 0)"
| "int_op OP_LXOR x y = truth ((x \<noteq> 0) \<noteq> (y \<noteq> 0))"

text \<open>The integers in a buffer of the type with index \<open>i\<close>, truncation to that type, and its range.\<close>

definition ints :: "nat \<Rightarrow> 'r buffer \<Rightarrow> int list option" where
  "ints i m =
     (if i = 13 then map_option (map sint) (as_long_long m)
      else [map_option (map sint) (as_char m), map_option (map sint) (as_short m),
            map_option (map sint) (as_int m), map_option (map sint) (as_long m),
            map_option (map uint) (as_unsigned_char m), map_option (map uint) (as_unsigned_short m),
            map_option (map uint) (as_unsigned_int m), map_option (map uint) (as_unsigned_long m)] ! i)"

definition int_width :: "nat \<Rightarrow> nat" where
  "int_width i = (if i = 13 then 64 else [8, 16, 32, 64, 8, 16, 32, 64] ! i)"

definition is_signed :: "nat \<Rightarrow> bool" where
  "is_signed i \<longleftrightarrow> i < 4 \<or> i = 13"

definition truncated :: "nat \<Rightarrow> int \<Rightarrow> int" where
  "truncated i r = (if is_signed i then signed_take_bit (int_width i - 1) r else take_bit (int_width i) r)"

definition representable :: "nat \<Rightarrow> int \<Rightarrow> bool" where
  "representable i r \<longleftrightarrow> (if is_signed i then in_srange (int_width i) r else in_urange (int_width i) r)"

lemma truncated_id:
  assumes "int_index i" "representable i r"
  shows "truncated i r = r"
proof -
  have "0 < int_width i" using assms(1)
    by (auto simp: int_index_def int_width_def less_Suc_eq numeral_eq_Suc)
  then show ?thesis using assms(2)
    by (auto simp: truncated_def representable_def in_srange_def in_urange_def take_bit_int_eq_self
      signed_take_bit_int_eq_self)
qed

subsection \<open>Element operations\<close>

lemma elem_signed:
  "ULM_MAX sgt x y = word_of_int (max (sint x) (sint (y :: 'w::len word)))"
  "ULM_MIN sgt x y = word_of_int (min (sint x) (sint y))"
  by (auto simp: ULM_MAX_def ULM_MIN_def sgt_def max_def min_def)

lemma elem_unsigned:
  "ULM_MAX ugt x y = word_of_int (max (uint x) (uint (y :: 'w::len word)))"
  "ULM_MIN ugt x y = word_of_int (min (uint x) (uint y))"
  by (auto simp: ULM_MAX_def ULM_MIN_def ugt_def max_def min_def)

lemma elem_bits:
  "word_of_int (sint x AND sint y) = x AND (y :: 'w::len word)"
  "word_of_int (sint x OR sint y) = x OR y"
  "word_of_int (sint x XOR sint y) = x XOR y"
  "word_of_int (uint x AND uint y) = x AND y"
  "word_of_int (uint x OR uint y) = x OR y"
  "word_of_int (uint x XOR uint y) = x XOR y"
  by (simp_all flip: sint_bits uint_bits)

lemma word_of_truth: "word_of_int (truth p) = c_bool p"
  by (simp add: truth_def c_bool_def)

lemma uint_0: "uint (x :: 'w::len word) = 0 \<longleftrightarrow> x = 0"
  by (metis uint_0_iff)

lemma ULM_LXOR_eq: "ULM_LXOR x y = c_bool ((x = 0) = (y \<noteq> 0))"
  by (auto simp: ULM_LXOR_def c_bool_def)

lemma uint_prod_ge: "- 2147483648 \<le> uint x * uint y"
  by (rule order_trans [of _ 0]) simp_all

lemmas elem_simps = elem_signed elem_unsigned elem_bits word_of_truth sint_0_iff uint_0 ULM_LAND_def
  ULM_LOR_def ULM_LXOR_eq uint_prod_ge checked_def promoted_prod_def may_overflow_def representable_def is_signed_def
  int_width_def in_srange_def in_urange_def

subsection \<open>The functions\<close>

definition computes :: "op_kind \<Rightarrow> nat \<Rightarrow> 'r ulm_func \<Rightarrow> bool" where
  "computes k i f \<longleftrightarrow> (\<forall>a b xs ys n. ints i a = Some xs \<longrightarrow> ints i b = Some ys \<longrightarrow> n \<le> length xs \<longrightarrow> n \<le> length ys \<longrightarrow>
     (may_overflow k i \<longrightarrow> (\<forall>j < n. representable i (int_op k (xs ! j) (ys ! j)))) \<longrightarrow>
     (\<exists>a'. f b a (int n) = Some a' \<and> ints i a' = Some (combined (\<lambda>x y. truncated i (int_op k x y)) n xs ys)))"

definition int_cast :: "nat \<Rightarrow> ('r buffer \<Rightarrow> 'w::len word list option) \<Rightarrow> ('w word list \<Rightarrow> 'r buffer) \<Rightarrow> ('w word \<Rightarrow> int) \<Rightarrow> bool" where
  "int_cast i cast c v \<longleftrightarrow> (\<forall>m. ints i m = map_option (map v) (cast m)) \<and> (\<forall>m xs. cast m = Some xs \<longleftrightarrow> m = c xs)
     \<and> (\<forall>r. truncated i r = v (word_of_int r))"

lemma int_castD:
  assumes "int_cast i cast c v"
  shows "cast (c xs) = Some xs" "ints i (c xs) = Some (map v xs)" "truncated i r = v (word_of_int r)"
    "ints i m = Some zs \<Longrightarrow> \<exists>ys. m = c ys \<and> map v ys = zs"
  using assms by (auto simp: int_cast_def)

lemma map_combined:
  assumes "n \<le> length xs" "n \<le> length ys" "\<And>x y. v (g x y) = h (v x) (v y)"
  shows "map v (combined g n xs ys) = combined h n (map v xs) (map v ys)"
  using assms by (intro nth_equalityI) (auto simp: combined_nth)

lemma computes_while:
  assumes c: "int_cast i cast c v"
    and f: "\<And>b a n. f b a n = do {x \<leftarrow> cast a; y \<leftarrow> cast b; map_option c (while_n e n x y)}"
    and e: "\<And>x y. (may_overflow k i \<longrightarrow> representable i (int_op k (v x) (v y))) \<Longrightarrow>
      e x y = Some (word_of_int (int_op k (v x) (v y)))"
  shows "computes k i f"
  unfolding computes_def
proof (intro allI impI, goal_cases)
  case (1 a b xs ys n)
  then obtain us vs where u: "a = c us" "b = c vs" "map v us = xs" "map v vs = ys"
    using int_castD(4) [OF c] by metis
  have l: "n \<le> length us" "n \<le> length vs" using 1(3,4) u by auto
  have "while_n e (int n) us vs = Some (combined (\<lambda>x y. word_of_int (int_op k (v x) (v y))) n us vs)"
    using l 1(5) u(3,4) by (intro while_n_total e) auto
  moreover have "map v (combined (\<lambda>x y. word_of_int (int_op k (v x) (v y))) n us vs) =
      combined (\<lambda>x y. truncated i (int_op k x y)) n xs ys"
    using map_combined [OF l] u(3,4) int_castD(3) [OF c] by fastforce
  ultimately show ?case by (simp add: f u(1,2) int_castD(1,2) [OF c])
qed

lemma int_casts:
  "int_cast 0 as_char Char sint" "int_cast 1 as_short Short sint" "int_cast 2 as_int SInt sint"
  "int_cast 3 as_long Long sint" "int_cast 4 as_unsigned_char UChar uint" "int_cast 5 as_unsigned_short UShort uint"
  "int_cast 6 as_unsigned_int UInt uint" "int_cast 7 as_unsigned_long ULong uint" "int_cast 13 as_long_long LongLong sint"
  by (simp_all add: int_cast_def ints_def truncated_def is_signed_def int_width_def sint_sbintrunc' uint_word_of_int_eq)

lemmas computes_rules = int_casts [THEN computes_while]

lemma computes_list:
  "list_all2 (\<lambda>i f. int_index i \<and> k \<notin> {OP_MAXLOC, OP_MINLOC} \<longrightarrow> computes k i f) [0..<26] (op_table fpu k)"
  by (cases k; simp only: lampi_ops upt_26 list_all2_Cons list_all2_Nil; intro conjI refl impI;
    (simp add: int_index_def; fail)?, (rule computes_rules, rule ulm_func_defs, simp add: elem_simps)?)

lemma computes_table:
  "int_index i \<Longrightarrow> k \<notin> {OP_MAXLOC, OP_MINLOC} \<Longrightarrow> computes k i (op_table fpu k ! i)"
  using list_all2_nthD2 [OF computes_list, of i fpu k] by (auto simp: int_index_def)

end
