(* ===== verification/Reduction_Order.thy ===== *)
theory Reduction_Order
  imports Reduction_Ints "HOL-Library.Multiset" "HOL-Library.Product_Lexorder"
begin

section \<open>The order of the contributions does not matter\<close>

text \<open>
  The collective reductions combine the buffers of the processes pairwise, in an order that depends on the
  algorithm. \<open>reduce\<close> is such a run: it starts from one buffer and combines the others into it. The locale
  \<open>reduction\<close> states what an element operation needs for the result to be independent of the order; it is
  interpreted on every element operation of the integer reductions and of \<^verbatim>\<open>MPI_MAXLOC\<close> and \<^verbatim>\<open>MPI_MINLOC\<close>.
\<close>

definition reduce :: "'r ulm_func \<Rightarrow> int \<Rightarrow> 'r buffer list \<Rightarrow> 'r buffer option" where
  "reduce f n ms = (case ms of [] \<Rightarrow> None | a # bs \<Rightarrow> foldM (\<lambda>acc b. f b acc n) a bs)"

subsection \<open>Associative and commutative element operations\<close>

locale reduction =
  fixes e :: "'a \<Rightarrow> 'a \<Rightarrow> 'a option" and g :: "'a \<Rightarrow> 'a \<Rightarrow> 'a"
  assumes result: "e x y = Some z \<Longrightarrow> z = g x y"
    and assoc: "g (g x y) z = g x (g y z)"
    and comm: "g x y = g y x"
begin

lemma vec_assoc: "map2 g (map2 g xs ys) zs = map2 g xs (map2 g ys zs)"
  by (rule nth_equalityI) (auto simp: assoc)

lemma vec_comm: "map2 g xs ys = map2 g ys xs"
  by (rule nth_equalityI) (auto simp: comm)

definition step :: "'a list \<Rightarrow> 'a list option \<Rightarrow> 'a list option" where
  "step b acc = Some (case acc of None \<Rightarrow> b | Some a \<Rightarrow> map2 g a b)"

lemma step_commute: "step x \<circ> step y = step y \<circ> step x"
proof
  fix acc
  show "(step x \<circ> step y) acc = (step y \<circ> step x) acc"
    using vec_comm [of x y] by (cases acc) (simp_all add: step_def vec_assoc)
qed

lemma fold_step: "fold step bs (Some a) = Some (fold (\<lambda>b acc. map2 g acc b) bs a)"
  by (induction bs arbitrary: a) (simp_all add: step_def)

lemma vec_fold_perm:
  assumes "mset (a # bs) = mset (c # ds)"
  shows "fold (\<lambda>b acc. map2 g acc b) bs a = fold (\<lambda>b acc. map2 g acc b) ds c"
proof -
  have "fold step (a # bs) = fold step (c # ds)"
    using step_commute assms by (intro fold_multiset_equiv) auto
  from fun_cong [OF this, of None] show ?thesis by (simp add: fold_step step_def [of _ None])
qed

lemma while_n_result:
  assumes "while_n e (int n) xs ys = Some zs" "length xs = n" "length ys = n"
  shows "zs = map2 g xs ys"
proof -
  from assms have t: "those (map2 e xs ys) = Some zs" by (simp add: while_n_nat)
  have "those vs = Some ws \<Longrightarrow> length ws = length vs \<and> (\<forall>j < length vs. vs ! j = Some (ws ! j))"
    for vs :: "'a option list" and ws
  proof (induction vs arbitrary: ws)
    case (Cons v vs)
    then show ?case by (auto simp: nth_Cons' split: option.splits)
  qed simp
  from this [OF t] result assms(2,3) show ?thesis by (intro nth_equalityI) auto
qed

lemma fold_result:
  assumes "foldM (\<lambda>acc b. while_n e (int n) acc b) a bs = Some r" "length a = n" "\<forall>b \<in> set bs. length b = n"
  shows "r = fold (\<lambda>b acc. map2 g acc b) bs a"
  using assms
proof (induction bs arbitrary: a)
  case (Cons b bs)
  from Cons.prems(1) obtain a' where a': "while_n e (int n) a b = Some a'"
      "foldM (\<lambda>acc b. while_n e (int n) acc b) a' bs = Some r"
    by (auto split: bind_splits)
  have "a' = map2 g a b" using while_n_result [OF a'(1)] Cons.prems(2,3) by simp
  with Cons.IH [OF a'(2)] Cons.prems(2,3) show ?case by simp
qed simp

text \<open>Two runs over the same contributions agree.\<close>

lemma order_irrelevant:
  assumes "mset (a # bs) = mset (c # ds)" "\<forall>b \<in> set (a # bs). length b = n"
    and "foldM (\<lambda>acc b. while_n e (int n) acc b) a bs = Some r"
    and "foldM (\<lambda>acc b. while_n e (int n) acc b) c ds = Some r'"
  shows "r = r'"
proof -
  have "set (a # bs) = set (c # ds)" using assms(1) by (metis mset_eq_setD)
  with assms(2) have "length c = n" "\<forall>b \<in> set ds. length b = n" by auto
  with fold_result [OF assms(3)] fold_result [OF assms(4)] vec_fold_perm [OF assms(1)] assms(2)
  show ?thesis by simp
qed

end

subsection \<open>The element operations of the code\<close>

interpretation smax: reduction "\<lambda>x y. Some (ULM_MAX sgt x y)" "ULM_MAX sgt :: 'w::len word \<Rightarrow> 'w word \<Rightarrow> 'w word"
  by unfold_locales (auto simp: elem_signed sint_word_of_int sint_range max_def)

interpretation smin: reduction "\<lambda>x y. Some (ULM_MIN sgt x y)" "ULM_MIN sgt :: 'w::len word \<Rightarrow> 'w word \<Rightarrow> 'w word"
  by unfold_locales (auto simp: elem_signed sint_word_of_int sint_range min_def)

interpretation umax: reduction "\<lambda>x y. Some (ULM_MAX ugt x y)" "ULM_MAX ugt :: 'w::len word \<Rightarrow> 'w word \<Rightarrow> 'w word"
  by unfold_locales (auto simp: elem_unsigned uint_word_of_int uint_range max_def)

interpretation umin: reduction "\<lambda>x y. Some (ULM_MIN ugt x y)" "ULM_MIN ugt :: 'w::len word \<Rightarrow> 'w word \<Rightarrow> 'w word"
  by unfold_locales (auto simp: elem_unsigned uint_word_of_int uint_range min_def)

interpretation sum: reduction "\<lambda>x y. Some (x + y)" "(+) :: 'w::len word \<Rightarrow> 'w word \<Rightarrow> 'w word"
  by unfold_locales (auto simp: ac_simps)

interpretation prod: reduction "\<lambda>x y. Some (x * y)" "(*) :: 'w::len word \<Rightarrow> 'w word \<Rightarrow> 'w word"
  by unfold_locales (auto simp: ac_simps)

interpretation ssum: reduction "\<lambda>x y. checked (sint x + sint y)" "(+) :: 'w::len word \<Rightarrow> 'w word \<Rightarrow> 'w word"
  by unfold_locales (auto simp: ac_simps checked_def split: if_splits)

interpretation sprod: reduction "\<lambda>x y. checked (sint x * sint y)" "(*) :: 'w::len word \<Rightarrow> 'w word \<Rightarrow> 'w word"
  by unfold_locales (auto simp: ac_simps checked_def split: if_splits)

interpretation pprod: reduction "\<lambda>x y. promoted_prod x y" "(*) :: 'w::len word \<Rightarrow> 'w word \<Rightarrow> 'w word"
  by unfold_locales (auto simp: ac_simps promoted_prod_def split: if_splits)

interpretation band: reduction "\<lambda>x y. Some (x AND y)" "(AND) :: 'w::len word \<Rightarrow> 'w word \<Rightarrow> 'w word"
  by unfold_locales (auto simp: ac_simps)

interpretation bor: reduction "\<lambda>x y. Some (x OR y)" "(OR) :: 'w::len word \<Rightarrow> 'w word \<Rightarrow> 'w word"
  by unfold_locales (auto simp: ac_simps)

interpretation bxor: reduction "\<lambda>x y. Some (x XOR y)" "(XOR) :: 'w::len word \<Rightarrow> 'w word \<Rightarrow> 'w word"
  by unfold_locales (auto simp: ac_simps)

lemma c_bool_0 [simp]: "(c_bool p :: 'w::len word) = 0 \<longleftrightarrow> \<not> p"
  by (simp add: c_bool_def)

interpretation lnd: reduction "\<lambda>x y. Some (ULM_LAND x y)" "ULM_LAND :: 'w::len word \<Rightarrow> 'w word \<Rightarrow> 'w word"
  by unfold_locales (auto simp: ULM_LAND_def intro: arg_cong [where f = c_bool])

interpretation lr: reduction "\<lambda>x y. Some (ULM_LOR x y)" "ULM_LOR :: 'w::len word \<Rightarrow> 'w word \<Rightarrow> 'w word"
  by unfold_locales (auto simp: ULM_LOR_def intro: arg_cong [where f = c_bool])

interpretation lxr: reduction "\<lambda>x y. Some (ULM_LXOR x y)" "ULM_LXOR :: 'w::len word \<Rightarrow> 'w word \<Rightarrow> 'w word"
  by unfold_locales (auto simp: ULM_LXOR_eq intro: arg_cong [where f = c_bool])

text \<open>\<^verbatim>\<open>maxloc\<close> and \<^verbatim>\<open>minloc\<close> on pairs of signed integers choose one of the two pairs by a linear order: the
  larger value and on a tie the lower location, and the smaller value and on a tie the higher location.\<close>

definition maxloc_rank :: "('v::len word, 'l::len word) loc_t \<Rightarrow> int \<times> int" where
  "maxloc_rank a = (sint (val a), - sint (loc a))"

definition minloc_rank :: "('v::len word, 'l::len word) loc_t \<Rightarrow> int \<times> int" where
  "minloc_rank a = (- sint (val a), sint (loc a))"

lemma sint_eq: "sint v = sint w \<longleftrightarrow> v = (w :: 'w::len word)"
  by (metis word_eq_iff_signed)

lemma rank_inj:
  "maxloc_rank a = maxloc_rank b \<longleftrightarrow> a = b"
  "minloc_rank a = minloc_rank b \<longleftrightarrow> a = b"
  by (cases a; cases b; auto simp: maxloc_rank_def minloc_rank_def sint_eq)+

lemma maxloc_pick: "maxloc_step (=) sgt sgt = ULM_MAX (\<lambda>x y. maxloc_rank y < maxloc_rank x)"
proof (intro ext)
  fix a b :: "('v::len word, 'l::len word) loc_t"
  show "maxloc_step (=) sgt sgt a b = ULM_MAX (\<lambda>x y. maxloc_rank y < maxloc_rank x) a b"
    by (cases a; cases b) (auto simp: maxloc_step_def ULM_MAX_def ULM_MIN_def sgt_def maxloc_rank_def sint_eq)
qed

lemma minloc_pick: "minloc_step (=) sgt sgt = ULM_MAX (\<lambda>x y. minloc_rank y < minloc_rank x)"
proof (intro ext)
  fix a b :: "('v::len word, 'l::len word) loc_t"
  show "minloc_step (=) sgt sgt a b = ULM_MAX (\<lambda>x y. minloc_rank y < minloc_rank x) a b"
    by (cases a; cases b) (auto simp: minloc_step_def ULM_MAX_def sgt_def minloc_rank_def sint_eq)
qed

lemma pick_reduction:
  fixes rank :: "'a \<Rightarrow> 'b::linorder"
  assumes "\<And>x y. rank x = rank y \<Longrightarrow> x = y"
  shows "reduction (\<lambda>x y. Some (ULM_MAX (\<lambda>x y. rank y < rank x) x y)) (ULM_MAX (\<lambda>x y. rank y < rank x))"
proof
  show "ULM_MAX (\<lambda>x y. rank y < rank x) x y = ULM_MAX (\<lambda>x y. rank y < rank x) y x" for x y
    using assms [of x y] by (auto simp: ULM_MAX_def not_less dest: order_antisym)
qed (auto simp: ULM_MAX_def)

interpretation maxl: reduction "\<lambda>x y. Some (maxloc_step (=) sgt sgt x y)"
  "maxloc_step (=) sgt sgt :: ('v::len word, 'l::len word) loc_t \<Rightarrow> _ \<Rightarrow> _"
  unfolding maxloc_pick by (rule pick_reduction) (simp add: rank_inj)

interpretation minl: reduction "\<lambda>x y. Some (minloc_step (=) sgt sgt x y)"
  "minloc_step (=) sgt sgt :: ('v::len word, 'l::len word) loc_t \<Rightarrow> _ \<Rightarrow> _"
  unfolding minloc_pick by (rule pick_reduction) (simp add: rank_inj)

lemmas reductions = smax.reduction_axioms smin.reduction_axioms umax.reduction_axioms umin.reduction_axioms
  sum.reduction_axioms prod.reduction_axioms ssum.reduction_axioms sprod.reduction_axioms
  pprod.reduction_axioms band.reduction_axioms bor.reduction_axioms bxor.reduction_axioms
  lnd.reduction_axioms lr.reduction_axioms lxr.reduction_axioms maxl.reduction_axioms minl.reduction_axioms

subsection \<open>The functions of the tables\<close>

definition orderly :: "nat \<Rightarrow> 'r ulm_func \<Rightarrow> bool" where
  "orderly i f \<longleftrightarrow> (\<forall>n ms ms' r r'. mset ms = mset ms' \<longrightarrow> (\<forall>m \<in> set ms. array_len i m = Some n) \<longrightarrow>
     reduce f (int n) ms = Some r \<longrightarrow> reduce f (int n) ms' = Some r' \<longrightarrow> r = r')"

lemma reduce_cast:
  assumes c: "cast_ok i cast c"
    and f: "\<And>b a n. f b a n = do {x \<leftarrow> cast a; y \<leftarrow> cast b; map_option c (w n x y)}"
  shows "foldM (\<lambda>acc b. f b acc n) (c a) (map c bs) = map_option c (foldM (\<lambda>acc b. w n acc b) a bs)"
proof (induction bs arbitrary: a)
  case (Cons b bs)
  then show ?case by (cases "w n a b") (simp_all add: f cast_okD(1) [OF c])
qed simp

lemma casts_list:
  assumes c: "cast_ok i cast c" and "\<forall>m \<in> set ms. array_len i m = Some n"
  shows "\<exists>xss. ms = map c xss \<and> (\<forall>xs \<in> set xss. length xs = n)"
  using assms(2)
proof (induction ms)
  case (Cons m ms)
  then obtain xss where "ms = map c xss" "\<forall>xs \<in> set xss. length xs = n" by auto
  moreover obtain xs where "m = c xs" "length xs = n" using Cons.prems cast_okD(4) [OF c] by (metis list.set_intros(1))
  ultimately show ?case by (intro exI [of _ "xs # xss"]) simp
qed simp

lemma foldM_lengths:
  assumes "\<And>a b. length a = n \<Longrightarrow> length b = n \<Longrightarrow> w a b = while_n e (int n) a b"
    and "length a = n" "\<forall>b \<in> set bs. length b = n"
  shows "foldM w a bs = foldM (\<lambda>acc b. while_n e (int n) acc b) a bs"
  using assms(2,3)
proof (induction bs arbitrary: a)
  case (Cons b bs)
  show ?case
  proof (cases "while_n e (int n) a b")
    case (Some z)
    then have "length z = n" using while_n_Some_drop(1) [OF Some] Cons.prems(1) by simp
    with Cons Some show ?thesis by (simp add: assms(1))
  qed (use Cons.prems in \<open>simp add: assms(1)\<close>)
qed simp

lemma orderly_loop:
  assumes c: "cast_ok i cast c"
    and f: "\<And>b a n. f b a n = do {x \<leftarrow> cast a; y \<leftarrow> cast b; map_option c (w n x y)}"
    and w: "\<And>n a b. length a = n \<Longrightarrow> length b = n \<Longrightarrow> w (int n) a b = while_n e (int n) a b"
    and r: "reduction e g"
  shows "orderly i f"
  unfolding orderly_def
proof (intro allI impI, goal_cases)
  case (1 n ms ms' r r')
  have "set ms = set ms'" using 1(1) by (metis mset_eq_setD)
  with 1(2) obtain xss yss where x: "ms = map c xss" "ms' = map c yss" "\<forall>xs \<in> set xss. length xs = n"
      "\<forall>ys \<in> set yss. length ys = n"
    using casts_list [OF c] by metis
  have "inj c" using cast_okD(1) [OF c] by (metis injI option.inject)
  with 1(1) x have m: "mset xss = mset yss" by (metis mset_map multiset.inj_map inj_eq)
  obtain a bs where a: "xss = a # bs" using 1(3) x(1) by (cases xss) (auto simp: reduce_def)
  obtain a' bs' where a': "yss = a' # bs'" using 1(4) x(2) by (cases yss) (auto simp: reduce_def)
  have runs: "foldM (\<lambda>acc b. w (int n) acc b) a bs = foldM (\<lambda>acc b. while_n e (int n) acc b) a bs"
      "foldM (\<lambda>acc b. w (int n) acc b) a' bs' = foldM (\<lambda>acc b. while_n e (int n) acc b) a' bs'"
    using x(3,4) a a' by (auto intro!: foldM_lengths w)
  from 1(3,4) x a a' obtain z z' where z: "r = c z" "r' = c z'"
      "foldM (\<lambda>acc b. while_n e (int n) acc b) a bs = Some z"
      "foldM (\<lambda>acc b. while_n e (int n) acc b) a' bs' = Some z'"
    by (auto simp: reduce_def reduce_cast [OF c f] runs)
  with reduction.order_irrelevant [OF r, of a bs a' bs' n z z'] m x(3) a a' show ?case by simp
qed

lemma for_i_while_n:
  "length a = n \<Longrightarrow> length b = n \<Longrightarrow> for_i h 0 (int n) a b = while_n (\<lambda>x y. Some (h x y)) (int n) a b"
  using while_n_total [of n a b "\<lambda>x y. Some (h x y)" h] by (simp add: for_i_nat)

lemma orderly_while:
  assumes "cast_ok i cast c"
    and "\<And>b a n. f b a n = do {x \<leftarrow> cast a; y \<leftarrow> cast b; map_option c (while_n e n x y)}"
    and "reduction e g"
  shows "orderly i f"
  by (rule orderly_loop [OF assms(1,2) refl assms(3)])

lemma orderly_for:
  assumes "cast_ok i cast c"
    and "\<And>b a n. f b a n = do {x \<leftarrow> cast a; y \<leftarrow> cast b; map_option c (for_i h 0 n x y)}"
    and "reduction (\<lambda>x y. Some (h x y)) g"
  shows "orderly i f"
  by (rule orderly_loop [OF assms(1,2) for_i_while_n assms(3)])

lemmas orderly_rules = casts_ok(1-13) [THEN orderly_while] casts_ok(14-) [THEN orderly_for]

text \<open>The pairs of an operation and an index whose arithmetic is exact: the integers, bytes and the pairs of
  integers.\<close>

definition exact :: "op_kind \<Rightarrow> nat \<Rightarrow> bool" where
  "exact k i \<longleftrightarrow> (if k \<in> {OP_MAXLOC, OP_MINLOC} then i \<in> {16, 17, 18, 20} else int_index i \<or> i = 12)"

lemma orderly_list: "list_all2 (\<lambda>i f. exact k i \<longrightarrow> orderly i f) [0..<26] (op_table fpu k)"
  by (cases k; simp only: lampi_ops upt_26 list_all2_Cons list_all2_Nil; intro conjI refl impI;
    (simp add: exact_def int_index_def; fail)?, (rule orderly_rules, rule ulm_func_defs, rule reductions)?)

lemma orderly_table: "i < 26 \<Longrightarrow> exact k i \<Longrightarrow> orderly i (op_table fpu k ! i)"
  using list_all2_nthD2 [OF orderly_list, of i fpu k] by simp

end
