(* ===== verification/Reduction_Life.thy ===== *)
theory Reduction_Life
  imports Reduction_Init
begin

section \<open>The lifetime of user-defined operations\<close>

text \<open>
  \<^verbatim>\<open>MPI_Op_free\<close> enters the storage of an operation into the table of freeable pointers and releases the
  whole table when no message is pending. The invariant: the handles the program holds, and the pointers in
  the table, are allocated and distinct, so that nothing is freed twice and nothing is used after it is freed.
\<close>

subsection \<open>Releasing the table\<close>

definition slots :: "nat \<Rightarrow> nat option list \<Rightarrow> nat set" where
  "slots i a = {q. \<exists>j. i \<le> j \<and> j < length a \<and> a ! j = Some q}"

lemma slots_step: "i < length a \<Longrightarrow> slots i a = set_option (a ! i) \<union> slots (Suc i) a"
  unfolding slots_def by (auto simp: Suc_le_eq intro: less_imp_le) (metis le_neq_implies_less option.inject)+

lemma slots_upd: "slots (Suc i) (a[i := x]) = slots (Suc i) a"
  by (auto simp: slots_def nth_list_update)

definition no_dup :: "nat \<Rightarrow> nat option list \<Rightarrow> bool" where
  "no_dup i a \<longleftrightarrow> (\<forall>j k q. i \<le> j \<longrightarrow> j < k \<longrightarrow> k < length a \<longrightarrow> a ! j = Some q \<longrightarrow> a ! k \<noteq> Some q)"

lemma free_slots_ok:
  assumes "i \<le> length a" "no_dup i a" "\<forall>p \<in> slots i a. NUMBER_OF_OPS \<le> p \<and> os_mem s p \<noteq> None"
  shows "free_slots (int i) (int (length a)) a s =
    Some (take i a @ replicate (length a - i) None, s\<lparr>os_mem := os_mem s |` (- slots i a)\<rparr>)"
  using assms
proof (induction "length a - i" arbitrary: i a s)
  case 0
  then show ?case by (simp add: free_slots.simps slots_def restrict_map_def)
next
  case (Suc d)
  then have i: "i < length a" by simp
  have dup: "no_dup (Suc i) a" using Suc.prems(2) unfolding no_dup_def by (meson Suc_leD)
  have take: "take (Suc i) (a[i := None]) @ replicate (length a - Suc i) None = take i a @ replicate (length a - i) None"
    using i by (simp add: take_Suc_conv_app_nth Suc_diff_Suc flip: replicate_Suc)
  show ?case
  proof (cases "a ! i")
    case None
    have "free_slots (int (Suc i)) (int (length a)) a s =
        Some (take (Suc i) a @ replicate (length a - Suc i) None, s\<lparr>os_mem := os_mem s |` (- slots (Suc i) a)\<rparr>)"
      using Suc.hyps(2) Suc.prems(3) i dup slots_step [OF i] by (intro Suc.hyps(1)) auto
    moreover have "a[i := None] = a" using None i by (metis list_update_id)
    ultimately show ?thesis using i None take slots_step [OF i]
      by (simp add: free_slots.simps [of "int i"] add.commute)
  next
    case (Some q)
    have q: "NUMBER_OF_OPS \<le> q" "os_mem s q \<noteq> None" using Suc.prems(3) slots_step [OF i] Some by auto
    let ?s = "s\<lparr>os_mem := (os_mem s)(q := None)\<rparr>" and ?a = "a[i := None]"
    have nq: "q \<notin> slots (Suc i) a"
      using Suc.prems(2) Some by (auto simp: slots_def no_dup_def Suc_le_eq)
    have "free_slots (int (Suc i)) (int (length ?a)) ?a ?s =
        Some (take (Suc i) ?a @ replicate (length ?a - Suc i) None, ?s\<lparr>os_mem := os_mem ?s |` (- slots (Suc i) ?a)\<rparr>)"
    proof (rule Suc.hyps(1))
      show "no_dup (Suc i) ?a" using dup by (auto simp: no_dup_def nth_list_update)
      show "\<forall>p \<in> slots (Suc i) ?a. NUMBER_OF_OPS \<le> p \<and> os_mem ?s p \<noteq> None"
        using Suc.prems(3) slots_step [OF i] nq by (auto simp: slots_upd)
    qed (use Suc.hyps(2) i in auto)
    moreover have "(os_mem s)(q := None) |` (- slots (Suc i) a) = os_mem s |` (- slots i a)"
      using slots_step [OF i] Some by (auto simp: fun_eq_iff restrict_map_def)
    moreover have "ulm_free_cell q s = Some ?s" using q by (simp add: ulm_free_cell_def)
    ultimately show ?thesis using i Some take
      by (simp add: free_slots.simps [of "int i"] add.commute slots_upd)
  qed
qed

text \<open>The table is well formed, and its pointers are allocated and distinct.\<close>

definition tab_ok :: "'r op_state \<Rightarrow> bool" where
  "tab_ok s \<longleftrightarrow> pt_inv (os_free_table s)
     \<and> (\<forall>h p. pt_map (os_free_table s) h = Some p \<longrightarrow> NUMBER_OF_OPS \<le> p \<and> os_mem s p \<noteq> None)
     \<and> (\<forall>h h' p. pt_map (os_free_table s) h = Some p \<longrightarrow> pt_map (os_free_table s) h' = Some p \<longrightarrow> h = h')"

lemma free_all_ok:
  assumes "tab_ok s"
  shows "\<exists>t. free_all s = Some (s\<lparr>os_mem := os_mem s |` (- ran (pt_map (os_free_table s))), os_free_table := t\<rparr>)
    \<and> pt_inv t \<and> pt_map t = Map.empty"
proof (cases "pt_addr (os_free_table s)")
  case None
  let ?t = "os_free_table s"
  have empty: "pt_map ?t = Map.empty" using None by (simp add: pt_map_def fun_eq_iff)
  have "os_mem s |` (- ran (pt_map ?t)) = os_mem s" unfolding empty by (simp add: restrict_map_def)
  moreover have "?t = ptr_table_zero" using assms None
    by (simp add: tab_ok_def pt_inv_def ptr_table_zero_def)
  moreover have "free_all s = Some (s\<lparr>os_free_table := ?t\<rparr>)" using assms None
    by (simp add: free_all_def tab_ok_def pt_inv_def atomic_lock_thread_def atomic_unlock_thread_def
      free_slots.simps [of 0])
  ultimately show ?thesis using empty by (intro exI [of _ ?t]) (simp add: pt_inv_zero)
next
  case (Some a)
  let ?t = "os_free_table s"
  have b: "pt_body ?t a" "a \<noteq> []" "\<not> pt_lock ?t" using assms Some by (auto simp: tab_ok_def dest: pt_inv_body)
  have nth: "j < length a \<Longrightarrow> pt_map ?t (int j) = a ! j" for j by (simp add: pt_map_body [OF b(1)])
  have ran: "slots 0 a = ran (pt_map ?t)"
  proof (intro set_eqI iffI)
    fix p assume "p \<in> ran (pt_map ?t)"
    then obtain h where "pt_map ?t h = Some p" by (auto simp: ran_def)
    then show "p \<in> slots 0 a"
      by (auto simp: pt_map_body [OF b(1)] slots_def split: if_splits intro!: exI [of _ "nat h"])
  qed (auto simp: slots_def ran_def simp flip: nth)
  have "no_dup 0 a" using assms nth unfolding no_dup_def tab_ok_def
    by (metis less_trans nat_int_comparison(2) less_irrefl)
  moreover have "\<forall>p \<in> slots 0 a. NUMBER_OF_OPS \<le> p \<and> os_mem s p \<noteq> None"
    using assms unfolding ran tab_ok_def by (auto simp: ran_def)
  ultimately have "free_slots 0 (int (length a)) a s =
      Some (replicate (length a) None, s\<lparr>os_mem := os_mem s |` (- slots 0 a)\<rparr>)"
    using free_slots_ok [of 0 a s] by simp
  moreover define t' where "t' = ?t\<lparr>pt_addr := Some (replicate (length a) None), pt_lowest_free := 0,
    pt_number_free := pt_size ?t, pt_lock := False\<rparr>"
  moreover have "pt_inv t'" "pt_map t' = Map.empty" using b
    by (auto simp: t'_def pt_inv_def pt_body_def lowest_at_def pt_map_def fun_eq_iff)
  ultimately show ?thesis using b Some ran
    by (intro exI [of _ t']) (simp add: free_all_def pt_body_def atomic_lock_thread_def atomic_unlock_thread_def)
qed

subsection \<open>Adding to the table\<close>

lemma next_alloc_same:
  assumes "next_alloc s = (ok, s1)"
  shows "s1 = s\<lparr>os_allocs := os_allocs s1\<rparr>" "set (os_allocs s1) \<subseteq> set (os_allocs s)"
    "False \<notin> set (os_allocs s) \<Longrightarrow> ok"
  using assms by (auto simp: next_alloc_def split: list.splits)

text \<open>Where no allocation fails, the pointer is entered into the table and nothing else changes.\<close>

lemma free_table_add_ok:
  assumes t: "tab_ok s" and a: "False \<notin> set (os_allocs s)"
    and p: "NUMBER_OF_OPS \<le> p" "os_mem s p \<noteq> None" "p \<notin> ran (pt_map (os_free_table s))"
  shows "\<exists>h s'. free_table_add (Some p) s = Some (h, s') \<and> 0 \<le> h \<and> tab_ok s' \<and> False \<notin> set (os_allocs s')
    \<and> s' = s\<lparr>os_allocs := os_allocs s', os_free_table := os_free_table s'\<rparr>
    \<and> ran (pt_map (os_free_table s')) = insert p (ran (pt_map (os_free_table s)))"
proof -
  let ?t = "os_free_table s"
  obtain ok s1 where s1: "(if pt_addr ?t = None \<or> pt_number_free ?t = 0 then next_alloc s else (True, s)) = (ok, s1)"
    by (metis surj_pair)
  have same: "s1 = s\<lparr>os_allocs := os_allocs s1\<rparr>" "False \<notin> set (os_allocs s1)" "ok"
    using s1 next_alloc_same [of s ok s1] a by (auto split: if_splits)
  from mpi_ptr_table_add_ok [of ?t "os_threads s" p] t obtain h t' where
    h: "mpi_ptr_table_add (os_threads s) True (Some p) ?t = Some (h, t')" "pt_inv t'" "0 \<le> h"
      "pt_map ?t h = None" "pt_map t' = (pt_map ?t)(h \<mapsto> p)"
    by (auto simp: tab_ok_def)
  define s' where "s' = s1\<lparr>os_free_table := t'\<rparr>"
  have s': "s' = s\<lparr>os_allocs := os_allocs s', os_free_table := t'\<rparr>" "os_mem s' = os_mem s" "os_free_table s' = t'"
      "os_allocs s' = os_allocs s1"
    using same(1) by (auto simp: s'_def) (metis op_state.surjective op_state.update_convs(4) op_state.select_convs(1))+
  have "free_table_add (Some p) s = Some (h, s')"
    using s1 h(1) same(3) by (simp add: free_table_add_def s'_def)
  moreover have "tab_ok s'"
    using t h(2,4) p by (auto simp: tab_ok_def s'(2,3) h(5) ran_def split: if_splits)
  moreover have "ran (pt_map t') = insert p (ran (pt_map ?t))"
    using h(4,5) by (simp add: ran_map_upd)
  ultimately show ?thesis using h(3) same(2) s' by auto
qed

end
