(* ===== verification/Reduction_Session.thy ===== *)
theory Reduction_Session
  imports Reduction_Life
begin

section \<open>Programs that create and free operations\<close>

text \<open>
  The invariant of a program that creates and frees operations, and what each call does under it. The
  list \<open>held\<close> has the handles that were created and not yet freed.
\<close>

definition func_of :: "'r op_state \<Rightarrow> nat \<Rightarrow> nat option" where
  "func_of s op = Option.bind (read_op s op) op_func"

definition tabled :: "'r op_state \<Rightarrow> nat set" where
  "tabled s = ran (pt_map (os_free_table s))"

definition user_op :: "'r op_state \<Rightarrow> nat \<Rightarrow> nat \<Rightarrow> 'r ulm_func \<Rightarrow> bool" where
  "user_op s op a f \<longleftrightarrow> NUMBER_OF_OPS \<le> op \<and> NUMBER_OF_OPS \<le> a
     \<and> (\<exists>u. read_op s op = Some u \<and> op_isbasic u = 0 \<and> op_func u = Some a) \<and> read_funcs s a = Some [Some f]"

definition held_ok :: "nat list \<Rightarrow> 'r op_state \<Rightarrow> bool" where
  "held_ok held s \<longleftrightarrow> distinct held
     \<and> (\<forall>op \<in> set held. op \<notin> tabled s \<and> (\<exists>a f. user_op s op a f \<and> a \<notin> tabled s))
     \<and> inj_on (func_of s) (set held)"

definition predefined_ok :: "'r fpu \<Rightarrow> nat list \<Rightarrow> 'r op_state \<Rightarrow> bool" where
  "predefined_ok fpu held s \<longleftrightarrow> (\<forall>k. has_table s k (map Some (op_table fpu k))
     \<and> (\<forall>a. func_of s (op_addr k) = Some a \<longrightarrow> a \<notin> tabled s \<and> (\<forall>op \<in> set held. func_of s op \<noteq> Some a)))"

definition life_inv :: "'r fpu \<Rightarrow> nat list \<Rightarrow> 'r op_state \<Rightarrow> bool" where
  "life_inv fpu held s \<longleftrightarrow> mem_ok s \<and> tab_ok s \<and> held_ok held s \<and> predefined_ok fpu held s"

lemma user_op_func: "user_op s op a f \<Longrightarrow> func_of s op = Some a"
  by (auto simp: user_op_def func_of_def)

lemma has_table_func: "has_table s k fs \<longleftrightarrow> (\<exists>u a. read_op s (op_addr k) = Some u \<and> op_isbasic u = 1 \<and> op_commute u = 1
    \<and> func_of s (op_addr k) = Some a \<and> read_funcs s a = Some fs)"
  by (auto simp: has_table_def func_of_def)

subsection \<open>Changes of the memory that keep the invariant\<close>

text \<open>The cells that matter are those of the operations held and of the predefined ones.\<close>

lemma life_inv_frame:
  assumes inv: "life_inv fpu held s" and m: "mem_ok s'" and t: "tab_ok s'" "tabled s' \<subseteq> tabled s \<union> X"
    and sub: "set held' \<subseteq> set held" "distinct held'"
    and same: "\<And>p. os_mem s p \<noteq> None \<Longrightarrow> p \<notin> tabled s \<Longrightarrow> os_mem s' p = os_mem s p"
    and x: "\<And>op. op \<in> set held' \<Longrightarrow> op \<notin> X \<and> the (func_of s op) \<notin> X" "\<And>k. the (func_of s (op_addr k)) \<notin> X"
  shows "life_inv fpu held' s'"
proof -
  have user: "user_op s' op a f \<and> op \<notin> tabled s' \<and> a \<notin> tabled s'" "func_of s' op = func_of s op"
    if "op \<in> set held'" "user_op s op a f" "op \<notin> tabled s" "a \<notin> tabled s" for op a f
  proof -
    have "os_mem s op \<noteq> None" "os_mem s a \<noteq> None"
      using that(2) by (auto simp: user_op_def read_op_def read_funcs_def split: option.splits)
    then have "os_mem s' op = os_mem s op" "os_mem s' a = os_mem s a" using same that(3,4) by auto
    moreover have "a \<notin> X" "op \<notin> X" using x(1) [OF that(1)] user_op_func [OF that(2)] by auto
    ultimately show "user_op s' op a f \<and> op \<notin> tabled s' \<and> a \<notin> tabled s'" "func_of s' op = func_of s op"
      using that t(2) by (auto simp: user_op_def read_op_def read_funcs_def func_of_def)
  qed
  have held: "\<exists>a f. user_op s op a f \<and> op \<notin> tabled s \<and> a \<notin> tabled s" if "op \<in> set held'" for op
    using inv sub that by (auto simp: life_inv_def held_ok_def)
  have fo: "func_of s' op = func_of s op" if "op \<in> set held'" for op
    using held [OF that] user(2) [OF that] by blast
  have "held_ok held' s'"
  proof -
    have "inj_on (func_of s) (set held')" using inv sub by (auto simp: life_inv_def held_ok_def intro: inj_on_subset)
    then have "inj_on (func_of s') (set held')" using fo by (auto simp: inj_on_def)
    then show ?thesis using sub(2) held user(1) unfolding held_ok_def by blast
  qed
  moreover have "predefined_ok fpu held' s'"
    unfolding predefined_ok_def
  proof (intro allI)
    fix k
    obtain a where a: "has_table s k (map Some (op_table fpu k))" "func_of s (op_addr k) = Some a"
        "a \<notin> tabled s" "\<forall>op \<in> set held. func_of s op \<noteq> Some a"
      using inv unfolding life_inv_def predefined_ok_def by (metis has_table_func)
    have "op_addr k \<notin> tabled s"
      using inv op_addr_less [of k] by (fastforce simp: life_inv_def tab_ok_def tabled_def ran_def)
    moreover have "os_mem s (op_addr k) \<noteq> None" "os_mem s a \<noteq> None"
      using a(1,2) by (auto simp: has_table_func read_op_def read_funcs_def split: option.splits)
    ultimately have eq: "os_mem s' (op_addr k) = os_mem s (op_addr k)" "os_mem s' a = os_mem s a"
      using same a(3) by auto
    then have f: "func_of s' (op_addr k) = Some a" using a(2) by (simp add: func_of_def read_op_def)
    have "has_table s' k (map Some (op_table fpu k))"
      using a(1,2) f eq by (auto simp: has_table_func read_op_def read_funcs_def)
    then show "has_table s' k (map Some (op_table fpu k)) \<and> (\<forall>a. func_of s' (op_addr k) = Some a \<longrightarrow>
        a \<notin> tabled s' \<and> (\<forall>op \<in> set held'. func_of s' op \<noteq> Some a))"
      using f a(3,4) t(2) x(2) [of k] a(2) fo sub(1) by auto
  qed
  ultimately show ?thesis using m t(1) by (simp add: life_inv_def)
qed

subsection \<open>What the calls do\<close>

lemma malloc_cellD:
  assumes "malloc_cell c s = (p, s1)"
  shows "os_free_table s1 = os_free_table s"
    "p = None \<Longrightarrow> os_mem s1 = os_mem s \<and> os_next s1 = os_next s"
    "p = Some q \<Longrightarrow> q = os_next s \<and> os_mem s1 = (os_mem s)(q \<mapsto> c) \<and> os_next s1 = Suc q"
  using assms by (auto simp: malloc_cell_def next_alloc_def write_cell_def split: list.splits bool.splits)

lemma mem_ok_extend:
  assumes "mem_ok s" "os_next s \<le> os_next s'" "\<And>p. p < os_next s \<Longrightarrow> os_mem s' p = os_mem s p"
    and "\<And>p. os_next s' \<le> p \<Longrightarrow> os_mem s' p = None"
  shows "mem_ok s'"
  unfolding mem_ok_def
proof (intro conjI allI impI)
  show "\<exists>u. read_op s' (op_addr k) = Some u \<and> op_isbasic u = 1 \<and> op_commute u = 1" for k
    using assms(1,3) op_addr_less [of k] unfolding mem_ok_def read_op_def
    by (metis order_less_le_trans)
qed (use assms in \<open>auto simp: mem_ok_def\<close>)

lemma life_inv_extend:
  assumes inv: "life_inv fpu held s" and m: "mem_ok s'" "\<And>p. p < os_next s \<Longrightarrow> os_mem s' p = os_mem s p"
    and t: "os_free_table s' = os_free_table s"
  shows "life_inv fpu held s'"
proof -
  have old: "p < os_next s" if "os_mem s p \<noteq> None" for p
    using inv that by (auto simp: life_inv_def mem_ok_def) (metis not_less option.discI)
  have "tab_ok s'" using inv m(2) old t unfolding life_inv_def tab_ok_def by metis
  then show ?thesis
    using inv m old t by (intro life_inv_frame [OF inv, where X = "{}"]) (auto simp: tabled_def life_inv_def held_ok_def)
qed

text \<open>The new operation joins the ones held: its two cells are fresh.\<close>

lemma life_inv_new:
  assumes inv: "life_inv fpu held s" and u: "user_op s op a f"
    and new: "op \<notin> set held" "op \<notin> tabled s" "a \<notin> tabled s"
    and uniq: "\<And>p. p \<in> set held \<Longrightarrow> func_of s p \<noteq> Some a" "\<And>k. func_of s (op_addr k) \<noteq> Some a"
  shows "life_inv fpu (op # held) s"
proof -
  note fo = user_op_func [OF u]
  have h: "held_ok held s" and p: "predefined_ok fpu held s" using inv by (auto simp: life_inv_def)
  have "inj_on (func_of s) (insert op (set held))"
    using h uniq(1) fo by (fastforce simp: held_ok_def inj_on_def)
  then have "held_ok (op # held) s" using h u new by (auto simp: held_ok_def)
  moreover have "predefined_ok fpu (op # held) s" using p uniq(2) fo by (simp add: predefined_ok_def) metis
  ultimately show ?thesis using inv by (simp add: life_inv_def)
qed

text \<open>Every pointer that matters is below the next address.\<close>

lemma life_inv_below:
  assumes inv: "life_inv fpu held s"
  shows "p \<in> tabled s \<Longrightarrow> p < os_next s" "op \<in> set held \<Longrightarrow> op < os_next s"
    "op \<in> set held \<Longrightarrow> func_of s op = Some a \<Longrightarrow> a < os_next s" "func_of s (op_addr k) = Some a \<Longrightarrow> a < os_next s"
proof -
  have below: "q < os_next s" if "os_mem s q \<noteq> None" for q
    using inv that unfolding life_inv_def mem_ok_def by (metis not_le)
  have cells: "read_op s q = Some u \<Longrightarrow> q < os_next s" "read_funcs s q = Some fs \<Longrightarrow> q < os_next s" for q u fs
    using below [of q] by (auto simp: read_op_def read_funcs_def split: option.splits)
  show "p \<in> tabled s \<Longrightarrow> p < os_next s"
    using inv below by (auto simp: life_inv_def tab_ok_def tabled_def ran_def)
  assume op: "op \<in> set held"
  then obtain a' f where u: "user_op s op a' f" using inv by (auto simp: life_inv_def held_ok_def)
  then show "op < os_next s" using cells by (auto simp: user_op_def)
  assume "func_of s op = Some a"
  then show "a < os_next s" using u user_op_func [OF u] cells by (auto simp: user_op_def)
next
  assume "func_of s (op_addr k) = Some a"
  moreover have "has_table s k (map Some (op_table fpu k))" using inv by (simp add: life_inv_def predefined_ok_def)
  ultimately have "read_funcs s a = Some (map Some (op_table fpu k))" by (auto simp: has_table_func)
  then show "a < os_next s" using inv unfolding life_inv_def mem_ok_def read_funcs_def
    by (metis not_le option.simps(4) option.discI)
qed

text \<open>\<open>kept X s s'\<close>: no block of \<open>s\<close> has changed in \<open>s'\<close> unless it was released, addresses are not used again, the table
  has gained at most \<open>X\<close>, and what is in the table or in \<open>X\<close> is in the table afterwards or released.\<close>

definition kept :: "nat set \<Rightarrow> 'r op_state \<Rightarrow> 'r op_state \<Rightarrow> bool" where
  "kept X s s' \<longleftrightarrow> os_next s \<le> os_next s' \<and> (\<forall>p < os_next s. os_mem s' p = os_mem s p \<or> os_mem s' p = None)
     \<and> tabled s' \<subseteq> tabled s \<union> X \<and> (\<forall>p \<in> tabled s \<union> X. p \<in> tabled s' \<or> os_mem s' p = None)"

lemma kept_extend:
  "os_next s \<le> os_next s' \<Longrightarrow> (\<And>p. p < os_next s \<Longrightarrow> os_mem s' p = os_mem s p) \<Longrightarrow> os_free_table s' = os_free_table s \<Longrightarrow>
    kept {} s s'"
  by (simp add: kept_def tabled_def)

lemma Op_create_ok:
  assumes inv: "life_inv fpu held s"
  obtains (fail) s' where "PMPI_Op_create f commute mop s = Some (MPI_ERR_BUFFER, mop, s')" "life_inv fpu held s'"
      "kept {} s s'"
  | (ok) op a s' where "PMPI_Op_create f commute mop s = Some (MPI_SUCCESS, Some op, s')" "life_inv fpu (op # held) s'"
      "user_op s' op a f" "op \<notin> set held" "kept {} s s'"
proof -
  have m: "mem_ok s" using inv by (simp add: life_inv_def)
  let ?n = "os_next s"
  have n: "NUMBER_OF_OPS \<le> ?n" "\<And>p. ?n \<le> p \<Longrightarrow> os_mem s p = None" using m by (auto simp: mem_ok_def)
  obtain p1 s1 where s1: "malloc_cell (OpCell (os_junk s)) s = (p1, s1)" by fastforce
  obtain p2 s2 where s2: "malloc_cell (FuncCell [None]) s1 = (p2, s2)" by fastforce
  note d1 = malloc_cellD [OF s1] and d2 = malloc_cellD [OF s2]
  note defs = PMPI_Op_create_def op_errhandler_def ulm_free_cell_def write_cell_def read_op_def
  have keep: "life_inv fpu held s'" if "\<And>p. p < ?n \<Longrightarrow> os_mem s' p = os_mem s p"
      "\<And>p. os_next s' \<le> p \<Longrightarrow> os_mem s' p = None" "?n \<le> os_next s'" "os_free_table s' = os_free_table s" for s'
    using that by (intro life_inv_extend [OF inv] mem_ok_extend [OF m]) auto
  show thesis
  proof (cases p1)
    case None
    with d1 n show thesis
      by (intro fail [of "op_errhandler MPI_ERR_BUFFER s1"] keep kept_extend) (auto simp: defs s1)
  next
    case p1: (Some op)
    note d1' = d1(1) d1(3) [OF p1]
    show thesis
    proof (cases p2)
      case None
      with d1' d2(1,2) n show thesis
        by (intro fail [of "op_errhandler MPI_ERR_BUFFER (s2\<lparr>os_mem := (os_mem s2)(op := None)\<rparr>)"] keep kept_extend)
           (auto simp: defs s1 s2 p1)
    next
      case p2: (Some a)
      note d2' = d2(1) d2(3) [OF p2]
      define u where "u = (os_junk s)\<lparr>op_func := Some a, op_isbasic := 0, op_commute := (if commute \<noteq> 0 then 1 else 0), op_fortran := 0\<rparr>"
      define s' where "s' = s2\<lparr>os_mem := (os_mem s2)(a \<mapsto> FuncCell [Some f], op \<mapsto> OpCell u)\<rparr>"
      have c: "PMPI_Op_create f commute mop s = Some (MPI_SUCCESS, Some op, s')"
        using d1' d2' by (simp add: defs s1 s2 p1 p2 s'_def u_def)
      have mem: "os_mem s' = (os_mem s)(a \<mapsto> FuncCell [Some f], op \<mapsto> OpCell u)" "op = ?n" "a = Suc ?n"
          "os_next s' = Suc (Suc ?n)" "os_free_table s' = os_free_table s"
        using d1' d2' by (auto simp: s'_def)
      have inv': "life_inv fpu held s'" using mem n by (intro keep) auto
      have user: "user_op s' op a f" using n(1) by (simp add: user_op_def read_op_def read_funcs_def mem u_def)
      have new: "op \<notin> tabled s'" "a \<notin> tabled s'" "op \<notin> set held"
        using life_inv_below(1,2) [OF inv] mem by (fastforce simp: tabled_def)+
      have "func_of s' p = func_of s p" if "p < ?n" for p using that mem by (simp add: func_of_def read_op_def)
      then have "func_of s' p \<noteq> Some a" if "p \<in> set held \<or> p \<in> range op_addr" for p
        using that life_inv_below(2-) [OF inv] mem(3) n(1) op_addr_less
        by (metis Suc_n_not_le_n less_or_eq_imp_le order_less_le_trans rangeE)
      then have uniq: "\<And>p. p \<in> set held \<Longrightarrow> func_of s' p \<noteq> Some a" "\<And>k. func_of s' (op_addr k) \<noteq> Some a" by auto
      have "kept {} s s'" using mem by (intro kept_extend) auto
      with life_inv_new [OF inv' user new(3,1,2) uniq] c user new(3) show thesis by (intro ok)
    qed
  qed
qed

lemma life_inv_release:
  assumes inv: "life_inv fpu held s"
  shows "\<exists>s'. free_all s = Some s' \<and> life_inv fpu held s' \<and> tabled s' = {} \<and> os_mem s' = os_mem s |` (- tabled s)
    \<and> os_next s' = os_next s"
proof -
  have t: "tab_ok s" and m: "mem_ok s" using inv by (auto simp: life_inv_def)
  from free_all_ok [OF t] obtain tab where
    tab: "free_all s = Some (s\<lparr>os_mem := os_mem s |` (- tabled s), os_free_table := tab\<rparr>)" "pt_inv tab"
      "pt_map tab = Map.empty"
    by (auto simp: tabled_def)
  let ?s = "s\<lparr>os_mem := os_mem s |` (- tabled s), os_free_table := tab\<rparr>"
  have static: "op_addr k \<notin> tabled s" for k
    using t op_addr_less [of k] by (fastforce simp: tab_ok_def tabled_def ran_def)
  have "mem_ok ?s"
    using m static by (auto simp: mem_ok_def read_op_def restrict_map_def)
  moreover have "tab_ok ?s" using tab(2,3) by (simp add: tab_ok_def)
  ultimately have "life_inv fpu held ?s"
    by (intro life_inv_frame [OF inv, where X = "{}"])
       (use inv tab(3) in \<open>auto simp: tabled_def restrict_map_def life_inv_def held_ok_def\<close>)
  then show ?thesis using tab by (intro exI [of _ ?s]) (simp add: tabled_def)
qed

lemma life_inv_table:
  assumes inv: "life_inv fpu held s" and op: "op \<in> set held" and u: "user_op s op a f"
    and a: "False \<notin> set (os_allocs s)"
  shows "\<exists>h h' s2 s3. free_table_add (Some a) s = Some (h, s2) \<and> 0 \<le> h \<and> free_table_add (Some op) s2 = Some (h', s3)
    \<and> 0 \<le> h' \<and> life_inv fpu (remove1 op held) s3 \<and> os_mem s3 = os_mem s \<and> tabled s3 = {op, a} \<union> tabled s
    \<and> os_next s3 = os_next s"
proof -
  have m: "mem_ok s" and t: "tab_ok s" and h: "held_ok held s" and pre: "predefined_ok fpu held s"
    using inv by (auto simp: life_inv_def)
  have cells: "\<exists>v. os_mem s op = Some (OpCell v)" "os_mem s a = Some (FuncCell [Some f])"
    using u by (auto simp: user_op_def read_op_def read_funcs_def split: option.splits op_cell.splits)
  then have ne: "op \<noteq> a" by auto
  have out: "op \<notin> tabled s" "a \<notin> tabled s"
    using h op user_op_func [OF u] user_op_func by (fastforce simp: held_ok_def)+
  from free_table_add_ok [OF t a, of a] u cells out obtain h1 s2 where
    s2: "free_table_add (Some a) s = Some (h1, s2)" "0 \<le> h1" "tab_ok s2" "False \<notin> set (os_allocs s2)"
      "s2 = s\<lparr>os_allocs := os_allocs s2, os_free_table := os_free_table s2\<rparr>" "tabled s2 = insert a (tabled s)"
    by (auto simp: user_op_def tabled_def)
  have m2: "os_mem s2 = os_mem s" "os_next s2 = os_next s" by (subst s2(5), simp)+
  from free_table_add_ok [OF s2(3,4), of op] u cells out ne m2 s2(6) obtain h2 s3 where
    s3: "free_table_add (Some op) s2 = Some (h2, s3)" "0 \<le> h2" "tab_ok s3"
      "s3 = s2\<lparr>os_allocs := os_allocs s3, os_free_table := os_free_table s3\<rparr>" "tabled s3 = insert op (tabled s2)"
    by (auto simp: user_op_def tabled_def)
  have m3: "os_mem s3 = os_mem s" "os_next s3 = os_next s" by (subst s3(4), simp add: m2)+
  have "life_inv fpu (remove1 op held) s3"
  proof (rule life_inv_frame [OF inv, where X = "{op, a}"])
    show "mem_ok s3" using m by (simp add: mem_ok_def m3 read_op_def)
    show "distinct (remove1 op held)" "set (remove1 op held) \<subseteq> set held"
      using h by (auto simp: held_ok_def set_remove1_subset)
    show "op' \<notin> {op, a} \<and> the (func_of s op') \<notin> {op, a}" if "op' \<in> set (remove1 op held)" for op'
    proof -
      have o: "op' \<in> set held" "op' \<noteq> op" using that h by (auto simp: held_ok_def)
      obtain a' f' where u': "user_op s op' a' f'" using o(1) h by (auto simp: held_ok_def)
      have "func_of s op' \<noteq> func_of s op" using h o op by (auto simp: held_ok_def inj_on_def)
      then have "a' \<noteq> a" using user_op_func [OF u] user_op_func [OF u'] by simp
      moreover have "op' \<noteq> a" using u' cells by (auto simp: user_op_def read_op_def)
      moreover have "a' \<noteq> op" using u' cells by (auto simp: user_op_def read_funcs_def)
      ultimately show ?thesis using o user_op_func [OF u'] by simp
    qed
    show "the (func_of s (op_addr k)) \<notin> {op, a}" for k
    proof -
      obtain ak where ak: "func_of s (op_addr k) = Some ak" "read_funcs s ak = Some (map Some (op_table fpu k))"
        using pre unfolding predefined_ok_def has_table_func by blast
      have "ak \<noteq> a" using pre ak(1) op user_op_func [OF u] unfolding predefined_ok_def by metis
      moreover have "ak \<noteq> op" using ak(2) cells by (auto simp: read_funcs_def)
      ultimately show ?thesis using ak(1) by simp
    qed
  qed (use s2(6) s3(3,5) m3 in auto)
  then show ?thesis using s2 s3 m3 by auto
qed

lemma Op_free_ok:
  assumes inv: "life_inv fpu held s" and op: "op \<in> set held" and u: "user_op s op a f"
    and al: "False \<notin> set (os_allocs s)"
  shows "\<exists>s'. PMPI_Op_free pending (Some (Some op)) s = Some (MPI_SUCCESS, Some None, s')
    \<and> life_inv fpu (remove1 op held) s' \<and> kept {op, a} s s'
    \<and> os_mem s' = (if pending then os_mem s else os_mem s |` (- ({op, a} \<union> tabled s)))"
proof -
  from life_inv_table [OF assms] obtain h h' s2 s3 where
    t: "free_table_add (Some a) s = Some (h, s2)" "0 \<le> h" "free_table_add (Some op) s2 = Some (h', s3)" "0 \<le> h'"
      "life_inv fpu (remove1 op held) s3" "os_mem s3 = os_mem s" "tabled s3 = {op, a} \<union> tabled s" "os_next s3 = os_next s"
    by blast
  from u obtain v where v: "read_op s op = Some v" "op_isbasic v = 0" "op_func v = Some a" by (auto simp: user_op_def)
  from life_inv_release [OF t(5)] obtain s4 where "free_all s3 = Some s4" "life_inv fpu (remove1 op held) s4"
      "os_mem s4 = os_mem s3 |` (- tabled s3)" "tabled s4 = {}" "os_next s4 = os_next s3"
    by blast
  with t v show ?thesis by (simp add: PMPI_Op_free_def kept_def restrict_map_def)
qed

text \<open>Other calls of \<^verbatim>\<open>MPI_Op_free\<close>: a null argument, a null handle or a predefined operation.\<close>

lemma Op_free_other:
  assumes inv: "life_inv fpu held s" and m: "mop = None \<or> mop = Some None \<or> mop = Some (Some (op_addr k))"
  shows "\<exists>s'. PMPI_Op_free pending mop s = Some (MPI_SUCCESS, mop, s') \<and> life_inv fpu held s' \<and> kept {} s s'"
proof -
  obtain u where "read_op s (op_addr k) = Some u" "op_isbasic u = 1"
    using inv unfolding life_inv_def mem_ok_def by blast
  moreover from life_inv_release [OF inv] obtain s' where "free_all s = Some s'" "life_inv fpu held s'" "kept {} s s'"
    by (auto simp: kept_def restrict_map_def)
  moreover have "kept {} s s" by (simp add: kept_def)
  ultimately show ?thesis using m inv by (cases pending) (auto simp: PMPI_Op_free_def)
qed

subsection \<open>Programs\<close>

text \<open>\<open>op_reach fpu held freed s\<close>: the program has reached \<open>s\<close> after the initialisation of the library by creating
  operations, freeing operations it holds, and calls of \<^verbatim>\<open>MPI_Op_free\<close> that name none. The list \<open>held\<close> has the operations
  created and not yet freed with the functions they were created from, \<open>freed\<close> the addresses of the blocks of those it has
  freed. Allocations of \<^verbatim>\<open>MPI_Op_create\<close> may fail; those that \<^verbatim>\<open>MPI_Op_free\<close> makes for its table do not.\<close>

inductive op_reach :: "'r fpu \<Rightarrow> (nat \<times> 'r ulm_func) list \<Rightarrow> nat set \<Rightarrow> 'r op_state \<Rightarrow> bool" for fpu where
  boot: "mpi_init_operations fpu (op_boot junk allocs th) = Some (0, s) \<Longrightarrow> op_reach fpu [] {} s"
| create: "op_reach fpu held freed s \<Longrightarrow> PMPI_Op_create f commute mop s = Some (MPI_SUCCESS, Some op, s') \<Longrightarrow>
    op_reach fpu ((op, f) # held) freed s'"
| create_fail: "op_reach fpu held freed s \<Longrightarrow> PMPI_Op_create f commute mop s = Some (rc, mop', s') \<Longrightarrow> rc \<noteq> MPI_SUCCESS \<Longrightarrow>
    op_reach fpu held freed s'"
| free: "op_reach fpu held freed s \<Longrightarrow> (op, f) \<in> set held \<Longrightarrow> False \<notin> set (os_allocs s) \<Longrightarrow>
    PMPI_Op_free pending (Some (Some op)) s = Some (rc, mop', s') \<Longrightarrow> func_of s op = Some a \<Longrightarrow>
    op_reach fpu (filter (\<lambda>x. fst x \<noteq> op) held) ({op, a} \<union> freed) s'"
| free_other: "op_reach fpu held freed s \<Longrightarrow> mop = None \<or> mop = Some None \<or> mop = Some (Some (op_addr k)) \<Longrightarrow>
    PMPI_Op_free pending mop s = Some (rc, mop', s') \<Longrightarrow> op_reach fpu held freed s'"

definition prog_inv :: "'r fpu \<Rightarrow> (nat \<times> 'r ulm_func) list \<Rightarrow> nat set \<Rightarrow> 'r op_state \<Rightarrow> bool" where
  "prog_inv fpu held freed s \<longleftrightarrow> life_inv fpu (map fst held) s \<and> (\<forall>(op, f) \<in> set held. \<exists>a. user_op s op a f)
     \<and> tabled s \<subseteq> freed \<and> (\<forall>p \<in> freed. p < os_next s \<and> (p \<in> tabled s \<or> os_mem s p = None))"

lemma user_op_kept:
  assumes "kept X s s'" and "life_inv fpu hs s" and "op \<in> set hs" and "user_op s op a f" and "user_op s' op a' f'"
  shows "user_op s' op a f"
proof -
  have lt: "op < os_next s" "a < os_next s" using life_inv_below(2,3) [OF assms(2,3)] user_op_func [OF assms(4)] by auto
  have "os_mem s' op \<noteq> None" "os_mem s' a' \<noteq> None"
    using assms(5) by (auto simp: user_op_def read_op_def read_funcs_def split: option.splits)
  then have op: "os_mem s' op = os_mem s op" using assms(1) lt by (auto simp: kept_def)
  then have "a' = a" using assms(4,5) by (auto simp: user_op_def read_op_def)
  then have "os_mem s' a = os_mem s a" using assms(1) lt(2) \<open>os_mem s' a' \<noteq> None\<close> by (auto simp: kept_def)
  with op assms(4) show ?thesis by (simp add: user_op_def read_op_def read_funcs_def)
qed

lemma prog_inv_kept:
  assumes inv: "prog_inv fpu held freed s" and k: "kept X s s'" and l: "life_inv fpu (map fst held') s'"
    and sub: "set held' \<subseteq> set held" and X: "\<And>p. p \<in> X \<Longrightarrow> p < os_next s"
  shows "prog_inv fpu held' (X \<union> freed) s'"
proof -
  have "\<exists>a. user_op s' op a f" if h: "(op, f) \<in> set held'" for op f
  proof -
    obtain a where "user_op s op a f" using inv h sub unfolding prog_inv_def by blast
    moreover have "op \<in> set (map fst held')" using h by force
    then obtain a' f' where "user_op s' op a' f'" using l by (auto simp: life_inv_def held_ok_def)
    moreover have "op \<in> set (map fst held)" using h sub by force
    moreover have "life_inv fpu (map fst held) s" using inv by (simp add: prog_inv_def)
    ultimately show ?thesis using user_op_kept [OF k, of fpu "map fst held" op a f a' f'] by blast
  qed
  moreover have "p < os_next s' \<and> (p \<in> tabled s' \<or> os_mem s' p = None)" if "p \<in> X \<union> freed" for p
  proof -
    have "p < os_next s" "p \<in> tabled s \<union> X \<or> os_mem s p = None" using that inv X by (auto simp: prog_inv_def)
    then show ?thesis using k unfolding kept_def by (metis order_less_le_trans)
  qed
  moreover have "tabled s' \<subseteq> X \<union> freed" using k inv by (auto simp: kept_def prog_inv_def)
  ultimately show ?thesis using l unfolding prog_inv_def by (auto split: prod.splits)
qed

lemma remove1_fst: "distinct (map fst xs) \<Longrightarrow> remove1 op (map fst xs) = map fst (filter (\<lambda>x. fst x \<noteq> op) xs)"
  by (simp add: distinct_remove1_removeAll removeAll_filter_not_eq filter_map o_def eq_commute)

text \<open>What \<^verbatim>\<open>MPI_Op_free\<close> of an operation the program holds does under the invariant.\<close>

lemma prog_inv_free:
  assumes inv: "prog_inv fpu held freed s" and op: "(op, f) \<in> set held" and al: "False \<notin> set (os_allocs s)"
  shows "\<exists>a s'. user_op s op a f \<and> PMPI_Op_free pending (Some (Some op)) s = Some (MPI_SUCCESS, Some None, s')
    \<and> prog_inv fpu (filter (\<lambda>x. fst x \<noteq> op) held) ({op, a} \<union> freed) s'
    \<and> os_mem s' = (if pending then os_mem s else os_mem s |` (- ({op, a} \<union> freed)))"
proof -
  have li: "life_inv fpu (map fst held) s" using inv by (simp add: prog_inv_def)
  obtain a where u: "user_op s op a f" using inv op by (auto simp: prog_inv_def)
  have oph: "op \<in> set (map fst held)" using op by force
  from Op_free_ok [OF li oph u al, of pending] obtain s' where
    s': "PMPI_Op_free pending (Some (Some op)) s = Some (MPI_SUCCESS, Some None, s')"
      "life_inv fpu (remove1 op (map fst held)) s'" "kept {op, a} s s'"
      "os_mem s' = (if pending then os_mem s else os_mem s |` (- ({op, a} \<union> tabled s)))" by blast
  have "distinct (map fst held)" using li by (simp add: life_inv_def held_ok_def)
  with s'(2) have l': "life_inv fpu (map fst (filter (\<lambda>x. fst x \<noteq> op) held)) s'" by (simp add: remove1_fst)
  have "p < os_next s" if "p \<in> {op, a}" for p
    using that life_inv_below(2,3) [OF li oph] user_op_func [OF u] by auto
  from prog_inv_kept [OF inv s'(3) l' _ this] have "prog_inv fpu (filter (\<lambda>x. fst x \<noteq> op) held) ({op, a} \<union> freed) s'" by auto
  moreover have "os_mem s |` (- ({op, a} \<union> tabled s)) = os_mem s |` (- ({op, a} \<union> freed))"
    using inv by (auto simp: fun_eq_iff restrict_map_def prog_inv_def)
  ultimately show ?thesis using u s'(1,4) by auto
qed

lemma op_reach_inv: "op_reach fpu held freed s \<Longrightarrow> prog_inv fpu held freed s"
proof (induction rule: op_reach.induct)
  case (boot junk allocs th s)
  note i = init_operations_ok [OF boot]
  have "pt_map (ptr_table_zero :: nat ptr_table) = Map.empty" by (simp add: fun_eq_iff pt_map_def ptr_table_zero_def)
  then have "tabled s = {}" "tab_ok s" by (simp_all add: tabled_def tab_ok_def i(2) pt_inv_zero)
  then show ?case using i by (simp add: prog_inv_def life_inv_def held_ok_def predefined_ok_def)
next
  case (create held freed s f commute mop op s')
  have li: "life_inv fpu (map fst held) s" using create.IH by (simp add: prog_inv_def)
  obtain a where c: "life_inv fpu (op # map fst held) s'" "user_op s' op a f" "kept {} s s'"
    by (rule Op_create_ok [OF li, of f commute mop]) (use create.hyps(2) that in auto)
  have "set (map fst held) \<subseteq> set (op # map fst held)" "distinct (map fst held)"
    using li by (auto simp: life_inv_def held_ok_def)
  then have "life_inv fpu (map fst held) s'"
    by (intro life_inv_frame [OF c(1), where X = "{}"]) (use c(1) in \<open>auto simp: life_inv_def\<close>)
  from prog_inv_kept [OF create.IH c(3) this] c(1,2) show ?case by (auto simp: prog_inv_def)
next
  case (create_fail held freed s f commute mop rc mop' s')
  have li: "life_inv fpu (map fst held) s" using create_fail.IH by (simp add: prog_inv_def)
  have "life_inv fpu (map fst held) s' \<and> kept {} s s'"
    by (rule Op_create_ok [OF li, of f commute mop]) (use create_fail.hyps(2,3) in auto)
  with prog_inv_kept [OF create_fail.IH, of "{}" s' held] show ?case by simp
next
  case (free held freed s op f pending rc mop' s' a)
  from prog_inv_free [OF free.IH free.hyps(2,3), of pending] free.hyps(4,5) show ?case by (auto dest!: user_op_func)
next
  case (free_other held freed s mop k pending rc mop' s')
  have "life_inv fpu (map fst held) s" using free_other.IH by (simp add: prog_inv_def)
  from Op_free_other [OF this free_other.hyps(2), of pending] free_other.hyps(3)
  have "life_inv fpu (map fst held) s'" "kept {} s s'" by auto
  from prog_inv_kept [OF free_other.IH this(2,1)] show ?case by simp
qed

end
