(* ===== verification/Reduction_Props.thy ===== *)
theory Reduction_Props
  imports Reduction_Order Reduction_Session
begin

section \<open>Properties of the reduction operations\<close>

text \<open>The properties of the component, over the library's own tables as the initialisation leaves them. The
  concrete inputs use integers in place of floating-point numbers.\<close>

definition exact_ops :: "int fp_ops" where
  "exact_ops = \<lparr>fadd = (+), fsub = (-), fmul = (*), fgt = (>), feq = (=)\<rparr>"

definition exact_fpu :: "int fpu" where
  "exact_fpu = \<lparr>float_ops = exact_ops, double_ops = exact_ops, long_double_ops = exact_ops\<rparr>"

definition op_ready :: "'r fpu \<Rightarrow> 'r op_state" where
  "op_ready fpu = snd (the (mpi_init_operations fpu (op_boot static_op [] False)))"

lemma op_ready_init: "mpi_init_operations fpu (op_boot static_op [] False) = Some (0, op_ready fpu)"
proof -
  have "distinct (map fst (op_entries fpu))" by (simp add: op_entries_def)
  moreover have "\<forall>x \<in> set (op_entries fpu). entries_ok (snd x)" using op_entries_ok by blast
  ultimately obtain s where "init_tables (op_entries fpu) (op_boot static_op [] False) = Some (0, s)"
    using init_tables_ok [OF op_boot_ok, of "op_entries fpu" static_op "[]" False] by (auto simp: op_boot_def)
  then show ?thesis by (simp add: op_ready_def mpi_init_operations_def)
qed

text \<open>The operation indices of the predefined datatypes.\<close>

lemma basic_index:
  assumes "t < ULM_NUMBER_OF_TYPES" "t \<noteq> ULM_LB" "t \<noteq> ULM_UB"
  shows "0 \<le> ut_op_index (basic_type t) \<and> nat (ut_op_index (basic_type t)) < NUMBER_OF_BASIC_TYPES"
proof -
  have "\<forall>i \<in> set [0..<34]. i = 20 \<or> i = 21 \<or> 0 \<le> snd (basic_table ! i) \<and> nat (snd (basic_table ! i)) < 26"
    by (simp add: basic_table_def upt_rec)
  moreover have "ut_op_index (basic_type t) = snd (basic_table ! t)"
    by (simp add: basic_type_def Let_def split: prod.splits)
  ultimately show ?thesis using assms by auto
qed

lemma basic_isbasic: "ut_isbasic (basic_type t) = 1"
  by (simp add: basic_type_def Let_def split: prod.splits)

lemma basic_select:
  assumes "mpi_init_operations fpu (op_boot junk allocs th) = Some (0, s)"
    and "t < ULM_NUMBER_OF_TYPES" "t \<noteq> ULM_LB" "t \<noteq> ULM_UB"
  shows "mpi_get_reduction_function (op_addr k) (basic_type t) s =
    Some (Some (op_table fpu k ! nat (ut_op_index (basic_type t))))"
  using select_ok [OF init_operations_ok(3) [OF assms(1)]] basic_index [OF assms(2-4)]
  by (simp add: basic_isbasic)

subsection \<open>The element types of the datatypes\<close>

text \<open>The C type of the elements of each predefined datatype, as the datatypes are named in \<^verbatim>\<open>mpi.h\<close>, whatever index the
  library's table of datatypes has for it: the C types, bytes and packed data, the pairs and the complex numbers, and the
  Fortran types of the same size. \<^verbatim>\<open>MPI_LB\<close> and \<^verbatim>\<open>MPI_UB\<close> have no elements, and there is no C type for \<^verbatim>\<open>MPI_REAL2\<close>.\<close>

abbreviation (input) ULM_REAL2 :: nat where "ULM_REAL2 \<equiv> 26"

datatype elem
  = T_char | T_short | T_int | T_long | T_uchar | T_ushort | T_uint | T_ulong | T_float | T_double | T_ldouble |
  T_packed | T_byte | T_llong | T_float_int | T_double_int | T_long_int | T_int_int | T_short_int |
  T_ldouble_int | T_float_float | T_double_double | T_scomplex | T_dcomplex

definition elem_type :: "nat \<Rightarrow> elem option" where
  "elem_type t =
     [Some T_char, Some T_short, Some T_int, Some T_long, Some T_uchar, Some T_ushort, Some T_uint, Some
      T_ulong, Some T_float, Some T_double, Some T_ldouble, Some T_packed, Some T_byte, Some T_llong, Some
      T_float_int, Some T_double_int, Some T_long_int, Some T_int_int, Some T_short_int, Some T_ldouble_int,
      None, None, Some T_char, Some T_short, Some T_int, Some T_llong, None, Some T_float, Some T_double, Some
      T_scomplex, Some T_dcomplex, Some T_float_float, Some T_double_double, Some T_int_int] ! t"

text \<open>The number of elements of a buffer that is an array of the type, and the size of an element (LP64).\<close>

fun elem_len :: "elem \<Rightarrow> 'r buffer \<Rightarrow> nat option" where
  "elem_len T_char m = map_option length (as_char m)"
| "elem_len T_short m = map_option length (as_short m)"
| "elem_len T_int m = map_option length (as_int m)"
| "elem_len T_long m = map_option length (as_long m)"
| "elem_len T_uchar m = map_option length (as_unsigned_char m)"
| "elem_len T_ushort m = map_option length (as_unsigned_short m)"
| "elem_len T_uint m = map_option length (as_unsigned_int m)"
| "elem_len T_ulong m = map_option length (as_unsigned_long m)"
| "elem_len T_float m = map_option length (as_float m)"
| "elem_len T_double m = map_option length (as_double m)"
| "elem_len T_ldouble m = map_option length (as_long_double m)"
| "elem_len T_packed m = map_option length (as_unsigned_char m)"
| "elem_len T_byte m = map_option length (as_char m)"
| "elem_len T_llong m = map_option length (as_long_long m)"
| "elem_len T_float_int m = map_option length (as_float_int m)"
| "elem_len T_double_int m = map_option length (as_double_int m)"
| "elem_len T_long_int m = map_option length (as_long_int m)"
| "elem_len T_int_int m = map_option length (as_int_int m)"
| "elem_len T_short_int m = map_option length (as_short_int m)"
| "elem_len T_ldouble_int m = map_option length (as_ldouble_int m)"
| "elem_len T_float_float m = map_option length (as_float_float m)"
| "elem_len T_double_double m = map_option length (as_double_double m)"
| "elem_len T_scomplex m = map_option length (as_scomplex m)"
| "elem_len T_dcomplex m = map_option length (as_dcomplex m)"

fun elem_size :: "elem \<Rightarrow> size_t" where
  "elem_size T_char = 1"
| "elem_size T_short = 2"
| "elem_size T_int = 4"
| "elem_size T_long = 8"
| "elem_size T_uchar = 1"
| "elem_size T_ushort = 2"
| "elem_size T_uint = 4"
| "elem_size T_ulong = 8"
| "elem_size T_float = 4"
| "elem_size T_double = 8"
| "elem_size T_ldouble = 16"
| "elem_size T_packed = 1"
| "elem_size T_byte = 1"
| "elem_size T_llong = 8"
| "elem_size T_float_int = 8"
| "elem_size T_double_int = 16"
| "elem_size T_long_int = 16"
| "elem_size T_int_int = 8"
| "elem_size T_short_int = 8"
| "elem_size T_ldouble_int = 32"
| "elem_size T_float_float = 8"
| "elem_size T_double_double = 16"
| "elem_size T_scomplex = 8"
| "elem_size T_dcomplex = 16"

text \<open>The operations that apply to a type, and the arithmetic C leaves undefined on overflow.\<close>

definition applies :: "op_kind \<Rightarrow> elem \<Rightarrow> bool" where
  "applies k c \<longleftrightarrow>
     (let integral = c \<in> {T_char, T_short, T_int, T_long, T_uchar, T_ushort, T_uint, T_ulong, T_llong, T_byte};
          floating = c \<in> {T_float, T_double, T_ldouble} in
      if k \<in> {OP_MAX, OP_MIN} then integral \<or> floating
      else if k \<in> {OP_SUM, OP_PROD} then integral \<or> floating \<or> c \<in> {T_scomplex, T_dcomplex}
      else if k \<in> {OP_MAXLOC, OP_MINLOC} then c \<in> {T_float_int, T_double_int, T_long_int, T_int_int, T_short_int,
        T_ldouble_int, T_float_float, T_double_double}
      else integral)"

definition overflows :: "op_kind \<Rightarrow> elem \<Rightarrow> bool" where
  "overflows k c \<longleftrightarrow> k \<in> {OP_SUM, OP_PROD} \<and> c \<in> {T_int, T_long, T_llong} \<or> k = OP_PROD \<and> c = T_ushort"

text \<open>A function suits an operation on a type: on two arrays of the type it combines the first \<open>n\<close> elements, staying
  inside the arrays.\<close>

definition suits :: "op_kind \<Rightarrow> elem \<Rightarrow> 'r ulm_func \<Rightarrow> bool" where
  "suits k c f \<longleftrightarrow> (\<forall>a b la lb n. elem_len c a = Some la \<longrightarrow> elem_len c b = Some lb \<longrightarrow> n \<le> la \<longrightarrow> n \<le> lb \<longrightarrow>
     (if applies k c
      then (overflows k c \<or> f b a (int n) \<noteq> None)
        \<and> (\<forall>a'. f b a (int n) = Some a' \<longrightarrow> elem_len c a' = Some la \<and> buf_drop n a' = buf_drop n a)
      else f b a (int n) = Some a))"

text \<open>The place of the type in the tables of functions.\<close>

fun elem_index :: "elem \<Rightarrow> nat" where
  "elem_index T_char = 0"
| "elem_index T_short = 1"
| "elem_index T_int = 2"
| "elem_index T_long = 3"
| "elem_index T_uchar = 4"
| "elem_index T_ushort = 5"
| "elem_index T_uint = 6"
| "elem_index T_ulong = 7"
| "elem_index T_float = 8"
| "elem_index T_double = 9"
| "elem_index T_ldouble = 10"
| "elem_index T_packed = 11"
| "elem_index T_byte = 12"
| "elem_index T_llong = 13"
| "elem_index T_float_int = 14"
| "elem_index T_double_int = 15"
| "elem_index T_long_int = 16"
| "elem_index T_int_int = 17"
| "elem_index T_short_int = 18"
| "elem_index T_ldouble_int = 19"
| "elem_index T_float_float = 21"
| "elem_index T_double_double = 22"
| "elem_index T_scomplex = 23"
| "elem_index T_dcomplex = 24"

lemma elem_len_index: "elem_len c = array_len (elem_index c)"
  by (cases c) (simp_all add: array_len_def fun_eq_iff)

lemma applies_index: "applies k c = allowed k (elem_index c)" "overflows k c = may_overflow k (elem_index c)"
  by (cases c; cases k; simp add: applies_def overflows_def allowed_def may_overflow_def index_defs)+

lemma suits_fits: "suits k c f = fits k (elem_index c) f"
  by (simp add: suits_def fits_def elem_len_index applies_index)

lemma elem_type_index:
  assumes "t < ULM_NUMBER_OF_TYPES" and "t \<notin> {ULM_LB, ULM_UB, ULM_REAL2}"
  shows "\<exists>c. elem_type t = Some c \<and> ut_op_index (basic_type t) = int (elem_index c) \<and> ut_extent (basic_type t) = elem_size c"
proof -
  have "\<forall>t \<in> set [0..<34]. t \<in> {20, 21, 26} \<or> (case elem_type t of None \<Rightarrow> False
      | Some c \<Rightarrow> ut_op_index (basic_type t) = int (elem_index c) \<and> ut_extent (basic_type t) = elem_size c)"
    by code_simp
  moreover have "t \<in> set [0..<34]" using assms(1) by simp
  ultimately show ?thesis using assms(2) by (cases "elem_type t") fastforce+
qed

subsection \<open>The selected functions\<close>

text \<open>C10: After the initialisation of the library, \<^verbatim>\<open>_mpi_get_reduction_function\<close> finds a function for every
  predefined operation and every predefined datatype but \<^verbatim>\<open>MPI_LB\<close> and \<^verbatim>\<open>MPI_UB\<close>, whose index -1 or -2
  makes it read in front of the table. For every other datatype but \<^verbatim>\<open>MPI_REAL2\<close> the extent is the size of the datatype's
  C type (\<open>elem_type\<close>) and the function is made for arrays of that type: on two of them with at least \<open>n\<close> elements it is
  defined (unless the arithmetic of C overflows), keeps type and length and leaves every element from \<open>n\<close> on as it is;
  where the operation does not apply to the type it changes nothing. For \<^verbatim>\<open>MPI_REAL2\<close> it finds the function for
  \<^verbatim>\<open>float\<close>, although the extent of the datatype is not the size of a \<^verbatim>\<open>float\<close>.\<close>

theorem reduction_function_fits:
  assumes "mpi_init_operations fpu (op_boot junk allocs th) = Some (0, s)"
    and "t < ULM_NUMBER_OF_TYPES"
  shows "if t = ULM_LB \<or> t = ULM_UB then mpi_get_reduction_function (op_addr k) (basic_type t) s = None
    else if t = ULM_REAL2 then \<exists>f. mpi_get_reduction_function (op_addr k) (basic_type t) s = Some (Some f)
      \<and> suits k T_float f \<and> ut_extent (basic_type t) \<noteq> elem_size T_float
    else \<exists>c f. elem_type t = Some c \<and> ut_extent (basic_type t) = elem_size c
      \<and> mpi_get_reduction_function (op_addr k) (basic_type t) s = Some (Some f) \<and> suits k c f"
proof (cases "t = ULM_LB \<or> t = ULM_UB")
  case True
  then have "ut_op_index (basic_type t) < 0" by (auto simp: basic_type_def basic_table_def)
  then show ?thesis using True init_operations_ok(3) [OF assms(1), of k]
    by (auto simp: has_table_def mpi_get_reduction_function_def basic_isbasic arr_get_def)
next
  case False
  then obtain f where f: "mpi_get_reduction_function (op_addr k) (basic_type t) s = Some (Some f)"
    "fits k (nat (ut_op_index (basic_type t))) f"
    using basic_select [OF assms] basic_index [OF assms(2)] fits_selected by auto
  show ?thesis
  proof (cases "t = ULM_REAL2")
    case True
    have "ut_op_index (basic_type ULM_REAL2) = 8" "ut_extent (basic_type ULM_REAL2) = 2"
      by (simp_all add: basic_type_def basic_table_def)
    with f True show ?thesis by (simp add: suits_fits)
  next
    case real: False
    with elem_type_index [OF assms(2)] False obtain c where
      "elem_type t = Some c" "ut_op_index (basic_type t) = int (elem_index c)" "ut_extent (basic_type t) = elem_size c" by auto
    with f False real show ?thesis by (simp add: suits_fits)
  qed
qed

theorem reduction_function_fits_witness:
  "\<exists>f. mpi_get_reduction_function (op_addr OP_SUM) (basic_type ULM_INT) (op_ready exact_fpu) = Some (Some f)
     \<and> suits OP_SUM T_int f"
  using reduction_function_fits [OF op_ready_init, of ULM_INT OP_SUM exact_fpu]
  by (simp add: elem_type_def)

text \<open>C7: On the nine integer types the ten arithmetic, bitwise and logical operations combine the first \<open>n\<close>
  elements of the two arrays as integers: element \<open>j\<close> becomes the mathematical result, truncated to the
  width and sign of the type, and the elements from \<open>n\<close> on stay. Where C leaves an overflow undefined (sums and
  products of \<^verbatim>\<open>int\<close>, \<^verbatim>\<open>long\<close>, \<^verbatim>\<open>long long\<close> and products of \<^verbatim>\<open>unsigned short\<close>) the results have to fit.\<close>

theorem reduction_on_integers:
  assumes "mpi_init_operations fpu (op_boot junk allocs th) = Some (0, s)"
    and "t < ULM_NUMBER_OF_TYPES" "ut_op_index (basic_type t) = int i" "int_index i"
    and "k \<noteq> OP_MAXLOC" "k \<noteq> OP_MINLOC"
    and "ints i a = Some xs" "ints i b = Some ys" "n \<le> length xs" "n \<le> length ys"
    and "may_overflow k i \<Longrightarrow> \<forall>j < n. representable i (int_op k (xs ! j) (ys ! j))"
  shows "\<exists>f a' zs. mpi_get_reduction_function (op_addr k) (basic_type t) s = Some (Some f)
    \<and> f b a (int n) = Some a' \<and> ints i a' = Some zs \<and> length zs = length xs
    \<and> (\<forall>j < length xs. zs ! j = (if j < n then truncated i (int_op k (xs ! j) (ys ! j)) else xs ! j))"
proof -
  let ?f = "op_table fpu k ! i"
  have "t \<noteq> ULM_LB" "t \<noteq> ULM_UB" using assms(3) by (auto simp: basic_type_def basic_table_def)
  from basic_select [OF assms(1,2) this, of k] have "mpi_get_reduction_function (op_addr k) (basic_type t) s = Some (Some ?f)"
    by (simp add: assms(3))
  moreover have "computes k i ?f" using computes_table assms(4-6) by blast
  then obtain a' where "?f b a (int n) = Some a'"
      "ints i a' = Some (combined (\<lambda>x y. truncated i (int_op k x y)) n xs ys)"
    using assms(7-) unfolding computes_def by metis
  ultimately show ?thesis using assms(9,10) by (auto simp: combined_nth)
qed

theorem reduction_on_integers_witness:
  "\<exists>f a' zs. mpi_get_reduction_function (op_addr OP_SUM) (basic_type ULM_INT) (op_ready exact_fpu) = Some (Some f)
     \<and> f (SInt [5, 6, 7]) (SInt [1, 2, 3]) (int 2) = Some a' \<and> ints 2 a' = Some zs \<and> length zs = length [1::int, 2, 3]
     \<and> (\<forall>j < length [1::int, 2, 3]. zs ! j =
          (if j < 2 then truncated 2 (int_op OP_SUM ([1, 2, 3] ! j) ([5, 6, 7] ! j)) else [1, 2, 3] ! j))"
proof (rule reduction_on_integers [OF op_ready_init])
  show "ut_op_index (basic_type ULM_INT) = int 2" by (simp add: basic_type_def basic_table_def)
  show "\<forall>j < 2. representable 2 (int_op OP_SUM ([1, 2, 3] ! j) ([5, 6, 7] ! j))"
    by (simp add: less_2_cases_iff all_conj_distrib representable_def is_signed_def int_width_def in_srange_def
      All_less_Suc numeral_2_eq_2)
qed (simp_all add: int_index_def ints_def)

subsection \<open>The order of the contributions\<close>

lemma reduce_total:
  assumes f: "fits k i f" and k: "allowed k i" "\<not> may_overflow k i"
    and ms: "ms \<noteq> []" "\<forall>m \<in> set ms. array_len i m = Some n"
  shows "\<exists>r. reduce f (int n) ms = Some r"
proof -
  obtain a bs where a: "ms = a # bs" using ms(1) by (cases ms) auto
  have step: "\<exists>r. f b acc (int n) = Some r \<and> array_len i r = Some n"
    if "b \<in> set bs" "array_len i acc = Some n" for b acc
  proof -
    have "array_len i b = Some n" using that ms(2) a by simp
    with f that(2) have "may_overflow k i \<or> f b acc (int n) \<noteq> None"
        "\<forall>a'. f b acc (int n) = Some a' \<longrightarrow> array_len i a' = Some n"
      using k(1) unfolding fits_def by (metis order_refl)+
    with k(2) show ?thesis by auto
  qed
  from foldM_total [where P = "\<lambda>m. array_len i m = Some n" and f = "\<lambda>acc b. f b acc (int n)" and xs = bs, OF _ step]
  show ?thesis using ms(2) a by (auto simp: reduce_def)
qed

lemma exact_allowed: "exact k i \<Longrightarrow> allowed k i \<and> i < 26"
  by (cases k) (auto simp: exact_def allowed_def index_defs)

text \<open>C8: For the integer types and bytes, and for \<^verbatim>\<open>MPI_MAXLOC\<close> and \<^verbatim>\<open>MPI_MINLOC\<close> on pairs of integers, the result
  of combining the buffers of all processes does not depend on the order in which they are combined, as the
  \<^verbatim>\<open>commute\<close> flag of the predefined operations claims: two runs over the same buffers agree whenever both are
  defined, and without arithmetic that C leaves undefined on overflow both are.\<close>

theorem reduction_order_irrelevant:
  assumes "mpi_init_operations fpu (op_boot junk allocs th) = Some (0, s)"
    and "t < ULM_NUMBER_OF_TYPES" "ut_op_index (basic_type t) = int i" "exact k i"
    and "mpi_get_reduction_function (op_addr k) (basic_type t) s = Some (Some f)"
    and "mset ms = mset ms'" "ms \<noteq> []" "\<forall>m \<in> set ms. array_len i m = Some n"
  shows "(\<forall>r r'. reduce f (int n) ms = Some r \<longrightarrow> reduce f (int n) ms' = Some r' \<longrightarrow> r = r')
    \<and> (may_overflow k i \<or> (\<exists>r. reduce f (int n) ms = Some r \<and> reduce f (int n) ms' = Some r))"
proof -
  have "t \<noteq> ULM_LB" "t \<noteq> ULM_UB" using assms(3) by (auto simp: basic_type_def basic_table_def)
  from basic_select [OF assms(1,2) this, of k] assms(3,5) have f: "f = op_table fpu k ! i" by simp
  have i: "allowed k i" "i < 26" using exact_allowed [OF assms(4)] by auto
  have eq: "\<forall>r r'. reduce f (int n) ms = Some r \<longrightarrow> reduce f (int n) ms' = Some r' \<longrightarrow> r = r'"
    using orderly_table [OF i(2) assms(4), of fpu] assms(6,8) unfolding f orderly_def by blast
  have ms': "ms' \<noteq> []" "\<forall>m \<in> set ms'. array_len i m = Some n" using assms(6-8) by (auto dest: mset_eq_setD)
  have fits: "fits k i f" using fits_selected [OF i(2)] by (simp add: f)
  have "\<exists>r. reduce f (int n) ms = Some r" "\<exists>r. reduce f (int n) ms' = Some r" if "\<not> may_overflow k i"
    using reduce_total [OF fits i(1) that] assms(7,8) ms' by blast+
  with eq show ?thesis by blast
qed

theorem reduction_order_irrelevant_witness:
  "\<exists>f. mpi_get_reduction_function (op_addr OP_MAX) (basic_type ULM_INT) (op_ready exact_fpu) = Some (Some f)
     \<and> (\<exists>r. reduce f (int 2) [SInt [1, 9], SInt [4, 2], SInt [3, 3]] = Some r
          \<and> reduce f (int 2) [SInt [3, 3], SInt [1, 9], SInt [4, 2]] = Some r)"
proof -
  have i: "ut_op_index (basic_type ULM_INT) = int 2" by (simp add: basic_type_def basic_table_def)
  obtain f where f: "mpi_get_reduction_function (op_addr OP_MAX) (basic_type ULM_INT) (op_ready exact_fpu) = Some (Some f)"
    using basic_select [OF op_ready_init, of ULM_INT OP_MAX exact_fpu] by simp
  have "exact OP_MAX 2" "\<not> may_overflow OP_MAX 2" by (simp_all add: exact_def int_index_def may_overflow_def)
  with reduction_order_irrelevant [OF op_ready_init _ i _ f, of "[SInt [1, 9], SInt [4, 2], SInt [3, 3]]"
      "[SInt [3, 3], SInt [1, 9], SInt [4, 2]]" 2] f
  show ?thesis by (auto simp: array_len_def)
qed

subsection \<open>Values with locations\<close>

lemma foldM_pick:
  fixes rank :: "'a \<Rightarrow> 'b::linorder"
  assumes "length a = n" "\<forall>b \<in> set bs. length b = n"
  shows "\<exists>zs. foldM (\<lambda>acc b. for_i (ULM_MAX (\<lambda>x y. rank y < rank x)) 0 (int n) acc b) a bs = Some zs \<and> length zs = n
    \<and> (\<forall>j < n. (\<exists>xs \<in> set (a # bs). zs ! j = xs ! j) \<and> (\<forall>xs \<in> set (a # bs). rank (xs ! j) \<le> rank (zs ! j)))"
  using assms
proof (induction bs arbitrary: a)
  case (Cons b bs)
  let ?c = "combined (ULM_MAX (\<lambda>x y. rank y < rank x)) n a b"
  have c: "for_i (ULM_MAX (\<lambda>x y. rank y < rank x)) 0 (int n) a b = Some ?c" "length ?c = n"
    using Cons.prems by (simp_all add: for_i_nat)
  have pick: "?c ! j = (if rank (a ! j) < rank (b ! j) then b ! j else a ! j)" if "j < n" for j
    using that Cons.prems by (simp add: combined_nth ULM_MAX_def)
  from Cons.IH [OF c(2)] Cons.prems obtain zs where
    z: "foldM (\<lambda>acc b. for_i (ULM_MAX (\<lambda>x y. rank y < rank x)) 0 (int n) acc b) ?c bs = Some zs" "length zs = n"
      "\<And>j. j < n \<Longrightarrow> (\<exists>xs \<in> set (?c # bs). zs ! j = xs ! j) \<and> (\<forall>xs \<in> set (?c # bs). rank (xs ! j) \<le> rank (zs ! j))"
    by auto
  have "(\<exists>xs \<in> set (a # b # bs). zs ! j = xs ! j) \<and> (\<forall>xs \<in> set (a # b # bs). rank (xs ! j) \<le> rank (zs ! j))"
    if "j < n" for j
    using z(3) [OF that] pick [OF that] by (auto split: if_splits)
  with z(1,2) c show ?case by auto
qed simp

lemma rank_le:
  "maxloc_rank x \<le> maxloc_rank z \<longleftrightarrow> sint (val x) < sint (val z) \<or> val x = val z \<and> sint (loc z) \<le> sint (loc x)"
  "minloc_rank x \<le> minloc_rank z \<longleftrightarrow> sint (val z) < sint (val x) \<or> val x = val z \<and> sint (loc x) \<le> sint (loc z)"
  by (auto simp: maxloc_rank_def minloc_rank_def sint_eq)

lemma reduce_pick:
  fixes rank :: "(32 word, 32 word) loc_t \<Rightarrow> 'b::linorder"
  assumes f: "\<And>b a n. f b a n = do {x \<leftarrow> as_int_int a; y \<leftarrow> as_int_int b;
      map_option IntInt (for_i (ULM_MAX (\<lambda>x y. rank y < rank x)) 0 n x y)}"
    and "xss \<noteq> []" "\<forall>xs \<in> set xss. length xs = n"
  shows "\<exists>zs. reduce f (int n) (map IntInt xss) = Some (IntInt zs) \<and> length zs = n
    \<and> (\<forall>j < n. (\<exists>xs \<in> set xss. zs ! j = xs ! j) \<and> (\<forall>xs \<in> set xss. rank (xs ! j) \<le> rank (zs ! j)))"
proof -
  obtain a bs where a: "xss = a # bs" using assms(2) by (cases xss) auto
  have "reduce f (int n) (map IntInt xss) =
      map_option IntInt (foldM (\<lambda>acc b. for_i (ULM_MAX (\<lambda>x y. rank y < rank x)) 0 (int n) acc b) a bs)"
    by (simp add: reduce_def a reduce_cast [OF casts_ok(17) f])
  with foldM_pick [of a n bs rank] assms(3) a show ?thesis by auto
qed

text \<open>C39: Reducing pairs of integers with \<^verbatim>\<open>MPI_MAXLOC\<close> (\<^verbatim>\<open>ulm_imaxloc\<close>) yields, in every position, one of the
  contributed pairs: one with the greatest value and, among those, the lowest location. With \<^verbatim>\<open>MPI_MINLOC\<close>
  (\<^verbatim>\<open>ulm_iminloc\<close>) it is one with the least value and, among those, the \<^emph>\<open>highest\<close> location, where the MPI
  standard asks for the lowest.\<close>

theorem loc_reductions_choose:
  assumes "xss \<noteq> []" "\<forall>xs \<in> set xss. length xs = n"
  shows "(\<exists>zs. reduce ulm_imaxloc (int n) (map IntInt xss) = Some (IntInt zs) \<and> length zs = n
      \<and> (\<forall>j < n. (\<exists>xs \<in> set xss. zs ! j = xs ! j)
          \<and> (\<forall>xs \<in> set xss. sint (val (xs ! j)) < sint (val (zs ! j))
              \<or> val (xs ! j) = val (zs ! j) \<and> sint (loc (zs ! j)) \<le> sint (loc (xs ! j)))))
    \<and> (\<exists>zs. reduce ulm_iminloc (int n) (map IntInt xss) = Some (IntInt zs) \<and> length zs = n
      \<and> (\<forall>j < n. (\<exists>xs \<in> set xss. zs ! j = xs ! j)
          \<and> (\<forall>xs \<in> set xss. sint (val (zs ! j)) < sint (val (xs ! j))
              \<or> val (xs ! j) = val (zs ! j) \<and> sint (loc (xs ! j)) \<le> sint (loc (zs ! j)))))"
  using reduce_pick [of ulm_imaxloc maxloc_rank, OF _ assms] reduce_pick [of ulm_iminloc minloc_rank, OF _ assms]
  by (simp add: ulm_imaxloc_def ulm_iminloc_def maxloc_pick minloc_pick rank_le)

theorem loc_reductions_choose_witness:
  "\<exists>zs. reduce ulm_iminloc (int 1) (map IntInt [[\<lparr>val = 7, loc = 0\<rparr>], [\<lparr>val = 7, loc = 3\<rparr>]]) = Some (IntInt zs)
     \<and> length zs = 1 \<and> sint (loc (zs ! 0)) = 3"
  using loc_reductions_choose [of "[[\<lparr>val = 7, loc = 0\<rparr>], [\<lparr>val = 7, loc = 3\<rparr>]]" 1] by fastforce

subsection \<open>Complex products\<close>

text \<open>C40: In exact arithmetic the real parts that \<^verbatim>\<open>ulm_scprod\<close> stores are those of the complex products, but the
  imaginary part is computed from the real part that was just overwritten: it is right exactly where the second
  factor is real or the real part of the product equals that of the first factor.\<close>

theorem complex_product_imaginary:
  assumes "n \<le> length xs" "n \<le> length ys"
  shows "\<exists>zs. ulm_scprod exact_fpu (SComplex ys) (SComplex xs) (int n) = Some (SComplex zs) \<and> length zs = length xs
    \<and> (\<forall>j < n. re (zs ! j) = re (xs ! j) * re (ys ! j) - im (xs ! j) * im (ys ! j)
        \<and> (im (zs ! j) = re (xs ! j) * im (ys ! j) + im (xs ! j) * re (ys ! j)
            \<longleftrightarrow> im (ys ! j) = 0 \<or> re (zs ! j) = re (xs ! j)))"
  using assms
  by (auto simp: ulm_scprod_def for_i_nat combined_nth complex_prod_def exact_fpu_def exact_ops_def Let_def)

theorem complex_product_imaginary_witness:
  "\<exists>zs. ulm_scprod exact_fpu (SComplex [\<lparr>re = 0, im = 1\<rparr>]) (SComplex [\<lparr>re = 0, im = 1\<rparr>]) (int 1) = Some (SComplex zs)
     \<and> re (zs ! 0) = - 1 \<and> im (zs ! 0) \<noteq> 0"
  using complex_product_imaginary [of 1 "[\<lparr>re = 0, im = 1\<rparr>]" "[\<lparr>re = 0, im = 1\<rparr>]"] by auto

subsection \<open>User-defined operations\<close>

lemma user_op_select:
  "user_op s op a f \<Longrightarrow> mpi_get_reduction_function op ty s = Some (Some f)"
  by (auto simp: user_op_def mpi_get_reduction_function_def arr_get_def)

lemma select_same:
  assumes "os_mem s' op = os_mem s op" "func_of s op = Some a" "os_mem s' a = os_mem s a"
  shows "mpi_get_reduction_function op ty s' = mpi_get_reduction_function op ty s"
  using assms by (auto simp: mpi_get_reduction_function_def read_op_def read_funcs_def func_of_def split: bind_splits)

text \<open>The cells of an operation that is held or predefined.\<close>

lemma life_inv_cells:
  assumes "life_inv fpu held s" "op \<in> set held \<or> op \<in> range op_addr"
  shows "\<exists>a. func_of s op = Some a \<and> os_mem s op \<noteq> None \<and> os_mem s a \<noteq> None"
proof (cases "op \<in> set held")
  case True
  then obtain a f where u: "user_op s op a f" using assms(1) by (auto simp: life_inv_def held_ok_def)
  then show ?thesis using user_op_func [OF u]
    by (auto simp: user_op_def read_op_def read_funcs_def split: option.splits)
next
  case False
  then obtain k where "op = op_addr k" using assms(2) by blast
  moreover have "has_table s k (map Some (op_table fpu k))" using assms(1) by (simp add: life_inv_def predefined_ok_def)
  ultimately show ?thesis by (auto simp: has_table_func read_op_def read_funcs_def split: option.splits)
qed

text \<open>C9: in a program that creates and frees operations (\<open>op_reach\<close>; creations may fail for lack of memory, but the
  allocations that \<^verbatim>\<open>MPI_Op_free\<close> makes for its table of freeable pointers succeed), an operation it holds selects the very
  function that was passed to \<^verbatim>\<open>MPI_Op_create\<close>, for any datatype. \<^verbatim>\<open>MPI_Op_free\<close> on it succeeds and clears the handle. While
  messages are pending it changes nothing in memory, so that a reduction in progress can still use the operation;
  otherwise it releases exactly the two blocks of the operation and those of all operations freed before that are still
  allocated, each once (a second release would be undefined). The other operations the program holds still select the
  functions they were created with, and the predefined ones what they selected before.\<close>

theorem op_free_safe:
  assumes "op_reach fpu held freed s" "(op, f) \<in> set held" "False \<notin> set (os_allocs s)"
  shows "\<exists>a s'. (\<forall>ty. mpi_get_reduction_function op ty s = Some (Some f)) \<and> func_of s op = Some a
    \<and> PMPI_Op_free pending (Some (Some op)) s = Some (MPI_SUCCESS, Some None, s')
    \<and> os_mem s' = (if pending then os_mem s else os_mem s |` (- ({op, a} \<union> freed)))
    \<and> (\<forall>(other, g) \<in> set held. other \<noteq> op \<longrightarrow> (\<forall>ty. mpi_get_reduction_function other ty s' = Some (Some g)))
    \<and> (\<forall>k ty. mpi_get_reduction_function (op_addr k) ty s' = mpi_get_reduction_function (op_addr k) ty s)"
proof -
  note inv = op_reach_inv [OF assms(1)]
  from prog_inv_free [OF inv assms(2,3), of pending] obtain a s' where
    s': "user_op s op a f" "PMPI_Op_free pending (Some (Some op)) s = Some (MPI_SUCCESS, Some None, s')"
      "prog_inv fpu (filter (\<lambda>x. fst x \<noteq> op) held) ({op, a} \<union> freed) s'"
      "os_mem s' = (if pending then os_mem s else os_mem s |` (- ({op, a} \<union> freed)))" by blast
  have "mpi_get_reduction_function (op_addr k) ty s' = mpi_get_reduction_function (op_addr k) ty s" for k ty
  proof -
    have "life_inv fpu (map fst (filter (\<lambda>x. fst x \<noteq> op) held)) s'" using s'(3) by (simp add: prog_inv_def)
    from life_inv_cells [OF this, of "op_addr k"] obtain a' where
      a': "func_of s' (op_addr k) = Some a'" "os_mem s' (op_addr k) \<noteq> None" "os_mem s' a' \<noteq> None" by auto
    have "os_mem s' p = None \<or> os_mem s' p = os_mem s p" for p by (simp add: s'(4) restrict_map_def)
    with a' show ?thesis by (intro select_same [symmetric, OF _ a'(1)]) metis+
  qed
  moreover have "mpi_get_reduction_function other ty s' = Some (Some g)" if "(other, g) \<in> set held" "other \<noteq> op" for other g ty
    using s'(3) that user_op_select by (fastforce simp: prog_inv_def)
  ultimately show ?thesis using s'(1,2,4) user_op_select [OF s'(1)] user_op_func [OF s'(1)] by blast
qed

lemma init_tables_allocs: "init_tables es s = Some (rc, s') \<Longrightarrow> os_allocs s = [] \<Longrightarrow> os_allocs s' = []"
  by (induction es s rule: init_tables.induct)
    (auto simp: malloc_cell_def next_alloc_def write_cell_def split: bind_splits)

lemma Op_create_returns:
  "os_allocs s = [] \<Longrightarrow> \<exists>s'. PMPI_Op_create f commute mop s = Some (MPI_SUCCESS, Some (os_next s), s') \<and> os_allocs s' = []
     \<and> os_next s' = Suc (Suc (os_next s)) \<and> func_of s' (os_next s) = Some (Suc (os_next s))
     \<and> (\<forall>q < os_next s. func_of s' q = func_of s q)"
  by (simp add: PMPI_Op_create_def malloc_cell_def next_alloc_def write_cell_def read_op_def func_of_def)

lemma free_table_add_allocs: "free_table_add p s = Some (h, s') \<Longrightarrow> os_allocs s = [] \<longrightarrow> os_allocs s' = []"
  by (auto simp: free_table_add_def next_alloc_def Let_def bind_eq_Some_conv split: if_splits prod.splits)

lemma Op_free_allocs: "os_allocs s = [] \<Longrightarrow> PMPI_Op_free True mop s = Some (rc, mop', s') \<Longrightarrow> os_allocs s' = []"
  by (auto simp: PMPI_Op_free_def op_errhandler_def bind_eq_Some_conv split: if_splits option.splits prod.splits
      dest!: free_table_add_allocs)

text \<open>A program that creates two operations, frees the first while a message is pending and then the second.\<close>

theorem op_free_safe_witness:
  "\<exists>s p q s'. p \<noteq> q \<and> op_reach exact_fpu [(q, ulm_isum)] {p, Suc p} s
     \<and> PMPI_Op_free False (Some (Some q)) s = Some (MPI_SUCCESS, Some None, s')
     \<and> os_mem s p \<noteq> None \<and> os_mem s' p = None \<and> os_mem s' (Suc p) = None \<and> os_mem s' q = None"
proof -
  have b: "op_reach exact_fpu [] {} (op_ready exact_fpu)" by (rule op_reach.boot [OF op_ready_init])
  have al: "os_allocs (op_ready exact_fpu) = []"
    using init_tables_allocs [OF op_ready_init [unfolded mpi_init_operations_def]] by (simp add: op_boot_def)
  let ?n = "os_next (op_ready exact_fpu)"
  from Op_create_returns [OF al, of ulm_null 1 None] obtain s1 where
    c1: "PMPI_Op_create ulm_null 1 None (op_ready exact_fpu) = Some (MPI_SUCCESS, Some ?n, s1)" "os_allocs s1 = []"
      "os_next s1 = Suc (Suc ?n)" "func_of s1 ?n = Some (Suc ?n)" by blast
  from Op_create_returns [OF c1(2), of ulm_isum 1 None] c1(3) obtain s2 where
    c2: "PMPI_Op_create ulm_isum 1 None s1 = Some (MPI_SUCCESS, Some (Suc (Suc ?n)), s2)" "os_allocs s2 = []"
      "func_of s2 ?n = Some (Suc ?n)" using c1(4) by auto
  have r2: "op_reach exact_fpu [(Suc (Suc ?n), ulm_isum), (?n, ulm_null)] {} s2"
    by (rule op_reach.create [OF op_reach.create [OF b c1(1)] c2(1)])
  from op_free_safe [OF r2, of ?n ulm_null True] c2(2,3) obtain s3 where
    f: "PMPI_Op_free True (Some (Some ?n)) s2 = Some (MPI_SUCCESS, Some None, s3)" "os_mem s3 = os_mem s2" by auto
  have r3: "op_reach exact_fpu [(Suc (Suc ?n), ulm_isum)] {?n, Suc ?n} s3"
    using op_reach.free [OF r2 _ _ f(1) c2(3)] c2(2) by simp
  have al3: "os_allocs s3 = []" by (rule Op_free_allocs [OF c2(2) f(1)])
  have "os_mem s3 ?n \<noteq> None" using c2(3) f(2) by (auto simp: func_of_def read_op_def split: option.splits bind_splits)
  moreover from op_free_safe [OF r3, of "Suc (Suc ?n)" ulm_isum False] al3 obtain a s4 where
    "PMPI_Op_free False (Some (Some (Suc (Suc ?n)))) s3 = Some (MPI_SUCCESS, Some None, s4)"
    "os_mem s4 = os_mem s3 |` (- ({Suc (Suc ?n), a} \<union> {?n, Suc ?n}))" by auto
  ultimately show ?thesis using r3
    by (intro exI [of _ s3] exI [of _ ?n] exI [of _ "Suc (Suc ?n)"] exI [of _ s4]) (simp add: restrict_map_def)
qed

end
