(* ===== verification/Spec2Isabelle.thy ===== *)
theory Spec2Isabelle
  imports Ptr_Table Dims Datatype_Props Datatype_Life Topology_Props Topology_Create
    Coll_Tree_Order Errhandler_Props Reliability_Live Match_Session Dbl_List_Session Group_Session
    Reduction_Props
begin

text \<open>
  \<^bold>\<open>LA-MPI: a verification development\<close>

  LA-MPI is an implementation of the message passing interface MPI for clusters whose networks may lose, repeat and damage
  data. This library models the parts of it (under \<^verbatim>\<open>src/src\<close>) that carry logic of their own and proves what makes
  them correct. The program has three layers. The MPI layer (\<^verbatim>\<open>mpi/c\<close>, \<^verbatim>\<open>mpi/internal\<close>) checks arguments, keeps the objects a
  program names by handles (datatypes, operations, error handlers, topologies) and calls the layer below. That layer
  (\<^verbatim>\<open>interface\<close>, \<^verbatim>\<open>queue\<close>, \<^verbatim>\<open>collective\<close>, \<^verbatim>\<open>util\<close>) has groups and communicators, the queues in which receives and message
  fragments meet, the collective trees and the protocol that makes delivery reliable. At the bottom the paths (\<^verbatim>\<open>path\<close>)
  drive the network devices. Fragments come in through a path, pass the duplicate check, are matched against the
  posted receives, copied to the application and acknowledged; the acknowledgements release the fragments the sender keeps.

  \<^bold>\<open>Conventions\<close> (theory \<open>Lampi_Prelude\<close>). A C or C++ function is a HOL function on its arguments and the state it
  uses, with an \<open>option\<close> as result. \<open>None\<close> is a call without a defined result: a null, dangling or uninitialised pointer is used, an array
  is left, an \<^verbatim>\<open>assert\<close> fails, an \<^verbatim>\<open>int\<close> operation overflows (\<open>c_int\<close>), the process exits, or the call does not return. \<open>Some\<close> is a
  normal return with the code first; errors are return codes. Sizes, offsets and sequence numbers are 64-bit words; the
  platform is LP64 with a signed \<^verbatim>\<open>char\<close>. The outcome of coming allocations is a list of booleans in the state (success when it
  runs out), the contents of fresh memory an argument. One thread runs; a lock that is held already is a wait that never
  ends, and where locks guard nothing but other threads they are left out. Floating-point arithmetic is a parameter (\<open>fpu\<close>), as is the
  communicator layer for the topology functions (\<open>comm_ops\<close>).

  \<^bold>\<open>The theories, by component\<close>

  \<^item> Handle tables: \<open>Ptr_Table\<close> (\<^verbatim>\<open>mpi/internal/mpi_ptr_table.c\<close>). A growing array of pointers with a first free slot. The locale
    \<open>handle_table\<close> is its contract; the table refines a finite map, and handles stay valid while they are held.
  \<^item> Dimensions: \<open>Dims\<close> (\<^verbatim>\<open>mpi/c/mpi_dims_create.c\<close>). The factorisation loops are partial functions and shown to end; the
    result is a grid of the right size, in descending order, with the fixed dimensions kept.
  \<^item> Datatypes: \<open>Typemap\<close> (the loops of the constructors and the bytes a type map denotes), \<open>Datatype\<close> (\<^verbatim>\<open>mpi/c/mpi_type_vector.c\<close>,
    \<^verbatim>\<open>hvector\<close>, \<^verbatim>\<open>contiguous\<close>, \<^verbatim>\<open>indexed\<close>, \<^verbatim>\<open>hindexed\<close>, \<^verbatim>\<open>struct\<close>), \<open>Datatype_Query\<close> (commit, inquiry, \<^verbatim>\<open>interface/ulm_type_free.cc\<close>),
    \<open>Datatype_Basic\<close> (\<^verbatim>\<open>mpi/internal/mpi_type.c\<close> and the Fortran table of \<^verbatim>\<open>mpif_type.c\<close>). \<open>Datatype_Store\<close> and \<open>Datatype_Construct\<close> show what
    each constructor adds to the store of types, \<open>Datatype_Refcount\<close> the invariant of the reference counts, \<open>Datatype_Commit\<close> the packed
    layout, \<open>Datatype_Session\<close> sequences of calls; \<open>Datatype_Props\<close> and \<open>Datatype_Life\<close> hold the claims: the bytes of new types, no
    dangling or leaked type, envelopes that give the arguments of the constructor back.
  \<^item> Topologies: \<open>Comm\<close> (the table of communicators), \<open>Topology\<close> (\<^verbatim>\<open>mpi/c/mpi_cart_*.c\<close>, \<^verbatim>\<open>mpi_graph_*.c\<close>), \<open>Topology_Props\<close> and
    \<open>Topology_Create\<close>: ranks and coordinates are inverse, shifts, creation, neighbours.
  \<^item> Collective trees: \<open>Coll_Tree\<close> (\<^verbatim>\<open>collective/coll_tree.c\<close>), \<open>Coll_Tree_Props\<close> (the shape in closed form, and the locales
    \<open>parent_tree\<close> and \<open>node_order\<close>), \<open>Coll_Tree_Setup\<close> (the loops), \<open>Coll_Tree_Order\<close> (the claims, and the interpretations for the
    scatter and the gather order).
  \<^item> Error handlers: \<open>Errhandler\<close>, \<open>Errhandler_Props\<close> (\<^verbatim>\<open>mpi/internal/mpi_errhandler.c\<close>, \<^verbatim>\<open>mpi/c/mpi_errhandler_*.c\<close>): programs over their own
    handles refine a map from communicators to handler functions.
  \<^item> Sequence tracking lists: \<open>Seq_List\<close> (\<^verbatim>\<open>queue/SeqTrackingList.{h,cc}\<close>), sets of sequence numbers as circular lists of ranges in an
    array that grows and shrinks. \<open>Seq_Heap\<close>, \<open>Seq_Array\<close>, \<open>Seq_Ranges\<close>, \<open>Seq_Search\<close>, \<open>Seq_Ops\<close>, \<open>Seq_Erase\<close> and \<open>Seq_Memory\<close> relate the
    pointers to lists of ranges, \<open>Seq_Props\<close> and \<open>Seq_Session\<close> to sets of numbers.
  \<^item> Doubly linked lists: \<open>Lampi_Links\<close>, \<open>Dbl_List\<close> (\<^verbatim>\<open>util/DblLinkList.{h,cc}\<close>, \<^verbatim>\<open>util/Links.h\<close>), \<open>Dbl_List_Props\<close>, \<open>Dbl_List_Session\<close>: any
    number of lists over one heap of links are sequences (locale \<open>heap_lists\<close>).
  \<^item> Reliability protocol: \<open>Reliability\<close> (\<^verbatim>\<open>queue/ReliabilityInfo.{h,cc}\<close>, the checks of \<^verbatim>\<open>queue/Pt2PtGroupRecvFrags.cc\<close>, \<^verbatim>\<open>SendUnsentAcks\<close> of
    \<^verbatim>\<open>Pt2PtGroupMisc.cc\<close>, the acknowledgements of \<^verbatim>\<open>path/common/BaseDesc.cc\<close>, \<^verbatim>\<open>path.h\<close>, \<^verbatim>\<open>path.cc\<close> and of the udp and gm paths),
    \<open>Reliability_Props\<close>, \<open>Reliability_System\<close> (sender, receiver and network as a step relation) and \<open>Reliability_Live\<close>: at most one
    delivery and no early release, a way for every kept fragment to get through, and the cases where the code fails.
  \<^item> Matching: \<open>Match\<close> (\<^verbatim>\<open>queue/Pt2PtGroupRecvFrags.cc\<close>, \<^verbatim>\<open>MatchFrags\<close>, \<^verbatim>\<open>MatchRecv\<close>, \<^verbatim>\<open>Recv\<close>, \<^verbatim>\<open>Misc\<close> and the copying functions of
    \<^verbatim>\<open>BaseDesc.cc\<close>), \<open>Match_Lists\<close>, \<open>Match_Posted\<close>, \<open>Match_Frag\<close>, \<open>Match_Inv\<close>, \<open>Match_Serve\<close>, \<open>Match_Post\<close>, \<open>Match_Ahead\<close>, \<open>Match_Arrive\<close> and
    \<open>Match_Session\<close>: every call returns and keeps the invariant, receives take the earliest message, messages the oldest receive, and
    nothing that matches is left waiting.
  \<^item> Groups: \<open>Group\<close> (\<^verbatim>\<open>queue/Group.{h,cc}\<close>), \<open>Group_Pool\<close> (\<^verbatim>\<open>interface/ulm_group_*.cc\<close>), \<open>Group_Create\<close>, \<open>Group_Ops\<close>, \<open>Group_Range\<close>,
    \<open>Group_Select\<close>, \<open>Group_Session\<close>: the group operations refine the operations on lists of processes that the standard defines, and the
    maps of a group agree with each other.
  \<^item> Reductions: \<open>Reduction\<close> (the 137 functions of \<^verbatim>\<open>interface/ulm_binary_functions.cc\<close>), \<open>Reduction_Table\<close> (\<^verbatim>\<open>mpi/internal/mpi_op.c\<close>,
    \<^verbatim>\<open>mpi/c/mpi_op_create.c\<close>, \<^verbatim>\<open>mpi_op_free.c\<close>), \<open>Reduction_Loops\<close>, \<open>Reduction_Init\<close>, \<open>Reduction_Types\<close>, \<open>Reduction_Ints\<close>, \<open>Reduction_Order\<close> (locale
    \<open>reduction\<close>), \<open>Reduction_Life\<close>, \<open>Reduction_Session\<close> and \<open>Reduction_Props\<close>: the function selected suits the datatype, computes the
    mathematical operation, does not depend on the order, and operations are released once, when no message is pending.

  \<^bold>\<open>Termination, fuel and bounds\<close>. Loops over arrays are structural recursions or have a measure. The searches of the tracking
  lists and the factorisation loops are partial functions; the theorems say that they return. Recursion along a tree or along the
  envelopes of datatypes has fuel: the number of nodes, and one more than the number of addresses handed out; children have larger
  numbers than their parents and the types of an envelope smaller addresses than the type itself, so this is enough, and the theorems state that the calls return.

  \<^bold>\<open>Where the code is wrong\<close>. Some theorems state what the code does where it does not do what it is meant to: the second delivery
  after a retried negative acknowledgement, duplicates that are never acknowledged, the tag that is not recorded, \<^verbatim>\<open>range_excl\<close>, the imaginary
  part of complex products, the location \<^verbatim>\<open>MPI_MINLOC\<close> chooses, the extents of vectors, pointers kept across a move of the
  array in \<^verbatim>\<open>SeqTrackingList\<close>. Sessions exclude the calls for which the code is undefined, and the text before each claim says which.

  \<^bold>\<open>Not modelled\<close>. The network paths and device drivers, start-up and process management, and the shared-memory allocators, which are
  input and output or memory layout; the construction of communicators and the collective algorithms, which exchange messages between processes;
  the sending half of the message engine and the progress loop; the entry points of the MPI layer that only check
  arguments and call the engine, and the Fortran bindings. Within the modelled parts, what is left out is said at the beginning of each theory.
\<close>

end
